(* ===== verification/Fw_Prelude.thy ===== *)
theory Fw_Prelude
  imports Main "HOL-Library.Word"
begin

unbundle bit_operations_syntax

text \<open>
  Shared vocabulary of the development: the fixed-width integers of the firmware
  (\<open>uint8_t\<close>, \<open>uint16_t\<close>, \<open>uint32_t\<close>), little-endian reads and writes of byte
  buffers, and the generic list and word lemmas the component theories use.
  A C byte buffer is a list of 8-bit words; a read \<open>p[i]\<close> is \<open>p ! i\<close> and is only
  used where the code has checked the bound; a write \<open>p[i]=v\<close> is \<open>p[i := v]\<close>.
\<close>

section \<open>Types\<close>

type_synonym u8 = "8 word"
type_synonym u16 = "16 word"
type_synonym u32 = "32 word"

type_synonym bytes = "u8 list"

text \<open>Collections of facts the component proofs draw on.\<close>

named_theorems fw_unfold \<open>definitions a component unfolds as a group\<close>
named_theorems fw_len \<open>lengths of the buffers the operations build\<close>

section \<open>Bytes of a word\<close>

lemma bit_u8_bound [dest]: "bit (a :: u8) n \<Longrightarrow> n < 8"
  by (drule bit_imp_le_length) simp

lemma ucast_u16_cat:
  fixes a b :: u8
  shows "ucast (ucast a OR push_bit 8 (ucast b) :: u16) = a"
  by (rule bit_word_eqI) (simp add: bit_simps)

lemma ucast_drop_u16_cat:
  fixes a b :: u8
  shows "ucast (drop_bit 8 (ucast a OR push_bit 8 (ucast b) :: u16)) = b"
  by (rule bit_word_eqI) (auto simp: bit_simps dest: bit_u8_bound)

lemma u16_cat_split:
  fixes n :: u16
  shows "ucast (ucast n :: u8) OR push_bit 8 (ucast (ucast (drop_bit 8 n) :: u8)) = n"
  by (rule bit_word_eqI) (auto simp: bit_simps)

lemma u32_cat_split:
  fixes n :: u32
  shows "ucast (ucast n :: u8)
      OR push_bit 8 (ucast (ucast (drop_bit 8 n) :: u8))
      OR push_bit 16 (ucast (ucast (drop_bit 16 n) :: u8))
      OR push_bit 24 (ucast (ucast (drop_bit 24 n) :: u8)) = n"
proof (rule bit_word_eqI)
  fix k assume "k < LENGTH(32)"
  then have "k < 8 \<or> 8 \<le> k \<and> k < 16 \<or> 16 \<le> k \<and> k < 24 \<or> 24 \<le> k \<and> k < 32" by auto
  then show "bit (ucast (ucast n :: u8)
      OR push_bit 8 (ucast (ucast (drop_bit 8 n) :: u8))
      OR push_bit 16 (ucast (ucast (drop_bit 16 n) :: u8))
      OR push_bit 24 (ucast (ucast (drop_bit 24 n) :: u8)) :: u32) k = bit n k"
    by (elim disjE) (auto simp: bit_simps)
qed

lemma u32_cat_bytes:
  fixes a b c d :: u8
  defines "w \<equiv> ucast a OR push_bit 8 (ucast b) OR push_bit 16 (ucast c) OR push_bit 24 (ucast d) :: u32"
  shows "ucast w = a" "ucast (drop_bit 8 w) = b" "ucast (drop_bit 16 w) = c" "ucast (drop_bit 24 w) = d"
  unfolding w_def by ((rule bit_word_eqI, auto simp: bit_simps)[1])+

section \<open>Little-endian access to byte buffers\<close>

definition rd16 :: "bytes \<Rightarrow> nat \<Rightarrow> u16" where
  "rd16 p i = ucast (p ! i) OR push_bit 8 (ucast (p ! (i + 1)))"

definition rd32 :: "bytes \<Rightarrow> nat \<Rightarrow> u32" where
  "rd32 p i = ucast (p ! i) OR push_bit 8 (ucast (p ! (i + 1)))
      OR push_bit 16 (ucast (p ! (i + 2))) OR push_bit 24 (ucast (p ! (i + 3)))"

definition wr16 :: "u16 \<Rightarrow> bytes" where
  "wr16 n = [ucast n, ucast (drop_bit 8 n)]"

definition wr32 :: "u32 \<Rightarrow> bytes" where
  "wr32 n = [ucast n, ucast (drop_bit 8 n), ucast (drop_bit 16 n), ucast (drop_bit 24 n)]"

lemma length_wr16 [simp]: "length (wr16 n) = 2"
  by (simp add: wr16_def)

lemma length_wr32 [simp]: "length (wr32 n) = 4"
  by (simp add: wr32_def)

lemma wr16_nth [simp]: "wr16 n ! 0 = ucast n" "wr16 n ! Suc 0 = ucast (drop_bit 8 n)"
  by (simp_all add: wr16_def)

lemma rd16_wr16 [simp]: "rd16 (wr16 n) 0 = n"
proof -
  have "rd16 [a, b] 0 = ucast a OR push_bit 8 (ucast b)" for a b by (simp add: rd16_def)
  then show ?thesis unfolding wr16_def by (simp only: u16_cat_split)
qed

lemma rd32_wr32 [simp]: "rd32 (wr32 n) 0 = n"
proof -
  have "rd32 [a, b, c, d] 0 = ucast a OR push_bit 8 (ucast b) OR push_bit 16 (ucast c) OR push_bit 24 (ucast d)"
    for a b c d by (simp add: rd32_def numeral_eq_Suc)
  then show ?thesis unfolding wr32_def by (simp only: u32_cat_split)
qed

lemma wr16_rd16: "wr16 (rd16 p i) = [p ! i, p ! (i + 1)]"
  unfolding rd16_def wr16_def by (simp only: ucast_u16_cat ucast_drop_u16_cat)

lemma wr32_rd32: "wr32 (rd32 p i) = [p ! i, p ! (i + 1), p ! (i + 2), p ! (i + 3)]"
  unfolding rd32_def wr32_def by (simp only: u32_cat_bytes)

lemma rd16_append1:
  assumes "i + 1 < length xs"
  shows "rd16 (xs @ ys) i = rd16 xs i"
  using assms by (simp add: rd16_def nth_append)

lemma rd16_append2: "rd16 (xs @ ys) (length xs + i) = rd16 ys i"
  by (simp add: rd16_def nth_append)

lemma rd32_append2: "rd32 (xs @ ys) (length xs + i) = rd32 ys i"
  by (simp add: rd32_def nth_append)

lemma rd16_at: "length xs = k \<Longrightarrow> rd16 (xs @ wr16 v @ zs) k = v"
  using rd16_append2[of xs "wr16 v @ zs" 0] rd16_append1[of 0 "wr16 v" zs] by simp

lemma rd32_append1: "i + 3 < length xs \<Longrightarrow> rd32 (xs @ ys) i = rd32 xs i"
  by (simp add: rd32_def nth_append)

lemma rd32_at: "length xs = k \<Longrightarrow> rd32 (xs @ wr32 v @ zs) k = v"
  using rd32_append2[of xs "wr32 v @ zs" 0] rd32_append1[of 0 "wr32 v" zs] by simp

lemma rd16_drop: "k + i + 1 < length xs \<Longrightarrow> rd16 (drop k xs) i = rd16 xs (k + i)"
  by (simp add: rd16_def)

lemma rd16_take: "i + 1 < k \<Longrightarrow> rd16 (take k xs) i = rd16 xs i"
  by (simp add: rd16_def)

lemma rd16_eq0_iff: "rd16 p i = 0 \<longleftrightarrow> p ! i = 0 \<and> p ! (i + 1) = 0"
proof
  assume "rd16 p i = 0"
  then have "wr16 (rd16 p i) = wr16 0" by simp
  then show "p ! i = 0 \<and> p ! (i + 1) = 0" by (simp add: wr16_rd16) (simp add: wr16_def)
qed (simp add: rd16_def)

lemma u16_of_nat: "k < 65536 \<Longrightarrow> unat (of_nat k :: u16) = k"
  by (simp add: unat_of_nat)

lemma u8_of_nat: "k < 256 \<Longrightarrow> unat (of_nat k :: u8) = k"
  by (simp add: unat_of_nat)

lemma u32_of_nat: "k < 4294967296 \<Longrightarrow> unat (of_nat k :: u32) = k"
  by (simp add: unat_of_nat)

lemma unat_u8_bound: "unat (x :: u8) < 256"
proof -
  have "unat x < 2 ^ LENGTH(8)" by (rule unsigned_less)
  then show ?thesis by simp
qed

lemma unat_u16_bound: "unat (x :: u16) < 65536"
proof -
  have "unat x < 2 ^ LENGTH(16)" by (rule unsigned_less)
  then show ?thesis by simp
qed

lemma unat_u32_bound: "unat (x :: u32) < 4294967296"
proof -
  have "unat x < 2 ^ LENGTH(32)" by (rule unsigned_less)
  then show ?thesis by simp
qed

lemma unat_ucast_u8: "unat (ucast (x :: u8) :: u16) = unat x" "unat (ucast x :: u32) = unat x"
  using unat_u8_bound[of x] by (simp_all add: unsigned_ucast_eq take_bit_nat_eq_self)

lemma unat_ucast_u16: "unat (ucast (x :: u16) :: u32) = unat x"
  using unat_u16_bound[of x] by (simp add: unsigned_ucast_eq take_bit_nat_eq_self)

section \<open>Generic list lemmas\<close>

lemma take_drop_split3:
  assumes "a \<le> b" "b \<le> length xs"
  shows "xs = take a xs @ take (b - a) (drop a xs) @ drop b xs"
  using assms by (metis append_take_drop_id drop_drop le_add_diff_inverse2)

lemma list_2_conv: "length xs = 2 \<Longrightarrow> xs = [xs ! 0, xs ! 1]"
  by (cases xs; cases "tl xs") auto

lemma take_as_map: "k \<le> length xs \<Longrightarrow> take k xs = map ((!) xs) [0..<k]"
  by (rule nth_equalityI) simp_all

lemma take_drop_Suc2: "k + 1 < length xs \<Longrightarrow> take 2 (drop k xs) = [xs ! k, xs ! (k + 1)]"
  by (simp add: take_as_map upt_rec numeral_eq_Suc)

lemma nth_cons_numeral [simp]: "(x # xs) ! numeral k = xs ! (pred_numeral k)"
  by (simp add: numeral_eq_Suc)

section \<open>Stores into a buffer\<close>

text \<open>\<open>memcpy(w + i, bs, n)\<close>, and the unrolled byte stores of the code.\<close>

definition store_at :: "'a list \<Rightarrow> nat \<Rightarrow> 'a list \<Rightarrow> 'a list" where
  "store_at w i bs = take i w @ bs @ drop (i + length bs) w"

lemma length_store_at [simp]: "i + length bs \<le> length w \<Longrightarrow> length (store_at w i bs) = length w"
  by (simp add: store_at_def)

lemma store_at_Nil [simp]: "store_at w i [] = w"
  by (simp add: store_at_def)

lemma take_store_at_before: "k \<le> i \<Longrightarrow> i \<le> length w \<Longrightarrow> take k (store_at w i bs) = take k w"
  by (simp add: store_at_def)

lemma drop_store_at_after:
  "i + length bs \<le> k \<Longrightarrow> i \<le> length w \<Longrightarrow> drop k (store_at w i bs) = drop k w"
  by (simp add: store_at_def min_absorb2)

lemma nth_store_at:
  assumes "i + length bs \<le> length w" "j < length w"
  shows "store_at w i bs ! j = (if i \<le> j \<and> j < i + length bs then bs ! (j - i) else w ! j)"
  using assms by (auto simp: store_at_def nth_append)

lemma store_at_append: "length xs = i \<Longrightarrow> store_at (xs @ ys) i bs = xs @ bs @ drop (length bs) ys"
  by (auto simp: store_at_def)

lemma take_Suc_update: "k < length xs \<Longrightarrow> take (Suc k) (xs[k := v]) = take k xs @ [v]"
  by (simp add: take_Suc_conv_app_nth)

end
