(* ===== verification/Crc_Codes.thy ===== *)
theory Crc_Codes
  imports Fw_Prelude
begin

text \<open>
  The checksums of the firmware. Four source files carry their own copy of
  CRC-16/CCITT-FALSE or CRC-32/IEEE, written in different styles; each copy is
  translated as it is written, the copies of one code are proved equal, and the
  error-detection contract is proved once, in the locales \<open>byte_crc\<close> and
  \<open>burst_crc\<close>, and interpreted on the translated update functions.
\<close>

section \<open>CRC-16/CCITT-FALSE\<close>

text \<open>One shift of the register, as \<open>binary_frame_crc16_update\<close> writes it.\<close>

definition crc16_step :: "u16 \<Rightarrow> u16" where
  "crc16_step crc =
     (if crc AND 0x8000 \<noteq> 0 then push_bit 1 crc XOR 0x1021 else push_bit 1 crc)"

definition binary_frame_crc16_update :: "u16 \<Rightarrow> u8 \<Rightarrow> u16" where
  "binary_frame_crc16_update crc byte = (crc16_step ^^ 8) (crc XOR push_bit 8 (ucast byte))"

text \<open>A null \<open>data\<close> pointer is \<open>None\<close>; \<open>Some bs\<close> is a buffer of at least \<open>len\<close> bytes.\<close>

definition binary_frame_crc16_ccitt_false :: "bytes option \<Rightarrow> nat \<Rightarrow> u16" where
  "binary_frame_crc16_ccitt_false data len =
     (case data of
        None \<Rightarrow> if len \<noteq> 0 then 0 else 0xFFFF
      | Some bs \<Rightarrow> foldl binary_frame_crc16_update 0xFFFF (take len bs))"

text \<open>The node-link copy widens the register to 32 bits, shifts, and truncates.\<close>

definition dnl_crc16_step :: "u16 \<Rightarrow> u16" where
  "dnl_crc16_step crc =
     ucast (if crc AND 0x8000 \<noteq> 0 then push_bit 1 (ucast crc :: u32) XOR 0x1021
            else push_bit 1 (ucast crc :: u32))"

definition dnl_crc16_ccitt_false :: "bytes option \<Rightarrow> nat \<Rightarrow> u16" where
  "dnl_crc16_ccitt_false data n =
     (case data of
        None \<Rightarrow> if n \<noteq> 0 then 0 else 0xFFFF
      | Some bs \<Rightarrow>
          foldl (\<lambda>crc b. (dnl_crc16_step ^^ 8) (crc XOR push_bit 8 (ucast b))) 0xFFFF (take n bs))"

text \<open>The bootloader's copy.\<close>

definition boot_crc16_step :: "u16 \<Rightarrow> u16" where
  "boot_crc16_step crc =
     (if crc AND 0x8000 \<noteq> 0 then ucast (push_bit 1 (ucast crc :: u32) XOR 0x1021)
      else ucast (push_bit 1 (ucast crc :: u32)))"

definition crc16_ccitt :: "bytes \<Rightarrow> nat \<Rightarrow> u16" where
  "crc16_ccitt data n =
     foldl (\<lambda>crc b. (boot_crc16_step ^^ 8) (crc XOR push_bit 8 (ucast b))) 0xFFFF (take n data)"

section \<open>CRC-32/IEEE\<close>

definition dnl_crc32_step :: "u32 \<Rightarrow> u32" where
  "dnl_crc32_step crc =
     (if crc AND 1 \<noteq> 0 then drop_bit 1 crc XOR 0xEDB88320 else drop_bit 1 crc)"

definition dnl_crc32_ieee :: "bytes option \<Rightarrow> nat \<Rightarrow> u32" where
  "dnl_crc32_ieee data n =
     (case data of
        None \<Rightarrow> if n \<noteq> 0 then 0 else 0xFFFFFFFF XOR 0xFFFFFFFF
      | Some bs \<Rightarrow>
          foldl (\<lambda>crc b. (dnl_crc32_step ^^ 8) (crc XOR ucast b)) 0xFFFFFFFF (take n bs)
            XOR 0xFFFFFFFF)"

text \<open>The persistence copy selects the polynomial with a mask instead of a branch.\<close>

definition asset_crc32_step :: "u32 \<Rightarrow> u32" where
  "asset_crc32_step crc = drop_bit 1 crc XOR (0xEDB88320 AND (0 - (crc AND 1)))"

definition asset_crc32_update :: "u32 \<Rightarrow> u8 \<Rightarrow> u32" where
  "asset_crc32_update crc v = (asset_crc32_step ^^ 8) (crc XOR ucast v)"

section \<open>The copies agree\<close>

lemma ucast_shl1: "(ucast (push_bit 1 (ucast (c :: u16) :: u32)) :: u16) = push_bit 1 c"
  by (rule bit_word_eqI) (auto simp only: bit_simps, auto)

lemma ucast_xor_u16:
  "(ucast ((a :: u32) XOR b) :: u16) = ucast a XOR ucast b"
  by (rule bit_word_eqI) (auto simp: bit_simps)

lemma dnl_crc16_step_eq: "dnl_crc16_step = crc16_step"
  by (rule ext) (simp only: dnl_crc16_step_def crc16_step_def ucast_shl1 ucast_xor_u16 split: if_split, simp)

lemma boot_crc16_step_eq: "boot_crc16_step = crc16_step"
  by (rule ext) (simp only: boot_crc16_step_def crc16_step_def ucast_shl1 ucast_xor_u16 split: if_split, simp)

lemma dnl_crc16_eq_frame: "dnl_crc16_ccitt_false = binary_frame_crc16_ccitt_false"
  by (intro ext) (simp add: dnl_crc16_ccitt_false_def binary_frame_crc16_ccitt_false_def
      binary_frame_crc16_update_def dnl_crc16_step_eq cong: foldl_cong split: option.split)

lemma boot_crc16_eq_frame: "crc16_ccitt bs n = binary_frame_crc16_ccitt_false (Some bs) n"
  by (simp add: crc16_ccitt_def binary_frame_crc16_ccitt_false_def
      binary_frame_crc16_update_def boot_crc16_step_eq cong: foldl_cong)

lemma asset_crc32_step_eq: "asset_crc32_step = dnl_crc32_step"
proof
  fix c :: u32
  have "c AND 1 = 0 \<or> c AND 1 = 1"
    by (metis and_one_eq parity_cases)
  then show "asset_crc32_step c = dnl_crc32_step c"
    by (auto simp: asset_crc32_step_def dnl_crc32_step_def)
qed

lemma dnl_crc32_as_update:
  "dnl_crc32_ieee (Some bs) n = foldl asset_crc32_update 0xFFFFFFFF (take n bs) XOR 0xFFFFFFFF"
  by (simp add: dnl_crc32_ieee_def asset_crc32_update_def[abs_def] asset_crc32_step_eq)

section \<open>Error detection\<close>

locale byte_crc =
  fixes upd :: "'c \<Rightarrow> 'b \<Rightarrow> 'c"
  assumes inj_state: "upd c b = upd c' b \<Longrightarrow> c = c'"
    and inj_byte: "upd c b = upd c b' \<Longrightarrow> b = b'"
begin

lemma foldl_inj_state: "foldl upd c bs = foldl upd c' bs \<Longrightarrow> c = c'"
  by (induction bs arbitrary: c c') (auto dest: inj_state)

lemma one_byte_detected:
  assumes "i < length bs" and "v \<noteq> bs ! i"
  shows "foldl upd c (bs[i := v]) \<noteq> foldl upd c bs"
proof
  assume eq: "foldl upd c (bs[i := v]) = foldl upd c bs"
  have "bs[i := v] = take i bs @ v # drop (Suc i) bs"
    and "bs = take i bs @ bs ! i # drop (Suc i) bs"
    using assms(1) by (simp_all add: upd_conv_take_nth_drop id_take_nth_drop)
  then have "foldl upd (upd (foldl upd c (take i bs)) v) (drop (Suc i) bs)
      = foldl upd (upd (foldl upd c (take i bs)) (bs ! i)) (drop (Suc i) bs)"
    using eq by (metis foldl_Cons foldl_append)
  from foldl_inj_state[OF this] have "v = bs ! i" by (rule inj_byte)
  with assms(2) show False ..
qed

end

locale burst_crc = byte_crc upd for upd :: "'c \<Rightarrow> 'b \<Rightarrow> 'c" +
  assumes inj_pair: "upd (upd c a) b = upd (upd c a') b' \<Longrightarrow> a = a' \<and> b = b'"
begin

lemma two_byte_burst_detected:
  assumes "foldl upd c (ps @ [a, b] @ ss) = foldl upd c (ps @ [a', b'] @ ss)"
  shows "a = a' \<and> b = b'"
proof -
  from assms have "foldl upd (upd (upd (foldl upd c ps) a) b) ss
      = foldl upd (upd (upd (foldl upd c ps) a') b') ss" by simp
  from foldl_inj_state[OF this] show ?thesis by (rule inj_pair)
qed

end

subsection \<open>CRC-16: the register shift is linear and invertible\<close>

lemma and_pow2_bit: "x AND 0x8000 \<noteq> 0 \<longleftrightarrow> bit (x :: u16) 15"
proof -
  have "(0x8000 :: u16) = push_bit 15 1" by simp
  then show ?thesis by (metis and_exp_eq_0_iff_not_bit push_bit_of_1)
qed

lemma crc16_step_bit:
  "crc16_step x = push_bit 1 x XOR (if bit x 15 then 0x1021 else 0)"
  by (simp add: crc16_step_def and_pow2_bit del: push_bit_eq_0_iff)

lemma crc16_step_xor: "crc16_step (x XOR y) = crc16_step x XOR crc16_step y"
proof -
  have "push_bit 1 (x XOR y) = push_bit 1 x XOR push_bit 1 y"
    by (rule push_bit_xor)
  then show ?thesis
    unfolding crc16_step_bit bit_xor_iff
    by (cases "bit x 15"; cases "bit y 15") (simp_all add: ac_simps xor.left_commute)
qed

lemma bit0_1021: "bit (0x1021 :: u16) 0"
  by simp

lemma crc16_step_zero: "crc16_step x = 0 \<Longrightarrow> x = 0"
proof -
  assume z: "crc16_step x = 0"
  then have "\<not> bit (crc16_step x) 0" by simp
  then have top: "\<not> bit x 15"
    unfolding crc16_step_bit bit_xor_iff bit_push_bit_iff using bit0_1021 by auto
  with z have p: "push_bit 1 x = 0" by (simp add: crc16_step_bit del: push_bit_eq_0_iff)
  show "x = 0"
  proof (rule bit_word_eqI)
    fix n assume "n < LENGTH(16)"
    then show "bit x n = bit 0 n"
    proof (cases "n = 15")
      case True then show ?thesis using top by simp
    next
      case False
      then have "bit (push_bit 1 x) (Suc n) = bit x n"
        using \<open>n < LENGTH(16)\<close>
        by (simp only: bit_simps) auto
      then show ?thesis using p by simp
    qed
  qed
qed

lemma xor_cancel_word: "(a :: 'a::len word) XOR b = 0 \<longleftrightarrow> a = b"
  by (metis xor.assoc xor.left_neutral xor.right_neutral xor_self_eq)

lemma linear_pow_xor:
  fixes s :: "'a::len word \<Rightarrow> 'a word"
  assumes "\<And>x y. s (x XOR y) = s x XOR s y"
  shows "(s ^^ k) (x XOR y) = (s ^^ k) x XOR (s ^^ k) y"
  by (induction k) (simp_all add: assms)

lemma linear_pow_inj:
  fixes s :: "'a::len word \<Rightarrow> 'a word"
  assumes lin: "\<And>x y. s (x XOR y) = s x XOR s y" and ker: "\<And>x. s x = 0 \<Longrightarrow> x = 0"
    and eq: "(s ^^ k) x = (s ^^ k) y"
  shows "x = y"
  using eq
proof (induction k)
  case (Suc k)
  then have "s ((s ^^ k) x XOR (s ^^ k) y) = 0" by (simp add: lin)
  from ker[OF this] show ?case using Suc.IH by (simp add: xor_cancel_word)
qed simp

lemmas crc16_pow_xor = linear_pow_xor[of crc16_step, OF crc16_step_xor]

lemma crc16_pow_inj: "(crc16_step ^^ k) x = (crc16_step ^^ k) y \<Longrightarrow> x = y"
  by (rule linear_pow_inj[of crc16_step]) (auto intro: crc16_step_xor crc16_step_zero)

lemma crc16_step_low: "k < 8 \<Longrightarrow>
   crc16_step (push_bit k (ucast (v :: u8))) = push_bit (Suc k) (ucast v)"
  by (auto simp: crc16_step_bit bit_simps push_bit_push_bit[of 1])

lemma crc16_pow_low: "k \<le> 8 \<Longrightarrow> (crc16_step ^^ k) (ucast (v :: u8)) = push_bit k (ucast v)"
proof (induction k)
  case (Suc k)
  then have "(crc16_step ^^ Suc k) (ucast v) = crc16_step (push_bit k (ucast v))" by simp
  also have "\<dots> = push_bit (Suc k) (ucast v)" using Suc.prems by (intro crc16_step_low) simp
  finally show ?case .
qed simp

lemma push8_inj: "push_bit 8 (ucast (a :: u8) :: u16) = push_bit 8 (ucast b) \<Longrightarrow> a = b"
proof -
  assume eq: "push_bit 8 (ucast a :: u16) = push_bit 8 (ucast b)"
  show "a = b"
  proof (rule bit_word_eqI)
    fix n assume "n < LENGTH(8)"
    moreover have "bit (push_bit 8 (ucast a :: u16)) (n + 8) = bit (push_bit 8 (ucast b :: u16)) (n + 8)"
      by (simp only: eq)
    ultimately show "bit a n = bit b n" by (auto simp: bit_simps)
  qed
qed

lemma xor_left_cancel_word: "(c :: 'a::len word) XOR a = c XOR b \<longleftrightarrow> a = b"
  by (metis xor.assoc xor.left_neutral xor_self_eq)

lemma xor_right_cancel_word: "(a :: 'a::len word) XOR c = b XOR c \<longleftrightarrow> a = b"
  by (metis xor.commute xor_left_cancel_word)

lemma crc16_inj_pair:
  assumes "binary_frame_crc16_update (binary_frame_crc16_update c a) b
         = binary_frame_crc16_update (binary_frame_crc16_update c a') b'"
  shows "a = a' \<and> b = b'"
proof -
  let ?S = "crc16_step ^^ 8" and ?h = "\<lambda>x :: u8. push_bit 8 (ucast x) :: u16"
  from assms have "?S (c XOR ?h a) XOR ?h b = ?S (c XOR ?h a') XOR ?h b'"
    unfolding binary_frame_crc16_update_def by (rule crc16_pow_inj)
  moreover have "?h b = ?S (ucast b)" "?h b' = ?S (ucast b')"
    by (simp_all only: crc16_pow_low order_refl)
  ultimately have "?S ((c XOR ?h a) XOR ucast b) = ?S ((c XOR ?h a') XOR ucast b')"
    by (simp only: crc16_pow_xor)
  then have "(c XOR ?h a) XOR ucast b = (c XOR ?h a') XOR ucast b'"
    by (rule crc16_pow_inj)
  then have w: "?h a XOR ucast b = ?h a' XOR ucast b'"
    by (simp only: xor.assoc xor_left_cancel_word)
  have bits: "bit (?h x XOR ucast y) n = (if n < 8 then bit y n else bit x (n - 8) \<and> n < 16)" for x y :: u8 and n
    by (auto simp: bit_simps)
  have "bit a n = bit a' n" "bit b n = bit b' n" if "n < LENGTH(8)" for n
    using arg_cong[OF w, of "\<lambda>z. bit z (n + 8)"] arg_cong[OF w, of "\<lambda>z. bit z n"] that
    unfolding bits by simp_all
  then show ?thesis by (auto intro: bit_word_eqI)
qed

interpretation crc16: burst_crc binary_frame_crc16_update
proof unfold_locales
  fix c c' :: u16 and b b' :: u8
  show "binary_frame_crc16_update c b = binary_frame_crc16_update c' b \<Longrightarrow> c = c'"
    unfolding binary_frame_crc16_update_def by (drule crc16_pow_inj) (simp add: xor_right_cancel_word)
  show "binary_frame_crc16_update c b = binary_frame_crc16_update c b' \<Longrightarrow> b = b'"
    unfolding binary_frame_crc16_update_def
    by (drule crc16_pow_inj) (simp only: xor_left_cancel_word, rule push8_inj)
qed (rule crc16_inj_pair)

subsection \<open>CRC-32: the same contract\<close>

lemma crc32_step_bit:
  "dnl_crc32_step x = drop_bit 1 x XOR (if bit x 0 then 0xEDB88320 else 0)"
proof -
  have "x AND 1 \<noteq> 0 \<longleftrightarrow> bit x 0"
    by (metis and_exp_eq_0_iff_not_bit push_bit_0_id id_apply power_0)
  then show ?thesis unfolding dnl_crc32_step_def by simp
qed

lemma crc32_step_xor: "dnl_crc32_step (x XOR y) = dnl_crc32_step x XOR dnl_crc32_step y"
proof -
  have "drop_bit 1 (x XOR y) = drop_bit 1 x XOR drop_bit 1 y"
    by (rule drop_bit_xor)
  then show ?thesis
    unfolding crc32_step_bit bit_xor_iff
    by (cases "bit x 0"; cases "bit y 0") (simp_all add: ac_simps xor.left_commute)
qed

lemma bit31_poly: "bit (0xEDB88320 :: u32) 31"
  by simp

lemma crc32_step_zero: "dnl_crc32_step x = 0 \<Longrightarrow> x = 0"
proof -
  assume z: "dnl_crc32_step x = 0"
  then have "\<not> bit (dnl_crc32_step x) 31" by simp
  then have low: "\<not> bit x 0"
    using bit31_poly bit_imp_le_length[of x 32]
    by (auto simp: crc32_step_bit bit_xor_iff bit_drop_bit_eq split: if_splits)
  with z have p: "drop_bit 1 x = 0" by (simp add: crc32_step_bit)
  show "x = 0"
  proof (rule bit_word_eqI)
    fix n assume "n < LENGTH(32)"
    show "bit x n = bit 0 n"
    proof (cases n)
      case 0 then show ?thesis using low by simp
    next
      case (Suc m)
      have "bit (drop_bit 1 x) m = bit x (Suc m)" by (simp add: bit_drop_bit_eq)
      then show ?thesis using p Suc by simp
    qed
  qed
qed

lemmas crc32_pow_xor = linear_pow_xor[of dnl_crc32_step, OF crc32_step_xor]

lemma crc32_pow_inj: "(dnl_crc32_step ^^ k) x = (dnl_crc32_step ^^ k) y \<Longrightarrow> x = y"
  by (rule linear_pow_inj[of dnl_crc32_step]) (auto intro: crc32_step_xor crc32_step_zero)

lemma crc32_step_high: "k < 8 \<Longrightarrow>
   dnl_crc32_step (drop_bit k (push_bit 8 (ucast (v :: u8)))) = drop_bit (Suc k) (push_bit 8 (ucast v))"
  by (auto simp: crc32_step_bit bit_simps drop_bit_drop_bit[of 1])

lemma crc32_pow_high:
  "k \<le> 8 \<Longrightarrow> (dnl_crc32_step ^^ k) (push_bit 8 (ucast (v :: u8))) = drop_bit k (push_bit 8 (ucast v))"
proof (induction k)
  case (Suc k)
  then have "(dnl_crc32_step ^^ Suc k) (push_bit 8 (ucast v))
      = dnl_crc32_step (drop_bit k (push_bit 8 (ucast v)))" by simp
  also have "\<dots> = drop_bit (Suc k) (push_bit 8 (ucast v))" using Suc.prems by (intro crc32_step_high) simp
  finally show ?case .
qed simp

lemma drop8_push8: "drop_bit 8 (push_bit 8 (ucast (v :: u8) :: u32)) = ucast v"
  by (rule bit_word_eqI) (auto simp: bit_simps)

lemma asset_update_as_step: "asset_crc32_update c v = (dnl_crc32_step ^^ 8) (c XOR ucast v)"
  by (simp add: asset_crc32_update_def asset_crc32_step_eq)

lemma ucast_u8_u32_inj: "(ucast (a :: u8) :: u32) = ucast b \<Longrightarrow> a = b"
proof -
  assume eq: "(ucast a :: u32) = ucast b"
  show "a = b"
  proof (rule bit_word_eqI)
    fix n assume "n < LENGTH(8)"
    with arg_cong[OF eq, of "\<lambda>w. bit w n"] show "bit a n = bit b n" by (simp add: bit_simps)
  qed
qed

lemma crc32_inj_pair:
  assumes "asset_crc32_update (asset_crc32_update c a) b = asset_crc32_update (asset_crc32_update c a') b'"
  shows "a = a' \<and> b = b'"
proof -
  let ?S = "dnl_crc32_step ^^ 8" and ?h = "\<lambda>x :: u8. push_bit 8 (ucast x) :: u32"
  from assms have "?S (c XOR ucast a) XOR ucast b = ?S (c XOR ucast a') XOR ucast b'"
    unfolding asset_update_as_step by (rule crc32_pow_inj)
  moreover have "ucast b = ?S (?h b)" "ucast b' = ?S (?h b')"
    by (simp_all only: crc32_pow_high order_refl drop8_push8)
  ultimately have "?S ((c XOR ucast a) XOR ?h b) = ?S ((c XOR ucast a') XOR ?h b')"
    by (simp only: crc32_pow_xor)
  then have "(c XOR ucast a) XOR ?h b = (c XOR ucast a') XOR ?h b'"
    by (rule crc32_pow_inj)
  then have w: "ucast a XOR ?h b = ucast a' XOR ?h b'"
    by (simp only: xor.assoc xor_left_cancel_word)
  have bits: "bit (ucast y XOR ?h x) n = (if n < 8 then bit y n else bit x (n - 8) \<and> n < 16)" for x y :: u8 and n
    by (auto simp: bit_simps)
  have "bit b n = bit b' n" "bit a n = bit a' n" if "n < LENGTH(8)" for n
    using arg_cong[OF w, of "\<lambda>z. bit z (n + 8)"] arg_cong[OF w, of "\<lambda>z. bit z n"] that
    unfolding bits by simp_all
  then show ?thesis by (auto intro: bit_word_eqI)
qed

interpretation crc32: burst_crc asset_crc32_update
proof unfold_locales
  fix c c' :: u32 and b b' :: u8
  show "asset_crc32_update c b = asset_crc32_update c' b \<Longrightarrow> c = c'"
    unfolding asset_update_as_step by (drule crc32_pow_inj) (simp add: xor_right_cancel_word)
  show "asset_crc32_update c b = asset_crc32_update c b' \<Longrightarrow> b = b'"
    unfolding asset_update_as_step
    by (drule crc32_pow_inj) (simp only: xor_left_cancel_word, rule ucast_u8_u32_inj)
qed (rule crc32_inj_pair)

text \<open>The detection facts over the functions the code calls.\<close>

lemma frame_crc_one_byte_detected:
  assumes "i < n" "n \<le> length bs" "v \<noteq> bs ! i"
  shows "binary_frame_crc16_ccitt_false (Some (bs[i := v])) n \<noteq> binary_frame_crc16_ccitt_false (Some bs) n"
  using crc16.one_byte_detected[of i "take n bs" v "0xFFFF"] assms
  by (simp add: binary_frame_crc16_ccitt_false_def take_update_swap)

section \<open>A checked byte string\<close>

lemma wr16_inj: "wr16 a = wr16 b \<Longrightarrow> a = b"
  by (metis rd16_wr16)

text \<open>Two checked byte strings of one length never differ in exactly one place.\<close>

lemma checked_no_single_error:
  assumes a: "a = [x, y] @ m @ wr16 (foldl binary_frame_crc16_update c m)"
    and b: "b = [x, y] @ m' @ wr16 (foldl binary_frame_crc16_update c m')"
    and len: "length m' = length m" and upd: "b = a[i := v]" and i: "i < length a" "v \<noteq> a ! i"
  shows False
proof -
  let ?crc = "foldl binary_frame_crc16_update c"
  consider "i < 2" | j where "i = 2 + j" "j < length m" | j where "i = 2 + length m + j" "j < 2"
    using i(1) a by (fastforce dest: le_Suc_ex simp: not_less)
  then show False
  proof cases
    case 1
    then have "i = 0 \<or> i = 1" by auto
    then show False using a b upd i(2) by auto
  next
    case 2
    then have eq: "[x, y] @ m' @ wr16 (?crc m') = [x, y] @ m[j := v] @ wr16 (?crc m)"
      using a b upd by (simp add: list_update_append)
    with len have "m' = m[j := v]" "wr16 (?crc m') = wr16 (?crc m)" by auto
    moreover have "v \<noteq> m ! j" using i(2) a 2 by (simp add: nth_append)
    ultimately show False using crc16.one_byte_detected[OF 2(2), of v c] by (metis wr16_inj)
  next
    case 3
    then have b3: "b = [x, y] @ m @ (wr16 (?crc m))[j := v]"
      using a upd by (simp add: list_update_append)
    with b have "m' @ wr16 (?crc m') = m @ (wr16 (?crc m))[j := v]" by (metis append_same_eq same_append_eq)
    with len have mm: "m' = m" and "wr16 (?crc m') = (wr16 (?crc m))[j := v]"
      by (metis append_eq_append_conv)+
    then have "wr16 (?crc m) ! j = v" using 3 by (metis length_wr16 nth_list_update_eq)
    with i(2) a 3 show False by (simp add: nth_append)
  qed
qed

end
