(* ===== verification/Node_Link_Codec.thy ===== *)
theory Node_Link_Codec
  imports Crc_Codes
begin

unbundle bit_operations_syntax

text \<open>
  The Deus Node Link v0 codec (\<open>src/shared/node_link/src/deus_node_link.c\<close>): frames,
  their encoding to bytes, decoding, and payload validation. A pointer the C code
  tests for null is an option. An output buffer is its capacity (\<open>None\<close> when the
  buffer or the length pointer is null); what a function stores through it is the
  byte list it returns, which is empty where the code stores the length 0.
\<close>

section \<open>Constants and types\<close>

abbreviation (input) DNL_HELLO :: u8 where "DNL_HELLO \<equiv> 0x01"
abbreviation (input) DNL_PING :: u8 where "DNL_PING \<equiv> 0x02"
abbreviation (input) DNL_JOB_CRC32 :: u8 where "DNL_JOB_CRC32 \<equiv> 0x03"
abbreviation (input) DNL_GET_STATUS :: u8 where "DNL_GET_STATUS \<equiv> 0x04"
abbreviation (input) DNL_HELLO_ACK :: u8 where "DNL_HELLO_ACK \<equiv> 0x81"
abbreviation (input) DNL_PONG :: u8 where "DNL_PONG \<equiv> 0x82"
abbreviation (input) DNL_JOB_RESULT :: u8 where "DNL_JOB_RESULT \<equiv> 0x83"
abbreviation (input) DNL_STATUS :: u8 where "DNL_STATUS \<equiv> 0x84"
abbreviation (input) DNL_ERROR :: u8 where "DNL_ERROR \<equiv> 0xff"

abbreviation (input) DNL_ERR_UNSUPPORTED :: u8 where "DNL_ERR_UNSUPPORTED \<equiv> 1"
abbreviation (input) DNL_ERR_BAD_PAYLOAD :: u8 where "DNL_ERR_BAD_PAYLOAD \<equiv> 2"
abbreviation (input) DNL_ERR_BAD_SEQUENCE :: u8 where "DNL_ERR_BAD_SEQUENCE \<equiv> 4"

abbreviation (input) DNL_MAX_PAYLOAD :: nat where "DNL_MAX_PAYLOAD \<equiv> 24"
abbreviation (input) DNL_MAX_FRAME :: nat where "DNL_MAX_FRAME \<equiv> 40"
abbreviation (input) DNL_FRAME_OVERHEAD :: nat where "DNL_FRAME_OVERHEAD \<equiv> 16"
abbreviation (input) DNL_MAX_JOB_BYTES :: u8 where "DNL_MAX_JOB_BYTES \<equiv> 16"

datatype dnl_status =
    DNL_OK | DNL_DROP | DNL_BAD_ARGUMENT | DNL_BAD_FRAME | DNL_BAD_MESSAGE
  | DNL_OUTPUT_TOO_SMALL | DNL_NO_SESSION | DNL_WRONG_DIRECTION | DNL_UNSOLICITED
  | DNL_STALE_SESSION | DNL_WRONG_SEQUENCE | DNL_WRONG_REPLY_TYPE
  | DNL_BAD_RESULT_LENGTH | DNL_BAD_HELLO_ECHO | DNL_REMOTE_ERROR
  | DNL_REHANDSHAKE_REQUIRED | DNL_NOT_READY_OR_BUSY | DNL_ALREADY_RETRIED

record dnl_frame =
  fr_type :: u8
  fr_sequence :: u16
  fr_session_id :: u32
  fr_payload_length :: u8
  fr_payload :: bytes

text \<open>\<open>memset(&f, 0, sizeof f)\<close>, and the payload array after a write at its front.\<close>

definition dnl_frame_zero :: dnl_frame where
  "dnl_frame_zero = \<lparr>fr_type = 0, fr_sequence = 0, fr_session_id = 0, fr_payload_length = 0,
     fr_payload = replicate DNL_MAX_PAYLOAD 0\<rparr>"

definition dnl_payload_of :: "bytes \<Rightarrow> bytes" where
  "dnl_payload_of bs = bs @ replicate (DNL_MAX_PAYLOAD - length bs) 0"

section \<open>Operations\<close>

definition dnl_is_request :: "u8 \<Rightarrow> bool" where
  "dnl_is_request t \<longleftrightarrow> t \<ge> 1 \<and> t \<le> 4"

definition dnl_is_reply :: "u8 \<Rightarrow> bool" where
  "dnl_is_reply t \<longleftrightarrow> t = 0x81 \<or> t = 0x82 \<or> t = 0x83 \<or> t = 0x84 \<or> t = 0xff"

definition dnl_response_timeout_ms :: "u8 \<Rightarrow> u32" where
  "dnl_response_timeout_ms t =
     (if t = DNL_JOB_CRC32 then 500
      else if t = DNL_HELLO \<or> t = DNL_PING \<or> t = DNL_GET_STATUS then 200
      else 0)"

definition dnl_body :: "dnl_frame \<Rightarrow> bytes" where
  "dnl_body f =
     [0xd5, 0x4e, 1, fr_type f, 1, 0] @ wr16 (fr_sequence f) @ [fr_payload_length f, 0]
       @ wr32 (fr_session_id f) @ take (unat (fr_payload_length f)) (fr_payload f)"

definition dnl_encode :: "dnl_frame option \<Rightarrow> nat option \<Rightarrow> dnl_status \<times> bytes" where
  "dnl_encode f out = (case (f, out) of
     (Some f, Some cap) \<Rightarrow>
       if fr_sequence f = 0 \<or> unat (fr_payload_length f) > DNL_MAX_PAYLOAD then (DNL_BAD_MESSAGE, [])
       else let n = DNL_FRAME_OVERHEAD + unat (fr_payload_length f) in
         if cap < n then (DNL_OUTPUT_TOO_SMALL, [])
         else let checksum = dnl_crc16_ccitt_false (Some (drop 2 (dnl_body f))) (n - 4)
           in (DNL_OK, dnl_body f @ wr16 checksum)
   | _ \<Rightarrow> (DNL_BAD_ARGUMENT, []))"

definition dnl_decode :: "bytes option \<Rightarrow> nat \<Rightarrow> dnl_status \<times> dnl_frame option" where
  "dnl_decode buf n = (case buf of
     None \<Rightarrow> (DNL_BAD_ARGUMENT, None)
   | Some b \<Rightarrow>
       if n < 16 \<or> n > 40 then (DNL_BAD_FRAME, None)
       else if b ! 0 \<noteq> 0xd5 \<or> b ! 1 \<noteq> 0x4e \<or> b ! 2 \<noteq> 1 \<or> b ! 4 \<noteq> 1 \<or> b ! 5 \<noteq> 0 \<or> b ! 9 \<noteq> 0
         then (DNL_BAD_FRAME, None)
       else let len = unat (b ! 8) in
         if len > DNL_MAX_PAYLOAD \<or> n \<noteq> len + 16 \<or> rd16 b 6 = 0 then (DNL_BAD_FRAME, None)
         else if rd16 b (14 + len) \<noteq> dnl_crc16_ccitt_false (Some (drop 2 b)) (n - 4)
           then (DNL_BAD_FRAME, None)
         else (DNL_OK, Some \<lparr>fr_type = b ! 3, fr_sequence = rd16 b 6, fr_session_id = rd32 b 10,
             fr_payload_length = b ! 8, fr_payload = dnl_payload_of (take len (drop 14 b))\<rparr>))"

definition dnl_validate_payload :: "dnl_frame option \<Rightarrow> dnl_status" where
  "dnl_validate_payload f = (case f of
     None \<Rightarrow> DNL_BAD_ARGUMENT
   | Some f \<Rightarrow>
      (let t = fr_type f; l = fr_payload_length f; p = fr_payload f;
           verdict = (\<lambda>b. if b then DNL_OK else DNL_BAD_MESSAGE)
       in if t = DNL_HELLO then verdict (l = 4 \<and> rd32 p 0 \<noteq> 0)
          else if t = DNL_HELLO_ACK then
            verdict (l = 8 \<and> rd32 p 0 \<noteq> 0 \<and> p ! 4 = 1 \<and> p ! 5 = 3 \<and> p ! 6 = 16 \<and> p ! 7 = 2)
          else if t = DNL_PING \<or> t = DNL_PONG \<or> t = DNL_GET_STATUS then verdict (l = 0)
          else if t = DNL_JOB_CRC32 then
            verdict (l \<ge> 1 \<and> p ! 0 \<le> DNL_MAX_JOB_BYTES \<and> l = 1 + p ! 0)
          else if t = DNL_JOB_RESULT then verdict (l = 5 \<and> p ! 0 \<le> DNL_MAX_JOB_BYTES)
          else if t = DNL_STATUS then verdict (l = 4 \<and> p ! 0 \<ge> 1 \<and> p ! 0 \<le> 4 \<and> p ! 1 \<le> 5)
          else if t = DNL_ERROR then verdict (l = 2 \<and> p ! 0 \<ge> 1 \<and> p ! 0 \<le> 5)
          else DNL_OK))"

section \<open>Well-formed frames\<close>

text \<open>
  A frame a caller may build: a sequence number that is not 0, a payload array of 24
  bytes with a legal length, and, as \<open>memset\<close> leaves them, zeros after the payload.
\<close>

definition dnl_frame_ok :: "dnl_frame \<Rightarrow> bool" where
  "dnl_frame_ok f \<longleftrightarrow> fr_sequence f \<noteq> 0 \<and> unat (fr_payload_length f) \<le> DNL_MAX_PAYLOAD
     \<and> length (fr_payload f) = DNL_MAX_PAYLOAD
     \<and> fr_payload f = dnl_payload_of (take (unat (fr_payload_length f)) (fr_payload f))"

definition dnl_wire :: "dnl_frame \<Rightarrow> bytes" where
  "dnl_wire f = dnl_body f @ wr16 (dnl_crc16_ccitt_false (Some (drop 2 (dnl_body f)))
     (12 + unat (fr_payload_length f)))"

lemma length_dnl_body [fw_len]:
  "dnl_frame_ok f \<Longrightarrow> length (dnl_body f) = 14 + unat (fr_payload_length f)"
  by (simp add: dnl_body_def dnl_frame_ok_def)

lemma length_dnl_wire [fw_len]:
  "dnl_frame_ok f \<Longrightarrow> length (dnl_wire f) = 16 + unat (fr_payload_length f)"
  by (simp add: dnl_wire_def length_dnl_body)

lemma dnl_encode_Some:
  "dnl_encode (Some f) (Some cap) =
     (if fr_sequence f = 0 \<or> unat (fr_payload_length f) > DNL_MAX_PAYLOAD then (DNL_BAD_MESSAGE, [])
      else if cap < 16 + unat (fr_payload_length f) then (DNL_OUTPUT_TOO_SMALL, [])
      else (DNL_OK, dnl_wire f))"
  by (simp add: dnl_encode_def dnl_wire_def Let_def)

lemma dnl_encode_ok:
  assumes "dnl_frame_ok f" "length (dnl_wire f) \<le> cap"
  shows "dnl_encode (Some f) (Some cap) = (DNL_OK, dnl_wire f)"
  using assms by (auto simp: dnl_encode_Some dnl_frame_ok_def length_dnl_wire)

lemma dnl_encode_OK_D:
  "dnl_encode (Some f) (Some cap) = (DNL_OK, out) \<Longrightarrow>
   out = dnl_wire f \<and> fr_sequence f \<noteq> 0 \<and> unat (fr_payload_length f) \<le> DNL_MAX_PAYLOAD
   \<and> 16 + unat (fr_payload_length f) \<le> cap"
  by (auto simp: dnl_encode_Some split: if_splits)

lemma length_dnl_payload_of [simp]:
  "length bs \<le> DNL_MAX_PAYLOAD \<Longrightarrow> length (dnl_payload_of bs) = DNL_MAX_PAYLOAD"
  by (simp add: dnl_payload_of_def)

lemma take_dnl_payload_of: "length bs = k \<Longrightarrow> take k (dnl_payload_of bs) = bs"
  by (auto simp: dnl_payload_of_def)

subsection \<open>Reading the fixed part of an encoded frame\<close>

lemma dnl_body_split:
  "dnl_body f = [0xd5, 0x4e, 1, fr_type f, 1, 0, ucast (fr_sequence f), ucast (drop_bit 8 (fr_sequence f)),
      fr_payload_length f, 0] @ wr32 (fr_session_id f) @ take (unat (fr_payload_length f)) (fr_payload f)"
  by (simp add: dnl_body_def wr16_def)

lemma dnl_wire_fixed:
  assumes "w = dnl_wire f @ ys"
  shows "w ! 0 = 0xd5" "w ! 1 = 0x4e" "w ! 2 = 1" "w ! 3 = fr_type f" "w ! 4 = 1" "w ! 5 = 0"
    "w ! 8 = fr_payload_length f" "w ! 9 = 0" "rd16 w 6 = fr_sequence f" "rd32 w 10 = fr_session_id f"
proof -
  show "w ! 0 = 0xd5" "w ! 1 = 0x4e" "w ! 2 = 1" "w ! 3 = fr_type f" "w ! 4 = 1" "w ! 5 = 0"
    "w ! 8 = fr_payload_length f" "w ! 9 = 0"
    by (simp_all add: assms dnl_wire_def dnl_body_split nth_append)
  show "rd16 w 6 = fr_sequence f"
    unfolding assms dnl_wire_def dnl_body_def append_assoc by (rule rd16_at) simp
  show "rd32 w 10 = fr_session_id f"
    using rd32_at[of "[0xd5, 0x4e, 1, fr_type f, 1, 0, ucast (fr_sequence f), ucast (drop_bit 8 (fr_sequence f)),
      fr_payload_length f, 0]" 10]
    unfolding assms dnl_wire_def dnl_body_split append_assoc by simp
qed

lemma dnl_wire_crc:
  assumes "dnl_frame_ok f"
  shows "rd16 (dnl_wire f @ ys) (14 + unat (fr_payload_length f))
       = dnl_crc16_ccitt_false (Some (drop 2 (dnl_wire f @ ys))) (12 + unat (fr_payload_length f))"
proof -
  let ?l = "unat (fr_payload_length f)"
  have len: "length (dnl_body f) = 14 + ?l" using assms by (rule length_dnl_body)
  have "rd16 (dnl_wire f @ ys) (14 + ?l) = dnl_crc16_ccitt_false (Some (drop 2 (dnl_body f))) (12 + ?l)"
    using rd16_append2[of "dnl_body f" "wr16 (dnl_crc16_ccitt_false (Some (drop 2 (dnl_body f))) (12 + ?l)) @ ys" 0]
      rd16_append1[of 0 "wr16 (dnl_crc16_ccitt_false (Some (drop 2 (dnl_body f))) (12 + ?l))" ys]
    by (simp add: dnl_wire_def len del: One_nat_def)
  also have "\<dots> = dnl_crc16_ccitt_false (Some (drop 2 (dnl_wire f @ ys))) (12 + ?l)"
    by (simp add: dnl_crc16_ccitt_false_def dnl_wire_def len)
  finally show ?thesis .
qed

lemma dnl_wire_payload:
  assumes "dnl_frame_ok f"
  shows "take (unat (fr_payload_length f)) (drop 14 (dnl_wire f @ ys))
       = take (unat (fr_payload_length f)) (fr_payload f)"
  using assms by (simp add: dnl_wire_def dnl_body_def dnl_frame_ok_def)

text \<open>Decoding the encoding of a frame, whatever follows it in the buffer.\<close>

lemma dnl_decode_wire_append:
  assumes ok: "dnl_frame_ok f"
  shows "dnl_decode (Some (dnl_wire f @ ys)) (length (dnl_wire f)) = (DNL_OK, Some f)"
proof -
  let ?w = "dnl_wire f @ ys" and ?l = "unat (fr_payload_length f)"
  note fixed = dnl_wire_fixed[OF refl, of f ys]
  have l: "?l \<le> 24" "fr_sequence f \<noteq> 0" using ok by (simp_all add: dnl_frame_ok_def)
  have n: "length (dnl_wire f) = 16 + ?l" using ok by (rule length_dnl_wire)
  have crc: "rd16 ?w (14 + ?l) = dnl_crc16_ccitt_false (Some (drop 2 ?w)) (16 + ?l - 4)"
    using dnl_wire_crc[OF ok, of ys] by simp
  have pay: "dnl_payload_of (take ?l (drop 14 ?w)) = fr_payload f"
    using ok dnl_wire_payload[OF ok, of ys] by (simp add: dnl_frame_ok_def)
  show ?thesis
    unfolding n dnl_decode_def option.case Let_def fixed
    using l crc pay by simp
qed

text \<open>The other direction: what decodes is exactly the encoding of the frame it yields.\<close>

lemma dnl_decode_OK_D:
  assumes "dnl_decode (Some b) n = (DNL_OK, Some f)" "n \<le> length b"
  shows "dnl_frame_ok f \<and> n = 16 + unat (fr_payload_length f) \<and> take n b = dnl_wire f"
proof -
  let ?l = "unat (b ! 8)"
  from assms(1) have hd: "b ! 0 = 0xd5" "b ! 1 = 0x4e" "b ! 2 = 1" "b ! 4 = 1" "b ! 5 = 0" "b ! 9 = 0"
    and l: "?l \<le> 24" "n = ?l + 16" and seq: "rd16 b 6 \<noteq> 0"
    and crc: "rd16 b (14 + ?l) = dnl_crc16_ccitt_false (Some (drop 2 b)) (n - 4)"
    and f: "f = \<lparr>fr_type = b ! 3, fr_sequence = rd16 b 6, fr_session_id = rd32 b 10,
             fr_payload_length = b ! 8, fr_payload = dnl_payload_of (take ?l (drop 14 b))\<rparr>"
    by (auto simp: dnl_decode_def Let_def split: if_splits)
  have len14: "length (take ?l (drop 14 b)) = ?l" using assms(2) l by simp
  have ok: "dnl_frame_ok f"
    using seq l len14 take_dnl_payload_of[OF len14]
    by (simp add: dnl_frame_ok_def f)
  have t14: "take 14 b = [b!0, b!1, b!2, b!3, b!4, b!5, b!6, b!7, b!8, b!9, b!10, b!11, b!12, b!13]"
    using assms(2) l by (simp add: take_as_map numeral_eq_Suc)
  have body: "dnl_body f = take (14 + ?l) b"
  proof -
    have "take ?l (dnl_payload_of (take ?l (drop 14 b))) = take ?l (drop 14 b)"
      using len14 by (rule take_dnl_payload_of)
    then show ?thesis
      unfolding take_add t14 dnl_body_def f dnl_frame.simps wr16_rd16 wr32_rd32
      by (simp add: hd[unfolded One_nat_def])
  qed
  have "take n b = take (14 + ?l) b @ [b ! (14 + ?l), b ! (15 + ?l)]"
    using assms(2) l take_add[of "14 + ?l" 2 b] take_drop_Suc2[of "14 + ?l" b]
    by (simp add: add.commute)
  also have "\<dots> = dnl_body f @ wr16 (rd16 b (14 + ?l))"
    by (simp add: body wr16_rd16)
  also have "rd16 b (14 + ?l) = dnl_crc16_ccitt_false (Some (drop 2 (dnl_body f))) (12 + ?l)"
    using crc l by (simp add: body dnl_crc16_ccitt_false_def take_drop add.commute)
  finally show ?thesis using ok l by (simp add: dnl_wire_def f add.commute)
qed

lemma dnl_decode_cases:
  "fst (dnl_decode (Some b) n) \<in> {DNL_OK, DNL_BAD_FRAME}"
  by (simp add: dnl_decode_def Let_def)

lemma dnl_decode_not_OK: "fst (dnl_decode buf n) \<noteq> DNL_OK \<Longrightarrow> snd (dnl_decode buf n) = None"
  by (auto simp: dnl_decode_def Let_def split: option.splits if_splits)

lemma dnl_decode_OK_Some: "fst (dnl_decode buf n) = DNL_OK \<Longrightarrow> \<exists>f. dnl_decode buf n = (DNL_OK, Some f)"
  by (auto simp: dnl_decode_def Let_def split: option.splits if_splits)

end
