(* ===== verification/Node_Link_Stream.thy ===== *)
theory Node_Link_Stream
  imports Node_Link_Codec
begin

unbundle bit_operations_syntax

text \<open>
  The byte-at-a-time receiver of the node link (\<open>dnl_stream_feed\<close>): a 40-byte buffer
  that is filled, shifted left past bytes that cannot start a frame, and emptied when a
  frame decodes. The lemmas give its buffer invariant, the soundness of what it emits,
  and the reception of a frame after line noise.
\<close>

section \<open>State and operations\<close>

record dnl_stream =
  st_bytes :: bytes
  st_used :: nat
  st_has_started :: bool
  st_started_at_ms :: u32

definition dnl_stream_init :: dnl_stream where
  "dnl_stream_init = \<lparr>st_bytes = replicate DNL_MAX_FRAME 0, st_used = 0,
     st_has_started = False, st_started_at_ms = 0\<rparr>"

definition stream_shift :: "dnl_stream \<Rightarrow> dnl_stream" where
  "stream_shift s =
     (let s1 = if st_used s \<noteq> 0
               then s\<lparr>st_used := st_used s - 1,
                      st_bytes := take (st_used s - 1) (drop 1 (st_bytes s)) @ drop (st_used s - 1) (st_bytes s)\<rparr>
               else s
      in if st_used s1 = 0 then s1\<lparr>st_has_started := False\<rparr> else s1)"

lemma st_used_shift [simp]: "st_used (stream_shift s) = st_used s - 1"
  by (simp add: stream_shift_def Let_def)

text \<open>The header fields the loop rejects before a whole frame has arrived.\<close>

definition dnl_header_bad :: "bytes \<Rightarrow> bool" where
  "dnl_header_bad b \<longleftrightarrow> b ! 2 \<noteq> 1 \<or> b ! 4 \<noteq> 1 \<or> b ! 5 \<noteq> 0 \<or> b ! 9 \<noteq> 0
     \<or> (b ! 6 = 0 \<and> b ! 7 = 0) \<or> unat (b ! 8) > DNL_MAX_PAYLOAD"

text \<open>The \<open>for(;;)\<close> loop of \<open>dnl_stream_feed\<close>: every \<open>continue\<close> has shifted a byte out.\<close>

function dnl_stream_scan :: "dnl_stream \<Rightarrow> dnl_status \<times> dnl_stream \<times> dnl_frame option" where
  "dnl_stream_scan s =
     (if st_used s = 0 then (DNL_DROP, s, None)
      else if st_bytes s ! 0 \<noteq> 0xd5 then dnl_stream_scan (stream_shift s)
      else if st_used s = 1 then (DNL_DROP, s, None)
      else if st_bytes s ! 1 \<noteq> 0x4e then dnl_stream_scan (stream_shift s)
      else if st_used s < 14 then (DNL_DROP, s, None)
      else if dnl_header_bad (st_bytes s) then dnl_stream_scan (stream_shift s)
      else let expected = unat (st_bytes s ! 8) + DNL_FRAME_OVERHEAD in
        if st_used s < expected then (DNL_DROP, s, None)
        else let d = dnl_decode (Some (st_bytes s)) expected in
          if fst d \<noteq> DNL_OK then dnl_stream_scan (stream_shift s)
          else (DNL_OK, dnl_stream_init, snd d))"
  by pat_completeness auto
termination
  by (relation "measure st_used") auto

declare dnl_stream_scan.simps [simp del]

definition dnl_stream_accept :: "dnl_stream \<Rightarrow> u8 \<Rightarrow> u32 \<Rightarrow> dnl_stream" where
  "dnl_stream_accept s byte time_ms =
     (let s1 = (if st_has_started s \<and> time_ms - st_started_at_ms s > 50 then dnl_stream_init else s);
          s2 = (if \<not> st_has_started s1 then s1\<lparr>st_started_at_ms := time_ms, st_has_started := True\<rparr> else s1);
          s3 = (if st_used s2 \<ge> DNL_MAX_FRAME then dnl_stream_init else s2)
      in s3\<lparr>st_bytes := (st_bytes s3)[st_used s3 := byte], st_used := st_used s3 + 1\<rparr>)"

definition dnl_stream_feed ::
    "dnl_stream \<Rightarrow> u8 \<Rightarrow> u32 \<Rightarrow> dnl_status \<times> dnl_stream \<times> dnl_frame option" where
  "dnl_stream_feed s byte time_ms = dnl_stream_scan (dnl_stream_accept s byte time_ms)"

text \<open>Feeding a list of timed bytes, collecting the frames.\<close>

fun dnl_stream_feed_all :: "dnl_stream \<Rightarrow> (u8 \<times> u32) list \<Rightarrow> dnl_stream \<times> dnl_frame list" where
  "dnl_stream_feed_all s [] = (s, [])"
| "dnl_stream_feed_all s ((b, t) # xs) =
     (case dnl_stream_feed s b t of
        (_, s', f) \<Rightarrow> (case dnl_stream_feed_all s' xs of
           (s'', fs) \<Rightarrow> (s'', (case f of None \<Rightarrow> fs | Some g \<Rightarrow> g # fs))))"

section \<open>The buffered bytes and the invariant\<close>

definition st_live :: "dnl_stream \<Rightarrow> bytes" where
  "st_live s = take (st_used s) (st_bytes s)"

text \<open>
  Between calls the buffer is never full, it starts like a frame, and the start time is
  kept exactly while bytes are buffered.
\<close>

definition st_inv :: "dnl_stream \<Rightarrow> bool" where
  "st_inv s \<longleftrightarrow> length (st_bytes s) = DNL_MAX_FRAME \<and> st_used s < DNL_MAX_FRAME
     \<and> (st_has_started s \<longleftrightarrow> st_used s \<noteq> 0)"

definition st_inv_mid :: "dnl_stream \<Rightarrow> bool" where
  "st_inv_mid s \<longleftrightarrow> length (st_bytes s) = DNL_MAX_FRAME \<and> st_used s \<le> DNL_MAX_FRAME
     \<and> (st_has_started s \<longleftrightarrow> st_used s \<noteq> 0)"

lemma st_inv_init: "st_inv dnl_stream_init"
  by (simp add: st_inv_def dnl_stream_init_def)

lemma st_inv_mid_shift: "st_inv_mid s \<Longrightarrow> st_inv_mid (stream_shift s)"
  by (auto simp: st_inv_mid_def stream_shift_def Let_def)

lemma st_live_shift: "st_inv_mid s \<Longrightarrow> st_live (stream_shift s) = tl (st_live s)"
  by (cases "st_used s") (auto simp: st_live_def stream_shift_def Let_def st_inv_mid_def min_def drop_Suc tl_take)

lemma st_live_init: "st_live dnl_stream_init = []"
  by (simp add: st_live_def dnl_stream_init_def)

lemma length_st_live: "st_inv_mid s \<Longrightarrow> length (st_live s) = st_used s"
  by (simp add: st_live_def st_inv_mid_def)

lemma st_live_nth: "i < st_used s \<Longrightarrow> st_live s ! i = st_bytes s ! i"
  by (simp add: st_live_def)

lemma accept_inv_mid: "st_inv s \<Longrightarrow> st_inv_mid (dnl_stream_accept s b t) \<and> st_used (dnl_stream_accept s b t) \<noteq> 0"
  by (auto simp: dnl_stream_accept_def Let_def st_inv_def st_inv_mid_def dnl_stream_init_def)

lemma accept_live:
  assumes "st_inv s"
  shows "st_live (dnl_stream_accept s b t)
       = (if st_has_started s \<and> t - st_started_at_ms s > 50 then [b] else st_live s @ [b])"
proof -
  have w: "take (Suc k) (xs[k := v]) = take k xs @ [v]" if "k < length xs" for k and xs :: bytes and v
    using that by (simp add: take_Suc_conv_app_nth)
  show ?thesis
    using assms
    by (auto simp: dnl_stream_accept_def Let_def st_inv_def st_live_def dnl_stream_init_def w)
qed

subsection \<open>One pass of the loop\<close>

text \<open>
  What one pass decides: wait for more bytes, reject the first byte, or emit a frame.
  The loop is exactly the iteration of this decision, which gives a two-case induction.
\<close>

datatype look = Wait | Reject | Emit dnl_frame

definition stream_look :: "dnl_stream \<Rightarrow> look" where
  "stream_look s =
     (if st_used s = 0 then Wait
      else if st_bytes s ! 0 \<noteq> 0xd5 then Reject
      else if st_used s = 1 then Wait
      else if st_bytes s ! 1 \<noteq> 0x4e then Reject
      else if st_used s < 14 then Wait
      else if dnl_header_bad (st_bytes s) then Reject
      else if st_used s < unat (st_bytes s ! 8) + DNL_FRAME_OVERHEAD then Wait
      else case snd (dnl_decode (Some (st_bytes s)) (unat (st_bytes s ! 8) + DNL_FRAME_OVERHEAD)) of
          Some f \<Rightarrow> Emit f | None \<Rightarrow> Reject)"

lemma decode_snd_Some: "snd (dnl_decode b n) = Some f \<longleftrightarrow> dnl_decode b n = (DNL_OK, Some f)"
proof
  assume Some: "snd (dnl_decode b n) = Some f"
  then have "fst (dnl_decode b n) = DNL_OK" using dnl_decode_not_OK[of b n] by fastforce
  with Some show "dnl_decode b n = (DNL_OK, Some f)" by (simp add: prod_eq_iff)
qed simp

lemma decode_snd_None: "snd (dnl_decode b n) = None \<longleftrightarrow> fst (dnl_decode b n) \<noteq> DNL_OK"
  using dnl_decode_OK_Some[of b n] dnl_decode_not_OK[of b n] by fastforce

lemma scan_look:
  "dnl_stream_scan s = (case stream_look s of
      Wait \<Rightarrow> (DNL_DROP, s, None)
    | Reject \<Rightarrow> dnl_stream_scan (stream_shift s)
    | Emit f \<Rightarrow> (DNL_OK, dnl_stream_init, Some f))"
proof -
  let ?d = "dnl_decode (Some (st_bytes s)) (unat (st_bytes s ! 8) + DNL_FRAME_OVERHEAD)"
  have "(case (case snd ?d of Some f \<Rightarrow> Emit f | None \<Rightarrow> Reject) of
      Wait \<Rightarrow> (DNL_DROP, s, None) | Reject \<Rightarrow> dnl_stream_scan (stream_shift s)
      | Emit f \<Rightarrow> (DNL_OK, dnl_stream_init, Some f))
    = (if fst ?d \<noteq> DNL_OK then dnl_stream_scan (stream_shift s) else (DNL_OK, dnl_stream_init, snd ?d))"
  proof (cases "snd ?d")
    case None
    with decode_snd_None have "fst ?d \<noteq> DNL_OK" by blast
    with None show ?thesis by simp
  next
    case (Some f)
    with decode_snd_None have "fst ?d = DNL_OK" by (metis option.discI)
    with Some show ?thesis by simp
  qed
  then show ?thesis
    by (subst dnl_stream_scan.simps)
      (simp only: stream_look_def Let_def if_distrib[where f = "case_look a b h" for a b h] look.case)
qed

lemma look_Reject_used: "stream_look s = Reject \<Longrightarrow> st_used s \<noteq> 0"
  by (cases "st_used s = 0") (simp_all add: stream_look_def)

lemma scan_induct [case_names step]:
  assumes "\<And>s. (stream_look s = Reject \<Longrightarrow> P (stream_shift s)) \<Longrightarrow> P s"
  shows "P s"
proof (induction "st_used s" arbitrary: s rule: less_induct)
  case less
  show ?case
  proof (rule assms)
    assume "stream_look s = Reject"
    from look_Reject_used[OF this] have "st_used (stream_shift s) < st_used s" by simp
    then show "P (stream_shift s)" by (rule less)
  qed
qed

lemma shift_started_at [simp]: "st_started_at_ms (stream_shift s) = st_started_at_ms s"
  by (simp add: stream_shift_def Let_def)

lemma look_Wait_used: "stream_look s = Wait \<Longrightarrow> st_used s < DNL_MAX_FRAME"
  by (auto simp: stream_look_def dnl_header_bad_def split: if_splits option.splits)

lemma look_Emit:
  assumes "st_inv_mid s" "stream_look s = Emit f"
  shows "dnl_frame_ok f \<and> (\<exists>rest. st_live s = dnl_wire f @ rest)"
proof -
  let ?e = "unat (st_bytes s ! 8) + DNL_FRAME_OVERHEAD"
  from assms(2) have d: "dnl_decode (Some (st_bytes s)) ?e = (DNL_OK, Some f)" and u: "?e \<le> st_used s"
    by (auto simp: stream_look_def decode_snd_Some split: if_splits option.splits)
  have le: "st_used s \<le> length (st_bytes s)" using assms(1) by (simp add: st_inv_mid_def)
  from dnl_decode_OK_D[OF d] u le have "dnl_frame_ok f" and "take ?e (st_bytes s) = dnl_wire f" by auto
  then have "st_live s = dnl_wire f @ drop ?e (st_live s)"
    using u by (metis append_take_drop_id min.absorb1 st_live_def take_take)
  with \<open>dnl_frame_ok f\<close> show ?thesis by blast
qed

subsection \<open>The loop\<close>

text \<open>The state after the loop satisfies the invariant, so the buffer never overflows.\<close>

lemma scan_inv: "st_inv_mid s \<Longrightarrow> st_inv (fst (snd (dnl_stream_scan s)))"
proof (induction s rule: scan_induct)
  case (step s)
  show ?case
  proof (cases "stream_look s")
    case Wait
    from look_Wait_used[OF Wait] step.prems show ?thesis
      by (simp add: scan_look[of s] Wait st_inv_def st_inv_mid_def)
  next
    case Reject
    from step.IH[OF Reject st_inv_mid_shift[OF step.prems]] show ?thesis
      by (simp add: scan_look[of s] Reject)
  qed (simp add: scan_look[of s] st_inv_init)
qed

lemma feed_inv: "st_inv s \<Longrightarrow> st_inv (fst (snd (dnl_stream_feed s b t)))"
  by (simp add: dnl_stream_feed_def scan_inv accept_inv_mid)

text \<open>
  The loop only drops bytes: when it waits, the live bytes are a suffix of those before;
  when it emits, the frame's encoding occurs in them.
\<close>

lemma scan_spec:
  assumes "st_inv_mid s" "dnl_stream_scan s = (c, s', out)"
  shows "(c = DNL_DROP \<and> out = None \<and> (\<exists>k. st_live s' = drop k (st_live s))
          \<and> st_started_at_ms s' = st_started_at_ms s)
       \<or> (c = DNL_OK \<and> s' = dnl_stream_init
          \<and> (\<exists>f k rest. out = Some f \<and> dnl_frame_ok f \<and> drop k (st_live s) = dnl_wire f @ rest))"
  using assms
proof (induction s rule: scan_induct)
  case (step s)
  show ?case
  proof (cases "stream_look s")
    case Wait
    then have "c = DNL_DROP \<and> out = None \<and> s' = s" using step.prems(2) by (simp add: scan_look[of s])
    then show ?thesis by (metis drop0)
  next
    case Reject
    then have "dnl_stream_scan (stream_shift s) = (c, s', out)"
      using step.prems(2) by (simp add: scan_look[of s])
    from step.IH[OF Reject st_inv_mid_shift[OF step.prems(1)] this]
    have "(c = DNL_DROP \<and> out = None \<and> (\<exists>k. st_live s' = drop (Suc k) (st_live s))
          \<and> st_started_at_ms s' = st_started_at_ms s)
       \<or> (c = DNL_OK \<and> s' = dnl_stream_init
          \<and> (\<exists>f k rest. out = Some f \<and> dnl_frame_ok f \<and> drop (Suc k) (st_live s) = dnl_wire f @ rest))"
      by (simp add: st_live_shift[OF step.prems(1)] drop_Suc)
    then show ?thesis by blast
  next
    case (Emit f)
    then have "c = DNL_OK \<and> s' = dnl_stream_init \<and> out = Some f"
      using step.prems(2) by (simp add: scan_look[of s])
    with look_Emit[OF step.prems(1) Emit] show ?thesis by (metis drop0)
  qed
qed

section \<open>Reception\<close>

text \<open>A proper prefix of a frame's encoding is waited on; the whole encoding is emitted.\<close>

lemma live_prefix_nth:
  assumes "st_inv_mid s" "st_live s = take k (dnl_wire f)" "k \<le> length (dnl_wire f)"
  shows "st_used s = k" "\<And>i. i < k \<Longrightarrow> st_bytes s ! i = dnl_wire f ! i"
proof -
  show u: "st_used s = k" using length_st_live[OF assms(1)] assms(2,3) by simp
  show "st_bytes s ! i = dnl_wire f ! i" if "i < k" for i
    using st_live_nth[of i s] that assms(2) u by simp
qed

lemma wire_sequence_bytes: "dnl_frame_ok f \<Longrightarrow> dnl_wire f ! 6 = 0 \<longrightarrow> dnl_wire f ! 7 \<noteq> 0"
  using dnl_wire_fixed(9)[OF refl, of f "[]"] rd16_eq0_iff[of "dnl_wire f" 6]
  by (simp add: dnl_frame_ok_def)

lemma look_prefix_Wait:
  assumes "st_inv_mid s" "st_live s = take k (dnl_wire f)" "k < length (dnl_wire f)" "dnl_frame_ok f"
  shows "stream_look s = Wait"
proof -
  note nth = live_prefix_nth[OF assms(1,2) less_imp_le[OF assms(3)]]
  note fixed = dnl_wire_fixed[OF refl, of f "[]", unfolded append_Nil2]
  have l: "unat (fr_payload_length f) \<le> 24" "rd16 (dnl_wire f) 6 \<noteq> 0"
    using assms(4) fixed by (simp_all add: dnl_frame_ok_def)
  have len: "length (dnl_wire f) = 16 + unat (fr_payload_length f)"
    using assms(4) by (rule length_dnl_wire)
  consider "k = 0" | "k = 1" | "2 \<le> k" "k < 14" | "14 \<le> k" by linarith
  then show ?thesis
  proof cases
    case 4
    then have "\<not> dnl_header_bad (st_bytes s)"
      using nth l fixed wire_sequence_bytes[OF assms(4)] by (simp add: dnl_header_bad_def)
    then show ?thesis using 4 nth assms(3) len fixed by (simp add: stream_look_def)
  qed (use nth fixed in \<open>simp_all add: stream_look_def\<close>)
qed

lemma look_wire_Emit:
  assumes "st_inv_mid s" "st_live s = dnl_wire f" "dnl_frame_ok f"
  shows "stream_look s = Emit f"
proof -
  have "st_live s = take (length (dnl_wire f)) (dnl_wire f)" using assms(2) by simp
  note nth = live_prefix_nth[OF assms(1) this order_refl]
  note fixed = dnl_wire_fixed[OF refl, of f "[]", unfolded append_Nil2]
  have len: "length (dnl_wire f) = 16 + unat (fr_payload_length f)"
    using assms(3) by (rule length_dnl_wire)
  have hdr: "\<not> dnl_header_bad (st_bytes s)"
    using nth fixed assms(3) len wire_sequence_bytes[OF assms(3)]
    by (simp add: dnl_header_bad_def dnl_frame_ok_def)
  have "st_bytes s = dnl_wire f @ drop (st_used s) (st_bytes s)"
    using assms(2) by (metis append_take_drop_id st_live_def)
  then have "dnl_decode (Some (st_bytes s)) (length (dnl_wire f)) = (DNL_OK, Some f)"
    by (metis dnl_decode_wire_append assms(3))
  then show ?thesis using nth fixed len hdr by (simp add: stream_look_def add.commute)
qed

lemma feed_step:
  assumes inv: "st_inv s" and ok: "dnl_frame_ok f" and k: "k < length (dnl_wire f)"
    and live: "st_live (dnl_stream_accept s b t) = take (Suc k) (dnl_wire f)"
  shows "dnl_stream_feed s b t =
     (if Suc k = length (dnl_wire f) then (DNL_OK, dnl_stream_init, Some f)
      else (DNL_DROP, dnl_stream_accept s b t, None))"
proof -
  let ?s = "dnl_stream_accept s b t"
  have mid: "st_inv_mid ?s" using accept_inv_mid[OF inv] by blast
  show ?thesis
  proof (cases "Suc k = length (dnl_wire f)")
    case True
    with live have "st_live ?s = dnl_wire f" by simp
    from look_wire_Emit[OF mid this ok] True show ?thesis
      by (simp add: dnl_stream_feed_def scan_look[of ?s])
  next
    case False
    with k have "Suc k < length (dnl_wire f)" by simp
    from look_prefix_Wait[OF mid live this ok] False show ?thesis
      by (simp add: dnl_stream_feed_def scan_look[of ?s])
  qed
qed

lemma accept_started_at:
  assumes "st_inv s"
  shows "st_started_at_ms (dnl_stream_accept s b t)
       = (if st_live s = [] \<or> t - st_started_at_ms s > 50 then t else st_started_at_ms s)"
proof -
  have "st_live s = [] \<longleftrightarrow> \<not> st_has_started s"
    using assms by (auto simp: st_live_def st_inv_def)
  then show ?thesis
    using assms by (auto simp: dnl_stream_accept_def Let_def st_inv_def dnl_stream_init_def)
qed

lemma accept_live_alt:
  assumes "st_inv s"
  shows "st_live (dnl_stream_accept s b t)
       = (if t - st_started_at_ms s > 50 then [b] else st_live s @ [b])"
proof -
  have "\<not> st_has_started s \<Longrightarrow> st_live s = []"
    using assms by (auto simp: st_live_def st_inv_def)
  then show ?thesis using accept_live[OF assms, of b t] by auto
qed

text \<open>The tail of a frame, once its first byte is buffered.\<close>

lemma feed_all_tail:
  assumes "st_inv s" "dnl_frame_ok f" "0 < k" "st_live s = take k (dnl_wire f)"
    and "dnl_wire f = take k (dnl_wire f) @ bs" "bs \<noteq> []" "length ts = length bs"
    and "\<forall>t \<in> set ts. t - st_started_at_ms s \<le> 50"
  shows "dnl_stream_feed_all s (zip bs ts) = (dnl_stream_init, [f])"
  using assms
proof (induction bs arbitrary: s k ts)
  case Nil then show ?case by simp
next
  case (Cons b bs)
  from Cons.prems(7) obtain t ts' where ts: "ts = t # ts'" "length ts' = length bs"
    by (cases ts) auto
  let ?s = "dnl_stream_accept s b t"
  have kl: "k < length (dnl_wire f)" using arg_cong[OF Cons.prems(5), of length] by simp
  then have suc: "take (Suc k) (dnl_wire f) = take k (dnl_wire f) @ [b]"
    using Cons.prems(5) by (metis take_Suc_conv_app_nth nth_append_length length_take min.absorb4)
  have ne: "st_live s \<noteq> []" using Cons.prems(3,4) kl by auto
  have fresh: "\<not> t - st_started_at_ms s > 50" using Cons.prems(8) ts by (simp add: not_less)
  have live: "st_live ?s = take (Suc k) (dnl_wire f)"
    using accept_live_alt[OF Cons.prems(1), of b t] fresh Cons.prems(4) suc by simp
  note feed = feed_step[OF Cons.prems(1,2) kl live]
  show ?case
  proof (cases "bs = []")
    case True
    then have "Suc k = length (dnl_wire f)" using arg_cong[OF Cons.prems(5), of length] kl by simp
    with feed True ts show ?thesis by simp
  next
    case False
    then have nl: "Suc k \<noteq> length (dnl_wire f)" using arg_cong[OF Cons.prems(5), of length] kl by auto
    have split: "dnl_wire f = take (Suc k) (dnl_wire f) @ bs" using Cons.prems(5) suc by simp
    have inv: "st_inv ?s" using feed_inv[OF Cons.prems(1), of b t] feed nl by simp
    have "\<forall>t' \<in> set ts'. t' - st_started_at_ms ?s \<le> 50"
      using accept_started_at[OF Cons.prems(1), of b t] ne fresh Cons.prems(8) ts by simp
    from Cons.IH[OF inv Cons.prems(2) zero_less_Suc live split False ts(2) this]
    show ?thesis using feed nl ts by simp
  qed
qed

lemma feed_all_wire:
  assumes inv: "st_inv s" and ok: "dnl_frame_ok f"
    and len: "length ts = length (dnl_wire f)"
    and start: "st_live s = [] \<or> hd ts - st_started_at_ms s > 50"
    and times: "\<forall>t \<in> set ts. t - hd ts \<le> 50"
  shows "dnl_stream_feed_all s (zip (dnl_wire f) ts) = (dnl_stream_init, [f])"
proof -
  have l16: "16 \<le> length (dnl_wire f)" using ok by (simp add: length_dnl_wire)
  then obtain b bs where w: "dnl_wire f = b # bs" "bs \<noteq> []"
    by (cases "dnl_wire f") force+
  obtain t ts' where ts: "ts = t # ts'" "length ts' = length bs" using len w by (cases ts) auto
  let ?s = "dnl_stream_accept s b t"
  have live: "st_live ?s = take (Suc 0) (dnl_wire f)"
    using accept_live_alt[OF inv, of b t] start ts w by auto
  have kl: "0 < length (dnl_wire f)" using w by simp
  have feed: "dnl_stream_feed s b t = (DNL_DROP, ?s, None)"
    using feed_step[OF inv ok kl live] w by simp
  have inv': "st_inv ?s" using feed_inv[OF inv, of b t] feed by simp
  have "\<forall>t' \<in> set ts'. t' - st_started_at_ms ?s \<le> 50"
    using accept_started_at[OF inv, of b t] start times ts by auto
  from feed_all_tail[OF inv' ok _ live _ w(2) ts(2) this] feed ts w
  show ?thesis by simp
qed

text \<open>Noise that holds no start byte leaves nothing buffered.\<close>

lemma feed_noise:
  assumes inv: "st_inv s" and b: "b \<noteq> 0xd5" and live: "st_live (dnl_stream_accept s b t) = [b]"
  shows "\<exists>s'. dnl_stream_feed s b t = (DNL_DROP, s', None) \<and> st_inv s' \<and> st_live s' = []"
proof -
  let ?s = "dnl_stream_accept s b t"
  have mid: "st_inv_mid ?s" using accept_inv_mid[OF inv] by blast
  have u: "st_used ?s = 1" using length_st_live[OF mid] live by simp
  have "st_bytes ?s ! 0 = b" using st_live_nth[of 0 ?s] u live by simp
  then have "stream_look ?s = Reject" using u b by (simp add: stream_look_def)
  moreover have "stream_look (stream_shift ?s) = Wait" using u by (simp add: stream_look_def)
  ultimately have feed: "dnl_stream_feed s b t = (DNL_DROP, stream_shift ?s, None)"
    by (simp add: dnl_stream_feed_def scan_look[of ?s] scan_look[of "stream_shift ?s"])
  moreover have "st_live (stream_shift ?s) = []" using st_live_shift[OF mid] live by simp
  ultimately show ?thesis using feed_inv[OF inv, of b t] by simp
qed

lemma feed_all_noise:
  assumes "st_inv s" "st_live s = [] \<or> (xs \<noteq> [] \<and> snd (hd xs) - st_started_at_ms s > 50)"
    and "\<forall>(b, t) \<in> set xs. b \<noteq> 0xd5"
  shows "\<exists>s'. dnl_stream_feed_all s xs = (s', []) \<and> st_inv s' \<and> st_live s' = []"
  using assms
proof (induction xs arbitrary: s)
  case (Cons x xs)
  obtain b t where x: "x = (b, t)" by fastforce
  have "st_live (dnl_stream_accept s b t) = [b]"
    using accept_live_alt[OF Cons.prems(1), of b t] Cons.prems(2) x by auto
  from feed_noise[OF Cons.prems(1) _ this] Cons.prems(3) x
  obtain s' where s': "dnl_stream_feed s b t = (DNL_DROP, s', None)" "st_inv s'" "st_live s' = []" by auto
  from Cons.IH[OF s'(2) disjI1[OF s'(3)]] Cons.prems(3) show ?case by (auto simp: x s'(1))
qed simp

lemma feed_all_append:
  "dnl_stream_feed_all s (xs @ ys) =
     (case dnl_stream_feed_all s xs of (s', fs) \<Rightarrow>
        case dnl_stream_feed_all s' ys of (s'', gs) \<Rightarrow> (s'', fs @ gs))"
  by (induction xs arbitrary: s) (auto split: prod.splits option.splits)

end
