(* ===== verification/Node_Link_Fsm.thy ===== *)
theory Node_Link_Fsm
  imports Node_Link_Codec
begin

unbundle bit_operations_syntax

text \<open>
  The two ends of a node link: the worker, which answers requests and replays its last
  reply byte for byte, and the controller, which keeps one request outstanding. The
  arrays \<open>last_request\<close>, \<open>last_reply\<close>, \<open>hello_reply\<close> and \<open>request_bytes\<close> with
  their length fields are modelled as the list of the bytes in use.
\<close>

section \<open>The worker\<close>

record dnl_worker =
  w_session_id :: u32
  w_highest_sequence :: u16
  w_completed_jobs :: u16
  w_last_request :: bytes
  w_last_reply :: bytes
  w_hello_reply :: bytes
  w_has_last :: bool

definition dnl_worker_init :: dnl_worker where
  "dnl_worker_init = \<lparr>w_session_id = 0, w_highest_sequence = 0, w_completed_jobs = 0,
     w_last_request = [], w_last_reply = [], w_hello_reply = [], w_has_last = False\<rparr>"

definition output_reply :: "dnl_frame \<Rightarrow> nat \<Rightarrow> dnl_status \<times> bytes" where
  "output_reply f cap = dnl_encode (Some f) (Some cap)"

definition worker_error :: "u8 \<Rightarrow> u16 \<Rightarrow> u32 \<Rightarrow> u8 \<Rightarrow> nat \<Rightarrow> dnl_status \<times> bytes" where
  "worker_error t seq sess err cap =
     output_reply (dnl_frame_zero\<lparr>fr_type := DNL_ERROR, fr_sequence := seq, fr_session_id := sess,
       fr_payload_length := 2, fr_payload := dnl_payload_of [err, t]\<rparr>) cap"

definition worker_hello_ack :: "u32 \<Rightarrow> dnl_frame" where
  "worker_hello_ack challenge = dnl_frame_zero\<lparr>fr_type := DNL_HELLO_ACK, fr_sequence := 1,
     fr_session_id := challenge, fr_payload_length := 8,
     fr_payload := dnl_payload_of (wr32 challenge @ [1, 3, 16, 2])\<rparr>"

text \<open>The \<open>HELLO\<close> branch: replay of the acknowledged challenge, or a fresh session.\<close>

definition worker_hello :: "dnl_worker \<Rightarrow> dnl_frame \<Rightarrow> nat \<Rightarrow> dnl_status \<times> dnl_worker \<times> bytes" where
  "worker_hello w req cap =
     (if fr_session_id req \<noteq> 0 \<or> fr_sequence req \<noteq> 1 \<or> dnl_validate_payload (Some req) \<noteq> DNL_OK
      then (DNL_DROP, w, [])
      else let challenge = rd32 (fr_payload req) 0 in
        if challenge = w_session_id w \<and> w_hello_reply w \<noteq> [] then
          (if cap < length (w_hello_reply w) then (DNL_OUTPUT_TOO_SMALL, w, [])
           else (DNL_OK, w, w_hello_reply w))
        else case output_reply (worker_hello_ack challenge) cap of
          (status, reply) \<Rightarrow>
            if status \<noteq> DNL_OK then (status, w, [])
            else (DNL_OK, dnl_worker_init\<lparr>w_session_id := challenge, w_highest_sequence := 1,
                    w_hello_reply := reply\<rparr>, reply))"

text \<open>The reply to an in-sequence request.\<close>

definition worker_answer :: "dnl_worker \<Rightarrow> dnl_frame \<Rightarrow> dnl_frame" where
  "worker_answer w req =
     (let resp = dnl_frame_zero\<lparr>fr_sequence := fr_sequence req, fr_session_id := w_session_id w\<rparr>
      in if dnl_validate_payload (Some req) \<noteq> DNL_OK then
           resp\<lparr>fr_type := DNL_ERROR, fr_payload_length := 2,
             fr_payload := dnl_payload_of [DNL_ERR_BAD_PAYLOAD, fr_type req]\<rparr>
         else if fr_type req = DNL_PING then resp\<lparr>fr_type := DNL_PONG\<rparr>
         else if fr_type req = DNL_JOB_CRC32 then
           resp\<lparr>fr_type := DNL_JOB_RESULT, fr_payload_length := 5,
             fr_payload := dnl_payload_of (fr_payload req ! 0
               # wr32 (dnl_crc32_ieee (Some (drop 1 (fr_payload req))) (unat (fr_payload req ! 0))))\<rparr>
         else if fr_type req = DNL_GET_STATUS then
           resp\<lparr>fr_type := DNL_STATUS, fr_payload_length := 4,
             fr_payload := dnl_payload_of ([2, 0] @ wr16 (w_completed_jobs w))\<rparr>
         else
           resp\<lparr>fr_type := DNL_ERROR, fr_payload_length := 2,
             fr_payload := dnl_payload_of [DNL_ERR_UNSUPPORTED, fr_type req]\<rparr>)"

definition dnl_worker_process ::
    "dnl_worker \<Rightarrow> bytes option \<Rightarrow> nat \<Rightarrow> nat option \<Rightarrow> dnl_status \<times> dnl_worker \<times> bytes" where
  "dnl_worker_process w raw n out = (case (raw, out) of
     (Some raw, Some cap) \<Rightarrow>
       (case dnl_decode (Some raw) n of
          (_, None) \<Rightarrow> (DNL_DROP, w, [])
        | (_, Some req) \<Rightarrow>
           if fr_type req \<ge> 0x80 then (DNL_DROP, w, [])
           else if fr_type req = DNL_HELLO then worker_hello w req cap
           else if w_session_id w = 0 \<or> fr_session_id req \<noteq> w_session_id w then (DNL_DROP, w, [])
           else if fr_sequence req = w_highest_sequence w \<and> w_has_last w then
             (if n = length (w_last_request w) \<and> take n raw = w_last_request w then
                (if cap < length (w_last_reply w) then (DNL_OUTPUT_TOO_SMALL, w, [])
                 else (DNL_OK, w, w_last_reply w))
              else case worker_error (fr_type req) (fr_sequence req) (w_session_id w) DNL_ERR_BAD_SEQUENCE cap of
                (status, reply) \<Rightarrow> (status, w, reply))
           else if fr_sequence req < w_highest_sequence w then (DNL_DROP, w, [])
           else if unat (fr_sequence req) \<noteq> unat (w_highest_sequence w) + 1 then
             (case worker_error (fr_type req) (fr_sequence req) (w_session_id w) DNL_ERR_BAD_SEQUENCE cap of
                (status, reply) \<Rightarrow> (status, w, reply))
           else let resp = worker_answer w req in
             (case output_reply resp cap of
                (status, reply) \<Rightarrow>
                  if status \<noteq> DNL_OK then (status, w, [])
                  else (DNL_OK, w\<lparr>w_last_request := take n raw, w_last_reply := reply, w_has_last := True,
                      w_highest_sequence := fr_sequence req,
                      w_completed_jobs :=
                        (if fr_type req = DNL_JOB_CRC32 \<and> fr_type resp = DNL_JOB_RESULT
                            \<and> w_completed_jobs w < 0xffff
                         then w_completed_jobs w + 1 else w_completed_jobs w)\<rparr>, reply)))
   | _ \<Rightarrow> (DNL_BAD_ARGUMENT, w, []))"

section \<open>The controller\<close>

record dnl_controller =
  c_session_id :: u32
  c_last_sequence :: u16
  c_ready :: bool
  c_pending :: bool
  c_pending_type :: u8
  c_retry_count :: u8
  c_requested_job_length :: u8
  c_request_bytes :: bytes

definition dnl_controller_init :: dnl_controller where
  "dnl_controller_init = \<lparr>c_session_id = 0, c_last_sequence = 0, c_ready = False, c_pending = False,
     c_pending_type = 0, c_retry_count = 0, c_requested_job_length = 0, c_request_bytes = []\<rparr>"

definition controller_emit ::
    "dnl_controller \<Rightarrow> dnl_frame \<Rightarrow> nat \<Rightarrow> dnl_status \<times> dnl_controller \<times> bytes" where
  "controller_emit c f cap = (case dnl_encode (Some f) (Some cap) of
     (status, bs) \<Rightarrow>
       if status \<noteq> DNL_OK then (status, c, [])
       else (DNL_OK, c\<lparr>c_request_bytes := bs, c_pending := True, c_pending_type := fr_type f,
               c_retry_count := 0\<rparr>, bs))"

definition controller_hello_frame :: "u32 \<Rightarrow> dnl_frame" where
  "controller_hello_frame challenge = dnl_frame_zero\<lparr>fr_type := DNL_HELLO, fr_sequence := 1,
     fr_session_id := 0, fr_payload_length := 4, fr_payload := dnl_payload_of (wr32 challenge)\<rparr>"

definition dnl_controller_hello ::
    "dnl_controller \<Rightarrow> u32 \<Rightarrow> nat option \<Rightarrow> dnl_status \<times> dnl_controller \<times> bytes" where
  "dnl_controller_hello c challenge out = (case out of
     None \<Rightarrow> (DNL_BAD_ARGUMENT, c, [])
   | Some cap \<Rightarrow>
       if challenge = 0 \<or> challenge = c_session_id c then (DNL_BAD_MESSAGE, c, [])
       else case controller_emit c (controller_hello_frame challenge) cap of
         (s, c', bs) \<Rightarrow>
           if s = DNL_OK then (s, c'\<lparr>c_session_id := challenge, c_last_sequence := 1, c_ready := False,
               c_requested_job_length := 0\<rparr>, bs)
           else (s, c', bs))"

definition controller_request_frame :: "dnl_controller \<Rightarrow> u8 \<Rightarrow> u8 \<Rightarrow> bytes \<Rightarrow> dnl_frame" where
  "controller_request_frame c t len data = dnl_frame_zero\<lparr>fr_type := t,
     fr_sequence := c_last_sequence c + 1, fr_session_id := c_session_id c,
     fr_payload_length := len, fr_payload := dnl_payload_of data\<rparr>"

text \<open>
  \<open>payload = None\<close> is a null pointer; the length is a separate argument, as in C, and
  the first \<open>len\<close> bytes of the buffer are sent.
\<close>

definition dnl_controller_request ::
    "dnl_controller \<Rightarrow> u8 \<Rightarrow> bytes option \<Rightarrow> u8 \<Rightarrow> nat option
       \<Rightarrow> dnl_status \<times> dnl_controller \<times> bytes" where
  "dnl_controller_request c t payload len out = (case out of
     None \<Rightarrow> (DNL_BAD_ARGUMENT, c, [])
   | Some cap \<Rightarrow>
       if \<not> c_ready c \<or> c_pending c then (DNL_NOT_READY_OR_BUSY, c, [])
       else if t \<noteq> DNL_PING \<and> t \<noteq> DNL_JOB_CRC32 \<and> t \<noteq> DNL_GET_STATUS then (DNL_BAD_MESSAGE, c, [])
       else if unat len > DNL_MAX_PAYLOAD \<or> (len \<noteq> 0 \<and> payload = None) then (DNL_BAD_ARGUMENT, c, [])
       else if c_last_sequence c = 0xffff then (DNL_REHANDSHAKE_REQUIRED, c, [])
       else let data = (case payload of None \<Rightarrow> [] | Some p \<Rightarrow> take (unat len) p);
                f = controller_request_frame c t len data in
         if dnl_validate_payload (Some f) \<noteq> DNL_OK then (DNL_BAD_MESSAGE, c, [])
         else case controller_emit c f cap of
           (s, c', bs) \<Rightarrow>
             if s = DNL_OK then (s, c'\<lparr>c_last_sequence := fr_sequence f,
                 c_requested_job_length := (if t = DNL_JOB_CRC32 then fr_payload f ! 0 else 0)\<rparr>, bs)
             else (s, c', bs))"

definition dnl_controller_receive ::
    "dnl_controller \<Rightarrow> bytes option \<Rightarrow> nat \<Rightarrow> dnl_status \<times> dnl_controller" where
  "dnl_controller_receive c raw n = (case raw of
     None \<Rightarrow> (DNL_BAD_ARGUMENT, c)
   | Some raw \<Rightarrow>
      (case dnl_decode (Some raw) n of
        (_, None) \<Rightarrow> (DNL_BAD_FRAME, c)
      | (_, Some f) \<Rightarrow>
         if \<not> dnl_is_reply (fr_type f) then (DNL_WRONG_DIRECTION, c)
         else if \<not> c_pending c then (DNL_UNSOLICITED, c)
         else if fr_session_id f \<noteq> c_session_id c then (DNL_STALE_SESSION, c)
         else if fr_sequence f \<noteq> c_last_sequence c then (DNL_WRONG_SEQUENCE, c)
         else if fr_type f \<noteq> c_pending_type c OR 0x80 \<and> fr_type f \<noteq> DNL_ERROR then (DNL_WRONG_REPLY_TYPE, c)
         else if dnl_validate_payload (Some f) \<noteq> DNL_OK then (DNL_BAD_MESSAGE, c)
         else if fr_type f = DNL_ERROR then
           (if fr_payload f ! 1 \<noteq> c_pending_type c then (DNL_WRONG_REPLY_TYPE, c)
            else (DNL_REMOTE_ERROR, c\<lparr>c_pending := False\<rparr>))
         else if c_pending_type c = DNL_HELLO
             \<and> (rd32 (fr_payload f) 0 \<noteq> c_session_id c \<or> fr_session_id f \<noteq> rd32 (fr_payload f) 0)
           then (DNL_BAD_HELLO_ECHO, c)
         else if c_pending_type c = DNL_JOB_CRC32 \<and> fr_payload f ! 0 \<noteq> c_requested_job_length c
           then (DNL_BAD_RESULT_LENGTH, c)
         else (DNL_OK, c\<lparr>c_pending := False,
                 c_ready := (if c_pending_type c = DNL_HELLO then True else c_ready c)\<rparr>)))"

definition dnl_controller_timeout ::
    "dnl_controller \<Rightarrow> nat option \<Rightarrow> dnl_status \<times> dnl_controller \<times> bytes" where
  "dnl_controller_timeout c out = (case out of
     None \<Rightarrow> (DNL_BAD_ARGUMENT, c, [])
   | Some cap \<Rightarrow>
       if \<not> c_pending c then (DNL_DROP, c, [])
       else if (c_pending_type c = DNL_HELLO \<or> c_pending_type c = DNL_PING
                \<or> c_pending_type c = DNL_GET_STATUS) \<and> c_retry_count c = 0 then
         (if cap < length (c_request_bytes c) then (DNL_OUTPUT_TOO_SMALL, c, [])
          else (DNL_OK, c\<lparr>c_retry_count := 1\<rparr>, c_request_bytes c))
       else (DNL_DROP, c\<lparr>c_pending := False, c_ready := False\<rparr>, []))"

section \<open>Frames the two ends build\<close>

lemma dnl_frame_ok_built:
  "seq \<noteq> 0 \<Longrightarrow> length p \<le> 24 \<Longrightarrow> unat l = length p \<Longrightarrow>
   dnl_frame_ok \<lparr>fr_type = t, fr_sequence = seq, fr_session_id = sess,
     fr_payload_length = l, fr_payload = dnl_payload_of p\<rparr>"
  by (simp add: dnl_frame_ok_def take_dnl_payload_of)

lemma dnl_payload_of_Nil: "dnl_payload_of [] = replicate 24 0"
  by (simp add: dnl_payload_of_def)

lemmas frame_zero_simps = dnl_frame_zero_def dnl_payload_of_Nil[symmetric]

lemma hello_ack_ok: "dnl_frame_ok (worker_hello_ack ch)"
  by (simp add: worker_hello_ack_def frame_zero_simps dnl_frame_ok_built)

lemma hello_frame_ok: "dnl_frame_ok (controller_hello_frame ch)"
  by (simp add: controller_hello_frame_def frame_zero_simps dnl_frame_ok_built)

lemma worker_answer_ok: "fr_sequence req \<noteq> 0 \<Longrightarrow> dnl_frame_ok (worker_answer w req)"
  by (simp add: worker_answer_def frame_zero_simps Let_def dnl_frame_ok_built)

lemma request_frame_ok:
  "c_last_sequence c \<noteq> 0xffff \<Longrightarrow> length p = unat len \<Longrightarrow> unat len \<le> 24
   \<Longrightarrow> dnl_frame_ok (controller_request_frame c t len p)"
proof -
  assume ns: "c_last_sequence c \<noteq> 0xffff" and l: "length p = unat len" "unat len \<le> 24"
  have "c_last_sequence c + 1 \<noteq> 0"
  proof
    assume "c_last_sequence c + 1 = 0"
    then have "c_last_sequence c = - 1" by (simp add: eq_neg_iff_add_eq_0)
    with ns show False by simp
  qed
  then show ?thesis
    using l by (simp add: controller_request_frame_def frame_zero_simps dnl_frame_ok_built)
qed

lemma worker_answer_fields:
  "fr_sequence (worker_answer w req) = fr_sequence req"
  "fr_session_id (worker_answer w req) = w_session_id w"
  by (simp_all add: worker_answer_def Let_def)

lemma output_reply_ok:
  "dnl_frame_ok f \<Longrightarrow> output_reply f cap =
     (if cap < length (dnl_wire f) then (DNL_OUTPUT_TOO_SMALL, []) else (DNL_OK, dnl_wire f))"
  by (auto simp: output_reply_def dnl_encode_Some dnl_frame_ok_def length_dnl_wire)

lemma length_wire_le: "dnl_frame_ok f \<Longrightarrow> length (dnl_wire f) \<le> 40"
  by (simp add: length_dnl_wire) (simp add: dnl_frame_ok_def)

lemma decode_wire: "dnl_frame_ok f \<Longrightarrow> dnl_decode (Some (dnl_wire f)) (length (dnl_wire f)) = (DNL_OK, Some f)"
  using dnl_decode_wire_append[of f "[]"] by simp

end
