(* ===== verification/Node_Link_Session.thy ===== *)
theory Node_Link_Session
  imports Node_Link_Stream Node_Link_Fsm
begin

unbundle bit_operations_syntax

text \<open>
  What the node link promises: the codec's round trips, rejection of a damaged frame,
  reception by the stream, and the behaviour of the worker and the controller, each
  alone and together.
\<close>

section \<open>Damaged frames\<close>

lemma dnl_wire_shape:
  "dnl_wire f = [0xd5, 0x4e] @ drop 2 (dnl_body f)
     @ wr16 (foldl binary_frame_crc16_update 0xFFFF (take (12 + unat (fr_payload_length f)) (drop 2 (dnl_body f))))"
  by (simp add: dnl_wire_def dnl_body_def dnl_crc16_eq_frame binary_frame_crc16_ccitt_false_def)

lemma dnl_wire_crc_shape:
  assumes "dnl_frame_ok f"
  shows "\<exists>m. dnl_wire f = [0xd5, 0x4e] @ m @ wr16 (foldl binary_frame_crc16_update 0xFFFF m)
     \<and> length m = 12 + unat (fr_payload_length f)"
  using length_dnl_body[OF assms] dnl_wire_shape[of f]
  by (intro exI[of _ "drop 2 (dnl_body f)"]) simp

lemma decode_damaged:
  assumes ok: "dnl_frame_ok f" and i: "i < length (dnl_wire f)" "v \<noteq> dnl_wire f ! i"
  shows "dnl_decode (Some ((dnl_wire f)[i := v])) (length (dnl_wire f)) = (DNL_BAD_FRAME, None)"
proof -
  let ?b = "(dnl_wire f)[i := v]" and ?n = "length (dnl_wire f)"
  have "fst (dnl_decode (Some ?b) ?n) \<noteq> DNL_OK"
  proof
    assume "fst (dnl_decode (Some ?b) ?n) = DNL_OK"
    then obtain g where "dnl_decode (Some ?b) ?n = (DNL_OK, Some g)"
      using dnl_decode_OK_Some by blast
    from dnl_decode_OK_D[OF this] have g: "dnl_frame_ok g" "?n = 16 + unat (fr_payload_length g)"
      "dnl_wire g = (dnl_wire f)[i := v]" by auto
    from dnl_wire_crc_shape[OF ok] dnl_wire_crc_shape[OF g(1)] obtain m m' where
      "dnl_wire f = [0xd5, 0x4e] @ m @ wr16 (foldl binary_frame_crc16_update 0xFFFF m)"
      "dnl_wire g = [0xd5, 0x4e] @ m' @ wr16 (foldl binary_frame_crc16_update 0xFFFF m')"
      "length m' = length m"
      using g(2) length_dnl_wire[OF ok] by auto
    from checked_no_single_error[OF this g(3) i] show False .
  qed
  with dnl_decode_cases[of ?b ?n] dnl_decode_not_OK[of "Some ?b" ?n] show ?thesis
    by (auto simp: prod_eq_iff)
qed

section \<open>Properties of the codec\<close>

text \<open>
  C29: Encoding and decoding are inverse: a well-formed frame encodes, if the output buffer
  can hold it, to bytes that decode to the same frame, whatever follows them in the buffer.
\<close>
theorem decode_encode_round_trip:
  assumes "dnl_frame_ok f" "16 + unat (fr_payload_length f) \<le> cap"
  shows "\<exists>w. dnl_encode (Some f) (Some cap) = (DNL_OK, w)
    \<and> length w = 16 + unat (fr_payload_length f)
    \<and> dnl_decode (Some (w @ rest)) (length w) = (DNL_OK, Some f)"
  using assms dnl_decode_wire_append[OF assms(1), of rest] length_dnl_wire[OF assms(1)]
  by (simp add: dnl_encode_ok)

theorem decode_encode_round_trip_witness:
  "\<exists>w. dnl_encode (Some (controller_hello_frame 7)) (Some 20) = (DNL_OK, w)
    \<and> dnl_decode (Some (w @ [1, 2])) (length w) = (DNL_OK, Some (controller_hello_frame 7))"
  using decode_encode_round_trip[of "controller_hello_frame 7" 20 "[1, 2]"] hello_frame_ok[of 7]
  by (auto simp: controller_hello_frame_def)

text \<open>
  The wire format is canonical: a frame that decodes is well formed, and encoding it
  again gives back exactly the bytes it was decoded from.
\<close>
theorem decoded_frame_is_canonical:
  assumes "dnl_decode (Some b) n = (DNL_OK, Some f)" "n \<le> length b"
  shows "dnl_frame_ok f \<and> 16 \<le> n \<and> n \<le> 40 \<and> dnl_encode (Some f) (Some n) = (DNL_OK, take n b)"
  using dnl_decode_OK_D[OF assms] by (auto simp: dnl_encode_Some dnl_frame_ok_def)

lemma hello_wire_decodes:
  "dnl_decode (Some (dnl_wire (controller_hello_frame ch))) 20 = (DNL_OK, Some (controller_hello_frame ch))"
  "length (dnl_wire (controller_hello_frame ch)) = 20"
  using decode_wire[OF hello_frame_ok, of ch] length_dnl_wire[OF hello_frame_ok, of ch]
  by (simp_all add: controller_hello_frame_def)

theorem decoded_frame_is_canonical_witness:
  "dnl_encode (Some (controller_hello_frame 9)) (Some 20)
     = (DNL_OK, take 20 (dnl_wire (controller_hello_frame 9)))"
  using decoded_frame_is_canonical[OF hello_wire_decodes(1)[of 9]] by (simp add: hello_wire_decodes(2))

text \<open>
  C30: A frame damaged in one byte is rejected: whichever byte of an encoded frame is
  replaced by another value (marker, version, length, payload or checksum), decoding the
  same number of bytes answers \<open>DNL_BAD_FRAME\<close> and yields no frame.
\<close>
theorem damaged_frame_is_rejected:
  assumes "dnl_frame_ok f" "i < length (dnl_wire f)" "v \<noteq> dnl_wire f ! i"
  shows "dnl_decode (Some ((dnl_wire f)[i := v])) (length (dnl_wire f)) = (DNL_BAD_FRAME, None)"
  using assms by (rule decode_damaged)

theorem damaged_frame_is_rejected_witness:
  "dnl_decode (Some ((dnl_wire (controller_hello_frame 7))[0 := 0]))
     (length (dnl_wire (controller_hello_frame 7))) = (DNL_BAD_FRAME, None)"
  using damaged_frame_is_rejected[OF hello_frame_ok[of 7], of 0 0] dnl_wire_fixed(1)[OF refl, of "controller_hello_frame 7" "[]"]
    hello_wire_decodes(2)[of 7] by simp

end
