(* ===== verification/Node_Link_Receive.thy ===== *)
theory Node_Link_Receive
  imports Node_Link_Session
begin

unbundle bit_operations_syntax

text \<open>
  The properties of the byte-stream receiver \<open>dnl_stream_feed\<close>: its buffer never
  overflows, every frame it hands out was received contiguously, and a frame sent after
  noise or after an inter-byte timeout is received exactly once.
\<close>

section \<open>Soundness\<close>

lemma feed_sound:
  assumes inv: "st_inv s" and hist: "h = p @ st_live s"
    and step: "dnl_stream_feed s b t = (c, s', out)"
  shows "st_inv s' \<and> (\<exists>q. h @ [b] = q @ st_live s')
    \<and> (\<forall>f. out = Some f \<longrightarrow> dnl_frame_ok f \<and> (\<exists>q r. h @ [b] = q @ dnl_wire f @ r))"
proof -
  let ?m = "dnl_stream_accept s b t"
  have mid: "st_inv_mid ?m" using accept_inv_mid[OF inv] by blast
  have hm: "\<exists>q. h @ [b] = q @ st_live ?m"
    using hist accept_live_alt[OF inv, of b t] by auto
  then obtain q where q: "h @ [b] = q @ st_live ?m" ..
  have inv': "st_inv s'" using feed_inv[OF inv, of b t] step by simp
  have split: "h @ [b] = (q @ take k (st_live ?m)) @ drop k (st_live ?m)" for k
    using q by simp
  from scan_spec[OF mid step[unfolded dnl_stream_feed_def]] consider
      k where "out = None" "st_live s' = drop k (st_live ?m)"
    | f k rest where "s' = dnl_stream_init" "out = Some f" "dnl_frame_ok f"
        "drop k (st_live ?m) = dnl_wire f @ rest"
    by blast
  then show ?thesis
  proof cases
    case 1 with inv' split show ?thesis by (metis option.discI)
  next
    case (2 f k rest)
    have "h @ [b] = (h @ [b]) @ st_live s'" using 2(1) by (simp add: st_live_init)
    moreover have "h @ [b] = (q @ take k (st_live ?m)) @ dnl_wire f @ rest"
      using split[of k] 2(4) by simp
    ultimately show ?thesis using inv' 2(2,3) by (metis option.inject)
  qed
qed

lemma feed_all_sound:
  assumes "st_inv s" "h = p @ st_live s" "dnl_stream_feed_all s xs = (s', fs)" "f \<in> set fs"
  shows "dnl_frame_ok f \<and> (\<exists>q r. h @ map fst xs = q @ dnl_wire f @ r)"
  using assms
proof (induction xs arbitrary: s h p s' fs)
  case (Cons x xs)
  obtain b t where x: "x = (b, t)" by fastforce
  obtain c s1 out where step: "dnl_stream_feed s b t = (c, s1, out)" by (metis prod_cases3)
  obtain s2 gs where rest: "dnl_stream_feed_all s1 xs = (s2, gs)" by fastforce
  note sound = feed_sound[OF Cons.prems(1,2) step]
  from sound obtain q where "st_inv s1" "h @ [b] = q @ st_live s1" by blast
  note IH = Cons.IH[OF this rest]
  have "fs = (case out of None \<Rightarrow> gs | Some g \<Rightarrow> g # gs)"
    using Cons.prems(3) by (simp add: x step rest)
  with Cons.prems(4) have "out = Some f \<or> f \<in> set gs" by (auto split: option.splits)
  then show ?case
  proof
    assume "out = Some f"
    with sound obtain q r where "dnl_frame_ok f" "h @ [b] = q @ dnl_wire f @ r" by blast
    then have "h @ map fst (x # xs) = q @ dnl_wire f @ (r @ map fst xs)" by (simp add: x)
    with \<open>dnl_frame_ok f\<close> show ?thesis by blast
  next
    assume "f \<in> set gs"
    from IH[OF this] show ?thesis by (simp add: x)
  qed
qed simp

section \<open>A frame after noise\<close>

text \<open>
  What noise must not hold if the frame after it is to be received: a place from which on the
  bytes are themselves a valid frame, or a header without a fault that announces more bytes than
  have come when the frame is complete.
\<close>

definition misleading :: "bytes \<Rightarrow> bool" where
  "misleading r \<longleftrightarrow> (\<exists>g rest. dnl_frame_ok g \<and> r = dnl_wire g @ rest)
     \<or> (r ! 0 = 0xd5 \<and> r ! 1 = 0x4e \<and> \<not> dnl_header_bad r \<and> length r < unat (r ! 8) + 16)"

lemma noise_look:
  assumes mid: "st_inv_mid s" and live: "st_live s = drop k (take m bs)" and m: "k < m" "m \<le> length bs"
    and ok: "\<not> misleading (drop k bs)"
  shows "stream_look s \<noteq> Emit g" "m = length bs \<Longrightarrow> k + 14 \<le> m \<Longrightarrow> stream_look s \<noteq> Wait"
proof -
  show "stream_look s \<noteq> Emit g"
  proof
    assume "stream_look s = Emit g"
    from look_Emit[OF mid this] obtain rest where g: "dnl_frame_ok g" "st_live s = dnl_wire g @ rest" by blast
    have "drop k bs = drop k (take m bs) @ drop m bs" using m by (metis append_take_drop_id drop_append diff_is_0_eq' drop0 length_take less_imp_le min.absorb2)
    then have "drop k bs = dnl_wire g @ (rest @ drop m bs)" using g(2) live by simp
    then show False using ok g(1) unfolding misleading_def by blast
  qed
  assume e: "m = length bs" and l: "k + 14 \<le> m"
  have u: "st_used s = length bs - k" using length_st_live[OF mid] live e by simp
  have n: "st_bytes s ! i = drop k bs ! i" if "i < 14" for i
    using st_live_nth[of i s] live e u l that by simp
  show "stream_look s \<noteq> Wait"
  proof
    assume w: "stream_look s = Wait"
    have h: "dnl_header_bad (st_bytes s) = dnl_header_bad (drop k bs)" unfolding dnl_header_bad_def by (simp only: n)
    have "drop k bs ! 0 = 0xd5 \<and> drop k bs ! 1 = 0x4e \<and> \<not> dnl_header_bad (drop k bs) \<and> length (drop k bs) < unat (drop k bs ! 8) + 16"
      using w u l e unfolding stream_look_def h by (simp add: n not_less not_le split: if_splits option.splits)
    then show False using ok unfolding misleading_def by blast
  qed
qed

lemma window:
  "k \<le> m \<Longrightarrow> m < length bs \<Longrightarrow> drop k (take m bs) @ [bs ! m] = drop k (take (Suc m) bs)"
  "tl (drop k xs) = drop (Suc k) xs"
  by (simp_all add: take_Suc_conv_app_nth drop_Suc tl_drop)

lemma burst_scan:
  assumes "st_inv_mid s" "st_live s = drop k (take m (noise @ dnl_wire f))" "k \<le> m" "k \<le> length noise" "dnl_frame_ok f"
    "m \<le> length (noise @ dnl_wire f)" "\<forall>i < length noise. \<not> misleading (drop i (noise @ dnl_wire f))"
  shows "if m < length (noise @ dnl_wire f)
    then \<exists>k' s'. dnl_stream_scan s = (DNL_DROP, s', None) \<and> st_live s' = drop k' (take m (noise @ dnl_wire f)) \<and> k' \<le> m \<and> k' \<le> length noise
    else dnl_stream_scan s = (DNL_OK, dnl_stream_init, Some f)"
  using assms
proof (induction s arbitrary: k rule: scan_induct)
  case (step s)
  let ?bs = "noise @ dnl_wire f"
  note p = step.prems
  have l16: "16 \<le> length (dnl_wire f)" using p(5) by (simp add: length_dnl_wire)
  have wait: ?case if "stream_look s = Wait" "m < length ?bs"
  proof -
    have "dnl_stream_scan s = (DNL_DROP, s, None)" using that(1) by (simp add: scan_look[of s])
    then have "\<exists>k' s'. dnl_stream_scan s = (DNL_DROP, s', None) \<and> st_live s' = drop k' (take m ?bs) \<and> k' \<le> m \<and> k' \<le> length noise"
      using p(2-4) by blast
    then show ?thesis by (simp only: that(2) if_True)
  qed
  consider (empty) "k = m" | (frame) "k < m" "k = length noise" | (noise) "k < m" "k < length noise" using p(3,4) by linarith
  then show ?case
  proof cases
    case empty
    then have "st_used s = 0" using length_st_live[OF p(1)] p(2) by simp
    then show ?thesis using wait p(4) empty l16 by (simp add: stream_look_def)
  next
    case frame
    have live: "st_live s = take (m - length noise) (dnl_wire f)" using p(2) frame by simp
    show ?thesis
    proof (cases "m < length ?bs")
      case True
      then have "m - length noise < length (dnl_wire f)" using frame by simp
      from look_prefix_Wait[OF p(1) live this p(5)] True show ?thesis by (rule wait)
    next
      case False
      then have "st_live s = dnl_wire f" using live p(6) by simp
      from look_wire_Emit[OF p(1) this p(5)] False show ?thesis by (simp add: scan_look[of s])
    qed
  next
    case noise
    have ok: "\<not> misleading (drop k ?bs)" using p(7) noise by blast
    note look = noise_look[OF p(1,2) noise(1) p(6) ok]
    show ?thesis
    proof (cases "stream_look s")
      case Wait
      have "m < length ?bs" using look(2) Wait p(6) noise l16 by (cases "m = length ?bs") auto
      with Wait show ?thesis by (rule wait)
    next
      case Reject
      have "st_live (stream_shift s) = drop (Suc k) (take m ?bs)" using st_live_shift[OF p(1)] p(2) window(2) by metis
      note rest = step.IH[OF Reject st_inv_mid_shift[OF p(1)] this _ _ p(5,6,7)]
      have "dnl_stream_scan s = dnl_stream_scan (stream_shift s)" by (simp add: scan_look[of s] Reject)
      then show ?thesis using rest[OF Suc_leI[OF noise(1)] Suc_leI[OF noise(2)]] by (simp only:)
    next
      case (Emit g)
      then show ?thesis using look(1) by blast
    qed
  qed
qed

lemma within:
  assumes "a - t0 \<le> b - (t0 :: u32)" "b - t0 \<le> 50"
  shows "b - a \<le> 50"
proof -
  have "b - a = (b - t0) - (a - t0)" by simp
  moreover have "unat ((b - t0) - (a - t0)) \<le> unat (b - t0)" using assms(1) by (simp only: unat_sub)
  ultimately show ?thesis using assms(2) by (simp add: word_le_nat_alt)
qed

lemma burst_feed:
  assumes "st_inv s" "st_live s = drop k (take m (noise @ dnl_wire f))" "k \<le> m" "k \<le> length noise" "dnl_frame_ok f"
    "m < length (noise @ dnl_wire f)" "\<forall>i < length noise. \<not> misleading (drop i (noise @ dnl_wire f))"
    "length ts = length (noise @ dnl_wire f) - m" "sorted (map (\<lambda>t. t - t0) ts)" "\<forall>t \<in> set ts. t - t0 \<le> 50"
    "st_live s \<noteq> [] \<longrightarrow> (\<forall>t \<in> set ts. st_started_at_ms s - t0 \<le> t - t0)"
  shows "dnl_stream_feed_all s (zip (drop m (noise @ dnl_wire f)) ts) = (dnl_stream_init, [f])"
  using assms
proof (induction ts arbitrary: s k m)
  case Nil
  then show ?case by simp
next
  case (Cons t ts)
  let ?bs = "noise @ dnl_wire f"
  note p = Cons.prems
  let ?s = "dnl_stream_accept s (?bs ! m) t"
  have d: "drop m ?bs = ?bs ! m # drop (Suc m) ?bs" by (rule Cons_nth_drop_Suc[symmetric]) (rule p(6))
  have fresh: "\<not> t - st_started_at_ms s > 50" if "st_live s \<noteq> []"
    using within[of "st_started_at_ms s" t0 t] p(10,11) that by (simp add: not_less)
  have live: "st_live ?s = drop k (take (Suc m) ?bs)"
  proof -
    have "st_live ?s = st_live s @ [?bs ! m]" using accept_live_alt[OF p(1), of "?bs ! m" t] fresh by auto
    then show ?thesis using window(1)[OF p(3,6)] p(2) by metis
  qed
  have mid: "st_inv_mid ?s" using accept_inv_mid[OF p(1)] by blast
  have scan: "if Suc m < length ?bs
    then \<exists>k' s'. dnl_stream_scan ?s = (DNL_DROP, s', None) \<and> st_live s' = drop k' (take (Suc m) ?bs) \<and> k' \<le> Suc m \<and> k' \<le> length noise
    else dnl_stream_scan ?s = (DNL_OK, dnl_stream_init, Some f)"
    by (rule burst_scan[OF mid live]) (use p(3-7) in simp_all)
  show ?case
  proof (cases "Suc m < length ?bs")
    case True
    then obtain k' s' where s': "dnl_stream_scan ?s = (DNL_DROP, s', None)" "st_live s' = drop k' (take (Suc m) ?bs)" "k' \<le> Suc m" "k' \<le> length noise"
      using scan by auto
    have feed: "dnl_stream_feed s (?bs ! m) t = (DNL_DROP, s', None)" using s'(1) by (simp add: dnl_stream_feed_def)
    have inv: "st_inv s'" using feed_inv[OF p(1), of "?bs ! m" t] feed by simp
    have "st_started_at_ms s' = st_started_at_ms ?s" using scan_spec[OF mid s'(1)] by simp
    then have st: "st_started_at_ms s' = t \<or> st_live s \<noteq> [] \<and> st_started_at_ms s' = st_started_at_ms s"
      using accept_started_at[OF p(1), of "?bs ! m" t] by auto
    have later: "\<forall>t' \<in> set ts. t - t0 \<le> t' - t0" using p(9) by simp
    have "\<forall>t' \<in> set ts. st_started_at_ms s' - t0 \<le> t' - t0" using st later p(11) by auto
    then have "dnl_stream_feed_all s' (zip (drop (Suc m) ?bs) ts) = (dnl_stream_init, [f])"
      using Cons.IH[OF inv s'(2,3,4) p(5) True p(7)] p(8,9,10) by simp
    then show ?thesis unfolding d by (simp add: feed)
  next
    case False
    then have "drop (Suc m) ?bs = []" by simp
    moreover have "dnl_stream_feed s (?bs ! m) t = (DNL_OK, dnl_stream_init, Some f)" using scan False by (simp add: dnl_stream_feed_def)
    ultimately show ?thesis unfolding d by simp
  qed
qed

section \<open>Properties of the receiver\<close>

text \<open>
  The 40-byte receive buffer never overflows: whatever bytes arrive at whatever times,
  after every byte the buffer still has 40 bytes, fewer than 40 of them are in use, and
  the start time is kept exactly when bytes are buffered.
\<close>
theorem stream_buffer_bounded:
  "st_inv (fst (dnl_stream_feed_all dnl_stream_init xs))
   \<and> st_used (fst (dnl_stream_feed_all dnl_stream_init xs)) < 40"
proof -
  have "st_inv (fst (dnl_stream_feed_all s xs))" if "st_inv s" for s
    using that
  proof (induction xs arbitrary: s)
    case (Cons x xs)
    obtain b t where x: "x = (b, t)" by fastforce
    obtain c s1 out where step: "dnl_stream_feed s b t = (c, s1, out)" by (metis prod_cases3)
    from feed_inv[OF Cons.prems, of b t] Cons.IH[of s1] show ?case
      by (cases "dnl_stream_feed_all s1 xs") (simp add: x step)
  qed simp
  from this[OF st_inv_init] show ?thesis by (auto simp: st_inv_def)
qed

text \<open>
  The receiver invents nothing: every frame it emits is well formed, and its encoding,
  checksum included, is a contiguous part of the bytes that were fed to it.
\<close>
theorem stream_emits_received_frames_only:
  assumes "dnl_stream_feed_all dnl_stream_init xs = (s, fs)" "f \<in> set fs"
  shows "dnl_frame_ok f \<and> (\<exists>before after. map fst xs = before @ dnl_wire f @ after)"
  using feed_all_sound[OF st_inv_init _ assms, of "[]" "[]"] by (simp add: st_live_init)

lemma hello_received:
  "dnl_stream_feed_all dnl_stream_init (zip (dnl_wire (controller_hello_frame 7)) (replicate 20 0))
     = (dnl_stream_init, [controller_hello_frame 7])"
  using feed_all_wire[OF st_inv_init hello_frame_ok, of "replicate 20 0" 7] hello_wire_decodes(2)[of 7]
  by (simp add: st_live_init)

theorem stream_emits_received_frames_only_witness:
  "\<exists>before after. map fst (zip (dnl_wire (controller_hello_frame 7)) (replicate 20 (0 :: u32)))
     = before @ dnl_wire (controller_hello_frame 7) @ after"
  using stream_emits_received_frames_only[OF hello_received, of "controller_hello_frame 7"] by simp

text \<open>
  C31: Reception after noise and after a pause. From any state the receiver can be in, with an
  empty buffer or after more than 50 ms of silence, bytes other than the marker byte 0xD5 are
  discarded whenever they come. A frame that arrives with or without noise in front of it, of any
  bytes, false markers, faulty headers and frames with a wrong checksum included, all within 50 ms
  (in wrapping 32-bit time), is emitted exactly once, leaving the buffer empty, as long as the
  noise holds no valid frame and no faultless header that announces more bytes than have come.
\<close>
theorem stream_receives_frame_after_noise:
  assumes "st_inv s" "dnl_frame_ok f" "\<forall>(b, t) \<in> set quiet. b \<noteq> 0xd5"
    and "st_live s = [] \<or> hd (map snd quiet @ ts) - st_started_at_ms s > 50"
    and "\<forall>i < length noise. \<not> misleading (drop i (noise @ dnl_wire f))"
    and "length ts = length (noise @ dnl_wire f)" "sorted (map (\<lambda>t. t - hd ts) ts)" "\<forall>t \<in> set ts. t - hd ts \<le> 50"
  shows "dnl_stream_feed_all s (quiet @ zip (noise @ dnl_wire f) ts) = (dnl_stream_init, [f])"
proof -
  have burst: "dnl_stream_feed_all s' (zip (noise @ dnl_wire f) ts) = (dnl_stream_init, [f])"
    if s': "st_inv s'" "st_live s' = []" for s'
    using burst_feed[OF s'(1), of 0 0 noise f ts "hd ts"] s'(2) assms(2,5-8) length_dnl_wire[OF assms(2)] by simp
  show ?thesis
  proof (cases "quiet = [] \<and> st_live s \<noteq> []")
    case False
    with assms(4) have "st_live s = [] \<or> quiet \<noteq> [] \<and> snd (hd quiet) - st_started_at_ms s > 50"
      by (auto simp: hd_map hd_append)
    from feed_all_noise[OF assms(1) this assms(3)] obtain s' where
      s': "dnl_stream_feed_all s quiet = (s', [])" "st_inv s'" "st_live s' = []" by blast
    then show ?thesis using burst[OF s'(2,3)] by (simp add: feed_all_append)
  next
    case True
    then have late: "hd ts - st_started_at_ms s > 50" using assms(4) by simp
    obtain t ts' where ts: "ts = t # ts'" using assms(6) length_dnl_wire[OF assms(2)] by (cases ts) auto
    obtain b bs where bs: "noise @ dnl_wire f = b # bs" using length_dnl_wire[OF assms(2)] by (cases "noise @ dnl_wire f") auto
    have started: "st_has_started s" using assms(1) True by (auto simp: st_inv_def st_live_def)
    have "dnl_stream_accept s b t = dnl_stream_accept dnl_stream_init b t"
      using late ts started by (simp add: dnl_stream_accept_def dnl_stream_init_def)
    then have "dnl_stream_feed s b t = dnl_stream_feed dnl_stream_init b t" by (simp add: dnl_stream_feed_def)
    then have "dnl_stream_feed_all s (zip (b # bs) (t # ts')) = dnl_stream_feed_all dnl_stream_init (zip (b # bs) (t # ts'))" by simp
    then show ?thesis using burst[OF st_inv_init st_live_init] True bs ts by simp
  qed
qed

text \<open>The noise of the repository's test: markers in front of the frame.\<close>

theorem stream_receives_frame_after_noise_witness:
  "dnl_stream_feed_all dnl_stream_init ([(0, 5), (0x4e, 6)] @ zip ([0x65, 0x73, 0xd5, 0x01, 0xd5] @ dnl_wire (controller_hello_frame 7)) (replicate 25 4294967295))
     = (dnl_stream_init, [controller_hello_frame 7])"
proof -
  let ?n = "[0x65, 0x73, 0xd5, 0x01, 0xd5] :: bytes" and ?w = "dnl_wire (controller_hello_frame 7)"
  have w0: "?w ! 0 = 0xd5" "length ?w = 20" using dnl_wire_fixed[OF refl, of "controller_hello_frame 7" "[]"] hello_wire_decodes(2)[of 7] by simp_all
  have g: "dnl_frame_ok g \<Longrightarrow> r = dnl_wire g @ rest \<Longrightarrow> r ! 0 = 0xd5 \<and> r ! 1 = 0x4e" for g r rest
    using dnl_wire_fixed[OF refl, of g rest] by simp
  have no: "\<not> misleading r" if "r ! 0 \<noteq> 0xd5 \<or> r ! 1 \<noteq> 0x4e" for r using g[of _ r] that unfolding misleading_def by blast
  have "\<not> misleading (drop i (?n @ ?w))" if "i < 5" for i
  proof -
    have "i = 0 \<or> i = 1 \<or> i = 2 \<or> i = 3 \<or> i = 4" using that by linarith
    then show ?thesis by (elim disjE) (rule no, use w0 in simp)+
  qed
  then have m: "\<forall>i < length ?n. \<not> misleading (drop i (?n @ ?w))" by simp
  have l: "length (replicate 25 (4294967295 :: u32)) = length (?n @ ?w)" using w0 by simp
  show ?thesis
    by (rule stream_receives_frame_after_noise[OF st_inv_init hello_frame_ok[of 7] _ _ m l]) (simp_all add: st_live_init)
qed

end
