(* ===== verification/Node_Link_Protocol.thy ===== *)
theory Node_Link_Protocol
  imports Node_Link_Session
begin

unbundle bit_operations_syntax

text \<open>
  The properties of the node-link worker and controller: idempotent replay, atomicity of
  failures, the worker's invariant, what the controller accepts, and the exchanges between
  the two.
\<close>

section \<open>The worker's branches\<close>

text \<open>A call that answers \<open>DNL_OK\<close> is one of five kinds.\<close>

lemma worker_process_OK_cases:
  assumes "dnl_worker_process w (Some raw) n (Some cap) = (DNL_OK, w', r)"
  obtains (Hello_Replay) req where "dnl_decode (Some raw) n = (DNL_OK, Some req)"
      "fr_type req = DNL_HELLO" "fr_session_id req = 0" "fr_sequence req = 1" "dnl_validate_payload (Some req) = DNL_OK"
      "rd32 (fr_payload req) 0 = w_session_id w" "w_hello_reply w \<noteq> []" "length (w_hello_reply w) \<le> cap"
      "w' = w" "r = w_hello_reply w"
  | (Hello_New) req where "dnl_decode (Some raw) n = (DNL_OK, Some req)"
      "fr_type req = DNL_HELLO" "fr_session_id req = 0" "fr_sequence req = 1" "dnl_validate_payload (Some req) = DNL_OK"
      "rd32 (fr_payload req) 0 \<noteq> w_session_id w \<or> w_hello_reply w = []"
      "r = dnl_wire (worker_hello_ack (rd32 (fr_payload req) 0))" "length r \<le> cap"
      "w' = dnl_worker_init\<lparr>w_session_id := rd32 (fr_payload req) 0, w_highest_sequence := 1, w_hello_reply := r\<rparr>"
  | (Replay) req where "dnl_decode (Some raw) n = (DNL_OK, Some req)"
      "fr_type req < 0x80" "fr_type req \<noteq> DNL_HELLO" "w_session_id w \<noteq> 0" "fr_session_id req = w_session_id w"
      "fr_sequence req = w_highest_sequence w" "w_has_last w"
      "n = length (w_last_request w)" "take n raw = w_last_request w" "length (w_last_reply w) \<le> cap"
      "w' = w" "r = w_last_reply w"
  | (Bad_Sequence) req where "dnl_decode (Some raw) n = (DNL_OK, Some req)"
      "fr_type req < 0x80" "fr_type req \<noteq> DNL_HELLO" "w_session_id w \<noteq> 0" "fr_session_id req = w_session_id w"
      "worker_error (fr_type req) (fr_sequence req) (w_session_id w) DNL_ERR_BAD_SEQUENCE cap = (DNL_OK, r)" "w' = w"
  | (Answer) req where "dnl_decode (Some raw) n = (DNL_OK, Some req)"
      "fr_type req < 0x80" "fr_type req \<noteq> DNL_HELLO" "w_session_id w \<noteq> 0" "fr_session_id req = w_session_id w"
      "unat (fr_sequence req) = unat (w_highest_sequence w) + 1"
      "output_reply (worker_answer w req) cap = (DNL_OK, r)"
      "w' = w\<lparr>w_last_request := take n raw, w_last_reply := r, w_has_last := True,
          w_highest_sequence := fr_sequence req,
          w_completed_jobs := (if fr_type req = DNL_JOB_CRC32 \<and> fr_type (worker_answer w req) = DNL_JOB_RESULT
              \<and> w_completed_jobs w < 0xffff then w_completed_jobs w + 1 else w_completed_jobs w)\<rparr>"
proof -
  obtain st fo where d: "dnl_decode (Some raw) n = (st, fo)" by fastforce
  show thesis
  proof (cases fo)
    case None
    with d assms show thesis by (simp add: dnl_worker_process_def)
  next
    case (Some req)
    have st: "st = DNL_OK" using d Some decode_snd_Some[of "Some raw" n req] by simp
    note P = assms[unfolded dnl_worker_process_def option.case prod.case d Some]
    show thesis
    proof (cases "fr_type req = DNL_HELLO")
      case True
      with P have h: "worker_hello w req cap = (DNL_OK, w', r)" by (simp split: if_splits)
      let ?ch = "rd32 (fr_payload req) 0"
      from h have v: "fr_session_id req = 0" "fr_sequence req = 1" "dnl_validate_payload (Some req) = DNL_OK"
        by (simp_all add: worker_hello_def split: if_splits)
      show thesis
      proof (cases "?ch = w_session_id w \<and> w_hello_reply w \<noteq> []")
        case True
        with h v show thesis
          by (intro Hello_Replay[of req]) (auto simp: worker_hello_def d Some st \<open>fr_type req = DNL_HELLO\<close> split: if_splits)
      next
        case False
        with h v show thesis
          by (intro Hello_New[of req])
            (auto simp: worker_hello_def d Some st \<open>fr_type req = DNL_HELLO\<close> Let_def
              output_reply_ok[OF hello_ack_ok] split: if_splits)
      qed
    next
      case False
      with P have g: "fr_type req < 0x80" "w_session_id w \<noteq> 0" "fr_session_id req = w_session_id w"
        by (simp_all split: if_splits)
      note P' = P[simplified False g if_False] False g
      show thesis
      proof (cases "fr_sequence req = w_highest_sequence w \<and> w_has_last w")
        case rep: True
        have dd: "dnl_decode (Some raw) n = (DNL_OK, Some req)" by (simp add: d Some st)
        show thesis
        proof (cases "n = length (w_last_request w) \<and> take n raw = w_last_request w")
          case True
          with P' rep have "w' = w \<and> r = w_last_reply w \<and> length (w_last_reply w) \<le> cap"
            by (auto simp: not_less split: if_splits)
          then show thesis
            using Replay[OF dd g(1) False g(2,3)] rep True by blast
        next
          case False
          with P' rep show thesis
            by (intro Bad_Sequence[of req]) (simp_all add: d Some st split: if_splits prod.splits)
        qed
      next
        case outer: False
        show thesis
        proof (cases "unat (fr_sequence req) = unat (w_highest_sequence w) + 1")
          case True
          with P' outer show thesis
            by (intro Answer[of req]) (auto simp: d Some st Let_def split: if_splits prod.splits)
        next
          case False
          with P' outer show thesis
            by (intro Bad_Sequence[of req]) (simp_all add: d Some st split: if_splits prod.splits)
        qed
      qed
    qed
  qed
qed


lemma worker_process_replay:
  assumes "dnl_worker_process w (Some raw) n (Some cap) = (DNL_OK, w', r)" "n \<le> length raw"
  shows "dnl_worker_process w' (Some raw) n (Some cap) = (DNL_OK, w', r)"
  using assms(1)
proof (cases rule: worker_process_OK_cases)
  case (Hello_New req)
  have "r \<noteq> []" unfolding Hello_New(7) by (simp add: dnl_wire_def dnl_body_def)
  with Hello_New show ?thesis
    by (simp add: dnl_worker_process_def worker_hello_def Let_def word_le_nat_alt)
next
  case (Answer req)
  then have "length r \<le> cap"
    by (auto simp: output_reply_def dnl_encode_Some length_dnl_wire dnl_wire_def dnl_body_def split: if_splits)
  with Answer assms(2) show ?thesis
    by (simp add: dnl_worker_process_def not_le)
qed (use assms(1) in simp_all)

section \<open>The worker's invariant\<close>

text \<open>
  The stored reply and request are whole frames of the current session, the acknowledged
  challenge is the session, and a job is counted at most once per sequence number.
\<close>

definition worker_inv :: "dnl_worker \<Rightarrow> bool" where
  "worker_inv w \<longleftrightarrow>
     (if w_session_id w = 0 then w = dnl_worker_init
      else w_highest_sequence w \<noteq> 0
        \<and> w_hello_reply w = dnl_wire (worker_hello_ack (w_session_id w))
        \<and> unat (w_completed_jobs w) < unat (w_highest_sequence w)
        \<and> (w_has_last w \<longrightarrow>
             (\<exists>req resp. dnl_frame_ok req \<and> dnl_frame_ok resp
                \<and> w_last_request w = dnl_wire req \<and> w_last_reply w = dnl_wire resp
                \<and> fr_session_id req = w_session_id w \<and> fr_session_id resp = w_session_id w
                \<and> fr_sequence req = w_highest_sequence w \<and> fr_sequence resp = w_highest_sequence w)))"

lemma worker_inv_init: "worker_inv dnl_worker_init"
  by (simp add: worker_inv_def dnl_worker_init_def)

lemma hello_challenge_nonzero:
  "fr_type req = DNL_HELLO \<Longrightarrow> dnl_validate_payload (Some req) = DNL_OK \<Longrightarrow> rd32 (fr_payload req) 0 \<noteq> 0"
  by (simp add: dnl_validate_payload_def Let_def split: if_splits)

lemma unat_Suc_u16: "unat (a :: u16) = unat b + 1 \<Longrightarrow> unat (c :: u16) < unat b \<Longrightarrow> unat (c + 1) = unat c + 1"
  using unsigned_less[of a, where ?'a = nat] by (simp add: unat_word_ariths)

lemma worker_fail:
  assumes "dnl_worker_process w raw n out = (st, w', r)" "st \<noteq> DNL_OK"
  shows "w' = w \<and> r = []"
  using assms
  by (auto simp: dnl_worker_process_def worker_hello_def worker_error_def output_reply_def dnl_encode_Some Let_def
      split: option.splits if_splits prod.splits)

lemma worker_inv_process:
  assumes inv: "worker_inv w" and n: "n \<le> length raw"
    and step: "dnl_worker_process w (Some raw) n (Some cap) = (st, w', r)"
  shows "worker_inv w'"
proof (cases "st = DNL_OK")
  case False
  with worker_fail[OF step] inv show ?thesis by simp
next
  case True
  with step have "dnl_worker_process w (Some raw) n (Some cap) = (DNL_OK, w', r)" by simp
  then show ?thesis
  proof (cases rule: worker_process_OK_cases)
    case (Hello_New req)
    with hello_challenge_nonzero[of req] show ?thesis
      by (simp add: worker_inv_def dnl_worker_init_def)
  next
    case (Answer req)
    note D = dnl_decode_OK_D[OF Answer(1) n]
    then have ok: "dnl_frame_ok (worker_answer w req)"
      by (intro worker_answer_ok) (simp add: dnl_frame_ok_def)
    then have r: "r = dnl_wire (worker_answer w req)"
      using Answer(7) by (simp add: output_reply_ok split: if_splits)
    from inv Answer(4) have "unat (w_completed_jobs w) < unat (w_highest_sequence w)"
      by (simp add: worker_inv_def)
    with unat_Suc_u16[OF Answer(6) this] Answer(6)
    have "unat (w_completed_jobs w') < unat (w_highest_sequence w')"
      by (simp add: Answer(8))
    moreover have "w_highest_sequence w' \<noteq> 0" using D by (simp add: Answer(8) dnl_frame_ok_def)
    moreover have "\<exists>req resp. dnl_frame_ok req \<and> dnl_frame_ok resp
        \<and> w_last_request w' = dnl_wire req \<and> w_last_reply w' = dnl_wire resp
        \<and> fr_session_id req = w_session_id w' \<and> fr_session_id resp = w_session_id w'
        \<and> fr_sequence req = w_highest_sequence w' \<and> fr_sequence resp = w_highest_sequence w'"
      using D ok r Answer(5) by (rule_tac exI[of _ req], rule_tac exI[of _ "worker_answer w req"])
        (auto simp: Answer(8) worker_answer_fields)
    moreover have "w_session_id w' = w_session_id w" "w_hello_reply w' = w_hello_reply w"
      by (simp_all add: Answer(8))
    ultimately show ?thesis
      using inv Answer(4) by (simp add: worker_inv_def)
  qed (use inv in simp_all)
qed

text \<open>The states a worker can reach from \<open>dnl_worker_init\<close> by processing byte strings.\<close>

inductive worker_reach :: "dnl_worker \<Rightarrow> bool" where
  worker_start: "worker_reach dnl_worker_init"
| worker_step: "worker_reach w \<Longrightarrow> n \<le> length raw
    \<Longrightarrow> dnl_worker_process w (Some raw) n (Some cap) = (st, w', r) \<Longrightarrow> worker_reach w'"

lemma worker_reach_inv: "worker_reach w \<Longrightarrow> worker_inv w"
  by (induction rule: worker_reach.induct) (auto intro: worker_inv_init worker_inv_process)


section \<open>The exchange\<close>

text \<open>Both ends agree: the controller is ready and idle, in the worker's session and at its sequence number.\<close>

definition link_synced :: "dnl_controller \<Rightarrow> dnl_worker \<Rightarrow> bool" where
  "link_synced c w \<longleftrightarrow> c_ready c \<and> \<not> c_pending c \<and> c_session_id c \<noteq> 0
     \<and> w_session_id w = c_session_id c \<and> w_highest_sequence w = c_last_sequence c"

lemma controller_emit_OK:
  assumes "dnl_frame_ok f"
  shows "controller_emit c f cap = (if cap < length (dnl_wire f) then (DNL_OUTPUT_TOO_SMALL, c, [])
     else (DNL_OK, c\<lparr>c_request_bytes := dnl_wire f, c_pending := True, c_pending_type := fr_type f,
             c_retry_count := 0\<rparr>, dnl_wire f))"
  using assms by (auto simp: controller_emit_def dnl_encode_Some dnl_frame_ok_def length_dnl_wire)

abbreviation (input) request_data :: "bytes option \<Rightarrow> u8 \<Rightarrow> bytes" where
  "request_data payload len \<equiv> (case payload of None \<Rightarrow> [] | Some p \<Rightarrow> take (unat len) p)"

lemma controller_request_OK:
  assumes req: "dnl_controller_request c t payload len (Some cap) = (DNL_OK, c1, rq)"
    and buf: "\<And>p. payload = Some p \<Longrightarrow> unat len \<le> length p"
  defines "f \<equiv> controller_request_frame c t len (request_data payload len)"
  shows "c_ready c \<and> \<not> c_pending c \<and> t \<in> {DNL_PING, DNL_JOB_CRC32, DNL_GET_STATUS}
    \<and> dnl_frame_ok f \<and> unat (fr_sequence f) = unat (c_last_sequence c) + 1
    \<and> dnl_validate_payload (Some f) = DNL_OK \<and> rq = dnl_wire f
    \<and> c1 = c\<lparr>c_request_bytes := dnl_wire f, c_pending := True, c_pending_type := t, c_retry_count := 0,
         c_last_sequence := fr_sequence f,
         c_requested_job_length := (if t = DNL_JOB_CRC32 then fr_payload f ! 0 else 0)\<rparr>"
proof -
  from req have g: "c_ready c" "\<not> c_pending c" "t \<in> {DNL_PING, DNL_JOB_CRC32, DNL_GET_STATUS}"
    "unat len \<le> 24" "len = 0 \<or> payload \<noteq> None" "c_last_sequence c \<noteq> 0xffff"
    "dnl_validate_payload (Some f) = DNL_OK"
    by (auto simp: dnl_controller_request_def Let_def f_def split: if_splits)
  have l: "length (request_data payload len) = unat len"
    using g(5) buf by (auto split: option.split)
  have ok: "dnl_frame_ok f" unfolding f_def by (rule request_frame_ok[OF g(6) l g(4)])
  have typf: "fr_type f = t" by (simp add: f_def controller_request_frame_def)
  have seq: "fr_sequence f = c_last_sequence c + 1" by (simp add: f_def controller_request_frame_def)
  have "unat (fr_sequence f) = unat (c_last_sequence c) + 1"
    using ok unfolding seq dnl_frame_ok_def by (metis add.commute plus_1_eq_Suc unatSuc)
  then show ?thesis
    using req[unfolded dnl_controller_request_def option.case(2) Let_def, folded f_def] g ok
    by (auto simp: controller_emit_OK typf split: if_splits)
qed

lemma answer_valid:
  assumes "dnl_validate_payload (Some f) = DNL_OK" "fr_type f \<in> {DNL_PING, DNL_JOB_CRC32, DNL_GET_STATUS}"
  shows "fr_type (worker_answer w f) = fr_type f OR 0x80
    \<and> dnl_validate_payload (Some (worker_answer w f)) = DNL_OK
    \<and> (fr_type f = DNL_JOB_CRC32 \<longrightarrow> fr_payload (worker_answer w f) ! 0 = fr_payload f ! 0)"
  using assms
  by (auto simp: worker_answer_def Let_def dnl_validate_payload_def dnl_frame_zero_def dnl_payload_of_def
      split: if_splits)

lemma worker_process_next:
  assumes ok: "dnl_frame_ok f" and v: "dnl_validate_payload (Some f) = DNL_OK"
    and t: "fr_type f \<in> {DNL_PING, DNL_JOB_CRC32, DNL_GET_STATUS}"
    and s: "w_session_id w \<noteq> 0" "fr_session_id f = w_session_id w"
    and seq: "unat (fr_sequence f) = unat (w_highest_sequence w) + 1"
  shows "dnl_worker_process w (Some (dnl_wire f)) (length (dnl_wire f)) (Some 40) =
    (DNL_OK, w\<lparr>w_last_request := dnl_wire f, w_last_reply := dnl_wire (worker_answer w f), w_has_last := True,
       w_highest_sequence := fr_sequence f,
       w_completed_jobs := (if fr_type f = DNL_JOB_CRC32 \<and> w_completed_jobs w < 0xffff
          then w_completed_jobs w + 1 else w_completed_jobs w)\<rparr>, dnl_wire (worker_answer w f))"
proof -
  have ans: "dnl_frame_ok (worker_answer w f)" using ok by (intro worker_answer_ok) (simp add: dnl_frame_ok_def)
  have "\<not> fr_sequence f < w_highest_sequence w" "fr_sequence f \<noteq> w_highest_sequence w"
    using seq by (auto simp: word_less_nat_alt)
  moreover have "\<not> fr_type f \<ge> 0x80" "fr_type f \<noteq> DNL_HELLO" using t by (auto simp: word_le_nat_alt)
  ultimately show ?thesis
    using s seq length_wire_le[OF ans] answer_valid[OF v t, of w] t
    by (auto simp: dnl_worker_process_def decode_wire[OF ok] output_reply_ok[OF ans] Let_def not_less)
qed

lemma controller_receive_match:
  assumes ok: "dnl_frame_ok f" and v: "dnl_validate_payload (Some f) = DNL_OK"
    and p: "c_pending c" "fr_session_id f = c_session_id c" "fr_sequence f = c_last_sequence c"
    and t: "fr_type f = c_pending_type c OR 0x80" "c_pending_type c \<in> {DNL_PING, DNL_JOB_CRC32, DNL_GET_STATUS}"
    and l: "c_pending_type c = DNL_JOB_CRC32 \<Longrightarrow> fr_payload f ! 0 = c_requested_job_length c"
  shows "dnl_controller_receive c (Some (dnl_wire f)) (length (dnl_wire f)) = (DNL_OK, c\<lparr>c_pending := False\<rparr>)"
  using assms by (auto simp: dnl_controller_receive_def decode_wire dnl_is_reply_def)


section \<open>Properties of the worker and the controller\<close>

text \<open>
  C25: Requests are idempotent: when the worker has answered a byte string, receiving the same
  bytes again gives the same reply and changes nothing, so a retransmission never runs a job
  or opens a session twice. This covers every branch that answers: a new or repeated hello,
  a new or repeated request, and an out-of-sequence error.
\<close>
theorem worker_replay_is_idempotent:
  assumes "dnl_worker_process w (Some raw) n (Some cap) = (DNL_OK, w', r)" "n \<le> length raw"
  shows "dnl_worker_process w' (Some raw) n (Some cap) = (DNL_OK, w', r)"
  using assms by (rule worker_process_replay)

lemma worker_hello_fresh:
  assumes "ch \<noteq> 0" "ch \<noteq> w_session_id w"
  shows "dnl_worker_process w (Some (dnl_wire (controller_hello_frame ch))) 20 (Some 40) =
    (DNL_OK, dnl_worker_init\<lparr>w_session_id := ch, w_highest_sequence := 1,
       w_hello_reply := dnl_wire (worker_hello_ack ch)\<rparr>, dnl_wire (worker_hello_ack ch))"
proof -
  have "wr32 ch = [ucast ch, ucast (drop_bit 8 ch), ucast (drop_bit 16 ch), ucast (drop_bit 24 ch)]"
    by (simp add: wr32_def)
  have rd: "rd32 (fr_payload (controller_hello_frame ch)) 0 = ch"
    using rd32_append1[of 0 "wr32 ch"] by (simp add: controller_hello_frame_def dnl_payload_of_def)
  have "dnl_validate_payload (Some (controller_hello_frame ch)) = DNL_OK"
    using rd assms(1) by (simp add: dnl_validate_payload_def) (simp add: controller_hello_frame_def)
  moreover have "fr_type (controller_hello_frame ch) = 1" "fr_session_id (controller_hello_frame ch) = 0"
    "fr_sequence (controller_hello_frame ch) = 1" by (simp_all add: controller_hello_frame_def)
  ultimately show ?thesis
    using assms rd length_wire_le[OF hello_ack_ok, of ch]
    by (simp add: dnl_worker_process_def hello_wire_decodes worker_hello_def output_reply_ok[OF hello_ack_ok] Let_def
        word_le_nat_alt)
qed

theorem worker_replay_is_idempotent_witness:
  "\<exists>w r. dnl_worker_process dnl_worker_init (Some (dnl_wire (controller_hello_frame 7))) 20 (Some 40) = (DNL_OK, w, r)
     \<and> dnl_worker_process w (Some (dnl_wire (controller_hello_frame 7))) 20 (Some 40) = (DNL_OK, w, r)
     \<and> w_session_id w = 7"
  using worker_replay_is_idempotent[OF worker_hello_fresh, of 7 dnl_worker_init] worker_hello_fresh[of 7 dnl_worker_init]
    hello_wire_decodes(2)[of 7] by (simp add: dnl_worker_init_def)

text \<open>
  A worker is always consistent: in every state it can reach from its initial state by
  processing byte strings, either no session is open and nothing is stored, or the stored
  hello reply acknowledges the open session, the stored request and reply are whole frames
  of that session with the highest sequence number, and fewer jobs were counted than
  sequence numbers were used, so that the 16-bit job counter cannot wrap.
\<close>
theorem worker_state_consistent:
  assumes "worker_reach w"
  shows "worker_inv w"
  using assms by (rule worker_reach_inv)

theorem worker_state_consistent_witness:
  "worker_inv (dnl_worker_init\<lparr>w_session_id := 7, w_highest_sequence := 1,
     w_hello_reply := dnl_wire (worker_hello_ack 7)\<rparr>)"
  by (rule worker_state_consistent, rule worker_step[OF worker_start _ worker_hello_fresh])
    (simp_all add: dnl_worker_init_def hello_wire_decodes)

text \<open>
  The worker never goes back: one processed byte string leaves it as it was, or opens a
  new session with sequence 1 and no jobs, or stays in the session and advances the
  sequence by exactly one, counting at most one job; a call that does not answer
  \<open>DNL_OK\<close> changes nothing and writes no reply.
\<close>
theorem worker_advances_by_one:
  assumes "dnl_worker_process w raw n out = (st, w', r)"
  shows "(st \<noteq> DNL_OK \<longrightarrow> r = []) \<and>
    (w' = w
     \<or> st = DNL_OK \<and> w_session_id w' \<noteq> 0 \<and> w_highest_sequence w' = 1 \<and> w_completed_jobs w' = 0 \<and> \<not> w_has_last w'
     \<or> st = DNL_OK \<and> w_session_id w' = w_session_id w \<and> w_session_id w \<noteq> 0
        \<and> unat (w_highest_sequence w') = unat (w_highest_sequence w) + 1
        \<and> (unat (w_completed_jobs w') = unat (w_completed_jobs w)
           \<or> unat (w_completed_jobs w') = unat (w_completed_jobs w) + 1))"
proof (cases "st = DNL_OK")
  case False
  with worker_fail[OF assms] show ?thesis by blast
next
  case True
  with assms obtain b cap where "dnl_worker_process w (Some b) n (Some cap) = (DNL_OK, w', r)"
    by (auto simp: dnl_worker_process_def split: option.splits)
  then show ?thesis
  proof (cases rule: worker_process_OK_cases)
    case (Hello_New req)
    with True hello_challenge_nonzero[of req] show ?thesis by (auto simp: dnl_worker_init_def)
  next
    case (Answer req)
    have "w_completed_jobs w < 0xffff \<Longrightarrow> unat (w_completed_jobs w + 1) = unat (w_completed_jobs w) + 1"
      by (simp add: word_less_nat_alt unat_word_ariths)
    with Answer True show ?thesis by auto
  qed (use True in auto)
qed

theorem worker_advances_by_one_witness:
  "\<exists>w r. dnl_worker_process dnl_worker_init (Some (dnl_wire (controller_hello_frame 7))) 20 (Some 40) = (DNL_OK, w, r)
     \<and> w_session_id w \<noteq> 0 \<and> w_highest_sequence w = 1"
  using worker_advances_by_one[OF worker_hello_fresh, of 7 dnl_worker_init] worker_hello_fresh[of 7 dnl_worker_init]
  by (auto simp: dnl_worker_init_def)

text \<open>
  The controller accepts only the reply it waits for: receiving bytes changes its state
  only when a request is pending and the bytes decode to a valid frame of the current session
  and sequence number whose type is the pending type's reply or an error naming that type;
  then the request is completed, and the controller becomes ready only by a hello reply.
\<close>
theorem controller_accepts_only_matching_reply:
  assumes "dnl_controller_receive c (Some raw) n = (st, c')" "c' \<noteq> c"
  shows "c_pending c \<and> c' = c\<lparr>c_pending := False, c_ready := (c_ready c \<or> c_pending_type c = DNL_HELLO \<and> st = DNL_OK)\<rparr>
    \<and> (\<exists>f. dnl_decode (Some raw) n = (DNL_OK, Some f) \<and> dnl_validate_payload (Some f) = DNL_OK
        \<and> fr_session_id f = c_session_id c \<and> fr_sequence f = c_last_sequence c
        \<and> (st = DNL_OK \<and> fr_type f = c_pending_type c OR 0x80
           \<or> st = DNL_REMOTE_ERROR \<and> fr_type f = DNL_ERROR \<and> fr_payload f ! 1 = c_pending_type c))"
proof -
  obtain d where d: "dnl_decode (Some raw) n = (DNL_OK, Some d)"
  proof (cases "snd (dnl_decode (Some raw) n)")
    case None
    with assms have False by (auto simp: dnl_controller_receive_def split: prod.splits)
    then show thesis ..
  next
    case (Some f)
    then show thesis using that decode_snd_Some by blast
  qed
  from assms show ?thesis
    unfolding dnl_controller_receive_def option.case prod.case d
    by (auto split: if_splits)
qed


lemma rd32_wr32_front: "rd32 (wr32 v @ zs) 0 = v"
  using rd32_append1[of 0 "wr32 v" zs] by simp

lemma hello_ack_fields:
  "fr_type (worker_hello_ack ch) = DNL_HELLO_ACK" "fr_sequence (worker_hello_ack ch) = 1"
  "fr_session_id (worker_hello_ack ch) = ch" "rd32 (fr_payload (worker_hello_ack ch)) 0 = ch"
  "ch \<noteq> 0 \<Longrightarrow> dnl_validate_payload (Some (worker_hello_ack ch)) = DNL_OK"
proof -
  show rd: "rd32 (fr_payload (worker_hello_ack ch)) 0 = ch"
    by (simp add: worker_hello_ack_def dnl_payload_of_def rd32_wr32_front)
  show "fr_type (worker_hello_ack ch) = DNL_HELLO_ACK" "fr_sequence (worker_hello_ack ch) = 1"
    "fr_session_id (worker_hello_ack ch) = ch" by (simp_all add: worker_hello_ack_def)
  have "fr_payload (worker_hello_ack ch) ! 4 = 1" "fr_payload (worker_hello_ack ch) ! 5 = 3"
    "fr_payload (worker_hello_ack ch) ! 6 = 16" "fr_payload (worker_hello_ack ch) ! 7 = 2"
    by (simp_all add: worker_hello_ack_def dnl_payload_of_def nth_append)
  then show "ch \<noteq> 0 \<Longrightarrow> dnl_validate_payload (Some (worker_hello_ack ch)) = DNL_OK"
    using rd by (simp add: dnl_validate_payload_def) (simp add: worker_hello_ack_def)
qed

lemma controller_hello_OK:
  assumes "dnl_controller_hello c ch (Some cap) = (DNL_OK, c1, rq)"
  shows "ch \<noteq> 0 \<and> rq = dnl_wire (controller_hello_frame ch)
    \<and> c1 = c\<lparr>c_request_bytes := rq, c_pending := True, c_pending_type := DNL_HELLO, c_retry_count := 0,
        c_session_id := ch, c_last_sequence := 1, c_ready := False, c_requested_job_length := 0\<rparr>"
proof -
  have "fr_type (controller_hello_frame ch) = DNL_HELLO" by (simp add: controller_hello_frame_def)
  with assms show ?thesis
    by (auto simp: dnl_controller_hello_def controller_emit_OK[OF hello_frame_ok] split: if_splits)
qed

lemma hello_ack_received:
  assumes "ch \<noteq> 0" "c_pending c" "c_pending_type c = DNL_HELLO" "c_session_id c = ch" "c_last_sequence c = 1"
  shows "dnl_controller_receive c (Some (dnl_wire (worker_hello_ack ch))) (length (dnl_wire (worker_hello_ack ch)))
    = (DNL_OK, c\<lparr>c_pending := False, c_ready := True\<rparr>)"
  using assms hello_ack_fields[of ch]
  by (simp add: dnl_controller_receive_def decode_wire[OF hello_ack_ok] dnl_is_reply_def)

lemma hello_started:
  "dnl_controller_hello dnl_controller_init 7 (Some 40) =
     (DNL_OK, dnl_controller_init\<lparr>c_request_bytes := dnl_wire (controller_hello_frame 7), c_pending := True,
        c_pending_type := DNL_HELLO, c_session_id := 7, c_last_sequence := 1\<rparr>, dnl_wire (controller_hello_frame 7))"
  by (simp add: dnl_controller_hello_def controller_emit_OK[OF hello_frame_ok] hello_wire_decodes dnl_controller_init_def)
    (simp add: controller_hello_frame_def)

theorem controller_accepts_only_matching_reply_witness:
  "\<exists>f. dnl_decode (Some (dnl_wire (worker_hello_ack 7))) (length (dnl_wire (worker_hello_ack 7))) = (DNL_OK, Some f)
     \<and> fr_session_id f = 7 \<and> fr_sequence f = 1"
  using controller_accepts_only_matching_reply[OF hello_ack_received[of 7
      "dnl_controller_init\<lparr>c_pending := True, c_pending_type := DNL_HELLO, c_session_id := 7, c_last_sequence := 1\<rparr>"]]
  by (auto simp: dnl_controller_init_def)

text \<open>
  The handshake synchronises the two ends: a hello the controller sends with a challenge
  that is not the worker's current session is answered, the answer is accepted, and the
  two ends then agree on the session and the sequence number; when the first answer is
  lost, the controller's timeout sends the same bytes again and the outcome is the same.
\<close>
theorem hello_exchange_synchronises:
  assumes "dnl_controller_hello c ch (Some 40) = (DNL_OK, c1, rq)" "ch \<noteq> w_session_id w"
  shows "\<exists>w1 ack c2 c3. dnl_worker_process w (Some rq) (length rq) (Some 40) = (DNL_OK, w1, ack)
    \<and> dnl_controller_receive c1 (Some ack) (length ack) = (DNL_OK, c2) \<and> link_synced c2 w1
    \<and> dnl_controller_timeout c1 (Some 40) = (DNL_OK, c3, rq)
    \<and> dnl_worker_process w1 (Some rq) (length rq) (Some 40) = (DNL_OK, w1, ack)
    \<and> (\<exists>c4. dnl_controller_receive c3 (Some ack) (length ack) = (DNL_OK, c4) \<and> link_synced c4 w1)"
proof -
  from controller_hello_OK[OF assms(1)] have ch: "ch \<noteq> 0" and rq: "rq = dnl_wire (controller_hello_frame ch)"
    and c1: "c1 = c\<lparr>c_request_bytes := rq, c_pending := True, c_pending_type := DNL_HELLO, c_retry_count := 0,
        c_session_id := ch, c_last_sequence := 1, c_ready := False, c_requested_job_length := 0\<rparr>" by auto
  have len: "length rq = 20" by (simp add: rq hello_wire_decodes)
  define w1 where "w1 = dnl_worker_init\<lparr>w_session_id := ch, w_highest_sequence := 1,
       w_hello_reply := dnl_wire (worker_hello_ack ch)\<rparr>"
  have step: "dnl_worker_process w (Some rq) (length rq) (Some 40) = (DNL_OK, w1, dnl_wire (worker_hello_ack ch))"
    unfolding len unfolding rq w1_def using ch assms(2) by (rule worker_hello_fresh)
  from worker_process_replay[OF step] have again:
    "dnl_worker_process w1 (Some rq) (length rq) (Some 40) = (DNL_OK, w1, dnl_wire (worker_hello_ack ch))" by simp
  have tmo: "dnl_controller_timeout c1 (Some 40) = (DNL_OK, c1\<lparr>c_retry_count := 1\<rparr>, rq)"
    by (simp add: dnl_controller_timeout_def c1 len)
  show ?thesis
    using step again tmo ch hello_ack_received[of ch c1] hello_ack_received[of ch "c1\<lparr>c_retry_count := 1\<rparr>"]
    by (simp add: link_synced_def c1 w1_def)
qed

theorem hello_exchange_synchronises_witness:
  "\<exists>w1 ack c2. dnl_worker_process dnl_worker_init (Some (dnl_wire (controller_hello_frame 7))) 20 (Some 40) = (DNL_OK, w1, ack)
    \<and> link_synced c2 w1"
  using hello_exchange_synchronises[OF hello_started, of dnl_worker_init] hello_wire_decodes(2)[of 7]
  by (auto simp: dnl_worker_init_def)

lemma jobs_below_sequence:
  assumes "worker_inv w" "w_session_id w \<noteq> 0"
  shows "w_completed_jobs w < 0xffff" "unat (w_completed_jobs w + 1) = unat (w_completed_jobs w) + 1"
proof -
  have "unat (w_completed_jobs w) < unat (w_highest_sequence w)" using assms by (simp add: worker_inv_def)
  moreover have "unat (w_highest_sequence w) \<le> 0xffff"
    using unsigned_less[of "w_highest_sequence w", where ?'a = nat] by simp
  ultimately show "w_completed_jobs w < 0xffff" "unat (w_completed_jobs w + 1) = unat (w_completed_jobs w) + 1"
    by (simp_all add: word_less_nat_alt unat_word_ariths)
qed

text \<open>The first timeout repeats a request that is not a job, the next one gives up.\<close>

lemma request_timeouts:
  assumes req: "dnl_controller_request c t payload len (Some 40) = (DNL_OK, c1, rq)"
    and buf: "\<And>p. payload = Some p \<Longrightarrow> unat len \<le> length p"
  shows "t \<noteq> DNL_JOB_CRC32 \<Longrightarrow> dnl_controller_timeout c1 (Some 40) = (DNL_OK, c1\<lparr>c_retry_count := 1\<rparr>, rq)"
    "dnl_controller_timeout (c1\<lparr>c_retry_count := 1\<rparr>) (Some 40)
       = (DNL_DROP, c1\<lparr>c_retry_count := 1, c_pending := False, c_ready := False\<rparr>, [])"
    "t = DNL_JOB_CRC32 \<Longrightarrow> dnl_controller_timeout c1 (Some 40) = (DNL_DROP, c1\<lparr>c_pending := False, c_ready := False\<rparr>, [])"
  using controller_request_OK[OF req buf] length_wire_le[of "controller_request_frame c t len (request_data payload len)"]
  by (auto simp: dnl_controller_timeout_def)

text \<open>
  C10: Every request of a synchronised link is executed exactly once and answered: the worker
  answers the bytes the controller sent with the reply its current state gives, counts a
  \<open>JOB_CRC32\<close> once, the controller accepts that reply, and the link is synchronised again.
  If the reply to a request other than a job is lost, the first timeout sends the same bytes
  again, the worker repeats its reply without counting anything, the controller accepts it and
  the link is synchronised; at the next timeout the controller gives up. A job whose reply is
  lost is not sent again: the timeout only takes the controller down until the next hello.
\<close>
theorem request_exchange_once:
  assumes sync: "link_synced c w" and inv: "worker_inv w"
    and req: "dnl_controller_request c t payload len (Some 40) = (DNL_OK, c1, rq)"
    and buf: "\<And>p. payload = Some p \<Longrightarrow> unat len \<le> length p"
  shows "\<exists>f w1 c2. rq = dnl_wire f \<and> fr_type f = t \<and> fr_payload_length f = len
    \<and> dnl_worker_process w (Some rq) (length rq) (Some 40) = (DNL_OK, w1, dnl_wire (worker_answer w f))
    \<and> unat (w_completed_jobs w1) = unat (w_completed_jobs w) + (if t = DNL_JOB_CRC32 then 1 else 0)
    \<and> dnl_controller_receive c1 (Some (dnl_wire (worker_answer w f))) (length (dnl_wire (worker_answer w f)))
        = (DNL_OK, c2)
    \<and> link_synced c2 w1
    \<and> dnl_worker_process w1 (Some rq) (length rq) (Some 40) = (DNL_OK, w1, dnl_wire (worker_answer w f))
    \<and> (if t = DNL_JOB_CRC32 then dnl_controller_timeout c1 (Some 40) = (DNL_DROP, c1\<lparr>c_pending := False, c_ready := False\<rparr>, [])
       else \<exists>c3 c4. dnl_controller_timeout c1 (Some 40) = (DNL_OK, c3, rq)
         \<and> dnl_controller_receive c3 (Some (dnl_wire (worker_answer w f))) (length (dnl_wire (worker_answer w f))) = (DNL_OK, c4)
         \<and> link_synced c4 w1
         \<and> dnl_controller_timeout c3 (Some 40) = (DNL_DROP, c3\<lparr>c_pending := False, c_ready := False\<rparr>, []))"
proof -
  let ?f = "controller_request_frame c t len (request_data payload len)"
  let ?a = "worker_answer w ?f"
  have ff: "fr_type ?f = t" "fr_session_id ?f = c_session_id c" "fr_payload_length ?f = len"
    by (simp_all add: controller_request_frame_def)
  note R = controller_request_OK[OF req buf]
  then have f: "dnl_frame_ok ?f" "dnl_validate_payload (Some ?f) = DNL_OK" "rq = dnl_wire ?f"
    and t: "t \<in> {DNL_PING, DNL_JOB_CRC32, DNL_GET_STATUS}"
    and seq: "unat (fr_sequence ?f) = unat (c_last_sequence c) + 1"
    and c1: "c1 = c\<lparr>c_request_bytes := dnl_wire ?f, c_pending := True, c_pending_type := t, c_retry_count := 0,
         c_last_sequence := fr_sequence ?f,
         c_requested_job_length := (if t = DNL_JOB_CRC32 then fr_payload ?f ! 0 else 0)\<rparr>" by blast+
  from sync have s: "w_session_id w \<noteq> 0" "w_session_id w = c_session_id c" "w_highest_sequence w = c_last_sequence c"
    "c_ready c" by (simp_all add: link_synced_def)
  have ok: "dnl_frame_ok ?a" using f(1) by (intro worker_answer_ok) (simp add: dnl_frame_ok_def)
  have av: "fr_type ?a = t OR 0x80" "dnl_validate_payload (Some ?a) = DNL_OK"
    "t = DNL_JOB_CRC32 \<longrightarrow> fr_payload ?a ! 0 = fr_payload ?f ! 0"
    using answer_valid[OF f(2), of w] t by (simp_all add: ff)
  note jobs = jobs_below_sequence[OF inv s(1)]
  from worker_process_next[OF f(1,2) _ s(1)] t s seq obtain w1 where
    step: "dnl_worker_process w (Some rq) (length rq) (Some 40) = (DNL_OK, w1, dnl_wire ?a)"
    and w1: "w1 = w\<lparr>w_last_request := dnl_wire ?f, w_last_reply := dnl_wire ?a, w_has_last := True,
       w_highest_sequence := fr_sequence ?f,
       w_completed_jobs := (if t = DNL_JOB_CRC32 \<and> w_completed_jobs w < 0xffff
          then w_completed_jobs w + 1 else w_completed_jobs w)\<rparr>"
    unfolding f(3) ff by auto
  from worker_process_replay[OF step] have again:
    "dnl_worker_process w1 (Some rq) (length rq) (Some 40) = (DNL_OK, w1, dnl_wire ?a)" by simp
  have recv: "dnl_controller_receive c1 (Some (dnl_wire ?a)) (length (dnl_wire ?a)) = (DNL_OK, c1\<lparr>c_pending := False\<rparr>)"
    using av t s by (intro controller_receive_match[OF ok]) (auto simp: c1 worker_answer_fields)
  let ?c3 = "c1\<lparr>c_retry_count := 1\<rparr>"
  have recv3: "dnl_controller_receive ?c3 (Some (dnl_wire ?a)) (length (dnl_wire ?a)) = (DNL_OK, ?c3\<lparr>c_pending := False\<rparr>)"
    using av t s by (intro controller_receive_match[OF ok]) (auto simp: c1 worker_answer_fields)
  note tmo = request_timeouts[OF req buf]
  have synced: "link_synced (c1\<lparr>c_pending := False\<rparr>) w1" "link_synced (?c3\<lparr>c_pending := False\<rparr>) w1"
    using s by (simp_all add: link_synced_def w1 c1)
  have lost: "if t = DNL_JOB_CRC32 then dnl_controller_timeout c1 (Some 40) = (DNL_DROP, c1\<lparr>c_pending := False, c_ready := False\<rparr>, [])
       else \<exists>c3 c4. dnl_controller_timeout c1 (Some 40) = (DNL_OK, c3, rq)
         \<and> dnl_controller_receive c3 (Some (dnl_wire ?a)) (length (dnl_wire ?a)) = (DNL_OK, c4) \<and> link_synced c4 w1
         \<and> dnl_controller_timeout c3 (Some 40) = (DNL_DROP, c3\<lparr>c_pending := False, c_ready := False\<rparr>, [])"
    using tmo recv3 synced(2) by auto
  have count: "unat (w_completed_jobs w1) = unat (w_completed_jobs w) + (if t = DNL_JOB_CRC32 then 1 else 0)"
    using jobs by (simp add: w1)
  show ?thesis
    using step again recv lost count f(3) ff(1,3) synced(1)
    by (intro exI[of _ ?f] exI[of _ w1] exI[of _ "c1\<lparr>c_pending := False\<rparr>"]) simp
qed


lemma ping_sent:
  assumes "c_ready c" "\<not> c_pending c" "c_last_sequence c \<noteq> 0xffff"
  shows "\<exists>c1 rq. dnl_controller_request c DNL_PING None 0 (Some 40) = (DNL_OK, c1, rq)"
proof -
  have ok: "dnl_frame_ok (controller_request_frame c DNL_PING 0 [])"
    using assms(3) by (intro request_frame_ok) simp_all
  have "dnl_validate_payload (Some (controller_request_frame c DNL_PING 0 [])) = DNL_OK"
    by (simp add: dnl_validate_payload_def controller_request_frame_def)
  then show ?thesis
    using assms length_wire_le[OF ok] by (simp add: dnl_controller_request_def controller_emit_OK[OF ok] not_less Let_def)
qed

theorem request_exchange_once_witness:
  "\<exists>rq w1 reply. dnl_worker_process (dnl_worker_init\<lparr>w_session_id := 7, w_highest_sequence := 1,
       w_hello_reply := dnl_wire (worker_hello_ack 7)\<rparr>) (Some rq) (length rq) (Some 40) = (DNL_OK, w1, reply)
     \<and> w_highest_sequence w1 = 2"
proof -
  define c where "c = dnl_controller_init\<lparr>c_ready := True, c_session_id := 7, c_last_sequence := 1\<rparr>"
  define w where "w = dnl_worker_init\<lparr>w_session_id := 7, w_highest_sequence := 1, w_hello_reply := dnl_wire (worker_hello_ack 7)\<rparr>"
  have "c_ready c" "\<not> c_pending c" "c_last_sequence c \<noteq> 0xffff" by (simp_all add: c_def dnl_controller_init_def)
  from ping_sent[OF this] obtain c1 rq where req: "dnl_controller_request c DNL_PING None 0 (Some 40) = (DNL_OK, c1, rq)"
    by blast
  have sync: "link_synced c w" by (simp add: link_synced_def c_def w_def dnl_controller_init_def)
  have inv: "worker_inv w" by (simp add: worker_inv_def w_def dnl_worker_init_def)
  from request_exchange_once[OF sync inv req] obtain f w1 c2 where
    step: "dnl_worker_process w (Some rq) (length rq) (Some 40) = (DNL_OK, w1, dnl_wire (worker_answer w f))"
    and "link_synced c2 w1"
    and recv: "dnl_controller_receive c1 (Some (dnl_wire (worker_answer w f))) (length (dnl_wire (worker_answer w f))) = (DNL_OK, c2)"
    by auto
  have "c_last_sequence c1 = 2"
    using controller_request_OK[OF req] by (simp add: controller_request_frame_def c_def)
  moreover have "c_last_sequence c2 = c_last_sequence c1"
    using recv by (auto simp: dnl_controller_receive_def split: prod.splits option.splits if_splits)
  ultimately show ?thesis
    using step \<open>link_synced c2 w1\<close> by (auto simp: link_synced_def w_def)
qed

end
