(* ===== verification/Binary_Frame.thy ===== *)
theory Binary_Frame
  imports Crc_Codes
begin

unbundle bit_operations_syntax

text \<open>
  The management frame (\<open>src/src/kernel/binary_frame.c\<close>): a byte-at-a-time parser, and the
  encoder that completes a frame in place around a payload. The array indices of the
  parser are natural numbers; that they stay in the arrays is proved.
\<close>

section \<open>Constants and types\<close>

abbreviation (input) BINARY_FRAME_MAGIC0 :: u8 where "BINARY_FRAME_MAGIC0 \<equiv> 0xA5"
abbreviation (input) BINARY_FRAME_MAGIC1 :: u8 where "BINARY_FRAME_MAGIC1 \<equiv> 0x5A"
abbreviation (input) BINARY_FRAME_PROTOCOL_VERSION :: u8 where "BINARY_FRAME_PROTOCOL_VERSION \<equiv> 1"
abbreviation (input) BINARY_FRAME_FIXED_PREFIX_BYTES :: nat where "BINARY_FRAME_FIXED_PREFIX_BYTES \<equiv> 10"
abbreviation (input) BINARY_FRAME_CRC_BYTES :: nat where "BINARY_FRAME_CRC_BYTES \<equiv> 2"
abbreviation (input) BINARY_FRAME_MAX_PAYLOAD :: nat where "BINARY_FRAME_MAX_PAYLOAD \<equiv> 132"

datatype binary_frame_parser_state =
    BINARY_FRAME_PARSER_IDLE | BINARY_FRAME_PARSER_MAGIC1 | BINARY_FRAME_PARSER_HEADER
  | BINARY_FRAME_PARSER_PAYLOAD | BINARY_FRAME_PARSER_CRC0 | BINARY_FRAME_PARSER_CRC1
  | BINARY_FRAME_PARSER_RESYNC | BINARY_FRAME_PARSER_RESYNC_MAGIC1

datatype binary_frame_feed_result =
    BINARY_FRAME_FEED_TEXT | BINARY_FRAME_FEED_CONSUMED | BINARY_FRAME_FEED_FRAME_READY
  | BINARY_FRAME_FEED_SYNC_ERROR_TEXT | BINARY_FRAME_FEED_SYNC_ERROR_CONSUMED
  | BINARY_FRAME_FEED_CRC_ERROR | BINARY_FRAME_FEED_LENGTH_ERROR

record binary_frame_view =
  fv_version :: u8
  fv_frame_type :: u8
  fv_flags :: u8
  fv_reserved :: u8
  fv_request_id :: u16
  fv_payload_length :: u16
  fv_payload :: bytes

record binary_frame_parser =
  bp_state :: binary_frame_parser_state
  bp_header :: bytes
  bp_payload :: bytes
  bp_header_index :: nat
  bp_payload_index :: nat
  bp_payload_length :: nat
  bp_crc :: u16
  bp_received_crc_low :: u8
  bp_frames_received :: u32
  bp_sync_errors :: u32
  bp_crc_errors :: u32
  bp_length_errors :: u32

section \<open>The parser\<close>

definition binary_frame_parser_reset :: "binary_frame_parser \<Rightarrow> binary_frame_parser" where
  "binary_frame_parser_reset p = p\<lparr>bp_state := BINARY_FRAME_PARSER_IDLE, bp_header_index := 0,
     bp_payload_index := 0, bp_payload_length := 0, bp_crc := 0xFFFF, bp_received_crc_low := 0\<rparr>"

definition binary_frame_parser_init :: "binary_frame_parser \<Rightarrow> binary_frame_parser" where
  "binary_frame_parser_init p = binary_frame_parser_reset (p\<lparr>bp_frames_received := 0,
     bp_sync_errors := 0, bp_crc_errors := 0, bp_length_errors := 0\<rparr>)"

text \<open>The second marker byte, from either marker state.\<close>

definition parser_start_header :: "binary_frame_parser \<Rightarrow> binary_frame_parser" where
  "parser_start_header p = p\<lparr>bp_state := BINARY_FRAME_PARSER_HEADER, bp_header_index := 0,
     bp_payload_index := 0, bp_payload_length := 0, bp_crc := 0xFFFF\<rparr>"

definition parser_feed_header ::
    "binary_frame_parser \<Rightarrow> u8 \<Rightarrow> binary_frame_parser \<times> binary_frame_feed_result" where
  "parser_feed_header p byte =
     (let p1 = p\<lparr>bp_header := (bp_header p)[bp_header_index p := byte],
                 bp_crc := binary_frame_crc16_update (bp_crc p) byte,
                 bp_header_index := bp_header_index p + 1\<rparr>
      in if bp_header_index p1 = 8 then
           let p2 = p1\<lparr>bp_payload_length := unat (rd16 (bp_header p1) 6)\<rparr> in
             if bp_payload_length p2 > BINARY_FRAME_MAX_PAYLOAD then
               (p2\<lparr>bp_length_errors := bp_length_errors p2 + 1, bp_state := BINARY_FRAME_PARSER_RESYNC\<rparr>,
                BINARY_FRAME_FEED_LENGTH_ERROR)
             else if bp_payload_length p2 = 0 then
               (p2\<lparr>bp_state := BINARY_FRAME_PARSER_CRC0\<rparr>, BINARY_FRAME_FEED_CONSUMED)
             else (p2\<lparr>bp_payload_index := 0, bp_state := BINARY_FRAME_PARSER_PAYLOAD\<rparr>, BINARY_FRAME_FEED_CONSUMED)
         else (p1, BINARY_FRAME_FEED_CONSUMED))"

definition parser_feed_payload ::
    "binary_frame_parser \<Rightarrow> u8 \<Rightarrow> binary_frame_parser \<times> binary_frame_feed_result" where
  "parser_feed_payload p byte =
     (let p1 = p\<lparr>bp_payload := (bp_payload p)[bp_payload_index p := byte],
                 bp_crc := binary_frame_crc16_update (bp_crc p) byte,
                 bp_payload_index := bp_payload_index p + 1\<rparr>
      in ((if bp_payload_index p1 = bp_payload_length p1 then p1\<lparr>bp_state := BINARY_FRAME_PARSER_CRC0\<rparr> else p1),
          BINARY_FRAME_FEED_CONSUMED))"

text \<open>
  The view handed out points into the parser's payload array; the model copies the array,
  which is what a caller reads before the next byte is fed.
\<close>

definition parser_view :: "binary_frame_parser \<Rightarrow> binary_frame_view" where
  "parser_view p = \<lparr>fv_version = bp_header p ! 0, fv_frame_type = bp_header p ! 1,
     fv_flags = bp_header p ! 2, fv_reserved = bp_header p ! 3, fv_request_id = rd16 (bp_header p) 4,
     fv_payload_length = of_nat (bp_payload_length p), fv_payload = bp_payload p\<rparr>"

definition parser_feed_crc1 ::
    "binary_frame_parser \<Rightarrow> u8 \<Rightarrow> binary_frame_parser \<times> binary_frame_feed_result \<times> binary_frame_view option" where
  "parser_feed_crc1 p byte =
     (let received_crc = ucast (bp_received_crc_low p) OR push_bit 8 (ucast byte) :: u16
      in if received_crc \<noteq> bp_crc p then
           (binary_frame_parser_reset (p\<lparr>bp_crc_errors := bp_crc_errors p + 1\<rparr>), BINARY_FRAME_FEED_CRC_ERROR, None)
         else
           (binary_frame_parser_reset (p\<lparr>bp_frames_received := bp_frames_received p + 1\<rparr>),
            BINARY_FRAME_FEED_FRAME_READY, Some (parser_view p)))"

definition binary_frame_parser_feed ::
    "binary_frame_parser \<Rightarrow> u8 \<Rightarrow> binary_frame_parser \<times> binary_frame_feed_result \<times> binary_frame_view option" where
  "binary_frame_parser_feed p byte = (case bp_state p of
     BINARY_FRAME_PARSER_IDLE \<Rightarrow>
       if byte = BINARY_FRAME_MAGIC0
       then (p\<lparr>bp_state := BINARY_FRAME_PARSER_MAGIC1\<rparr>, BINARY_FRAME_FEED_CONSUMED, None)
       else (p, BINARY_FRAME_FEED_TEXT, None)
   | BINARY_FRAME_PARSER_MAGIC1 \<Rightarrow>
       if byte = BINARY_FRAME_MAGIC1 then (parser_start_header p, BINARY_FRAME_FEED_CONSUMED, None)
       else let p1 = p\<lparr>bp_sync_errors := bp_sync_errors p + 1\<rparr> in
         if byte = BINARY_FRAME_MAGIC0
         then (p1\<lparr>bp_state := BINARY_FRAME_PARSER_MAGIC1\<rparr>, BINARY_FRAME_FEED_SYNC_ERROR_CONSUMED, None)
         else (binary_frame_parser_reset p1, BINARY_FRAME_FEED_SYNC_ERROR_TEXT, None)
   | BINARY_FRAME_PARSER_HEADER \<Rightarrow> (case parser_feed_header p byte of (p', r) \<Rightarrow> (p', r, None))
   | BINARY_FRAME_PARSER_PAYLOAD \<Rightarrow> (case parser_feed_payload p byte of (p', r) \<Rightarrow> (p', r, None))
   | BINARY_FRAME_PARSER_CRC0 \<Rightarrow>
       (p\<lparr>bp_received_crc_low := byte, bp_state := BINARY_FRAME_PARSER_CRC1\<rparr>, BINARY_FRAME_FEED_CONSUMED, None)
   | BINARY_FRAME_PARSER_CRC1 \<Rightarrow> parser_feed_crc1 p byte
   | BINARY_FRAME_PARSER_RESYNC \<Rightarrow>
       ((if byte = BINARY_FRAME_MAGIC0 then p\<lparr>bp_state := BINARY_FRAME_PARSER_RESYNC_MAGIC1\<rparr> else p),
        BINARY_FRAME_FEED_CONSUMED, None)
   | BINARY_FRAME_PARSER_RESYNC_MAGIC1 \<Rightarrow>
       ((if byte = BINARY_FRAME_MAGIC1 then parser_start_header p
         else if byte \<noteq> BINARY_FRAME_MAGIC0 then p\<lparr>bp_state := BINARY_FRAME_PARSER_RESYNC\<rparr> else p),
        BINARY_FRAME_FEED_CONSUMED, None))"

text \<open>Feeding a byte string, with the result and the view of every byte.\<close>

fun binary_frame_feed_all ::
    "binary_frame_parser \<Rightarrow> bytes \<Rightarrow> binary_frame_parser \<times> (binary_frame_feed_result \<times> binary_frame_view option) list" where
  "binary_frame_feed_all p [] = (p, [])"
| "binary_frame_feed_all p (b # bs) =
     (case binary_frame_parser_feed p b of
        (p', r, v) \<Rightarrow> (case binary_frame_feed_all p' bs of (p'', rs) \<Rightarrow> (p'', (r, v) # rs)))"

section \<open>The encoder\<close>

text \<open>The wire buffer is a list of at least \<open>12 + payload_length\<close> bytes.\<close>

definition binary_frame_finalize_in_place ::
    "u8 \<Rightarrow> u8 \<Rightarrow> u16 \<Rightarrow> u16 \<Rightarrow> bytes \<Rightarrow> nat \<times> bytes" where
  "binary_frame_finalize_in_place frame_type flags request_id payload_length wire =
     (let wire_length = BINARY_FRAME_FIXED_PREFIX_BYTES + unat payload_length + BINARY_FRAME_CRC_BYTES;
          w1 = store_at wire 0 ([BINARY_FRAME_MAGIC0, BINARY_FRAME_MAGIC1, BINARY_FRAME_PROTOCOL_VERSION,
                 frame_type, flags, 0] @ wr16 request_id @ wr16 payload_length);
          crc = binary_frame_crc16_ccitt_false (Some (drop 2 w1)) (8 + unat payload_length)
      in (wire_length, store_at w1 (BINARY_FRAME_FIXED_PREFIX_BYTES + unat payload_length) (wr16 crc)))"

definition binary_frame_encode ::
    "u8 \<Rightarrow> u8 \<Rightarrow> u16 \<Rightarrow> bytes option \<Rightarrow> u16 \<Rightarrow> bytes option \<Rightarrow> nat \<Rightarrow> nat \<times> bytes option" where
  "binary_frame_encode frame_type flags request_id payload payload_length wire wire_capacity =
     (case wire of
        None \<Rightarrow> (0, None)
      | Some w \<Rightarrow>
          if (payload = None \<and> payload_length \<noteq> 0) \<or> unat payload_length > BINARY_FRAME_MAX_PAYLOAD
          then (0, Some w)
          else let wire_length = BINARY_FRAME_FIXED_PREFIX_BYTES + unat payload_length + BINARY_FRAME_CRC_BYTES in
            if wire_capacity < wire_length then (0, Some w)
            else let data = (case payload of None \<Rightarrow> [] | Some p \<Rightarrow> take (unat payload_length) p);
                     w1 = store_at w BINARY_FRAME_FIXED_PREFIX_BYTES data in
              (case binary_frame_finalize_in_place frame_type flags request_id payload_length w1 of
                 (n, w2) \<Rightarrow> (n, Some w2)))"

section \<open>The wire format\<close>

definition bf_body :: "binary_frame_view \<Rightarrow> bytes" where
  "bf_body v = [fv_version v, fv_frame_type v, fv_flags v, fv_reserved v] @ wr16 (fv_request_id v)
     @ wr16 (fv_payload_length v) @ take (unat (fv_payload_length v)) (fv_payload v)"

abbreviation bf_crc :: "bytes \<Rightarrow> u16" where
  "bf_crc \<equiv> foldl binary_frame_crc16_update 0xFFFF"

definition bf_wire :: "binary_frame_view \<Rightarrow> bytes" where
  "bf_wire v = [BINARY_FRAME_MAGIC0, BINARY_FRAME_MAGIC1] @ bf_body v @ wr16 (bf_crc (bf_body v))"

text \<open>What a receiver can observe of a view: the header fields and the payload in use.\<close>

definition bf_same :: "binary_frame_view \<Rightarrow> binary_frame_view \<Rightarrow> bool" where
  "bf_same v w \<longleftrightarrow> bf_body v = bf_body w"

definition bf_view_ok :: "binary_frame_view \<Rightarrow> bool" where
  "bf_view_ok v \<longleftrightarrow> unat (fv_payload_length v) \<le> BINARY_FRAME_MAX_PAYLOAD
     \<and> unat (fv_payload_length v) \<le> length (fv_payload v)"

lemma finalize_wire:
  assumes "length data = unat n" "12 + unat n \<le> length w" "take (unat n) (drop 10 w) = data"
  shows "binary_frame_finalize_in_place t fl rid n w =
    (12 + unat n, bf_wire \<lparr>fv_version = 1, fv_frame_type = t, fv_flags = fl, fv_reserved = 0,
       fv_request_id = rid, fv_payload_length = n, fv_payload = data\<rparr> @ drop (12 + unat n) w)"
proof -
  let ?h = "[1, t, fl, 0] @ wr16 rid @ wr16 n :: bytes"
  have w10: "drop 10 w = data @ drop (10 + unat n) w"
    using assms(3) append_take_drop_id[of "unat n" "drop 10 w"] by (simp add: add.commute)
  have w1: "store_at w 0 ([0xA5, 0x5A, 1, t, fl, 0] @ wr16 rid @ wr16 n) = [0xA5, 0x5A] @ ?h @ data @ drop (10 + unat n) w"
    using w10 by (simp add: store_at_def)
  have crc: "binary_frame_crc16_ccitt_false (Some (?h @ data @ rest)) (8 + unat n) = bf_crc (?h @ data)" for rest
  proof -
    have "length (?h @ data) = 8 + unat n" using assms(1) by simp
    then have "take (8 + unat n) (?h @ data @ rest) = ?h @ data" by (metis append_assoc append_eq_conv_conj)
    then show ?thesis unfolding binary_frame_crc16_ccitt_false_def by (simp only: option.case)
  qed
  have st: "store_at ([0xA5, 0x5A] @ ?h @ data @ drop (10 + unat n) w) (10 + unat n) (wr16 c)
      = [0xA5, 0x5A] @ ?h @ data @ wr16 c @ drop (12 + unat n) w" for c
    using assms(1) store_at_append[of "[0xA5, 0x5A] @ ?h @ data" "10 + unat n" "drop (10 + unat n) w" "wr16 c"]
    by (simp add: add.commute)
  show ?thesis
    unfolding binary_frame_finalize_in_place_def Let_def w1 st
    using crc[of "drop (10 + unat n) w"] assms(1)
    by (simp add: bf_wire_def bf_body_def)
qed


section \<open>What the parser holds after the marker\<close>

text \<open>
  \<open>bf_at p m\<close>: the parser is inside a frame and \<open>m\<close> is every byte since the marker. It
  bounds both array indices and ties header, payload and checksum to those bytes.
\<close>

definition bf_arrays :: "binary_frame_parser \<Rightarrow> bool" where
  "bf_arrays p \<longleftrightarrow> length (bp_header p) = 8 \<and> length (bp_payload p) = BINARY_FRAME_MAX_PAYLOAD"

definition bf_len_ok :: "binary_frame_parser \<Rightarrow> bool" where
  "bf_len_ok p \<longleftrightarrow> bp_payload_length p = unat (rd16 (bp_header p) 6) \<and> bp_payload_length p \<le> BINARY_FRAME_MAX_PAYLOAD"

definition bf_at :: "binary_frame_parser \<Rightarrow> bytes \<Rightarrow> bool" where
  "bf_at p m \<longleftrightarrow> (case bp_state p of
     BINARY_FRAME_PARSER_HEADER \<Rightarrow> bp_header_index p = length m \<and> length m < 8
       \<and> take (length m) (bp_header p) = m \<and> bp_crc p = bf_crc m
   | BINARY_FRAME_PARSER_PAYLOAD \<Rightarrow> bf_len_ok p \<and> bp_payload_index p < bp_payload_length p
       \<and> m = bp_header p @ take (bp_payload_index p) (bp_payload p) \<and> bp_crc p = bf_crc m
   | BINARY_FRAME_PARSER_CRC0 \<Rightarrow> bf_len_ok p
       \<and> m = bp_header p @ take (bp_payload_length p) (bp_payload p) \<and> bp_crc p = bf_crc m
   | BINARY_FRAME_PARSER_CRC1 \<Rightarrow> bf_len_ok p
       \<and> m = bp_header p @ take (bp_payload_length p) (bp_payload p) @ [bp_received_crc_low p]
       \<and> bp_crc p = bf_crc (bp_header p @ take (bp_payload_length p) (bp_payload p))
   | _ \<Rightarrow> False)"

lemma bf_at_start: "bf_at (parser_start_header p) []"
  by (simp add: bf_at_def parser_start_header_def)

lemma bf_arrays_feed: "bf_arrays p \<Longrightarrow> bf_arrays (fst (binary_frame_parser_feed p b))"
  by (simp add: binary_frame_parser_feed_def bf_arrays_def parser_start_header_def binary_frame_parser_reset_def
      parser_feed_header_def parser_feed_payload_def parser_feed_crc1_def Let_def
      split: binary_frame_parser_state.split)

text \<open>One byte inside a header.\<close>

lemma feed_header_byte:
  assumes at: "bf_at p m" "bf_arrays p" "bp_state p = BINARY_FRAME_PARSER_HEADER"
    and feed: "binary_frame_parser_feed p b = (p', r, v)"
  shows "v = None \<and> (if length m = 7 \<and> unat (rd16 (m @ [b]) 6) > BINARY_FRAME_MAX_PAYLOAD
      then r = BINARY_FRAME_FEED_LENGTH_ERROR \<and> bp_state p' = BINARY_FRAME_PARSER_RESYNC
      else r = BINARY_FRAME_FEED_CONSUMED \<and> bf_at p' (m @ [b]))"
proof -
  let ?h = "(bp_header p)[length m := b]"
  from at have h: "length (bp_header p) = 8" "length m < 8" "bp_header_index p = length m"
    "take (length m) (bp_header p) = m" "bp_crc p = bf_crc m"
    by (simp_all add: bf_at_def bf_arrays_def)
  have upd: "take (Suc (length m)) ?h = m @ [b]" using h by (simp add: take_Suc_update)
  have full: "length m = 7 \<Longrightarrow> ?h = m @ [b]" using upd h(1) by simp
  show ?thesis
    using feed at(3) h upd full
    by (auto simp: binary_frame_parser_feed_def parser_feed_header_def Let_def bf_at_def bf_len_ok_def
        split: if_splits)
qed

lemma feed_payload_byte:
  assumes at: "bf_at p m" "bf_arrays p" "bp_state p = BINARY_FRAME_PARSER_PAYLOAD"
    and feed: "binary_frame_parser_feed p b = (p', r, v)"
  shows "v = None \<and> r = BINARY_FRAME_FEED_CONSUMED \<and> bf_at p' (m @ [b])"
proof -
  let ?i = "bp_payload_index p"
  from at have h: "length (bp_payload p) = 132" "?i < bp_payload_length p" "bf_len_ok p"
    "m = bp_header p @ take ?i (bp_payload p)" "bp_crc p = bf_crc m"
    by (simp_all add: bf_at_def bf_arrays_def)
  have "?i < length (bp_payload p)" using h by (simp add: bf_len_ok_def)
  then have upd: "take (Suc ?i) ((bp_payload p)[?i := b]) = take ?i (bp_payload p) @ [b]"
    by (rule take_Suc_update)
  show ?thesis
    using feed at(3) h upd
    by (auto simp: binary_frame_parser_feed_def parser_feed_payload_def Let_def bf_at_def bf_len_ok_def)
qed

lemma feed_crc0_byte:
  assumes "bf_at p m" "bp_state p = BINARY_FRAME_PARSER_CRC0" "binary_frame_parser_feed p b = (p', r, v)"
  shows "v = None \<and> r = BINARY_FRAME_FEED_CONSUMED \<and> bf_at p' (m @ [b])"
  using assms by (auto simp: binary_frame_parser_feed_def bf_at_def bf_len_ok_def)

lemma header_8: "length h = 8 \<Longrightarrow> h = [h!0, h!1, h!2, h!3] @ wr16 (rd16 h 4) @ wr16 (rd16 h 6)"
  using take_as_map[of 8 h] by (simp add: wr16_rd16 upt_rec numeral_eq_Suc)

lemma bf_body_view:
  assumes "bf_arrays p" "bf_len_ok p"
  shows "bf_body (parser_view p) = bp_header p @ take (bp_payload_length p) (bp_payload p)"
    "bf_view_ok (parser_view p)" "fv_payload_length (parser_view p) = rd16 (bp_header p) 6"
proof -
  have l: "(of_nat (bp_payload_length p) :: u16) = rd16 (bp_header p) 6"
    using assms(2) by (simp add: bf_len_ok_def)
  have "bp_header p = [bp_header p ! 0, bp_header p ! 1, bp_header p ! 2, bp_header p ! 3]
      @ wr16 (rd16 (bp_header p) 4) @ wr16 (rd16 (bp_header p) 6)"
    using assms(1) by (intro header_8) (simp add: bf_arrays_def)
  moreover have "unat (rd16 (bp_header p) 6) = bp_payload_length p"
    using assms(2) by (simp add: bf_len_ok_def)
  ultimately show "bf_body (parser_view p) = bp_header p @ take (bp_payload_length p) (bp_payload p)"
    unfolding bf_body_def parser_view_def binary_frame_view.simps l
    by (metis append.assoc)
  show "bf_view_ok (parser_view p)" "fv_payload_length (parser_view p) = rd16 (bp_header p) 6"
    using assms by (simp_all add: bf_view_ok_def parser_view_def bf_len_ok_def bf_arrays_def)
qed

text \<open>The last byte: a frame is handed out exactly when the checksum bytes are right.\<close>

lemma feed_crc1_byte:
  assumes at: "bf_at p m" "bf_arrays p" "bp_state p = BINARY_FRAME_PARSER_CRC1"
    and feed: "binary_frame_parser_feed p b = (p', r, v)"
  shows "bp_state p' = BINARY_FRAME_PARSER_IDLE \<and>
    (if rd16 [bp_received_crc_low p, b] 0 = bp_crc p
     then r = BINARY_FRAME_FEED_FRAME_READY \<and> v = Some (parser_view p) \<and> bf_view_ok (parser_view p)
       \<and> [BINARY_FRAME_MAGIC0, BINARY_FRAME_MAGIC1] @ m @ [b] = bf_wire (parser_view p)
       \<and> bp_frames_received p' = bp_frames_received p + 1
     else r = BINARY_FRAME_FEED_CRC_ERROR \<and> v = None \<and> bp_crc_errors p' = bp_crc_errors p + 1)"
proof -
  let ?low = "bp_received_crc_low p"
  from at have ok: "bf_len_ok p" and m: "m = bf_body (parser_view p) @ [?low]"
    and crc: "bp_crc p = bf_crc (bf_body (parser_view p))"
    using bf_body_view[of p] by (auto simp: bf_at_def)
  have rd: "rd16 [?low, b] 0 = ucast ?low OR push_bit 8 (ucast b)" by (simp add: rd16_def)
  have "rd16 [?low, b] 0 = bp_crc p \<Longrightarrow> [?low, b] = wr16 (bf_crc (bf_body (parser_view p)))"
    using wr16_rd16[of "[?low, b]" 0] crc by simp
  then show ?thesis
    using feed at(3) bf_body_view(2)[OF at(2) ok] m
    by (auto simp: binary_frame_parser_feed_def parser_feed_crc1_def Let_def rd binary_frame_parser_reset_def
        bf_wire_def split: if_splits)
qed


section \<open>A whole frame\<close>

lemma bf_at_header_prefix:
  assumes at: "bf_at p m" "bf_arrays p" "bp_state p \<noteq> BINARY_FRAME_PARSER_HEADER"
    and whole: "m @ bs = hdr @ pay @ [c0, c1]" "length hdr = 8"
  shows "bp_header p = hdr"
proof -
  have "take 8 m = bp_header p" "8 \<le> length m"
    using at by (auto simp: bf_at_def bf_arrays_def split: binary_frame_parser_state.splits)
  then have "bp_header p = take 8 (m @ bs)" by simp
  then show ?thesis using whole by simp
qed

lemma rd16_prefix: "length hdr = 8 \<Longrightarrow> rd16 (hdr @ zs) 6 = rd16 hdr 6"
  by (rule rd16_append1) simp

lemma feed_all_cons:
  assumes "binary_frame_parser_feed p b = (p1, r, v)" "binary_frame_feed_all p1 bs = (p2, rs)"
  shows "binary_frame_feed_all p (b # bs) = (p2, (r, v) # rs)"
  using assms by simp

text \<open>
  Bytes with a legal length field, from any point inside the frame: everything is consumed
  and the last byte decides.
\<close>

lemma feed_frame_bytes:
  assumes "bf_at p m" "bf_arrays p" "m @ bs = hdr @ pay @ [c0, c1]" "bs \<noteq> []"
    and hdr: "length hdr = 8" "unat (rd16 hdr 6) = length pay" "length pay \<le> BINARY_FRAME_MAX_PAYLOAD"
  shows "\<exists>p' r v. binary_frame_feed_all p bs = (p', replicate (length bs - 1) (BINARY_FRAME_FEED_CONSUMED, None) @ [(r, v)])
    \<and> bp_state p' = BINARY_FRAME_PARSER_IDLE \<and> bf_arrays p'
    \<and> (if rd16 [c0, c1] 0 = bf_crc (hdr @ pay)
       then r = BINARY_FRAME_FEED_FRAME_READY \<and> (\<exists>w. v = Some w \<and> bf_view_ok w \<and> bf_body w = hdr @ pay)
       else r = BINARY_FRAME_FEED_CRC_ERROR \<and> v = None)"
  using assms(1-4)
proof (induction bs arbitrary: p m)
  case (Cons b bs)
  obtain p1 r v where feed: "binary_frame_parser_feed p b = (p1, r, v)" by (metis prod_cases3)
  have arr: "bf_arrays p1" using bf_arrays_feed[OF Cons.prems(2), of b] feed by simp
  have on: "v = None \<and> r = BINARY_FRAME_FEED_CONSUMED \<and> bf_at p1 (m @ [b]) \<Longrightarrow> bs \<noteq> [] \<Longrightarrow> ?case"
  proof -
    assume step: "v = None \<and> r = BINARY_FRAME_FEED_CONSUMED \<and> bf_at p1 (m @ [b])" and ne: "bs \<noteq> []"
    from Cons.IH[of p1 "m @ [b]"] step arr Cons.prems(3) ne obtain p' r' v' where
      IH: "binary_frame_feed_all p1 bs = (p', replicate (length bs - 1) (BINARY_FRAME_FEED_CONSUMED, None) @ [(r', v')])"
        "bp_state p' = BINARY_FRAME_PARSER_IDLE" "bf_arrays p'"
        "if rd16 [c0, c1] 0 = bf_crc (hdr @ pay)
         then r' = BINARY_FRAME_FEED_FRAME_READY \<and> (\<exists>w. v' = Some w \<and> bf_view_ok w \<and> bf_body w = hdr @ pay)
         else r' = BINARY_FRAME_FEED_CRC_ERROR \<and> v' = None" by auto
    have "replicate (length (b # bs) - 1) x = x # replicate (length bs - 1) x" for x :: "binary_frame_feed_result \<times> binary_frame_view option"
      using ne by (cases bs) simp_all
    with feed_all_cons[OF feed IH(1)] IH(2-4) step show ?case by (auto simp del: length_Cons)
  qed
  have lens: "length m + length bs + 1 = 10 + length pay"
    using arg_cong[OF Cons.prems(3), of length] hdr(1) by simp
  consider "bp_state p = BINARY_FRAME_PARSER_HEADER" | "bp_state p = BINARY_FRAME_PARSER_PAYLOAD"
    | "bp_state p = BINARY_FRAME_PARSER_CRC0" | "bp_state p = BINARY_FRAME_PARSER_CRC1"
    using Cons.prems(1) by (auto simp: bf_at_def split: binary_frame_parser_state.splits)
  then show ?case
  proof cases
    case 1
    have lt: "length m < 8" using Cons.prems(1) 1 by (simp add: bf_at_def)
    have "rd16 (m @ [b]) 6 = rd16 hdr 6" if "length m = 7"
    proof -
      have "take 8 (m @ b # bs) = m @ [b]" using that by simp
      then have "m @ [b] = hdr" using Cons.prems(3) hdr(1) by simp
      then show ?thesis by simp
    qed
    with feed_header_byte[OF Cons.prems(1,2) 1 feed] hdr(2,3) lens lt show ?thesis
      by (intro on) auto
  next
    case 2
    have "bp_header p = hdr" using bf_at_header_prefix[OF Cons.prems(1,2) _ Cons.prems(3) hdr(1)] 2 by simp
    then have "length m < 8 + length pay"
      using Cons.prems(1,2) 2 hdr(1,2) by (simp add: bf_at_def bf_len_ok_def bf_arrays_def)
    with feed_payload_byte[OF Cons.prems(1,2) 2 feed] lens show ?thesis by (intro on) auto
  next
    case 3
    have "bp_header p = hdr" using bf_at_header_prefix[OF Cons.prems(1,2) _ Cons.prems(3) hdr(1)] 3 by simp
    then have "length m = 8 + length pay"
      using Cons.prems(1,2) 3 hdr by (simp add: bf_at_def bf_len_ok_def bf_arrays_def)
    with feed_crc0_byte[OF Cons.prems(1) 3 feed] lens show ?thesis by (intro on) auto
  next
    case 4
    have h: "bp_header p = hdr" using bf_at_header_prefix[OF Cons.prems(1,2) _ Cons.prems(3) hdr(1)] 4 by simp
    have len: "bf_len_ok p" and m: "m = hdr @ take (length pay) (bp_payload p) @ [bp_received_crc_low p]"
      and crc: "bp_crc p = bf_crc (hdr @ take (length pay) (bp_payload p))"
      using Cons.prems(1) 4 hdr(2) h by (auto simp: bf_at_def bf_len_ok_def)
    have "length m = 9 + length pay" using m hdr Cons.prems(2) by (simp add: bf_arrays_def)
    with lens have bs: "bs = []" by simp
    with Cons.prems(3) m hdr Cons.prems(2) have eq: "take (length pay) (bp_payload p) = pay" "bp_received_crc_low p = c0" "b = c1"
      by (simp_all add: bf_arrays_def)
    have "bf_body (parser_view p) = hdr @ pay"
      using bf_body_view(1)[OF Cons.prems(2) len] h hdr(2) eq(1) len by (simp add: bf_len_ok_def)
    have run1: "binary_frame_feed_all p (b # bs) = (p1, replicate (length (b # bs) - 1) (BINARY_FRAME_FEED_CONSUMED, None) @ [(r, v)])"
      by (simp add: bs feed)
    have "rd16 [bp_received_crc_low p, b] 0 = bp_crc p \<longleftrightarrow> rd16 [c0, c1] 0 = bf_crc (hdr @ pay)"
      using eq crc by simp
    with feed_crc1_byte[OF Cons.prems(1,2) 4 feed] \<open>bf_body (parser_view p) = hdr @ pay\<close> arr
    show ?thesis unfolding run1 by (cases "rd16 [c0, c1] 0 = bf_crc (hdr @ pay)") auto
  qed
qed simp

lemma feed_markers:
  assumes "bp_state p = BINARY_FRAME_PARSER_IDLE \<or> bp_state p = BINARY_FRAME_PARSER_RESYNC" "bf_arrays p"
  shows "\<exists>p'. binary_frame_feed_all p [BINARY_FRAME_MAGIC0, BINARY_FRAME_MAGIC1]
      = (p', replicate 2 (BINARY_FRAME_FEED_CONSUMED, None)) \<and> bf_at p' [] \<and> bf_arrays p'"
  using assms bf_at_start
  by (auto simp: binary_frame_parser_feed_def numeral_2_eq_2 bf_arrays_def parser_start_header_def bf_at_def)

lemma bf_feed_all_append:
  "binary_frame_feed_all p (xs @ ys) = (case binary_frame_feed_all p xs of (p', rs) \<Rightarrow>
     case binary_frame_feed_all p' ys of (p'', rs') \<Rightarrow> (p'', rs @ rs'))"
  by (induction xs arbitrary: p) (auto split: prod.splits)

lemma feed_whole_frame:
  assumes "bp_state p = BINARY_FRAME_PARSER_IDLE \<or> bp_state p = BINARY_FRAME_PARSER_RESYNC" "bf_arrays p"
    and "length hdr = 8" "unat (rd16 hdr 6) = length pay" "length pay \<le> BINARY_FRAME_MAX_PAYLOAD"
  shows "\<exists>p' r v. binary_frame_feed_all p ([BINARY_FRAME_MAGIC0, BINARY_FRAME_MAGIC1] @ hdr @ pay @ [c0, c1])
      = (p', replicate (11 + length pay) (BINARY_FRAME_FEED_CONSUMED, None) @ [(r, v)])
    \<and> bp_state p' = BINARY_FRAME_PARSER_IDLE
    \<and> (if rd16 [c0, c1] 0 = bf_crc (hdr @ pay)
       then r = BINARY_FRAME_FEED_FRAME_READY \<and> (\<exists>w. v = Some w \<and> bf_view_ok w \<and> bf_body w = hdr @ pay)
       else r = BINARY_FRAME_FEED_CRC_ERROR \<and> v = None)"
proof -
  from feed_markers[OF assms(1,2)] obtain p1 where p1:
    "binary_frame_feed_all p [BINARY_FRAME_MAGIC0, BINARY_FRAME_MAGIC1] = (p1, replicate 2 (BINARY_FRAME_FEED_CONSUMED, None))"
    "bf_at p1 []" "bf_arrays p1" by blast
  from feed_frame_bytes[OF p1(2,3) _ _ assms(3-5), of "hdr @ pay @ [c0, c1]" c0 c1] assms(3) obtain p' r v where
    run: "binary_frame_feed_all p1 (hdr @ pay @ [c0, c1])
      = (p', replicate (9 + length pay) (BINARY_FRAME_FEED_CONSUMED, None) @ [(r, v)])"
    and fin: "bp_state p' = BINARY_FRAME_PARSER_IDLE"
      "if rd16 [c0, c1] 0 = bf_crc (hdr @ pay)
       then r = BINARY_FRAME_FEED_FRAME_READY \<and> (\<exists>w. v = Some w \<and> bf_view_ok w \<and> bf_body w = hdr @ pay)
       else r = BINARY_FRAME_FEED_CRC_ERROR \<and> v = None" by auto
  have rep: "replicate (11 + length pay) x = replicate 2 x @ replicate (9 + length pay) x"
    for x :: "binary_frame_feed_result \<times> binary_frame_view option"
    by (simp add: replicate_add[symmetric])
  have "binary_frame_feed_all p ([BINARY_FRAME_MAGIC0, BINARY_FRAME_MAGIC1] @ hdr @ pay @ [c0, c1])
      = (p', replicate (11 + length pay) (BINARY_FRAME_FEED_CONSUMED, None) @ [(r, v)])"
    unfolding bf_feed_all_append[of p "[BINARY_FRAME_MAGIC0, BINARY_FRAME_MAGIC1]"] p1(1) prod.case run rep by simp
  with fin show ?thesis by blast
qed


section \<open>The history invariant\<close>

definition bf_hist :: "binary_frame_parser \<Rightarrow> bytes \<Rightarrow> bool" where
  "bf_hist p h \<longleftrightarrow> bf_arrays p \<and> (case bp_state p of
     BINARY_FRAME_PARSER_IDLE \<Rightarrow> True
   | BINARY_FRAME_PARSER_RESYNC \<Rightarrow> True
   | BINARY_FRAME_PARSER_MAGIC1 \<Rightarrow> \<exists>pre. h = pre @ [BINARY_FRAME_MAGIC0]
   | BINARY_FRAME_PARSER_RESYNC_MAGIC1 \<Rightarrow> \<exists>pre. h = pre @ [BINARY_FRAME_MAGIC0]
   | _ \<Rightarrow> \<exists>pre m. h = pre @ [BINARY_FRAME_MAGIC0, BINARY_FRAME_MAGIC1] @ m \<and> bf_at p m)"

lemma bf_hist_inside:
  assumes "bf_arrays p" "bf_at p m"
  shows "bf_hist p (pre @ [BINARY_FRAME_MAGIC0, BINARY_FRAME_MAGIC1] @ m)"
  using assms by (auto simp: bf_hist_def bf_at_def split: binary_frame_parser_state.splits)

lemma bf_hist_step:
  assumes h: "bf_hist p h" and feed: "binary_frame_parser_feed p b = (p', r, v)"
  shows "bf_hist p' (h @ [b]) \<and> (r = BINARY_FRAME_FEED_FRAME_READY \<longleftrightarrow> v \<noteq> None)
    \<and> (\<forall>w. v = Some w \<longrightarrow> bf_view_ok w \<and> (\<exists>pre. h @ [b] = pre @ bf_wire w))"
proof (cases "bf_arrays p \<and> (\<exists>pre m. h = pre @ [BINARY_FRAME_MAGIC0, BINARY_FRAME_MAGIC1] @ m \<and> bf_at p m)")
  case True
  then obtain pre m where hm: "h = pre @ [BINARY_FRAME_MAGIC0, BINARY_FRAME_MAGIC1] @ m" and at: "bf_at p m"
    and arr: "bf_arrays p" by blast
  have arr': "bf_arrays p'" using bf_arrays_feed[OF arr, of b] feed by simp
  have on: ?thesis if "bf_at p' (m @ [b])" "v = None" "r = BINARY_FRAME_FEED_CONSUMED"
    using bf_hist_inside[OF arr' that(1), of pre] that hm by simp
  consider "bp_state p = BINARY_FRAME_PARSER_HEADER" | "bp_state p = BINARY_FRAME_PARSER_PAYLOAD"
    | "bp_state p = BINARY_FRAME_PARSER_CRC0" | "bp_state p = BINARY_FRAME_PARSER_CRC1"
    using at by (auto simp: bf_at_def split: binary_frame_parser_state.splits)
  then show ?thesis
  proof cases
    case 1
    from feed_header_byte[OF at arr 1 feed] on arr' show ?thesis by (auto simp: bf_hist_def split: if_splits)
  next
    case 2 from feed_payload_byte[OF at arr 2 feed] on show ?thesis by blast
  next
    case 3 from feed_crc0_byte[OF at 3 feed] on show ?thesis by blast
  next
    case 4
    from feed_crc1_byte[OF at arr 4 feed] arr' show ?thesis
      using hm by (auto simp: bf_hist_def split: if_splits)
  qed
next
  case False
  with h have st: "bf_arrays p" "bp_state p \<in> {BINARY_FRAME_PARSER_IDLE, BINARY_FRAME_PARSER_RESYNC,
      BINARY_FRAME_PARSER_MAGIC1, BINARY_FRAME_PARSER_RESYNC_MAGIC1}"
    by (auto simp: bf_hist_def split: binary_frame_parser_state.splits)
  have arr': "bf_arrays p'" using bf_arrays_feed[OF st(1), of b] feed by simp
  show ?thesis
  proof (cases "b = BINARY_FRAME_MAGIC1 \<and> bp_state p \<in> {BINARY_FRAME_PARSER_MAGIC1, BINARY_FRAME_PARSER_RESYNC_MAGIC1}")
    case True
    then obtain pre where "h = pre @ [BINARY_FRAME_MAGIC0]" using h by (auto simp: bf_hist_def)
    moreover have "p' = parser_start_header p \<and> v = None \<and> r = BINARY_FRAME_FEED_CONSUMED"
      using feed True by (auto simp: binary_frame_parser_feed_def)
    ultimately show ?thesis
      using bf_hist_inside[OF _ bf_at_start, of p pre] arr' True by auto
  next
    case False
    then show ?thesis
      using h st feed arr'
      by (auto simp: binary_frame_parser_feed_def bf_hist_def binary_frame_parser_reset_def Let_def split: if_splits)
  qed
qed

lemma bf_hist_feed_all:
  assumes "bf_hist p h" "binary_frame_feed_all p bs = (p', rs)"
  shows "bf_hist p' (h @ bs) \<and> (\<forall>r w. (r, Some w) \<in> set rs \<longrightarrow>
      r = BINARY_FRAME_FEED_FRAME_READY \<and> bf_view_ok w \<and> (\<exists>pre post. h @ bs = pre @ bf_wire w @ post))"
  using assms
proof (induction bs arbitrary: p h rs)
  case (Cons b bs)
  obtain p1 r v where feed: "binary_frame_parser_feed p b = (p1, r, v)" by (metis prod_cases3)
  obtain p2 rs' where rest: "binary_frame_feed_all p1 bs = (p2, rs')" by fastforce
  from Cons.prems(2) have rs: "rs = (r, v) # rs'" "p2 = p'" by (simp_all add: feed rest)
  note step = bf_hist_step[OF Cons.prems(1) feed]
  from Cons.IH[of p1 "h @ [b]" rs'] step rest rs(2) have IH: "bf_hist p' (h @ b # bs)"
    "\<forall>r w. (r, Some w) \<in> set rs' \<longrightarrow> r = BINARY_FRAME_FEED_FRAME_READY \<and> bf_view_ok w
        \<and> (\<exists>pre post. h @ b # bs = pre @ bf_wire w @ post)" by auto
  moreover have "bf_view_ok w \<and> (\<exists>pre post. h @ b # bs = pre @ bf_wire w @ post)" if "v = Some w" for w
  proof -
    from step that obtain pre where "bf_view_ok w" "h @ [b] = pre @ bf_wire w" by blast
    then show ?thesis by (metis append.assoc append_Cons append_Nil)
  qed
  ultimately show ?case using step rs(1) by auto
qed simp

lemma bf_hist_init:
  "length (bp_header p) = 8 \<Longrightarrow> length (bp_payload p) = 132 \<Longrightarrow> bf_hist (binary_frame_parser_init p) []"
  by (simp add: bf_hist_def binary_frame_parser_init_def binary_frame_parser_reset_def bf_arrays_def)

end
