(* ===== verification/Binary_Frame_Link.thy ===== *)
theory Binary_Frame_Link
  imports Binary_Frame
begin

unbundle bit_operations_syntax

text \<open>
  The properties of the management frame: what the encoder writes the parser hands out,
  nothing else is handed out, damage is reported, and the parser's indices stay in bounds.
\<close>

lemma bf_body_inject:
  assumes "bf_body v = bf_body w"
  shows "fv_version v = fv_version w \<and> fv_frame_type v = fv_frame_type w \<and> fv_flags v = fv_flags w
    \<and> fv_reserved v = fv_reserved w \<and> fv_request_id v = fv_request_id w
    \<and> fv_payload_length v = fv_payload_length w
    \<and> take (unat (fv_payload_length v)) (fv_payload v) = take (unat (fv_payload_length w)) (fv_payload w)"
proof -
  have rid: "wr16 (fv_request_id v) = wr16 (fv_request_id w)" "wr16 (fv_payload_length v) = wr16 (fv_payload_length w)"
    using assms by (simp_all add: bf_body_def wr16_def)
  then have "fv_request_id v = fv_request_id w" "fv_payload_length v = fv_payload_length w"
    by (metis rd16_wr16)+
  then show ?thesis using assms by (simp add: bf_body_def)
qed

lemma bf_body_header:
  "length ([a, b, c, d] @ wr16 r @ wr16 n) = 8" "rd16 ([a, b, c, d] @ wr16 r @ wr16 n) 6 = n"
  using rd16_append2[of "[a, b, c, d] @ wr16 r" "wr16 n" 0] by simp_all

lemma crc_bytes:
  obtains c0 c1 where "wr16 c = [c0, c1]" "rd16 [c0, c1] 0 = c"
  using that[of "ucast c" "ucast (drop_bit 8 c)"] rd16_wr16[of c] by (simp add: wr16_def)

lemma parser_receives_wire:
  assumes "bp_state p = BINARY_FRAME_PARSER_IDLE \<or> bp_state p = BINARY_FRAME_PARSER_RESYNC" "bf_arrays p" "bf_view_ok v"
  shows "\<exists>p' w. binary_frame_feed_all p (bf_wire v)
      = (p', replicate (11 + unat (fv_payload_length v)) (BINARY_FRAME_FEED_CONSUMED, None) @ [(BINARY_FRAME_FEED_FRAME_READY, Some w)])
    \<and> bp_state p' = BINARY_FRAME_PARSER_IDLE \<and> bf_view_ok w \<and> bf_body w = bf_body v"
proof -
  define hdr where "hdr = [fv_version v, fv_frame_type v, fv_flags v, fv_reserved v] @ wr16 (fv_request_id v) @ wr16 (fv_payload_length v)"
  define pay where "pay = take (unat (fv_payload_length v)) (fv_payload v)"
  have body: "bf_body v = hdr @ pay" by (simp add: bf_body_def hdr_def pay_def)
  have len: "length pay = unat (fv_payload_length v)" "length pay \<le> BINARY_FRAME_MAX_PAYLOAD"
    using assms(3) by (simp_all add: bf_view_ok_def pay_def)
  obtain c0 c1 where c: "wr16 (bf_crc (bf_body v)) = [c0, c1]" "rd16 [c0, c1] 0 = bf_crc (bf_body v)"
    by (rule crc_bytes)
  have wire: "bf_wire v = [BINARY_FRAME_MAGIC0, BINARY_FRAME_MAGIC1] @ hdr @ pay @ [c0, c1]"
    unfolding bf_wire_def c(1) by (simp only: body append_assoc)
  have pl: "length hdr = 8" "unat (rd16 hdr 6) = length pay"
    using bf_body_header len(1) unfolding hdr_def by metis+
  from feed_whole_frame[OF assms(1,2) pl len(2), of c0 c1] c(2)
  show ?thesis unfolding wire[symmetric] len(1) body by auto
qed

lemma frame_split:
  assumes "length z = 12 + n"
  shows "z = take 2 z @ take 8 (drop 2 z) @ take n (drop 10 z) @ [z ! (10 + n), z ! (11 + n)]"
proof -
  have "take 2 (drop (10 + n) z) = [z ! (10 + n), z ! (11 + n)]"
    using assms take_drop_Suc2[of "10 + n" z] by simp
  moreover have "take 2 (drop (10 + n) z) = drop (10 + n) z" using assms by simp
  moreover have "z = take 2 z @ take 8 (drop 2 z) @ take n (drop 10 z) @ drop (10 + n) z"
    using append_take_drop_id[of 2 z] append_take_drop_id[of 8 "drop 2 z"] append_take_drop_id[of n "drop 10 z"]
    by (simp add: add.commute)
  ultimately show ?thesis by simp
qed

lemma parser_rejects_damage:
  assumes st: "bp_state p = BINARY_FRAME_PARSER_IDLE \<or> bp_state p = BINARY_FRAME_PARSER_RESYNC" "bf_arrays p" and ok: "bf_view_ok v"
    and i: "2 \<le> i" "i \<noteq> 8" "i \<noteq> 9" "i < length (bf_wire v)" "x \<noteq> bf_wire v ! i"
  shows "\<exists>p'. binary_frame_feed_all p ((bf_wire v)[i := x])
      = (p', replicate (11 + unat (fv_payload_length v)) (BINARY_FRAME_FEED_CONSUMED, None) @ [(BINARY_FRAME_FEED_CRC_ERROR, None)])
    \<and> bp_state p' = BINARY_FRAME_PARSER_IDLE"
proof -
  let ?n = "unat (fv_payload_length v)" and ?z = "(bf_wire v)[i := x]"
  define hdr where "hdr = take 8 (drop 2 ?z)"
  define pay where "pay = take ?n (drop 10 ?z)"
  define c0 c1 where "c0 = ?z ! (10 + ?n)" and "c1 = ?z ! (11 + ?n)"
  have blen: "length (bf_body v) = 8 + ?n" using ok by (simp add: bf_body_def bf_view_ok_def)
  then have "length (bf_wire v) = 12 + ?n" by (simp add: bf_wire_def)
  then have zlen: "length ?z = 12 + ?n" by (simp only: length_list_update)
  have "take 2 (bf_wire v) = [BINARY_FRAME_MAGIC0, BINARY_FRAME_MAGIC1]" by (simp add: bf_wire_def)
  then have two: "take 2 ?z = [BINARY_FRAME_MAGIC0, BINARY_FRAME_MAGIC1]"
    using i(1) by (simp only: take_update_cancel)
  have z: "?z = [BINARY_FRAME_MAGIC0, BINARY_FRAME_MAGIC1] @ hdr @ pay @ [c0, c1]"
    using frame_split[OF zlen] unfolding two hdr_def pay_def c0_def c1_def .
  have lens: "length hdr = 8" "length pay = ?n" using zlen by (simp_all add: hdr_def pay_def)
  have "hdr ! 6 = bf_wire v ! 8" "hdr ! 7 = bf_wire v ! 9"
    using i(2,3) zlen by (simp_all add: hdr_def)
  then have "rd16 hdr 6 = rd16 (bf_wire v) 8" by (simp add: rd16_def)
  also have "\<dots> = fv_payload_length v"
    using rd16_at[of "[BINARY_FRAME_MAGIC0, BINARY_FRAME_MAGIC1, fv_version v, fv_frame_type v, fv_flags v, fv_reserved v]
        @ wr16 (fv_request_id v)" 8 "fv_payload_length v"]
    by (simp add: bf_wire_def bf_body_def)
  finally have pl: "unat (rd16 hdr 6) = length pay" using lens by simp
  have "rd16 [c0, c1] 0 \<noteq> bf_crc (hdr @ pay)"
  proof
    assume "rd16 [c0, c1] 0 = bf_crc (hdr @ pay)"
    then have "[c0, c1] = wr16 (bf_crc (hdr @ pay))" using wr16_rd16[of "[c0, c1]" 0] by simp
    then have "?z = [BINARY_FRAME_MAGIC0, BINARY_FRAME_MAGIC1] @ (hdr @ pay) @ wr16 (bf_crc (hdr @ pay))"
      using z by simp
    from checked_no_single_error[OF bf_wire_def this _ refl i(4,5)] lens blen show False by simp
  qed
  with feed_whole_frame[OF st lens(1) pl, of c0 c1] ok lens(2) show ?thesis
    unfolding z[symmetric] bf_view_ok_def by auto
qed

lemma encode_ok:
  assumes "unat n \<le> BINARY_FRAME_MAX_PAYLOAD" "length data = unat n" "12 + unat n \<le> cap" "cap \<le> length w"
  shows "binary_frame_encode t fl rid (Some data) n (Some w) cap =
    (12 + unat n, Some (bf_wire \<lparr>fv_version = 1, fv_frame_type = t, fv_flags = fl, fv_reserved = 0,
       fv_request_id = rid, fv_payload_length = n, fv_payload = data\<rparr> @ drop (12 + unat n) w))"
proof -
  let ?w1 = "store_at w 10 data"
  have len: "length ?w1 = length w" using assms by simp
  have t: "take (unat n) (drop 10 ?w1) = data"
    using assms by (simp add: store_at_def)
  have d: "drop (12 + unat n) ?w1 = drop (12 + unat n) w"
    using assms by (intro drop_store_at_after) simp_all
  from finalize_wire[OF assms(2) _ t, of t fl rid] assms len d show ?thesis
    by (simp add: binary_frame_encode_def Let_def)
qed

section \<open>Properties\<close>

text \<open>
  C32: What the encoder writes is received: encoding a payload of at most 132 bytes reports
  the frame's length, and feeding that many bytes of the buffer to a parser that is idle or
  resynchronising consumes every byte and hands out, at the last byte only, a frame with
  the same type, flags, request id and payload; the parser is idle again.
\<close>
theorem encoded_frame_is_received:
  assumes "unat n \<le> 132" "length data = unat n" "12 + unat n \<le> cap" "cap \<le> length w"
    and "bp_state p = BINARY_FRAME_PARSER_IDLE \<or> bp_state p = BINARY_FRAME_PARSER_RESYNC" "bf_arrays p"
  shows "\<exists>w' p' v. binary_frame_encode t fl rid (Some data) n (Some w) cap = (12 + unat n, Some w')
    \<and> length w' = length w
    \<and> binary_frame_feed_all p (take (12 + unat n) w')
       = (p', replicate (11 + unat n) (BINARY_FRAME_FEED_CONSUMED, None) @ [(BINARY_FRAME_FEED_FRAME_READY, Some v)])
    \<and> bp_state p' = BINARY_FRAME_PARSER_IDLE
    \<and> fv_version v = 1 \<and> fv_frame_type v = t \<and> fv_flags v = fl \<and> fv_reserved v = 0 \<and> fv_request_id v = rid
    \<and> fv_payload_length v = n \<and> take (unat n) (fv_payload v) = data"
proof -
  let ?v = "\<lparr>fv_version = 1, fv_frame_type = t, fv_flags = fl, fv_reserved = 0,
       fv_request_id = rid, fv_payload_length = n, fv_payload = data\<rparr>"
  have ok: "bf_view_ok ?v" using assms(1,2) by (simp add: bf_view_ok_def)
  have len: "length (bf_wire ?v) = 12 + unat n" using assms(2) by (simp add: bf_wire_def bf_body_def)
  from parser_receives_wire[OF assms(5,6) ok] obtain p' v where
    "binary_frame_feed_all p (bf_wire ?v)
      = (p', replicate (11 + unat n) (BINARY_FRAME_FEED_CONSUMED, None) @ [(BINARY_FRAME_FEED_FRAME_READY, Some v)])"
    "bp_state p' = BINARY_FRAME_PARSER_IDLE" "bf_body v = bf_body ?v" by auto
  then show ?thesis
    using encode_ok[OF assms(1-4), of t fl rid] bf_body_inject[of v ?v] len assms
    by (intro exI[of _ "bf_wire ?v @ drop (12 + unat n) w"] exI[of _ p'] exI[of _ v]) auto
qed

definition idle_parser :: binary_frame_parser where
  "idle_parser = binary_frame_parser_init \<lparr>bp_state = BINARY_FRAME_PARSER_IDLE, bp_header = replicate 8 0,
     bp_payload = replicate 132 0, bp_header_index = 0, bp_payload_index = 0, bp_payload_length = 0,
     bp_crc = 0, bp_received_crc_low = 0, bp_frames_received = 0, bp_sync_errors = 0, bp_crc_errors = 0,
     bp_length_errors = 0\<rparr>"

lemma idle_parser_ok: "bf_arrays idle_parser" "bp_state idle_parser = BINARY_FRAME_PARSER_IDLE"
  by (simp_all add: idle_parser_def binary_frame_parser_init_def binary_frame_parser_reset_def bf_arrays_def)

theorem encoded_frame_is_received_witness:
  "\<exists>w' p' v. binary_frame_encode 2 0 77 (Some [1, 2, 3]) 3 (Some (replicate 64 0)) 64 = (15, Some w')
    \<and> binary_frame_feed_all idle_parser (take 15 w')
       = (p', replicate 14 (BINARY_FRAME_FEED_CONSUMED, None) @ [(BINARY_FRAME_FEED_FRAME_READY, Some v)])
    \<and> take 3 (fv_payload v) = [1, 2, 3]"
  using encoded_frame_is_received[of 3 "[1, 2, 3]" 64 "replicate 64 0" idle_parser 2 0 77] idle_parser_ok by auto

text \<open>
  The parser invents no frame: after any bytes, every frame handed out was handed out with
  \<open>FRAME_READY\<close>, its payload length is at most 132, and its complete encoding, checksum
  included, is a contiguous part of the bytes fed.
\<close>
theorem parser_hands_out_received_frames_only:
  assumes "length (bp_header p) = 8" "length (bp_payload p) = 132"
    and "binary_frame_feed_all (binary_frame_parser_init p) bs = (p', rs)" "(r, Some v) \<in> set rs"
  shows "r = BINARY_FRAME_FEED_FRAME_READY \<and> bf_view_ok v \<and> (\<exists>before after. bs = before @ bf_wire v @ after)"
  using bf_hist_feed_all[OF bf_hist_init[OF assms(1,2)] assms(3)] assms(4) by simp

lemma idle_parser_init: "binary_frame_parser_init idle_parser = idle_parser"
  by (simp add: idle_parser_def binary_frame_parser_init_def binary_frame_parser_reset_def)

theorem parser_hands_out_received_frames_only_witness:
  "\<exists>v before after. bf_wire \<lparr>fv_version = 1, fv_frame_type = 2, fv_flags = 0, fv_reserved = 0,
       fv_request_id = 5, fv_payload_length = 1, fv_payload = [9]\<rparr> = before @ bf_wire v @ after \<and> bf_view_ok v"
proof -
  let ?v = "\<lparr>fv_version = 1, fv_frame_type = 2, fv_flags = 0, fv_reserved = 0,
       fv_request_id = 5, fv_payload_length = 1, fv_payload = [9]\<rparr>"
  have "bf_view_ok ?v" by (simp add: bf_view_ok_def)
  from parser_receives_wire[OF _ idle_parser_ok(1) this] idle_parser_ok(2) obtain p' w where
    "binary_frame_feed_all (binary_frame_parser_init idle_parser) (bf_wire ?v)
      = (p', replicate 12 (BINARY_FRAME_FEED_CONSUMED, None) @ [(BINARY_FRAME_FEED_FRAME_READY, Some w)])"
    by (auto simp: idle_parser_init)
  from parser_hands_out_received_frames_only[OF _ _ this, of BINARY_FRAME_FEED_FRAME_READY w] idle_parser_ok(1)
  show ?thesis by (auto simp: bf_arrays_def)
qed

text \<open>
  The parser stays inside its arrays: after any bytes, while it reads a header the header
  index is below 8, while it reads a payload the payload index is below the payload length
  and the payload length is at most 132, the size of the payload array.
\<close>
theorem parser_indices_in_bounds:
  assumes "length (bp_header p) = 8" "length (bp_payload p) = 132"
  shows "case fst (binary_frame_feed_all (binary_frame_parser_init p) bs) of q \<Rightarrow>
     length (bp_header q) = 8 \<and> length (bp_payload q) = 132
     \<and> (bp_state q = BINARY_FRAME_PARSER_HEADER \<longrightarrow> bp_header_index q < 8)
     \<and> (bp_state q = BINARY_FRAME_PARSER_PAYLOAD \<longrightarrow> bp_payload_index q < bp_payload_length q)
     \<and> (bp_state q \<in> {BINARY_FRAME_PARSER_PAYLOAD, BINARY_FRAME_PARSER_CRC0, BINARY_FRAME_PARSER_CRC1}
         \<longrightarrow> bp_payload_length q \<le> 132)"
proof -
  obtain q rs where run: "binary_frame_feed_all (binary_frame_parser_init p) bs = (q, rs)" by fastforce
  from bf_hist_feed_all[OF bf_hist_init[OF assms] run] have "bf_hist q bs" by simp
  then show ?thesis
    unfolding run fst_conv
    by (cases "bp_state q") (auto simp: bf_hist_def bf_arrays_def bf_at_def bf_len_ok_def)
qed

theorem parser_indices_in_bounds_witness:
  "bp_payload_length idle_parser \<le> 132 \<and> length (bp_header (fst (binary_frame_feed_all (binary_frame_parser_init idle_parser) [0xA5, 0x5A]))) = 8"
  using parser_indices_in_bounds[of idle_parser "[0xA5, 0x5A]"] idle_parser_ok(1)
  by (simp add: bf_arrays_def) (simp add: idle_parser_def binary_frame_parser_init_def binary_frame_parser_reset_def)

text \<open>
  Damage is reported: when one byte of a frame other than the two markers and the length
  field is replaced by another value, the parser consumes the frame, reports a checksum error
  at its last byte, hands out nothing, and is idle again.
\<close>
theorem damaged_frame_reports_crc_error:
  assumes "bp_state p = BINARY_FRAME_PARSER_IDLE \<or> bp_state p = BINARY_FRAME_PARSER_RESYNC" "bf_arrays p" "bf_view_ok v"
    and "2 \<le> i" "i \<noteq> 8" "i \<noteq> 9" "i < length (bf_wire v)" "x \<noteq> bf_wire v ! i"
  shows "\<exists>p'. binary_frame_feed_all p ((bf_wire v)[i := x])
      = (p', replicate (11 + unat (fv_payload_length v)) (BINARY_FRAME_FEED_CONSUMED, None) @ [(BINARY_FRAME_FEED_CRC_ERROR, None)])
    \<and> bp_state p' = BINARY_FRAME_PARSER_IDLE"
  using assms by (rule parser_rejects_damage)

theorem damaged_frame_reports_crc_error_witness:
  "\<exists>p'. binary_frame_feed_all idle_parser ((bf_wire \<lparr>fv_version = 1, fv_frame_type = 2, fv_flags = 0, fv_reserved = 0,
       fv_request_id = 5, fv_payload_length = 1, fv_payload = [9]\<rparr>)[3 := 1])
      = (p', replicate 12 (BINARY_FRAME_FEED_CONSUMED, None) @ [(BINARY_FRAME_FEED_CRC_ERROR, None)])"
  using damaged_frame_reports_crc_error[of idle_parser "\<lparr>fv_version = 1, fv_frame_type = 2, fv_flags = 0, fv_reserved = 0,
       fv_request_id = 5, fv_payload_length = 1, fv_payload = [9]\<rparr>" 3 1] idle_parser_ok
  by (simp add: bf_view_ok_def) (auto simp: bf_wire_def bf_body_def)

end
