(* ===== verification/Command_Service.thy ===== *)
theory Command_Service
  imports Fw_Prelude
begin

unbundle bit_operations_syntax

text \<open>
  The command service (\<open>src/src/kernel/command_service.c\<close>): the command registry, the line
  parser, and the checked output channel of a command. Text is the list of its bytes up to
  the terminating NUL. The output callback of a context is a parameter: a function on the
  state \<open>'s\<close> its context pointer refers to, that returns whether the byte was taken.
\<close>

section \<open>Types\<close>

abbreviation (input) COMMAND_SERVICE_MAX_ARGS :: nat where "COMMAND_SERVICE_MAX_ARGS \<equiv> 4"

datatype command_service_status =
    COMMAND_SERVICE_STATUS_OK | COMMAND_SERVICE_STATUS_NOT_FOUND | COMMAND_SERVICE_STATUS_BAD_ARGS
  | COMMAND_SERVICE_STATUS_BUSY | COMMAND_SERVICE_STATUS_INTERNAL_ERROR

datatype command_service_class =
    COMMAND_SERVICE_CLASS_SAFE | COMMAND_SERVICE_CLASS_DIAGNOSTIC | COMMAND_SERVICE_CLASS_DESTRUCTIVE

datatype command_service_method_id =
    COMMAND_SERVICE_METHOD_PING | COMMAND_SERVICE_METHOD_UPTIME
  | COMMAND_SERVICE_METHOD_HEALTH | COMMAND_SERVICE_METHOD_RXSTAT
  | COMMAND_SERVICE_METHOD_CDCSTAT | COMMAND_SERVICE_METHOD_MSPSTAT
  | COMMAND_SERVICE_METHOD_SCHEDPROD | COMMAND_SERVICE_METHOD_SCHEDTIMED
  | COMMAND_SERVICE_METHOD_SCHEDPRIO | COMMAND_SERVICE_METHOD_FAULT
  | COMMAND_SERVICE_METHOD_I2CSCAN | COMMAND_SERVICE_METHOD_OLEDPING
  | COMMAND_SERVICE_METHOD_OLEDTEST | COMMAND_SERVICE_METHOD_OLEDTEXT
  | COMMAND_SERVICE_METHOD_OLEDRENDER | COMMAND_SERVICE_METHOD_OLEDCONSOLE
  | COMMAND_SERVICE_METHOD_OLEDSCROLL | COMMAND_SERVICE_METHOD_OLEDDIRTY
  | COMMAND_SERVICE_METHOD_OLEDUIUPDATE | COMMAND_SERVICE_METHOD_UIRUNTIME
  | COMMAND_SERVICE_METHOD_OLEDSTATUS | COMMAND_SERVICE_METHOD_SCHEDTEST
  | COMMAND_SERVICE_METHOD_SCHEDCOOP | COMMAND_SERVICE_METHOD_SCHEDPREEMPT
  | COMMAND_SERVICE_METHOD_SCHEDSTACK | COMMAND_SERVICE_METHOD_SCHEDWORKLOAD
  | COMMAND_SERVICE_METHOD_SCHEDCONSOLEPROBE | COMMAND_SERVICE_METHOD_SCHEDWAITWAKE
  | COMMAND_SERVICE_METHOD_SCHEDISOLATE | COMMAND_SERVICE_METHOD_WDOGTRIP
  | COMMAND_SERVICE_METHOD_HELP | COMMAND_SERVICE_METHOD_RPCINFO
  | COMMAND_SERVICE_METHOD_APPLIST | COMMAND_SERVICE_METHOD_APPSTART
  | COMMAND_SERVICE_METHOD_APPSTOP | COMMAND_SERVICE_METHOD_SYSINFO

abbreviation chars :: "string \<Rightarrow> bytes" where "chars \<equiv> map of_char"

record command_service_descriptor =
  cd_name :: bytes
  cd_rpc_id :: u16
  cd_method_id :: command_service_method_id
  cd_command_class :: command_service_class
  cd_min_args :: u8
  cd_max_args :: u8

text \<open>The \<open>argv\<close> entries that are not null are the list \<open>rq_argv\<close>, in order.\<close>

record command_service_request =
  rq_descriptor :: "command_service_descriptor option"
  rq_argc :: nat
  rq_argv :: "bytes list"

record 's command_service_context =
  cc_write_byte :: "('s \<Rightarrow> u8 \<Rightarrow> bool \<times> 's) option"
  cc_write_context :: 's
  cc_source_rx_event_mask :: u32
  cc_write_failed :: u32

section \<open>The registry\<close>

definition command_entry ::
    "string \<Rightarrow> u16 \<Rightarrow> command_service_method_id \<Rightarrow> command_service_class \<Rightarrow> u8 \<Rightarrow> u8 \<Rightarrow> command_service_descriptor" where
  "command_entry nm rpc mid cls mn mx = \<lparr>cd_name = chars nm, cd_rpc_id = rpc,
     cd_method_id = mid, cd_command_class = cls, cd_min_args = mn, cd_max_args = mx\<rparr>"

definition command_registry :: "command_service_descriptor list" where
  "command_registry =
    [ command_entry ''ping'' 0x0001 COMMAND_SERVICE_METHOD_PING COMMAND_SERVICE_CLASS_SAFE 0 0,
      command_entry ''uptime'' 0x0002 COMMAND_SERVICE_METHOD_UPTIME COMMAND_SERVICE_CLASS_SAFE 0 0,
      command_entry ''health'' 0x0003 COMMAND_SERVICE_METHOD_HEALTH COMMAND_SERVICE_CLASS_SAFE 0 0,
      command_entry ''rxstat'' 0x0004 COMMAND_SERVICE_METHOD_RXSTAT COMMAND_SERVICE_CLASS_SAFE 0 0,
      command_entry ''cdcstat'' 0x0005 COMMAND_SERVICE_METHOD_CDCSTAT COMMAND_SERVICE_CLASS_SAFE 0 0,
      command_entry ''mspstat'' 0x0006 COMMAND_SERVICE_METHOD_MSPSTAT COMMAND_SERVICE_CLASS_SAFE 0 0,
      command_entry ''schedprod'' 0x0007 COMMAND_SERVICE_METHOD_SCHEDPROD COMMAND_SERVICE_CLASS_SAFE 0 0,
      command_entry ''schedtimed'' 0x0008 COMMAND_SERVICE_METHOD_SCHEDTIMED COMMAND_SERVICE_CLASS_SAFE 0 0,
      command_entry ''schedprio'' 0x0009 COMMAND_SERVICE_METHOD_SCHEDPRIO COMMAND_SERVICE_CLASS_SAFE 0 0,
      command_entry ''fault'' 0x000A COMMAND_SERVICE_METHOD_FAULT COMMAND_SERVICE_CLASS_SAFE 0 0,
      command_entry ''i2cscan'' 0x000B COMMAND_SERVICE_METHOD_I2CSCAN COMMAND_SERVICE_CLASS_SAFE 0 0,
      command_entry ''oledping'' 0x000C COMMAND_SERVICE_METHOD_OLEDPING COMMAND_SERVICE_CLASS_SAFE 0 0,
      command_entry ''oledtest'' 0x000D COMMAND_SERVICE_METHOD_OLEDTEST COMMAND_SERVICE_CLASS_SAFE 0 0,
      command_entry ''oledtext'' 0x000E COMMAND_SERVICE_METHOD_OLEDTEXT COMMAND_SERVICE_CLASS_SAFE 0 0,
      command_entry ''oledrender'' 0x000F COMMAND_SERVICE_METHOD_OLEDRENDER COMMAND_SERVICE_CLASS_SAFE 0 0,
      command_entry ''oledconsole'' 0x0010 COMMAND_SERVICE_METHOD_OLEDCONSOLE COMMAND_SERVICE_CLASS_SAFE 0 0,
      command_entry ''oledscroll'' 0x0011 COMMAND_SERVICE_METHOD_OLEDSCROLL COMMAND_SERVICE_CLASS_SAFE 0 0,
      command_entry ''oleddirty'' 0x0012 COMMAND_SERVICE_METHOD_OLEDDIRTY COMMAND_SERVICE_CLASS_SAFE 0 0,
      command_entry ''oleduiupdate'' 0x0013 COMMAND_SERVICE_METHOD_OLEDUIUPDATE COMMAND_SERVICE_CLASS_SAFE 0 0,
      command_entry ''uiruntime'' 0x0014 COMMAND_SERVICE_METHOD_UIRUNTIME COMMAND_SERVICE_CLASS_SAFE 0 0,
      command_entry ''oledstatus'' 0x0015 COMMAND_SERVICE_METHOD_OLEDSTATUS COMMAND_SERVICE_CLASS_SAFE 0 0,
      command_entry ''schedtest'' 0x0016 COMMAND_SERVICE_METHOD_SCHEDTEST COMMAND_SERVICE_CLASS_DIAGNOSTIC 0 0,
      command_entry ''schedcoop'' 0x0017 COMMAND_SERVICE_METHOD_SCHEDCOOP COMMAND_SERVICE_CLASS_DIAGNOSTIC 0 0,
      command_entry ''schedpreempt'' 0x0018 COMMAND_SERVICE_METHOD_SCHEDPREEMPT COMMAND_SERVICE_CLASS_DIAGNOSTIC 0 0,
      command_entry ''schedstack'' 0x0019 COMMAND_SERVICE_METHOD_SCHEDSTACK COMMAND_SERVICE_CLASS_DIAGNOSTIC 0 0,
      command_entry ''schedworkload'' 0x001A COMMAND_SERVICE_METHOD_SCHEDWORKLOAD COMMAND_SERVICE_CLASS_DIAGNOSTIC 0 0,
      command_entry ''schedconsoleprobe'' 0x001B COMMAND_SERVICE_METHOD_SCHEDCONSOLEPROBE COMMAND_SERVICE_CLASS_DIAGNOSTIC 0 0,
      command_entry ''schedwaitwake'' 0x001C COMMAND_SERVICE_METHOD_SCHEDWAITWAKE COMMAND_SERVICE_CLASS_DIAGNOSTIC 0 0,
      command_entry ''schedisolate'' 0x001D COMMAND_SERVICE_METHOD_SCHEDISOLATE COMMAND_SERVICE_CLASS_DIAGNOSTIC 0 0,
      command_entry ''wdogtrip'' 0x001E COMMAND_SERVICE_METHOD_WDOGTRIP COMMAND_SERVICE_CLASS_DESTRUCTIVE 0 0,
      command_entry ''help'' 0x001F COMMAND_SERVICE_METHOD_HELP COMMAND_SERVICE_CLASS_SAFE 0 1,
      command_entry ''rpcinfo'' 0x0020 COMMAND_SERVICE_METHOD_RPCINFO COMMAND_SERVICE_CLASS_SAFE 0 0,
      command_entry ''applist'' 0x0021 COMMAND_SERVICE_METHOD_APPLIST COMMAND_SERVICE_CLASS_SAFE 0 0,
      command_entry ''appstart'' 0x0022 COMMAND_SERVICE_METHOD_APPSTART COMMAND_SERVICE_CLASS_SAFE 1 1,
      command_entry ''appstop'' 0x0023 COMMAND_SERVICE_METHOD_APPSTOP COMMAND_SERVICE_CLASS_SAFE 0 0,
      command_entry ''sysinfo'' 0x0024 COMMAND_SERVICE_METHOD_SYSINFO COMMAND_SERVICE_CLASS_SAFE 0 0]"

text \<open>\<open>while (*a != 0 && *b != 0)\<close>: the strings are compared to the end of the shorter.\<close>

fun command_text_equals :: "bytes \<Rightarrow> bytes \<Rightarrow> bool" where
  "command_text_equals (a # as) (b # bs) = (if a \<noteq> b then False else command_text_equals as bs)"
| "command_text_equals as bs = (as = [] \<and> bs = [])"

definition command_is_separator :: "u8 \<Rightarrow> bool" where
  "command_is_separator c \<longleftrightarrow> c = 32 \<or> c = 9"

definition command_service_registry_count :: nat where
  "command_service_registry_count = length command_registry"

definition command_service_registry_at :: "nat \<Rightarrow> command_service_descriptor option" where
  "command_service_registry_at index =
     (if index \<ge> command_service_registry_count then None else Some (command_registry ! index))"

definition command_service_find :: "bytes option \<Rightarrow> command_service_descriptor option" where
  "command_service_find name = (case name of
     None \<Rightarrow> None
   | Some n \<Rightarrow> find (\<lambda>d. command_text_equals n (cd_name d)) command_registry)"

definition command_service_find_rpc_id :: "u16 \<Rightarrow> command_service_descriptor option" where
  "command_service_find_rpc_id rpc_id =
     (if rpc_id = 0 then None else find (\<lambda>d. cd_rpc_id d = rpc_id) command_registry)"

fun command_service_class_name :: "command_service_class \<Rightarrow> bytes" where
  "command_service_class_name COMMAND_SERVICE_CLASS_SAFE = chars ''SAFE''"
| "command_service_class_name COMMAND_SERVICE_CLASS_DIAGNOSTIC = chars ''DIAGNOSTIC''"
| "command_service_class_name COMMAND_SERVICE_CLASS_DESTRUCTIVE = chars ''DESTRUCTIVE''"

section \<open>The line parser\<close>

text \<open>
  The cursor is the rest of the text. A token ends at a separator, which is overwritten
  with NUL and skipped, or at the end of the line.
\<close>

definition skip_separators :: "bytes \<Rightarrow> bytes" where
  "skip_separators cursor = dropWhile command_is_separator cursor"

definition next_token :: "bytes \<Rightarrow> bytes \<times> bytes" where
  "next_token cursor =
     (let token = takeWhile (\<lambda>c. \<not> command_is_separator c) cursor;
          rest = dropWhile (\<lambda>c. \<not> command_is_separator c) cursor
      in (token, if rest \<noteq> [] then tl rest else rest))"

text \<open>The \<open>for (;;)\<close> loop: the arguments, or \<open>None\<close> with those stored when a fifth is found.\<close>

function parse_args :: "bytes \<Rightarrow> bytes list \<Rightarrow> bool \<times> bytes list" where
  "parse_args cursor argv =
     (let c = skip_separators cursor in
      if c = [] then (True, argv)
      else if length argv \<ge> COMMAND_SERVICE_MAX_ARGS then (False, argv)
      else case next_token c of (token, rest) \<Rightarrow> parse_args rest (argv @ [token]))"
  by pat_completeness auto
termination
  by (relation "measure (\<lambda>(_, argv). 5 - length argv)") (auto split: prod.splits)

declare parse_args.simps [simp del]

definition empty_request :: command_service_request where
  "empty_request = \<lparr>rq_descriptor = None, rq_argc = 0, rq_argv = []\<rparr>"

definition command_service_parse_line ::
    "bytes option \<Rightarrow> command_service_status \<times> command_service_request" where
  "command_service_parse_line line = (case line of
     None \<Rightarrow> (COMMAND_SERVICE_STATUS_INTERNAL_ERROR, empty_request)
   | Some buffer \<Rightarrow>
      (let cursor = skip_separators (takeWhile (\<lambda>c. c \<noteq> 0) buffer) in
       if cursor = [] then (COMMAND_SERVICE_STATUS_BAD_ARGS, empty_request)
       else case next_token cursor of (method, rest) \<Rightarrow>
        (case parse_args rest [] of (fits, argv) \<Rightarrow>
          if \<not> fits then (COMMAND_SERVICE_STATUS_BAD_ARGS, empty_request\<lparr>rq_argv := argv\<rparr>)
          else (case command_service_find (Some method) of
             None \<Rightarrow> (COMMAND_SERVICE_STATUS_NOT_FOUND, empty_request\<lparr>rq_argv := argv\<rparr>)
           | Some d \<Rightarrow>
               if length argv < unat (cd_min_args d) \<or> length argv > unat (cd_max_args d)
               then (COMMAND_SERVICE_STATUS_BAD_ARGS, empty_request\<lparr>rq_argv := argv\<rparr>)
               else (COMMAND_SERVICE_STATUS_OK,
                     \<lparr>rq_descriptor = Some d, rq_argc = length argv, rq_argv = argv\<rparr>)))))"

section \<open>Output\<close>

definition command_service_write_byte ::
    "'s command_service_context \<Rightarrow> u8 \<Rightarrow> command_service_status \<times> 's command_service_context" where
  "command_service_write_byte context byte = (case cc_write_byte context of
     None \<Rightarrow> (COMMAND_SERVICE_STATUS_INTERNAL_ERROR, context)
   | Some write \<Rightarrow>
      (case write (cc_write_context context) byte of (taken, s) \<Rightarrow>
         if \<not> taken
         then (COMMAND_SERVICE_STATUS_INTERNAL_ERROR, context\<lparr>cc_write_context := s, cc_write_failed := 1\<rparr>)
         else (COMMAND_SERVICE_STATUS_OK, context\<lparr>cc_write_context := s\<rparr>)))"

fun command_service_write ::
    "'s command_service_context \<Rightarrow> bytes \<Rightarrow> command_service_status \<times> 's command_service_context" where
  "command_service_write context [] = (COMMAND_SERVICE_STATUS_OK, context)"
| "command_service_write context (b # bs) =
     (case command_service_write_byte context b of (status, context') \<Rightarrow>
        if status \<noteq> COMMAND_SERVICE_STATUS_OK then (COMMAND_SERVICE_STATUS_INTERNAL_ERROR, context')
        else command_service_write context' bs)"

definition command_service_write_line ::
    "'s command_service_context \<Rightarrow> bytes \<Rightarrow> command_service_status \<times> 's command_service_context" where
  "command_service_write_line context text =
     (case command_service_write context text of (status, context') \<Rightarrow>
        if status \<noteq> COMMAND_SERVICE_STATUS_OK then (COMMAND_SERVICE_STATUS_INTERNAL_ERROR, context')
        else command_service_write context' [13, 10])"

definition hex_digit :: "u32 \<Rightarrow> u8" where
  "hex_digit v = chars ''0123456789ABCDEF'' ! unat (v AND 0xF)"

text \<open>The digits, from shift 28 down to 0.\<close>

definition hex32_digits :: "u32 \<Rightarrow> bytes" where
  "hex32_digits value = map (\<lambda>shift. hex_digit (drop_bit shift value)) [28, 24, 20, 16, 12, 8, 4, 0]"

definition command_service_write_hex32 ::
    "'s command_service_context \<Rightarrow> u32 \<Rightarrow> command_service_status \<times> 's command_service_context" where
  "command_service_write_hex32 context value =
     (case command_service_write context (chars ''0x'') of (status, context') \<Rightarrow>
        if status \<noteq> COMMAND_SERVICE_STATUS_OK then (COMMAND_SERVICE_STATUS_INTERNAL_ERROR, context')
        else command_service_write context' (hex32_digits value))"

text \<open>Writes whose status is ignored, one after the other.\<close>

definition command_service_write_command_descriptor ::
    "'s command_service_context \<Rightarrow> command_service_descriptor option \<Rightarrow> 's command_service_context" where
  "command_service_write_command_descriptor context descriptor = (case descriptor of
     None \<Rightarrow> context
   | Some d \<Rightarrow>
      (let c1 = snd (command_service_write context (chars ''HELP_METHOD=''));
           c2 = snd (command_service_write c1 (cd_name d));
           c3 = snd (command_service_write c2 (chars '' CLASS=''));
           c4 = snd (command_service_write c3 (command_service_class_name (cd_command_class d)));
           c5 = snd (command_service_write c4 (chars '' MIN_ARGS=''));
           c6 = snd (command_service_write_hex32 c5 (ucast (cd_min_args d)));
           c7 = snd (command_service_write c6 (chars '' MAX_ARGS=''));
           c8 = snd (command_service_write_hex32 c7 (ucast (cd_max_args d)))
       in snd (command_service_write c8 [13, 10])))"

text \<open>The method names of the registry, from \<open>index\<close> on, separated by spaces.\<close>

fun write_method_names ::
    "'s command_service_context \<Rightarrow> nat \<Rightarrow> command_service_descriptor list \<Rightarrow> 's command_service_context" where
  "write_method_names context index [] = context"
| "write_method_names context index (d # ds) =
     (let c1 = (if index \<noteq> 0 then snd (command_service_write context [32]) else context)
      in write_method_names (snd (command_service_write c1 (cd_name d))) (index + 1) ds)"

definition command_service_execute_help ::
    "command_service_request \<Rightarrow> 's command_service_context \<Rightarrow> command_service_status \<times> 's command_service_context" where
  "command_service_execute_help request context =
     (if rq_argc request = 0 then
        (let c1 = snd (command_service_write context (chars ''HELP_COUNT=''));
             c2 = snd (command_service_write_hex32 c1 (of_nat command_service_registry_count));
             c3 = snd (command_service_write c2 ([13, 10] @ chars ''HELP_METHODS=''));
             c4 = write_method_names c3 0 command_registry
         in (COMMAND_SERVICE_STATUS_OK, snd (command_service_write c4 [13, 10])))
      else if rq_argc request = 1 then
        (case command_service_find (Some (rq_argv request ! 0)) of
           None \<Rightarrow> (COMMAND_SERVICE_STATUS_NOT_FOUND, context)
         | Some d \<Rightarrow> (COMMAND_SERVICE_STATUS_OK, command_service_write_command_descriptor context (Some d)))
      else (COMMAND_SERVICE_STATUS_BAD_ARGS, context))"

text \<open>A handler maps a request and a context to a status and the context it leaves.\<close>

type_synonym 's command_service_handler =
  "command_service_request \<Rightarrow> 's command_service_context \<Rightarrow> command_service_status \<times> 's command_service_context"

definition command_service_execute ::
    "command_service_request option \<Rightarrow> 's command_service_context \<Rightarrow> 's command_service_handler option
       \<Rightarrow> command_service_status \<times> 's command_service_context" where
  "command_service_execute request context handler = (case (request, handler) of
     (Some req, Some h) \<Rightarrow>
       if rq_descriptor req = None \<or> cc_write_byte context = None
       then (COMMAND_SERVICE_STATUS_INTERNAL_ERROR, context)
       else (case h req (context\<lparr>cc_write_failed := 0\<rparr>) of (status, context') \<Rightarrow>
         if cc_write_failed context' \<noteq> 0 then (COMMAND_SERVICE_STATUS_INTERNAL_ERROR, context')
         else (status, context'))
   | _ \<Rightarrow> (COMMAND_SERVICE_STATUS_INTERNAL_ERROR, context))"

section \<open>The registry's keys\<close>

lemma find_key:
  assumes "distinct (map key xs)"
  shows "find (\<lambda>x. key x = k) xs = Some d \<longleftrightarrow> d \<in> set xs \<and> key d = k"
  using assms by (induction xs) auto

lemma command_text_equals_eq: "command_text_equals a b \<longleftrightarrow> a = b"
  by (induction a b rule: command_text_equals.induct) auto

lemma registry_names_distinct: "distinct (map cd_name command_registry)"
  by code_simp

lemma registry_ids: "map cd_rpc_id command_registry = map of_nat [1..<37]"
  by code_simp

lemma registry_ids_distinct: "distinct (map cd_rpc_id command_registry)"
  by code_simp

end
