(* ===== verification/Binary_Rpc.thy ===== *)
theory Binary_Rpc
  imports Binary_Frame_Link Command_Service
begin

unbundle bit_operations_syntax

text \<open>
  The remote procedure call endpoint (\<open>src/src/kernel/binary_rpc.c\<close>). The pointers stored by
  \<open>binary_rpc_init\<close> (state, workspace) are not null. The transport \<open>send_wire\<close> is a
  parameter: a function on the state \<open>'d\<close> its context refers to; the state the endpoint's
  output callback runs on contains it, as \<open>send_context\<close> is reached through the binding.
  The active binding is the argument \<open>b\<close> of the operations and a flag in the state.
\<close>

section \<open>Types\<close>

abbreviation (input) BINARY_RPC_DATA_CHUNK_MAX :: nat where "BINARY_RPC_DATA_CHUNK_MAX \<equiv> 48"
abbreviation (input) BINARY_RPC_DATA_PAYLOAD_MAX :: nat where "BINARY_RPC_DATA_PAYLOAD_MAX \<equiv> 52"
abbreviation (input) BINARY_RPC_DATA_WIRE_MAX :: nat where "BINARY_RPC_DATA_WIRE_MAX \<equiv> 64"
abbreviation (input) BINARY_RPC_MAX_ARG_BYTES :: nat where "BINARY_RPC_MAX_ARG_BYTES \<equiv> 31"
abbreviation (input) BINARY_RPC_FLAG_ALLOW_DESTRUCTIVE :: u8 where "BINARY_RPC_FLAG_ALLOW_DESTRUCTIVE \<equiv> 1"

abbreviation (input) BINARY_RPC_STATUS_DOMAIN_COMMAND_SERVICE :: u8 where "BINARY_RPC_STATUS_DOMAIN_COMMAND_SERVICE \<equiv> 0"
abbreviation (input) BINARY_RPC_STATUS_DOMAIN_PROTOCOL :: u8 where "BINARY_RPC_STATUS_DOMAIN_PROTOCOL \<equiv> 1"
abbreviation (input) BINARY_RPC_PROTOCOL_MALFORMED_REQUEST :: u8 where "BINARY_RPC_PROTOCOL_MALFORMED_REQUEST \<equiv> 1"
abbreviation (input) BINARY_RPC_PROTOCOL_BAD_FLAGS :: u8 where "BINARY_RPC_PROTOCOL_BAD_FLAGS \<equiv> 2"
abbreviation (input) BINARY_RPC_PROTOCOL_DESTRUCTIVE_CONFIRM_REQUIRED :: u8
  where "BINARY_RPC_PROTOCOL_DESTRUCTIVE_CONFIRM_REQUIRED \<equiv> 3"
abbreviation (input) BINARY_RPC_PROTOCOL_REQUEST_ID_RESERVED :: u8 where "BINARY_RPC_PROTOCOL_REQUEST_ID_RESERVED \<equiv> 4"

abbreviation (input) FT_HELLO_REQUEST :: u8 where "FT_HELLO_REQUEST \<equiv> 0x01"
abbreviation (input) FT_RPC_REQUEST :: u8 where "FT_RPC_REQUEST \<equiv> 0x02"
abbreviation (input) FT_HELLO_RESPONSE :: u8 where "FT_HELLO_RESPONSE \<equiv> 0x81"
abbreviation (input) FT_RPC_DATA :: u8 where "FT_RPC_DATA \<equiv> 0x82"
abbreviation (input) FT_RPC_END :: u8 where "FT_RPC_END \<equiv> 0x83"
abbreviation (input) FT_PROTOCOL_ERROR :: u8 where "FT_PROTOCOL_ERROR \<equiv> 0x84"

record 'd binary_rpc_binding =
  rb_send_wire :: "('d \<Rightarrow> bytes \<Rightarrow> bool \<times> 'd) option"
  rb_source_rx_event_mask :: u32
  rb_capability_flags :: u32

record 'd binary_rpc_state =
  rs_hello_requests :: u32
  rs_rpc_requests :: u32
  rs_protocol_errors :: u32
  rs_response_data_frames :: u32
  rs_response_end_frames :: u32
  rs_tx_failures :: u32
  rs_argument_storage :: "bytes list"
  rs_wire :: bytes
  rs_active_binding :: bool
  rs_total_output_bytes :: u32
  rs_active_rpc_id :: u16
  rs_active_request_id :: u16
  rs_sequence :: u16
  rs_data_chunk_length :: nat
  rs_tx_failed :: bool
  rs_dev :: 'd

datatype binary_rpc_decode_result =
  BINARY_RPC_DECODE_OK | BINARY_RPC_DECODE_MALFORMED | BINARY_RPC_DECODE_BAD_ARGS

fun status_code :: "command_service_status \<Rightarrow> u8" where
  "status_code COMMAND_SERVICE_STATUS_OK = 0"
| "status_code COMMAND_SERVICE_STATUS_NOT_FOUND = 1"
| "status_code COMMAND_SERVICE_STATUS_BAD_ARGS = 2"
| "status_code COMMAND_SERVICE_STATUS_BUSY = 3"
| "status_code COMMAND_SERVICE_STATUS_INTERNAL_ERROR = 4"

section \<open>Sending\<close>

text \<open>Bytes stored in the payload area of the wire buffer.\<close>

definition put_payload :: "'d binary_rpc_state \<Rightarrow> nat \<Rightarrow> bytes \<Rightarrow> 'd binary_rpc_state" where
  "put_payload s i bs = s\<lparr>rs_wire := store_at (rs_wire s) (BINARY_FRAME_FIXED_PREFIX_BYTES + i) bs\<rparr>"

definition binary_rpc_send_workspace_frame ::
    "'d binary_rpc_binding \<Rightarrow> 'd binary_rpc_state \<Rightarrow> u8 \<Rightarrow> u16 \<Rightarrow> u16 \<Rightarrow> bool \<times> 'd binary_rpc_state" where
  "binary_rpc_send_workspace_frame b s frame_type request_id payload_length =
     (case rb_send_wire b of
        None \<Rightarrow> (False, s)
      | Some send \<Rightarrow>
          if \<not> rs_active_binding s \<or> unat payload_length > BINARY_RPC_DATA_PAYLOAD_MAX then (False, s)
          else (case binary_frame_finalize_in_place frame_type 0 request_id payload_length (rs_wire s) of
            (wire_length, wire) \<Rightarrow>
              (case send (rs_dev s) (take wire_length wire) of (sent, dev) \<Rightarrow>
                 let s1 = s\<lparr>rs_wire := wire, rs_dev := dev\<rparr> in
                 if \<not> sent then (False, s1\<lparr>rs_tx_failures := rs_tx_failures s1 + 1, rs_tx_failed := True\<rparr>)
                 else (True, s1))))"

definition binary_rpc_send_protocol_error ::
    "'d binary_rpc_binding \<Rightarrow> 'd binary_rpc_state \<Rightarrow> u16 \<Rightarrow> u8 \<Rightarrow> u8 \<Rightarrow> bool \<times> 'd binary_rpc_state" where
  "binary_rpc_send_protocol_error b s request_id code observed =
     (let s1 = put_payload s 0 [code, observed];
          s2 = s1\<lparr>rs_protocol_errors := rs_protocol_errors s1 + 1\<rparr>
      in binary_rpc_send_workspace_frame b s2 FT_PROTOCOL_ERROR request_id 2)"

definition binary_rpc_flush_data ::
    "'d binary_rpc_binding \<Rightarrow> 'd binary_rpc_state \<Rightarrow> bool \<times> 'd binary_rpc_state" where
  "binary_rpc_flush_data b s =
     (if rs_data_chunk_length s = 0 then (True, s)
      else let s1 = put_payload s 0 (wr16 (rs_active_rpc_id s) @ wr16 (rs_sequence s)) in
        (case binary_rpc_send_workspace_frame b s1 FT_RPC_DATA (rs_active_request_id s1)
                (of_nat (4 + rs_data_chunk_length s1)) of (sent, s2) \<Rightarrow>
           if \<not> sent then (False, s2)
           else (True, s2\<lparr>rs_total_output_bytes := rs_total_output_bytes s2 + of_nat (rs_data_chunk_length s2),
                   rs_data_chunk_length := 0, rs_sequence := rs_sequence s2 + 1,
                   rs_response_data_frames := rs_response_data_frames s2 + 1\<rparr>)))"

definition binary_rpc_output_write_byte ::
    "'d binary_rpc_binding \<Rightarrow> 'd binary_rpc_state \<Rightarrow> u8 \<Rightarrow> bool \<times> 'd binary_rpc_state" where
  "binary_rpc_output_write_byte b s byte =
     (if rs_tx_failed s then (False, s)
      else (case (if rs_data_chunk_length s \<ge> BINARY_RPC_DATA_CHUNK_MAX then binary_rpc_flush_data b s else (True, s)) of
        (room, s1) \<Rightarrow>
          if \<not> room then (False, s1)
          else let s2 = put_payload s1 (4 + rs_data_chunk_length s1) [byte];
                   s3 = s2\<lparr>rs_data_chunk_length := rs_data_chunk_length s2 + 1\<rparr>
            in if rs_data_chunk_length s3 = BINARY_RPC_DATA_CHUNK_MAX \<or> byte = 10
               then binary_rpc_flush_data b s3 else (True, s3)))"

definition binary_rpc_send_end ::
    "'d binary_rpc_binding \<Rightarrow> 'd binary_rpc_state \<Rightarrow> u16 \<Rightarrow> u16 \<Rightarrow> u16 \<Rightarrow> u32 \<Rightarrow> u8 \<Rightarrow> u8
       \<Rightarrow> bool \<times> 'd binary_rpc_state" where
  "binary_rpc_send_end b s rpc_id request_id chunk_count total_output_bytes status_domain status_code' =
     (let s1 = put_payload s 0 (wr16 rpc_id @ wr16 chunk_count @ wr32 total_output_bytes @ [status_domain, status_code']);
          s2 = (if status_domain = BINARY_RPC_STATUS_DOMAIN_PROTOCOL
                then s1\<lparr>rs_protocol_errors := rs_protocol_errors s1 + 1\<rparr> else s1)
      in (case binary_rpc_send_workspace_frame b s2 FT_RPC_END request_id 10 of (sent, s3) \<Rightarrow>
            if \<not> sent then (False, s3)
            else (True, s3\<lparr>rs_response_end_frames := rs_response_end_frames s3 + 1\<rparr>)))"

definition binary_rpc_send_simple_end ::
    "'d binary_rpc_binding \<Rightarrow> 'd binary_rpc_state \<Rightarrow> u16 \<Rightarrow> u16 \<Rightarrow> u8 \<Rightarrow> u8 \<Rightarrow> bool \<times> 'd binary_rpc_state" where
  "binary_rpc_send_simple_end b s rpc_id request_id status_domain status_code' =
     binary_rpc_send_end b s rpc_id request_id 0 0 status_domain status_code'"

definition binary_rpc_send_hello ::
    "'d binary_rpc_binding \<Rightarrow> 'd binary_rpc_state \<Rightarrow> u16 \<Rightarrow> bool \<times> 'd binary_rpc_state" where
  "binary_rpc_send_hello b s request_id =
     (let s1 = put_payload s 0 ([BINARY_FRAME_PROTOCOL_VERSION, 3, 4, 0] @ wr16 32 @ wr16 132 @ wr16 48
                 @ wr16 (of_nat command_service_registry_count) @ wr32 (rb_capability_flags b))
      in binary_rpc_send_workspace_frame b s1 FT_HELLO_RESPONSE request_id 16)"

section \<open>Decoding a request\<close>

record binary_rpc_args =
  ra_storage :: "bytes list"
  ra_argv :: "bytes list"
  ra_result :: binary_rpc_decode_result

text \<open>
  The argument loop: \<open>n\<close> arguments are left, \<open>arg_index\<close> is the next one. \<open>None\<close> in the
  offset is the early return \<open>MALFORMED\<close>; the storage keeps what was already copied.
\<close>

fun decode_args :: "bytes \<Rightarrow> nat \<Rightarrow> nat \<Rightarrow> nat \<Rightarrow> nat \<Rightarrow> binary_rpc_args \<Rightarrow> nat option \<times> binary_rpc_args" where
  "decode_args payload payload_length 0 arg_index offset a = (Some offset, a)"
| "decode_args payload payload_length (Suc n) arg_index offset a =
     (if offset \<ge> payload_length then (None, a)
      else let argument_length = unat (payload ! offset); start = offset + 1 in
        if start + argument_length > payload_length then (None, a)
        else let text = take argument_length (drop start payload);
                 a1 = (if argument_length > BINARY_RPC_MAX_ARG_BYTES \<or> 0 \<in> set text
                       then a\<lparr>ra_result := BINARY_RPC_DECODE_BAD_ARGS\<rparr> else a);
                 a2 = (if arg_index < COMMAND_SERVICE_MAX_ARGS \<and> argument_length \<le> BINARY_RPC_MAX_ARG_BYTES
                       then a1\<lparr>ra_storage := (ra_storage a1)[arg_index :=
                                   store_at (ra_storage a1 ! arg_index) 0 (text @ [0])],
                               ra_argv := ra_argv a1 @ [takeWhile (\<lambda>c. c \<noteq> 0) text]\<rparr>
                       else a1)
          in decode_args payload payload_length n (arg_index + 1) (start + argument_length) a2)"

text \<open>
  The result with \<open>*rpc_id\<close>, \<open>*argc\<close> (0 while not assigned), the \<open>argv\<close> and the state
  with the copied arguments.
\<close>

definition binary_rpc_decode_request ::
    "'d binary_rpc_state \<Rightarrow> binary_frame_view
       \<Rightarrow> binary_rpc_decode_result \<times> u16 \<times> nat \<times> bytes list \<times> 'd binary_rpc_state" where
  "binary_rpc_decode_request s frame =
     (let payload = fv_payload frame; payload_length = unat (fv_payload_length frame) in
      if payload_length < 4 then (BINARY_RPC_DECODE_MALFORMED, 0, 0, [], s)
      else let rpc_id = rd16 payload 0; declared_argc = unat (payload ! 2) in
        if payload ! 3 \<noteq> 0 then (BINARY_RPC_DECODE_MALFORMED, rpc_id, declared_argc, [], s)
        else let a0 = \<lparr>ra_storage = map (\<lambda>arr. arr[0 := 0]) (rs_argument_storage s), ra_argv = [],
                       ra_result = (if declared_argc > COMMAND_SERVICE_MAX_ARGS
                                    then BINARY_RPC_DECODE_BAD_ARGS else BINARY_RPC_DECODE_OK)\<rparr> in
          (case decode_args payload payload_length declared_argc 0 4 a0 of
             (end_offset, a) \<Rightarrow>
               ((if end_offset = Some payload_length then ra_result a else BINARY_RPC_DECODE_MALFORMED),
                rpc_id, declared_argc, ra_argv a, s\<lparr>rs_argument_storage := ra_storage a\<rparr>)))"

section \<open>Handling a frame\<close>

text \<open>Running the command: reset of the output state, execution, flush, and the final status.\<close>

definition binary_rpc_run_command ::
    "'d binary_rpc_binding \<Rightarrow> 'd binary_rpc_state command_service_handler \<Rightarrow> 'd binary_rpc_state
       \<Rightarrow> u16 \<Rightarrow> u16 \<Rightarrow> command_service_request \<Rightarrow> bool \<times> 'd binary_rpc_state" where
  "binary_rpc_run_command b handler s rpc_id request_id request =
     (let s1 = s\<lparr>rs_active_rpc_id := rpc_id, rs_active_request_id := request_id, rs_sequence := 0,
                 rs_total_output_bytes := 0, rs_data_chunk_length := 0, rs_tx_failed := False\<rparr>;
          context = \<lparr>cc_write_byte = Some (binary_rpc_output_write_byte b), cc_write_context = s1,
                     cc_source_rx_event_mask = rb_source_rx_event_mask b, cc_write_failed = 0\<rparr>
      in (case command_service_execute (Some request) context (Some handler) of (status, context') \<Rightarrow>
        let s2 = cc_write_context context' in
        (case (if \<not> rs_tx_failed s2 then binary_rpc_flush_data b s2 else (True, s2)) of (flushed, s3) \<Rightarrow>
          let status1 = (if \<not> rs_tx_failed s2 \<and> \<not> flushed then COMMAND_SERVICE_STATUS_INTERNAL_ERROR else status);
              status2 = (if cc_write_failed context' \<noteq> 0 \<or> rs_tx_failed s3
                         then COMMAND_SERVICE_STATUS_INTERNAL_ERROR else status1)
          in binary_rpc_send_end b s3 rpc_id request_id (rs_sequence s3) (rs_total_output_bytes s3)
               BINARY_RPC_STATUS_DOMAIN_COMMAND_SERVICE (status_code status2))))"

definition binary_rpc_handle_rpc_request ::
    "'d binary_rpc_state \<Rightarrow> binary_frame_view \<Rightarrow> 'd binary_rpc_binding
       \<Rightarrow> 'd binary_rpc_state command_service_handler \<Rightarrow> bool \<times> 'd binary_rpc_state" where
  "binary_rpc_handle_rpc_request s frame b handler =
     (let s1 = s\<lparr>rs_rpc_requests := rs_rpc_requests s + 1\<rparr>; request_id = fv_request_id frame in
      if fv_flags frame AND NOT BINARY_RPC_FLAG_ALLOW_DESTRUCTIVE \<noteq> 0 then
        (if unat (fv_payload_length frame) \<ge> 2
         then binary_rpc_send_simple_end b s1 (rd16 (fv_payload frame) 0) request_id
                BINARY_RPC_STATUS_DOMAIN_PROTOCOL BINARY_RPC_PROTOCOL_BAD_FLAGS
         else binary_rpc_send_protocol_error b s1 request_id BINARY_RPC_PROTOCOL_BAD_FLAGS (fv_flags frame))
      else (case binary_rpc_decode_request s1 frame of (decode_result, rpc_id, argc, argv, s2) \<Rightarrow>
        if decode_result = BINARY_RPC_DECODE_MALFORMED then
          (if unat (fv_payload_length frame) \<ge> 2
           then binary_rpc_send_simple_end b s2 rpc_id request_id
                  BINARY_RPC_STATUS_DOMAIN_PROTOCOL BINARY_RPC_PROTOCOL_MALFORMED_REQUEST
           else binary_rpc_send_protocol_error b s2 request_id BINARY_RPC_PROTOCOL_MALFORMED_REQUEST 0)
        else (case command_service_find_rpc_id rpc_id of
          None \<Rightarrow> binary_rpc_send_simple_end b s2 rpc_id request_id
                    BINARY_RPC_STATUS_DOMAIN_COMMAND_SERVICE (status_code COMMAND_SERVICE_STATUS_NOT_FOUND)
        | Some d \<Rightarrow>
            if decode_result = BINARY_RPC_DECODE_BAD_ARGS \<or> argc < unat (cd_min_args d) \<or> argc > unat (cd_max_args d)
            then binary_rpc_send_simple_end b s2 rpc_id request_id
                   BINARY_RPC_STATUS_DOMAIN_COMMAND_SERVICE (status_code COMMAND_SERVICE_STATUS_BAD_ARGS)
            else if cd_command_class d = COMMAND_SERVICE_CLASS_DESTRUCTIVE
                \<and> fv_flags frame AND BINARY_RPC_FLAG_ALLOW_DESTRUCTIVE = 0
            then binary_rpc_send_simple_end b s2 rpc_id request_id
                   BINARY_RPC_STATUS_DOMAIN_PROTOCOL BINARY_RPC_PROTOCOL_DESTRUCTIVE_CONFIRM_REQUIRED
            else binary_rpc_run_command b handler s2 rpc_id request_id
                   \<lparr>rq_descriptor = Some d, rq_argc = argc, rq_argv = argv\<rparr>)))"

definition binary_rpc_init :: "'d binary_rpc_state \<Rightarrow> 'd binary_rpc_state" where
  "binary_rpc_init s = s\<lparr>rs_hello_requests := 0, rs_rpc_requests := 0, rs_protocol_errors := 0,
     rs_response_data_frames := 0, rs_response_end_frames := 0, rs_tx_failures := 0,
     rs_active_binding := False, rs_active_rpc_id := 0, rs_active_request_id := 0, rs_sequence := 0,
     rs_total_output_bytes := 0, rs_data_chunk_length := 0, rs_tx_failed := False\<rparr>"

text \<open>The frame checks and the dispatch on its type, with the binding active.\<close>

definition binary_rpc_dispatch ::
    "'d binary_rpc_state \<Rightarrow> binary_frame_view \<Rightarrow> 'd binary_rpc_binding
       \<Rightarrow> 'd binary_rpc_state command_service_handler \<Rightarrow> bool \<times> 'd binary_rpc_state" where
  "binary_rpc_dispatch s frame b handler =
     (if fv_version frame \<noteq> BINARY_FRAME_PROTOCOL_VERSION then
        binary_rpc_send_protocol_error b s (fv_request_id frame) BINARY_RPC_PROTOCOL_MALFORMED_REQUEST (fv_version frame)
      else if fv_reserved frame \<noteq> 0 then
        binary_rpc_send_protocol_error b s (fv_request_id frame) BINARY_RPC_PROTOCOL_MALFORMED_REQUEST (fv_reserved frame)
      else if fv_request_id frame = 0 then
        binary_rpc_send_protocol_error b s 0 BINARY_RPC_PROTOCOL_REQUEST_ID_RESERVED 0
      else if fv_frame_type frame = FT_HELLO_REQUEST then
        (let s1 = s\<lparr>rs_hello_requests := rs_hello_requests s + 1\<rparr> in
         if fv_flags frame \<noteq> 0 then
           binary_rpc_send_protocol_error b s1 (fv_request_id frame) BINARY_RPC_PROTOCOL_BAD_FLAGS (fv_flags frame)
         else if fv_payload_length frame \<noteq> 0 then
           binary_rpc_send_protocol_error b s1 (fv_request_id frame) BINARY_RPC_PROTOCOL_MALFORMED_REQUEST 0
         else binary_rpc_send_hello b s1 (fv_request_id frame))
      else if fv_frame_type frame = FT_RPC_REQUEST then binary_rpc_handle_rpc_request s frame b handler
      else binary_rpc_send_protocol_error b s (fv_request_id frame) BINARY_RPC_PROTOCOL_MALFORMED_REQUEST
             (fv_frame_type frame))"

definition binary_rpc_handle_frame ::
    "'d binary_rpc_state \<Rightarrow> binary_frame_view option \<Rightarrow> 'd binary_rpc_binding option
       \<Rightarrow> 'd binary_rpc_state command_service_handler option \<Rightarrow> bool \<times> 'd binary_rpc_state" where
  "binary_rpc_handle_frame s frame binding handler = (case (frame, binding, handler) of
     (Some frame, Some b, Some handler) \<Rightarrow>
       if rb_send_wire b = None then (False, s)
       else (case binary_rpc_dispatch (s\<lparr>rs_active_binding := True, rs_tx_failed := False\<rparr>) frame b handler of
         (result, s') \<Rightarrow> (result, s'\<lparr>rs_active_binding := False\<rparr>))
   | _ \<Rightarrow> (False, s))"

end
