(* ===== verification/Binary_Rpc_Output.thy ===== *)
theory Binary_Rpc_Output
  imports Binary_Rpc
begin

unbundle bit_operations_syntax

text \<open>
  The output side of a remote procedure call: the bytes a command writes are cut into
  chunks, each sent as one \<open>RPC_DATA\<close> frame, over a transport that takes and records
  every frame.
\<close>

section \<open>The recording transport\<close>

definition accepts_all :: "bytes list binary_rpc_binding \<Rightarrow> bool" where
  "accepts_all b \<longleftrightarrow> rb_send_wire b = Some (\<lambda>sent w. (True, sent @ [w]))"

definition rpc_frame :: "u8 \<Rightarrow> u16 \<Rightarrow> bytes \<Rightarrow> bytes" where
  "rpc_frame t rid payload = bf_wire \<lparr>fv_version = BINARY_FRAME_PROTOCOL_VERSION, fv_frame_type = t, fv_flags = 0,
     fv_reserved = 0, fv_request_id = rid, fv_payload_length = of_nat (length payload), fv_payload = payload\<rparr>"

definition rs_ready :: "bytes list binary_rpc_state \<Rightarrow> bool" where
  "rs_ready s \<longleftrightarrow> rs_active_binding s \<and> length (rs_wire s) = BINARY_RPC_DATA_WIRE_MAX"

lemma length_rpc_frame: "length p \<le> 52 \<Longrightarrow> length (rpc_frame t rid p) = 12 + length p"
  by (simp add: rpc_frame_def bf_wire_def bf_body_def unat_of_nat)

lemma send_frame:
  assumes "accepts_all b" "rs_ready s" "length p = unat n" "unat n \<le> 52" "take (unat n) (drop 10 (rs_wire s)) = p"
  shows "binary_rpc_send_workspace_frame b s t rid n =
    (True, s\<lparr>rs_wire := rpc_frame t rid p @ drop (12 + unat n) (rs_wire s), rs_dev := rs_dev s @ [rpc_frame t rid p]\<rparr>)"
proof -
  have n: "(of_nat (length p) :: u16) = n" using assms(3) by simp
  have fin: "binary_frame_finalize_in_place t 0 rid n (rs_wire s) =
    (12 + unat n, rpc_frame t rid p @ drop (12 + unat n) (rs_wire s))"
    unfolding rpc_frame_def n using assms by (intro finalize_wire) (simp_all add: rs_ready_def)
  have "length (rpc_frame t rid p) = 12 + unat n" using assms by (simp add: length_rpc_frame)
  then show ?thesis
    using assms(1,2,4) by (simp add: binary_rpc_send_workspace_frame_def accepts_all_def rs_ready_def fin Let_def)
qed

lemma take_put_payload:
  assumes "length (rs_wire s) = 64" "length bs \<le> 54"
  shows "take (length bs) (drop 10 (rs_wire (put_payload s 0 bs))) = bs"
    "length (rs_wire (put_payload s 0 bs)) = 64"
  using assms by (simp_all add: put_payload_def store_at_def)

lemma send_payload:
  assumes "accepts_all b" "rs_ready s" "length p \<le> 52" "n = of_nat (length p)"
    and "s' = put_payload s 0 p" "rs_wire s'' = rs_wire s'" "rs_active_binding s''"
  shows "binary_rpc_send_workspace_frame b s'' t rid n =
    (True, s''\<lparr>rs_wire := rpc_frame t rid p @ drop (12 + length p) (rs_wire s''), rs_dev := rs_dev s'' @ [rpc_frame t rid p]\<rparr>)"
proof -
  have n: "unat n = length p" unfolding assms(4) by (rule u16_of_nat) (use assms(3) in simp)
  have w: "take (unat n) (drop 10 (rs_wire s'')) = p" "rs_ready s''"
    unfolding n using assms(2,3,5-7) take_put_payload[of s p] by (simp_all add: rs_ready_def)
  show ?thesis using send_frame[OF assms(1) w(2) _ _ w(1), of t rid] assms(3) by (simp add: n)
qed

section \<open>Chunks\<close>

text \<open>
  The specification of chunking: a chunk ends at a line feed or at 48 bytes. The state is
  the chunks emitted and the open one.
\<close>

fun chunk_step :: "bytes list \<times> bytes \<Rightarrow> u8 \<Rightarrow> bytes list \<times> bytes" where
  "chunk_step (done, open) byte =
     (if length open + 1 = BINARY_RPC_DATA_CHUNK_MAX \<or> byte = 10 then (done @ [open @ [byte]], [])
      else (done, open @ [byte]))"

definition rpc_chunks :: "bytes \<Rightarrow> bytes list" where
  "rpc_chunks text_out = (case foldl chunk_step ([], []) text_out of
     (done, open) \<Rightarrow> if open = [] then done else done @ [open])"

definition data_frames :: "u16 \<Rightarrow> u16 \<Rightarrow> bytes list \<Rightarrow> bytes list" where
  "data_frames rpc rid chunks =
     map (\<lambda>(k, c). rpc_frame FT_RPC_DATA rid (wr16 rpc @ wr16 (of_nat k) @ c)) (enumerate 0 chunks)"

lemma data_frames_snoc:
  "data_frames rpc rid (cs @ [c]) = data_frames rpc rid cs
     @ [rpc_frame FT_RPC_DATA rid (wr16 rpc @ wr16 (of_nat (length cs)) @ c)]"
  by (simp add: data_frames_def enumerate_append_eq)

definition chunks_ok :: "bytes list \<Rightarrow> bytes \<Rightarrow> bool" where
  "chunks_ok done open \<longleftrightarrow> length open < BINARY_RPC_DATA_CHUNK_MAX
     \<and> (\<forall>c \<in> set done. c \<noteq> [] \<and> length c \<le> BINARY_RPC_DATA_CHUNK_MAX)"

lemma chunk_fold:
  assumes "chunks_ok done open" "foldl chunk_step (done, open) bs = (done', open')"
  shows "chunks_ok done' open' \<and> concat done' @ open' = concat done @ open @ bs"
  using assms
proof (induction bs arbitrary: "done" "open")
  case (Cons b bs)
  obtain d1 o1 where s: "chunk_step (done, open) b = (d1, o1)" by fastforce
  have "chunks_ok d1 o1 \<and> concat d1 @ o1 = concat done @ open @ [b]"
    using s Cons.prems(1) by (auto simp: chunks_ok_def split: if_splits)
  moreover have "foldl chunk_step (d1, o1) bs = (done', open')" using Cons.prems(2) s by simp
  ultimately show ?case using Cons.IH[of d1 o1] by auto
qed simp

lemma rpc_chunks_ok:
  "concat (rpc_chunks text_out) = text_out \<and> (\<forall>c \<in> set (rpc_chunks text_out). c \<noteq> [] \<and> length c \<le> 48)"
proof -
  obtain d p where f: "foldl chunk_step ([], []) text_out = (d, p)" by fastforce
  from chunk_fold[OF _ f] have "chunks_ok d p \<and> concat d @ p = text_out" by (simp add: chunks_ok_def)
  then show ?thesis by (auto simp: rpc_chunks_def f chunks_ok_def)
qed

section \<open>The state while a command writes\<close>

text \<open>\<open>em\<close> has been sent, \<open>p\<close> is in the wire buffer.\<close>

definition out_at :: "bytes list binary_rpc_state \<Rightarrow> bytes list \<Rightarrow> u16 \<Rightarrow> u16 \<Rightarrow> bytes list \<Rightarrow> bytes \<Rightarrow> bool" where
  "out_at s base rpc rid em p \<longleftrightarrow> rs_ready s \<and> \<not> rs_tx_failed s \<and> rs_active_rpc_id s = rpc
     \<and> rs_active_request_id s = rid \<and> rs_sequence s = of_nat (length em)
     \<and> rs_total_output_bytes s = of_nat (length (concat em)) \<and> rs_data_chunk_length s = length p
     \<and> length p \<le> BINARY_RPC_DATA_CHUNK_MAX \<and> take (length p) (drop 14 (rs_wire s)) = p
     \<and> rs_dev s = base @ data_frames rpc rid em"

lemma flush_chunk:
  assumes b: "accepts_all b" and o: "out_at s base rpc rid em p" and p: "p \<noteq> []"
  shows "\<exists>s'. binary_rpc_flush_data b s = (True, s') \<and> out_at s' base rpc rid (em @ [p]) []"
proof -
  let ?h = "wr16 rpc @ wr16 (of_nat (length em))"
  let ?s1 = "put_payload s 0 ?h"
  have len: "length (rs_wire s) = 64" "length p \<le> 48" using o by (simp_all add: out_at_def rs_ready_def)
  have d14: "drop 14 (rs_wire ?s1) = drop 14 (rs_wire s)"
    using len by (simp add: put_payload_def drop_store_at_after)
  have n: "unat (of_nat (4 + length p) :: u16) = 4 + length p"
    by (rule u16_of_nat) (use len(2) in simp)
  have w: "take (4 + length p) (drop 10 (rs_wire ?s1)) = ?h @ p"
  proof -
    have "take 4 (drop 10 (rs_wire ?s1)) = ?h" using take_put_payload(1)[of s ?h] len(1) by simp
    moreover have "take (length p) (drop 14 (rs_wire ?s1)) = p" using o d14 by (simp add: out_at_def)
    ultimately show ?thesis by (simp add: take_add)
  qed
  have r: "rs_ready ?s1" using o take_put_payload(2)[of s ?h] len(1) by (simp add: out_at_def rs_ready_def put_payload_def)
  have base: "rs_data_chunk_length s = length p" "rs_active_rpc_id s = rpc" "rs_active_request_id s = rid"
    "rs_sequence s = of_nat (length em)" "rs_total_output_bytes s = of_nat (length (concat em))"
    "\<not> rs_tx_failed s" "rs_dev s = base @ data_frames rpc rid em" "rs_active_binding s"
    using o by (simp_all add: out_at_def rs_ready_def)
  have fields: "rs_active_request_id ?s1 = rid" "rs_data_chunk_length ?s1 = length p" "rs_dev ?s1 = rs_dev s"
    by (simp_all add: put_payload_def base)
  define w2 where "w2 = rpc_frame FT_RPC_DATA rid (?h @ p) @ drop (12 + (4 + length p)) (rs_wire ?s1)"
  define s2 where "s2 = ?s1\<lparr>rs_wire := w2, rs_dev := rs_dev s @ [rpc_frame FT_RPC_DATA rid (?h @ p)]\<rparr>"
  have send: "binary_rpc_send_workspace_frame b ?s1 FT_RPC_DATA rid (of_nat (4 + length p)) = (True, s2)"
    unfolding s2_def w2_def fields(3)[symmetric]
    by (rule send_frame[OF b r, where n = "of_nat (4 + length p)", unfolded n, OF _ _ w])
      (use len(2) in simp_all)
  have w2: "length w2 = 64"
    using len(2) r by (simp add: w2_def length_rpc_frame rs_ready_def)
  define s3 where "s3 = s2\<lparr>rs_total_output_bytes := rs_total_output_bytes s2 + of_nat (rs_data_chunk_length s2),
     rs_data_chunk_length := 0, rs_sequence := rs_sequence s2 + 1,
     rs_response_data_frames := rs_response_data_frames s2 + 1\<rparr>"
  have "binary_rpc_flush_data b s = (True, s3)"
    unfolding binary_rpc_flush_data_def Let_def base(1-4) fields(1,2) send s3_def using p by simp
  moreover have "out_at s3 base rpc rid (em @ [p]) []"
    by (simp add: out_at_def s3_def s2_def put_payload_def w2 rs_ready_def base data_frames_snoc)
  ultimately show ?thesis by blast
qed

lemma write_chunk:
  assumes b: "accepts_all b" and o: "out_at s base rpc rid em p" and p: "length p < 48"
    and step: "chunk_step (em, p) byte = (em', p')"
  shows "\<exists>s'. binary_rpc_output_write_byte b s byte = (True, s') \<and> out_at s' base rpc rid em' p' \<and> length p' < 48"
proof -
  have base: "rs_data_chunk_length s = length p" "rs_active_rpc_id s = rpc" "rs_active_request_id s = rid"
    "rs_sequence s = of_nat (length em)" "rs_total_output_bytes s = of_nat (length (concat em))"
    "\<not> rs_tx_failed s" "rs_dev s = base @ data_frames rpc rid em" "rs_active_binding s"
    "length (rs_wire s) = 64" "take (length p) (drop 14 (rs_wire s)) = p"
    using o by (simp_all add: out_at_def rs_ready_def)
  define w2 where "w2 = store_at (rs_wire s) (10 + (4 + length p)) [byte]"
  have w2: "length w2 = 64" using base(9) p by (simp add: w2_def)
  have "take (length p + 1) (drop 14 w2) = p @ [byte]"
    using base(9,10) p by (simp add: w2_def store_at_def drop_take)
  define s3 where "s3 = (put_payload s (4 + length p) [byte])\<lparr>rs_data_chunk_length := length p + 1\<rparr>"
  have o3: "out_at s3 base rpc rid em (p @ [byte])"
    using \<open>take (length p + 1) (drop 14 w2) = p @ [byte]\<close> w2 p
    by (simp add: out_at_def s3_def put_payload_def base rs_ready_def w2_def)
  have w: "binary_rpc_output_write_byte b s byte =
      (if length p + 1 = 48 \<or> byte = 10 then binary_rpc_flush_data b s3 else (True, s3))"
  proof -
    have "rs_data_chunk_length (put_payload s (4 + length p) [byte]) = length p" by (simp add: put_payload_def base)
    then show ?thesis using p by (simp add: binary_rpc_output_write_byte_def base Let_def s3_def)
  qed
  show ?thesis
  proof (cases "length p + 1 = 48 \<or> byte = 10")
    case True
    with flush_chunk[OF b o3] step w show ?thesis by auto
  next
    case False
    with step p have "em' = em" "p' = p @ [byte]" "length (p @ [byte]) < 48" by auto
    with o3 w False show ?thesis by simp
  qed
qed

section \<open>A whole command\<close>

text \<open>What a handler can do to its context: write bytes, one call after the other.\<close>

definition writes :: "'s command_service_context \<Rightarrow> bytes \<Rightarrow> 's command_service_context" where
  "writes context text_out = foldl (\<lambda>c x. snd (command_service_write_byte c x)) context text_out"

lemma writes_chunks:
  assumes b: "accepts_all b" and o: "out_at (cc_write_context c) base rpc rid em p" "length p < 48"
    and c: "cc_write_byte c = Some (binary_rpc_output_write_byte b)" "cc_write_failed c = 0"
    and f: "foldl chunk_step (em, p) text_out = (em', p')"
  shows "out_at (cc_write_context (writes c text_out)) base rpc rid em' p' \<and> length p' < 48
    \<and> cc_write_failed (writes c text_out) = 0"
  using o c f
proof (induction text_out arbitrary: c em p)
  case Nil
  then show ?case by (simp add: writes_def)
next
  case (Cons x xs)
  obtain em1 p1 where step: "chunk_step (em, p) x = (em1, p1)" by fastforce
  from write_chunk[OF b Cons.prems(1,2) step] obtain s' where
    s': "binary_rpc_output_write_byte b (cc_write_context c) x = (True, s')"
    "out_at s' base rpc rid em1 p1" "length p1 < 48" by blast
  have c1: "snd (command_service_write_byte c x) = c\<lparr>cc_write_context := s'\<rparr>"
    using Cons.prems(3) s'(1) by (simp add: command_service_write_byte_def)
  have "foldl chunk_step (em1, p1) xs = (em', p')" using Cons.prems(5) step by simp
  from Cons.IH[OF _ _ _ _ this, of "c\<lparr>cc_write_context := s'\<rparr>"] s'(2,3) Cons.prems(3,4)
  show ?case by (simp add: writes_def c1)
qed

lemma send_end_frame:
  assumes b: "accepts_all b" and r: "rs_ready s"
  shows "\<exists>s'. binary_rpc_send_end b s rpc rid count tot area st = (True, s') \<and> rs_ready s'
    \<and> rs_dev s' = rs_dev s @ [rpc_frame FT_RPC_END rid (wr16 rpc @ wr16 count @ wr32 tot @ [area, st])]"
proof -
  let ?p = "wr16 rpc @ wr16 count @ wr32 tot @ [area, st]"
  define s2 where "s2 = (if area = BINARY_RPC_STATUS_DOMAIN_PROTOCOL
    then (put_payload s 0 ?p)\<lparr>rs_protocol_errors := rs_protocol_errors (put_payload s 0 ?p) + 1\<rparr> else put_payload s 0 ?p)"
  have s2: "rs_wire s2 = rs_wire (put_payload s 0 ?p)" "rs_active_binding s2" "rs_dev s2 = rs_dev s"
    using r by (simp_all add: s2_def put_payload_def rs_ready_def)
  have "length (rs_wire s2) = 64" using r s2(1) by (simp add: put_payload_def rs_ready_def)
  note send = send_payload[OF b r _ _ refl s2(1,2), of 10 FT_RPC_END rid]
  have "binary_rpc_send_end b s rpc rid count tot area st =
    (case binary_rpc_send_workspace_frame b s2 FT_RPC_END rid 10 of (sent, s3) \<Rightarrow>
      if \<not> sent then (False, s3) else (True, s3\<lparr>rs_response_end_frames := rs_response_end_frames s3 + 1\<rparr>))"
    unfolding binary_rpc_send_end_def Let_def s2_def ..
  then show ?thesis
    using send s2(2,3) \<open>length (rs_wire s2) = 64\<close> by (simp add: rs_ready_def length_rpc_frame)
qed

lemma protocol_error_frame:
  assumes b: "accepts_all b" and r: "rs_ready s"
  shows "\<exists>s'. binary_rpc_send_protocol_error b s rid code observed = (True, s') \<and> rs_ready s'
    \<and> rs_dev s' = rs_dev s @ [rpc_frame FT_PROTOCOL_ERROR rid [code, observed]]"
proof -
  define s2 where "s2 = (put_payload s 0 [code, observed])\<lparr>rs_protocol_errors :=
    rs_protocol_errors (put_payload s 0 [code, observed]) + 1\<rparr>"
  have s2: "rs_wire s2 = rs_wire (put_payload s 0 [code, observed])" "rs_active_binding s2" "rs_dev s2 = rs_dev s"
    using r by (simp_all add: s2_def put_payload_def rs_ready_def)
  have "length (rs_wire s2) = 64" using r s2(1) by (simp add: put_payload_def rs_ready_def)
  note send = send_payload[OF b r _ _ refl s2(1,2), of 2 FT_PROTOCOL_ERROR rid]
  have "binary_rpc_send_protocol_error b s rid code observed = binary_rpc_send_workspace_frame b s2 FT_PROTOCOL_ERROR rid 2"
    unfolding binary_rpc_send_protocol_error_def Let_def s2_def ..
  then show ?thesis
    using send s2(2,3) \<open>length (rs_wire s2) = 64\<close> by (simp add: rs_ready_def length_rpc_frame)
qed

lemma hello_frame:
  assumes b: "accepts_all b" and r: "rs_ready s"
  shows "\<exists>s'. binary_rpc_send_hello b s rid = (True, s') \<and> rs_ready s'
    \<and> rs_dev s' = rs_dev s @ [rpc_frame FT_HELLO_RESPONSE rid ([1, 3, 4, 0] @ wr16 32 @ wr16 132 @ wr16 48
        @ wr16 (of_nat command_service_registry_count) @ wr32 (rb_capability_flags b))]"
proof -
  let ?p = "[1, 3, 4, 0] @ wr16 32 @ wr16 132 @ wr16 48
        @ wr16 (of_nat command_service_registry_count) @ wr32 (rb_capability_flags b)"
  have a: "rs_active_binding (put_payload s 0 ?p)" "rs_dev (put_payload s 0 ?p) = rs_dev s"
    using r by (simp_all add: put_payload_def rs_ready_def)
  have "length (rs_wire (put_payload s 0 ?p)) = 64" using r by (simp add: put_payload_def rs_ready_def)
  then show ?thesis
    using send_payload[OF b r _ _ refl refl a(1), of 16 FT_HELLO_RESPONSE rid] a
    by (simp add: binary_rpc_send_hello_def Let_def rs_ready_def length_rpc_frame)
qed

text \<open>The frames a command's response consists of.\<close>

definition response_frames :: "u16 \<Rightarrow> u16 \<Rightarrow> bytes \<Rightarrow> command_service_status \<Rightarrow> bytes list" where
  "response_frames rpc rid text_out status = data_frames rpc rid (rpc_chunks text_out)
     @ [rpc_frame FT_RPC_END rid (wr16 rpc @ wr16 (of_nat (length (rpc_chunks text_out)))
          @ wr32 (of_nat (length text_out)) @ [BINARY_RPC_STATUS_DOMAIN_COMMAND_SERVICE, status_code status])]"

lemma run_command_frames:
  assumes b: "accepts_all b" and r: "rs_ready s" and d: "rq_descriptor req \<noteq> None"
    and h: "\<And>c. handler req c = (status, writes c text_out)"
  shows "\<exists>s'. binary_rpc_run_command b handler s rpc rid req = (True, s') \<and> rs_ready s'
    \<and> rs_dev s' = rs_dev s @ response_frames rpc rid text_out status"
proof -
  define s1 where "s1 = s\<lparr>rs_active_rpc_id := rpc, rs_active_request_id := rid, rs_sequence := 0,
                 rs_total_output_bytes := 0, rs_data_chunk_length := 0, rs_tx_failed := False\<rparr>"
  define c where "c = \<lparr>cc_write_byte = Some (binary_rpc_output_write_byte b), cc_write_context = s1,
                     cc_source_rx_event_mask = rb_source_rx_event_mask b, cc_write_failed = 0\<rparr>"
  have o: "out_at s1 (rs_dev s) rpc rid [] []"
    using r by (simp add: out_at_def s1_def rs_ready_def data_frames_def)
  obtain em p where f: "foldl chunk_step ([], []) text_out = (em, p)" by fastforce
  let ?c' = "writes c text_out" and ?s2 = "cc_write_context (writes c text_out)"
  have w: "out_at ?s2 (rs_dev s) rpc rid em p" "cc_write_failed ?c' = 0"
    using writes_chunks[OF b _ _ _ _ f, of c "rs_dev s" rpc rid] o by (simp_all add: c_def)
  have exec: "command_service_execute (Some req) c (Some handler) = (status, ?c')"
    using d h w(2) by (auto simp: command_service_execute_def c_def)
  have "\<exists>s3. binary_rpc_flush_data b ?s2 = (True, s3) \<and> out_at s3 (rs_dev s) rpc rid (rpc_chunks text_out) []"
  proof (cases "p = []")
    case True
    with w(1) f have "rpc_chunks text_out = em" "rs_data_chunk_length ?s2 = 0"
      by (simp_all add: rpc_chunks_def out_at_def)
    with w(1) True show ?thesis by (simp add: binary_rpc_flush_data_def)
  next
    case False
    with flush_chunk[OF b w(1)] f show ?thesis by (auto simp: rpc_chunks_def)
  qed
  then obtain s3 where s3: "binary_rpc_flush_data b ?s2 = (True, s3)"
    and o3: "out_at s3 (rs_dev s) rpc rid (rpc_chunks text_out) []" by blast
  have tx: "\<not> rs_tx_failed ?s2" using w(1) by (simp add: out_at_def)
  from o3 have f3: "rs_ready s3" "\<not> rs_tx_failed s3" "rs_sequence s3 = of_nat (length (rpc_chunks text_out))"
    "rs_total_output_bytes s3 = of_nat (length text_out)"
    "rs_dev s3 = rs_dev s @ data_frames rpc rid (rpc_chunks text_out)"
    using rpc_chunks_ok[of text_out] by (simp_all add: out_at_def)
  have run: "binary_rpc_run_command b handler s rpc rid req =
      binary_rpc_send_end b s3 rpc rid (rs_sequence s3) (rs_total_output_bytes s3) 0 (status_code status)"
    unfolding binary_rpc_run_command_def Let_def s1_def[symmetric] c_def[symmetric] exec prod.case
    using tx s3 w(2) f3(2) by simp
  from send_end_frame[OF b f3(1), of rpc rid "rs_sequence s3" "rs_total_output_bytes s3" 0 "status_code status"]
  show ?thesis unfolding run response_frames_def using f3 by auto
qed

end
