(* ===== verification/Command_Line.thy ===== *)
theory Command_Line
  imports Command_Service
begin

unbundle bit_operations_syntax

text \<open>
  The properties of the command registry and of the line parser: lookups are exact, and
  parsing a line is splitting it into words, with the argument bounds of its command.
\<close>

section \<open>Splitting a line into words\<close>

text \<open>The specification of the tokeniser: one pass, collecting the current word.\<close>

fun split_words :: "bytes \<Rightarrow> bytes \<Rightarrow> bytes list" where
  "split_words word [] = (if word = [] then [] else [word])"
| "split_words word (c # cs) =
     (if command_is_separator c then (if word = [] then split_words [] cs else word # split_words [] cs)
      else split_words (word @ [c]) cs)"

definition line_words :: "bytes \<Rightarrow> bytes list" where
  "line_words buffer = split_words [] (takeWhile (\<lambda>c. c \<noteq> 0) buffer)"

lemma split_words_token:
  "word \<noteq> [] \<Longrightarrow> split_words word cs = (word @ fst (next_token cs)) # split_words [] (snd (next_token cs))"
proof (induction cs arbitrary: word)
  case (Cons c cs)
  then show ?case by (cases "command_is_separator c") (simp_all add: next_token_def Let_def)
qed (simp add: next_token_def)

lemma split_words_skip:
  "split_words [] cs = (case skip_separators cs of [] \<Rightarrow> []
     | c \<Rightarrow> fst (next_token c) # split_words [] (snd (next_token c)))"
proof (induction cs)
  case (Cons c cs)
  show ?case
  proof (cases "command_is_separator c")
    case True
    with Cons show ?thesis by (simp add: skip_separators_def)
  next
    case False
    with split_words_token[of "[c]" cs] show ?thesis
      by (simp add: skip_separators_def next_token_def Let_def)
  qed
qed (simp add: skip_separators_def)

lemma parse_args_words:
  "length argv \<le> 4 \<Longrightarrow> parse_args cursor argv =
     (length argv + length (split_words [] cursor) \<le> 4, take 4 (argv @ split_words [] cursor))"
proof (induction cursor argv rule: parse_args.induct)
  case (1 cursor argv)
  show ?case
  proof (cases "skip_separators cursor")
    case Nil
    then show ?thesis using 1(2) split_words_skip[of cursor] by (simp add: parse_args.simps[of cursor])
  next
    case (Cons c cs)
    obtain token rest where t: "next_token (c # cs) = (token, rest)" by fastforce
    have w: "split_words [] cursor = token # split_words [] rest"
      using split_words_skip[of cursor] Cons t by simp
    show ?thesis
    proof (cases "length argv \<ge> 4")
      case True
      then show ?thesis using Cons w 1(2) by (simp add: parse_args.simps[of cursor])
    next
      case False
      then show ?thesis
        using 1(1)[of "c # cs" token rest] Cons t w
        by (simp add: parse_args.simps[of cursor])
    qed
  qed
qed

section \<open>Properties\<close>

text \<open>
  Registry lookups are exact: looking up a name finds a descriptor exactly when it is the
  registry entry of that name, and looking up a non-zero RPC id finds exactly the entry with
  that id; names and ids identify commands uniquely, and the ids are 1 to 36 in order.
\<close>
theorem registry_lookup_exact:
  "(command_service_find (Some n) = Some d \<longleftrightarrow> d \<in> set command_registry \<and> cd_name d = n)
   \<and> (command_service_find_rpc_id i = Some d \<longleftrightarrow> d \<in> set command_registry \<and> cd_rpc_id d = i)
   \<and> map cd_rpc_id command_registry = map of_nat [1..<37]
   \<and> distinct (map cd_name command_registry)"
proof -
  have key: "(\<lambda>d. command_text_equals n (cd_name d)) = (\<lambda>d. cd_name d = n)"
    by (auto simp: command_text_equals_eq)
  have nz: "0 \<notin> cd_rpc_id ` set command_registry"
  proof -
    have "(0 :: u16) \<notin> set (map cd_rpc_id command_registry)" by code_simp
    then show ?thesis by simp
  qed
  have "command_service_find (Some n) = Some d \<longleftrightarrow> d \<in> set command_registry \<and> cd_name d = n"
    unfolding command_service_find_def option.case key by (rule find_key[OF registry_names_distinct])
  moreover have "command_service_find_rpc_id i = Some d \<longleftrightarrow> d \<in> set command_registry \<and> cd_rpc_id d = i"
    using find_key[OF registry_ids_distinct, of i d] nz by (auto simp: command_service_find_rpc_id_def)
  ultimately show ?thesis using registry_ids registry_names_distinct by blast
qed

text \<open>
  C33: Parsing a command line is splitting it into words: for every text up to its NUL, a line
  without words or with more than four arguments is refused, an unknown first word is not
  found, an argument count outside the command's bounds is refused, and otherwise the
  request holds the command of the first word and exactly the other words, in order.
\<close>
theorem parse_line_splits_words:
  "command_service_parse_line (Some buffer) = (case line_words buffer of
      [] \<Rightarrow> (COMMAND_SERVICE_STATUS_BAD_ARGS, empty_request)
    | method # args \<Rightarrow>
        if length args > 4 then (COMMAND_SERVICE_STATUS_BAD_ARGS, empty_request\<lparr>rq_argv := take 4 args\<rparr>)
        else case command_service_find (Some method) of
          None \<Rightarrow> (COMMAND_SERVICE_STATUS_NOT_FOUND, empty_request\<lparr>rq_argv := args\<rparr>)
        | Some d \<Rightarrow>
            if unat (cd_min_args d) \<le> length args \<and> length args \<le> unat (cd_max_args d)
            then (COMMAND_SERVICE_STATUS_OK, \<lparr>rq_descriptor = Some d, rq_argc = length args, rq_argv = args\<rparr>)
            else (COMMAND_SERVICE_STATUS_BAD_ARGS, empty_request\<lparr>rq_argv := args\<rparr>))"
proof -
  let ?t = "takeWhile (\<lambda>c. c \<noteq> 0) buffer"
  show ?thesis
  proof (cases "skip_separators ?t")
    case Nil
    with split_words_skip[of ?t] show ?thesis
      by (simp add: command_service_parse_line_def line_words_def)
  next
    case (Cons c cs)
    obtain wd tl where t: "next_token (c # cs) = (wd, tl)" by fastforce
    have w: "line_words buffer = wd # split_words [] tl"
      using split_words_skip[of ?t] Cons t by (simp add: line_words_def)
    show ?thesis
      using Cons t parse_args_words[of "[]" tl]
      by (auto simp: command_service_parse_line_def w split: option.split)
  qed
qed

end
