(* ===== verification/Binary_Rpc_Service.thy ===== *)
theory Binary_Rpc_Service
  imports Binary_Rpc_Output Command_Line
begin

unbundle bit_operations_syntax

text \<open>
  The properties of the remote procedure call endpoint: a well-formed request runs its
  command on exactly its arguments and answers with the chunked output and a final status,
  every frame is answered, and a destructive command needs its confirmation flag.
\<close>

section \<open>Decoding arguments\<close>

definition enc_args :: "bytes list \<Rightarrow> bytes" where
  "enc_args args = concat (map (\<lambda>a. of_nat (length a) # a) args)"

definition enc_request :: "u16 \<Rightarrow> bytes list \<Rightarrow> bytes" where
  "enc_request rpc args = wr16 rpc @ [of_nat (length args), 0] @ enc_args args"

definition arg_ok :: "bytes \<Rightarrow> bool" where
  "arg_ok a \<longleftrightarrow> length a \<le> BINARY_RPC_MAX_ARG_BYTES \<and> 0 \<notin> set a"

lemma decode_args_enc:
  assumes "\<forall>a \<in> set args. arg_ok a" "i + length args \<le> 4" "payload = pre @ enc_args args @ rest"
    "offset = length pre" "n = length pre + length (enc_args args)"
  shows "\<exists>a'. decode_args payload n (length args) i offset a = (Some n, a')
    \<and> ra_argv a' = ra_argv a @ args \<and> ra_result a' = ra_result a"
  using assms
proof (induction args arbitrary: i pre offset a)
  case Nil
  then show ?case by (simp add: enc_args_def)
next
  case (Cons x xs)
  have x: "length x \<le> 31" "0 \<notin> set x" using Cons.prems(1) by (simp_all add: arg_ok_def)
  have l: "unat (of_nat (length x) :: u8) = length x" by (rule u8_of_nat) (use x in simp)
  have p: "payload = (pre @ [of_nat (length x)]) @ x @ enc_args xs @ rest" using Cons.prems(3) by (simp add: enc_args_def)
  have at: "payload ! offset = of_nat (length x)" using p Cons.prems(4) by (simp add: nth_append)
  have tok: "take (length x) (drop (offset + 1) payload) = x" using p Cons.prems(4) by simp
  have n: "n = offset + 1 + length x + length (enc_args xs)"
    using Cons.prems(4,5) by (simp add: enc_args_def)
  have tw: "takeWhile (\<lambda>c. c \<noteq> 0) x = x" using x(2) by (simp add: takeWhile_eq_all_conv) metis
  define a1 where "a1 = a\<lparr>ra_storage := (ra_storage a)[i := store_at (ra_storage a ! i) 0 (x @ [0])],
      ra_argv := ra_argv a @ [x]\<rparr>"
  have step: "decode_args payload n (length (x # xs)) i offset a
      = decode_args payload n (length xs) (i + 1) (offset + 1 + length x) a1"
    using x Cons.prems(2) tok n by (simp add: at l Let_def a1_def tw)
  from Cons.IH[of "i + 1" "pre @ [of_nat (length x)] @ x" "offset + 1 + length x" a1] Cons.prems(1,2,4) p n
  obtain a' where "decode_args payload n (length xs) (i + 1) (offset + 1 + length x) a1 = (Some n, a')"
    "ra_argv a' = ra_argv a1 @ xs" "ra_result a' = ra_result a1" by auto
  then show ?case unfolding step by (simp add: a1_def)
qed

lemma enc_request_parts:
  "enc_request rpc args = (wr16 rpc @ [of_nat (length args), 0]) @ enc_args args"
  "length (enc_request rpc args) = 4 + length (enc_args args)"
  by (simp_all add: enc_request_def)

lemma decode_request_enc:
  assumes ok: "\<forall>a \<in> set args. arg_ok a" "length args \<le> 4"
    and f: "fv_payload frame = enc_request rpc args @ rest" "unat (fv_payload_length frame) = length (enc_request rpc args)"
  shows "\<exists>storage. binary_rpc_decode_request s frame =
    (BINARY_RPC_DECODE_OK, rpc, length args, args, s\<lparr>rs_argument_storage := storage\<rparr>)"
proof -
  let ?p = "fv_payload frame" and ?n = "unat (fv_payload_length frame)"
  let ?a = "\<lparr>ra_storage = map (\<lambda>arr. arr[0 := 0]) (rs_argument_storage s), ra_argv = [], ra_result = BINARY_RPC_DECODE_OK\<rparr>"
  have p: "?p = wr16 rpc @ of_nat (length args) # 0 # enc_args args @ rest"
    using f(1) by (simp add: enc_request_def)
  have p': "?p = ucast rpc # ucast (drop_bit 8 rpc) # of_nat (length args) # 0 # enc_args args @ rest"
    unfolding p by (simp add: wr16_def)
  have argc: "unat (?p ! 2) = length args"
  proof -
    have "unat (of_nat (length args) :: u8) = length args" by (rule u8_of_nat) (use ok(2) in simp)
    then show ?thesis unfolding p' by (simp del: unsigned_of_nat)
  qed
  have p3: "?p ! 3 = 0" unfolding p' by simp
  have id: "rd16 ?p 0 = rpc" unfolding p using rd16_at[of "[]" 0 rpc] by simp
  have pre: "?p = (wr16 rpc @ [of_nat (length args), 0]) @ enc_args args @ rest" unfolding p by simp
  have n: "?n = 4 + length (enc_args args)" using f(2) by (simp add: enc_request_parts(2))
  have "0 + length args \<le> 4" "4 = length (wr16 rpc @ [of_nat (length args), 0])"
    "?n = length (wr16 rpc @ [of_nat (length args), 0]) + length (enc_args args)"
    using ok(2) n by simp_all
  from decode_args_enc[OF ok(1) this(1) pre this(2,3), of ?a] obtain a' where
    "decode_args ?p ?n (length args) 0 4 ?a = (Some ?n, a')" "ra_argv a' = args" "ra_result a' = BINARY_RPC_DECODE_OK"
    unfolding binary_rpc_args.simps append_Nil by blast
  then show ?thesis
    using ok(2) n by (intro exI[of _ "ra_storage a'"]) (simp add: binary_rpc_decode_request_def Let_def argc p3 id)
qed

section \<open>Properties\<close>

text \<open>A request frame for a registered command, with legal arguments and the confirmation it needs.\<close>

definition rpc_request_ok :: "binary_frame_view \<Rightarrow> command_service_descriptor \<Rightarrow> bytes list \<Rightarrow> bool" where
  "rpc_request_ok frame d args \<longleftrightarrow> fv_version frame = 1 \<and> fv_reserved frame = 0 \<and> fv_request_id frame \<noteq> 0
     \<and> fv_frame_type frame = FT_RPC_REQUEST
     \<and> (fv_flags frame = 1 \<or> fv_flags frame = 0 \<and> cd_command_class d \<noteq> COMMAND_SERVICE_CLASS_DESTRUCTIVE)
     \<and> d \<in> set command_registry \<and> (\<forall>a \<in> set args. arg_ok a)
     \<and> unat (cd_min_args d) \<le> length args \<and> length args \<le> unat (cd_max_args d) \<and> length args \<le> 4
     \<and> unat (fv_payload_length frame) = length (enc_request (cd_rpc_id d) args)
     \<and> take (unat (fv_payload_length frame)) (fv_payload frame) = enc_request (cd_rpc_id d) args"

lemma rpc_request_dispatch:
  assumes ok: "rpc_request_ok frame d args"
  shows "\<exists>storage. binary_rpc_dispatch s frame b handler = binary_rpc_run_command b handler
      (s\<lparr>rs_rpc_requests := rs_rpc_requests s + 1, rs_argument_storage := storage\<rparr>)
      (cd_rpc_id d) (fv_request_id frame) \<lparr>rq_descriptor = Some d, rq_argc = length args, rq_argv = args\<rparr>"
proof -
  have find: "command_service_find_rpc_id (cd_rpc_id d) = Some d"
  proof -
    have "cd_rpc_id d \<in> set (map cd_rpc_id command_registry)" "(0 :: u16) \<notin> set (map cd_rpc_id command_registry)"
      using ok by (simp add: rpc_request_ok_def, code_simp)
    then have "cd_rpc_id d \<noteq> 0" by metis
    then show ?thesis
      using find_key[OF registry_ids_distinct, of "cd_rpc_id d" d] ok
      by (simp add: command_service_find_rpc_id_def rpc_request_ok_def)
  qed
  have p: "fv_payload frame = enc_request (cd_rpc_id d) args @ drop (unat (fv_payload_length frame)) (fv_payload frame)"
    using ok unfolding rpc_request_ok_def by (metis append_take_drop_id)
  let ?s1 = "s\<lparr>rs_rpc_requests := rs_rpc_requests s + 1\<rparr>"
  from decode_request_enc[OF _ _ p, of ?s1] ok obtain storage where
    d: "binary_rpc_decode_request ?s1 frame =
      (BINARY_RPC_DECODE_OK, cd_rpc_id d, length args, args, ?s1\<lparr>rs_argument_storage := storage\<rparr>)"
    by (auto simp: rpc_request_ok_def)
  have fl: "fv_flags frame AND NOT 1 = 0" "fv_flags frame AND 1 = 0 \<longrightarrow> cd_command_class d \<noteq> COMMAND_SERVICE_CLASS_DESTRUCTIVE"
    using ok by (auto simp: rpc_request_ok_def)
  show ?thesis
    using ok fl find d
    by (intro exI[of _ storage])
      (auto simp: binary_rpc_dispatch_def binary_rpc_handle_rpc_request_def Let_def rpc_request_ok_def)
qed

text \<open>
  C21: A well-formed request runs its command and returns its whole output: for a registered
  command with a legal number of arguments of at most 31 bytes, and the confirmation flag if the
  command is destructive, the endpoint calls the handler with exactly these arguments and, over a
  transport that takes every frame, sends the bytes the handler writes as \<open>RPC_DATA\<close>
  frames numbered from 0, followed by one \<open>RPC_END\<close> frame with the number of chunks, the
  number of bytes and the handler's status; the chunks are not empty, hold at most 48 bytes, and
  their concatenation is the output.
\<close>
theorem rpc_returns_command_output:
  assumes "accepts_all b" "length (rs_wire s) = 64" "rpc_request_ok frame d args"
    and "\<And>c. handler \<lparr>rq_descriptor = Some d, rq_argc = length args, rq_argv = args\<rparr> c = (status, writes c text_out)"
  shows "\<exists>s'. binary_rpc_handle_frame s (Some frame) (Some b) (Some handler) = (True, s')
    \<and> rs_dev s' = rs_dev s
        @ data_frames (cd_rpc_id d) (fv_request_id frame) (rpc_chunks text_out)
        @ [rpc_frame FT_RPC_END (fv_request_id frame) (wr16 (cd_rpc_id d) @ wr16 (of_nat (length (rpc_chunks text_out)))
            @ wr32 (of_nat (length text_out)) @ [BINARY_RPC_STATUS_DOMAIN_COMMAND_SERVICE, status_code status])]
    \<and> concat (rpc_chunks text_out) = text_out \<and> (\<forall>c \<in> set (rpc_chunks text_out). c \<noteq> [] \<and> length c \<le> 48)"
proof -
  let ?s0 = "s\<lparr>rs_active_binding := True, rs_tx_failed := False\<rparr>"
  let ?req = "\<lparr>rq_descriptor = Some d, rq_argc = length args, rq_argv = args\<rparr>"
  from rpc_request_dispatch[OF assms(3), of ?s0 b handler] obtain storage where
    run: "binary_rpc_dispatch ?s0 frame b handler = binary_rpc_run_command b handler
      (?s0\<lparr>rs_rpc_requests := rs_rpc_requests ?s0 + 1, rs_argument_storage := storage\<rparr>)
      (cd_rpc_id d) (fv_request_id frame) ?req" by blast
  let ?s1 = "?s0\<lparr>rs_rpc_requests := rs_rpc_requests ?s0 + 1, rs_argument_storage := storage\<rparr>"
  have r: "rs_ready ?s1" using assms(2) by (simp add: rs_ready_def)
  from run_command_frames[where handler = handler and req = ?req and status = status and text_out = text_out,
      OF assms(1) r _ assms(4), of "cd_rpc_id d" "fv_request_id frame"] obtain s1 where
    "binary_rpc_run_command b handler ?s1 (cd_rpc_id d) (fv_request_id frame) ?req = (True, s1)"
    "rs_dev s1 = rs_dev s @ response_frames (cd_rpc_id d) (fv_request_id frame) text_out status" by auto
  then show ?thesis
    using run assms(1) rpc_chunks_ok[of text_out]
    by (simp add: binary_rpc_handle_frame_def accepts_all_def response_frames_def)
qed

text \<open>A binding that accepts everything, an endpoint at rest, and a request for \<open>ping\<close>.\<close>

definition plain_binding :: "bytes list binary_rpc_binding" where
  "plain_binding = \<lparr>rb_send_wire = Some (\<lambda>sent w. (True, sent @ [w])), rb_source_rx_event_mask = 0,
     rb_capability_flags = 0x7F\<rparr>"

definition plain_endpoint :: "bytes list binary_rpc_state" where
  "plain_endpoint = binary_rpc_init \<lparr>rs_hello_requests = 0, rs_rpc_requests = 0, rs_protocol_errors = 0,
     rs_response_data_frames = 0, rs_response_end_frames = 0, rs_tx_failures = 0,
     rs_argument_storage = replicate 4 (replicate 32 0), rs_wire = replicate 64 0, rs_active_binding = False,
     rs_total_output_bytes = 0, rs_active_rpc_id = 0, rs_active_request_id = 0, rs_sequence = 0,
     rs_data_chunk_length = 0, rs_tx_failed = False, rs_dev = []\<rparr>"

definition plain_command :: "u16 \<Rightarrow> binary_frame_view" where
  "plain_command rpc = \<lparr>fv_version = 1, fv_frame_type = FT_RPC_REQUEST, fv_flags = 0, fv_reserved = 0, fv_request_id = 9,
     fv_payload_length = 4, fv_payload = enc_request rpc [] @ replicate 128 0\<rparr>"

lemma plain_ok: "accepts_all plain_binding" "length (rs_wire plain_endpoint) = 64" "rs_dev plain_endpoint = []"
  by (simp_all add: accepts_all_def plain_binding_def plain_endpoint_def binary_rpc_init_def)

lemma ping_request_ok: "rpc_request_ok (plain_command 1) (command_registry ! 0) []"
proof -
  have "command_registry ! 0 \<in> set command_registry" by (rule nth_mem) code_simp
  moreover have "command_registry ! 0 = command_entry ''ping'' 1 COMMAND_SERVICE_METHOD_PING COMMAND_SERVICE_CLASS_SAFE 0 0"
    by (simp add: command_registry_def)
  ultimately show ?thesis
    by (simp add: rpc_request_ok_def plain_command_def command_entry_def enc_request_parts) (simp add: enc_args_def)
qed

theorem rpc_returns_command_output_witness:
  "\<exists>s'. binary_rpc_handle_frame plain_endpoint (Some (plain_command 1)) (Some plain_binding)
      (Some (\<lambda>req c. (COMMAND_SERVICE_STATUS_OK, writes c (chars ''PONG'' @ [13, 10])))) = (True, s')
    \<and> length (rs_dev s') = 2"
proof -
  have "length (rpc_chunks (chars ''PONG'' @ [13, 10])) = 1" by code_simp
  then show ?thesis
    using rpc_returns_command_output[OF plain_ok(1,2) ping_request_ok,
        where handler = "\<lambda>req c. (COMMAND_SERVICE_STATUS_OK, writes c (chars ''PONG'' @ [13, 10]))"
          and status = COMMAND_SERVICE_STATUS_OK and text_out = "chars ''PONG'' @ [13, 10]"]
    by (auto simp: plain_ok(3) data_frames_def)
qed

text \<open>
  C16: A destructive command needs its confirmation: for a frame without the confirmation flag
  whose request decodes to a destructive command, the endpoint behaves the same whatever the
  handler does (the handler is not called), for any transport.
\<close>
theorem destructive_needs_confirmation:
  assumes "command_service_find_rpc_id (fst (snd (binary_rpc_decode_request s frame))) = Some d"
    and "cd_command_class d = COMMAND_SERVICE_CLASS_DESTRUCTIVE" "fv_flags frame AND 1 = 0"
  shows "binary_rpc_handle_frame s (Some frame) (Some b) (Some handler)
       = binary_rpc_handle_frame s (Some frame) (Some b) (Some handler')"
proof -
  have same: "fst (snd (binary_rpc_decode_request s' frame)) = fst (snd (binary_rpc_decode_request s frame))" for s'
    by (simp add: binary_rpc_decode_request_def Let_def split: prod.split)
  have "binary_rpc_handle_rpc_request s' frame b handler = binary_rpc_handle_rpc_request s' frame b handler'" for s'
    using assms same[of "s'\<lparr>rs_rpc_requests := rs_rpc_requests s' + 1\<rparr>"]
    by (auto simp: binary_rpc_handle_rpc_request_def Let_def split: prod.splits option.splits)
  then have "binary_rpc_dispatch s' frame b handler = binary_rpc_dispatch s' frame b handler'" for s'
    by (simp add: binary_rpc_dispatch_def)
  then show ?thesis by (simp add: binary_rpc_handle_frame_def)
qed

theorem destructive_needs_confirmation_witness:
  "binary_rpc_handle_frame plain_endpoint (Some (plain_command 30)) (Some plain_binding) (Some (\<lambda>req c. (COMMAND_SERVICE_STATUS_OK, c)))
   = binary_rpc_handle_frame plain_endpoint (Some (plain_command 30)) (Some plain_binding) (Some (\<lambda>req c. (COMMAND_SERVICE_STATUS_BUSY, c)))"
proof -
  have "unat (fv_payload_length (plain_command 30)) = length (enc_request 30 [])"
    by (simp add: plain_command_def enc_request_def enc_args_def)
  from decode_request_enc[OF _ _ _ this, of "replicate 128 0" plain_endpoint]
  have id: "fst (snd (binary_rpc_decode_request plain_endpoint (plain_command 30))) = 30"
    by (auto simp: plain_command_def)
  have "command_service_find_rpc_id 30 = Some (command_entry ''wdogtrip'' 30 COMMAND_SERVICE_METHOD_WDOGTRIP
      COMMAND_SERVICE_CLASS_DESTRUCTIVE 0 0)" by code_simp
  then show ?thesis
    by (intro destructive_needs_confirmation) (simp_all add: id, simp_all add: command_entry_def plain_command_def)
qed

text \<open>One response: data frames of the request, then one final frame of the request.\<close>

definition answered :: "bytes list \<Rightarrow> u16 \<Rightarrow> bytes list binary_rpc_state \<Rightarrow> bool" where
  "answered base rid s \<longleftrightarrow> (\<exists>data t p. rs_dev s = base @ data @ [rpc_frame t rid p]
     \<and> t \<in> {FT_HELLO_RESPONSE, FT_RPC_END, FT_PROTOCOL_ERROR}
     \<and> (\<forall>w \<in> set data. \<exists>q. w = rpc_frame FT_RPC_DATA rid q))"

lemma answered_single:
  "rs_dev s = base @ [rpc_frame t rid p] \<Longrightarrow> t \<in> {FT_HELLO_RESPONSE, FT_RPC_END, FT_PROTOCOL_ERROR}
   \<Longrightarrow> answered base rid s"
  unfolding answered_def by (metis append_Nil empty_iff empty_set)

lemma answered_error:
  assumes "accepts_all b" "rs_ready s"
  shows "\<exists>s'. binary_rpc_send_protocol_error b s rid code observed = (True, s') \<and> answered (rs_dev s) rid s'"
  using protocol_error_frame[OF assms, of rid code observed] answered_single by fastforce

lemma answered_end:
  assumes "accepts_all b" "rs_ready s"
  shows "\<exists>s'. binary_rpc_send_simple_end b s rpc rid area st = (True, s') \<and> answered (rs_dev s) rid s'"
  using send_end_frame[OF assms, of rpc rid 0 0 area st] answered_single
  unfolding binary_rpc_send_simple_end_def by fastforce

lemma answered_hello:
  assumes "accepts_all b" "rs_ready s"
  shows "\<exists>s'. binary_rpc_send_hello b s rid = (True, s') \<and> answered (rs_dev s) rid s'"
  using hello_frame[OF assms, of rid] answered_single by fastforce

lemma answered_run:
  assumes "accepts_all b" "rs_ready s" "rq_descriptor req \<noteq> None" "\<And>req. \<exists>st out. \<forall>c. handler req c = (st, writes c out)"
  shows "\<exists>s'. binary_rpc_run_command b handler s rpc rid req = (True, s') \<and> answered (rs_dev s) rid s'"
proof -
  obtain st out where h: "\<And>c. handler req c = (st, writes c out)" using assms(4)[of req] by blast
  from run_command_frames[where handler = handler and req = req and status = st and text_out = out,
      OF assms(1-3) h, of rpc rid] obtain s' where
    "binary_rpc_run_command b handler s rpc rid req = (True, s')"
    "rs_dev s' = rs_dev s @ response_frames rpc rid out st" by blast
  then show ?thesis
    by (intro exI[of _ s']) (auto simp: answered_def response_frames_def data_frames_def)
qed

lemma dev_decode: "rs_dev (snd (snd (snd (snd (binary_rpc_decode_request s f))))) = rs_dev s"
  "rs_ready s \<Longrightarrow> rs_ready (snd (snd (snd (snd (binary_rpc_decode_request s f)))))"
  by (simp_all add: binary_rpc_decode_request_def Let_def rs_ready_def split: prod.split)

lemma answered_rpc:
  assumes b: "accepts_all b" and r: "rs_ready s" and h: "\<And>req. \<exists>st out. \<forall>c. handler req c = (st, writes c out)"
  shows "\<exists>s'. binary_rpc_handle_rpc_request s f b handler = (True, s') \<and> answered (rs_dev s) (fv_request_id f) s'"
proof -
  let ?s1 = "s\<lparr>rs_rpc_requests := rs_rpc_requests s + 1\<rparr>"
  have r1: "rs_ready ?s1" "rs_dev ?s1 = rs_dev s" using r by (simp_all add: rs_ready_def)
  obtain res rpc argc argv s2 where d: "binary_rpc_decode_request ?s1 f = (res, rpc, argc, argv, s2)"
    by (metis prod_cases5)
  have r2: "rs_ready s2" "rs_dev s2 = rs_dev s" using dev_decode[of ?s1 f] r1 d by simp_all
  note e1 = answered_error[OF b r1(1), unfolded r1(2)] answered_end[OF b r1(1), unfolded r1(2)]
  note e2 = answered_error[OF b r2(1), unfolded r2(2)] answered_end[OF b r2(1), unfolded r2(2)]
    answered_run[OF b r2(1) _ h, unfolded r2(2)]
  show ?thesis
    unfolding binary_rpc_handle_rpc_request_def Let_def d prod.case
    using e1 e2 by (simp split: option.split)
qed

text \<open>
  C26: Every frame is answered: over a transport that takes every frame, and for a handler
  that writes its output and answers a status, whatever the frame is (wrong version, reserved
  bits, an unknown type, bad flags, a malformed or unknown request, bad arguments, or a good
  request) the endpoint sends zero or more \<open>RPC_DATA\<close> frames and then exactly one final
  frame, all carrying the frame's request id, reports success, and has no active binding.
\<close>
theorem every_frame_is_answered:
  assumes "accepts_all b" "length (rs_wire s) = 64" "\<And>req. \<exists>st out. \<forall>c. handler req c = (st, writes c out)"
  shows "\<exists>s'. binary_rpc_handle_frame s (Some f) (Some b) (Some handler) = (True, s')
    \<and> answered (rs_dev s) (fv_request_id f) s' \<and> \<not> rs_active_binding s'"
proof -
  let ?s0 = "s\<lparr>rs_active_binding := True, rs_tx_failed := False\<rparr>"
  have r: "rs_ready ?s0" using assms(2) by (simp add: rs_ready_def)
  let ?s1 = "?s0\<lparr>rs_hello_requests := rs_hello_requests ?s0 + 1\<rparr>"
  have r1: "rs_ready ?s1" "rs_dev ?s1 = rs_dev s" using assms(2) by (simp_all add: rs_ready_def)
  have dev: "rs_dev ?s0 = rs_dev s" by simp
  note e0 = answered_error[OF assms(1) r, unfolded dev] answered_rpc[OF assms(1) r assms(3), unfolded dev]
  note e1 = answered_error[OF assms(1) r1(1), unfolded r1(2)] answered_hello[OF assms(1) r1(1), unfolded r1(2)]
  have "\<exists>s'. binary_rpc_dispatch ?s0 f b handler = (True, s') \<and> answered (rs_dev s) (fv_request_id f) s'"
    unfolding binary_rpc_dispatch_def Let_def using e0 e1 by simp
  then obtain s' where "binary_rpc_dispatch ?s0 f b handler = (True, s')" "answered (rs_dev s) (fv_request_id f) s'" by blast
  then show ?thesis
    using assms(1) by (simp add: binary_rpc_handle_frame_def accepts_all_def answered_def)
qed

theorem every_frame_is_answered_witness:
  "\<exists>s'. binary_rpc_handle_frame plain_endpoint (Some (plain_command 99)) (Some plain_binding)
      (Some (\<lambda>req c. (COMMAND_SERVICE_STATUS_OK, writes c []))) = (True, s') \<and> answered [] 9 s'"
  using every_frame_is_answered[OF plain_ok(1,2), of "\<lambda>req c. (COMMAND_SERVICE_STATUS_OK, writes c [])" "plain_command 99"]
  by (auto simp: plain_ok(3) plain_command_def)

end
