(* ===== verification/Scheduler.thy ===== *)
theory Scheduler
  imports Fw_Prelude
begin

unbundle bit_operations_syntax

text \<open>
  The two-task scheduler (\<open>src/src/kernel/scheduler.c\<close>). Memory is a function from word
  addresses to words; a pointer is its 32-bit address, null is 0. Flags the code keeps in
  a \<open>uint32_t\<close> as 0 or 1 are booleans. The system registers the code writes are the two
  latches \<open>ss_pendsv\<close> (ICSR) and \<open>ss_event_register\<close> (SEV, WFE), and \<open>ss_shpr3\<close> (SHPR3). The instruction memory
  read by the SVC decoder, and the address of the return trap, are parameters.
\<close>

section \<open>Constants and types\<close>

abbreviation (input) SCHEDULER_TASK_COUNT :: nat where "SCHEDULER_TASK_COUNT \<equiv> 2"
abbreviation (input) SCHEDULER_NO_TASK :: nat where "SCHEDULER_NO_TASK \<equiv> SCHEDULER_TASK_COUNT"
abbreviation (input) SCHEDULER_TASK_STACK_WORDS :: u32 where "SCHEDULER_TASK_STACK_WORDS \<equiv> 128"
abbreviation (input) SCHEDULER_MAX_TIMEOUT_MS :: u32 where "SCHEDULER_MAX_TIMEOUT_MS \<equiv> 0x7FFFFFFF"
abbreviation (input) SCHEDULER_PRIORITY_HIGHEST :: u32 where "SCHEDULER_PRIORITY_HIGHEST \<equiv> 0"
abbreviation (input) SCHEDULER_PRIORITY_DEFAULT :: u32 where "SCHEDULER_PRIORITY_DEFAULT \<equiv> 128"
abbreviation (input) SCHEDULER_PRIORITY_LOWEST :: u32 where "SCHEDULER_PRIORITY_LOWEST \<equiv> 255"
abbreviation (input) SCHEDULER_INITIAL_FRAME_WORDS :: u32 where "SCHEDULER_INITIAL_FRAME_WORDS \<equiv> 16"
abbreviation (input) SCHEDULER_FRAME_BYTES :: u32 where "SCHEDULER_FRAME_BYTES \<equiv> 64"
abbreviation (input) SCHEDULER_INITIAL_XPSR :: u32 where "SCHEDULER_INITIAL_XPSR \<equiv> 0x01000000"
abbreviation (input) SCHEDULER_STACK_FILL :: u32 where "SCHEDULER_STACK_FILL \<equiv> 0xA5A5A5A5"
abbreviation (input) SCHEDULER_EXC_RETURN_THREAD_MSP :: u32 where "SCHEDULER_EXC_RETURN_THREAD_MSP \<equiv> 0xFFFFFFF9"
abbreviation (input) SCHEDULER_EXC_RETURN_THREAD_PSP :: u32 where "SCHEDULER_EXC_RETURN_THREAD_PSP \<equiv> 0xFFFFFFFD"
abbreviation (input) SCHEDULER_SVC_YIELD :: u32 where "SCHEDULER_SVC_YIELD \<equiv> 1"
abbreviation (input) SCHEDULER_SVC_EXIT :: u32 where "SCHEDULER_SVC_EXIT \<equiv> 2"
abbreviation (input) SCHEDULER_SVC_WAIT_EVENTS :: u32 where "SCHEDULER_SVC_WAIT_EVENTS \<equiv> 3"
abbreviation (input) SCHEDULER_SVC_TIMED_BLOCK :: u32 where "SCHEDULER_SVC_TIMED_BLOCK \<equiv> 4"

datatype scheduler_task_state =
  SCHEDULER_TASK_UNUSED | SCHEDULER_TASK_READY | SCHEDULER_TASK_DONE | SCHEDULER_TASK_BLOCKED

record scheduler_task =
  t_saved_sp :: u32
  t_stack_low :: u32
  t_stack_high :: u32
  t_stack_words :: u32
  t_state :: scheduler_task_state
  t_priority :: u32
  t_wait_events :: u32
  t_wake_events :: u32
  t_deadline_ms :: u32
  t_deadline_active :: bool

record scheduler =
  ss_tasks :: "scheduler_task list"
  ss_current_index :: nat
  ss_active :: bool
  ss_completed_count :: u32
  ss_target_count :: u32
  ss_run_result :: bool
  ss_preempt_enabled :: bool
  ss_preempt_switch_count :: u32
  ss_pending_events :: u32
  ss_idle_wait_count :: u32
  ss_now_ms :: u32
  ss_stack_high_water_words :: "u32 list"
  ss_stack_canary_exhausted :: "bool list"
  ss_host_r4_r11 :: "u32 list"
  ss_mem :: "u32 \<Rightarrow> u32"
  ss_pendsv :: bool
  ss_event_register :: bool
  ss_shpr3 :: u32

section \<open>Memory\<close>

text \<open>\<open>p[i]\<close> for a \<open>uint32_t *\<close>.\<close>

definition word_at :: "u32 \<Rightarrow> nat \<Rightarrow> u32" where
  "word_at p i = p + 4 * of_nat i"

definition ldw :: "(u32 \<Rightarrow> u32) \<Rightarrow> u32 \<Rightarrow> nat \<Rightarrow> u32" where
  "ldw mem p i = mem (word_at p i)"

definition stw :: "(u32 \<Rightarrow> u32) \<Rightarrow> u32 \<Rightarrow> nat \<Rightarrow> u32 \<Rightarrow> (u32 \<Rightarrow> u32)" where
  "stw mem p i v = mem(word_at p i := v)"

text \<open>Consecutive stores from index \<open>i\<close> on (\<open>stmia\<close>, and the unrolled stores of a frame).\<close>

fun stw_list :: "(u32 \<Rightarrow> u32) \<Rightarrow> u32 \<Rightarrow> nat \<Rightarrow> u32 list \<Rightarrow> (u32 \<Rightarrow> u32)" where
  "stw_list mem p i [] = mem"
| "stw_list mem p i (v # vs) = stw_list (stw mem p i v) p (Suc i) vs"

section \<open>Stacks\<close>

definition scheduler_exception_pc_address :: "u32 \<Rightarrow> u32" where
  "scheduler_exception_pc_address entry = entry AND NOT 1"

definition scheduler_frame_pointer_valid :: "scheduler_task \<Rightarrow> u32 \<Rightarrow> bool" where
  "scheduler_frame_pointer_valid task saved_sp \<longleftrightarrow>
     saved_sp \<noteq> 0 \<and> t_stack_low task \<noteq> 0 \<and> t_stack_high task \<noteq> 0
     \<and> saved_sp AND 7 = 0 \<and> saved_sp \<ge> t_stack_low task
     \<and> saved_sp \<le> t_stack_high task - SCHEDULER_FRAME_BYTES"

definition scheduler_stack_telemetry_reset :: "scheduler \<Rightarrow> scheduler" where
  "scheduler_stack_telemetry_reset s = s\<lparr>ss_stack_high_water_words := replicate SCHEDULER_TASK_COUNT 0,
     ss_stack_canary_exhausted := replicate SCHEDULER_TASK_COUNT False\<rparr>"

text \<open>The \<open>while\<close> loop: how many of the lowest \<open>n\<close> words from index \<open>i\<close> are untouched.\<close>

fun count_untouched :: "(u32 \<Rightarrow> u32) \<Rightarrow> u32 \<Rightarrow> nat \<Rightarrow> nat \<Rightarrow> nat" where
  "count_untouched mem low i 0 = i"
| "count_untouched mem low i (Suc n) =
     (if ldw mem low i = SCHEDULER_STACK_FILL then count_untouched mem low (i + 1) n else i)"

definition scheduler_stack_measure_used_words :: "(u32 \<Rightarrow> u32) \<Rightarrow> scheduler_task \<Rightarrow> u32" where
  "scheduler_stack_measure_used_words mem task =
     (if t_stack_low task = 0 \<or> t_stack_high task = 0 \<or> t_stack_words task = 0 then 0
      else t_stack_words task - of_nat (count_untouched mem (t_stack_low task) 0 (unat (t_stack_words task))))"

definition scheduler_stack_record :: "scheduler \<Rightarrow> nat \<Rightarrow> scheduler" where
  "scheduler_stack_record s index =
     (if index \<ge> SCHEDULER_TASK_COUNT then s
      else let task = ss_tasks s ! index;
               used_words = scheduler_stack_measure_used_words (ss_mem s) task;
               s1 = (if used_words > ss_stack_high_water_words s ! index
                     then s\<lparr>ss_stack_high_water_words := (ss_stack_high_water_words s)[index := used_words]\<rparr> else s)
        in if used_words \<ge> t_stack_words task
           then s1\<lparr>ss_stack_canary_exhausted := (ss_stack_canary_exhausted s1)[index := True]\<rparr> else s1)"

section \<open>Selection\<close>

text \<open>One pass of the \<open>for\<close> loop over the offsets, on the selected index and priority.\<close>

definition select_step :: "scheduler_task list \<Rightarrow> nat \<Rightarrow> nat \<times> u32 \<Rightarrow> nat \<Rightarrow> nat \<times> u32" where
  "select_step tasks after_index sel offset =
     (let index = (after_index + offset) mod SCHEDULER_TASK_COUNT in
      if t_state (tasks ! index) = SCHEDULER_TASK_READY \<and> t_priority (tasks ! index) < snd sel
      then (index, t_priority (tasks ! index)) else sel)"

definition scheduler_select_next_ready :: "scheduler_task list \<Rightarrow> nat \<Rightarrow> nat" where
  "scheduler_select_next_ready tasks after_index =
     fst (foldl (select_step tasks after_index) (SCHEDULER_NO_TASK, SCHEDULER_PRIORITY_LOWEST + 1)
       [1..<SCHEDULER_TASK_COUNT + 1])"

definition scheduler_find_next_ready :: "scheduler \<Rightarrow> nat \<Rightarrow> nat" where
  "scheduler_find_next_ready s after_index = scheduler_select_next_ready (ss_tasks s) after_index"

definition scheduler_has_blocked_tasks :: "scheduler \<Rightarrow> bool" where
  "scheduler_has_blocked_tasks s \<longleftrightarrow> (\<exists>t \<in> set (take SCHEDULER_TASK_COUNT (ss_tasks s)). t_state t = SCHEDULER_TASK_BLOCKED)"

text \<open>\<open>(int32_t)(now_ms - deadline_ms) >= 0\<close>.\<close>

definition scheduler_time_reached :: "u32 \<Rightarrow> u32 \<Rightarrow> bool" where
  "scheduler_time_reached now_ms deadline_ms \<longleftrightarrow> 0 \<le> sint (now_ms - deadline_ms)"

text \<open>\<open>code\<close> is the instruction memory, read by halfwords.\<close>

definition scheduler_decode_svc_number :: "(u32 \<Rightarrow> u16) \<Rightarrow> (u32 \<Rightarrow> u32) \<Rightarrow> u32 \<Rightarrow> u32" where
  "scheduler_decode_svc_number code mem saved_sp =
     (if saved_sp = 0 then 0xFFFFFFFF
      else let stacked_pc = ldw mem saved_sp 14 in
        if stacked_pc < 2 then 0xFFFFFFFF
        else let instruction = code (stacked_pc - 2) in
          if instruction AND 0xFF00 \<noteq> 0xDF00 then 0xFFFFFFFF
          else ucast (instruction AND 0x00FF))"

definition scheduler_clear_pending_pendsv :: "scheduler \<Rightarrow> scheduler" where
  "scheduler_clear_pending_pendsv s = s\<lparr>ss_pendsv := False\<rparr>"

definition scheduler_abort_run :: "scheduler \<Rightarrow> scheduler" where
  "scheduler_abort_run s = (scheduler_clear_pending_pendsv (s\<lparr>ss_preempt_enabled := False\<rparr>))
     \<lparr>ss_active := False, ss_current_index := SCHEDULER_NO_TASK, ss_run_result := False\<rparr>"

definition scheduler_configure_pendsv_priority :: "scheduler \<Rightarrow> scheduler" where
  "scheduler_configure_pendsv_priority s =
     s\<lparr>ss_shpr3 := (ss_shpr3 s AND NOT 0x00FF0000) OR 0x00FF0000\<rparr>"

section \<open>Set-up\<close>

definition unused_task :: scheduler_task where
  "unused_task = \<lparr>t_saved_sp = 0, t_stack_low = 0, t_stack_high = 0, t_stack_words = 0,
     t_state = SCHEDULER_TASK_UNUSED, t_priority = SCHEDULER_PRIORITY_DEFAULT, t_wait_events = 0,
     t_wake_events = 0, t_deadline_ms = 0, t_deadline_active = False\<rparr>"

definition scheduler_init :: "scheduler \<Rightarrow> bool \<times> scheduler" where
  "scheduler_init s =
     (if ss_active s then (False, s)
      else (True, s\<lparr>ss_current_index := SCHEDULER_NO_TASK, ss_active := False, ss_completed_count := 0,
        ss_target_count := 0, ss_run_result := False, ss_preempt_enabled := False,
        ss_preempt_switch_count := 0, ss_pending_events := 0, ss_idle_wait_count := 0,
        ss_tasks := replicate SCHEDULER_TASK_COUNT unused_task\<rparr>))"

definition scheduler_is_active :: "scheduler \<Rightarrow> bool" where
  "scheduler_is_active s \<longleftrightarrow> ss_active s"

definition update_task :: "scheduler \<Rightarrow> nat \<Rightarrow> (scheduler_task \<Rightarrow> scheduler_task) \<Rightarrow> scheduler" where
  "update_task s index f = s\<lparr>ss_tasks := (ss_tasks s)[index := f (ss_tasks s ! index)]\<rparr>"

definition scheduler_task_priority_set :: "scheduler \<Rightarrow> nat \<Rightarrow> u32 \<Rightarrow> bool \<times> scheduler" where
  "scheduler_task_priority_set s index priority =
     (if index \<ge> SCHEDULER_TASK_COUNT \<or> priority > SCHEDULER_PRIORITY_LOWEST \<or> ss_active s then (False, s)
      else (True, update_task s index (\<lambda>t. t\<lparr>t_priority := priority\<rparr>)))"

definition scheduler_task_stack_bind :: "scheduler \<Rightarrow> nat \<Rightarrow> u32 \<Rightarrow> u32 \<Rightarrow> bool \<times> scheduler" where
  "scheduler_task_stack_bind s index stack_low stack_words =
     (if index \<ge> SCHEDULER_TASK_COUNT \<or> stack_low = 0 \<or> stack_words < SCHEDULER_INITIAL_FRAME_WORDS \<or> ss_active s
      then (False, s)
      else let stack_high = stack_low + 4 * stack_words in
        if stack_low AND 7 \<noteq> 0 \<or> stack_high AND 7 \<noteq> 0 then (False, s)
        else if t_state (ss_tasks s ! index) \<noteq> SCHEDULER_TASK_UNUSED then (False, s)
        else let s1 = update_task s index (\<lambda>t. t\<lparr>t_stack_low := stack_low, t_stack_high := stack_high,
                        t_saved_sp := stack_high, t_stack_words := stack_words, t_wait_events := 0,
                        t_wake_events := 0, t_deadline_ms := 0, t_deadline_active := False\<rparr>)
          in (True, s1\<lparr>ss_mem := stw_list (ss_mem s1) stack_low 0 (replicate (unat stack_words) SCHEDULER_STACK_FILL)\<rparr>))"

text \<open>The initial frame: \<open>r4\<close> to \<open>r11\<close>, then \<open>r0 r1 r2 r3 r12 lr pc xPSR\<close>.\<close>

definition initial_frame :: "u32 \<Rightarrow> u32 \<Rightarrow> u32 \<Rightarrow> u32 list" where
  "initial_frame trap entry argument = replicate 8 0 @ [argument, 0, 0, 0, 0, trap,
     scheduler_exception_pc_address entry, SCHEDULER_INITIAL_XPSR]"

definition scheduler_task_prepare :: "u32 \<Rightarrow> scheduler \<Rightarrow> nat \<Rightarrow> u32 \<Rightarrow> u32 \<Rightarrow> bool \<times> scheduler" where
  "scheduler_task_prepare trap s index entry argument =
     (if index \<ge> SCHEDULER_TASK_COUNT \<or> entry = 0 \<or> ss_active s then (False, s)
      else let task = ss_tasks s ! index in
        if t_stack_low task = 0 \<or> t_stack_high task = 0 \<or> t_stack_words task < SCHEDULER_INITIAL_FRAME_WORDS
           \<or> t_stack_high task AND 7 \<noteq> 0
        then (False, s)
        else let frame = t_stack_high task - SCHEDULER_FRAME_BYTES;
                 s1 = s\<lparr>ss_mem := stw_list (ss_mem s) frame 0 (initial_frame trap entry argument)\<rparr>
          in (True, update_task s1 index (\<lambda>t. t\<lparr>t_saved_sp := frame, t_state := SCHEDULER_TASK_READY,
                t_wait_events := 0, t_wake_events := 0, t_deadline_ms := 0, t_deadline_active := False\<rparr>)))"

definition scheduler_task_get :: "scheduler \<Rightarrow> nat \<Rightarrow> scheduler_task option" where
  "scheduler_task_get s index = (if index \<ge> SCHEDULER_TASK_COUNT then None else Some (ss_tasks s ! index))"

definition scheduler_validate_prepared_task ::
    "u32 \<Rightarrow> (u32 \<Rightarrow> u32) \<Rightarrow> scheduler_task \<Rightarrow> u32 \<Rightarrow> u32 \<Rightarrow> bool" where
  "scheduler_validate_prepared_task trap mem task entry argument \<longleftrightarrow>
     \<not> (t_state task \<noteq> SCHEDULER_TASK_READY \<or> t_stack_low task = 0 \<or> t_stack_high task = 0
        \<or> t_stack_words task \<noteq> SCHEDULER_TASK_STACK_WORDS
        \<or> t_saved_sp task \<noteq> t_stack_high task - SCHEDULER_FRAME_BYTES
        \<or> \<not> scheduler_frame_pointer_valid task (t_saved_sp task)
        \<or> ldw mem (t_stack_low task) 0 \<noteq> SCHEDULER_STACK_FILL
        \<or> t_wait_events task \<noteq> 0 \<or> t_wake_events task \<noteq> 0 \<or> t_deadline_active task
        \<or> t_priority task > SCHEDULER_PRIORITY_LOWEST)
     \<and> (let frame = t_saved_sp task in
        (\<forall>i < 8. ldw mem frame i = 0)
        \<and> ldw mem frame 8 = argument \<and> ldw mem frame 9 = 0 \<and> ldw mem frame 10 = 0
        \<and> ldw mem frame 11 = 0 \<and> ldw mem frame 12 = 0 \<and> ldw mem frame 13 = trap
        \<and> ldw mem frame 13 AND 1 \<noteq> 0
        \<and> ldw mem frame 14 = scheduler_exception_pc_address entry \<and> ldw mem frame 14 AND 1 = 0
        \<and> ldw mem frame 15 = SCHEDULER_INITIAL_XPSR)"

end
