(* ===== verification/Scheduler_Dispatch.thy ===== *)
theory Scheduler_Dispatch
  imports Scheduler
begin

unbundle bit_operations_syntax

text \<open>
  The scheduler's entry points: the SVC and PendSV dispatchers with their exception
  handlers, the host loop, event signalling, the tick, and the calls a task makes. A
  section between \<open>scheduler_irq_save\<close> and \<open>scheduler_irq_restore\<close> is one step. The
  number an early return gives is the pointer it returns; \<open>None\<close> falls through to the
  selection at the end of the dispatcher.
\<close>

section \<open>The SVC dispatcher\<close>

text \<open>From the host (\<open>exc_return\<close> bit 2 clear): start or resume the best ready task.\<close>

definition svc_from_host :: "scheduler \<Rightarrow> u32 \<Rightarrow> scheduler \<times> u32" where
  "svc_from_host s saved_sp =
     (if \<not> ss_active s \<or> ss_current_index s \<noteq> SCHEDULER_NO_TASK \<or> saved_sp \<noteq> 0 then (scheduler_abort_run s, 0)
      else let next_index = scheduler_find_next_ready s (SCHEDULER_TASK_COUNT - 1) in
        if next_index \<ge> SCHEDULER_TASK_COUNT then (scheduler_abort_run s, 0)
        else let next_task = ss_tasks s ! next_index in
          if \<not> scheduler_frame_pointer_valid next_task (t_saved_sp next_task) then (scheduler_abort_run s, 0)
          else (s\<lparr>ss_current_index := next_index\<rparr>, t_saved_sp next_task))"

definition save_current :: "scheduler \<Rightarrow> u32 \<Rightarrow> scheduler" where
  "save_current s saved_sp =
     scheduler_stack_record (update_task s (ss_current_index s) (\<lambda>t. t\<lparr>t_saved_sp := saved_sp\<rparr>)) (ss_current_index s)"

definition svc_yield :: "scheduler \<Rightarrow> u32 \<Rightarrow> scheduler" where
  "svc_yield s saved_sp = save_current s saved_sp"

definition svc_exit :: "scheduler \<Rightarrow> u32 \<Rightarrow> scheduler" where
  "svc_exit s saved_sp =
     (let s1 = update_task (save_current s saved_sp) (ss_current_index s) (\<lambda>t. t\<lparr>t_state := SCHEDULER_TASK_DONE,
            t_wait_events := 0, t_wake_events := 0, t_deadline_ms := 0, t_deadline_active := False\<rparr>)
      in s1\<lparr>ss_completed_count := ss_completed_count s1 + 1\<rparr>)"

text \<open>The current task gets its result in \<open>saved_sp[8]\<close> (\<open>r0\<close>) and goes on.\<close>

definition svc_resume_current :: "scheduler \<Rightarrow> u32 \<Rightarrow> u32 \<Rightarrow> u32 \<Rightarrow> scheduler" where
  "svc_resume_current s saved_sp woken r0 =
     (let s1 = update_task s (ss_current_index s) (\<lambda>t. t\<lparr>t_wait_events := 0, t_wake_events := woken,
            t_deadline_ms := 0, t_deadline_active := False\<rparr>)
      in s1\<lparr>ss_mem := stw (ss_mem s1) saved_sp 8 r0\<rparr>)"

definition svc_wait_events :: "scheduler \<Rightarrow> u32 \<Rightarrow> scheduler \<times> u32 option" where
  "svc_wait_events s saved_sp =
     (let requested_events = ldw (ss_mem s) saved_sp 8 in
      if requested_events = 0 then (scheduler_abort_run s, Some 0)
      else let s1 = save_current s saved_sp;
               matched_events = ss_pending_events s1 AND requested_events in
        if matched_events \<noteq> 0 then
          (svc_resume_current (s1\<lparr>ss_pending_events := ss_pending_events s1 AND NOT matched_events\<rparr>)
             saved_sp matched_events matched_events, Some saved_sp)
        else (update_task s1 (ss_current_index s) (\<lambda>t. t\<lparr>t_wait_events := requested_events, t_wake_events := 0,
                t_deadline_ms := 0, t_deadline_active := False, t_state := SCHEDULER_TASK_BLOCKED\<rparr>), None))"

definition svc_timed_block :: "scheduler \<Rightarrow> u32 \<Rightarrow> scheduler \<times> u32 option" where
  "svc_timed_block s saved_sp =
     (let requested_events = ldw (ss_mem s) saved_sp 8;
          timeout_ms = ldw (ss_mem s) saved_sp 9;
          s1 = save_current s saved_sp;
          matched_events = (if requested_events \<noteq> 0 then ss_pending_events s1 AND requested_events else 0)
      in if matched_events \<noteq> 0 then
          (svc_resume_current (s1\<lparr>ss_pending_events := ss_pending_events s1 AND NOT matched_events\<rparr>)
             saved_sp matched_events matched_events, Some saved_sp)
        else if timeout_ms = 0 then
          (svc_resume_current s1 saved_sp 0 (if requested_events = 0 then 1 else 0), Some saved_sp)
        else if timeout_ms > SCHEDULER_MAX_TIMEOUT_MS then
          (svc_resume_current s1 saved_sp 0 0, Some saved_sp)
        else (update_task s1 (ss_current_index s) (\<lambda>t. t\<lparr>t_wait_events := requested_events, t_wake_events := 0,
                t_deadline_ms := ss_now_ms s1 + timeout_ms, t_deadline_active := True,
                t_state := SCHEDULER_TASK_BLOCKED\<rparr>), None))"

text \<open>The end of the dispatcher: switch to the next ready task, or leave to the host.\<close>

definition svc_reschedule :: "scheduler \<Rightarrow> scheduler \<times> u32" where
  "svc_reschedule s =
     (let next_index = scheduler_find_next_ready s (ss_current_index s) in
      if next_index \<ge> SCHEDULER_TASK_COUNT then
        (let s1 = (scheduler_clear_pending_pendsv s)\<lparr>ss_current_index := SCHEDULER_NO_TASK\<rparr> in
         if ss_completed_count s1 = ss_target_count s1 then
           (s1\<lparr>ss_preempt_enabled := False, ss_active := False, ss_run_result := True\<rparr>, 0)
         else if \<not> scheduler_has_blocked_tasks s1 then (scheduler_abort_run s1, 0)
         else (s1, 0))
      else let next_task = ss_tasks s ! next_index in
        if \<not> scheduler_frame_pointer_valid next_task (t_saved_sp next_task) then (scheduler_abort_run s, 0)
        else (s\<lparr>ss_current_index := next_index\<rparr>, t_saved_sp next_task))"

definition scheduler_svc_dispatch :: "(u32 \<Rightarrow> u16) \<Rightarrow> scheduler \<Rightarrow> u32 \<Rightarrow> u32 \<Rightarrow> scheduler \<times> u32" where
  "scheduler_svc_dispatch code s saved_sp exc_return =
     (if exc_return AND 4 = 0 then svc_from_host s saved_sp
      else if \<not> ss_active s \<or> ss_current_index s \<ge> SCHEDULER_TASK_COUNT \<or> saved_sp = 0 then (scheduler_abort_run s, 0)
      else if \<not> scheduler_frame_pointer_valid (ss_tasks s ! ss_current_index s) saved_sp then (scheduler_abort_run s, 0)
      else let svc_number = scheduler_decode_svc_number code (ss_mem s) saved_sp in
        if svc_number = SCHEDULER_SVC_YIELD then svc_reschedule (svc_yield s saved_sp)
        else if svc_number = SCHEDULER_SVC_EXIT then svc_reschedule (svc_exit s saved_sp)
        else if svc_number = SCHEDULER_SVC_WAIT_EVENTS then
          (case svc_wait_events s saved_sp of (s', Some p) \<Rightarrow> (s', p) | (s', None) \<Rightarrow> svc_reschedule s')
        else if svc_number = SCHEDULER_SVC_TIMED_BLOCK then
          (case svc_timed_block s saved_sp of (s', Some p) \<Rightarrow> (s', p) | (s', None) \<Rightarrow> svc_reschedule s')
        else (scheduler_abort_run s, 0))"

section \<open>The PendSV dispatcher\<close>

definition scheduler_pendsv_dispatch :: "scheduler \<Rightarrow> u32 \<Rightarrow> scheduler \<times> u32" where
  "scheduler_pendsv_dispatch s saved_sp =
     (if \<not> ss_active s \<or> \<not> ss_preempt_enabled s \<or> ss_current_index s \<ge> SCHEDULER_TASK_COUNT \<or> saved_sp = 0
      then (scheduler_abort_run s, 0)
      else if \<not> scheduler_frame_pointer_valid (ss_tasks s ! ss_current_index s) saved_sp then (scheduler_abort_run s, 0)
      else let s1 = save_current s saved_sp;
               next_index = scheduler_find_next_ready s1 (ss_current_index s1) in
        if next_index \<ge> SCHEDULER_TASK_COUNT then (scheduler_abort_run s1, 0)
        else let next_task = ss_tasks s1 ! next_index in
          if \<not> scheduler_frame_pointer_valid next_task (t_saved_sp next_task) then (scheduler_abort_run s1, 0)
          else let s2 = (if next_index \<noteq> ss_current_index s1
                         then s1\<lparr>ss_preempt_switch_count := ss_preempt_switch_count s1 + 1\<rparr> else s1)
            in (s2\<lparr>ss_current_index := next_index\<rparr>, t_saved_sp next_task))"

section \<open>The exception handlers\<close>

text \<open>The registers the handlers move: \<open>r4\<close> to \<open>r11\<close>, the process stack pointer, the link register.\<close>

record cpu =
  cpu_r4_r11 :: "u32 list"
  cpu_psp :: u32
  cpu_lr :: u32

definition load_r4_r11 :: "(u32 \<Rightarrow> u32) \<Rightarrow> u32 \<Rightarrow> u32 list" where
  "load_r4_r11 mem p = map (ldw mem p) [0..<8]"

text \<open>\<open>r0\<close> after the dispatcher: resume the task whose frame it is, or return to the host.\<close>

definition exception_return :: "scheduler \<times> u32 \<Rightarrow> cpu \<Rightarrow> scheduler \<times> cpu" where
  "exception_return r c = (case r of (s, r0) \<Rightarrow>
     if r0 = 0 then (s, c\<lparr>cpu_r4_r11 := ss_host_r4_r11 s, cpu_lr := SCHEDULER_EXC_RETURN_THREAD_MSP\<rparr>)
     else (s, c\<lparr>cpu_r4_r11 := load_r4_r11 (ss_mem s) r0, cpu_psp := r0 + 32,
              cpu_lr := SCHEDULER_EXC_RETURN_THREAD_PSP\<rparr>))"

definition push_r4_r11 :: "scheduler \<Rightarrow> cpu \<Rightarrow> scheduler \<times> cpu" where
  "push_r4_r11 s c = (let r0 = cpu_psp c - 32 in
     (s\<lparr>ss_mem := stw_list (ss_mem s) r0 0 (cpu_r4_r11 c)\<rparr>, c\<lparr>cpu_psp := r0\<rparr>))"

definition PendSV_Handler :: "scheduler \<Rightarrow> cpu \<Rightarrow> scheduler \<times> cpu" where
  "PendSV_Handler s c =
     (if cpu_lr c AND 4 = 0 then (s, c)
      else case push_r4_r11 s c of (s1, c1) \<Rightarrow> exception_return (scheduler_pendsv_dispatch s1 (cpu_psp c1)) c1)"

definition SVC_Handler :: "(u32 \<Rightarrow> u16) \<Rightarrow> scheduler \<Rightarrow> cpu \<Rightarrow> scheduler \<times> cpu" where
  "SVC_Handler code s c =
     (if cpu_lr c AND 4 = 0 then
        exception_return (scheduler_svc_dispatch code (s\<lparr>ss_host_r4_r11 := cpu_r4_r11 c\<rparr>) 0 (cpu_lr c)) c
      else case push_r4_r11 s c of (s1, c1) \<Rightarrow>
        exception_return (scheduler_svc_dispatch code s1 (cpu_psp c1) (cpu_lr c1)) c1)"

section \<open>The host loop\<close>

text \<open>Up to the first \<open>svc #0\<close>. \<open>None\<close> is the return 0 before the run starts.\<close>

definition scheduler_start_prepare :: "scheduler \<Rightarrow> bool \<Rightarrow> scheduler \<times> bool" where
  "scheduler_start_prepare s preemptive =
     (if ss_active s then (s, False)
      else let s1 = scheduler_stack_telemetry_reset s;
               ready = filter (\<lambda>t. t_state t = SCHEDULER_TASK_READY) (take SCHEDULER_TASK_COUNT (ss_tasks s1)) in
        if \<exists>t \<in> set ready. \<not> scheduler_frame_pointer_valid t (t_saved_sp t) then (s1, False)
        else if ready = [] then (s1, False)
        else ((if preemptive then scheduler_configure_pendsv_priority s1 else s1)
             \<lparr>ss_current_index := SCHEDULER_NO_TASK, ss_completed_count := 0,
               ss_target_count := of_nat (length ready), ss_run_result := False,
               ss_preempt_enabled := preemptive, ss_preempt_switch_count := 0, ss_active := True\<rparr>, True))"

text \<open>What one iteration of the host's \<open>while\<close> loop decides.\<close>

datatype host_action = Host_Resume | Host_Park | Host_Stop

definition host_iteration :: "scheduler \<Rightarrow> scheduler \<times> host_action" where
  "host_iteration s =
     (if \<not> ss_active s then (s, Host_Stop)
      else if ss_current_index s \<noteq> SCHEDULER_NO_TASK then (scheduler_abort_run s, Host_Stop)
      else if scheduler_find_next_ready s (SCHEDULER_TASK_COUNT - 1) < SCHEDULER_TASK_COUNT then (s, Host_Resume)
      else if scheduler_has_blocked_tasks s then (s\<lparr>ss_idle_wait_count := ss_idle_wait_count s + 1\<rparr>, Host_Park)
      else (scheduler_abort_run s, Host_Stop))"

definition scheduler_start_result :: "scheduler \<Rightarrow> bool \<times> scheduler" where
  "scheduler_start_result s =
     (ss_current_index s = SCHEDULER_NO_TASK \<and> ss_run_result s, s\<lparr>ss_preempt_enabled := False\<rparr>)"

section \<open>Signals and ticks\<close>

text \<open>One task of the loops: its update, the stack it is told its result in, the bits it consumes.\<close>

definition signal_wakes :: "u32 \<Rightarrow> scheduler_task \<Rightarrow> bool" where
  "signal_wakes pending t \<longleftrightarrow> t_state t = SCHEDULER_TASK_BLOCKED \<and> t_wait_events t AND pending \<noteq> 0"

definition signal_task :: "scheduler \<times> u32 \<times> bool \<Rightarrow> nat \<Rightarrow> scheduler \<times> u32 \<times> bool" where
  "signal_task st index = (case st of (s, consumed, woke) \<Rightarrow>
     let t = ss_tasks s ! index; matched = t_wait_events t AND ss_pending_events s in
     if signal_wakes (ss_pending_events s) t then
       (let s1 = s\<lparr>ss_mem := stw (ss_mem s) (t_saved_sp t) 8 matched\<rparr> in
        (update_task s1 index (\<lambda>t. t\<lparr>t_wait_events := 0, t_wake_events := matched, t_deadline_ms := 0,
           t_deadline_active := False, t_state := SCHEDULER_TASK_READY\<rparr>), consumed OR matched, True))
     else st)"

definition scheduler_event_signal :: "scheduler \<Rightarrow> u32 \<Rightarrow> scheduler" where
  "scheduler_event_signal s events =
     (if events = 0 then s
      else if \<not> ss_active s then s
      else case foldl signal_task (s\<lparr>ss_pending_events := ss_pending_events s OR events\<rparr>, 0, False)
                  [0..<SCHEDULER_TASK_COUNT] of
        (s1, consumed, woke) \<Rightarrow>
          let s2 = s1\<lparr>ss_pending_events := ss_pending_events s1 AND NOT consumed\<rparr>;
              s3 = (if woke \<and> ss_preempt_enabled s2 \<and> ss_current_index s2 < SCHEDULER_TASK_COUNT
                    then s2\<lparr>ss_pendsv := True\<rparr> else s2)
          in s3\<lparr>ss_event_register := True\<rparr>)"

definition tick_wakes :: "u32 \<Rightarrow> scheduler_task \<Rightarrow> bool" where
  "tick_wakes now_ms t \<longleftrightarrow> t_state t = SCHEDULER_TASK_BLOCKED \<and> t_deadline_active t
     \<and> scheduler_time_reached now_ms (t_deadline_ms t)"

definition tick_task :: "u32 \<Rightarrow> scheduler \<times> bool \<Rightarrow> nat \<Rightarrow> scheduler \<times> bool" where
  "tick_task now_ms st index = (case st of (s, woke) \<Rightarrow>
     let t = ss_tasks s ! index; sleep_wait = (if t_wait_events t = 0 then 1 else 0) in
     if tick_wakes now_ms t then
       (let s1 = s\<lparr>ss_mem := stw (ss_mem s) (t_saved_sp t) 8 sleep_wait\<rparr> in
        (update_task s1 index (\<lambda>t. t\<lparr>t_wait_events := 0, t_wake_events := 0, t_deadline_ms := 0,
           t_deadline_active := False, t_state := SCHEDULER_TASK_READY\<rparr>), True))
     else st)"

definition scheduler_tick :: "scheduler \<Rightarrow> u32 \<Rightarrow> scheduler" where
  "scheduler_tick s now_ms =
     (let s0 = s\<lparr>ss_now_ms := now_ms\<rparr> in
      case (if ss_active s0 then foldl (tick_task now_ms) (s0, False) [0..<SCHEDULER_TASK_COUNT] else (s0, False)) of
        (s1, woke) \<Rightarrow>
          let s2 = (if ss_active s1 \<and> ss_preempt_enabled s1 \<and> ss_current_index s1 < SCHEDULER_TASK_COUNT
                    then s1\<lparr>ss_pendsv := True\<rparr> else s1)
          in if woke then s2\<lparr>ss_event_register := True\<rparr> else s2)"

section \<open>The calls of a task\<close>

text \<open>A call either returns at once or executes an SVC with \<open>r0\<close> and \<open>r1\<close>.\<close>

datatype task_call = Return u32 | Svc u32 u32 u32

definition scheduler_wait_events :: "u32 \<Rightarrow> task_call" where
  "scheduler_wait_events events = (if events = 0 then Return 0 else Svc SCHEDULER_SVC_WAIT_EVENTS events 0)"

definition scheduler_wait_events_timeout :: "u32 \<Rightarrow> u32 \<Rightarrow> task_call" where
  "scheduler_wait_events_timeout events timeout_ms =
     (if events = 0 \<or> timeout_ms > SCHEDULER_MAX_TIMEOUT_MS then Return 0
      else Svc SCHEDULER_SVC_TIMED_BLOCK events timeout_ms)"

text \<open>The result 0 or not 0 of the SVC is returned as 0 or 1.\<close>

definition scheduler_sleep_ms :: "u32 \<Rightarrow> task_call" where
  "scheduler_sleep_ms duration_ms =
     (if duration_ms = 0 then Return 1
      else if duration_ms > SCHEDULER_MAX_TIMEOUT_MS then Return 0
      else Svc SCHEDULER_SVC_TIMED_BLOCK 0 duration_ms)"

definition scheduler_yield :: task_call where
  "scheduler_yield = Svc SCHEDULER_SVC_YIELD 0 0"

section \<open>Telemetry\<close>

definition scheduler_preempt_switch_count_get :: "scheduler \<Rightarrow> u32" where
  "scheduler_preempt_switch_count_get s = ss_preempt_switch_count s"

definition scheduler_idle_wait_count_get :: "scheduler \<Rightarrow> u32" where
  "scheduler_idle_wait_count_get s = ss_idle_wait_count s"

definition scheduler_stack_high_water_bytes :: "scheduler \<Rightarrow> nat \<Rightarrow> u32" where
  "scheduler_stack_high_water_bytes s index =
     (if index \<ge> SCHEDULER_TASK_COUNT then 0 else ss_stack_high_water_words s ! index * 4)"

definition scheduler_stack_capacity_bytes :: "scheduler \<Rightarrow> nat \<Rightarrow> u32" where
  "scheduler_stack_capacity_bytes s index =
     (if index \<ge> SCHEDULER_TASK_COUNT then 0 else t_stack_words (ss_tasks s ! index) * 4)"

definition scheduler_stack_canary_intact :: "scheduler \<Rightarrow> nat \<Rightarrow> bool" where
  "scheduler_stack_canary_intact s index =
     (if index \<ge> SCHEDULER_TASK_COUNT then False else \<not> ss_stack_canary_exhausted s ! index)"

end
