(* ===== verification/Scheduler_Run.thy ===== *)
theory Scheduler_Run
  imports Scheduler_Dispatch
begin

unbundle bit_operations_syntax

text \<open>
  A scheduler run as a transition system: the steps tasks, interrupts and the host loop
  take, the run's invariant, and what selection and waking do.
\<close>

section \<open>Selection\<close>

lemma two_tasks: "length tasks = 2 \<Longrightarrow> tasks = [tasks ! 0, tasks ! 1]"
  by (rule list_2_conv)

lemma select_pair:
  "scheduler_select_next_ready [a, b] after =
    (let i = (after + 1) mod 2; j = (after + 2) mod 2; x = [a, b] ! i; y = [a, b] ! j;
         rx = (t_state x = SCHEDULER_TASK_READY \<and> t_priority x < 256);
         ry = (t_state y = SCHEDULER_TASK_READY \<and> t_priority y < 256)
     in if rx then (if ry \<and> t_priority y < t_priority x then j else i) else if ry then j else 2)"
  by (auto simp: scheduler_select_next_ready_def select_step_def Let_def upt_rec numeral_eq_Suc)

text \<open>The task at \<open>i\<close> may run.\<close>

definition is_ready :: "scheduler_task list \<Rightarrow> nat \<Rightarrow> bool" where
  "is_ready tasks i \<longleftrightarrow> i < 2 \<and> t_state (tasks ! i) = SCHEDULER_TASK_READY"

definition priorities_ok :: "scheduler_task list \<Rightarrow> bool" where
  "priorities_ok tasks \<longleftrightarrow> (\<forall>t \<in> set tasks. t_priority t \<le> SCHEDULER_PRIORITY_LOWEST)"

lemma prio_lt: "(x :: u32) \<le> 255 \<Longrightarrow> x < 256"
  by (simp add: word_le_nat_alt word_less_nat_alt)

lemma select_spec:
  assumes len: "length tasks = 2" and p: "priorities_ok tasks"
  shows "(scheduler_select_next_ready tasks after = 2 \<longleftrightarrow> (\<forall>i. \<not> is_ready tasks i))
    \<and> (\<forall>r. scheduler_select_next_ready tasks after = r \<and> r < 2 \<longrightarrow> is_ready tasks r
        \<and> (\<forall>i. is_ready tasks i \<longrightarrow> t_priority (tasks ! r) \<le> t_priority (tasks ! i)
            \<and> (i \<noteq> r \<and> t_priority (tasks ! i) = t_priority (tasks ! r) \<longrightarrow> r \<noteq> after mod 2)))
    \<and> scheduler_select_next_ready tasks after \<le> 2"
proof -
  obtain a b where ab: "tasks = [a, b]" using two_tasks[OF len] by blast
  have pr: "t_priority a < 256" "t_priority b < 256" using p ab by (auto simp: priorities_ok_def intro: prio_lt)
  have all2: "(\<forall>i. is_ready tasks i \<longrightarrow> Q i) \<longleftrightarrow> (is_ready tasks 0 \<longrightarrow> Q 0) \<and> (is_ready tasks 1 \<longrightarrow> Q 1)" for Q
    by (metis is_ready_def less_2_cases One_nat_def)
  have none2: "(\<forall>i. \<not> is_ready tasks i) \<longleftrightarrow> \<not> is_ready tasks 0 \<and> \<not> is_ready tasks 1"
    by (metis is_ready_def less_2_cases One_nat_def)
  have m: "after mod 2 = 0 \<and> (after + 1) mod 2 = 1 \<and> (after + 2) mod 2 = 0
    \<or> after mod 2 = 1 \<and> (after + 1) mod 2 = 0 \<and> (after + 2) mod 2 = 1" by presburger
  have r0: "is_ready tasks 0 \<longleftrightarrow> t_state a = SCHEDULER_TASK_READY" "is_ready tasks 1 \<longleftrightarrow> t_state b = SCHEDULER_TASK_READY"
    "\<And>i. 2 \<le> i \<Longrightarrow> \<not> is_ready tasks i" by (simp_all add: is_ready_def ab)
  have sel: "scheduler_select_next_ready tasks after =
      (if after mod 2 = 0 then
        (if t_state b = SCHEDULER_TASK_READY then (if t_state a = SCHEDULER_TASK_READY \<and> t_priority a < t_priority b then 0 else 1)
         else if t_state a = SCHEDULER_TASK_READY then 0 else 2)
       else
        (if t_state a = SCHEDULER_TASK_READY then (if t_state b = SCHEDULER_TASK_READY \<and> t_priority b < t_priority a then 1 else 0)
         else if t_state b = SCHEDULER_TASK_READY then 1 else 2))"
    using m pr unfolding ab select_pair Let_def by auto
  show ?thesis
    unfolding all2 none2 unfolding sel unfolding r0 using m
    by (auto simp: ab is_ready_def)
qed

section \<open>The invariant of a run\<close>

definition live :: "scheduler_task \<Rightarrow> bool" where
  "live t \<longleftrightarrow> t_state t = SCHEDULER_TASK_READY \<or> t_state t = SCHEDULER_TASK_BLOCKED"

definition live_count :: "scheduler_task list \<Rightarrow> nat" where
  "live_count tasks = length (filter live tasks)"

text \<open>
  A live task has a valid saved frame; a blocked task waits for events of which none is
  pending, or for a deadline.
\<close>

definition task_ok :: "u32 \<Rightarrow> scheduler_task \<Rightarrow> bool" where
  "task_ok pending t \<longleftrightarrow> t_priority t \<le> SCHEDULER_PRIORITY_LOWEST
     \<and> (live t \<longrightarrow> scheduler_frame_pointer_valid t (t_saved_sp t))
     \<and> (t_state t = SCHEDULER_TASK_BLOCKED \<longrightarrow>
          t_wait_events t AND pending = 0 \<and> (t_wait_events t \<noteq> 0 \<or> t_deadline_active t))"

definition tasks_ok :: "scheduler \<Rightarrow> bool" where
  "tasks_ok s \<longleftrightarrow> length (ss_tasks s) = SCHEDULER_TASK_COUNT \<and> (\<forall>t \<in> set (ss_tasks s). task_ok (ss_pending_events s) t)
     \<and> unat (ss_completed_count s) + live_count (ss_tasks s) = unat (ss_target_count s)"

definition running :: "scheduler \<Rightarrow> bool" where
  "running s \<longleftrightarrow> ss_active s \<and> tasks_ok s \<and> live_count (ss_tasks s) > 0
     \<and> (ss_current_index s = SCHEDULER_NO_TASK \<or> is_ready (ss_tasks s) (ss_current_index s))"

definition finished :: "scheduler \<Rightarrow> bool" where
  "finished s \<longleftrightarrow> \<not> ss_active s \<and> ss_run_result s \<and> ss_current_index s = SCHEDULER_NO_TASK
     \<and> length (ss_tasks s) = SCHEDULER_TASK_COUNT \<and> live_count (ss_tasks s) = 0
     \<and> ss_completed_count s = ss_target_count s"

subsection \<open>What the operations touch\<close>

lemma save_current_simps [simp]:
  "ss_tasks (save_current s sp) = (ss_tasks s)[ss_current_index s := (ss_tasks s ! ss_current_index s)\<lparr>t_saved_sp := sp\<rparr>]"
  "ss_current_index (save_current s sp) = ss_current_index s" "ss_active (save_current s sp) = ss_active s"
  "ss_completed_count (save_current s sp) = ss_completed_count s" "ss_target_count (save_current s sp) = ss_target_count s"
  "ss_pending_events (save_current s sp) = ss_pending_events s" "ss_mem (save_current s sp) = ss_mem s"
  "ss_preempt_enabled (save_current s sp) = ss_preempt_enabled s" "ss_now_ms (save_current s sp) = ss_now_ms s"
  by (simp_all add: save_current_def scheduler_stack_record_def update_task_def Let_def)

lemma frame_valid_fields [simp]:
  "scheduler_frame_pointer_valid (t\<lparr>t_saved_sp := a\<rparr>) p = scheduler_frame_pointer_valid t p"
  "scheduler_frame_pointer_valid (t\<lparr>t_state := st\<rparr>) p = scheduler_frame_pointer_valid t p"
  "scheduler_frame_pointer_valid (t\<lparr>t_wait_events := w\<rparr>) p = scheduler_frame_pointer_valid t p"
  "scheduler_frame_pointer_valid (t\<lparr>t_wake_events := w\<rparr>) p = scheduler_frame_pointer_valid t p"
  "scheduler_frame_pointer_valid (t\<lparr>t_deadline_ms := w\<rparr>) p = scheduler_frame_pointer_valid t p"
  "scheduler_frame_pointer_valid (t\<lparr>t_deadline_active := d\<rparr>) p = scheduler_frame_pointer_valid t p"
  by (simp_all add: scheduler_frame_pointer_valid_def)

lemma is_ready_bound: "is_ready tasks i \<Longrightarrow> i < 2"
  by (simp add: is_ready_def)

lemma live_count_update:
  "i < length tasks \<Longrightarrow> live (tasks ! i) \<Longrightarrow>
   live_count (tasks[i := t]) = live_count tasks - (if live t then 0 else 1) \<and> live_count tasks > 0"
proof (induction tasks arbitrary: i)
  case (Cons x xs)
  show ?case
  proof (cases i)
    case 0 with Cons.prems show ?thesis by (simp add: live_count_def)
  next
    case (Suc j)
    with Cons.IH[of j] Cons.prems show ?thesis by (cases "live x") (auto simp: live_count_def)
  qed
qed simp

lemma live_count_zero: "live_count tasks = 0 \<longleftrightarrow> (\<forall>t \<in> set tasks. \<not> live t)"
  by (simp add: live_count_def filter_empty_conv)

text \<open>Replacing the current task's entry keeps \<open>tasks_ok\<close> up to the completed count.\<close>

lemma tasks_ok_update:
  assumes "tasks_ok s" "i < 2" "live (ss_tasks s ! i)" "task_ok (ss_pending_events s) t"
    and "ss_tasks s' = (ss_tasks s)[i := t]" "ss_pending_events s' = ss_pending_events s"
    and "ss_target_count s' = ss_target_count s"
    and "unat (ss_completed_count s') = unat (ss_completed_count s) + (if live t then 0 else 1)"
  shows "tasks_ok s'"
  using assms live_count_update[of i "ss_tasks s" t]
  by (auto simp: tasks_ok_def dest!: set_update_subset_insert[THEN subsetD])

subsection \<open>Rescheduling\<close>

lemma find_ready_spec:
  assumes "tasks_ok s"
  shows "scheduler_find_next_ready s after = 2 \<longleftrightarrow> (\<forall>i. \<not> is_ready (ss_tasks s) i)"
    "scheduler_find_next_ready s after \<le> 2"
    "scheduler_find_next_ready s after < 2 \<Longrightarrow> is_ready (ss_tasks s) (scheduler_find_next_ready s after)"
proof -
  have "length (ss_tasks s) = 2" "priorities_ok (ss_tasks s)"
    using assms by (auto simp: tasks_ok_def priorities_ok_def task_ok_def)
  from select_spec[OF this, of after]
  show "scheduler_find_next_ready s after = 2 \<longleftrightarrow> (\<forall>i. \<not> is_ready (ss_tasks s) i)"
    "scheduler_find_next_ready s after \<le> 2"
    "scheduler_find_next_ready s after < 2 \<Longrightarrow> is_ready (ss_tasks s) (scheduler_find_next_ready s after)"
    unfolding scheduler_find_next_ready_def by blast+
qed

lemma ready_frame:
  "tasks_ok s \<Longrightarrow> is_ready (ss_tasks s) i
   \<Longrightarrow> scheduler_frame_pointer_valid (ss_tasks s ! i) (t_saved_sp (ss_tasks s ! i)) \<and> live (ss_tasks s ! i)"
  by (simp add: tasks_ok_def is_ready_def task_ok_def live_def)

lemma ready_live_count: "tasks_ok s \<Longrightarrow> is_ready (ss_tasks s) i \<Longrightarrow> live_count (ss_tasks s) > 0"
  by (metis ready_frame is_ready_def live_count_zero nth_mem neq0_conv tasks_ok_def)

lemma running_switch:
  assumes "tasks_ok s" "ss_active s" "is_ready (ss_tasks s) i" "ss_tasks s' = ss_tasks s"
    "ss_pending_events s' = ss_pending_events s" "ss_completed_count s' = ss_completed_count s"
    "ss_target_count s' = ss_target_count s" "ss_active s'" "ss_current_index s' = i"
  shows "running s'"
  using assms ready_live_count[OF assms(1,3)] by (simp add: running_def tasks_ok_def)

lemma blocked_iff:
  assumes "tasks_ok s" "\<forall>i. \<not> is_ready (ss_tasks s) i"
  shows "scheduler_has_blocked_tasks s \<longleftrightarrow> live_count (ss_tasks s) > 0"
proof -
  have "t_state t \<noteq> SCHEDULER_TASK_READY" if "t \<in> set (ss_tasks s)" for t
    using that assms by (auto simp: tasks_ok_def is_ready_def in_set_conv_nth)
  then show ?thesis
    using assms(1) live_count_zero[of "ss_tasks s"]
    by (auto simp: scheduler_has_blocked_tasks_def tasks_ok_def live_def)
qed

lemma reschedule_running:
  assumes ok: "tasks_ok s" and act: "ss_active s"
  shows "running (fst (svc_reschedule s)) \<or> finished (fst (svc_reschedule s))"
proof (cases "scheduler_find_next_ready s (ss_current_index s) < 2")
  case True
  let ?i = "scheduler_find_next_ready s (ss_current_index s)"
  from find_ready_spec(3)[OF ok True] have r: "is_ready (ss_tasks s) ?i" .
  have "svc_reschedule s = (s\<lparr>ss_current_index := ?i\<rparr>, t_saved_sp (ss_tasks s ! ?i))"
    using True ready_frame[OF ok r] by (simp add: svc_reschedule_def Let_def)
  then show ?thesis using running_switch[OF ok act r] act by simp
next
  case False
  with find_ready_spec(1,2)[OF ok, of "ss_current_index s"] have none: "\<forall>i. \<not> is_ready (ss_tasks s) i"
    by (meson le_neq_implies_less)
  let ?s1 = "(scheduler_clear_pending_pendsv s)\<lparr>ss_current_index := 2\<rparr>"
  have same: "scheduler_has_blocked_tasks ?s1 = scheduler_has_blocked_tasks s" "ss_tasks ?s1 = ss_tasks s"
    by (simp_all add: scheduler_has_blocked_tasks_def scheduler_clear_pending_pendsv_def)
  have len: "length (ss_tasks s) = 2" using ok by (simp add: tasks_ok_def)
  have done_iff: "ss_completed_count s = ss_target_count s \<longleftrightarrow> live_count (ss_tasks s) = 0"
    using ok by (auto simp: tasks_ok_def word_unat_eq_iff)
  have flds: "ss_completed_count ?s1 = ss_completed_count s" "ss_target_count ?s1 = ss_target_count s"
    "ss_active ?s1 = ss_active s" "ss_current_index ?s1 = 2" "ss_pending_events ?s1 = ss_pending_events s"
    by (simp_all add: scheduler_clear_pending_pendsv_def)
  have eq: "svc_reschedule s = (if live_count (ss_tasks s) = 0
      then (?s1\<lparr>ss_preempt_enabled := False, ss_active := False, ss_run_result := True\<rparr>, 0) else (?s1, 0))"
    using False blocked_iff[OF ok none] same done_iff
    unfolding svc_reschedule_def Let_def flds by (simp add: not_less)
  show ?thesis
  proof (cases "live_count (ss_tasks s) = 0")
    case True
    then show ?thesis using eq same flds len done_iff by (simp add: finished_def)
  next
    case False
    then show ?thesis using eq same flds ok act by (simp add: running_def tasks_ok_def)
  qed
qed

section \<open>Signals and ticks, task by task\<close>

definition signal_woken :: "u32 \<Rightarrow> scheduler_task \<Rightarrow> scheduler_task" where
  "signal_woken pending t = (if signal_wakes pending t
     then t\<lparr>t_wait_events := 0, t_wake_events := t_wait_events t AND pending, t_deadline_ms := 0,
            t_deadline_active := False, t_state := SCHEDULER_TASK_READY\<rparr> else t)"

definition signal_match :: "u32 \<Rightarrow> scheduler_task \<Rightarrow> u32" where
  "signal_match pending t = (if signal_wakes pending t then t_wait_events t AND pending else 0)"

definition tick_woken :: "u32 \<Rightarrow> scheduler_task \<Rightarrow> scheduler_task" where
  "tick_woken now_ms t = (if tick_wakes now_ms t
     then t\<lparr>t_wait_events := 0, t_wake_events := 0, t_deadline_ms := 0, t_deadline_active := False,
            t_state := SCHEDULER_TASK_READY\<rparr> else t)"

text \<open>The word a woken task finds in \<open>r0\<close>.\<close>

definition wake_store :: "(u32 \<Rightarrow> u32) \<Rightarrow> bool \<Rightarrow> scheduler_task \<Rightarrow> u32 \<Rightarrow> (u32 \<Rightarrow> u32)" where
  "wake_store mem wakes t v = (if wakes then stw mem (t_saved_sp t) 8 v else mem)"

lemma upt_0_2: "[0..<2] = [0, 1 :: nat]"
  by (simp add: upt_rec)

lemma event_signal_fields:
  assumes len: "length (ss_tasks s) = 2" and a: "ss_active s" "events \<noteq> 0"
  defines "P \<equiv> ss_pending_events s OR events" and "x \<equiv> ss_tasks s ! 0" and "y \<equiv> ss_tasks s ! 1"
    and "s' \<equiv> scheduler_event_signal s events"
  shows "ss_tasks s' = map (signal_woken P) (ss_tasks s)"
    "ss_pending_events s' = P AND NOT (signal_match P x OR signal_match P y)"
    "ss_mem s' = wake_store (wake_store (ss_mem s) (signal_wakes P x) x (signal_match P x))
        (signal_wakes P y) y (signal_match P y)"
    "ss_active s'" "ss_current_index s' = ss_current_index s" "ss_completed_count s' = ss_completed_count s"
    "ss_target_count s' = ss_target_count s" "ss_preempt_enabled s' = ss_preempt_enabled s"
    "ss_pendsv s' \<longleftrightarrow> ss_pendsv s \<or> ((signal_wakes P x \<or> signal_wakes P y) \<and> ss_preempt_enabled s \<and> ss_current_index s < 2)"
    "ss_event_register s'"
proof -
  have xy: "ss_tasks s = [x, y]" using two_tasks[OF len] unfolding x_def y_def .
  have eq: "s' = (let s2 = s\<lparr>ss_mem := wake_store (wake_store (ss_mem s) (signal_wakes P x) x (signal_match P x))
        (signal_wakes P y) y (signal_match P y), ss_tasks := [signal_woken P x, signal_woken P y],
        ss_pending_events := P AND NOT (signal_match P x OR signal_match P y)\<rparr>
      in (if (signal_wakes P x \<or> signal_wakes P y) \<and> ss_preempt_enabled s \<and> ss_current_index s < 2
          then s2\<lparr>ss_pendsv := True\<rparr> else s2)\<lparr>ss_event_register := True\<rparr>)"
    using a unfolding s'_def scheduler_event_signal_def upt_0_2 foldl.simps P_def[symmetric]
    by (simp add: signal_task_def xy update_task_def Let_def signal_woken_def signal_match_def wake_store_def)
  show "ss_tasks s' = map (signal_woken P) (ss_tasks s)"
    "ss_pending_events s' = P AND NOT (signal_match P x OR signal_match P y)"
    "ss_mem s' = wake_store (wake_store (ss_mem s) (signal_wakes P x) x (signal_match P x))
        (signal_wakes P y) y (signal_match P y)"
    "ss_active s'" "ss_current_index s' = ss_current_index s" "ss_completed_count s' = ss_completed_count s"
    "ss_target_count s' = ss_target_count s" "ss_preempt_enabled s' = ss_preempt_enabled s"
    "ss_pendsv s' \<longleftrightarrow> ss_pendsv s \<or> ((signal_wakes P x \<or> signal_wakes P y) \<and> ss_preempt_enabled s \<and> ss_current_index s < 2)"
    "ss_event_register s'"
    using a(1) unfolding eq Let_def by (auto simp: xy)
qed

lemma tick_fields:
  fixes now_ms :: u32
  assumes len: "length (ss_tasks s) = 2" and a: "ss_active s"
  defines "x \<equiv> ss_tasks s ! 0" and "y \<equiv> ss_tasks s ! 1" and "s' \<equiv> scheduler_tick s now_ms"
  shows "ss_tasks s' = map (tick_woken now_ms) (ss_tasks s)"
    "ss_mem s' = wake_store (wake_store (ss_mem s) (tick_wakes now_ms x) x (if t_wait_events x = 0 then 1 else 0))
        (tick_wakes now_ms y) y (if t_wait_events y = 0 then 1 else 0)"
    "ss_active s'" "ss_current_index s' = ss_current_index s" "ss_completed_count s' = ss_completed_count s"
    "ss_target_count s' = ss_target_count s" "ss_preempt_enabled s' = ss_preempt_enabled s"
    "ss_pending_events s' = ss_pending_events s" "ss_now_ms s' = now_ms"
    "ss_pendsv s' \<longleftrightarrow> ss_pendsv s \<or> (ss_preempt_enabled s \<and> ss_current_index s < 2)"
proof -
  have xy: "ss_tasks s = [x, y]" using two_tasks[OF len] unfolding x_def y_def .
  have eq: "s' = (let s1 = s\<lparr>ss_now_ms := now_ms, ss_mem := wake_store (wake_store (ss_mem s) (tick_wakes now_ms x) x
          (if t_wait_events x = 0 then 1 else 0)) (tick_wakes now_ms y) y (if t_wait_events y = 0 then 1 else 0),
        ss_tasks := [tick_woken now_ms x, tick_woken now_ms y]\<rparr>;
        s2 = (if ss_preempt_enabled s \<and> ss_current_index s < 2 then s1\<lparr>ss_pendsv := True\<rparr> else s1)
      in if tick_wakes now_ms x \<or> tick_wakes now_ms y then s2\<lparr>ss_event_register := True\<rparr> else s2)"
    using a unfolding s'_def scheduler_tick_def upt_0_2 foldl.simps
    by (simp add: tick_task_def xy update_task_def Let_def tick_woken_def wake_store_def)
  show "ss_tasks s' = map (tick_woken now_ms) (ss_tasks s)"
    "ss_mem s' = wake_store (wake_store (ss_mem s) (tick_wakes now_ms x) x (if t_wait_events x = 0 then 1 else 0))
        (tick_wakes now_ms y) y (if t_wait_events y = 0 then 1 else 0)"
    "ss_active s'" "ss_current_index s' = ss_current_index s" "ss_completed_count s' = ss_completed_count s"
    "ss_target_count s' = ss_target_count s" "ss_preempt_enabled s' = ss_preempt_enabled s"
    "ss_pending_events s' = ss_pending_events s" "ss_now_ms s' = now_ms"
    "ss_pendsv s' \<longleftrightarrow> ss_pendsv s \<or> (ss_preempt_enabled s \<and> ss_current_index s < 2)"
    using a unfolding eq Let_def by (auto simp: xy)
qed

lemma live_woken: "live (signal_woken p t) = live t" "live (tick_woken n t) = live t"
  by (auto simp: live_def signal_woken_def signal_wakes_def tick_woken_def tick_wakes_def)

lemma live_count_map: "(\<And>t. live (f t) = live t) \<Longrightarrow> live_count (map f tasks) = live_count tasks"
  by (induction tasks) (auto simp: live_count_def)

lemma and_subset_zero: "(w :: u32) AND p = 0 \<Longrightarrow> w AND (p AND NOT c) = 0"
  by (simp add: and.assoc[symmetric])

lemma signal_task_ok:
  "task_ok q t \<Longrightarrow> task_ok (P AND NOT c) (signal_woken P t)"
  by (auto simp: task_ok_def signal_woken_def signal_wakes_def live_def and_subset_zero)

lemma tick_task_ok: "task_ok p t \<Longrightarrow> task_ok p (tick_woken n t)"
  by (auto simp: task_ok_def tick_woken_def tick_wakes_def live_def)

lemma signal_ready: "is_ready tasks i \<Longrightarrow> i < length tasks \<Longrightarrow> is_ready (map (signal_woken P) tasks) i"
  "is_ready tasks i \<Longrightarrow> i < length tasks \<Longrightarrow> is_ready (map (tick_woken n) tasks) i"
  by (auto simp: is_ready_def signal_woken_def signal_wakes_def tick_woken_def tick_wakes_def)

lemma signal_running:
  assumes r: "running s"
  shows "running (scheduler_event_signal s events)"
proof (cases "events = 0")
  case True
  with r show ?thesis by (simp add: scheduler_event_signal_def)
next
  case False
  have len: "length (ss_tasks s) = 2" and act: "ss_active s" using r by (simp_all add: running_def tasks_ok_def)
  note F = event_signal_fields[OF len act False]
  have "\<forall>t \<in> set (ss_tasks s). task_ok (P AND NOT c) (signal_woken P t)" for P c
    using r by (auto simp: running_def tasks_ok_def intro: signal_task_ok)
  then show ?thesis
    using r F(4) signal_ready(1)[of "ss_tasks s" "ss_current_index s"] is_ready_bound[of "ss_tasks s" "ss_current_index s"]
    unfolding running_def tasks_ok_def F by (auto simp: live_count_map live_woken simp del: bit.de_Morgan_disj)
qed

lemma tick_running:
  assumes r: "running s"
  shows "running (scheduler_tick s now_ms)"
proof -
  have len: "length (ss_tasks s) = 2" and act: "ss_active s" using r by (simp_all add: running_def tasks_ok_def)
  note F = tick_fields[OF len act]
  show ?thesis
    using r signal_ready(2)[of "ss_tasks s" "ss_current_index s"] is_ready_bound[of "ss_tasks s" "ss_current_index s"]
    by (auto simp: running_def tasks_ok_def F live_count_map live_woken intro: tick_task_ok)
qed

section \<open>The steps of a run\<close>

text \<open>
  Between entries the current task runs: it may change any memory but the stacks of the
  other tasks. An SVC comes from a call of
  the task interface, so its number is one of the four, and \<open>WAIT_EVENTS\<close> has a
  non-zero mask (\<open>scheduler_wait_events\<close> returns before the SVC otherwise).
\<close>

definition in_stack :: "scheduler_task \<Rightarrow> u32 \<Rightarrow> bool" where
  "in_stack t a \<longleftrightarrow> t_stack_low t \<le> a \<and> a < t_stack_high t"

definition keeps_other_stacks :: "scheduler \<Rightarrow> (u32 \<Rightarrow> u32) \<Rightarrow> bool" where
  "keeps_other_stacks s mem \<longleftrightarrow>
     (\<forall>i a. i < 2 \<and> i \<noteq> ss_current_index s \<and> in_stack (ss_tasks s ! i) a \<longrightarrow> mem a = ss_mem s a)"

inductive sched_step :: "(u32 \<Rightarrow> u16) \<Rightarrow> scheduler \<Rightarrow> scheduler \<Rightarrow> bool" for code where
  task_runs: "ss_current_index s < 2 \<Longrightarrow> keeps_other_stacks s mem \<Longrightarrow> sched_step code s (s\<lparr>ss_mem := mem\<rparr>)"
| task_svc: "ss_current_index s < 2 \<Longrightarrow> scheduler_frame_pointer_valid (ss_tasks s ! ss_current_index s) sp
    \<Longrightarrow> scheduler_decode_svc_number code (ss_mem s) sp \<in> {1, 2, 3, 4}
    \<Longrightarrow> scheduler_decode_svc_number code (ss_mem s) sp = 3 \<longrightarrow> ldw (ss_mem s) sp 8 \<noteq> 0
    \<Longrightarrow> lr AND 4 \<noteq> 0 \<Longrightarrow> sched_step code s (fst (scheduler_svc_dispatch code s sp lr))"
| pendsv: "ss_current_index s < 2 \<Longrightarrow> scheduler_frame_pointer_valid (ss_tasks s ! ss_current_index s) sp
    \<Longrightarrow> ss_pendsv s \<Longrightarrow> ss_preempt_enabled s
    \<Longrightarrow> sched_step code s (fst (scheduler_pendsv_dispatch (s\<lparr>ss_pendsv := False\<rparr>) sp))"
| host_resume: "host_iteration s = (s, Host_Resume)
    \<Longrightarrow> sched_step code s (fst (scheduler_svc_dispatch code s 0 0xFFFFFFF9))"
| host_park: "host_iteration s = (s', Host_Park) \<Longrightarrow> sched_step code s s'"
| signal: "sched_step code s (scheduler_event_signal s events)"
| tick: "sched_step code s (scheduler_tick s now_ms)"

lemma running_current:
  assumes "running s" "ss_current_index s < 2"
  shows "tasks_ok s" "ss_active s" "is_ready (ss_tasks s) (ss_current_index s)" "length (ss_tasks s) = 2"
    "live (ss_tasks s ! ss_current_index s)" "t_priority (ss_tasks s ! ss_current_index s) \<le> 255"
proof -
  from assms show *: "tasks_ok s" "ss_active s" "is_ready (ss_tasks s) (ss_current_index s)" "length (ss_tasks s) = 2"
    by (auto simp: running_def tasks_ok_def)
  show "live (ss_tasks s ! ss_current_index s)" using * by (simp add: is_ready_def live_def)
  show "t_priority (ss_tasks s ! ss_current_index s) \<le> 255"
    using *(1,4) assms(2) by (auto simp: tasks_ok_def task_ok_def)
qed

lemma saved_ok:
  assumes "running s" "ss_current_index s < 2" "scheduler_frame_pointer_valid (ss_tasks s ! ss_current_index s) sp"
  shows "tasks_ok (save_current s sp)"
proof -
  note c = running_current[OF assms(1,2)]
  have st: "t_state (ss_tasks s ! ss_current_index s) = SCHEDULER_TASK_READY" using c(3) by (simp add: is_ready_def)
  show ?thesis
    by (rule tasks_ok_update[OF c(1) assms(2) c(5), where t = "(ss_tasks s ! ss_current_index s)\<lparr>t_saved_sp := sp\<rparr>"])
      (use c assms st in \<open>simp_all add: task_ok_def live_def\<close>)
qed

text \<open>The current task after its entry was replaced by one in the given state.\<close>

lemma replaced_ok:
  assumes r: "running s" "ss_current_index s < 2" "scheduler_frame_pointer_valid (ss_tasks s ! ss_current_index s) sp"
    and t: "ss_tasks s' = (ss_tasks s)[ss_current_index s := t]" "scheduler_frame_pointer_valid t (t_saved_sp t)"
      "t_priority t = t_priority (ss_tasks s ! ss_current_index s)"
    and f: "ss_target_count s' = ss_target_count s" "ss_completed_count s' = ss_completed_count s"
    and p: "\<exists>c. ss_pending_events s' = ss_pending_events s AND NOT c"
    and st: "t_state t = SCHEDULER_TASK_READY \<or> t_state t = SCHEDULER_TASK_BLOCKED
       \<and> t_wait_events t AND ss_pending_events s' = 0 \<and> (t_wait_events t \<noteq> 0 \<or> t_deadline_active t)"
  shows "tasks_ok s'"
proof -
  note c = running_current[OF r(1,2)]
  obtain m where m: "ss_pending_events s' = ss_pending_events s AND NOT m" using p ..
  let ?s = "s\<lparr>ss_pending_events := ss_pending_events s'\<rparr>"
  have "tasks_ok ?s"
    using c(1) by (auto simp: tasks_ok_def task_ok_def m and_subset_zero)
  then show ?thesis
    by (rule tasks_ok_update[where i = "ss_current_index s" and t = t])
      (use r c t f st in \<open>auto simp: task_ok_def live_def\<close>)
qed

lemma exit_ok:
  assumes r: "running s" "ss_current_index s < 2" "scheduler_frame_pointer_valid (ss_tasks s ! ss_current_index s) sp"
  shows "tasks_ok (svc_exit s sp) \<and> ss_active (svc_exit s sp)"
proof -
  note c = running_current[OF r(1,2)]
  let ?t = "(ss_tasks s ! ss_current_index s)\<lparr>t_saved_sp := sp, t_state := SCHEDULER_TASK_DONE,
            t_wait_events := 0, t_wake_events := 0, t_deadline_ms := 0, t_deadline_active := False\<rparr>"
  have "live_count (ss_tasks s) > 0" using ready_live_count[OF c(1,3)] .
  then have "unat (ss_completed_count s) < unat (ss_target_count s)" using c(1) by (simp add: tasks_ok_def)
  then have inc: "unat (ss_completed_count s + 1) = unat (ss_completed_count s) + 1"
    using unsigned_less[of "ss_target_count s", where ?'a = nat] by (simp add: unat_word_ariths)
  have flds: "ss_tasks (svc_exit s sp) = (ss_tasks s)[ss_current_index s := ?t]"
    "ss_pending_events (svc_exit s sp) = ss_pending_events s" "ss_target_count (svc_exit s sp) = ss_target_count s"
    "ss_completed_count (svc_exit s sp) = ss_completed_count s + 1" "ss_active (svc_exit s sp)"
    using c(2,4) r(2) by (simp_all add: svc_exit_def update_task_def Let_def)
  have "tasks_ok (svc_exit s sp)"
    by (rule tasks_ok_update[OF c(1) r(2) c(5) _ flds(1-3)])
      (use c(6) inc flds(4) in \<open>simp_all add: task_ok_def live_def\<close>)
  with flds(5) show ?thesis by blast
qed

text \<open>A wait either gives the current task its result at once or leaves it blocked.\<close>

lemma resume_current_running:
  assumes r: "running s" "ss_current_index s < 2" "scheduler_frame_pointer_valid (ss_tasks s ! ss_current_index s) sp"
    and s1: "ss_tasks s1 = ss_tasks (save_current s sp)" "ss_current_index s1 = ss_current_index s" "ss_active s1"
      "ss_completed_count s1 = ss_completed_count s" "ss_target_count s1 = ss_target_count s"
      "ss_pending_events s1 = ss_pending_events s AND NOT m"
  shows "running (svc_resume_current s1 sp w v)"
proof -
  note c = running_current[OF r(1,2)]
  let ?t = "(ss_tasks s ! ss_current_index s)\<lparr>t_saved_sp := sp, t_wait_events := 0, t_wake_events := w,
            t_deadline_ms := 0, t_deadline_active := False\<rparr>"
  let ?s' = "svc_resume_current s1 sp w v"
  have st: "t_state (ss_tasks s ! ss_current_index s) = SCHEDULER_TASK_READY" using c(3) by (simp add: is_ready_def)
  have flds: "ss_tasks ?s' = (ss_tasks s)[ss_current_index s := ?t]" "ss_current_index ?s' = ss_current_index s"
    "ss_active ?s'" "ss_completed_count ?s' = ss_completed_count s" "ss_target_count ?s' = ss_target_count s"
    "ss_pending_events ?s' = ss_pending_events s1"
    using s1 c(4) r(2) by (simp_all add: svc_resume_current_def update_task_def Let_def)
  have ok: "tasks_ok ?s'"
    by (rule replaced_ok[OF r flds(1)]) (use r(3) flds s1(6) st in auto)
  have rd: "is_ready (ss_tasks ?s') (ss_current_index s)"
    using r(2) c(4) st by (simp add: flds(1) is_ready_def)
  from ready_live_count[OF ok rd] ok rd flds(2,3) show ?thesis by (simp add: running_def)
qed

lemma blocked_ok:
  assumes r: "running s" "ss_current_index s < 2" "scheduler_frame_pointer_valid (ss_tasks s ! ss_current_index s) sp"
    and e: "ev AND ss_pending_events s = 0" "ev \<noteq> 0 \<or> active"
    and s': "s' = update_task (save_current s sp) (ss_current_index s) (\<lambda>t. t\<lparr>t_wait_events := ev, t_wake_events := 0,
        t_deadline_ms := dl, t_deadline_active := active, t_state := SCHEDULER_TASK_BLOCKED\<rparr>)"
  shows "tasks_ok s' \<and> ss_active s'"
proof -
  note c = running_current[OF r(1,2)]
  let ?t = "(ss_tasks s ! ss_current_index s)\<lparr>t_saved_sp := sp, t_wait_events := ev, t_wake_events := 0,
        t_deadline_ms := dl, t_deadline_active := active, t_state := SCHEDULER_TASK_BLOCKED\<rparr>"
  have flds: "ss_tasks s' = (ss_tasks s)[ss_current_index s := ?t]" "ss_pending_events s' = ss_pending_events s"
    "ss_completed_count s' = ss_completed_count s" "ss_target_count s' = ss_target_count s" "ss_active s'"
    using c(2,4) r(2) by (simp_all add: s' update_task_def)
  have "tasks_ok s'"
    by (rule replaced_ok[OF r flds(1) _ _ flds(4,3)])
      (use r(3) flds(2) e in \<open>simp_all add: exI[of _ 0]\<close>)
  with flds(5) show ?thesis by blast
qed

lemma wait_running:
  assumes r: "running s" "ss_current_index s < 2" "scheduler_frame_pointer_valid (ss_tasks s ! ss_current_index s) sp"
    and nz: "ldw (ss_mem s) sp 8 \<noteq> 0"
  shows "case svc_wait_events s sp of (s', Some p) \<Rightarrow> running s' | (s', None) \<Rightarrow> tasks_ok s' \<and> ss_active s'"
proof (cases "ss_pending_events s AND ldw (ss_mem s) sp 8 = 0")
  case True
  from blocked_ok[OF r _ _ refl, of "ldw (ss_mem s) sp 8" False 0] True nz show ?thesis
    by (simp add: svc_wait_events_def Let_def and.commute)
next
  case False
  let ?m = "ss_pending_events s AND ldw (ss_mem s) sp 8"
  let ?s1 = "save_current s sp"
  have "running (svc_resume_current (?s1\<lparr>ss_pending_events := ss_pending_events ?s1 AND NOT ?m\<rparr>) sp ?m ?m)"
    by (rule resume_current_running[OF r, where m = ?m]) (use running_current[OF r(1,2)] in simp_all)
  with False nz show ?thesis by (simp add: svc_wait_events_def Let_def)
qed

lemma timed_running:
  assumes r: "running s" "ss_current_index s < 2" "scheduler_frame_pointer_valid (ss_tasks s ! ss_current_index s) sp"
  shows "case svc_timed_block s sp of (s', Some p) \<Rightarrow> running s' | (s', None) \<Rightarrow> tasks_ok s' \<and> ss_active s'"
proof -
  let ?ev = "ldw (ss_mem s) sp 8" and ?to = "ldw (ss_mem s) sp 9"
  let ?m = "if ?ev \<noteq> 0 then ss_pending_events s AND ?ev else 0"
  let ?s1 = "save_current s sp"
  have res: "running (svc_resume_current (?s1\<lparr>ss_pending_events := ss_pending_events ?s1 AND NOT ?m\<rparr>) sp w v)" for w v
    by (rule resume_current_running[OF r, where m = ?m]) (use running_current[OF r(1,2)] in simp_all)
  have res0: "running (svc_resume_current ?s1 sp w v)" for w v
    by (rule resume_current_running[OF r, where m = 0]) (use running_current[OF r(1,2)] in simp_all)
  have blk: "?m = 0 \<Longrightarrow> ?ev AND ss_pending_events s = 0" by (auto simp: and.commute split: if_splits)
  note blocked = blocked_ok[OF r blk, where active = True, OF _ _ refl]
  show ?thesis
    unfolding svc_timed_block_def Let_def save_current_simps
    using res res0 blocked by (simp split: option.split)
qed

lemma svc_running:
  assumes r: "running s" "ss_current_index s < 2" "scheduler_frame_pointer_valid (ss_tasks s ! ss_current_index s) sp"
    and n: "scheduler_decode_svc_number code (ss_mem s) sp \<in> {1, 2, 3, 4}"
      "scheduler_decode_svc_number code (ss_mem s) sp = 3 \<longrightarrow> ldw (ss_mem s) sp 8 \<noteq> 0" and lr: "lr AND 4 \<noteq> 0"
  shows "running (fst (scheduler_svc_dispatch code s sp lr)) \<or> finished (fst (scheduler_svc_dispatch code s sp lr))"
proof -
  note c = running_current[OF r(1,2)]
  have sp: "sp \<noteq> 0" using r(3) by (simp add: scheduler_frame_pointer_valid_def)
  have y: "tasks_ok (svc_yield s sp)" "ss_active (svc_yield s sp)"
    using saved_ok[OF r] c(2) by (simp_all add: svc_yield_def)
  note res = reschedule_running[OF y] reschedule_running[of "svc_exit s sp"]
  consider "scheduler_decode_svc_number code (ss_mem s) sp = 1" | "scheduler_decode_svc_number code (ss_mem s) sp = 2"
    | "scheduler_decode_svc_number code (ss_mem s) sp = 3" | "scheduler_decode_svc_number code (ss_mem s) sp = 4"
    using n(1) by auto
  then show ?thesis
  proof cases
    case 1 then show ?thesis using lr c(2) r(2,3) sp res(1) by (simp add: scheduler_svc_dispatch_def)
  next
    case 2 then show ?thesis using lr c(2) r(2,3) sp res(2) exit_ok[OF r] by (simp add: scheduler_svc_dispatch_def)
  next
    case 3
    obtain s' p where w: "svc_wait_events s sp = (s', p)" by fastforce
    with wait_running[OF r] n(2) 3 have "case p of Some p \<Rightarrow> running s' | None \<Rightarrow> tasks_ok s' \<and> ss_active s'"
      by (simp split: option.splits)
    with 3 w show ?thesis using lr c(2) r(2,3) sp reschedule_running[of s']
      by (cases p) (simp_all add: scheduler_svc_dispatch_def)
  next
    case 4
    obtain s' p where w: "svc_timed_block s sp = (s', p)" by fastforce
    with timed_running[OF r] have "case p of Some p \<Rightarrow> running s' | None \<Rightarrow> tasks_ok s' \<and> ss_active s'"
      by (simp split: option.splits)
    with 4 w show ?thesis using lr c(2) r(2,3) sp reschedule_running[of s']
      by (cases p) (simp_all add: scheduler_svc_dispatch_def)
  qed
qed

lemma pendsv_running:
  assumes r: "running s" "ss_current_index s < 2" "scheduler_frame_pointer_valid (ss_tasks s ! ss_current_index s) sp"
    and p: "ss_preempt_enabled s"
  shows "running (fst (scheduler_pendsv_dispatch s sp))"
proof -
  note c = running_current[OF r(1,2)]
  let ?s1 = "save_current s sp"
  let ?i = "scheduler_find_next_ready ?s1 (ss_current_index s)"
  have ok: "tasks_ok ?s1" using saved_ok[OF r] .
  have "is_ready (ss_tasks ?s1) (ss_current_index s)"
    using c(3,4) r(2) by (simp add: is_ready_def)
  then have i: "?i < 2" using find_ready_spec(1,2)[OF ok, of "ss_current_index s"] by (metis le_neq_implies_less)
  note rd = find_ready_spec(3)[OF ok i]
  have sp: "sp \<noteq> 0" using r(3) by (simp add: scheduler_frame_pointer_valid_def)
  let ?s2 = "(if ?i \<noteq> ss_current_index s then ?s1\<lparr>ss_preempt_switch_count := ss_preempt_switch_count ?s1 + 1\<rparr> else ?s1)
      \<lparr>ss_current_index := ?i\<rparr>"
  have eq: "fst (scheduler_pendsv_dispatch s sp) = ?s2"
    unfolding scheduler_pendsv_dispatch_def Let_def
    using c(2) r(2,3) p sp i ready_frame[OF ok rd] by (simp add: not_le)
  have act: "ss_active ?s1" using c(2) by simp
  show ?thesis unfolding eq
    by (rule running_switch[OF ok act rd]) (use c(2) in auto)
qed

lemma host_running:
  assumes r: "running s" and h: "host_iteration s = (s, Host_Resume)"
  shows "running (fst (scheduler_svc_dispatch code s 0 0xFFFFFFF9))"
proof -
  let ?i = "scheduler_find_next_ready s 1"
  have act: "ss_active s" and ok: "tasks_ok s" using r by (simp_all add: running_def)
  from h act have i: "?i < 2" "ss_current_index s = 2" by (simp_all add: host_iteration_def split: if_splits)
  note rd = find_ready_spec(3)[OF ok i(1)]
  have "fst (scheduler_svc_dispatch code s 0 0xFFFFFFF9) = s\<lparr>ss_current_index := ?i\<rparr>"
    using act i ready_frame[OF ok rd] by (simp add: scheduler_svc_dispatch_def svc_from_host_def Let_def not_le)
  then show ?thesis using running_switch[OF ok act rd] act by simp
qed

lemma park_running:
  assumes "running s" "host_iteration s = (s', Host_Park)"
  shows "running s'"
  using assms by (auto simp: host_iteration_def running_def tasks_ok_def split: if_splits)

lemma step_running:
  assumes "sched_step code s s'" "running s"
  shows "running s' \<or> finished s'"
  using assms
proof (cases rule: sched_step.cases)
  case (task_runs mem)
  with assms(2) show ?thesis by (simp add: running_def tasks_ok_def)
next
  case (task_svc sp lr) with svc_running[OF assms(2)] show ?thesis by blast
next
  case (pendsv sp)
  have "running (s\<lparr>ss_pendsv := False\<rparr>)" using assms(2) by (simp add: running_def tasks_ok_def)
  from pendsv_running[OF this] pendsv show ?thesis by simp
next
  case host_resume with host_running[OF assms(2)] show ?thesis by blast
next
  case host_park with park_running[OF assms(2)] show ?thesis by blast
next
  case (signal events) with signal_running[OF assms(2)] show ?thesis by simp
next
  case (tick now_ms) with tick_running[OF assms(2)] show ?thesis by simp
qed

end
