(* ===== verification/Scheduler_Service.thy ===== *)
theory Scheduler_Service
  imports Scheduler_Run
begin

unbundle bit_operations_syntax

text \<open>
  The properties of the scheduler: which task is selected, that a run never aborts and ends
  when its tasks have exited, that no wake-up is lost, that time-outs are exact, and that a
  task that is switched out keeps its context.
\<close>

section \<open>The start\<close>

text \<open>A set of tasks ready to be started: prepared, with legal priorities, none blocked.\<close>

definition startable :: "scheduler \<Rightarrow> bool" where
  "startable s \<longleftrightarrow> length (ss_tasks s) = SCHEDULER_TASK_COUNT \<and> priorities_ok (ss_tasks s)
     \<and> (\<forall>t \<in> set (ss_tasks s). t_state t \<noteq> SCHEDULER_TASK_BLOCKED)"

lemma start_running:
  assumes "startable s" "scheduler_start_prepare s p = (s', True)"
  shows "running s'"
proof -
  let ?ready = "filter (\<lambda>t. t_state t = SCHEDULER_TASK_READY) (ss_tasks s)"
  have live: "live t \<longleftrightarrow> t_state t = SCHEDULER_TASK_READY" if "t \<in> set (ss_tasks s)" for t
    using that assms(1) by (auto simp: startable_def live_def)
  then have cnt: "live_count (ss_tasks s) = length ?ready"
    unfolding live_count_def by (metis (mono_tags, lifting) filter_cong)
  have len: "length (ss_tasks s) = 2" using assms(1) by (simp add: startable_def)
  have le: "length ?ready \<le> 2" using len length_filter_le[of _ "ss_tasks s"] by metis
  have fr: "\<forall>t \<in> set ?ready. scheduler_frame_pointer_valid t (t_saved_sp t)" "?ready \<noteq> []"
    and act: "ss_active s'" and flds: "ss_tasks s' = ss_tasks s" "ss_completed_count s' = 0" "ss_current_index s' = 2"
      "ss_target_count s' = of_nat (length ?ready)" "ss_pending_events s' = ss_pending_events s"
    using assms(2) len
    by (auto simp: scheduler_start_prepare_def Let_def scheduler_stack_telemetry_reset_def
        scheduler_configure_pendsv_priority_def split: if_splits)
  have tgt: "unat (ss_target_count s') = length ?ready"
    unfolding flds(4) by (rule u32_of_nat) (use le in simp)
  have "\<forall>t \<in> set (ss_tasks s). task_ok (ss_pending_events s') t"
    using assms(1) fr(1) live by (auto simp: startable_def task_ok_def priorities_ok_def)
  then have "tasks_ok s'" using cnt tgt len flds by (simp add: tasks_ok_def)
  moreover have "live_count (ss_tasks s') > 0" using cnt fr(2) flds(1) by simp
  ultimately show ?thesis using act flds(3) by (simp add: running_def)
qed

section \<open>What tasks and interrupts may do\<close>

text \<open>
  The stack pointer of a task at an exception, after the hardware has stacked its frame of 32
  bytes: aligned, in the stack of the task, and with 32 bytes below it for the other registers.
\<close>

definition psp_room :: "scheduler_task \<Rightarrow> u32 \<Rightarrow> bool" where
  "psp_room t psp \<longleftrightarrow> unat psp mod 8 = 0 \<and> unat (t_stack_low t) + 32 \<le> unat psp \<and> unat psp + 32 \<le> unat (t_stack_high t)"

text \<open>
  The number and the registers of an SVC that a call of the task interface executes, for any
  arguments, or the return of a task's entry function into the exit trap. A call that returns
  without one is no entry.
\<close>

definition interface_call :: "u32 \<Rightarrow> u32 \<Rightarrow> u32 \<Rightarrow> bool" where
  "interface_call n r0 r1 \<longleftrightarrow> (\<exists>a b. scheduler_yield = Svc n a b) \<or> n = SCHEDULER_SVC_EXIT \<or> (\<exists>events b. scheduler_wait_events events = Svc n r0 b)
     \<or> (\<exists>events timeout_ms. scheduler_wait_events_timeout events timeout_ms = Svc n r0 r1)
     \<or> (\<exists>duration_ms. scheduler_sleep_ms duration_ms = Svc n r0 r1)"

text \<open>The instruction before the stacked return address is this SVC.\<close>

definition svc_executed :: "(u32 \<Rightarrow> u16) \<Rightarrow> (u32 \<Rightarrow> u32) \<Rightarrow> u32 \<Rightarrow> u32 \<Rightarrow> bool" where
  "svc_executed code mem psp n \<longleftrightarrow> 2 \<le> ldw mem psp 6 \<and> code (ldw mem psp 6 - 2) = 0xDF00 OR ucast n"

text \<open>
  The steps of a run, by the exception handlers: the current task runs and may change any
  memory (the scheduler's variables are not in it); it calls the interface, with \<open>r0\<close>, \<open>r1\<close>
  in the frame the hardware stacked; a pending PendSV is taken, from a task or from the host;
  the host resumes or parks; an event is signalled, the clock ticks.
\<close>

inductive run_step :: "(u32 \<Rightarrow> u16) \<Rightarrow> scheduler \<Rightarrow> scheduler \<Rightarrow> bool" for code where
  run_task: "run_step code s (s\<lparr>ss_mem := mem\<rparr>)"
| run_svc: "ss_current_index s < 2 \<Longrightarrow> cpu_lr c AND 4 \<noteq> 0 \<Longrightarrow> length (cpu_r4_r11 c) = 8 \<Longrightarrow> psp_room (ss_tasks s ! ss_current_index s) (cpu_psp c)
    \<Longrightarrow> interface_call n (ldw (ss_mem s) (cpu_psp c) 0) (ldw (ss_mem s) (cpu_psp c) 1) \<Longrightarrow> svc_executed code (ss_mem s) (cpu_psp c) n
    \<Longrightarrow> run_step code s (fst (SVC_Handler code s c))"
| run_pendsv: "ss_pendsv s \<Longrightarrow> cpu_lr c AND 4 \<noteq> 0 \<longleftrightarrow> ss_current_index s < 2 \<Longrightarrow> ss_current_index s < 2 \<longrightarrow> psp_room (ss_tasks s ! ss_current_index s) (cpu_psp c)
    \<Longrightarrow> run_step code s (fst (PendSV_Handler (s\<lparr>ss_pendsv := False\<rparr>) c))"
| run_resume: "host_iteration s = (s, Host_Resume) \<Longrightarrow> cpu_lr c AND 4 = 0 \<Longrightarrow> run_step code s (fst (SVC_Handler code s c))"
| run_park: "host_iteration s = (s', Host_Park) \<Longrightarrow> run_step code s s'"
| run_signal: "run_step code s (scheduler_event_signal s events)"
| run_tick: "run_step code s (scheduler_tick s now_ms)"

inductive run_reach :: "(u32 \<Rightarrow> u16) \<Rightarrow> scheduler \<Rightarrow> scheduler \<Rightarrow> bool" for code s0 where
  run_start: "run_reach code s0 s0"
| run_more: "run_reach code s0 s \<Longrightarrow> run_step code s s' \<Longrightarrow> run_reach code s0 s'"

text \<open>The guard of the dispatchers passes.\<close>

lemma room_valid:
  assumes "psp_room t psp" "t_stack_low t \<noteq> 0"
  shows "scheduler_frame_pointer_valid t (psp - 32)"
proof -
  have r: "unat psp mod 8 = 0" "unat (t_stack_low t) + 32 \<le> unat psp" "unat psp + 32 \<le> unat (t_stack_high t)"
    using assms(1) by (simp_all add: psp_room_def)
  have u: "unat (psp - 32) = unat psp - 32" "unat (t_stack_high t - 64) = unat (t_stack_high t) - 64"
    using r unat_sub[of "32 :: u32" psp] unat_sub[of "64 :: u32" "t_stack_high t"] by (simp_all add: word_le_nat_alt)
  have "unat (t_stack_low t) > 0" using assms(2) by (simp add: unat_gt_0)
  then have nz: "psp - 32 \<noteq> 0" "t_stack_high t \<noteq> 0" using r u(1) by (auto simp: unat_eq_0[symmetric])
  have m: "(7 :: u32) = mask 3" by code_simp
  have "unat ((psp - 32) AND 7) = (unat psp - 32) mod 8" unfolding m take_bit_eq_mask[symmetric] by (simp add: take_bit_eq_mod unat_mod u(1))
  also have "\<dots> = 0" using r(1,2) mod_mult_self2[of "unat psp - 32" 8 4] by simp
  finally have "(psp - 32) AND 7 = 0" by (simp add: unat_eq_0)
  moreover have "unat (t_stack_low t) \<le> unat psp - 32" "unat psp - 32 \<le> unat (t_stack_high t) - 64" using r(2,3) by arith+
  ultimately show ?thesis using nz assms(2) u by (simp add: scheduler_frame_pointer_valid_def word_le_nat_alt)
qed

text \<open>A PendSV is pending only in a preemptive run.\<close>

definition pend_ok :: "scheduler \<Rightarrow> bool" where
  "pend_ok s \<longleftrightarrow> (ss_pendsv s \<longrightarrow> ss_preempt_enabled s)"

lemma save_simps:
  "ss_pendsv (save_current t q) = ss_pendsv t" "ss_pendsv (update_task t i f) = ss_pendsv t"
  "ss_preempt_enabled (update_task t i f) = ss_preempt_enabled t"
  by (simp_all add: save_current_def scheduler_stack_record_def update_task_def Let_def)

lemma svc_pend:
  assumes "pend_ok s"
  shows "pend_ok (fst (scheduler_svc_dispatch code s sp lr))"
proof -
  have a: "pend_ok (scheduler_abort_run t)" for t by (simp add: pend_ok_def scheduler_abort_run_def scheduler_clear_pending_pendsv_def)
  have r: "pend_ok t \<Longrightarrow> pend_ok (fst (svc_reschedule t))" for t
    by (simp add: svc_reschedule_def Let_def a) (simp add: pend_ok_def scheduler_clear_pending_pendsv_def)
  have h: "pend_ok t \<Longrightarrow> pend_ok (fst (svc_from_host t q))" for t q by (simp add: svc_from_host_def Let_def a) (simp add: pend_ok_def)
  have y: "pend_ok (svc_yield s sp)" "pend_ok (svc_exit s sp)"
    using assms by (simp_all add: pend_ok_def svc_yield_def svc_exit_def save_simps Let_def)
  have w: "pend_ok (fst (svc_wait_events s sp))" "pend_ok (fst (svc_timed_block s sp))"
    using assms a by (simp_all add: svc_wait_events_def svc_timed_block_def svc_resume_current_def pend_ok_def save_simps Let_def)
  obtain s1 p1 where e1: "svc_wait_events s sp = (s1, p1)" by fastforce
  obtain s2 p2 where e2: "svc_timed_block s sp = (s2, p2)" by fastforce
  have "pend_ok s1" "pend_ok s2" using w e1 e2 by simp_all
  then show ?thesis
    unfolding scheduler_svc_dispatch_def Let_def e1 e2 prod.case
    using a r y h[OF assms] by (cases p1; cases p2) simp_all
qed

lemma low_of_current:
  assumes "running s" "ss_current_index s < 2"
  shows "t_stack_low (ss_tasks s ! ss_current_index s) \<noteq> 0"
proof -
  note c = running_current[OF assms]
  have "ss_tasks s ! ss_current_index s \<in> set (ss_tasks s)" using c(4) assms(2) by simp
  then have "task_ok (ss_pending_events s) (ss_tasks s ! ss_current_index s)" using c(1) by (simp add: tasks_ok_def)
  then show ?thesis using c(5) by (simp add: task_ok_def scheduler_frame_pointer_valid_def)
qed

text \<open>What the dispatcher reads of the hardware's frame is not what the handler has pushed.\<close>

lemma ldw_above: "length vs = 8 \<Longrightarrow> k < 8 \<Longrightarrow> ldw (stw_list mem (p - 32) 0 vs) (p - 32) (k + 8) = ldw mem p k"
proof -
  assume l: "length vs = 8" "k < 8"
  have ap: "word_at (p - 32) (j + m) \<noteq> word_at (p - 32) (k + 8)" if "j + m < 8" for j m
  proof
    assume "word_at (p - 32) (j + m) = word_at (p - 32) (k + 8)"
    then have "(of_nat (4 * (j + m)) :: u32) = of_nat (4 * (k + 8))" by (simp add: word_at_def algebra_simps)
    then show False using that l u32_of_nat[of "4 * (j + m)"] u32_of_nat[of "4 * (k + 8)"] by simp
  qed
  have out: "(\<And>m. m < length xs \<Longrightarrow> word_at q (i + m) \<noteq> a) \<Longrightarrow> stw_list mm q i xs a = mm a" for mm q i xs a
  proof (induction xs arbitrary: mm i)
    case (Cons x xs)
    have "stw_list (stw mm q i x) q (Suc i) xs a = stw mm q i x a" by (rule Cons.IH) (use Cons.prems[of "Suc m" for m] in simp)
    then show ?case using Cons.prems[of 0] by (simp add: stw_def)
  qed simp
  have "stw_list mem (p - 32) 0 vs (word_at (p - 32) (k + 8)) = mem (word_at (p - 32) (k + 8))" by (rule out) (use ap[of 0] l in simp)
  moreover have "word_at (p - 32) (k + 8) = word_at p k" by (simp add: word_at_def algebra_simps)
  ultimately show ?thesis by (simp add: ldw_def)
qed

lemma interface_legal:
  assumes "interface_call n r0 r1"
  shows "n \<in> {1, 2, 3, 4}" "n = 3 \<longrightarrow> r0 \<noteq> 0"
  using assms
  by (auto simp: interface_call_def scheduler_yield_def scheduler_wait_events_def scheduler_wait_events_timeout_def scheduler_sleep_ms_def split: if_splits)

lemma executed_decoded:
  assumes "svc_executed code mem psp n" "ldw mem' sp 14 = ldw mem psp 6" "sp \<noteq> 0" "n \<in> {1, 2, 3, 4}"
  shows "scheduler_decode_svc_number code mem' sp = n"
proof -
  have e: "2 \<le> ldw mem psp 6" "code (ldw mem psp 6 - 2) = 0xDF00 OR ucast n" using assms(1) by (simp_all add: svc_executed_def)
  have "(0xDF00 OR ucast n :: u16) AND 0xFF00 = 0xDF00" "(ucast ((0xDF00 OR ucast n :: u16) AND 0xFF) :: u32) = n" using assms(4) by auto
  then show ?thesis using e assms(2,3) by (simp add: scheduler_decode_svc_number_def Let_def flip: not_less)
qed

lemma running_mem: "running (s\<lparr>ss_mem := mem\<rparr>) = running s" "running (s\<lparr>ss_host_r4_r11 := r\<rparr>) = running s" "running (s\<lparr>ss_pendsv := b\<rparr>) = running s"
  by (simp_all add: running_def tasks_ok_def)

lemma return_state: "fst (exception_return r c) = fst r"
  by (cases r) (simp add: exception_return_def)

lemma run_step_svc:
  assumes r: "running s" "ss_current_index s < 2" and lr: "cpu_lr c AND 4 \<noteq> 0" and l: "length (cpu_r4_r11 c) = 8"
    and p: "psp_room (ss_tasks s ! ss_current_index s) (cpu_psp c)"
    and n: "interface_call n (ldw (ss_mem s) (cpu_psp c) 0) (ldw (ss_mem s) (cpu_psp c) 1)" "svc_executed code (ss_mem s) (cpu_psp c) n"
  shows "running (fst (SVC_Handler code s c)) \<or> finished (fst (SVC_Handler code s c))"
proof -
  define s1 where "s1 = s\<lparr>ss_mem := stw_list (ss_mem s) (cpu_psp c - 32) 0 (cpu_r4_r11 c)\<rparr>"
  have e: "fst (SVC_Handler code s c) = fst (scheduler_svc_dispatch code s1 (cpu_psp c - 32) (cpu_lr c))"
    using lr by (simp add: SVC_Handler_def push_r4_r11_def Let_def return_state s1_def)
  have v: "scheduler_frame_pointer_valid (ss_tasks s1 ! ss_current_index s1) (cpu_psp c - 32)"
    using room_valid[OF p low_of_current[OF r]] by (simp add: s1_def)
  have r1: "running s1" "ss_current_index s1 < 2" using r by (simp_all add: s1_def running_mem)
  have m: "ldw (ss_mem s1) (cpu_psp c - 32) 8 = ldw (ss_mem s) (cpu_psp c) 0" "ldw (ss_mem s1) (cpu_psp c - 32) 14 = ldw (ss_mem s) (cpu_psp c) 6"
    using ldw_above[OF l, of 0 "ss_mem s" "cpu_psp c"] ldw_above[OF l, of 6 "ss_mem s" "cpu_psp c"] by (simp_all add: s1_def)
  have "cpu_psp c - 32 \<noteq> 0" using v by (simp add: scheduler_frame_pointer_valid_def)
  then have d: "scheduler_decode_svc_number code (ss_mem s1) (cpu_psp c - 32) = n" by (rule executed_decoded[OF n(2) m(2) _ interface_legal(1)[OF n(1)]])
  show ?thesis unfolding e using svc_running[OF r1 v _ _ lr, of code] interface_legal[OF n(1)] d m(1) by simp
qed

lemma run_step_running:
  assumes "run_step code s s'" "running s" "pend_ok s"
  shows "(running s' \<or> finished s') \<and> pend_ok s'"
  using assms
proof (cases rule: run_step.cases)
  case (run_task mem)
  then show ?thesis using assms(2,3) by (simp add: running_mem pend_ok_def)
next
  case (run_svc c n)
  have "pend_ok (fst (SVC_Handler code s c))"
    using svc_pend[of "s\<lparr>ss_mem := stw_list (ss_mem s) (cpu_psp c - 32) 0 (cpu_r4_r11 c)\<rparr>"] assms(3) run_svc(3)
    by (simp add: SVC_Handler_def push_r4_r11_def Let_def return_state pend_ok_def)
  then show ?thesis using run_step_svc[OF assms(2) run_svc(2-7)] run_svc(1) by simp
next
  case (run_pendsv c)
  show ?thesis
  proof (cases "ss_current_index s < 2")
    case False
    then have "s' = s\<lparr>ss_pendsv := False\<rparr>" using run_pendsv by (simp add: PendSV_Handler_def)
    then show ?thesis using assms(2) by (simp add: running_mem pend_ok_def)
  next
    case True
    define s1 where "s1 = s\<lparr>ss_pendsv := False, ss_mem := stw_list (ss_mem s) (cpu_psp c - 32) 0 (cpu_r4_r11 c)\<rparr>"
    have e: "s' = fst (scheduler_pendsv_dispatch s1 (cpu_psp c - 32))"
      using run_pendsv True by (simp add: PendSV_Handler_def push_r4_r11_def Let_def return_state s1_def)
    have p: "psp_room (ss_tasks s ! ss_current_index s) (cpu_psp c)" using run_pendsv True by blast
    have v: "scheduler_frame_pointer_valid (ss_tasks s1 ! ss_current_index s1) (cpu_psp c - 32)"
      using room_valid[OF p low_of_current[OF assms(2) True]] by (simp add: s1_def)
    have r1: "running s1" "ss_current_index s1 < 2" "ss_preempt_enabled s1"
      using assms(2,3) True run_pendsv(2) by (simp_all add: s1_def running_mem pend_ok_def)
    have r': "running s'" unfolding e by (rule pendsv_running[OF r1(1,2) v r1(3)])
    have "\<not> ss_pendsv s'" unfolding e by (simp add: scheduler_pendsv_dispatch_def Let_def scheduler_abort_run_def scheduler_clear_pending_pendsv_def save_simps s1_def)
    then show ?thesis using r' by (simp add: pend_ok_def)
  qed
next
  case (run_resume c)
  define s1 where "s1 = s\<lparr>ss_host_r4_r11 := cpu_r4_r11 c\<rparr>"
  have e: "s' = fst (scheduler_svc_dispatch code s1 0 (cpu_lr c))" using run_resume by (simp add: SVC_Handler_def return_state s1_def)
  have "scheduler_svc_dispatch code s1 0 (cpu_lr c) = scheduler_svc_dispatch code s1 0 0xFFFFFFF9"
    using run_resume(3) by (simp add: scheduler_svc_dispatch_def)
  moreover have h: "host_iteration s1 = (s1, Host_Resume)"
    using run_resume(2) by (auto simp: host_iteration_def s1_def scheduler_find_next_ready_def scheduler_has_blocked_tasks_def split: if_splits)
  moreover have "running s1" "pend_ok s1" using assms(2,3) by (simp_all add: s1_def running_mem pend_ok_def)
  ultimately show ?thesis unfolding e using host_running[of s1 code] svc_pend[of s1] by simp
next
  case run_park
  then have "running s'" using park_running[OF assms(2)] by blast
  moreover have "pend_ok s'" using run_park assms(3) by (auto simp: host_iteration_def pend_ok_def split: if_splits)
  ultimately show ?thesis by simp
next
  case (run_signal events)
  have "pend_ok (scheduler_event_signal s events)"
  proof -
    have f: "ss_pendsv (fst (foldl signal_task st ks)) = ss_pendsv (fst st) \<and> ss_preempt_enabled (fst (foldl signal_task st ks)) = ss_preempt_enabled (fst st)" for st ks
      by (induction ks arbitrary: st) (auto simp: signal_task_def Let_def save_simps split: prod.split)
    obtain a b c where x: "foldl signal_task (s\<lparr>ss_pending_events := ss_pending_events s OR events\<rparr>, 0, False) [0..<2] = (a, b, c)" by (metis prod_cases3)
    have "ss_pendsv a = ss_pendsv s" "ss_preempt_enabled a = ss_preempt_enabled s"
      using f[of "(s\<lparr>ss_pending_events := ss_pending_events s OR events\<rparr>, 0, False)" "[0..<2]"] x by simp_all
    then show ?thesis using assms(3) x by (simp add: scheduler_event_signal_def pend_ok_def Let_def)
  qed
  then show ?thesis using signal_running[OF assms(2)] run_signal by simp
next
  case (run_tick now_ms)
  have "pend_ok (scheduler_tick s now_ms)"
  proof -
    have f: "ss_pendsv (fst (foldl (tick_task now_ms) st ks)) = ss_pendsv (fst st) \<and> ss_preempt_enabled (fst (foldl (tick_task now_ms) st ks)) = ss_preempt_enabled (fst st)" for st ks
      by (induction ks arbitrary: st) (auto simp: tick_task_def Let_def save_simps split: prod.split)
    obtain a b where x: "(if ss_active s then foldl (tick_task now_ms) (s\<lparr>ss_now_ms := now_ms\<rparr>, False) [0..<2] else (s\<lparr>ss_now_ms := now_ms\<rparr>, False)) = (a, b)"
      by fastforce
    have "ss_pendsv a = ss_pendsv s" "ss_preempt_enabled a = ss_preempt_enabled s"
      using f[of "(s\<lparr>ss_now_ms := now_ms\<rparr>, False)" "[0..<2]"] x by (auto split: if_splits)
    then show ?thesis using assms(3) x by (simp add: scheduler_tick_def pend_ok_def Let_def)
  qed
  then show ?thesis using tick_running[OF assms(2)] run_tick by simp
qed

lemma run_step_finished: "run_step code s s' \<Longrightarrow> finished s \<Longrightarrow> finished s'"
  by (erule run_step.cases)
    (auto simp: finished_def host_iteration_def scheduler_event_signal_def scheduler_tick_def PendSV_Handler_def Let_def)

lemma run_reach_ok: "run_reach code s0 s \<Longrightarrow> running s0 \<Longrightarrow> pend_ok s0 \<Longrightarrow> running s \<and> pend_ok s \<or> finished s"
  by (induction rule: run_reach.induct) (auto dest: run_step_running run_step_finished)

section \<open>Properties: selection and progress\<close>

text \<open>
  C35: Selection is by priority, then round robin: for legal priorities the selected task is
  ready, no ready task has a smaller priority number, and the task after which the search
  starts is selected only if no other ready task has its priority; there is no selection
  exactly when no task is ready.
\<close>
theorem selection_is_priority_round_robin:
  assumes "length tasks = 2" "priorities_ok tasks"
  shows "(scheduler_select_next_ready tasks after = SCHEDULER_NO_TASK \<longleftrightarrow> (\<forall>i. \<not> is_ready tasks i))
    \<and> (\<forall>r. scheduler_select_next_ready tasks after = r \<and> r < 2 \<longrightarrow> is_ready tasks r
        \<and> (\<forall>i. is_ready tasks i \<longrightarrow> t_priority (tasks ! r) \<le> t_priority (tasks ! i)
            \<and> (i \<noteq> r \<and> t_priority (tasks ! i) = t_priority (tasks ! r) \<longrightarrow> r \<noteq> after mod 2)))"
  using select_spec[OF assms] by blast

theorem selection_is_priority_round_robin_witness:
  "scheduler_select_next_ready [unused_task\<lparr>t_state := SCHEDULER_TASK_READY\<rparr>, unused_task] 0 \<noteq> 2"
proof -
  let ?tasks = "[unused_task\<lparr>t_state := SCHEDULER_TASK_READY\<rparr>, unused_task]"
  have "length ?tasks = 2" "priorities_ok ?tasks" "is_ready ?tasks 0"
    by (simp_all add: priorities_ok_def is_ready_def unused_task_def word_le_nat_alt)
  then show ?thesis using selection_is_priority_round_robin[of ?tasks 0] by blast
qed

text \<open>
  C13: A run never aborts. Once started with prepared tasks, whatever the tasks compute and
  write, with whatever arguments they call the interface (yield, wait, timed wait, sleep, exit),
  and whatever ticks, signals and preemptions arrive, the run stays active
  with all its frames valid and no blocked task waiting for an event that is pending, until
  every started task has exited; then it is inactive and the start reports success. Asked of the
  tasks is only that their stack pointer is aligned and inside their stack, with room for the
  saved registers, when an exception is taken; the guards of the dispatchers then pass.
\<close>
theorem run_never_aborts:
  assumes "startable s0" "\<not> ss_pendsv s0" "scheduler_start_prepare s0 preemptive = (s1, True)" "run_reach code s1 s"
  shows "(running s \<and> ss_active s) \<or> (finished s \<and> fst (scheduler_start_result s))"
proof -
  have "\<not> ss_pendsv s1"
    using assms(2,3) by (auto simp: scheduler_start_prepare_def Let_def scheduler_stack_telemetry_reset_def scheduler_configure_pendsv_priority_def split: if_splits)
  then show ?thesis
    using run_reach_ok[OF assms(4) start_running[OF assms(1,3)]]
    by (auto simp: pend_ok_def running_def finished_def scheduler_start_result_def)
qed

definition ready_task :: scheduler_task where
  "ready_task = unused_task\<lparr>t_state := SCHEDULER_TASK_READY, t_stack_low := 0x1000, t_stack_high := 0x1200,
     t_stack_words := 128, t_saved_sp := 0x11C0\<rparr>"

definition idle_scheduler :: scheduler where
  "idle_scheduler = \<lparr>ss_tasks = [ready_task, unused_task], ss_current_index = 2, ss_active = False, ss_completed_count = 0,
     ss_target_count = 0, ss_run_result = False, ss_preempt_enabled = False, ss_preempt_switch_count = 0,
     ss_pending_events = 0, ss_idle_wait_count = 0, ss_now_ms = 0, ss_stack_high_water_words = [0, 0],
     ss_stack_canary_exhausted = [False, False], ss_host_r4_r11 = replicate 8 0, ss_mem = (\<lambda>_. 0),
     ss_pendsv = False, ss_event_register = False, ss_shpr3 = 0\<rparr>"

definition idle_started :: scheduler where
  "idle_started = idle_scheduler\<lparr>ss_active := True, ss_target_count := 1\<rparr>"

lemma ready_task_facts:
  "t_state ready_task = SCHEDULER_TASK_READY" "t_priority ready_task = 128" "t_saved_sp ready_task = 0x11C0"
  "t_state unused_task = SCHEDULER_TASK_UNUSED" "t_priority unused_task = 128"
  "scheduler_frame_pointer_valid ready_task 0x11C0"
  by (simp_all add: ready_task_def unused_task_def scheduler_frame_pointer_valid_def word_le_nat_alt)

lemma idle_startable: "startable idle_scheduler"
  by (simp add: startable_def idle_scheduler_def priorities_ok_def ready_task_facts word_le_nat_alt)

lemma idle_start: "scheduler_start_prepare idle_scheduler False = (idle_started, True)"
  by (auto simp: scheduler_start_prepare_def scheduler_stack_telemetry_reset_def Let_def idle_scheduler_def
      idle_started_def ready_task_facts numeral_2_eq_2)

text \<open>The host resumes the task, which then yields.\<close>

definition host_cpu :: cpu where "host_cpu = \<lparr>cpu_r4_r11 = replicate 8 0, cpu_psp = 0, cpu_lr = 0xFFFFFFF9\<rparr>"
definition task_cpu :: cpu where "task_cpu = \<lparr>cpu_r4_r11 = replicate 8 0, cpu_psp = 0x11E0, cpu_lr = 0xFFFFFFFD\<rparr>"
definition yield_code :: "u32 \<Rightarrow> u16" where "yield_code = (\<lambda>_. 0xDF01)"
definition task_started :: scheduler where "task_started = (fst (SVC_Handler yield_code idle_started host_cpu))\<lparr>ss_mem := \<lambda>_. 0x08000100\<rparr>"

lemma idle_selects: "scheduler_select_next_ready [ready_task, unused_task] 1 = 0" by code_simp

lemma started_fields: "ss_current_index task_started = 0 \<and> ss_tasks task_started = [ready_task, unused_task] \<and> ss_mem task_started = (\<lambda>_. 0x08000100)"
proof -
  have i: "scheduler_find_next_ready (idle_started\<lparr>ss_host_r4_r11 := replicate 8 0\<rparr>) 1 = 0"
    using idle_selects by (simp add: scheduler_find_next_ready_def idle_started_def idle_scheduler_def)
  have "fst (SVC_Handler yield_code idle_started host_cpu) = idle_started\<lparr>ss_host_r4_r11 := replicate 8 0, ss_current_index := 0\<rparr>"
    using i by (simp add: SVC_Handler_def host_cpu_def return_state scheduler_svc_dispatch_def svc_from_host_def Let_def
        idle_started_def idle_scheduler_def ready_task_facts)
  then show ?thesis by (simp add: task_started_def idle_started_def idle_scheduler_def)
qed

theorem run_never_aborts_witness:
  "running (fst (SVC_Handler yield_code task_started task_cpu)) \<or> finished (fst (SVC_Handler yield_code task_started task_cpu))"
proof -
  have "scheduler_find_next_ready idle_started 1 = 0"
    using idle_selects by (simp add: scheduler_find_next_ready_def idle_started_def idle_scheduler_def)
  then have h: "host_iteration idle_started = (idle_started, Host_Resume)"
    by (simp add: host_iteration_def idle_started_def idle_scheduler_def)
  have "run_reach yield_code idle_started (fst (SVC_Handler yield_code idle_started host_cpu))"
    by (rule run_more[OF run_start run_resume[OF h]]) (simp add: host_cpu_def)
  from run_more[OF this run_task] have r: "run_reach yield_code idle_started task_started" by (simp add: task_started_def)
  have "psp_room (ss_tasks task_started ! ss_current_index task_started) (cpu_psp task_cpu)"
    using started_fields by (simp add: psp_room_def task_cpu_def ready_task_def)
  moreover have "interface_call 1 (ldw (ss_mem task_started) (cpu_psp task_cpu) 0) (ldw (ss_mem task_started) (cpu_psp task_cpu) 1)"
    by (simp add: interface_call_def scheduler_yield_def)
  moreover have "svc_executed yield_code (ss_mem task_started) (cpu_psp task_cpu) 1"
    using started_fields by (simp add: svc_executed_def yield_code_def ldw_def)
  ultimately have y: "run_step yield_code task_started (fst (SVC_Handler yield_code task_started task_cpu))"
    using started_fields by (intro run_svc) (simp_all add: task_cpu_def)
  have "\<not> ss_pendsv idle_scheduler" by (simp add: idle_scheduler_def)
  from run_never_aborts[OF idle_startable this idle_start run_more[OF r y]] show ?thesis by blast
qed

end

