(* ===== verification/Scheduler_Wake.thy ===== *)
theory Scheduler_Wake
  imports Scheduler_Service
begin

unbundle bit_operations_syntax

text \<open>
  Waiting and waking: what an event wait and a timed block do to the task that calls them,
  what a signal does to the tasks that wait, and when a tick ends a timed block.
\<close>

section \<open>The dispatcher on a wait\<close>

text \<open>The state and frame on which a task's SVC is accepted.\<close>

definition svc_entry :: "(u32 \<Rightarrow> u16) \<Rightarrow> scheduler \<Rightarrow> u32 \<Rightarrow> u32 \<Rightarrow> bool" where
  "svc_entry code s sp n \<longleftrightarrow> running s \<and> ss_current_index s < SCHEDULER_TASK_COUNT
     \<and> scheduler_frame_pointer_valid (ss_tasks s ! ss_current_index s) sp
     \<and> scheduler_decode_svc_number code (ss_mem s) sp = n"

lemma dispatch_wait:
  assumes "svc_entry code s sp 3" "lr AND 4 \<noteq> 0"
  shows "scheduler_svc_dispatch code s sp lr =
    (case svc_wait_events s sp of (s', Some p) \<Rightarrow> (s', p) | (s', None) \<Rightarrow> svc_reschedule s')"
  using assms by (auto simp: svc_entry_def scheduler_svc_dispatch_def running_def scheduler_frame_pointer_valid_def)

lemma dispatch_timed:
  assumes "svc_entry code s sp 4" "lr AND 4 \<noteq> 0"
  shows "scheduler_svc_dispatch code s sp lr =
    (case svc_timed_block s sp of (s', Some p) \<Rightarrow> (s', p) | (s', None) \<Rightarrow> svc_reschedule s')"
  using assms by (auto simp: svc_entry_def scheduler_svc_dispatch_def running_def scheduler_frame_pointer_valid_def)

text \<open>Rescheduling leaves the tasks, their events and the memory alone.\<close>

lemma abort_run_fields [simp]:
  "ss_tasks (scheduler_abort_run s) = ss_tasks s" "ss_pending_events (scheduler_abort_run s) = ss_pending_events s"
  "ss_mem (scheduler_abort_run s) = ss_mem s" "ss_now_ms (scheduler_abort_run s) = ss_now_ms s"
  by (simp_all add: scheduler_abort_run_def scheduler_clear_pending_pendsv_def)

lemma reschedule_fields [simp]:
  "ss_tasks (fst (svc_reschedule s)) = ss_tasks s" "ss_pending_events (fst (svc_reschedule s)) = ss_pending_events s"
  "ss_mem (fst (svc_reschedule s)) = ss_mem s" "ss_now_ms (fst (svc_reschedule s)) = ss_now_ms s"
  by (simp_all add: svc_reschedule_def Let_def scheduler_clear_pending_pendsv_def)

definition blocked_on :: "scheduler_task \<Rightarrow> u32 \<Rightarrow> u32 option \<Rightarrow> bool" where
  "blocked_on t events deadline \<longleftrightarrow> t_state t = SCHEDULER_TASK_BLOCKED \<and> t_wait_events t = events
     \<and> t_wake_events t = 0 \<and> t_deadline_active t = (deadline \<noteq> None)
     \<and> (\<forall>d. deadline = Some d \<longrightarrow> t_deadline_ms t = d)"

lemma signal_match_bit:
  "bit (signal_match P t) b \<Longrightarrow> t_state t = SCHEDULER_TASK_BLOCKED \<and> bit (t_wait_events t) b"
  by (auto simp: signal_match_def signal_wakes_def bit_and_iff split: if_splits)

section \<open>A concrete run\<close>

text \<open>Task 0 runs, with a frame whose \<open>pc\<close> follows an SVC and whose \<open>r0\<close>, \<open>r1\<close> are \<open>w\<close>, \<open>d\<close>.\<close>

definition demo_code :: "u16 \<Rightarrow> u32 \<Rightarrow> u16" where
  "demo_code n = (\<lambda>_. 0xDF00 OR n)"

definition demo_state :: "u32 \<Rightarrow> u32 \<Rightarrow> scheduler" where
  "demo_state w d = idle_started\<lparr>ss_current_index := 0,
     ss_mem := (\<lambda>_. 0)(0x11E0 := w, 0x11E4 := d, 0x11F8 := 0x2002)\<rparr>"

lemma demo_fields:
  "ss_tasks (demo_state w d) = [ready_task, unused_task]" "ss_current_index (demo_state w d) = 0"
  "ss_active (demo_state w d)" "ss_pending_events (demo_state w d) = 0" "ss_now_ms (demo_state w d) = 0"
  "ss_completed_count (demo_state w d) = 0" "ss_target_count (demo_state w d) = 1"
  "ldw (ss_mem (demo_state w d)) 0x11C0 8 = w" "ldw (ss_mem (demo_state w d)) 0x11C0 9 = d"
  "ldw (ss_mem (demo_state w d)) 0x11C0 14 = 0x2002"
  by (simp_all add: demo_state_def idle_started_def idle_scheduler_def ldw_def word_at_def)

lemma demo_entry:
  assumes "n = 3 \<or> n = 4"
  shows "svc_entry (demo_code (of_nat n)) (demo_state w d) 0x11C0 (of_nat n)"
proof -
  have "tasks_ok (demo_state w d)"
    by (simp add: tasks_ok_def demo_fields task_ok_def ready_task_facts live_count_def live_def word_le_nat_alt)
  then have "running (demo_state w d)"
    by (simp add: running_def demo_fields live_count_def live_def is_ready_def ready_task_facts)
  moreover have "scheduler_decode_svc_number (demo_code (of_nat n)) (ss_mem (demo_state w d)) 0x11C0 = of_nat n"
    using assms by (auto simp: scheduler_decode_svc_number_def demo_fields Let_def demo_code_def)
  ultimately show ?thesis by (simp add: svc_entry_def demo_fields ready_task_facts)
qed

section \<open>Properties\<close>

text \<open>
  A wait loses no event and takes no other: if a requested event is pending, the task gets
  exactly the requested pending bits in its \<open>r0\<close> slot, they alone are cleared, and it goes on at
  once; if none is, the pending events stay as they are and the task is blocked, with its
  frame saved and its memory untouched, and another task or the host runs.
\<close>
theorem wait_takes_pending_or_blocks:
  assumes e: "svc_entry code s sp 3" and lr: "lr AND 4 \<noteq> 0" and w: "ldw (ss_mem s) sp 8 = w" "w \<noteq> 0"
    and r: "scheduler_svc_dispatch code s sp lr = (s', p)"
  shows "(ss_pending_events s AND w \<noteq> 0 \<longrightarrow> p = sp \<and> ss_current_index s' = ss_current_index s
        \<and> t_state (ss_tasks s' ! ss_current_index s) = SCHEDULER_TASK_READY
        \<and> t_wake_events (ss_tasks s' ! ss_current_index s) = ss_pending_events s AND w
        \<and> ss_pending_events s' = ss_pending_events s AND NOT w
        \<and> ss_mem s' = stw (ss_mem s) sp 8 (ss_pending_events s AND w))
    \<and> (ss_pending_events s AND w = 0 \<longrightarrow> blocked_on (ss_tasks s' ! ss_current_index s) w None
        \<and> t_saved_sp (ss_tasks s' ! ss_current_index s) = sp
        \<and> ss_pending_events s' = ss_pending_events s \<and> ss_mem s' = ss_mem s
        \<and> ss_current_index s' \<noteq> ss_current_index s)"
proof -
  have run: "running s" "ss_current_index s < 2" "scheduler_frame_pointer_valid (ss_tasks s ! ss_current_index s) sp"
    using e by (simp_all add: svc_entry_def)
  note c = running_current[OF run(1,2)]
  have st: "t_state (ss_tasks s ! ss_current_index s) = SCHEDULER_TASK_READY" using c(3) by (simp add: is_ready_def)
  have clear: "ss_pending_events s AND NOT (ss_pending_events s AND w) = ss_pending_events s AND NOT w"
    by (intro bit_eqI) (auto simp: bit_simps)
  show ?thesis
  proof (cases "ss_pending_events s AND w = 0")
    case True
    let ?b = "update_task (save_current s sp) (ss_current_index s) (\<lambda>t. t\<lparr>t_wait_events := w, t_wake_events := 0,
        t_deadline_ms := 0, t_deadline_active := False, t_state := SCHEDULER_TASK_BLOCKED\<rparr>)"
    have s': "(s', p) = svc_reschedule ?b" "s' = fst (svc_reschedule ?b)"
      using r w True unfolding dispatch_wait[OF e lr] by (auto simp: svc_wait_events_def Let_def)
    have ok: "tasks_ok ?b \<and> ss_active ?b"
      using blocked_ok[OF run _ _ refl, of w False 0] True w by (simp add: and.commute)
    have bl: "t_state (ss_tasks s' ! ss_current_index s) = SCHEDULER_TASK_BLOCKED"
      using s'(2) c(4) run(2) by (simp add: update_task_def)
    from reschedule_running[of ?b] ok s'(2) have "running s' \<or> finished s'" by simp
    then have "ss_current_index s' \<noteq> ss_current_index s"
      using bl run(2) by (auto simp: running_def finished_def is_ready_def)
    then show ?thesis using True s'(2) c(4) run(2) by (simp add: update_task_def blocked_on_def)
  next
    case False
    with r w have "(s', p) = (svc_resume_current (save_current s sp\<lparr>ss_pending_events := ss_pending_events s AND NOT w\<rparr>) sp
        (ss_pending_events s AND w) (ss_pending_events s AND w), sp)"
      unfolding dispatch_wait[OF e lr] by (auto simp: svc_wait_events_def Let_def clear simp del: bit.de_Morgan_conj)
    then show ?thesis using False st c(4) run(2) by (simp add: svc_resume_current_def update_task_def Let_def)
  qed
qed

theorem wait_takes_pending_or_blocks_witness:
  "blocked_on (ss_tasks (fst (scheduler_svc_dispatch (demo_code 3) (demo_state 4 0) 0x11C0 0xFFFFFFFD)) ! 0) 4 None"
  using wait_takes_pending_or_blocks[of "demo_code 3" "demo_state 4 0" "0x11C0" "0xFFFFFFFD" 4,
      OF _ _ _ _ prod.collapse[symmetric]] demo_entry[of 3 4 0]
  by (simp add: demo_fields)

text \<open>
  C27: A signal loses no wake-up: every blocked task that waits for one of the pending or
  signalled events becomes ready with exactly the bits it matched, in its \<open>r0\<close> slot and its
  record, and no deadline; no other task is changed; the matched bits alone are consumed,
  so no task is left waiting for an event that is pending; the event register is set, and in
  a preemptive run with a current task a switch is requested when a task was woken.
\<close>
theorem signal_loses_no_wakeup:
  fixes events :: u32
  assumes ok: "tasks_ok s" and act: "ss_active s" and nz: "events \<noteq> 0"
    and sep: "word_at (t_saved_sp (ss_tasks s ! 0)) 8 \<noteq> word_at (t_saved_sp (ss_tasks s ! 1)) 8" and i: "i < 2"
  shows "let t = ss_tasks s ! i; pending = ss_pending_events s OR events; matched = t_wait_events t AND pending;
       s' = scheduler_event_signal s events; t' = ss_tasks s' ! i
    in (if t_state t = SCHEDULER_TASK_BLOCKED \<and> matched \<noteq> 0
        then t_state t' = SCHEDULER_TASK_READY \<and> t_wake_events t' = matched \<and> t_wait_events t' = 0
          \<and> \<not> t_deadline_active t' \<and> ldw (ss_mem s') (t_saved_sp t) 8 = matched
          \<and> ss_pending_events s' AND matched = 0
          \<and> (ss_preempt_enabled s \<and> ss_current_index s < 2 \<longrightarrow> ss_pendsv s')
        else t' = t)
      \<and> (t_state t' = SCHEDULER_TASK_BLOCKED \<longrightarrow> t_wait_events t' AND ss_pending_events s' = 0)
      \<and> (\<forall>b. bit pending b \<and> \<not> bit (ss_pending_events s') b \<longrightarrow>
           (\<exists>j < 2. t_state (ss_tasks s ! j) = SCHEDULER_TASK_BLOCKED \<and> bit (t_wait_events (ss_tasks s ! j)) b))
      \<and> ss_event_register s'"
proof -
  have len: "length (ss_tasks s) = 2" using ok by (simp add: tasks_ok_def)
  note F = event_signal_fields[OF len act nz]
  let ?P = "ss_pending_events s OR events" and ?x = "ss_tasks s ! 0" and ?y = "ss_tasks s ! 1"
  have t': "ss_tasks (scheduler_event_signal s events) ! i = signal_woken ?P (ss_tasks s ! i)"
    using F(1) i len by simp
  have i01: "i = 0 \<or> i = 1" using i by linarith
  have m: "ldw (ss_mem (scheduler_event_signal s events)) (t_saved_sp (ss_tasks s ! i)) 8 = signal_match ?P (ss_tasks s ! i)"
    if "signal_wakes ?P (ss_tasks s ! i)"
    using i01 that sep unfolding F(3) by (auto simp: wake_store_def ldw_def stw_def)
  define q where "q = signal_match ?P ?x OR signal_match ?P ?y"
  have pe: "ss_pending_events (scheduler_event_signal s events) = ?P AND NOT q" using F(2) by (simp add: q_def)
  have cons: "(?P AND NOT q) AND signal_match ?P (ss_tasks s ! i) = 0"
    using i01 by (auto intro!: bit_eqI simp: bit_simps q_def)
  have rest: "t_state (signal_woken ?P (ss_tasks s ! i)) = SCHEDULER_TASK_BLOCKED \<Longrightarrow>
      t_wait_events (signal_woken ?P (ss_tasks s ! i)) AND (?P AND NOT q) = 0"
    by (auto simp: signal_woken_def signal_wakes_def and_subset_zero)
  have only: "\<exists>j < 2. t_state (ss_tasks s ! j) = SCHEDULER_TASK_BLOCKED \<and> bit (t_wait_events (ss_tasks s ! j)) b"
    if b: "bit ?P b" "\<not> bit (?P AND NOT q) b" for b
  proof -
    have "bit (signal_match ?P ?x) b \<or> bit (signal_match ?P ?y) b"
      using b bit_imp_le_length[OF b(1)] unfolding q_def by (simp add: bit_and_iff bit_not_iff bit_or_iff)
    then show ?thesis
    proof
      assume "bit (signal_match ?P ?x) b"
      then show ?thesis using signal_match_bit[of ?P ?x b] by (intro exI[of _ 0]) auto
    next
      assume "bit (signal_match ?P ?y) b"
      then show ?thesis using signal_match_bit[of ?P ?y b] by (intro exI[of _ 1]) auto
    qed
  qed
  have sw: "ss_pendsv (scheduler_event_signal s events)"
    if "signal_wakes ?P (ss_tasks s ! i)" "ss_preempt_enabled s" "ss_current_index s < 2"
    using F(9) that i01 by auto
  show ?thesis
    using m cons rest only F(10) sw unfolding Let_def t' pe
    by (auto simp: signal_woken_def signal_match_def signal_wakes_def)
qed

theorem signal_loses_no_wakeup_witness:
  "let s = demo_state 0 0\<lparr>ss_tasks := [ready_task\<lparr>t_state := SCHEDULER_TASK_BLOCKED, t_wait_events := 5\<rparr>, unused_task],
       ss_current_index := 2\<rparr>
   in t_state (ss_tasks (scheduler_event_signal s 4) ! 0) = SCHEDULER_TASK_READY
     \<and> t_wake_events (ss_tasks (scheduler_event_signal s 4) ! 0) = 4"
proof -
  let ?s = "demo_state 0 0\<lparr>ss_tasks := [ready_task\<lparr>t_state := SCHEDULER_TASK_BLOCKED, t_wait_events := 5\<rparr>, unused_task],
       ss_current_index := 2\<rparr>"
  have "tasks_ok ?s"
    by (simp add: tasks_ok_def demo_fields task_ok_def ready_task_facts live_count_def live_def word_le_nat_alt)
  from signal_loses_no_wakeup[OF this, of 4 0] show ?thesis
    by (simp add: demo_fields ready_task_facts word_at_def unused_task_def Let_def)
qed

text \<open>Modular time: a deadline less than \<open>2 ^ 31\<close> ms away is reached exactly when it is due.\<close>

lemma time_reached_iff:
  fixes now dl e :: u32
  assumes "dl \<le> 0x7FFFFFFF" "e \<le> 0x7FFFFFFF"
  shows "scheduler_time_reached (now + e) (now + dl) \<longleftrightarrow> dl \<le> e"
proof -
  have d: "uint dl < 2 ^ 31" "uint e < 2 ^ 31" using assms by (simp_all add: word_le_def)
  have "scheduler_time_reached (now + e) (now + dl) \<longleftrightarrow> \<not> bit (uint (e - dl)) 31"
    by (simp add: scheduler_time_reached_def sint_uint)
  also have "\<dots> \<longleftrightarrow> dl \<le> e"
  proof (cases "dl \<le> e")
    case True
    then have "uint (e - dl) = uint e - uint dl" by (simp add: uint_minus_simple_alt word_le_def)
    moreover have "uint dl \<le> uint e" "0 \<le> uint dl" using True by (simp_all add: word_le_def)
    ultimately have "0 \<le> uint (e - dl) \<and> uint (e - dl) < 2 ^ 31" using d by linarith
    then have "uint (e - dl) div 2 ^ 31 = 0" using div_pos_pos_trivial by blast
    with True show ?thesis by (simp add: bit_iff_odd)
  next
    case False
    have lt: "uint e < uint dl" "0 \<le> uint e" using False by (simp_all add: word_le_def)
    let ?k = "uint e - uint dl + 4294967296"
    have k: "2 ^ 31 \<le> ?k" "?k < 2 ^ 32" using d lt by (simp_all, linarith)
    have "uint (e - dl) = (uint e - uint dl) mod 4294967296" by (simp add: uint_word_ariths)
    also have "\<dots> = ?k mod 4294967296" by (rule mod_add_self2[symmetric])
    also have "\<dots> = ?k" by (rule mod_pos_pos_trivial) (use k in simp_all)
    finally have "2 ^ 31 \<le> uint (e - dl) \<and> uint (e - dl) < 2 ^ 32" using k by simp
    moreover have "x div 2147483648 = 1" if "2147483648 \<le> x" "x < 4294967296" for x :: int
      using that by linarith
    ultimately have "uint (e - dl) div 2 ^ 31 = 1" by simp
    with False show ?thesis by (simp add: bit_iff_odd)
  qed
  finally show ?thesis .
qed

text \<open>
  C34: Time-outs are exact: a timed block of 1 to \<open>0x7FFFFFFF\<close> ms on no pending event blocks the
  task with the deadline at that distance, and the tick \<open>e\<close> ms later (\<open>e < 2 ^ 31\<close>, across the
  wrap of the clock too) wakes it if and only if at least the time-out has passed, with result
  0 for an event wait and 1 for a sleep; an earlier tick changes nothing of it.
\<close>
theorem timeouts_are_exact:
  fixes e :: u32
  assumes en: "svc_entry code s sp 4" and lr: "lr AND 4 \<noteq> 0" and w: "ldw (ss_mem s) sp 8 = w"
    and d: "ldw (ss_mem s) sp 9 = d" "0 < d" "d \<le> 0x7FFFFFFF" and e: "e \<le> 0x7FFFFFFF"
    and np: "ss_pending_events s AND w = 0"
    and sep: "word_at sp 8 \<noteq> word_at (t_saved_sp (ss_tasks s ! (1 - ss_current_index s))) 8"
  shows "let i = ss_current_index s; s' = fst (scheduler_svc_dispatch code s sp lr);
       s'' = scheduler_tick s' (ss_now_ms s + e)
    in blocked_on (ss_tasks s' ! i) w (Some (ss_now_ms s + d))
      \<and> (if d \<le> e then t_state (ss_tasks s'' ! i) = SCHEDULER_TASK_READY \<and> t_wake_events (ss_tasks s'' ! i) = 0
            \<and> ldw (ss_mem s'') sp 8 = (if w = 0 then 1 else 0)
          else ss_tasks s'' ! i = ss_tasks s' ! i)"
proof -
  have run: "running s" "ss_current_index s < 2" "scheduler_frame_pointer_valid (ss_tasks s ! ss_current_index s) sp"
    using en by (simp_all add: svc_entry_def)
  note c = running_current[OF run(1,2)]
  let ?i = "ss_current_index s"
  let ?b = "update_task (save_current s sp) ?i (\<lambda>t. t\<lparr>t_wait_events := w, t_wake_events := 0,
      t_deadline_ms := ss_now_ms s + d, t_deadline_active := True, t_state := SCHEDULER_TASK_BLOCKED\<rparr>)"
  let ?s' = "fst (scheduler_svc_dispatch code s sp lr)"
  have dd: "d \<noteq> 0" "\<not> 0x7FFFFFFF < d" using d by (auto simp: not_less)
  have s': "?s' = fst (svc_reschedule ?b)"
    using np w dd d(1) unfolding dispatch_timed[OF en lr] svc_timed_block_def Let_def by simp
  have ok: "tasks_ok ?b \<and> ss_active ?b"
    using blocked_ok[OF run _ _ refl, of w True "ss_now_ms s + d"] np by (simp add: and.commute)
  define t where "t = (ss_tasks s ! ?i)\<lparr>t_saved_sp := sp, t_wait_events := w, t_wake_events := 0,
      t_deadline_ms := ss_now_ms s + d, t_deadline_active := True, t_state := SCHEDULER_TASK_BLOCKED\<rparr>"
  have tasks: "ss_tasks ?s' = (ss_tasks s)[?i := t]"
    using c(4) run(2) by (simp add: s' update_task_def t_def)
  have ti: "ss_tasks ?s' ! ?i = t" "length (ss_tasks ?s') = 2" using c(4) run(2) by (simp_all add: tasks)
  have "live t" "t \<in> set (ss_tasks ?s')"
    using c(4) run(2) by (simp_all add: t_def live_def tasks set_update_memI)
  then have "live_count (ss_tasks ?s') \<noteq> 0" using live_count_zero by blast
  with reschedule_running[of ?b] ok s' have "running ?s'" by (auto simp: finished_def)
  then have act: "ss_active ?s'" by (simp add: running_def)
  note F = tick_fields[OF ti(2) act, of "ss_now_ms s + e"]
  have wk: "tick_wakes (ss_now_ms s + e) t \<longleftrightarrow> d \<le> e"
    using time_reached_iff[OF d(3) e] by (simp add: tick_wakes_def t_def)
  have tk: "ss_tasks (scheduler_tick ?s' (ss_now_ms s + e)) ! ?i = tick_woken (ss_now_ms s + e) t"
    using F(1) ti c(4) run(2) by simp
  have mem: "ldw (ss_mem (scheduler_tick ?s' (ss_now_ms s + e))) sp 8 = (if w = 0 then 1 else 0)" if "d \<le> e"
  proof -
    have o: "ss_tasks ?s' ! (1 - ?i) = ss_tasks s ! (1 - ?i)" 
      by (simp only: tasks, rule nth_list_update_neq) (use run(2) in presburger)
    have sp: "t_saved_sp t = sp" "t_wait_events t = w" by (simp_all add: t_def)
    consider "?i = 0" | "?i = 1" using run(2) by linarith
    then show ?thesis
    proof cases
      case 1
      with o ti(1) sep sp wk that show ?thesis unfolding F(2) by (simp add: wake_store_def ldw_def stw_def)
    next
      case 2
      with o ti(1) sep sp wk that show ?thesis unfolding F(2) by (simp add: wake_store_def ldw_def stw_def)
    qed
  qed
  show ?thesis using tk wk mem ti by (auto simp: Let_def blocked_on_def t_def tick_woken_def)
qed

theorem timeouts_are_exact_witness:
  "t_state (ss_tasks (scheduler_tick (fst (scheduler_svc_dispatch (demo_code 4) (demo_state 0 20) 0x11C0 0xFFFFFFFD)) 25) ! 0)
     = SCHEDULER_TASK_READY"
  using timeouts_are_exact[of "demo_code 4" "demo_state 0 20" "0x11C0" "0xFFFFFFFD" 0 20 25] demo_entry[of 4 0 20]
  by (simp add: demo_fields word_at_def unused_task_def Let_def word_less_nat_alt word_le_nat_alt)

end
