(* ===== verification/Scheduler_Context.thy ===== *)
theory Scheduler_Context
  imports Scheduler_Wake
begin

unbundle bit_operations_syntax

text \<open>
  Context switches: which task a preemption leaves running, and that a task that is switched
  out finds its registers as it left them, whatever happens while it is away.
\<close>

section \<open>Frames and stacks\<close>

definition stack_bounds :: "scheduler \<Rightarrow> (u32 \<times> u32) list" where
  "stack_bounds s = map (\<lambda>t. (t_stack_low t, t_stack_high t)) (ss_tasks s)"

text \<open>Two stacks that hold a frame and share no address.\<close>

definition in_bounds :: "u32 \<times> u32 \<Rightarrow> u32 \<Rightarrow> bool" where
  "in_bounds b a \<longleftrightarrow> fst b \<le> a \<and> a < snd b"

definition stacks_apart :: "scheduler \<Rightarrow> bool" where
  "stacks_apart s \<longleftrightarrow> length (stack_bounds s) = SCHEDULER_TASK_COUNT
     \<and> (\<forall>b \<in> set (stack_bounds s). unat (fst b) + 64 \<le> unat (snd b))
     \<and> (\<forall>a. \<not> (in_bounds (stack_bounds s ! 0) a \<and> in_bounds (stack_bounds s ! 1) a))"

lemma stacks_apart_bounds: "stack_bounds s' = stack_bounds s \<Longrightarrow> stacks_apart s' = stacks_apart s"
  by (simp add: stacks_apart_def)

lemma stacks_apartD:
  assumes "stacks_apart s" "i < 2"
  shows "unat (t_stack_low (ss_tasks s ! i)) + 64 \<le> unat (t_stack_high (ss_tasks s ! i))"
    "j < 2 \<Longrightarrow> in_stack (ss_tasks s ! i) a \<Longrightarrow> in_stack (ss_tasks s ! j) a \<Longrightarrow> i = j"
proof -
  have len: "length (ss_tasks s) = 2" using assms(1) by (simp add: stacks_apart_def stack_bounds_def)
  have n: "stack_bounds s ! k = (t_stack_low (ss_tasks s ! k), t_stack_high (ss_tasks s ! k))" if "k < 2" for k
    using that len by (simp add: stack_bounds_def)
  have "stack_bounds s ! i \<in> set (stack_bounds s)" using assms by (simp add: stacks_apart_def)
  then show "unat (t_stack_low (ss_tasks s ! i)) + 64 \<le> unat (t_stack_high (ss_tasks s ! i))"
    using assms(1) n[OF assms(2)] unfolding stacks_apart_def by fastforce
  have eq: "in_bounds (stack_bounds s ! k) a = in_stack (ss_tasks s ! k) a" if "k < 2" for k
    using n[OF that] by (simp add: in_bounds_def in_stack_def)
  assume "j < 2" "in_stack (ss_tasks s ! i) a" "in_stack (ss_tasks s ! j) a"
  moreover have "\<not> (in_stack (ss_tasks s ! 0) a \<and> in_stack (ss_tasks s ! 1) a)"
    using eq[of 0] eq[of 1] assms(1)[unfolded stacks_apart_def, THEN conjunct2, THEN conjunct2, rule_format, of a]
    by simp
  moreover have "i = 0 \<or> i = 1" "j = 0 \<or> j = 1" using assms(2) \<open>j < 2\<close> by linarith+
  ultimately show "i = j" by auto
qed

lemma unat_offset: "i < 16 \<Longrightarrow> unat (4 * of_nat i :: u32) = 4 * i"
  using u32_of_nat[of "4 * i"] by simp

lemma frame_in_stack:
  assumes "scheduler_frame_pointer_valid t sp" "unat (t_stack_low t) + 64 \<le> unat (t_stack_high t)" "i < 16"
  shows "in_stack t (word_at sp i)"
proof -
  have hi: "unat (t_stack_high t - 64) = unat (t_stack_high t) - 64"
    using assms(2) by (simp add: unat_sub_if')
  have b: "unat (t_stack_low t) \<le> unat sp" "unat sp + 64 \<le> unat (t_stack_high t)"
    using assms(1,2) hi by (auto simp: scheduler_frame_pointer_valid_def word_le_nat_alt)
  note o = unat_offset[OF assms(3)]
  have "unat sp + 4 * i < 2 ^ 32"
    using b(2) assms(3) unsigned_less[of "t_stack_high t", where ?'a = nat] by simp
  then have "unat (word_at sp i) = unat sp + 4 * i"
    unfolding word_at_def by (subst unat_word_ariths) (simp add: o)
  then show ?thesis using b assms(3) by (simp add: in_stack_def word_le_nat_alt word_less_nat_alt)
qed

lemma word_at_inj:
  assumes "i < 16" "j < 16" "word_at sp i = word_at sp j"
  shows "i = j"
proof -
  have "(4 * of_nat i :: u32) = 4 * of_nat j" using assms(3) unfolding word_at_def by (rule add_left_imp_eq)
  then have "4 * i = 4 * j" using unat_offset[OF assms(1)] unat_offset[OF assms(2)] by metis
  then show ?thesis by simp
qed

text \<open>The words of the frame but \<open>r0\<close>, which is the result slot.\<close>

definition same_frame :: "(u32 \<Rightarrow> u32) \<Rightarrow> (u32 \<Rightarrow> u32) \<Rightarrow> u32 \<Rightarrow> bool" where
  "same_frame mem mem' sp \<longleftrightarrow> (\<forall>k < 16. k \<noteq> 8 \<longrightarrow> ldw mem' sp k = ldw mem sp k)"

lemma frames_apart:
  assumes apart: "stacks_apart s" and ij: "i < 2" "j < 2" "i \<noteq> j"
    and fi: "scheduler_frame_pointer_valid (ss_tasks s ! i) sp" and fj: "scheduler_frame_pointer_valid (ss_tasks s ! j) sp'"
    and k: "k < 16"
  shows "word_at sp k \<noteq> word_at sp' 8"
proof
  note g = stacks_apartD(1)[OF apart]
  assume "word_at sp k = word_at sp' 8"
  then have "in_stack (ss_tasks s ! i) (word_at sp k) \<and> in_stack (ss_tasks s ! j) (word_at sp k)"
    using frame_in_stack[OF fi g[OF ij(1)] k] frame_in_stack[OF fj g[OF ij(2)], of 8] by simp
  then show False using stacks_apartD(2)[OF apart ij(1,2)] ij(3) by blast
qed

text \<open>A store into word 8 of a valid frame leaves every frame of the other task alone.\<close>

lemma store_keeps_frame:
  assumes apart: "stacks_apart s" and ij: "i < 2" "j < 2"
    and fi: "scheduler_frame_pointer_valid (ss_tasks s ! i) sp" and fj: "scheduler_frame_pointer_valid (ss_tasks s ! j) sp'"
    and own: "i = j \<Longrightarrow> sp' = sp"
  shows "same_frame mem (stw mem sp' 8 v) sp"
    "i \<noteq> j \<Longrightarrow> ldw (stw mem sp' 8 v) sp 8 = ldw mem sp 8"
proof -
  show "same_frame mem (stw mem sp' 8 v) sp"
  proof (cases "i = j")
    case True
    then show ?thesis using own word_at_inj[of _ 8 sp] by (fastforce simp: same_frame_def ldw_def stw_def)
  next
    case False
    from frames_apart[OF apart ij False fi fj] show ?thesis by (auto simp: same_frame_def ldw_def stw_def)
  qed
  assume "i \<noteq> j"
  from frames_apart[OF apart ij this fi fj, of 8] show "ldw (stw mem sp' 8 v) sp 8 = ldw mem sp 8"
    by (simp add: ldw_def stw_def)
qed

lemma same_frame_refl [simp]: "same_frame mem mem sp"
  by (simp add: same_frame_def)

lemma same_frame_trans: "same_frame a b sp \<Longrightarrow> same_frame b c sp \<Longrightarrow> same_frame a c sp"
  by (simp add: same_frame_def)

section \<open>What a step does to a task that is away\<close>

text \<open>
  Task \<open>i\<close> keeps its frame, and all stacks their place; the result slot is written only for
  a blocked task.
\<close>

definition keeps_task :: "nat \<Rightarrow> scheduler \<Rightarrow> scheduler \<Rightarrow> bool" where
  "keeps_task i s s' \<longleftrightarrow> stack_bounds s' = stack_bounds s
     \<and> t_saved_sp (ss_tasks s' ! i) = t_saved_sp (ss_tasks s ! i)
     \<and> live (ss_tasks s' ! i) = live (ss_tasks s ! i)
     \<and> same_frame (ss_mem s) (ss_mem s') (t_saved_sp (ss_tasks s ! i))
     \<and> (t_state (ss_tasks s ! i) = SCHEDULER_TASK_READY \<longrightarrow> t_state (ss_tasks s' ! i) = SCHEDULER_TASK_READY
          \<and> ldw (ss_mem s') (t_saved_sp (ss_tasks s ! i)) 8 = ldw (ss_mem s) (t_saved_sp (ss_tasks s ! i)) 8)"

lemma keeps_task_same: "ss_tasks s' = ss_tasks s \<Longrightarrow> ss_mem s' = ss_mem s \<Longrightarrow> keeps_task i s s'"
  by (simp add: keeps_task_def stack_bounds_def)

lemma keeps_task_other:
  assumes "j \<noteq> i" "ss_tasks s' = (ss_tasks s)[j := t]" "t_stack_low t = t_stack_low (ss_tasks s ! j)"
    "t_stack_high t = t_stack_high (ss_tasks s ! j)" "same_frame (ss_mem s) (ss_mem s') (t_saved_sp (ss_tasks s ! i))"
    "ldw (ss_mem s') (t_saved_sp (ss_tasks s ! i)) 8 = ldw (ss_mem s) (t_saved_sp (ss_tasks s ! i)) 8"
  shows "keeps_task i s s'"
  using assms by (simp add: keeps_task_def stack_bounds_def map_update)
    (metis (mono_tags, lifting) list_update_id map_update)

definition away_ok :: "nat \<Rightarrow> scheduler \<Rightarrow> bool" where
  "away_ok i s \<longleftrightarrow> running s \<and> stacks_apart s \<and> i < SCHEDULER_TASK_COUNT \<and> live (ss_tasks s ! i)"

lemma away_frame: "away_ok i s \<Longrightarrow> scheduler_frame_pointer_valid (ss_tasks s ! i) (t_saved_sp (ss_tasks s ! i))"
  by (auto simp: away_ok_def running_def tasks_ok_def task_ok_def)

text \<open>An SVC of the current task changes its own entry, and at most its own result slot.\<close>

definition own_change :: "scheduler \<Rightarrow> u32 \<Rightarrow> scheduler \<Rightarrow> bool" where
  "own_change s sp s' \<longleftrightarrow> (\<exists>t. ss_tasks s' = (ss_tasks s)[ss_current_index s := t]
       \<and> t_stack_low t = t_stack_low (ss_tasks s ! ss_current_index s)
       \<and> t_stack_high t = t_stack_high (ss_tasks s ! ss_current_index s))
     \<and> (ss_mem s' = ss_mem s \<or> (\<exists>v. ss_mem s' = stw (ss_mem s) sp 8 v))"

lemma own_change_reschedule: "own_change s sp s' \<Longrightarrow> own_change s sp (fst (svc_reschedule s'))"
  by (simp add: own_change_def)

lemma own_change_saved:
  assumes "ss_current_index s < 2" "length (ss_tasks s) = 2"
  shows "own_change s sp (save_current s sp)" "own_change s sp (svc_exit s sp)"
  using assms by (auto simp: own_change_def svc_exit_def update_task_def Let_def)

lemma own_change_resume:
  assumes "ss_current_index s < 2" "length (ss_tasks s) = 2"
  shows "own_change s sp (svc_resume_current (save_current s sp) sp w v)"
    "own_change s sp (svc_resume_current (save_current s sp\<lparr>ss_pending_events := e\<rparr>) sp w v)"
  using assms by (auto simp: own_change_def svc_resume_current_def update_task_def Let_def)

lemma own_change_block:
  assumes "ss_current_index s < 2" "length (ss_tasks s) = 2"
  shows "own_change s sp (update_task (save_current s sp) (ss_current_index s) (\<lambda>t. t\<lparr>t_wait_events := e, t_wake_events := 0,
     t_deadline_ms := d, t_deadline_active := a, t_state := SCHEDULER_TASK_BLOCKED\<rparr>))"
  using assms by (auto simp: own_change_def update_task_def)

lemmas own_changes = own_change_saved own_change_resume own_change_block own_change_reschedule

lemma wait_own_change:
  assumes "ss_current_index s < 2" "length (ss_tasks s) = 2" "ldw (ss_mem s) sp 8 \<noteq> 0"
  shows "own_change s sp (fst (svc_wait_events s sp))"
  using assms by (auto simp: svc_wait_events_def Let_def own_changes simp del: bit.de_Morgan_conj)

lemma timed_own_change:
  assumes "ss_current_index s < 2" "length (ss_tasks s) = 2"
  shows "own_change s sp (fst (svc_timed_block s sp))"
  using assms by (simp add: svc_timed_block_def Let_def own_changes del: bit.de_Morgan_conj)

lemma svc_own_change:
  assumes r: "running s" "ss_current_index s < 2" "scheduler_frame_pointer_valid (ss_tasks s ! ss_current_index s) sp"
    and n: "scheduler_decode_svc_number code (ss_mem s) sp \<in> {1, 2, 3, 4}"
      "scheduler_decode_svc_number code (ss_mem s) sp = 3 \<longrightarrow> ldw (ss_mem s) sp 8 \<noteq> 0" and lr: "lr AND 4 \<noteq> 0"
  shows "own_change s sp (fst (scheduler_svc_dispatch code s sp lr))"
proof -
  note c = running_current[OF r(1,2)]
  have sp: "sp \<noteq> 0" using r(3) by (simp add: scheduler_frame_pointer_valid_def)
  note ch = own_change_saved[OF r(2) c(4)]
  obtain w p where w: "svc_wait_events s sp = (w, p)" by fastforce
  obtain q u where q: "svc_timed_block s sp = (q, u)" by fastforce
  consider "scheduler_decode_svc_number code (ss_mem s) sp = 1" | "scheduler_decode_svc_number code (ss_mem s) sp = 2"
    | "scheduler_decode_svc_number code (ss_mem s) sp = 3" | "scheduler_decode_svc_number code (ss_mem s) sp = 4"
    using n(1) by auto
  then show ?thesis
  proof cases
    case 1 then show ?thesis using lr c(2) r(2,3) sp ch(1)
      by (simp add: scheduler_svc_dispatch_def svc_yield_def own_change_reschedule)
  next
    case 2 then show ?thesis using lr c(2) r(2,3) sp ch(2)
      by (simp add: scheduler_svc_dispatch_def own_change_reschedule)
  next
    case 3 then show ?thesis using lr c(2) r(2,3) sp w n(2) wait_own_change[OF r(2) c(4), of sp]
      by (cases p) (simp_all add: scheduler_svc_dispatch_def own_change_reschedule)
  next
    case 4 then show ?thesis using lr c(2) r(2,3) sp q timed_own_change[OF r(2) c(4), of sp]
      by (cases u) (simp_all add: scheduler_svc_dispatch_def own_change_reschedule)
  qed
qed

lemma pendsv_fields:
  "ss_tasks (fst (scheduler_pendsv_dispatch s sp)) = ss_tasks s \<or> ss_tasks (fst (scheduler_pendsv_dispatch s sp))
     = (ss_tasks s)[ss_current_index s := (ss_tasks s ! ss_current_index s)\<lparr>t_saved_sp := sp\<rparr>]"
  "ss_mem (fst (scheduler_pendsv_dispatch s sp)) = ss_mem s"
  by (simp_all add: scheduler_pendsv_dispatch_def Let_def)

lemma pendsv_own_change: "own_change s sp (fst (scheduler_pendsv_dispatch (s\<lparr>ss_pendsv := b\<rparr>) sp))"
  using pendsv_fields[of "s\<lparr>ss_pendsv := b\<rparr>" sp] unfolding own_change_def
  by (auto intro: exI[of _ "ss_tasks s ! ss_current_index s"]
      exI[of _ "(ss_tasks s ! ss_current_index s)\<lparr>t_saved_sp := sp\<rparr>"])

lemma own_change_keeps:
  assumes a: "away_ok i s" and r: "ss_current_index s < 2" "i \<noteq> ss_current_index s"
    "scheduler_frame_pointer_valid (ss_tasks s ! ss_current_index s) sp" and o: "own_change s sp s'"
  shows "keeps_task i s s'"
proof -
  from o obtain t where t: "ss_tasks s' = (ss_tasks s)[ss_current_index s := t]"
    "t_stack_low t = t_stack_low (ss_tasks s ! ss_current_index s)"
    "t_stack_high t = t_stack_high (ss_tasks s ! ss_current_index s)" by (auto simp: own_change_def)
  have a2: "stacks_apart s" "i < 2" using a by (simp_all add: away_ok_def)
  have "same_frame (ss_mem s) (ss_mem s') (t_saved_sp (ss_tasks s ! i))"
    "ldw (ss_mem s') (t_saved_sp (ss_tasks s ! i)) 8 = ldw (ss_mem s) (t_saved_sp (ss_tasks s ! i)) 8"
    using o store_keeps_frame[OF a2(1,2) r(1) away_frame[OF a] r(3)] r(2) by (auto simp: own_change_def)
  then show ?thesis by (rule keeps_task_other[OF r(2)[symmetric] t])
qed

lemma wake_store_keeps:
  assumes a: "away_ok i s" "j < 2" and w: "w \<Longrightarrow> t_state (ss_tasks s ! j) = SCHEDULER_TASK_BLOCKED"
  shows "same_frame mem (wake_store mem w (ss_tasks s ! j) v) (t_saved_sp (ss_tasks s ! i))"
    "t_state (ss_tasks s ! i) = SCHEDULER_TASK_READY \<Longrightarrow>
      ldw (wake_store mem w (ss_tasks s ! j) v) (t_saved_sp (ss_tasks s ! i)) 8 = ldw mem (t_saved_sp (ss_tasks s ! i)) 8"
proof -
  have a2: "stacks_apart s" "i < 2" "tasks_ok s" using a by (simp_all add: away_ok_def running_def)
  have f: "scheduler_frame_pointer_valid (ss_tasks s ! j) (t_saved_sp (ss_tasks s ! j))" if w
    using w[OF that] a2(3) a(2) by (auto simp: tasks_ok_def task_ok_def live_def)
  note keep = store_keeps_frame[OF a2(1,2) a(2) away_frame[OF a(1)] f]
  show "same_frame mem (wake_store mem w (ss_tasks s ! j) v) (t_saved_sp (ss_tasks s ! i))"
    using keep(1) by (cases w) (auto simp: wake_store_def)
  show "t_state (ss_tasks s ! i) = SCHEDULER_TASK_READY \<Longrightarrow>
      ldw (wake_store mem w (ss_tasks s ! j) v) (t_saved_sp (ss_tasks s ! i)) 8 = ldw mem (t_saved_sp (ss_tasks s ! i)) 8"
    using keep(2) w by (cases w; cases "i = j") (auto simp: wake_store_def)
qed

lemma two_wake_stores_keep:
  assumes "away_ok i s" "w0 \<Longrightarrow> t_state (ss_tasks s ! 0) = SCHEDULER_TASK_BLOCKED"
    "w1 \<Longrightarrow> t_state (ss_tasks s ! 1) = SCHEDULER_TASK_BLOCKED"
  shows "same_frame mem (wake_store (wake_store mem w0 (ss_tasks s ! 0) v0) w1 (ss_tasks s ! 1) v1) (t_saved_sp (ss_tasks s ! i))"
    "t_state (ss_tasks s ! i) = SCHEDULER_TASK_READY \<Longrightarrow>
      ldw (wake_store (wake_store mem w0 (ss_tasks s ! 0) v0) w1 (ss_tasks s ! 1) v1) (t_saved_sp (ss_tasks s ! i)) 8
      = ldw mem (t_saved_sp (ss_tasks s ! i)) 8"
  using wake_store_keeps[OF assms(1) _ assms(2)] wake_store_keeps[OF assms(1) _ assms(3)]
  by (simp_all add: same_frame_def)

lemma woken_bounds:
  "t_stack_low (signal_woken p t) = t_stack_low t" "t_stack_high (signal_woken p t) = t_stack_high t"
  "t_saved_sp (signal_woken p t) = t_saved_sp t" "t_stack_low (tick_woken n t) = t_stack_low t"
  "t_stack_high (tick_woken n t) = t_stack_high t" "t_saved_sp (tick_woken n t) = t_saved_sp t"
  by (simp_all add: signal_woken_def tick_woken_def)

lemma wakes_blocked:
  "signal_wakes p t \<Longrightarrow> t_state t = SCHEDULER_TASK_BLOCKED" "tick_wakes n t \<Longrightarrow> t_state t = SCHEDULER_TASK_BLOCKED"
  "t_state t = SCHEDULER_TASK_READY \<Longrightarrow> t_state (signal_woken p t) = SCHEDULER_TASK_READY"
  "t_state t = SCHEDULER_TASK_READY \<Longrightarrow> t_state (tick_woken n t) = SCHEDULER_TASK_READY"
  by (auto simp: signal_wakes_def tick_wakes_def signal_woken_def tick_woken_def)

lemma signal_keeps: "away_ok i s \<Longrightarrow> keeps_task i s (scheduler_event_signal s events)"
proof (cases "events = 0")
  case False
  assume a: "away_ok i s"
  then have len: "length (ss_tasks s) = 2" "i < 2" and act: "ss_active s"
    by (simp_all add: away_ok_def running_def tasks_ok_def)
  note F = event_signal_fields[OF len(1) act False]
  show ?thesis unfolding keeps_task_def F(3) stack_bounds_def F(1)
    using len two_wake_stores_keep[OF a wakes_blocked(1) wakes_blocked(1)] by (simp add: woken_bounds live_woken wakes_blocked(3,4) comp_def)
qed (simp add: scheduler_event_signal_def keeps_task_same)

lemma tick_keeps: "away_ok i s \<Longrightarrow> keeps_task i s (scheduler_tick s now_ms)"
proof -
  assume a: "away_ok i s"
  then have len: "length (ss_tasks s) = 2" "i < 2" and act: "ss_active s"
    by (simp_all add: away_ok_def running_def tasks_ok_def)
  note F = tick_fields[OF len(1) act]
  show ?thesis unfolding keeps_task_def F(2) stack_bounds_def F(1)
    using len two_wake_stores_keep[OF a wakes_blocked(2) wakes_blocked(2)] by (simp add: woken_bounds live_woken wakes_blocked(3,4) comp_def)
qed

lemma step_keeps_task:
  assumes st: "sched_step code s s'" and a: "away_ok i s" and i: "i \<noteq> ss_current_index s"
  shows "keeps_task i s s'"
  using st
proof (cases rule: sched_step.cases)
  case (task_runs mem)
  have "ldw mem (t_saved_sp (ss_tasks s ! i)) k = ldw (ss_mem s) (t_saved_sp (ss_tasks s ! i)) k" if "k < 16" for k
    using frame_in_stack[OF away_frame[OF a] stacks_apartD(1) that] a i task_runs(3)
    by (auto simp: ldw_def keeps_other_stacks_def away_ok_def)
  with task_runs show ?thesis by (simp add: keeps_task_def same_frame_def stack_bounds_def)
next
  case (task_svc sp lr)
  have "running s" using a by (simp add: away_ok_def)
  from svc_own_change[OF this task_svc(2-6)] task_svc own_change_keeps[OF a task_svc(2) i task_svc(3)]
  show ?thesis by simp
next
  case (pendsv sp)
  then have "own_change s sp s'" using pendsv_own_change by simp
  with own_change_keeps[OF a pendsv(2) i pendsv(3)] show ?thesis by simp
next
  case host_resume
  then show ?thesis by (intro keeps_task_same) (simp_all add: scheduler_svc_dispatch_def svc_from_host_def Let_def)
next
  case host_park
  then show ?thesis by (intro keeps_task_same) (auto simp: host_iteration_def split: if_splits)
next
  case (signal events) with signal_keeps[OF a] show ?thesis by simp
next
  case (tick now_ms) with tick_keeps[OF a] show ?thesis by simp
qed

section \<open>Properties\<close>

text \<open>Task \<open>i\<close> is away: steps are taken while another task or the host is current.\<close>

inductive away :: "(u32 \<Rightarrow> u16) \<Rightarrow> nat \<Rightarrow> scheduler \<Rightarrow> scheduler \<Rightarrow> bool" for code i s0 where
  away_start: "away code i s0 s0"
| away_step: "away code i s0 s \<Longrightarrow> ss_current_index s \<noteq> i \<Longrightarrow> sched_step code s s' \<Longrightarrow> away code i s0 s'"

lemma away_keeps:
  "away code i s0 s \<Longrightarrow> away_ok i s0 \<Longrightarrow> away_ok i s \<and> keeps_task i s0 s"
proof (induction rule: away.induct)
  case away_start
  then show ?case by (simp add: keeps_task_same)
next
  case (away_step s s')
  then have ok: "away_ok i s" and k: "keeps_task i s0 s" by auto
  from step_keeps_task[OF away_step.hyps(3) ok] away_step.hyps(2) have k': "keeps_task i s s'" by auto
  from k k' have "keeps_task i s0 s'" unfolding keeps_task_def by (auto intro: same_frame_trans)
  moreover have "away_ok i s'"
  proof -
    have b: "stacks_apart s'" "i < 2" "live (ss_tasks s' ! i)"
      using k' ok stacks_apart_bounds[of s' s] by (simp_all add: keeps_task_def away_ok_def)
    then have "ss_tasks s' ! i \<in> set (ss_tasks s')" by (simp add: stacks_apart_def stack_bounds_def)
    then have "\<not> finished s'" using b(3) live_count_zero[of "ss_tasks s'"] by (auto simp: finished_def)
    with step_running[OF away_step.hyps(3)] ok b show ?thesis by (simp add: away_ok_def)
  qed
  ultimately show ?case by blast
qed

lemma ldw_stw_list:
  "length vs + i \<le> 16 \<Longrightarrow> k < 16 \<Longrightarrow>
   ldw (stw_list mem p i vs) p k = (if i \<le> k \<and> k < i + length vs then vs ! (k - i) else ldw mem p k)"
proof (induction vs arbitrary: mem i)
  case (Cons v vs)
  have "ldw (stw mem p i v) p k = (if k = i then v else ldw mem p k)"
    using Cons.prems word_at_inj[of k i p] by (auto simp: ldw_def stw_def)
  then show ?case using Cons.IH[of "Suc i" "stw mem p i v"] Cons.prems
    by (auto simp: nth_Cons' le_Suc_eq Suc_le_eq)
qed auto

lemma load_pushed: "length r = 8 \<Longrightarrow> load_r4_r11 (stw_list mem p 0 r) p = r"
  by (rule nth_equalityI) (simp_all add: load_r4_r11_def ldw_stw_list)

lemma load_same_frame: "same_frame m m' sp \<Longrightarrow> load_r4_r11 m' sp = load_r4_r11 m sp"
  by (simp add: load_r4_r11_def same_frame_def)

text \<open>What a preemption does, before the registers are loaded.\<close>

lemma pendsv_result:
  assumes r: "running s" "ss_current_index s < 2" "scheduler_frame_pointer_valid (ss_tasks s ! ss_current_index s) sp"
    and p: "ss_preempt_enabled s" and d: "scheduler_pendsv_dispatch s sp = (s', r0)"
  shows "running s'" "ss_current_index s' = scheduler_select_next_ready (ss_tasks s') (ss_current_index s)"
    "ss_current_index s' < 2" "r0 = t_saved_sp (ss_tasks s' ! ss_current_index s')" "r0 \<noteq> 0"
    "ss_tasks s' = (ss_tasks s)[ss_current_index s := (ss_tasks s ! ss_current_index s)\<lparr>t_saved_sp := sp\<rparr>]"
    "ss_mem s' = ss_mem s"
proof -
  note c = running_current[OF r(1,2)]
  let ?s1 = "save_current s sp"
  let ?i = "scheduler_find_next_ready ?s1 (ss_current_index s)"
  have ok: "tasks_ok ?s1" using saved_ok[OF r] .
  have "is_ready (ss_tasks ?s1) (ss_current_index s)" using c(3,4) r(2) by (simp add: is_ready_def)
  then have i: "?i < 2" using find_ready_spec(1,2)[OF ok, of "ss_current_index s"] by (metis le_neq_implies_less)
  note fr = ready_frame[OF ok find_ready_spec(3)[OF ok i]]
  have sp: "sp \<noteq> 0" using r(3) by (simp add: scheduler_frame_pointer_valid_def)
  let ?s2 = "(if ?i \<noteq> ss_current_index s then ?s1\<lparr>ss_preempt_switch_count := ss_preempt_switch_count ?s1 + 1\<rparr> else ?s1)
      \<lparr>ss_current_index := ?i\<rparr>"
  have eq: "s' = ?s2" "r0 = t_saved_sp (ss_tasks ?s1 ! ?i)"
    using d c(2) r(2,3) p sp i fr unfolding scheduler_pendsv_dispatch_def Let_def by (auto simp: not_le)
  have f: "ss_tasks ?s2 = ss_tasks ?s1" "ss_current_index ?s2 = ?i" "ss_mem ?s2 = ss_mem s" by simp_all
  show "running s'" using pendsv_running[OF r p] d by simp
  show "ss_current_index s' = scheduler_select_next_ready (ss_tasks s') (ss_current_index s)"
    unfolding eq f by (simp add: scheduler_find_next_ready_def)
  show "ss_current_index s' < 2" unfolding eq f using i .
  show "r0 = t_saved_sp (ss_tasks s' ! ss_current_index s')" unfolding eq f ..
  show "r0 \<noteq> 0" using fr eq(2) by (simp add: scheduler_frame_pointer_valid_def)
  show "ss_tasks s' = (ss_tasks s)[ss_current_index s := (ss_tasks s ! ss_current_index s)\<lparr>t_saved_sp := sp\<rparr>]"
    unfolding eq f by simp
  show "ss_mem s' = ss_mem s" unfolding eq f ..
qed

text \<open>
  A preemption leaves the right task running: PendSV in a preemptive run saves the frame of
  the current task and makes current a ready task of the smallest priority number, the other
  one if both are ready with the same; its frame is the one that is resumed.
\<close>
theorem preemption_runs_best_task:
  assumes "running s" "ss_current_index s < 2" "scheduler_frame_pointer_valid (ss_tasks s ! ss_current_index s) sp"
    and "ss_preempt_enabled s" and d: "scheduler_pendsv_dispatch s sp = (s', r0)"
  shows "is_ready (ss_tasks s') (ss_current_index s')
    \<and> (\<forall>i. is_ready (ss_tasks s) i \<longrightarrow>
        t_priority (ss_tasks s ! ss_current_index s') \<le> t_priority (ss_tasks s ! i)
        \<and> (i \<noteq> ss_current_index s' \<and> t_priority (ss_tasks s ! i) = t_priority (ss_tasks s ! ss_current_index s')
            \<longrightarrow> ss_current_index s' \<noteq> ss_current_index s))
    \<and> t_saved_sp (ss_tasks s' ! ss_current_index s) = sp
    \<and> r0 = t_saved_sp (ss_tasks s' ! ss_current_index s')"
proof -
  note p = pendsv_result[OF assms]
  have len: "length (ss_tasks s') = 2" "priorities_ok (ss_tasks s')"
    using p(1) by (auto simp: running_def tasks_ok_def task_ok_def priorities_ok_def)
  have m: "ss_current_index s mod 2 = ss_current_index s" using assms(2) by simp
  have same: "is_ready (ss_tasks s') i = is_ready (ss_tasks s) i" "t_priority (ss_tasks s' ! i) = t_priority (ss_tasks s ! i)" for i
    using assms(2) len(1) unfolding p(6) is_ready_def by (cases "i = ss_current_index s"; simp)+
  show ?thesis
    using select_spec[OF len, of "ss_current_index s"] p(2-4,6) assms(2) len(1) m unfolding same by auto
qed

text \<open>
  C15: A switched-out task keeps its context: when PendSV switches task \<open>i\<close> out, then through any
  steps taken while it is not current (the other task writing its own memory and making any
  call, ticks, signals, preemptions, the host) its saved frame stays as it is, result slot
  included; resuming it puts the same values in \<open>r4\<close> to \<open>r11\<close> and in the process stack pointer,
  below which the hardware frame is the one that was stacked.
\<close>
theorem preempted_task_keeps_its_context:
  assumes r: "running s" "stacks_apart s" "ss_preempt_enabled s" "ss_current_index s = i" "i < 2"
    and c: "cpu_lr c AND 4 \<noteq> 0" "length (cpu_r4_r11 c) = 8"
    and f: "scheduler_frame_pointer_valid (ss_tasks s ! i) (cpu_psp c - 32)"
    and h: "PendSV_Handler s c = (s1, c1)" and a: "away code i s1 s2"
    and res: "exception_return (s2, t_saved_sp (ss_tasks s2 ! i)) c2 = (s3, c3)"
  shows "cpu_r4_r11 c3 = cpu_r4_r11 c \<and> cpu_psp c3 = cpu_psp c \<and> cpu_lr c3 = SCHEDULER_EXC_RETURN_THREAD_PSP
    \<and> (\<forall>k < 8. ldw (ss_mem s3) (cpu_psp c3) k = ldw (ss_mem s) (cpu_psp c) k)"
proof -
  let ?sp = "cpu_psp c - 32"
  let ?s0 = "s\<lparr>ss_mem := stw_list (ss_mem s) ?sp 0 (cpu_r4_r11 c)\<rparr>"
  obtain s1' r0 where d: "scheduler_pendsv_dispatch ?s0 ?sp = (s1', r0)" by fastforce
  have r0: "running ?s0" "ss_current_index ?s0 < 2" "scheduler_frame_pointer_valid (ss_tasks ?s0 ! ss_current_index ?s0) ?sp"
    "ss_preempt_enabled ?s0"
    using r f by (simp_all add: running_def tasks_ok_def)
  note p = pendsv_result[OF r0 d]
  have s1: "s1 = s1'" using h c d p(5) by (auto simp: PendSV_Handler_def push_r4_r11_def Let_def exception_return_def)
  have len: "length (ss_tasks s) = 2" using r(2) by (simp add: stacks_apart_def stack_bounds_def)
  have ti: "ss_tasks s1 ! i = (ss_tasks s ! i)\<lparr>t_saved_sp := ?sp\<rparr>" using p(6) s1 r(4,5) len by simp
  have st: "t_state (ss_tasks s ! i) = SCHEDULER_TASK_READY" using r(1,4,5) by (simp add: running_def is_ready_def)
  have "stack_bounds s1 = stack_bounds s"
    using p(6) s1 r(4,5) len by (simp add: stack_bounds_def map_update list_update_same_conv)
  then have ok: "away_ok i s1"
    using p(1) s1 r(2,5) st ti stacks_apart_bounds[of s1 s] by (simp add: away_ok_def live_def)
  from away_keeps[OF a ok] ti st have k: "t_saved_sp (ss_tasks s2 ! i) = ?sp" "same_frame (ss_mem s1) (ss_mem s2) ?sp"
    "ldw (ss_mem s2) ?sp 8 = ldw (ss_mem s1) ?sp 8" by (simp_all add: keeps_task_def)
  have nz: "?sp \<noteq> 0" using f by (simp add: scheduler_frame_pointer_valid_def)
  have m1: "ss_mem s1 = stw_list (ss_mem s) ?sp 0 (cpu_r4_r11 c)" using p(7) s1 by simp
  have s3: "s3 = s2" "cpu_r4_r11 c3 = load_r4_r11 (ss_mem s2) ?sp" "cpu_psp c3 = ?sp + 32"
    "cpu_lr c3 = SCHEDULER_EXC_RETURN_THREAD_PSP"
    using res nz by (auto simp: exception_return_def k(1))
  have up: "ldw m (cpu_psp c) n = ldw m ?sp (n + 8)" for m n by (simp add: ldw_def word_at_def algebra_simps)
  have "ldw (ss_mem s2) ?sp (n + 8) = ldw (ss_mem s) ?sp (n + 8)" if "n < 8" for n
  proof -
    have "ldw (ss_mem s2) ?sp (n + 8) = ldw (ss_mem s1) ?sp (n + 8)"
      using that k(2,3) by (cases "n = 0") (simp_all add: same_frame_def)
    also have "\<dots> = ldw (ss_mem s) ?sp (n + 8)" unfolding m1 using that c(2) by (simp add: ldw_stw_list)
    finally show ?thesis .
  qed
  moreover have "load_r4_r11 (ss_mem s2) ?sp = cpu_r4_r11 c"
    using load_same_frame[OF k(2)] load_pushed[OF c(2)] m1 by simp
  ultimately show ?thesis using s3 up by simp
qed

section \<open>A concrete preemption\<close>

definition demo_pair :: scheduler where
  "demo_pair = idle_scheduler\<lparr>ss_tasks := [ready_task, ready_task\<lparr>t_stack_low := 0x2000, t_stack_high := 0x2200,
     t_saved_sp := 0x21C0\<rparr>], ss_active := True, ss_target_count := 2, ss_current_index := 0, ss_preempt_enabled := True\<rparr>"

definition demo_cpu :: cpu where
  "demo_cpu = \<lparr>cpu_r4_r11 = [1, 2, 3, 4, 5, 6, 7, 8], cpu_psp = 0x11C0, cpu_lr = 0xFFFFFFFD\<rparr>"

lemma demo_pair_fields:
  "ss_tasks demo_pair = [ready_task, ready_task\<lparr>t_stack_low := 0x2000, t_stack_high := 0x2200, t_saved_sp := 0x21C0\<rparr>]"
  "ss_current_index demo_pair = 0" "ss_preempt_enabled demo_pair"
  by (simp_all add: demo_pair_def)

lemma demo_pair_frames:
  "scheduler_frame_pointer_valid ready_task 0x11A0"
  "scheduler_frame_pointer_valid (ready_task\<lparr>t_stack_low := 0x2000, t_stack_high := 0x2200\<rparr>) 0x21C0"
  by (simp_all add: scheduler_frame_pointer_valid_def ready_task_def unused_task_def word_le_nat_alt)

lemma demo_pair_running: "running demo_pair"
  by (simp add: running_def tasks_ok_def task_ok_def demo_pair_def idle_scheduler_def ready_task_facts live_def
      live_count_def is_ready_def demo_pair_frames word_le_nat_alt)

lemma demo_pair_apart: "stacks_apart demo_pair"
  by (auto simp: stacks_apart_def stack_bounds_def demo_pair_fields ready_task_def unused_task_def in_bounds_def
      word_le_nat_alt word_less_nat_alt)

theorem preemption_runs_best_task_witness:
  "ss_current_index (fst (scheduler_pendsv_dispatch demo_pair 0x11A0)) = 1"
proof -
  let ?i = "ss_current_index (fst (scheduler_pendsv_dispatch demo_pair 0x11A0))"
  note t = preemption_runs_best_task[OF demo_pair_running _ _ _ prod.collapse[symmetric], of "0x11A0"]
  have r: "is_ready (ss_tasks demo_pair) 1" by (simp add: is_ready_def demo_pair_fields ready_task_facts)
  have "?i < 2" "1 \<noteq> ?i \<longrightarrow> ?i \<noteq> 0"
    using t r by (auto simp: demo_pair_fields demo_pair_frames is_ready_def nth_Cons' split: if_splits)
  then show ?thesis by linarith
qed

theorem preempted_task_keeps_its_context_witness:
  "cpu_r4_r11 (snd (exception_return (fst (PendSV_Handler demo_pair demo_cpu),
     t_saved_sp (ss_tasks (fst (PendSV_Handler demo_pair demo_cpu)) ! 0)) demo_cpu)) = [1, 2, 3, 4, 5, 6, 7, 8]"
  using preempted_task_keeps_its_context[OF demo_pair_running demo_pair_apart demo_pair_fields(3,2) _ _ _ _
      prod.collapse[symmetric] away_start prod.collapse[symmetric], of demo_cpu]
  by (simp add: demo_cpu_def demo_pair_fields demo_pair_frames)

end
