(* ===== verification/Scheduler_Selftest.thy ===== *)
theory Scheduler_Selftest
  imports Scheduler_Service
begin

unbundle bit_operations_syntax

text \<open>
  The start-up self tests of the scheduler that run without switching tasks, and what they
  check: binding a stack and preparing a task gives a task that validates. The task entry and
  the two task addresses the test passes as arguments are parameters.
\<close>

section \<open>The tests\<close>

definition scheduler_self_test_init :: "scheduler \<Rightarrow> u32 \<Rightarrow> u32 \<Rightarrow> bool \<times> scheduler" where
  "scheduler_self_test_init s stack_storage stack_storage_words =
     (if stack_storage = 0 \<or> stack_storage_words < 2 * SCHEDULER_TASK_STACK_WORDS then (False, s)
      else case scheduler_init s of (ok, s1) \<Rightarrow> if \<not> ok then (False, s1)
      else case scheduler_task_stack_bind s1 0 (word_at stack_storage 0) SCHEDULER_TASK_STACK_WORDS of (ok, s2) \<Rightarrow>
        if \<not> ok then (False, snd (scheduler_init s2))
      else case scheduler_task_stack_bind s2 1 (word_at stack_storage 128) SCHEDULER_TASK_STACK_WORDS of (ok, s3) \<Rightarrow>
        if \<not> ok then (False, snd (scheduler_init s3)) else (True, s3))"

definition self_test_fresh :: "scheduler_task \<Rightarrow> scheduler_task \<Rightarrow> bool" where
  "self_test_fresh task0 task1 \<longleftrightarrow> \<not> (t_state task0 \<noteq> SCHEDULER_TASK_UNUSED \<or> t_state task1 \<noteq> SCHEDULER_TASK_UNUSED
     \<or> t_priority task0 \<noteq> SCHEDULER_PRIORITY_DEFAULT \<or> t_priority task1 \<noteq> SCHEDULER_PRIORITY_DEFAULT
     \<or> t_stack_words task0 \<noteq> SCHEDULER_TASK_STACK_WORDS \<or> t_stack_words task1 \<noteq> SCHEDULER_TASK_STACK_WORDS
     \<or> t_saved_sp task0 \<noteq> t_stack_high task0 \<or> t_saved_sp task1 \<noteq> t_stack_high task1
     \<or> t_wait_events task0 \<noteq> 0 \<or> t_wait_events task1 \<noteq> 0 \<or> t_wake_events task0 \<noteq> 0 \<or> t_wake_events task1 \<noteq> 0
     \<or> t_stack_low task0 AND 7 \<noteq> 0 \<or> t_stack_low task1 AND 7 \<noteq> 0 \<or> t_stack_high task0 \<noteq> t_stack_low task1)"

definition self_test_set :: "scheduler_task \<Rightarrow> scheduler_task \<Rightarrow> bool" where
  "self_test_set task0 task1 \<longleftrightarrow>
     t_priority task0 = SCHEDULER_PRIORITY_HIGHEST \<and> t_priority task1 = SCHEDULER_PRIORITY_LOWEST"

definition self_test_reset :: "scheduler_task \<Rightarrow> scheduler_task \<Rightarrow> bool" where
  "self_test_reset task0 task1 \<longleftrightarrow> t_state task0 = SCHEDULER_TASK_UNUSED \<and> t_state task1 = SCHEDULER_TASK_UNUSED
     \<and> t_saved_sp task0 = t_stack_high task0 \<and> t_saved_sp task1 = t_stack_high task1
     \<and> t_wait_events task0 = 0 \<and> t_wait_events task1 = 0 \<and> t_wake_events task0 = 0 \<and> t_wake_events task1 = 0
     \<and> t_priority task0 = SCHEDULER_PRIORITY_DEFAULT \<and> t_priority task1 = SCHEDULER_PRIORITY_DEFAULT"

text \<open>The pointers \<open>task0\<close> and \<open>task1\<close> are into the table, so they are read in the state of the moment.\<close>

definition scheduler_self_test ::
    "u32 \<Rightarrow> u32 \<Rightarrow> u32 \<Rightarrow> u32 \<Rightarrow> scheduler \<Rightarrow> u32 \<Rightarrow> u32 \<Rightarrow> bool \<times> scheduler" where
  "scheduler_self_test trap entry arg0 arg1 s stack_storage stack_storage_words =
     (case scheduler_self_test_init s stack_storage stack_storage_words of (ok, s1) \<Rightarrow> if \<not> ok then (False, s1)
      else if scheduler_task_get s1 0 = None \<or> scheduler_task_get s1 1 = None \<or> scheduler_task_get s1 2 \<noteq> None then (False, s1)
      else if \<not> self_test_fresh (ss_tasks s1 ! 0) (ss_tasks s1 ! 1) then (False, s1)
      else case scheduler_task_priority_set s1 SCHEDULER_TASK_COUNT SCHEDULER_PRIORITY_DEFAULT of (r, s2) \<Rightarrow>
        if r then (False, s2)
      else case scheduler_task_priority_set s2 0 (SCHEDULER_PRIORITY_LOWEST + 1) of (r, s3) \<Rightarrow> if r then (False, s3)
      else case scheduler_task_priority_set s3 0 SCHEDULER_PRIORITY_HIGHEST of (r, s4) \<Rightarrow> if \<not> r then (False, s4)
      else case scheduler_task_priority_set s4 1 SCHEDULER_PRIORITY_LOWEST of (r, s5) \<Rightarrow> if \<not> r then (False, s5)
      else if \<not> self_test_set (ss_tasks s5 ! 0) (ss_tasks s5 ! 1) then (False, s5)
      else case scheduler_task_prepare trap s5 0 entry arg0 of (r, s6) \<Rightarrow> if \<not> r then (False, s6)
      else case scheduler_task_prepare trap s6 1 entry arg1 of (r, s7) \<Rightarrow> if \<not> r then (False, s7)
      else if \<not> self_test_set (ss_tasks s7 ! 0) (ss_tasks s7 ! 1) then (False, s7)
      else if \<not> scheduler_validate_prepared_task trap (ss_mem s7) (ss_tasks s7 ! 0) entry arg0 then (False, s7)
      else if \<not> scheduler_validate_prepared_task trap (ss_mem s7) (ss_tasks s7 ! 1) entry arg1 then (False, s7)
      else case scheduler_self_test_init s7 stack_storage stack_storage_words of (ok, s8) \<Rightarrow> if \<not> ok then (False, s8)
      else (self_test_reset (ss_tasks s8 ! 0) (ss_tasks s8 ! 1), s8))"

definition test_task :: "scheduler_task_state \<Rightarrow> u32 \<Rightarrow> scheduler_task" where
  "test_task state priority = unused_task\<lparr>t_state := state, t_priority := priority\<rparr>"

text \<open>Bit \<open>i\<close> of the result is the outcome of the \<open>i\<close>-th check.\<close>

definition scheduler_priority_self_test :: u32 where
  "scheduler_priority_self_test =
     (let R = SCHEDULER_TASK_READY; B = SCHEDULER_TASK_BLOCKED; high = SCHEDULER_PRIORITY_HIGHEST;
          mid = SCHEDULER_PRIORITY_DEFAULT; low = SCHEDULER_PRIORITY_LOWEST;
          chk = (\<lambda>bit ok result. if ok then result OR push_bit bit 1 else result)
      in (chk 5 (scheduler_select_next_ready [test_task R high, test_task R low] 0 = 0)
         (chk 4 (scheduler_select_next_ready [test_task B high, test_task R mid] 1 = 1)
         (chk 3 (scheduler_select_next_ready [test_task R mid, test_task R mid] 1 = 0)
         (chk 2 (scheduler_select_next_ready [test_task R mid, test_task R mid] 0 = 1)
         (chk 1 (scheduler_select_next_ready [test_task R high, test_task R low] 0 = 0)
         (chk 0 (scheduler_select_next_ready [test_task R mid, test_task R high] 1 = 1) 0)))))))"

section \<open>Memory\<close>

lemma unat_word_at: "unat p + 4 * k < 2 ^ 32 \<Longrightarrow> unat (word_at p k) = unat p + 4 * k"
proof -
  assume b: "unat p + 4 * k < 2 ^ 32"
  then have "unat (4 * of_nat k :: u32) = 4 * k" using u32_of_nat[of "4 * k"] by simp
  then show ?thesis unfolding word_at_def by (subst unat_word_ariths) (use b in simp)
qed

lemma stw_list_outside: "(\<And>k. k < length vs \<Longrightarrow> word_at p (i + k) \<noteq> a) \<Longrightarrow> stw_list mem p i vs a = mem a"
proof (induction vs arbitrary: mem i)
  case (Cons v vs)
  have "stw_list (stw mem p i v) p (Suc i) vs a = stw mem p i v a"
    by (rule Cons.IH) (use Cons.prems in \<open>fastforce\<close>)
  then show ?case using Cons.prems[of 0] by (simp add: stw_def)
qed simp

lemma stw_list_inside:
  assumes "unat p + 4 * (i + length vs) \<le> 2 ^ 32" "k < length vs"
  shows "ldw (stw_list mem p i vs) p (i + k) = vs ! k"
  using assms
proof (induction vs arbitrary: mem i k)
  case (Cons v vs)
  show ?case
  proof (cases k)
    case 0
    have "word_at p (Suc i + n) \<noteq> word_at p i" if "n < length vs" for n
    proof
      assume "word_at p (Suc i + n) = word_at p i"
      then have "unat p + 4 * (Suc i + n) = unat p + 4 * i"
        using unat_word_at[of p "Suc i + n"] unat_word_at[of p i] Cons.prems(1) that by simp
      then show False by simp
    qed
    then show ?thesis using stw_list_outside[of vs p "Suc i" "word_at p i" "stw mem p i v"] 0
      by (simp add: ldw_def stw_def)
  next
    case (Suc n)
    with Cons.IH[of "Suc i" n "stw mem p i v"] Cons.prems show ?thesis by simp
  qed
qed simp

text \<open>Stores and reads in ranges that do not meet.\<close>

lemma ldw_stw_list_apart:
  assumes "unat p + 4 * length vs < 2 ^ 32" "unat q + 4 * k < 2 ^ 32"
    and "unat q + 4 * k < unat p \<or> unat p + 4 * length vs \<le> unat q + 4 * k"
  shows "ldw (stw_list mem p 0 vs) q k = ldw mem q k"
  unfolding ldw_def
proof (rule stw_list_outside)
  fix n assume n: "n < length vs"
  show "word_at p (0 + n) \<noteq> word_at q k"
  proof
    assume "word_at p (0 + n) = word_at q k"
    then have "unat p + 4 * n = unat q + 4 * k"
      using unat_word_at[of p n] unat_word_at[of q k] assms(1,2) n by simp
    then show False using assms(3) n by linarith
  qed
qed

section \<open>Binding and preparing\<close>

lemma and7_iff: "(x :: u32) AND 7 = 0 \<longleftrightarrow> unat x mod 8 = 0"
proof -
  have "unat (x AND 7) = take_bit 3 (unat x)"
    by (simp add: unsigned_and_eq take_bit_eq_mask mask_eq_exp_minus_1)
  then show ?thesis by (simp add: take_bit_eq_mod unat_eq_0[symmetric] del: unat_eq_0)
qed

lemma and7_add: "(x :: u32) AND 7 = 0 \<Longrightarrow> y AND 7 = 0 \<Longrightarrow> (x + y) AND 7 = 0"
proof -
  assume "x AND 7 = 0" "y AND 7 = 0"
  then have "(unat x + unat y) mod 8 = 0" by (simp add: and7_iff mod_add_eq[symmetric, of "unat x"])
  then have "(unat x + unat y) mod 4294967296 mod 8 = 0" by (simp add: mod_mod_cancel)
  then show ?thesis by (simp add: and7_iff unat_word_ariths)
qed

lemma replicate_2: "replicate 2 x = [x, x]"
  by (simp add: numeral_2_eq_2)

definition bound_task :: "u32 \<Rightarrow> scheduler_task" where
  "bound_task low = unused_task\<lparr>t_stack_low := low, t_stack_high := low + 512, t_saved_sp := low + 512, t_stack_words := 128\<rparr>"

definition fill :: "(u32 \<Rightarrow> u32) \<Rightarrow> u32 \<Rightarrow> (u32 \<Rightarrow> u32)" where
  "fill mem low = stw_list mem low 0 (replicate 128 SCHEDULER_STACK_FILL)"

lemma self_test_init_ok:
  assumes a: "\<not> ss_active s" "low \<noteq> 0" "low AND 7 = 0" "unat low + 1024 < 2 ^ 32" "256 \<le> words"
  obtains s' where "scheduler_self_test_init s low words = (True, s')"
    "ss_tasks s' = [bound_task low, bound_task (low + 512)]" "ss_mem s' = fill (fill (ss_mem s) low) (low + 512)"
    "\<not> ss_active s'"
proof -
  have al: "(low + 512) AND 7 = 0" "(low + 1024) AND 7 = 0" using and7_add[OF a(3)] by simp_all
  have nz: "low + 512 \<noteq> 0"
  proof
    assume "low + 512 = 0"
    moreover have "unat (low + 512) = unat low + 512" using a(4) by (subst unat_word_ariths) simp
    ultimately show False by simp
  qed
  have w: "\<not> words < 2 * 128" "word_at low 0 = low" "word_at low 128 = low + 512"
    using a(5) by (simp_all add: word_at_def not_less)
  have "\<exists>s'. scheduler_self_test_init s low words = (True, s') \<and> ss_tasks s' = [bound_task low, bound_task (low + 512)]
      \<and> ss_mem s' = fill (fill (ss_mem s) low) (low + 512) \<and> \<not> ss_active s'"
    unfolding scheduler_self_test_init_def w
    using a(1,2,3,5) al nz by (simp add: scheduler_init_def scheduler_task_stack_bind_def Let_def update_task_def
        unused_task_def bound_task_def fill_def replicate_2 not_less add.assoc)
  then show ?thesis using that by blast
qed

definition prepared_task :: "u32 \<Rightarrow> u32 \<Rightarrow> scheduler_task" where
  "prepared_task low p = (bound_task low)\<lparr>t_saved_sp := low + 448, t_state := SCHEDULER_TASK_READY, t_priority := p\<rparr>"

lemma prepare_ok:
  assumes "\<not> ss_active s" "i < 2" "length (ss_tasks s) = 2" "ss_tasks s ! i = (bound_task low)\<lparr>t_priority := p\<rparr>"
    "low \<noteq> 0" "low AND 7 = 0" "low + 512 \<noteq> 0" "entry \<noteq> 0"
  obtains s' where "scheduler_task_prepare trap s i entry arg = (True, s')"
    "ss_tasks s' = (ss_tasks s)[i := prepared_task low p]"
    "ss_mem s' = stw_list (ss_mem s) (low + 448) 0 (initial_frame trap entry arg)" "\<not> ss_active s'"
proof -
  have al: "(low + 512) AND 7 = 0" using and7_add[OF assms(6)] by simp
  have "\<exists>s'. scheduler_task_prepare trap s i entry arg = (True, s') \<and> ss_tasks s' = (ss_tasks s)[i := prepared_task low p]
      \<and> ss_mem s' = stw_list (ss_mem s) (low + 448) 0 (initial_frame trap entry arg) \<and> \<not> ss_active s'"
    using assms al by (simp add: scheduler_task_prepare_def Let_def update_task_def prepared_task_def bound_task_def
        unused_task_def add_diff_eq[symmetric])
  then show ?thesis using that by blast
qed

lemma length_initial_frame: "length (initial_frame trap entry arg) = 16"
  by (simp add: initial_frame_def)

lemma unat_add_bounded: "unat (x :: u32) + n < 2 ^ 32 \<Longrightarrow> unat (x + of_nat n) = unat x + n"
  by (subst unat_word_ariths) (use u32_of_nat[of n] in simp)

lemma validate_ok:
  assumes a: "low \<noteq> 0" "low AND 7 = 0" "unat low + 512 < 2 ^ 32" "p \<le> 255" "trap AND 1 \<noteq> 0"
    and m: "ldw mem low 0 = SCHEDULER_STACK_FILL" "\<And>k. k < 16 \<Longrightarrow> ldw mem (low + 448) k = initial_frame trap entry arg ! k"
  shows "scheduler_validate_prepared_task trap mem (prepared_task low p) entry arg"
proof -
  have n: "unat (low + 448) = unat low + 448" "unat (low + 512) = unat low + 512"
    using unat_add_bounded[of low 448] unat_add_bounded[of low 512] a(3) by simp_all
  have pc: "scheduler_exception_pc_address entry AND 1 = 0"
    by (simp add: scheduler_exception_pc_address_def and.assoc)
  have f: "t_state (prepared_task low p) = SCHEDULER_TASK_READY" "t_stack_low (prepared_task low p) = low"
    "t_stack_high (prepared_task low p) = low + 512" "t_stack_words (prepared_task low p) = 128"
    "t_saved_sp (prepared_task low p) = low + 448" "t_wait_events (prepared_task low p) = 0"
    "t_wake_events (prepared_task low p) = 0" "\<not> t_deadline_active (prepared_task low p)" "t_priority (prepared_task low p) = p"
    by (simp_all add: prepared_task_def bound_task_def unused_task_def)
  have nz: "low + 512 \<noteq> 0" "low + 448 \<noteq> 0" using n by (metis add_is_0 unsigned_0 zero_neq_numeral)+
  have fv: "scheduler_frame_pointer_valid (prepared_task low p) (low + 448)"
    unfolding scheduler_frame_pointer_valid_def f using a(1) nz n and7_add[OF a(2), of 448]
    by (simp add: word_le_nat_alt add_diff_eq[symmetric])
  have z: "initial_frame trap entry arg ! k = 0" if "k < 8" for k using that by (simp add: initial_frame_def nth_append)
  have r: "initial_frame trap entry arg ! 8 = arg" "initial_frame trap entry arg ! 9 = 0" "initial_frame trap entry arg ! 10 = 0"
    "initial_frame trap entry arg ! 11 = 0" "initial_frame trap entry arg ! 12 = 0" "initial_frame trap entry arg ! 13 = trap"
    "initial_frame trap entry arg ! 14 = scheduler_exception_pc_address entry"
    "initial_frame trap entry arg ! 15 = SCHEDULER_INITIAL_XPSR"
    by (simp_all add: initial_frame_def nth_append)
  show ?thesis
    unfolding scheduler_validate_prepared_task_def f Let_def
    using a(1,4,5) fv m nz pc z r f(8) by (simp add: add_diff_eq[symmetric] not_less)
qed

lemma select_test_task:
  "scheduler_select_next_ready [test_task a p, test_task b q] after =
    (let ra = (a = SCHEDULER_TASK_READY \<and> p < 256); rb = (b = SCHEDULER_TASK_READY \<and> q < 256)
     in if even after then (if rb then (if ra \<and> p < q then 0 else 1) else if ra then 0 else 2)
        else (if ra then (if rb \<and> q < p then 1 else 0) else if rb then 1 else 2))"
  unfolding select_pair by (cases "even after") (auto simp: test_task_def Let_def even_iff_mod_2_eq_zero odd_iff_mod_2_eq_one mod_Suc)

lemma storage_addresses:
  fixes low :: u32
  assumes "unat low + 1024 < 2 ^ 32"
  shows "unat (low + 512) = unat low + 512" "unat (low + 448) = unat low + 448" "unat (low + 960) = unat low + 960"
    "unat (low + 1024) = unat low + 1024"
  using unat_add_bounded[of low 512] unat_add_bounded[of low 448] unat_add_bounded[of low 960]
    unat_add_bounded[of low 1024] assms by simp_all

text \<open>Memory after two stacks were filled and two frames prepared.\<close>

lemma prepared_memory:
  fixes low trap entry arg0 arg1 :: u32 and mem m7 :: "u32 \<Rightarrow> u32"
  assumes a: "unat low + 1024 < 2 ^ 32"
  defines "m7 \<equiv> stw_list (stw_list (fill (fill mem low) (low + 512)) (low + 448) 0 (initial_frame trap entry arg0))
      (low + 960) 0 (initial_frame trap entry arg1)"
  shows "ldw m7 low 0 = SCHEDULER_STACK_FILL" "ldw m7 (low + 512) 0 = SCHEDULER_STACK_FILL"
    "k < 16 \<Longrightarrow> ldw m7 (low + 448) k = initial_frame trap entry arg0 ! k"
    "k < 16 \<Longrightarrow> ldw m7 (low + 512 + 448) k = initial_frame trap entry arg1 ! k"
proof -
  note n = storage_addresses[OF a]
  let ?f0 = "initial_frame trap entry arg0" and ?f1 = "initial_frame trap entry arg1"
  show "ldw m7 low 0 = SCHEDULER_STACK_FILL"
    unfolding m7_def fill_def using a n stw_list_inside[of low 0 "replicate 128 SCHEDULER_STACK_FILL" 0 mem]
    by (simp add: ldw_stw_list_apart length_initial_frame)
  show "ldw m7 (low + 512) 0 = SCHEDULER_STACK_FILL"
    unfolding m7_def fill_def[of _ "low + 512"] using a n
      stw_list_inside[of "low + 512" 0 "replicate 128 SCHEDULER_STACK_FILL" 0 "fill mem low"]
    by (simp add: ldw_stw_list_apart length_initial_frame)
  show "ldw m7 (low + 448) k = ?f0 ! k" if "k < 16"
    unfolding m7_def using a n that stw_list_inside[of "low + 448" 0 ?f0 k "fill (fill mem low) (low + 512)"]
    by (simp add: ldw_stw_list_apart length_initial_frame)
  show "ldw m7 (low + 512 + 448) k = ?f1 ! k" if "k < 16"
    unfolding m7_def using a n that
      stw_list_inside[of "low + 960" 0 ?f1 k "stw_list (fill (fill mem low) (low + 512)) (low + 448) 0 ?f0"]
    by (simp add: length_initial_frame add.assoc)
qed

text \<open>
  The start-up self tests pass: on an inactive scheduler and any aligned storage of 256 words
  that does not wrap around the address space, binding two stacks, setting priorities and preparing two tasks gives
  tasks whose frames, canaries and settings validate, and the tables are reset at the end; all
  six selection checks of the priority test succeed.
\<close>
theorem scheduler_self_tests_pass:
  assumes a: "\<not> ss_active s" "low \<noteq> 0" "low AND 7 = 0" "unat low + 1024 < 2 ^ 32" "256 \<le> words"
    and e: "entry \<noteq> 0" "trap AND 1 \<noteq> 0"
  shows "fst (scheduler_self_test trap entry arg0 arg1 s low words) \<and> scheduler_priority_self_test = 0x3F"
proof -
  let ?high = "low + 512" and ?f0 = "initial_frame trap entry arg0" and ?f1 = "initial_frame trap entry arg1"
  note n = storage_addresses[OF a(4)]
  have "low + 512 \<noteq> 0 \<and> low + 1024 \<noteq> 0" using n by (metis add_is_0 unsigned_0 zero_neq_numeral)
  then have nz: "?high \<noteq> 0" "?high + 512 \<noteq> 0" by (simp_all add: add.assoc)
  have al: "?high AND 7 = 0" using and7_add[OF a(3)] by simp
  obtain s1 where s1: "scheduler_self_test_init s low words = (True, s1)" "ss_tasks s1 = [bound_task low, bound_task ?high]"
    "ss_mem s1 = fill (fill (ss_mem s) low) ?high" "\<not> ss_active s1"
    using self_test_init_ok[OF a] .
  have fresh: "self_test_fresh (bound_task low) (bound_task ?high)"
    using a(3) al by (simp add: self_test_fresh_def bound_task_def unused_task_def)
  define s5 where "s5 = update_task (update_task s1 0 (\<lambda>t. t\<lparr>t_priority := 0\<rparr>)) 1 (\<lambda>t. t\<lparr>t_priority := 255\<rparr>)"
  have s5: "ss_tasks s5 = [(bound_task low)\<lparr>t_priority := 0\<rparr>, (bound_task ?high)\<lparr>t_priority := 255\<rparr>]"
    "ss_mem s5 = ss_mem s1" "\<not> ss_active s5" using s1 by (simp_all add: s5_def update_task_def)
  have "\<not> ss_active s5" "0 < (2 :: nat)" "length (ss_tasks s5) = 2" "ss_tasks s5 ! 0 = (bound_task low)\<lparr>t_priority := 0\<rparr>"
    using s5 by simp_all
  from prepare_ok[OF this a(2,3) nz(1) e(1), of trap arg0]
  obtain s6 where s6: "scheduler_task_prepare trap s5 0 entry arg0 = (True, s6)"
    "ss_tasks s6 = [prepared_task low 0, (bound_task ?high)\<lparr>t_priority := 255\<rparr>]"
    "ss_mem s6 = stw_list (ss_mem s1) (low + 448) 0 ?f0" "\<not> ss_active s6"
    using s5 by (metis list_update_code(2))
  have "\<not> ss_active s6" "1 < (2 :: nat)" "length (ss_tasks s6) = 2" "ss_tasks s6 ! 1 = (bound_task ?high)\<lparr>t_priority := 255\<rparr>"
    using s6 by simp_all
  from prepare_ok[OF this nz(1) al nz(2) e(1), of trap arg1]
  obtain s7 where s7: "scheduler_task_prepare trap s6 1 entry arg1 = (True, s7)"
    "ss_tasks s7 = (ss_tasks s6)[1 := prepared_task ?high 255]"
    "ss_mem s7 = stw_list (ss_mem s6) (?high + 448) 0 ?f1" "\<not> ss_active s7" .
  have t7: "ss_tasks s7 = [prepared_task low 0, prepared_task ?high 255]" using s7(2) s6(2) by simp
  have m7: "ss_mem s7 = stw_list (stw_list (fill (fill (ss_mem s) low) ?high) (low + 448) 0 ?f0) (low + 960) 0 ?f1"
    using s7(3) s6(3) s1(3) by (simp add: add.assoc)
  note mem7 = prepared_memory[OF a(4), where mem = "ss_mem s" and trap = trap and entry = entry and ?arg0.0 = arg0 and ?arg1.0 = arg1,
    folded m7]
  have v0: "scheduler_validate_prepared_task trap (ss_mem s7) (prepared_task low 0) entry arg0"
    by (rule validate_ok[OF a(2,3) _ _ e(2) mem7(1,3)]) (use a(4) in simp_all)
  have v1: "scheduler_validate_prepared_task trap (ss_mem s7) (prepared_task ?high 255) entry arg1"
    by (rule validate_ok[OF nz(1) al _ _ e(2) mem7(2,4)]) (use a(4) n in simp_all)
  obtain s8 where s8: "scheduler_self_test_init s7 low words = (True, s8)" "ss_tasks s8 = [bound_task low, bound_task ?high]"
    using self_test_init_ok[OF s7(4) a(2-5)] by metis
  have set5: "self_test_set (ss_tasks s5 ! 0) (ss_tasks s5 ! 1)" "self_test_set (ss_tasks s7 ! 0) (ss_tasks s7 ! 1)"
    unfolding s5 t7 by (simp_all add: self_test_set_def prepared_task_def)
  have reset: "self_test_reset (ss_tasks s8 ! 0) (ss_tasks s8 ! 1)"
    unfolding s8 by (simp add: self_test_reset_def bound_task_def unused_task_def)
  have prio: "scheduler_task_priority_set s1 2 128 = (False, s1)" "scheduler_task_priority_set s1 0 (255 + 1) = (False, s1)"
    "scheduler_task_priority_set s1 0 0 = (True, update_task s1 0 (\<lambda>t. t\<lparr>t_priority := 0\<rparr>))"
    "scheduler_task_priority_set (update_task s1 0 (\<lambda>t. t\<lparr>t_priority := 0\<rparr>)) 1 255 = (True, s5)"
    using s1(4) by (simp_all add: scheduler_task_priority_set_def s5_def update_task_def)
  have "fst (scheduler_self_test trap entry arg0 arg1 s low words)"
    unfolding scheduler_self_test_def s1(1) prod.case prio s6(1) s7(1) s8(1)
    using fresh set5 v0 v1 reset by (simp add: scheduler_task_get_def s1(2) t7)
  moreover have "scheduler_priority_self_test = 0x3F"
    by (simp add: scheduler_priority_self_test_def Let_def select_test_task)
  ultimately show ?thesis ..
qed

theorem scheduler_self_tests_pass_witness:
  "fst (scheduler_self_test 0x08000101 0x08000201 1 2 idle_scheduler 0x20000000 256)"
  using scheduler_self_tests_pass[of idle_scheduler "0x20000000" 256 "0x08000201" "0x08000101" 1 2]
  by (simp add: idle_scheduler_def)

end
