(* ===== verification/Flash_Persistence.thy ===== *)
theory Flash_Persistence
  imports Fw_Prelude
begin

unbundle bit_operations_syntax

text \<open>
  The two flash pages of the firmware and their driver (\<open>src/src/drivers/flash_persistence.c\<close>).
  The flash controller is a parameter \<open>hw\<close>: for the \<open>n\<close>-th operation it gives what the
  registers show (oscillator ready, how often busy is read, whether the keys unlock, the
  status), the time it takes and what it leaves in the flash. Nothing else is assumed of it
  here: the driver reads back what it erased and programmed.
\<close>

section \<open>The controller\<close>

record flash_outcome =
  fo_hsi_ready :: bool
  fo_busy_before :: nat
  fo_unlocks :: bool
  fo_busy_after :: nat
  fo_status :: u32
  fo_cycles :: u32
  fo_clock :: u32
  fo_program :: "u16 \<Rightarrow> u16"
  fo_erase :: "(nat \<Rightarrow> u8) \<Rightarrow> nat \<Rightarrow> u8"

type_synonym flash_hw = "nat \<Rightarrow> flash_outcome"

abbreviation (input) FLASH_PERSISTENCE_PAGE_SIZE :: nat where "FLASH_PERSISTENCE_PAGE_SIZE \<equiv> 1024"
abbreviation (input) FLASH_PERSISTENCE_SLOT_A_ADDRESS :: u32 where "FLASH_PERSISTENCE_SLOT_A_ADDRESS \<equiv> 0x0800F800"
abbreviation (input) FLASH_PERSISTENCE_SLOT_B_ADDRESS :: u32 where "FLASH_PERSISTENCE_SLOT_B_ADDRESS \<equiv> 0x0800FC00"
abbreviation (input) FLASH_PERSISTENCE_END_ADDRESS :: u32 where "FLASH_PERSISTENCE_END_ADDRESS \<equiv> 0x08010000"
abbreviation (input) FLASH_READY_SPIN_LIMIT :: nat where "FLASH_READY_SPIN_LIMIT \<equiv> 4000000"
abbreviation (input) FLASH_SR_PGERR :: u32 where "FLASH_SR_PGERR \<equiv> 4"
abbreviation (input) FLASH_SR_WRPRTERR :: u32 where "FLASH_SR_WRPRTERR \<equiv> 16"
abbreviation (input) FLASH_SR_EOP :: u32 where "FLASH_SR_EOP \<equiv> 32"

datatype flash_operation = FLASH_PERSISTENCE_OP_ERASE | FLASH_PERSISTENCE_OP_PROGRAM

text \<open>The memory, the number of operations so far, and the diagnostics, by operation.\<close>

record flash_store =
  fs_mem :: "u32 \<Rightarrow> u8"
  fs_ops :: nat
  fs_attempt_count :: "flash_operation \<Rightarrow> u32"
  fs_last_bsy_cycles :: "flash_operation \<Rightarrow> u32"
  fs_max_bsy_cycles :: "flash_operation \<Rightarrow> u32"
  fs_storage_error_count :: u32

section \<open>Reads\<close>

definition read_u16 :: "(u32 \<Rightarrow> u8) \<Rightarrow> u32 \<Rightarrow> u16" where
  "read_u16 mem a = ucast (mem a) OR push_bit 8 (ucast (mem (a + 1)))"

definition read_u32 :: "(u32 \<Rightarrow> u8) \<Rightarrow> u32 \<Rightarrow> u32" where
  "read_u32 mem a = ucast (mem a) OR push_bit 8 (ucast (mem (a + 1)))
     OR push_bit 16 (ucast (mem (a + 2))) OR push_bit 24 (ucast (mem (a + 3)))"

section \<open>The driver\<close>

definition flash_address_owned :: "u32 \<Rightarrow> bool" where
  "flash_address_owned address \<longleftrightarrow> address \<ge> FLASH_PERSISTENCE_SLOT_A_ADDRESS
     \<and> address < FLASH_PERSISTENCE_END_ADDRESS - 1 \<and> address AND 1 = 0"

text \<open>The busy flag is read set \<open>busy\<close> times; the loop gives up after \<open>spins\<close>.\<close>

fun flash_wait_loop :: "nat \<Rightarrow> nat \<Rightarrow> bool" where
  "flash_wait_loop spins 0 = True"
| "flash_wait_loop 0 (Suc busy) = False"
| "flash_wait_loop (Suc spins) (Suc busy) = flash_wait_loop spins busy"

definition flash_wait_ready :: "nat \<Rightarrow> bool" where
  "flash_wait_ready busy = flash_wait_loop FLASH_READY_SPIN_LIMIT busy"

definition flash_page :: "(u32 \<Rightarrow> u8) \<Rightarrow> u32 \<Rightarrow> nat \<Rightarrow> u8" where
  "flash_page mem page = (\<lambda>i. mem (page + of_nat i))"

text \<open>What the operation leaves in the flash.\<close>

definition flash_effect :: "flash_outcome \<Rightarrow> (u32 \<Rightarrow> u8) \<Rightarrow> u32 \<Rightarrow> u16 \<Rightarrow> flash_operation \<Rightarrow> (u32 \<Rightarrow> u8)" where
  "flash_effect oc mem address value operation = (case operation of
     FLASH_PERSISTENCE_OP_ERASE \<Rightarrow> (\<lambda>a. if unat (a - address) < FLASH_PERSISTENCE_PAGE_SIZE
         then fo_erase oc (flash_page mem address) (unat (a - address)) else mem a)
   | FLASH_PERSISTENCE_OP_PROGRAM \<Rightarrow>
       mem(address := ucast (fo_program oc value), address + 1 := ucast (drop_bit 8 (fo_program oc value))))"

definition flash_fail :: "flash_store \<Rightarrow> bool \<times> flash_store" where
  "flash_fail s = (False, s\<lparr>fs_storage_error_count := fs_storage_error_count s + 1\<rparr>)"

definition flash_execute ::
    "flash_hw \<Rightarrow> flash_store \<Rightarrow> u32 \<Rightarrow> u16 \<Rightarrow> flash_operation \<Rightarrow> bool \<times> flash_store" where
  "flash_execute hw s address value operation =
     (let oc = hw (fs_ops s); s0 = s\<lparr>fs_ops := fs_ops s + 1\<rparr> in
      if \<not> fo_hsi_ready oc then flash_fail s0
      else if \<not> flash_wait_ready (fo_busy_before oc) then flash_fail s0
      else if \<not> fo_unlocks oc then flash_fail s0
      else let s1 = s0\<lparr>fs_attempt_count := (fs_attempt_count s0)(operation := fs_attempt_count s0 operation + 1),
                       fs_mem := flash_effect oc (fs_mem s0) address value operation\<rparr> in
        if \<not> flash_wait_ready (fo_busy_after oc) then flash_fail s1
        else let s2 = s1\<lparr>fs_last_bsy_cycles := (fs_last_bsy_cycles s1)(operation := fo_cycles oc)\<rparr>;
                 s3 = (if fo_cycles oc > fs_max_bsy_cycles s2 operation
                       then s2\<lparr>fs_max_bsy_cycles := (fs_max_bsy_cycles s2)(operation := fo_cycles oc)\<rparr> else s2)
          in if fo_status oc AND (FLASH_SR_EOP OR FLASH_SR_PGERR OR FLASH_SR_WRPRTERR) = FLASH_SR_EOP
             then (True, s3) else flash_fail s3)"

text \<open>\<open>DWT_CYCCNT\<close>, as read before the next operation.\<close>

definition flash_persistence_cycle_count :: "flash_hw \<Rightarrow> flash_store \<Rightarrow> u32" where
  "flash_persistence_cycle_count hw s = fo_clock (hw (fs_ops s))"

definition flash_persistence_erase_page :: "flash_hw \<Rightarrow> flash_store \<Rightarrow> u32 \<Rightarrow> bool \<times> flash_store" where
  "flash_persistence_erase_page hw s page_address =
     (if page_address \<noteq> FLASH_PERSISTENCE_SLOT_A_ADDRESS \<and> page_address \<noteq> FLASH_PERSISTENCE_SLOT_B_ADDRESS then (False, s)
      else case flash_execute hw s page_address 0 FLASH_PERSISTENCE_OP_ERASE of (ok, s1) \<Rightarrow>
        if \<not> ok then (False, s1)
        else if \<exists>k \<in> set [0..<FLASH_PERSISTENCE_PAGE_SIZE div 2]. read_u16 (fs_mem s1) (page_address + of_nat (2 * k)) \<noteq> 0xFFFF
        then flash_fail s1
        else (True, s1))"

definition flash_persistence_program_halfword ::
    "flash_hw \<Rightarrow> flash_store \<Rightarrow> u32 \<Rightarrow> u16 \<Rightarrow> bool \<times> flash_store" where
  "flash_persistence_program_halfword hw s address value =
     (if \<not> flash_address_owned address then (False, s)
      else if value = 0xFFFF then (read_u16 (fs_mem s) address = 0xFFFF, s)
      else if read_u16 (fs_mem s) address \<noteq> 0xFFFF then flash_fail s
      else case flash_execute hw s address value FLASH_PERSISTENCE_OP_PROGRAM of (ok, s1) \<Rightarrow>
        if \<not> ok then (False, s1)
        else if read_u16 (fs_mem s1) address \<noteq> value then flash_fail s1
        else (True, s1))"

section \<open>Lemmas\<close>

lemma flash_wait_loop_iff: "flash_wait_loop spins busy \<longleftrightarrow> busy \<le> spins"
  by (induction spins busy rule: flash_wait_loop.induct) auto

lemma flash_fail_simps [simp]: "fst (flash_fail s) = False" "fs_mem (snd (flash_fail s)) = fs_mem s"
  by (simp_all add: flash_fail_def)

text \<open>An operation has its effect or, when it fails, possibly none.\<close>

lemma flash_execute_mem:
  assumes "flash_execute hw s address value op = (ok, s')"
  shows "fs_mem s' = flash_effect (hw (fs_ops s)) (fs_mem s) address value op \<or> \<not> ok \<and> fs_mem s' = fs_mem s"
  using assms by (auto simp: flash_execute_def flash_fail_def Let_def split: if_splits)

lemma read_u16_eq: "read_u16 mem a = v \<longleftrightarrow> mem a = ucast v \<and> mem (a + 1) = ucast (drop_bit 8 v)"
proof
  assume "read_u16 mem a = v"
  then show "mem a = ucast v \<and> mem (a + 1) = ucast (drop_bit 8 v)"
    unfolding read_u16_def using ucast_u16_cat ucast_drop_u16_cat by metis
qed (simp add: read_u16_def u16_cat_split)

lemma flash_offset:
  assumes "p = FLASH_PERSISTENCE_SLOT_A_ADDRESS \<or> p = FLASH_PERSISTENCE_SLOT_B_ADDRESS" "i < 1024"
  shows "unat (p + of_nat i) = unat p + i"
proof -
  have "unat p + i < 4294967296" using assms by auto
  then show ?thesis using assms(2) u32_of_nat[of i] by (simp add: unat_word_ariths)
qed

definition is_slot :: "u32 \<Rightarrow> bool" where
  "is_slot p \<longleftrightarrow> p = FLASH_PERSISTENCE_SLOT_A_ADDRESS \<or> p = FLASH_PERSISTENCE_SLOT_B_ADDRESS"

lemma slot_offset_eq:
  assumes "is_slot p" "is_slot q" "i < 1024" "j < 1024"
  shows "p + of_nat i = q + of_nat j \<longleftrightarrow> p = q \<and> i = j"
proof
  assume eq: "p + of_nat i = q + of_nat j"
  have "unat p + i = unat q + j"
    using arg_cong[OF eq, of unat] flash_offset[of p i] flash_offset[of q j] assms by (simp add: is_slot_def)
  then have "unat p = unat q \<and> i = j" using assms by (auto simp: is_slot_def)
  then show "p = q \<and> i = j" by (simp add: word_unat_eq_iff)
qed simp

text \<open>An operation touches the page of its address only.\<close>

lemma flash_effect_page:
  assumes "is_slot p" "is_slot q" "k + 1 < 1024" "i < 1024"
  shows "flash_page (flash_effect oc mem (p + of_nat k) value FLASH_PERSISTENCE_OP_PROGRAM) q i =
    (if q = p \<and> i = k then ucast (fo_program oc value)
     else if q = p \<and> i = k + 1 then ucast (drop_bit 8 (fo_program oc value)) else flash_page mem q i)"
proof -
  have k1: "p + of_nat k + 1 = p + of_nat (k + 1)" by (simp add: add.assoc)
  show ?thesis
    unfolding flash_effect_def flash_page_def flash_operation.case k1
    using slot_offset_eq[OF assms(2,1,4), of k] slot_offset_eq[OF assms(2,1,4), of "k + 1"] assms(3) by auto
qed

lemma flash_effect_erase:
  assumes "is_slot p" "is_slot q" "i < 1024"
  shows "flash_page (flash_effect oc mem p value FLASH_PERSISTENCE_OP_ERASE) q i =
    (if q = p then fo_erase oc (flash_page mem p) i else flash_page mem q i)"
proof -
  have "unat (q + of_nat i - p) < 1024 \<longleftrightarrow> q = p" if "q \<noteq> p"
  proof -
    have "p + of_nat (unat (q + of_nat i - p)) = q + of_nat i" by simp
    then show ?thesis using slot_offset_eq[OF assms(1,2) _ assms(3), of "unat (q + of_nat i - p)"] that by blast
  qed
  moreover have "unat (p + of_nat i - p) = i" using u32_of_nat[of i] assms(3) by simp
  ultimately show ?thesis using assms(3) by (auto simp: flash_effect_def flash_page_def)
qed

text \<open>A controller that works: every operation ends in time, without an error, with the effect asked for.\<close>

definition flash_works :: "flash_hw \<Rightarrow> bool" where
  "flash_works hw \<longleftrightarrow> (\<forall>n. fo_hsi_ready (hw n) \<and> fo_busy_before (hw n) \<le> FLASH_READY_SPIN_LIMIT \<and> fo_unlocks (hw n)
     \<and> fo_busy_after (hw n) \<le> FLASH_READY_SPIN_LIMIT
     \<and> fo_status (hw n) AND (FLASH_SR_EOP OR FLASH_SR_PGERR OR FLASH_SR_WRPRTERR) = FLASH_SR_EOP
     \<and> (\<forall>v. fo_program (hw n) v = v) \<and> (\<forall>p i. fo_erase (hw n) p i = 0xFF))"

end
