(* ===== verification/Ui_Layout.thy ===== *)
theory Ui_Layout
  imports Fw_Prelude
begin

text \<open>
  The layout of the display and its persistent configuration
  (\<open>src/src/kernel/oled_ui_layout.c\<close>, \<open>src/src/kernel/oled_ui_layout_config_v1.c\<close>). An \<open>int32_t\<close>
  is an \<open>int\<close>; its conversion to \<open>uint32_t\<close> is \<open>word_of_int\<close>.
\<close>

section \<open>Types\<close>

record mono_rect =
  r_x :: int
  r_y :: int
  r_width :: int
  r_height :: int

record oled_ui_layout =
  status_rect :: mono_rect
  console_rect :: mono_rect

abbreviation (input) OLED_UI_LAYOUT_CONFIG_V1_OBJECT_TYPE :: u16 where "OLED_UI_LAYOUT_CONFIG_V1_OBJECT_TYPE \<equiv> 1"
abbreviation (input) OLED_UI_LAYOUT_CONFIG_V1_SCHEMA :: u8 where "OLED_UI_LAYOUT_CONFIG_V1_SCHEMA \<equiv> 1"
abbreviation (input) OLED_UI_LAYOUT_CONFIG_V1_BYTES :: nat where "OLED_UI_LAYOUT_CONFIG_V1_BYTES \<equiv> 8"

definition default_layout :: oled_ui_layout where
  "default_layout = \<lparr>status_rect = \<lparr>r_x = 0, r_y = 0, r_width = 128, r_height = 9\<rparr>,
     console_rect = \<lparr>r_x = 1, r_y = 10, r_width = 126, r_height = 22\<rparr>\<rparr>"

text \<open>The active layout and its revision.\<close>

record ui_layout_state =
  active_layout :: oled_ui_layout
  active_layout_revision :: u32

section \<open>Operations\<close>

definition oled_ui_layout_validate :: "oled_ui_layout option \<Rightarrow> bool" where
  "oled_ui_layout_validate layout = (case layout of None \<Rightarrow> False | Some l \<Rightarrow>
     r_x (status_rect l) = 0 \<and> r_y (status_rect l) = 0
     \<and> r_width (status_rect l) = 128 \<and> r_height (status_rect l) = 9
     \<and> r_x (console_rect l) \<ge> 0 \<and> r_y (console_rect l) \<ge> 10
     \<and> r_width (console_rect l) \<ge> 5 \<and> r_height (console_rect l) \<ge> 6
     \<and> (word_of_int (r_x (console_rect l)) + word_of_int (r_width (console_rect l)) :: u32) \<le> 128
     \<and> (word_of_int (r_y (console_rect l)) + word_of_int (r_height (console_rect l)) :: u32) \<le> 32)"

definition oled_ui_layout_self_test :: bool where
  "oled_ui_layout_self_test = oled_ui_layout_validate (Some default_layout)"

definition oled_ui_layout_set_console :: "ui_layout_state \<Rightarrow> int \<Rightarrow> int \<Rightarrow> int \<Rightarrow> int \<Rightarrow> ui_layout_state" where
  "oled_ui_layout_set_console s x y w h =
     (if console_rect (active_layout s) = \<lparr>r_x = x, r_y = y, r_width = w, r_height = h\<rparr> then s
      else s\<lparr>active_layout := (active_layout s)\<lparr>console_rect := \<lparr>r_x = x, r_y = y, r_width = w, r_height = h\<rparr>\<rparr>,
             active_layout_revision := active_layout_revision s + 1\<rparr>)"

definition oled_ui_layout_config_v1_validate :: "bytes option \<Rightarrow> nat \<Rightarrow> bool" where
  "oled_ui_layout_config_v1_validate payload len =
     (case payload of None \<Rightarrow> False | Some p \<Rightarrow>
       if len \<noteq> OLED_UI_LAYOUT_CONFIG_V1_BYTES then False
       else p ! 0 = OLED_UI_LAYOUT_CONFIG_V1_SCHEMA \<and> or (p ! 5) (or (p ! 6) (p ! 7)) = 0
         \<and> p ! 3 \<ge> 5 \<and> p ! 4 \<ge> 6 \<and> p ! 2 \<ge> 10
         \<and> unat (p ! 1) + unat (p ! 3) \<le> 128 \<and> unat (p ! 2) + unat (p ! 4) \<le> 32)"

definition oled_ui_layout_config_v1_activate_validated :: "ui_layout_state \<Rightarrow> bytes \<Rightarrow> ui_layout_state" where
  "oled_ui_layout_config_v1_activate_validated s p =
     oled_ui_layout_set_console s (uint (p ! 1)) (uint (p ! 2)) (uint (p ! 3)) (uint (p ! 4))"

section \<open>Lemmas\<close>

definition layout_ok :: "ui_layout_state \<Rightarrow> bool" where
  "layout_ok s \<longleftrightarrow> oled_ui_layout_validate (Some (active_layout s))"

lemma default_layout_ok: "oled_ui_layout_self_test"
  by (simp add: oled_ui_layout_self_test_def oled_ui_layout_validate_def default_layout_def word_le_nat_alt)

text \<open>A validated configuration activates to a valid layout.\<close>

lemma activate_layout_ok:
  assumes "layout_ok s" "oled_ui_layout_config_v1_validate (Some p) 8"
  shows "layout_ok (oled_ui_layout_config_v1_activate_validated s p)"
proof -
  have v: "5 \<le> p ! 3" "6 \<le> p ! 4" "10 \<le> p ! 2" "unat (p ! 1) + unat (p ! 3) \<le> 128" "unat (p ! 2) + unat (p ! 4) \<le> 32"
    using assms(2) by (simp_all add: oled_ui_layout_config_v1_validate_def)
  have sum: "(word_of_int (uint a) + word_of_int (uint b) :: u32) \<le> of_nat n" if "unat a + unat b \<le> n" "n < 256" for a b :: u8 and n
  proof -
    have "(word_of_int (uint a) + word_of_int (uint b) :: u32) = of_nat (unat a + unat b)" by simp
    then show ?thesis using that u32_of_nat[of "unat a + unat b"] u32_of_nat[of n] by (simp add: word_le_nat_alt)
  qed
  have i: "5 \<le> uint (p ! 3)" "6 \<le> uint (p ! 4)" "10 \<le> uint (p ! 2)" using v(1-3) by (simp_all add: word_le_def)
  have "oled_ui_layout_validate (Some ((active_layout s)\<lparr>console_rect := \<lparr>r_x = uint (p ! 1), r_y = uint (p ! 2),
      r_width = uint (p ! 3), r_height = uint (p ! 4)\<rparr>\<rparr>))"
    using assms(1) i sum[OF v(4)] sum[OF v(5)] by (simp add: layout_ok_def oled_ui_layout_validate_def)
  then show ?thesis using assms(1)
    by (simp add: oled_ui_layout_config_v1_activate_validated_def oled_ui_layout_set_console_def layout_ok_def)
qed

end
