(* ===== verification/Asset_Persistence.thy ===== *)
theory Asset_Persistence
  imports Crc_Codes Flash_Persistence Ui_Layout
begin

unbundle bit_operations_syntax

text \<open>
  The persistent configuration store (\<open>src/src/kernel/asset_persistence.c\<close>): records in two flash
  pages, each sealed by a commit marker that is programmed last. The fault injection
  checkpoints, which reset the processor when a debugger has armed them, are left out; a
  loss of power at any point is a flash controller that fails from there on.
\<close>

section \<open>Types\<close>

datatype asset_persistence_result =
  ASSET_PERSISTENCE_RESULT_OK | ASSET_PERSISTENCE_RESULT_UNCHANGED | ASSET_PERSISTENCE_RESULT_BAD_STATE
| ASSET_PERSISTENCE_RESULT_CRC_MISMATCH | ASSET_PERSISTENCE_RESULT_VALIDATION_FAILED
| ASSET_PERSISTENCE_RESULT_STORAGE_ERROR | ASSET_PERSISTENCE_RESULT_WEAR_BUDGET_EXHAUSTED

record asset_persistence_record =
  ar_slot_address :: u32
  ar_generation :: u32
  ar_payload_crc32 :: u32

record asset_candidate_state =
  ac_slot_address :: u32
  ac_generation :: u32
  ac_payload_crc32 :: u32
  ac_accepted_bytes :: nat
  ac_pending_byte :: u8
  ac_pending_valid :: bool
  ac_compare_active :: bool
  ac_active :: bool

record asset_store =
  as_flash :: flash_store
  as_active :: asset_persistence_record
  as_candidate :: asset_candidate_state
  as_layout :: ui_layout_state
  as_ambiguity_count :: u32
  as_successful_commit_count :: u32
  as_wear_policy_rejection_count :: u32
  as_last_mutation_cycles :: u32
  as_max_mutation_cycles :: u32

abbreviation (input) ASSET_PERSISTENCE_COMMIT_MARKER :: u16 where "ASSET_PERSISTENCE_COMMIT_MARKER \<equiv> 0xA55A"
abbreviation (input) ASSET_PERSISTENCE_GENERATION_MAX :: u32 where "ASSET_PERSISTENCE_GENERATION_MAX \<equiv> 10000"
abbreviation (input) ASSET_RECORD_MAGIC :: u32 where "ASSET_RECORD_MAGIC \<equiv> 0x53554544"
abbreviation (input) ASSET_RECORD_ENVELOPE_VERSION :: u32 where "ASSET_RECORD_ENVELOPE_VERSION \<equiv> 1"
abbreviation (input) ASSET_RECORD_HEADER_BYTES :: u32 where "ASSET_RECORD_HEADER_BYTES \<equiv> 64"
abbreviation (input) ASSET_RECORD_OFFSET_MAGIC :: nat where "ASSET_RECORD_OFFSET_MAGIC \<equiv> 0"
abbreviation (input) ASSET_RECORD_OFFSET_VERSION :: nat where "ASSET_RECORD_OFFSET_VERSION \<equiv> 4"
abbreviation (input) ASSET_RECORD_OFFSET_HEADER_SIZE :: nat where "ASSET_RECORD_OFFSET_HEADER_SIZE \<equiv> 8"
abbreviation (input) ASSET_RECORD_OFFSET_GENERATION :: nat where "ASSET_RECORD_OFFSET_GENERATION \<equiv> 12"
abbreviation (input) ASSET_RECORD_OFFSET_PAYLOAD_CRC :: nat where "ASSET_RECORD_OFFSET_PAYLOAD_CRC \<equiv> 16"
abbreviation (input) ASSET_RECORD_OFFSET_FLAGS :: nat where "ASSET_RECORD_OFFSET_FLAGS \<equiv> 20"
abbreviation (input) ASSET_RECORD_OFFSET_RESERVED :: nat where "ASSET_RECORD_OFFSET_RESERVED \<equiv> 24"
abbreviation (input) ASSET_RECORD_RESERVED_BYTES :: nat where "ASSET_RECORD_RESERVED_BYTES \<equiv> 32"
abbreviation (input) ASSET_RECORD_OFFSET_HEADER_CRC :: nat where "ASSET_RECORD_OFFSET_HEADER_CRC \<equiv> 56"
abbreviation (input) ASSET_RECORD_OFFSET_TAIL :: nat where "ASSET_RECORD_OFFSET_TAIL \<equiv> 60"
abbreviation (input) ASSET_RECORD_OFFSET_MARKER :: nat where "ASSET_RECORD_OFFSET_MARKER \<equiv> 62"
abbreviation (input) ASSET_RECORD_OFFSET_PAYLOAD :: nat where "ASSET_RECORD_OFFSET_PAYLOAD \<equiv> 64"

section \<open>Reading records\<close>

text \<open>A field of the record at a slot.\<close>

definition asset_flash_read_u8 :: "(u32 \<Rightarrow> u8) \<Rightarrow> u32 \<Rightarrow> nat \<Rightarrow> u8" where
  "asset_flash_read_u8 mem slot off = mem (slot + of_nat off)"

definition asset_flash_read_u16 :: "(u32 \<Rightarrow> u8) \<Rightarrow> u32 \<Rightarrow> nat \<Rightarrow> u16" where
  "asset_flash_read_u16 mem slot off = read_u16 mem (slot + of_nat off)"

definition asset_flash_read_u32 :: "(u32 \<Rightarrow> u8) \<Rightarrow> u32 \<Rightarrow> nat \<Rightarrow> u32" where
  "asset_flash_read_u32 mem slot off = read_u32 mem (slot + of_nat off)"

definition flash_bytes :: "(u32 \<Rightarrow> u8) \<Rightarrow> u32 \<Rightarrow> nat \<Rightarrow> nat \<Rightarrow> bytes" where
  "flash_bytes mem slot off n = map (\<lambda>i. asset_flash_read_u8 mem slot (off + i)) [0..<n]"

definition asset_crc32_flash :: "(u32 \<Rightarrow> u8) \<Rightarrow> u32 \<Rightarrow> nat \<Rightarrow> nat \<Rightarrow> u32" where
  "asset_crc32_flash mem slot off n = foldl asset_crc32_update 0xFFFFFFFF (flash_bytes mem slot off n) XOR 0xFFFFFFFF"

definition asset_validate_record ::
    "(u32 \<Rightarrow> u8) \<Rightarrow> u32 \<Rightarrow> u16 \<Rightarrow> asset_persistence_result \<times> asset_persistence_record option" where
  "asset_validate_record mem slot_address required_marker =
     (let rd = asset_flash_read_u32 mem slot_address in
      if rd ASSET_RECORD_OFFSET_MAGIC \<noteq> ASSET_RECORD_MAGIC
         \<or> rd ASSET_RECORD_OFFSET_VERSION \<noteq> (ASSET_RECORD_ENVELOPE_VERSION
              OR push_bit 8 (ucast OLED_UI_LAYOUT_CONFIG_V1_SCHEMA) OR push_bit 16 (ucast OLED_UI_LAYOUT_CONFIG_V1_OBJECT_TYPE))
         \<or> rd ASSET_RECORD_OFFSET_HEADER_SIZE \<noteq> (ASSET_RECORD_HEADER_BYTES
              OR push_bit 16 (of_nat OLED_UI_LAYOUT_CONFIG_V1_BYTES))
         \<or> rd ASSET_RECORD_OFFSET_FLAGS \<noteq> 0
         \<or> rd ASSET_RECORD_OFFSET_TAIL \<noteq> (0x0000FFFF OR push_bit 16 (ucast required_marker))
      then (ASSET_PERSISTENCE_RESULT_STORAGE_ERROR, None)
      else if \<exists>index \<in> set [0..<ASSET_RECORD_RESERVED_BYTES div 4].
                rd (ASSET_RECORD_OFFSET_RESERVED + index * 4) \<noteq> 0xFFFFFFFF
      then (ASSET_PERSISTENCE_RESULT_STORAGE_ERROR, None)
      else let r = \<lparr>ar_slot_address = slot_address, ar_generation = rd ASSET_RECORD_OFFSET_GENERATION,
                    ar_payload_crc32 = rd ASSET_RECORD_OFFSET_PAYLOAD_CRC\<rparr> in
        if ar_generation r = 0 \<or> ar_generation r > ASSET_PERSISTENCE_GENERATION_MAX
           \<or> asset_crc32_flash mem slot_address 0 24 \<noteq> rd ASSET_RECORD_OFFSET_HEADER_CRC
        then (ASSET_PERSISTENCE_RESULT_STORAGE_ERROR, None)
        else if ar_payload_crc32 r \<noteq> asset_crc32_flash mem slot_address ASSET_RECORD_OFFSET_PAYLOAD OLED_UI_LAYOUT_CONFIG_V1_BYTES
        then (ASSET_PERSISTENCE_RESULT_CRC_MISMATCH, None)
        else if \<not> oled_ui_layout_config_v1_validate
                  (Some (flash_bytes mem slot_address ASSET_RECORD_OFFSET_PAYLOAD OLED_UI_LAYOUT_CONFIG_V1_BYTES))
                  OLED_UI_LAYOUT_CONFIG_V1_BYTES
        then (ASSET_PERSISTENCE_RESULT_VALIDATION_FAILED, None)
        else (ASSET_PERSISTENCE_RESULT_OK, Some r))"

definition asset_records_identical ::
    "(u32 \<Rightarrow> u8) \<Rightarrow> asset_persistence_record \<Rightarrow> asset_persistence_record \<Rightarrow> bool" where
  "asset_records_identical mem l r \<longleftrightarrow> \<not> (ar_generation l \<noteq> ar_generation r \<or> ar_payload_crc32 l \<noteq> ar_payload_crc32 r)
     \<and> asset_flash_read_u32 mem (ar_slot_address l) ASSET_RECORD_OFFSET_PAYLOAD
        = asset_flash_read_u32 mem (ar_slot_address r) ASSET_RECORD_OFFSET_PAYLOAD
     \<and> asset_flash_read_u32 mem (ar_slot_address l) (ASSET_RECORD_OFFSET_PAYLOAD + 4)
        = asset_flash_read_u32 mem (ar_slot_address r) (ASSET_RECORD_OFFSET_PAYLOAD + 4)"

definition asset_clear_active :: "asset_store \<Rightarrow> asset_store" where
  "asset_clear_active s = s\<lparr>as_active := (as_active s)\<lparr>ar_slot_address := 0\<rparr>\<rparr>"

definition asset_candidate_reset :: "asset_store \<Rightarrow> asset_store" where
  "asset_candidate_reset s = s\<lparr>as_candidate := (as_candidate s)\<lparr>ac_active := False\<rparr>\<rparr>"

abbreviation mem_of :: "asset_store \<Rightarrow> (u32 \<Rightarrow> u8)" where
  "mem_of s \<equiv> fs_mem (as_flash s)"

text \<open>Make a validated record the active one and put its layout in force.\<close>

definition asset_activate :: "asset_store \<Rightarrow> asset_persistence_record \<Rightarrow> asset_store" where
  "asset_activate s r = s\<lparr>as_active := r, as_layout := oled_ui_layout_config_v1_activate_validated (as_layout s)
     (flash_bytes (mem_of s) (ar_slot_address r) ASSET_RECORD_OFFSET_PAYLOAD OLED_UI_LAYOUT_CONFIG_V1_BYTES)\<rparr>"

definition asset_select_boot_record :: "asset_store \<Rightarrow> asset_store" where
  "asset_select_boot_record s =
     (let slot_a = snd (asset_validate_record (mem_of s) FLASH_PERSISTENCE_SLOT_A_ADDRESS ASSET_PERSISTENCE_COMMIT_MARKER);
          slot_b = snd (asset_validate_record (mem_of s) FLASH_PERSISTENCE_SLOT_B_ADDRESS ASSET_PERSISTENCE_COMMIT_MARKER);
          s1 = asset_clear_active s
      in case (slot_a, slot_b) of
        (None, None) \<Rightarrow> s1
      | (Some a, None) \<Rightarrow> asset_activate s1 a
      | (None, Some b) \<Rightarrow> asset_activate s1 b
      | (Some a, Some b) \<Rightarrow>
          if ar_generation a > ar_generation b then asset_activate s1 a
          else if ar_generation b > ar_generation a then asset_activate s1 b
          else let s2 = s1\<lparr>as_ambiguity_count := as_ambiguity_count s1 + 1\<rparr> in
            if \<not> asset_records_identical (mem_of s) a b then s2 else asset_activate s2 a)"

text \<open>\<open>flash_persistence_init\<close> only enables the cycle counter.\<close>

definition asset_persistence_init :: "asset_store \<Rightarrow> asset_store" where
  "asset_persistence_init s = asset_select_boot_record s"

definition asset_persistence_active_record :: "asset_store \<Rightarrow> asset_persistence_record option" where
  "asset_persistence_active_record s = (if ar_slot_address (as_active s) \<noteq> 0 then Some (as_active s) else None)"

definition asset_persistence_read_active :: "asset_store \<Rightarrow> nat \<Rightarrow> nat \<Rightarrow> bytes option" where
  "asset_persistence_read_active s offset n =
     (if ar_slot_address (as_active s) = 0 \<or> offset > OLED_UI_LAYOUT_CONFIG_V1_BYTES
         \<or> n > OLED_UI_LAYOUT_CONFIG_V1_BYTES - offset
      then None
      else Some (map (\<lambda>i. asset_flash_read_u8 (mem_of s) (ar_slot_address (as_active s)) (ASSET_RECORD_OFFSET_PAYLOAD + offset + i))
                  [0..<n]))"

section \<open>Writing a candidate\<close>

text \<open>A halfword of the candidate's slot.\<close>

definition asset_program :: "flash_hw \<Rightarrow> asset_store \<Rightarrow> nat \<Rightarrow> u16 \<Rightarrow> bool \<times> asset_store" where
  "asset_program hw s off v =
     (case flash_persistence_program_halfword hw (as_flash s) (ac_slot_address (as_candidate s) + of_nat off) v of
        (ok, f) \<Rightarrow> (ok, s\<lparr>as_flash := f\<rparr>))"

definition metadata_words :: "u32 \<Rightarrow> u32 \<Rightarrow> u16 list" where
  "metadata_words generation payload_crc32 =
     [0x4544, 0x5355, ucast ASSET_RECORD_ENVELOPE_VERSION OR push_bit 8 (ucast OLED_UI_LAYOUT_CONFIG_V1_SCHEMA),
      OLED_UI_LAYOUT_CONFIG_V1_OBJECT_TYPE, ucast ASSET_RECORD_HEADER_BYTES, of_nat OLED_UI_LAYOUT_CONFIG_V1_BYTES,
      ucast (generation AND 0xFFFF), ucast (drop_bit 16 generation),
      ucast (payload_crc32 AND 0xFFFF), ucast (drop_bit 16 payload_crc32), 0, 0]"

fun program_words :: "flash_hw \<Rightarrow> asset_store \<Rightarrow> nat \<Rightarrow> u16 list \<Rightarrow> bool \<times> asset_store" where
  "program_words hw s off [] = (True, s)"
| "program_words hw s off (w # ws) =
     (case asset_program hw s off w of (ok, s1) \<Rightarrow> if ok then program_words hw s1 (off + 2) ws else (False, s1))"

definition asset_program_metadata :: "flash_hw \<Rightarrow> asset_store \<Rightarrow> asset_persistence_result \<times> asset_store" where
  "asset_program_metadata hw s =
     (case program_words hw s 0 (metadata_words (ac_generation (as_candidate s)) (ac_payload_crc32 (as_candidate s))) of
        (ok, s1) \<Rightarrow> (if ok then ASSET_PERSISTENCE_RESULT_OK else ASSET_PERSISTENCE_RESULT_STORAGE_ERROR, s1))"

definition asset_start_changed :: "flash_hw \<Rightarrow> asset_store \<Rightarrow> asset_persistence_result \<times> asset_store" where
  "asset_start_changed hw s =
     (if ar_slot_address (as_active s) \<noteq> 0 \<and> ar_generation (as_active s) \<ge> ASSET_PERSISTENCE_GENERATION_MAX
      then (ASSET_PERSISTENCE_RESULT_WEAR_BUDGET_EXHAUSTED,
            s\<lparr>as_wear_policy_rejection_count := as_wear_policy_rejection_count s + 1\<rparr>)
      else let s1 = s\<lparr>as_candidate := (as_candidate s)\<lparr>
                 ac_slot_address := (if ar_slot_address (as_active s) \<noteq> 0
                        \<and> ar_slot_address (as_active s) = FLASH_PERSISTENCE_SLOT_A_ADDRESS
                      then FLASH_PERSISTENCE_SLOT_B_ADDRESS else FLASH_PERSISTENCE_SLOT_A_ADDRESS),
                 ac_generation := (if ar_slot_address (as_active s) \<noteq> 0 then ar_generation (as_active s) + 1 else 1),
                 ac_accepted_bytes := 0, ac_pending_valid := False, ac_compare_active := False\<rparr>,
               as_last_mutation_cycles := flash_persistence_cycle_count hw (as_flash s)\<rparr>
        in case flash_persistence_erase_page hw (as_flash s1) (ac_slot_address (as_candidate s1)) of (ok, f) \<Rightarrow>
          let s2 = s1\<lparr>as_flash := f\<rparr> in
          if \<not> ok then (ASSET_PERSISTENCE_RESULT_STORAGE_ERROR, asset_candidate_reset s2)
          else case asset_program_metadata hw s2 of (r, s3) \<Rightarrow>
            if r \<noteq> ASSET_PERSISTENCE_RESULT_OK then (r, asset_candidate_reset s3) else (r, s3))"

definition asset_persistence_begin_candidate ::
    "flash_hw \<Rightarrow> asset_store \<Rightarrow> u32 \<Rightarrow> asset_persistence_result \<times> asset_store" where
  "asset_persistence_begin_candidate hw s payload_crc32 =
     (if ac_active (as_candidate s) then (ASSET_PERSISTENCE_RESULT_BAD_STATE, s)
      else let s1 = s\<lparr>as_candidate := (as_candidate s)\<lparr>ac_payload_crc32 := payload_crc32, ac_active := True\<rparr>\<rparr> in
        if ar_slot_address (as_active s1) \<noteq> 0 \<and> ar_payload_crc32 (as_active s1) = payload_crc32
        then (ASSET_PERSISTENCE_RESULT_OK, s1\<lparr>as_candidate := (as_candidate s1)\<lparr>ac_accepted_bytes := 0,
                ac_pending_valid := False, ac_compare_active := True\<rparr>\<rparr>)
        else asset_start_changed hw s1)"

definition asset_program_payload_halfword ::
    "flash_hw \<Rightarrow> asset_store \<Rightarrow> nat \<Rightarrow> u16 \<Rightarrow> asset_persistence_result \<times> asset_store" where
  "asset_program_payload_halfword hw s offset v =
     (case asset_program hw s (ASSET_RECORD_OFFSET_PAYLOAD + offset) v of (ok, s1) \<Rightarrow>
        (if ok then ASSET_PERSISTENCE_RESULT_OK else ASSET_PERSISTENCE_RESULT_STORAGE_ERROR, s1))"

definition set_accepted :: "asset_store \<Rightarrow> nat \<Rightarrow> asset_store" where
  "set_accepted s n = s\<lparr>as_candidate := (as_candidate s)\<lparr>ac_accepted_bytes := n\<rparr>\<rparr>"

definition set_pending :: "asset_store \<Rightarrow> u8 \<Rightarrow> asset_store" where
  "set_pending s b = s\<lparr>as_candidate := (as_candidate s)\<lparr>ac_pending_byte := b, ac_pending_valid := True,
     ac_accepted_bytes := ac_accepted_bytes (as_candidate s) + 1\<rparr>\<rparr>"

text \<open>The loop over pairs of bytes, and a byte left over.\<close>

fun write_pairs :: "flash_hw \<Rightarrow> asset_store \<Rightarrow> bytes \<Rightarrow> asset_persistence_result \<times> asset_store" where
  "write_pairs hw s (a # b # rest) =
     (case asset_program_payload_halfword hw s (ac_accepted_bytes (as_candidate s)) (ucast a OR push_bit 8 (ucast b)) of (r, s1) \<Rightarrow>
        if r \<noteq> ASSET_PERSISTENCE_RESULT_OK then (r, s1)
        else write_pairs hw (set_accepted s1 (ac_accepted_bytes (as_candidate s1) + 2)) rest)"
| "write_pairs hw s [a] = (ASSET_PERSISTENCE_RESULT_OK, set_pending s a)"
| "write_pairs hw s [] = (ASSET_PERSISTENCE_RESULT_OK, s)"

definition asset_write_payload_bytes :: "flash_hw \<Rightarrow> asset_store \<Rightarrow> bytes \<Rightarrow> asset_persistence_result \<times> asset_store" where
  "asset_write_payload_bytes hw s data =
     (if ac_pending_valid (as_candidate s) \<and> data \<noteq> [] then
        (case asset_program_payload_halfword hw s (ac_accepted_bytes (as_candidate s) - 1)
                (ucast (ac_pending_byte (as_candidate s)) OR push_bit 8 (ucast (hd data))) of (r, s1) \<Rightarrow>
           if r \<noteq> ASSET_PERSISTENCE_RESULT_OK then (r, s1)
           else write_pairs hw (s1\<lparr>as_candidate := (as_candidate s1)\<lparr>ac_pending_valid := False,
                  ac_accepted_bytes := ac_accepted_bytes (as_candidate s1) + 1\<rparr>\<rparr>) (tl data))
      else write_pairs hw s data)"

text \<open>The first index from \<open>i\<close> on at which the data differs from the active record.\<close>

fun first_difference :: "asset_store \<Rightarrow> bytes \<Rightarrow> nat \<Rightarrow> nat option" where
  "first_difference s [] i = None"
| "first_difference s (d # ds) i =
     (if asset_flash_read_u8 (mem_of s) (ar_slot_address (as_active s))
           (ASSET_RECORD_OFFSET_PAYLOAD + (ac_accepted_bytes (as_candidate s) + i)) \<noteq> d
      then Some i else first_difference s ds (i + 1))"

text \<open>The copy of the part of the active payload that was equal so far, \<open>n\<close> bytes from \<open>prefix\<close> on.\<close>

fun copy_prefix :: "flash_hw \<Rightarrow> asset_store \<Rightarrow> nat \<Rightarrow> nat \<Rightarrow> asset_persistence_result \<times> asset_store" where
  "copy_prefix hw s pre (Suc (Suc n)) =
     (case asset_program_payload_halfword hw s pre
             (asset_flash_read_u16 (mem_of s) (ar_slot_address (as_active s)) (ASSET_RECORD_OFFSET_PAYLOAD + pre)) of (r, s1) \<Rightarrow>
        if r \<noteq> ASSET_PERSISTENCE_RESULT_OK then (r, asset_candidate_reset s1)
        else copy_prefix hw (set_accepted s1 (ac_accepted_bytes (as_candidate s1) + 2)) (pre + 2) n)"
| "copy_prefix hw s pre (Suc 0) =
     (ASSET_PERSISTENCE_RESULT_OK, set_pending s
        (asset_flash_read_u8 (mem_of s) (ar_slot_address (as_active s)) (ASSET_RECORD_OFFSET_PAYLOAD + pre)))"
| "copy_prefix hw s pre 0 = (ASSET_PERSISTENCE_RESULT_OK, s)"

definition asset_persistence_write_candidate :: "flash_hw \<Rightarrow> asset_store \<Rightarrow> bytes \<Rightarrow> asset_persistence_result \<times> asset_store" where
  "asset_persistence_write_candidate hw s data =
     (let c = as_candidate s in
      if \<not> ac_active c \<or> ac_accepted_bytes c + length data > OLED_UI_LAYOUT_CONFIG_V1_BYTES
      then (ASSET_PERSISTENCE_RESULT_BAD_STATE, s)
      else if ac_compare_active c then
        (case first_difference s data 0 of
           None \<Rightarrow> (ASSET_PERSISTENCE_RESULT_OK, set_accepted s (ac_accepted_bytes c + length data))
         | Some index \<Rightarrow> (case asset_start_changed hw s of (r, s1) \<Rightarrow>
             if r \<noteq> ASSET_PERSISTENCE_RESULT_OK then (r, s1)
             else case copy_prefix hw s1 0 (ac_accepted_bytes c + index) of (r2, s2) \<Rightarrow>
               if r2 \<noteq> ASSET_PERSISTENCE_RESULT_OK then (r2, s2)
               else asset_write_payload_bytes hw s2 (drop index data)))
      else asset_write_payload_bytes hw s data)"

section \<open>Committing\<close>

definition asset_program_header_crc :: "flash_hw \<Rightarrow> asset_store \<Rightarrow> asset_persistence_result \<times> asset_store" where
  "asset_program_header_crc hw s =
     (let header_crc = asset_crc32_flash (mem_of s) (ac_slot_address (as_candidate s)) 0 24 in
      case asset_program hw s ASSET_RECORD_OFFSET_HEADER_CRC (ucast (header_crc AND 0xFFFF)) of (ok, s1) \<Rightarrow>
        if \<not> ok then (ASSET_PERSISTENCE_RESULT_STORAGE_ERROR, s1)
        else case asset_program hw s1 (ASSET_RECORD_OFFSET_HEADER_CRC + 2) (ucast (drop_bit 16 header_crc)) of (ok, s2) \<Rightarrow>
          (if \<not> ok then ASSET_PERSISTENCE_RESULT_STORAGE_ERROR else ASSET_PERSISTENCE_RESULT_OK, s2))"

definition asset_commit_finish :: "flash_hw \<Rightarrow> asset_store \<Rightarrow> asset_persistence_record \<Rightarrow> asset_store" where
  "asset_commit_finish hw s committed =
     (let s1 = asset_activate s committed;
          elapsed = flash_persistence_cycle_count hw (as_flash s1) - as_last_mutation_cycles s1;
          s2 = s1\<lparr>as_last_mutation_cycles := elapsed\<rparr>;
          s3 = (if elapsed > as_max_mutation_cycles s2 then s2\<lparr>as_max_mutation_cycles := elapsed\<rparr> else s2)
      in asset_candidate_reset (s3\<lparr>as_successful_commit_count := as_successful_commit_count s3 + 1\<rparr>))"

definition asset_persistence_commit_candidate :: "flash_hw \<Rightarrow> asset_store \<Rightarrow> asset_persistence_result \<times> asset_store" where
  "asset_persistence_commit_candidate hw s =
     (let c = as_candidate s; slot = ac_slot_address c in
      if \<not> ac_active c \<or> ac_accepted_bytes c \<noteq> OLED_UI_LAYOUT_CONFIG_V1_BYTES then (ASSET_PERSISTENCE_RESULT_BAD_STATE, s)
      else if ac_compare_active c then (ASSET_PERSISTENCE_RESULT_UNCHANGED, asset_candidate_reset s)
      else if ac_pending_valid c then (ASSET_PERSISTENCE_RESULT_BAD_STATE, s)
      else case asset_program_header_crc hw s of (r, s1) \<Rightarrow>
        if r \<noteq> ASSET_PERSISTENCE_RESULT_OK then (r, s1)
        else let r = fst (asset_validate_record (mem_of s1) slot 0xFFFF) in
        if r \<noteq> ASSET_PERSISTENCE_RESULT_OK then (r, s1)
        else case asset_program hw s1 ASSET_RECORD_OFFSET_MARKER ASSET_PERSISTENCE_COMMIT_MARKER of (ok, s2) \<Rightarrow>
        if \<not> ok then (ASSET_PERSISTENCE_RESULT_STORAGE_ERROR, s2)
        else if asset_flash_read_u16 (mem_of s2) slot ASSET_RECORD_OFFSET_MARKER \<noteq> ASSET_PERSISTENCE_COMMIT_MARKER
        then (ASSET_PERSISTENCE_RESULT_STORAGE_ERROR, s2)
        else case asset_validate_record (mem_of s2) slot ASSET_PERSISTENCE_COMMIT_MARKER of
          (r, None) \<Rightarrow> (r, s2)
        | (r, Some committed) \<Rightarrow> (ASSET_PERSISTENCE_RESULT_OK, asset_commit_finish hw s2 committed))"

definition asset_persistence_abort_candidate :: "asset_store \<Rightarrow> asset_store" where
  "asset_persistence_abort_candidate s = asset_candidate_reset s"

end
