(* ===== verification/Asset_Record.thy ===== *)
theory Asset_Record
  imports Asset_Persistence
begin

unbundle bit_operations_syntax

text \<open>
  A slot seen as a page of bytes, and what makes it a record: the header, payload and reserved
  fields, and the marker that seals it.
\<close>

section \<open>A slot as a page\<close>

lemma read_u8_page: "asset_flash_read_u8 mem slot off = flash_page mem slot off"
  by (simp add: asset_flash_read_u8_def flash_page_def)

lemma read_u16_page:
  "asset_flash_read_u16 mem slot off = ucast (flash_page mem slot off) OR push_bit 8 (ucast (flash_page mem slot (off + 1)))"
  by (simp add: asset_flash_read_u16_def read_u16_def flash_page_def ac_simps)

lemma read_u32_page:
  "asset_flash_read_u32 mem slot off = ucast (flash_page mem slot off) OR push_bit 8 (ucast (flash_page mem slot (off + 1)))
     OR push_bit 16 (ucast (flash_page mem slot (off + 2))) OR push_bit 24 (ucast (flash_page mem slot (off + 3)))"
  by (simp add: asset_flash_read_u32_def read_u32_def flash_page_def ac_simps)

lemma flash_bytes_page: "flash_bytes mem slot off n = map (\<lambda>i. flash_page mem slot (off + i)) [0..<n]"
  by (simp add: flash_bytes_def read_u8_page)

text \<open>Two memories that agree on a part of a slot.\<close>

definition agree :: "(u32 \<Rightarrow> u8) \<Rightarrow> (u32 \<Rightarrow> u8) \<Rightarrow> u32 \<Rightarrow> nat set \<Rightarrow> bool" where
  "agree mem mem' slot I \<longleftrightarrow> (\<forall>i \<in> I. flash_page mem' slot i = flash_page mem slot i)"

lemma agree_u32: "agree mem mem' slot I \<Longrightarrow> {off, off + 1, off + 2, off + 3} \<subseteq> I
    \<Longrightarrow> asset_flash_read_u32 mem' slot off = asset_flash_read_u32 mem slot off"
  by (simp add: read_u32_page agree_def)

lemma agree_bytes:
  assumes "agree mem mem' slot I" "{off..<off + n} \<subseteq> I"
  shows "flash_bytes mem' slot off n = flash_bytes mem slot off n"
  unfolding flash_bytes_page
proof (rule map_cong[OF refl])
  fix i assume "i \<in> set [0..<n]"
  then have "off + i \<in> {off..<off + n}" by simp
  with assms show "flash_page mem' slot (off + i) = flash_page mem slot (off + i)" unfolding agree_def by blast
qed

section \<open>Validation\<close>

text \<open>The checks of a record other than its tail.\<close>

definition validate_rest :: "(u32 \<Rightarrow> u8) \<Rightarrow> u32 \<Rightarrow> asset_persistence_result \<times> asset_persistence_record option" where
  "validate_rest mem slot = (let rd = asset_flash_read_u32 mem slot in
      if rd 0 \<noteq> 0x53554544 \<or> rd 4 \<noteq> 0x00010101 \<or> rd 8 \<noteq> 0x00080040 \<or> rd 20 \<noteq> 0
         \<or> (\<exists>index \<in> set [0..<8]. rd (24 + index * 4) \<noteq> 0xFFFFFFFF)
         \<or> rd 12 = 0 \<or> rd 12 > 10000 \<or> asset_crc32_flash mem slot 0 24 \<noteq> rd 56
      then (ASSET_PERSISTENCE_RESULT_STORAGE_ERROR, None)
      else if rd 16 \<noteq> asset_crc32_flash mem slot 64 8 then (ASSET_PERSISTENCE_RESULT_CRC_MISMATCH, None)
      else if \<not> oled_ui_layout_config_v1_validate (Some (flash_bytes mem slot 64 8)) 8
      then (ASSET_PERSISTENCE_RESULT_VALIDATION_FAILED, None)
      else (ASSET_PERSISTENCE_RESULT_OK, Some \<lparr>ar_slot_address = slot, ar_generation = rd 12, ar_payload_crc32 = rd 16\<rparr>))"

lemma validate_split:
  "asset_validate_record mem slot m =
    (if asset_flash_read_u32 mem slot 60 \<noteq> (0x0000FFFF OR push_bit 16 (ucast m))
     then (ASSET_PERSISTENCE_RESULT_STORAGE_ERROR, None) else validate_rest mem slot)"
  by (auto simp: asset_validate_record_def validate_rest_def Let_def)

lemma validate_rest_cong:
  assumes a: "agree mem mem' slot ({0..<60} \<union> {64..<72})"
  shows "validate_rest mem' slot = validate_rest mem slot"
proof -
  have rd: "asset_flash_read_u32 mem' slot n = asset_flash_read_u32 mem slot n" if "n + 3 < 60" for n
    by (rule agree_u32[OF a]) (use that in auto)
  have crc: "asset_crc32_flash mem' slot 0 24 = asset_crc32_flash mem slot 0 24"
    "asset_crc32_flash mem' slot 64 8 = asset_crc32_flash mem slot 64 8"
    "flash_bytes mem' slot 64 8 = flash_bytes mem slot 64 8"
    unfolding asset_crc32_flash_def
    using agree_bytes[OF a, of 0 24] agree_bytes[OF a, of 64 8] by (simp_all add: subset_iff)
  have res: "(\<exists>index \<in> set [0..<8]. asset_flash_read_u32 mem' slot (24 + index * 4) \<noteq> 0xFFFFFFFF)
      \<longleftrightarrow> (\<exists>index \<in> set [0..<8]. asset_flash_read_u32 mem slot (24 + index * 4) \<noteq> 0xFFFFFFFF)"
    using rd by auto
  have rds: "asset_flash_read_u32 mem' slot 0 = asset_flash_read_u32 mem slot 0"
    "asset_flash_read_u32 mem' slot 4 = asset_flash_read_u32 mem slot 4"
    "asset_flash_read_u32 mem' slot 8 = asset_flash_read_u32 mem slot 8"
    "asset_flash_read_u32 mem' slot 12 = asset_flash_read_u32 mem slot 12"
    "asset_flash_read_u32 mem' slot 16 = asset_flash_read_u32 mem slot 16"
    "asset_flash_read_u32 mem' slot 20 = asset_flash_read_u32 mem slot 20"
    "asset_flash_read_u32 mem' slot 56 = asset_flash_read_u32 mem slot 56"
    by (rule rd, simp)+
  show ?thesis unfolding validate_rest_def Let_def crc res rds ..
qed

text \<open>The record a slot holds for the next boot.\<close>

definition record_at :: "(u32 \<Rightarrow> u8) \<Rightarrow> u32 \<Rightarrow> asset_persistence_record option" where
  "record_at mem slot = snd (asset_validate_record mem slot 0xA55A)"

definition marker_set :: "(nat \<Rightarrow> u8) \<Rightarrow> bool" where
  "marker_set p \<longleftrightarrow> p 62 = 0x5A \<and> p 63 = 0xA5"

definition cat32 :: "u8 \<Rightarrow> u8 \<Rightarrow> u8 \<Rightarrow> u8 \<Rightarrow> u32" where
  "cat32 a b c d = ucast a OR push_bit 8 (ucast b) OR push_bit 16 (ucast c) OR push_bit 24 (ucast d)"

lemma cat32_inj: "cat32 a b c d = cat32 a' b' c' d' \<longleftrightarrow> a = a' \<and> b = b' \<and> c = c' \<and> d = d'"
proof
  assume eq: "cat32 a b c d = cat32 a' b' c' d'"
  have "ucast (cat32 a b c d) = (ucast (cat32 a' b' c' d') :: u8)"
    "ucast (drop_bit 8 (cat32 a b c d)) = (ucast (drop_bit 8 (cat32 a' b' c' d')) :: u8)"
    "ucast (drop_bit 16 (cat32 a b c d)) = (ucast (drop_bit 16 (cat32 a' b' c' d')) :: u8)"
    "ucast (drop_bit 24 (cat32 a b c d)) = (ucast (drop_bit 24 (cat32 a' b' c' d')) :: u8)"
    by (simp_all only: eq)
  then show "a = a' \<and> b = b' \<and> c = c' \<and> d = d'"
    unfolding cat32_def u32_cat_bytes by simp
qed simp

lemma cat32_halves:
  "(ucast (n :: u16) :: u32) OR push_bit 16 (ucast (m :: u16))
    = cat32 (ucast n) (ucast (drop_bit 8 n)) (ucast m) (ucast (drop_bit 8 m))"
proof (rule bit_word_eqI)
  fix k assume "k < LENGTH(32)"
  then have "k < 8 \<or> 8 \<le> k \<and> k < 16 \<or> 16 \<le> k \<and> k < 24 \<or> 24 \<le> k \<and> k < 32" by auto
  then show "bit ((ucast n :: u32) OR push_bit 16 (ucast m)) k
      = bit (cat32 (ucast n) (ucast (drop_bit 8 n)) (ucast m) (ucast (drop_bit 8 m))) k"
    unfolding cat32_def by (elim disjE) (auto simp: bit_simps dest: bit_imp_le_length)
qed

lemma read_u32_cat: "asset_flash_read_u32 mem slot off = cat32 (flash_page mem slot off) (flash_page mem slot (off + 1))
    (flash_page mem slot (off + 2)) (flash_page mem slot (off + 3))"
  by (simp add: read_u32_page cat32_def)

lemma tail_bytes:
  "asset_flash_read_u32 mem slot 60 = 0x0000FFFF OR push_bit 16 (ucast (m :: u16)) \<longleftrightarrow>
    flash_page mem slot 60 = 0xFF \<and> flash_page mem slot 61 = 0xFF
    \<and> flash_page mem slot 62 = ucast m \<and> flash_page mem slot 63 = ucast (drop_bit 8 m)"
proof -
  have "(0x0000FFFF :: u32) OR push_bit 16 (ucast m) = cat32 0xFF 0xFF (ucast m) (ucast (drop_bit 8 m))"
  proof -
    have e: "(ucast (0xFFFF :: u16) :: u32) = 0x0000FFFF" "(ucast (0xFFFF :: u16) :: u8) = 0xFF"
      "(ucast (drop_bit 8 (0xFFFF :: u16)) :: u8) = 0xFF" by simp_all
    show ?thesis using cat32_halves[where n = "0xFFFF" and m = m] unfolding e .
  qed
  then show ?thesis by (simp only: read_u32_cat cat32_inj) simp
qed

lemma validate_marked:
  "asset_validate_record mem slot 0xA55A =
    (if flash_page mem slot 60 = 0xFF \<and> flash_page mem slot 61 = 0xFF \<and> marker_set (flash_page mem slot)
     then validate_rest mem slot else (ASSET_PERSISTENCE_RESULT_STORAGE_ERROR, None))"
proof -
  have "ucast (0xA55A :: u16) = (0x5A :: u8)" "ucast (drop_bit 8 (0xA55A :: u16)) = (0xA5 :: u8)" by simp_all
  then show ?thesis unfolding validate_split tail_bytes marker_set_def by (simp only: if_not_P) auto
qed

lemma validate_unmarked:
  "asset_validate_record mem slot 0xFFFF =
    (if flash_page mem slot 60 = 0xFF \<and> flash_page mem slot 61 = 0xFF \<and> flash_page mem slot 62 = 0xFF \<and> flash_page mem slot 63 = 0xFF
     then validate_rest mem slot else (ASSET_PERSISTENCE_RESULT_STORAGE_ERROR, None))"
proof -
  have "ucast (0xFFFF :: u16) = (0xFF :: u8)" "ucast (drop_bit 8 (0xFFFF :: u16)) = (0xFF :: u8)" by simp_all
  then show ?thesis unfolding validate_split tail_bytes by (simp only: if_not_P) auto
qed

text \<open>A record needs its marker; setting the marker of a checked one makes it a record.\<close>

lemma record_marker: "record_at mem slot \<noteq> None \<Longrightarrow> marker_set (flash_page mem slot)"
  by (auto simp: record_at_def validate_marked split: if_splits)

lemma record_sealed:
  assumes "asset_validate_record mem slot 0xFFFF = (ASSET_PERSISTENCE_RESULT_OK, x)"
    and "agree mem mem' slot ({0..<62} \<union> {64..<72})" "marker_set (flash_page mem' slot)"
  shows "record_at mem' slot = Some \<lparr>ar_slot_address = slot, ar_generation = asset_flash_read_u32 mem slot 12,
      ar_payload_crc32 = asset_flash_read_u32 mem slot 16\<rparr>"
    "asset_crc32_flash mem slot 64 8 = asset_flash_read_u32 mem slot 16"
proof -
  from assms(1) have t: "flash_page mem slot 60 = 0xFF" "flash_page mem slot 61 = 0xFF"
    "validate_rest mem slot = (ASSET_PERSISTENCE_RESULT_OK, x)"
    by (auto simp: validate_unmarked split: if_splits)
  have "validate_rest mem' slot = validate_rest mem slot"
    by (rule validate_rest_cong) (use assms(2) in \<open>auto simp: agree_def\<close>)
  moreover have "flash_page mem' slot 60 = 0xFF" "flash_page mem' slot 61 = 0xFF" using assms(2) t by (auto simp: agree_def)
  ultimately have "asset_validate_record mem' slot 0xA55A = validate_rest mem slot"
    using assms(3) by (simp add: validate_marked)
  then show "record_at mem' slot = Some \<lparr>ar_slot_address = slot, ar_generation = asset_flash_read_u32 mem slot 12,
      ar_payload_crc32 = asset_flash_read_u32 mem slot 16\<rparr>" "asset_crc32_flash mem slot 64 8 = asset_flash_read_u32 mem slot 16"
    using t(3) by (auto simp: record_at_def validate_rest_def Let_def split: if_splits)
qed

lemma record_at_cong: "agree mem mem' slot {0..<72} \<Longrightarrow> record_at mem' slot = record_at mem slot"
proof -
  assume a: "agree mem mem' slot {0..<72}"
  have "validate_rest mem' slot = validate_rest mem slot"
    by (rule validate_rest_cong) (use a in \<open>auto simp: agree_def\<close>)
  moreover have "flash_page mem' slot n = flash_page mem slot n" if "n < 72" for n using a that by (simp add: agree_def)
  ultimately show ?thesis by (simp add: record_at_def validate_marked marker_set_def)
qed

lemma record_at_fields:
  "record_at mem slot = Some r \<Longrightarrow> ar_slot_address r = slot \<and> 0 < ar_generation r \<and> ar_generation r \<le> 10000
     \<and> ar_payload_crc32 r = asset_crc32_flash mem slot 64 8"
  by (auto simp: record_at_def validate_marked validate_rest_def Let_def word_neq_0_conv split: if_splits)

section \<open>What a record is\<close>

text \<open>
  The format of a page that holds a record, over its bytes: identification, no reserved bit
  cleared, a generation within the budget, both checksums, a layout that is valid, and the marker.
\<close>

definition page_bytes :: "(nat \<Rightarrow> u8) \<Rightarrow> nat \<Rightarrow> nat \<Rightarrow> bytes" where
  "page_bytes p off n = map (\<lambda>i. p (off + i)) [0..<n]"

definition page_word :: "(nat \<Rightarrow> u8) \<Rightarrow> nat \<Rightarrow> u32" where
  "page_word p off = cat32 (p off) (p (off + 1)) (p (off + 2)) (p (off + 3))"

definition crc32_of :: "bytes \<Rightarrow> u32" where
  "crc32_of bs = foldl asset_crc32_update 0xFFFFFFFF bs XOR 0xFFFFFFFF"

definition whole_record :: "(nat \<Rightarrow> u8) \<Rightarrow> bool" where
  "whole_record p \<longleftrightarrow> page_word p 0 = 0x53554544 \<and> page_word p 4 = 0x00010101 \<and> page_word p 8 = 0x00080040 \<and> page_word p 20 = 0
     \<and> (\<forall>i < 8. page_word p (24 + i * 4) = 0xFFFFFFFF)
     \<and> 0 < page_word p 12 \<and> page_word p 12 \<le> 10000
     \<and> page_word p 56 = crc32_of (page_bytes p 0 24) \<and> page_word p 16 = crc32_of (page_bytes p 64 8)
     \<and> oled_ui_layout_config_v1_validate (Some (page_bytes p 64 8)) 8
     \<and> p 60 = 0xFF \<and> p 61 = 0xFF \<and> marker_set p"

lemma record_whole: "record_at mem slot \<noteq> None \<Longrightarrow> whole_record (flash_page mem slot)"
proof -
  assume r: "record_at mem slot \<noteq> None"
  have b: "page_bytes (flash_page mem slot) off n = flash_bytes mem slot off n" for off n
    by (simp add: page_bytes_def flash_bytes_page)
  have w: "page_word (flash_page mem slot) off = asset_flash_read_u32 mem slot off" for off
    by (simp add: page_word_def read_u32_cat)
  show ?thesis
    using r unfolding whole_record_def b w crc32_of_def asset_crc32_flash_def[symmetric]
    by (auto simp: record_at_def validate_marked validate_rest_def Let_def word_neq_0_conv not_less split: if_splits)
qed

lemma unmarked_no_record [simp]: "p 62 = 0xFF \<Longrightarrow> \<not> whole_record p"
  by (simp add: whole_record_def marker_set_def)

lemma whole_record_cong: "(\<And>i. i < 1024 \<Longrightarrow> p i = q i) \<Longrightarrow> whole_record p \<longleftrightarrow> whole_record q"
proof -
  assume e: "\<And>i. i < 1024 \<Longrightarrow> p i = q i"
  have w: "page_word p off = page_word q off" if "off < 1000" for off using that e by (simp add: page_word_def)
  have b: "page_bytes p off n = page_bytes q off n" if "off + n < 1024" for off n using that e by (simp add: page_bytes_def)
  have "(\<forall>i < 8. page_word p (24 + i * 4) = 0xFFFFFFFF) \<longleftrightarrow> (\<forall>i < 8. page_word q (24 + i * 4) = 0xFFFFFFFF)" using w by simp
  then show ?thesis using w[of 0] w[of 4] w[of 8] w[of 20] w[of 12] w[of 56] w[of 16] b[of 0 24] b[of 64 8] e[of 60] e[of 61] e[of 62] e[of 63]
    by (simp add: whole_record_def marker_set_def)
qed

end
