(* ===== verification/Asset_Atomic.thy ===== *)
theory Asset_Atomic
  imports Asset_Record
begin

unbundle bit_operations_syntax

text \<open>
  What an update of the persistent store does to the record the next boot selects, whatever
  the flash controller does: fails, leaves halfwords half programmed, or loses power.
\<close>

section \<open>The record the next boot selects\<close>

definition boots :: "asset_store \<Rightarrow> asset_persistence_record option" where
  "boots s = asset_persistence_active_record (asset_persistence_init s)"

text \<open>The slot an update writes, and the other one.\<close>

definition update_slot :: "asset_store \<Rightarrow> u32" where
  "update_slot s = (if ar_slot_address (as_active s) \<noteq> 0 \<and> ar_slot_address (as_active s) = FLASH_PERSISTENCE_SLOT_A_ADDRESS
     then FLASH_PERSISTENCE_SLOT_B_ADDRESS else FLASH_PERSISTENCE_SLOT_A_ADDRESS)"

definition kept_slot :: "asset_store \<Rightarrow> u32" where
  "kept_slot s = (if update_slot s = FLASH_PERSISTENCE_SLOT_A_ADDRESS
     then FLASH_PERSISTENCE_SLOT_B_ADDRESS else FLASH_PERSISTENCE_SLOT_A_ADDRESS)"

lemma update_slot_is: "is_slot (update_slot s)" "is_slot (kept_slot s)" "kept_slot s \<noteq> update_slot s"
  by (auto simp: update_slot_def kept_slot_def is_slot_def)

text \<open>
  The active record is the one a boot would select; without one, no slot holds a record (the
  two records of an ambiguous store are excluded).
\<close>

definition store_ok :: "asset_store \<Rightarrow> bool" where
  "store_ok s \<longleftrightarrow> boots s = asset_persistence_active_record s
     \<and> (boots s = None \<longrightarrow> record_at (mem_of s) FLASH_PERSISTENCE_SLOT_A_ADDRESS = None
          \<and> record_at (mem_of s) FLASH_PERSISTENCE_SLOT_B_ADDRESS = None)"

text \<open>The record of the kept slot wins unless the other slot's is newer.\<close>

definition newer :: "asset_persistence_record \<Rightarrow> asset_persistence_record option \<Rightarrow> bool" where
  "newer r x \<longleftrightarrow> (case x of None \<Rightarrow> True | Some r0 \<Rightarrow> ar_generation r0 < ar_generation r)"

lemma activated_record:
  "ar_slot_address r \<noteq> 0 \<Longrightarrow> asset_persistence_active_record (asset_activate s r) = Some r"
  "asset_persistence_active_record (asset_clear_active s) = None"
  by (simp_all add: asset_persistence_active_record_def asset_activate_def asset_clear_active_def)

lemma ambiguity_keeps [simp]:
  "asset_persistence_active_record (s\<lparr>as_ambiguity_count := n\<rparr>) = asset_persistence_active_record s"
  by (simp add: asset_persistence_active_record_def)

lemma boots_eq:
  "boots s = (case (record_at (mem_of s) FLASH_PERSISTENCE_SLOT_A_ADDRESS, record_at (mem_of s) FLASH_PERSISTENCE_SLOT_B_ADDRESS) of
     (None, None) \<Rightarrow> None | (Some a, None) \<Rightarrow> Some a | (None, Some b) \<Rightarrow> Some b
   | (Some a, Some b) \<Rightarrow> if ar_generation b < ar_generation a then Some a
       else if ar_generation a < ar_generation b then Some b
       else if asset_records_identical (mem_of s) a b then Some a else None)"
proof -
  have sl: "record_at (mem_of s) p = Some r \<Longrightarrow> is_slot p \<Longrightarrow> ar_slot_address r \<noteq> 0" for p r
    using record_at_fields by (fastforce simp: is_slot_def)
  then have a: "record_at (mem_of s) FLASH_PERSISTENCE_SLOT_A_ADDRESS = Some r \<Longrightarrow> ar_slot_address r \<noteq> 0"
    "record_at (mem_of s) FLASH_PERSISTENCE_SLOT_B_ADDRESS = Some r \<Longrightarrow> ar_slot_address r \<noteq> 0" for r
    by (simp_all add: is_slot_def)
  show ?thesis
    unfolding boots_def asset_persistence_init_def asset_select_boot_record_def Let_def record_at_def[symmetric]
    using a by (auto simp: activated_record split: option.splits)
qed

lemma store_ok_kept:
  assumes "store_ok s"
  shows "boots s = record_at (mem_of s) (kept_slot s)"
    "boots s = Some r \<Longrightarrow> as_active s = r \<and> ar_slot_address r \<noteq> 0"
    "boots s = None \<Longrightarrow> ar_slot_address (as_active s) = 0"
proof -
  show act: "boots s = Some r \<Longrightarrow> as_active s = r \<and> ar_slot_address r \<noteq> 0"
    "boots s = None \<Longrightarrow> ar_slot_address (as_active s) = 0" for r
    using assms by (auto simp: store_ok_def asset_persistence_active_record_def split: if_splits)
  show "boots s = record_at (mem_of s) (kept_slot s)"
  proof (cases "boots s")
    case None
    then show ?thesis using assms by (auto simp: store_ok_def kept_slot_def)
  next
    case (Some r)
    then have "record_at (mem_of s) FLASH_PERSISTENCE_SLOT_A_ADDRESS = Some r \<or> record_at (mem_of s) FLASH_PERSISTENCE_SLOT_B_ADDRESS = Some r"
      unfolding boots_eq by (auto split: option.splits if_splits)
    then show ?thesis using Some act(1)[OF Some]
      by (auto simp: kept_slot_def update_slot_def dest: record_at_fields)
  qed
qed

text \<open>The three states an update can leave.\<close>

lemma boots_after:
  assumes ok: "store_ok s" and k: "agree (mem_of s) (mem_of s') (kept_slot s) {0..<72}"
  shows "agree (mem_of s) (mem_of s') (update_slot s) {0..<72} \<Longrightarrow> boots s' = boots s"
    "record_at (mem_of s') (update_slot s) = None \<Longrightarrow> boots s' = boots s"
    "record_at (mem_of s') (update_slot s) = Some r \<Longrightarrow> newer r (boots s) \<Longrightarrow> boots s' = Some r"
proof -
  have kr: "record_at (mem_of s') (kept_slot s) = boots s"
    using record_at_cong[OF k] store_ok_kept(1)[OF ok] by simp
  have slots: "update_slot s = FLASH_PERSISTENCE_SLOT_A_ADDRESS \<and> kept_slot s = FLASH_PERSISTENCE_SLOT_B_ADDRESS
      \<or> update_slot s = FLASH_PERSISTENCE_SLOT_B_ADDRESS \<and> kept_slot s = FLASH_PERSISTENCE_SLOT_A_ADDRESS"
    by (auto simp: kept_slot_def update_slot_def)
  show "boots s' = boots s" if u: "agree (mem_of s) (mem_of s') (update_slot s) {0..<72}"
  proof -
    have pay: "asset_flash_read_u32 (mem_of s') p n = asset_flash_read_u32 (mem_of s) p n"
      if "n = 64 \<or> n = 68" "p = FLASH_PERSISTENCE_SLOT_A_ADDRESS \<or> p = FLASH_PERSISTENCE_SLOT_B_ADDRESS" for p n
    proof -
      have "agree (mem_of s) (mem_of s') p {0..<72}" using k u slots that(2) by metis
      then show ?thesis by (rule agree_u32) (use that(1) in auto)
    qed
    have recs: "record_at (mem_of s') p = record_at (mem_of s) p"
      if "p = FLASH_PERSISTENCE_SLOT_A_ADDRESS \<or> p = FLASH_PERSISTENCE_SLOT_B_ADDRESS" for p
      using record_at_cong[OF k] record_at_cong[OF u] slots that by metis
    have "asset_records_identical (mem_of s') a b = asset_records_identical (mem_of s) a b"
      if "record_at (mem_of s) FLASH_PERSISTENCE_SLOT_A_ADDRESS = Some a" "record_at (mem_of s) FLASH_PERSISTENCE_SLOT_B_ADDRESS = Some b" for a b
      using record_at_fields[OF that(1)] record_at_fields[OF that(2)] pay[of 64] pay[of 68]
      by (simp add: asset_records_identical_def)
    then show ?thesis unfolding boots_eq using recs by (auto split: option.splits)
  qed
  show "boots s' = boots s" if "record_at (mem_of s') (update_slot s) = None"
    using kr that slots unfolding boots_eq[of s'] by (auto split: option.splits)
  show "boots s' = Some r" if "record_at (mem_of s') (update_slot s) = Some r" "newer r (boots s)"
    using kr that slots unfolding boots_eq[of s'] by (auto simp: newer_def split: option.splits)
qed

section \<open>What the writing operations touch\<close>

text \<open>Only the bytes \<open>I\<close> of slot \<open>t\<close> may differ, and the active record is the same.\<close>

definition touches :: "asset_store \<Rightarrow> asset_store \<Rightarrow> u32 \<Rightarrow> nat set \<Rightarrow> bool" where
  "touches s s' t I \<longleftrightarrow> as_active s' = as_active s
     \<and> (\<forall>p i. is_slot p \<and> i < 1024 \<and> (p \<noteq> t \<or> i \<notin> I) \<longrightarrow> flash_page (mem_of s') p i = flash_page (mem_of s) p i)"

lemma touches_refl: "as_active s' = as_active s \<Longrightarrow> mem_of s' = mem_of s \<Longrightarrow> touches s s' t I"
  by (simp add: touches_def)

lemma touches_trans: "touches s s1 t I \<Longrightarrow> touches s1 s2 t J \<Longrightarrow> I \<union> J \<subseteq> K \<Longrightarrow> touches s s2 t K"
  by (fastforce simp: touches_def)

lemma touches_mono: "touches s s' t I \<Longrightarrow> I \<subseteq> K \<Longrightarrow> touches s s' t K"
  by (fastforce simp: touches_def)

lemma touches_bytes:
  assumes "touches s s' t I" "is_slot t" "off + n \<le> 1024" "{off..<off + n} \<inter> I = {}"
  shows "flash_bytes (mem_of s') t off n = flash_bytes (mem_of s) t off n"
proof (rule agree_bytes[of _ _ _ "{off..<off + n}"])
  have "i \<notin> I" if "i \<in> {off..<off + n}" for i using that assms(4) by blast
  then show "agree (mem_of s) (mem_of s') t {off..<off + n}"
    using assms(1,2,3) unfolding agree_def touches_def by simp
qed simp

lemma touches_kept: "touches s s' t I \<Longrightarrow> is_slot q \<Longrightarrow> q \<noteq> t \<Longrightarrow> agree (mem_of s) (mem_of s') q {0..<1024}"
  by (simp add: touches_def agree_def)

lemma asset_program_step:
  assumes "is_slot (ac_slot_address (as_candidate s))" "k + 1 < 1024" "asset_program hw s k v = (ok, s')"
  shows "touches s s' (ac_slot_address (as_candidate s)) {k, k + 1}" "as_candidate s' = as_candidate s"
    "ok \<Longrightarrow> flash_bytes (mem_of s') (ac_slot_address (as_candidate s)) k 2 = wr16 v"
proof -
  let ?t = "ac_slot_address (as_candidate s)"
  obtain f where f: "flash_persistence_program_halfword hw (as_flash s) (?t + of_nat k) v = (ok, f)" "s' = s\<lparr>as_flash := f\<rparr>"
    using assms(3) by (auto simp: asset_program_def split: prod.splits)
  have fe: "fs_mem f = fs_mem (as_flash s) \<or> (\<exists>oc. fs_mem f = flash_effect oc (mem_of s) (?t + of_nat k) v FLASH_PERSISTENCE_OP_PROGRAM)"
    using f(1) flash_execute_mem[of hw "as_flash s" "?t + of_nat k" v FLASH_PERSISTENCE_OP_PROGRAM]
    by (fastforce simp: flash_persistence_program_halfword_def flash_fail_def split: if_splits prod.splits)
  show "as_candidate s' = as_candidate s" using f(2) by simp
  show "touches s s' ?t {k, k + 1}"
    using fe f(2) flash_effect_page[OF assms(1) _ assms(2)] by (auto simp: touches_def)
  show "flash_bytes (mem_of s') ?t k 2 = wr16 v" if ok
  proof -
    have "read_u16 (fs_mem f) (?t + of_nat k) = v"
      using f(1) that by (auto simp: flash_persistence_program_halfword_def flash_fail_def split: if_splits prod.splits)
    then show ?thesis
      using f(2) by (simp add: read_u16_eq flash_bytes_page flash_page_def wr16_def upt_rec numeral_2_eq_2 add.assoc)
  qed
qed

lemma length_flash_bytes [simp]: "length (flash_bytes mem t off n) = n"
  by (simp add: flash_bytes_def)

lemma flash_bytes_append: "flash_bytes mem t off (m + n) = flash_bytes mem t off m @ flash_bytes mem t (off + m) n"
  by (rule nth_equalityI) (auto simp: flash_bytes_page nth_append)

lemma program_words_step:
  assumes "is_slot (ac_slot_address (as_candidate s))" "off + 2 * length ws \<le> 1024" "program_words hw s off ws = (ok, s')"
  shows "touches s s' (ac_slot_address (as_candidate s)) {off..<off + 2 * length ws} \<and> as_candidate s' = as_candidate s
    \<and> (ok \<longrightarrow> flash_bytes (mem_of s') (ac_slot_address (as_candidate s)) off (2 * length ws) = concat (map wr16 ws))"
  using assms
proof (induction ws arbitrary: s off)
  case Nil
  then show ?case by (simp add: touches_refl flash_bytes_def)
next
  case (Cons w ws)
  let ?t = "ac_slot_address (as_candidate s)"
  obtain ok1 s1 where p: "asset_program hw s off w = (ok1, s1)" by fastforce
  have k: "off + 1 < 1024" using Cons.prems(2) by simp
  note st = asset_program_step[OF Cons.prems(1) k p]
  show ?case
  proof (cases ok1)
    case False
    then show ?thesis using Cons.prems(3) p st touches_mono[OF st(1)] by auto
  next
    case True
    then have rec: "program_words hw s1 (off + 2) ws = (ok, s')" using Cons.prems(3) p by simp
    have ih: "touches s1 s' ?t {off + 2..<off + 2 + 2 * length ws} \<and> as_candidate s' = as_candidate s1
      \<and> (ok \<longrightarrow> flash_bytes (mem_of s') ?t (off + 2) (2 * length ws) = concat (map wr16 ws))"
      using Cons.IH[OF _ _ rec] Cons.prems(1,2) st(2) by simp
    have "flash_bytes (mem_of s') ?t off 2 = wr16 w"
      using touches_bytes[OF conjunct1[OF ih] Cons.prems(1), of off 2] st(3)[OF True] Cons.prems(2) by simp
    then have "ok \<longrightarrow> flash_bytes (mem_of s') ?t off (2 + 2 * length ws) = concat (map wr16 (w # ws))"
      using ih unfolding flash_bytes_append by simp
    moreover have "touches s s' ?t {off..<off + 2 * length (w # ws)}"
      by (rule touches_trans[OF st(1) conjunct1[OF ih]]) auto
    ultimately show ?thesis using ih st(2) by simp
  qed
qed

section \<open>A candidate being written\<close>

definition next_generation :: "asset_store \<Rightarrow> u32" where
  "next_generation s = (if ar_slot_address (as_active s) \<noteq> 0 then ar_generation (as_active s) + 1 else 1)"

text \<open>
  The kept slot is untouched, and the other one is as it was, holds no record, or is what an
  erase has left: an erase that fails or is cut short may leave any page.
\<close>

definition leftover :: "flash_hw \<Rightarrow> asset_store \<Rightarrow> asset_store \<Rightarrow> bool" where
  "leftover hw s0 s \<longleftrightarrow> (\<exists>n. \<forall>i < 1024. flash_page (mem_of s) (update_slot s0) i
     = fo_erase (hw n) (flash_page (mem_of s0) (update_slot s0)) i)"

lemma leftover_candidate [simp]: "leftover hw s0 (s\<lparr>as_candidate := c\<rparr>) = leftover hw s0 s"
  by (simp add: leftover_def)

definition unsealed :: "flash_hw \<Rightarrow> asset_store \<Rightarrow> asset_store \<Rightarrow> bool" where
  "unsealed hw s0 s \<longleftrightarrow> touches s0 s (update_slot s0) UNIV
     \<and> (agree (mem_of s0) (mem_of s) (update_slot s0) {0..<1024} \<or> \<not> whole_record (flash_page (mem_of s) (update_slot s0))
        \<or> leftover hw s0 s)"

text \<open>The candidate has taken \<open>data\<close>: whole halfwords are in the flash, an odd byte is pending.\<close>

definition writing :: "asset_store \<Rightarrow> asset_store \<Rightarrow> u32 \<Rightarrow> bytes \<Rightarrow> bool" where
  "writing s0 s crc data \<longleftrightarrow> (let c = as_candidate s; t = update_slot s0; w = 2 * (length data div 2) in
     ac_active c \<and> \<not> ac_compare_active c \<and> ac_slot_address c = t \<and> ac_generation c = next_generation s0
     \<and> ac_payload_crc32 c = crc \<and> ac_accepted_bytes c = length data \<and> length data \<le> 8
     \<and> ac_pending_valid c = odd (length data) \<and> (odd (length data) \<longrightarrow> ac_pending_byte c = last data)
     \<and> touches s0 s t UNIV \<and> flash_page (mem_of s) t 62 = 0xFF
     \<and> flash_bytes (mem_of s) t 0 24 = concat (map wr16 (metadata_words (next_generation s0) crc))
     \<and> flash_bytes (mem_of s) t 64 w = take w data)"

lemma writing_unsealed: "writing s0 s crc data \<Longrightarrow> unsealed hw s0 s"
  by (simp add: writing_def unsealed_def Let_def)

lemma length_metadata [simp]: "length (metadata_words g c) = 12"
  by (simp add: metadata_words_def)

lemma erase_page_step:
  assumes t: "is_slot t" and e: "flash_persistence_erase_page hw f t = (ok, f')"
  shows "\<forall>p i. is_slot p \<and> i < 1024 \<and> p \<noteq> t \<longrightarrow> flash_page (fs_mem f') p i = flash_page (fs_mem f) p i"
    "(\<forall>i < 1024. flash_page (fs_mem f') t i = flash_page (fs_mem f) t i)
       \<or> (\<forall>i < 1024. flash_page (fs_mem f') t i = fo_erase (hw (fs_ops f)) (flash_page (fs_mem f) t) i)"
    "ok \<Longrightarrow> \<forall>i < 1024. flash_page (fs_mem f') t i = 0xFF"
proof -
  obtain ok1 f1 where x: "flash_execute hw f t 0 FLASH_PERSISTENCE_OP_ERASE = (ok1, f1)" by fastforce
  have m: "fs_mem f' = fs_mem f1" using e x t
    by (auto simp: flash_persistence_erase_page_def flash_fail_def is_slot_def split: if_splits prod.splits)
  from flash_execute_mem[OF x] m
  have eff: "fs_mem f' = flash_effect (hw (fs_ops f)) (fs_mem f) t 0 FLASH_PERSISTENCE_OP_ERASE \<or> fs_mem f' = fs_mem f" by auto
  note er = flash_effect_erase[OF t]
  show "\<forall>p i. is_slot p \<and> i < 1024 \<and> p \<noteq> t \<longrightarrow> flash_page (fs_mem f') p i = flash_page (fs_mem f) p i"
    using eff er by auto
  show "(\<forall>i < 1024. flash_page (fs_mem f') t i = flash_page (fs_mem f) t i)
      \<or> (\<forall>i < 1024. flash_page (fs_mem f') t i = fo_erase (hw (fs_ops f)) (flash_page (fs_mem f) t) i)"
    using eff
  proof
    assume q: "fs_mem f' = flash_effect (hw (fs_ops f)) (fs_mem f) t 0 FLASH_PERSISTENCE_OP_ERASE"
    have "flash_page (fs_mem f') t i = fo_erase (hw (fs_ops f)) (flash_page (fs_mem f) t) i" if "i < 1024" for i
      unfolding q er[OF t that] by simp
    then show ?thesis by blast
  qed simp
  show "\<forall>i < 1024. flash_page (fs_mem f') t i = 0xFF" if ok
  proof (intro allI impI)
    fix i :: nat assume i: "i < 1024"
    have "read_u16 (fs_mem f') (t + of_nat (2 * (i div 2))) = 0xFFFF"
      using e x that i by (auto simp: flash_persistence_erase_page_def flash_fail_def split: if_splits prod.splits)
    moreover have "t + of_nat (2 * (i div 2)) + 1 = t + of_nat (2 * (i div 2) + 1)" by (simp add: add.assoc)
    moreover have "ucast (0xFFFF :: u16) = (0xFF :: u8)" "ucast (drop_bit 8 (0xFFFF :: u16)) = (0xFF :: u8)" by simp_all
    ultimately have "flash_page (fs_mem f') t (2 * (i div 2)) = 0xFF" "flash_page (fs_mem f') t (2 * (i div 2) + 1) = 0xFF"
      unfolding read_u16_eq flash_page_def by metis+
    moreover have "i = 2 * (i div 2) \<or> i = 2 * (i div 2) + 1" by presburger
    ultimately show "flash_page (fs_mem f') t i = 0xFF" by metis
  qed
qed

text \<open>Starting a changed candidate: erase and header, or nothing.\<close>

lemma start_changed_step:
  assumes c: "as_active s = as_active s0" "mem_of s = mem_of s0"
    "ac_active (as_candidate s)" "ac_payload_crc32 (as_candidate s) = crc" and st: "asset_start_changed hw s = (r, s')"
  shows "if r = ASSET_PERSISTENCE_RESULT_OK then writing s0 s' crc [] else unsealed hw s0 s'"
    "r = ASSET_PERSISTENCE_RESULT_OK \<Longrightarrow> asset_persistence_active_record s0 \<noteq> None \<Longrightarrow> ar_generation (as_active s0) < 10000"
proof -
  let ?t = "update_slot s0"
  note t = update_slot_is(1)[of s0]
  let ?wear = "ar_slot_address (as_active s) \<noteq> 0 \<and> ar_generation (as_active s) \<ge> 10000"
  let ?s1 = "s\<lparr>as_candidate := (as_candidate s)\<lparr>ac_slot_address := ?t, ac_generation := next_generation s0,
      ac_accepted_bytes := 0, ac_pending_valid := False, ac_compare_active := False\<rparr>,
      as_last_mutation_cycles := flash_persistence_cycle_count hw (as_flash s)\<rparr>"
  obtain ok f where e: "flash_persistence_erase_page hw (as_flash s) ?t = (ok, f)" by fastforce
  note er = erase_page_step[OF t e, unfolded c(2)]
  let ?s2 = "?s1\<lparr>as_flash := f\<rparr>"
  obtain ok3 s3 where w: "program_words hw ?s2 0 (metadata_words (next_generation s0) crc) = (ok3, s3)" by fastforce
  have T: "(if ar_slot_address (as_active s) \<noteq> 0 \<and> ar_slot_address (as_active s) = FLASH_PERSISTENCE_SLOT_A_ADDRESS
      then FLASH_PERSISTENCE_SLOT_B_ADDRESS else FLASH_PERSISTENCE_SLOT_A_ADDRESS) = ?t"
    and G: "(if ar_slot_address (as_active s) \<noteq> 0 then ar_generation (as_active s) + 1 else 1) = next_generation s0"
    by (simp_all add: update_slot_def next_generation_def c(1))
  have eq: "(r, s') = (if ?wear then (ASSET_PERSISTENCE_RESULT_WEAR_BUDGET_EXHAUSTED,
        s\<lparr>as_wear_policy_rejection_count := as_wear_policy_rejection_count s + 1\<rparr>)
      else if \<not> ok then (ASSET_PERSISTENCE_RESULT_STORAGE_ERROR, asset_candidate_reset ?s2)
      else if \<not> ok3 then (ASSET_PERSISTENCE_RESULT_STORAGE_ERROR, asset_candidate_reset s3)
      else (ASSET_PERSISTENCE_RESULT_OK, s3))"
    using e w c(4) unfolding st[symmetric] asset_start_changed_def Let_def T G
    by (simp add: asset_program_metadata_def)
  have u2: "unsealed hw s0 ?s2"
  proof -
    have "touches s0 ?s2 ?t UNIV" using er(1) c(1) t by (simp add: touches_def)
    moreover have "agree (mem_of s0) (mem_of ?s2) ?t {0..<1024} \<or> leftover hw s0 ?s2"
      using er(2) by (auto simp: agree_def leftover_def)
    ultimately show ?thesis by (auto simp: unsealed_def)
  qed
  have p3: "touches ?s2 s3 ?t {0..<24}" "as_candidate s3 = as_candidate ?s2"
    "ok3 \<Longrightarrow> flash_bytes (mem_of s3) ?t 0 24 = concat (map wr16 (metadata_words (next_generation s0) crc))"
    using program_words_step[OF _ _ w] t by simp_all
  have t3: "touches s0 s3 ?t UNIV"
    by (rule touches_trans[OF _ p3(1), where I = UNIV]) (use u2 in \<open>simp_all add: unsealed_def\<close>)
  have p62: "flash_page (mem_of s3) ?t 62 = 0xFF" if ok
    using er(3)[OF that] p3(1) t by (simp add: touches_def)
  have u3: "unsealed hw s0 s3" if ok using t3 p62[OF that] by (simp add: unsealed_def)
  have keep: "unsealed hw s0 (asset_candidate_reset x) = unsealed hw s0 x" for x
    by (simp add: unsealed_def leftover_def touches_def asset_candidate_reset_def)
  have same: "unsealed hw s0 (s\<lparr>as_wear_policy_rejection_count := n\<rparr>)" for n
    using c by (simp add: unsealed_def touches_def agree_def)
  have wr: "writing s0 s3 crc []" if ok ok3
    using p3 t3 p62[OF that(1)] that(2) c(3,4) by (simp add: writing_def flash_bytes_def)
  show "if r = ASSET_PERSISTENCE_RESULT_OK then writing s0 s' crc [] else unsealed hw s0 s'"
    using eq keep same u2 u3 wr by (auto split: if_splits)
  show "r = ASSET_PERSISTENCE_RESULT_OK \<Longrightarrow> asset_persistence_active_record s0 \<noteq> None \<Longrightarrow> ar_generation (as_active s0) < 10000"
    using eq c(1) by (auto simp: asset_persistence_active_record_def not_le split: if_splits)
qed

lemma wr16_cat: "wr16 (ucast a OR push_bit 8 (ucast (b :: u8))) = [a, b]"
  unfolding wr16_def by (simp only: ucast_u16_cat ucast_drop_u16_cat)

text \<open>One halfword of payload.\<close>

lemma payload_step:
  assumes w: "writing s0 s crc data" and k: "n = 2 * (length data div 2)" "n < 8"
    and p: "asset_program_payload_halfword hw s n v = (r, s1)"
  shows "as_candidate s1 = as_candidate s" "touches s0 s1 (update_slot s0) UNIV"
    "flash_page (mem_of s1) (update_slot s0) 62 = 0xFF"
    "flash_bytes (mem_of s1) (update_slot s0) 0 24 = concat (map wr16 (metadata_words (next_generation s0) crc))"
    "r = ASSET_PERSISTENCE_RESULT_OK \<Longrightarrow> flash_bytes (mem_of s1) (update_slot s0) 64 (n + 2) = take n data @ wr16 v"
    "unsealed hw s0 s1"
proof -
  let ?t = "update_slot s0"
  note t = update_slot_is(1)[of s0]
  have sl: "ac_slot_address (as_candidate s) = ?t" and ts: "touches s0 s ?t UNIV" "flash_page (mem_of s) ?t 62 = 0xFF"
    "flash_bytes (mem_of s) ?t 0 24 = concat (map wr16 (metadata_words (next_generation s0) crc))"
    "flash_bytes (mem_of s) ?t 64 n = take n data"
    using w k by (simp_all add: writing_def Let_def)
  obtain ok where a: "asset_program hw s (64 + n) v = (ok, s1)" "(r = ASSET_PERSISTENCE_RESULT_OK) = ok"
    using p by (auto simp: asset_program_payload_halfword_def split: prod.splits if_splits)
  have k2: "64 + n + 1 < 1024" using k by simp
  have isl: "is_slot (ac_slot_address (as_candidate s))" using sl t by simp
  note st = asset_program_step[OF isl k2 a(1), unfolded sl]
  show "as_candidate s1 = as_candidate s" using st(2) .
  show tt: "touches s0 s1 ?t UNIV" by (rule touches_trans[OF ts(1) st(1)]) simp
  show p62: "flash_page (mem_of s1) ?t 62 = 0xFF" using st(1) ts(2) t by (simp add: touches_def)
  show "flash_bytes (mem_of s1) ?t 0 24 = concat (map wr16 (metadata_words (next_generation s0) crc))"
    using touches_bytes[OF st(1) t, of 0 24] ts(3) by simp
  show "flash_bytes (mem_of s1) ?t 64 (n + 2) = take n data @ wr16 v" if "r = ASSET_PERSISTENCE_RESULT_OK"
    using touches_bytes[OF st(1) t, of 64 n] ts(4) st(3) a(2) that k(2) unfolding flash_bytes_append by simp
  show "unsealed hw s0 s1" using tt p62 by (simp add: unsealed_def)
qed

lemma halfword_written:
  assumes w: "writing s0 s crc data" and k: "n = 2 * (length data div 2)" "n < 8"
    and p: "asset_program_payload_halfword hw s n (ucast a OR push_bit 8 (ucast b)) = (ASSET_PERSISTENCE_RESULT_OK, s1)"
    and s2: "as_flash s2 = as_flash s1" "as_active s2 = as_active s1"
      "as_candidate s2 = (as_candidate s)\<lparr>ac_accepted_bytes := n + 2, ac_pending_valid := False\<rparr>"
  shows "writing s0 s2 crc (take n data @ [a, b])"
proof -
  note st = payload_step[OF w k p]
  have l: "length (take n data @ [a, b]) = n + 2" "n + 2 \<le> 8" "even n" using k by auto
  have fb: "flash_bytes (mem_of s2) (update_slot s0) 64 (n + 2) = take n data @ [a, b]"
    using st(5) s2(1) by (simp add: wr16_cat)
  show ?thesis
    using w st(2,3,4) fb l s2 unfolding writing_def Let_def by (simp add: touches_def)
qed

lemma set_pending_written:
  assumes w: "writing s0 s crc data" and e: "even (length data)" "length data < 8"
  shows "writing s0 (set_pending s b) crc (data @ [b])"
proof -
  have "2 * (length (data @ [b]) div 2) = length data" using e(1) by simp
  then show ?thesis using w e by (simp add: writing_def Let_def set_pending_def touches_def)
qed

lemma write_pairs_step:
  assumes "writing s0 s crc data" "even (length data)" "length data + length ds \<le> 8" "write_pairs hw s ds = (r, s')"
  shows "if r = ASSET_PERSISTENCE_RESULT_OK then writing s0 s' crc (data @ ds) else unsealed hw s0 s'"
  using assms
proof (induction hw s ds arbitrary: data rule: write_pairs.induct)
  case (1 hw s a b rest)
  let ?n = "length data"
  have n: "?n = 2 * (length data div 2)" "?n < 8" "ac_accepted_bytes (as_candidate s) = ?n" "\<not> ac_pending_valid (as_candidate s)"
    using 1(2-4) by (auto simp: writing_def Let_def)
  obtain r1 s1 where p: "asset_program_payload_halfword hw s ?n (ucast a OR push_bit 8 (ucast b)) = (r1, s1)" by fastforce
  note st = payload_step[OF 1(2) n(1,2) p]
  show ?case
  proof (cases "r1 = ASSET_PERSISTENCE_RESULT_OK")
    case False
    then show ?thesis using 1(5) p st(6) n(3) by auto
  next
    case True
    let ?s2 = "set_accepted s1 (ac_accepted_bytes (as_candidate s1) + 2)"
    have c2: "as_candidate ?s2 = (as_candidate s)\<lparr>ac_accepted_bytes := ?n + 2, ac_pending_valid := False\<rparr>"
      using st(1) n(3,4) by (simp add: set_accepted_def)
    have "writing s0 ?s2 crc (take ?n data @ [a, b])"
      by (rule halfword_written[OF 1(2) n(1,2) p[unfolded True]]) (use c2 in \<open>simp_all add: set_accepted_def\<close>)
    then have w2: "writing s0 ?s2 crc (data @ [a, b])" by simp
    have rec: "write_pairs hw ?s2 rest = (r, s')" using 1(5) p True n(3) by simp
    have "if r = ASSET_PERSISTENCE_RESULT_OK then writing s0 s' crc ((data @ [a, b]) @ rest) else unsealed hw s0 s'"
      by (rule 1(1)[of r1 s1, OF _ _ w2 _ _ rec]) (use True p n(3) 1(3,4) in simp_all)
    then show ?thesis by (auto split: if_splits)
  qed
next
  case (2 hw s a)
  then show ?case using set_pending_written[of s0 s crc data a] by auto
next
  case (3 hw s)
  then show ?case by auto
qed

lemma write_payload_step:
  assumes w: "writing s0 s crc data" and l: "length data + length ds \<le> 8"
    and p: "asset_write_payload_bytes hw s ds = (r, s')"
  shows "if r = ASSET_PERSISTENCE_RESULT_OK then writing s0 s' crc (data @ ds) else unsealed hw s0 s'"
proof (cases "ac_pending_valid (as_candidate s) \<and> ds \<noteq> []")
  case False
  then have pw: "write_pairs hw s ds = (r, s')" using p by (auto simp: asset_write_payload_bytes_def)
  show ?thesis
  proof (cases "ds = []")
    case True with pw w show ?thesis by auto
  next
    case ne: False
    with False w have "even (length data)" by (auto simp: writing_def Let_def)
    from write_pairs_step[OF w this l pw] show ?thesis .
  qed
next
  case True
  let ?n = "length data - 1"
  have odd: "odd (length data)" "ac_pending_byte (as_candidate s) = last data" "ac_accepted_bytes (as_candidate s) = length data"
    using True w by (auto simp: writing_def Let_def)
  obtain d rest where ds: "ds = d # rest" using True by (cases ds) auto
  have n: "?n = 2 * (length data div 2)" "?n < 8" using odd(1) l by (presburger, simp add: ds)
  have ne: "data \<noteq> []" using odd(1) by auto
  have split: "take ?n data @ [last data] = data" using ne by (metis append_butlast_last_id butlast_conv_take)
  obtain r1 s1 where q: "asset_program_payload_halfword hw s ?n (ucast (last data) OR push_bit 8 (ucast d)) = (r1, s1)" by fastforce
  note st = payload_step[OF w n q]
  show ?thesis
  proof (cases "r1 = ASSET_PERSISTENCE_RESULT_OK")
    case False
    then show ?thesis using p True q st(6) odd ds by (auto simp: asset_write_payload_bytes_def)
  next
    case ok: True
    let ?s2 = "s1\<lparr>as_candidate := (as_candidate s1)\<lparr>ac_pending_valid := False,
                  ac_accepted_bytes := ac_accepted_bytes (as_candidate s1) + 1\<rparr>\<rparr>"
    have "length data + 1 = ?n + 2" using ne by (simp add: Suc_le_eq)
    then have c2: "as_candidate ?s2 = (as_candidate s)\<lparr>ac_accepted_bytes := ?n + 2, ac_pending_valid := False\<rparr>"
      using st(1) odd(3) by simp
    have "writing s0 ?s2 crc (take ?n data @ [last data, d])"
      by (rule halfword_written[OF w n q[unfolded ok]]) (use c2 in simp_all)
    then have w2: "writing s0 ?s2 crc (data @ [d])" using split by (metis append.assoc append_Cons append_Nil)
    have pw: "write_pairs hw ?s2 rest = (r, s')" using p True q ok odd ds by (simp add: asset_write_payload_bytes_def)
    have "even (length (data @ [d]))" "length (data @ [d]) + length rest \<le> 8" using odd(1) l ds by auto
    from write_pairs_step[OF w2 this pw] show ?thesis by (auto simp: ds split: if_splits)
  qed
qed

section \<open>A candidate equal so far\<close>

definition comparing :: "asset_store \<Rightarrow> asset_store \<Rightarrow> u32 \<Rightarrow> bytes \<Rightarrow> bool" where
  "comparing s0 s crc data \<longleftrightarrow> (let c = as_candidate s in ac_active c \<and> ac_compare_active c
     \<and> ac_payload_crc32 c = crc \<and> ac_accepted_bytes c = length data \<and> length data \<le> 8
     \<and> as_active s = as_active s0 \<and> mem_of s = mem_of s0 \<and> ar_slot_address (as_active s0) \<noteq> 0
     \<and> data = flash_bytes (mem_of s0) (ar_slot_address (as_active s0)) 64 (length data))"

lemma comparing_unsealed: "comparing s0 s crc data \<Longrightarrow> unsealed hw s0 s"
  by (simp add: comparing_def unsealed_def touches_def agree_def Let_def)

lemma first_difference_spec:
  "case first_difference s ds i of
     None \<Rightarrow> ds = flash_bytes (mem_of s) (ar_slot_address (as_active s)) (64 + (ac_accepted_bytes (as_candidate s) + i)) (length ds)
   | Some j \<Rightarrow> i \<le> j \<and> j < i + length ds \<and> take (j - i) ds
       = flash_bytes (mem_of s) (ar_slot_address (as_active s)) (64 + (ac_accepted_bytes (as_candidate s) + i)) (j - i)"
proof (induction ds arbitrary: i)
  case Nil
  then show ?case by (simp add: flash_bytes_def)
next
  case (Cons d ds)
  let ?a = "64 + (ac_accepted_bytes (as_candidate s) + i)"
  have one: "flash_bytes m p off (Suc n) = flash_page m p off # flash_bytes m p (Suc off) n" for m p off n
    using flash_bytes_append[of m p off 1 n] by (simp add: flash_bytes_page)
  show ?case
  proof (cases "asset_flash_read_u8 (mem_of s) (ar_slot_address (as_active s)) ?a = d")
    case False
    then show ?thesis by (simp add: flash_bytes_def)
  next
    case True
    show ?thesis
    proof (cases "first_difference s ds (i + 1)")
      case None
      then show ?thesis using Cons.IH[of "i + 1"] True by (simp add: one read_u8_page)
    next
      case (Some j)
      then have "i + 1 \<le> j" using Cons.IH[of "i + 1"] by auto
      then have "j = i + Suc (j - i - 1)" by simp
      then obtain m where "j = i + Suc m" by blast
      then show ?thesis using Cons.IH[of "i + 1"] Some True by (simp add: one read_u8_page)
    qed
  qed
qed

lemma copy_prefix_step:
  assumes "writing s0 s crc (take pre P)" "even pre" "pre + n \<le> 8" "copy_prefix hw s pre n = (r, s')"
    and "P = flash_bytes (mem_of s0) (ar_slot_address (as_active s0)) 64 8"
    and "is_slot (ar_slot_address (as_active s0))" "ar_slot_address (as_active s0) \<noteq> update_slot s0"
  shows "if r = ASSET_PERSISTENCE_RESULT_OK then writing s0 s' crc (take (pre + n) P) else unsealed hw s0 s'"
  using assms
proof (induction hw s pre n rule: copy_prefix.induct)
  case (1 hw s pre n)
  note w = 1(2) and P = 1(6) and act = 1(7,8)
  have lP: "length P = 8" "length (take pre P) = pre" using P 1(4) by (simp_all add: flash_bytes_def)
  have k: "pre = 2 * (length (take pre P) div 2)" "pre < 8" using 1(3,4) lP by auto
  have cand: "ac_accepted_bytes (as_candidate s) = pre" "\<not> ac_pending_valid (as_candidate s)" "as_active s = as_active s0"
    "touches s0 s (update_slot s0) UNIV"
    using w lP 1(3) by (auto simp: writing_def Let_def touches_def)
  have pg: "flash_page (mem_of s) (ar_slot_address (as_active s0)) (64 + i) = P ! i" if "i < 8" for i
    using that cand(4) act P by (simp add: touches_def flash_bytes_page)
  have rd: "asset_flash_read_u16 (mem_of s) (ar_slot_address (as_active s)) (64 + pre) = ucast (P ! pre) OR push_bit 8 (ucast (P ! (pre + 1)))"
    using pg[of pre] pg[of "pre + 1"] 1(4) by (simp add: read_u16_page cand(3) add.assoc)
  obtain r1 s1 where q: "asset_program_payload_halfword hw s pre (ucast (P ! pre) OR push_bit 8 (ucast (P ! (pre + 1)))) = (r1, s1)" by fastforce
  note st = payload_step[OF w k q]
  show ?case
  proof (cases "r1 = ASSET_PERSISTENCE_RESULT_OK")
    case False
    then have "unsealed hw s0 s'" using 1(5) q rd st(6) by (auto simp: asset_candidate_reset_def unsealed_def touches_def)
    moreover have "r \<noteq> ASSET_PERSISTENCE_RESULT_OK" using 1(5) q rd False by auto
    ultimately show ?thesis by simp
  next
    case True
    let ?s2 = "set_accepted s1 (ac_accepted_bytes (as_candidate s1) + 2)"
    have c2: "as_candidate ?s2 = (as_candidate s)\<lparr>ac_accepted_bytes := pre + 2, ac_pending_valid := False\<rparr>"
      using st(1) cand by (simp add: set_accepted_def)
    have "writing s0 ?s2 crc (take pre (take pre P) @ [P ! pre, P ! (pre + 1)])"
      by (rule halfword_written[OF w k q[unfolded True]]) (use c2 in \<open>simp_all add: set_accepted_def\<close>)
    then have w2: "writing s0 ?s2 crc (take (pre + 2) P)"
      using lP 1(4) by (simp add: take_Suc_conv_app_nth numeral_2_eq_2)
    have rec: "copy_prefix hw ?s2 (pre + 2) n = (r, s')" using 1(5) q rd True by simp
    have "if r = ASSET_PERSISTENCE_RESULT_OK then writing s0 s' crc (take (pre + 2 + n) P) else unsealed hw s0 s'"
      by (rule 1(1)[of r1 s1, OF _ _ w2 _ _ rec P act]) (use True q rd 1(3,4) in simp_all)
    then show ?thesis by (auto split: if_splits)
  qed
next
  case (2 hw s pre)
  have lP: "length P = 8" using 2(5) by (simp add: flash_bytes_def)
  have "touches s0 s (update_slot s0) UNIV" "as_active s = as_active s0" using 2(1) by (simp_all add: writing_def Let_def touches_def)
  then have "asset_flash_read_u8 (mem_of s) (ar_slot_address (as_active s)) (64 + pre) = P ! pre"
    using 2(3,5,6,7) by (simp add: read_u8_page touches_def flash_bytes_page)
  then show ?case using set_pending_written[OF 2(1), of "P ! pre"] 2(2,3,4) lP
    by (auto simp: take_Suc_conv_app_nth)
next
  case (3 hw s pre)
  then show ?case by simp
qed

section \<open>The update\<close>

text \<open>
  A new generation is only started below the budget, so it is the successor of the active
  one without wrap-around.
\<close>

definition room :: "asset_store \<Rightarrow> bool" where
  "room s \<longleftrightarrow> (asset_persistence_active_record s \<noteq> None \<longrightarrow> ar_generation (as_active s) < 10000)"

definition written :: "asset_store \<Rightarrow> asset_store \<Rightarrow> u32 \<Rightarrow> bytes \<Rightarrow> bool" where
  "written s0 s crc data \<longleftrightarrow> writing s0 s crc data \<and> room s0"

definition accepted :: "asset_store \<Rightarrow> asset_store \<Rightarrow> u32 \<Rightarrow> bytes \<Rightarrow> bool" where
  "accepted s0 s crc data \<longleftrightarrow> written s0 s crc data \<or> comparing s0 s crc data"

lemma begin_step:
  assumes idle: "\<not> ac_active (as_candidate s0)"
    and b: "asset_persistence_begin_candidate hw s0 crc = (r, s)"
  shows "if r = ASSET_PERSISTENCE_RESULT_OK then accepted s0 s crc [] else unsealed hw s0 s"
proof -
  let ?s1 = "s0\<lparr>as_candidate := (as_candidate s0)\<lparr>ac_payload_crc32 := crc, ac_active := True\<rparr>\<rparr>"
  show ?thesis
  proof (cases "ar_slot_address (as_active s0) \<noteq> 0 \<and> ar_payload_crc32 (as_active s0) = crc")
    case True
    then have "comparing s0 s crc []" "r = ASSET_PERSISTENCE_RESULT_OK"
      using b idle by (auto simp: asset_persistence_begin_candidate_def comparing_def flash_bytes_def Let_def)
    then show ?thesis by (simp add: accepted_def)
  next
    case False
    then have "asset_start_changed hw ?s1 = (r, s)" using b idle by (auto simp: asset_persistence_begin_candidate_def Let_def)
    from start_changed_step[OF _ _ _ _ this, of s0 crc] show ?thesis
      by (auto simp: accepted_def written_def room_def)
  qed
qed

lemma accepted_unsealed: "accepted s0 s crc data \<Longrightarrow> unsealed hw s0 s"
  by (auto simp: accepted_def written_def writing_unsealed comparing_unsealed)

text \<open>The active record is in the slot an update keeps.\<close>

definition active_slot_ok :: "asset_store \<Rightarrow> bool" where
  "active_slot_ok s \<longleftrightarrow> ar_slot_address (as_active s) = 0 \<or> is_slot (ar_slot_address (as_active s))"

lemma active_kept:
  assumes "active_slot_ok s" "ar_slot_address (as_active s) \<noteq> 0"
  shows "ar_slot_address (as_active s) = kept_slot s"
  using assms by (auto simp: active_slot_ok_def is_slot_def kept_slot_def update_slot_def)

lemma store_ok_active:
  assumes "store_ok s"
  shows "active_slot_ok s"
proof (cases "ar_slot_address (as_active s) = 0")
  case False
  then have "asset_persistence_active_record s = Some (as_active s)" by (simp add: asset_persistence_active_record_def)
  then have "record_at (mem_of s) (kept_slot s) = Some (as_active s)"
    using assms store_ok_kept(1)[OF assms] by (simp add: store_ok_def)
  then have "ar_slot_address (as_active s) = kept_slot s" using record_at_fields by blast
  then show ?thesis using update_slot_is(2) by (simp add: active_slot_ok_def)
qed (simp add: active_slot_ok_def)

text \<open>At the first byte that differs the candidate is started, with the equal part copied.\<close>

lemma differing_step:
  assumes ok: "active_slot_ok s0" and c: "comparing s0 s crc data"
    and l: "length data + length ds \<le> 8" and d: "first_difference s ds 0 = Some j"
    and w: "asset_persistence_write_candidate hw s ds = (r, s')"
  shows "if r = ASSET_PERSISTENCE_RESULT_OK then written s0 s' crc (data @ ds) else unsealed hw s0 s'"
proof -
  let ?slot = "ar_slot_address (as_active s0)"
  let ?P = "flash_bytes (mem_of s0) ?slot 64 8"
  have f: "ac_active (as_candidate s)" "ac_accepted_bytes (as_candidate s) = length data" "ac_compare_active (as_candidate s)"
    "as_active s = as_active s0" "mem_of s = mem_of s0" "?slot \<noteq> 0" "ac_payload_crc32 (as_candidate s) = crc"
    "data = flash_bytes (mem_of s0) ?slot 64 (length data)" using c by (auto simp: comparing_def Let_def)
  have j: "j < length ds" "take j ds = flash_bytes (mem_of s0) ?slot (64 + length data) j"
    using first_difference_spec[where s = s and ds = ds and i = 0, unfolded f(2,4,5)] d by simp_all
  have "8 = (length data + j) + (8 - (length data + j))" using j(1) l by simp
  then have "?P = flash_bytes (mem_of s0) ?slot 64 (length data + j)
      @ flash_bytes (mem_of s0) ?slot (64 + (length data + j)) (8 - (length data + j))"
    using flash_bytes_append by metis
  then have "take (length data + j) ?P = flash_bytes (mem_of s0) ?slot 64 (length data + j)" by simp
  then have pre: "take (length data + j) ?P = data @ take j ds" using f(8) j(2) unfolding flash_bytes_append by simp
  obtain r1 s1 where st: "asset_start_changed hw s = (r1, s1)" by fastforce
  note sc = start_changed_step[OF f(4,5,1,7) st]
  obtain r2 s2 where cp: "copy_prefix hw s1 0 (length data + j) = (r2, s2)" by fastforce
  have eq: "(r, s') = (if r1 \<noteq> ASSET_PERSISTENCE_RESULT_OK then (r1, s1)
      else if r2 \<noteq> ASSET_PERSISTENCE_RESULT_OK then (r2, s2) else asset_write_payload_bytes hw s2 (drop j ds))"
    using w[symmetric] f(1,2,3) l d st cp by (simp add: asset_persistence_write_candidate_def Let_def)
  show ?thesis
  proof (cases "r1 = ASSET_PERSISTENCE_RESULT_OK \<and> r2 = ASSET_PERSISTENCE_RESULT_OK")
    case True
    have w1: "writing s0 s1 crc (take 0 ?P)" "room s0" using sc True by (simp_all add: room_def)
    have "if r2 = ASSET_PERSISTENCE_RESULT_OK then writing s0 s2 crc (take (0 + (length data + j)) ?P) else unsealed hw s0 s2"
      by (rule copy_prefix_step[OF w1(1) _ _ cp refl])
        (use active_kept[OF ok f(6)] update_slot_is j(1) l in simp_all)
    with pre True have "writing s0 s2 crc (data @ take j ds)" by simp
    moreover have "length (data @ take j ds) + length (drop j ds) \<le> 8" using l j(1) by simp
    moreover have "asset_write_payload_bytes hw s2 (drop j ds) = (r, s')" using eq True by simp
    ultimately show ?thesis using write_payload_step[of s0 s2 crc "data @ take j ds" "drop j ds"] w1(2)
      by (fastforce simp: written_def)
  next
    case False
    have "writing s0 s1 crc (take 0 ?P)" if "r1 = ASSET_PERSISTENCE_RESULT_OK" using sc that by simp
    from copy_prefix_step[OF this _ _ cp refl] have "unsealed hw s0 s2" if "r1 = ASSET_PERSISTENCE_RESULT_OK" "r2 \<noteq> ASSET_PERSISTENCE_RESULT_OK"
      using active_kept[OF ok f(6)] update_slot_is j(1) l that by simp
    with eq sc False show ?thesis by (auto split: if_splits)
  qed
qed

lemma write_step:
  assumes ok: "active_slot_ok s0" and a: "accepted s0 s crc data"
    and w: "asset_persistence_write_candidate hw s ds = (r, s')"
  shows "if r = ASSET_PERSISTENCE_RESULT_OK then accepted s0 s' crc (data @ ds) else unsealed hw s0 s'"
proof -
  have fld: "ac_active (as_candidate s)" "ac_accepted_bytes (as_candidate s) = length data"
    using a by (auto simp: accepted_def written_def writing_def comparing_def Let_def)
  consider (long) "length data + length ds > 8" | (wr) "length data + length ds \<le> 8" "written s0 s crc data"
    | (cmp) "length data + length ds \<le> 8" "comparing s0 s crc data" using a unfolding accepted_def by linarith
  then show ?thesis
  proof cases
    case long
    then show ?thesis using w fld accepted_unsealed[OF a] by (auto simp: asset_persistence_write_candidate_def Let_def)
  next
    case wr
    then have "asset_write_payload_bytes hw s ds = (r, s')"
      using w fld by (auto simp: asset_persistence_write_candidate_def written_def writing_def Let_def)
    from write_payload_step[OF _ wr(1) this] wr(2) show ?thesis by (auto simp: written_def accepted_def split: if_splits)
  next
    case cmp
    show ?thesis
    proof (cases "first_difference s ds 0")
      case None
      have c: "ac_compare_active (as_candidate s)" "as_active s = as_active s0" "mem_of s = mem_of s0"
        "data = flash_bytes (mem_of s0) (ar_slot_address (as_active s0)) 64 (length data)"
        using cmp(2) by (auto simp: comparing_def Let_def)
      have s': "r = ASSET_PERSISTENCE_RESULT_OK" "s' = set_accepted s (length data + length ds)"
        using w fld c(1) cmp(1) None by (auto simp: asset_persistence_write_candidate_def Let_def)
      have "data @ ds = flash_bytes (mem_of s0) (ar_slot_address (as_active s0)) 64 (length data + length ds)"
        using first_difference_spec[where s = s and ds = ds and i = 0, unfolded c(2,3) fld(2)] None c(4)
        unfolding flash_bytes_append by simp
      then show ?thesis using cmp fld s' by (simp add: accepted_def comparing_def set_accepted_def Let_def)
    next
      case (Some j)
      from differing_step[OF ok cmp(2,1) Some w] show ?thesis by (auto simp: accepted_def split: if_splits)
    qed
  qed
qed

end
