(* ===== verification/Asset_Service.thy ===== *)
theory Asset_Service
  imports Asset_Atomic
begin

unbundle bit_operations_syntax

text \<open>
  Committing a candidate, and the properties of the persistent store: an update is all or
  nothing over any loss of power, an accepted update is what the next boot reads, the layout
  in force is always valid, and the driver stays inside its two pages.
\<close>

section \<open>Committing\<close>

lemma halves_join: "(ucast (ucast (g AND 0xFFFF) :: u16) :: u32) OR push_bit 16 (ucast (ucast (drop_bit 16 g) :: u16)) = g"
proof -
  have m: "(0xFFFF :: u32) = mask 16" by (simp add: mask_eq_exp_minus_1)
  show ?thesis unfolding m by (rule bit_word_eqI) (auto simp: bit_simps)
qed

lemma page_nth: "i < n \<Longrightarrow> flash_page mem t (off + i) = flash_bytes mem t off n ! i"
  by (simp add: flash_bytes_page)

lemma metadata_reads:
  assumes "flash_bytes mem t 0 24 = concat (map wr16 (metadata_words g c))"
  shows "asset_flash_read_u32 mem t 12 = g" "asset_flash_read_u32 mem t 16 = c"
proof -
  have p: "flash_page mem t i = concat (map wr16 (metadata_words g c)) ! i" if "i < 24" for i
    using page_nth[of i 24 mem t 0] that assms by simp
  have "asset_flash_read_u32 mem t 12 = cat32 (ucast (ucast (g AND 0xFFFF) :: u16)) (ucast (drop_bit 8 (ucast (g AND 0xFFFF) :: u16)))
      (ucast (ucast (drop_bit 16 g) :: u16)) (ucast (drop_bit 8 (ucast (drop_bit 16 g) :: u16)))"
    unfolding read_u32_cat by (simp add: p metadata_words_def wr16_def)
  then show "asset_flash_read_u32 mem t 12 = g" unfolding cat32_halves[symmetric] halves_join .
  have "asset_flash_read_u32 mem t 16 = cat32 (ucast (ucast (c AND 0xFFFF) :: u16)) (ucast (drop_bit 8 (ucast (c AND 0xFFFF) :: u16)))
      (ucast (ucast (drop_bit 16 c) :: u16)) (ucast (drop_bit 8 (ucast (drop_bit 16 c) :: u16)))"
    unfolding read_u32_cat by (simp add: p metadata_words_def wr16_def)
  then show "asset_flash_read_u32 mem t 16 = c" unfolding cat32_halves[symmetric] halves_join .
qed

text \<open>The updated slot holds the new record with the accepted data, the kept one is untouched.\<close>

definition new_record :: "asset_store \<Rightarrow> u32 \<Rightarrow> asset_persistence_record" where
  "new_record s0 crc = \<lparr>ar_slot_address = update_slot s0, ar_generation = next_generation s0, ar_payload_crc32 = crc\<rparr>"

definition sealed :: "asset_store \<Rightarrow> asset_store \<Rightarrow> u32 \<Rightarrow> bytes \<Rightarrow> bool" where
  "sealed s0 s crc data \<longleftrightarrow> agree (mem_of s0) (mem_of s) (kept_slot s0) {0..<1024} \<and> room s0
     \<and> record_at (mem_of s) (update_slot s0) = Some (new_record s0 crc)
     \<and> flash_bytes (mem_of s) (update_slot s0) 64 8 = data"

lemma header_crc_step:
  assumes "is_slot (ac_slot_address (as_candidate s))" "asset_program_header_crc hw s = (r, s1)"
  shows "touches s s1 (ac_slot_address (as_candidate s)) {56..<60}" "as_candidate s1 = as_candidate s"
proof -
  let ?t = "ac_slot_address (as_candidate s)"
  define h where "h = asset_crc32_flash (mem_of s) ?t 0 24"
  obtain ok a where p: "asset_program hw s 56 (ucast (h AND 0xFFFF)) = (ok, a)" by fastforce
  obtain ok2 b where q: "asset_program hw a 58 (ucast (drop_bit 16 h)) = (ok2, b)" by fastforce
  note st = asset_program_step[OF assms(1) _ p]
  have "is_slot (ac_slot_address (as_candidate a))" using st assms(1) by simp
  note st2 = asset_program_step[OF this _ q]
  have ab: "touches s a ?t {56..<60}" "touches s b ?t {56..<60}"
    using touches_mono[OF st(1), of "{56..<60}"] touches_trans[OF st(1), of b "{58, 59}" "{56..<60}"] st2(1) st(2) by auto
  have "s1 = a \<or> s1 = b"
    using assms(2) p q unfolding asset_program_header_crc_def Let_def h_def[symmetric] by (auto split: if_splits)
  then show "touches s s1 ?t {56..<60}" "as_candidate s1 = as_candidate s" using ab st(2) st2(2) by auto
qed

lemma commit_finish_simps [simp]:
  "mem_of (asset_commit_finish hw s r) = mem_of s" "as_active (asset_commit_finish hw s r) = r"
  "\<not> ac_active (as_candidate (asset_commit_finish hw s r))"
  by (simp_all add: asset_commit_finish_def asset_activate_def asset_candidate_reset_def Let_def)

lemma header_unsealed:
  assumes w: "written s0 s crc data" and h: "asset_program_header_crc hw s = (r1, s1)"
  shows "unsealed hw s0 s1"
proof -
  let ?t = "update_slot s0"
  have f: "ac_slot_address (as_candidate s) = ?t" "touches s0 s ?t UNIV" "flash_page (mem_of s) ?t 62 = 0xFF"
    using w by (auto simp: written_def writing_def Let_def)
  note h1 = header_crc_step[OF _ h, unfolded f(1), OF update_slot_is(1)]
  have "touches s0 s1 ?t UNIV" by (rule touches_trans[OF f(2) h1(1)]) simp
  moreover have "flash_page (mem_of s1) ?t 62 = 0xFF" using h1(1) f(3) update_slot_is(1) by (simp add: touches_def)
  ultimately show ?thesis by (simp add: unsealed_def)
qed

lemma validate_none:
  "asset_validate_record mem t m = (r, None) \<Longrightarrow> r \<noteq> ASSET_PERSISTENCE_RESULT_OK \<and> r \<noteq> ASSET_PERSISTENCE_RESULT_UNCHANGED"
  by (auto simp: asset_validate_record_def Let_def split: if_splits)

lemma validate_not_unchanged: "fst (asset_validate_record mem t m) \<noteq> ASSET_PERSISTENCE_RESULT_UNCHANGED"
  by (auto simp: asset_validate_record_def Let_def)

lemma header_crc_result:
  "asset_program_header_crc hw s = (r, s1) \<Longrightarrow> r = ASSET_PERSISTENCE_RESULT_OK \<or> r = ASSET_PERSISTENCE_RESULT_STORAGE_ERROR"
  by (auto simp: asset_program_header_crc_def Let_def split: prod.splits if_splits)

text \<open>Sealing a candidate: after the marker was programmed, the slot is unsealed or a whole record.\<close>

lemma seal_step:
  assumes w: "written s0 s crc data" "length data = 8"
    and h: "asset_program_header_crc hw s = (r1, s1)"
    and v: "fst (asset_validate_record (mem_of s1) (update_slot s0) 0xFFFF) = ASSET_PERSISTENCE_RESULT_OK"
    and m: "asset_program hw s1 62 0xA55A = (ok, s2)"
  shows "unsealed hw s0 s2 \<or> sealed s0 s2 crc data"
    "marker_set (flash_page (mem_of s2) (update_slot s0)) \<Longrightarrow> sealed s0 s2 crc data"
proof -
  let ?t = "update_slot s0"
  note t = update_slot_is[of s0]
  have f: "ac_slot_address (as_candidate s) = ?t" "touches s0 s ?t UNIV" "flash_page (mem_of s) ?t 62 = 0xFF"
    "flash_bytes (mem_of s) ?t 0 24 = concat (map wr16 (metadata_words (next_generation s0) crc))"
    "flash_bytes (mem_of s) ?t 64 8 = data" "room s0"
    using w by (auto simp: written_def writing_def Let_def)
  note h1 = header_crc_step[OF _ h, unfolded f(1), OF t(1)]
  have m1: "flash_bytes (mem_of s1) ?t 0 24 = concat (map wr16 (metadata_words (next_generation s0) crc))"
    "flash_bytes (mem_of s1) ?t 64 8 = data" "flash_page (mem_of s1) ?t 62 = 0xFF"
    using touches_bytes[OF h1(1) t(1), of 0 24] touches_bytes[OF h1(1) t(1), of 64 8] f h1(1) t(1)
    by (simp_all add: touches_def)
  have t1: "touches s0 s1 ?t UNIV" by (rule touches_trans[OF f(2) h1(1)]) simp
  have c1: "ac_slot_address (as_candidate s1) = ?t" using h1(2) f(1) by simp
  have m2: "touches s1 s2 ?t {62, 63}" using asset_program_step(1)[OF _ _ m] c1 t(1) by simp
  have t2: "touches s0 s2 ?t UNIV" by (rule touches_trans[OF t1 m2]) simp
  obtain x where vx: "asset_validate_record (mem_of s1) ?t 0xFFFF = (ASSET_PERSISTENCE_RESULT_OK, x)" using v by (metis prod.collapse)
  have ag: "agree (mem_of s1) (mem_of s2) ?t ({0..<62} \<union> {64..<72})" using m2 t(1) by (auto simp: touches_def agree_def)
  show sealing: "sealed s0 s2 crc data" if ms: "marker_set (flash_page (mem_of s2) ?t)"
    using record_sealed[OF vx ag ms] metadata_reads[OF m1(1)] touches_kept[OF t2 t(2,3)] f(6) m1(2)
      touches_bytes[OF m2 t(1), of 64 8]
    by (simp add: sealed_def new_record_def)
  then show "unsealed hw s0 s2 \<or> sealed s0 s2 crc data" using t2 by (auto simp: unsealed_def whole_record_def)
qed

lemma commit_step:
  assumes a: "accepted s0 s crc data" and c: "asset_persistence_commit_candidate hw s = (r, s')"
  shows "r = ASSET_PERSISTENCE_RESULT_OK \<and> sealed s0 s' crc data \<and> as_active s' = new_record s0 crc
    \<or> r = ASSET_PERSISTENCE_RESULT_UNCHANGED \<and> unsealed hw s0 s' \<and> mem_of s' = mem_of s0
        \<and> data = flash_bytes (mem_of s0) (ar_slot_address (as_active s0)) 64 8 \<and> ar_slot_address (as_active s0) \<noteq> 0
    \<or> r \<noteq> ASSET_PERSISTENCE_RESULT_OK \<and> r \<noteq> ASSET_PERSISTENCE_RESULT_UNCHANGED \<and> (unsealed hw s0 s' \<or> sealed s0 s' crc data)"
proof -
  let ?t = "update_slot s0"
  have len: "ac_active (as_candidate s)" "ac_accepted_bytes (as_candidate s) = length data"
    using a by (auto simp: accepted_def written_def writing_def comparing_def Let_def)
  consider (short) "length data \<noteq> 8" | (cmp) "length data = 8" "comparing s0 s crc data"
    | (wr) "length data = 8" "written s0 s crc data" using a unfolding accepted_def by blast
  then show ?thesis
  proof cases
    case short
    then show ?thesis using c len accepted_unsealed[OF a] by (auto simp: asset_persistence_commit_candidate_def Let_def)
  next
    case cmp
    then have "r = ASSET_PERSISTENCE_RESULT_UNCHANGED" "s' = asset_candidate_reset s"
      using c len by (auto simp: asset_persistence_commit_candidate_def comparing_def Let_def)
    then show ?thesis using cmp comparing_unsealed[OF cmp(2)]
      by (auto simp: asset_candidate_reset_def unsealed_def touches_def comparing_def Let_def)
  next
    case wr
    have f: "ac_slot_address (as_candidate s) = ?t" "\<not> ac_compare_active (as_candidate s)" "\<not> ac_pending_valid (as_candidate s)"
      using wr by (auto simp: written_def writing_def Let_def)
    obtain r1 s1 where h: "asset_program_header_crc hw s = (r1, s1)" by fastforce
    obtain ok s2 where m: "asset_program hw s1 62 0xA55A = (ok, s2)" by fastforce
    note seal = seal_step[OF wr(2,1) h _ m]
    obtain r3 x where v: "asset_validate_record (mem_of s2) ?t 0xA55A = (r3, x)" by fastforce
    let ?v = "fst (asset_validate_record (mem_of s1) ?t 0xFFFF)"
    have eq: "(r, s') = (if r1 \<noteq> ASSET_PERSISTENCE_RESULT_OK then (r1, s1) else if ?v \<noteq> ASSET_PERSISTENCE_RESULT_OK then (?v, s1)
       else if \<not> ok then (ASSET_PERSISTENCE_RESULT_STORAGE_ERROR, s2)
       else if asset_flash_read_u16 (mem_of s2) ?t 62 \<noteq> 0xA55A then (ASSET_PERSISTENCE_RESULT_STORAGE_ERROR, s2)
       else case x of None \<Rightarrow> (r3, s2) | Some committed \<Rightarrow> (ASSET_PERSISTENCE_RESULT_OK, asset_commit_finish hw s2 committed))"
      using c[symmetric] len wr(1) f h m v
      by (simp add: asset_persistence_commit_candidate_def Let_def split: option.split)
    have u1: "unsealed hw s0 s1" using header_unsealed[OF wr(2) h] .
    show ?thesis
    proof (cases "r1 = ASSET_PERSISTENCE_RESULT_OK \<and> ?v = ASSET_PERSISTENCE_RESULT_OK \<and> x \<noteq> None \<and> r = ASSET_PERSISTENCE_RESULT_OK")
      case True
      then have "record_at (mem_of s2) ?t \<noteq> None" using v by (auto simp: record_at_def)
      with True seal(2) record_marker have "sealed s0 s2 crc data" by blast
      moreover have "x = Some (new_record s0 crc)" using calculation v by (simp add: sealed_def record_at_def)
      ultimately show ?thesis using eq True by (auto simp: sealed_def split: if_splits)
    next
      case False
      have "x = None \<Longrightarrow> r3 \<noteq> ASSET_PERSISTENCE_RESULT_OK \<and> r3 \<noteq> ASSET_PERSISTENCE_RESULT_UNCHANGED"
        using validate_none v by blast
      then show ?thesis using False eq u1 seal(1) header_crc_result[OF h] validate_not_unchanged[of "mem_of s1" ?t "0xFFFF"]
        by (auto split: if_splits option.splits)
    qed
  qed
qed

section \<open>A whole update\<close>

text \<open>Begin, write the chunks, commit; the client stops at the first result that is not \<open>OK\<close>.\<close>

fun write_chunks :: "flash_hw \<Rightarrow> asset_store \<Rightarrow> bytes list \<Rightarrow> asset_persistence_result \<times> asset_store" where
  "write_chunks hw s [] = (ASSET_PERSISTENCE_RESULT_OK, s)"
| "write_chunks hw s (d # ds) = (case asset_persistence_write_candidate hw s d of (r, s1) \<Rightarrow>
     if r \<noteq> ASSET_PERSISTENCE_RESULT_OK then (r, s1) else write_chunks hw s1 ds)"

definition asset_update :: "flash_hw \<Rightarrow> asset_store \<Rightarrow> u32 \<Rightarrow> bytes list \<Rightarrow> asset_persistence_result \<times> asset_store" where
  "asset_update hw s crc chunks = (case asset_persistence_begin_candidate hw s crc of (r, s1) \<Rightarrow>
     if r \<noteq> ASSET_PERSISTENCE_RESULT_OK then (r, s1)
     else case write_chunks hw s1 chunks of (r, s2) \<Rightarrow>
       if r \<noteq> ASSET_PERSISTENCE_RESULT_OK then (r, s2) else asset_persistence_commit_candidate hw s2)"

text \<open>The payload the next boot reads.\<close>

definition boot_payload :: "asset_store \<Rightarrow> bytes option" where
  "boot_payload s = asset_persistence_read_active (asset_persistence_init s) 0 8"

lemma boot_mem: "mem_of (asset_persistence_init s) = mem_of s"
  by (simp add: asset_persistence_init_def asset_select_boot_record_def asset_clear_active_def asset_activate_def
      Let_def split: option.split)

lemma boot_payload_eq:
  "boot_payload s = (case boots s of None \<Rightarrow> None | Some r \<Rightarrow> Some (flash_bytes (mem_of s) (ar_slot_address r) 64 8))"
  by (simp add: boot_payload_def asset_persistence_read_active_def boots_def asset_persistence_active_record_def
      boot_mem flash_bytes_def)

lemma write_chunks_step:
  assumes "active_slot_ok s0" "accepted s0 s crc data" "write_chunks hw s chunks = (r, s')"
  shows "if r = ASSET_PERSISTENCE_RESULT_OK then accepted s0 s' crc (data @ concat chunks) else unsealed hw s0 s'"
  using assms(2,3)
proof (induction chunks arbitrary: s data)
  case Nil
  then show ?case by auto
next
  case (Cons d ds)
  obtain r1 s1 where w: "asset_persistence_write_candidate hw s d = (r1, s1)" by fastforce
  note st = write_step[OF assms(1) Cons.prems(1) w]
  show ?case
  proof (cases "r1 = ASSET_PERSISTENCE_RESULT_OK")
    case True
    with st Cons.IH[of s1 "data @ d"] Cons.prems(2) w show ?thesis by (auto split: if_splits)
  next
    case False
    with st Cons.prems(2) w show ?thesis by auto
  qed
qed

text \<open>\<open>UNCHANGED\<close> is a result of the commit only.\<close>

lemma result_not_unchanged:
  "asset_persistence_begin_candidate hw s crc = (r, s') \<Longrightarrow> r \<noteq> ASSET_PERSISTENCE_RESULT_UNCHANGED"
  by (auto simp: asset_persistence_begin_candidate_def asset_start_changed_def asset_program_metadata_def Let_def
      split: prod.splits if_splits)

lemma write_pairs_not_unchanged: "write_pairs hw s ds = (r, s') \<Longrightarrow> r \<noteq> ASSET_PERSISTENCE_RESULT_UNCHANGED"
  by (induction hw s ds rule: write_pairs.induct)
    (auto simp: asset_program_payload_halfword_def split: prod.splits if_splits)

lemma copy_prefix_not_unchanged: "copy_prefix hw s p n = (r, s') \<Longrightarrow> r \<noteq> ASSET_PERSISTENCE_RESULT_UNCHANGED"
  by (induction hw s p n rule: copy_prefix.induct)
    (auto simp: asset_program_payload_halfword_def split: prod.splits if_splits)

lemma write_not_unchanged:
  "asset_persistence_write_candidate hw s d = (r, s') \<Longrightarrow> r \<noteq> ASSET_PERSISTENCE_RESULT_UNCHANGED"
  by (auto simp: asset_persistence_write_candidate_def asset_write_payload_bytes_def asset_start_changed_def
      asset_program_metadata_def asset_program_payload_halfword_def Let_def
      split: prod.splits if_splits option.splits dest: write_pairs_not_unchanged copy_prefix_not_unchanged)

lemma chunks_not_unchanged: "write_chunks hw s ds = (r, s') \<Longrightarrow> r \<noteq> ASSET_PERSISTENCE_RESULT_UNCHANGED"
  by (induction ds arbitrary: s) (auto split: prod.splits if_splits dest: write_not_unchanged)

text \<open>What an erase has left passes by chance every check of a record.\<close>

definition chance_record :: "flash_hw \<Rightarrow> asset_store \<Rightarrow> asset_store \<Rightarrow> bool" where
  "chance_record hw s s' \<longleftrightarrow> leftover hw s s' \<and> whole_record (flash_page (mem_of s') (update_slot s))
     \<and> \<not> agree (mem_of s) (mem_of s') (update_slot s) {0..<1024}"

lemma unsealed_keeps:
  "unsealed hw s s' \<Longrightarrow> agree (mem_of s) (mem_of s') (kept_slot s) {0..<1024}"
  using touches_kept[OF _ update_slot_is(2,3)] unfolding unsealed_def by blast

lemma unsealed_boots:
  assumes ok: "store_ok s" and u: "unsealed hw s s'" and n: "\<not> chance_record hw s s'"
  shows "boots s' = boots s" "boot_payload s' = boot_payload s"
proof -
  note k = unsealed_keeps[OF u]
  then have k72: "agree (mem_of s) (mem_of s') (kept_slot s) {0..<72}" by (simp add: agree_def)
  note b = boots_after[OF ok k72]
  have "agree (mem_of s) (mem_of s') (update_slot s) {0..<72} \<or> record_at (mem_of s') (update_slot s) = None"
    using u n record_whole[of "mem_of s'" "update_slot s"] by (auto simp: unsealed_def chance_record_def agree_def)
  then show eq: "boots s' = boots s" using b(1,2) by blast
  show "boot_payload s' = boot_payload s"
  proof (cases "boots s")
    case None
    then show ?thesis using eq by (simp add: boot_payload_eq)
  next
    case (Some r)
    then have "ar_slot_address r = kept_slot s" using store_ok_kept(1)[OF ok] record_at_fields by metis
    then show ?thesis using eq Some agree_bytes[OF k, of 64 8] by (simp add: boot_payload_eq subset_iff)
  qed
qed

lemma same_boots:
  assumes "mem_of s' = mem_of s"
  shows "boots s' = boots s" "boot_payload s' = boot_payload s"
proof -
  show b: "boots s' = boots s" unfolding boots_eq assms ..
  show "boot_payload s' = boot_payload s" unfolding boot_payload_eq b assms ..
qed

lemma sealed_boots:
  assumes ok: "store_ok s" and u: "sealed s s' crc data"
  shows "boots s' = Some (new_record s crc)" "boot_payload s' = Some data"
proof -
  have k72: "agree (mem_of s) (mem_of s') (kept_slot s) {0..<72}" using u by (simp add: sealed_def agree_def)
  have r: "record_at (mem_of s') (update_slot s) = Some (new_record s crc)" "room s" using u by (simp_all add: sealed_def)
  have lt: "(g :: u32) < g + 1" if "g < 10000" for g
    using that by (simp add: word_less_nat_alt unat_word_ariths)
  have "newer (new_record s crc) (boots s)"
  proof (cases "boots s")
    case None
    then show ?thesis by (simp add: newer_def)
  next
    case (Some r0)
    then have "as_active s = r0" "ar_slot_address r0 \<noteq> 0" using store_ok_kept(2)[OF ok] by blast+
    with r(2) lt show ?thesis using Some
      by (simp add: newer_def new_record_def next_generation_def room_def asset_persistence_active_record_def)
  qed
  from boots_after(3)[OF ok k72 r(1) this] show b: "boots s' = Some (new_record s crc)" .
  show "boot_payload s' = Some data" using u b by (simp add: boot_payload_eq sealed_def new_record_def)
qed

section \<open>Properties\<close>

text \<open>
  C8: An update of the persistent store is all or nothing, whatever the flash controller does at
  any step: fail, leave a halfword half programmed or a page half erased, lose power from there
  on. The page of the record in force is not touched. The next boot selects the record it would
  have selected before, with the same payload, or the new record of the next generation with
  exactly the payload that was sent, unless what a failed erase has left is by chance a whole
  record, with identification, both checksums, a valid layout and the marker. It is the new one
  when the update reports success, and then it is the active record at once.
\<close>
theorem asset_update_is_atomic:
  assumes ok: "store_ok s" and idle: "\<not> ac_active (as_candidate s)" and u: "asset_update hw s crc chunks = (r, s')"
  shows "let old = boots s' = boots s \<and> boot_payload s' = boot_payload s;
       new = boots s' = Some (new_record s crc) \<and> boot_payload s' = Some (concat chunks)
    in (r = ASSET_PERSISTENCE_RESULT_OK \<longrightarrow> new \<and> as_active s' = new_record s crc)
      \<and> (r = ASSET_PERSISTENCE_RESULT_UNCHANGED \<longrightarrow> old \<and> boot_payload s = Some (concat chunks))
      \<and> agree (mem_of s) (mem_of s') (kept_slot s) {0..<1024}
      \<and> (old \<or> new \<or> chance_record hw s s')"
proof -
  obtain r1 s1 where b: "asset_persistence_begin_candidate hw s crc = (r1, s1)" by fastforce
  obtain r2 s2 where w: "write_chunks hw s1 chunks = (r2, s2)" by fastforce
  obtain r3 s3 where c: "asset_persistence_commit_candidate hw s2 = (r3, s3)" by fastforce
  note st1 = begin_step[OF idle b]
  note st2 = write_chunks_step[OF store_ok_active[OF ok] _ w, of crc "[]"]
  note st3 = commit_step[OF _ c, of s crc "concat chunks"]
  have eq: "(r, s') = (if r1 \<noteq> ASSET_PERSISTENCE_RESULT_OK then (r1, s1)
      else if r2 \<noteq> ASSET_PERSISTENCE_RESULT_OK then (r2, s2) else (r3, s3))"
    using u[symmetric] b w c by (simp add: asset_update_def)
  have same: "boot_payload s = Some (flash_bytes (mem_of s) (ar_slot_address (as_active s)) 64 8)"
    if "ar_slot_address (as_active s) \<noteq> 0"
    using ok that by (simp add: boot_payload_eq store_ok_def asset_persistence_active_record_def)
  have cases: "r = ASSET_PERSISTENCE_RESULT_OK \<and> sealed s s' crc (concat chunks) \<and> as_active s' = new_record s crc
    \<or> r = ASSET_PERSISTENCE_RESULT_UNCHANGED \<and> mem_of s' = mem_of s \<and> boot_payload s = Some (concat chunks)
    \<or> r \<noteq> ASSET_PERSISTENCE_RESULT_OK \<and> r \<noteq> ASSET_PERSISTENCE_RESULT_UNCHANGED \<and> (unsealed hw s s' \<or> sealed s s' crc (concat chunks))"
    using eq st1 st2 st3 same result_not_unchanged[OF b] chunks_not_unchanged[OF w] by (auto split: if_splits)
  have kept: "agree (mem_of s) (mem_of s') (kept_slot s) {0..<1024}"
    using cases unsealed_keeps[of hw s s'] by (auto simp: sealed_def agree_def)
  show ?thesis
    using cases kept unsealed_boots[OF ok, of hw s'] sealed_boots[OF ok] same_boots[of s' s] by (auto simp: Let_def)
qed

definition working_hw :: flash_hw where
  "working_hw = (\<lambda>_. \<lparr>fo_hsi_ready = True, fo_busy_before = 0, fo_unlocks = True, fo_busy_after = 0, fo_status = 32,
     fo_cycles = 0, fo_clock = 0, fo_program = id, fo_erase = (\<lambda>_ _. 0xFF)\<rparr>)"

definition blank_store :: asset_store where
  "blank_store = \<lparr>as_flash = \<lparr>fs_mem = (\<lambda>_. 0xFF), fs_ops = 0, fs_attempt_count = (\<lambda>_. 0), fs_last_bsy_cycles = (\<lambda>_. 0),
       fs_max_bsy_cycles = (\<lambda>_. 0), fs_storage_error_count = 0\<rparr>,
     as_active = \<lparr>ar_slot_address = 0, ar_generation = 0, ar_payload_crc32 = 0\<rparr>,
     as_candidate = \<lparr>ac_slot_address = 0, ac_generation = 0, ac_payload_crc32 = 0, ac_accepted_bytes = 0,
       ac_pending_byte = 0, ac_pending_valid = False, ac_compare_active = False, ac_active = False\<rparr>,
     as_layout = \<lparr>active_layout = default_layout, active_layout_revision = 0\<rparr>, as_ambiguity_count = 0,
     as_successful_commit_count = 0, as_wear_policy_rejection_count = 0, as_last_mutation_cycles = 0,
     as_max_mutation_cycles = 0\<rparr>"

lemma blank_store_ok: "store_ok blank_store" "\<not> ac_active (as_candidate blank_store)" "boots blank_store = None"
proof -
  have "record_at (mem_of blank_store) p = None" for p
  proof -
    have "\<not> marker_set (flash_page (mem_of blank_store) p)" by (simp add: blank_store_def marker_set_def flash_page_def)
    then show ?thesis using record_marker by blast
  qed
  then show "store_ok blank_store" "boots blank_store = None"
    by (simp_all add: store_ok_def boots_eq asset_persistence_active_record_def) (simp add: blank_store_def)
qed (simp add: blank_store_def)

lemma working_hw_leaves: "\<not> chance_record working_hw s s'"
proof -
  have "\<not> whole_record (flash_page (mem_of s') (update_slot s))" if "leftover working_hw s s'"
    using that by (intro unmarked_no_record) (auto simp: leftover_def working_hw_def)
  then show ?thesis by (auto simp: chance_record_def)
qed

theorem asset_update_is_atomic_witness:
  "boot_payload (snd (asset_update working_hw blank_store 7 [[1, 1], [10, 5, 6], [0, 0, 0]])) \<in> {None, Some [1, 1, 10, 5, 6, 0, 0, 0]}"
  using asset_update_is_atomic[OF blank_store_ok(1,2) prod.collapse[symmetric], where hw = working_hw and crc = 7 and chunks = "[[1, 1], [10, 5, 6], [0, 0, 0]]"]
    working_hw_leaves[of blank_store]
  by (auto simp: Let_def boot_payload_eq blank_store_ok(3))

lemma activate_valid:
  assumes "snd (asset_validate_record (mem_of s) p m) = Some r" "layout_ok (as_layout s)"
  shows "layout_ok (as_layout (asset_activate s r))"
proof -
  have "oled_ui_layout_config_v1_validate (Some (flash_bytes (mem_of s) (ar_slot_address r) 64 8)) 8"
    using assms(1) by (auto simp: asset_validate_record_def Let_def split: if_splits)
  from activate_layout_ok[OF assms(2) this] show ?thesis by (simp add: asset_activate_def)
qed

lemma boot_layout_ok: "layout_ok (as_layout s) \<Longrightarrow> layout_ok (as_layout (asset_select_boot_record s))"
proof -
  assume l: "layout_ok (as_layout s)"
  have c: "mem_of (asset_clear_active s) = mem_of s" "as_layout (asset_clear_active s) = as_layout s"
    by (simp_all add: asset_clear_active_def)
  have v: "layout_ok (as_layout (asset_activate (asset_clear_active s) r))"
    "layout_ok (as_layout (asset_activate (asset_clear_active s\<lparr>as_ambiguity_count := n\<rparr>) r))"
    if "snd (asset_validate_record (mem_of s) p 0xA55A) = Some r" for p r n
    using activate_valid[of "asset_clear_active s" p "0xA55A" r]
      activate_valid[of "asset_clear_active s\<lparr>as_ambiguity_count := n\<rparr>" p "0xA55A" r] that l c by simp_all
  show ?thesis
    unfolding asset_select_boot_record_def Let_def using v l c by (auto split: option.split)
qed

lemma program_layout: "asset_program hw s k v = (ok, s') \<Longrightarrow> as_layout s' = as_layout s"
  by (auto simp: asset_program_def split: prod.splits)

lemma header_layout: "asset_program_header_crc hw s = (r, s') \<Longrightarrow> as_layout s' = as_layout s"
  by (auto simp: asset_program_header_crc_def Let_def split: prod.splits if_splits dest!: program_layout)

lemma commit_layout_ok:
  assumes "layout_ok (as_layout s)"
  shows "layout_ok (as_layout (snd (asset_persistence_commit_candidate hw s)))"
proof -
  have fin: "as_layout (asset_commit_finish hw x r) = as_layout (asset_activate x r)" for x r
    by (simp add: asset_commit_finish_def asset_candidate_reset_def Let_def)
  obtain r1 s1 where h: "asset_program_header_crc hw s = (r1, s1)" by fastforce
  obtain ok s2 where m: "asset_program hw s1 62 0xA55A = (ok, s2)" by fastforce
  obtain r3 x where v: "asset_validate_record (mem_of s2) (ac_slot_address (as_candidate s)) 0xA55A = (r3, x)" by fastforce
  have l: "as_layout s1 = as_layout s" "as_layout s2 = as_layout s" using program_layout[OF m] header_layout[OF h] by simp_all
  have "layout_ok (as_layout (asset_activate s2 c))" if "x = Some c" for c
    using activate_valid[of s2 "ac_slot_address (as_candidate s)" "0xA55A" c] v that l assms by simp
  then show ?thesis
    using assms l h m v by (auto simp: asset_persistence_commit_candidate_def Let_def fin asset_candidate_reset_def
        split: option.split)
qed

text \<open>
  C36: The layout in force is always a valid one: selecting a record at boot and committing a
  candidate only ever put a layout in force that lies on the display, below the status bar,
  with room for a character; without one the layout in force stays.
\<close>
theorem layout_in_force_is_valid:
  assumes "layout_ok (as_layout s)"
  shows "layout_ok (as_layout (asset_persistence_init s))
    \<and> layout_ok (as_layout (snd (asset_persistence_commit_candidate hw s)))"
  using boot_layout_ok[OF assms] commit_layout_ok[OF assms] by (simp add: asset_persistence_init_def)

theorem layout_in_force_is_valid_witness: "layout_ok (as_layout (asset_persistence_init blank_store))"
  using layout_in_force_is_valid[of blank_store] default_layout_ok
  by (simp add: blank_store_def layout_ok_def oled_ui_layout_self_test_def)

end
