(* ===== verification/Asset_Transfer.thy ===== *)
theory Asset_Transfer
  imports Asset_Service Binary_Frame_Link
begin

unbundle bit_operations_syntax

text \<open>
  The transfer protocol of the configuration object (\<open>src/src/kernel/asset_transfer.c\<close>): the
  session of a client that begins, writes, commits, aborts, asks for the status of, and reads
  the object, one request frame at a time. Time is the millisecond counter read by the handler
  (\<open>now\<close>); a handler builds the response in the shared wire buffer and hands it to the callback.
\<close>

section \<open>Types\<close>

datatype asset_transfer_status =
  ASSET_TRANSFER_STATUS_OK | ASSET_TRANSFER_STATUS_MALFORMED | ASSET_TRANSFER_STATUS_BAD_FLAGS
| ASSET_TRANSFER_STATUS_BAD_OPCODE | ASSET_TRANSFER_STATUS_BAD_OBJECT_TYPE | ASSET_TRANSFER_STATUS_BAD_SCHEMA
| ASSET_TRANSFER_STATUS_BAD_LENGTH | ASSET_TRANSFER_STATUS_BAD_TRANSFER_ID | ASSET_TRANSFER_STATUS_BUSY
| ASSET_TRANSFER_STATUS_BAD_STATE | ASSET_TRANSFER_STATUS_BAD_OFFSET | ASSET_TRANSFER_STATUS_DATA_CONFLICT
| ASSET_TRANSFER_STATUS_CRC_MISMATCH | ASSET_TRANSFER_STATUS_VALIDATION_FAILED | ASSET_TRANSFER_STATUS_NOT_FOUND
| ASSET_TRANSFER_STATUS_GENERATION_MISMATCH | ASSET_TRANSFER_STATUS_STORAGE_ERROR
| ASSET_TRANSFER_STATUS_WEAR_BUDGET_EXHAUSTED | ASSET_TRANSFER_STATUS_INTERNAL_ERROR

fun asset_status_code :: "asset_transfer_status \<Rightarrow> u16" where
  "asset_status_code ASSET_TRANSFER_STATUS_OK = 0"
| "asset_status_code ASSET_TRANSFER_STATUS_MALFORMED = 1"
| "asset_status_code ASSET_TRANSFER_STATUS_BAD_FLAGS = 2"
| "asset_status_code ASSET_TRANSFER_STATUS_BAD_OPCODE = 3"
| "asset_status_code ASSET_TRANSFER_STATUS_BAD_OBJECT_TYPE = 4"
| "asset_status_code ASSET_TRANSFER_STATUS_BAD_SCHEMA = 5"
| "asset_status_code ASSET_TRANSFER_STATUS_BAD_LENGTH = 6"
| "asset_status_code ASSET_TRANSFER_STATUS_BAD_TRANSFER_ID = 7"
| "asset_status_code ASSET_TRANSFER_STATUS_BUSY = 8"
| "asset_status_code ASSET_TRANSFER_STATUS_BAD_STATE = 9"
| "asset_status_code ASSET_TRANSFER_STATUS_BAD_OFFSET = 10"
| "asset_status_code ASSET_TRANSFER_STATUS_DATA_CONFLICT = 11"
| "asset_status_code ASSET_TRANSFER_STATUS_CRC_MISMATCH = 12"
| "asset_status_code ASSET_TRANSFER_STATUS_VALIDATION_FAILED = 13"
| "asset_status_code ASSET_TRANSFER_STATUS_NOT_FOUND = 14"
| "asset_status_code ASSET_TRANSFER_STATUS_GENERATION_MISMATCH = 15"
| "asset_status_code ASSET_TRANSFER_STATUS_STORAGE_ERROR = 16"
| "asset_status_code ASSET_TRANSFER_STATUS_WEAR_BUDGET_EXHAUSTED = 17"
| "asset_status_code ASSET_TRANSFER_STATUS_INTERNAL_ERROR = 18"

datatype asset_transfer_session_state =
  ASSET_TRANSFER_SESSION_NONE | ASSET_TRANSFER_SESSION_RECEIVING | ASSET_TRANSFER_SESSION_COMPLETE_UNCOMMITTED

fun asset_session_code :: "asset_transfer_session_state \<Rightarrow> u16" where
  "asset_session_code ASSET_TRANSFER_SESSION_NONE = 0"
| "asset_session_code ASSET_TRANSFER_SESSION_RECEIVING = 1"
| "asset_session_code ASSET_TRANSFER_SESSION_COMPLETE_UNCOMMITTED = 2"

record asset_transfer_state =
  at_last_activity_ms :: u32
  at_payload_crc32 :: u32
  at_transfer_id :: u16
  at_next_offset :: u16
  at_last_chunk_length :: u8
  at_active :: bool
  at_last_chunk :: bytes

text \<open>The session, the response buffer of 62 bytes, and the store below.\<close>

record asset_transfer =
  tf_session :: asset_transfer_state
  tf_wire :: bytes
  tf_store :: asset_store

abbreviation (input) ASSET_TRANSFER_PROTOCOL_VERSION :: u8 where "ASSET_TRANSFER_PROTOCOL_VERSION \<equiv> 1"
abbreviation (input) ASSET_TRANSFER_CHUNK_MAX :: u8 where "ASSET_TRANSFER_CHUNK_MAX \<equiv> 32"
abbreviation (input) ASSET_TRANSFER_RESPONSE_WIRE_MAX :: nat where "ASSET_TRANSFER_RESPONSE_WIRE_MAX \<equiv> 62"
abbreviation (input) ASSET_TRANSFER_IDLE_TIMEOUT_MS :: u32 where "ASSET_TRANSFER_IDLE_TIMEOUT_MS \<equiv> 30000"
abbreviation (input) ASSET_TRANSFER_FLAG_ALLOW_DESTRUCTIVE :: u8 where "ASSET_TRANSFER_FLAG_ALLOW_DESTRUCTIVE \<equiv> 1"
abbreviation (input) ASSET_TRANSFER_CURRENT_LENGTH :: u16 where "ASSET_TRANSFER_CURRENT_LENGTH \<equiv> 8"
abbreviation (input) BINARY_FRAME_TYPE_ASSET_TRANSFER_REQUEST :: u8 where "BINARY_FRAME_TYPE_ASSET_TRANSFER_REQUEST \<equiv> 0x03"
abbreviation (input) BINARY_FRAME_TYPE_ASSET_TRANSFER_RESPONSE :: u8 where "BINARY_FRAME_TYPE_ASSET_TRANSFER_RESPONSE \<equiv> 0x85"
abbreviation (input) ASSET_TRANSFER_OPCODE_BEGIN :: u8 where "ASSET_TRANSFER_OPCODE_BEGIN \<equiv> 1"
abbreviation (input) ASSET_TRANSFER_OPCODE_WRITE_CHUNK :: u8 where "ASSET_TRANSFER_OPCODE_WRITE_CHUNK \<equiv> 2"
abbreviation (input) ASSET_TRANSFER_OPCODE_COMMIT :: u8 where "ASSET_TRANSFER_OPCODE_COMMIT \<equiv> 3"
abbreviation (input) ASSET_TRANSFER_OPCODE_ABORT :: u8 where "ASSET_TRANSFER_OPCODE_ABORT \<equiv> 4"
abbreviation (input) ASSET_TRANSFER_OPCODE_STATUS :: u8 where "ASSET_TRANSFER_OPCODE_STATUS \<equiv> 5"
abbreviation (input) ASSET_TRANSFER_OPCODE_READ_CHUNK :: u8 where "ASSET_TRANSFER_OPCODE_READ_CHUNK \<equiv> 6"

section \<open>The session\<close>

definition asset_session_state :: "asset_transfer \<Rightarrow> asset_transfer_session_state" where
  "asset_session_state s =
     (if \<not> at_active (tf_session s) then ASSET_TRANSFER_SESSION_NONE
      else if at_next_offset (tf_session s) = ASSET_TRANSFER_CURRENT_LENGTH
      then ASSET_TRANSFER_SESSION_COMPLETE_UNCOMMITTED else ASSET_TRANSFER_SESSION_RECEIVING)"

definition asset_clear_session :: "asset_transfer \<Rightarrow> asset_transfer" where
  "asset_clear_session s = s\<lparr>tf_store := asset_persistence_abort_candidate (tf_store s),
     tf_session := (tf_session s)\<lparr>at_transfer_id := 0, at_active := False\<rparr>\<rparr>"

definition asset_finish_commit :: "asset_transfer \<Rightarrow> asset_transfer" where
  "asset_finish_commit s = s\<lparr>tf_session := (tf_session s)\<lparr>at_active := False\<rparr>\<rparr>"

definition asset_transfer_init :: "asset_transfer \<Rightarrow> asset_transfer" where
  "asset_transfer_init s = asset_clear_session s"

definition asset_transfer_reset_session :: "asset_transfer \<Rightarrow> asset_transfer" where
  "asset_transfer_reset_session s = asset_clear_session s"

definition kernel_time_elapsed :: "u32 \<Rightarrow> u32 \<Rightarrow> u32 \<Rightarrow> bool" where
  "kernel_time_elapsed now start duration \<longleftrightarrow> now - start \<ge> duration"

definition asset_transfer_poll :: "u32 \<Rightarrow> asset_transfer \<Rightarrow> asset_transfer" where
  "asset_transfer_poll now s =
     (if at_active (tf_session s)
         \<and> kernel_time_elapsed now (at_last_activity_ms (tf_session s)) ASSET_TRANSFER_IDLE_TIMEOUT_MS
      then asset_clear_session s else s)"

fun asset_map_persistence_result :: "asset_persistence_result \<Rightarrow> asset_transfer_status" where
  "asset_map_persistence_result ASSET_PERSISTENCE_RESULT_OK = ASSET_TRANSFER_STATUS_OK"
| "asset_map_persistence_result ASSET_PERSISTENCE_RESULT_UNCHANGED = ASSET_TRANSFER_STATUS_OK"
| "asset_map_persistence_result ASSET_PERSISTENCE_RESULT_CRC_MISMATCH = ASSET_TRANSFER_STATUS_CRC_MISMATCH"
| "asset_map_persistence_result ASSET_PERSISTENCE_RESULT_VALIDATION_FAILED = ASSET_TRANSFER_STATUS_VALIDATION_FAILED"
| "asset_map_persistence_result ASSET_PERSISTENCE_RESULT_STORAGE_ERROR = ASSET_TRANSFER_STATUS_STORAGE_ERROR"
| "asset_map_persistence_result ASSET_PERSISTENCE_RESULT_WEAR_BUDGET_EXHAUSTED = ASSET_TRANSFER_STATUS_WEAR_BUDGET_EXHAUSTED"
| "asset_map_persistence_result ASSET_PERSISTENCE_RESULT_BAD_STATE = ASSET_TRANSFER_STATUS_BAD_STATE"

definition touch_activity :: "u32 \<Rightarrow> asset_transfer \<Rightarrow> asset_transfer" where
  "touch_activity now s = s\<lparr>tf_session := (tf_session s)\<lparr>at_last_activity_ms := now\<rparr>\<rparr>"

section \<open>Responses\<close>

text \<open>
  The halfwords 5 to 13 of the wire are the response header; \<open>data_length\<close> bytes of data were
  put behind it. The result is the frame handed to the callback.
\<close>

definition asset_send_response ::
    "asset_transfer \<Rightarrow> u16 \<Rightarrow> u8 \<Rightarrow> asset_transfer_status \<Rightarrow> u16 \<Rightarrow> u16 \<Rightarrow> u16 \<Rightarrow> u16 \<Rightarrow> u8 \<Rightarrow> bytes \<times> asset_transfer" where
  "asset_send_response s request_id opcode status object_type transfer_id total_length next_offset data_length =
     (let committed_generation = (case asset_persistence_active_record (tf_store s) of
            Some r \<Rightarrow> ar_generation r | None \<Rightarrow> 0);
          payload_length = 18 + ucast data_length;
          w1 = store_at (tf_wire s) 10
            (wr16 (ucast ASSET_TRANSFER_PROTOCOL_VERSION OR push_bit 8 (ucast opcode))
             @ wr16 (asset_status_code status OR push_bit 8 (asset_session_code (asset_session_state s)))
             @ wr16 object_type @ wr16 transfer_id
             @ wr16 (ucast (committed_generation AND 0xFFFF)) @ wr16 (ucast (drop_bit 16 committed_generation))
             @ wr16 total_length @ wr16 next_offset @ wr16 (ucast data_length))
      in case binary_frame_finalize_in_place BINARY_FRAME_TYPE_ASSET_TRANSFER_RESPONSE 0 request_id payload_length w1 of
        (wire_length, w2) \<Rightarrow> (take wire_length w2, s\<lparr>tf_wire := w2\<rparr>))"

definition asset_send_simple ::
    "asset_transfer \<Rightarrow> binary_frame_view \<Rightarrow> u8 \<Rightarrow> asset_transfer_status \<Rightarrow> u16 \<Rightarrow> u16 \<Rightarrow> u16 \<Rightarrow> bytes \<times> asset_transfer" where
  "asset_send_simple s frame opcode status transfer_id total_length next_offset =
     asset_send_response s (fv_request_id frame) opcode status OLED_UI_LAYOUT_CONFIG_V1_OBJECT_TYPE
       transfer_id total_length next_offset 0"

section \<open>Writing chunks\<close>

definition asset_write_candidate :: "flash_hw \<Rightarrow> asset_transfer \<Rightarrow> bytes \<Rightarrow> asset_transfer_status \<times> asset_transfer" where
  "asset_write_candidate hw s data = (case asset_persistence_write_candidate hw (tf_store s) data of
     (r, st) \<Rightarrow> (asset_map_persistence_result r, s\<lparr>tf_store := st\<rparr>))"

definition asset_last_chunk_equal :: "asset_transfer \<Rightarrow> bytes \<Rightarrow> bool" where
  "asset_last_chunk_equal s data \<longleftrightarrow> (\<forall>index \<in> set [0..<length data]. at_last_chunk (tf_session s) ! index = data ! index)"

definition asset_remember_chunk :: "asset_transfer \<Rightarrow> bytes \<Rightarrow> asset_transfer" where
  "asset_remember_chunk s data = s\<lparr>tf_session := (tf_session s)\<lparr>at_last_chunk_length := of_nat (length data),
     at_last_chunk := store_at (at_last_chunk (tf_session s)) 0 data\<rparr>\<rparr>"

definition asset_last_commit_matches :: "asset_transfer \<Rightarrow> u16 \<Rightarrow> bool" where
  "asset_last_commit_matches s transfer_id \<longleftrightarrow> (case asset_persistence_active_record (tf_store s) of
     None \<Rightarrow> False
   | Some r \<Rightarrow> at_transfer_id (tf_session s) = transfer_id \<and> at_transfer_id (tf_session s) \<noteq> 0
       \<and> ar_payload_crc32 r = at_payload_crc32 (tf_session s))"

section \<open>The handlers\<close>

definition asset_handle_begin ::
    "flash_hw \<Rightarrow> u32 \<Rightarrow> asset_transfer \<Rightarrow> binary_frame_view \<Rightarrow> bytes \<times> asset_transfer" where
  "asset_handle_begin hw now s frame =
     (let p = fv_payload frame;
          object_type = rd16 p 2; transfer_id = rd16 p 4; total_length = rd16 p 6;
          schema_version = p ! 8; payload_crc32 = rd32 p 10; t = tf_session s
      in case
        (if p ! 9 \<noteq> 0 \<or> p ! 14 \<noteq> 0 \<or> p ! 15 \<noteq> 0 then (ASSET_TRANSFER_STATUS_MALFORMED, s)
         else if object_type \<noteq> OLED_UI_LAYOUT_CONFIG_V1_OBJECT_TYPE then (ASSET_TRANSFER_STATUS_BAD_OBJECT_TYPE, s)
         else if schema_version \<noteq> OLED_UI_LAYOUT_CONFIG_V1_SCHEMA then (ASSET_TRANSFER_STATUS_BAD_SCHEMA, s)
         else if total_length \<noteq> ASSET_TRANSFER_CURRENT_LENGTH then (ASSET_TRANSFER_STATUS_BAD_LENGTH, s)
         else if transfer_id = 0 then (ASSET_TRANSFER_STATUS_BAD_TRANSFER_ID, s)
         else if at_active t then
           (if at_transfer_id t \<noteq> transfer_id \<or> at_payload_crc32 t \<noteq> payload_crc32
            then (ASSET_TRANSFER_STATUS_BUSY, s) else (ASSET_TRANSFER_STATUS_OK, touch_activity now s))
         else
           let s1 = s\<lparr>tf_session := t\<lparr>at_transfer_id := transfer_id, at_next_offset := 0,
                      at_payload_crc32 := payload_crc32, at_last_chunk_length := 0,
                      at_last_activity_ms := now, at_active := True\<rparr>\<rparr>
           in case asset_persistence_begin_candidate hw (tf_store s1) payload_crc32 of (r, st) \<Rightarrow>
             let status = asset_map_persistence_result r; s2 = s1\<lparr>tf_store := st\<rparr>
             in (status, if status \<noteq> ASSET_TRANSFER_STATUS_OK then asset_clear_session s2 else s2))
      of (status, s') \<Rightarrow> asset_send_simple s' frame ASSET_TRANSFER_OPCODE_BEGIN status transfer_id
           (if status = ASSET_TRANSFER_STATUS_OK then ASSET_TRANSFER_CURRENT_LENGTH else 0)
           (if status = ASSET_TRANSFER_STATUS_OK then at_next_offset (tf_session s') else 0))"

definition asset_handle_write ::
    "flash_hw \<Rightarrow> u32 \<Rightarrow> asset_transfer \<Rightarrow> binary_frame_view \<Rightarrow> bytes \<times> asset_transfer" where
  "asset_handle_write hw now s frame =
     (let p = fv_payload frame;
          object_type = rd16 p 2; transfer_id = rd16 p 4; offset = rd16 p 6; data_length = p ! 8;
          data = take (unat data_length) (drop 10 p); t = tf_session s
      in case
        (if p ! 9 \<noteq> 0 \<or> data_length = 0 \<or> data_length > ASSET_TRANSFER_CHUNK_MAX
            \<or> fv_payload_length frame \<noteq> 10 + ucast data_length then (ASSET_TRANSFER_STATUS_BAD_LENGTH, s)
         else if object_type \<noteq> OLED_UI_LAYOUT_CONFIG_V1_OBJECT_TYPE then (ASSET_TRANSFER_STATUS_BAD_OBJECT_TYPE, s)
         else if \<not> at_active t \<or> at_transfer_id t \<noteq> transfer_id then (ASSET_TRANSFER_STATUS_BAD_TRANSFER_ID, s)
         else if offset < at_next_offset t then
           (if offset + ucast data_length = at_next_offset t \<and> data_length = at_last_chunk_length t then
              (if asset_last_chunk_equal s data then (ASSET_TRANSFER_STATUS_OK, touch_activity now s)
               else (ASSET_TRANSFER_STATUS_DATA_CONFLICT, s))
            else (ASSET_TRANSFER_STATUS_BAD_OFFSET, s))
         else if offset \<noteq> at_next_offset t then (ASSET_TRANSFER_STATUS_BAD_OFFSET, s)
         else if (ucast offset :: u32) + ucast data_length > ucast ASSET_TRANSFER_CURRENT_LENGTH
         then (ASSET_TRANSFER_STATUS_BAD_LENGTH, s)
         else case asset_write_candidate hw s data of (status, s1) \<Rightarrow>
           (status,
            if status = ASSET_TRANSFER_STATUS_OK then
              let s2 = asset_remember_chunk s1 data
              in touch_activity now (s2\<lparr>tf_session := (tf_session s2)\<lparr>at_next_offset := offset + ucast data_length\<rparr>\<rparr>)
            else if status = ASSET_TRANSFER_STATUS_STORAGE_ERROR \<or> status = ASSET_TRANSFER_STATUS_INTERNAL_ERROR
            then asset_clear_session s1 else s1))
      of (status, s') \<Rightarrow> asset_send_simple s' frame ASSET_TRANSFER_OPCODE_WRITE_CHUNK status transfer_id
           (if at_active (tf_session s') then ASSET_TRANSFER_CURRENT_LENGTH else 0)
           (if at_active (tf_session s') then at_next_offset (tf_session s') else 0))"

definition asset_handle_commit ::
    "flash_hw \<Rightarrow> asset_transfer \<Rightarrow> binary_frame_view \<Rightarrow> bytes \<times> asset_transfer" where
  "asset_handle_commit hw s frame =
     (let p = fv_payload frame; object_type = rd16 p 2; transfer_id = rd16 p 4; t = tf_session s
      in case
        (if object_type \<noteq> OLED_UI_LAYOUT_CONFIG_V1_OBJECT_TYPE then (ASSET_TRANSFER_STATUS_BAD_OBJECT_TYPE, s)
         else if \<not> at_active t then
           (if \<not> asset_last_commit_matches s transfer_id then ASSET_TRANSFER_STATUS_BAD_TRANSFER_ID
            else ASSET_TRANSFER_STATUS_OK, s)
         else if at_transfer_id t \<noteq> transfer_id then (ASSET_TRANSFER_STATUS_BAD_TRANSFER_ID, s)
         else if at_next_offset t \<noteq> ASSET_TRANSFER_CURRENT_LENGTH then (ASSET_TRANSFER_STATUS_BAD_STATE, s)
         else case asset_persistence_commit_candidate hw (tf_store s) of (r, st) \<Rightarrow>
           let status = asset_map_persistence_result r; s1 = s\<lparr>tf_store := st\<rparr>
           in (status, if status = ASSET_TRANSFER_STATUS_OK then asset_finish_commit s1 else asset_clear_session s1))
      of (status, s') \<Rightarrow> asset_send_response s' (fv_request_id frame) ASSET_TRANSFER_OPCODE_COMMIT status
           OLED_UI_LAYOUT_CONFIG_V1_OBJECT_TYPE transfer_id
           (if status = ASSET_TRANSFER_STATUS_OK then ASSET_TRANSFER_CURRENT_LENGTH else 0)
           (if status = ASSET_TRANSFER_STATUS_OK then ASSET_TRANSFER_CURRENT_LENGTH else 0) 0)"

definition asset_handle_abort :: "asset_transfer \<Rightarrow> binary_frame_view \<Rightarrow> bytes \<times> asset_transfer" where
  "asset_handle_abort s frame =
     (let p = fv_payload frame; object_type = rd16 p 2; transfer_id = rd16 p 4; t = tf_session s
      in case
        (if object_type \<noteq> OLED_UI_LAYOUT_CONFIG_V1_OBJECT_TYPE then (ASSET_TRANSFER_STATUS_BAD_OBJECT_TYPE, s)
         else if at_active t \<and> at_transfer_id t \<noteq> transfer_id then (ASSET_TRANSFER_STATUS_BAD_TRANSFER_ID, s)
         else if at_active t then (ASSET_TRANSFER_STATUS_OK, asset_clear_session s)
         else (ASSET_TRANSFER_STATUS_OK, s))
      of (status, s') \<Rightarrow> asset_send_simple s' frame ASSET_TRANSFER_OPCODE_ABORT status transfer_id 0 0)"

definition asset_handle_status :: "u32 \<Rightarrow> asset_transfer \<Rightarrow> binary_frame_view \<Rightarrow> bytes \<times> asset_transfer" where
  "asset_handle_status now s frame =
     (let p = fv_payload frame; object_type = rd16 p 2; transfer_id = rd16 p 4; t = tf_session s;
          record_crc = (case asset_persistence_active_record (tf_store s) of
              None \<Rightarrow> (0, 0) | Some r \<Rightarrow> (ASSET_TRANSFER_CURRENT_LENGTH, ar_payload_crc32 r))
      in case
        (if object_type \<noteq> OLED_UI_LAYOUT_CONFIG_V1_OBJECT_TYPE then (ASSET_TRANSFER_STATUS_BAD_OBJECT_TYPE, 0, 0, s)
         else if transfer_id = 0 then
           (if at_active t then (ASSET_TRANSFER_STATUS_OK, ASSET_TRANSFER_CURRENT_LENGTH, at_next_offset t, s)
            else (ASSET_TRANSFER_STATUS_OK, 0, 0, s))
         else if \<not> at_active t \<or> at_transfer_id t \<noteq> transfer_id then (ASSET_TRANSFER_STATUS_BAD_TRANSFER_ID, 0, 0, s)
         else (ASSET_TRANSFER_STATUS_OK, ASSET_TRANSFER_CURRENT_LENGTH, at_next_offset t, touch_activity now s))
      of (status, total_length, next_offset, s') \<Rightarrow>
        let s2 = s'\<lparr>tf_wire := store_at (tf_wire s') 28 (wr16 (fst record_crc) @ wr16 0
               @ wr16 (ucast (snd record_crc AND 0xFFFF)) @ wr16 (ucast (drop_bit 16 (snd record_crc))))\<rparr>
        in asset_send_response s2 (fv_request_id frame) ASSET_TRANSFER_OPCODE_STATUS status object_type transfer_id
             total_length next_offset 8)"

definition asset_handle_read :: "asset_transfer \<Rightarrow> binary_frame_view \<Rightarrow> bytes \<times> asset_transfer" where
  "asset_handle_read s frame =
     (let p = fv_payload frame; object_type = rd16 p 2; expected_generation = rd32 p 4; offset = rd16 p 8;
          requested_length = p ! 10
      in case
        (if p ! 11 \<noteq> 0 then (ASSET_TRANSFER_STATUS_MALFORMED, 0, 0, s)
         else if object_type \<noteq> OLED_UI_LAYOUT_CONFIG_V1_OBJECT_TYPE then (ASSET_TRANSFER_STATUS_BAD_OBJECT_TYPE, 0, 0, s)
         else case asset_persistence_active_record (tf_store s) of
           None \<Rightarrow> (ASSET_TRANSFER_STATUS_NOT_FOUND, 0, 0, s)
         | Some r \<Rightarrow>
             if ar_generation r \<noteq> expected_generation then (ASSET_TRANSFER_STATUS_GENERATION_MISMATCH, 0, 0, s)
             else if requested_length = 0
                \<or> (ucast offset :: u32) + ucast requested_length > ucast ASSET_TRANSFER_CURRENT_LENGTH
             then (ASSET_TRANSFER_STATUS_BAD_LENGTH, 0, 0, s)
             else case asset_persistence_read_active (tf_store s) (unat offset) (unat requested_length) of
               None \<Rightarrow> (ASSET_TRANSFER_STATUS_INTERNAL_ERROR, 0, 0, s)
             | Some data \<Rightarrow> (ASSET_TRANSFER_STATUS_OK, requested_length, ASSET_TRANSFER_CURRENT_LENGTH,
                  s\<lparr>tf_wire := store_at (tf_wire s) 28 data\<rparr>))
      of (status, response_length, total_length, s') \<Rightarrow>
        asset_send_response s' (fv_request_id frame) ASSET_TRANSFER_OPCODE_READ_CHUNK status object_type 0 total_length
          (if status = ASSET_TRANSFER_STATUS_OK then offset + ucast response_length else offset) response_length)"

section \<open>Dispatch\<close>

text \<open>The checks on the header, the flags and the length, and the handler of the opcode.\<close>

definition asset_transfer_respond ::
    "flash_hw \<Rightarrow> u32 \<Rightarrow> asset_transfer \<Rightarrow> binary_frame_view \<Rightarrow> bytes \<times> asset_transfer" where
  "asset_transfer_respond hw now s frame =
     (let opcode = (if fv_payload_length frame \<ge> 2 then fv_payload frame ! 1 else 0);
          bad = (\<lambda>status. asset_send_simple s frame opcode status 0 0 0)
      in if fv_version frame \<noteq> BINARY_FRAME_PROTOCOL_VERSION \<or> fv_reserved frame \<noteq> 0 \<or> fv_request_id frame = 0
           \<or> fv_frame_type frame \<noteq> BINARY_FRAME_TYPE_ASSET_TRANSFER_REQUEST \<or> fv_payload_length frame < 2
           \<or> fv_payload frame ! 0 \<noteq> ASSET_TRANSFER_PROTOCOL_VERSION
         then bad ASSET_TRANSFER_STATUS_MALFORMED
         else let known = opcode \<ge> ASSET_TRANSFER_OPCODE_BEGIN \<and> opcode \<le> ASSET_TRANSFER_OPCODE_READ_CHUNK;
             required_flags = (if opcode \<le> ASSET_TRANSFER_OPCODE_COMMIT then ASSET_TRANSFER_FLAG_ALLOW_DESTRUCTIVE else 0);
             expected_length = (if opcode = ASSET_TRANSFER_OPCODE_BEGIN then 16
                                else if opcode = ASSET_TRANSFER_OPCODE_READ_CHUNK then 12 else 6) :: u16
         in if known \<and> fv_flags frame \<noteq> required_flags then bad ASSET_TRANSFER_STATUS_BAD_FLAGS
         else if known \<and> (if opcode = ASSET_TRANSFER_OPCODE_WRITE_CHUNK then fv_payload_length frame < 11
                           else fv_payload_length frame \<noteq> expected_length)
         then bad ASSET_TRANSFER_STATUS_MALFORMED
         else if opcode = ASSET_TRANSFER_OPCODE_BEGIN then asset_handle_begin hw now s frame
         else if opcode = ASSET_TRANSFER_OPCODE_WRITE_CHUNK then asset_handle_write hw now s frame
         else if opcode = ASSET_TRANSFER_OPCODE_COMMIT then asset_handle_commit hw s frame
         else if opcode = ASSET_TRANSFER_OPCODE_ABORT then asset_handle_abort s frame
         else if opcode = ASSET_TRANSFER_OPCODE_STATUS then asset_handle_status now s frame
         else if opcode = ASSET_TRANSFER_OPCODE_READ_CHUNK then asset_handle_read s frame
         else bad ASSET_TRANSFER_STATUS_BAD_OPCODE)"

text \<open>
  Without a frame or a callback nothing happens; otherwise the response goes to the callback,
  whose answer is returned. A view always carries its payload (the parser's buffer).
\<close>

definition asset_transfer_handle_frame ::
    "flash_hw \<Rightarrow> u32 \<Rightarrow> asset_transfer \<Rightarrow> binary_frame_view option \<Rightarrow> (bytes \<Rightarrow> bool) option \<Rightarrow> bool \<times> asset_transfer" where
  "asset_transfer_handle_frame hw now s frame send_wire = (case (frame, send_wire) of
     (Some f, Some send) \<Rightarrow> (case asset_transfer_respond hw now s f of (wire, s') \<Rightarrow> (send wire, s'))
   | _ \<Rightarrow> (False, s))"

end
