(* ===== verification/Asset_Session.thy ===== *)
theory Asset_Session
  imports Asset_Transfer
begin

unbundle bit_operations_syntax

text \<open>
  The transfer protocol as a client may see it: an object that is replaced as a whole. The
  abstract machine has the committed object and at most one session; every request of the
  real handlers is one step of it.
\<close>

section \<open>Responses\<close>

definition response_view ::
    "asset_transfer \<Rightarrow> u16 \<Rightarrow> u8 \<Rightarrow> asset_transfer_status \<Rightarrow> u16 \<Rightarrow> u16 \<Rightarrow> u16 \<Rightarrow> u16 \<Rightarrow> bytes \<Rightarrow> binary_frame_view" where
  "response_view s request_id opcode status object_type transfer_id total_length next_offset data =
     (let g = (case asset_persistence_active_record (tf_store s) of Some r \<Rightarrow> ar_generation r | None \<Rightarrow> 0) in
      \<lparr>fv_version = 1, fv_frame_type = BINARY_FRAME_TYPE_ASSET_TRANSFER_RESPONSE, fv_flags = 0, fv_reserved = 0,
       fv_request_id = request_id, fv_payload_length = 18 + of_nat (length data),
       fv_payload = wr16 (ucast ASSET_TRANSFER_PROTOCOL_VERSION OR push_bit 8 (ucast opcode))
             @ wr16 (asset_status_code status OR push_bit 8 (asset_session_code (asset_session_state s)))
             @ wr16 object_type @ wr16 transfer_id
             @ wr16 (ucast (g AND 0xFFFF)) @ wr16 (ucast (drop_bit 16 g))
             @ wr16 total_length @ wr16 next_offset @ wr16 (of_nat (length data)) @ data\<rparr>)"

declare unat_ucast_u8 [simp] unat_ucast_u16 [simp]

lemma send_response:
  assumes w: "length (tf_wire s) = 62" and d: "unat dl \<le> 32"
  obtains w' where "length w' = 62"
    "asset_send_response s rid oc st ot tid tot no dl =
      (bf_wire (response_view s rid oc st ot tid tot no (take (unat dl) (drop 28 (tf_wire s)))), s\<lparr>tf_wire := w'\<rparr>)"
proof -
  define g where "g = (case asset_persistence_active_record (tf_store s) of Some r \<Rightarrow> ar_generation r | None \<Rightarrow> 0)"
  define h where "h = wr16 (ucast ASSET_TRANSFER_PROTOCOL_VERSION OR push_bit 8 (ucast oc))
             @ wr16 (asset_status_code st OR push_bit 8 (asset_session_code (asset_session_state s)))
             @ wr16 ot @ wr16 tid @ wr16 (ucast (g AND 0xFFFF)) @ wr16 (ucast (drop_bit 16 g))
             @ wr16 tot @ wr16 no @ wr16 (ucast dl)"
  define n :: u16 where "n = 18 + ucast dl"
  define w1 where "w1 = store_at (tf_wire s) 10 h"
  define data where "data = take (unat dl) (drop 28 (tf_wire s))"
  have lh: "length h = 18" by (simp add: h_def)
  have lw: "length w1 = 62" using w lh by (simp add: w1_def)
  have ld: "length data = unat dl" using w d by (simp add: data_def)
  have dn: "(ucast dl :: u16) = of_nat (length data)" by (simp add: ld unsigned_ucast_eq)
  have un: "unat n = 18 + unat dl"
    using d by (simp add: n_def unat_word_ariths(1))
  have w1e: "w1 = take 10 (tf_wire s) @ h @ drop 28 (tf_wire s)"
    using lh by (simp add: w1_def store_at_def)
  have tk: "take (unat n) (drop 10 w1) = h @ data"
    using lh w by (simp add: w1e un data_def)
  note f = finalize_wire[of "h @ data" n w1 "0x85" 0 rid, OF _ _ tk]
  have f1: "binary_frame_finalize_in_place 0x85 0 rid n w1 = (12 + unat n, bf_wire \<lparr>fv_version = 1, fv_frame_type = 0x85,
      fv_flags = 0, fv_reserved = 0, fv_request_id = rid, fv_payload_length = n, fv_payload = h @ data\<rparr> @ drop (12 + unat n) w1)"
    by (rule f) (use lh ld un d lw in auto)
  let ?v = "\<lparr>fv_version = 1, fv_frame_type = 0x85, fv_flags = 0, fv_reserved = 0, fv_request_id = rid,
     fv_payload_length = n, fv_payload = h @ data\<rparr> :: binary_frame_view"
  have lv: "length (bf_wire ?v) = 12 + unat n"
    using lh ld un by (simp add: bf_wire_def bf_body_def)
  have v: "?v = response_view s rid oc st ot tid tot no data"
    unfolding response_view_def Let_def g_def[symmetric] h_def n_def dn by simp
  have "asset_send_response s rid oc st ot tid tot no dl = (bf_wire ?v, s\<lparr>tf_wire := bf_wire ?v @ drop (12 + unat n) w1\<rparr>)"
    unfolding asset_send_response_def Let_def g_def[symmetric] h_def[symmetric] n_def[symmetric] w1_def[symmetric] f1 prod.case
    using lv by simp
  note E = this[unfolded v, unfolded data_def]
  have "length (bf_wire ?v @ drop (12 + unat n) w1) = 62" using lv lw un d by simp
  from that[OF this[unfolded v, unfolded data_def] E] show thesis .
qed

lemma status_byte:
  "ucast (asset_status_code st OR push_bit 8 x) = (ucast (asset_status_code st) :: u8)"
  by (rule bit_word_eqI) (auto simp: bit_simps)

lemma nth_10: "(x0 # x1 # x2 # x3 # x4 # x5 # x6 # x7 # x8 # x9 # c # r) ! 10 = c"
  by simp

lemma response_status_byte:
  assumes "length data \<le> 32"
  shows "bf_wire (response_view s rid oc st ot tid tot no data) ! 12 = ucast (asset_status_code st)" (is "bf_wire ?v ! 12 = _")
proof -
  have n: "unat (fv_payload_length ?v) = Suc (Suc (Suc (15 + length data)))"
    using assms by (simp add: response_view_def Let_def unat_word_ariths(1) u16_of_nat)
  obtain a b c rest where p: "fv_payload ?v = a # b # c # rest" "c = ucast (asset_status_code st)"
    by (simp add: response_view_def Let_def wr16_def status_byte)
  have "bf_wire ?v ! 12 = (bf_body ?v @ wr16 (bf_crc (bf_body ?v))) ! 10" by (simp add: bf_wire_def)
  also have "\<dots> = c" unfolding bf_body_def p(1) n take_Suc_Cons wr16_def append.simps by (rule nth_10)
  finally show ?thesis using p(2) by simp
qed

section \<open>The object a client sees\<close>

datatype xfer_request =
  X_begin u16 u32 | X_write u16 nat bytes | X_commit u16 | X_abort u16 | X_query | X_idle | X_reset

record xfer =
  xf_committed :: "bytes option"
  xf_session :: "(u16 \<times> u32 \<times> bytes) option"
  xf_last :: "u16 option"
  xf_durable :: bool

text \<open>
  A session has a transfer id, the announced checksum and the bytes accepted so far. Only a
  commit of all eight bytes replaces the object, and by exactly these bytes. A request may be
  sent again and is then acknowledged without an effect. While \<open>xf_durable\<close> holds, the next
  boot finds the committed object; a commit that failed may end it.
\<close>

inductive xfer_step :: "xfer_request \<Rightarrow> asset_transfer_status \<Rightarrow> xfer \<Rightarrow> xfer \<Rightarrow> bool" where
  refused: "st \<noteq> ASSET_TRANSFER_STATUS_OK \<Longrightarrow> xfer_step q st a a"
| begun: "xf_session a = None \<Longrightarrow> i \<noteq> 0 \<Longrightarrow>
    xfer_step (X_begin i crc) ASSET_TRANSFER_STATUS_OK a (a\<lparr>xf_session := Some (i, crc, []), xf_last := None\<rparr>)"
| begin_again: "xf_session a = Some (i, crc, d) \<Longrightarrow> xfer_step (X_begin i crc) ASSET_TRANSFER_STATUS_OK a a"
| begin_failed: "xf_session a = None \<Longrightarrow> st \<noteq> ASSET_TRANSFER_STATUS_OK \<Longrightarrow>
    xfer_step (X_begin i crc) st a (a\<lparr>xf_last := None\<rparr>)"
| wrote: "xf_session a = Some (i, crc, d) \<Longrightarrow> length d + length c \<le> 8 \<Longrightarrow>
    xfer_step (X_write i (length d) c) ASSET_TRANSFER_STATUS_OK a (a\<lparr>xf_session := Some (i, crc, d @ c)\<rparr>)"
| write_again: "xf_session a = Some (i, crc, d @ c) \<Longrightarrow>
    xfer_step (X_write i (length d) c) ASSET_TRANSFER_STATUS_OK a a"
| write_failed: "xf_session a = Some (i, crc, d) \<Longrightarrow>
    xfer_step (X_write i (length d) c) ASSET_TRANSFER_STATUS_STORAGE_ERROR a (a\<lparr>xf_session := None\<rparr>)"
| committed: "xf_session a = Some (i, crc, d) \<Longrightarrow> length d = 8 \<Longrightarrow>
    xfer_step (X_commit i) ASSET_TRANSFER_STATUS_OK a (a\<lparr>xf_committed := Some d, xf_session := None, xf_last := Some i\<rparr>)"
| commit_again: "xf_session a = None \<Longrightarrow> xf_last a = Some i \<Longrightarrow>
    xfer_step (X_commit i) ASSET_TRANSFER_STATUS_OK a a"
| commit_failed: "xf_session a = Some (i, crc, d) \<Longrightarrow> length d = 8 \<Longrightarrow> st \<noteq> ASSET_TRANSFER_STATUS_OK \<Longrightarrow>
    (durable \<longrightarrow> xf_durable a) \<Longrightarrow>
    xfer_step (X_commit i) st a (a\<lparr>xf_session := None, xf_durable := durable\<rparr>)"
| aborted: "xf_session a = Some (i, crc, d) \<Longrightarrow>
    xfer_step (X_abort i) ASSET_TRANSFER_STATUS_OK a (a\<lparr>xf_session := None\<rparr>)"
| abort_nothing: "xf_session a = None \<Longrightarrow> xfer_step (X_abort i) ASSET_TRANSFER_STATUS_OK a a"
| queried: "xfer_step X_query ASSET_TRANSFER_STATUS_OK a a"
| timed_out: "xf_session a \<noteq> None \<Longrightarrow> xfer_step X_idle ASSET_TRANSFER_STATUS_OK a (a\<lparr>xf_session := None\<rparr>)"
| idled: "xfer_step X_idle ASSET_TRANSFER_STATUS_OK a a"
| was_reset: "xfer_step X_reset ASSET_TRANSFER_STATUS_OK a (a\<lparr>xf_session := None, xf_last := None\<rparr>)"

text \<open>The payload of the active record.\<close>

definition in_force :: "asset_store \<Rightarrow> bytes option" where
  "in_force s = asset_persistence_read_active s 0 8"

text \<open>
  The store has taken the bytes of the session since it was begun in \<open>s0\<close>, and the retry
  cache holds the last chunk of them.
\<close>

definition receiving :: "asset_transfer_state \<Rightarrow> asset_store \<Rightarrow> bool \<Rightarrow> bytes \<Rightarrow> bool" where
  "receiving t st durable d \<longleftrightarrow> (\<exists>s0. active_slot_ok s0 \<and> (durable \<longrightarrow> store_ok s0) \<and> accepted s0 st (at_payload_crc32 t) d)
     \<and> at_next_offset t = of_nat (length d) \<and> length d \<le> 8 \<and> unat (at_last_chunk_length t) \<le> length d
     \<and> take (unat (at_last_chunk_length t)) (at_last_chunk t) = drop (length d - unat (at_last_chunk_length t)) d"

definition represents :: "asset_transfer \<Rightarrow> xfer \<Rightarrow> bool" where
  "represents s a \<longleftrightarrow> (let t = tf_session s; st = tf_store s in
     length (tf_wire s) = 62 \<and> length (at_last_chunk t) = 8 \<and> active_slot_ok st
     \<and> xf_committed a = in_force st \<and> (xf_durable a \<longrightarrow> store_ok st)
     \<and> (if at_active t
        then \<exists>d. xf_session a = Some (at_transfer_id t, at_payload_crc32 t, d) \<and> receiving t st (xf_durable a) d
        else xf_session a = None \<and> \<not> ac_active (as_candidate st)
             \<and> (at_transfer_id t \<noteq> 0 \<longrightarrow> xf_last a = Some (at_transfer_id t))))"

definition answers :: "xfer_request \<Rightarrow> xfer \<Rightarrow> bytes \<times> asset_transfer \<Rightarrow> bool" where
  "answers q a x \<longleftrightarrow> (\<exists>st a'. fst x ! 12 = ucast (asset_status_code st) \<and> xfer_step q st a a' \<and> represents (snd x) a')"

lemma represents_wire: "represents s a \<Longrightarrow> length w = 62 \<Longrightarrow> represents (s\<lparr>tf_wire := w\<rparr>) a"
  by (simp add: represents_def Let_def)

lemma answers_send:
  assumes "represents s' a'" "xfer_step q st a a'" "unat dl \<le> 32"
  shows "answers q a (asset_send_response s' rid oc st ot tid tot no dl)"
proof -
  have "length (tf_wire s') = 62" using assms(1) by (simp add: represents_def Let_def)
  then obtain w' where w': "length w' = 62"
    "asset_send_response s' rid oc st ot tid tot no dl =
      (bf_wire (response_view s' rid oc st ot tid tot no (take (unat dl) (drop 28 (tf_wire s')))), s'\<lparr>tf_wire := w'\<rparr>)"
    using send_response[OF _ assms(3)] by metis
  have "length (take (unat dl) (drop 28 (tf_wire s'))) \<le> 32" using assms(3) by simp
  from response_status_byte[OF this] show ?thesis
    unfolding answers_def w'(2) fst_conv snd_conv using assms(2) represents_wire[OF assms(1) w'(1)] by blast
qed

lemma answers_simple:
  "represents s' a' \<Longrightarrow> xfer_step q st a a' \<Longrightarrow> answers q a (asset_send_simple s' f oc st tid tot no)"
  unfolding asset_send_simple_def by (erule (1) answers_send) simp

section \<open>What the store does under a session\<close>

lemma in_force_eq:
  "in_force s = (if ar_slot_address (as_active s) = 0 then None
     else Some (flash_bytes (mem_of s) (ar_slot_address (as_active s)) 64 8))"
  by (simp add: in_force_def asset_persistence_read_active_def flash_bytes_def)

lemma reset_same [simp]:
  "in_force (asset_candidate_reset s) = in_force s" "active_slot_ok (asset_candidate_reset s) = active_slot_ok s"
  "\<not> ac_active (as_candidate (asset_candidate_reset s))"
  by (simp_all add: in_force_eq active_slot_ok_def asset_candidate_reset_def)

lemma reset_mem [simp]: "mem_of (asset_candidate_reset s) = mem_of s" "as_active (asset_candidate_reset s) = as_active s"
  by (simp_all add: asset_candidate_reset_def)

lemma reset_store_ok [simp]: "store_ok (asset_candidate_reset s) = store_ok s"
proof -
  have "boots (asset_candidate_reset s) = boots s" unfolding boots_eq reset_mem ..
  then show ?thesis by (simp add: store_ok_def asset_persistence_active_record_def)
qed

lemma kept_in_force:
  assumes "active_slot_ok s0" "as_active s = as_active s0" "agree (mem_of s0) (mem_of s) (kept_slot s0) {0..<1024}"
  shows "in_force s = in_force s0" "active_slot_ok s"
proof -
  show "active_slot_ok s" using assms(1,2) by (simp add: active_slot_ok_def)
  have "ar_slot_address (as_active s0) \<noteq> 0 \<Longrightarrow>
      flash_bytes (mem_of s) (ar_slot_address (as_active s0)) 64 8 = flash_bytes (mem_of s0) (ar_slot_address (as_active s0)) 64 8"
    using active_kept[OF assms(1)] agree_bytes[OF assms(3), of 64 8] by (simp add: subset_iff)
  then show "in_force s = in_force s0" using assms(2) by (simp add: in_force_eq)
qed

lemma unsealed_kept: "unsealed hw s0 s \<Longrightarrow> as_active s = as_active s0 \<and> agree (mem_of s0) (mem_of s) (kept_slot s0) {0..<1024}"
  using touches_kept[OF _ update_slot_is(2,3)] unfolding unsealed_def by (meson touches_def)

lemma unsealed_in_force:
  assumes "active_slot_ok s0" "unsealed hw s0 s"
  shows "in_force s = in_force s0" "active_slot_ok s"
  using kept_in_force[OF assms(1)] unsealed_kept[OF assms(2)] by blast+

text \<open>
  The one assumption on the flash controller: an erase that fails or is cut short does not leave
  a different page that passes every check of a record.
\<close>

definition no_chance_record :: "flash_hw \<Rightarrow> bool" where
  "no_chance_record hw \<longleftrightarrow> (\<forall>n p. whole_record (fo_erase (hw n) p) \<longrightarrow> (\<forall>i < 1024. fo_erase (hw n) p i = p i))"

lemma no_chance:
  assumes "no_chance_record hw"
  shows "\<not> chance_record hw s s'"
proof
  assume c: "chance_record hw s s'"
  then obtain n where n: "\<forall>i < 1024. flash_page (mem_of s') (update_slot s) i = fo_erase (hw n) (flash_page (mem_of s) (update_slot s)) i"
    by (auto simp: chance_record_def leftover_def)
  then have "whole_record (fo_erase (hw n) (flash_page (mem_of s) (update_slot s)))"
    using c whole_record_cong[of "flash_page (mem_of s') (update_slot s)"] by (simp add: chance_record_def)
  then show False using assms n c unfolding no_chance_record_def chance_record_def agree_def by simp
qed

lemma working_no_chance: "no_chance_record working_hw"
  by (simp add: no_chance_record_def working_hw_def)

lemma same_store_ok: "store_ok s0 \<Longrightarrow> mem_of s = mem_of s0 \<Longrightarrow> as_active s = as_active s0 \<Longrightarrow> store_ok s"
  using same_boots(1)[of s s0] by (simp add: store_ok_def asset_persistence_active_record_def)

lemma unsealed_store_ok:
  assumes hw: "no_chance_record hw" and ok: "store_ok s0" and u: "unsealed hw s0 s"
  shows "store_ok s"
proof -
  have b: "boots s = boots s0" using unsealed_boots(1)[OF ok u no_chance[OF hw]] .
  have act: "as_active s = as_active s0" and k: "agree (mem_of s0) (mem_of s) (kept_slot s0) {0..<1024}"
    using unsealed_kept[OF u] by blast+
  have "record_at (mem_of s) p = None" if n: "boots s0 = None" and p: "is_slot p" for p
  proof (cases "p = kept_slot s0")
    case True
    have "agree (mem_of s0) (mem_of s) (kept_slot s0) {0..<72}" using k by (simp add: agree_def)
    then show ?thesis using record_at_cong store_ok_kept(1)[OF ok] n True by metis
  next
    case False
    then have p: "p = update_slot s0" using p update_slot_is[of s0] by (auto simp: is_slot_def)
    have none: "record_at (mem_of s0) p = None" using ok n \<open>is_slot p\<close> by (auto simp: store_ok_def is_slot_def)
    from u consider "agree (mem_of s0) (mem_of s) p {0..<72}" | "\<not> whole_record (flash_page (mem_of s) p)"
      using no_chance[OF hw, of s0 s] unfolding unsealed_def chance_record_def p[symmetric] by (auto simp: agree_def)
    then show ?thesis
    proof cases
      case 1
      then show ?thesis using record_at_cong none by metis
    next
      case 2
      then show ?thesis using record_whole by blast
    qed
  qed
  then show ?thesis using ok b act
    by (simp add: store_ok_def asset_persistence_active_record_def is_slot_def)
qed

lemma program_active: "asset_program hw s k v = (ok, s') \<Longrightarrow> as_active s' = as_active s"
  by (auto simp: asset_program_def split: prod.splits)

lemma header_active: "asset_program_header_crc hw s = (r, s') \<Longrightarrow> as_active s' = as_active s"
  by (auto simp: asset_program_header_crc_def Let_def split: prod.splits if_splits dest!: program_active)

text \<open>A commit replaces the object by the accepted bytes, or keeps it.\<close>

lemma commit_candidate:
  assumes c: "asset_persistence_commit_candidate hw s = (r, s')"
  shows "r = ASSET_PERSISTENCE_RESULT_OK \<or> r = ASSET_PERSISTENCE_RESULT_UNCHANGED \<Longrightarrow> \<not> ac_active (as_candidate s')"
    "r \<noteq> ASSET_PERSISTENCE_RESULT_OK \<Longrightarrow> as_active s' = as_active s"
proof -
  obtain r1 s1 where h: "asset_program_header_crc hw s = (r1, s1)" by fastforce
  obtain ok s2 where m: "asset_program hw s1 62 0xA55A = (ok, s2)" by fastforce
  obtain r3 x where v: "asset_validate_record (mem_of s2) (ac_slot_address (as_candidate s)) 0xA55A = (r3, x)" by fastforce
  have a: "as_active s1 = as_active s" "as_active s2 = as_active s" using program_active[OF m] header_active[OF h] by simp_all
  have n: "x = None \<Longrightarrow> r3 \<noteq> ASSET_PERSISTENCE_RESULT_OK \<and> r3 \<noteq> ASSET_PERSISTENCE_RESULT_UNCHANGED"
    using v validate_none by blast
  note d = c[unfolded asset_persistence_commit_candidate_def Let_def h prod.case m v]
  show "\<not> ac_active (as_candidate s')" if "r = ASSET_PERSISTENCE_RESULT_OK \<or> r = ASSET_PERSISTENCE_RESULT_UNCHANGED"
    using d that n header_crc_result[OF h] validate_not_unchanged by (auto split: if_splits option.splits)
  show "as_active s' = as_active s" if "r \<noteq> ASSET_PERSISTENCE_RESULT_OK"
    using d that a by (auto split: if_splits option.splits)
qed

lemma accepted_active: "accepted s0 s crc d \<Longrightarrow> as_active s = as_active s0"
  using accepted_unsealed unsealed_kept by blast

lemma commit_effect:
  assumes a: "accepted s0 s crc d" and ok: "active_slot_ok s0"
    and c: "asset_persistence_commit_candidate hw s = (r, s')"
  shows "active_slot_ok s'"
    "asset_map_persistence_result r = ASSET_TRANSFER_STATUS_OK \<Longrightarrow> in_force s' = Some d \<and> length d = 8
       \<and> \<not> ac_active (as_candidate s') \<and> (store_ok s0 \<longrightarrow> store_ok s')"
    "asset_map_persistence_result r \<noteq> ASSET_TRANSFER_STATUS_OK \<Longrightarrow> in_force s' = in_force s0"
proof -
  note st = commit_step[OF a c]
  have f: "asset_map_persistence_result r = ASSET_TRANSFER_STATUS_OK
      \<longleftrightarrow> r = ASSET_PERSISTENCE_RESULT_OK \<or> r = ASSET_PERSISTENCE_RESULT_UNCHANGED" by (cases r) simp_all
  have len: "length d = 8" if "r = ASSET_PERSISTENCE_RESULT_OK \<or> r = ASSET_PERSISTENCE_RESULT_UNCHANGED"
    using c that a by (auto simp: asset_persistence_commit_candidate_def accepted_def written_def writing_def comparing_def Let_def
        split: if_splits)
  have new: "in_force s' = Some d" "active_slot_ok s'" "store_ok s0 \<Longrightarrow> store_ok s'"
    if "sealed s0 s' crc d" "as_active s' = new_record s0 crc"
  proof -
    have sl: "is_slot (ar_slot_address (as_active s'))" using that(2) update_slot_is by (simp add: new_record_def)
    then have n0: "ar_slot_address (as_active s') \<noteq> 0" by (auto simp: is_slot_def)
    show "in_force s' = Some d" "active_slot_ok s'"
      using that sl n0 by (simp_all add: in_force_eq active_slot_ok_def sealed_def new_record_def)
    show "store_ok s'" if "store_ok s0"
      using sealed_boots(1)[OF that \<open>sealed s0 s' crc d\<close>] n0 \<open>as_active s' = _\<close>
      by (simp add: store_ok_def asset_persistence_active_record_def)
  qed
  have kept: "in_force s' = in_force s0" "active_slot_ok s'" if "unsealed hw s0 s' \<or> sealed s0 s' crc d" "r \<noteq> ASSET_PERSISTENCE_RESULT_OK"
  proof -
    have "as_active s' = as_active s0" using commit_candidate(2)[OF c that(2)] accepted_active[OF a] by simp
    moreover have "agree (mem_of s0) (mem_of s') (kept_slot s0) {0..<1024}"
      using that(1) unsealed_kept by (auto simp: sealed_def)
    ultimately show "in_force s' = in_force s0" "active_slot_ok s'" using kept_in_force[OF ok] by blast+
  qed
  show "active_slot_ok s'" using st new(2) kept(2) by auto
  show "in_force s' = in_force s0" if "asset_map_persistence_result r \<noteq> ASSET_TRANSFER_STATUS_OK"
    using st kept(1) that f by auto
  show "in_force s' = Some d \<and> length d = 8 \<and> \<not> ac_active (as_candidate s') \<and> (store_ok s0 \<longrightarrow> store_ok s')"
    if t: "asset_map_persistence_result r = ASSET_TRANSFER_STATUS_OK"
  proof -
    have r: "r = ASSET_PERSISTENCE_RESULT_OK \<or> r = ASSET_PERSISTENCE_RESULT_UNCHANGED" using t f by blast
    have "in_force s' = Some d \<and> (store_ok s0 \<longrightarrow> store_ok s')"
      using st r new kept(1) same_store_ok[of s0 s'] commit_candidate(2)[OF c] accepted_active[OF a] by (auto simp: in_force_eq[of s0])
    then show ?thesis using len[OF r] commit_candidate(1)[OF c r] by blast
  qed
qed

section \<open>Every handler is a step\<close>

lemma represents_idle:
  assumes "represents s a" "\<not> at_active (tf_session s)"
  shows "xf_session a = None" "\<not> ac_active (as_candidate (tf_store s))"
  using assms by (simp_all add: represents_def Let_def)

lemma represents_active:
  assumes "represents s a" "at_active (tf_session s)"
  obtains d where "xf_session a = Some (at_transfer_id (tf_session s), at_payload_crc32 (tf_session s), d)"
    "receiving (tf_session s) (tf_store s) (xf_durable a) d"
  using assms by (auto simp: represents_def Let_def)

lemma represents_touch: "represents s a \<Longrightarrow> represents (touch_activity now s) a"
proof -
  have "receiving (t\<lparr>at_last_activity_ms := now\<rparr>) = receiving t" for t by (intro ext) (simp add: receiving_def)
  then show "represents s a \<Longrightarrow> represents (touch_activity now s) a"
    by (simp add: represents_def touch_activity_def Let_def)
qed

lemma represents_clear:
  assumes "represents s a"
  shows "represents (asset_clear_session s) (a\<lparr>xf_session := None, xf_last := l\<rparr>)"
  using assms by (simp add: represents_def asset_clear_session_def asset_persistence_abort_candidate_def Let_def)

lemma represents_cleared:
  assumes "represents s a"
  shows "represents (asset_clear_session s) (a\<lparr>xf_session := None\<rparr>)"
  using represents_clear[OF assms, of "xf_last a"] by simp

text \<open>A store that kept the object still represents it once the session is cleared.\<close>

lemma cleared_store:
  assumes r: "represents s a" and st: "active_slot_ok st" "in_force st = in_force (tf_store s)"
    and d: "durable \<longrightarrow> xf_durable a \<and> store_ok st" and t: "length (at_last_chunk t) = 8"
  shows "represents (asset_clear_session (s\<lparr>tf_session := t, tf_store := st\<rparr>))
    (a\<lparr>xf_session := None, xf_last := l, xf_durable := durable\<rparr>)"
  using assms by (simp add: represents_def asset_clear_session_def asset_persistence_abort_candidate_def Let_def)

lemma begin_answers:
  assumes hw: "no_chance_record hw" and r: "represents s a"
  shows "answers (X_begin (rd16 (fv_payload f) 4) (rd32 (fv_payload f) 10)) a (asset_handle_begin hw now s f)"
proof -
  let ?t = "tf_session s" and ?i = "rd16 (fv_payload f) 4" and ?c = "rd32 (fv_payload f) 10"
  have refuse: "answers q a (asset_send_simple s f oc st tid tot no)" if "st \<noteq> ASSET_TRANSFER_STATUS_OK" for q oc st tid tot no
    using answers_simple[OF r refused[OF that]] .
  have again: "answers (X_begin ?i ?c) a (asset_send_simple (touch_activity now s) f oc ASSET_TRANSFER_STATUS_OK tid tot no)"
    if act: "at_active ?t" "at_transfer_id ?t = ?i" "at_payload_crc32 ?t = ?c" for oc tid tot no
  proof -
    obtain d where "xf_session a = Some (?i, ?c, d)" using represents_active[OF r act(1)] act by metis
    from answers_simple[OF represents_touch[OF r] begin_again[OF this]] show ?thesis .
  qed
  define t where "t = ?t\<lparr>at_transfer_id := ?i, at_next_offset := 0, at_payload_crc32 := ?c, at_last_chunk_length := 0,
     at_last_activity_ms := now, at_active := True\<rparr>"
  obtain p st where b: "asset_persistence_begin_candidate hw (tf_store s) ?c = (p, st)" by fastforce
  have rr: "length (at_last_chunk ?t) = 8" "active_slot_ok (tf_store s)" "length (tf_wire s) = 62"
    "xf_committed a = in_force (tf_store s)" "xf_durable a \<longrightarrow> store_ok (tf_store s)"
    using r by (simp_all add: represents_def Let_def)
  note step = begin_step[OF _ b]
  have okp: "asset_map_persistence_result p = ASSET_TRANSFER_STATUS_OK \<longleftrightarrow> p = ASSET_PERSISTENCE_RESULT_OK"
    using result_not_unchanged[OF b] by (cases p) auto
  have fresh: "answers (X_begin ?i ?c) a (asset_send_simple (s\<lparr>tf_session := t, tf_store := st\<rparr>) f oc
      (asset_map_persistence_result p) tid tot no)"
    if "\<not> at_active ?t" "?i \<noteq> 0" "asset_map_persistence_result p = ASSET_TRANSFER_STATUS_OK" for oc tid tot no
  proof -
    have acc: "accepted (tf_store s) st ?c []" using step that(3) represents_idle(2)[OF r that(1)] okp by simp
    have "represents (s\<lparr>tf_session := t, tf_store := st\<rparr>) (a\<lparr>xf_session := Some (?i, ?c, []), xf_last := None\<rparr>)"
      using acc rr unsealed_in_force[OF rr(2) accepted_unsealed[OF acc]] unsealed_store_ok[OF hw _ accepted_unsealed[OF acc]]
      by (auto simp: represents_def Let_def t_def receiving_def)
    from answers_simple[OF this begun[OF represents_idle(1)[OF r that(1)] that(2)]] that(3) show ?thesis by simp
  qed
  have failed: "answers (X_begin ?i ?c) a (asset_send_simple (asset_clear_session (s\<lparr>tf_session := t, tf_store := st\<rparr>)) f oc
      (asset_map_persistence_result p) tid tot no)"
    if "\<not> at_active ?t" "asset_map_persistence_result p \<noteq> ASSET_TRANSFER_STATUS_OK" for oc tid tot no
  proof -
    have u: "unsealed hw (tf_store s) st" using step that(2) represents_idle(2)[OF r that(1)] okp by simp
    have "represents (asset_clear_session (s\<lparr>tf_session := t, tf_store := st\<rparr>))
        (a\<lparr>xf_session := None, xf_last := None, xf_durable := xf_durable a\<rparr>)"
      by (rule cleared_store[OF r]) (use unsealed_in_force[OF rr(2) u] unsealed_store_ok[OF hw _ u] rr in \<open>auto simp: t_def\<close>)
    then have "represents (asset_clear_session (s\<lparr>tf_session := t, tf_store := st\<rparr>)) (a\<lparr>xf_last := None\<rparr>)"
      using represents_idle(1)[OF r that(1)] by (cases a) simp
    from answers_simple[OF this begin_failed[OF represents_idle(1)[OF r that(1)] that(2)]] show ?thesis .
  qed
  show ?thesis
    unfolding asset_handle_begin_def Let_def t_def[symmetric]
    using refuse again fresh failed by (auto simp: b split: if_splits)
qed

lemma chunk_again:
  assumes rc: "receiving t st durable d" and c: "length c = unat (at_last_chunk_length t)"
    and o: "unat off + length c = unat (at_next_offset t)" and l: "length (at_last_chunk t) = 8"
    and eq: "\<forall>i < length c. at_last_chunk t ! i = c ! i"
  shows "d = take (unat off) d @ c" "unat off \<le> length d"
proof -
  have n: "unat (at_next_offset t) = length d" using rc by (simp add: receiving_def u16_of_nat)
  then show "unat off \<le> length d" using o by simp
  have "take (length c) (at_last_chunk t) = c"
  proof (rule nth_equalityI)
    show "length (take (length c) (at_last_chunk t)) = length c" using rc c l by (auto simp: receiving_def)
  qed (use eq in simp)
  then have "drop (unat off) d = c" using rc c n o by (simp add: receiving_def) (metis diff_add_inverse2)
  then show "d = take (unat off) d @ c" by (metis append_take_drop_id)
qed

lemma chunk_wrote:
  assumes r: "represents s a" and act: "at_active (tf_session s)" and l: "0 < length c" "length c \<le> 32"
    and fit: "unat off + length c \<le> 8" "off = at_next_offset (tf_session s)"
    and hw: "no_chance_record hw"
    and w: "asset_persistence_write_candidate hw (tf_store s) c = (p, st)"
    and ses: "xf_session a = Some (at_transfer_id (tf_session s), at_payload_crc32 (tf_session s), d)"
    and rc: "receiving (tf_session s) (tf_store s) (xf_durable a) d"
  shows "p = ASSET_PERSISTENCE_RESULT_OK \<Longrightarrow>
      represents (touch_activity now (asset_remember_chunk (s\<lparr>tf_store := st\<rparr>) c
        \<lparr>tf_session := (tf_session (asset_remember_chunk (s\<lparr>tf_store := st\<rparr>) c))\<lparr>at_next_offset := off + of_nat (length c)\<rparr>\<rparr>))
       (a\<lparr>xf_session := Some (at_transfer_id (tf_session s), at_payload_crc32 (tf_session s), d @ c)\<rparr>)"
    "p \<noteq> ASSET_PERSISTENCE_RESULT_OK \<Longrightarrow> represents (asset_clear_session (s\<lparr>tf_store := st\<rparr>)) (a\<lparr>xf_session := None\<rparr>)"
    "unat off = length d"
proof -
  let ?t = "tf_session s"
  obtain s0 where s0: "active_slot_ok s0" "xf_durable a \<longrightarrow> store_ok s0" "accepted s0 (tf_store s) (at_payload_crc32 ?t) d"
    using rc by (auto simp: receiving_def)
  have rr: "length (at_last_chunk ?t) = 8" "active_slot_ok (tf_store s)" "length (tf_wire s) = 62"
    "xf_committed a = in_force (tf_store s)" "xf_durable a \<longrightarrow> store_ok (tf_store s)"
    using r by (simp_all add: represents_def Let_def)
  have old: "in_force (tf_store s) = in_force s0" using unsealed_in_force[OF s0(1) accepted_unsealed[OF s0(3)]] by simp
  show n: "unat off = length d" using rc fit(2) by (simp add: receiving_def u16_of_nat)
  note st = write_step[OF s0(1,3) w]
  show "represents (asset_clear_session (s\<lparr>tf_store := st\<rparr>)) (a\<lparr>xf_session := None\<rparr>)" if "p \<noteq> ASSET_PERSISTENCE_RESULT_OK"
  proof -
    have u: "unsealed hw s0 st" using st that by simp
    have "represents (asset_clear_session (s\<lparr>tf_session := ?t, tf_store := st\<rparr>))
        (a\<lparr>xf_session := None, xf_last := xf_last a, xf_durable := xf_durable a\<rparr>)"
      by (rule cleared_store[OF r]) (use unsealed_in_force[OF s0(1) u] unsealed_store_ok[OF hw _ u] s0(2) old rr(1) in auto)
    then show ?thesis by (cases a) simp
  qed
  assume p: "p = ASSET_PERSISTENCE_RESULT_OK"
  then have acc: "accepted s0 st (at_payload_crc32 ?t) (d @ c)" using st by simp
  note u = accepted_unsealed[OF acc]
  have len: "length d + length c \<le> 8" using fit(1) n by simp
  have o: "off + of_nat (length c) = (of_nat (length (d @ c)) :: u16)"
    using arg_cong[OF n, of "of_nat :: nat \<Rightarrow> u16"] by simp
  have lc: "unat (of_nat (length c) :: u8) = length c" using l by (simp add: u8_of_nat)
  have tk: "take (length c) (store_at (at_last_chunk ?t) 0 c) = c" by (simp add: store_at_def)
  have l8: "length (store_at (at_last_chunk ?t) 0 c) = 8" using rr(1) len by simp
  show "represents (touch_activity now (asset_remember_chunk (s\<lparr>tf_store := st\<rparr>) c
        \<lparr>tf_session := (tf_session (asset_remember_chunk (s\<lparr>tf_store := st\<rparr>) c))\<lparr>at_next_offset := off + of_nat (length c)\<rparr>\<rparr>))
       (a\<lparr>xf_session := Some (at_transfer_id (tf_session s), at_payload_crc32 (tf_session s), d @ c)\<rparr>)"
    unfolding o
    using act rr(3,4) l8 acc s0(1,2) len lc tk unsealed_in_force[OF s0(1) u] unsealed_store_ok[OF hw _ u] old
    by (auto simp: represents_def Let_def touch_activity_def asset_remember_chunk_def receiving_def)
qed

text \<open>A write fails for storage, or is refused without touching the candidate.\<close>

lemma payload_halfword_result:
  "asset_program_payload_halfword hw s k v = (r, s') \<Longrightarrow> r = ASSET_PERSISTENCE_RESULT_OK \<or> r = ASSET_PERSISTENCE_RESULT_STORAGE_ERROR"
  by (auto simp: asset_program_payload_halfword_def split: prod.splits if_splits)

lemma write_pairs_result:
  "write_pairs hw s ds = (r, s') \<Longrightarrow> r = ASSET_PERSISTENCE_RESULT_OK \<or> r = ASSET_PERSISTENCE_RESULT_STORAGE_ERROR"
  by (induction hw s ds rule: write_pairs.induct) (auto split: prod.splits if_splits dest: payload_halfword_result)

lemma copy_prefix_result:
  "copy_prefix hw s p n = (r, s') \<Longrightarrow> r = ASSET_PERSISTENCE_RESULT_OK \<or> r = ASSET_PERSISTENCE_RESULT_STORAGE_ERROR"
  by (induction hw s p n rule: copy_prefix.induct) (auto split: prod.splits if_splits dest: payload_halfword_result)

lemma write_payload_result:
  "asset_write_payload_bytes hw s ds = (r, s') \<Longrightarrow> r = ASSET_PERSISTENCE_RESULT_OK \<or> r = ASSET_PERSISTENCE_RESULT_STORAGE_ERROR"
  by (auto simp: asset_write_payload_bytes_def split: prod.splits if_splits dest: payload_halfword_result write_pairs_result)

lemma start_changed_result:
  "asset_start_changed hw s = (r, s') \<Longrightarrow> r = ASSET_PERSISTENCE_RESULT_OK \<or> r = ASSET_PERSISTENCE_RESULT_STORAGE_ERROR
     \<or> r = ASSET_PERSISTENCE_RESULT_WEAR_BUDGET_EXHAUSTED \<and> as_candidate s' = as_candidate s \<and> as_flash s' = as_flash s \<and> as_active s' = as_active s"
  by (auto simp: asset_start_changed_def asset_program_metadata_def Let_def split: prod.splits if_splits)

lemma refused_write:
  assumes "asset_persistence_write_candidate hw s c = (r, s')"
  shows "r = ASSET_PERSISTENCE_RESULT_OK \<or> r = ASSET_PERSISTENCE_RESULT_STORAGE_ERROR
    \<or> as_candidate s' = as_candidate s \<and> as_flash s' = as_flash s \<and> as_active s' = as_active s"
  using assms
  by (auto simp: asset_persistence_write_candidate_def Let_def split: prod.splits if_splits option.splits
      dest: write_payload_result copy_prefix_result start_changed_result)

lemma accepted_cong:
  "as_candidate s' = as_candidate s \<Longrightarrow> as_flash s' = as_flash s \<Longrightarrow> as_active s' = as_active s \<Longrightarrow>
   accepted s0 s crc d \<Longrightarrow> accepted s0 s' crc d"
  by (simp add: accepted_def written_def writing_def comparing_def touches_def Let_def)

lemma represents_refused:
  assumes r: "represents s a" and "as_candidate st = as_candidate (tf_store s)" "as_flash st = as_flash (tf_store s)"
    "as_active st = as_active (tf_store s)"
  shows "represents (s\<lparr>tf_store := st\<rparr>) a"
proof -
  have b: "boots st = boots (tf_store s)" unfolding boots_eq assms(3) ..
  have so: "store_ok st = store_ok (tf_store s)" using b assms by (simp add: store_ok_def asset_persistence_active_record_def)
  have "receiving t (tf_store s) u d \<Longrightarrow> receiving t st u d" for t u d
    using accepted_cong[OF assms(2,3,4)] by (auto simp: receiving_def)
  then show ?thesis using r assms so
    by (auto simp: represents_def Let_def in_force_eq active_slot_ok_def split: if_splits)
qed

lemma write_answers:
  assumes hw: "no_chance_record hw" and r: "represents s a" and v: "bf_view_ok f"
  shows "answers (X_write (rd16 (fv_payload f) 4) (unat (rd16 (fv_payload f) 6))
      (take (unat (fv_payload f ! 8)) (drop 10 (fv_payload f)))) a (asset_handle_write hw now s f)"
proof -
  let ?t = "tf_session s" and ?i = "rd16 (fv_payload f) 4" and ?o = "rd16 (fv_payload f) 6" and ?n = "fv_payload f ! 8"
  define c where "c = take (unat ?n) (drop 10 (fv_payload f))"
  define q where "q = X_write ?i (unat ?o) c"
  have refuse: "answers q a (asset_send_simple s f oc st tid tot no)" if "st \<noteq> ASSET_TRANSFER_STATUS_OK" for oc st tid tot no
    using answers_simple[OF r refused[OF that]] .
  have len: "length c = unat ?n" "unat ?n \<le> 32"
    if "fv_payload_length f = 10 + ucast ?n" "\<not> 32 < ?n"
  proof -
    show n: "unat ?n \<le> 32" using that(2) by (simp add: word_less_nat_alt)
    then have "unat (fv_payload_length f) = 10 + unat ?n" unfolding that(1) by (simp add: unat_word_ariths(1))
    then show "length c = unat ?n" using v by (auto simp: bf_view_ok_def c_def min_def)
  qed
  have again: "answers q a (asset_send_simple (touch_activity now s) f oc ASSET_TRANSFER_STATUS_OK tid tot no)"
    if l: "length c = unat ?n" "unat ?n \<le> 32" and act: "at_active ?t" "at_transfer_id ?t = ?i"
      and o: "?o < at_next_offset ?t" "?o + ucast ?n = at_next_offset ?t" "?n = at_last_chunk_length ?t"
      and eq: "asset_last_chunk_equal s c" for oc tid tot no
  proof -
    obtain d where d: "xf_session a = Some (?i, at_payload_crc32 ?t, d)" "receiving ?t (tf_store s) (xf_durable a) d"
      using represents_active[OF r act(1)] act(2) by metis
    have lt: "unat (at_next_offset ?t) \<le> 8" using d(2) by (simp add: receiving_def u16_of_nat)
    have "unat ?o + unat ?n = unat (at_next_offset ?t)"
      using o(1) lt l(2) unfolding o(2)[symmetric] by (simp add: unat_word_ariths(1) word_less_nat_alt)
    note ch = chunk_again[OF d(2), of c ?o]
    have ch: "d = take (unat ?o) d @ c" "unat ?o \<le> length d"
      using ch l o(3) eq r \<open>unat ?o + unat ?n = _\<close> by (auto simp: asset_last_chunk_equal_def represents_def Let_def)
    have "xfer_step (X_write ?i (length (take (unat ?o) d)) c) ASSET_TRANSFER_STATUS_OK a a"
      by (rule write_again[where crc = "at_payload_crc32 ?t"]) (simp add: d(1) ch(1)[symmetric])
    then have "xfer_step q ASSET_TRANSFER_STATUS_OK a a" using ch(2) by (simp add: q_def)
    from answers_simple[OF represents_touch[OF r] this] show ?thesis .
  qed
  obtain p st where w: "asset_persistence_write_candidate hw (tf_store s) c = (p, st)" by fastforce
  have okp: "asset_map_persistence_result p = ASSET_TRANSFER_STATUS_OK \<longleftrightarrow> p = ASSET_PERSISTENCE_RESULT_OK"
    using write_not_unchanged[OF w] by (cases p) auto
  have wrote: "asset_map_persistence_result p = ASSET_TRANSFER_STATUS_OK \<Longrightarrow> answers q a (asset_send_simple (touch_activity now
       (asset_remember_chunk (s\<lparr>tf_store := st\<rparr>) c
        \<lparr>tf_session := (tf_session (asset_remember_chunk (s\<lparr>tf_store := st\<rparr>) c))\<lparr>at_next_offset := ?o + ucast ?n\<rparr>\<rparr>))
       f oc ASSET_TRANSFER_STATUS_OK tid tot no)"
    "asset_map_persistence_result p = ASSET_TRANSFER_STATUS_STORAGE_ERROR \<Longrightarrow>
       answers q a (asset_send_simple (asset_clear_session (s\<lparr>tf_store := st\<rparr>)) f oc ASSET_TRANSFER_STATUS_STORAGE_ERROR tid tot no)"
    if l: "length c = unat ?n" "unat ?n \<le> 32" "?n \<noteq> 0" and act: "at_active ?t" "at_transfer_id ?t = ?i"
      and o: "?o = at_next_offset ?t" "\<not> (8 :: u32) < ucast ?o + ucast ?n" for oc tid tot no
  proof -
    obtain d where d: "xf_session a = Some (at_transfer_id ?t, at_payload_crc32 ?t, d)" "receiving ?t (tf_store s) (xf_durable a) d"
      using represents_active[OF r act(1)] by metis
    have n0: "0 < length c" using l by (simp add: word_neq_0_conv word_less_nat_alt)
    have "unat ((ucast ?o :: u32) + ucast ?n) = unat ?o + unat ?n"
      using l(2) unat_u16_bound[of ?o] by (simp add: unat_word_ariths(1))
    then have fit: "unat ?o + length c \<le> 8" using o(2) l(1) by (simp add: word_less_nat_alt)
    have un: "(ucast ?n :: u16) = of_nat (length c)" by (simp add: l(1) unsigned_ucast_eq)
    note cw = chunk_wrote[OF r act(1) n0 _ fit o(1) hw w d, unfolded act(2)]
    have dl: "length d + length c \<le> 8" using cw(3) fit l by simp
    have s1: "xfer_step q ASSET_TRANSFER_STATUS_OK a (a\<lparr>xf_session := Some (?i, at_payload_crc32 ?t, d @ c)\<rparr>)"
      "xfer_step q ASSET_TRANSFER_STATUS_STORAGE_ERROR a (a\<lparr>xf_session := None\<rparr>)"
      using wrote[OF d(1) dl] write_failed[OF d(1), of c] cw(3) l act(2) by (simp_all add: q_def)
    show "answers q a (asset_send_simple (touch_activity now (asset_remember_chunk (s\<lparr>tf_store := st\<rparr>) c
        \<lparr>tf_session := (tf_session (asset_remember_chunk (s\<lparr>tf_store := st\<rparr>) c))\<lparr>at_next_offset := ?o + ucast ?n\<rparr>\<rparr>))
       f oc ASSET_TRANSFER_STATUS_OK tid tot no)" if "asset_map_persistence_result p = ASSET_TRANSFER_STATUS_OK"
      unfolding un using answers_simple[OF cw(1) s1(1)] that okp l by simp
    show "answers q a (asset_send_simple (asset_clear_session (s\<lparr>tf_store := st\<rparr>)) f oc ASSET_TRANSFER_STATUS_STORAGE_ERROR tid tot no)"
      if "asset_map_persistence_result p = ASSET_TRANSFER_STATUS_STORAGE_ERROR"
      using answers_simple[OF cw(2) s1(2)] that okp l by auto
  qed
  have same: "answers q a (asset_send_simple (s\<lparr>tf_store := st\<rparr>) f oc (asset_map_persistence_result p) tid tot no)"
    if "asset_map_persistence_result p \<noteq> ASSET_TRANSFER_STATUS_OK"
      "asset_map_persistence_result p \<noteq> ASSET_TRANSFER_STATUS_STORAGE_ERROR" for oc tid tot no
  proof -
    have "represents (s\<lparr>tf_store := st\<rparr>) a"
      using refused_write[OF w] that represents_refused[OF r] by auto
    from answers_simple[OF this refused[OF that(1)]] show ?thesis .
  qed
  have noint: "asset_map_persistence_result p \<noteq> ASSET_TRANSFER_STATUS_INTERNAL_ERROR" by (cases p) simp_all
  show ?thesis
    unfolding asset_handle_write_def Let_def c_def[symmetric] q_def[symmetric]
    using refuse again wrote same len noint
    by (auto simp: asset_write_candidate_def w split: if_splits)
qed

lemma commit_represents:
  assumes r: "represents s a" and act: "at_active (tf_session s)" and n: "at_next_offset (tf_session s) = 8"
    and c: "asset_persistence_commit_candidate hw (tf_store s) = (p, st)"
  shows "asset_map_persistence_result p = ASSET_TRANSFER_STATUS_OK \<Longrightarrow>
      \<exists>a'. xfer_step (X_commit (at_transfer_id (tf_session s))) ASSET_TRANSFER_STATUS_OK a a'
         \<and> represents (asset_finish_commit (s\<lparr>tf_store := st\<rparr>)) a'"
    "asset_map_persistence_result p \<noteq> ASSET_TRANSFER_STATUS_OK \<Longrightarrow>
      \<exists>a'. xfer_step (X_commit (at_transfer_id (tf_session s))) (asset_map_persistence_result p) a a'
         \<and> represents (asset_clear_session (s\<lparr>tf_store := st\<rparr>)) a'"
proof -
  let ?t = "tf_session s"
  obtain d where d: "xf_session a = Some (at_transfer_id ?t, at_payload_crc32 ?t, d)" "receiving ?t (tf_store s) (xf_durable a) d"
    using represents_active[OF r act] by metis
  obtain s0 where s0: "active_slot_ok s0" "xf_durable a \<longrightarrow> store_ok s0" "accepted s0 (tf_store s) (at_payload_crc32 ?t) d"
    using d(2) by (auto simp: receiving_def)
  have len: "length d = 8"
  proof -
    have "unat (at_next_offset ?t) = length d" using d(2) by (simp add: receiving_def u16_of_nat)
    then show ?thesis using n by simp
  qed
  have rr: "length (at_last_chunk ?t) = 8" "length (tf_wire s) = 62" using r by (simp_all add: represents_def Let_def)
  have old: "xf_committed a = in_force s0"
    using r unsealed_in_force[OF s0(1) accepted_unsealed[OF s0(3)]] by (simp add: represents_def Let_def)
  note e = commit_effect[OF s0(3,1) c]
  show "\<exists>a'. xfer_step (X_commit (at_transfer_id ?t)) ASSET_TRANSFER_STATUS_OK a a'
      \<and> represents (asset_finish_commit (s\<lparr>tf_store := st\<rparr>)) a'" if "asset_map_persistence_result p = ASSET_TRANSFER_STATUS_OK"
    using committed[OF d(1) len] e(1) e(2)[OF that] rr s0(2)
    by (intro exI[of _ "a\<lparr>xf_committed := Some d, xf_session := None, xf_last := Some (at_transfer_id ?t)\<rparr>"])
      (auto simp: represents_def asset_finish_commit_def Let_def)
  show "\<exists>a'. xfer_step (X_commit (at_transfer_id ?t)) (asset_map_persistence_result p) a a'
      \<and> represents (asset_clear_session (s\<lparr>tf_store := st\<rparr>)) a'" if "asset_map_persistence_result p \<noteq> ASSET_TRANSFER_STATUS_OK"
  proof -
    have "represents (asset_clear_session (s\<lparr>tf_session := ?t, tf_store := st\<rparr>))
        (a\<lparr>xf_session := None, xf_last := xf_last a, xf_durable := xf_durable a \<and> store_ok st\<rparr>)"
      by (rule cleared_store[OF r]) (use e(1) e(3)[OF that] old r rr(1) in \<open>auto simp: represents_def Let_def\<close>)
    then have "represents (asset_clear_session (s\<lparr>tf_store := st\<rparr>)) (a\<lparr>xf_session := None, xf_durable := xf_durable a \<and> store_ok st\<rparr>)"
      by (cases a) simp
    with commit_failed[OF d(1) len that, of "xf_durable a \<and> store_ok st"] show ?thesis by blast
  qed
qed

lemma commit_answers:
  assumes r: "represents s a"
  shows "answers (X_commit (rd16 (fv_payload f) 4)) a (asset_handle_commit hw s f)"
proof -
  let ?t = "tf_session s" and ?i = "rd16 (fv_payload f) 4"
  obtain p st where c: "asset_persistence_commit_candidate hw (tf_store s) = (p, st)" by fastforce
  have refuse: "st \<noteq> ASSET_TRANSFER_STATUS_OK \<Longrightarrow> answers q a (asset_send_response s rid oc st ot tid tot no 0)" for q rid oc st ot tid tot no
    using answers_send[OF r refused] by simp
  have again: "answers (X_commit ?i) a (asset_send_response s rid oc ASSET_TRANSFER_STATUS_OK ot tid tot no 0)"
    if "\<not> at_active ?t" "asset_last_commit_matches s ?i" for rid oc ot tid tot no
  proof -
    have "xf_last a = Some ?i" using that r
      by (auto simp: asset_last_commit_matches_def represents_def Let_def split: option.splits)
    from answers_send[OF r commit_again[OF represents_idle(1)[OF r that(1)] this], of 0] show ?thesis by simp
  qed
  have fin: "asset_map_persistence_result p = ASSET_TRANSFER_STATUS_OK \<Longrightarrow>
      answers (X_commit ?i) a (asset_send_response (asset_finish_commit (s\<lparr>tf_store := st\<rparr>)) rid oc ASSET_TRANSFER_STATUS_OK ot tid tot no 0)"
    "asset_map_persistence_result p \<noteq> ASSET_TRANSFER_STATUS_OK \<Longrightarrow>
      answers (X_commit ?i) a (asset_send_response (asset_clear_session (s\<lparr>tf_store := st\<rparr>)) rid oc (asset_map_persistence_result p) ot tid tot no 0)"
    if "at_active ?t" "at_transfer_id ?t = ?i" "at_next_offset ?t = 8" for rid oc ot tid tot no
    using commit_represents[OF r that(1,3) c] that(2) answers_send[where dl = 0 and q = "X_commit ?i" and a = a] by fastforce+
  show ?thesis
    unfolding asset_handle_commit_def Let_def using refuse again fin by (auto simp: c split: if_splits)
qed

lemma abort_answers:
  assumes r: "represents s a"
  shows "answers (X_abort (rd16 (fv_payload f) 4)) a (asset_handle_abort s f)"
proof -
  let ?t = "tf_session s" and ?i = "rd16 (fv_payload f) 4"
  have refuse: "st \<noteq> ASSET_TRANSFER_STATUS_OK \<Longrightarrow> answers q a (asset_send_simple s f oc st tid tot no)" for q oc st tid tot no
    using answers_simple[OF r refused] by simp
  have "answers (X_abort ?i) a (asset_send_simple s f oc ASSET_TRANSFER_STATUS_OK tid tot no)" if "\<not> at_active ?t" for oc tid tot no
    using answers_simple[OF r abort_nothing[OF represents_idle(1)[OF r that]]] .
  moreover have "answers (X_abort ?i) a (asset_send_simple (asset_clear_session s) f oc ASSET_TRANSFER_STATUS_OK tid tot no)"
    if "at_active ?t" "at_transfer_id ?t = ?i" for oc tid tot no
    using represents_active[OF r that(1)] answers_simple[OF represents_cleared[OF r] aborted] that(2) by metis
  ultimately show ?thesis
    unfolding asset_handle_abort_def Let_def using refuse by (auto split: if_splits)
qed

text \<open>The status request and the read have no effect on the object.\<close>

lemma any_status:
  "represents s a \<Longrightarrow> unat dl \<le> 32 \<Longrightarrow> answers X_query a (asset_send_response s rid oc st ot tid tot no dl)"
  using answers_send[of s a X_query st a dl] queried refused by (cases "st = ASSET_TRANSFER_STATUS_OK") auto

lemma status_answers:
  assumes r: "represents s a"
  shows "answers X_query a (asset_handle_status now s f)"
proof -
  have wire: "represents (s'\<lparr>tf_wire := store_at (tf_wire s') 28 (wr16 x @ wr16 y @ wr16 z @ wr16 u)\<rparr>) a"
    if "represents s' a" for s' x y z u
    using that by (intro represents_wire) (auto simp: represents_def Let_def)
  show ?thesis
    unfolding asset_handle_status_def Let_def
    using wire[OF r] wire[OF represents_touch[OF r]] by (auto split: if_splits intro!: any_status)
qed

lemma read_answers:
  assumes r: "represents s a"
  shows "answers X_query a (asset_handle_read s f)"
proof -
  have w: "length (tf_wire s) = 62" using r by (simp add: represents_def Let_def)
  have rep: "represents (s\<lparr>tf_wire := store_at (tf_wire s) 28 data\<rparr>) a"
    if "asset_persistence_read_active (tf_store s) off n = Some data" for off n data
  proof (rule represents_wire[OF r])
    have "length data \<le> 8" using that by (auto simp: asset_persistence_read_active_def split: if_splits)
    then show "length (store_at (tf_wire s) 28 data) = 62" using w by simp
  qed
  have le: "unat n \<le> 32" if "\<not> (8 :: u32) < ucast (o' :: u16) + ucast (n :: u8)" for o' n
  proof -
    have "unat n < 256" using unsigned_less[where w = n] by simp
    then have "unat ((ucast o' :: u32) + ucast n) = unat o' + unat n"
      using unat_u16_bound[of o'] by (simp add: unat_word_ariths(1))
    then show ?thesis using that by (simp add: word_less_nat_alt)
  qed
  show ?thesis
    unfolding asset_handle_read_def Let_def
    using rep le r by (auto split: if_splits option.splits intro!: any_status)
qed

section \<open>The protocol refines the replacement of an object\<close>

text \<open>What a well-formed request asks for; anything else is refused or only a question.\<close>

definition request_of :: "binary_frame_view \<Rightarrow> xfer_request" where
  "request_of f = (let p = fv_payload f; oc = p ! 1 in
     if unat (fv_payload_length f) < 2 then X_query
     else if oc = 1 then X_begin (rd16 p 4) (rd32 p 10)
     else if oc = 2 then X_write (rd16 p 4) (unat (rd16 p 6)) (take (unat (p ! 8)) (drop 10 p))
     else if oc = 3 then X_commit (rd16 p 4)
     else if oc = 4 then X_abort (rd16 p 4) else X_query)"

lemma respond_answers:
  assumes hw: "no_chance_record hw" and r: "represents s a" and v: "bf_view_ok f"
  shows "answers (request_of f) a (asset_transfer_respond hw now s f)"
proof -
  have refuse: "st \<noteq> ASSET_TRANSFER_STATUS_OK \<Longrightarrow> answers q a (asset_send_simple s f oc st tid tot no)" for q oc st tid tot no
    using answers_simple[OF r refused] by simp
  show ?thesis
    unfolding asset_transfer_respond_def request_of_def Let_def
    using refuse begin_answers[OF hw r] write_answers[OF hw r v] commit_answers[OF r] abort_answers[OF r]
      status_answers[OF r] read_answers[OF r]
    by (auto simp: word_less_nat_alt split: if_splits)
qed

text \<open>A client's frames, the periodic poll and a reset of the session, in any order.\<close>

datatype asset_event = Ev_frame binary_frame_view u32 | Ev_poll u32 | Ev_reset

fun asset_event_step :: "flash_hw \<Rightarrow> asset_transfer \<Rightarrow> asset_event \<Rightarrow> bytes option \<times> asset_transfer" where
  "asset_event_step hw s (Ev_frame f now) = (case asset_transfer_respond hw now s f of (w, s') \<Rightarrow> (Some w, s'))"
| "asset_event_step hw s (Ev_poll now) = (None, asset_transfer_poll now s)"
| "asset_event_step hw s Ev_reset = (None, asset_transfer_reset_session s)"

fun asset_events :: "flash_hw \<Rightarrow> asset_transfer \<Rightarrow> asset_event list \<Rightarrow> bytes option list \<times> asset_transfer" where
  "asset_events hw s [] = ([], s)"
| "asset_events hw s (e # es) = (case asset_event_step hw s e of (w, s1) \<Rightarrow>
     case asset_events hw s1 es of (ws, s2) \<Rightarrow> (w # ws, s2))"

fun event_request :: "asset_event \<Rightarrow> xfer_request" where
  "event_request (Ev_frame f now) = request_of f"
| "event_request (Ev_poll now) = X_idle"
| "event_request Ev_reset = X_reset"

text \<open>A run of the abstract machine that shows the same statuses.\<close>

inductive xfer_run :: "xfer \<Rightarrow> (asset_event \<times> bytes option) list \<Rightarrow> xfer \<Rightarrow> bool" where
  stop: "xfer_run a [] a"
| step: "xfer_step (event_request e) st a a1 \<Longrightarrow> (\<forall>w. r = Some w \<longrightarrow> w ! 12 = ucast (asset_status_code st)) \<Longrightarrow>
    xfer_run a1 t a2 \<Longrightarrow> xfer_run a ((e, r) # t) a2"

definition frames_ok :: "asset_event list \<Rightarrow> bool" where
  "frames_ok es \<longleftrightarrow> (\<forall>f now. Ev_frame f now \<in> set es \<longrightarrow> bf_view_ok f)"

lemma event_simulates:
  assumes hw: "no_chance_record hw" and r: "represents s a" and e: "asset_event_step hw s e = (w, s')"
    and v: "frames_ok (e # es)"
  shows "\<exists>st a'. xfer_step (event_request e) st a a' \<and> (\<forall>b. w = Some b \<longrightarrow> b ! 12 = ucast (asset_status_code st)) \<and> represents s' a'"
proof (cases e)
  case (Ev_frame f now)
  then have "bf_view_ok f" using v by (simp add: frames_ok_def)
  from respond_answers[OF hw r this, of now] show ?thesis
    using e Ev_frame by (auto simp: answers_def split: prod.splits)
next
  case (Ev_poll now)
  show ?thesis
  proof (cases "at_active (tf_session s) \<and> kernel_time_elapsed now (at_last_activity_ms (tf_session s)) 30000")
    case True
    then have "xf_session a \<noteq> None" using represents_active[OF r] by (metis option.distinct(1))
    from timed_out[OF this] show ?thesis
      using e Ev_poll True represents_cleared[OF r] by (auto simp: asset_transfer_poll_def)
  next
    case False
    then have "s' = s" using e Ev_poll by (auto simp: asset_transfer_poll_def)
    then show ?thesis using e Ev_poll r idled[of a] by auto
  qed
next
  case Ev_reset
  then show ?thesis using e was_reset[of a] represents_clear[OF r, of None] by (auto simp: asset_transfer_reset_session_def)
qed

text \<open>The state of the machine after a boot.\<close>

definition booted :: "asset_store \<Rightarrow> xfer" where
  "booted st = \<lparr>xf_committed = boot_payload st, xf_session = None, xf_last = None, xf_durable = True\<rparr>"

lemma boot_in_force: "store_ok s \<Longrightarrow> boot_payload s = in_force s"
  by (auto simp: in_force_eq boot_payload_eq store_ok_def asset_persistence_active_record_def)

lemma boot_represents:
  assumes "store_ok st" "length (tf_wire s) = 62" "length (at_last_chunk (tf_session s)) = 8" "tf_store s = st"
  shows "represents (asset_transfer_init s) (booted st)"
  using assms store_ok_active[OF assms(1)] boot_in_force[OF assms(1)]
  by (simp add: represents_def booted_def asset_transfer_init_def asset_clear_session_def asset_persistence_abort_candidate_def
      Let_def)

lemma events_simulate:
  assumes hw: "no_chance_record hw"
  shows "represents s a \<Longrightarrow> frames_ok es \<Longrightarrow> asset_events hw s es = (ws, s') \<Longrightarrow>
    \<exists>a'. xfer_run a (zip es ws) a' \<and> represents s' a'"
proof (induction es arbitrary: s a ws)
  case Nil
  then show ?case by (auto intro: xfer_run.intros)
next
  case (Cons e es)
  obtain w s1 where e: "asset_event_step hw s e = (w, s1)" by fastforce
  obtain ws' where es: "asset_events hw s1 es = (ws', s')" and ws: "ws = w # ws'"
    using Cons.prems(3) e by (auto split: prod.splits)
  from event_simulates[OF hw Cons.prems(1) e Cons.prems(2)] obtain st a1 where
    a1: "xfer_step (event_request e) st a a1" "\<forall>b. w = Some b \<longrightarrow> b ! 12 = ucast (asset_status_code st)" "represents s1 a1"
    by blast
  have "frames_ok es" using Cons.prems(2) by (simp add: frames_ok_def)
  from Cons.IH[OF a1(3) this es] obtain a' where "xfer_run a1 (zip es ws') a'" "represents s' a'" by blast
  then show ?case using a1 ws by (auto intro: xfer_run.step)
qed

text \<open>
  C9: The transfer protocol refines the abstract replacement of an object: whatever frames a
  client sends, however the poll and resets fall between them and whatever the flash controller
  does, the statuses sent are those of a run of the abstract machine, the payload in force is
  its committed object, and while no commit has failed the next boot finds that object.
\<close>
theorem transfer_refines_object_replacement:
  assumes "no_chance_record hw" "store_ok (tf_store s)" "frames_ok es"
    and "length (tf_wire s) = 62" "length (at_last_chunk (tf_session s)) = 8"
    and "asset_events hw (asset_transfer_init s) es = (ws, s')"
  shows "\<exists>a. xfer_run (booted (tf_store s)) (zip es ws) a \<and> in_force (tf_store s') = xf_committed a
    \<and> (xf_durable a \<longrightarrow> boot_payload (tf_store s') = xf_committed a)"
proof -
  obtain a where a: "xfer_run (booted (tf_store s)) (zip es ws) a" "represents s' a"
    using events_simulate[OF assms(1) boot_represents[OF assms(2,4,5) refl] assms(3,6)] by blast
  then have "in_force (tf_store s') = xf_committed a" "xf_durable a \<longrightarrow> store_ok (tf_store s')"
    by (simp_all add: represents_def Let_def)
  then show ?thesis using a(1) boot_in_force by auto
qed

definition fresh_transfer :: asset_transfer where
  "fresh_transfer = \<lparr>tf_session = \<lparr>at_last_activity_ms = 0, at_payload_crc32 = 0, at_transfer_id = 0, at_next_offset = 0,
      at_last_chunk_length = 0, at_active = False, at_last_chunk = replicate 8 0\<rparr>, tf_wire = replicate 62 0, tf_store = blank_store\<rparr>"

definition begin_frame :: binary_frame_view where
  "begin_frame = \<lparr>fv_version = 1, fv_frame_type = 3, fv_flags = 1, fv_reserved = 0, fv_request_id = 9, fv_payload_length = 16,
     fv_payload = [1, 1, 1, 0, 7, 0, 8, 0, 1, 0, 1, 2, 3, 4, 0, 0]\<rparr>"

theorem transfer_refines_object_replacement_witness:
  "\<exists>a. xfer_run (booted blank_store) (zip [Ev_frame begin_frame 5, Ev_poll 40000]
      (fst (asset_events working_hw (asset_transfer_init fresh_transfer) [Ev_frame begin_frame 5, Ev_poll 40000]))) a
    \<and> in_force (tf_store (snd (asset_events working_hw (asset_transfer_init fresh_transfer) [Ev_frame begin_frame 5, Ev_poll 40000])))
      = xf_committed a"
proof -
  have s: "tf_store fresh_transfer = blank_store" "length (tf_wire fresh_transfer) = 62"
    "length (at_last_chunk (tf_session fresh_transfer)) = 8" by (simp_all add: fresh_transfer_def)
  have f: "frames_ok [Ev_frame begin_frame 5, Ev_poll 40000]" by (auto simp: frames_ok_def begin_frame_def bf_view_ok_def)
  show ?thesis
    using transfer_refines_object_replacement[OF working_no_chance _ f s(2,3) prod.collapse[symmetric], unfolded s(1), OF blank_store_ok(1)]
    by blast
qed

end
