(* ===== verification/Asset_Answers.thy ===== *)
theory Asset_Answers
  imports Asset_Session
begin

unbundle bit_operations_syntax

text \<open>
  Every request frame is answered by one well-formed response frame that fits a USB packet, and
  only a request with the destructive flag can touch the store.
\<close>

section \<open>Every request is answered\<close>

definition response_for :: "binary_frame_view \<Rightarrow> u8 \<Rightarrow> binary_frame_view \<Rightarrow> bool" where
  "response_for f opcode v \<longleftrightarrow> bf_view_ok v \<and> fv_version v = 1 \<and> fv_frame_type v = BINARY_FRAME_TYPE_ASSET_TRANSFER_RESPONSE
     \<and> fv_request_id v = fv_request_id f \<and> 18 \<le> unat (fv_payload_length v) \<and> unat (fv_payload_length v) \<le> 50
     \<and> fv_payload v ! 0 = 1 \<and> fv_payload v ! 1 = opcode"

definition answered :: "binary_frame_view \<Rightarrow> u8 \<Rightarrow> bytes \<times> asset_transfer \<Rightarrow> bool" where
  "answered f opcode x \<longleftrightarrow> length (tf_wire (snd x)) = 62 \<and> (\<exists>v. fst x = bf_wire v \<and> response_for f opcode v)"

lemma opcode_bytes:
  "ucast (1 OR push_bit 8 (ucast (oc :: u8)) :: u16) = (1 :: u8)"
  "ucast (drop_bit 8 (1 OR push_bit 8 (ucast oc) :: u16)) = oc"
proof -
  have b: "bit (1 :: u16) n \<longleftrightarrow> n = 0" "bit (1 :: u8) n \<longleftrightarrow> n = 0" for n by (simp_all add: bit_1_iff)
  have e: "drop_bit 8 (1 OR push_bit 8 (ucast oc) :: u16) = ucast oc"
    by (rule bit_word_eqI) (auto simp: bit_simps b)
  show "ucast (1 OR push_bit 8 (ucast oc) :: u16) = (1 :: u8)"
    by (rule bit_word_eqI) (auto simp: bit_simps b)
  show "ucast (drop_bit 8 (1 OR push_bit 8 (ucast oc) :: u16)) = oc"
    unfolding e by (rule bit_word_eqI) (auto simp: bit_simps)
qed

lemma opcode_wr16: "wr16 (1 OR push_bit 8 (ucast (oc :: u8))) = [1, oc]"
  unfolding wr16_def opcode_bytes ..

lemma answered_send:
  assumes "length (tf_wire s) = 62" "unat dl \<le> 32"
  shows "answered f oc (asset_send_response s (fv_request_id f) oc st ot tid tot no dl)"
proof -
  let ?d = "take (unat dl) (drop 28 (tf_wire s))"
  obtain w' where w': "length w' = 62"
    "asset_send_response s (fv_request_id f) oc st ot tid tot no dl =
      (bf_wire (response_view s (fv_request_id f) oc st ot tid tot no ?d), s\<lparr>tf_wire := w'\<rparr>)"
    using send_response[OF assms] by metis
  have d: "length ?d \<le> 32" using assms(2) by simp
  let ?v = "response_view s (fv_request_id f) oc st ot tid tot no ?d"
  have n: "unat (fv_payload_length ?v) = 18 + length ?d"
    using d by (simp add: response_view_def Let_def unat_word_ariths(1) u16_of_nat)
  have "length (fv_payload ?v) = 18 + length ?d" by (simp add: response_view_def Let_def)
  moreover have "fv_payload ?v ! 0 = 1" "fv_payload ?v ! 1 = oc"
    by (simp_all add: response_view_def Let_def opcode_wr16)
  moreover have "fv_version ?v = 1" "fv_frame_type ?v = 0x85" "fv_request_id ?v = fv_request_id f"
    by (simp_all add: response_view_def Let_def)
  ultimately have "response_for f oc ?v" using n d by (simp add: response_for_def bf_view_ok_def)
  then show ?thesis unfolding answered_def w'(2) using w'(1) by auto
qed

lemma answered_simple:
  "length (tf_wire s) = 62 \<Longrightarrow> answered f oc (asset_send_simple s f oc st tid tot no)"
  unfolding asset_send_simple_def by (rule answered_send) simp_all

text \<open>A handler decides on a status and a state, then sends.\<close>

lemma answered_case:
  "length (tf_wire (snd x)) = 62 \<Longrightarrow> answered f oc (case x of (st, s') \<Rightarrow> asset_send_simple s' f oc (A st s') (B st s') (C st s') (D st s'))"
  "length (tf_wire (snd x)) = 62 \<Longrightarrow> answered f oc (case x of (st, s') \<Rightarrow>
     asset_send_response s' (fv_request_id f) oc (A st s') (B st s') (C st s') (D st s') (E st s') 0)"
  by (cases x; simp add: answered_simple answered_send)+

lemma session_wire [simp]:
  "tf_wire (asset_clear_session s) = tf_wire s" "tf_wire (touch_activity now s) = tf_wire s"
  "tf_wire (asset_finish_commit s) = tf_wire s" "tf_wire (asset_remember_chunk s c) = tf_wire s"
  by (simp_all add: asset_clear_session_def touch_activity_def asset_finish_commit_def asset_remember_chunk_def)

lemma write_wire: "asset_write_candidate hw s c = (st, s1) \<Longrightarrow> tf_wire s1 = tf_wire s"
  by (auto simp: asset_write_candidate_def split: prod.splits)

lemma handlers_answer:
  assumes w: "length (tf_wire s) = 62"
  shows "answered f 1 (asset_handle_begin hw now s f)" "answered f 2 (asset_handle_write hw now s f)"
    "answered f 3 (asset_handle_commit hw s f)" "answered f 4 (asset_handle_abort s f)"
    "answered f 5 (asset_handle_status now s f)"
proof -
  show "answered f 1 (asset_handle_begin hw now s f)"
    unfolding asset_handle_begin_def Let_def
    by (rule answered_case(1)) (use w in \<open>auto split: prod.split\<close>)
  show "answered f 2 (asset_handle_write hw now s f)"
    unfolding asset_handle_write_def Let_def
    by (rule answered_case(1)) (use w in \<open>auto split: prod.split dest: write_wire\<close>)
  show "answered f 3 (asset_handle_commit hw s f)"
    unfolding asset_handle_commit_def Let_def
    by (rule answered_case(2)) (use w in \<open>auto split: prod.split\<close>)
  show "answered f 4 (asset_handle_abort s f)"
    unfolding asset_handle_abort_def Let_def
    by (rule answered_case(1)) (use w in \<open>auto split: prod.split\<close>)
  show "answered f 5 (asset_handle_status now s f)"
    unfolding asset_handle_status_def Let_def using w by (auto intro!: answered_send split: prod.split)
qed

lemma read_fits:
  assumes "\<not> (8 :: u32) < ucast (off :: u16) + ucast (n :: u8)"
  shows "unat off + unat n \<le> 8"
proof -
  have "unat n < 256" using unsigned_less[where w = n] by simp
  then have "unat ((ucast off :: u32) + ucast n) = unat off + unat n"
    using unat_u16_bound[of off] by (simp add: unat_word_ariths(1))
  then show ?thesis using assms by (simp add: word_less_nat_alt)
qed

lemma read_answer:
  assumes w: "length (tf_wire s) = 62"
  shows "answered f 6 (asset_handle_read s f)"
proof -
  have l: "length (store_at (tf_wire s) 28 data) = 62" if "asset_persistence_read_active st off n = Some data" for st off n data
  proof -
    have "length data \<le> 8" using that by (auto simp: asset_persistence_read_active_def split: if_splits)
    then show ?thesis using w by simp
  qed
  have le: "unat n \<le> 32" if "\<not> (8 :: u32) < ucast (o' :: u16) + ucast (n :: u8)" for o' n
    using read_fits[OF that] by simp
  show ?thesis
    unfolding asset_handle_read_def Let_def using w l le
    by (auto split: prod.splits if_splits option.splits intro!: answered_send)
qed

definition request_opcode :: "binary_frame_view \<Rightarrow> u8" where
  "request_opcode f = (if fv_payload_length f \<ge> 2 then fv_payload f ! 1 else 0)"

lemma respond_answered:
  assumes w: "length (tf_wire s) = 62"
  shows "answered f (request_opcode f) (asset_transfer_respond hw now s f)"
  unfolding asset_transfer_respond_def Let_def request_opcode_def
  using handlers_answer[OF w] read_answer[OF w] answered_simple[OF w]
  by (auto split: if_splits)

text \<open>A frame without room for version and opcode is malformed.\<close>

lemma short_malformed:
  assumes w: "length (tf_wire s) = 62" and l: "fv_payload_length f < 2"
  shows "\<exists>v. fst (asset_transfer_respond hw now s f) = bf_wire v \<and> response_for f 0 v \<and> fv_payload v ! 2 = 1"
proof -
  have r: "asset_transfer_respond hw now s f = asset_send_simple s f 0 ASSET_TRANSFER_STATUS_MALFORMED 0 0 0"
    using l not_le[of 2 "fv_payload_length f"] by (simp add: asset_transfer_respond_def Let_def)
  let ?v = "response_view s (fv_request_id f) 0 ASSET_TRANSFER_STATUS_MALFORMED OLED_UI_LAYOUT_CONFIG_V1_OBJECT_TYPE 0 0 0 []"
  have z: "unat (0 :: u8) \<le> 32" by simp
  have f: "fst (asset_transfer_respond hw now s f) = bf_wire ?v"
    unfolding r asset_send_simple_def
    by (rule send_response[OF w z, of "fv_request_id f" 0 ASSET_TRANSFER_STATUS_MALFORMED OLED_UI_LAYOUT_CONFIG_V1_OBJECT_TYPE 0 0 0]) simp
  have "ucast (1 OR push_bit 8 (x :: u16)) = (1 :: u8)" for x
    by (rule bit_word_eqI) (auto simp: bit_simps bit_1_iff)
  then have "fv_payload ?v ! 2 = 1" by (simp add: response_view_def Let_def opcode_wr16) (simp add: wr16_def)
  moreover have "wr16 1 = [1, 0]" using opcode_wr16[of 0] by simp
  then have "response_for f 0 ?v" by (simp add: response_for_def bf_view_ok_def response_view_def Let_def)
  ultimately show ?thesis using f by blast
qed

text \<open>A response is received as it was sent.\<close>

lemma response_received:
  assumes v: "response_for f oc v" and p: "bp_state p = BINARY_FRAME_PARSER_IDLE" "bf_arrays p"
  obtains p' u where "length (bf_wire v) \<le> 62" "binary_frame_feed_all p (bf_wire v) =
      (p', replicate (length (bf_wire v) - 1) (BINARY_FRAME_FEED_CONSUMED, None) @ [(BINARY_FRAME_FEED_FRAME_READY, Some u)])"
    "fv_frame_type u = 0x85" "fv_request_id u = fv_request_id f" "fv_payload u ! 1 = oc" "fv_payload u ! 2 = fv_payload v ! 2"
proof -
  have ok: "bf_view_ok v" "18 \<le> unat (fv_payload_length v)" using v by (simp_all add: response_for_def)
  have len: "length (bf_wire v) = 12 + unat (fv_payload_length v)"
    using ok by (simp add: bf_wire_def bf_body_def bf_view_ok_def)
  obtain p' u where u: "binary_frame_feed_all p (bf_wire v) = (p', replicate (11 + unat (fv_payload_length v))
      (BINARY_FRAME_FEED_CONSUMED, None) @ [(BINARY_FRAME_FEED_FRAME_READY, Some u)])" "bf_view_ok u" "bf_body u = bf_body v"
    using parser_receives_wire[OF disjI1[OF p(1)] p(2) ok(1)] by auto
  note inj = bf_body_inject[OF u(3)]
  have "fv_payload u ! k = fv_payload v ! k" if "k < 18" for k
  proof -
    have "fv_payload u ! k = take (unat (fv_payload_length u)) (fv_payload u) ! k" using inj ok(2) that by simp
    also have "\<dots> = take (unat (fv_payload_length v)) (fv_payload v) ! k"
      using inj by (elim conjE) (rule arg_cong[where f = "\<lambda>xs. xs ! k"])
    also have "\<dots> = fv_payload v ! k" using ok(2) that by simp
    finally show ?thesis .
  qed
  from this[of 1] this[of 2] have "fv_payload u ! 1 = oc" "fv_payload u ! 2 = fv_payload v ! 2" using v by (simp_all add: response_for_def)
  moreover have "length (bf_wire v) \<le> 62" using v len by (simp add: response_for_def)
  moreover have "11 + unat (fv_payload_length v) = length (bf_wire v) - 1" using len by simp
  ultimately show thesis using that[of p' u] u(1) inj v by (simp add: response_for_def)
qed

text \<open>
  C37: Every asset transfer frame is answered at once, whatever its payload: the callback gets
  exactly one frame, of at most 62 bytes, whose checksum, type and lengths are right: a host
  parser that is idle receives from it a response with the same request id and the opcode of the
  request. A frame too short for an opcode is answered with opcode 0 and the status for a
  malformed request. The response buffer keeps its size, and the handler returns what the
  callback returned.
\<close>
theorem asset_request_is_answered:
  assumes w: "length (tf_wire s) = 62" and p: "bp_state p = BINARY_FRAME_PARSER_IDLE" "bf_arrays p"
    and h: "asset_transfer_handle_frame hw now s (Some f) (Some send) = (result, s')"
  shows "\<exists>wire p' v. result = send wire \<and> length wire \<le> 62 \<and> length (tf_wire s') = 62
    \<and> binary_frame_feed_all p wire = (p', replicate (length wire - 1) (BINARY_FRAME_FEED_CONSUMED, None)
         @ [(BINARY_FRAME_FEED_FRAME_READY, Some v)])
    \<and> fv_frame_type v = 0x85 \<and> fv_request_id v = fv_request_id f
    \<and> (if unat (fv_payload_length f) < 2 then fv_payload v ! 1 = 0 \<and> fv_payload v ! 2 = ucast (asset_status_code ASSET_TRANSFER_STATUS_MALFORMED)
       else fv_payload v ! 1 = fv_payload f ! 1)"
proof -
  note a = respond_answered[OF w, of f hw now]
  have n: "unat (fv_payload_length f) < 2 \<longleftrightarrow> fv_payload_length f < 2" by (simp add: word_less_nat_alt)
  obtain v where v: "result = send (bf_wire v)" "length (tf_wire s') = 62" "response_for f (request_opcode f) v"
      "fv_payload_length f < 2 \<longrightarrow> fv_payload v ! 2 = 1"
  proof (cases "fv_payload_length f < 2")
    case True
    obtain v where "fst (asset_transfer_respond hw now s f) = bf_wire v" "response_for f 0 v" "fv_payload v ! 2 = 1"
      using short_malformed[OF w True] by blast
    then show thesis using h a that[of v] True not_le[of 2 "fv_payload_length f"]
      by (auto simp: asset_transfer_handle_frame_def answered_def request_opcode_def split: prod.splits)
  next
    case False
    then show thesis using h a that by (auto simp: asset_transfer_handle_frame_def answered_def split: prod.splits)
  qed
  obtain p' u where u: "length (bf_wire v) \<le> 62" "binary_frame_feed_all p (bf_wire v) =
      (p', replicate (length (bf_wire v) - 1) (BINARY_FRAME_FEED_CONSUMED, None) @ [(BINARY_FRAME_FEED_FRAME_READY, Some u)])"
    "fv_frame_type u = 0x85" "fv_request_id u = fv_request_id f" "fv_payload u ! 1 = request_opcode f" "fv_payload u ! 2 = fv_payload v ! 2"
    using response_received[OF v(3) p] by metis
  have "if unat (fv_payload_length f) < 2 then fv_payload u ! 1 = 0 \<and> fv_payload u ! 2 = ucast (asset_status_code ASSET_TRANSFER_STATUS_MALFORMED)
       else fv_payload u ! 1 = fv_payload f ! 1"
    using u(5,6) v(4) unfolding n request_opcode_def by auto
  then show ?thesis using u(1-4) v(1,2) by blast
qed

text \<open>A request, and one byte of a request.\<close>

theorem asset_request_is_answered_witness:
  "(\<exists>wire p' v. fst (asset_transfer_handle_frame working_hw 5 fresh_transfer (Some begin_frame) (Some (\<lambda>w. length w = 30))) = (length wire = 30)
    \<and> binary_frame_feed_all idle_parser wire = (p', replicate (length wire - 1) (BINARY_FRAME_FEED_CONSUMED, None)
         @ [(BINARY_FRAME_FEED_FRAME_READY, Some v)]) \<and> fv_request_id v = 9 \<and> fv_payload v ! 1 = 1)
   \<and> (\<exists>wire p' v. fst (asset_transfer_handle_frame working_hw 5 fresh_transfer (Some (begin_frame\<lparr>fv_payload_length := 1, fv_payload := [1]\<rparr>)) (Some (\<lambda>w. length w = 30)))
       = (length wire = 30)
    \<and> binary_frame_feed_all idle_parser wire = (p', replicate (length wire - 1) (BINARY_FRAME_FEED_CONSUMED, None)
         @ [(BINARY_FRAME_FEED_FRAME_READY, Some v)]) \<and> fv_request_id v = 9 \<and> fv_payload v ! 1 = 0 \<and> fv_payload v ! 2 = 1)"
proof -
  have w: "length (tf_wire fresh_transfer) = 62" by (simp add: fresh_transfer_def)
  define short where "short = begin_frame\<lparr>fv_payload_length := 1, fv_payload := [1]\<rparr>"
  have f: "unat (fv_payload_length begin_frame) = 16" "fv_request_id begin_frame = 9" "fv_payload begin_frame ! 1 = 1"
    "unat (fv_payload_length short) = 1" "fv_request_id short = 9"
    by (simp_all add: begin_frame_def short_def)
  note t = asset_request_is_answered[OF w idle_parser_ok(2,1) prod.collapse[symmetric], of working_hw 5 _ "\<lambda>w. length w = 30"]
  show ?thesis
    unfolding short_def[symmetric]
  proof (rule conjI, goal_cases)
    case 1
    show ?case using t[of begin_frame, unfolded f(1-3)] by simp blast
  next
    case 2
    show ?case using t[of short, unfolded f(4,5)] by simp blast
  qed
qed

end
