(* ===== verification/Asset_Progress.thy ===== *)
theory Asset_Progress
  imports Asset_Service
begin

unbundle bit_operations_syntax

text \<open>
  With a flash controller that works, an update that the policy admits goes through: no
  guard of the driver, no check of the record and no readback stands in its way.
\<close>

section \<open>A controller that works\<close>

lemma works_execute:
  assumes "flash_works hw"
  obtains f' where "flash_execute hw f a v op = (True, f')" "fs_mem f' = flash_effect (hw (fs_ops f)) (fs_mem f) a v op"
proof -
  obtain ok f' where x: "flash_execute hw f a v op = (ok, f')" by fastforce
  have ok: ok
    using x assms unfolding flash_execute_def flash_wait_ready_def flash_wait_loop_iff flash_works_def Let_def
    by (auto split: if_splits)
  then show thesis using that x flash_execute_mem[OF x] by auto
qed

text \<open>Erased bytes of a page.\<close>

definition blank_at :: "asset_store \<Rightarrow> u32 \<Rightarrow> nat set \<Rightarrow> bool" where
  "blank_at s t I \<longleftrightarrow> (\<forall>i \<in> I. flash_page (mem_of s) t i = 0xFF)"

lemma owned:
  assumes "is_slot t" "even k" "k + 1 < 1024"
  shows "flash_address_owned (t + of_nat k)"
proof -
  have u: "unat (t + of_nat k) = unat t + k" using flash_offset assms by (simp add: is_slot_def)
  obtain m where m: "k = 2 * m" using assms(2) by blast
  have "t = 2 * 0x04007C00 \<or> t = 2 * 0x04007E00" using assms(1) by (auto simp: is_slot_def)
  then have "even (t + of_nat k)" unfolding m by auto
  then have "(t + of_nat k) AND 1 = 0" by (simp add: and_one_eq even_iff_mod_2_eq_zero)
  moreover have "unat t = 0x0800F800 \<or> unat t = 0x0800FC00" using assms(1) by (auto simp: is_slot_def)
  ultimately show ?thesis using u assms(3) by (auto simp: flash_address_owned_def word_le_nat_alt word_less_nat_alt)
qed

lemma works_program:
  assumes hw: "flash_works hw" and t: "is_slot (ac_slot_address (as_candidate s))" and k: "even k" "k + 1 < 1024"
    and b: "blank_at s (ac_slot_address (as_candidate s)) {k, k + 1}"
  obtains s' where "asset_program hw s k v = (True, s')"
proof -
  let ?t = "ac_slot_address (as_candidate s)" and ?f = "as_flash s"
  have e: "?t + of_nat k + 1 = ?t + of_nat (k + 1)" by (simp add: add.assoc)
  have ff: "ucast (0xFFFF :: u16) = (0xFF :: u8)" "ucast (drop_bit 8 (0xFFFF :: u16)) = (0xFF :: u8)" by simp_all
  have r: "read_u16 (fs_mem ?f) (?t + of_nat k) = 0xFFFF"
    unfolding read_u16_eq ff e using b by (simp add: blank_at_def flash_page_def)
  obtain f' where x: "flash_execute hw ?f (?t + of_nat k) v FLASH_PERSISTENCE_OP_PROGRAM = (True, f')"
    "fs_mem f' = flash_effect (hw (fs_ops ?f)) (fs_mem ?f) (?t + of_nat k) v FLASH_PERSISTENCE_OP_PROGRAM"
    using works_execute[OF hw] .
  have "read_u16 (fs_mem f') (?t + of_nat k) = v"
    using hw x(2) by (simp add: read_u16_eq flash_effect_def flash_works_def)
  then have "fst (flash_persistence_program_halfword hw ?f (?t + of_nat k) v)"
    using owned[OF t k] r x(1) by (simp add: flash_persistence_program_halfword_def)
  then have "fst (asset_program hw s k v)" by (simp add: asset_program_def split_beta)
  then show thesis using that by (metis prod.collapse)
qed

lemma works_erase:
  assumes hw: "flash_works hw" and t: "is_slot t"
  obtains f' where "flash_persistence_erase_page hw f t = (True, f')"
proof -
  obtain f' where x: "flash_execute hw f t 0 FLASH_PERSISTENCE_OP_ERASE = (True, f')"
    "fs_mem f' = flash_effect (hw (fs_ops f)) (fs_mem f) t 0 FLASH_PERSISTENCE_OP_ERASE"
    using works_execute[OF hw] .
  have pg: "flash_page (fs_mem f') t i = 0xFF" if "i < 1024" for i
    using flash_effect_erase[OF t t that] x(2) hw by (simp add: flash_works_def)
  have ff: "ucast (0xFFFF :: u16) = (0xFF :: u8)" "ucast (drop_bit 8 (0xFFFF :: u16)) = (0xFF :: u8)" by simp_all
  have "read_u16 (fs_mem f') (t + of_nat (2 * k)) = 0xFFFF" if "k < 512" for k
  proof -
    have e: "t + of_nat (2 * k) + 1 = t + of_nat (2 * k + 1)" by (simp add: add.assoc)
    show ?thesis unfolding read_u16_eq ff e using pg[of "2 * k"] pg[of "2 * k + 1"] that by (simp add: flash_page_def)
  qed
  then show thesis using that[of f'] x(1) t by (auto simp: flash_persistence_erase_page_def is_slot_def)
qed

section \<open>A candidate with its unwritten bytes erased\<close>

abbreviation unwritten :: "nat \<Rightarrow> nat set" where
  "unwritten w \<equiv> {24..<64} \<union> {64 + w..<72}"

definition open_record :: "asset_store \<Rightarrow> asset_store \<Rightarrow> u32 \<Rightarrow> bytes \<Rightarrow> bool" where
  "open_record s0 s crc data \<longleftrightarrow> writing s0 s crc data
     \<and> blank_at s (update_slot s0) (unwritten (2 * (length data div 2)))"

lemma blank_touches:
  assumes "touches s s' t I" "blank_at s t J" "is_slot t" "J \<subseteq> {0..<1024}" "K \<subseteq> J - I"
  shows "blank_at s' t K"
  using assms by (auto simp: touches_def blank_at_def subset_iff)

lemma works_words:
  assumes hw: "flash_works hw"
  shows "is_slot (ac_slot_address (as_candidate s)) \<Longrightarrow> even off \<Longrightarrow> off + 2 * length ws \<le> 1024 \<Longrightarrow>
    blank_at s (ac_slot_address (as_candidate s)) {off..<off + 2 * length ws} \<Longrightarrow>
    fst (program_words hw s off ws)"
proof (induction ws arbitrary: s off)
  case (Cons w ws)
  let ?t = "ac_slot_address (as_candidate s)"
  have b: "blank_at s ?t {off, off + 1}" using Cons.prems(4) by (auto simp: blank_at_def)
  have k: "off + 1 < 1024" using Cons.prems(3) by simp
  obtain s1 where p: "asset_program hw s off w = (True, s1)" using works_program[OF hw Cons.prems(1,2) k b] .
  note st = asset_program_step[OF Cons.prems(1) k p]
  have "blank_at s1 ?t {off + 2..<off + 2 + 2 * length ws}"
    by (rule blank_touches[OF st(1) Cons.prems(4,1)]) (use Cons.prems(3) in auto)
  then have "fst (program_words hw s1 (off + 2) ws)"
    using Cons.prems(1,2,3) st(2) by (intro Cons.IH) simp_all
  then show ?case using p by simp
qed simp

text \<open>Starting a candidate succeeds while the wear budget lasts.\<close>

lemma works_start_changed:
  assumes hw: "flash_works hw" and room: "room s"
    and c: "ac_payload_crc32 (as_candidate s) = crc" "ac_active (as_candidate s)"
  obtains s' where "asset_start_changed hw s = (ASSET_PERSISTENCE_RESULT_OK, s')" "open_record s s' crc []"
proof -
  let ?t = "update_slot s"
  note t = update_slot_is(1)[of s]
  obtain r s' where st: "asset_start_changed hw s = (r, s')" by fastforce
  let ?s1 = "s\<lparr>as_candidate := (as_candidate s)\<lparr>ac_slot_address := ?t, ac_generation := next_generation s,
      ac_accepted_bytes := 0, ac_pending_valid := False, ac_compare_active := False\<rparr>,
      as_last_mutation_cycles := flash_persistence_cycle_count hw (as_flash s)\<rparr>"
  obtain f where e: "flash_persistence_erase_page hw (as_flash s) ?t = (True, f)" using works_erase[OF hw t] .
  let ?s2 = "?s1\<lparr>as_flash := f\<rparr>"
  obtain ok3 s3 where w: "program_words hw ?s2 0 (metadata_words (next_generation s) crc) = (ok3, s3)" by fastforce
  have b2: "blank_at ?s2 ?t {0..<1024}" using erase_page_step(3)[OF t e] by (simp add: blank_at_def)
  have "fst (program_words hw ?s2 0 (metadata_words (next_generation s) crc))"
    by (rule works_words[OF hw]) (use t b2 in \<open>auto simp: blank_at_def\<close>)
  then have ok3: ok3 using w by simp
  have T: "(if ar_slot_address (as_active s) \<noteq> 0 \<and> ar_slot_address (as_active s) = FLASH_PERSISTENCE_SLOT_A_ADDRESS
      then FLASH_PERSISTENCE_SLOT_B_ADDRESS else FLASH_PERSISTENCE_SLOT_A_ADDRESS) = ?t"
    and G: "(if ar_slot_address (as_active s) \<noteq> 0 then ar_generation (as_active s) + 1 else 1) = next_generation s"
    by (simp_all add: update_slot_def next_generation_def)
  have nw: "\<not> (ar_slot_address (as_active s) \<noteq> 0 \<and> ar_generation (as_active s) \<ge> 10000)"
    using room by (auto simp: room_def asset_persistence_active_record_def)
  have eq: "r = ASSET_PERSISTENCE_RESULT_OK" "s' = s3"
    using st e w c(1) ok3 nw unfolding asset_start_changed_def Let_def T G by (auto simp: asset_program_metadata_def)
  have "writing s s3 crc []"
    using start_changed_step(1)[OF refl refl c(2,1) st] eq by simp
  moreover have "touches ?s2 s3 ?t {0..<24}" using program_words_step[OF _ _ w] t by simp
  then have "blank_at s3 ?t (unwritten 0)" by (rule blank_touches[OF _ b2 t]) auto
  ultimately show thesis using that st eq by (simp add: open_record_def)
qed

text \<open>Payload halfwords go in.\<close>

lemma works_payload:
  assumes hw: "flash_works hw" and o: "open_record s0 s crc data" and n: "n = 2 * (length data div 2)" "n < 8"
  obtains s1 where "asset_program_payload_halfword hw s n v = (ASSET_PERSISTENCE_RESULT_OK, s1)"
    "blank_at s1 (update_slot s0) (unwritten (n + 2))"
proof -
  let ?t = "update_slot s0"
  note t = update_slot_is(1)[of s0]
  have c: "ac_slot_address (as_candidate s) = ?t" "blank_at s ?t (unwritten n)"
    using o n by (simp_all add: open_record_def writing_def Let_def)
  have b: "blank_at s ?t {64 + n, 64 + n + 1}" using c(2) n by (auto simp: blank_at_def)
  have k: "even (64 + n)" "64 + n + 1 < 1024" using n by auto
  have isl: "is_slot (ac_slot_address (as_candidate s))" using c(1) t by simp
  obtain s1 where p: "asset_program hw s (64 + n) v = (True, s1)"
    using works_program[OF hw isl k, of v] b c(1) by metis
  have "blank_at s1 ?t (unwritten (n + 2))"
    by (rule blank_touches[OF asset_program_step(1)[OF isl k(2) p, unfolded c(1)] c(2) t]) (use n in auto)
  then show thesis using that p by (simp add: asset_program_payload_halfword_def)
qed

lemma halfword_open:
  assumes hw: "flash_works hw" and o: "open_record s0 s crc data" and n: "n = 2 * (length data div 2)" "n < 8"
  obtains s1 where "asset_program_payload_halfword hw s n (ucast a OR push_bit 8 (ucast (b :: u8))) = (ASSET_PERSISTENCE_RESULT_OK, s1)"
    "as_candidate s1 = as_candidate s"
    "\<And>s2. as_flash s2 = as_flash s1 \<Longrightarrow> as_active s2 = as_active s1 \<Longrightarrow>
      as_candidate s2 = (as_candidate s)\<lparr>ac_accepted_bytes := n + 2, ac_pending_valid := False\<rparr> \<Longrightarrow>
      open_record s0 s2 crc (take n data @ [a, b])"
proof -
  obtain s1 where p: "asset_program_payload_halfword hw s n (ucast a OR push_bit 8 (ucast b)) = (ASSET_PERSISTENCE_RESULT_OK, s1)"
    "blank_at s1 (update_slot s0) (unwritten (n + 2))" using works_payload[OF hw o n] .
  have w: "writing s0 s crc data" using o by (simp add: open_record_def)
  have l: "2 * (length (take n data @ [a, b]) div 2) = n + 2" using n by auto
  have "open_record s0 s2 crc (take n data @ [a, b])" if "as_flash s2 = as_flash s1" "as_active s2 = as_active s1"
      "as_candidate s2 = (as_candidate s)\<lparr>ac_accepted_bytes := n + 2, ac_pending_valid := False\<rparr>" for s2
    using halfword_written[OF w n p(1) that] p(2) that(1) unfolding open_record_def l by (simp add: blank_at_def)
  then show thesis using that p(1) payload_step(1)[OF w n p(1)] by blast
qed

lemma pending_open:
  assumes "open_record s0 s crc data" "even (length data)" "length data < 8"
  shows "open_record s0 (set_pending s b) crc (data @ [b])"
proof -
  have "2 * (length (data @ [b]) div 2) = 2 * (length data div 2)" using assms(2) by simp
  then show ?thesis using assms set_pending_written[of s0 s crc data b]
    by (simp add: open_record_def blank_at_def set_pending_def)
qed

lemma works_pairs:
  assumes hw: "flash_works hw"
  shows "open_record s0 s crc data \<Longrightarrow> even (length data) \<Longrightarrow> length data + length ds \<le> 8 \<Longrightarrow>
    \<exists>s'. write_pairs hw s ds = (ASSET_PERSISTENCE_RESULT_OK, s') \<and> open_record s0 s' crc (data @ ds)"
proof (induction ds arbitrary: s data rule: length_induct)
  case (1 ds)
  consider "ds = []" | a where "ds = [a]" | a b rest where "ds = a # b # rest" by (metis neq_Nil_conv)
  then show ?case
  proof cases
    case 1
    then show ?thesis using "1.prems" by simp
  next
    case (2 a)
    then show ?thesis using pending_open[of s0 s crc data a] "1.prems" by simp
  next
    case (3 a b rest)
    let ?n = "length data"
    have n: "?n = 2 * (length data div 2)" "?n < 8" "ac_accepted_bytes (as_candidate s) = ?n" "\<not> ac_pending_valid (as_candidate s)"
      using "1.prems" 3 by (auto simp: open_record_def writing_def Let_def)
    obtain s1 where p: "asset_program_payload_halfword hw s ?n (ucast a OR push_bit 8 (ucast b)) = (ASSET_PERSISTENCE_RESULT_OK, s1)"
      and c: "as_candidate s1 = as_candidate s"
      and op: "\<And>s2. as_flash s2 = as_flash s1 \<Longrightarrow> as_active s2 = as_active s1 \<Longrightarrow>
        as_candidate s2 = (as_candidate s)\<lparr>ac_accepted_bytes := ?n + 2, ac_pending_valid := False\<rparr> \<Longrightarrow>
        open_record s0 s2 crc (take ?n data @ [a, b])"
      using halfword_open[OF hw "1.prems"(1) n(1,2)] by blast
    let ?s2 = "set_accepted s1 (ac_accepted_bytes (as_candidate s1) + 2)"
    have "open_record s0 ?s2 crc (data @ [a, b])"
      using op[of ?s2] c n(3,4) by (simp add: set_accepted_def)
    then have "\<exists>s'. write_pairs hw ?s2 rest = (ASSET_PERSISTENCE_RESULT_OK, s') \<and> open_record s0 s' crc ((data @ [a, b]) @ rest)"
      using "1.IH"[rule_format, of rest ?s2 "data @ [a, b]"] 3 "1.prems"(2,3) by simp
    then show ?thesis using 3 p n(3) by simp
  qed
qed

lemma works_payload_bytes:
  assumes hw: "flash_works hw" and o: "open_record s0 s crc data" and l: "length data + length ds \<le> 8"
  shows "\<exists>s'. asset_write_payload_bytes hw s ds = (ASSET_PERSISTENCE_RESULT_OK, s') \<and> open_record s0 s' crc (data @ ds)"
proof (cases "ac_pending_valid (as_candidate s) \<and> ds \<noteq> []")
  case False
  have e: "ac_pending_valid (as_candidate s) = odd (length data)" using o by (simp add: open_record_def writing_def Let_def)
  show ?thesis
  proof (cases "ds = []")
    case True
    then show ?thesis using o by (simp add: asset_write_payload_bytes_def)
  next
    case False
    then show ?thesis
      using works_pairs[OF hw o _ l] e \<open>\<not> (_ \<and> _)\<close> by (simp add: asset_write_payload_bytes_def)
  qed
next
  case True
  let ?n = "length data - 1"
  have odd: "odd (length data)" "ac_pending_byte (as_candidate s) = last data" "ac_accepted_bytes (as_candidate s) = length data"
    using True o by (auto simp: open_record_def writing_def Let_def)
  obtain d rest where ds: "ds = d # rest" using True by (cases ds) auto
  have n: "?n = 2 * (length data div 2)" "?n < 8" using odd(1) l by (presburger, simp add: ds)
  have ne: "data \<noteq> []" using odd(1) by auto
  have split: "take ?n data @ [last data] = data" using ne by (metis append_butlast_last_id butlast_conv_take)
  obtain s1 where p: "asset_program_payload_halfword hw s ?n (ucast (last data) OR push_bit 8 (ucast d)) = (ASSET_PERSISTENCE_RESULT_OK, s1)"
    and c: "as_candidate s1 = as_candidate s"
    and op: "\<And>s2. as_flash s2 = as_flash s1 \<Longrightarrow> as_active s2 = as_active s1 \<Longrightarrow>
        as_candidate s2 = (as_candidate s)\<lparr>ac_accepted_bytes := ?n + 2, ac_pending_valid := False\<rparr> \<Longrightarrow>
        open_record s0 s2 crc (take ?n data @ [last data, d])"
    using halfword_open[OF hw o n] by blast
  let ?s2 = "s1\<lparr>as_candidate := (as_candidate s1)\<lparr>ac_pending_valid := False,
                  ac_accepted_bytes := ac_accepted_bytes (as_candidate s1) + 1\<rparr>\<rparr>"
  have "length data + 1 = ?n + 2" using ne by (simp add: Suc_le_eq)
  then have "open_record s0 ?s2 crc (take ?n data @ [last data, d])" using op[of ?s2] c odd(3) by simp
  then have o2: "open_record s0 ?s2 crc (data @ [d])" using split by (metis append.assoc append_Cons append_Nil)
  have "even (length (data @ [d]))" "length (data @ [d]) + length rest \<le> 8" using odd(1) l ds by auto
  from works_pairs[OF hw o2 this] show ?thesis using True p odd ds by (simp add: asset_write_payload_bytes_def)
qed

lemma works_copy:
  assumes hw: "flash_works hw" and P: "P = flash_bytes (mem_of s0) (ar_slot_address (as_active s0)) 64 8"
    and act: "is_slot (ar_slot_address (as_active s0))" "ar_slot_address (as_active s0) \<noteq> update_slot s0"
  shows "open_record s0 s crc (take pre P) \<Longrightarrow> even pre \<Longrightarrow> pre + n \<le> 8 \<Longrightarrow>
    \<exists>s'. copy_prefix hw s pre n = (ASSET_PERSISTENCE_RESULT_OK, s') \<and> open_record s0 s' crc (take (pre + n) P)"
proof (induction n arbitrary: s pre rule: less_induct)
  case (less n)
  have lP: "length P = 8" using P by simp
  have cand: "ac_accepted_bytes (as_candidate s) = pre" "\<not> ac_pending_valid (as_candidate s)" "as_active s = as_active s0"
    "touches s0 s (update_slot s0) UNIV"
    using less.prems lP by (auto simp: open_record_def writing_def Let_def touches_def)
  have pg: "flash_page (mem_of s) (ar_slot_address (as_active s0)) (64 + i) = P ! i" if "i < 8" for i
    using that cand(4) act P by (simp add: touches_def flash_bytes_page)
  consider "n = 0" | "n = 1" | m where "n = Suc (Suc m)" by (metis One_nat_def not0_implies_Suc)
  then show ?case
  proof cases
    case 1
    then show ?thesis using less.prems by simp
  next
    case 2
    then have "asset_flash_read_u8 (mem_of s) (ar_slot_address (as_active s)) (64 + pre) = P ! pre"
      using pg[of pre] less.prems(3) by (simp add: read_u8_page cand(3))
    then show ?thesis using pending_open[OF less.prems(1), of "P ! pre"] less.prems(2,3) lP 2
      by (simp add: take_Suc_conv_app_nth)
  next
    case (3 m)
    have rd: "asset_flash_read_u16 (mem_of s) (ar_slot_address (as_active s)) (64 + pre) = ucast (P ! pre) OR push_bit 8 (ucast (P ! (pre + 1)))"
      using pg[of pre] pg[of "pre + 1"] less.prems(3) 3 by (simp add: read_u16_page cand(3) add.assoc)
    have k: "pre = 2 * (length (take pre P) div 2)" "pre < 8" using less.prems(2,3) lP 3 by auto
    obtain s1 where p: "asset_program_payload_halfword hw s pre (ucast (P ! pre) OR push_bit 8 (ucast (P ! (pre + 1)))) = (ASSET_PERSISTENCE_RESULT_OK, s1)"
      and c: "as_candidate s1 = as_candidate s"
      and op: "\<And>s2. as_flash s2 = as_flash s1 \<Longrightarrow> as_active s2 = as_active s1 \<Longrightarrow>
        as_candidate s2 = (as_candidate s)\<lparr>ac_accepted_bytes := pre + 2, ac_pending_valid := False\<rparr> \<Longrightarrow>
        open_record s0 s2 crc (take pre (take pre P) @ [P ! pre, P ! (pre + 1)])"
      using halfword_open[OF hw less.prems(1) k] by blast
    let ?s2 = "set_accepted s1 (ac_accepted_bytes (as_candidate s1) + 2)"
    have "open_record s0 ?s2 crc (take pre (take pre P) @ [P ! pre, P ! (pre + 1)])"
      using op[of ?s2] c cand(1,2) by (simp add: set_accepted_def)
    then have o2: "open_record s0 ?s2 crc (take (pre + 2) P)"
      using lP less.prems(3) 3 by (simp add: take_Suc_conv_app_nth numeral_2_eq_2)
    have "\<exists>s'. copy_prefix hw ?s2 (pre + 2) m = (ASSET_PERSISTENCE_RESULT_OK, s') \<and> open_record s0 s' crc (take (pre + 2 + m) P)"
      by (rule less.IH[OF _ o2]) (use less.prems(2,3) 3 in auto)
    then show ?thesis using p rd 3 by simp
  qed
qed

section \<open>The steps of an update\<close>

definition progressing :: "asset_store \<Rightarrow> asset_store \<Rightarrow> u32 \<Rightarrow> bytes \<Rightarrow> bool" where
  "progressing s0 s crc data \<longleftrightarrow> open_record s0 s crc data \<or> comparing s0 s crc data"

lemma open_base: "as_active s = as_active s0 \<Longrightarrow> mem_of s = mem_of s0 \<Longrightarrow> open_record s s' crc d = open_record s0 s' crc d"
  by (simp add: open_record_def writing_def update_slot_def next_generation_def touches_def Let_def)

lemma works_begin:
  assumes hw: "flash_works hw" and room: "room s" and idle: "\<not> ac_active (as_candidate s)"
  obtains s' where "asset_persistence_begin_candidate hw s crc = (ASSET_PERSISTENCE_RESULT_OK, s')" "progressing s s' crc []"
proof -
  let ?s1 = "s\<lparr>as_candidate := (as_candidate s)\<lparr>ac_payload_crc32 := crc, ac_active := True\<rparr>\<rparr>"
  show thesis
  proof (cases "ar_slot_address (as_active s) \<noteq> 0 \<and> ar_payload_crc32 (as_active s) = crc")
    case True
    let ?s2 = "?s1\<lparr>as_candidate := (as_candidate ?s1)\<lparr>ac_accepted_bytes := 0, ac_pending_valid := False, ac_compare_active := True\<rparr>\<rparr>"
    have "asset_persistence_begin_candidate hw s crc = (ASSET_PERSISTENCE_RESULT_OK, ?s2)" "comparing s ?s2 crc []"
      using True idle by (auto simp: asset_persistence_begin_candidate_def comparing_def flash_bytes_def Let_def)
    then show thesis using that by (auto simp: progressing_def)
  next
    case False
    have "room ?s1" using room by (simp add: room_def asset_persistence_active_record_def)
    then obtain s' where s': "asset_start_changed hw ?s1 = (ASSET_PERSISTENCE_RESULT_OK, s')" "open_record ?s1 s' crc []"
      using works_start_changed[OF hw, of ?s1 crc] by auto
    have "asset_persistence_begin_candidate hw s crc = asset_start_changed hw ?s1"
      using False idle by (auto simp: asset_persistence_begin_candidate_def Let_def)
    moreover have "open_record s s' crc []" using s'(2) open_base[of ?s1 s] by simp
    ultimately show thesis using that s'(1) by (simp add: progressing_def)
  qed
qed

lemma works_differing:
  assumes hw: "flash_works hw" and room: "room s0" and ok: "active_slot_ok s0" and c: "comparing s0 s crc data"
    and l: "length data + length ds \<le> 8" and d: "first_difference s ds 0 = Some j"
  shows "\<exists>s'. asset_persistence_write_candidate hw s ds = (ASSET_PERSISTENCE_RESULT_OK, s') \<and> open_record s0 s' crc (data @ ds)"
proof -
  define P where "P = flash_bytes (mem_of s0) (ar_slot_address (as_active s0)) 64 8"
  have f: "ac_active (as_candidate s)" "ac_compare_active (as_candidate s)" "ac_payload_crc32 (as_candidate s) = crc"
    "ac_accepted_bytes (as_candidate s) = length data" "as_active s = as_active s0" "mem_of s = mem_of s0"
    "ar_slot_address (as_active s0) \<noteq> 0" "data = flash_bytes (mem_of s0) (ar_slot_address (as_active s0)) 64 (length data)"
    using c by (auto simp: comparing_def Let_def)
  have j: "j < length ds" "take j ds = flash_bytes (mem_of s0) (ar_slot_address (as_active s0)) (64 + length data) j"
    using first_difference_spec[where s = s and ds = ds and i = 0] d f(4,5,6) by auto
  have lj: "8 = length data + j + (8 - length data - j)" using j(1) l by simp
  have "P = flash_bytes (mem_of s0) (ar_slot_address (as_active s0)) 64 (length data + j)
      @ flash_bytes (mem_of s0) (ar_slot_address (as_active s0)) (64 + (length data + j)) (8 - length data - j)"
    unfolding P_def by (subst lj) (rule flash_bytes_append)
  then have "take (length data + j) P = flash_bytes (mem_of s0) (ar_slot_address (as_active s0)) 64 (length data + j)" by simp
  also have "\<dots> = data @ take j ds" unfolding flash_bytes_append j(2) using f(8) by simp
  finally have tk: "take (length data + j) P = data @ take j ds" .
  have act: "is_slot (ar_slot_address (as_active s0))" "ar_slot_address (as_active s0) \<noteq> update_slot s0"
    using active_kept[OF ok f(7)] update_slot_is by simp_all
  have "room s" using room f(5) by (simp add: room_def asset_persistence_active_record_def)
  then obtain s1 where s1: "asset_start_changed hw s = (ASSET_PERSISTENCE_RESULT_OK, s1)" "open_record s s1 crc []"
    using works_start_changed[OF hw _ f(3,1)] by blast
  have o1: "open_record s0 s1 crc (take 0 P)" using s1(2) open_base[OF f(5,6)] by simp
  obtain s2 where s2: "copy_prefix hw s1 0 (length data + j) = (ASSET_PERSISTENCE_RESULT_OK, s2)"
      "open_record s0 s2 crc (take (length data + j) P)"
    using works_copy[OF hw P_def act o1, of "length data + j"] j(1) l by auto
  obtain s3 where s3: "asset_write_payload_bytes hw s2 (drop j ds) = (ASSET_PERSISTENCE_RESULT_OK, s3)"
      "open_record s0 s3 crc ((data @ take j ds) @ drop j ds)"
    using works_payload_bytes[OF hw s2(2)[unfolded tk], of "drop j ds"] j(1) l by auto
  have "asset_persistence_write_candidate hw s ds = (ASSET_PERSISTENCE_RESULT_OK, s3)"
    using f(1,2,4) l d s1(1) s2(1) s3(1) by (simp add: asset_persistence_write_candidate_def Let_def)
  then show ?thesis using s3(2) by simp
qed

lemma works_write:
  assumes hw: "flash_works hw" and room: "room s0" and ok: "active_slot_ok s0" and p: "progressing s0 s crc data"
    and l: "length data + length ds \<le> 8"
  shows "\<exists>s'. asset_persistence_write_candidate hw s ds = (ASSET_PERSISTENCE_RESULT_OK, s') \<and> progressing s0 s' crc (data @ ds)"
proof -
  have fld: "ac_active (as_candidate s)" "ac_accepted_bytes (as_candidate s) = length data"
    using p by (auto simp: progressing_def open_record_def writing_def comparing_def Let_def)
  consider (opn) "open_record s0 s crc data" | (cmp) "comparing s0 s crc data" using p unfolding progressing_def by blast
  then show ?thesis
  proof cases
    case opn
    then have "asset_persistence_write_candidate hw s ds = asset_write_payload_bytes hw s ds"
      using fld l by (auto simp: asset_persistence_write_candidate_def open_record_def writing_def Let_def)
    then show ?thesis using works_payload_bytes[OF hw opn l] by (auto simp: progressing_def)
  next
    case cmp
    show ?thesis
    proof (cases "first_difference s ds 0")
      case None
      have c: "ac_compare_active (as_candidate s)" using cmp by (simp add: comparing_def Let_def)
      then have w: "asset_persistence_write_candidate hw s ds
          = (ASSET_PERSISTENCE_RESULT_OK, set_accepted s (length data + length ds))"
        using fld l None by (simp add: asset_persistence_write_candidate_def Let_def)
      have "data @ ds = flash_bytes (mem_of s0) (ar_slot_address (as_active s0)) 64 (length data + length ds)"
        using first_difference_spec[where s = s and ds = ds and i = 0] None cmp unfolding flash_bytes_append
        by (auto simp: comparing_def Let_def)
      then have "comparing s0 (set_accepted s (length data + length ds)) crc (data @ ds)"
        using cmp l by (simp add: comparing_def set_accepted_def Let_def)
      then show ?thesis using w by (auto simp: progressing_def)
    next
      case (Some j)
      from works_differing[OF hw room ok cmp l Some] show ?thesis by (auto simp: progressing_def)
    qed
  qed
qed

lemma works_chunks:
  assumes hw: "flash_works hw" and room: "room s0" and ok: "active_slot_ok s0"
  shows "progressing s0 s crc data \<Longrightarrow> length data + length (concat chunks) \<le> 8 \<Longrightarrow>
    \<exists>s'. write_chunks hw s chunks = (ASSET_PERSISTENCE_RESULT_OK, s') \<and> progressing s0 s' crc (data @ concat chunks)"
proof (induction chunks arbitrary: s data)
  case (Cons d ds)
  obtain s1 where s1: "asset_persistence_write_candidate hw s d = (ASSET_PERSISTENCE_RESULT_OK, s1)" "progressing s0 s1 crc (data @ d)"
    using works_write[OF hw room ok Cons.prems(1), of d] Cons.prems(2) by auto
  from Cons.IH[OF s1(2)] Cons.prems(2) s1(1) show ?case by auto
qed auto

section \<open>The commit\<close>

definition asset_crc32 :: "bytes \<Rightarrow> u32" where
  "asset_crc32 data = foldl asset_crc32_update 0xFFFFFFFF data XOR 0xFFFFFFFF"

lemma header_fields:
  assumes b: "flash_bytes mem t 0 24 = concat (map wr16 (metadata_words g c))"
  shows "asset_flash_read_u32 mem t 0 = 0x53554544" "asset_flash_read_u32 mem t 4 = 0x00010101"
    "asset_flash_read_u32 mem t 8 = 0x00080040" "asset_flash_read_u32 mem t 20 = 0"
proof -
  have p: "flash_page mem t i = concat (map wr16 (metadata_words g c)) ! i" if "i < 24" for i
    using page_nth[of i 24 mem t 0] that assms by simp
  show "asset_flash_read_u32 mem t 0 = 0x53554544" "asset_flash_read_u32 mem t 4 = 0x00010101"
    "asset_flash_read_u32 mem t 8 = 0x00080040" "asset_flash_read_u32 mem t 20 = 0"
    unfolding read_u32_cat by (simp_all add: p metadata_words_def wr16_def cat32_def)
qed

lemma blank_words:
  assumes "\<forall>i \<in> {24..<56}. flash_page mem t i = 0xFF" "k < 8"
  shows "asset_flash_read_u32 mem t (24 + k * 4) = 0xFFFFFFFF"
  unfolding read_u32_cat using assms by (simp add: cat32_def)

lemma record_complete:
  assumes "flash_bytes mem t 0 24 = concat (map wr16 (metadata_words g c))"
    and "\<forall>i \<in> {24..<56}. flash_page mem t i = 0xFF" "0 < g" "g \<le> 10000"
    and "asset_flash_read_u32 mem t 56 = asset_crc32_flash mem t 0 24"
    and "flash_bytes mem t 64 8 = data" "asset_crc32 data = c" "oled_ui_layout_config_v1_validate (Some data) 8"
  shows "validate_rest mem t = (ASSET_PERSISTENCE_RESULT_OK, Some \<lparr>ar_slot_address = t, ar_generation = g, ar_payload_crc32 = c\<rparr>)"
proof -
  have "asset_crc32_flash mem t 64 8 = c" using assms(6,7) by (simp add: asset_crc32_flash_def asset_crc32_def)
  moreover have "asset_flash_read_u32 mem t (24 + k * 4) = 0xFFFFFFFF" if "k \<in> set [0..<8]" for k
    using blank_words[OF assms(2)] that by simp
  moreover have "g \<noteq> 0" "\<not> g > 10000" using assms(3,4) by auto
  ultimately show ?thesis
    unfolding validate_rest_def Let_def header_fields[OF assms(1)] metadata_reads[OF assms(1)] assms(5,6)
    using assms(8) by auto
qed

lemma next_generation_range:
  assumes ok: "store_ok s" and room: "room s"
  shows "0 < next_generation s" "next_generation s \<le> 10000"
proof -
  have lt: "0 < g + 1 \<and> g + 1 \<le> 10000" if "g < 10000" for g :: u32
    using that by (simp add: word_less_nat_alt word_le_nat_alt unat_word_ariths(1))
  have "ar_slot_address (as_active s) \<noteq> 0 \<Longrightarrow> ar_generation (as_active s) < 10000"
    using room by (simp add: room_def asset_persistence_active_record_def)
  then show "0 < next_generation s" "next_generation s \<le> 10000"
    using lt by (auto simp: next_generation_def)
qed

lemma works_header_crc:
  assumes hw: "flash_works hw" and t: "is_slot (ac_slot_address (as_candidate s))" and b: "blank_at s (ac_slot_address (as_candidate s)) {56..<60}"
  obtains s1 where "asset_program_header_crc hw s = (ASSET_PERSISTENCE_RESULT_OK, s1)"
    "asset_flash_read_u32 (mem_of s1) (ac_slot_address (as_candidate s)) 56
      = asset_crc32_flash (mem_of s) (ac_slot_address (as_candidate s)) 0 24"
proof -
  let ?t = "ac_slot_address (as_candidate s)"
  define h where "h = asset_crc32_flash (mem_of s) ?t 0 24"
  obtain a where p: "asset_program hw s 56 (ucast (h AND 0xFFFF)) = (True, a)"
    using works_program[OF hw t, of 56 "ucast (h AND 0xFFFF)"] b by (auto simp: blank_at_def)
  note st = asset_program_step[OF t _ p]
  have ca: "as_candidate a = as_candidate s" using st(2) by simp
  have "blank_at a ?t {58, 59}" by (rule blank_touches[OF st(1) b t]) auto
  then obtain c where q: "asset_program hw a 58 (ucast (drop_bit 16 h)) = (True, c)"
    using works_program[OF hw, of a 58 "ucast (drop_bit 16 h)"] ca t by (auto simp: blank_at_def)
  have ta: "is_slot (ac_slot_address (as_candidate a))" using ca t by simp
  note st2 = asset_program_step[OF ta _ q, unfolded ca]
  have "flash_bytes (mem_of c) ?t 56 2 = wr16 (ucast (h AND 0xFFFF))"
    using touches_bytes[OF st2(1) t, of 56 2] st(3) by simp
  moreover have "flash_bytes (mem_of c) ?t 58 2 = wr16 (ucast (drop_bit 16 h))" using st2(3) by simp
  ultimately have pg: "flash_page (mem_of c) ?t 56 = ucast (ucast (h AND 0xFFFF) :: u16)"
    "flash_page (mem_of c) ?t 57 = ucast (drop_bit 8 (ucast (h AND 0xFFFF) :: u16))"
    "flash_page (mem_of c) ?t 58 = ucast (ucast (drop_bit 16 h) :: u16)"
    "flash_page (mem_of c) ?t 59 = ucast (drop_bit 8 (ucast (drop_bit 16 h) :: u16))"
    by (simp_all add: flash_bytes_page wr16_def upt_rec)
  have "asset_flash_read_u32 (mem_of c) ?t 56 = h"
    unfolding read_u32_cat using pg by (simp add: cat32_halves[symmetric] halves_join)
  moreover have "asset_program_header_crc hw s = (ASSET_PERSISTENCE_RESULT_OK, c)"
    using p q by (simp add: asset_program_header_crc_def Let_def h_def)
  ultimately show thesis using that unfolding h_def by blast
qed

lemma works_commit:
  assumes hw: "flash_works hw" and ok: "store_ok s0" and room: "room s0" and o: "open_record s0 s crc data" and l: "length data = 8"
    and v: "asset_crc32 data = crc" "oled_ui_layout_config_v1_validate (Some data) 8"
  shows "fst (asset_persistence_commit_candidate hw s) = ASSET_PERSISTENCE_RESULT_OK"
proof -
  let ?t = "update_slot s0"
  note t = update_slot_is(1)[of s0]
  have f: "ac_slot_address (as_candidate s) = ?t" "ac_active (as_candidate s)" "ac_accepted_bytes (as_candidate s) = 8"
    "\<not> ac_compare_active (as_candidate s)" "\<not> ac_pending_valid (as_candidate s)"
    "flash_bytes (mem_of s) ?t 0 24 = concat (map wr16 (metadata_words (next_generation s0) crc))"
    "flash_bytes (mem_of s) ?t 64 8 = data" "blank_at s ?t (unwritten 8)"
    using o l by (auto simp: open_record_def writing_def Let_def)
  have b: "blank_at s ?t {56..<60}" using f(8) by (auto simp: blank_at_def)
  obtain s1 where h: "asset_program_header_crc hw s = (ASSET_PERSISTENCE_RESULT_OK, s1)"
    "asset_flash_read_u32 (mem_of s1) ?t 56 = asset_crc32_flash (mem_of s) ?t 0 24"
    using works_header_crc[OF hw, of s] f(1) t b by metis
  note h1 = header_crc_step[OF _ h(1), unfolded f(1), OF t]
  have m: "flash_bytes (mem_of s1) ?t 0 24 = flash_bytes (mem_of s) ?t 0 24" "flash_bytes (mem_of s1) ?t 64 8 = data"
    using touches_bytes[OF h1(1) t, of 0 24] touches_bytes[OF h1(1) t, of 64 8] f(7) by simp_all
  have b1: "blank_at s1 ?t ({24..<56} \<union> {60..<64})" by (rule blank_touches[OF h1(1) f(8) t]) auto
  have "validate_rest (mem_of s1) ?t = (ASSET_PERSISTENCE_RESULT_OK,
      Some \<lparr>ar_slot_address = ?t, ar_generation = next_generation s0, ar_payload_crc32 = crc\<rparr>)"
    by (rule record_complete[OF _ _ next_generation_range[OF ok room] _ m(2) v])
      (use m f(6) h(2) b1 in \<open>auto simp: asset_crc32_flash_def blank_at_def\<close>)
  then have v1: "asset_validate_record (mem_of s1) ?t 0xFFFF = (ASSET_PERSISTENCE_RESULT_OK,
      Some \<lparr>ar_slot_address = ?t, ar_generation = next_generation s0, ar_payload_crc32 = crc\<rparr>)"
    using b1 by (simp add: validate_unmarked blank_at_def)
  have c1: "ac_slot_address (as_candidate s1) = ?t" using h1(2) f(1) by simp
  obtain s2 where p: "asset_program hw s1 62 0xA55A = (True, s2)"
    using works_program[OF hw, of s1 62 "0xA55A"] c1 t b1 by (auto simp: blank_at_def)
  have st: "touches s1 s2 ?t {62, 63}" "flash_bytes (mem_of s2) ?t 62 2 = wr16 0xA55A"
    using asset_program_step(1,3)[OF _ _ p] c1 t by simp_all
  have mk: "flash_page (mem_of s2) ?t 62 = 0x5A" "flash_page (mem_of s2) ?t 63 = 0xA5"
    using st(2) by (simp_all add: flash_bytes_page wr16_def upt_rec)
  have ag: "agree (mem_of s1) (mem_of s2) ?t ({0..<62} \<union> {64..<72})" using st(1) t by (auto simp: touches_def agree_def)
  have "record_at (mem_of s2) ?t \<noteq> None" using record_sealed(1)[OF v1 ag] mk by (simp add: marker_set_def)
  then obtain r3 x where v2: "asset_validate_record (mem_of s2) ?t 0xA55A = (r3, Some x)"
    by (cases "asset_validate_record (mem_of s2) ?t 0xA55A") (auto simp: record_at_def)
  have "asset_flash_read_u16 (mem_of s2) ?t 62 = 0xA55A" using mk by (simp add: read_u16_page)
  then show ?thesis
    using f h(1) v1 p v2 by (simp add: asset_persistence_commit_candidate_def Let_def)
qed

text \<open>
  C24: A valid update goes through: with a working flash controller, a store below its wear
  budget and no candidate open, sending an eight-byte layout that passes validation, in any
  chunks and with its checksum, ends with \<open>OK\<close> or, when the active record holds it already,
  \<open>UNCHANGED\<close>; either way the next boot reads exactly that layout.
\<close>
theorem valid_update_succeeds:
  assumes hw: "flash_works hw" and ok: "store_ok s" and room: "room s" and idle: "\<not> ac_active (as_candidate s)"
    and d: "length (concat chunks) = 8" "asset_crc32 (concat chunks) = crc"
      "oled_ui_layout_config_v1_validate (Some (concat chunks)) 8"
  shows "fst (asset_update hw s crc chunks) \<in> {ASSET_PERSISTENCE_RESULT_OK, ASSET_PERSISTENCE_RESULT_UNCHANGED}
    \<and> boot_payload (snd (asset_update hw s crc chunks)) = Some (concat chunks)"
proof -
  obtain s1 where s1: "asset_persistence_begin_candidate hw s crc = (ASSET_PERSISTENCE_RESULT_OK, s1)" "progressing s s1 crc []"
    using works_begin[OF hw room idle] .
  obtain s2 where s2: "write_chunks hw s1 chunks = (ASSET_PERSISTENCE_RESULT_OK, s2)" "progressing s s2 crc (concat chunks)"
    using works_chunks[OF hw room store_ok_active[OF ok] s1(2), of chunks] d(1) by auto
  have u: "asset_update hw s crc chunks = asset_persistence_commit_candidate hw s2"
    using s1(1) s2(1) by (simp add: asset_update_def)
  have "fst (asset_persistence_commit_candidate hw s2) \<in> {ASSET_PERSISTENCE_RESULT_OK, ASSET_PERSISTENCE_RESULT_UNCHANGED}"
    using s2(2) unfolding progressing_def
  proof
    assume "open_record s s2 crc (concat chunks)"
    from works_commit[OF hw ok room this d] show ?thesis by simp
  next
    assume "comparing s s2 crc (concat chunks)"
    then show ?thesis using d(1) by (simp add: asset_persistence_commit_candidate_def comparing_def Let_def)
  qed
  then have r: "fst (asset_update hw s crc chunks) \<in> {ASSET_PERSISTENCE_RESULT_OK, ASSET_PERSISTENCE_RESULT_UNCHANGED}"
    using u by simp
  have c: "accepted s s1 crc []" using begin_step[OF idle s1(1)] by simp
  have a: "accepted s s2 crc (concat chunks)"
    using write_chunks_step[OF store_ok_active[OF ok] c s2(1)] by simp
  obtain q s' where q: "asset_persistence_commit_candidate hw s2 = (q, s')" by fastforce
  have "boot_payload s' = Some (concat chunks)" if "q \<in> {ASSET_PERSISTENCE_RESULT_OK, ASSET_PERSISTENCE_RESULT_UNCHANGED}"
    using commit_step[OF a q] that sealed_boots(2)[OF ok] same_boots(2)[of s' s] ok
    by (auto simp: boot_payload_eq[of s] store_ok_def asset_persistence_active_record_def)
  then show ?thesis using r u q by auto
qed

theorem valid_update_succeeds_witness:
  "boot_payload (snd (asset_update working_hw blank_store (asset_crc32 [1, 0, 10, 128, 22, 0, 0, 0]) [[1, 0, 10], [128, 22, 0, 0], [0]]))
    = Some [1, 0, 10, 128, 22, 0, 0, 0]"
proof -
  have hw: "flash_works working_hw" by (simp add: flash_works_def working_hw_def)
  have room: "room blank_store" by (simp add: room_def asset_persistence_active_record_def blank_store_def)
  have v: "oled_ui_layout_config_v1_validate (Some [1, 0, 10, 128, 22, 0, 0, 0]) 8"
    by (simp add: oled_ui_layout_config_v1_validate_def word_le_nat_alt)
  show ?thesis
    using valid_update_succeeds[OF hw blank_store_ok(1) room blank_store_ok(2),
        of "[[1, 0, 10], [128, 22, 0, 0], [0]]" "asset_crc32 [1, 0, 10, 128, 22, 0, 0, 0]"] v by simp
qed

end
