(* ===== verification/Boot_Sha256.thy ===== *)
theory Boot_Sha256
  imports Fw_Prelude
begin

unbundle bit_operations_syntax

text \<open>
  The hash of the bootloader (\<open>src/bootloader/bootloader.c\<close>): the streaming SHA-256 it
  computes over images, and the keyed hash of an image header. The hash has a reference
  here that follows the standard: pad the message, cut it into blocks, and compress.
\<close>

section \<open>The code\<close>

definition rotr32 :: "u32 \<Rightarrow> nat \<Rightarrow> u32" where
  "rotr32 x n = drop_bit n x OR push_bit (32 - n) x"

definition sha_k :: "u32 list" where
  "sha_k = [
    0x428a2f98, 0x71374491, 0xb5c0fbcf, 0xe9b5dba5, 0x3956c25b, 0x59f111f1, 0x923f82a4, 0xab1c5ed5,
    0xd807aa98, 0x12835b01, 0x243185be, 0x550c7dc3, 0x72be5d74, 0x80deb1fe, 0x9bdc06a7, 0xc19bf174,
    0xe49b69c1, 0xefbe4786, 0x0fc19dc6, 0x240ca1cc, 0x2de92c6f, 0x4a7484aa, 0x5cb0a9dc, 0x76f988da,
    0x983e5152, 0xa831c66d, 0xb00327c8, 0xbf597fc7, 0xc6e00bf3, 0xd5a79147, 0x06ca6351, 0x14292967,
    0x27b70a85, 0x2e1b2138, 0x4d2c6dfc, 0x53380d13, 0x650a7354, 0x766a0abb, 0x81c2c92e, 0x92722c85,
    0xa2bfe8a1, 0xa81a664b, 0xc24b8b70, 0xc76c51a3, 0xd192e819, 0xd6990624, 0xf40e3585, 0x106aa070,
    0x19a4c116, 0x1e376c08, 0x2748774c, 0x34b0bcb5, 0x391c0cb3, 0x4ed8aa4a, 0x5b9cca4f, 0x682e6ff3,
    0x748f82ee, 0x78a5636f, 0x84c87814, 0x8cc70208, 0x90befffa, 0xa4506ceb, 0xbef9a3f7, 0xc67178f2]"

record sha256_ctx =
  sh_h :: "u32 list"
  sh_total_bytes :: u32
  sh_buffer_len :: nat
  sh_buffer :: bytes

text \<open>The first loop: sixteen big-endian words.\<close>

definition block_word :: "bytes \<Rightarrow> nat \<Rightarrow> u32" where
  "block_word block i = (let j = i * 4 in push_bit 24 (ucast (block ! j)) OR push_bit 16 (ucast (block ! (j + 1)))
     OR push_bit 8 (ucast (block ! (j + 2))) OR ucast (block ! (j + 3)))"

text \<open>The second loop: each further word is made from earlier ones.\<close>

definition schedule_step :: "u32 list \<Rightarrow> nat \<Rightarrow> u32 list" where
  "schedule_step w i =
     (let s0 = rotr32 (w ! (i - 15)) 7 XOR rotr32 (w ! (i - 15)) 18 XOR drop_bit 3 (w ! (i - 15));
          s1 = rotr32 (w ! (i - 2)) 17 XOR rotr32 (w ! (i - 2)) 19 XOR drop_bit 10 (w ! (i - 2))
      in w @ [w ! (i - 16) + s0 + w ! (i - 7) + s1])"

definition sha_schedule :: "bytes \<Rightarrow> u32 list" where
  "sha_schedule block = foldl schedule_step (map (block_word block) [0..<16]) [16..<64]"

type_synonym sha_vars = "u32 \<times> u32 \<times> u32 \<times> u32 \<times> u32 \<times> u32 \<times> u32 \<times> u32"

definition sha_round :: "u32 list \<Rightarrow> sha_vars \<Rightarrow> nat \<Rightarrow> sha_vars" where
  "sha_round w v i = (case v of (a, b, cc, d, e, f, g, h) \<Rightarrow>
     (let s1 = rotr32 e 6 XOR rotr32 e 11 XOR rotr32 e 25;
          ch = (e AND f) XOR (NOT e AND g);
          t1 = h + s1 + ch + sha_k ! i + w ! i;
          s0 = rotr32 a 2 XOR rotr32 a 13 XOR rotr32 a 22;
          maj = (a AND b) XOR (a AND cc) XOR (b AND cc);
          t2 = s0 + maj
      in (t1 + t2, a, b, cc, d + t1, e, f, g)))"

definition sha256_transform :: "sha256_ctx \<Rightarrow> bytes \<Rightarrow> sha256_ctx" where
  "sha256_transform c block = (let w = sha_schedule block; hs = sh_h c in
     case foldl (sha_round w) (hs ! 0, hs ! 1, hs ! 2, hs ! 3, hs ! 4, hs ! 5, hs ! 6, hs ! 7) [0..<64] of
       (a, b, cc, d, e, f, g, h) \<Rightarrow>
         c\<lparr>sh_h := [hs ! 0 + a, hs ! 1 + b, hs ! 2 + cc, hs ! 3 + d, hs ! 4 + e, hs ! 5 + f, hs ! 6 + g, hs ! 7 + h]\<rparr>)"

definition sha256_init :: "sha256_ctx \<Rightarrow> sha256_ctx" where
  "sha256_init c = c\<lparr>sh_h := [0x6a09e667, 0xbb67ae85, 0x3c6ef372, 0xa54ff53a, 0x510e527f, 0x9b05688c, 0x1f83d9ab, 0x5be0cd19],
     sh_total_bytes := 0, sh_buffer_len := 0\<rparr>"

definition sha_put :: "sha256_ctx \<Rightarrow> u8 \<Rightarrow> sha256_ctx" where
  "sha_put c b = c\<lparr>sh_buffer := (sh_buffer c)[sh_buffer_len c := b], sh_buffer_len := sh_buffer_len c + 1\<rparr>"

definition sha_update_byte :: "sha256_ctx \<Rightarrow> u8 \<Rightarrow> sha256_ctx" where
  "sha_update_byte c b =
     (let c1 = (sha_put c b)\<lparr>sh_total_bytes := sh_total_bytes c + 1\<rparr> in
      if sh_buffer_len c1 = 64 then (sha256_transform c1 (sh_buffer c1))\<lparr>sh_buffer_len := 0\<rparr> else c1)"

definition sha256_update :: "sha256_ctx \<Rightarrow> bytes \<Rightarrow> sha256_ctx" where
  "sha256_update c data = foldl sha_update_byte c data"

text \<open>Zero bytes up to \<open>limit\<close>.\<close>

function sha_fill :: "sha256_ctx \<Rightarrow> nat \<Rightarrow> sha256_ctx" where
  "sha_fill c limit = (if sh_buffer_len c < limit then sha_fill (sha_put c 0) limit else c)"
  by auto
termination by (relation "measure (\<lambda>(c, limit). limit - sh_buffer_len c)") (auto simp: sha_put_def)

declare sha_fill.simps [simp del]

definition be32 :: "u32 \<Rightarrow> bytes" where
  "be32 v = [ucast (drop_bit 24 v), ucast (drop_bit 16 v), ucast (drop_bit 8 v), ucast v]"

definition sha256_final :: "sha256_ctx \<Rightarrow> bytes \<times> sha256_ctx" where
  "sha256_final c =
     (let bitlen = sh_total_bytes c * 8;
          c1 = sha_put c 0x80;
          c2 = (if sh_buffer_len c1 > 56
                then let d = sha_fill c1 64 in (sha256_transform d (sh_buffer d))\<lparr>sh_buffer_len := 0\<rparr> else c1);
          c3 = sha_fill c2 56;
          c4 = c3\<lparr>sh_buffer := store_at (sh_buffer c3) 56 ([0, 0, 0, 0] @ be32 bitlen)\<rparr>;
          c5 = sha256_transform c4 (sh_buffer c4)
      in (concat (map be32 (sh_h c5)), c5))"

definition fresh_ctx :: sha256_ctx where
  "fresh_ctx = \<lparr>sh_h = replicate 8 0, sh_total_bytes = 0, sh_buffer_len = 0, sh_buffer = replicate 64 0\<rparr>"

definition sha256_bytes :: "bytes list \<Rightarrow> bytes" where
  "sha256_bytes parts = fst (sha256_final (foldl sha256_update (sha256_init fresh_ctx) parts))"

definition sha256_memory :: "(u32 \<Rightarrow> u8) \<Rightarrow> u32 \<Rightarrow> nat \<Rightarrow> bytes" where
  "sha256_memory mem address n = sha256_bytes [map (\<lambda>i. mem (address + of_nat i)) [0..<n]]"

definition hmac_domain :: bytes where "hmac_domain = [0x44, 0x45, 0x55, 0x53, 0x48, 0x44, 0x52, 0x31]"
definition origin_le :: bytes where "origin_le = [0x00, 0x20, 0x00, 0x08]"

text \<open>The key block: 64 bytes of \<open>v\<close>, the first 32 of them combined with the key.\<close>

definition key_block :: "bytes \<Rightarrow> u8 \<Rightarrow> bytes" where
  "key_block key v = map (\<lambda>i. if i < 32 then v XOR key ! i else v) [0..<64]"

definition hmac_header :: "bytes \<Rightarrow> bytes \<Rightarrow> bytes" where
  "hmac_header key header =
     (let inner = sha256_bytes [key_block key 0x36, hmac_domain, origin_le, header]
      in sha256_bytes [key_block key 0x5C, inner])"

section \<open>The reference\<close>

text \<open>The functions of the standard, on the rotations of the word library.\<close>

definition Ch :: "u32 \<Rightarrow> u32 \<Rightarrow> u32 \<Rightarrow> u32" where "Ch x y z = (x AND y) XOR (NOT x AND z)"
definition Maj :: "u32 \<Rightarrow> u32 \<Rightarrow> u32 \<Rightarrow> u32" where "Maj x y z = (x AND y) XOR (x AND z) XOR (y AND z)"
definition Sigma0 :: "u32 \<Rightarrow> u32" where "Sigma0 x = word_rotr 2 x XOR word_rotr 13 x XOR word_rotr 22 x"
definition Sigma1 :: "u32 \<Rightarrow> u32" where "Sigma1 x = word_rotr 6 x XOR word_rotr 11 x XOR word_rotr 25 x"
definition sigma0 :: "u32 \<Rightarrow> u32" where "sigma0 x = word_rotr 7 x XOR word_rotr 18 x XOR drop_bit 3 x"
definition sigma1 :: "u32 \<Rightarrow> u32" where "sigma1 x = word_rotr 17 x XOR word_rotr 19 x XOR drop_bit 10 x"

fun message_word :: "bytes \<Rightarrow> nat \<Rightarrow> u32" where
  "message_word M t = (if t < 16 then block_word M t
     else sigma1 (message_word M (t - 2)) + message_word M (t - 7) + sigma0 (message_word M (t - 15)) + message_word M (t - 16))"

declare message_word.simps [simp del]

fun working :: "bytes \<Rightarrow> sha_vars \<Rightarrow> nat \<Rightarrow> sha_vars" where
  "working M v 0 = v"
| "working M v (Suc t) = (case working M v t of (a, b, c, d, e, f, g, h) \<Rightarrow>
     (let t1 = h + Sigma1 e + Ch e f g + sha_k ! t + message_word M t; t2 = Sigma0 a + Maj a b c
      in (t1 + t2, a, b, c, d + t1, e, f, g)))"

definition compress :: "u32 list \<Rightarrow> bytes \<Rightarrow> u32 list" where
  "compress hs M = (case working M (hs ! 0, hs ! 1, hs ! 2, hs ! 3, hs ! 4, hs ! 5, hs ! 6, hs ! 7) 64 of
     (a, b, c, d, e, f, g, h) \<Rightarrow> map2 (+) hs [a, b, c, d, e, f, g, h])"

fun blocks :: "bytes \<Rightarrow> bytes list" where
  "blocks xs = (if xs = [] then [] else take 64 xs # blocks (drop 64 xs))"

declare blocks.simps [simp del]

definition be64 :: "nat \<Rightarrow> bytes" where
  "be64 n = map (\<lambda>i. of_nat (n div 256 ^ (7 - i))) [0..<8]"

text \<open>A one bit, zeros up to the last eight bytes of a block, and the length in bits.\<close>

definition pad :: "bytes \<Rightarrow> bytes" where
  "pad msg = msg @ [0x80] @ replicate ((119 - length msg mod 64) mod 64) 0 @ be64 (8 * length msg)"

definition sha256 :: "bytes \<Rightarrow> bytes" where
  "sha256 msg = concat (map be32 (foldl compress
     [0x6a09e667, 0xbb67ae85, 0x3c6ef372, 0xa54ff53a, 0x510e527f, 0x9b05688c, 0x1f83d9ab, 0x5be0cd19] (blocks (pad msg))))"

section \<open>The compression\<close>

lemma rotr32_rotr: "0 < n \<Longrightarrow> n < 32 \<Longrightarrow> rotr32 x n = word_rotr n x"
proof (rule bit_word_eqI)
  fix k assume a: "0 < n" "n < 32" "k < LENGTH(32)"
  have "(k + n) mod 32 = (if k + n < 32 then k + n else k + n - 32)" using a by (simp add: mod_if)
  then show "bit (rotr32 x n) k = bit (word_rotr n x) k"
    using a by (auto simp: rotr32_def bit_simps bit_word_rotr_iff add.commute[of n k] dest: bit_imp_le_length)
qed

lemma sigma_code:
  "rotr32 x 7 XOR rotr32 x 18 XOR drop_bit 3 x = sigma0 x" "rotr32 x 17 XOR rotr32 x 19 XOR drop_bit 10 x = sigma1 x"
  "rotr32 x 6 XOR rotr32 x 11 XOR rotr32 x 25 = Sigma1 x" "rotr32 x 2 XOR rotr32 x 13 XOR rotr32 x 22 = Sigma0 x"
  by (simp_all add: rotr32_rotr sigma0_def sigma1_def Sigma0_def Sigma1_def)

lemma schedule_words:
  "n \<le> 64 \<Longrightarrow> 16 \<le> n \<Longrightarrow> foldl schedule_step (map (block_word M) [0..<16]) [16..<n] = map (message_word M) [0..<n]"
proof (induction n)
  case (Suc n)
  show ?case
  proof (cases "n = 15")
    case True
    have "message_word M i = block_word M i" if "i < 16" for i using that by (simp add: message_word.simps)
    then show ?thesis using True by simp
  next
    case False
    then have n: "16 \<le> n" "n \<le> 64" using Suc.prems by simp_all
    have "[16..<Suc n] = [16..<n] @ [n]" using n by simp
    then have "foldl schedule_step (map (block_word M) [0..<16]) [16..<Suc n]
        = schedule_step (map (message_word M) [0..<n]) n"
      using Suc.IH n by simp
    also have "\<dots> = map (message_word M) [0..<n] @ [message_word M n]"
      using n unfolding schedule_step_def sigma_code Let_def by (simp add: message_word.simps[of M n] ac_simps)
    finally show ?thesis by simp
  qed
qed simp

lemma rounds: "n \<le> 64 \<Longrightarrow> foldl (sha_round (map (message_word M) [0..<64])) v [0..<n] = working M v n"
proof (induction n)
  case (Suc n)
  then have f: "foldl (sha_round (map (message_word M) [0..<64])) v [0..<Suc n] = sha_round (map (message_word M) [0..<64]) (working M v n) n"
    by simp
  show ?case unfolding f using Suc.prems
    by (cases "working M v n") (simp add: sha_round_def sigma_code Ch_def Maj_def Let_def)
qed simp

lemma list8: "length xs = 8 \<Longrightarrow> xs = [xs ! 0, xs ! 1, xs ! 2, xs ! 3, xs ! 4, xs ! 5, xs ! 6, xs ! 7]"
proof (rule nth_equalityI)
  fix i assume "length xs = 8" "i < length xs"
  then have "i = 0 \<or> i = 1 \<or> i = 2 \<or> i = 3 \<or> i = 4 \<or> i = 5 \<or> i = 6 \<or> i = 7" by auto
  then show "xs ! i = [xs ! 0, xs ! 1, xs ! 2, xs ! 3, xs ! 4, xs ! 5, xs ! 6, xs ! 7] ! i" by (elim disjE) simp_all
qed simp

lemma transform_compress:
  assumes "length (sh_h c) = 8"
  shows "sha256_transform c M = c\<lparr>sh_h := compress (sh_h c) M\<rparr>"
proof -
  have w: "sha_schedule M = map (message_word M) [0..<64]" unfolding sha_schedule_def by (rule schedule_words) simp_all
  have z: "map2 (+) hs [a, b, cc, d, e, f, g, h] = [hs ! 0 + a, hs ! 1 + b, hs ! 2 + cc, hs ! 3 + d, hs ! 4 + e, hs ! 5 + f, hs ! 6 + g, hs ! 7 + h]"
    if "length hs = 8" for hs :: "u32 list" and a b cc d e f g h
    by (subst list8[OF that]) simp
  show ?thesis
    unfolding sha256_transform_def Let_def w rounds[OF order_refl] compress_def
    using z[OF assms] by (simp split: prod.split)
qed

lemma length_compress [simp]: "length hs = 8 \<Longrightarrow> length (compress hs M) = 8"
  by (simp add: compress_def split: prod.split)

section \<open>Streaming\<close>

lemma blocks_simps: "blocks [] = []" "xs \<noteq> [] \<Longrightarrow> blocks xs = take 64 xs # blocks (drop 64 xs)"
  by (simp_all add: blocks.simps)

lemma blocks_append: "64 dvd length xs \<Longrightarrow> blocks (xs @ ys) = blocks xs @ blocks ys"
proof (induction xs rule: blocks.induct)
  case (1 xs)
  show ?case
  proof (cases "xs = []")
    case True
    then show ?thesis by (simp add: blocks_simps)
  next
    case False
    then have l: "64 \<le> length xs" using 1(2) by (metis dvd_imp_le length_greater_0_conv)
    then have "64 dvd length (drop 64 xs)" using 1(2) by (simp add: dvd_diff_nat)
    then have "blocks (drop 64 xs @ ys) = blocks (drop 64 xs) @ blocks ys" using 1(1) False by simp
    then show ?thesis using False l by (simp add: blocks_simps(2)[of "xs @ ys"] blocks_simps(2)[of xs])
  qed
qed

lemma blocks_one: "length b = 64 \<Longrightarrow> blocks b = [b]"
  by (subst blocks.simps) (auto simp: blocks_simps)

abbreviation (input) sha_H0 :: "u32 list" where
  "sha_H0 \<equiv> [0x6a09e667, 0xbb67ae85, 0x3c6ef372, 0xa54ff53a, 0x510e527f, 0x9b05688c, 0x1f83d9ab, 0x5be0cd19]"

text \<open>The context after the bytes \<open>msg\<close>: whole blocks compressed, the rest in the buffer.\<close>

definition absorbed :: "sha256_ctx \<Rightarrow> bytes \<Rightarrow> bool" where
  "absorbed c msg \<longleftrightarrow> (\<exists>P r. msg = P @ r \<and> 64 dvd length P \<and> length r < 64
     \<and> sh_h c = foldl compress sha_H0 (blocks P) \<and> sh_total_bytes c = of_nat (length msg)
     \<and> sh_buffer_len c = length r \<and> length (sh_buffer c) = 64 \<and> take (length r) (sh_buffer c) = r)"

lemma length_foldl_compress: "length hs = 8 \<Longrightarrow> length (foldl compress hs bs) = 8"
  by (induction bs arbitrary: hs) simp_all

lemma absorbed_init: "length (sh_buffer c) = 64 \<Longrightarrow> absorbed (sha256_init c) []"
  by (simp add: absorbed_def sha256_init_def blocks_simps)

lemma absorbed_byte:
  assumes "absorbed c msg"
  shows "absorbed (sha_update_byte c b) (msg @ [b])"
proof -
  obtain P r where a: "msg = P @ r" "64 dvd length P" "length r < 64" "sh_h c = foldl compress sha_H0 (blocks P)"
    "sh_total_bytes c = of_nat (length msg)" "sh_buffer_len c = length r" "length (sh_buffer c) = 64" "take (length r) (sh_buffer c) = r"
    using assms unfolding absorbed_def by blast
  let ?c1 = "(sha_put c b)\<lparr>sh_total_bytes := sh_total_bytes c + 1\<rparr>"
  have l8: "length (sh_h c) = 8" using a(4) by (simp add: length_foldl_compress)
  have p: "sh_buffer_len ?c1 = length r + 1" "length (sh_buffer ?c1) = 64" "take (length r + 1) (sh_buffer ?c1) = r @ [b]"
    "sh_h ?c1 = sh_h c" "sh_total_bytes ?c1 = of_nat (length (msg @ [b]))"
    using a take_Suc_update[of "length r" "sh_buffer c" b] by (simp_all add: sha_put_def)
  show ?thesis
  proof (cases "length r + 1 = 64")
    case True
    then have full: "sh_buffer ?c1 = r @ [b]" using p(2,3) by simp
    have "blocks (P @ (r @ [b])) = blocks P @ [r @ [b]]"
      using True blocks_one[of "r @ [b]"] by (simp add: blocks_append[OF a(2)])
    then have "absorbed ((sha256_transform ?c1 (sh_buffer ?c1))\<lparr>sh_buffer_len := 0\<rparr>) (P @ (r @ [b]))"
      unfolding absorbed_def using a(1,2,4) p l8 True full
      by (intro exI[of _ "P @ (r @ [b])"] exI[of _ "[]"]) (simp add: transform_compress)
    then show ?thesis using a(1) p(1) True by (simp add: sha_update_byte_def Let_def)
  next
    case False
    then have "absorbed ?c1 (P @ (r @ [b]))"
      unfolding absorbed_def using a p by (intro exI[of _ P] exI[of _ "r @ [b]"]) simp
    then show ?thesis using a(1) p(1) False by (simp add: sha_update_byte_def Let_def)
  qed
qed

lemma absorbed_update: "absorbed c msg \<Longrightarrow> absorbed (sha256_update c data) (msg @ data)"
proof (induction data arbitrary: c msg)
  case (Cons b bs)
  from Cons.IH[OF absorbed_byte[OF Cons.prems]] show ?case by (simp add: sha256_update_def)
qed (simp add: sha256_update_def)

lemma absorbed_parts: "absorbed c msg \<Longrightarrow> absorbed (foldl sha256_update c parts) (msg @ concat parts)"
proof (induction parts arbitrary: c msg)
  case (Cons p ps)
  from Cons.IH[OF absorbed_update[OF Cons.prems]] show ?case by simp
qed simp

lemma sha_fill_spec:
  "sh_buffer_len c \<le> limit \<Longrightarrow> limit \<le> length (sh_buffer c) \<Longrightarrow>
   sha_fill c limit = c\<lparr>sh_buffer := take (sh_buffer_len c) (sh_buffer c) @ replicate (limit - sh_buffer_len c) 0 @ drop limit (sh_buffer c),
     sh_buffer_len := limit\<rparr>"
proof (induction c limit rule: sha_fill.induct)
  case (1 c limit)
  show ?case
  proof (cases "sh_buffer_len c < limit")
    case True
    let ?n = "sh_buffer_len c"
    have "replicate (limit - ?n) (0 :: u8) = 0 # replicate (limit - Suc ?n) 0"
      using True by (metis Suc_diff_Suc replicate_Suc)
    moreover have "take (Suc ?n) ((sh_buffer c)[?n := 0]) = take ?n (sh_buffer c) @ [0]"
      using True 1(3) by (simp add: take_Suc_update)
    ultimately show ?thesis using True 1 by (subst sha_fill.simps) (simp add: sha_put_def)
  next
    case False
    then show ?thesis using 1(2,3) by (subst sha_fill.simps) simp
  qed
qed

lemma be64_low: "n < 4294967296 \<Longrightarrow> be64 n = [0, 0, 0, 0] @ be32 (of_nat n)"
proof -
  assume n: "n < 4294967296"
  have z: "n div 256 ^ k = 0" if "4 \<le> k" for k
  proof -
    have "(256 :: nat) ^ 4 \<le> 256 ^ k" using that by (intro power_increasing) simp_all
    then show ?thesis using n by simp
  qed
  have b: "(ucast (drop_bit m (of_nat n :: u32)) :: u8) = of_nat (n div 2 ^ m)" if "m \<le> 24" for m
  proof -
    have "unat (drop_bit m (of_nat n :: u32)) = n div 2 ^ m"
      by (subst unat_drop_bit_eq, subst u32_of_nat[OF n], rule drop_bit_eq_div)
    then show ?thesis by (metis of_nat_unat)
  qed
  show "be64 n = [0, 0, 0, 0] @ be32 (of_nat n)"
    using b[of 24] b[of 16] b[of 8] b[of 0] z[of 4] z[of 5] z[of 6] z[of 7]
    by (simp add: be64_def be32_def upt_rec)
qed

lemma sha_put_fields:
  "sh_h (sha_put c b) = sh_h c" "sh_total_bytes (sha_put c b) = sh_total_bytes c"
  "sh_buffer_len (sha_put c b) = sh_buffer_len c + 1" "length (sh_buffer (sha_put c b)) = length (sh_buffer c)"
  by (simp_all add: sha_put_def)

text \<open>The last block: filled to 56 bytes, then the length in bits.\<close>

lemma final_block:
  assumes "sh_buffer_len c \<le> 56" "length (sh_buffer c) = 64" "length (sh_h c) = 8" "length lb = 8"
  shows "sh_h (let d = sha_fill c 56; d2 = d\<lparr>sh_buffer := store_at (sh_buffer d) 56 lb\<rparr> in sha256_transform d2 (sh_buffer d2))
    = compress (sh_h c) (take (sh_buffer_len c) (sh_buffer c) @ replicate (56 - sh_buffer_len c) 0 @ lb)"
proof -
  let ?t = "take (sh_buffer_len c) (sh_buffer c) @ replicate (56 - sh_buffer_len c) 0"
  have f: "sha_fill c 56 = c\<lparr>sh_buffer := ?t @ drop 56 (sh_buffer c), sh_buffer_len := 56\<rparr>"
    using sha_fill_spec[of c 56] assms(1,2) by simp
  have "length ?t = 56" using assms(1,2) by simp
  then have "store_at (?t @ drop 56 (sh_buffer c)) 56 lb = ?t @ lb"
    using store_at_append[of ?t 56 "drop 56 (sh_buffer c)" lb] assms(2,4) by simp
  then show ?thesis using assms(3) unfolding f Let_def by (simp add: transform_compress)
qed

lemma final_absorbed:
  assumes a: "absorbed c msg" and l: "length msg < 536870912"
  shows "fst (sha256_final c) = sha256 msg"
proof -
  obtain P r where a: "msg = P @ r" "64 dvd length P" "length r < 64" "sh_h c = foldl compress sha_H0 (blocks P)"
    "sh_total_bytes c = of_nat (length msg)" "sh_buffer_len c = length r" "length (sh_buffer c) = 64" "take (length r) (sh_buffer c) = r"
    using a unfolding absorbed_def by blast
  define lb where "lb = be64 (8 * length msg)"
  have bits: "[0, 0, 0, 0] @ be32 (sh_total_bytes c * 8) = lb"
    unfolding lb_def using be64_low[of "8 * length msg"] l a(5) by (simp add: mult.commute)
  have lb8: "length lb = 8" by (simp add: lb_def be64_def)
  let ?c1 = "sha_put c 0x80"
  have l8: "length (sh_h ?c1) = 8" "sh_h ?c1 = sh_h c" using a(4) by (simp_all add: sha_put_fields length_foldl_compress)
  have c1: "sh_buffer_len ?c1 = length r + 1" "length (sh_buffer ?c1) = 64" "take (length r + 1) (sh_buffer ?c1) = r @ [0x80]"
    using a(3,6,7,8) take_Suc_update[of "length r" "sh_buffer c" "0x80"] by (simp_all add: sha_put_def)
  have m: "length msg mod 64 = length r" using a(1,2,3) by (auto simp: mod_add_left_eq)
  define c2 where "c2 = (if sh_buffer_len ?c1 > 56
      then (sha256_transform (sha_fill ?c1 64) (sh_buffer (sha_fill ?c1 64)))\<lparr>sh_buffer_len := 0\<rparr> else ?c1)"
  have fin: "fst (sha256_final c) = concat (map be32 (sh_h (let d = sha_fill c2 56; d2 = d\<lparr>sh_buffer := store_at (sh_buffer d) 56 lb\<rparr>
      in sha256_transform d2 (sh_buffer d2))))"
    unfolding sha256_final_def Let_def bits c2_def by simp
  have "sh_h (let d = sha_fill c2 56; d2 = d\<lparr>sh_buffer := store_at (sh_buffer d) 56 lb\<rparr> in sha256_transform d2 (sh_buffer d2))
      = foldl compress sha_H0 (blocks (pad msg))"
  proof (cases "length r + 1 > 56")
    case False
    have c2: "c2 = ?c1" using False c1(1) by (simp add: c2_def)
    let ?b = "r @ [0x80] @ replicate (55 - length r) 0 @ lb"
    have "119 - length r = 64 + (55 - length r)" "55 - length r < 64" using False by simp_all
    then have "(119 - length r) mod 64 = 55 - length r" by (metis mod_add_self1 mod_less)
    then have "pad msg = P @ ?b" using a(1) m by (simp add: pad_def lb_def)
    moreover have "blocks ?b = [?b]" using False lb8 by (intro blocks_one) simp
    ultimately have "foldl compress sha_H0 (blocks (pad msg)) = compress (sh_h c) ?b"
      using a(4) by (simp add: blocks_append[OF a(2)])
    then show ?thesis
      using final_block[of c2 lb] c1 l8 lb8 False unfolding c2 by simp
  next
    case True
    let ?b1 = "r @ [0x80] @ replicate (63 - length r) 0" and ?b2 = "replicate 56 0 @ lb"
    have f: "sh_buffer (sha_fill ?c1 64) = ?b1" "sh_h (sha_fill ?c1 64) = sh_h c"
      using sha_fill_spec[of ?c1 64] c1 a(3) l8 by simp_all
    have c2: "sh_h c2 = compress (sh_h c) ?b1" "sh_buffer_len c2 = 0" "length (sh_buffer c2) = 64"
      using True c1(1) f l8 a(3) by (simp_all add: c2_def transform_compress)
    have "(119 - length r) mod 64 = (63 - length r) + 56" using True a(3) by simp
    then have "pad msg = P @ ?b1 @ ?b2" using a(1) unfolding pad_def m lb_def[symmetric] replicate_add[symmetric]
      by (simp only: replicate_add append_assoc)
    moreover have "blocks (?b1 @ ?b2) = [?b1, ?b2]"
      using blocks_append[of ?b1 ?b2] blocks_one[of ?b1] blocks_one[of ?b2] a(3) lb8 by simp
    ultimately have "foldl compress sha_H0 (blocks (pad msg)) = compress (compress (sh_h c) ?b1) ?b2"
      using a(4) by (simp add: blocks_append[OF a(2)])
    then show ?thesis using final_block[of c2 lb] c2 l8 lb8 by simp
  qed
  then show ?thesis unfolding fin sha256_def by simp
qed

lemma sha256_bytes_parts: "length (concat parts) < 536870912 \<Longrightarrow> sha256_bytes parts = sha256 (concat parts)"
proof -
  assume l: "length (concat parts) < 536870912"
  have "absorbed (sha256_init fresh_ctx) []" by (rule absorbed_init) (simp add: fresh_ctx_def)
  from final_absorbed[OF absorbed_parts[OF this], of parts] l show ?thesis by (simp add: sha256_bytes_def)
qed

text \<open>
  C23: The bootloader's streaming hash is SHA-256: for any cutting of a message of less than
  512 MiB into parts, feeding the parts one after the other and finishing gives the digest of
  the standard: pad, cut into blocks, compress.
\<close>
theorem streaming_hash_is_sha256:
  assumes "length (concat parts) < 536870912"
  shows "sha256_bytes parts = sha256 (concat parts)"
  using assms by (rule sha256_bytes_parts)

theorem streaming_hash_is_sha256_witness:
  "sha256_bytes [[0x61], [0x62, 0x63]] = sha256 [0x61, 0x62, 0x63]"
  using streaming_hash_is_sha256[of "[[0x61], [0x62, 0x63]]"] by simp

end
