(* ===== verification/Boot_Update.thy ===== *)
theory Boot_Update
  imports Boot_Sha256 Crc_Codes Flash_Persistence
begin

unbundle bit_operations_syntax

text \<open>
  The update bootloader (\<open>src/bootloader/bootloader.c\<close>): the metadata records that say which
  image may run, the flash it writes, and the handlers of an update. The image key, the
  identity register of the device and the flash controller are parameters (\<open>boot_env\<close>); the
  controller is the one of \<open>Flash_Persistence\<close>.
\<close>

section \<open>Types\<close>

datatype boot_status =
  ST_OK | ST_INVALID_STATE | ST_BAD_LENGTH | ST_BAD_FLAGS | ST_BAD_HEADER | ST_AUTH_FAILED | ST_TARGET_MISMATCH
| ST_VERSION_REJECTED | ST_OUT_OF_SEQUENCE | ST_FLASH_FAILED | ST_DIGEST_FAILED | ST_VECTOR_INVALID | ST_INTERNAL_ERROR

fun boot_status_code :: "boot_status \<Rightarrow> u8" where
  "boot_status_code ST_OK = 0x00"
| "boot_status_code ST_INVALID_STATE = 0x01"
| "boot_status_code ST_BAD_LENGTH = 0x02"
| "boot_status_code ST_BAD_FLAGS = 0x03"
| "boot_status_code ST_BAD_HEADER = 0x04"
| "boot_status_code ST_AUTH_FAILED = 0x05"
| "boot_status_code ST_TARGET_MISMATCH = 0x06"
| "boot_status_code ST_VERSION_REJECTED = 0x07"
| "boot_status_code ST_OUT_OF_SEQUENCE = 0x08"
| "boot_status_code ST_FLASH_FAILED = 0x09"
| "boot_status_code ST_DIGEST_FAILED = 0x0A"
| "boot_status_code ST_VECTOR_INVALID = 0x0B"
| "boot_status_code ST_INTERNAL_ERROR = 0x0C"

datatype boot_update_state =
  STATE_RECOVERY_IDLE | STATE_HEADER_STAGED | STATE_AUTHORIZED | STATE_RECEIVING | STATE_VERIFYING | STATE_COMMITTED

fun boot_state_code :: "boot_update_state \<Rightarrow> u8" where
  "boot_state_code STATE_RECOVERY_IDLE = 0x00"
| "boot_state_code STATE_HEADER_STAGED = 0x01"
| "boot_state_code STATE_AUTHORIZED = 0x02"
| "boot_state_code STATE_RECEIVING = 0x03"
| "boot_state_code STATE_VERIFYING = 0x04"
| "boot_state_code STATE_COMMITTED = 0x05"

record boot_env =
  be_key :: bytes
  be_idcode :: u32
  be_flash :: flash_hw

text \<open>
  The static variables, the flash with the number of its operations, and the bulk endpoint:
  the packet in its transmit buffer, and whether it accepts another packet.
\<close>

record boot =
  b_mem :: "u32 \<Rightarrow> u8"
  b_ops :: nat
  b_staged_header :: bytes
  b_staged_tag :: bytes
  b_previous_data :: bytes
  b_stream_sha :: sha256_ctx
  b_expected_offset :: u16
  b_previous_offset :: u16
  b_previous_length :: u8
  b_previous_valid :: bool
  b_update_state :: boot_update_state
  b_usb_configuration :: u8
  b_usb_tx_active :: bool
  b_reset_after_tx :: bool
  b_version_floor :: u32
  b_committed_version :: u32
  b_highest_floor_slot :: u32
  b_target_metadata_slot :: u32
  b_tx_packet :: bytes
  b_ep1_tx :: bytes
  b_ep1_rx_valid :: bool

abbreviation (input) APP_BASE :: u32 where "APP_BASE \<equiv> 0x08002000"
abbreviation (input) APP_END :: u32 where "APP_END \<equiv> 0x0800F000"
abbreviation (input) APP_MAX_BYTES :: u32 where "APP_MAX_BYTES \<equiv> 53248"
abbreviation (input) META_A :: u32 where "META_A \<equiv> 0x0800F000"
abbreviation (input) META_B :: u32 where "META_B \<equiv> 0x0800F400"
abbreviation (input) META_PAGE_BYTES :: u32 where "META_PAGE_BYTES \<equiv> 1024"
abbreviation (input) RAM_BASE :: u32 where "RAM_BASE \<equiv> 0x20000000"
abbreviation (input) RAM_END :: u32 where "RAM_END \<equiv> 0x20005000"
abbreviation (input) PRODUCT_ID :: u32 where "PRODUCT_ID \<equiv> 0x534F4544"
abbreviation (input) TARGET_DEVICE_ID :: u16 where "TARGET_DEVICE_ID \<equiv> 0x0410"
abbreviation (input) META_MARKER_OFFSET :: u32 where "META_MARKER_OFFSET \<equiv> 0x50"
abbreviation (input) META_MARKER_COMMITTED :: u16 where "META_MARKER_COMMITTED \<equiv> 0xA55A"

section \<open>Headers, vectors and metadata\<close>

text \<open>A region of the flash as bytes.\<close>

definition flash_region :: "(u32 \<Rightarrow> u8) \<Rightarrow> u32 \<Rightarrow> nat \<Rightarrow> bytes" where
  "flash_region mem a n = map (\<lambda>i. mem (a + of_nat i)) [0..<n]"

text \<open>The comparison accumulates every difference, so its time does not depend on the data.\<close>

definition bytes_equal :: "bytes \<Rightarrow> bytes \<Rightarrow> nat \<Rightarrow> bool" where
  "bytes_equal a b n \<longleftrightarrow> foldl (\<lambda>d i. d OR (a ! i XOR b ! i)) 0 [0..<n] = 0"

definition boot_device_id :: "boot_env \<Rightarrow> u16" where
  "boot_device_id env = ucast (be_idcode env AND 0x0FFF)"

definition header_structural_valid :: "bytes \<Rightarrow> bool" where
  "header_structural_valid h \<longleftrightarrow> (let len = rd32 h 8; ver = rd32 h 12 in
     h ! 4 = 1 \<and> h ! 5 = 0 \<and> len \<ge> 8 \<and> len \<le> APP_MAX_BYTES \<and> len AND 3 = 0 \<and> ver \<noteq> 0)"

definition header_target_valid :: "boot_env \<Rightarrow> bytes \<Rightarrow> bool" where
  "header_target_valid env h \<longleftrightarrow> rd32 h 0 = PRODUCT_ID \<and> rd16 h 6 = TARGET_DEVICE_ID
     \<and> boot_device_id env = TARGET_DEVICE_ID"

definition vector_values_valid :: "u32 \<Rightarrow> u32 \<Rightarrow> u32 \<Rightarrow> bool" where
  "vector_values_valid msp reset image_len =
     (let handler = reset AND NOT 1; image_end = APP_BASE + image_len in
      if image_len < 8 \<or> image_len > APP_MAX_BYTES then False
      else if image_end < APP_BASE \<or> image_end > APP_END then False
      else if msp AND 7 \<noteq> 0 \<or> msp < RAM_BASE \<or> msp > RAM_END then False
      else if reset AND 1 = 0 \<or> handler < APP_BASE \<or> handler \<ge> image_end then False
      else True)"

definition vectors_valid :: "(u32 \<Rightarrow> u8) \<Rightarrow> u32 \<Rightarrow> bool" where
  "vectors_valid mem image_len = vector_values_valid (read_u32 mem APP_BASE) (read_u32 mem (APP_BASE + 4)) image_len"

definition app_matches_header :: "(u32 \<Rightarrow> u8) \<Rightarrow> bytes \<Rightarrow> bool" where
  "app_matches_header mem header = (let len = rd32 header 8; digest = sha256_memory mem APP_BASE (unat len)
     in bytes_equal digest (drop 16 header) 32 \<and> vectors_valid mem len)"

text \<open>The version of the metadata record at a slot, when it is committed and authentic.\<close>

definition metadata_authenticated :: "boot_env \<Rightarrow> (u32 \<Rightarrow> u8) \<Rightarrow> u32 \<Rightarrow> u32 option" where
  "metadata_authenticated env mem slot =
     (let header = flash_region mem slot 48; tag = flash_region mem (slot + 48) 32 in
      if read_u16 mem (slot + META_MARKER_OFFSET) \<noteq> META_MARKER_COMMITTED then None
      else if \<not> header_structural_valid header then None
      else if \<not> bytes_equal (hmac_header (be_key env) header) tag 32 then None
      else if \<not> header_target_valid env header then None
      else Some (rd32 header 12))"

definition scan_metadata :: "boot_env \<Rightarrow> boot \<Rightarrow> boot" where
  "scan_metadata env b =
     (let mem = b_mem b;
          aa = metadata_authenticated env mem META_A; ab = metadata_authenticated env mem META_B;
          b0 = b\<lparr>b_committed_version := 0, b_version_floor := 0, b_highest_floor_slot := 0\<rparr>;
          b1 = (case aa of None \<Rightarrow> b0 | Some va \<Rightarrow> b0\<lparr>b_version_floor := va, b_highest_floor_slot := META_A\<rparr>);
          b2 = (case ab of None \<Rightarrow> b1 | Some vb \<Rightarrow>
                  if vb \<ge> b_version_floor b1 then b1\<lparr>b_version_floor := vb, b_highest_floor_slot := META_B\<rparr> else b1);
          (best_boot, b3) = (case aa of None \<Rightarrow> (0, b2) | Some va \<Rightarrow>
                  if app_matches_header mem (flash_region mem META_A 48) then (va, b2\<lparr>b_committed_version := va\<rparr>) else (0, b2))
      in case ab of None \<Rightarrow> b3 | Some vb \<Rightarrow>
           if app_matches_header mem (flash_region mem META_B 48) \<and> vb \<ge> best_boot
           then b3\<lparr>b_committed_version := vb\<rparr> else b3)"

section \<open>Flash\<close>

text \<open>
  One operation: the oscillator, the unlock, the effect, the wait and the status. \<open>erase\<close> and
  \<open>program\<close> of the code share this sequence.
\<close>

definition boot_flash_execute :: "boot_env \<Rightarrow> boot \<Rightarrow> u32 \<Rightarrow> u16 \<Rightarrow> flash_operation \<Rightarrow> bool \<times> boot" where
  "boot_flash_execute env b address value operation =
     (let oc = be_flash env (b_ops b); b0 = b\<lparr>b_ops := b_ops b + 1\<rparr> in
      if \<not> fo_hsi_ready oc then (False, b0)
      else if \<not> flash_wait_ready (fo_busy_before oc) \<or> \<not> fo_unlocks oc then (False, b0)
      else let b1 = b0\<lparr>b_mem := flash_effect oc (b_mem b0) address value operation\<rparr> in
        if \<not> flash_wait_ready (fo_busy_after oc) then (False, b1)
        else (fo_status oc AND (FLASH_SR_EOP OR FLASH_SR_PGERR OR FLASH_SR_WRPRTERR) = FLASH_SR_EOP, b1))"

definition flash_owned_address :: "u32 \<Rightarrow> bool" where
  "flash_owned_address a \<longleftrightarrow> (a \<ge> APP_BASE \<and> a < APP_END \<or> a \<ge> META_A \<and> a < META_B + META_PAGE_BYTES) \<and> a AND 1 = 0"

definition flash_erase_page :: "boot_env \<Rightarrow> boot \<Rightarrow> u32 \<Rightarrow> bool \<times> boot" where
  "flash_erase_page env b page =
     (if page AND 0x3FF \<noteq> 0 then (False, b)
      else if \<not> (page \<ge> APP_BASE \<and> page < APP_END \<or> page = META_A \<or> page = META_B) then (False, b)
      else case boot_flash_execute env b page 0 FLASH_PERSISTENCE_OP_ERASE of (ok, b1) \<Rightarrow>
        if \<not> ok then (False, b1)
        else (\<forall>k \<in> set [0..<512]. read_u16 (b_mem b1) (page + of_nat (2 * k)) = 0xFFFF, b1))"

definition flash_program_halfword :: "boot_env \<Rightarrow> boot \<Rightarrow> u32 \<Rightarrow> u16 \<Rightarrow> bool \<times> boot" where
  "flash_program_halfword env b a v =
     (if \<not> flash_owned_address a then (False, b)
      else if v = 0xFFFF then (read_u16 (b_mem b) a = 0xFFFF, b)
      else if read_u16 (b_mem b) a \<noteq> 0xFFFF then (False, b)
      else case boot_flash_execute env b a v FLASH_PERSISTENCE_OP_PROGRAM of (ok, b1) \<Rightarrow>
        if \<not> ok then (False, b1) else (read_u16 (b_mem b1) a = v, b1))"

text \<open>Pairs of bytes from \<open>a\<close> on; an odd number of bytes is refused.\<close>

fun program_pairs :: "boot_env \<Rightarrow> boot \<Rightarrow> u32 \<Rightarrow> bytes \<Rightarrow> bool \<times> boot" where
  "program_pairs env b a (x # y # rest) =
     (case flash_program_halfword env b a (ucast x OR push_bit 8 (ucast y)) of (ok, b1) \<Rightarrow>
        if \<not> ok then (False, b1) else program_pairs env b1 (a + 2) rest)"
| "program_pairs env b a _ = (True, b)"

definition flash_program_even_bytes :: "boot_env \<Rightarrow> boot \<Rightarrow> u32 \<Rightarrow> bytes \<Rightarrow> bool \<times> boot" where
  "flash_program_even_bytes env b a p = (if odd (length p) then (False, b) else program_pairs env b a p)"

section \<open>The handlers of an update\<close>

definition set_state :: "boot_update_state \<Rightarrow> boot \<Rightarrow> boot" where
  "set_state st b = b\<lparr>b_update_state := st\<rparr>"

text \<open>\<open>p\<close> is the packet from its opcode on, \<open>n\<close> the payload length.\<close>

definition handle_begin :: "boot \<Rightarrow> bytes \<Rightarrow> u16 \<Rightarrow> boot_status \<times> boot" where
  "handle_begin b p n =
     (if n \<noteq> 49 then (ST_BAD_LENGTH, b)
      else if b_update_state b \<noteq> STATE_RECOVERY_IDLE \<and> b_update_state b \<noteq> STATE_HEADER_STAGED then (ST_INVALID_STATE, b)
      else let b1 = b\<lparr>b_staged_header := take 48 (drop 1 p), b_previous_valid := False, b_expected_offset := 0,
                      b_target_metadata_slot := 0\<rparr> in
        if \<not> header_structural_valid (b_staged_header b1) then (ST_BAD_HEADER, set_state STATE_RECOVERY_IDLE b1)
        else (ST_OK, set_state STATE_HEADER_STAGED b1))"

definition handle_authorize :: "boot_env \<Rightarrow> boot \<Rightarrow> bytes \<Rightarrow> u16 \<Rightarrow> boot_status \<times> boot" where
  "handle_authorize env b p n =
     (if n \<noteq> 33 then (ST_BAD_LENGTH, b)
      else if b_update_state b \<noteq> STATE_HEADER_STAGED then (ST_INVALID_STATE, b)
      else let b1 = b\<lparr>b_staged_tag := take 32 (drop 1 p)\<rparr> in
        if \<not> bytes_equal (hmac_header (be_key env) (b_staged_header b1)) (b_staged_tag b1) 32 then (ST_AUTH_FAILED, b1)
        else if \<not> header_target_valid env (b_staged_header b1) then (ST_TARGET_MISMATCH, b1)
        else let b2 = scan_metadata env b1; cand = rd32 (b_staged_header b2) 12 in
          if (if b_committed_version b2 \<noteq> 0 then cand \<le> b_version_floor b2 else cand < b_version_floor b2)
          then (ST_VERSION_REJECTED, b2)
          else let b3 = b2\<lparr>b_target_metadata_slot := (if b_highest_floor_slot b2 = META_A then META_B else META_A)\<rparr> in
            case flash_erase_page env b3 (b_target_metadata_slot b3) of (ok, b4) \<Rightarrow>
              if \<not> ok then (ST_FLASH_FAILED, set_state STATE_RECOVERY_IDLE b4)
              else (ST_OK, set_state STATE_AUTHORIZED (b4\<lparr>b_stream_sha := sha256_init (b_stream_sha b4),
                      b_expected_offset := 0, b_previous_valid := False\<rparr>)))"

definition handle_data :: "boot_env \<Rightarrow> boot \<Rightarrow> bytes \<Rightarrow> u16 \<Rightarrow> boot_status \<times> boot" where
  "handle_data env b p n =
     (if n < 5 \<or> n > 51 then (ST_BAD_LENGTH, b)
      else if b_update_state b \<noteq> STATE_AUTHORIZED \<and> b_update_state b \<noteq> STATE_RECEIVING then (ST_INVALID_STATE, b)
      else let off = rd16 p 1; len = ucast (n - 3) :: u8; image_len = rd32 (b_staged_header b) 8;
               data = take (unat len) (drop 3 p); addr = APP_BASE + ucast off in
        if off AND 1 \<noteq> 0 \<or> len AND 1 \<noteq> 0 \<or> len < 2 \<or> len > 48 \<or> ucast off + ucast len > image_len then (ST_BAD_LENGTH, b)
        else if (ucast off AND 0x3FF) + (ucast len :: u32) > 1024 then (ST_BAD_LENGTH, b)
        else if b_previous_valid b \<and> off = b_previous_offset b \<and> len = b_previous_length b
            \<and> bytes_equal data (b_previous_data b) (unat len) then (ST_OK, b)
        else if off \<noteq> b_expected_offset b then (ST_OUT_OF_SEQUENCE, b)
        else case (if ucast off AND (0x3FF :: u32) = 0 then flash_erase_page env b addr else (True, b)) of (ok, b1) \<Rightarrow>
          if \<not> ok then (ST_FLASH_FAILED, set_state STATE_RECOVERY_IDLE b1)
          else case flash_program_even_bytes env b1 addr data of (ok, b2) \<Rightarrow>
            if \<not> ok then (ST_FLASH_FAILED, set_state STATE_RECOVERY_IDLE b2)
            else if \<exists>i \<in> set [0..<unat len]. b_mem b2 (addr + of_nat i) \<noteq> data ! i
            then (ST_FLASH_FAILED, set_state STATE_RECOVERY_IDLE b2)
            else (ST_OK, set_state STATE_RECEIVING (b2\<lparr>b_stream_sha := sha256_update (b_stream_sha b2) data,
                   b_previous_data := store_at (b_previous_data b2) 0 data, b_previous_offset := off,
                   b_previous_length := len, b_previous_valid := True,
                   b_expected_offset := b_expected_offset b2 + ucast len\<rparr>)))"

text \<open>The record is programmed header first, then the tag, and the marker last.\<close>

definition program_metadata :: "boot_env \<Rightarrow> boot \<Rightarrow> bool \<times> boot" where
  "program_metadata env b = (let slot = b_target_metadata_slot b in
     case flash_program_even_bytes env b slot (b_staged_header b) of (ok, b1) \<Rightarrow>
       if \<not> ok then (False, b1)
       else case flash_program_even_bytes env b1 (slot + 48) (b_staged_tag b1) of (ok, b2) \<Rightarrow>
         if \<not> ok then (False, b2)
         else flash_program_halfword env b2 (slot + META_MARKER_OFFSET) META_MARKER_COMMITTED)"

definition handle_end :: "boot_env \<Rightarrow> boot \<Rightarrow> u16 \<Rightarrow> boot_status \<times> boot" where
  "handle_end env b n =
     (if n \<noteq> 1 then (ST_BAD_LENGTH, b)
      else if b_update_state b \<noteq> STATE_AUTHORIZED \<and> b_update_state b \<noteq> STATE_RECEIVING then (ST_INVALID_STATE, b)
      else let image_len = rd32 (b_staged_header b) 8; wanted = drop 16 (b_staged_header b) in
        if ucast (b_expected_offset b) \<noteq> image_len then (ST_OUT_OF_SEQUENCE, b)
        else case sha256_final (b_stream_sha b) of (streamed, ctx) \<Rightarrow>
          let b1 = (set_state STATE_VERIFYING b)\<lparr>b_stream_sha := ctx\<rparr> in
          if \<not> bytes_equal streamed wanted 32 then (ST_DIGEST_FAILED, set_state STATE_RECOVERY_IDLE b1)
          else if \<not> bytes_equal (sha256_memory (b_mem b1) APP_BASE (unat image_len)) wanted 32
          then (ST_DIGEST_FAILED, set_state STATE_RECOVERY_IDLE b1)
          else if \<not> vectors_valid (b_mem b1) image_len then (ST_VECTOR_INVALID, set_state STATE_RECOVERY_IDLE b1)
          else if b_target_metadata_slot b1 \<noteq> META_A \<and> b_target_metadata_slot b1 \<noteq> META_B
          then (ST_INTERNAL_ERROR, set_state STATE_RECOVERY_IDLE b1)
          else case program_metadata env b1 of (ok, b2) \<Rightarrow>
            if \<not> ok then (ST_FLASH_FAILED, set_state STATE_RECOVERY_IDLE b2)
            else let cand = rd32 (b_staged_header b2) 12;
                     b3 = (if cand > b_version_floor b2 then b2\<lparr>b_version_floor := cand\<rparr> else b2)
              in (ST_OK, set_state STATE_COMMITTED (b3\<lparr>b_committed_version := cand, b_reset_after_tx := True\<rparr>)))"

section \<open>Packets\<close>

definition build_response :: "boot \<Rightarrow> u16 \<Rightarrow> u8 \<Rightarrow> boot_status \<Rightarrow> boot" where
  "build_response b request_id opcode status =
     (let eo = (if b_update_state b = STATE_AUTHORIZED \<or> b_update_state b = STATE_RECEIVING then b_expected_offset b else 0);
          t = store_at (b_tx_packet b) 0 ([0xA5, 0x5A, 1, 0x86, 0, 0] @ wr16 request_id @ wr16 16
                @ [opcode, boot_status_code status, boot_state_code (b_update_state b), 0] @ wr16 eo @ [0, 0]
                @ wr32 (b_version_floor b) @ wr32 (b_committed_version b));
          crc = crc16_ccitt (drop 2 t) 24
      in b\<lparr>b_tx_packet := store_at t 26 (wr16 crc)\<rparr>)"

definition bulk_send :: "boot \<Rightarrow> bytes \<Rightarrow> nat \<Rightarrow> bool \<times> boot" where
  "bulk_send b d n =
     (if b_usb_configuration b \<noteq> 1 \<or> b_usb_tx_active b \<or> n > 64 then (False, b)
      else (True, b\<lparr>b_ep1_tx := take n d, b_usb_tx_active := True\<rparr>))"

text \<open>\<open>False\<close>: not a request, no answer. \<open>rx\<close> is the 64-byte receive buffer.\<close>

definition boot_request :: "boot_env \<Rightarrow> boot \<Rightarrow> bytes \<Rightarrow> u16 \<Rightarrow> boot_status \<times> boot" where
  "boot_request env b rx payload =
     (let flags = rx ! 4; opcode = rx ! 10 in
      if opcode = 0x02 then
        (if flags \<noteq> 0 \<or> payload \<noteq> 1 then (if flags \<noteq> 0 then ST_BAD_FLAGS else ST_BAD_LENGTH, b)
         else (ST_OK, scan_metadata env b))
      else if flags \<noteq> 0x01 then (ST_BAD_FLAGS, b)
      else if opcode = 0x03 then handle_begin b (drop 10 rx) payload
      else if opcode = 0x04 then handle_authorize env b (drop 10 rx) payload
      else if opcode = 0x05 then handle_data env b (drop 10 rx) payload
      else if opcode = 0x06 then handle_end env b payload
      else (ST_INVALID_STATE, b))"

definition process_bulk_packet :: "boot_env \<Rightarrow> boot \<Rightarrow> bytes \<Rightarrow> u16 \<Rightarrow> bool \<times> boot" where
  "process_bulk_packet env b rx n =
     (if n < 12 \<or> n > 64 then (False, b)
      else if rx ! 0 \<noteq> 0xA5 \<or> rx ! 1 \<noteq> 0x5A \<or> rx ! 2 \<noteq> 1 \<or> rx ! 3 \<noteq> 0x04 \<or> rx ! 5 \<noteq> 0 then (False, b)
      else let request_id = rd16 rx 6; payload = rd16 rx 8 in
        if request_id = 0 \<or> payload > 52 \<or> n \<noteq> 12 + payload \<or> payload = 0 then (False, b)
        else if crc16_ccitt (drop 2 rx) (8 + unat payload) \<noteq> rd16 rx (10 + unat payload) then (False, b)
        else case boot_request env b rx payload of (status, b1) \<Rightarrow>
          let b2 = build_response b1 request_id (rx ! 10) status in
          case bulk_send b2 (b_tx_packet b2) 28 of (sent, b3) \<Rightarrow>
            (True, if \<not> sent then b3\<lparr>b_ep1_rx_valid := True\<rparr> else b3))"

text \<open>
  The endpoint handlers, on the packet the endpoint holds: its first \<open>n\<close> bytes (an even
  number of them) replace those of the receive buffer.
\<close>

definition boot_handle_ep1_rx :: "boot_env \<Rightarrow> boot \<Rightarrow> bytes \<Rightarrow> u16 \<Rightarrow> boot" where
  "boot_handle_ep1_rx env b rx n =
     (let b1 = b\<lparr>b_ep1_rx_valid := False\<rparr> in
      if n \<le> 64 then (case process_bulk_packet env b1 rx n of (answered, b2) \<Rightarrow>
        if \<not> answered then b2\<lparr>b_ep1_rx_valid := True\<rparr> else b2)
      else b1\<lparr>b_ep1_rx_valid := True\<rparr>)"

text \<open>\<open>None\<close>: the system is reset.\<close>

definition boot_handle_ep1_tx :: "boot \<Rightarrow> boot option" where
  "boot_handle_ep1_tx b = (let b1 = b\<lparr>b_usb_tx_active := False\<rparr> in
     if b_reset_after_tx b1 then None else Some (b1\<lparr>b_ep1_rx_valid := True\<rparr>))"

section \<open>The boot decision\<close>

datatype boot_decision = Handoff u32 u32 | Recovery boot | Halt

definition boot_main :: "boot_env \<Rightarrow> boot \<Rightarrow> bool \<Rightarrow> bool \<Rightarrow> boot_decision" where
  "boot_main env b explicit_update clock_ok =
     (let b1 = scan_metadata env b in
      if \<not> explicit_update \<and> b_committed_version b1 \<noteq> 0
      then Handoff (read_u32 (b_mem b1) APP_BASE) (read_u32 (b_mem b1) (APP_BASE + 4))
      else let b2 = b1\<lparr>b_update_state := STATE_RECOVERY_IDLE, b_expected_offset := 0, b_previous_valid := False,
                       b_reset_after_tx := False\<rparr> in
        if \<not> clock_ok then Halt else Recovery b2)"

end
