(* ===== verification/Boot_Safety.thy ===== *)
theory Boot_Safety
  imports Boot_Update
begin

unbundle bit_operations_syntax

text \<open>
  What the bootloader guarantees whatever is sent to it and whatever the flash controller
  does: it writes only the application and metadata pages, it never loses the version floor,
  and it starts only an image that an authenticated record vouches for.
\<close>

section \<open>Bytes and addresses\<close>

lemma or_foldl_zero: "foldl (\<lambda>d i. d OR f i) (d :: u8) xs = 0 \<longleftrightarrow> d = 0 \<and> (\<forall>i \<in> set xs. f i = 0)"
proof (induction xs arbitrary: d)
  case (Cons x xs)
  have "d OR f x = 0 \<longleftrightarrow> d = 0 \<and> f x = 0" by (auto simp: bit_eq_iff bit_simps)
  then show ?case using Cons.IH[of "d OR f x"] by simp
qed simp

lemma bytes_equal_iff: "bytes_equal a b n \<longleftrightarrow> (\<forall>i < n. a ! i = b ! i)"
proof -
  have "x XOR y = 0 \<longleftrightarrow> x = y" for x y :: u8 by (auto simp: bit_eq_iff bit_simps)
  then show ?thesis unfolding bytes_equal_def or_foldl_zero by auto
qed

lemma bytes_equal_lists: "length a = n \<Longrightarrow> length b = n \<Longrightarrow> bytes_equal a b n \<longleftrightarrow> a = b"
  by (auto simp: bytes_equal_iff intro: nth_equalityI)

lemma even_and_one: "(a :: u32) AND 1 = 0 \<longleftrightarrow> even a"
  by (simp add: and_one_eq even_iff_mod_2_eq_zero)

lemma even_unat: "even (a :: u32) \<longleftrightarrow> even (unat a)"
proof -
  have "bit (unat a) 0 = bit a 0" by (simp add: bit_unsigned_iff)
  then show ?thesis by (simp add: bit_0)
qed

section \<open>What the flash operations touch\<close>

definition span :: "u32 \<Rightarrow> nat \<Rightarrow> u32 set" where
  "span a n = {x. unat (x - a) < n}"

lemma span_iff:
  assumes "unat a + n \<le> 4294967296"
  shows "x \<in> span a n \<longleftrightarrow> unat a \<le> unat x \<and> unat x < unat a + n"
proof -
  have x: "unat x < 4294967296" using unsigned_less[where w = x] by simp
  have "unat (x - a) = (if unat a \<le> unat x then unat x - unat a else unat x + 4294967296 - unat a)"
    by (simp add: unat_sub_if_size word_size)
  then show ?thesis using assms x by (auto simp: span_def)
qed

text \<open>The application and metadata pages.\<close>

definition owned_flash :: "u32 set" where
  "owned_flash = {a. APP_BASE \<le> a \<and> a < META_B + META_PAGE_BYTES}"

text \<open>Only the flash and the number of operations differ, and the flash only in \<open>R\<close>.\<close>

definition flashed :: "u32 set \<Rightarrow> boot \<Rightarrow> boot \<Rightarrow> bool" where
  "flashed R b b' \<longleftrightarrow> b' = b\<lparr>b_mem := b_mem b', b_ops := b_ops b'\<rparr> \<and> (\<forall>a. a \<notin> R \<longrightarrow> b_mem b' a = b_mem b a)"

lemma flashed_refl [simp]: "flashed R b b"
  by (simp add: flashed_def)

lemma flashed_mono: "flashed R b b' \<Longrightarrow> R \<subseteq> S \<Longrightarrow> flashed S b b'"
  by (auto simp: flashed_def)

lemma flashed_trans:
  assumes "flashed R b c" "flashed R c d"
  shows "flashed R b d"
proof -
  from assms have e: "d = c\<lparr>b_mem := b_mem d, b_ops := b_ops d\<rparr>" "c = b\<lparr>b_mem := b_mem c, b_ops := b_ops c\<rparr>"
    by (simp_all add: flashed_def)
  have "d = b\<lparr>b_mem := b_mem d, b_ops := b_ops d\<rparr>" by (subst e(1), subst e(2)) simp
  then show ?thesis using assms by (auto simp: flashed_def)
qed

lemma execute_flashed:
  assumes "boot_flash_execute env b a v op = (ok, b')"
  shows "flashed (case op of FLASH_PERSISTENCE_OP_ERASE \<Rightarrow> span a 1024 | FLASH_PERSISTENCE_OP_PROGRAM \<Rightarrow> {a, a + 1}) b b'"
  using assms
  by (cases op) (auto simp: boot_flash_execute_def flashed_def flash_effect_def span_def Let_def split: if_splits)

lemma page_facts:
  fixes page :: u32
  assumes "page AND 0x3FF = 0"
  shows "1024 dvd unat page" "unat page + 1024 \<le> 4294967296"
proof -
  have m: "(mask 10 :: u32) = 0x3FF" by (simp add: mask_eq_exp_minus_1)
  have "take_bit 10 page = 0" unfolding take_bit_eq_mask m using assms by simp
  moreover have "take_bit 10 (unat page) = unat (take_bit 10 page)" by (rule unsigned_take_bit_eq[symmetric])
  ultimately have "take_bit 10 (unat page) = 0" by simp
  then have "unat page mod 1024 = 0" by (simp add: take_bit_eq_mod)
  then show d: "1024 dvd unat page" by (rule mod_0_imp_dvd)
  then obtain k where k: "unat page = 1024 * k" by (rule dvdE)
  have "unat page < 4294967296" using unsigned_less[where w = page] by simp
  then show "unat page + 1024 \<le> 4294967296" unfolding k by simp
qed

lemma owned_page:
  assumes a: "page AND 0x3FF = 0" and g: "page \<ge> APP_BASE \<and> page < APP_END \<or> page = META_A \<or> page = META_B"
  shows "span page 1024 \<subseteq> owned_flash"
proof
  fix x assume "x \<in> span page 1024"
  then have x: "unat page \<le> unat x" "unat x < unat page + 1024" using span_iff page_facts(2)[OF a] by auto
  have "unat page mod 1024 = 0" using page_facts(1)[OF a] by presburger
  moreover have "0x08002000 \<le> unat page" "unat page \<le> 0x0800F400"
    using g by (auto simp: word_le_nat_alt word_less_nat_alt)
  ultimately show "x \<in> owned_flash" using x by (simp add: owned_flash_def word_le_nat_alt word_less_nat_alt)
qed

lemma erase_flashed:
  assumes e: "flash_erase_page env b page = (ok, b')"
  shows "flashed (span page 1024) b b'" "flashed owned_flash b b'"
    "ok \<Longrightarrow> x \<in> span page 1024 \<Longrightarrow> b_mem b' x = 0xFF"
proof -
  let ?g = "page AND 0x3FF = 0 \<and> (page \<ge> APP_BASE \<and> page < APP_END \<or> page = META_A \<or> page = META_B)"
  obtain ok1 b1 where x: "boot_flash_execute env b page 0 FLASH_PERSISTENCE_OP_ERASE = (ok1, b1)" by fastforce
  have b': "b' = (if ?g then b1 else b)" using e x by (auto simp: flash_erase_page_def split: if_splits)
  show f: "flashed (span page 1024) b b'" using execute_flashed[OF x] b' by simp
  show "flashed owned_flash b b'"
  proof (cases ?g)
    case True
    then show ?thesis using flashed_mono[OF f owned_page] by blast
  next
    case False
    then have "b' = b" using b' by argo
    then show ?thesis by simp
  qed
  show "b_mem b' x = 0xFF" if ok "x \<in> span page 1024"
  proof -
    have g: ?g and r: "\<forall>k \<in> set [0..<512]. read_u16 (b_mem b') (page + of_nat (2 * k)) = 0xFFFF"
      using e x that(1) by (auto simp: flash_erase_page_def split: if_splits)
    define i where "i = unat (x - page)"
    have i: "i < 1024" "x = page + of_nat i" using that(2) by (simp_all add: i_def span_def)
    have "read_u16 (b_mem b') (page + of_nat (2 * (i div 2))) = 0xFFFF" using r i(1) by auto
    moreover have "page + of_nat (2 * (i div 2)) + 1 = page + of_nat (2 * (i div 2) + 1)" by (simp add: add.assoc)
    moreover have "ucast (0xFFFF :: u16) = (0xFF :: u8)" "ucast (drop_bit 8 (0xFFFF :: u16)) = (0xFF :: u8)" by simp_all
    ultimately have "b_mem b' (page + of_nat (2 * (i div 2))) = 0xFF" "b_mem b' (page + of_nat (2 * (i div 2) + 1)) = 0xFF"
      unfolding read_u16_eq by metis+
    moreover have "i = 2 * (i div 2) \<or> i = 2 * (i div 2) + 1" by presburger
    ultimately show ?thesis using i(2) by metis
  qed
qed

lemma owned_pair:
  assumes "flash_owned_address a"
  shows "{a, a + 1} \<subseteq> owned_flash"
proof -
  have r: "0x08002000 \<le> unat a" "unat a < 0x0800F800"
    using assms by (auto simp: flash_owned_address_def word_le_nat_alt word_less_nat_alt)
  have "even (unat a)" using assms by (auto simp: flash_owned_address_def even_and_one even_unat)
  then have "unat a \<noteq> 0x0800F7FF" by presburger
  moreover have "unat (a + 1) = unat a + 1" using r by (simp add: unat_word_ariths(1))
  ultimately show ?thesis using r by (simp add: owned_flash_def word_le_nat_alt word_less_nat_alt)
qed

lemma halfword_flashed:
  assumes h: "flash_program_halfword env b a v = (ok, b')"
  shows "flashed {a, a + 1} b b'" "flashed owned_flash b b'" "ok \<Longrightarrow> read_u16 (b_mem b') a = v"
proof -
  obtain ok1 b1 where x: "boot_flash_execute env b a v FLASH_PERSISTENCE_OP_PROGRAM = (ok1, b1)" by fastforce
  have c: "b' = b \<or> flash_owned_address a \<and> b' = b1" using h x by (auto simp: flash_program_halfword_def split: if_splits)
  show f: "flashed {a, a + 1} b b'" using execute_flashed[OF x] c by auto
  show "flashed owned_flash b b'" using c flashed_mono[OF f owned_pair] by auto
  show "read_u16 (b_mem b') a = v" if ok
    using h x that by (auto simp: flash_program_halfword_def split: if_splits)
qed

lemma flash_region_Cons2: "flash_region mem a (Suc (Suc n)) = mem a # mem (a + 1) # flash_region mem (a + 2) n"
proof (rule nth_equalityI)
  fix i assume i: "i < length (flash_region mem a (Suc (Suc n)))"
  consider "i = 0" | "i = 1" | k where "i = Suc (Suc k)" by (metis One_nat_def not0_implies_Suc)
  then show "flash_region mem a (Suc (Suc n)) ! i = (mem a # mem (a + 1) # flash_region mem (a + 2) n) ! i"
    using i by cases (auto simp: flash_region_def add.assoc simp del: upt_Suc)
qed (simp add: flash_region_def)

lemma pairs_flashed:
  "program_pairs env b a p = (ok, b') \<Longrightarrow> unat a + length p \<le> 4294967295 \<Longrightarrow>
    flashed (span a (length p)) b b' \<and> flashed owned_flash b b' \<and> (ok \<and> even (length p) \<longrightarrow> flash_region (b_mem b') a (length p) = p)"
proof (induction env b a p rule: program_pairs.induct)
  case (1 env b a x y rest)
  obtain ok1 b1 where h: "flash_program_halfword env b a (ucast x OR push_bit 8 (ucast y)) = (ok1, b1)" by fastforce
  note hf = halfword_flashed[OF h]
  have g: "unat a + (length rest + 2) \<le> 4294967296" using 1(3) by simp
  have len: "length (x # y # rest) = length rest + 2" by simp
  have ab: "{a, a + 1} \<subseteq> span a (length rest + 2)"
  proof -
    have "unat (a + 1) = unat a + 1" using 1(3) by (simp add: unat_word_ariths(1))
    then show ?thesis using span_iff[OF g] by auto
  qed
  show ?case
  proof (cases ok1)
    case False
    then show ?thesis using 1(2) h hf flashed_mono[OF hf(1) ab] by (simp add: len)
  next
    case True
    then have rec: "program_pairs env b1 (a + 2) rest = (ok, b')" using 1(2) h by simp
    have u: "unat (a + 2) = unat a + 2" using 1(3) by (simp add: unat_word_ariths(1))
    have ih: "flashed (span (a + 2) (length rest)) b1 b'" "flashed owned_flash b1 b'"
      "ok \<and> even (length rest) \<longrightarrow> flash_region (b_mem b') (a + 2) (length rest) = rest"
      using 1(1)[OF h[symmetric] _ rec] True u 1(3) by auto
    have sub: "span (a + 2) (length rest) \<subseteq> span a (length rest + 2)"
      using span_iff[OF g] span_iff[of "a + 2" "length rest"] u 1(3) by auto
    have out: "a \<notin> span (a + 2) (length rest)" "a + 1 \<notin> span (a + 2) (length rest)"
    proof -
      have "unat (a + 1) = unat a + 1" using 1(3) by (simp add: unat_word_ariths(1))
      then show "a \<notin> span (a + 2) (length rest)" "a + 1 \<notin> span (a + 2) (length rest)"
        using span_iff[of "a + 2" "length rest"] u 1(3) by auto
    qed
    have "b_mem b' a = x" "b_mem b' (a + 1) = y"
      using hf(3)[OF True] ih(1) out unfolding read_u16_eq ucast_u16_cat ucast_drop_u16_cat by (simp_all add: flashed_def)
    then have "ok \<and> even (length (x # y # rest)) \<longrightarrow> flash_region (b_mem b') a (length (x # y # rest)) = x # y # rest"
      using ih(3) by (simp add: flash_region_Cons2)
    then show ?thesis
      using flashed_trans[OF flashed_mono[OF hf(1) ab] flashed_mono[OF ih(1) sub]] flashed_trans[OF hf(2) ih(2)]
      by (simp add: len)
  qed
qed (auto simp: flash_region_def)

lemma even_bytes_flashed:
  assumes "flash_program_even_bytes env b a p = (ok, b')" "unat a + length p \<le> 4294967295"
  shows "flashed (span a (length p)) b b'" "flashed owned_flash b b'" "ok \<Longrightarrow> flash_region (b_mem b') a (length p) = p"
  using assms pairs_flashed[of env b a p ok b'] by (auto simp: flash_program_even_bytes_def split: if_splits)

end
