(* ===== verification/Boot_Rollback.thy ===== *)
theory Boot_Rollback
  imports Boot_Safety
begin

unbundle bit_operations_syntax

text \<open>
  The version floor, and the invariant of an update in progress: the record that carries the
  floor is not the one the update replaces.
\<close>

section \<open>The floor\<close>

definition ver :: "boot_env \<Rightarrow> (u32 \<Rightarrow> u8) \<Rightarrow> u32 \<Rightarrow> u32" where
  "ver env mem slot = (case metadata_authenticated env mem slot of None \<Rightarrow> 0 | Some v \<Rightarrow> v)"

text \<open>The highest version of an authentic record.\<close>

definition floor_version :: "boot_env \<Rightarrow> (u32 \<Rightarrow> u8) \<Rightarrow> u32" where
  "floor_version env mem = max (ver env mem META_A) (ver env mem META_B)"

definition other_slot :: "u32 \<Rightarrow> u32" where
  "other_slot slot = (if slot = META_A then META_B else META_A)"

lemma authenticated_version: "metadata_authenticated env mem slot = Some v \<Longrightarrow> v \<noteq> 0"
  by (auto simp: metadata_authenticated_def header_structural_valid_def Let_def split: if_splits)

definition meta_slot :: "u32 \<Rightarrow> bool" where
  "meta_slot s \<longleftrightarrow> s = META_A \<or> s = META_B"

lemma meta_span: "meta_slot s \<Longrightarrow> x \<in> span s 1024 \<longleftrightarrow> unat s \<le> unat x \<and> unat x < unat s + 1024"
  by (rule span_iff) (auto simp: meta_slot_def)

lemma meta_offset: "meta_slot s \<Longrightarrow> i < 1024 \<Longrightarrow> unat (s + of_nat i) = unat s + i"
  using u32_of_nat[of i] by (auto simp: meta_slot_def unat_word_ariths(1))

lemma meta_offset_span: "meta_slot s \<Longrightarrow> i < 1024 \<Longrightarrow> s + of_nat i \<in> span s 1024"
  using meta_span meta_offset by simp

text \<open>Two memories with the same record have the same version.\<close>

lemma metadata_cong:
  assumes s: "meta_slot s" and eq: "\<And>x. x \<in> span s 1024 \<Longrightarrow> mem' x = mem x"
  shows "metadata_authenticated env mem' s = metadata_authenticated env mem s" "ver env mem' s = ver env mem s"
proof -
  have at: "mem' (s + of_nat i) = mem (s + of_nat i)" if "i < 1024" for i using eq meta_offset_span[OF s that] by blast
  have "flash_region mem' s 48 = flash_region mem s 48" using at by (simp add: flash_region_def)
  moreover have "flash_region mem' (s + 48) 32 = flash_region mem (s + 48) 32"
  proof -
    have "mem' (s + 48 + of_nat i) = mem (s + 48 + of_nat i)" if "i < 32" for i
      using at[of "48 + i"] that by (simp add: add.assoc)
    then show ?thesis by (simp add: flash_region_def)
  qed
  moreover have "read_u16 mem' (s + 0x50) = read_u16 mem (s + 0x50)"
    using at[of 80] at[of 81] by (simp add: read_u16_def add.assoc)
  ultimately show "metadata_authenticated env mem' s = metadata_authenticated env mem s"
    by (simp add: metadata_authenticated_def Let_def)
  then show "ver env mem' s = ver env mem s" by (simp add: ver_def)
qed

lemma scan_fields:
  "scan_metadata env b = b\<lparr>b_version_floor := b_version_floor (scan_metadata env b),
     b_highest_floor_slot := b_highest_floor_slot (scan_metadata env b),
     b_committed_version := b_committed_version (scan_metadata env b)\<rparr>"
  by (simp add: scan_metadata_def Let_def split: option.split)

lemma scan_same:
  "b_mem (scan_metadata env b) = b_mem b" "b_update_state (scan_metadata env b) = b_update_state b"
  "b_staged_header (scan_metadata env b) = b_staged_header b" "b_staged_tag (scan_metadata env b) = b_staged_tag b"
  "b_target_metadata_slot (scan_metadata env b) = b_target_metadata_slot b"
  by (subst scan_fields, simp)+

lemma scan_floor:
  "b_version_floor (scan_metadata env b) = floor_version env (b_mem b)"
  "b_highest_floor_slot (scan_metadata env b) = META_A \<Longrightarrow> floor_version env (b_mem b) = ver env (b_mem b) META_A"
  "b_highest_floor_slot (scan_metadata env b) \<noteq> META_A \<Longrightarrow> floor_version env (b_mem b) = ver env (b_mem b) META_B"
  by (auto simp: scan_metadata_def floor_version_def ver_def max_def Let_def split: option.splits if_splits)

text \<open>What the scan calls committed is an authentic record whose image is in the flash.\<close>

lemma scan_committed:
  assumes "b_committed_version (scan_metadata env b) \<noteq> 0"
  shows "\<exists>s. meta_slot s \<and> metadata_authenticated env (b_mem b) s = Some (b_committed_version (scan_metadata env b))
    \<and> app_matches_header (b_mem b) (flash_region (b_mem b) s 48)"
  using assms
  by (auto simp: scan_metadata_def meta_slot_def Let_def split: option.splits if_splits)

section \<open>The invariant of an update\<close>

definition boot_inv :: "boot_env \<Rightarrow> boot \<Rightarrow> bool" where
  "boot_inv env b \<longleftrightarrow> (let h = b_staged_header b; s = b_update_state b in
     (s \<in> {STATE_HEADER_STAGED, STATE_AUTHORIZED, STATE_RECEIVING} \<longrightarrow> header_structural_valid h \<and> length h = 48)
   \<and> (s \<in> {STATE_AUTHORIZED, STATE_RECEIVING} \<longrightarrow>
        meta_slot (b_target_metadata_slot b)
        \<and> floor_version env (b_mem b) = ver env (b_mem b) (other_slot (b_target_metadata_slot b))
        \<and> length (b_staged_tag b) = 32 \<and> bytes_equal (hmac_header (be_key env) h) (b_staged_tag b) 32
        \<and> header_target_valid env h \<and> floor_version env (b_mem b) \<le> rd32 h 12))"

lemma other_meta: "meta_slot s \<Longrightarrow> meta_slot (other_slot s) \<and> span (other_slot s) 1024 \<inter> span s 1024 = {}"
  using meta_span[of META_A] meta_span[of META_B] by (auto simp: meta_slot_def other_slot_def)

lemma other_ver:
  assumes "meta_slot s" "flashed (span s 1024) b b'"
  shows "ver env (b_mem b') (other_slot s) = ver env (b_mem b) (other_slot s)"
  using other_meta[OF assms(1)] assms(2) by (intro metadata_cong(2)) (auto simp: flashed_def)

lemma floor_other: "meta_slot s \<Longrightarrow> floor_version env mem = max (ver env mem s) (ver env mem (other_slot s))"
  by (auto simp: floor_version_def meta_slot_def other_slot_def max.commute)

lemma floor_kept:
  assumes s: "meta_slot s" and f: "floor_version env (b_mem b) = ver env (b_mem b) (other_slot s)" and fl: "flashed (span s 1024) b b'"
  shows "floor_version env (b_mem b) \<le> floor_version env (b_mem b')"
  using other_ver[OF s fl] f floor_other[OF s] by (metis max.cobounded2)

text \<open>An operation on the application region keeps the records.\<close>

lemma app_kept:
  assumes fl: "flashed R b b'" and R: "\<And>x. x \<in> R \<Longrightarrow> unat x < 0x0800F000"
  shows "ver env (b_mem b') s = ver env (b_mem b) s \<or> \<not> meta_slot s" "floor_version env (b_mem b') = floor_version env (b_mem b)"
proof -
  have v: "ver env (b_mem b') s = ver env (b_mem b) s" if "meta_slot s" for s
  proof (rule metadata_cong(2)[OF that])
    fix x assume "x \<in> span s 1024"
    then have "\<not> unat x < 0x0800F000" using meta_span[OF that] that by (auto simp: meta_slot_def)
    then have "x \<notin> R" using R by blast
    then show "b_mem b' x = b_mem b x" using fl by (simp add: flashed_def)
  qed
  then show "ver env (b_mem b') s = ver env (b_mem b) s \<or> \<not> meta_slot s" by blast
  show "floor_version env (b_mem b') = floor_version env (b_mem b)"
    using v[of META_A] v[of META_B] by (simp add: floor_version_def meta_slot_def)
qed

section \<open>Every handler keeps the floor and the invariant\<close>

text \<open>What a request may do: write owned flash, keep or raise the floor, keep the invariant.\<close>

definition safe_step :: "boot_env \<Rightarrow> boot \<Rightarrow> boot \<Rightarrow> bool" where
  "safe_step env b b' \<longleftrightarrow> (\<forall>a. a \<notin> owned_flash \<longrightarrow> b_mem b' a = b_mem b a)
     \<and> floor_version env (b_mem b) \<le> floor_version env (b_mem b') \<and> boot_inv env b'"

lemma safe_same:
  assumes "boot_inv env b" "b_mem b' = b_mem b" "b_staged_header b' = b_staged_header b" "b_staged_tag b' = b_staged_tag b"
    "b_target_metadata_slot b' = b_target_metadata_slot b" "b_update_state b' = b_update_state b"
  shows "safe_step env b b'"
proof -
  have "boot_inv env b' = boot_inv env b" unfolding boot_inv_def Let_def assms(2-6) ..
  then show ?thesis using assms(1,2) by (simp add: safe_step_def)
qed

lemma safe_idle:
  assumes "flashed owned_flash b c" "floor_version env (b_mem b) \<le> floor_version env (b_mem c)"
    "b_mem b' = b_mem c" "b_update_state b' \<in> {STATE_RECOVERY_IDLE, STATE_VERIFYING, STATE_COMMITTED}"
  shows "safe_step env b b'"
  using assms by (auto simp: safe_step_def boot_inv_def flashed_def Let_def)

lemma begin_safe:
  assumes i: "boot_inv env b" and p: "length p \<ge> 49" and h: "handle_begin b p n = (st, b')"
  shows "safe_step env b b'"
proof -
  let ?h = "take 48 (drop 1 p)"
  let ?b1 = "b\<lparr>b_staged_header := ?h, b_previous_valid := False, b_expected_offset := 0, b_target_metadata_slot := 0\<rparr>"
  consider "b' = b" | "b' = set_state STATE_RECOVERY_IDLE ?b1" | "b' = set_state STATE_HEADER_STAGED ?b1" "header_structural_valid ?h"
    using h by (auto simp: handle_begin_def Let_def split: if_splits)
  then have "boot_inv env b' \<and> b_mem b' = b_mem b"
  proof cases
    case 1 then show ?thesis using i by simp
  next
    case 2 then show ?thesis by (simp add: boot_inv_def set_state_def Let_def)
  next
    case 3 then show ?thesis using p by (simp add: boot_inv_def set_state_def Let_def)
  qed
  then show ?thesis by (simp add: safe_step_def)
qed

lemma authorize_safe:
  assumes i: "boot_inv env b" and p: "length p \<ge> 33" and h: "handle_authorize env b p n = (st, b')"
  shows "safe_step env b b'"
proof -
  define b1 where "b1 = b\<lparr>b_staged_tag := take 32 (drop 1 p)\<rparr>"
  define b2 where "b2 = scan_metadata env b1"
  define t where "t = (if b_highest_floor_slot b2 = META_A then META_B else META_A)"
  define b3 where "b3 = b2\<lparr>b_target_metadata_slot := t\<rparr>"
  obtain ok b4 where e: "flash_erase_page env b3 t = (ok, b4)" by fastforce
  let ?auth = "n = 33 \<and> b_update_state b = STATE_HEADER_STAGED
    \<and> bytes_equal (hmac_header (be_key env) (b_staged_header b)) (b_staged_tag b1) 32 \<and> header_target_valid env (b_staged_header b)"
  define rej where "rej \<longleftrightarrow> (if b_committed_version b2 \<noteq> 0 then rd32 (b_staged_header b) 12 \<le> b_version_floor b2
    else rd32 (b_staged_header b) 12 < b_version_floor b2)"
  have same: "b_mem b3 = b_mem b" "b_staged_header b3 = b_staged_header b" "b_staged_tag b3 = take 32 (drop 1 p)"
    "b_mem b2 = b_mem b" "b_staged_header b2 = b_staged_header b" "b_update_state b2 = b_update_state b" "b_mem b1 = b_mem b"
    by (simp_all add: b3_def b2_def b1_def scan_same)
  have eq: "(st, b') = (if \<not> ?auth then handle_authorize env b p n else if rej then (ST_VERSION_REJECTED, b2)
      else if \<not> ok then (ST_FLASH_FAILED, set_state STATE_RECOVERY_IDLE b4)
      else (ST_OK, set_state STATE_AUTHORIZED (b4\<lparr>b_stream_sha := sha256_init (b_stream_sha b4),
                      b_expected_offset := 0, b_previous_valid := False\<rparr>)))"
    using h e unfolding handle_authorize_def Let_def b1_def[symmetric] b2_def[symmetric] t_def[symmetric]
    by (auto simp: same b3_def b1_def rej_def)
  have ms: "meta_slot t" by (simp add: t_def meta_slot_def)
  have fo: "floor_version env (b_mem b) = ver env (b_mem b) (other_slot t)"
    using scan_floor(2,3)[of env b1] unfolding b2_def[symmetric] same(7) by (auto simp: t_def other_slot_def)
  note ef = erase_flashed[OF e]
  consider (early) "\<not> ?auth" | (reject) ?auth rej | (failed) ?auth "\<not> rej" "\<not> ok" | (done1) ?auth "\<not> rej" ok by blast
  then show ?thesis
  proof cases
    case early
    then have "b_mem b' = b_mem b \<and> b_staged_header b' = b_staged_header b \<and> b_update_state b' = b_update_state b
        \<and> (b_update_state b = STATE_HEADER_STAGED \<or> b' = b)"
      using h by (auto simp: handle_authorize_def b1_def Let_def split: if_splits)
    then show ?thesis using i by (auto simp: safe_step_def boot_inv_def Let_def)
  next
    case reject
    then have "b' = b2" using eq by simp
    then show ?thesis using i reject(1) same by (auto simp: safe_step_def boot_inv_def Let_def)
  next
    case failed
    then have b': "b' = set_state STATE_RECOVERY_IDLE b4" using eq by simp
    have "floor_version env (b_mem b3) \<le> floor_version env (b_mem b4)"
      by (rule floor_kept[OF ms _ ef(1)]) (simp add: fo same(1))
    then have "safe_step env b3 b'" by (intro safe_idle[OF ef(2)]) (simp_all add: b' set_state_def)
    then show ?thesis by (simp add: safe_step_def same(1))
  next
    case done1
    then have b': "b' = set_state STATE_AUTHORIZED (b4\<lparr>b_stream_sha := sha256_init (b_stream_sha b4),
                      b_expected_offset := 0, b_previous_valid := False\<rparr>)" using eq by simp
    have f4: "b_staged_header b4 = b_staged_header b" "b_staged_tag b4 = take 32 (drop 1 p)" "b_target_metadata_slot b4 = t"
    proof -
      have q: "b4 = b3\<lparr>b_mem := b_mem b4, b_ops := b_ops b4\<rparr>" using ef(1) by (simp add: flashed_def)
      show "b_staged_header b4 = b_staged_header b" "b_staged_tag b4 = take 32 (drop 1 p)" "b_target_metadata_slot b4 = t"
        by (subst q, simp add: b3_def b2_def b1_def scan_same)+
    qed
    have ff: "b_mem b4 (t + of_nat k) = 0xFF" if "k < 1024" for k using ef(3)[OF done1(3) meta_offset_span[OF ms that]] .
    have "read_u16 (b_mem b4) (t + 0x50) \<noteq> 0xA55A"
      using ff[of 80] by (simp add: read_u16_eq)
    then have z: "ver env (b_mem b4) t = 0" by (simp add: ver_def metadata_authenticated_def Let_def)
    have o: "ver env (b_mem b4) (other_slot t) = floor_version env (b_mem b)"
      using other_ver[OF ms ef(1)] fo same(1) by simp
    have fl: "floor_version env (b_mem b4) = floor_version env (b_mem b)" using floor_other[OF ms] z o by simp
    have cand: "floor_version env (b_mem b) \<le> rd32 (b_staged_header b) 12"
      using done1(2) scan_floor(1)[of env b1] unfolding b2_def[symmetric] same(7) rej_def by (auto split: if_splits)
    have "header_structural_valid (b_staged_header b)" "length (b_staged_header b) = 48"
      using i done1(1) by (simp_all add: boot_inv_def Let_def)
    then have "boot_inv env b'"
      using done1(1) p ms o fl cand by (simp add: boot_inv_def b' set_state_def f4 b1_def Let_def)
    moreover have "\<forall>a. a \<notin> owned_flash \<longrightarrow> b_mem b' a = b_mem b a"
      using ef(2) same(1) by (simp add: flashed_def b' set_state_def)
    ultimately show ?thesis using fl by (simp add: safe_step_def b' set_state_def)
  qed
qed

text \<open>The part of the application region a data packet may touch.\<close>

lemma data_region:
  fixes off :: u16 and len :: u8
  assumes h: "header_structural_valid hdr" and fit: "ucast off + ucast len \<le> rd32 hdr 8" "unat len \<le> 48" "2 \<le> unat len"
  shows "unat ((0x08002000 :: u32) + ucast off) = 0x08002000 + unat off" "unat off + unat len \<le> 53248"
proof -
  note u = unat_ucast_u16[of off] unat_ucast_u8(2)[of len] unat_u16_bound[of off]
  show "unat ((0x08002000 :: u32) + ucast off) = 0x08002000 + unat off" using u by (simp add: unat_word_ariths(1))
  have "unat (ucast off + ucast len :: u32) = unat off + unat len" using u fit(2) by (simp add: unat_word_ariths(1))
  moreover have "unat (rd32 hdr 8) \<le> 53248" using h by (simp add: header_structural_valid_def Let_def word_le_nat_alt)
  ultimately show "unat off + unat len \<le> 53248" using fit(1) by (simp add: word_le_nat_alt)
qed

lemma data_safe:
  assumes i: "boot_inv env b" and p: "length p \<ge> 51" and h: "handle_data env b p n = (st, b')"
  shows "safe_step env b b'"
proof -
  let ?off = "rd16 p 1" and ?len = "ucast (n - 3) :: u8"
  define data where "data = take (unat ?len) (drop 3 p)"
  define addr where "addr = (0x08002000 :: u32) + ucast ?off"
  let ?go = "\<not> (n < 5 \<or> n > 51) \<and> (b_update_state b = STATE_AUTHORIZED \<or> b_update_state b = STATE_RECEIVING)
    \<and> \<not> (?off AND 1 \<noteq> 0 \<or> ?len AND 1 \<noteq> 0 \<or> ?len < 2 \<or> ?len > 48 \<or> ucast ?off + ucast ?len > rd32 (b_staged_header b) 8)"
  define pg where "pg \<longleftrightarrow> ucast ?off AND (0x3FF :: u32) = 0"
  obtain ok1 b1 where e: "(if pg then flash_erase_page env b addr else (True, b)) = (ok1, b1)" by fastforce
  obtain ok2 b2 where w: "flash_program_even_bytes env b1 addr data = (ok2, b2)" by fastforce
  define b3 where "b3 = set_state STATE_RECEIVING (b2\<lparr>b_stream_sha := sha256_update (b_stream_sha b2) data,
      b_previous_data := store_at (b_previous_data b2) 0 data, b_previous_offset := ?off,
      b_previous_length := ?len, b_previous_valid := True, b_expected_offset := b_expected_offset b2 + ucast ?len\<rparr>)"
  have "b' = b \<or> ?go \<and> (b' = set_state STATE_RECOVERY_IDLE b1 \<or> b' = set_state STATE_RECOVERY_IDLE b2 \<or> b' = b3)"
    using h e w unfolding handle_data_def Let_def data_def[symmetric] addr_def[symmetric] pg_def[symmetric] b3_def
    by (auto split: if_splits)
  then consider "b' = b" | (go) ?go "b' = set_state STATE_RECOVERY_IDLE b1 \<or> b' = set_state STATE_RECOVERY_IDLE b2 \<or> b' = b3" by blast
  then show ?thesis
  proof cases
    case 1
    then show ?thesis using i by (simp add: safe_step_def)
  next
    case go
    have hs: "header_structural_valid (b_staged_header b)" using i go(1) by (auto simp: boot_inv_def Let_def)
    have fit: "ucast ?off + ucast ?len \<le> rd32 (b_staged_header b) 8" "unat ?len \<le> 48" "2 \<le> unat ?len"
      using go(1) by (auto simp: word_le_nat_alt word_less_nat_alt not_less)
    note r = data_region[OF hs fit, folded addr_def]
    have ld: "length data \<le> unat ?len" by (simp add: data_def)
    have er: "flashed (span addr 1024) b b1" "flashed owned_flash b b1" "pg \<Longrightarrow> unat addr + 1024 \<le> 0x0800F000" "\<not> pg \<Longrightarrow> b1 = b"
    proof -
      show "flashed (span addr 1024) b b1" "flashed owned_flash b b1" "\<not> pg \<Longrightarrow> b1 = b"
        using e erase_flashed by (auto split: if_splits)
      assume pg
      then have "1024 dvd unat (ucast ?off :: u32)" unfolding pg_def by (rule page_facts)
      then obtain k where k: "unat ?off = 1024 * k" unfolding unat_ucast_u16 by (rule dvdE)
      have "1024 * k + 2 \<le> 53248" using r(2) fit(3) k by simp
      then have "k < 52" by simp
      then show "unat addr + 1024 \<le> 0x0800F000" using r(1) k by simp
    qed
    have wr: "flashed (span addr (length data)) b1 b2" "flashed owned_flash b1 b2"
      using even_bytes_flashed[OF w] r ld fit(2) by simp_all
    have below: "unat x < 0x0800F000" if "x \<in> span addr (length data)" for x
      using that span_iff[of addr "length data"] r ld by simp
    have below1: "unat x < 0x0800F000" if "x \<in> span addr 1024" "pg" for x
      using that span_iff[of addr 1024] er(3) by simp
    have k1: "ver env (b_mem b1) s = ver env (b_mem b) s \<or> \<not> meta_slot s" "floor_version env (b_mem b1) = floor_version env (b_mem b)" for s
      using app_kept[OF er(1) below1] er(4) by (cases pg; simp)+
    have k2: "ver env (b_mem b2) s = ver env (b_mem b1) s \<or> \<not> meta_slot s" "floor_version env (b_mem b2) = floor_version env (b_mem b1)" for s
      using app_kept[OF wr(1) below] by blast+
    have m2: "flashed owned_flash b b2" using flashed_trans[OF er(2) wr(2)] .
    from go(2) show ?thesis
    proof (elim disjE)
      assume "b' = set_state STATE_RECOVERY_IDLE b1"
      then show ?thesis using safe_idle[OF er(2)] k1(2) by (simp add: set_state_def)
    next
      assume "b' = set_state STATE_RECOVERY_IDLE b2"
      then show ?thesis using safe_idle[OF m2] k1(2) k2(2) by (simp add: set_state_def)
    next
      assume b': "b' = b3"
      have q: "b2 = b\<lparr>b_mem := b_mem b2, b_ops := b_ops b2\<rparr>" using m2 by (simp add: flashed_def)
      have f: "b_staged_header b3 = b_staged_header b" "b_staged_tag b3 = b_staged_tag b"
        "b_target_metadata_slot b3 = b_target_metadata_slot b" "b_mem b3 = b_mem b2" "b_update_state b3 = STATE_RECEIVING"
        unfolding b3_def set_state_def by (subst q, simp)+
      have a: "meta_slot (b_target_metadata_slot b)" using i go(1) by (auto simp: boot_inv_def Let_def)
      have "ver env (b_mem b2) (other_slot (b_target_metadata_slot b)) = ver env (b_mem b) (other_slot (b_target_metadata_slot b))"
        using k1(1) k2(1) other_meta[OF a] by metis
      then have "boot_inv env b3" using i go(1) k1(2) k2(2) unfolding boot_inv_def Let_def f by auto
      then show ?thesis using m2 k1(2) k2(2) f(4) b' by (simp add: safe_step_def flashed_def)
    qed
  qed
qed

lemma metadata_flashed:
  assumes t: "meta_slot (b_target_metadata_slot b)" and l: "length (b_staged_header b) = 48" "length (b_staged_tag b) = 32"
    and w: "program_metadata env b = (ok, b')"
  shows "flashed (span (b_target_metadata_slot b) 1024) b b'" "flashed owned_flash b b'"
    "ok \<Longrightarrow> flash_region (b_mem b') (b_target_metadata_slot b) 48 = b_staged_header b
       \<and> flash_region (b_mem b') (b_target_metadata_slot b + 48) 32 = b_staged_tag b
       \<and> read_u16 (b_mem b') (b_target_metadata_slot b + 0x50) = 0xA55A"
proof -
  define t where "t = b_target_metadata_slot b"
  have tm: "meta_slot t" using t by (simp add: t_def)
  have u: "unat (t + of_nat k) = unat t + k" if "k < 1024" for k using meta_offset[OF tm that] .
  have u48: "unat (t + 48) = unat t + 48" and u80: "unat (t + 80) = unat t + 80" and u81: "unat (t + 80 + 1) = unat t + 81"
    using u[of 48] u[of 80] u[of 81] by (simp_all add: add.assoc)
  have tb: "unat t \<le> 0x0800F400" using tm by (auto simp: meta_slot_def)
  obtain ok1 b1 where w1: "flash_program_even_bytes env b t (b_staged_header b) = (ok1, b1)" by fastforce
  obtain ok2 b2 where w2: "flash_program_even_bytes env b1 (t + 48) (b_staged_tag b) = (ok2, b2)" by fastforce
  obtain ok3 b3 where w3: "flash_program_halfword env b2 (t + 80) 0xA55A = (ok3, b3)" by fastforce
  have f1: "flashed (span t 48) b b1" "flashed owned_flash b b1" "ok1 \<Longrightarrow> flash_region (b_mem b1) t 48 = b_staged_header b"
    using even_bytes_flashed[OF w1, unfolded l(1)] tb by simp_all
  have tag: "b_staged_tag b1 = b_staged_tag b"
  proof -
    have q: "b1 = b\<lparr>b_mem := b_mem b1, b_ops := b_ops b1\<rparr>" using f1(1) by (simp add: flashed_def)
    show ?thesis by (subst q) simp
  qed
  have f2: "flashed (span (t + 48) 32) b1 b2" "flashed owned_flash b1 b2" "ok2 \<Longrightarrow> flash_region (b_mem b2) (t + 48) 32 = b_staged_tag b"
    using even_bytes_flashed[OF w2, unfolded l(2)] tb u48 by simp_all
  note f3 = halfword_flashed[OF w3]
  have eq: "(ok, b') = (if \<not> ok1 then (False, b1) else if \<not> ok2 then (False, b2) else (ok3, b3))"
    using w w1 w2 w3 by (auto simp: program_metadata_def t_def[symmetric] tag Let_def)
  have sub: "span t 48 \<subseteq> span t 1024" "span (t + 48) 32 \<subseteq> span t 1024" "{t + 80, t + 80 + 1} \<subseteq> span t 1024"
    using meta_span[OF tm] span_iff[of t 48] span_iff[of "t + 48" 32] tb u48 u80 u81 by auto
  have g1: "flashed (span t 1024) b b1" using flashed_mono[OF f1(1) sub(1)] .
  have g2: "flashed (span t 1024) b b2" using flashed_trans[OF g1 flashed_mono[OF f2(1) sub(2)]] .
  have g3: "flashed (span t 1024) b b3" using flashed_trans[OF g2 flashed_mono[OF f3(1) sub(3)]] .
  have o2: "flashed owned_flash b b2" using flashed_trans[OF f1(2) f2(2)] .
  have o3: "flashed owned_flash b b3" using flashed_trans[OF o2 f3(2)] .
  show "flashed (span (b_target_metadata_slot b) 1024) b b'" "flashed owned_flash b b'"
    using eq g1 g2 g3 f1(2) o2 o3 by (auto simp: t_def[symmetric] split: if_splits)
  assume ok
  then have all: ok1 ok2 ok3 "b' = b3" using eq by (auto split: if_splits)
  have r1: "b_mem b3 x = b_mem b1 x" if "unat t \<le> unat x" "unat x < unat t + 48" for x
  proof -
    have "x \<notin> span (t + 48) 32" "x \<notin> {t + 80, t + 80 + 1}"
      using that span_iff[of "t + 48" 32 x] u48 u80 u81 tb by auto
    then show ?thesis using f2(1) f3(1) by (simp add: flashed_def)
  qed
  have r2: "b_mem b3 x = b_mem b2 x" if "unat t \<le> unat x" "unat x < unat t + 80" for x
  proof -
    have "x \<notin> {t + 80, t + 80 + 1}" using that u80 u81 by auto
    then show ?thesis using f3(1) by (simp add: flashed_def)
  qed
  have h: "flash_region (b_mem b3) t 48 = flash_region (b_mem b1) t 48"
    using r1 u by (simp add: flash_region_def)
  have tg: "flash_region (b_mem b3) (t + 48) 32 = flash_region (b_mem b2) (t + 48) 32"
  proof -
    have "b_mem b3 (t + 48 + of_nat i) = b_mem b2 (t + 48 + of_nat i)" if "i < 32" for i
      using r2[of "t + of_nat (48 + i)"] u[of "48 + i"] that by (simp add: add.assoc)
    then show ?thesis by (simp add: flash_region_def)
  qed
  show "flash_region (b_mem b') (b_target_metadata_slot b) 48 = b_staged_header b
       \<and> flash_region (b_mem b') (b_target_metadata_slot b + 48) 32 = b_staged_tag b
       \<and> read_u16 (b_mem b') (b_target_metadata_slot b + 0x50) = 0xA55A"
    using f1(3)[OF all(1)] f2(3)[OF all(2)] f3(3)[OF all(3)] h tg all(4) by (simp add: t_def[symmetric])
qed

text \<open>The end of an update, and what it leaves when it answers \<open>OK\<close>.\<close>

lemma end_step:
  assumes i: "boot_inv env b" and h: "handle_end env b n = (st, b')"
  shows "safe_step env b b'"
    "st = ST_OK \<Longrightarrow> \<exists>t. meta_slot t \<and> metadata_authenticated env (b_mem b') t = Some (rd32 (b_staged_header b) 12)
       \<and> flash_region (b_mem b') t 48 = b_staged_header b \<and> app_matches_header (b_mem b') (b_staged_header b)
       \<and> floor_version env (b_mem b') = rd32 (b_staged_header b) 12"
proof -
  let ?hd = "b_staged_header b" and ?t = "b_target_metadata_slot b"
  define len where "len = rd32 ?hd 8"
  obtain streamed ctx where fin: "sha256_final (b_stream_sha b) = (streamed, ctx)" by fastforce
  define b1 where "b1 = (set_state STATE_VERIFYING b)\<lparr>b_stream_sha := ctx\<rparr>"
  obtain ok b2 where w: "program_metadata env b1 = (ok, b2)" by fastforce
  define b3 where "b3 = (if rd32 (b_staged_header b2) 12 > b_version_floor b2 then b2\<lparr>b_version_floor := rd32 (b_staged_header b2) 12\<rparr> else b2)"
  define b4 where "b4 = set_state STATE_COMMITTED (b3\<lparr>b_committed_version := rd32 (b_staged_header b2) 12, b_reset_after_tx := True\<rparr>)"
  let ?go = "b_update_state b = STATE_AUTHORIZED \<or> b_update_state b = STATE_RECEIVING"
  let ?ver = "bytes_equal (sha256_memory (b_mem b) APP_BASE (unat len)) (drop 16 ?hd) 32 \<and> vectors_valid (b_mem b) len"
  have same: "b_mem b1 = b_mem b" "b_staged_header b1 = ?hd" "b_staged_tag b1 = b_staged_tag b" "b_target_metadata_slot b1 = ?t"
    by (simp_all add: b1_def set_state_def)
  have "b' = b \<and> st \<noteq> ST_OK \<or> ?go \<and> (b' = set_state STATE_RECOVERY_IDLE b1 \<and> st \<noteq> ST_OK
      \<or> ?ver \<and> (b' = set_state STATE_RECOVERY_IDLE b2 \<and> st \<noteq> ST_OK \<or> ok \<and> b' = b4))"
    using h fin w unfolding handle_end_def Let_def len_def[symmetric] b1_def[symmetric] prod.case same
    by (auto simp: b1_def[symmetric] b3_def b4_def same split: if_splits)
  then consider (early) "b' = b" "st \<noteq> ST_OK" | (idle) "b' = set_state STATE_RECOVERY_IDLE b1" "st \<noteq> ST_OK"
    | (failed) ?go "b' = set_state STATE_RECOVERY_IDLE b2" "st \<noteq> ST_OK" | (good) ?go ?ver ok "b' = b4" by blast
  then have "safe_step env b b' \<and> (st = ST_OK \<longrightarrow> (\<exists>t. meta_slot t \<and> metadata_authenticated env (b_mem b') t = Some (rd32 ?hd 12)
       \<and> flash_region (b_mem b') t 48 = ?hd \<and> app_matches_header (b_mem b') ?hd \<and> floor_version env (b_mem b') = rd32 ?hd 12))"
  proof cases
    case early
    then show ?thesis using i by (simp add: safe_step_def)
  next
    case idle
    have "safe_step env b b'" by (rule safe_idle[OF flashed_refl]) (simp_all add: idle(1) b1_def set_state_def)
    then show ?thesis using idle(2) by simp
  next
    case failed
    have a: "meta_slot ?t" "length ?hd = 48" "length (b_staged_tag b) = 32"
      "floor_version env (b_mem b) = ver env (b_mem b) (other_slot ?t)"
      using i failed(1) by (auto simp: boot_inv_def Let_def)
    note m = metadata_flashed[OF _ _ _ w, unfolded same, OF a(1-3)]
    have fl: "floor_version env (b_mem b1) \<le> floor_version env (b_mem b2)"
      by (rule floor_kept[OF a(1) _ m(1)]) (simp add: same a(4))
    have "safe_step env b1 b'" using safe_idle[OF m(2) fl] failed(2) by (simp add: set_state_def)
    then show ?thesis using failed(3) same(1) by (simp add: safe_step_def)
  next
    case good
    have a: "meta_slot ?t" "length ?hd = 48" "length (b_staged_tag b) = 32" "header_structural_valid ?hd"
      "floor_version env (b_mem b) = ver env (b_mem b) (other_slot ?t)" "header_target_valid env ?hd"
      "bytes_equal (hmac_header (be_key env) ?hd) (b_staged_tag b) 32" "floor_version env (b_mem b) \<le> rd32 ?hd 12"
      using i good(1) by (auto simp: boot_inv_def Let_def)
    note m = metadata_flashed[OF _ _ _ w, unfolded same, OF a(1-3)]
    have m4: "b_mem b4 = b_mem b2" by (simp add: b4_def b3_def set_state_def)
    have au: "metadata_authenticated env (b_mem b2) ?t = Some (rd32 ?hd 12)"
      using m(3)[OF good(3)] a by (simp add: metadata_authenticated_def Let_def)
    have "ver env (b_mem b2) (other_slot ?t) = floor_version env (b_mem b)"
      using other_ver[OF a(1) m(1)] a(5) same(1) by simp
    then have fl: "floor_version env (b_mem b2) = rd32 ?hd 12"
      using floor_other[OF a(1), of env "b_mem b2"] au a(8) by (simp add: ver_def max_def)
    have app: "b_mem b2 (APP_BASE + of_nat k) = b_mem b (APP_BASE + of_nat k)" if "k < unat len" for k
    proof -
      have "unat len \<le> 53248" using a(4) by (simp add: header_structural_valid_def len_def Let_def word_le_nat_alt)
      then have "unat ((0x08002000 :: u32) + of_nat k) = 0x08002000 + k" using that u32_of_nat[of k] by (simp add: unat_word_ariths(1))
      then have "(0x08002000 :: u32) + of_nat k \<notin> span ?t 1024"
        using that \<open>unat len \<le> 53248\<close> meta_span[OF a(1)] a(1) by (auto simp: meta_slot_def)
      then show ?thesis using m(1) same(1) by (simp add: flashed_def)
    qed
    have "8 \<le> unat len" using a(4) by (simp add: header_structural_valid_def len_def Let_def word_le_nat_alt)
    then have "vectors_valid (b_mem b2) len = vectors_valid (b_mem b) len"
      using app[of 0] app[of 1] app[of 2] app[of 3] app[of 4] app[of 5] app[of 6] app[of 7]
      by (simp add: vectors_valid_def read_u32_def)
    moreover have "sha256_memory (b_mem b2) APP_BASE (unat len) = sha256_memory (b_mem b) APP_BASE (unat len)"
      unfolding sha256_memory_def using app by (intro arg_cong[where f = sha256_bytes]) simp
    ultimately have ap: "app_matches_header (b_mem b2) ?hd" using good(2) by (simp add: app_matches_header_def len_def Let_def)
    have "safe_step env b1 b'" using safe_idle[OF m(2), of env b'] fl a(8) same(1) good(4) m4
      by (simp add: b4_def set_state_def)
    then have "safe_step env b b'" using same(1) by (simp add: safe_step_def)
    then show ?thesis using a(1) au m(3)[OF good(3)] ap fl good(4) m4 by auto
  qed
  then show "safe_step env b b'" "st = ST_OK \<Longrightarrow> \<exists>t. meta_slot t \<and> metadata_authenticated env (b_mem b') t = Some (rd32 ?hd 12)
       \<and> flash_region (b_mem b') t 48 = ?hd \<and> app_matches_header (b_mem b') ?hd \<and> floor_version env (b_mem b') = rd32 ?hd 12"
    by blast+
qed

end
