(* ===== verification/Boot_Service.thy ===== *)
theory Boot_Service
  imports Boot_Rollback
begin

unbundle bit_operations_syntax

text \<open>
  The properties of the bootloader over whole runs: any packets, interrupted by loss of power
  at any point, with a flash controller that may fail in any way.
\<close>

section \<open>Runs\<close>

text \<open>
  A packet in the receive buffer, the end of a transmission, or a loss of power: the contents
  of the RAM are arbitrary afterwards (\<open>ram\<close>), the flash keeps what it held.
\<close>

datatype boot_event = Ev_packet bytes u16 | Ev_sent | Ev_power boot

definition boot_restart :: "boot_env \<Rightarrow> boot \<Rightarrow> boot" where
  "boot_restart env b = (case boot_main env b True True of Recovery b' \<Rightarrow> b' | _ \<Rightarrow> b)"

fun boot_event_step :: "boot_env \<Rightarrow> boot \<Rightarrow> boot_event \<Rightarrow> boot" where
  "boot_event_step env b (Ev_packet rx n) = boot_handle_ep1_rx env b rx n"
| "boot_event_step env b Ev_sent = (case boot_handle_ep1_tx b of None \<Rightarrow> boot_restart env b | Some b' \<Rightarrow> b')"
| "boot_event_step env b (Ev_power ram) = boot_restart env (ram\<lparr>b_mem := b_mem b, b_ops := b_ops b\<rparr>)"

definition packets_ok :: "boot_event list \<Rightarrow> bool" where
  "packets_ok es \<longleftrightarrow> (\<forall>rx n. Ev_packet rx n \<in> set es \<longrightarrow> length rx = 64)"

definition boot_run :: "boot_env \<Rightarrow> boot \<Rightarrow> boot_event list \<Rightarrow> boot" where
  "boot_run env b es = foldl (boot_event_step env) b es"

section \<open>Every event is a safe step\<close>

lemma safe_trans:
  assumes "safe_step env b c" "safe_step env c d"
  shows "safe_step env b d"
  using assms by (auto simp: safe_step_def)

lemma request_safe:
  assumes i: "boot_inv env b" and l: "length rx = 64" and r: "boot_request env b rx n = (st, b')"
  shows "safe_step env b b'"
proof -
  have p: "length (drop 10 rx) = 54" using l by simp
  consider "b' = b" | "b' = scan_metadata env b" | "handle_begin b (drop 10 rx) n = (st, b')"
    | "handle_authorize env b (drop 10 rx) n = (st, b')" | "handle_data env b (drop 10 rx) n = (st, b')" | "handle_end env b n = (st, b')"
    using r by (auto simp: boot_request_def Let_def split: if_splits)
  then show ?thesis
  proof cases
    case 1 then show ?thesis using i by (simp add: safe_step_def)
  next
    case 2 then show ?thesis using safe_same[OF i] by (simp add: scan_same)
  next
    case 3 then show ?thesis using begin_safe[OF i _ 3] p by simp
  next
    case 4 then show ?thesis using authorize_safe[OF i _ 4] p by simp
  next
    case 5 then show ?thesis using data_safe[OF i _ 5] p by simp
  next
    case 6 then show ?thesis using end_step(1)[OF i 6] by simp
  qed
qed

lemma process_safe:
  assumes i: "boot_inv env b" and l: "length rx = 64" and r: "process_bulk_packet env b rx n = (a, b')"
  shows "safe_step env b b'"
proof -
  obtain st b1 where q: "boot_request env b rx (rd16 rx 8) = (st, b1)" by fastforce
  note s1 = request_safe[OF i l q]
  define b2 where "b2 = build_response b1 (rd16 rx 6) (rx ! 10) st"
  obtain sent b3 where w: "bulk_send b2 (b_tx_packet b2) 28 = (sent, b3)" by fastforce
  have "b' = b \<or> b' = b3 \<or> b' = b3\<lparr>b_ep1_rx_valid := True\<rparr>"
    using r q w unfolding process_bulk_packet_def Let_def by (auto simp: b2_def split: if_splits)
  moreover have "safe_step env b1 b3" "safe_step env b1 (b3\<lparr>b_ep1_rx_valid := True\<rparr>)"
    using s1 w safe_same[of env b1]
    by (auto simp: b2_def build_response_def bulk_send_def safe_step_def Let_def split: if_splits)
  moreover have "safe_step env b b" using i by (simp add: safe_step_def)
  ultimately show ?thesis using safe_trans[OF s1] by blast
qed

lemma restart_safe: "boot_inv env (boot_restart env b) \<and> b_mem (boot_restart env b) = b_mem b"
  by (simp add: boot_restart_def boot_main_def boot_inv_def scan_same Let_def)

lemma event_safe:
  assumes i: "boot_inv env b" and l: "packets_ok [e]"
  shows "safe_step env b (boot_event_step env b e)"
proof (cases e)
  case (Ev_packet rx n)
  have rx: "length rx = 64" using l Ev_packet by (simp add: packets_ok_def)
  let ?b1 = "b\<lparr>b_ep1_rx_valid := False\<rparr>"
  obtain a b2 where p: "process_bulk_packet env ?b1 rx n = (a, b2)" by fastforce
  have i1: "boot_inv env ?b1" "safe_step env b ?b1" using safe_same[OF i, of ?b1] by (simp_all add: safe_step_def)
  have s2: "safe_step env b b2" using safe_trans[OF i1(2) process_safe[OF i1(1) rx p]] .
  have "safe_step env b x" if "x = b2\<lparr>b_ep1_rx_valid := True\<rparr> \<or> x = ?b1\<lparr>b_ep1_rx_valid := True\<rparr> \<or> x = b2" for x
    using that s2 i1 safe_same[of env b2 x] safe_same[OF i, of x] safe_trans[OF s2] by (auto simp: safe_step_def)
  then show ?thesis using Ev_packet p by (auto simp: boot_handle_ep1_rx_def Let_def)
next
  case Ev_sent
  show ?thesis
  proof (cases "boot_handle_ep1_tx b")
    case None
    then show ?thesis using Ev_sent restart_safe[of env b] by (simp add: safe_step_def)
  next
    case (Some b')
    then show ?thesis using Ev_sent safe_same[OF i, of b'] by (auto simp: boot_handle_ep1_tx_def Let_def split: if_splits)
  qed
next
  case (Ev_power ram)
  then show ?thesis using restart_safe[of env "ram\<lparr>b_mem := b_mem b, b_ops := b_ops b\<rparr>"] by (simp add: safe_step_def)
qed

lemma run_safe: "boot_inv env b \<Longrightarrow> packets_ok es \<Longrightarrow> safe_step env b (boot_run env b es)"
proof (induction es arbitrary: b)
  case Nil
  then show ?case by (simp add: boot_run_def safe_step_def)
next
  case (Cons e es)
  have e: "safe_step env b (boot_event_step env b e)"
    by (rule event_safe[OF Cons.prems(1)]) (use Cons.prems(2) in \<open>simp add: packets_ok_def\<close>)
  then have "safe_step env (boot_event_step env b e) (boot_run env (boot_event_step env b e) es)"
    using Cons.prems(2) by (intro Cons.IH) (simp_all add: safe_step_def packets_ok_def)
  from safe_trans[OF e this] show ?case by (simp add: boot_run_def)
qed

lemma recovery_inv: "boot_main env b0 u c = Recovery b \<Longrightarrow> boot_inv env b \<and> b_mem b = b_mem b0"
  by (auto simp: boot_main_def boot_inv_def scan_same Let_def split: if_splits)

section \<open>Authentic images\<close>

lemma length_sha256 [simp]: "length (sha256 m) = 32"
proof -
  have "length (concat (map be32 hs)) = 4 * length hs" for hs by (induction hs) (simp_all add: be32_def)
  then show ?thesis by (simp add: sha256_def length_foldl_compress)
qed

text \<open>The keyed hash, on the reference.\<close>

lemma hmac_header_sha256:
  assumes "length h = 48"
  shows "hmac_header key h = sha256 (key_block key 0x5C @ sha256 (key_block key 0x36 @ hmac_domain @ origin_le @ h))"
proof -
  have l: "length (key_block key v) = 64" for v by (simp add: key_block_def)
  have "sha256_bytes [key_block key 0x36, hmac_domain, origin_le, h] = sha256 (key_block key 0x36 @ hmac_domain @ origin_le @ h)"
    using sha256_bytes_parts[of "[key_block key 0x36, hmac_domain, origin_le, h]"] assms l
    by (simp add: hmac_domain_def origin_le_def)
  then show ?thesis
    using sha256_bytes_parts[of "[key_block key 0x5C, sha256 (key_block key 0x36 @ hmac_domain @ origin_le @ h)]"] l
    by (simp add: hmac_header_def Let_def)
qed

lemma length_flash_region [simp]: "length (flash_region mem a n) = n"
  by (simp add: flash_region_def)

lemma sha256_memory_sha256: "n < 536870912 \<Longrightarrow> sha256_memory mem a n = sha256 (flash_region mem a n)"
  using sha256_bytes_parts[of "[flash_region mem a n]"] by (simp add: sha256_memory_def flash_region_def)

lemma region_rd32: "8 \<le> n \<Longrightarrow> rd32 (flash_region mem a n) 0 = read_u32 mem a \<and> rd32 (flash_region mem a n) 4 = read_u32 mem (a + 4)"
  by (simp add: rd32_def read_u32_def flash_region_def add.assoc)

text \<open>The conditions under which an image may start.\<close>

definition image_vouched :: "boot_env \<Rightarrow> bytes \<Rightarrow> bytes \<Rightarrow> bytes \<Rightarrow> bool" where
  "image_vouched env header tag img \<longleftrightarrow>
     length header = 48 \<and> tag = sha256 (key_block (be_key env) 0x5C @ sha256 (key_block (be_key env) 0x36 @ hmac_domain @ origin_le @ header))
     \<and> header_structural_valid header \<and> header_target_valid env header
     \<and> length img = unat (rd32 header 8) \<and> sha256 img = drop 16 header
     \<and> vector_values_valid (rd32 img 0) (rd32 img 4) (rd32 header 8)"

lemma image_length: "header_structural_valid h \<Longrightarrow> 8 \<le> unat (rd32 h 8) \<and> unat (rd32 h 8) \<le> 53248"
  by (simp add: header_structural_valid_def Let_def word_le_nat_alt)

lemma authenticated_vouched:
  assumes a: "metadata_authenticated env mem s = Some v" and m: "app_matches_header mem (flash_region mem s 48)"
  shows "image_vouched env (flash_region mem s 48) (flash_region mem (s + 48) 32) (flash_region mem APP_BASE (unat (rd32 (flash_region mem s 48) 8)))"
    "v = rd32 (flash_region mem s 48) 12" "read_u16 mem (s + 0x50) = 0xA55A"
proof -
  let ?h = "flash_region mem s 48" and ?t = "flash_region mem (s + 48) 32"
  have f: "read_u16 mem (s + 0x50) = 0xA55A" "header_structural_valid ?h" "bytes_equal (hmac_header (be_key env) ?h) ?t 32"
    "header_target_valid env ?h" "v = rd32 ?h 12"
    using a by (auto simp: metadata_authenticated_def Let_def split: if_splits)
  note l = image_length[OF f(2)]
  have g: "bytes_equal (sha256_memory mem APP_BASE (unat (rd32 ?h 8))) (drop 16 ?h) 32" "vectors_valid mem (rd32 ?h 8)"
    using m by (simp_all add: app_matches_header_def Let_def)
  have "hmac_header (be_key env) ?h = ?t"
    using f(3) by (subst (asm) bytes_equal_lists) (simp_all add: hmac_header_sha256)
  moreover have "sha256 (flash_region mem APP_BASE (unat (rd32 ?h 8))) = drop 16 ?h"
    using g(1) l by (subst (asm) bytes_equal_lists) (simp_all add: sha256_memory_sha256)
  moreover have "vector_values_valid (rd32 (flash_region mem APP_BASE (unat (rd32 ?h 8))) 0)
      (rd32 (flash_region mem APP_BASE (unat (rd32 ?h 8))) 4) (rd32 ?h 8)"
    using g(2) region_rd32[of "unat (rd32 ?h 8)" mem APP_BASE] l by (simp add: vectors_valid_def)
  ultimately show "image_vouched env ?h ?t (flash_region mem APP_BASE (unat (rd32 ?h 8)))"
    using f(2,4) by (simp add: image_vouched_def hmac_header_sha256)
  show "v = rd32 ?h 12" "read_u16 mem (s + 0x50) = 0xA55A" using f by simp_all
qed

text \<open>A handover implies an authentic image.\<close>

lemma handoff_authentic:
  assumes "boot_main env b u c = Handoff msp reset"
  shows "\<not> u \<and> (\<exists>s \<in> {META_A, META_B}. let h = flash_region (b_mem b) s 48; len = unat (rd32 h 8);
      image = flash_region (b_mem b) APP_BASE len in
    read_u16 (b_mem b) (s + META_MARKER_OFFSET) = META_MARKER_COMMITTED
    \<and> image_vouched env h (flash_region (b_mem b) (s + 48) 32) image
    \<and> msp = rd32 image 0 \<and> reset = rd32 image 4)"
proof -
  have u: "\<not> u" "b_committed_version (scan_metadata env b) \<noteq> 0"
    "msp = read_u32 (b_mem b) APP_BASE" "reset = read_u32 (b_mem b) (APP_BASE + 4)"
    using assms by (auto simp: boot_main_def scan_same Let_def split: if_splits)
  obtain s where s: "meta_slot s" "metadata_authenticated env (b_mem b) s = Some (b_committed_version (scan_metadata env b))"
    "app_matches_header (b_mem b) (flash_region (b_mem b) s 48)" using scan_committed[OF u(2)] by blast
  note v = authenticated_vouched[OF s(2,3)]
  have "8 \<le> unat (rd32 (flash_region (b_mem b) s 48) 8)" using v(1) image_length by (simp add: image_vouched_def)
  note r = region_rd32[OF this, of "b_mem b" APP_BASE]
  have "s \<in> {META_A, META_B}" using s(1) by (simp add: meta_slot_def)
  then show ?thesis using u v r unfolding Let_def by metis
qed

lemma scan_best:
  assumes s: "meta_slot s" and a: "metadata_authenticated env (b_mem b) s = Some v"
    and m: "app_matches_header (b_mem b) (flash_region (b_mem b) s 48)" and f: "floor_version env (b_mem b) = v"
  shows "b_committed_version (scan_metadata env b) = v"
proof -
  have le: "w \<le> v" if "metadata_authenticated env (b_mem b) q = Some w" "meta_slot q" for q w
    using f that by (auto simp: floor_version_def ver_def meta_slot_def)
  from s consider "s = META_A" | "s = META_B" unfolding meta_slot_def by blast
  then show ?thesis
  proof cases
    case 1
    show ?thesis
      using a m le[of META_B] unfolding 1 scan_metadata_def Let_def
      by (auto simp: meta_slot_def split: option.split)
  next
    case 2
    show ?thesis
      using a m le[of META_A] unfolding 2 scan_metadata_def Let_def
      by (auto simp: meta_slot_def split: option.split)
  qed
qed

text \<open>After an \<open>END\<close> that is answered \<open>OK\<close>, the next boot starts the image.\<close>

lemma end_boots:
  assumes i: "boot_inv env r" and e: "handle_end env r n = (ST_OK, b')"
  shows "let h = b_staged_header r; image = flash_region (b_mem b') APP_BASE (unat (rd32 h 8)) in
    image_vouched env h (b_staged_tag r) image
    \<and> boot_main env b' False k = Handoff (rd32 image 0) (rd32 image 4)
    \<and> floor_version env (b_mem r) \<le> rd32 h 12 \<and> b_version_floor (scan_metadata env b') = rd32 h 12"
proof -
  have st: "b_update_state r \<in> {STATE_AUTHORIZED, STATE_RECEIVING}" using e by (auto simp: handle_end_def split: if_splits)
  obtain t where t: "meta_slot t" "metadata_authenticated env (b_mem b') t = Some (rd32 (b_staged_header r) 12)"
    "flash_region (b_mem b') t 48 = b_staged_header r" "app_matches_header (b_mem b') (b_staged_header r)"
    "floor_version env (b_mem b') = rd32 (b_staged_header r) 12"
    using end_step(2)[OF i e] by blast
  have fl: "floor_version env (b_mem r) \<le> rd32 (b_staged_header r) 12"
    using end_step(1)[OF i e] t(5) by (simp add: safe_step_def)
  have tag: "flash_region (b_mem b') (t + 48) 32 = b_staged_tag r"
  proof -
    have "header_structural_valid (b_staged_header r)" "length (b_staged_header r) = 48" "length (b_staged_tag r) = 32"
      "bytes_equal (hmac_header (be_key env) (b_staged_header r)) (b_staged_tag r) 32"
      using i st by (auto simp: boot_inv_def Let_def)
    then have "hmac_header (be_key env) (b_staged_header r) = b_staged_tag r"
      by (subst (asm) bytes_equal_lists) (simp_all add: hmac_header_sha256)
    moreover have "hmac_header (be_key env) (b_staged_header r) = flash_region (b_mem b') (t + 48) 32"
      using authenticated_vouched(1)[OF t(2), unfolded t(3), OF t(4)] by (simp add: image_vouched_def hmac_header_sha256)
    ultimately show ?thesis by simp
  qed
  note v = authenticated_vouched[OF t(2), unfolded t(3) tag, OF t(4)]
  have "8 \<le> unat (rd32 (b_staged_header r) 8)" using v(1) image_length by (simp add: image_vouched_def)
  note rg = region_rd32[OF this, of "b_mem b'" APP_BASE]
  have c: "b_committed_version (scan_metadata env b') = rd32 (b_staged_header r) 12"
    by (rule scan_best[OF t(1,2) _ t(5)]) (simp add: t(3,4))
  have "boot_main env b' False k = Handoff (read_u32 (b_mem b') APP_BASE) (read_u32 (b_mem b') (APP_BASE + 4))"
    using c authenticated_version[OF t(2)] by (simp add: boot_main_def scan_same Let_def)
  then show ?thesis using v(1) rg t(5) fl by (simp add: scan_floor(1) Let_def)
qed

end
