(* ===== verification/Boot_Transfer.thy ===== *)
theory Boot_Transfer
  imports Boot_Service
begin

unbundle bit_operations_syntax

text \<open>
  An update in progress on a flash controller that works: every operation of the flash goes
  through, and a data packet in sequence is accepted and adds its bytes to the image.
\<close>

section \<open>Operations on a working flash\<close>

lemma boot_execute_works:
  assumes "flash_works (be_flash env)"
  obtains b' where "boot_flash_execute env b a v op = (True, b')"
    "b_mem b' = flash_effect (be_flash env (b_ops b)) (b_mem b) a v op"
  using assms unfolding boot_flash_execute_def flash_wait_ready_def flash_wait_loop_iff flash_works_def Let_def by simp

lemma read_u16_blank: "read_u16 mem a = 0xFFFF \<longleftrightarrow> mem a = 0xFF \<and> mem (a + 1) = 0xFF"
proof -
  have "ucast (0xFFFF :: u16) = (0xFF :: u8)" "ucast (drop_bit 8 (0xFFFF :: u16)) = (0xFF :: u8)" by simp_all
  then show ?thesis by (simp only: read_u16_eq)
qed

lemma boot_erase_works:
  assumes hw: "flash_works (be_flash env)" and p: "page AND 0x3FF = 0"
    "page \<ge> APP_BASE \<and> page < APP_END \<or> page = META_A \<or> page = META_B"
  obtains b' where "flash_erase_page env b page = (True, b')" "flashed (span page 1024) b b'"
    "flashed owned_flash b b'" "\<And>x. x \<in> span page 1024 \<Longrightarrow> b_mem b' x = 0xFF"
proof -
  obtain b1 where x: "boot_flash_execute env b page 0 FLASH_PERSISTENCE_OP_ERASE = (True, b1)"
    "b_mem b1 = flash_effect (be_flash env (b_ops b)) (b_mem b) page 0 FLASH_PERSISTENCE_OP_ERASE"
    using boot_execute_works[OF hw] .
  have z: "b_mem b1 (page + of_nat k) = 0xFF" if "k < 1024" for k
    using x(2) hw that u32_of_nat[of k] by (simp add: flash_effect_def flash_works_def)
  have "read_u16 (b_mem b1) (page + of_nat (2 * k)) = 0xFFFF" if "k < 512" for k
  proof -
    have e: "page + of_nat (2 * k) + 1 = page + of_nat (2 * k + 1)" by (simp add: add.assoc)
    show ?thesis unfolding read_u16_blank e using z[of "2 * k"] z[of "2 * k + 1"] that by simp
  qed
  then have e: "flash_erase_page env b page = (True, b1)" using p x(1) by (simp add: flash_erase_page_def)
  show thesis using that[OF e] erase_flashed[OF e] by simp
qed

text \<open>Bytes the bootloader may program, from \<open>a\<close> on.\<close>

definition owned_from :: "u32 \<Rightarrow> nat \<Rightarrow> bool" where
  "owned_from a n \<longleftrightarrow> even (unat a) \<and> 0x08002000 \<le> unat a \<and> unat a + n \<le> 0x0800F800"

lemma owned_from_address: "owned_from a n \<Longrightarrow> 2 \<le> n \<Longrightarrow> flash_owned_address a"
  by (auto simp: owned_from_def flash_owned_address_def even_and_one even_unat word_le_nat_alt word_less_nat_alt)

lemma boot_halfword_works:
  assumes hw: "flash_works (be_flash env)" and a: "flash_owned_address a" and z: "b_mem b a = 0xFF" "b_mem b (a + 1) = 0xFF"
  obtains b' where "flash_program_halfword env b a v = (True, b')"
proof -
  obtain b1 where x: "boot_flash_execute env b a v FLASH_PERSISTENCE_OP_PROGRAM = (True, b1)"
    "b_mem b1 = flash_effect (be_flash env (b_ops b)) (b_mem b) a v FLASH_PERSISTENCE_OP_PROGRAM"
    using boot_execute_works[OF hw] .
  have "read_u16 (b_mem b1) a = v" using hw x(2) by (simp add: read_u16_eq flash_effect_def flash_works_def)
  moreover have "read_u16 (b_mem b) a = 0xFFFF" using z by (simp add: read_u16_blank)
  ultimately show thesis using that x(1) a by (cases "v = 0xFFFF") (simp_all add: flash_program_halfword_def)
qed

definition blank_flash :: "boot \<Rightarrow> u32 \<Rightarrow> nat \<Rightarrow> bool" where
  "blank_flash b a n \<longleftrightarrow> (\<forall>x \<in> span a n. b_mem b x = 0xFF)"

lemma boot_pairs_work:
  "flash_works (be_flash env) \<Longrightarrow> even (length p) \<Longrightarrow> owned_from a (length p) \<Longrightarrow> blank_flash b a (length p) \<Longrightarrow>
   \<exists>b'. program_pairs env b a p = (True, b')"
proof (induction env b a p rule: program_pairs.induct)
  case (1 env b a x y rest)
  have g: "unat a + (length rest + 2) \<le> 4294967296" using 1(4) by (simp add: owned_from_def)
  have u: "unat (a + 1) = unat a + 1" "unat (a + 2) = unat a + 2"
    using 1(4) by (simp_all add: owned_from_def unat_word_ariths(1))
  have "a \<in> span a (length rest + 2)" "a + 1 \<in> span a (length rest + 2)" using span_iff[OF g] u by simp_all
  then have z: "b_mem b a = 0xFF" "b_mem b (a + 1) = 0xFF" using 1(5) by (simp_all add: blank_flash_def)
  obtain b1 where h: "flash_program_halfword env b a (ucast x OR push_bit 8 (ucast y)) = (True, b1)"
    using boot_halfword_works[OF 1(2) owned_from_address[OF 1(4)] z] by auto
  have "blank_flash b1 (a + 2) (length rest)"
  proof -
    have "w \<in> span a (length rest + 2) \<and> w \<noteq> a \<and> w \<noteq> a + 1" if "w \<in> span (a + 2) (length rest)" for w
      using that span_iff[OF g] span_iff[of "a + 2" "length rest"] u g by auto
    then show ?thesis using 1(5) halfword_flashed(1)[OF h] by (auto simp: blank_flash_def flashed_def)
  qed
  moreover have "owned_from (a + 2) (length rest)" using 1(4) u by (simp add: owned_from_def)
  ultimately show ?case using 1(1)[OF h[symmetric]] 1(2,3) h by simp
qed simp_all

lemma boot_even_bytes_work:
  assumes "flash_works (be_flash env)" "even (length p)" "owned_from a (length p)" "blank_flash b a (length p)"
  obtains b' where "flash_program_even_bytes env b a p = (True, b')" "flashed (span a (length p)) b b'"
    "flashed owned_flash b b'" "flash_region (b_mem b') a (length p) = p"
proof -
  obtain b' where p: "program_pairs env b a p = (True, b')" using boot_pairs_work assms by blast
  then have e: "flash_program_even_bytes env b a p = (True, b')" using assms(2) by (simp add: flash_program_even_bytes_def)
  have "unat a + length p \<le> 4294967295" using assms(3) by (simp add: owned_from_def)
  from that[OF e] even_bytes_flashed[OF e this] show thesis by simp
qed

text \<open>The metadata of an update is programmed into its erased page.\<close>

lemma boot_metadata_works:
  assumes hw: "flash_works (be_flash env)" and t: "meta_slot (b_target_metadata_slot b)"
    and l: "length (b_staged_header b) = 48" "length (b_staged_tag b) = 32"
    and z: "blank_flash b (b_target_metadata_slot b) 1024"
  obtains b' where "program_metadata env b = (True, b')"
proof -
  define t' where "t' = b_target_metadata_slot b"
  have tm: "meta_slot t'" using t by (simp add: t'_def)
  have u: "unat (t' + 48) = unat t' + 48" "unat (t' + 80) = unat t' + 80" "unat (t' + 80 + 1) = unat t' + 81"
    using meta_offset[OF tm, of 48] meta_offset[OF tm, of 80] meta_offset[OF tm, of 81] by (simp_all add: add.assoc)
  have tb: "unat t' = 0x0800F000 \<or> unat t' = 0x0800F400" using tm by (auto simp: meta_slot_def)
  have zb: "b_mem b x = 0xFF" if "unat t' \<le> unat x" "unat x < unat t' + 1024" for x
    using z that meta_span[OF tm] by (simp add: blank_flash_def t'_def[symmetric])
  have "owned_from t' (length (b_staged_header b))" "blank_flash b t' (length (b_staged_header b))"
    using tb l zb span_iff[of t' 48] by (auto simp: owned_from_def blank_flash_def)
  then obtain b1 where w1: "flash_program_even_bytes env b t' (b_staged_header b) = (True, b1)" "flashed (span t' 48) b b1"
    using boot_even_bytes_work[OF hw, of "b_staged_header b" t' b] l by auto
  have q: "b1 = b\<lparr>b_mem := b_mem b1, b_ops := b_ops b1\<rparr>" using w1(2) by (simp add: flashed_def)
  have tag: "b_staged_tag b1 = b_staged_tag b" by (subst q) simp
  have z1: "b_mem b1 x = 0xFF" if "unat t' + 48 \<le> unat x" "unat x < unat t' + 1024" for x
    using that zb w1(2) span_iff[of t' 48 x] tb by (auto simp: flashed_def)
  have "owned_from (t' + 48) (length (b_staged_tag b1))" "blank_flash b1 (t' + 48) (length (b_staged_tag b1))"
    unfolding tag using tb l u z1 span_iff[of "t' + 48" 32] by (auto simp: owned_from_def blank_flash_def)
  then obtain b2 where w2: "flash_program_even_bytes env b1 (t' + 48) (b_staged_tag b1) = (True, b2)" "flashed (span (t' + 48) 32) b1 b2"
    using boot_even_bytes_work[OF hw, of "b_staged_tag b1" "t' + 48" b1] l tag by auto
  have z2: "b_mem b2 x = 0xFF" if "unat t' + 80 \<le> unat x" "unat x < unat t' + 1024" for x
    using that z1 w2(2) span_iff[of "t' + 48" 32 x] u tb by (auto simp: flashed_def)
  have a: "flash_owned_address (t' + 80)" using owned_from_address[of "t' + 80" 2] tb u by (auto simp: owned_from_def)
  have zz: "b_mem b2 (t' + 80) = 0xFF" "b_mem b2 (t' + 80 + 1) = 0xFF"
    using z2[of "t' + 80"] z2[of "t' + 80 + 1"] u by auto
  obtain b3 where w3: "flash_program_halfword env b2 (t' + 80) 0xA55A = (True, b3)"
    using boot_halfword_works[OF hw a zz] .
  have "program_metadata env b = (True, b3)"
    unfolding program_metadata_def t'_def[symmetric] Let_def by (simp add: w1(1) w2(1) w3)
  then show thesis by (rule that)
qed

section \<open>An update in progress\<close>

text \<open>
  The bytes \<open>sent\<close> so far are in the application flash and in the hash, the rest of their last
  page is erased, and so is the page of the record to come.
\<close>

definition image_so_far :: "boot_env \<Rightarrow> bytes \<Rightarrow> boot \<Rightarrow> bytes \<Rightarrow> bool" where
  "image_so_far env hdr b sent \<longleftrightarrow> boot_inv env b \<and> b_update_state b \<in> {STATE_AUTHORIZED, STATE_RECEIVING}
     \<and> b_staged_header b = hdr \<and> blank_flash b (b_target_metadata_slot b) 1024
     \<and> b_expected_offset b = of_nat (length sent) \<and> even (length sent) \<and> absorbed (b_stream_sha b) sent
     \<and> (b_previous_valid b \<longrightarrow> unat (b_previous_offset b) < length sent)
     \<and> (\<forall>i < length sent. b_mem b (APP_BASE + of_nat i) = sent ! i)
     \<and> (\<forall>i. length sent \<le> i \<and> i < 1024 * ((length sent + 1023) div 1024) \<longrightarrow> b_mem b (APP_BASE + of_nat i) = 0xFF)"

text \<open>A chunk a host may send next: whole half-words, at most 48 bytes, within one page.\<close>

definition chunk_ok :: "nat \<Rightarrow> bytes \<Rightarrow> bool" where
  "chunk_ok off c \<longleftrightarrow> even (length c) \<and> 2 \<le> length c \<and> length c \<le> 48 \<and> off mod 1024 + length c \<le> 1024"

definition data_body :: "nat \<Rightarrow> bytes \<Rightarrow> bytes" where
  "data_body off c = [5] @ wr16 (of_nat off) @ c"

lemma unat_u16_of_nat: "n < 65536 \<Longrightarrow> unat (of_nat n :: u16) = n"
  by (simp add: unat_of_nat)

lemma unat_u8_of_nat: "n < 256 \<Longrightarrow> unat (of_nat n :: u8) = n"
  by (simp add: unat_of_nat)

lemma and_3ff: "unat ((x :: u32) AND 0x3FF) = unat x mod 1024"
proof -
  have m: "(mask 10 :: u32) = 0x3FF" by (simp add: mask_eq_exp_minus_1)
  have "unat (take_bit 10 x) = take_bit 10 (unat x)" by (rule unsigned_take_bit_eq)
  then show ?thesis by (simp add: take_bit_eq_mod flip: m take_bit_eq_mask)
qed

lemma app_offset: "k \<le> 53248 \<Longrightarrow> unat ((0x08002000 :: u32) + of_nat k) = 0x08002000 + k"
  using u32_of_nat[of k] by (simp add: unat_word_ariths(1))

lemma app_span:
  assumes "off + n \<le> 53248 + 1024" "off \<le> 53248" "i \<le> 53248"
  shows "(0x08002000 :: u32) + of_nat i \<in> span (0x08002000 + of_nat off) n \<longleftrightarrow> off \<le> i \<and> i < off + n"
  using span_iff[of "0x08002000 + of_nat off" n] app_offset[of i] app_offset[of off] assms by auto

lemma flashed_fields:
  assumes "flashed R b b'"
  shows "b_staged_header b' = b_staged_header b" "b_staged_tag b' = b_staged_tag b" "b_update_state b' = b_update_state b"
    "b_target_metadata_slot b' = b_target_metadata_slot b" "b_stream_sha b' = b_stream_sha b"
    "b_expected_offset b' = b_expected_offset b" "b_usb_configuration b' = b_usb_configuration b"
    "b_usb_tx_active b' = b_usb_tx_active b" "b_reset_after_tx b' = b_reset_after_tx b" "b_version_floor b' = b_version_floor b"
proof -
  have q: "b' = b\<lparr>b_mem := b_mem b', b_ops := b_ops b'\<rparr>" using assms by (simp add: flashed_def)
  show "b_staged_header b' = b_staged_header b" "b_staged_tag b' = b_staged_tag b" "b_update_state b' = b_update_state b"
    "b_target_metadata_slot b' = b_target_metadata_slot b" "b_stream_sha b' = b_stream_sha b"
    "b_expected_offset b' = b_expected_offset b" "b_usb_configuration b' = b_usb_configuration b"
    "b_usb_tx_active b' = b_usb_tx_active b" "b_reset_after_tx b' = b_reset_after_tx b" "b_version_floor b' = b_version_floor b"
    by (subst q, simp)+
qed

text \<open>Erasing the page that a chunk enters leaves room for the chunk.\<close>

lemma page_prepared:
  assumes hw: "flash_works (be_flash env)" and r: "image_so_far env hdr b sent" and off: "length sent < 53248"
  obtains b1 where "(if (ucast (of_nat (length sent) :: u16) AND (0x3FF :: u32)) = 0
        then flash_erase_page env b (0x08002000 + of_nat (length sent)) else (True, b)) = (True, b1)"
    "flashed (span (0x08002000 + of_nat (length sent)) 1024) b b1 \<and> (length sent mod 1024 \<noteq> 0 \<longrightarrow> b1 = b)"
    "\<And>i. length sent \<le> i \<Longrightarrow> i < 1024 * (length sent div 1024 + 1) \<Longrightarrow> b_mem b1 (0x08002000 + of_nat i) = 0xFF"
proof -
  let ?off = "length sent" and ?a = "(0x08002000 :: u32) + of_nat (length sent)"
  have o: "unat (ucast (of_nat ?off :: u16) :: u32) = ?off" using off by (simp add: unat_ucast_u16 unat_u16_of_nat)
  then have cond: "(ucast (of_nat ?off :: u16) AND (0x3FF :: u32)) = 0 \<longleftrightarrow> ?off mod 1024 = 0"
    using and_3ff[of "ucast (of_nat ?off :: u16)"] by (metis unat_0 unat_eq_zero)
  have u: "unat ?a = 0x08002000 + ?off" using app_offset off by simp
  have qr: "?off = 1024 * (?off div 1024) + ?off mod 1024" "?off mod 1024 < 1024" by simp_all
  show thesis
  proof (cases "?off mod 1024 = 0")
    case True
    have pg: "?a AND 0x3FF = 0"
    proof -
      have "unat (?a AND 0x3FF) = 0" unfolding and_3ff u using True mod_add_eq[of "0x08002000" 1024 ?off] by simp
      then show ?thesis by (simp add: unat_eq_0)
    qed
    have "?a \<ge> APP_BASE \<and> ?a < APP_END" using u off by (simp add: word_le_nat_alt word_less_nat_alt)
    then obtain b1 where e: "flash_erase_page env b ?a = (True, b1)" "flashed (span ?a 1024) b b1"
      "\<And>x. x \<in> span ?a 1024 \<Longrightarrow> b_mem b1 x = 0xFF"
      using boot_erase_works[OF hw pg] by blast
    show thesis
    proof (rule that[of b1])
      show "(if (ucast (of_nat (length sent) :: u16) AND (0x3FF :: u32)) = 0 then flash_erase_page env b ?a else (True, b)) = (True, b1)"
        using cond True e(1) by simp
      show "flashed (span ?a 1024) b b1 \<and> (length sent mod 1024 \<noteq> 0 \<longrightarrow> b1 = b)" using e(2) True by simp
      show "b_mem b1 (0x08002000 + of_nat i) = 0xFF" if "?off \<le> i" "i < 1024 * (?off div 1024 + 1)" for i
      proof -
        have "?off div 1024 < 52" using off by (simp add: less_mult_imp_div_less)
        then have "i < ?off + 1024" "i \<le> 53248" using that True qr by simp_all
        then show ?thesis using e(3) app_span[of ?off 1024 i] that off by simp
      qed
    qed
  next
    case False
    show thesis
    proof (rule that[of b])
      show "(if (ucast (of_nat (length sent) :: u16) AND (0x3FF :: u32)) = 0 then flash_erase_page env b ?a else (True, b)) = (True, b)"
        using cond False by simp
      have "(?off + 1023) div 1024 = ?off div 1024 + 1"
      proof (rule div_nat_eqI)
        have "1 \<le> ?off mod 1024" using False by simp
        then have "1024 * (?off div 1024) + 1 \<le> ?off" "?off < 1024 * (?off div 1024) + 1024" using qr by linarith+
        then show "1024 * (?off div 1024 + 1) \<le> ?off + 1023" "?off + 1023 < 1024 * Suc (?off div 1024 + 1)" by simp_all
      qed
      then show "b_mem b (0x08002000 + of_nat i) = 0xFF" if "?off \<le> i" "i < 1024 * (?off div 1024 + 1)" for i
        using r that by (simp add: image_so_far_def)
    qed simp
  qed
qed

lemma and_1_even: "even k \<Longrightarrow> (of_nat k :: u16) AND 1 = 0" "even k \<Longrightarrow> (of_nat k :: u8) AND 1 = 0"
proof -
  have e16: "even (of_nat k :: u16)" and e8: "even (of_nat k :: u8)" if "even k" using that by (auto elim!: evenE)
  show "even k \<Longrightarrow> (of_nat k :: u16) AND 1 = 0" "even k \<Longrightarrow> (of_nat k :: u8) AND 1 = 0"
    using e16 e8 by (simp_all add: and_one_eq even_iff_mod_2_eq_zero)
qed

lemma handle_data_accepts:
  assumes n: "\<not> (n < 5 \<or> n > 51)" and s: "b_update_state b \<in> {STATE_AUTHORIZED, STATE_RECEIVING}"
    and p: "rd16 p 1 = off" "ucast (n - 3) = len" "take (unat len) (drop 3 p) = data"
    and g: "\<not> (off AND 1 \<noteq> 0 \<or> len AND 1 \<noteq> 0 \<or> len < 2 \<or> len > 48 \<or> ucast off + ucast len > rd32 (b_staged_header b) 8)"
      "\<not> (ucast off AND 0x3FF) + (ucast len :: u32) > 1024" "\<not> (b_previous_valid b \<and> off = b_previous_offset b)"
    and x: "off = b_expected_offset b"
    and w: "(if ucast off AND (0x3FF :: u32) = 0 then flash_erase_page env b (APP_BASE + ucast off) else (True, b)) = (True, b1)"
      "flash_program_even_bytes env b1 (APP_BASE + ucast off) data = (True, b2)"
      "\<And>i. i < unat len \<Longrightarrow> b_mem b2 (APP_BASE + ucast off + of_nat i) = data ! i"
  shows "handle_data env b p n = (ST_OK, set_state STATE_RECEIVING (b2\<lparr>b_stream_sha := sha256_update (b_stream_sha b2) data,
     b_previous_data := store_at (b_previous_data b2) 0 data, b_previous_offset := off,
     b_previous_length := len, b_previous_valid := True, b_expected_offset := b_expected_offset b2 + ucast len\<rparr>))"
  using n s g w(3) unfolding handle_data_def Let_def p w(1) prod.case w(2) x[symmetric] by auto

text \<open>A chunk in sequence is accepted, and the image so far grows by it.\<close>

lemma chunk_accepted:
  assumes hw: "flash_works (be_flash env)" and r: "image_so_far env hdr b sent" and c: "chunk_ok (length sent) c"
    and fit: "length sent + length c \<le> unat (rd32 hdr 8)" and pl: "length (data_body (length sent) c @ fill) \<ge> 51"
  obtains b' where "handle_data env b (data_body (length sent) c @ fill) (of_nat (3 + length c)) = (ST_OK, b')"
    "image_so_far env hdr b' (sent @ c)" "b_usb_configuration b' = b_usb_configuration b"
    "b_usb_tx_active b' = b_usb_tx_active b" "b_reset_after_tx b' = b_reset_after_tx b" "b_staged_tag b' = b_staged_tag b"
proof -
  let ?off = "length sent" and ?p = "data_body (length sent) c @ fill"
  define n where "n = (of_nat (3 + length c) :: u16)"
  have inv: "boot_inv env b" "b_update_state b \<in> {STATE_AUTHORIZED, STATE_RECEIVING}" "b_staged_header b = hdr"
    "b_expected_offset b = of_nat ?off" "even ?off" using r by (simp_all add: image_so_far_def)
  then have hs: "header_structural_valid hdr" "meta_slot (b_target_metadata_slot b)" by (auto simp: boot_inv_def Let_def)
  have l: "?off + length c \<le> 53248" "?off < 53248" "length c \<le> 48" "2 \<le> length c" "even (length c)"
    using fit image_length[OF hs(1)] c by (simp_all add: chunk_ok_def)
  have un: "unat n = 3 + length c" using l by (simp add: n_def unat_u16_of_nat del: of_nat_add)
  have len: "(ucast (n - 3) :: u8) = of_nat (length c)"
  proof -
    have "unat (n - 3) = length c" using un by (simp add: unat_sub_if_size)
    from arg_cong[OF this, of "of_nat :: nat \<Rightarrow> u16"] have "n - 3 = of_nat (length c)" by simp
    moreover have "length c < 2 ^ 16" using l by simp
    ultimately show ?thesis by (simp add: unsigned_of_nat take_bit_nat_eq_self)
  qed
  have ul: "unat (of_nat (length c) :: u8) = length c" "unat (of_nat ?off :: u16) = ?off"
    using l by (simp_all add: unat_u8_of_nat unat_u16_of_nat)
  have o: "rd16 ?p 1 = of_nat ?off" using rd16_at[of "[5]" 1 "of_nat ?off" "c @ fill"] by (simp add: data_body_def)
  have data: "take (unat (of_nat (length c) :: u8)) (drop 3 ?p) = c" unfolding ul by (simp add: data_body_def wr16_def)
  have uc: "unat (ucast (of_nat ?off :: u16) :: u32) = ?off" "unat (ucast (of_nat (length c) :: u8) :: u32) = length c"
    using ul by (simp_all add: unat_ucast_u16 unat_ucast_u8)
  have addr: "(ucast (of_nat ?off :: u16) :: u32) = of_nat ?off" 
    using arg_cong[OF uc(1), of "of_nat :: nat \<Rightarrow> u32"] by (simp only: of_nat_unat ucast_id)
  have g1: "\<not> (n < 5 \<or> n > 51)" using un l by (simp add: word_less_nat_alt)
  have g2: "\<not> ((of_nat ?off :: u16) AND 1 \<noteq> 0 \<or> (of_nat (length c) :: u8) AND 1 \<noteq> 0 \<or> (of_nat (length c) :: u8) < 2
      \<or> (of_nat (length c) :: u8) > 48 \<or> ucast (of_nat ?off :: u16) + ucast (of_nat (length c) :: u8) > rd32 hdr 8)"
  proof -
    have "unat (ucast (of_nat ?off :: u16) + ucast (of_nat (length c) :: u8) :: u32) = ?off + length c"
      using uc l by (simp add: unat_word_ariths(1))
    then show ?thesis using fit ul l inv(5) by (simp add: and_1_even word_less_nat_alt not_less)
  qed
  have g3: "\<not> (ucast (of_nat ?off :: u16) AND (0x3FF :: u32)) + ucast (of_nat (length c) :: u8) > 1024"
  proof -
    have "unat ((ucast (of_nat ?off :: u16) AND (0x3FF :: u32)) + ucast (of_nat (length c) :: u8)) = ?off mod 1024 + length c"
      using uc and_3ff[of "ucast (of_nat ?off :: u16)"] l mod_less_divisor[of 1024 ?off] by (simp add: unat_word_ariths(1))
    then show ?thesis using c by (simp add: chunk_ok_def word_less_nat_alt)
  qed
  have g4: "\<not> (b_previous_valid b \<and> of_nat ?off = b_previous_offset b)"
    using r ul(2) by (auto simp: image_so_far_def)
  let ?a = "(0x08002000 :: u32) + of_nat ?off"
  obtain b1 where e: "(if (ucast (of_nat ?off :: u16) AND (0x3FF :: u32)) = 0 then flash_erase_page env b ?a else (True, b)) = (True, b1)"
    "flashed (span ?a 1024) b b1" "?off mod 1024 \<noteq> 0 \<Longrightarrow> b1 = b"
    "\<And>i. ?off \<le> i \<Longrightarrow> i < 1024 * (?off div 1024 + 1) \<Longrightarrow> b_mem b1 (0x08002000 + of_nat i) = 0xFF"
    using page_prepared[OF hw r l(2)] by metis
  have lt: "?off + length c \<le> 1024 * (?off div 1024 + 1)"
  proof -
    have "?off mod 1024 + length c \<le> 1024" using c by (simp add: chunk_ok_def)
    moreover obtain q m where "?off div 1024 = q" "?off mod 1024 = m" by blast
    ultimately show ?thesis using mult_div_mod_eq[of 1024 ?off] by simp
  qed
  have ua: "unat ?a = 0x08002000 + ?off" using app_offset l(2) by simp
  have of: "owned_from ?a (length c)" using l inv(5) ua by (simp add: owned_from_def)
  have z: "blank_flash b1 ?a (length c)"
    unfolding blank_flash_def
  proof
    fix x assume "x \<in> span ?a (length c)"
    then have x: "0x08002000 + ?off \<le> unat x" "unat x < 0x08002000 + ?off + length c" using span_iff[of ?a "length c"] ua l by auto
    define i where "i = unat x - 0x08002000"
    have i: "unat x = 0x08002000 + i" "?off \<le> i" "i < ?off + length c" using x by (simp_all add: i_def)
    then have "unat x = unat ((0x08002000 :: u32) + of_nat i)" using app_offset[of i] l by simp
    then have "x = (0x08002000 :: u32) + of_nat i" by (simp only: word_unat_eq_iff)
    then show "b_mem b1 x = 0xFF" using e(4)[OF i(2)] less_le_trans[OF i(3) lt] by simp
  qed
  obtain b2 where w: "flash_program_even_bytes env b1 ?a c = (True, b2)" "flashed (span ?a (length c)) b1 b2"
    "flash_region (b_mem b2) ?a (length c) = c"
    using boot_even_bytes_work[OF hw l(5) of z] .
  have w3: "b_mem b2 (?a + of_nat i) = c ! i" if "i < length c" for i
    using arg_cong[OF w(3), of "\<lambda>xs. xs ! i"] that by (simp add: flash_region_def)
  define b3 where "b3 = set_state STATE_RECEIVING (b2\<lparr>b_stream_sha := sha256_update (b_stream_sha b2) c,
     b_previous_data := store_at (b_previous_data b2) 0 c, b_previous_offset := of_nat ?off,
     b_previous_length := of_nat (length c), b_previous_valid := True, b_expected_offset := b_expected_offset b2 + ucast (of_nat (length c) :: u8)\<rparr>)"
  have eq: "handle_data env b ?p n = (ST_OK, b3)"
    unfolding b3_def
    by (rule handle_data_accepts[OF g1 inv(2) o len data g2[folded inv(3)] g3 g4 inv(4)[symmetric], unfolded addr ul, OF e(1)[unfolded addr] w(1) w3])
  have l51: "51 \<le> length ?p" using pl by simp
  have q52: "?off div 1024 < 52" using l by (simp add: less_mult_imp_div_less)
  have un1: "flashed UNIV b b2" using flashed_trans[OF flashed_mono[OF e(2)] flashed_mono[OF w(2)], of UNIV] by simp
  note f = flashed_fields[OF un1]
  have er: "b_mem b1 x = b_mem b x" if "unat x < 0x08002000 + ?off \<or> 0x0800F000 \<le> unat x" for x
  proof (cases "?off mod 1024 = 0")
    case True
    then have "?off + 1024 \<le> 53248" using q52 mult_div_mod_eq[of 1024 ?off] by simp
    then have "x \<notin> span ?a 1024" using that span_iff[of ?a 1024 x] ua by auto
    then show ?thesis using e(2) by (simp add: flashed_def)
  next
    case False
    then show ?thesis using e(3) by simp
  qed
  have wr: "b_mem b2 x = b_mem b1 x" if "unat x < 0x08002000 + ?off \<or> 0x08002000 + (?off + length c) \<le> unat x" for x
  proof -
    have "x \<notin> span ?a (length c)" using that span_iff[of ?a "length c" x] ua l by auto
    then show ?thesis using w(2) by (simp add: flashed_def)
  qed
  have m3: "b_mem b3 = b_mem b2" by (simp add: b3_def set_state_def)
  have "boot_inv env b3" using data_safe[OF inv(1) l51 eq] by (simp add: safe_step_def)
  moreover have "blank_flash b3 (b_target_metadata_slot b3) 1024"
  proof -
    have "b_mem b2 x = b_mem b x" if "x \<in> span (b_target_metadata_slot b) 1024" for x
      using that meta_span[OF hs(2)] hs(2) er[of x] wr[of x] l by (auto simp: meta_slot_def)
    then show ?thesis using r f by (simp add: image_so_far_def blank_flash_def b3_def set_state_def)
  qed
  moreover have "b_expected_offset b3 = of_nat (length (sent @ c))"
    using f inv(4) l by (simp add: b3_def set_state_def unsigned_of_nat take_bit_nat_eq_self)
  moreover have "b_mem b3 (0x08002000 + of_nat i) = (sent @ c) ! i" if "i < length (sent @ c)" for i
  proof (cases "i < ?off")
    case True
    then have "unat ((0x08002000 :: u32) + of_nat i) < 0x08002000 + ?off" using app_offset[of i] l by simp
    then show ?thesis using er wr r True m3 by (simp add: image_so_far_def nth_append)
  next
    case False
    then have "(0x08002000 :: u32) + of_nat i = ?a + of_nat (i - ?off)" "i - ?off < length c" using that by (simp_all add: of_nat_diff)
    then show ?thesis using w3[of "i - ?off"] False m3 by (simp add: nth_append)
  qed
  moreover have "b_mem b3 (0x08002000 + of_nat i) = 0xFF"
    if i: "length (sent @ c) \<le> i" "i < 1024 * ((length (sent @ c) + 1023) div 1024)" for i
  proof -
    have "(length (sent @ c) + 1023) div 1024 \<le> (1024 * (?off div 1024 + 1) + 1023) div 1024"
      using lt by (intro div_le_mono) simp
    then have "(length (sent @ c) + 1023) div 1024 \<le> ?off div 1024 + 1" by simp
    then have i2: "i < 1024 * (?off div 1024 + 1)" using i(2) by simp
    then have "unat ((0x08002000 :: u32) + of_nat i) = 0x08002000 + i" using app_offset[of i] q52 by simp
    then show ?thesis using e(4)[OF _ i2] wr i(1) m3 by simp
  qed
  moreover have "absorbed (b_stream_sha b3) (sent @ c)"
    using r f absorbed_update[of "b_stream_sha b" sent c] by (simp add: image_so_far_def b3_def set_state_def)
  moreover have "b_previous_valid b3 \<longrightarrow> unat (b_previous_offset b3) < length (sent @ c)"
    using l ul(2) by (auto simp: b3_def set_state_def)
  ultimately have "image_so_far env hdr b3 (sent @ c)"
    unfolding image_so_far_def using inv l f by (simp add: b3_def set_state_def)
  then show thesis using that[OF eq[unfolded n_def]] f by (simp add: b3_def set_state_def)
qed

end
