(* ===== verification/Boot_Install.thy ===== *)
theory Boot_Install
  imports Boot_Transfer
begin

unbundle bit_operations_syntax

text \<open>
  With a flash controller that works, a host that follows the protocol installs its image:
  every packet is accepted, and the next boot starts the image that was sent. The properties
  of the bootloader stand at the end.
\<close>

section \<open>Packets of a host\<close>

text \<open>A request with its check, in the receive buffer; the request identifier is not zero.\<close>

definition update_packet :: "u16 \<Rightarrow> bytes \<Rightarrow> bytes" where
  "update_packet rid body = (let h = [1, 4, 1, 0] @ wr16 rid @ wr16 (of_nat (length body)) @ body in
     [0xA5, 0x5A] @ h @ wr16 (crc16_ccitt h (length h)) @ replicate (52 - length body) 0)"

definition request :: "u16 \<Rightarrow> bytes \<Rightarrow> boot_event" where
  "request rid body = Ev_packet (update_packet rid body) (of_nat (12 + length body))"

fun data_events :: "u16 \<Rightarrow> nat \<Rightarrow> bytes list \<Rightarrow> boot_event list" where
  "data_events rid off [] = []"
| "data_events rid off (c # cs) = [request rid (data_body off c), Ev_sent] @ data_events rid (off + length c) cs"

text \<open>Everything but the last packet.\<close>

definition transfer_events :: "u16 \<Rightarrow> bytes \<Rightarrow> bytes \<Rightarrow> bytes list \<Rightarrow> boot_event list" where
  "transfer_events rid hdr tag chunks =
     [request rid (3 # hdr), Ev_sent, request rid (4 # tag), Ev_sent] @ data_events rid 0 chunks"

fun chunks_ok :: "nat \<Rightarrow> bytes list \<Rightarrow> bool" where
  "chunks_ok off [] \<longleftrightarrow> True"
| "chunks_ok off (c # cs) \<longleftrightarrow> chunk_ok off c \<and> chunks_ok (off + length c) cs"

lemma packet_length: "length body \<le> 52 \<Longrightarrow> length (update_packet rid body) = 64"
  by (simp add: update_packet_def Let_def)

lemma packet_fields:
  assumes "1 \<le> length body" "length body \<le> 52"
  shows "update_packet rid body ! 0 = 0xA5" "update_packet rid body ! 1 = 0x5A" "update_packet rid body ! 2 = 1"
    "update_packet rid body ! 3 = 4" "update_packet rid body ! 4 = 1" "update_packet rid body ! 5 = 0"
    "rd16 (update_packet rid body) 6 = rid" "rd16 (update_packet rid body) 8 = of_nat (length body)"
    "update_packet rid body ! 10 = body ! 0"
    "crc16_ccitt (drop 2 (update_packet rid body)) (8 + length body) = rd16 (update_packet rid body) (10 + length body)"
    "\<exists>fill. drop 10 (update_packet rid body) = body @ fill \<and> length (body @ fill) = 54"
proof -
  define h where "h = [1, 4, 1, 0] @ wr16 rid @ wr16 (of_nat (length body)) @ body"
  define z where "z = replicate (52 - length body) (0 :: u8)"
  have p: "update_packet rid body = [0xA5, 0x5A] @ h @ wr16 (crc16_ccitt h (length h)) @ z"
    by (simp add: update_packet_def h_def z_def Let_def)
  have lh: "length h = 8 + length body" by (simp add: h_def)
  show "update_packet rid body ! 0 = 0xA5" "update_packet rid body ! 1 = 0x5A" "update_packet rid body ! 2 = 1"
    "update_packet rid body ! 3 = 4" "update_packet rid body ! 4 = 1" "update_packet rid body ! 5 = 0"
    by (simp_all add: p h_def nth_append)
  show "rd16 (update_packet rid body) 6 = rid"
    using rd16_at[of "[0xA5, 0x5A, 1, 4, 1, 0]" 6 rid] by (simp add: p h_def)
  show "rd16 (update_packet rid body) 8 = of_nat (length body)"
    using rd16_at[of "[0xA5, 0x5A, 1, 4, 1, 0] @ wr16 rid" 8 "of_nat (length body)"] by (simp add: p h_def)
  obtain x xs where b: "body = x # xs" using assms(1) by (cases body) auto
  show "update_packet rid body ! 10 = body ! 0" unfolding p h_def by (simp add: b wr16_def nth_Cons')
  have "rd16 (update_packet rid body) (10 + length body) = crc16_ccitt h (length h)"
    unfolding p using rd16_at[of "[0xA5, 0x5A] @ h" "10 + length body" "crc16_ccitt h (length h)" z] lh by simp
  moreover have "crc16_ccitt (drop 2 (update_packet rid body)) (8 + length body) = crc16_ccitt h (length h)"
    by (simp add: p crc16_ccitt_def lh[symmetric])
  ultimately show "crc16_ccitt (drop 2 (update_packet rid body)) (8 + length body) = rd16 (update_packet rid body) (10 + length body)" by simp
  have "drop 10 (update_packet rid body) = body @ wr16 (crc16_ccitt h (length h)) @ z"
    by (simp add: p h_def wr16_def)
  then show "\<exists>fill. drop 10 (update_packet rid body) = body @ fill \<and> length (body @ fill) = 54"
    using assms by (intro exI[of _ "wr16 (crc16_ccitt h (length h)) @ z"]) (simp add: z_def)
qed

text \<open>What only the endpoint sees.\<close>

definition sent_from :: "boot \<Rightarrow> boot \<Rightarrow> bool" where
  "sent_from b b' \<longleftrightarrow> (\<exists>t e v r. b' = b\<lparr>b_tx_packet := t, b_ep1_tx := e, b_usb_tx_active := v, b_ep1_rx_valid := r\<rparr>)"

definition usb_idle :: "boot \<Rightarrow> bool" where
  "usb_idle b \<longleftrightarrow> b_usb_configuration b = 1 \<and> \<not> b_usb_tx_active b \<and> \<not> b_reset_after_tx b"

lemma request_handled:
  assumes rid: "rid \<noteq> 0" and l: "1 \<le> length body" "length body \<le> 52"
    and q: "boot_request env (b\<lparr>b_ep1_rx_valid := False\<rparr>) (update_packet rid body) (of_nat (length body)) = (st, b1)"
    and u: "b_usb_configuration b1 = 1" "\<not> b_usb_tx_active b1"
  shows "sent_from b1 (boot_event_step env b (request rid body))"
    "b_usb_tx_active (boot_event_step env b (request rid body))"
proof -
  note f = packet_fields[OF l, of rid]
  have un: "unat (of_nat (length body) :: u16) = length body" "unat (of_nat (12 + length body) :: u16) = 12 + length body"
    using l unat_u16_of_nat[of "length body"] unat_u16_of_nat[of "12 + length body"] by simp_all
  have g: "\<not> (of_nat (12 + length body) < (12 :: u16) \<or> of_nat (12 + length body) > (64 :: u16))"
    "\<not> (rid = 0 \<or> of_nat (length body) > (52 :: u16) \<or> of_nat (12 + length body) \<noteq> (12 + of_nat (length body) :: u16) \<or> of_nat (length body) = (0 :: u16))"
    using rid l un by (auto simp: word_less_nat_alt unat_eq_0)
  define b2 where "b2 = build_response b1 rid (body ! 0) st"
  have fr: "b_usb_configuration b2 = 1" "\<not> b_usb_tx_active b2" using u by (simp_all add: b2_def build_response_def Let_def)
  then have "process_bulk_packet env (b\<lparr>b_ep1_rx_valid := False\<rparr>) (update_packet rid body) (of_nat (12 + length body))
      = (True, b2\<lparr>b_ep1_tx := take 28 (b_tx_packet b2), b_usb_tx_active := True\<rparr>)"
    using g q 
    unfolding process_bulk_packet_def Let_def f un b2_def[symmetric] prod.case bulk_send_def by (simp add: b2_def[symmetric] del: of_nat_add)
  moreover have "of_nat (12 + length body) \<le> (64 :: u16)" using un l by (simp add: word_le_nat_alt del: of_nat_add)
  ultimately have e: "boot_event_step env b (request rid body) = b2\<lparr>b_ep1_tx := take 28 (b_tx_packet b2), b_usb_tx_active := True\<rparr>"
    by (simp add: request_def boot_handle_ep1_rx_def Let_def del: of_nat_add)
  have "\<exists>t. b2 = b1\<lparr>b_tx_packet := t\<rparr>" by (auto simp: b2_def build_response_def Let_def)
  then obtain t where t: "b2 = b1\<lparr>b_tx_packet := t\<rparr>" by blast
  show "sent_from b1 (boot_event_step env b (request rid body))"
    unfolding e t sent_from_def
    by (intro exI[of _ t] exI[of _ "take 28 t"] exI[of _ True] exI[of _ "b_ep1_rx_valid b1"]) simp
  show "b_usb_tx_active (boot_event_step env b (request rid body))" by (simp add: e)
qed

text \<open>A request and its answer.\<close>

lemma exchange_run:
  assumes "rid \<noteq> 0" "1 \<le> length body" "length body \<le> 52"
    and q: "boot_request env (b\<lparr>b_ep1_rx_valid := False\<rparr>) (update_packet rid body) (of_nat (length body)) = (st, b1)"
    and u: "usb_idle b1"
  obtains b2 where "boot_run env b [request rid body, Ev_sent] = b2" "sent_from b1 b2" "usb_idle b2"
proof -
  let ?c = "boot_event_step env b (request rid body)"
  have c: "sent_from b1 ?c" using request_handled(1)[OF assms(1-3) q] u by (simp add: usb_idle_def)
  then have r: "\<not> b_reset_after_tx ?c" "b_usb_configuration ?c = 1" using u by (auto simp: sent_from_def usb_idle_def)
  then have e: "boot_run env b [request rid body, Ev_sent] = ?c\<lparr>b_usb_tx_active := False, b_ep1_rx_valid := True\<rparr>"
    by (simp add: boot_run_def boot_handle_ep1_tx_def Let_def)
  have "sent_from b1 (?c\<lparr>b_usb_tx_active := False, b_ep1_rx_valid := True\<rparr>)" 
    using c unfolding sent_from_def by (elim exE) (simp, (intro exI)?, (rule refl)?)
  moreover have "usb_idle (?c\<lparr>b_usb_tx_active := False, b_ep1_rx_valid := True\<rparr>)" using r by (simp add: usb_idle_def)
  ultimately show thesis using that e by simp
qed

lemma run_append: "boot_run env b (es @ fs) = boot_run env (boot_run env b es) fs"
  by (simp add: boot_run_def)

lemma sent_fields:
  assumes "sent_from b b'"
  shows "b_mem b' = b_mem b" "b_staged_header b' = b_staged_header b" "b_staged_tag b' = b_staged_tag b"
    "b_update_state b' = b_update_state b" "b_target_metadata_slot b' = b_target_metadata_slot b" "b_stream_sha b' = b_stream_sha b"
    "b_expected_offset b' = b_expected_offset b" "b_previous_valid b' = b_previous_valid b" "b_previous_offset b' = b_previous_offset b"
  using assms by (auto simp: sent_from_def)

lemma sent_rx: "sent_from b (b\<lparr>b_ep1_rx_valid := v\<rparr>)"
  unfolding sent_from_def
  by (intro exI[of _ "b_tx_packet b"] exI[of _ "b_ep1_tx b"] exI[of _ "b_usb_tx_active b"] exI[of _ v]) simp

lemma sent_inv: "sent_from b b' \<Longrightarrow> boot_inv env b' = boot_inv env b"
  by (simp add: boot_inv_def sent_fields)

lemma sent_image: "sent_from b b' \<Longrightarrow> image_so_far env hdr b' sent = image_so_far env hdr b sent"
  by (simp add: image_so_far_def blank_flash_def sent_inv sent_fields)

lemma scan_mem:
  assumes "b_mem b' = b_mem b"
  shows "b_committed_version (scan_metadata env b') = b_committed_version (scan_metadata env b)"
    "b_version_floor (scan_metadata env b') = b_version_floor (scan_metadata env b)"
    "b_highest_floor_slot (scan_metadata env b') = b_highest_floor_slot (scan_metadata env b)"
  by (simp_all add: scan_metadata_def assms Let_def split: option.split)

section \<open>The packets of an update are accepted\<close>

lemma begin_accepted:
  assumes "length hdr = 48" "header_structural_valid hdr" "b_update_state b = STATE_RECOVERY_IDLE"
  shows "handle_begin b (3 # hdr @ fill) 49 = (ST_OK, set_state STATE_HEADER_STAGED
    (b\<lparr>b_staged_header := hdr, b_previous_valid := False, b_expected_offset := 0, b_target_metadata_slot := 0\<rparr>))"
  using assms by (simp add: handle_begin_def)

lemma authorize_accepted:
  assumes hw: "flash_works (be_flash env)" and i: "boot_inv env b" and s: "b_update_state b = STATE_HEADER_STAGED"
    and t: "length tag = 32" "hmac_header (be_key env) (b_staged_header b) = tag" "header_target_valid env (b_staged_header b)"
    and v: "if b_committed_version (scan_metadata env b) \<noteq> 0
      then b_version_floor (scan_metadata env b) < rd32 (b_staged_header b) 12
      else b_version_floor (scan_metadata env b) \<le> rd32 (b_staged_header b) 12"
    and bl: "length (sh_buffer (b_stream_sha b)) = 64" and u: "usb_idle b"
  obtains b' where "handle_authorize env b (4 # tag @ fill) 33 = (ST_OK, b')" "image_so_far env (b_staged_header b) b' []" "usb_idle b'"
proof -
  define b1 where "b1 = b\<lparr>b_staged_tag := tag\<rparr>"
  define b2 where "b2 = scan_metadata env b1"
  define t where "t = (if b_highest_floor_slot b2 = META_A then META_B else META_A)"
  define b3 where "b3 = b2\<lparr>b_target_metadata_slot := t\<rparr>"
  have tm: "meta_slot t" by (simp add: t_def meta_slot_def)
  have "t AND 0x3FF = 0" by (simp add: t_def)
  then obtain b4 where e: "flash_erase_page env b3 t = (True, b4)" "flashed (span t 1024) b3 b4"
    "\<And>x. x \<in> span t 1024 \<Longrightarrow> b_mem b4 x = 0xFF"
    using boot_erase_works[OF hw, of t b3] tm by (auto simp: meta_slot_def)
  note f4 = flashed_fields[OF e(2)]
  define b5 where "b5 = set_state STATE_AUTHORIZED (b4\<lparr>b_stream_sha := sha256_init (b_stream_sha b4), b_expected_offset := 0, b_previous_valid := False\<rparr>)"
  have same: "b_staged_header b2 = b_staged_header b" "b_stream_sha b2 = b_stream_sha b" "usb_idle b2"
    using u unfolding b2_def by (subst scan_fields, simp add: b1_def usb_idle_def)+
  have vv: "\<not> (if b_committed_version b2 \<noteq> 0 then rd32 (b_staged_header b2) 12 \<le> b_version_floor b2 else rd32 (b_staged_header b2) 12 < b_version_floor b2)"
  proof -
    have m: "b_mem b1 = b_mem b" by (simp add: b1_def)
    show ?thesis using v unfolding scan_mem[OF m, symmetric] b2_def[symmetric] same(1) by (simp split: if_splits)
  qed
  have be: "bytes_equal (hmac_header (be_key env) (b_staged_header b)) tag 32" using t by (simp add: bytes_equal_iff)
  have eq: "handle_authorize env b (4 # tag @ fill) 33 = (ST_OK, b5)"
  proof -
    have tk: "take 32 (drop 1 (4 # tag @ fill)) = tag" using t(1) by simp
    show ?thesis
      unfolding handle_authorize_def Let_def tk b1_def[symmetric] b2_def[symmetric] t_def[symmetric] b3_def[symmetric]
      using s be t(3) vv e(1) by (simp add: b1_def b3_def b5_def)
  qed
  have "boot_inv env b5" using authorize_safe[OF i _ eq] t(1) by (simp add: safe_step_def)
  moreover have "blank_flash b5 t 1024" "b_target_metadata_slot b5 = t" "b_staged_header b5 = b_staged_header b"
    using e(3) f4 same by (simp_all add: blank_flash_def b5_def b3_def set_state_def)
  moreover have "absorbed (b_stream_sha b5) []" using absorbed_init[of "b_stream_sha b4"] bl f4 same by (simp add: b5_def b3_def set_state_def)
  ultimately have "image_so_far env (b_staged_header b) b5 []" by (simp add: image_so_far_def b5_def set_state_def)
  moreover have "usb_idle b5" using f4 same(3) by (simp add: usb_idle_def b5_def b3_def set_state_def)
  ultimately show thesis using that[OF eq] by simp
qed

lemma request_opcode:
  assumes "1 \<le> length body" "length body \<le> 52"
  obtains fill where "length (body @ fill) = 54" "body ! 0 = 3 \<Longrightarrow> boot_request env b (update_packet rid body) n = handle_begin b (body @ fill) n"
    "body ! 0 = 4 \<Longrightarrow> boot_request env b (update_packet rid body) n = handle_authorize env b (body @ fill) n"
    "body ! 0 = 5 \<Longrightarrow> boot_request env b (update_packet rid body) n = handle_data env b (body @ fill) n"
    "body ! 0 = 6 \<Longrightarrow> boot_request env b (update_packet rid body) n = handle_end env b n"
proof -
  note f = packet_fields[OF assms, of rid]
  obtain fill where d: "drop 10 (update_packet rid body) = body @ fill" "length (body @ fill) = 54" using f(11) by blast
  show thesis by (rule that[OF d(2)]) (simp_all add: d(1) boot_request_def f)
qed

text \<open>All chunks, one after the other.\<close>

lemma chunks_run:
  assumes hw: "flash_works (be_flash env)" and rid: "rid \<noteq> 0"
  shows "image_so_far env hdr b sent \<Longrightarrow> usb_idle b \<Longrightarrow> chunks_ok (length sent) cs \<Longrightarrow>
    length (sent @ concat cs) \<le> unat (rd32 hdr 8) \<Longrightarrow>
    image_so_far env hdr (boot_run env b (data_events rid (length sent) cs)) (sent @ concat cs)
    \<and> usb_idle (boot_run env b (data_events rid (length sent) cs))"
proof (induction cs arbitrary: b sent)
  case Nil
  then show ?case by (simp add: boot_run_def)
next
  case (Cons c cs)
  let ?b = "b\<lparr>b_ep1_rx_valid := False\<rparr>" and ?body = "data_body (length sent) c"
  have ok: "chunk_ok (length sent) c" using Cons.prems(3) by simp
  then have l: "length ?body = 3 + length c" "1 \<le> length ?body" "length ?body \<le> 52" "?body ! 0 = 5"
    by (simp_all add: data_body_def chunk_ok_def)
  obtain fill where r: "length (?body @ fill) = 54"
    "boot_request env ?b (update_packet rid ?body) (of_nat (length ?body)) = handle_data env ?b (?body @ fill) (of_nat (length ?body))"
    using request_opcode[OF l(2,3), of env ?b rid "of_nat (length ?body)"] l(4) by metis
  have i: "image_so_far env hdr ?b sent" using Cons.prems(1) sent_image[OF sent_rx] by blast
  obtain b1 where h: "handle_data env ?b (?body @ fill) (of_nat (3 + length c)) = (ST_OK, b1)" "image_so_far env hdr b1 (sent @ c)"
    "usb_idle b1"
    using chunk_accepted[OF hw i ok, of fill] Cons.prems(2,4) r(1) by (auto simp: usb_idle_def)
  obtain b2 where e: "boot_run env b [request rid ?body, Ev_sent] = b2" "sent_from b1 b2" "usb_idle b2"
    using exchange_run[OF rid l(2,3) _ h(3)] r(2) h(1) l(1) by metis
  have "image_so_far env hdr (boot_run env b2 (data_events rid (length (sent @ c)) cs)) ((sent @ c) @ concat cs)
    \<and> usb_idle (boot_run env b2 (data_events rid (length (sent @ c)) cs))"
    using Cons.prems(3,4) h(2) e(3) sent_image[OF e(2)] by (intro Cons.IH) simp_all
  then show ?case unfolding data_events.simps run_append e(1) by simp
qed

lemma image_so_far_region: "image_so_far env hdr b sent \<Longrightarrow> flash_region (b_mem b) APP_BASE (length sent) = sent"
  by (rule nth_equalityI) (simp_all add: image_so_far_def flash_region_def)

lemma end_accepted:
  assumes hw: "flash_works (be_flash env)" and r: "image_so_far env hdr b img" and v: "image_vouched env hdr tag img"
  obtains b' where "handle_end env b 1 = (ST_OK, b')" "flash_region (b_mem b') APP_BASE (length img) = img"
    "b_usb_configuration b' = b_usb_configuration b" "b_usb_tx_active b' = b_usb_tx_active b"
proof -
  have l: "length img = unat (rd32 hdr 8)" "length hdr = 48" "sha256 img = drop 16 hdr" "8 \<le> length img" "length img \<le> 53248"
    using v image_length[of hdr] by (simp_all add: image_vouched_def)
  have hdr: "b_staged_header b = hdr" using r by (simp add: image_so_far_def)
  have exp: "ucast (b_expected_offset b) = rd32 hdr 8"
  proof -
    have "unat (ucast (b_expected_offset b) :: u32) = unat (rd32 hdr 8)"
      using r l unat_u16_of_nat[of "length img"] by (simp add: image_so_far_def unat_ucast_u16)
    then show ?thesis by (simp only: word_unat_eq_iff)
  qed
  obtain streamed ctx where f: "sha256_final (b_stream_sha b) = (streamed, ctx)" by fastforce
  have "streamed = sha256 img" using final_absorbed[of "b_stream_sha b" img] r l f by (simp add: image_so_far_def)
  then have d1: "bytes_equal streamed (drop 16 hdr) 32" using l(3) by (simp add: bytes_equal_iff)
  note reg = image_so_far_region[OF r]
  define b1 where "b1 = (set_state STATE_VERIFYING b)\<lparr>b_stream_sha := ctx\<rparr>"
  have same: "b_mem b1 = b_mem b" "b_staged_header b1 = hdr" "b_staged_tag b1 = b_staged_tag b" "b_target_metadata_slot b1 = b_target_metadata_slot b"
    using hdr by (simp_all add: b1_def set_state_def)
  have d2: "bytes_equal (sha256_memory (b_mem b1) APP_BASE (unat (rd32 hdr 8))) (drop 16 hdr) 32"
    using sha256_memory_sha256[of "length img" "b_mem b" APP_BASE] reg l same by (simp add: bytes_equal_iff)
  have vec: "vectors_valid (b_mem b1) (rd32 hdr 8)"
    using region_rd32[OF l(4), of "b_mem b" APP_BASE] v unfolding reg same vectors_valid_def image_vouched_def by simp
  have a: "meta_slot (b_target_metadata_slot b1)" "length (b_staged_header b1) = 48" "length (b_staged_tag b1) = 32"
    "blank_flash b1 (b_target_metadata_slot b1) 1024"
    using r l(2) same by (auto simp: image_so_far_def boot_inv_def blank_flash_def Let_def)
  obtain b2 where w: "program_metadata env b1 = (True, b2)" using boot_metadata_works[OF hw a] .
  have st: "b_update_state b \<in> {STATE_AUTHORIZED, STATE_RECEIVING}" using r by (simp add: image_so_far_def)
  define b3 where "b3 = (if rd32 (b_staged_header b2) 12 > b_version_floor b2 then b2\<lparr>b_version_floor := rd32 (b_staged_header b2) 12\<rparr> else b2)"
  define b4 where "b4 = set_state STATE_COMMITTED (b3\<lparr>b_committed_version := rd32 (b_staged_header b2) 12, b_reset_after_tx := True\<rparr>)"
  have eq: "handle_end env b 1 = (ST_OK, b4)"
    using st a(1) unfolding handle_end_def hdr exp f Let_def prod.case b1_def[symmetric] w b3_def[symmetric] b4_def[symmetric]
    by (auto simp: d1 d2 vec meta_slot_def)
  have fl: "flashed (span (b_target_metadata_slot b1) 1024) b1 b2" using metadata_flashed(1)[OF a(1-3) w] .
  note f2 = flashed_fields[OF fl]
  have m: "b_mem b2 (0x08002000 + of_nat i) = b_mem b (0x08002000 + of_nat i)" if "i < length img" for i
  proof -
    have "(0x08002000 :: u32) + of_nat i \<notin> span (b_target_metadata_slot b1) 1024"
      using meta_span[OF a(1)] a(1) app_offset[of i] that l(5) by (auto simp: meta_slot_def)
    then show ?thesis using fl same(1) by (simp add: flashed_def)
  qed
  have "flash_region (b_mem b4) APP_BASE (length img) = img"
    using m by (subst (2) reg[symmetric]) (simp add: flash_region_def b4_def b3_def set_state_def)
  then show thesis using that[OF eq] f2 by (simp add: b4_def b3_def b1_def set_state_def)
qed

text \<open>The whole transfer, up to the last packet.\<close>

lemma transfer_run:
  assumes boot: "boot_main env b0 u c = Recovery b" and hw: "flash_works (be_flash env)" and rid: "rid \<noteq> 0"
    and usb: "b_usb_configuration b = 1" "\<not> b_usb_tx_active b" "length (sh_buffer (b_stream_sha b)) = 64"
    and v: "image_vouched env hdr tag (concat cs)" and ok: "chunks_ok 0 cs"
    and ver: "if b_committed_version (scan_metadata env b) \<noteq> 0
      then b_version_floor (scan_metadata env b) < rd32 hdr 12 else b_version_floor (scan_metadata env b) \<le> rd32 hdr 12"
  shows "image_so_far env hdr (boot_run env b (transfer_events rid hdr tag cs)) (concat cs)"
    "usb_idle (boot_run env b (transfer_events rid hdr tag cs))"
proof -
  have hdr: "length hdr = 48" "header_structural_valid hdr" "header_target_valid env hdr"
    "hmac_header (be_key env) hdr = tag" "length tag = 32" "length (concat cs) = unat (rd32 hdr 8)"
    using v by (auto simp: image_vouched_def hmac_header_sha256)
  have b: "b_update_state b = STATE_RECOVERY_IDLE" "\<not> b_reset_after_tx b" "boot_inv env b"
    using boot recovery_inv[OF boot] by (auto simp: boot_main_def Let_def split: if_splits)
  define b1 where "b1 = set_state STATE_HEADER_STAGED (b\<lparr>b_ep1_rx_valid := False, b_staged_header := hdr,
    b_previous_valid := False, b_expected_offset := 0, b_target_metadata_slot := 0\<rparr>)"
  have l1: "1 \<le> length (3 # hdr)" "length (3 # hdr) \<le> 52" "(3 # hdr) ! 0 = (3 :: u8)" using hdr(1) by simp_all
  obtain fill where "boot_request env (b\<lparr>b_ep1_rx_valid := False\<rparr>) (update_packet rid (3 # hdr)) 49
      = handle_begin (b\<lparr>b_ep1_rx_valid := False\<rparr>) (3 # hdr @ fill) 49"
    using request_opcode[OF l1(1,2), of env "b\<lparr>b_ep1_rx_valid := False\<rparr>" rid 49] by auto
  then have "boot_request env (b\<lparr>b_ep1_rx_valid := False\<rparr>) (update_packet rid (3 # hdr)) 49 = (ST_OK, b1)"
    using begin_accepted[OF hdr(1,2), of "b\<lparr>b_ep1_rx_valid := False\<rparr>" fill] b(1) by (simp add: b1_def)
  then have q1: "boot_request env (b\<lparr>b_ep1_rx_valid := False\<rparr>) (update_packet rid (3 # hdr)) (of_nat (length (3 # hdr))) = (ST_OK, b1)"
    using hdr(1) by simp
  have i1: "usb_idle b1" using usb b(2) by (simp add: usb_idle_def b1_def set_state_def)
  obtain b2 where e1: "boot_run env b [request rid (3 # hdr), Ev_sent] = b2" "sent_from b1 b2" "usb_idle b2"
    using exchange_run[OF rid l1(1,2) q1 i1] .
  let ?b2 = "b2\<lparr>b_ep1_rx_valid := False\<rparr>"
  note f = sent_fields[OF e1(2)]
  have m2: "b_mem ?b2 = b_mem b" "b_staged_header ?b2 = hdr" "b_update_state ?b2 = STATE_HEADER_STAGED" "b_stream_sha ?b2 = b_stream_sha b"
    using f by (simp_all add: b1_def set_state_def)
  have i2: "boot_inv env ?b2" using m2 hdr(1,2) by (simp add: boot_inv_def Let_def)
  have u2: "usb_idle ?b2" using e1(3) by (simp add: usb_idle_def)
  have l2: "1 \<le> length (4 # tag)" "length (4 # tag) \<le> 52" "(4 # tag) ! 0 = (4 :: u8)" using hdr(5) by simp_all
  obtain fill2 where o2: "boot_request env ?b2 (update_packet rid (4 # tag)) 33 = handle_authorize env ?b2 (4 # tag @ fill2) 33"
    using request_opcode[OF l2(1,2), of env ?b2 rid 33] by auto
  obtain b3 where a: "handle_authorize env ?b2 (4 # tag @ fill2) 33 = (ST_OK, b3)" "image_so_far env hdr b3 []" "usb_idle b3"
    using authorize_accepted[OF hw i2 m2(3) hdr(5), of fill2] hdr(3,4) ver usb(3) u2
    unfolding m2(2,4) scan_mem[OF m2(1)] by metis
  have q2: "boot_request env ?b2 (update_packet rid (4 # tag)) (of_nat (length (4 # tag))) = (ST_OK, b3)"
    using o2 a(1) hdr(5) by simp
  obtain b4 where e2: "boot_run env b2 [request rid (4 # tag), Ev_sent] = b4" "sent_from b3 b4" "usb_idle b4"
    using exchange_run[OF rid l2(1,2) q2 a(3)] .
  have "boot_run env b (transfer_events rid hdr tag cs) = boot_run env b4 (data_events rid (length ([] :: bytes)) cs)"
    using run_append[of env b "[request rid (3 # hdr), Ev_sent]"] run_append[of env b2 "[request rid (4 # tag), Ev_sent]"] e1(1) e2(1)
    by (simp add: transfer_events_def)
  moreover have "image_so_far env hdr b4 []" using a(2) sent_image[OF e2(2)] by blast
  ultimately show "image_so_far env hdr (boot_run env b (transfer_events rid hdr tag cs)) (concat cs)"
    "usb_idle (boot_run env b (transfer_events rid hdr tag cs))"
    using chunks_run[OF hw rid, of hdr b4 "[]" cs] e2(3) ok hdr(6) by simp_all
qed

lemma handoff_mem:
  assumes "b_mem b' = b_mem b" "boot_main env b False k = Handoff x y"
  shows "boot_main env b' False k = Handoff x y"
  using assms scan_mem[OF assms(1), of env] by (auto simp: boot_main_def scan_same Let_def split: if_splits)

text \<open>The last packet, and the boot after it.\<close>

lemma end_run:
  assumes hw: "flash_works (be_flash env)" and rid: "rid \<noteq> 0" and r: "image_so_far env hdr b img" and u: "usb_idle b"
    and v: "image_vouched env hdr tag img"
  shows "boot_main env (boot_run env b [request rid [6]]) False k = Handoff (rd32 img 0) (rd32 img 4)
    \<and> flash_region (b_mem (boot_run env b [request rid [6]])) APP_BASE (length img) = img
    \<and> b_version_floor (scan_metadata env (boot_run env b [request rid [6]])) = rd32 hdr 12"
proof -
  let ?b = "b\<lparr>b_ep1_rx_valid := False\<rparr>"
  have i: "image_so_far env hdr ?b img" using r sent_image[OF sent_rx] by blast
  obtain b' where e: "handle_end env ?b 1 = (ST_OK, b')" "flash_region (b_mem b') APP_BASE (length img) = img"
    "b_usb_configuration b' = 1" "\<not> b_usb_tx_active b'"
    using end_accepted[OF hw i v] u by (auto simp: usb_idle_def)
  have "boot_request env ?b (update_packet rid [6]) (of_nat (length [6 :: u8])) = (ST_OK, b')"
    using request_opcode[of "[6]" env ?b rid 1] e(1) by auto
  then have s: "sent_from b' (boot_run env b [request rid [6]])"
    using request_handled(1)[OF rid, of "[6]"] e(3,4) by (simp add: boot_run_def)
  have g: "boot_inv env ?b" "b_staged_header ?b = hdr" "length img = unat (rd32 hdr 8)"
    using i v by (simp_all add: image_so_far_def image_vouched_def)
  note eb = end_boots[OF g(1) e(1), unfolded g(2) Let_def g(3)[symmetric] e(2)]
  note m = sent_fields(1)[OF s]
  show ?thesis using eb handoff_mem[OF m] scan_mem(2)[OF m] m e(2) by simp
qed

section \<open>An example\<close>

text \<open>A blank device, and a host that sends the smallest image: a stack pointer and a reset vector.\<close>

definition demo_env :: boot_env where
  "demo_env = \<lparr>be_key = replicate 32 7, be_idcode = 0x20036410, be_flash = (\<lambda>_. \<lparr>fo_hsi_ready = True, fo_busy_before = 0,
     fo_unlocks = True, fo_busy_after = 0, fo_status = FLASH_SR_EOP, fo_cycles = 0, fo_clock = 0, fo_program = id, fo_erase = (\<lambda>_ _. 0xFF)\<rparr>)\<rparr>"

definition demo_boot :: boot where
  "demo_boot = \<lparr>b_mem = (\<lambda>_. 0xFF), b_ops = 0, b_staged_header = [], b_staged_tag = [], b_previous_data = replicate 48 0,
     b_stream_sha = fresh_ctx, b_expected_offset = 0, b_previous_offset = 0, b_previous_length = 0, b_previous_valid = False,
     b_update_state = STATE_RECOVERY_IDLE, b_usb_configuration = 1, b_usb_tx_active = False, b_reset_after_tx = False,
     b_version_floor = 0, b_committed_version = 0, b_highest_floor_slot = 0, b_target_metadata_slot = 0,
     b_tx_packet = replicate 64 0, b_ep1_tx = [], b_ep1_rx_valid = True\<rparr>"

definition demo_image :: bytes where
  "demo_image = wr32 0x20005000 @ wr32 0x08002001"

definition demo_header :: bytes where
  "demo_header = wr32 PRODUCT_ID @ [1, 0] @ wr16 TARGET_DEVICE_ID @ wr32 8 @ wr32 1 @ sha256 demo_image"

definition demo_tag :: bytes where
  "demo_tag = sha256 (key_block (be_key demo_env) 0x5C @ sha256 (key_block (be_key demo_env) 0x36 @ hmac_domain @ origin_le @ demo_header))"

lemma demo_works: "flash_works (be_flash demo_env)"
  by (simp add: flash_works_def demo_env_def)

lemma demo_scan: "scan_metadata demo_env demo_boot = demo_boot"
proof -
  have "read_u16 (\<lambda>_. 0xFF) a \<noteq> 0xA55A" for a by (simp add: read_u16_def)
  then have "metadata_authenticated demo_env (b_mem demo_boot) s = None" for s
    by (simp add: metadata_authenticated_def demo_boot_def Let_def)
  then show ?thesis by (simp add: scan_metadata_def Let_def) (simp add: demo_boot_def)
qed

lemma demo_recovery: "boot_main demo_env demo_boot False True = Recovery demo_boot"
  by (simp add: boot_main_def demo_scan Let_def) (simp add: demo_boot_def)

lemma install_demo_fields:
  "rd32 demo_header 0 = PRODUCT_ID" "demo_header ! 4 = 1" "demo_header ! 5 = 0" "rd16 demo_header 6 = TARGET_DEVICE_ID"
  "rd32 demo_header 8 = 8" "rd32 demo_header 12 = 1" "drop 16 demo_header = sha256 demo_image" "length demo_header = 48"
  "rd32 demo_image 0 = 0x20005000" "rd32 demo_image 4 = 0x08002001" "length demo_image = 8"
  unfolding demo_header_def demo_image_def
  using rd32_at[of "[]" 0 PRODUCT_ID] rd16_at[of "wr32 PRODUCT_ID @ [1, 0]" 6 TARGET_DEVICE_ID]
    rd32_at[of "wr32 PRODUCT_ID @ [1, 0] @ wr16 TARGET_DEVICE_ID" 8 8]
    rd32_at[of "wr32 PRODUCT_ID @ [1, 0] @ wr16 TARGET_DEVICE_ID @ wr32 8" 12 1]
    rd32_at[of "[]" 0 "0x20005000" "wr32 0x08002001"] rd32_at[of "wr32 0x20005000" 4 "0x08002001" "[]"]
  by (simp_all add: nth_append)

lemma demo_vouched: "image_vouched demo_env demo_header demo_tag demo_image"
  by (simp add: image_vouched_def install_demo_fields demo_tag_def header_structural_valid_def header_target_valid_def boot_device_id_def
      vector_values_valid_def demo_env_def Let_def)

lemma demo_chunks: "chunks_ok 0 [demo_image]"
  by (simp add: chunk_ok_def install_demo_fields)

definition demo_sent :: boot where
  "demo_sent = boot_run demo_env demo_boot (transfer_events 1 demo_header demo_tag [demo_image])"

lemma demo_transfer: "image_so_far demo_env demo_header demo_sent demo_image" "usb_idle demo_sent"
  using transfer_run[OF demo_recovery demo_works, of 1 demo_header demo_tag "[demo_image]"] demo_vouched demo_chunks demo_scan
  by (simp_all add: demo_sent_def install_demo_fields demo_boot_def fresh_ctx_def)

lemma demo_handoff: "boot_main demo_env (boot_run demo_env demo_sent [request 1 [6]]) False True = Handoff 0x20005000 0x08002001"
  using end_run[OF demo_works _ demo_transfer demo_vouched, of 1 True] by (simp add: install_demo_fields)

lemma demo_packets: "packets_ok (transfer_events 1 demo_header demo_tag [demo_image])"
  by (auto simp: packets_ok_def transfer_events_def request_def data_body_def install_demo_fields demo_tag_def packet_length)

section \<open>Properties\<close>

text \<open>
  C4: A host that follows the protocol installs its image: with a flash controller that works
  and a configured device in the update mode, an authentic image for this device whose version
  the floor admits, sent as BEGIN, AUTHORIZE, DATA packets cut in any way the protocol allows,
  and END, is in the flash afterwards, and the next boot starts it.
\<close>
theorem valid_update_is_installed:
  assumes "boot_main env b0 u c = Recovery b" "flash_works (be_flash env)" "rid \<noteq> 0"
    and "b_usb_configuration b = 1" "\<not> b_usb_tx_active b" "length (sh_buffer (b_stream_sha b)) = 64"
    and "image_vouched env hdr tag (concat chunks)" "chunks_ok 0 chunks"
    and "if b_committed_version (scan_metadata env b) \<noteq> 0
      then b_version_floor (scan_metadata env b) < rd32 hdr 12 else b_version_floor (scan_metadata env b) \<le> rd32 hdr 12"
  shows "let b' = boot_run env b (transfer_events rid hdr tag chunks @ [request rid [6]]) in
    flash_region (b_mem b') APP_BASE (length (concat chunks)) = concat chunks
    \<and> boot_main env b' False k = Handoff (rd32 (concat chunks) 0) (rd32 (concat chunks) 4)
    \<and> b_version_floor (scan_metadata env b') = rd32 hdr 12"
  using end_run[OF assms(2,3) transfer_run[OF assms(1-9)] assms(7)] unfolding run_append Let_def by blast

theorem valid_update_is_installed_witness:
  "\<exists>b'. boot_main demo_env b' False True = Handoff 0x20005000 0x08002001
    \<and> b' = boot_run demo_env demo_boot (transfer_events 1 demo_header demo_tag [demo_image] @ [request 1 [6]])"
  using valid_update_is_installed[OF demo_recovery demo_works, of 1 demo_header demo_tag "[demo_image]" True] demo_vouched
    demo_chunks demo_scan
  by (simp add: install_demo_fields demo_boot_def fresh_ctx_def Let_def)

text \<open>
  The version floor never decreases and nothing else is overwritten: from a boot into the
  update mode on, whatever packets arrive, wherever power is lost in between and whatever the
  flash controller does, the next scan finds a version floor at least as high as the first
  boot did, and no byte outside the application and metadata pages has changed.
\<close>
theorem version_floor_never_decreases:
  assumes "boot_main env b0 u c = Recovery b" "packets_ok es"
  shows "b_version_floor (scan_metadata env b0) \<le> b_version_floor (scan_metadata env (boot_run env b es))
    \<and> (\<forall>a. a < APP_BASE \<or> META_B + META_PAGE_BYTES \<le> a \<longrightarrow> b_mem (boot_run env b es) a = b_mem b0 a)"
proof -
  have i: "boot_inv env b" "b_mem b = b_mem b0" using recovery_inv[OF assms(1)] by simp_all
  have "\<forall>a. a < APP_BASE \<or> META_B + META_PAGE_BYTES \<le> a \<longrightarrow> a \<notin> owned_flash" by (auto simp: owned_flash_def)
  then show ?thesis using run_safe[OF i(1) assms(2)] i(2) by (simp add: scan_floor(1) safe_step_def)
qed

theorem version_floor_never_decreases_witness:
  "b_version_floor (scan_metadata demo_env demo_boot) \<le> b_version_floor (scan_metadata demo_env demo_sent)
    \<and> b_mem demo_sent 0 = 0xFF"
  using version_floor_never_decreases[OF demo_recovery demo_packets] unfolding demo_sent_def[symmetric]
  by (simp add: demo_boot_def word_less_nat_alt)

text \<open>
  C1: Only an authentic image is started: the bootloader hands over only without an update
  request, and only when a committed metadata record carries the keyed hash of its header, the
  header names this product and device and a valid length, the digest in it is the SHA-256 of
  the image in the application flash, and the stack pointer and reset vector taken are the
  image's own and lie in the RAM and in the image.
\<close>
theorem only_authentic_image_is_started:
  assumes "boot_main env b u c = Handoff msp reset"
  shows "\<not> u \<and> (\<exists>s \<in> {META_A, META_B}. let h = flash_region (b_mem b) s 48; len = unat (rd32 h 8);
      image = flash_region (b_mem b) APP_BASE len in
    read_u16 (b_mem b) (s + META_MARKER_OFFSET) = META_MARKER_COMMITTED
    \<and> image_vouched env h (flash_region (b_mem b) (s + 48) 32) image
    \<and> msp = rd32 image 0 \<and> reset = rd32 image 4)"
  using assms by (rule handoff_authentic)

theorem only_authentic_image_is_started_witness:
  "\<exists>b. boot_main demo_env b False True = Handoff 0x20005000 0x08002001
    \<and> (\<exists>s \<in> {META_A, META_B}. read_u16 (b_mem b) (s + META_MARKER_OFFSET) = META_MARKER_COMMITTED)"
  using only_authentic_image_is_started[OF demo_handoff] demo_handoff unfolding Let_def by blast

text \<open>
  C5: An update that is reported complete is the one that runs: in any state a run can reach,
  when END is answered \<open>OK\<close> the next boot without an update request starts the image just
  received, and its version, never below the old floor, is the new floor.
\<close>
theorem completed_update_boots:
  assumes "boot_main env b0 u c = Recovery b" "packets_ok es"
    and "handle_end env (boot_run env b es) n = (ST_OK, b')"
  shows "let h = b_staged_header (boot_run env b es); image = flash_region (b_mem b') APP_BASE (unat (rd32 h 8)) in
    image_vouched env h (b_staged_tag (boot_run env b es)) image
    \<and> boot_main env b' False k = Handoff (rd32 image 0) (rd32 image 4)
    \<and> b_version_floor (scan_metadata env b0) \<le> rd32 h 12 \<and> b_version_floor (scan_metadata env b') = rd32 h 12"
proof -
  have i: "boot_inv env b" "b_mem b = b_mem b0" using recovery_inv[OF assms(1)] by simp_all
  have r: "boot_inv env (boot_run env b es)" "floor_version env (b_mem b0) \<le> floor_version env (b_mem (boot_run env b es))"
    using run_safe[OF i(1) assms(2)] i(2) by (simp_all add: safe_step_def)
  show ?thesis using end_boots[OF r(1) assms(3), of k] r(2) unfolding Let_def scan_floor(1) by (meson order_trans)
qed

theorem completed_update_boots_witness:
  "\<exists>b b'. handle_end demo_env b 1 = (ST_OK, b') \<and> boot_main demo_env b' False True = Handoff 0x20005000 0x08002001"
proof -
  obtain b' where e: "handle_end demo_env demo_sent 1 = (ST_OK, b')" "flash_region (b_mem b') APP_BASE 8 = demo_image"
    using end_accepted[OF demo_works demo_transfer(1) demo_vouched] by (auto simp: install_demo_fields)
  have h: "b_staged_header demo_sent = demo_header" using demo_transfer(1) by (simp add: image_so_far_def)
  have "boot_main demo_env b' False True = Handoff 0x20005000 0x08002001"
    using completed_update_boots[OF demo_recovery demo_packets e(1)[unfolded demo_sent_def], of True] e(2)
    by (simp add: demo_sent_def[symmetric] h install_demo_fields Let_def)
  then show ?thesis using e(1) by blast
qed

end
