(* ===== verification/Mono_Fb.thy ===== *)
theory Mono_Fb
  imports Fw_Prelude
begin

unbundle bit_operations_syntax

text \<open>
  The monochrome framebuffer with its dirty regions (\<open>src/src/gfx/mono_fb.c\<close>). A byte holds
  eight pixels of a column, the lowest bit on top; a page is a row of such bytes. Coordinates
  of pixels are integers (\<open>int32_t\<close> in the code, whose sums do not overflow), indices of
  pages and columns natural numbers; a null framebuffer, which every function refuses at once,
  is not modelled, null storage is.
\<close>

section \<open>The code\<close>

abbreviation (input) MONO_FB_MAX_PAGES :: nat where "MONO_FB_MAX_PAGES \<equiv> 8"
abbreviation (input) MONO_FB_SPAN_CLEAN :: u16 where "MONO_FB_SPAN_CLEAN \<equiv> 0xFFFF"

record mono_fb =
  fb_data :: "bytes option"
  fb_width :: u32
  fb_height :: u32
  fb_dirty_pages :: u8
  fb_dirty_min_x :: "u16 list"
  fb_dirty_max_x :: "u16 list"

definition mono_fb_page_count :: "mono_fb \<Rightarrow> nat" where
  "mono_fb_page_count fb = unat ((fb_height fb + 7) div 8)"

definition mono_fb_valid :: "mono_fb \<Rightarrow> bool" where
  "mono_fb_valid fb \<longleftrightarrow> fb_data fb \<noteq> None \<and> fb_width fb \<noteq> 0 \<and> fb_height fb \<noteq> 0 \<and> fb_width fb \<le> 0xFFFF
     \<and> mono_fb_page_count fb \<le> MONO_FB_MAX_PAGES"

text \<open>\<open>1u << page\<close> as a byte.\<close>

definition page_bit :: "nat \<Rightarrow> u8" where
  "page_bit page = push_bit page 1"

definition mono_fb_reset_span :: "mono_fb \<Rightarrow> nat \<Rightarrow> mono_fb" where
  "mono_fb_reset_span fb page =
     (if page \<ge> MONO_FB_MAX_PAGES then fb
      else fb\<lparr>fb_dirty_min_x := (fb_dirty_min_x fb)[page := MONO_FB_SPAN_CLEAN],
              fb_dirty_max_x := (fb_dirty_max_x fb)[page := 0]\<rparr>)"

definition mono_fb_mark_page_x :: "mono_fb \<Rightarrow> nat \<Rightarrow> nat \<Rightarrow> mono_fb" where
  "mono_fb_mark_page_x fb page x =
     (if page \<ge> MONO_FB_MAX_PAGES \<or> x \<ge> unat (fb_width fb) \<or> x > 0xFFFF then fb
      else if fb_dirty_pages fb AND page_bit page = 0
      then fb\<lparr>fb_dirty_min_x := (fb_dirty_min_x fb)[page := of_nat x],
              fb_dirty_max_x := (fb_dirty_max_x fb)[page := of_nat x],
              fb_dirty_pages := fb_dirty_pages fb OR page_bit page\<rparr>
      else let fb1 = (if x < unat (fb_dirty_min_x fb ! page)
                      then fb\<lparr>fb_dirty_min_x := (fb_dirty_min_x fb)[page := of_nat x]\<rparr> else fb)
        in if x > unat (fb_dirty_max_x fb1 ! page)
           then fb1\<lparr>fb_dirty_max_x := (fb_dirty_max_x fb1)[page := of_nat x]\<rparr> else fb1)"

definition mono_fb_init :: "mono_fb \<Rightarrow> bytes option \<Rightarrow> u32 \<Rightarrow> u32 \<Rightarrow> mono_fb" where
  "mono_fb_init fb storage width height =
     foldl mono_fb_reset_span (fb\<lparr>fb_data := storage, fb_width := width, fb_height := height, fb_dirty_pages := 0\<rparr>)
       [0..<MONO_FB_MAX_PAGES]"

definition mark_dirty_page :: "nat \<Rightarrow> mono_fb \<Rightarrow> nat \<Rightarrow> mono_fb" where
  "mark_dirty_page pages fb page =
     (if page < pages
      then fb\<lparr>fb_dirty_min_x := (fb_dirty_min_x fb)[page := 0],
              fb_dirty_max_x := (fb_dirty_max_x fb)[page := ucast (fb_width fb - 1)]\<rparr>
      else mono_fb_reset_span fb page)"

definition mono_fb_mark_all_dirty :: "mono_fb \<Rightarrow> mono_fb" where
  "mono_fb_mark_all_dirty fb =
     (if \<not> mono_fb_valid fb then fb
      else let pages = mono_fb_page_count fb;
               fb1 = fb\<lparr>fb_dirty_pages := (if pages \<ge> MONO_FB_MAX_PAGES then 0xFF else if pages = 0 then 0
                         else page_bit pages - 1)\<rparr>
        in foldl (mark_dirty_page pages) fb1 [0..<MONO_FB_MAX_PAGES])"

definition mono_fb_dirty_span :: "mono_fb \<Rightarrow> nat \<Rightarrow> (nat \<times> nat) option" where
  "mono_fb_dirty_span fb page =
     (if \<not> mono_fb_valid fb \<or> page \<ge> mono_fb_page_count fb \<or> page \<ge> MONO_FB_MAX_PAGES then None
      else if fb_dirty_pages fb AND page_bit page = 0 \<or> fb_dirty_min_x fb ! page = MONO_FB_SPAN_CLEAN
           \<or> fb_dirty_min_x fb ! page > fb_dirty_max_x fb ! page
           \<or> unat (fb_dirty_max_x fb ! page) \<ge> unat (fb_width fb) then None
      else Some (unat (fb_dirty_min_x fb ! page), unat (fb_dirty_max_x fb ! page)))"

definition clear_dirty_page :: "u8 \<Rightarrow> mono_fb \<Rightarrow> nat \<Rightarrow> mono_fb" where
  "clear_dirty_page m fb page = (if m AND page_bit page \<noteq> 0 then mono_fb_reset_span fb page else fb)"

definition mono_fb_clear_dirty :: "mono_fb \<Rightarrow> u8 \<Rightarrow> mono_fb" where
  "mono_fb_clear_dirty fb m =
     foldl (clear_dirty_page m) (fb\<lparr>fb_dirty_pages := fb_dirty_pages fb AND NOT m\<rparr>) [0..<MONO_FB_MAX_PAGES]"

definition mono_fb_write_masked_byte :: "mono_fb \<Rightarrow> nat \<Rightarrow> nat \<Rightarrow> u8 \<Rightarrow> u8 \<Rightarrow> bool \<times> mono_fb" where
  "mono_fb_write_masked_byte fb page x v m =
     (if \<not> mono_fb_valid fb \<or> page \<ge> mono_fb_page_count fb \<or> page \<ge> MONO_FB_MAX_PAGES
         \<or> x \<ge> unat (fb_width fb) \<or> m = 0 then (False, fb)
      else let data = the (fb_data fb); index = page * unat (fb_width fb) + x; old = data ! index;
               new = (old AND NOT m) OR (v AND m)
        in if new = old then (False, fb)
           else (True, mono_fb_mark_page_x (fb\<lparr>fb_data := Some (data[index := new])\<rparr>) page x))"

definition clear_byte :: "mono_fb \<Rightarrow> nat \<times> nat \<Rightarrow> mono_fb" where
  "clear_byte fb px = snd (mono_fb_write_masked_byte fb (fst px) (snd px) 0 0xFF)"

definition mono_fb_clear :: "mono_fb \<Rightarrow> mono_fb" where
  "mono_fb_clear fb =
     (if \<not> mono_fb_valid fb then fb
      else foldl clear_byte fb (List.product [0..<mono_fb_page_count fb] [0..<unat (fb_width fb)]))"

definition mono_fb_set_pixel :: "mono_fb \<Rightarrow> int \<Rightarrow> int \<Rightarrow> bool \<Rightarrow> mono_fb" where
  "mono_fb_set_pixel fb x y v =
     (if \<not> mono_fb_valid fb then fb
      else if x < 0 \<or> y < 0 then fb
      else if x \<ge> uint (fb_width fb) \<or> y \<ge> uint (fb_height fb) then fb
      else let page = nat y div 8; m = page_bit (nat y mod 8)
        in snd (mono_fb_write_masked_byte fb page (nat x) (if v then m else 0) m))"

definition mono_fb_hline :: "mono_fb \<Rightarrow> int \<Rightarrow> int \<Rightarrow> int \<Rightarrow> bool \<Rightarrow> mono_fb" where
  "mono_fb_hline fb x y width v = (if width \<le> 0 then fb
     else foldl (\<lambda>fb i. mono_fb_set_pixel fb (x + int i) y v) fb [0..<nat width])"

definition mono_fb_vline :: "mono_fb \<Rightarrow> int \<Rightarrow> int \<Rightarrow> int \<Rightarrow> bool \<Rightarrow> mono_fb" where
  "mono_fb_vline fb x y height v = (if height \<le> 0 then fb
     else foldl (\<lambda>fb i. mono_fb_set_pixel fb x (y + int i) v) fb [0..<nat height])"

definition mono_fb_rect :: "mono_fb \<Rightarrow> int \<Rightarrow> int \<Rightarrow> int \<Rightarrow> int \<Rightarrow> bool \<Rightarrow> mono_fb" where
  "mono_fb_rect fb x y width height v =
     (if width \<le> 0 \<or> height \<le> 0 then fb
      else let a = mono_fb_hline fb x y width v;
               b = mono_fb_hline a x (y + height - 1) width v;
               d = mono_fb_vline b x y height v
        in mono_fb_vline d (x + width - 1) y height v)"

section \<open>The well-formed framebuffer\<close>

text \<open>The storage has the size of the screen; a dirty page has a span within the screen.\<close>

definition span_ok :: "mono_fb \<Rightarrow> nat \<Rightarrow> bool" where
  "span_ok fb page \<longleftrightarrow> (if fb_dirty_pages fb AND page_bit page = 0
      then fb_dirty_min_x fb ! page = MONO_FB_SPAN_CLEAN \<and> fb_dirty_max_x fb ! page = 0
      else page < mono_fb_page_count fb \<and> fb_dirty_min_x fb ! page \<le> fb_dirty_max_x fb ! page
        \<and> unat (fb_dirty_max_x fb ! page) < unat (fb_width fb))"

definition fb_ok :: "mono_fb \<Rightarrow> bool" where
  "fb_ok fb \<longleftrightarrow> mono_fb_valid fb \<and> fb_width fb < 0xFFFF
     \<and> length (the (fb_data fb)) = mono_fb_page_count fb * unat (fb_width fb)
     \<and> length (fb_dirty_min_x fb) = 8 \<and> length (fb_dirty_max_x fb) = 8 \<and> (\<forall>page < 8. span_ok fb page)"

definition fb_byte :: "mono_fb \<Rightarrow> nat \<Rightarrow> nat \<Rightarrow> u8" where
  "fb_byte fb page x = the (fb_data fb) ! (page * unat (fb_width fb) + x)"

text \<open>The columns of a page that the next presentation sends.\<close>

definition covered :: "mono_fb \<Rightarrow> nat \<Rightarrow> nat \<Rightarrow> bool" where
  "covered fb page x \<longleftrightarrow> fb_dirty_pages fb AND page_bit page \<noteq> 0
     \<and> unat (fb_dirty_min_x fb ! page) \<le> x \<and> x \<le> unat (fb_dirty_max_x fb ! page)"

text \<open>What a drawing operation may do: change bytes that are covered afterwards, and cover more.\<close>

definition drawn :: "mono_fb \<Rightarrow> mono_fb \<Rightarrow> bool" where
  "drawn fb fb' \<longleftrightarrow> fb_ok fb' \<and> fb_width fb' = fb_width fb \<and> fb_height fb' = fb_height fb
     \<and> (\<forall>page x. covered fb page x \<longrightarrow> covered fb' page x)
     \<and> (\<forall>page < mono_fb_page_count fb. \<forall>x < unat (fb_width fb). fb_byte fb' page x \<noteq> fb_byte fb page x \<longrightarrow> covered fb' page x)"

lemma drawn_refl [simp]: "fb_ok fb \<Longrightarrow> drawn fb fb"
  by (simp add: drawn_def)

lemma drawn_trans:
  assumes ab: "drawn a b" and bd: "drawn b d"
  shows "drawn a d"
proof -
  have f: "fb_width b = fb_width a" "fb_height b = fb_height a" "fb_width d = fb_width b" "fb_height d = fb_height b"
    using ab bd by (simp_all add: drawn_def)
  have pc: "mono_fb_page_count b = mono_fb_page_count a" using f by (simp add: mono_fb_page_count_def)
  have mono: "covered b q y \<Longrightarrow> covered d q y" for q y using bd by (simp add: drawn_def)
  have bdf: "q < mono_fb_page_count b \<Longrightarrow> y < unat (fb_width b) \<Longrightarrow> fb_byte d q y \<noteq> fb_byte b q y \<Longrightarrow> covered d q y" for q y
    using bd by (simp add: drawn_def)
  have abf: "q < mono_fb_page_count a \<Longrightarrow> y < unat (fb_width a) \<Longrightarrow> fb_byte b q y \<noteq> fb_byte a q y \<Longrightarrow> covered b q y" for q y
    using ab by (simp add: drawn_def)
  have "covered d q y" if "q < mono_fb_page_count a" "y < unat (fb_width a)" "fb_byte d q y \<noteq> fb_byte a q y" for q y
  proof (cases "fb_byte b q y = fb_byte a q y")
    case True
    then show ?thesis using bdf[of q y] that f(1) pc by simp
  next
    case False
    then show ?thesis using abf[of q y] that mono by simp
  qed
  moreover have "covered d q y" if "covered a q y" for q y
  proof -
    have "covered b q y" using ab that by (simp add: drawn_def)
    then show ?thesis by (rule mono)
  qed
  moreover have "fb_ok d" using bd by (simp add: drawn_def)
  moreover have "fb_width d = fb_width a" "fb_height d = fb_height a" using f by simp_all
  ultimately show ?thesis unfolding drawn_def by blast
qed

lemma drawn_foldl:
  assumes "\<And>fb e. fb_ok fb \<Longrightarrow> drawn fb (f fb e)"
  shows "fb_ok fb \<Longrightarrow> drawn fb (foldl f fb es)"
proof (induction es arbitrary: fb)
  case (Cons e es)
  have "drawn fb (f fb e)" using assms Cons.prems by blast
  moreover from this have "drawn (f fb e) (foldl f (f fb e) es)" by (intro Cons.IH) (simp add: drawn_def)
  ultimately show ?case using drawn_trans by simp
qed simp

lemma page_bit_bits: "bit (page_bit p) n \<longleftrightarrow> n = p \<and> p < 8"
  by (auto simp: page_bit_def bit_simps)

lemma page_bit_0: "page_bit p = 0 \<longleftrightarrow> 8 \<le> p"
proof
  assume "page_bit p = 0"
  then have "\<not> bit (page_bit p) p" by simp
  then show "8 \<le> p" by (simp add: page_bit_bits)
next
  assume "8 \<le> p"
  then show "page_bit p = 0" by (intro bit_word_eqI) (simp add: page_bit_bits)
qed

lemma and_page_bit: "p < 8 \<Longrightarrow> (m AND page_bit p = 0) \<longleftrightarrow> \<not> bit m p"
proof -
  assume p: "p < 8"
  have "m AND page_bit p = (if bit m p then page_bit p else 0)"
    by (rule bit_word_eqI) (use p in \<open>auto simp: bit_and_iff page_bit_bits\<close>)
  then show ?thesis using p by (simp add: page_bit_0)
qed

lemma fb_okD:
  assumes "fb_ok fb"
  shows "mono_fb_valid fb" "mono_fb_page_count fb \<le> 8" "fb_width fb < 0xFFFF" "0 < unat (fb_width fb)" "unat (fb_width fb) < 65535"
    "length (the (fb_data fb)) = mono_fb_page_count fb * unat (fb_width fb)"
    "length (fb_dirty_min_x fb) = 8" "length (fb_dirty_max_x fb) = 8" "page < 8 \<Longrightarrow> span_ok fb page"
  using assms by (auto simp: fb_ok_def mono_fb_valid_def word_less_nat_alt unat_gt_0)

text \<open>Marking a column.\<close>

lemma mark_fields:
  "fb_width (mono_fb_mark_page_x fb page x) = fb_width fb" "fb_height (mono_fb_mark_page_x fb page x) = fb_height fb"
  "fb_data (mono_fb_mark_page_x fb page x) = fb_data fb"
  "length (fb_dirty_min_x (mono_fb_mark_page_x fb page x)) = length (fb_dirty_min_x fb)"
  "length (fb_dirty_max_x (mono_fb_mark_page_x fb page x)) = length (fb_dirty_max_x fb)"
  by (simp_all add: mono_fb_mark_page_x_def Let_def)

lemma u16_of_nat_unat: "n < 65536 \<Longrightarrow> unat (of_nat n :: u16) = n"
  by (simp add: unat_of_nat)

text \<open>Marking widens the span of its page to the column and leaves the others.\<close>

lemma mark_span:
  fixes fb :: mono_fb and page x :: nat
  assumes ok: "fb_ok fb" and p: "page < 8" "x < unat (fb_width fb)"
  defines "fb' \<equiv> mono_fb_mark_page_x fb page x"
  shows "bit (fb_dirty_pages fb') q \<longleftrightarrow> bit (fb_dirty_pages fb) q \<or> q = page"
    "q \<noteq> page \<Longrightarrow> fb_dirty_min_x fb' ! q = fb_dirty_min_x fb ! q \<and> fb_dirty_max_x fb' ! q = fb_dirty_max_x fb ! q"
    "unat (fb_dirty_min_x fb' ! page) = (if bit (fb_dirty_pages fb) page then min x (unat (fb_dirty_min_x fb ! page)) else x)"
    "unat (fb_dirty_max_x fb' ! page) = (if bit (fb_dirty_pages fb) page then max x (unat (fb_dirty_max_x fb ! page)) else x)"
proof -
  note o = fb_okD[OF ok]
  have g: "\<not> (page \<ge> 8 \<or> x \<ge> unat (fb_width fb) \<or> x > 0xFFFF)" using p o(5) by simp
  have u: "unat (of_nat x :: u16) = x" using p(2) o(5) by (simp add: u16_of_nat_unat)
  show "bit (fb_dirty_pages fb') q \<longleftrightarrow> bit (fb_dirty_pages fb) q \<or> q = page"
    using g p(1) by (auto simp: fb'_def mono_fb_mark_page_x_def and_page_bit bit_or_iff page_bit_bits Let_def)
  show "q \<noteq> page \<Longrightarrow> fb_dirty_min_x fb' ! q = fb_dirty_min_x fb ! q \<and> fb_dirty_max_x fb' ! q = fb_dirty_max_x fb ! q"
    by (simp add: fb'_def mono_fb_mark_page_x_def Let_def)
  show "unat (fb_dirty_min_x fb' ! page) = (if bit (fb_dirty_pages fb) page then min x (unat (fb_dirty_min_x fb ! page)) else x)"
    "unat (fb_dirty_max_x fb' ! page) = (if bit (fb_dirty_pages fb) page then max x (unat (fb_dirty_max_x fb ! page)) else x)"
    using g p(1) o(7,8) u by (auto simp: fb'_def mono_fb_mark_page_x_def and_page_bit Let_def)
qed

lemma mark_drawn:
  assumes ok: "fb_ok fb" and p: "page < mono_fb_page_count fb" "x < unat (fb_width fb)"
    and d: "length data = length (the (fb_data fb))" "\<And>q y. q < mono_fb_page_count fb \<Longrightarrow> y < unat (fb_width fb) \<Longrightarrow>
      data ! (q * unat (fb_width fb) + y) \<noteq> fb_byte fb q y \<Longrightarrow> q = page \<and> y = x"
  shows "drawn fb (mono_fb_mark_page_x (fb\<lparr>fb_data := Some data\<rparr>) page x)"
proof -
  let ?fb1 = "fb\<lparr>fb_data := Some data\<rparr>"
  define fb' where "fb' = mono_fb_mark_page_x ?fb1 page x"
  note o = fb_okD[OF ok]
  have p8: "page < 8" using p(1) o(2) by simp
  have "mono_fb_page_count ?fb1 = mono_fb_page_count fb" by (simp add: mono_fb_page_count_def)
  moreover from this have "span_ok ?fb1 q = span_ok fb q" for q by (simp add: span_ok_def)
  ultimately have ok1: "fb_ok ?fb1" using ok d(1) by (simp add: fb_ok_def mono_fb_valid_def)
  have p1: "x < unat (fb_width ?fb1)" using p(2) by simp
  note m = mark_span[OF ok1 p8 p1, folded fb'_def, simplified]
  note f = mark_fields[of ?fb1 page x, folded fb'_def, simplified]
  have pc: "mono_fb_page_count fb' = mono_fb_page_count fb" using f(2) by (simp add: mono_fb_page_count_def)
  have sp: "span_ok fb' q" if "q < 8" for q
  proof (cases "q = page")
    case True
    have "span_ok fb page" using o(9)[OF p8] .
    then show ?thesis using m p f pc p8 unfolding span_ok_def True
      by (auto simp: and_page_bit word_le_nat_alt)
  next
    case False
    then show ?thesis using o(9)[OF that] m(1)[of q] m(2)[of q] f pc that unfolding span_ok_def by (simp add: and_page_bit)
  qed
  have ok': "fb_ok fb'" using o f pc sp d(1) by (simp add: fb_ok_def mono_fb_valid_def)
  moreover have "covered fb' q y" if "covered fb q y" for q y
  proof -
    have "page_bit q \<noteq> 0" using that by (auto simp: covered_def)
    then have q: "q < 8" by (simp add: page_bit_0)
    then show ?thesis using that m(1)[of q] m(2)[of q] m(3,4) by (cases "q = page") (auto simp: covered_def and_page_bit)
  qed
  moreover have "covered fb' q y" if "q < mono_fb_page_count fb" "y < unat (fb_width fb)" "fb_byte fb' q y \<noteq> fb_byte fb q y" for q y
  proof -
    have "q = page \<and> y = x" using d(2)[OF that(1,2)] that(3) f by (simp add: fb_byte_def)
    then show ?thesis using m(1)[of page] m(3,4) p8 by (auto simp: covered_def and_page_bit)
  qed
  ultimately show ?thesis using f by (simp add: drawn_def fb'_def)
qed

text \<open>Every drawing operation.\<close>

lemma byte_index:
  fixes w :: nat
  assumes "y < w" "x < w" "q * w + y = p * w + x"
  shows "q = p \<and> y = x"
proof -
  have "(q * w + y) div w = q" "(p * w + x) div w = p" using assms(1,2) by simp_all
  then show ?thesis using assms(3) by auto
qed

lemma index_bound:
  fixes w :: nat
  assumes "p < n" "x < w"
  shows "p * w + x < n * w"
proof -
  have "p * w + x < (p + 1) * w" using assms(2) by simp
  also have "\<dots> \<le> n * w" using assms(1) by (intro mult_le_mono1) simp
  finally show ?thesis .
qed

lemma write_drawn: "fb_ok fb \<Longrightarrow> drawn fb (snd (mono_fb_write_masked_byte fb page x v m))"
proof -
  assume ok: "fb_ok fb"
  let ?w = "unat (fb_width fb)"
  let ?new = "(the (fb_data fb) ! (page * ?w + x) AND NOT m) OR (v AND m)"
  show ?thesis
  proof (cases "page < mono_fb_page_count fb \<and> x < ?w")
    case True
    have "drawn fb (mono_fb_mark_page_x (fb\<lparr>fb_data := Some ((the (fb_data fb))[page * ?w + x := ?new])\<rparr>) page x)"
    proof (rule mark_drawn[OF ok])
      fix q y assume a: "q < mono_fb_page_count fb" "y < ?w" "(the (fb_data fb))[page * ?w + x := ?new] ! (q * ?w + y) \<noteq> fb_byte fb q y"
      then have "q * ?w + y = page * ?w + x" unfolding fb_byte_def by (metis nth_list_update_neq)
      then show "q = page \<and> y = x" using byte_index[of y ?w x q page] a(2) True by simp
    qed (use True in simp_all)
    then show ?thesis using ok by (simp add: mono_fb_write_masked_byte_def Let_def)
  next
    case False
    then show ?thesis using ok by (auto simp: mono_fb_write_masked_byte_def)
  qed
qed

lemma set_pixel_drawn: "fb_ok fb \<Longrightarrow> drawn fb (mono_fb_set_pixel fb x y v)"
  by (simp add: mono_fb_set_pixel_def write_drawn Let_def)

lemma lines_drawn:
  "fb_ok fb \<Longrightarrow> drawn fb (mono_fb_hline fb x y n v)" "fb_ok fb \<Longrightarrow> drawn fb (mono_fb_vline fb x y n v)"
  by (simp_all add: mono_fb_hline_def mono_fb_vline_def drawn_foldl set_pixel_drawn)

lemma clear_drawn: "fb_ok fb \<Longrightarrow> drawn fb (mono_fb_clear fb)"
  by (simp add: mono_fb_clear_def clear_byte_def drawn_foldl write_drawn)

lemma rect_drawn:
  assumes ok: "fb_ok fb"
  shows "drawn fb (mono_fb_rect fb x y w h v)"
proof -
  define a where "a = mono_fb_hline fb x y w v"
  define b where "b = mono_fb_hline a x (y + h - 1) w v"
  define d where "d = mono_fb_vline b x y h v"
  have 1: "drawn fb a" unfolding a_def by (rule lines_drawn(1)[OF ok])
  have 2: "drawn a b" unfolding b_def by (rule lines_drawn(1)) (use 1 in \<open>simp add: drawn_def\<close>)
  have 3: "drawn b d" unfolding d_def by (rule lines_drawn(2)) (use 2 in \<open>simp add: drawn_def\<close>)
  have 4: "drawn d (mono_fb_vline d (x + w - 1) y h v)" by (rule lines_drawn(2)) (use 3 in \<open>simp add: drawn_def\<close>)
  show ?thesis
    using drawn_trans[OF drawn_trans[OF drawn_trans[OF 1 2] 3] 4] ok
    unfolding mono_fb_rect_def a_def[symmetric] Let_def b_def[symmetric] d_def[symmetric] by simp
qed

section \<open>Spans and their reset\<close>

lemma dirty_span_ok:
  assumes ok: "fb_ok fb" and p: "page < mono_fb_page_count fb"
  shows "mono_fb_dirty_span fb page = (if bit (fb_dirty_pages fb) page
     then Some (unat (fb_dirty_min_x fb ! page), unat (fb_dirty_max_x fb ! page)) else None)"
    "bit (fb_dirty_pages fb) page \<Longrightarrow> fb_dirty_min_x fb ! page \<le> fb_dirty_max_x fb ! page
      \<and> unat (fb_dirty_max_x fb ! page) < unat (fb_width fb)"
    "covered fb page x \<longleftrightarrow> bit (fb_dirty_pages fb) page
      \<and> unat (fb_dirty_min_x fb ! page) \<le> x \<and> x \<le> unat (fb_dirty_max_x fb ! page)"
proof -
  note o = fb_okD[OF ok]
  have p8: "page < 8" using p o(2) by simp
  have s: "span_ok fb page" using o(9)[OF p8] .
  show b: "bit (fb_dirty_pages fb) page \<Longrightarrow> fb_dirty_min_x fb ! page \<le> fb_dirty_max_x fb ! page
      \<and> unat (fb_dirty_max_x fb ! page) < unat (fb_width fb)"
    using s p8 by (simp add: span_ok_def and_page_bit)
  have "fb_dirty_min_x fb ! page \<noteq> 0xFFFF" if "bit (fb_dirty_pages fb) page"
  proof -
    have "unat (fb_dirty_min_x fb ! page) < 65535" using b[OF that] o(5) by (simp add: word_le_nat_alt)
    then show ?thesis by auto
  qed
  then show "mono_fb_dirty_span fb page = (if bit (fb_dirty_pages fb) page
     then Some (unat (fb_dirty_min_x fb ! page), unat (fb_dirty_max_x fb ! page)) else None)"
    using o(1) p p8 b by (auto simp: mono_fb_dirty_span_def and_page_bit not_le not_less)
  show "covered fb page x \<longleftrightarrow> bit (fb_dirty_pages fb) page
      \<and> unat (fb_dirty_min_x fb ! page) \<le> x \<and> x \<le> unat (fb_dirty_max_x fb ! page)"
    using p8 by (simp add: covered_def and_page_bit)
qed

lemma dirty_bits_below: "fb_ok fb \<Longrightarrow> bit (fb_dirty_pages fb) page \<Longrightarrow> page < mono_fb_page_count fb"
proof -
  assume ok: "fb_ok fb" and b: "bit (fb_dirty_pages fb) page"
  have "page < 8" using bit_imp_le_length[OF b] by simp
  then show ?thesis using fb_okD(9)[OF ok, of page] b by (simp add: span_ok_def and_page_bit)
qed

lemma reset_span_fields:
  "fb_width (mono_fb_reset_span fb p) = fb_width fb" "fb_height (mono_fb_reset_span fb p) = fb_height fb"
  "fb_data (mono_fb_reset_span fb p) = fb_data fb" "fb_dirty_pages (mono_fb_reset_span fb p) = fb_dirty_pages fb"
  "fb_dirty_min_x (mono_fb_reset_span fb p) = (if p < 8 then (fb_dirty_min_x fb)[p := 0xFFFF] else fb_dirty_min_x fb)"
  "fb_dirty_max_x (mono_fb_reset_span fb p) = (if p < 8 then (fb_dirty_max_x fb)[p := 0] else fb_dirty_max_x fb)"
  by (simp_all add: mono_fb_reset_span_def)

lemma clear_pages:
  fixes m :: u8 and n :: nat
  assumes "n \<le> 8"
  defines "g \<equiv> \<lambda>fb. foldl (clear_dirty_page m) fb [0..<n]"
  shows "fb_width (g fb) = fb_width fb \<and> fb_height (g fb) = fb_height fb \<and> fb_data (g fb) = fb_data fb
    \<and> fb_dirty_pages (g fb) = fb_dirty_pages fb \<and> length (fb_dirty_min_x (g fb)) = length (fb_dirty_min_x fb)
    \<and> length (fb_dirty_max_x (g fb)) = length (fb_dirty_max_x fb)
    \<and> (length (fb_dirty_min_x fb) = 8 \<longrightarrow> length (fb_dirty_max_x fb) = 8 \<longrightarrow> (\<forall>q < 8.
        fb_dirty_min_x (g fb) ! q = (if q < n \<and> bit m q then 0xFFFF else fb_dirty_min_x fb ! q)
      \<and> fb_dirty_max_x (g fb) ! q = (if q < n \<and> bit m q then 0 else fb_dirty_max_x fb ! q)))"
  using assms(1) unfolding g_def
proof (induction n)
  case 0
  then show ?case by simp
next
  case (Suc n)
  define h where "h = foldl (clear_dirty_page m) fb [0..<n]"
  have e: "foldl (clear_dirty_page m) fb [0..<Suc n] = clear_dirty_page m h n" by (simp add: h_def)
  have n: "n < 8" using Suc.prems by simp
  note ih = Suc.IH[OF less_imp_le[OF n], folded h_def]
  show ?case unfolding e using ih n
    by (auto simp: clear_dirty_page_def reset_span_fields and_page_bit nth_list_update less_Suc_eq)
qed

text \<open>Clearing one page: its columns are no longer covered, the others stay.\<close>

lemma clear_dirty_ok:
  fixes fb :: mono_fb and page :: nat
  assumes ok: "fb_ok fb" and p: "page < 8"
  defines "fb' \<equiv> mono_fb_clear_dirty fb (page_bit page)"
  shows "fb_ok fb'" "fb_data fb' = fb_data fb" "fb_width fb' = fb_width fb" "fb_height fb' = fb_height fb"
    "covered fb' q y \<longleftrightarrow> q \<noteq> page \<and> covered fb q y" "bit (fb_dirty_pages fb') q \<longleftrightarrow> q \<noteq> page \<and> bit (fb_dirty_pages fb) q"
proof -
  note o = fb_okD[OF ok]
  note c = clear_pages[of 8 "page_bit page" "fb\<lparr>fb_dirty_pages := fb_dirty_pages fb AND NOT (page_bit page)\<rparr>",
      folded mono_fb_clear_dirty_def fb'_def, simplified, simplified o(7,8), simplified]
  show d: "fb_data fb' = fb_data fb" "fb_width fb' = fb_width fb" "fb_height fb' = fb_height fb" using c by simp_all
  have dp: "fb_dirty_pages fb' = fb_dirty_pages fb AND NOT (page_bit page)" using c by simp
  show b: "bit (fb_dirty_pages fb') q \<longleftrightarrow> q \<noteq> page \<and> bit (fb_dirty_pages fb) q" for q
    unfolding dp using p by (auto simp: bit_and_iff bit_not_iff page_bit_bits dest: bit_imp_le_length)
  have mm: "fb_dirty_min_x fb' ! q = (if q = page then 0xFFFF else fb_dirty_min_x fb ! q)"
    "fb_dirty_max_x fb' ! q = (if q = page then 0 else fb_dirty_max_x fb ! q)" if "q < 8" for q
    using c that p by (auto simp: page_bit_bits)
  have pc: "mono_fb_page_count fb' = mono_fb_page_count fb" using d by (simp add: mono_fb_page_count_def)
  have "span_ok fb' q" if "q < 8" for q
    using o(9)[OF that] b[of q] mm[OF that] d pc that by (auto simp: span_ok_def and_page_bit)
  then show "fb_ok fb'" using o c d pc by (simp add: fb_ok_def mono_fb_valid_def)
  show "covered fb' q y \<longleftrightarrow> q \<noteq> page \<and> covered fb q y"
  proof (cases "q < 8")
    case True
    then show ?thesis using b[of q] mm[OF True] by (auto simp: covered_def and_page_bit)
  next
    case False
    then have "page_bit q = 0" by (simp add: page_bit_0)
    then show ?thesis by (simp add: covered_def)
  qed
qed

text \<open>Marking everything: every column of every page is covered.\<close>

lemma mark_pages:
  fixes k n :: nat
  assumes "n \<le> 8"
  defines "g \<equiv> \<lambda>fb. foldl (mark_dirty_page k) fb [0..<n]"
  shows "fb_width (g fb) = fb_width fb \<and> fb_height (g fb) = fb_height fb \<and> fb_data (g fb) = fb_data fb
    \<and> fb_dirty_pages (g fb) = fb_dirty_pages fb \<and> length (fb_dirty_min_x (g fb)) = length (fb_dirty_min_x fb)
    \<and> length (fb_dirty_max_x (g fb)) = length (fb_dirty_max_x fb)
    \<and> (length (fb_dirty_min_x fb) = 8 \<longrightarrow> length (fb_dirty_max_x fb) = 8 \<longrightarrow> (\<forall>q < n.
        fb_dirty_min_x (g fb) ! q = (if q < k then 0 else 0xFFFF)
      \<and> fb_dirty_max_x (g fb) ! q = (if q < k then ucast (fb_width fb - 1) else 0)))"
  using assms(1) unfolding g_def
proof (induction n)
  case 0
  then show ?case by simp
next
  case (Suc n)
  define h where "h = foldl (mark_dirty_page k) fb [0..<n]"
  have e: "foldl (mark_dirty_page k) fb [0..<Suc n] = mark_dirty_page k h n" by (simp add: h_def)
  have n: "n < 8" using Suc.prems by simp
  note ih = Suc.IH[OF less_imp_le[OF n], folded h_def]
  show ?case unfolding e using ih n
    by (auto simp: mark_dirty_page_def reset_span_fields nth_list_update less_Suc_eq)
qed

lemma low_bits: "k \<le> 8 \<Longrightarrow> bit (if k \<ge> 8 then 0xFF else if k = 0 then 0 else page_bit k - 1 :: u8) q \<longleftrightarrow> q < k"
proof -
  assume k: "k \<le> 8"
  have "(if k \<ge> 8 then 0xFF else if k = 0 then 0 else page_bit k - 1 :: u8) = mask k"
  proof -
    have "k = 8 \<Longrightarrow> (mask k :: u8) = 0xFF" by (simp add: mask_eq_exp_minus_1)
    moreover have "(mask k :: u8) = page_bit k - 1" by (simp add: mask_eq_exp_minus_1 page_bit_def push_bit_eq_mult)
    ultimately show ?thesis using k by auto
  qed
  then show ?thesis using k by (auto simp: bit_mask_iff)
qed

lemma mark_all_covers:
  assumes ok: "fb_ok fb"
  shows "drawn fb (mono_fb_mark_all_dirty fb)" "fb_data (mono_fb_mark_all_dirty fb) = fb_data fb"
    "page < mono_fb_page_count fb \<Longrightarrow> x < unat (fb_width fb) \<Longrightarrow> covered (mono_fb_mark_all_dirty fb) page x"
proof -
  note o = fb_okD[OF ok]
  define fb' where "fb' = mono_fb_mark_all_dirty fb"
  let ?k = "mono_fb_page_count fb"
  note c = mark_pages[of 8 ?k "fb\<lparr>fb_dirty_pages := (if ?k \<ge> 8 then 0xFF else if ?k = 0 then 0 else page_bit ?k - 1)\<rparr>", simplified]
  have fb': "fb' = foldl (mark_dirty_page ?k) (fb\<lparr>fb_dirty_pages := (if ?k \<ge> 8 then 0xFF else if ?k = 0 then 0 else page_bit ?k - 1)\<rparr>) [0..<8]"
    using o(1) by (simp add: fb'_def mono_fb_mark_all_dirty_def Let_def)
  have d: "fb_data fb' = fb_data fb" "fb_width fb' = fb_width fb" "fb_height fb' = fb_height fb"
    "length (fb_dirty_min_x fb') = 8" "length (fb_dirty_max_x fb') = 8"
    using c o(7,8) by (simp_all add: fb')
  have b: "bit (fb_dirty_pages fb') q \<longleftrightarrow> q < ?k" for q
    using c low_bits[OF o(2), of q] by (simp add: fb')
  have w: "unat (ucast (fb_width fb - 1) :: u16) = unat (fb_width fb) - 1"
  proof -
    have "unat (fb_width fb - 1) = unat (fb_width fb) - 1" using o(4) by (simp add: unat_sub_if_size)
    then show ?thesis using o(5) by (simp add: unsigned_ucast_eq take_bit_nat_eq_self)
  qed
  have mm: "fb_dirty_min_x fb' ! q = (if q < ?k then 0 else 0xFFFF)"
    "fb_dirty_max_x fb' ! q = (if q < ?k then ucast (fb_width fb - 1) else 0)" if "q < 8" for q
    using c that o(7,8) by (simp_all add: fb')
  have pc: "mono_fb_page_count fb' = ?k" using d by (simp add: mono_fb_page_count_def)
  have "span_ok fb' q" if "q < 8" for q
    using b[of q] mm[OF that] d pc that w o(4) by (auto simp: span_ok_def and_page_bit)
  then have ok': "fb_ok fb'" using o d pc by (simp add: fb_ok_def mono_fb_valid_def)
  have cov: "covered fb' q y" if "q < ?k" "y < unat (fb_width fb)" for q y
    using that b[of q] mm[of q] o(2) w by (auto simp: covered_def and_page_bit)
  have "covered fb' q y" if "covered fb q y" for q y
  proof -
    have "page_bit q \<noteq> 0" using that by (auto simp: covered_def)
    then have q8: "q < 8" by (simp add: page_bit_0)
    then have "bit (fb_dirty_pages fb) q" using that by (simp add: covered_def and_page_bit)
    then have q: "q < ?k" using dirty_bits_below[OF ok] by blast
    then have "y < unat (fb_width fb)" using that dirty_span_ok(2,3)[OF ok q] by auto
    then show ?thesis using cov q by blast
  qed
  then show "drawn fb (mono_fb_mark_all_dirty fb)" using ok' d cov by (simp add: drawn_def fb'_def[symmetric] fb_byte_def)
  show "fb_data (mono_fb_mark_all_dirty fb) = fb_data fb" using d by (simp add: fb'_def)
  show "page < ?k \<Longrightarrow> x < unat (fb_width fb) \<Longrightarrow> covered (mono_fb_mark_all_dirty fb) page x"
    using cov by (simp add: fb'_def)
qed

end
