(* ===== verification/Text_Renderer.thy ===== *)
theory Text_Renderer
  imports Mono_Fb Ui_Layout
begin

unbundle bit_operations_syntax

text \<open>
  Text on the framebuffer (\<open>src/src/gfx/text_renderer.c\<close>) and its fonts
  (\<open>src/src/gfx/font5x7.c\<close>, \<open>font5x6.c\<close>, \<open>font3x5.c\<close>). A glyph of the first two is a list of
  columns, the lowest bit on top. The renderer has a fast path that writes whole bytes when a
  cell is aligned with a page; it is equal to the pixel by pixel path.
\<close>

section \<open>Fonts\<close>

record mono_font_metrics =
  mf_glyph_width :: nat
  mf_glyph_height :: nat
  mf_advance_x :: nat
  mf_advance_y :: nat

definition font5x7_data :: "bytes list" where
  "font5x7_data =
    [[0x3E, 0x51, 0x49, 0x45, 0x3E], [0x00, 0x42, 0x7F, 0x40, 0x00], [0x42, 0x61, 0x51, 0x49, 0x46],
     [0x21, 0x41, 0x45, 0x4B, 0x31], [0x18, 0x14, 0x12, 0x7F, 0x10], [0x27, 0x45, 0x45, 0x45, 0x39],
     [0x3C, 0x4A, 0x49, 0x49, 0x30], [0x01, 0x71, 0x09, 0x05, 0x03], [0x36, 0x49, 0x49, 0x49, 0x36],
     [0x06, 0x49, 0x49, 0x29, 0x1E], [0x7E, 0x11, 0x11, 0x11, 0x7E], [0x7F, 0x49, 0x49, 0x49, 0x36],
     [0x3E, 0x41, 0x41, 0x41, 0x22], [0x7F, 0x41, 0x41, 0x22, 0x1C], [0x7F, 0x49, 0x49, 0x49, 0x41],
     [0x7F, 0x09, 0x09, 0x09, 0x01], [0x3E, 0x41, 0x49, 0x49, 0x7A], [0x7F, 0x08, 0x08, 0x08, 0x7F],
     [0x00, 0x41, 0x7F, 0x41, 0x00], [0x20, 0x40, 0x41, 0x3F, 0x01], [0x7F, 0x08, 0x14, 0x22, 0x41],
     [0x7F, 0x40, 0x40, 0x40, 0x40], [0x7F, 0x02, 0x0C, 0x02, 0x7F], [0x7F, 0x04, 0x08, 0x10, 0x7F],
     [0x3E, 0x41, 0x41, 0x41, 0x3E], [0x7F, 0x09, 0x09, 0x09, 0x06], [0x3E, 0x41, 0x51, 0x21, 0x5E],
     [0x7F, 0x09, 0x19, 0x29, 0x46], [0x46, 0x49, 0x49, 0x49, 0x31], [0x01, 0x01, 0x7F, 0x01, 0x01],
     [0x3F, 0x40, 0x40, 0x40, 0x3F], [0x1F, 0x20, 0x40, 0x20, 0x1F], [0x3F, 0x40, 0x38, 0x40, 0x3F],
     [0x63, 0x14, 0x08, 0x14, 0x63], [0x07, 0x08, 0x70, 0x08, 0x07], [0x61, 0x51, 0x49, 0x45, 0x43],
     [0x00, 0x00, 0x00, 0x00, 0x00]]"

definition font5x6_data :: "bytes list" where
  "font5x6_data =
    [[0x1E, 0x29, 0x29, 0x25, 0x1E], [0x00, 0x22, 0x3F, 0x20, 0x00], [0x22, 0x31, 0x29, 0x29, 0x26],
     [0x11, 0x21, 0x25, 0x2B, 0x19], [0x08, 0x0C, 0x0A, 0x3F, 0x08], [0x17, 0x25, 0x25, 0x25, 0x19],
     [0x1C, 0x2A, 0x29, 0x29, 0x18], [0x01, 0x39, 0x09, 0x05, 0x03], [0x1E, 0x29, 0x29, 0x29, 0x1E],
     [0x06, 0x29, 0x29, 0x19, 0x0E], [0x3E, 0x09, 0x09, 0x09, 0x3E], [0x3F, 0x29, 0x29, 0x29, 0x1E],
     [0x1E, 0x21, 0x21, 0x21, 0x12], [0x3F, 0x21, 0x21, 0x12, 0x0C], [0x3F, 0x29, 0x29, 0x29, 0x21],
     [0x3F, 0x09, 0x09, 0x09, 0x01], [0x1E, 0x21, 0x29, 0x29, 0x3A], [0x3F, 0x08, 0x08, 0x08, 0x3F],
     [0x00, 0x21, 0x3F, 0x21, 0x00], [0x10, 0x20, 0x21, 0x1F, 0x01], [0x3F, 0x08, 0x0C, 0x12, 0x21],
     [0x3F, 0x20, 0x20, 0x20, 0x20], [0x3F, 0x02, 0x0C, 0x02, 0x3F], [0x3F, 0x04, 0x08, 0x08, 0x3F],
     [0x1E, 0x21, 0x21, 0x21, 0x1E], [0x3F, 0x09, 0x09, 0x09, 0x06], [0x1E, 0x21, 0x29, 0x11, 0x2E],
     [0x3F, 0x09, 0x09, 0x19, 0x26], [0x26, 0x29, 0x29, 0x29, 0x19], [0x01, 0x01, 0x3F, 0x01, 0x01],
     [0x1F, 0x20, 0x20, 0x20, 0x1F], [0x0F, 0x10, 0x20, 0x10, 0x0F], [0x1F, 0x20, 0x18, 0x20, 0x1F],
     [0x33, 0x0C, 0x08, 0x0C, 0x33], [0x07, 0x08, 0x38, 0x08, 0x07], [0x31, 0x29, 0x29, 0x25, 0x23],
     [0x00, 0x00, 0x00, 0x00, 0x00]]"

text \<open>The index of a character: digits, capital letters, and the blank for every other one.\<close>

definition glyph_index :: "u8 \<Rightarrow> nat" where
  "glyph_index ch = (if ch \<ge> 0x30 \<and> ch \<le> 0x39 then unat (ch - 0x30)
     else if ch \<ge> 0x41 \<and> ch \<le> 0x5A then 10 + unat (ch - 0x41) else 36)"

definition font5x7_glyph :: "u8 \<Rightarrow> bytes" where
  "font5x7_glyph ch = font5x7_data ! glyph_index ch"

definition font5x7_metrics :: mono_font_metrics where
  "font5x7_metrics = \<lparr>mf_glyph_width = 5, mf_glyph_height = 7, mf_advance_x = 6, mf_advance_y = 8\<rparr>"

definition font5x6_glyph :: "u8 \<Rightarrow> bytes" where
  "font5x6_glyph ch = font5x6_data ! glyph_index ch"

definition font5x6_metrics :: mono_font_metrics where
  "font5x6_metrics = \<lparr>mf_glyph_width = 5, mf_glyph_height = 6, mf_advance_x = 6, mf_advance_y = 7\<rparr>"

text \<open>Rows of three pixels, the highest bit on the left.\<close>

definition font3x5_glyph :: "u8 \<Rightarrow> bytes option" where
  "font3x5_glyph ch =
     (if ch = 0x30 then Some [7, 5, 5, 5, 7] else if ch = 0x31 then Some [2, 6, 2, 2, 7]
      else if ch = 0x32 then Some [7, 1, 7, 4, 7] else if ch = 0x33 then Some [7, 1, 7, 1, 7]
      else if ch = 0x34 then Some [5, 5, 7, 1, 1] else if ch = 0x35 then Some [7, 4, 7, 1, 7]
      else if ch = 0x36 then Some [7, 4, 7, 5, 7] else if ch = 0x37 then Some [7, 1, 2, 2, 2]
      else if ch = 0x38 then Some [7, 5, 7, 5, 7] else if ch = 0x39 then Some [7, 5, 7, 1, 7]
      else if ch = 0x3A then Some [0, 2, 0, 2, 0] else None)"

section \<open>The renderer\<close>

definition text_renderer_axis_contains :: "int \<Rightarrow> int \<Rightarrow> int \<Rightarrow> bool" where
  "text_renderer_axis_contains v start len =
     (if len \<le> 0 then False else if v < start then False else v - start < len)"

definition text_renderer_clip_contains :: "mono_rect \<Rightarrow> int \<Rightarrow> int \<Rightarrow> bool" where
  "text_renderer_clip_contains clip x y \<longleftrightarrow> text_renderer_axis_contains x (r_x clip) (r_width clip)
     \<and> text_renderer_axis_contains y (r_y clip) (r_height clip)"

text \<open>The inner loop: the pixels of a column of a cell.\<close>

definition draw_cell_pixel :: "mono_rect \<Rightarrow> int \<Rightarrow> int \<Rightarrow> bytes \<Rightarrow> mono_font_metrics \<Rightarrow> nat \<Rightarrow> mono_fb \<Rightarrow> nat \<Rightarrow> mono_fb" where
  "draw_cell_pixel clip x y glyph metrics column fb row =
     (let px = x + int column; py = y + int row in
      if \<not> text_renderer_clip_contains clip px py then fb
      else mono_fb_set_pixel fb px py
        (column < mf_glyph_width metrics \<and> row < mf_glyph_height metrics \<and> glyph ! column AND page_bit row \<noteq> 0))"

definition draw_cell_column :: "mono_rect \<Rightarrow> int \<Rightarrow> int \<Rightarrow> bytes \<Rightarrow> mono_font_metrics \<Rightarrow> mono_fb \<Rightarrow> nat \<Rightarrow> mono_fb" where
  "draw_cell_column clip x y glyph metrics fb column =
     foldl (draw_cell_pixel clip x y glyph metrics column) fb [0..<mf_advance_y metrics]"

definition text_renderer_draw_cell_generic :: "mono_fb \<Rightarrow> mono_rect \<Rightarrow> int \<Rightarrow> int \<Rightarrow> bytes \<Rightarrow> mono_font_metrics \<Rightarrow> mono_fb" where
  "text_renderer_draw_cell_generic fb clip x y glyph metrics =
     foldl (draw_cell_column clip x y glyph metrics) fb [0..<mf_advance_x metrics]"

definition text_renderer_draw_glyph_cell ::
    "mono_fb \<Rightarrow> mono_rect \<Rightarrow> int \<Rightarrow> int \<Rightarrow> bytes option \<Rightarrow> mono_font_metrics option \<Rightarrow> mono_fb" where
  "text_renderer_draw_glyph_cell fb clip x y glyph metrics =
     (case (glyph, metrics) of (Some g, Some m) \<Rightarrow>
        if fb_data fb = None \<or> mf_glyph_width m = 0 \<or> mf_glyph_height m = 0 \<or> mf_advance_x m = 0 \<or> mf_advance_y m = 0
           \<or> r_width clip \<le> 0 \<or> r_height clip \<le> 0 then fb
        else text_renderer_draw_cell_generic fb clip x y g m
      | _ \<Rightarrow> fb)"

definition text_renderer_can_use_aligned_fast_path :: "mono_fb \<Rightarrow> int \<Rightarrow> mono_font_metrics \<Rightarrow> bool" where
  "text_renderer_can_use_aligned_fast_path fb y metrics =
     (if fb_data fb = None then False
      else if mf_glyph_width metrics \<noteq> 5 \<or> mf_glyph_height metrics \<noteq> 7 \<or> mf_advance_x metrics \<noteq> 6 \<or> mf_advance_y metrics \<noteq> 8
      then False
      else if y < 0 \<or> y mod 8 \<noteq> 0 then False
      else y + 7 < uint (fb_height fb))"

text \<open>The rows of the cell that lie in the clip and on the screen, as a mask.\<close>

definition vertical_mask :: "mono_fb \<Rightarrow> mono_rect \<Rightarrow> int \<Rightarrow> u8" where
  "vertical_mask fb clip y = foldl (\<lambda>m row. let py = y + int row in
     if text_renderer_axis_contains py (r_y clip) (r_height clip) \<and> py \<ge> 0 \<and> py < uint (fb_height fb)
     then m OR page_bit row else m) 0 [0..<8]"

definition draw_aligned_column :: "mono_rect \<Rightarrow> int \<Rightarrow> nat \<Rightarrow> u8 \<Rightarrow> bytes \<Rightarrow> mono_fb \<Rightarrow> nat \<Rightarrow> mono_fb" where
  "draw_aligned_column clip x page vm glyph fb column =
     (let px = x + int column in
      if px < 0 \<or> px \<ge> uint (fb_width fb) \<or> \<not> text_renderer_axis_contains px (r_x clip) (r_width clip) then fb
      else snd (mono_fb_write_masked_byte fb page (nat px) (if column < 5 then glyph ! column else 0) vm))"

definition text_renderer_draw_cell_aligned :: "mono_fb \<Rightarrow> mono_rect \<Rightarrow> int \<Rightarrow> int \<Rightarrow> bytes \<Rightarrow> mono_fb" where
  "text_renderer_draw_cell_aligned fb clip x y glyph =
     (let page = nat y div 8; vm = vertical_mask fb clip y in
      if vm = 0 then fb else foldl (draw_aligned_column clip x page vm glyph) fb [0..<6])"

definition text_renderer_draw_cell :: "mono_fb \<Rightarrow> mono_rect \<Rightarrow> int \<Rightarrow> int \<Rightarrow> u8 \<Rightarrow> mono_fb" where
  "text_renderer_draw_cell fb clip x y ch =
     (if fb_data fb = None \<or> r_width clip \<le> 0 \<or> r_height clip \<le> 0 then fb
      else if text_renderer_can_use_aligned_fast_path fb y font5x7_metrics
      then text_renderer_draw_cell_aligned fb clip x y (font5x7_glyph ch)
      else text_renderer_draw_cell_generic fb clip x y (font5x7_glyph ch) font5x7_metrics)"

section \<open>Both paths draw\<close>

lemma cell_drawn: "fb_ok fb \<Longrightarrow> drawn fb (text_renderer_draw_cell_generic fb clip x y glyph metrics)"
  by (simp add: text_renderer_draw_cell_generic_def draw_cell_column_def draw_cell_pixel_def drawn_foldl set_pixel_drawn Let_def)

lemma glyph_cell_drawn: "fb_ok fb \<Longrightarrow> drawn fb (text_renderer_draw_glyph_cell fb clip x y glyph metrics)"
  by (auto simp: text_renderer_draw_glyph_cell_def cell_drawn split: option.split)

section \<open>The fast path\<close>

text \<open>A masked write, as new contents and a mark.\<close>

definition write_bits :: "mono_fb \<Rightarrow> nat \<Rightarrow> nat \<Rightarrow> u8 \<Rightarrow> u8 \<Rightarrow> mono_fb" where
  "write_bits fb page x v m = snd (mono_fb_write_masked_byte fb page x v m)"

definition writable :: "mono_fb \<Rightarrow> nat \<Rightarrow> nat \<Rightarrow> bool" where
  "writable fb page x \<longleftrightarrow> mono_fb_valid fb \<and> page < mono_fb_page_count fb \<and> page < 8 \<and> x < unat (fb_width fb)"

definition merged :: "mono_fb \<Rightarrow> nat \<Rightarrow> nat \<Rightarrow> u8 \<Rightarrow> u8 \<Rightarrow> u8" where
  "merged fb page x v m = (fb_byte fb page x AND NOT m) OR (v AND m)"

definition put_byte :: "mono_fb \<Rightarrow> nat \<Rightarrow> nat \<Rightarrow> u8 \<Rightarrow> mono_fb" where
  "put_byte fb page x v = fb\<lparr>fb_data := Some ((the (fb_data fb))[page * unat (fb_width fb) + x := v])\<rparr>"

lemma write_bits_eq:
  "write_bits fb page x v m = (if \<not> writable fb page x \<or> merged fb page x v m = fb_byte fb page x then fb
     else mono_fb_mark_page_x (put_byte fb page x (merged fb page x v m)) page x)"
proof -
  have "merged fb page x v 0 = fb_byte fb page x" by (simp add: merged_def)
  then show ?thesis
    by (auto simp: write_bits_def mono_fb_write_masked_byte_def writable_def merged_def fb_byte_def put_byte_def Let_def)
qed

lemma mark_put: "mono_fb_mark_page_x (put_byte fb page x v) page' x' = put_byte (mono_fb_mark_page_x fb page' x') page x v"
  by (simp add: mono_fb_mark_page_x_def put_byte_def Let_def)

lemma mark_twice:
  assumes ok: "fb_ok fb" and p: "page < 8" "x < unat (fb_width fb)"
  shows "mono_fb_mark_page_x (mono_fb_mark_page_x fb page x) page x = mono_fb_mark_page_x fb page x"
proof -
  let ?m = "mono_fb_mark_page_x fb page x"
  note s = mark_span[OF ok p]
  have "\<not> (page \<ge> 8 \<or> x \<ge> unat (fb_width ?m) \<or> x > 0xFFFF)" using p fb_okD(5)[OF ok] by (simp add: mark_fields)
  moreover have "fb_dirty_pages ?m AND page_bit page \<noteq> 0" using s(1)[of page] p by (simp add: and_page_bit)
  moreover have "\<not> x < unat (fb_dirty_min_x ?m ! page)" "\<not> x > unat (fb_dirty_max_x ?m ! page)" using s(3,4) by auto
  ultimately show ?thesis unfolding mono_fb_mark_page_x_def[of ?m] by (simp add: Let_def)
qed

lemma put_put: "put_byte (put_byte fb page x v) page x v' = put_byte fb page x v'"
  by (simp add: put_byte_def)

lemma put_ok:
  assumes "fb_ok fb"
  shows "fb_ok (put_byte fb page x v)"
proof -
  have "mono_fb_page_count (put_byte fb page x v) = mono_fb_page_count fb" by (simp add: put_byte_def mono_fb_page_count_def)
  moreover from this have "span_ok (put_byte fb page x v) q = span_ok fb q" for q by (simp add: span_ok_def) (simp add: put_byte_def)
  ultimately show ?thesis using assms by (simp add: fb_ok_def mono_fb_valid_def) (simp add: put_byte_def)
qed

lemma write_bits_ok: "fb_ok fb \<Longrightarrow> fb_ok (write_bits fb page x v m)"
  using write_drawn by (simp add: write_bits_def drawn_def)

lemma writable_write: "writable (write_bits fb page x v m) q y = writable fb q y"
  by (simp add: write_bits_eq writable_def mono_fb_valid_def mono_fb_page_count_def mark_fields put_byte_def)

lemma byte_write:
  assumes ok: "fb_ok fb" and w: "writable fb page x"
  shows "fb_byte (write_bits fb page x v m) page x = merged fb page x v m"
proof -
  have "page * unat (fb_width fb) + x < length (the (fb_data fb))"
    using w fb_okD(6)[OF ok] index_bound[of page "mono_fb_page_count fb" x "unat (fb_width fb)"] by (simp add: writable_def)
  then show ?thesis by (simp add: write_bits_eq w fb_byte_def mark_fields put_byte_def)
qed

text \<open>Two writes of the same value to disjoint bits of a byte are one.\<close>

lemma write_compose:
  assumes ok: "fb_ok fb" and dis: "\<And>n. \<not> (bit m1 n \<and> bit m2 n)"
  shows "write_bits (write_bits fb page x v m1) page x v m2 = write_bits fb page x v (m1 OR m2)"
proof (cases "writable fb page x")
  case False
  then show ?thesis by (simp add: write_bits_eq writable_write[of fb page x v m1, unfolded write_bits_eq, simplified])
next
  case True
  let ?o = "fb_byte fb page x" and ?a = "merged fb page x v m1" and ?f = "merged fb page x v (m1 OR m2)"
  define fb1 where "fb1 = write_bits fb page x v m1"
  have f: "merged fb1 page x v m2 = ?f"
    unfolding fb1_def merged_def[of "write_bits fb page x v m1"] byte_write[OF ok True] merged_def
    by (rule bit_word_eqI) (auto simp: bit_or_iff bit_and_iff bit_not_iff)
  have w1: "writable fb1 page x" "fb_byte fb1 page x = ?a" using True byte_write[OF ok True] by (simp_all add: fb1_def writable_write)
  have r: "write_bits fb1 page x v m2 = (if ?f = ?a then fb1 else mono_fb_mark_page_x (put_byte fb1 page x ?f) page x)"
    using w1 f by (simp add: write_bits_eq[of fb1])
  have fo: "?f \<noteq> ?o" if "?a \<noteq> ?o"
  proof
    assume e: "?f = ?o"
    have "bit ?a n = bit ?o n" if "n < LENGTH(8)" for n
      using arg_cong[OF e, of "\<lambda>w. bit w n"] dis[of n] that by (auto simp: merged_def bit_or_iff bit_and_iff bit_not_iff)
    then have "?a = ?o" by (intro bit_word_eqI)
    then show False using that by simp
  qed
  show ?thesis
  proof (cases "?a = ?o")
    case True
    then have "fb1 = fb" by (simp add: fb1_def write_bits_eq)
    then show ?thesis using r True f w1(2) by (simp add: fb1_def[symmetric]) (simp add: write_bits_eq \<open>writable fb page x\<close>)
  next
    case False
    then have f1: "fb1 = mono_fb_mark_page_x (put_byte fb page x ?a) page x" using True by (simp add: fb1_def write_bits_eq)
    have rhs: "write_bits fb page x v (m1 OR m2) = mono_fb_mark_page_x (put_byte fb page x ?f) page x"
      using fo[OF False] True by (simp add: write_bits_eq)
    have "mono_fb_mark_page_x (put_byte fb1 page x ?f) page x = mono_fb_mark_page_x (put_byte fb page x ?f) page x"
    proof -
      have "put_byte fb1 page x ?f = mono_fb_mark_page_x (put_byte fb page x ?f) page x"
        unfolding f1 mark_put[symmetric] put_put ..
      then show ?thesis
        using mark_twice[OF put_ok[OF ok], of page x page x ?f] True by (simp add: writable_def put_byte_def)
    qed
    then show ?thesis using r rhs f1 by (simp add: fb1_def[symmetric])
  qed
qed

lemma write_bits_0 [simp]: "write_bits fb page x v 0 = fb"
  by (simp add: write_bits_def mono_fb_write_masked_byte_def)

definition rows_mask :: "(nat \<Rightarrow> bool) \<Rightarrow> nat \<Rightarrow> u8" where
  "rows_mask P n = foldl (\<lambda>m row. if P row then m OR page_bit row else m) 0 [0..<n]"

lemma rows_mask_bit: "bit (rows_mask P n) k \<longleftrightarrow> k < n \<and> k < 8 \<and> P k"
  by (induction n) (auto simp: rows_mask_def bit_or_iff page_bit_bits less_Suc_eq)

lemma rows_fold:
  assumes ok: "fb_ok fb"
  shows "foldl (\<lambda>fb row. if P row then write_bits fb page x v (page_bit row) else fb) fb [0..<n] = write_bits fb page x v (rows_mask P n)"
proof (induction n)
  case 0
  then show ?case by (simp add: rows_mask_def)
next
  case (Suc n)
  have m: "rows_mask P (Suc n) = (if P n then rows_mask P n OR page_bit n else rows_mask P n)" by (simp add: rows_mask_def)
  have "write_bits (write_bits fb page x v (rows_mask P n)) page x v (page_bit n) = write_bits fb page x v (rows_mask P n OR page_bit n)"
    by (rule write_compose[OF ok]) (auto simp: rows_mask_bit page_bit_bits)
  then show ?case using Suc.IH by (simp add: m)
qed

lemma write_bits_cong: "v AND m = v' AND m \<Longrightarrow> write_bits fb page x v m = write_bits fb page x v' m"
  by (simp add: write_bits_eq merged_def)

lemma set_pixel_bits:
  assumes "0 \<le> x" "x < uint (fb_width fb)" "0 \<le> y" "y < uint (fb_height fb)"
  shows "mono_fb_set_pixel fb x y v = write_bits fb (nat y div 8) (nat x) (if v then page_bit (nat y mod 8) else 0) (page_bit (nat y mod 8))"
  using assms by (simp add: mono_fb_set_pixel_def write_bits_def mono_fb_write_masked_byte_def Let_def)

lemma font5x7_rows: "\<not> bit (font5x7_glyph ch ! i) 7 \<or> 5 \<le> i"
proof -
  have "\<forall>g \<in> set font5x7_data. length g = 5 \<and> (\<forall>b \<in> set g. \<not> bit b 7)" by (simp add: font5x7_data_def)
  moreover have "glyph_index ch < length font5x7_data"
  proof -
    have "unat (ch - 0x30) \<le> 9" if "ch \<ge> 0x30" "ch \<le> 0x39"
      using that by (simp add: word_le_nat_alt unat_sub_if_size)
    moreover have "unat (ch - 0x41) \<le> 25" if "ch \<ge> 0x41" "ch \<le> 0x5A"
      using that by (simp add: word_le_nat_alt unat_sub_if_size)
    ultimately show ?thesis by (auto simp: glyph_index_def font5x7_data_def)
  qed
  ultimately have "length (font5x7_glyph ch) = 5" "\<forall>b \<in> set (font5x7_glyph ch). \<not> bit b 7"
    unfolding font5x7_glyph_def using nth_mem by blast+
  then show ?thesis by (cases "5 \<le> i") auto
qed

text \<open>A column of an aligned cell, pixel by pixel, is one masked write.\<close>

lemma column_aligned:
  assumes ok: "fb_ok fb" and y: "0 \<le> y" "y mod 8 = 0" "y + 7 < uint (fb_height fb)"
    and g: "\<And>i. i < 5 \<Longrightarrow> \<not> bit (glyph ! i) 7"
  shows "draw_cell_column clip x y glyph font5x7_metrics fb column
    = draw_aligned_column clip x (nat y div 8) (vertical_mask fb clip y) glyph fb column"
proof -
  let ?px = "x + int column"
  define cell where "cell = (if column < 5 then glyph ! column else 0)"
  define P where "P row = text_renderer_axis_contains (y + int row) (r_y clip) (r_height clip)" for row
  have vm: "vertical_mask fb clip y = rows_mask P 8"
  proof -
    have "text_renderer_axis_contains (y + int row) (r_y clip) (r_height clip) \<and> y + int row \<ge> 0 \<and> y + int row < uint (fb_height fb) \<longleftrightarrow> P row"
      if "row < 8" for row using that y by (auto simp: P_def)
    then show ?thesis unfolding vertical_mask_def rows_mask_def Let_def by (intro foldl_cong) auto
  qed
  have col: "draw_cell_column clip x y glyph font5x7_metrics fb column
      = foldl (draw_cell_pixel clip x y glyph font5x7_metrics column) fb [0..<8]"
    by (simp add: draw_cell_column_def font5x7_metrics_def)
  show ?thesis
  proof (cases "0 \<le> ?px \<and> ?px < uint (fb_width fb) \<and> text_renderer_axis_contains ?px (r_x clip) (r_width clip)")
    case False
    have "draw_cell_pixel clip x y glyph font5x7_metrics column fb row = fb" for row
      using False by (auto simp: draw_cell_pixel_def text_renderer_clip_contains_def mono_fb_set_pixel_def Let_def)
    then have "foldl (draw_cell_pixel clip x y glyph font5x7_metrics column) fb rows = fb" for rows by (induction rows) simp_all
    then show ?thesis using False col by (auto simp: draw_aligned_column_def Let_def)
  next
    case True
    have pixel: "draw_cell_pixel clip x y glyph font5x7_metrics column fb' row
        = (if P row then write_bits fb' (nat y div 8) (nat ?px) cell (page_bit row) else fb')"
      if r: "row < 8" and e: "fb_width fb' = fb_width fb" "fb_height fb' = fb_height fb" for fb' row
    proof (cases "P row")
      case False
      then show ?thesis by (simp add: draw_cell_pixel_def text_renderer_clip_contains_def P_def Let_def)
    next
      case P: True
      define v where "v \<longleftrightarrow> column < 5 \<and> row < 7 \<and> glyph ! column AND page_bit row \<noteq> 0"
      have ny: "nat (y + int row) div 8 = nat y div 8" "nat (y + int row) mod 8 = row"
      proof -
        obtain k where k: "y = 8 * k" using y(2) by (metis mod_0_imp_dvd dvdE)
        then have "0 \<le> k" using y(1) by simp
        then have "nat (y + int row) = 8 * nat k + row" "nat y = 8 * nat k" using k by (simp_all add: nat_add_distrib nat_mult_distrib)
        then show "nat (y + int row) div 8 = nat y div 8" "nat (y + int row) mod 8 = row" using r by simp_all
      qed
      have "draw_cell_pixel clip x y glyph font5x7_metrics column fb' row = mono_fb_set_pixel fb' ?px (y + int row) v"
        using P True by (simp add: draw_cell_pixel_def text_renderer_clip_contains_def P_def font5x7_metrics_def v_def Let_def)
      also have "\<dots> = write_bits fb' (nat y div 8) (nat ?px) (if v then page_bit row else 0) (page_bit row)"
        using set_pixel_bits[of ?px fb' "y + int row" v] True y r e ny by simp
      also have "\<dots> = write_bits fb' (nat y div 8) (nat ?px) cell (page_bit row)"
      proof (rule write_bits_cong)
        have "v \<longleftrightarrow> bit cell row"
        proof (cases "column < 5")
          case True
          moreover have "row = 7 \<or> row < 7" using r by auto
          ultimately show ?thesis using g[of column] r by (auto simp: v_def cell_def and_page_bit)
        qed (simp add: v_def cell_def)
        then show "(if v then page_bit row else 0) AND page_bit row = cell AND page_bit row"
          by (intro bit_word_eqI) (auto simp: bit_and_iff page_bit_bits)
      qed
      finally show ?thesis using P by simp
    qed
    have dims: "fb_width (write_bits fb' q u v m) = fb_width fb'" "fb_height (write_bits fb' q u v m) = fb_height fb'" for fb' q u v m
      by (simp_all add: write_bits_eq mark_fields put_byte_def)
    have "foldl (draw_cell_pixel clip x y glyph font5x7_metrics column) fb' rows
        = foldl (\<lambda>fb row. if P row then write_bits fb (nat y div 8) (nat ?px) cell (page_bit row) else fb) fb' rows"
      if "set rows \<subseteq> {0..<8}" "fb_width fb' = fb_width fb" "fb_height fb' = fb_height fb" for rows fb'
      using that by (induction rows arbitrary: fb') (simp_all add: pixel dims)
    then have "foldl (draw_cell_pixel clip x y glyph font5x7_metrics column) fb [0..<8]
        = write_bits fb (nat y div 8) (nat ?px) cell (rows_mask P 8)"
      using rows_fold[OF ok, of P "nat y div 8" "nat ?px" cell 8] by simp
    then show ?thesis using col vm True by (simp add: draw_aligned_column_def write_bits_def cell_def Let_def)
  qed
qed

text \<open>The columns of a cell, byte by byte and pixel by pixel.\<close>

lemma aligned_equals_generic:
  assumes ok: "fb_ok fb" and fast: "text_renderer_can_use_aligned_fast_path fb y font5x7_metrics"
  shows "text_renderer_draw_cell_aligned fb clip x y (font5x7_glyph ch) = text_renderer_draw_cell_generic fb clip x y (font5x7_glyph ch) font5x7_metrics"
proof -
  have y: "0 \<le> y" "y mod 8 = 0" "y + 7 < uint (fb_height fb)"
    using fast by (auto simp: text_renderer_can_use_aligned_fast_path_def font5x7_metrics_def split: if_splits)
  have g: "\<not> bit (font5x7_glyph ch ! i) 7" if "i < 5" for i using font5x7_rows[of ch i] that by simp
  let ?vm = "vertical_mask fb clip y"
  have cols: "foldl (draw_cell_column clip x y (font5x7_glyph ch) font5x7_metrics) fb' cs
      = foldl (draw_aligned_column clip x (nat y div 8) ?vm (font5x7_glyph ch)) fb' cs"
    if "fb_ok fb'" "fb_height fb' = fb_height fb" for fb' cs
    using that
  proof (induction cs arbitrary: fb')
    case (Cons k cs)
    have "vertical_mask fb' clip y = ?vm" using Cons.prems(2) by (simp add: vertical_mask_def)
    then have e: "draw_cell_column clip x y (font5x7_glyph ch) font5x7_metrics fb' k
        = draw_aligned_column clip x (nat y div 8) ?vm (font5x7_glyph ch) fb' k"
      using column_aligned[OF Cons.prems(1) y(1,2) _ g] y(3) Cons.prems(2) by simp
    have "drawn fb' (draw_aligned_column clip x (nat y div 8) ?vm (font5x7_glyph ch) fb' k)"
      using Cons.prems(1) by (simp add: draw_aligned_column_def write_drawn Let_def)
    then show ?case using Cons.IH e Cons.prems(2) by (simp add: drawn_def)
  qed simp
  have "draw_aligned_column clip x (nat y div 8) 0 (font5x7_glyph ch) fb' k = fb'" for fb' k
    by (simp add: draw_aligned_column_def mono_fb_write_masked_byte_def Let_def)
  then have z: "foldl (draw_aligned_column clip x (nat y div 8) 0 (font5x7_glyph ch)) fb' cs = fb'" for fb' cs by (induction cs) simp_all
  have m: "mf_advance_x font5x7_metrics = 6" by (simp add: font5x7_metrics_def)
  show ?thesis
    using cols[OF ok refl, of "[0..<6]"] z[of fb "[0..<6]"]
    by (simp add: text_renderer_draw_cell_aligned_def text_renderer_draw_cell_generic_def m Let_def)
qed

text \<open>
  C39: The fast path of the text renderer is exact: for every framebuffer, clip, position and
  character, drawing a cell gives the same pixels and the same dirty regions as drawing it
  pixel by pixel.
\<close>
theorem fast_path_equals_generic:
  assumes "fb_ok fb" "0 < r_width clip" "0 < r_height clip"
  shows "text_renderer_draw_cell fb clip x y ch = text_renderer_draw_cell_generic fb clip x y (font5x7_glyph ch) font5x7_metrics"
proof -
  obtain d where "fb_data fb = Some d" using assms(1) by (auto simp: fb_ok_def mono_fb_valid_def)
  then show ?thesis using assms aligned_equals_generic[OF assms(1)] by (simp add: text_renderer_draw_cell_def)
qed

lemma cell7_drawn: "fb_ok fb \<Longrightarrow> drawn fb (text_renderer_draw_cell fb clip x y ch)"
proof -
  assume ok: "fb_ok fb"
  have "drawn fb (draw_aligned_column clip x p m g fb k)" if "fb_ok fb" for fb p m g k
    using that by (simp add: draw_aligned_column_def write_drawn Let_def)
  then show ?thesis using ok cell_drawn
    by (simp add: text_renderer_draw_cell_def text_renderer_draw_cell_aligned_def drawn_foldl Let_def)
qed

text \<open>An empty framebuffer of the given width and height.\<close>

definition blank_fb :: "u32 \<Rightarrow> u32 \<Rightarrow> mono_fb" where
  "blank_fb w h = mono_fb_init \<lparr>fb_data = None, fb_width = 0, fb_height = 0, fb_dirty_pages = 0,
     fb_dirty_min_x = replicate 8 0, fb_dirty_max_x = replicate 8 0\<rparr> (Some (replicate (unat ((h + 7) div 8) * unat w) 0)) w h"

lemma blank_fb_eq: "blank_fb w h = \<lparr>fb_data = Some (replicate (unat ((h + 7) div 8) * unat w) 0), fb_width = w, fb_height = h,
     fb_dirty_pages = 0, fb_dirty_min_x = replicate 8 0xFFFF, fb_dirty_max_x = replicate 8 0\<rparr>"
  by (simp add: blank_fb_def mono_fb_init_def mono_fb_reset_span_def upt_rec numeral_eq_Suc)

lemma blank_fb_ok: "w \<noteq> 0 \<Longrightarrow> h \<noteq> 0 \<Longrightarrow> w < 0xFFFF \<Longrightarrow> unat ((h + 7) div 8) \<le> 8 \<Longrightarrow> fb_ok (blank_fb w h)"
  by (simp add: blank_fb_eq fb_ok_def mono_fb_valid_def mono_fb_page_count_def span_ok_def)

theorem fast_path_equals_generic_witness:
  "text_renderer_can_use_aligned_fast_path (blank_fb 16 16) 8 font5x7_metrics
    \<and> text_renderer_draw_cell (blank_fb 16 16) \<lparr>r_x = 1, r_y = 1, r_width = 14, r_height = 14\<rparr> 12 8 0x52
      = text_renderer_draw_cell_generic (blank_fb 16 16) \<lparr>r_x = 1, r_y = 1, r_width = 14, r_height = 14\<rparr> 12 8 (font5x7_glyph 0x52) font5x7_metrics"
proof -
  have "fb_ok (blank_fb 16 16)" by (rule blank_fb_ok) simp_all
  then show ?thesis
    using fast_path_equals_generic[of "blank_fb 16 16" "\<lparr>r_x = 1, r_y = 1, r_width = 14, r_height = 14\<rparr>" 12 8 "0x52"]
    by (simp add: text_renderer_can_use_aligned_fast_path_def blank_fb_eq font5x7_metrics_def)
qed

end
