(* ===== verification/Oled_Console.thy ===== *)
theory Oled_Console
  imports Text_Renderer
begin

unbundle bit_operations_syntax

text \<open>
  The text console of the display (\<open>src/src/kernel/oled_console.c\<close>): three rows of
  twenty-one characters in a ring, with a lazy scroll. Row and column indices are natural
  numbers (\<open>uint8_t\<close> in the code, at most 3 and 21); the pointers to the console and to
  the framebuffer are never null in the firmware.

  The specification is a teletype with an endless roll of lines; the console shows the last
  three of them.
\<close>

section \<open>The code\<close>

abbreviation (input) OLED_CONSOLE_COLUMNS :: nat where "OLED_CONSOLE_COLUMNS \<equiv> 21"
abbreviation (input) OLED_CONSOLE_ROWS :: nat where "OLED_CONSOLE_ROWS \<equiv> 3"

record oled_console =
  oc_cells :: "bytes list"
  oc_first_row :: nat
  oc_cursor_x :: nat
  oc_cursor_y :: nat
  oc_dirty_rows :: u8

definition oled_console_all_rows_mask :: u8 where
  "oled_console_all_rows_mask = page_bit OLED_CONSOLE_ROWS - 1"

definition oled_console_mark_row :: "oled_console \<Rightarrow> nat \<Rightarrow> oled_console" where
  "oled_console_mark_row c row =
     (if row \<ge> OLED_CONSOLE_ROWS then c else c\<lparr>oc_dirty_rows := oc_dirty_rows c OR page_bit row\<rparr>)"

definition oled_console_clear_physical_row :: "oled_console \<Rightarrow> nat \<Rightarrow> oled_console" where
  "oled_console_clear_physical_row c physical_row =
     (if physical_row \<ge> OLED_CONSOLE_ROWS then c
      else c\<lparr>oc_cells := (oc_cells c)[physical_row := replicate OLED_CONSOLE_COLUMNS 0x20]\<rparr>)"

definition oled_console_scroll_one :: "oled_console \<Rightarrow> oled_console" where
  "oled_console_scroll_one c =
     (let c1 = c\<lparr>oc_first_row := (oc_first_row c + 1) mod OLED_CONSOLE_ROWS\<rparr>;
          new_bottom_row = (oc_first_row c1 + (OLED_CONSOLE_ROWS - 1)) mod OLED_CONSOLE_ROWS
      in (oled_console_clear_physical_row c1 new_bottom_row)\<lparr>oc_dirty_rows := oled_console_all_rows_mask\<rparr>)"

definition oled_console_prepare_printable :: "oled_console \<Rightarrow> oled_console" where
  "oled_console_prepare_printable c =
     (let c1 = (if oc_cursor_y c \<ge> OLED_CONSOLE_ROWS
                then (oled_console_scroll_one c)\<lparr>oc_cursor_y := OLED_CONSOLE_ROWS - 1, oc_cursor_x := 0\<rparr> else c)
      in if oc_cursor_x c1 \<ge> OLED_CONSOLE_COLUMNS
         then let c2 = c1\<lparr>oc_cursor_x := 0\<rparr>
           in if oc_cursor_y c2 + 1 < OLED_CONSOLE_ROWS then c2\<lparr>oc_cursor_y := oc_cursor_y c2 + 1\<rparr>
              else (oled_console_scroll_one c2)\<lparr>oc_cursor_y := OLED_CONSOLE_ROWS - 1\<rparr>
         else c1)"

definition oled_console_clear :: "oled_console \<Rightarrow> oled_console" where
  "oled_console_clear c = c\<lparr>oc_cells := replicate OLED_CONSOLE_ROWS (replicate OLED_CONSOLE_COLUMNS 0x20),
     oc_first_row := 0, oc_cursor_x := 0, oc_cursor_y := 0, oc_dirty_rows := oled_console_all_rows_mask\<rparr>"

definition oled_console_init :: "oled_console \<Rightarrow> oled_console" where
  "oled_console_init c = oled_console_clear c"

definition oled_console_putc :: "oled_console \<Rightarrow> u8 \<Rightarrow> oled_console" where
  "oled_console_putc c ch =
     (if ch = 0x0D then c\<lparr>oc_cursor_x := 0\<rparr>
      else if ch = 0x0A
      then let c1 = c\<lparr>oc_cursor_x := 0\<rparr>
        in if oc_cursor_y c1 < OLED_CONSOLE_ROWS then c1\<lparr>oc_cursor_y := oc_cursor_y c1 + 1\<rparr>
           else (oled_console_scroll_one c1)\<lparr>oc_cursor_y := OLED_CONSOLE_ROWS\<rparr>
      else if ch < 0x20 \<or> ch > 0x7E then c
      else let c1 = oled_console_prepare_printable c;
               physical_row = (oc_first_row c1 + oc_cursor_y c1) mod OLED_CONSOLE_ROWS;
               c2 = c1\<lparr>oc_cells := (oc_cells c1)[physical_row := (oc_cells c1 ! physical_row)[oc_cursor_x c1 := ch]]\<rparr>;
               c3 = oled_console_mark_row c2 (oc_cursor_y c2)
        in c3\<lparr>oc_cursor_x := oc_cursor_x c3 + 1\<rparr>)"

text \<open>A string is its bytes up to the terminating zero.\<close>

definition c_string :: "bytes \<Rightarrow> bytes" where
  "c_string t = takeWhile (\<lambda>b. b \<noteq> 0) t"

definition oled_console_write :: "oled_console \<Rightarrow> bytes option \<Rightarrow> oled_console" where
  "oled_console_write c txt = (case txt of None \<Rightarrow> c | Some t \<Rightarrow> foldl oled_console_putc c (c_string t))"

definition oled_console_write_line :: "oled_console \<Rightarrow> bytes option \<Rightarrow> oled_console" where
  "oled_console_write_line c txt = oled_console_putc (oled_console_write c txt) 0x0A"

text \<open>How many cells of the given pitch fit: the glyph has to, the spacer need not.\<close>

definition available_cells :: "int \<Rightarrow> nat \<Rightarrow> nat \<Rightarrow> nat \<Rightarrow> nat" where
  "available_cells len glyph advance limit =
     (let n = (if nat len < glyph then 0 else 1 + (nat len - glyph) div advance) in if n > limit then limit else n)"

definition render_cell :: "oled_console \<Rightarrow> mono_rect \<Rightarrow> nat \<Rightarrow> mono_fb \<Rightarrow> nat \<Rightarrow> mono_fb" where
  "render_cell c clip row fb column =
     (let physical_row = (oc_first_row c + row) mod OLED_CONSOLE_ROWS;
          x = r_x clip + int (column * mf_advance_x font5x6_metrics);
          y = r_y clip + int (row * mf_advance_y font5x6_metrics)
      in text_renderer_draw_glyph_cell fb clip x y (Some (font5x6_glyph (oc_cells c ! physical_row ! column))) (Some font5x6_metrics))"

definition render_row :: "oled_console \<Rightarrow> mono_rect \<Rightarrow> nat \<Rightarrow> mono_fb \<times> u8 \<Rightarrow> nat \<Rightarrow> mono_fb \<times> u8" where
  "render_row c clip available_columns st row =
     (case st of (fb, rendered) \<Rightarrow>
        if oc_dirty_rows c AND page_bit row = 0 then (fb, rendered)
        else (foldl (render_cell c clip row) fb [0..<available_columns], rendered OR page_bit row))"

definition oled_console_render :: "oled_console \<Rightarrow> mono_fb \<Rightarrow> mono_rect \<Rightarrow> oled_console \<times> mono_fb" where
  "oled_console_render c fb clip =
     (if fb_data fb = None \<or> r_width clip \<le> 0 \<or> r_height clip \<le> 0 then (c, fb)
      else let m = font5x6_metrics;
               available_columns = available_cells (r_width clip) (mf_glyph_width m) (mf_advance_x m) OLED_CONSOLE_COLUMNS;
               available_rows = available_cells (r_height clip) (mf_glyph_height m) (mf_advance_y m) OLED_CONSOLE_ROWS
        in if oc_dirty_rows c = 0 \<or> available_columns = 0 \<or> available_rows = 0 then (c, fb)
           else case foldl (render_row c clip available_columns) (fb, 0) [0..<available_rows] of (fb1, rendered) \<Rightarrow>
             (c\<lparr>oc_dirty_rows := oc_dirty_rows c AND NOT rendered\<rparr>, fb1))"

end
