(* ===== verification/Oled_Teletype.thy ===== *)
theory Oled_Teletype
  imports Oled_Console
begin

unbundle bit_operations_syntax

text \<open>
  The contract of the console. A teletype prints on an endless roll: lines of twenty-one
  cells, and the carriage either on a column of the last line or at the start of a line
  that is not on the roll yet. The console is a window on the end of the roll: whatever
  is written, its rows are the last three lines.
\<close>

section \<open>The teletype\<close>

record teletype =
  tt_lines :: "bytes list"
  tt_carriage :: "nat option"

definition blank_line :: bytes where
  "blank_line = replicate 21 0x20"

definition teletype_putc :: "teletype \<Rightarrow> u8 \<Rightarrow> teletype" where
  "teletype_putc t ch =
     (if ch = 0x0D then t\<lparr>tt_carriage := map_option (\<lambda>_. 0) (tt_carriage t)\<rparr>
      else if ch = 0x0A then
        (case tt_carriage t of None \<Rightarrow> t\<lparr>tt_lines := tt_lines t @ [blank_line]\<rparr> | Some _ \<Rightarrow> t\<lparr>tt_carriage := None\<rparr>)
      else if ch < 0x20 \<or> ch > 0x7E then t
      else case tt_carriage t of
        Some x \<Rightarrow> if x < 21 then t\<lparr>tt_lines := butlast (tt_lines t) @ [(last (tt_lines t))[x := ch]], tt_carriage := Some (x + 1)\<rparr>
          else t\<lparr>tt_lines := tt_lines t @ [blank_line[0 := ch]], tt_carriage := Some 1\<rparr>
      | None \<Rightarrow> t\<lparr>tt_lines := tt_lines t @ [blank_line[0 := ch]], tt_carriage := Some 1\<rparr>)"

definition teletype_new :: teletype where
  "teletype_new = \<lparr>tt_lines = [], tt_carriage = None\<rparr>"

definition teletype_print :: "bytes \<Rightarrow> teletype" where
  "teletype_print t = foldl teletype_putc teletype_new t"

text \<open>The last three lines, padded below when there are fewer.\<close>

definition roll_end :: "bytes list \<Rightarrow> bytes list" where
  "roll_end ls = drop (length ls - 3) ls @ replicate (3 - length ls) blank_line"

section \<open>The console is the end of the roll\<close>

text \<open>The rows of the console from the top.\<close>

definition console_rows :: "oled_console \<Rightarrow> bytes list" where
  "console_rows c = map (\<lambda>k. oc_cells c ! ((oc_first_row c + k) mod 3)) [0..<3]"

definition console_ok :: "oled_console \<Rightarrow> bool" where
  "console_ok c \<longleftrightarrow> length (oc_cells c) = 3 \<and> (\<forall>r \<in> set (oc_cells c). length r = 21) \<and> oc_first_row c < 3
     \<and> oc_cursor_x c \<le> 21 \<and> oc_cursor_y c \<le> 3 \<and> (oc_cursor_y c = 3 \<longrightarrow> oc_cursor_x c = 0)"

definition on_roll :: "teletype \<Rightarrow> oled_console \<Rightarrow> bool" where
  "on_roll t c \<longleftrightarrow> console_ok c \<and> console_rows c = roll_end (tt_lines t)
     \<and> (case tt_carriage t of
          None \<Rightarrow> oc_cursor_y c = min (length (tt_lines t)) 3 \<and> oc_cursor_x c = 0
        | Some x \<Rightarrow> tt_lines t \<noteq> [] \<and> oc_cursor_y c + 1 = min (length (tt_lines t)) 3 \<and> oc_cursor_x c = x)"

lemma three: "k < 3 \<longleftrightarrow> k = 0 \<or> k = 1 \<or> k = (2 :: nat)"
  by auto

lemma upt3: "[0..<3] = [0, 1, 2 :: nat]"
  by (simp add: upt_rec)

lemma list3: "length xs = 3 \<Longrightarrow> \<exists>a b d. xs = [a, b, d]"
  by (auto simp: numeral_3_eq_3 length_Suc_conv)

lemma ring3 [simp]: "\<not> 3 \<le> k mod (3 :: nat)"
  by (simp add: not_le)

text \<open>Writing a row of the ring.\<close>

lemma rows_update:
  assumes "length (oc_cells c) = 3" "oc_first_row c < 3" "j < 3"
  shows "console_rows (c\<lparr>oc_cells := (oc_cells c)[(oc_first_row c + j) mod 3 := r]\<rparr>) = (console_rows c)[j := r]"
proof -
  obtain a b d where "oc_cells c = [a, b, d]" using list3[OF assms(1)] by blast
  then show ?thesis using assms(2,3) by (auto simp: console_rows_def upt3 three)
qed

lemma scroll_rows:
  assumes "length (oc_cells c) = 3" "oc_first_row c < 3"
  shows "console_rows (oled_console_scroll_one c) = tl (console_rows c) @ [blank_line]"
    "length (oc_cells (oled_console_scroll_one c)) = 3" "oc_first_row (oled_console_scroll_one c) < 3"
    "\<forall>r \<in> set (oc_cells c). length r = 21 \<Longrightarrow> \<forall>r \<in> set (oc_cells (oled_console_scroll_one c)). length r = 21"
    "oc_cursor_x (oled_console_scroll_one c) = oc_cursor_x c" "oc_cursor_y (oled_console_scroll_one c) = oc_cursor_y c"
    "oc_dirty_rows (oled_console_scroll_one c) = oled_console_all_rows_mask"
proof -
  obtain a b d where e: "oc_cells c = [a, b, d]" using list3[OF assms(1)] by blast
  from assms(2) have f: "oc_first_row c = 0 \<or> oc_first_row c = 1 \<or> oc_first_row c = 2" by (simp add: three)
  note defs = oled_console_scroll_one_def oled_console_clear_physical_row_def Let_def console_rows_def upt3 blank_line_def
  show "console_rows (oled_console_scroll_one c) = tl (console_rows c) @ [blank_line]"
    "length (oc_cells (oled_console_scroll_one c)) = 3" "oc_first_row (oled_console_scroll_one c) < 3"
    "\<forall>r \<in> set (oc_cells c). length r = 21 \<Longrightarrow> \<forall>r \<in> set (oc_cells (oled_console_scroll_one c)). length r = 21"
    "oc_cursor_x (oled_console_scroll_one c) = oc_cursor_x c" "oc_cursor_y (oled_console_scroll_one c) = oc_cursor_y c"
    "oc_dirty_rows (oled_console_scroll_one c) = oled_console_all_rows_mask"
    using f e by (auto simp: defs)
qed

text \<open>The end of a longer roll, and of a roll whose last line changes.\<close>

lemma roll_end_snoc:
  "roll_end (ls @ [r]) = (if length ls < 3 then (roll_end ls)[length ls := r] else tl (roll_end ls) @ [r])"
proof (cases "length ls < 3")
  case True
  then consider "ls = []" | a where "ls = [a]" | a b where "ls = [a, b]"
    by (cases ls; cases "tl ls"; cases "tl (tl ls)") auto
  then show ?thesis by cases (simp_all add: roll_end_def eval_nat_numeral)
next
  case False
  have "tl (drop (length ls - 3) ls) = drop (length ls - 2) ls"
  proof -
    have "tl (drop (length ls - 3) ls) = drop 1 (drop (length ls - 3) ls)" by (simp add: drop_Suc tl_drop)
    also have "\<dots> = drop (length ls - 2) ls" using False unfolding drop_drop by (intro arg_cong[where f = "\<lambda>k. drop k ls"]) simp
    finally show ?thesis .
  qed
  then show ?thesis using False by (simp add: roll_end_def)
qed

lemma roll_end_length: "length (roll_end ls) = 3"
  by (simp add: roll_end_def)

lemma roll_end_last:
  assumes "ls \<noteq> []"
  shows "roll_end (butlast ls @ [r]) = (roll_end ls)[min (length ls) 3 - 1 := r]"
proof -
  obtain xs y where e: "ls = xs @ [y]" using assms by (metis rev_exhaust)
  show ?thesis
  proof (cases "length xs < 3")
    case True
    then show ?thesis by (simp add: e roll_end_snoc)
  next
    case False
    have "length (tl (roll_end xs)) = 2" by (simp add: roll_end_length)
    then have "(tl (roll_end xs) @ [y])[2 := r] = tl (roll_end xs) @ [r]" by (metis list_update_length)
    then show ?thesis using False by (simp add: e roll_end_snoc)
  qed
qed

section \<open>Every operation keeps the console on the roll\<close>

lemma roll_end_Nil: "roll_end [] = [blank_line, blank_line, blank_line]"
  by (simp add: roll_end_def numeral_3_eq_3)

lemma roll_end_feed: "length ls < 3 \<Longrightarrow> roll_end (ls @ [blank_line]) = roll_end ls"
proof -
  assume a: "length ls < 3"
  then have "roll_end ls ! length ls = blank_line" by (simp add: roll_end_def nth_append)
  then show ?thesis using a by (simp add: roll_end_snoc list_update_same_conv roll_end_length)
qed

lemma clear_rows: "console_rows (oled_console_clear c) = [blank_line, blank_line, blank_line]"
  by (simp add: console_rows_def oled_console_clear_def upt3 blank_line_def)

lemma on_roll_clear: "on_roll teletype_new (oled_console_clear c)"
  unfolding on_roll_def clear_rows teletype_new_def
  by (simp add: roll_end_Nil console_ok_def oled_console_clear_def)

lemma rows_frame:
  "oc_cells c' = oc_cells c \<Longrightarrow> oc_first_row c' = oc_first_row c \<Longrightarrow> console_rows c' = console_rows c"
  by (simp add: console_rows_def)

text \<open>The line the next character goes to, and the character there.\<close>

definition feed :: "teletype \<Rightarrow> teletype" where
  "feed t = (case tt_carriage t of Some x \<Rightarrow> if x < 21 then t else t\<lparr>tt_lines := tt_lines t @ [blank_line], tt_carriage := Some 0\<rparr>
     | None \<Rightarrow> t\<lparr>tt_lines := tt_lines t @ [blank_line], tt_carriage := Some 0\<rparr>)"

definition strike :: "u8 \<Rightarrow> teletype \<Rightarrow> teletype" where
  "strike ch t = (case tt_carriage t of None \<Rightarrow> t
     | Some x \<Rightarrow> t\<lparr>tt_lines := butlast (tt_lines t) @ [(last (tt_lines t))[x := ch]], tt_carriage := Some (x + 1)\<rparr>)"

lemma teletype_print_char:
  "\<not> (ch < 0x20 \<or> ch > 0x7E) \<Longrightarrow> teletype_putc t ch = strike ch (feed t)"
  by (cases t) (auto simp: teletype_putc_def strike_def feed_def split: option.split)

lemma on_roll_prepare:
  assumes "on_roll t c"
  shows "on_roll (feed t) (oled_console_prepare_printable c)" "\<exists>x < 21. tt_carriage (feed t) = Some x"
proof -
  have ok: "length (oc_cells c) = 3" "\<forall>r \<in> set (oc_cells c). length r = 21" "oc_first_row c < 3"
    using assms by (auto simp: on_roll_def console_ok_def)
  note sc = scroll_rows[OF ok(1,3)]
  note sl = sc(4)[OF ok(2)]
  show "\<exists>x < 21. tt_carriage (feed t) = Some x" by (auto simp: feed_def split: option.split)
  have new: "on_roll (t\<lparr>tt_lines := tt_lines t @ [blank_line], tt_carriage := Some 0\<rparr>) c'"
    if "length (tt_lines t) < 3 \<and> c' = c\<lparr>oc_cursor_x := 0, oc_cursor_y := length (tt_lines t)\<rparr>
      \<or> 3 \<le> length (tt_lines t) \<and> c' = (oled_console_scroll_one c)\<lparr>oc_cursor_x := 0, oc_cursor_y := 2\<rparr>" for c'
    using that
  proof (elim disjE conjE)
    assume a: "length (tt_lines t) < 3" "c' = c\<lparr>oc_cursor_x := 0, oc_cursor_y := length (tt_lines t)\<rparr>"
    have "console_rows c' = console_rows c" by (rule rows_frame) (simp_all add: a)
    then show ?thesis using a assms ok by (simp add: on_roll_def console_ok_def roll_end_feed)
  next
    assume a: "3 \<le> length (tt_lines t)" "c' = (oled_console_scroll_one c)\<lparr>oc_cursor_x := 0, oc_cursor_y := 2\<rparr>"
    have "console_rows c' = console_rows (oled_console_scroll_one c)" by (rule rows_frame) (simp_all add: a)
    then show ?thesis using a assms sc(1,2,3) sl by (simp add: on_roll_def console_ok_def roll_end_snoc)
  qed
  show "on_roll (feed t) (oled_console_prepare_printable c)"
  proof (cases "tt_carriage t")
    case None
    then have y: "oc_cursor_y c = min (length (tt_lines t)) 3" "oc_cursor_x c = 0" using assms by (auto simp: on_roll_def)
    have "oled_console_prepare_printable c = (if 3 \<le> length (tt_lines t)
        then (oled_console_scroll_one c)\<lparr>oc_cursor_x := 0, oc_cursor_y := 2\<rparr> else c\<lparr>oc_cursor_x := 0, oc_cursor_y := length (tt_lines t)\<rparr>)"
      using y by (cases c) (auto simp: oled_console_prepare_printable_def Let_def)
    then show ?thesis using new None by (simp add: feed_def)
  next
    case (Some x)
    then have y: "tt_lines t \<noteq> []" "oc_cursor_y c + 1 = min (length (tt_lines t)) 3" "oc_cursor_x c = x"
      using assms by (auto simp: on_roll_def)
    show ?thesis
    proof (cases "x < 21")
      case True
      then have "oled_console_prepare_printable c = c" using y by (simp add: oled_console_prepare_printable_def)
      then show ?thesis using True Some assms by (simp add: feed_def)
    next
      case False
      have "oled_console_prepare_printable c = (if 3 \<le> length (tt_lines t)
        then (oled_console_scroll_one (c\<lparr>oc_cursor_x := 0\<rparr>))\<lparr>oc_cursor_y := 2\<rparr> else c\<lparr>oc_cursor_x := 0, oc_cursor_y := length (tt_lines t)\<rparr>)"
        using y False by (cases c) (auto simp: oled_console_prepare_printable_def Let_def)
      moreover have "(oled_console_scroll_one (c\<lparr>oc_cursor_x := 0\<rparr>))\<lparr>oc_cursor_y := 2\<rparr>
          = (oled_console_scroll_one c)\<lparr>oc_cursor_x := 0, oc_cursor_y := 2\<rparr>"
        by (cases c) (simp add: oled_console_scroll_one_def oled_console_clear_physical_row_def Let_def)
      ultimately show ?thesis using new Some False by (simp add: feed_def)
    qed
  qed
qed

lemma on_roll_strike:
  assumes "on_roll t c" "tt_carriage t = Some x" "x < 21"
  defines "p \<equiv> (oc_first_row c + oc_cursor_y c) mod 3"
  shows "on_roll (strike ch t) ((oled_console_mark_row (c\<lparr>oc_cells := (oc_cells c)[p := (oc_cells c ! p)[x := ch]]\<rparr>) y)\<lparr>oc_cursor_x := x + 1\<rparr>)"
proof -
  have ok: "length (oc_cells c) = 3" "\<forall>r \<in> set (oc_cells c). length r = 21" "oc_first_row c < 3" "console_rows c = roll_end (tt_lines t)"
    and ls: "tt_lines t \<noteq> []" "oc_cursor_y c + 1 = min (length (tt_lines t)) 3"
    using assms(1,2) by (auto simp: on_roll_def console_ok_def)
  have y: "oc_cursor_y c < 3" "oc_cursor_y c = min (length (tt_lines t)) 3 - 1" using ls(2) by linarith+
  have row: "oc_cells c ! p = console_rows c ! oc_cursor_y c" using y(1) by (simp add: console_rows_def p_def)
  define r where "r = (oc_cells c ! p)[x := ch]"
  define c' where "c' = (oled_console_mark_row (c\<lparr>oc_cells := (oc_cells c)[p := r]\<rparr>) y)\<lparr>oc_cursor_x := x + 1\<rparr>"
  have f: "oc_cells c' = (oc_cells c)[p := r]" "oc_first_row c' = oc_first_row c" "oc_cursor_x c' = x + 1" "oc_cursor_y c' = oc_cursor_y c"
    by (simp_all add: c'_def oled_console_mark_row_def)
  have p: "p < 3" by (simp add: p_def)
  have "length r = 21" using ok(1,2) p by (simp add: r_def)
  then have rl: "\<forall>r \<in> set (oc_cells c'). length r = 21" using f(1) ok(2) by (auto dest!: set_update_subset_insert[THEN subsetD])
  have last: "last (tt_lines t) = roll_end (tt_lines t) ! oc_cursor_y c"
    using roll_end_last[OF ls(1), of "last (tt_lines t)"] ls(1) y roll_end_length by (metis append_butlast_last_id nth_list_update_eq)
  have "console_rows c' = console_rows (c\<lparr>oc_cells := (oc_cells c)[p := r]\<rparr>)" by (rule rows_frame) (simp_all add: f)
  also have "\<dots> = (console_rows c)[oc_cursor_y c := r]" unfolding p_def by (rule rows_update[OF ok(1,3) y(1)])
  also have "\<dots> = roll_end (butlast (tt_lines t) @ [r])" using roll_end_last[OF ls(1), of r] y(2) ok(4) by simp
  also have "r = (last (tt_lines t))[x := ch]" using row last ok(4) by (simp add: r_def)
  finally show ?thesis using rl f ok(1,3) ls y assms(2,3)
    unfolding r_def[symmetric] c'_def[symmetric] by (simp add: on_roll_def console_ok_def strike_def)
qed

lemma on_roll_newline:
  assumes r: "on_roll t c"
  shows "on_roll (teletype_putc t 0x0A) (oled_console_putc c 0x0A)"
proof -
  have ok: "length (oc_cells c) = 3" "\<forall>r \<in> set (oc_cells c). length r = 21" "oc_first_row c < 3" "console_rows c = roll_end (tt_lines t)"
    using r by (auto simp: on_roll_def console_ok_def)
  define c0 where "c0 = c\<lparr>oc_cursor_x := 0\<rparr>"
  have c0: "length (oc_cells c0) = 3" "oc_first_row c0 < 3" "\<forall>r \<in> set (oc_cells c0). length r = 21" "console_rows c0 = console_rows c"
    "oc_cursor_x c0 = 0" "oc_cursor_y c0 = oc_cursor_y c"
    using ok by (simp_all add: c0_def console_rows_def)
  have step: "oled_console_putc c 0x0A = (if oc_cursor_y c < 3 then c0\<lparr>oc_cursor_y := oc_cursor_y c + 1\<rparr>
      else (oled_console_scroll_one c0)\<lparr>oc_cursor_y := 3\<rparr>)"
    by (simp add: oled_console_putc_def c0_def Let_def)
  note sc = scroll_rows[OF c0(1,2)]
  have down: "console_rows (c0\<lparr>oc_cursor_y := n\<rparr>) = console_rows c" for n using c0(4) by (simp add: console_rows_def)
  have up: "console_rows ((oled_console_scroll_one c0)\<lparr>oc_cursor_y := 3\<rparr>) = tl (console_rows c) @ [blank_line]"
  proof -
    have "console_rows ((oled_console_scroll_one c0)\<lparr>oc_cursor_y := 3\<rparr>) = console_rows (oled_console_scroll_one c0)"
      by (rule rows_frame) simp_all
    then show ?thesis using sc(1) c0(4) by simp
  qed
  show ?thesis
  proof (cases "tt_carriage t")
    case None
    then have y: "oc_cursor_y c = min (length (tt_lines t)) 3" using r by (auto simp: on_roll_def)
    have tt: "teletype_putc t 0x0A = t\<lparr>tt_lines := tt_lines t @ [blank_line]\<rparr>" using None by (simp add: teletype_putc_def)
    show ?thesis
    proof (cases "length (tt_lines t) < 3")
      case True
      then show ?thesis using y None c0 ok(4) down unfolding step tt by (simp add: on_roll_def console_ok_def roll_end_feed)
    next
      case False
      then show ?thesis using y None c0 ok(4) up sc(2,3,5) sc(4)[OF c0(3)] unfolding step tt
        by (simp add: on_roll_def console_ok_def roll_end_snoc)
    qed
  next
    case (Some x)
    then have y: "oc_cursor_y c + 1 = min (length (tt_lines t)) 3" using r by (auto simp: on_roll_def)
    have tt: "teletype_putc t 0x0A = t\<lparr>tt_carriage := None\<rparr>" using Some by (simp add: teletype_putc_def)
    have "oc_cursor_y c < 3" using y by linarith
    then show ?thesis using y c0 ok(4) down unfolding step tt by (simp add: on_roll_def console_ok_def)
  qed
qed

lemma on_roll_putc:
  assumes r: "on_roll t c"
  shows "on_roll (teletype_putc t ch) (oled_console_putc c ch)"
proof -
  consider "ch = 0x0D" | "ch = 0x0A" | "ch \<noteq> 0x0D" "ch \<noteq> 0x0A" "ch < 0x20 \<or> ch > 0x7E" | "\<not> (ch < 0x20 \<or> ch > 0x7E)" by blast
  then show ?thesis
  proof cases
    case 1
    then show ?thesis using r by (auto simp: teletype_putc_def oled_console_putc_def on_roll_def console_ok_def console_rows_def split: option.splits)
  next
    case 2
    then show ?thesis using on_roll_newline[OF r] by simp
  next
    case 3
    then show ?thesis using r by (simp add: teletype_putc_def oled_console_putc_def)
  next
    case 4
    define c1 where "c1 = oled_console_prepare_printable c"
    define p where "p = (oc_first_row c1 + oc_cursor_y c1) mod 3"
    obtain x where x: "tt_carriage (feed t) = Some x" "x < 21" using on_roll_prepare(2)[OF r] by blast
    have r1: "on_roll (feed t) c1" using on_roll_prepare(1)[OF r] by (simp add: c1_def)
    then have cx: "oc_cursor_x c1 = x" using x by (simp add: on_roll_def)
    have ne: "ch \<noteq> 0x0D" "ch \<noteq> 0x0A" using 4 by auto
    have "oled_console_putc c ch
        = (oled_console_mark_row (c1\<lparr>oc_cells := (oc_cells c1)[p := (oc_cells c1 ! p)[x := ch]]\<rparr>) (oc_cursor_y c1))\<lparr>oc_cursor_x := x + 1\<rparr>"
      using 4 ne cx by (simp add: oled_console_putc_def c1_def[symmetric] p_def[symmetric] Let_def oled_console_mark_row_def)
    then show ?thesis using on_roll_strike[OF r1 x(1,2), folded p_def] teletype_print_char[OF 4] by simp
  qed
qed

lemma on_roll_chars: "on_roll t c \<Longrightarrow> on_roll (foldl teletype_putc t s) (foldl oled_console_putc c s)"
  by (induction s arbitrary: t c) (simp_all add: on_roll_putc)

lemma on_roll_writes:
  "on_roll t c \<Longrightarrow> on_roll (foldl teletype_putc t (concat (map c_string ts))) (foldl (\<lambda>c s. oled_console_write c (Some s)) c ts)"
  by (induction ts arbitrary: t c) (simp_all add: on_roll_chars oled_console_write_def)

text \<open>
  C28: The console is a window on the end of an endless roll. After any sequence of writes
  to a cleared console, its three rows from the top are the last three lines that a teletype
  with lines of twenty-one columns prints for the same characters: lines wrap when the
  twenty-second character arrives, a finished line stays in view until the next one starts,
  and older lines leave at the top. The cursor is where the carriage is.
\<close>
theorem console_shows_last_lines:
  "on_roll (teletype_print (concat (map c_string ts))) (foldl (\<lambda>c s. oled_console_write c (Some s)) (oled_console_init c) ts)"
  unfolding teletype_print_def oled_console_init_def by (rule on_roll_writes[OF on_roll_clear])

section \<open>Which rows become dirty\<close>

text \<open>A changed row is marked, and no mark is lost.\<close>

definition marked :: "oled_console \<Rightarrow> oled_console \<Rightarrow> bool" where
  "marked c c' \<longleftrightarrow> (\<forall>k < 3. (bit (oc_dirty_rows c) k \<longrightarrow> bit (oc_dirty_rows c') k)
     \<and> (console_rows c' ! k \<noteq> console_rows c ! k \<longrightarrow> bit (oc_dirty_rows c') k))"

lemma marked_refl: "console_rows c' = console_rows c \<Longrightarrow> oc_dirty_rows c' = oc_dirty_rows c \<Longrightarrow> marked c c'"
  by (simp add: marked_def)

lemma marked_trans: "marked a b \<Longrightarrow> marked b c \<Longrightarrow> marked a c"
  unfolding marked_def by metis

lemma all_rows: "k < 3 \<Longrightarrow> bit oled_console_all_rows_mask k"
  by (auto simp: three oled_console_all_rows_mask_def page_bit_def bit_simps)

lemma marked_all: "oc_dirty_rows c' = oled_console_all_rows_mask \<Longrightarrow> marked c c'"
  by (simp add: marked_def all_rows)

lemma marked_putc:
  assumes r: "on_roll t c"
  shows "marked c (oled_console_putc c ch)"
proof -
  have scroll: "marked c c'" if "oc_dirty_rows c' = oc_dirty_rows (oled_console_scroll_one c0)" for c' c0
    using that by (intro marked_all) (simp add: oled_console_scroll_one_def Let_def)
  consider "ch = 0x0D \<or> ch = 0x0A" | "ch \<noteq> 0x0D" "ch \<noteq> 0x0A" "ch < 0x20 \<or> ch > 0x7E" | "\<not> (ch < 0x20 \<or> ch > 0x7E)" by blast
  then show ?thesis
  proof cases
    case 1
    have stay: "marked c c'" if "oc_cells c' = oc_cells c" "oc_first_row c' = oc_first_row c" "oc_dirty_rows c' = oc_dirty_rows c" for c'
      by (rule marked_refl[OF rows_frame[OF that(1,2)] that(3)])
    show ?thesis
    proof (cases "ch = 0x0A \<and> \<not> oc_cursor_y c < 3")
      case True
      then show ?thesis by (intro scroll[of _ "c\<lparr>oc_cursor_x := 0\<rparr>"]) (simp add: oled_console_putc_def Let_def)
    next
      case False
      then show ?thesis using 1 by (intro stay) (auto simp: oled_console_putc_def Let_def)
    qed
  next
    case 2
    then show ?thesis by (simp add: oled_console_putc_def marked_refl)
  next
    case 3
    define c1 where "c1 = oled_console_prepare_printable c"
    define p where "p = (oc_first_row c1 + oc_cursor_y c1) mod 3"
    define c2 where "c2 = c1\<lparr>oc_cells := (oc_cells c1)[p := (oc_cells c1 ! p)[oc_cursor_x c1 := ch]]\<rparr>"
    obtain x where x: "tt_carriage (feed t) = Some x" using on_roll_prepare(2)[OF r] by blast
    have r1: "on_roll (feed t) c1" using on_roll_prepare(1)[OF r] by (simp add: c1_def)
    then have c1: "length (oc_cells c1) = 3" "oc_first_row c1 < 3" "oc_cursor_y c1 < 3"
      using x by (auto simp: on_roll_def console_ok_def)
    have a: "marked c c1"
    proof (cases "oc_dirty_rows c1 = oled_console_all_rows_mask")
      case True
      then show ?thesis by (rule marked_all)
    next
      case False
      then have "oc_cells c1 = oc_cells c \<and> oc_first_row c1 = oc_first_row c \<and> oc_dirty_rows c1 = oc_dirty_rows c"
        by (auto simp: c1_def oled_console_prepare_printable_def Let_def oled_console_scroll_one_def split: if_splits)
      then show ?thesis by (intro marked_refl rows_frame) simp_all
    qed
    have e: "oled_console_putc c ch = (oled_console_mark_row c2 (oc_cursor_y c1))\<lparr>oc_cursor_x := oc_cursor_x c1 + 1\<rparr>"
      using 3 by (auto simp: oled_console_putc_def c1_def[symmetric] p_def[symmetric] c2_def Let_def oled_console_mark_row_def)
    have "console_rows (oled_console_putc c ch) = (console_rows c1)[oc_cursor_y c1 := (oc_cells c1 ! p)[oc_cursor_x c1 := ch]]"
    proof -
      have "console_rows (oled_console_putc c ch) = console_rows c2" unfolding e by (rule rows_frame) (simp_all add: oled_console_mark_row_def)
      then show ?thesis using rows_update[OF c1] by (simp add: c2_def p_def)
    qed
    moreover have "oc_dirty_rows (oled_console_putc c ch) = oc_dirty_rows c1 OR page_bit (oc_cursor_y c1)"
      using c1(3) unfolding e by (simp add: oled_console_mark_row_def c2_def)
    moreover have "k = j" if "xs[j := r] ! k \<noteq> xs ! k" for xs :: "bytes list" and r k j
      using that by (metis nth_list_update_neq)
    ultimately have "marked c1 (oled_console_putc c ch)"
      using c1(3) by (fastforce simp: marked_def bit_or_iff page_bit_bits)
    then show ?thesis using a by (rule marked_trans[rotated])
  qed
qed

lemma marked_chars: "on_roll t c \<Longrightarrow> marked c (foldl oled_console_putc c s)"
proof (induction s arbitrary: t c)
  case Nil
  then show ?case by (simp add: marked_refl)
next
  case (Cons ch s)
  show ?case using marked_trans[OF marked_putc[OF Cons.prems] Cons.IH[OF on_roll_putc[OF Cons.prems]]] by simp
qed

end
