(* ===== verification/Display_Selftest.thy ===== *)
theory Display_Selftest
  imports Oled_Teletype
begin

unbundle bit_operations_syntax

text \<open>
  The tests the firmware runs on itself at start-up: of the dirty regions
  (\<open>mono_fb_dirty_region_self_test\<close> of \<open>src/src/gfx/mono_fb.c\<close>), of the fast path of the text
  renderer (\<open>text_renderer_fast_path_self_test\<close> of \<open>src/src/gfx/text_renderer.c\<close>) and of the
  scrolling console (\<open>oled_console_scroll_self_test\<close> of \<open>src/src/kernel/oled_console.c\<close>).
  The framebuffer structures on the stack are arguments, with any contents. Every early
  return of 0 is a conjunct.
\<close>

section \<open>The tests\<close>

text \<open>\<open>mono_fb_dirty_span\<close> finds the given span.\<close>

definition span_is :: "mono_fb \<Rightarrow> nat \<Rightarrow> nat \<Rightarrow> nat \<Rightarrow> bool" where
  "span_is fb page a b \<longleftrightarrow> mono_fb_dirty_span fb page = Some (a, b)"

definition mono_fb_dirty_region_self_test :: "mono_fb \<Rightarrow> bool" where
  "mono_fb_dirty_region_self_test fb =
     (let fb0 = mono_fb_init fb (Some (replicate 32 0)) 16 16;
          fb1 = mono_fb_set_pixel fb0 3 2 False;
          fb2 = mono_fb_set_pixel fb1 3 2 True;
          fb3 = mono_fb_set_pixel fb2 9 7 True;
          fb4 = mono_fb_clear_dirty fb3 0x01;
          fb5 = mono_fb_clear fb4;
          fb6 = mono_fb_clear (mono_fb_clear_dirty fb5 0x01);
          fb7 = mono_fb_mark_all_dirty fb6
      in fb_dirty_pages fb1 = 0
       \<and> fb_dirty_pages fb2 = 0x01 \<and> span_is fb2 0 3 3
       \<and> span_is fb3 0 3 9
       \<and> fb_dirty_pages fb4 = 0 \<and> mono_fb_dirty_span fb4 0 = None
       \<and> fb_dirty_pages fb5 = 0x01 \<and> span_is fb5 0 3 9
       \<and> fb_dirty_pages fb6 = 0
       \<and> fb_dirty_pages fb7 = 0x03
       \<and> span_is fb7 0 0 15 \<and> span_is fb7 1 0 15)"

definition text_renderer_self_test_seed :: "nat \<Rightarrow> u8 \<Rightarrow> bytes" where
  "text_renderer_self_test_seed len salt = map (\<lambda>i. of_nat (i * 37) XOR (0x5A + salt)) [0..<len]"

definition text_renderer_self_test_equal :: "mono_fb \<Rightarrow> mono_fb \<Rightarrow> nat \<Rightarrow> bool" where
  "text_renderer_self_test_equal l r len = list_all (\<lambda>i. the (fb_data l) ! i = the (fb_data r) ! i) [0..<len]"

definition text_renderer_self_test_dirty_equal :: "mono_fb \<Rightarrow> mono_fb \<Rightarrow> bool" where
  "text_renderer_self_test_dirty_equal l r \<longleftrightarrow> fb_dirty_pages l = fb_dirty_pages r
     \<and> list_all (\<lambda>page. fb_dirty_min_x l ! page = fb_dirty_min_x r ! page \<and> fb_dirty_max_x l ! page = fb_dirty_max_x r ! page)
         [0..<MONO_FB_MAX_PAGES]"

record text_renderer_self_test_case =
  tc_clip :: mono_rect
  tc_x :: int
  tc_y :: int
  tc_c :: u8

definition test_case :: "int \<Rightarrow> int \<Rightarrow> int \<Rightarrow> int \<Rightarrow> int \<Rightarrow> int \<Rightarrow> u8 \<Rightarrow> text_renderer_self_test_case" where
  "test_case cx cy w h x y ch = \<lparr>tc_clip = \<lparr>r_x = cx, r_y = cy, r_width = w, r_height = h\<rparr>, tc_x = x, tc_y = y, tc_c = ch\<rparr>"

definition self_test_cases :: "text_renderer_self_test_case list" where
  "self_test_cases =
    [test_case 0 0 16 16 0 0 0x41, test_case 1 1 14 14 0 0 0x4D, test_case 1 1 14 14 10 8 0x49, test_case 1 1 14 14 12 8 0x52,
     test_case 0 8 16 8 5 8 0x5A, test_case 2 8 10 7 4 8 0x20, test_case 0 0 16 7 (-2) 0 0x47]"

definition self_test_run_case :: "mono_fb \<Rightarrow> mono_fb \<Rightarrow> nat \<Rightarrow> bool" where
  "self_test_run_case g f case_index =
     (let test = self_test_cases ! case_index; glyph = font5x7_glyph (tc_c test); salt = of_nat (case_index * 11);
          g0 = mono_fb_init g (Some (text_renderer_self_test_seed 32 salt)) 16 16;
          f0 = mono_fb_init f (Some (text_renderer_self_test_seed 32 salt)) 16 16
      in text_renderer_can_use_aligned_fast_path f0 (tc_y test) font5x7_metrics
       \<and> (let g1 = text_renderer_draw_cell_generic g0 (tc_clip test) (tc_x test) (tc_y test) glyph font5x7_metrics;
              f1 = text_renderer_draw_cell_aligned f0 (tc_clip test) (tc_x test) (tc_y test) glyph
          in text_renderer_self_test_equal g1 f1 32 \<and> text_renderer_self_test_dirty_equal g1 f1))"

definition text_renderer_fast_path_self_test :: "mono_fb \<Rightarrow> mono_fb \<Rightarrow> bool" where
  "text_renderer_fast_path_self_test g f \<longleftrightarrow>
     list_all (self_test_run_case g f) [0..<length self_test_cases]
   \<and> (let clip = \<lparr>r_x = 1, r_y = 1, r_width = 14, r_height = 14\<rparr>; glyph = font5x7_glyph 0x4E;
          g0 = mono_fb_init g (Some (text_renderer_self_test_seed 32 0x33)) 16 16;
          f0 = mono_fb_init f (Some (text_renderer_self_test_seed 32 0x33)) 16 16;
          g1 = text_renderer_draw_cell_generic g0 clip 4 5 glyph font5x7_metrics;
          f1 = text_renderer_draw_cell f0 clip 4 5 0x4E
      in text_renderer_self_test_equal g1 f1 32 \<and> text_renderer_self_test_dirty_equal g1 f1)"

text \<open>A cell of a logical row.\<close>

definition cell_at :: "oled_console \<Rightarrow> nat \<Rightarrow> nat \<Rightarrow> u8" where
  "cell_at c row column = oc_cells c ! ((oc_first_row c + row) mod OLED_CONSOLE_ROWS) ! column"

definition oled_console_scroll_self_test :: "oled_console \<Rightarrow> bool" where
  "oled_console_scroll_self_test c =
     (let c1 = oled_console_write_line (oled_console_init c) (Some [0x4F, 0x4E, 0x45, 0]);
          c2 = oled_console_write_line c1 (Some [0x54, 0x57, 0x4F, 0]);
          c3 = oled_console_write_line c2 (Some [0x54, 0x48, 0x52, 0x45, 0x45, 0]);
          c4 = oled_console_write_line c3 (Some [0x46, 0x4F, 0x55, 0x52, 0]);
          c5 = oled_console_putc c4 0x58
      in oc_first_row c4 = 1 \<and> oc_cursor_x c4 = 0 \<and> oc_cursor_y c4 = OLED_CONSOLE_ROWS
       \<and> cell_at c4 0 0 = 0x54 \<and> cell_at c4 0 1 = 0x57 \<and> cell_at c4 0 2 = 0x4F
       \<and> cell_at c4 1 0 = 0x54 \<and> cell_at c4 1 1 = 0x48 \<and> cell_at c4 1 2 = 0x52
       \<and> cell_at c4 2 0 = 0x46 \<and> cell_at c4 2 1 = 0x4F \<and> cell_at c4 2 2 = 0x55 \<and> cell_at c4 2 3 = 0x52
       \<and> oc_first_row c5 = 2 \<and> oc_cursor_y c5 = OLED_CONSOLE_ROWS - 1 \<and> oc_cursor_x c5 = 1
       \<and> cell_at c5 0 0 = 0x54 \<and> cell_at c5 0 1 = 0x48
       \<and> cell_at c5 1 0 = 0x46 \<and> cell_at c5 1 1 = 0x4F
       \<and> cell_at c5 2 0 = 0x58 \<and> cell_at c5 2 1 = 0x20
       \<and> oc_dirty_rows c5 = oled_console_all_rows_mask)"

section \<open>They pass\<close>

lemma init_any:
  assumes "length (fb_dirty_min_x fb) = 8" "length (fb_dirty_max_x fb) = 8"
  shows "mono_fb_init fb st w h = \<lparr>fb_data = st, fb_width = w, fb_height = h,
     fb_dirty_pages = 0, fb_dirty_min_x = replicate 8 0xFFFF, fb_dirty_max_x = replicate 8 0\<rparr>"
proof -
  obtain a0 a1 a2 a3 a4 a5 a6 a7 where a: "fb_dirty_min_x fb = [a0, a1, a2, a3, a4, a5, a6, a7]"
    using assms(1) by (auto simp: numeral_eq_Suc length_Suc_conv)
  obtain b0 b1 b2 b3 b4 b5 b6 b7 where b: "fb_dirty_max_x fb = [b0, b1, b2, b3, b4, b5, b6, b7]"
    using assms(2) by (auto simp: numeral_eq_Suc length_Suc_conv)
  show ?thesis
    by (cases fb) (use a b in \<open>simp add: mono_fb_init_def mono_fb_reset_span_def upt_rec numeral_eq_Suc\<close>)
qed

text \<open>The states of the framebuffer in the first test.\<close>

definition region_fb :: "u8 \<Rightarrow> u8 \<Rightarrow> u8 \<Rightarrow> u16 \<times> u16 \<Rightarrow> u16 \<times> u16 \<Rightarrow> mono_fb" where
  "region_fb d3 d9 pages a b = \<lparr>fb_data = Some ([0, 0, 0, d3, 0, 0, 0, 0, 0, d9, 0, 0, 0, 0, 0, 0] @ replicate 16 0), fb_width = 16, fb_height = 16,
     fb_dirty_pages = pages, fb_dirty_min_x = [fst a, fst b, 0xFFFF, 0xFFFF, 0xFFFF, 0xFFFF, 0xFFFF, 0xFFFF],
     fb_dirty_max_x = [snd a, snd b, 0, 0, 0, 0, 0, 0]\<rparr>"

abbreviation (input) clean :: "u16 \<times> u16" where "clean \<equiv> (0xFFFF, 0)"

lemmas region_defs = region_fb_def mono_fb_set_pixel_def mono_fb_write_masked_byte_def mono_fb_mark_page_x_def mono_fb_valid_def
  mono_fb_page_count_def page_bit_def mono_fb_dirty_span_def span_is_def

lemma list_update_numeral: "(x # xs)[numeral v := y] = x # xs[numeral v - 1 := y]"
  by (simp add: numeral_eq_Suc)

lemma upt8: "[0..<8] = [0, 1, 2, 3, 4, 5, 6, 7 :: nat]"
  by code_simp

lemma region_pixels:
  "mono_fb_set_pixel (region_fb 0 0 0 clean clean) 3 2 False = region_fb 0 0 0 clean clean"
  "mono_fb_set_pixel (region_fb 0 0 0 clean clean) 3 2 True = region_fb 4 0 1 (3, 3) clean"
  "mono_fb_set_pixel (region_fb 4 0 1 (3, 3) clean) 9 7 True = region_fb 4 0x80 1 (3, 9) clean"
  by (simp_all add: region_defs Let_def list_update_numeral nth_append)

lemma region_marks:
  "mono_fb_clear_dirty (region_fb d3 d9 1 (3, 9) clean) 0x01 = region_fb d3 d9 0 clean clean"
  "mono_fb_mark_all_dirty (region_fb 0 0 0 clean clean) = region_fb 0 0 3 (0, 15) (0, 15)"
  by (simp_all add: region_defs Let_def mono_fb_clear_dirty_def clear_dirty_page_def mono_fb_mark_all_dirty_def mark_dirty_page_def
      mono_fb_reset_span_def list_update_numeral upt8)

lemma region_clear:
  "mono_fb_clear (region_fb 4 0x80 0 clean clean) = region_fb 0 0 1 (3, 9) clean"
  "mono_fb_clear (region_fb 0 0 0 clean clean) = region_fb 0 0 0 clean clean"
proof -
  have p: "List.product [0..<2] [0..<16] = map (Pair 0) [0..<3] @ (0, 3) # map (Pair 0) [4..<9] @ (0, 9) # map (Pair 0) [10..<16] @ map (Pair (1 :: nat)) [0..<(16 :: nat)]"
    by code_simp
  have idle: "foldl clear_byte fb pxs = fb" if "\<forall>(q, x) \<in> set pxs. the (fb_data fb) ! (q * unat (fb_width fb) + x) = 0" for fb pxs
    using that by (induction pxs) (auto simp: clear_byte_def mono_fb_write_masked_byte_def Let_def)
  have z: "the (fb_data (region_fb d3 d9 pages a b)) ! k = (if k = 3 then d3 else if k = 9 then d9 else 0)" if "k < 32" for d3 d9 pages a b k
    using that by (auto simp: region_fb_def nth_append nth_Cons' )
  have w: "unat (fb_width (region_fb d3 d9 pages a b)) = 16" for d3 d9 pages a b by (simp add: region_fb_def)
  have c: "mono_fb_clear (region_fb d3 d9 pages a b) = foldl clear_byte (region_fb d3 d9 pages a b) (List.product [0..<2] [0..<16])" for d3 d9 pages a b
    by (simp add: mono_fb_clear_def region_defs del: upt_rec_numeral)
  have b: "clear_byte (region_fb 4 0x80 0 clean clean) (0, 3) = region_fb 0 0x80 1 (3, 3) clean"
    "clear_byte (region_fb 0 0x80 1 (3, 3) clean) (0, 9) = region_fb 0 0 1 (3, 9) clean"
    by (simp_all add: clear_byte_def region_defs Let_def list_update_numeral nth_append)
  have s: "foldl clear_byte (region_fb 4 0x80 0 clean clean) (map (Pair 0) [0..<3]) = region_fb 4 0x80 0 clean clean"
    "foldl clear_byte (region_fb 0 0x80 1 (3, 3) clean) (map (Pair 0) [4..<9]) = region_fb 0 0x80 1 (3, 3) clean"
    "foldl clear_byte (region_fb 0 0 1 (3, 9) clean) (map (Pair 0) [10..<16]) = region_fb 0 0 1 (3, 9) clean"
    "foldl clear_byte (region_fb 0 0 1 (3, 9) clean) (map (Pair 1) [0..<16]) = region_fb 0 0 1 (3, 9) clean"
    by (rule idle; auto simp: z w)+
  show "mono_fb_clear (region_fb 4 0x80 0 clean clean) = region_fb 0 0 1 (3, 9) clean"
    unfolding c p foldl_append foldl_Cons
    by (simp only: s b)
  show "mono_fb_clear (region_fb 0 0 0 clean clean) = region_fb 0 0 0 clean clean"
    unfolding c by (rule idle) (auto simp: z w)
qed

lemma region_spans:
  "span_is (region_fb 4 0 1 (3, 3) clean) 0 3 3" "span_is (region_fb 4 0x80 1 (3, 9) clean) 0 3 9"
  "mono_fb_dirty_span (region_fb 4 0x80 0 clean clean) 0 = None" "span_is (region_fb 0 0 1 (3, 9) clean) 0 3 9"
  "span_is (region_fb 0 0 3 (0, 15) (0, 15)) 0 0 15" "span_is (region_fb 0 0 3 (0, 15) (0, 15)) (Suc 0) 0 15"
  by (simp_all add: region_defs)

lemma dirty_region_test:
  assumes "length (fb_dirty_min_x fb) = 8" "length (fb_dirty_max_x fb) = 8"
  shows "mono_fb_dirty_region_self_test fb"
proof -
  have i: "mono_fb_init fb (Some (replicate 32 0)) 16 16 = region_fb 0 0 0 clean clean"
    unfolding init_any[OF assms] by code_simp
  have p: "fb_dirty_pages (region_fb d3 d9 pages a b) = pages" for d3 d9 pages a b by (simp add: region_fb_def)
  show ?thesis unfolding mono_fb_dirty_region_self_test_def Let_def i by (simp add: region_pixels region_marks region_clear region_spans p)
qed

lemma scroll_test: "oled_console_scroll_self_test c"
proof -
  have i: "oled_console_init c = \<lparr>oc_cells = replicate 3 (replicate 21 0x20), oc_first_row = 0, oc_cursor_x = 0, oc_cursor_y = 0,
      oc_dirty_rows = oled_console_all_rows_mask, \<dots> = oled_console.more c\<rparr>"
    by (simp add: oled_console_init_def oled_console_clear_def)
  show ?thesis unfolding oled_console_scroll_self_test_def i by code_simp
qed

text \<open>Every case of the text test is an instance of the equality of the two paths.\<close>

lemma equal_passes: "text_renderer_self_test_equal fb fb n \<and> text_renderer_self_test_dirty_equal fb fb"
  by (simp add: text_renderer_self_test_equal_def text_renderer_self_test_dirty_equal_def list_all_iff)

lemma fast_path_test:
  assumes "length (fb_dirty_min_x g) = 8" "length (fb_dirty_max_x g) = 8" "length (fb_dirty_min_x f) = 8" "length (fb_dirty_max_x f) = 8"
  shows "text_renderer_fast_path_self_test g f"
proof -
  have same: "mono_fb_init g st 16 16 = mono_fb_init f st 16 16" for st
    unfolding init_any[OF assms(1,2)] init_any[OF assms(3,4)] ..
  have ok: "fb_ok (mono_fb_init f (Some (text_renderer_self_test_seed 32 salt)) 16 16)" for salt
    unfolding init_any[OF assms(3,4)]
    by (simp add: fb_ok_def mono_fb_valid_def mono_fb_page_count_def span_ok_def text_renderer_self_test_seed_def)
  have fast: "text_renderer_can_use_aligned_fast_path (mono_fb_init f (Some st) 16 16) y font5x7_metrics \<longleftrightarrow> y = 0 \<or> y = 8"
    if "y \<in> {0, 5, 8}" for st y
    using that unfolding init_any[OF assms(3,4)] by (auto simp: text_renderer_can_use_aligned_fast_path_def font5x7_metrics_def)
  have ys: "tc_y (self_test_cases ! k) \<in> {0, 8}" if "k < length self_test_cases" for k
  proof -
    have "\<forall>t \<in> set self_test_cases. tc_y t \<in> {0, 8}" by (simp add: self_test_cases_def test_case_def)
    then show ?thesis using that nth_mem by blast
  qed
  have "self_test_run_case g f k" if "k < length self_test_cases" for k
  proof -
    have "text_renderer_can_use_aligned_fast_path (mono_fb_init f (Some st) 16 16) (tc_y (self_test_cases ! k)) font5x7_metrics" for st
      using ys[OF that] fast by auto
    then show ?thesis
      unfolding self_test_run_case_def Let_def same by (simp add: aligned_equals_generic[OF ok] equal_passes)
  qed
  moreover have "text_renderer_draw_cell (mono_fb_init f (Some st) 16 16) \<lparr>r_x = 1, r_y = 1, r_width = 14, r_height = 14\<rparr> 4 5 ch
      = text_renderer_draw_cell_generic (mono_fb_init f (Some st) 16 16) \<lparr>r_x = 1, r_y = 1, r_width = 14, r_height = 14\<rparr> 4 5 (font5x7_glyph ch) font5x7_metrics" for st ch
    using fast[of 5 st] by (simp add: text_renderer_draw_cell_def) (simp add: init_any[OF assms(3,4)])
  ultimately show ?thesis
    unfolding text_renderer_fast_path_self_test_def Let_def same by (simp add: list_all_iff equal_passes)
qed

text \<open>
  The self-tests of the display code pass: dirty regions grow, are cleared and are
  restored as the first test expects, the two drawing paths agree on every case of the
  second, and the console shows the lines the third one looks for.
\<close>
theorem display_self_tests_pass:
  assumes "\<forall>fb \<in> {fb0, g, f}. length (fb_dirty_min_x fb) = 8 \<and> length (fb_dirty_max_x fb) = 8"
  shows "mono_fb_dirty_region_self_test fb0 \<and> text_renderer_fast_path_self_test g f \<and> oled_console_scroll_self_test c"
  using assms dirty_region_test[of fb0] fast_path_test[of g f] scroll_test[of c] by simp

theorem display_self_tests_pass_witness:
  "mono_fb_dirty_region_self_test (blank_fb 0 0) \<and> text_renderer_fast_path_self_test (blank_fb 1 2) (blank_fb 3 4)
    \<and> oled_console_scroll_self_test \<lparr>oc_cells = [], oc_first_row = 7, oc_cursor_x = 7, oc_cursor_y = 7, oc_dirty_rows = 7\<rparr>"
  by (rule display_self_tests_pass) (simp add: blank_fb_eq)

end
