(* ===== verification/Application_Runtime.thy ===== *)
theory Application_Runtime
  imports Command_Service
begin

unbundle bit_operations_syntax

text \<open>
  The application runtime (\<open>src/src/kernel/application_runtime.c\<close>): a registry of
  applications with callbacks, at most one of which is the active owner of the display. The
  registry of the firmware is \<open>application_registry\<close>; the operations take the registry as an
  argument, so that callbacks that fail can be looked at, as the self-test of the code
  does with a failing stop. A null callback or a null snapshot of the services is \<open>None\<close>; the
  pointer to the runtime itself is never null.
\<close>

section \<open>Types\<close>

abbreviation (input) APPLICATION_RUNTIME_ABI_VERSION :: u16 where "APPLICATION_RUNTIME_ABI_VERSION \<equiv> 1"
abbreviation (input) APPLICATION_ID_SYSTEM_HOME :: u16 where "APPLICATION_ID_SYSTEM_HOME \<equiv> 1"
abbreviation (input) APPLICATION_ID_DEVICE_INFO :: u16 where "APPLICATION_ID_DEVICE_INFO \<equiv> 2"
abbreviation (input) APPLICATION_FLAG_SYSTEM :: u32 where "APPLICATION_FLAG_SYSTEM \<equiv> 1"
abbreviation (input) APPLICATION_EFFECT_VIEW_DIRTY :: u32 where "APPLICATION_EFFECT_VIEW_DIRTY \<equiv> 1"
abbreviation (input) APPLICATION_VIEW_ROWS :: nat where "APPLICATION_VIEW_ROWS \<equiv> 3"
abbreviation (input) APPLICATION_VIEW_COLUMNS :: nat where "APPLICATION_VIEW_COLUMNS \<equiv> 21"
abbreviation (input) APPLICATION_VIEW_STORAGE_COLUMNS :: nat where "APPLICATION_VIEW_STORAGE_COLUMNS \<equiv> 22"

datatype application_lifecycle_state =
    APPLICATION_STATE_REGISTERED | APPLICATION_STATE_STOPPED | APPLICATION_STATE_STARTING | APPLICATION_STATE_RUNNING
  | APPLICATION_STATE_BLOCKED | APPLICATION_STATE_STOPPING | APPLICATION_STATE_FAILED

record application_event =
  ae_type :: u16
  ae_source :: u16
  ae_value0 :: u32
  ae_value1 :: u32

record application_service_snapshot =
  sv_uptime_ms :: u32
  sv_displayed_minute :: u32
  sv_system_healthy :: u8
  sv_usb_configured :: u8
  sv_network_online :: u8

type_synonym application_view = "bytes list"

record application_descriptor =
  ad_id :: u16
  ad_abi_version :: u16
  ad_flags :: u32
  ad_name :: bytes
  ad_init :: "bool option"
  ad_start :: "(application_service_snapshot option \<Rightarrow> bool) option"
  ad_event :: "(application_event option \<Rightarrow> application_service_snapshot option \<Rightarrow> u32) option"
  ad_render :: "(application_view \<Rightarrow> application_service_snapshot option \<Rightarrow> bool \<times> application_view) option"
  ad_stop :: "(application_service_snapshot option \<Rightarrow> bool) option"

type_synonym registry = "application_descriptor list"

record application_runtime =
  rt_view :: application_view
  rt_staging_view :: application_view
  rt_fault_count :: u32
  rt_event_count :: u32
  rt_view_revision :: u32
  rt_last_event_value0 :: u32
  rt_last_event_value1 :: u32
  rt_active_id :: u16
  rt_last_event_type :: u16
  rt_last_event_source :: u16
  rt_states :: "application_lifecycle_state list"
  rt_initialized :: bool
  rt_view_dirty :: bool
  rt_render_pending :: bool

section \<open>Views\<close>

definition application_view_clear :: application_view where
  "application_view_clear = replicate APPLICATION_VIEW_ROWS (replicate APPLICATION_VIEW_STORAGE_COLUMNS 0)"

text \<open>The text is its bytes before the terminating zero; the row is written up to its width.\<close>

definition application_view_set_row :: "application_view \<Rightarrow> nat \<Rightarrow> bytes option \<Rightarrow> bool \<times> application_view" where
  "application_view_set_row view row txt = (case txt of None \<Rightarrow> (False, view) | Some t \<Rightarrow>
     if row \<ge> APPLICATION_VIEW_ROWS then (False, view)
     else let copied = take APPLICATION_VIEW_COLUMNS t @ drop (min (length t) APPLICATION_VIEW_COLUMNS) (view ! row)
       in if length t > APPLICATION_VIEW_COLUMNS then (False, view[row := copied])
          else (True, view[row := t @ replicate (APPLICATION_VIEW_STORAGE_COLUMNS - length t) 0]))"

definition application_view_equal :: "application_view \<Rightarrow> application_view \<Rightarrow> bool" where
  "application_view_equal l r =
     list_all (\<lambda>row. list_all (\<lambda>column. l ! row ! column = r ! row ! column) [0..<APPLICATION_VIEW_STORAGE_COLUMNS]) [0..<APPLICATION_VIEW_ROWS]"

definition application_view_copy :: "application_view \<Rightarrow> application_view" where
  "application_view_copy source =
     map (\<lambda>row. map (\<lambda>column. source ! row ! column) [0..<APPLICATION_VIEW_STORAGE_COLUMNS]) [0..<APPLICATION_VIEW_ROWS]"

section \<open>The built-in applications\<close>

definition application_builtin_start :: "application_service_snapshot option \<Rightarrow> bool" where
  "application_builtin_start services \<longleftrightarrow> services \<noteq> None"

definition application_builtin_event :: "application_event option \<Rightarrow> application_service_snapshot option \<Rightarrow> u32" where
  "application_builtin_event event services = (if event = None \<or> services = None then 0 else 0)"

definition application_builtin_stop :: "application_service_snapshot option \<Rightarrow> bool" where
  "application_builtin_stop services \<longleftrightarrow> services \<noteq> None"

text \<open>Three rows, up to the first that does not fit.\<close>

definition view_rows :: "application_view \<Rightarrow> bytes \<Rightarrow> bytes \<Rightarrow> bytes \<Rightarrow> bool \<times> application_view" where
  "view_rows view a b d =
     (case application_view_set_row view 0 (Some a) of (ok, v1) \<Rightarrow> if \<not> ok then (False, v1)
      else case application_view_set_row v1 1 (Some b) of (ok, v2) \<Rightarrow> if \<not> ok then (False, v2)
      else application_view_set_row v2 2 (Some d))"

definition application_system_home_render :: "application_view \<Rightarrow> application_service_snapshot option \<Rightarrow> bool \<times> application_view" where
  "application_system_home_render view services =
     (if services = None then (False, view)
      else view_rows application_view_clear (chars ''DEUS OS'') (chars ''DESKTOP'') (chars ''READY''))"

definition application_device_info_render :: "application_view \<Rightarrow> application_service_snapshot option \<Rightarrow> bool \<times> application_view" where
  "application_device_info_render view services =
     (if services = None then (False, view)
      else view_rows application_view_clear (chars ''DEUS OS'') (chars ''DEVICE INFO'') (chars ''STM32F103''))"

definition application_registry :: registry where
  "application_registry =
    [\<lparr>ad_id = APPLICATION_ID_SYSTEM_HOME, ad_abi_version = APPLICATION_RUNTIME_ABI_VERSION, ad_flags = APPLICATION_FLAG_SYSTEM,
      ad_name = chars ''system.home'', ad_init = Some True, ad_start = Some application_builtin_start,
      ad_event = Some application_builtin_event, ad_render = Some application_system_home_render, ad_stop = Some application_builtin_stop\<rparr>,
     \<lparr>ad_id = APPLICATION_ID_DEVICE_INFO, ad_abi_version = APPLICATION_RUNTIME_ABI_VERSION, ad_flags = APPLICATION_FLAG_SYSTEM,
      ad_name = chars ''device.info'', ad_init = Some True, ad_start = Some application_builtin_start,
      ad_event = Some application_builtin_event, ad_render = Some application_device_info_render, ad_stop = Some application_builtin_stop\<rparr>]"

section \<open>The runtime\<close>

definition application_counter_increment :: "u32 \<Rightarrow> u32" where
  "application_counter_increment counter = (if counter \<noteq> 0xFFFFFFFF then counter + 1 else counter)"

abbreviation (input) count_fault :: "application_runtime \<Rightarrow> application_runtime" where
  "count_fault rt \<equiv> rt\<lparr>rt_fault_count := application_counter_increment (rt_fault_count rt)\<rparr>"

abbreviation (input) set_state :: "application_runtime \<Rightarrow> nat \<Rightarrow> application_lifecycle_state \<Rightarrow> application_runtime" where
  "set_state rt index st \<equiv> rt\<lparr>rt_states := (rt_states rt)[index := st]\<rparr>"

text \<open>The first entry with the id, counted from \<open>index\<close>.\<close>

fun registry_index :: "registry \<Rightarrow> nat \<Rightarrow> u16 \<Rightarrow> nat option" where
  "registry_index [] index i = None"
| "registry_index (d # ds) index i = (if ad_id d = i then Some index else registry_index ds (index + 1) i)"

definition application_runtime_index_from_id :: "registry \<Rightarrow> u16 \<Rightarrow> nat option" where
  "application_runtime_index_from_id reg i = (if i = 0 then None else registry_index reg 0 i)"

definition application_runtime_registry_count :: "registry \<Rightarrow> nat" where
  "application_runtime_registry_count reg = length reg"

definition application_runtime_registry_at :: "registry \<Rightarrow> nat \<Rightarrow> application_descriptor option" where
  "application_runtime_registry_at reg index = (if index \<ge> application_runtime_registry_count reg then None else Some (reg ! index))"

definition application_runtime_find :: "registry \<Rightarrow> u16 \<Rightarrow> application_descriptor option" where
  "application_runtime_find reg i = map_option (\<lambda>index. reg ! index) (application_runtime_index_from_id reg i)"

fun application_runtime_state_name :: "application_lifecycle_state \<Rightarrow> bytes" where
  "application_runtime_state_name APPLICATION_STATE_REGISTERED = chars ''REGISTERED''"
| "application_runtime_state_name APPLICATION_STATE_STOPPED = chars ''STOPPED''"
| "application_runtime_state_name APPLICATION_STATE_STARTING = chars ''STARTING''"
| "application_runtime_state_name APPLICATION_STATE_RUNNING = chars ''RUNNING''"
| "application_runtime_state_name APPLICATION_STATE_BLOCKED = chars ''BLOCKED''"
| "application_runtime_state_name APPLICATION_STATE_STOPPING = chars ''STOPPING''"
| "application_runtime_state_name APPLICATION_STATE_FAILED = chars ''FAILED''"

definition application_runtime_render_active :: "registry \<Rightarrow> application_runtime \<Rightarrow> application_service_snapshot option \<Rightarrow> bool \<times> application_runtime" where
  "application_runtime_render_active reg rt services =
     (if services = None \<or> rt_active_id rt = 0 then (False, rt)
      else case application_runtime_index_from_id reg (rt_active_id rt) of None \<Rightarrow> (False, rt)
      | Some index \<Rightarrow>
         if rt_states rt ! index \<noteq> APPLICATION_STATE_RUNNING then (False, rt)
         else case ad_render (reg ! index) of None \<Rightarrow> (False, rt)
         | Some render \<Rightarrow>
            (case render application_view_clear services of (ok, candidate) \<Rightarrow>
               let rt1 = rt\<lparr>rt_staging_view := candidate\<rparr> in
               if \<not> ok
               then (False, (if \<not> rt_render_pending rt1 then count_fault rt1 else rt1)\<lparr>rt_render_pending := True\<rparr>)
               else let rt2 = rt1\<lparr>rt_render_pending := False\<rparr> in
                 (True, if \<not> application_view_equal (rt_view rt2) candidate
                    then rt2\<lparr>rt_view := application_view_copy candidate, rt_view_dirty := True,
                          rt_view_revision := application_counter_increment (rt_view_revision rt2)\<rparr>
                    else rt2)))"

text \<open>A null callback fails like one that returns 0.\<close>

definition callback_ok :: "(application_service_snapshot option \<Rightarrow> bool) option \<Rightarrow> application_service_snapshot option \<Rightarrow> bool" where
  "callback_ok cb services = (case cb of None \<Rightarrow> False | Some f \<Rightarrow> f services)"

definition application_runtime_start_home_fallback :: "registry \<Rightarrow> application_runtime \<Rightarrow> application_service_snapshot option \<Rightarrow> bool \<times> application_runtime" where
  "application_runtime_start_home_fallback reg rt services =
     (if services = None then (False, rt)
      else case application_runtime_index_from_id reg APPLICATION_ID_SYSTEM_HOME of None \<Rightarrow> (False, rt)
      | Some home_index \<Rightarrow>
         if rt_states rt ! home_index = APPLICATION_STATE_FAILED then (False, rt\<lparr>rt_active_id := 0\<rparr>)
         else let rt1 = set_state rt home_index APPLICATION_STATE_STARTING in
           if \<not> callback_ok (ad_start (reg ! home_index)) services
           then (False, count_fault ((set_state rt1 home_index APPLICATION_STATE_FAILED)\<lparr>rt_active_id := 0\<rparr>))
           else let rt2 = (set_state rt1 home_index APPLICATION_STATE_RUNNING)\<lparr>rt_active_id := APPLICATION_ID_SYSTEM_HOME\<rparr>
             in (True, snd (application_runtime_render_active reg rt2 services)))"

definition application_runtime_reset :: "registry \<Rightarrow> application_runtime" where
  "application_runtime_reset reg = \<lparr>rt_view = application_view_clear, rt_staging_view = application_view_clear, rt_fault_count = 0,
     rt_event_count = 0, rt_view_revision = 0, rt_last_event_value0 = 0, rt_last_event_value1 = 0, rt_active_id = 0,
     rt_last_event_type = 0, rt_last_event_source = 0, rt_states = replicate (length reg) APPLICATION_STATE_REGISTERED,
     rt_initialized = False, rt_view_dirty = False, rt_render_pending = False\<rparr>"

definition initialize_application :: "registry \<Rightarrow> application_runtime \<Rightarrow> nat \<Rightarrow> application_runtime" where
  "initialize_application reg rt index =
     (let rt1 = set_state rt index APPLICATION_STATE_REGISTERED in
      if ad_init (reg ! index) = None \<or> ad_init (reg ! index) = Some False
      then count_fault (set_state rt1 index APPLICATION_STATE_FAILED)
      else set_state rt1 index APPLICATION_STATE_STOPPED)"

definition application_runtime_initialize :: "registry \<Rightarrow> application_runtime \<Rightarrow> bool \<times> application_runtime" where
  "application_runtime_initialize reg rt =
     (if rt_initialized rt then (True, rt)
      else let rt1 = (foldl (initialize_application reg) rt [0..<length reg])\<lparr>rt_initialized := True\<rparr>
        in case application_runtime_index_from_id reg APPLICATION_ID_SYSTEM_HOME of None \<Rightarrow> (False, rt1)
           | Some home_index \<Rightarrow> (rt_states rt1 ! home_index = APPLICATION_STATE_STOPPED, rt1))"

definition application_runtime_view_get :: "application_runtime \<Rightarrow> application_view option" where
  "application_runtime_view_get rt = (if rt_active_id rt = 0 then None else Some (rt_view rt))"

definition application_runtime_view_consumed :: "application_runtime \<Rightarrow> application_runtime" where
  "application_runtime_view_consumed rt = rt\<lparr>rt_view_dirty := False\<rparr>"

definition application_runtime_stop_owner :: "application_runtime \<Rightarrow> nat \<Rightarrow>
    (application_service_snapshot option \<Rightarrow> bool) option \<Rightarrow> application_service_snapshot option \<Rightarrow> bool \<times> application_runtime" where
  "application_runtime_stop_owner rt current_index stop services =
     (let rt1 = set_state rt current_index APPLICATION_STATE_STOPPING in
      if \<not> callback_ok stop services
      then (False, count_fault (set_state rt1 current_index APPLICATION_STATE_FAILED))
      else (True, (set_state rt1 current_index APPLICATION_STATE_STOPPED)\<lparr>rt_active_id := 0\<rparr>))"

text \<open>The part of a start after the current owner has gone.\<close>

definition start_target :: "registry \<Rightarrow> application_runtime \<Rightarrow> u16 \<Rightarrow> nat \<Rightarrow> application_service_snapshot option \<Rightarrow> bool \<times> application_runtime" where
  "start_target reg rt i target_index services =
     (let rt1 = set_state rt target_index APPLICATION_STATE_STARTING in
      if \<not> callback_ok (ad_start (reg ! target_index)) services
      then let rt2 = count_fault (set_state rt1 target_index APPLICATION_STATE_FAILED)
        in (False, if i \<noteq> APPLICATION_ID_SYSTEM_HOME then snd (application_runtime_start_home_fallback reg rt2 services) else rt2)
      else let rt2 = (set_state rt1 target_index APPLICATION_STATE_RUNNING)\<lparr>rt_active_id := i\<rparr>
        in (True, snd (application_runtime_render_active reg rt2 services)))"

definition application_runtime_start :: "registry \<Rightarrow> application_runtime \<Rightarrow> u16 \<Rightarrow> application_service_snapshot option \<Rightarrow> bool \<times> application_runtime" where
  "application_runtime_start reg rt i services =
     (if services = None \<or> \<not> rt_initialized rt then (False, rt)
      else case application_runtime_index_from_id reg i of None \<Rightarrow> (False, rt)
      | Some target_index \<Rightarrow>
         if rt_active_id rt = i \<and> rt_states rt ! target_index = APPLICATION_STATE_RUNNING then (True, rt)
         else if rt_states rt ! target_index = APPLICATION_STATE_FAILED then (False, rt)
         else if rt_active_id rt \<noteq> 0
         then (case application_runtime_index_from_id reg (rt_active_id rt) of None \<Rightarrow> (False, rt)
               | Some current_index \<Rightarrow>
                  if rt_states rt ! current_index = APPLICATION_STATE_FAILED then (False, rt)
                  else case application_runtime_stop_owner rt current_index (ad_stop (reg ! current_index)) services of (ok, rt1) \<Rightarrow>
                    if \<not> ok then (False, rt1) else start_target reg rt1 i target_index services)
         else start_target reg rt i target_index services)"

definition application_runtime_stop :: "registry \<Rightarrow> application_runtime \<Rightarrow> application_service_snapshot option \<Rightarrow> bool \<times> application_runtime" where
  "application_runtime_stop reg rt services =
     (if services = None \<or> \<not> rt_initialized rt then (False, rt)
      else if rt_active_id rt = APPLICATION_ID_SYSTEM_HOME then (True, rt)
      else application_runtime_start reg rt APPLICATION_ID_SYSTEM_HOME services)"

definition application_runtime_dispatch_event :: "registry \<Rightarrow> application_runtime \<Rightarrow> application_event option \<Rightarrow>
    application_service_snapshot option \<Rightarrow> bool \<times> application_runtime" where
  "application_runtime_dispatch_event reg rt event services =
     (case event of None \<Rightarrow> (False, rt) | Some ev \<Rightarrow>
      if services = None \<or> \<not> rt_initialized rt \<or> rt_active_id rt = 0 then (False, rt)
      else case application_runtime_index_from_id reg (rt_active_id rt) of None \<Rightarrow> (False, rt)
      | Some index \<Rightarrow>
         if rt_states rt ! index \<noteq> APPLICATION_STATE_RUNNING then (False, rt)
         else case ad_event (reg ! index) of None \<Rightarrow> (False, rt)
         | Some handler \<Rightarrow>
            let rt1 = rt\<lparr>rt_last_event_type := ae_type ev, rt_last_event_source := ae_source ev, rt_last_event_value0 := ae_value0 ev,
                        rt_last_event_value1 := ae_value1 ev, rt_event_count := application_counter_increment (rt_event_count rt)\<rparr>;
                effects = handler event services;
                (effects1, rt2) = (if effects AND NOT APPLICATION_EFFECT_VIEW_DIRTY \<noteq> 0
                   then (effects AND APPLICATION_EFFECT_VIEW_DIRTY, count_fault rt1) else (effects, rt1))
            in if effects1 AND APPLICATION_EFFECT_VIEW_DIRTY \<noteq> 0 then application_runtime_render_active reg rt2 services
               else (True, rt2))"

definition application_runtime_service :: "registry \<Rightarrow> application_runtime \<Rightarrow> application_service_snapshot option \<Rightarrow> bool \<times> application_runtime" where
  "application_runtime_service reg rt services =
     (if services = None \<or> \<not> rt_initialized rt then (False, rt)
      else if rt_render_pending rt then application_runtime_render_active reg rt services
      else (True, rt))"

definition application_runtime_failing_stop :: "application_service_snapshot option \<Rightarrow> bool" where
  "application_runtime_failing_stop services = False"

definition application_runtime_stop_failure_self_test :: bool where
  "application_runtime_stop_failure_self_test =
     (let services = Some \<lparr>sv_uptime_ms = 0, sv_displayed_minute = 0, sv_system_healthy = 0, sv_usb_configured = 0, sv_network_online = 0\<rparr>;
          rt = (application_runtime_reset application_registry)\<lparr>rt_initialized := True, rt_active_id := APPLICATION_ID_DEVICE_INFO,
                 rt_states := [APPLICATION_STATE_RUNNING, APPLICATION_STATE_RUNNING]\<rparr>
      in case application_runtime_stop_owner rt 1 (Some application_runtime_failing_stop) services of (stopped, rt1) \<Rightarrow>
           if stopped then False
           else if rt_active_id rt1 \<noteq> APPLICATION_ID_DEVICE_INFO \<or> rt_states rt1 ! 1 \<noteq> APPLICATION_STATE_FAILED
                \<or> rt_states rt1 ! 0 \<noteq> APPLICATION_STATE_RUNNING \<or> rt_fault_count rt1 \<noteq> 1 then False
           else case application_runtime_start application_registry (set_state rt1 0 APPLICATION_STATE_STOPPED)
                       APPLICATION_ID_SYSTEM_HOME services of (started, rt2) \<Rightarrow>
             if started then False
             else rt_active_id rt2 = APPLICATION_ID_DEVICE_INFO \<and> rt_states rt2 ! 1 = APPLICATION_STATE_FAILED
                \<and> rt_states rt2 ! 0 = APPLICATION_STATE_STOPPED \<and> rt_fault_count rt2 = 1)"

lemma stop_failure_self_test_passes: "application_runtime_stop_failure_self_test"
  by code_simp

end
