(* ===== verification/Application_Lifecycle.thy ===== *)
theory Application_Lifecycle
  imports Application_Runtime
begin

unbundle bit_operations_syntax

text \<open>
  The lifecycle of the applications under any sequence of calls to the runtime of
  \<open>src/src/kernel/application_runtime.c\<close>, with any callbacks: one owner at most, no
  application left half-way, no failed application started again, and what a start does on
  each of its paths.
\<close>

section \<open>The registry\<close>

definition registry_ok :: "registry \<Rightarrow> bool" where
  "registry_ok reg \<longleftrightarrow> distinct (map ad_id reg) \<and> 0 \<notin> set (map ad_id reg) \<and> APPLICATION_ID_SYSTEM_HOME \<in> set (map ad_id reg)"

lemma registry_index_ge: "registry_index reg n i = Some k \<Longrightarrow> n \<le> k \<and> k < n + length reg \<and> ad_id (reg ! (k - n)) = i"
proof (induction reg n i rule: registry_index.induct)
  case (2 d ds n i)
  show ?case
  proof (cases "ad_id d = i")
    case True
    then show ?thesis using 2 by auto
  next
    case False
    then have a: "Suc n \<le> k" "k < Suc n + length ds" "ad_id (ds ! (k - Suc n)) = i" using 2 by auto
    then have "k - n = Suc (k - Suc n)" by simp
    then show ?thesis using a by simp
  qed
qed simp

lemma registry_index_none: "registry_index reg n i = None \<longleftrightarrow> i \<notin> set (map ad_id reg)"
  by (induction reg n i rule: registry_index.induct) auto

lemma index_from_id:
  assumes "registry_ok reg"
  shows "application_runtime_index_from_id reg i = Some k \<longleftrightarrow> k < length reg \<and> ad_id (reg ! k) = i"
proof
  assume "application_runtime_index_from_id reg i = Some k"
  then show "k < length reg \<and> ad_id (reg ! k) = i"
    using registry_index_ge[of reg 0 i k] by (auto simp: application_runtime_index_from_id_def split: if_splits)
next
  assume a: "k < length reg \<and> ad_id (reg ! k) = i"
  then have m: "i \<in> set (map ad_id reg)" by auto
  then have "i \<noteq> 0" using assms by (auto simp: registry_ok_def)
  moreover obtain j where j: "registry_index reg 0 i = Some j" using m registry_index_none[of reg 0 i] by (cases "registry_index reg 0 i") auto
  then have "j < length reg" "ad_id (reg ! j) = i" using registry_index_ge by fastforce+
  then have "j = k" using a assms unfolding registry_ok_def by (metis length_map nth_eq_iff_index_eq nth_map)
  ultimately show "application_runtime_index_from_id reg i = Some k" using j by (simp add: application_runtime_index_from_id_def)
qed

lemma index_known:
  assumes "registry_ok reg" "i \<in> set (map ad_id reg)"
  obtains k where "application_runtime_index_from_id reg i = Some k" "k < length reg" "ad_id (reg ! k) = i"
proof -
  from assms(2) obtain k where "k < length reg" "ad_id (reg ! k) = i" by (auto simp: in_set_conv_nth)
  then show thesis using that index_from_id[OF assms(1)] by blast
qed

lemma home_known:
  assumes "registry_ok reg"
  obtains h where "application_runtime_index_from_id reg 1 = Some h" "h < length reg" "ad_id (reg ! h) = 1"
  using index_known[OF assms, of 1] assms by (auto simp: registry_ok_def)

section \<open>The invariant\<close>

definition settled :: "application_lifecycle_state \<Rightarrow> bool" where
  "settled st \<longleftrightarrow> st \<in> {APPLICATION_STATE_STOPPED, APPLICATION_STATE_RUNNING, APPLICATION_STATE_FAILED}"

text \<open>Only the owner runs; an owner runs or has failed.\<close>

definition owner_ok :: "registry \<Rightarrow> application_lifecycle_state list \<Rightarrow> u16 \<Rightarrow> bool" where
  "owner_ok reg st active \<longleftrightarrow> length st = length reg
     \<and> (\<forall>k < length reg. settled (st ! k) \<and> (st ! k = APPLICATION_STATE_RUNNING \<longrightarrow> ad_id (reg ! k) = active))
     \<and> (active \<noteq> 0 \<longrightarrow> (\<exists>k < length reg. ad_id (reg ! k) = active \<and> st ! k \<noteq> APPLICATION_STATE_STOPPED))"

definition runtime_ok :: "registry \<Rightarrow> application_runtime \<Rightarrow> bool" where
  "runtime_ok reg rt \<longleftrightarrow> (if rt_initialized rt then owner_ok reg (rt_states rt) (rt_active_id rt)
     else rt_states rt = replicate (length reg) APPLICATION_STATE_REGISTERED \<and> rt_active_id rt = 0)"

text \<open>What only the views and the counters can change.\<close>

definition same_owner :: "application_runtime \<Rightarrow> application_runtime \<Rightarrow> bool" where
  "same_owner rt rt' \<longleftrightarrow> rt_states rt' = rt_states rt \<and> rt_active_id rt' = rt_active_id rt \<and> rt_initialized rt' = rt_initialized rt"

lemma same_owner_ok: "same_owner rt rt' \<Longrightarrow> runtime_ok reg rt \<Longrightarrow> runtime_ok reg rt'"
  by (simp add: same_owner_def runtime_ok_def)

lemma render_same_owner: "same_owner rt (snd (application_runtime_render_active reg rt services))"
  by (auto simp: application_runtime_render_active_def same_owner_def Let_def split: option.split prod.split)

lemma render_fields [simp]:
  "rt_states (snd (application_runtime_render_active reg rt services)) = rt_states rt"
  "rt_active_id (snd (application_runtime_render_active reg rt services)) = rt_active_id rt"
  "rt_initialized (snd (application_runtime_render_active reg rt services)) = rt_initialized rt"
  using render_same_owner[of rt reg services] by (simp_all add: same_owner_def)

lemma dispatch_same_owner: "same_owner rt (snd (application_runtime_dispatch_event reg rt event services))"
  by (auto simp: application_runtime_dispatch_event_def same_owner_def Let_def split: option.split)

lemma service_same_owner: "same_owner rt (snd (application_runtime_service reg rt services))"
  by (simp add: application_runtime_service_def same_owner_def)

section \<open>Stopping and starting\<close>

text \<open>No owner: every application is stopped or has failed.\<close>

definition idle :: "registry \<Rightarrow> application_lifecycle_state list \<Rightarrow> bool" where
  "idle reg st \<longleftrightarrow> length st = length reg \<and> (\<forall>k < length reg. settled (st ! k) \<and> st ! k \<noteq> APPLICATION_STATE_RUNNING)"

lemma idle_owner: "idle reg st \<Longrightarrow> owner_ok reg st 0"
  by (auto simp: idle_def owner_ok_def)

lemma idle_fail: "idle reg st \<Longrightarrow> idle reg (st[k := APPLICATION_STATE_FAILED])"
proof -
  assume i: "idle reg st"
  have "st[k := APPLICATION_STATE_FAILED] ! j = APPLICATION_STATE_FAILED \<or> st[k := APPLICATION_STATE_FAILED] ! j = st ! j" if "j < length st" for j
    using that by (cases "j = k") simp_all
  then show ?thesis using i unfolding idle_def by (metis application_lifecycle_state.distinct(35) insertCI length_list_update settled_def)
qed

lemma idle_run:
  assumes "idle reg st" "k < length reg" "registry_ok reg"
  shows "owner_ok reg (st[k := APPLICATION_STATE_RUNNING]) (ad_id (reg ! k))"
proof -
  have l: "length st = length reg" using assms(1) by (simp add: idle_def)
  have st: "(st[k := APPLICATION_STATE_RUNNING]) ! j = (if j = k then APPLICATION_STATE_RUNNING else st ! j)" if "j < length reg" for j
    using that l by (simp add: nth_list_update)
  then show ?thesis using assms(1,2) l unfolding owner_ok_def idle_def
    by (auto simp: settled_def intro!: exI[of _ k])
qed

text \<open>The states a failed or successful stop of the owner leaves.\<close>

lemma stop_owner_states:
  "application_runtime_stop_owner rt k stop services = (ok, rt') \<Longrightarrow>
    ok = callback_ok stop services \<and> rt_initialized rt' = rt_initialized rt
    \<and> rt_states rt' = (rt_states rt)[k := if ok then APPLICATION_STATE_STOPPED else APPLICATION_STATE_FAILED]
    \<and> rt_active_id rt' = (if ok then 0 else rt_active_id rt)"
  by (auto simp: application_runtime_stop_owner_def Let_def split: if_splits)

lemma fallback_states:
  assumes reg: "registry_ok reg" and i: "idle reg (rt_states rt)" "rt_active_id rt = 0"
  shows "owner_ok reg (rt_states (snd (application_runtime_start_home_fallback reg rt services))) (rt_active_id (snd (application_runtime_start_home_fallback reg rt services)))"
    "rt_initialized (snd (application_runtime_start_home_fallback reg rt services)) = rt_initialized rt"
    "k < length reg \<Longrightarrow> rt_states rt ! k = APPLICATION_STATE_FAILED \<Longrightarrow>
      rt_states (snd (application_runtime_start_home_fallback reg rt services)) ! k = APPLICATION_STATE_FAILED"
    "rt_active_id (snd (application_runtime_start_home_fallback reg rt services)) \<in> {0, 1}"
proof -
  obtain h where h: "application_runtime_index_from_id reg 1 = Some h" "h < length reg" "ad_id (reg ! h) = 1"
    using home_known[OF reg] .
  note run = idle_run[OF i(1) h(2) reg, unfolded h(3)]
  note fail = idle_owner[OF idle_fail[OF i(1)]]
  have l: "length (rt_states rt) = length reg" using i(1) by (simp add: idle_def)
  note d = application_runtime_start_home_fallback_def h(1)
  show "owner_ok reg (rt_states (snd (application_runtime_start_home_fallback reg rt services))) (rt_active_id (snd (application_runtime_start_home_fallback reg rt services)))"
    using run fail idle_owner[OF i(1)] i(2) by (simp add: d Let_def)
  show "rt_initialized (snd (application_runtime_start_home_fallback reg rt services)) = rt_initialized rt"
    by (simp add: d Let_def)
  show "k < length reg \<Longrightarrow> rt_states rt ! k = APPLICATION_STATE_FAILED \<Longrightarrow>
      rt_states (snd (application_runtime_start_home_fallback reg rt services)) ! k = APPLICATION_STATE_FAILED"
    using l by (cases "k = h") (simp_all add: d Let_def)
  show "rt_active_id (snd (application_runtime_start_home_fallback reg rt services)) \<in> {0, 1}"
    using i(2) by (simp add: d Let_def)
qed

text \<open>A start that finds nobody running.\<close>

lemma start_target_states:
  assumes reg: "registry_ok reg" and i: "idle reg (rt_states rt)" "rt_active_id rt = 0"
    and k: "k < length reg" and e: "start_target reg rt (ad_id (reg ! k)) k services = (ok, rt')"
  shows "owner_ok reg (rt_states rt') (rt_active_id rt')" "rt_initialized rt' = rt_initialized rt"
    "\<forall>j < length reg. rt_states rt ! j = APPLICATION_STATE_FAILED \<longrightarrow> j \<noteq> k \<longrightarrow> rt_states rt' ! j = APPLICATION_STATE_FAILED"
    "ok = callback_ok (ad_start (reg ! k)) services"
    "rt_states rt' ! k = (if ok then APPLICATION_STATE_RUNNING else APPLICATION_STATE_FAILED)"
    "if ok then rt_active_id rt' = ad_id (reg ! k) else rt_active_id rt' \<in> {0, 1}"
proof -
  have l: "length (rt_states rt) = length reg" using i(1) by (simp add: idle_def)
  define st where "st = (rt_states rt)[k := APPLICATION_STATE_FAILED]"
  define rt2 where "rt2 = count_fault (set_state (set_state rt k APPLICATION_STATE_STARTING) k APPLICATION_STATE_FAILED)"
  have rt2: "rt_states rt2 = st" "rt_active_id rt2 = 0" "rt_initialized rt2 = rt_initialized rt" using i(2) by (simp_all add: rt2_def st_def)
  have idle2: "idle reg (rt_states rt2)" unfolding rt2 st_def by (rule idle_fail[OF i(1)])
  note fb = fallback_states[OF reg idle2 rt2(2), where services = services]
  have both: "owner_ok reg (rt_states rt') (rt_active_id rt') \<and> rt_initialized rt' = rt_initialized rt
    \<and> (\<forall>j < length reg. rt_states rt ! j = APPLICATION_STATE_FAILED \<longrightarrow> j \<noteq> k \<longrightarrow> rt_states rt' ! j = APPLICATION_STATE_FAILED)
    \<and> ok = callback_ok (ad_start (reg ! k)) services
    \<and> rt_states rt' ! k = (if ok then APPLICATION_STATE_RUNNING else APPLICATION_STATE_FAILED)
    \<and> (if ok then rt_active_id rt' = ad_id (reg ! k) else rt_active_id rt' \<in> {0, 1})"
  proof (cases "callback_ok (ad_start (reg ! k)) services")
    case True
    then have eq: "ok" "rt' = snd (application_runtime_render_active reg ((set_state (set_state rt k APPLICATION_STATE_STARTING) k APPLICATION_STATE_RUNNING)
        \<lparr>rt_active_id := ad_id (reg ! k)\<rparr>) services)"
      using e by (auto simp: start_target_def Let_def)
    show ?thesis unfolding eq(2) using eq(1) True idle_run[OF i(1) k reg] k l by simp
  next
    case False
    then have eq: "\<not> ok" "rt' = (if ad_id (reg ! k) \<noteq> 1 then snd (application_runtime_start_home_fallback reg rt2 services) else rt2)"
      using e by (auto simp: start_target_def Let_def rt2_def)
    have st: "st ! k = APPLICATION_STATE_FAILED" "\<And>j. j \<noteq> k \<Longrightarrow> st ! j = rt_states rt ! j" using k l by (simp_all add: st_def)
    show ?thesis
    proof (cases "ad_id (reg ! k) = 1")
      case True
      then show ?thesis using eq False rt2 st idle_owner[OF idle2] by simp
    next
      case other: False
      then have eq2: "rt' = snd (application_runtime_start_home_fallback reg rt2 services)" using eq(2) by simp
      show ?thesis unfolding eq2 using eq(1) False fb st rt2 k by simp
    qed
  qed
  then show "owner_ok reg (rt_states rt') (rt_active_id rt')" "rt_initialized rt' = rt_initialized rt"
    "\<forall>j < length reg. rt_states rt ! j = APPLICATION_STATE_FAILED \<longrightarrow> j \<noteq> k \<longrightarrow> rt_states rt' ! j = APPLICATION_STATE_FAILED"
    "ok = callback_ok (ad_start (reg ! k)) services"
    "rt_states rt' ! k = (if ok then APPLICATION_STATE_RUNNING else APPLICATION_STATE_FAILED)"
    "if ok then rt_active_id rt' = ad_id (reg ! k) else rt_active_id rt' \<in> {0, 1}"
    by blast+
qed

text \<open>After the owner has stopped nobody runs.\<close>

lemma owner_stopped:
  assumes reg: "registry_ok reg" and o: "owner_ok reg st (ad_id (reg ! k))" and k: "k < length reg" and f: "f = APPLICATION_STATE_STOPPED"
  shows "idle reg (st[k := f])"
proof -
  have l: "length st = length reg" using o by (simp add: owner_ok_def)
  have "settled (st[k := f] ! j) \<and> st[k := f] ! j \<noteq> APPLICATION_STATE_RUNNING" if "j < length reg" for j
  proof (cases "j = k")
    case True
    then show ?thesis using k l f by (simp add: settled_def)
  next
    case False
    then have "ad_id (reg ! j) \<noteq> ad_id (reg ! k)"
      using reg that k unfolding registry_ok_def by (metis length_map nth_eq_iff_index_eq nth_map)
    then show ?thesis using o that False unfolding owner_ok_def by auto
  qed
  then show ?thesis using l by (simp add: idle_def)
qed

lemma owner_failed:
  assumes reg: "registry_ok reg" and o: "owner_ok reg st (ad_id (reg ! k))" and k: "k < length reg"
  shows "owner_ok reg (st[k := APPLICATION_STATE_FAILED]) (ad_id (reg ! k))"
proof -
  have l: "length st = length reg" using o by (simp add: owner_ok_def)
  have "st[k := APPLICATION_STATE_FAILED] ! j = (if j = k then APPLICATION_STATE_FAILED else st ! j)" if "j < length reg" for j
    using that l by (simp add: nth_list_update)
  then show ?thesis using o k l unfolding owner_ok_def by (auto simp: settled_def intro!: exI[of _ k])
qed

lemma no_owner_idle: "registry_ok reg \<Longrightarrow> owner_ok reg st 0 \<Longrightarrow> idle reg st"
  unfolding owner_ok_def idle_def registry_ok_def by (metis (no_types, lifting) length_map nth_map nth_mem)

text \<open>What a start does, on each of its paths.\<close>

definition start_outcome :: "registry \<Rightarrow> application_runtime \<Rightarrow> u16 \<Rightarrow> bool \<Rightarrow> application_runtime \<Rightarrow> bool" where
  "start_outcome reg rt i ok rt' \<longleftrightarrow>
     (if ok then \<exists>k < length reg. ad_id (reg ! k) = i \<and> rt_active_id rt' = i \<and> rt_states rt' ! k = APPLICATION_STATE_RUNNING
      else rt' = rt
        \<or> (\<exists>k < length reg. ad_id (reg ! k) = rt_active_id rt \<and> rt_active_id rt' = rt_active_id rt
              \<and> rt_states rt' = (rt_states rt)[k := APPLICATION_STATE_FAILED])
        \<or> (\<exists>k < length reg. ad_id (reg ! k) = i \<and> rt_states rt' ! k = APPLICATION_STATE_FAILED \<and> rt_active_id rt' \<in> {0, 1}))"

lemma start_states:
  assumes reg: "registry_ok reg" and r: "runtime_ok reg rt" and e: "application_runtime_start reg rt i services = (ok, rt')"
  shows "runtime_ok reg rt'" "rt_initialized rt' = rt_initialized rt" "start_outcome reg rt i ok rt'"
    "j < length reg \<Longrightarrow> rt_states rt ! j = APPLICATION_STATE_FAILED \<Longrightarrow> rt_states rt' ! j = APPLICATION_STATE_FAILED"
proof -
  have same: "runtime_ok reg rt' \<and> rt_initialized rt' = rt_initialized rt \<and> start_outcome reg rt i ok rt'
    \<and> (\<forall>j < length reg. rt_states rt ! j = APPLICATION_STATE_FAILED \<longrightarrow> rt_states rt' ! j = APPLICATION_STATE_FAILED)"
    if "rt' = rt" "ok \<Longrightarrow> \<exists>k < length reg. ad_id (reg ! k) = i \<and> rt_active_id rt' = i \<and> rt_states rt' ! k = APPLICATION_STATE_RUNNING"
    using that r by (auto simp: start_outcome_def)
  have "runtime_ok reg rt' \<and> rt_initialized rt' = rt_initialized rt \<and> start_outcome reg rt i ok rt'
    \<and> (\<forall>j < length reg. rt_states rt ! j = APPLICATION_STATE_FAILED \<longrightarrow> rt_states rt' ! j = APPLICATION_STATE_FAILED)"
  proof (cases "services = None \<or> \<not> rt_initialized rt \<or> application_runtime_index_from_id reg i = None")
    case True
    then have "ok = False \<and> rt' = rt" using e by (auto simp: application_runtime_start_def split: option.splits)
    then show ?thesis using same by blast
  next
    case False
    then obtain k where ki: "application_runtime_index_from_id reg i = Some k" by auto
    have k: "k < length reg" "ad_id (reg ! k) = i" using ki index_from_id[OF reg] by auto
    have init: "rt_initialized rt" "services \<noteq> None" using False by auto
    have o: "owner_ok reg (rt_states rt) (rt_active_id rt)" using r init by (simp add: runtime_ok_def)
    have l: "length (rt_states rt) = length reg" using o by (simp add: owner_ok_def)
    note e2 = e[unfolded application_runtime_start_def ki option.case]
    have target: "runtime_ok reg rt' \<and> rt_initialized rt' = rt_initialized rt \<and> start_outcome reg rt i ok rt'
      \<and> (\<forall>j < length reg. rt_states rt ! j = APPLICATION_STATE_FAILED \<longrightarrow> rt_states rt' ! j = APPLICATION_STATE_FAILED)"
      if t: "start_target reg rt1 i k services = (ok, rt')" "idle reg (rt_states rt1)" "rt_active_id rt1 = 0" "rt_initialized rt1"
        "\<forall>j < length reg. rt_states rt ! j = APPLICATION_STATE_FAILED \<longrightarrow> rt_states rt1 ! j = APPLICATION_STATE_FAILED"
        "rt_states rt ! k \<noteq> APPLICATION_STATE_FAILED" for rt1
      using start_target_states[OF reg t(2,3) k(1), of services ok rt'] t(1,4,5,6) k init(1)
      by (auto simp: runtime_ok_def start_outcome_def split: if_splits)
    consider (run) "rt_active_id rt = i" "rt_states rt ! k = APPLICATION_STATE_RUNNING"
      | (failed) "\<not> (rt_active_id rt = i \<and> rt_states rt ! k = APPLICATION_STATE_RUNNING)" "rt_states rt ! k = APPLICATION_STATE_FAILED"
      | (go) "\<not> (rt_active_id rt = i \<and> rt_states rt ! k = APPLICATION_STATE_RUNNING)" "rt_states rt ! k \<noteq> APPLICATION_STATE_FAILED" by blast
    then show ?thesis
    proof cases
      case run
      then have "ok \<and> rt' = rt" using e2 init by simp
      then show ?thesis using same run k by blast
    next
      case failed
      then have "\<not> ok \<and> rt' = rt" using e2 init by auto
      then show ?thesis using same by blast
    next
      case go
      show ?thesis
      proof (cases "rt_active_id rt = 0")
        case True
        then have "start_target reg rt i k services = (ok, rt')" using e2 init go by (auto split: if_splits)
        then show ?thesis using target[of rt] no_owner_idle[OF reg] o True init go by simp
      next
        case False
        then obtain c where c: "c < length reg" "ad_id (reg ! c) = rt_active_id rt" using o by (auto simp: owner_ok_def)
        then have ci: "application_runtime_index_from_id reg (rt_active_id rt) = Some c" using index_from_id[OF reg] by blast
        obtain sok rt1 where so: "application_runtime_stop_owner rt c (ad_stop (reg ! c)) services = (sok, rt1)" by fastforce
        note ss = stop_owner_states[OF so]
        have e3: "(ok, rt') = (if rt_states rt ! c = APPLICATION_STATE_FAILED then (False, rt)
            else if \<not> sok then (False, rt1) else start_target reg rt1 i k services)"
          using e2 init go False ci so by auto
        have keep: "rt_states rt1 ! j = APPLICATION_STATE_FAILED" if "rt_states rt ! c \<noteq> APPLICATION_STATE_FAILED" "rt_states rt ! j = APPLICATION_STATE_FAILED" for j
          using that ss l c(1) by (cases "j = c") auto
        show ?thesis
        proof (cases "rt_states rt ! c = APPLICATION_STATE_FAILED")
          case True
          then show ?thesis using e3 same by auto
        next
          case cf: False
          show ?thesis
          proof (cases sok)
            case True
            have "idle reg (rt_states rt1)" using owner_stopped[OF reg _ c(1)] o c(2) ss True by simp
            then show ?thesis using target[of rt1] e3 cf True ss init keep go by simp
          next
            case False
            then have eq: "\<not> ok" "rt' = rt1" using e3 cf by auto
            have "owner_ok reg (rt_states rt1) (rt_active_id rt1)" using owner_failed[OF reg _ c(1)] o c(2) ss False by simp
            then show ?thesis using eq ss False init keep cf c unfolding runtime_ok_def start_outcome_def by auto
          qed
        qed
      qed
    qed
  qed
  then show "runtime_ok reg rt'" "rt_initialized rt' = rt_initialized rt" "start_outcome reg rt i ok rt'"
    "j < length reg \<Longrightarrow> rt_states rt ! j = APPLICATION_STATE_FAILED \<Longrightarrow> rt_states rt' ! j = APPLICATION_STATE_FAILED" by blast+
qed

section \<open>Initialization\<close>

lemma initialize_each:
  "length (rt_states rt) = length reg \<Longrightarrow> n \<le> length reg \<Longrightarrow>
    length (rt_states (foldl (initialize_application reg) rt [0..<n])) = length reg
    \<and> rt_active_id (foldl (initialize_application reg) rt [0..<n]) = rt_active_id rt
    \<and> (\<forall>k < n. rt_states (foldl (initialize_application reg) rt [0..<n]) ! k
         = (if ad_init (reg ! k) = Some True then APPLICATION_STATE_STOPPED else APPLICATION_STATE_FAILED))"
proof (induction n)
  case 0
  then show ?case by simp
next
  case (Suc n)
  define h where "h = foldl (initialize_application reg) rt [0..<n]"
  have b: "ad_init d = None \<or> ad_init d = Some False \<longleftrightarrow> ad_init d \<noteq> Some True" for d :: application_descriptor
    by (cases "ad_init d") auto
  have e: "foldl (initialize_application reg) rt [0..<Suc n] = initialize_application reg h n" by (simp add: h_def)
  note ih = Suc.IH[OF Suc.prems(1), folded h_def]
  show ?case unfolding e using ih Suc.prems
    by (auto simp: initialize_application_def b Let_def nth_list_update less_Suc_eq)
qed

lemma initialize_ok:
  assumes "registry_ok reg" "runtime_ok reg rt"
  shows "runtime_ok reg (snd (application_runtime_initialize reg rt))"
    "rt_initialized (snd (application_runtime_initialize reg rt))"
    "rt_initialized rt \<Longrightarrow> snd (application_runtime_initialize reg rt) = rt"
proof -
  obtain h where h: "application_runtime_index_from_id reg 1 = Some h" using home_known[OF assms(1)] by blast
  show "rt_initialized rt \<Longrightarrow> snd (application_runtime_initialize reg rt) = rt" by (simp add: application_runtime_initialize_def)
  show "rt_initialized (snd (application_runtime_initialize reg rt))" by (simp add: application_runtime_initialize_def h Let_def)
  show "runtime_ok reg (snd (application_runtime_initialize reg rt))"
  proof (cases "rt_initialized rt")
    case True
    then show ?thesis using assms(2) by (simp add: application_runtime_initialize_def)
  next
    case False
    then have s: "length (rt_states rt) = length reg" "rt_active_id rt = 0" using assms(2) by (simp_all add: runtime_ok_def)
    note i = initialize_each[OF s(1) order_refl]
    have "idle reg (rt_states (foldl (initialize_application reg) rt [0..<length reg]))"
      using i by (simp add: idle_def settled_def)
    from idle_owner[OF this] i s(2) False show ?thesis by (simp add: application_runtime_initialize_def h Let_def runtime_ok_def)
  qed
qed

section \<open>Sequences of calls\<close>

text \<open>A call to the runtime; every call but the first two comes with its snapshot of the services.\<close>

datatype runtime_call =
    Call_Initialize
  | Call_View_Consumed
  | Call_Start u16 "application_service_snapshot option"
  | Call_Stop "application_service_snapshot option"
  | Call_Event "application_event option" "application_service_snapshot option"
  | Call_Service "application_service_snapshot option"

fun runtime_step :: "registry \<Rightarrow> application_runtime \<Rightarrow> runtime_call \<Rightarrow> application_runtime" where
  "runtime_step reg rt Call_Initialize = snd (application_runtime_initialize reg rt)"
| "runtime_step reg rt Call_View_Consumed = application_runtime_view_consumed rt"
| "runtime_step reg rt (Call_Start i sv) = snd (application_runtime_start reg rt i sv)"
| "runtime_step reg rt (Call_Stop sv) = snd (application_runtime_stop reg rt sv)"
| "runtime_step reg rt (Call_Event ev sv) = snd (application_runtime_dispatch_event reg rt ev sv)"
| "runtime_step reg rt (Call_Service sv) = snd (application_runtime_service reg rt sv)"

definition runtime_run :: "registry \<Rightarrow> runtime_call list \<Rightarrow> application_runtime" where
  "runtime_run reg cs = foldl (runtime_step reg) (application_runtime_reset reg) cs"

lemma step_ok:
  assumes reg: "registry_ok reg" and r: "runtime_ok reg rt"
  shows "runtime_ok reg (runtime_step reg rt c)"
    "k < length reg \<Longrightarrow> rt_states rt ! k = APPLICATION_STATE_FAILED \<Longrightarrow> rt_states (runtime_step reg rt c) ! k = APPLICATION_STATE_FAILED"
proof -
  have start: "runtime_ok reg (snd (application_runtime_start reg rt i sv))"
    "k < length reg \<Longrightarrow> rt_states rt ! k = APPLICATION_STATE_FAILED \<Longrightarrow> rt_states (snd (application_runtime_start reg rt i sv)) ! k = APPLICATION_STATE_FAILED"
    for i sv
    using start_states(1,4)[OF reg r, of i sv] by (cases "application_runtime_start reg rt i sv"; simp)+
  have stop: "snd (application_runtime_stop reg rt sv) \<in> {rt, snd (application_runtime_start reg rt 1 sv)}" for sv
    by (simp add: application_runtime_stop_def)
  have same: "same_owner rt (runtime_step reg rt c)" if "c \<notin> {Call_Initialize}" "\<forall>i sv. c \<noteq> Call_Start i sv" "\<forall>sv. c \<noteq> Call_Stop sv"
    using that by (cases c) (simp_all add: dispatch_same_owner service_same_owner, simp add: same_owner_def application_runtime_view_consumed_def)
  have init: "rt_states (snd (application_runtime_initialize reg rt)) ! k = APPLICATION_STATE_FAILED"
    if "k < length reg" "rt_states rt ! k = APPLICATION_STATE_FAILED"
  proof -
    have "rt_initialized rt" using that r by (auto simp: runtime_ok_def split: if_splits)
    then show ?thesis using initialize_ok(3)[OF reg r] that by simp
  qed
  show "runtime_ok reg (runtime_step reg rt c)"
  proof (cases c)
    case (Call_Stop sv)
    then show ?thesis using stop[of sv] start(1)[of 1 sv] r by auto
  qed (use start(1) initialize_ok(1)[OF reg r] same_owner_ok[OF same r] in simp_all)
  show "rt_states (runtime_step reg rt c) ! k = APPLICATION_STATE_FAILED" if a: "k < length reg" "rt_states rt ! k = APPLICATION_STATE_FAILED"
  proof (cases c)
    case (Call_Stop sv)
    then show ?thesis using stop[of sv] start(2)[OF a, of 1 sv] a by auto
  qed (use start(2)[OF a] init[OF a] same a in \<open>simp_all add: same_owner_def\<close>)
qed

lemma run_ok: "registry_ok reg \<Longrightarrow> runtime_ok reg rt \<Longrightarrow> runtime_ok reg (foldl (runtime_step reg) rt cs)"
  by (induction cs arbitrary: rt) (simp_all add: step_ok)

lemma reset_ok: "runtime_ok reg (application_runtime_reset reg)"
  by (simp add: runtime_ok_def application_runtime_reset_def)

lemma run_failed:
  "registry_ok reg \<Longrightarrow> runtime_ok reg rt \<Longrightarrow> k < length reg \<Longrightarrow> rt_states rt ! k = APPLICATION_STATE_FAILED \<Longrightarrow>
    rt_states (foldl (runtime_step reg) rt cs) ! k = APPLICATION_STATE_FAILED"
  by (induction cs arbitrary: rt) (simp_all add: step_ok)

text \<open>
  C22: Ownership of the display. Whatever is called in whatever order and however the callbacks
  answer, after the initialization every application is stopped, running or failed, at most one
  runs, that one is the active owner, and an active owner runs or has failed; and an
  application that has failed stays failed through every later call.
\<close>
theorem one_owner_at_most:
  assumes "registry_ok reg" "rt_initialized (runtime_run reg cs)"
  shows "owner_ok reg (rt_states (runtime_run reg cs)) (rt_active_id (runtime_run reg cs))
    \<and> (\<forall>k j. k < length reg \<and> j < length reg \<and> rt_states (runtime_run reg cs) ! k = APPLICATION_STATE_RUNNING
         \<and> rt_states (runtime_run reg cs) ! j = APPLICATION_STATE_RUNNING \<longrightarrow> k = j)
    \<and> (\<forall>k < length reg. rt_states (runtime_run reg cs) ! k = APPLICATION_STATE_FAILED \<longrightarrow>
         rt_states (runtime_run reg (cs @ ds)) ! k = APPLICATION_STATE_FAILED)"
proof -
  have r: "runtime_ok reg (runtime_run reg cs)" unfolding runtime_run_def by (rule run_ok[OF assms(1) reset_ok])
  then have o: "owner_ok reg (rt_states (runtime_run reg cs)) (rt_active_id (runtime_run reg cs))" using assms(2) by (simp add: runtime_ok_def)
  have "k = j" if "k < length reg" "j < length reg" "rt_states (runtime_run reg cs) ! k = APPLICATION_STATE_RUNNING"
    "rt_states (runtime_run reg cs) ! j = APPLICATION_STATE_RUNNING" for k j
  proof -
    have "ad_id (reg ! k) = ad_id (reg ! j)" using o that by (simp add: owner_ok_def)
    then show ?thesis using assms(1) that(1,2) unfolding registry_ok_def by (metis length_map nth_eq_iff_index_eq nth_map)
  qed
  moreover have "runtime_run reg (cs @ ds) = foldl (runtime_step reg) (runtime_run reg cs) ds" by (simp add: runtime_run_def)
  ultimately show ?thesis using o run_failed[OF assms(1) r] by simp
qed

text \<open>
  The result of a start. It returns 1 only with the requested application running as the
  active owner. It returns 0 in one of three ways: nothing has changed; the owner refused to
  stop, has failed, and keeps the ownership, with nothing else touched; or the requested
  application did not start, has failed, and the home application or nobody is the owner.
\<close>
theorem start_result:
  assumes "registry_ok reg" "application_runtime_start reg (runtime_run reg cs) i services = (ok, rt')"
  shows "start_outcome reg (runtime_run reg cs) i ok rt'"
proof -
  have "runtime_ok reg (runtime_run reg cs)" unfolding runtime_run_def by (rule run_ok[OF assms(1) reset_ok])
  from start_states(3)[OF assms(1) this assms(2)] show ?thesis .
qed

section \<open>Instances\<close>

definition demo_services :: "application_service_snapshot option" where
  "demo_services = Some \<lparr>sv_uptime_ms = 0, sv_displayed_minute = 0, sv_system_healthy = 1, sv_usb_configured = 0, sv_network_online = 0\<rparr>"

lemma application_registry_ok: "registry_ok application_registry"
  by (simp add: registry_ok_def application_registry_def)

text \<open>The registry with a device information application that does not stop.\<close>

definition stuck_registry :: registry where
  "stuck_registry = [application_registry ! 0, (application_registry ! 1)\<lparr>ad_stop := Some application_runtime_failing_stop\<rparr>]"

theorem one_owner_at_most_witness:
  "rt_active_id (runtime_run stuck_registry [Call_Initialize, Call_Start 2 demo_services]) = 2
    \<and> owner_ok stuck_registry (rt_states (runtime_run stuck_registry [Call_Initialize, Call_Start 2 demo_services])) 2
    \<and> rt_states (runtime_run stuck_registry ([Call_Initialize, Call_Start 2 demo_services, Call_Start 1 demo_services] @ [Call_Start 2 demo_services])) ! 1
        = APPLICATION_STATE_FAILED"
proof -
  have reg: "registry_ok stuck_registry" by (simp add: registry_ok_def stuck_registry_def application_registry_def)
  have run: "rt_initialized (runtime_run stuck_registry [Call_Initialize, Call_Start 2 demo_services])"
    "rt_active_id (runtime_run stuck_registry [Call_Initialize, Call_Start 2 demo_services]) = 2" by code_simp+
  have stuck: "rt_initialized (runtime_run stuck_registry [Call_Initialize, Call_Start 2 demo_services, Call_Start 1 demo_services])"
    "rt_states (runtime_run stuck_registry [Call_Initialize, Call_Start 2 demo_services, Call_Start 1 demo_services]) ! 1 = APPLICATION_STATE_FAILED"
    by code_simp+
  have "1 < length stuck_registry" by (simp add: stuck_registry_def)
  then show ?thesis
    using run stuck one_owner_at_most[OF reg run(1), of "[]"] one_owner_at_most[OF reg stuck(1), of "[Call_Start 2 demo_services]"] by simp
qed

theorem start_result_witness:
  "let (ok, rt') = application_runtime_start stuck_registry (runtime_run stuck_registry [Call_Initialize, Call_Start 2 demo_services]) 1 demo_services
   in \<not> ok \<and> rt_active_id rt' = 2 \<and> rt_states rt' ! 1 = APPLICATION_STATE_FAILED
      \<and> start_outcome stuck_registry (runtime_run stuck_registry [Call_Initialize, Call_Start 2 demo_services]) 1 ok rt'"
proof -
  have reg: "registry_ok stuck_registry" by (simp add: registry_ok_def stuck_registry_def application_registry_def)
  obtain ok rt' where e: "application_runtime_start stuck_registry (runtime_run stuck_registry [Call_Initialize, Call_Start 2 demo_services]) 1 demo_services
      = (ok, rt')" by fastforce
  have "let (ok, rt') = application_runtime_start stuck_registry (runtime_run stuck_registry [Call_Initialize, Call_Start 2 demo_services]) 1 demo_services
    in \<not> ok \<and> rt_active_id rt' = 2 \<and> rt_states rt' ! 1 = APPLICATION_STATE_FAILED" by code_simp
  then show ?thesis using e start_result[OF reg e] by simp
qed

end
