(* ===== verification/Application_Bridge.thy ===== *)
theory Application_Bridge
  imports Application_Lifecycle Oled_Teletype
begin

unbundle bit_operations_syntax

text \<open>
  The bridge between the application runtime and the system
  (\<open>src/src/kernel/application_runtime_bridge.c\<close>): it turns changes of the services into
  events and copies the view of the active application into the console.
\<close>

section \<open>The code\<close>

abbreviation (input) APPLICATION_EVENT_RUNTIME_READY :: u16 where "APPLICATION_EVENT_RUNTIME_READY \<equiv> 1"
abbreviation (input) APPLICATION_EVENT_UPTIME_MINUTE_CHANGED :: u16 where "APPLICATION_EVENT_UPTIME_MINUTE_CHANGED \<equiv> 2"
abbreviation (input) APPLICATION_EVENT_SYSTEM_HEALTH_CHANGED :: u16 where "APPLICATION_EVENT_SYSTEM_HEALTH_CHANGED \<equiv> 3"
abbreviation (input) APPLICATION_EVENT_USB_STATE_CHANGED :: u16 where "APPLICATION_EVENT_USB_STATE_CHANGED \<equiv> 4"
abbreviation (input) APPLICATION_EVENT_NETWORK_STATE_CHANGED :: u16 where "APPLICATION_EVENT_NETWORK_STATE_CHANGED \<equiv> 5"
abbreviation (input) APPLICATION_EVENT_SOURCE_RUNTIME :: u16 where "APPLICATION_EVENT_SOURCE_RUNTIME \<equiv> 1"
abbreviation (input) APPLICATION_EVENT_SOURCE_TIME :: u16 where "APPLICATION_EVENT_SOURCE_TIME \<equiv> 2"
abbreviation (input) APPLICATION_EVENT_SOURCE_SYSTEM :: u16 where "APPLICATION_EVENT_SOURCE_SYSTEM \<equiv> 3"
abbreviation (input) APPLICATION_EVENT_SOURCE_USB :: u16 where "APPLICATION_EVENT_SOURCE_USB \<equiv> 4"
abbreviation (input) APPLICATION_EVENT_SOURCE_NETWORK :: u16 where "APPLICATION_EVENT_SOURCE_NETWORK \<equiv> 5"

text \<open>The static variables of the file.\<close>

record application_bridge =
  br_runtime :: application_runtime
  br_last_service_snapshot :: application_service_snapshot
  br_service_snapshot_valid :: bool
  br_ready_event_sent :: bool

record application_runtime_bridge_status_t =
  bs_fault_count :: u32
  bs_event_count :: u32
  bs_view_revision :: u32
  bs_active_id :: u16
  bs_last_event_type :: u16
  bs_last_event_source :: u16

definition application_runtime_bridge_snapshot_clear :: application_service_snapshot where
  "application_runtime_bridge_snapshot_clear =
     \<lparr>sv_uptime_ms = 0, sv_displayed_minute = 0, sv_system_healthy = 0, sv_usb_configured = 0, sv_network_online = 0\<rparr>"

definition application_runtime_bridge_dispatch_event :: "registry \<Rightarrow> application_bridge \<Rightarrow> u16 \<Rightarrow> u16 \<Rightarrow> u32 \<Rightarrow> u32 \<Rightarrow>
    application_service_snapshot option \<Rightarrow> bool \<times> application_bridge" where
  "application_runtime_bridge_dispatch_event reg b type source v0 v1 services =
     (if services = None then (False, b)
      else case application_runtime_dispatch_event reg (br_runtime b)
          (Some \<lparr>ae_type = type, ae_source = source, ae_value0 = v0, ae_value1 = v1\<rparr>) services of (ok, rt) \<Rightarrow> (ok, b\<lparr>br_runtime := rt\<rparr>))"

definition application_runtime_bridge_reset :: "registry \<Rightarrow> application_bridge" where
  "application_runtime_bridge_reset reg = \<lparr>br_runtime = application_runtime_reset reg,
     br_last_service_snapshot = application_runtime_bridge_snapshot_clear, br_service_snapshot_valid = False, br_ready_event_sent = False\<rparr>"

definition application_runtime_bridge_initialize :: "registry \<Rightarrow> application_bridge \<Rightarrow> bool \<times> application_bridge" where
  "application_runtime_bridge_initialize reg b =
     (case application_runtime_initialize reg (br_runtime b) of (ok, rt) \<Rightarrow> (ok, b\<lparr>br_runtime := rt\<rparr>))"

text \<open>An event for a field that differs from the last snapshot; nothing otherwise.\<close>

definition bridge_report :: "registry \<Rightarrow> u16 \<Rightarrow> u16 \<Rightarrow> u32 \<Rightarrow> u32 \<Rightarrow> application_service_snapshot option \<Rightarrow>
    bool \<times> application_bridge \<Rightarrow> bool \<times> application_bridge" where
  "bridge_report reg type source now before services st =
     (case st of (ok, b) \<Rightarrow> if \<not> ok then (False, b)
        else if now \<noteq> before then application_runtime_bridge_dispatch_event reg b type source now before services
        else (True, b))"

definition application_runtime_bridge_service :: "registry \<Rightarrow> application_bridge \<Rightarrow> application_service_snapshot option \<Rightarrow> bool \<times> application_bridge" where
  "application_runtime_bridge_service reg b services =
     (case services of None \<Rightarrow> (False, b) | Some now \<Rightarrow>
      if \<not> rt_initialized (br_runtime b) then (False, b)
      else case (if rt_active_id (br_runtime b) = 0
                 then case application_runtime_start reg (br_runtime b) APPLICATION_ID_SYSTEM_HOME services of (ok, rt) \<Rightarrow> (ok, b\<lparr>br_runtime := rt\<rparr>)
                 else (True, b)) of (started, b1) \<Rightarrow>
      if \<not> started then (False, b1)
      else case (if \<not> br_ready_event_sent b1
                 then case application_runtime_bridge_dispatch_event reg b1 APPLICATION_EVENT_RUNTIME_READY APPLICATION_EVENT_SOURCE_RUNTIME
                        (ucast (rt_active_id (br_runtime b1))) 0 services of (ok, b2) \<Rightarrow> (ok, if ok then b2\<lparr>br_ready_event_sent := True\<rparr> else b2)
                 else (True, b1)) of (ready, b2) \<Rightarrow>
      if \<not> ready then (False, b2)
      else case (if br_service_snapshot_valid b2
                 then let last = br_last_service_snapshot b2;
                          s1 = bridge_report reg APPLICATION_EVENT_UPTIME_MINUTE_CHANGED APPLICATION_EVENT_SOURCE_TIME
                                 (sv_displayed_minute now) (sv_displayed_minute last) services (True, b2);
                          s2 = bridge_report reg APPLICATION_EVENT_SYSTEM_HEALTH_CHANGED APPLICATION_EVENT_SOURCE_SYSTEM
                                 (ucast (sv_system_healthy now)) (ucast (sv_system_healthy last)) services s1;
                          s3 = bridge_report reg APPLICATION_EVENT_USB_STATE_CHANGED APPLICATION_EVENT_SOURCE_USB
                                 (ucast (sv_usb_configured now)) (ucast (sv_usb_configured last)) services s2
                      in bridge_report reg APPLICATION_EVENT_NETWORK_STATE_CHANGED APPLICATION_EVENT_SOURCE_NETWORK
                                 (ucast (sv_network_online now)) (ucast (sv_network_online last)) services s3
                 else (True, b2)) of (reported, b3) \<Rightarrow>
      if \<not> reported then (False, b3)
      else case application_runtime_service reg (br_runtime b3) services of (ok, rt) \<Rightarrow>
        (ok, b3\<lparr>br_last_service_snapshot := now, br_service_snapshot_valid := True, br_runtime := rt\<rparr>))"

definition application_runtime_bridge_status :: "application_bridge \<Rightarrow> application_runtime_bridge_status_t" where
  "application_runtime_bridge_status b = (let rt = br_runtime b in
     \<lparr>bs_fault_count = rt_fault_count rt, bs_event_count = rt_event_count rt, bs_view_revision = rt_view_revision rt,
      bs_active_id = rt_active_id rt, bs_last_event_type = rt_last_event_type rt, bs_last_event_source = rt_last_event_source rt\<rparr>)"

definition application_runtime_bridge_is_initialized :: "application_bridge \<Rightarrow> bool" where
  "application_runtime_bridge_is_initialized b = rt_initialized (br_runtime b)"

definition application_runtime_bridge_view_dirty :: "application_bridge \<Rightarrow> bool" where
  "application_runtime_bridge_view_dirty b = rt_view_dirty (br_runtime b)"

definition application_runtime_bridge_state_at :: "application_bridge \<Rightarrow> nat \<Rightarrow> application_lifecycle_state option" where
  "application_runtime_bridge_state_at b index =
     (if index \<ge> length (rt_states (br_runtime b)) then None else Some (rt_states (br_runtime b) ! index))"

definition application_runtime_bridge_start :: "registry \<Rightarrow> application_bridge \<Rightarrow> u16 \<Rightarrow> application_service_snapshot option \<Rightarrow> bool \<times> application_bridge" where
  "application_runtime_bridge_start reg b i services =
     (case application_runtime_start reg (br_runtime b) i services of (ok, rt) \<Rightarrow> (ok, b\<lparr>br_runtime := rt\<rparr>))"

definition application_runtime_bridge_stop :: "registry \<Rightarrow> application_bridge \<Rightarrow> application_service_snapshot option \<Rightarrow> bool \<times> application_bridge" where
  "application_runtime_bridge_stop reg b services =
     (case application_runtime_stop reg (br_runtime b) services of (ok, rt) \<Rightarrow> (ok, b\<lparr>br_runtime := rt\<rparr>))"

text \<open>A row of the view up to its zero, then blanks: the loop over the columns.\<close>

fun desired_row :: "bytes \<Rightarrow> bool \<Rightarrow> nat \<Rightarrow> bytes" where
  "desired_row source ended 0 = []"
| "desired_row [] ended (Suc n) = 0x20 # desired_row [] True n"
| "desired_row (ch # source) ended (Suc n) =
     (if ended then 0x20 # desired_row source True n
      else if ch = 0 then 0x20 # desired_row source True n
      else ch # desired_row source False n)"

definition apply_row :: "application_view \<Rightarrow> oled_console \<times> u8 \<Rightarrow> nat \<Rightarrow> oled_console \<times> u8" where
  "apply_row view st row =
     (case st of (c, dirty_rows) \<Rightarrow>
        let desired = desired_row (view ! row) False APPLICATION_VIEW_COLUMNS in
        (c\<lparr>oc_cells := (oc_cells c)[row := desired]\<rparr>,
         if oc_cells c ! row \<noteq> desired then dirty_rows OR page_bit row else dirty_rows))"

definition application_runtime_bridge_apply_view :: "application_bridge \<Rightarrow> oled_console \<Rightarrow> bool \<Rightarrow> bool \<times> oled_console" where
  "application_runtime_bridge_apply_view b c force_rows =
     (case application_runtime_view_get (br_runtime b) of None \<Rightarrow> (False, c) | Some view \<Rightarrow>
        let dirty_rows = (if force_rows \<or> oc_first_row c \<noteq> 0 then page_bit APPLICATION_VIEW_ROWS - 1 else 0) in
        case foldl (apply_row view) (c\<lparr>oc_first_row := 0\<rparr>, dirty_rows) [0..<APPLICATION_VIEW_ROWS] of (c1, dirty1) \<Rightarrow>
          (True, c1\<lparr>oc_cursor_x := 0, oc_cursor_y := OLED_CONSOLE_ROWS, oc_dirty_rows := oc_dirty_rows c1 OR dirty1\<rparr>))"

definition application_runtime_bridge_view_consumed :: "application_bridge \<Rightarrow> application_bridge" where
  "application_runtime_bridge_view_consumed b = b\<lparr>br_runtime := application_runtime_view_consumed (br_runtime b)\<rparr>"

section \<open>The view in the console\<close>

lemma desired_length: "length (desired_row source ended n) = n"
  by (induction source ended n rule: desired_row.induct) simp_all

lemma desired_blank: "desired_row source True n = replicate n 0x20"
  by (induction n arbitrary: source) (case_tac source; simp)+

lemma desired_text:
  "0 \<notin> set t \<Longrightarrow> length t \<le> n \<Longrightarrow> desired_row (t @ 0 # rest) False n = t @ replicate (n - length t) 0x20"
proof (induction t arbitrary: n)
  case Nil
  then show ?case by (cases n) (simp_all add: desired_blank)
next
  case (Cons ch t)
  then show ?case by (cases n) auto
qed

text \<open>The view replaces the rows; every row that changes, or moves in the ring, is marked.\<close>

lemma apply_view_rows:
  assumes c: "console_ok c" and v: "rt_active_id (br_runtime b) \<noteq> 0"
    and e: "application_runtime_bridge_apply_view b c force = (ok, c')"
  shows "ok" "console_rows c' = map (\<lambda>row. desired_row (rt_view (br_runtime b) ! row) False 21) [0..<3]" "console_ok c'" "marked c c'"
    "force \<Longrightarrow> k < 3 \<Longrightarrow> bit (oc_dirty_rows c') k"
proof -
  let ?v = "rt_view (br_runtime b)" and ?d = "\<lambda>row. desired_row (rt_view (br_runtime b) ! row) False 21"
  have "length (oc_cells c) = 3" using c by (simp add: console_ok_def)
  then obtain r0 r1 r2 where cells: "oc_cells c = [r0, r1, r2]" using list3 by blast
  define d0 where "d0 = (if force \<or> oc_first_row c \<noteq> 0 then page_bit 3 - 1 else 0)"
  define d where "d = (((if r0 \<noteq> ?d 0 then d0 OR page_bit 0 else d0) OR (if r1 \<noteq> ?d 1 then page_bit 1 else 0)) OR (if r2 \<noteq> ?d 2 then page_bit 2 else 0))"
  have fold: "foldl (apply_row ?v) (c\<lparr>oc_first_row := 0\<rparr>, d0) [0..<3] = (c\<lparr>oc_first_row := 0, oc_cells := [?d 0, ?d 1, ?d 2]\<rparr>, d)"
    by (simp add: upt3 apply_row_def cells d_def numeral_2_eq_2)
  have eq: "ok" "c' = c\<lparr>oc_first_row := 0, oc_cells := [?d 0, ?d 1, ?d 2], oc_cursor_x := 0, oc_cursor_y := 3, oc_dirty_rows := oc_dirty_rows c OR d\<rparr>"
  proof -
    have g: "application_runtime_view_get (br_runtime b) = Some ?v" using v by (simp add: application_runtime_view_get_def)
    have "application_runtime_bridge_apply_view b c force = (True, c\<lparr>oc_first_row := 0, oc_cells := [?d 0, ?d 1, ?d 2],
        oc_cursor_x := 0, oc_cursor_y := 3, oc_dirty_rows := oc_dirty_rows c OR d\<rparr>)"
      unfolding application_runtime_bridge_apply_view_def g option.case Let_def d0_def[symmetric] fold prod.case by simp
    then show "ok" "c' = c\<lparr>oc_first_row := 0, oc_cells := [?d 0, ?d 1, ?d 2], oc_cursor_x := 0, oc_cursor_y := 3, oc_dirty_rows := oc_dirty_rows c OR d\<rparr>"
      using e by simp_all
  qed
  show ok by (rule eq(1))
  show rows: "console_rows c' = map ?d [0..<3]" by (simp add: eq(2) console_rows_def upt3)
  show "console_ok c'" by (simp add: eq(2) console_ok_def desired_length)
  have low: "bit (page_bit 3 - 1) k" if "k < 3" for k using all_rows[OF that] by (simp add: oled_console_all_rows_mask_def)
  have bits: "bit d0 k \<Longrightarrow> bit (oc_dirty_rows c') k" for k by (simp add: eq(2) d_def bit_or_iff)
  show "force \<Longrightarrow> k < 3 \<Longrightarrow> bit (oc_dirty_rows c') k" using bits[of k] low[of k] by (simp add: d0_def)
  show "marked c c'"
    unfolding marked_def
  proof (intro allI impI conjI)
    fix k :: nat
    assume k: "k < 3"
    show "bit (oc_dirty_rows c) k \<Longrightarrow> bit (oc_dirty_rows c') k" by (simp add: eq(2) bit_or_iff)
    assume ch: "console_rows c' ! k \<noteq> console_rows c ! k"
    show "bit (oc_dirty_rows c') k"
    proof (cases "oc_first_row c = 0")
      case False
      then show ?thesis using bits[of k] low[OF k] by (simp add: d0_def)
    next
      case True
      then have "console_rows c = [r0, r1, r2]" by (simp add: console_rows_def cells upt3)
      then show ?thesis using ch k unfolding rows
        by (auto simp: three upt3 eq(2) d_def bit_or_iff page_bit_bits)
    qed
  qed
qed

end
