(* ===== verification/Fb_Pixels.thy ===== *)
theory Fb_Pixels
  imports Text_Renderer
begin

unbundle bit_operations_syntax

text \<open>
  The framebuffer as a picture: the pixel at a position, what setting one does, and the
  calculus of painting by which the drawing loops of \<open>src/src/gfx/mono_fb.c\<close> and
  \<open>src/src/gfx/text_renderer.c\<close> are described: an operation paints a picture on a region
  and leaves every other pixel.
\<close>

section \<open>Pixels\<close>

definition fb_pixel :: "mono_fb \<Rightarrow> nat \<Rightarrow> nat \<Rightarrow> bool" where
  "fb_pixel fb x y = bit (fb_byte fb (y div 8) x) (y mod 8)"

abbreviation (input) columns :: "mono_fb \<Rightarrow> nat" where "columns fb \<equiv> unat (fb_width fb)"
abbreviation (input) rows :: "mono_fb \<Rightarrow> nat" where "rows fb \<equiv> unat (fb_height fb)"

definition paints :: "(int \<Rightarrow> int \<Rightarrow> bool) \<Rightarrow> (int \<Rightarrow> int \<Rightarrow> bool) \<Rightarrow> mono_fb \<Rightarrow> mono_fb \<Rightarrow> bool" where
  "paints pic region fb fb' \<longleftrightarrow> drawn fb fb'
     \<and> (\<forall>x < columns fb. \<forall>y < rows fb. fb_pixel fb' x y = (if region (int x) (int y) then pic (int x) (int y) else fb_pixel fb x y))"

text \<open>A framebuffer whose height did not wrap when it was rounded up to pages.\<close>

definition fb_sized :: "mono_fb \<Rightarrow> bool" where
  "fb_sized fb \<longleftrightarrow> fb_ok fb \<and> rows fb \<le> 64"

lemma drawn_sized: "drawn fb fb' \<Longrightarrow> fb_sized fb \<Longrightarrow> fb_sized fb'"
  by (simp add: drawn_def fb_sized_def)

lemma paints_none: "fb_ok fb \<Longrightarrow> (\<And>x y. x < columns fb \<Longrightarrow> y < rows fb \<Longrightarrow> \<not> region (int x) (int y)) \<Longrightarrow> paints pic region fb fb"
  by (simp add: paints_def)

lemma paints_trans:
  assumes "paints pic r1 a b" "paints pic r2 b d"
  shows "paints pic (\<lambda>x y. r1 x y \<or> r2 x y) a d"
proof -
  have "drawn a d" using assms drawn_trans by (auto simp: paints_def)
  moreover have "fb_width b = fb_width a" "fb_height b = fb_height a" using assms(1) by (simp_all add: paints_def drawn_def)
  ultimately show ?thesis using assms by (simp add: paints_def)
qed

lemma paints_foldl:
  assumes "\<And>fb e. fb_sized fb \<Longrightarrow> e \<in> set es \<Longrightarrow> paints pic (region e) fb (f fb e)"
  shows "fb_sized fb \<Longrightarrow> paints pic (\<lambda>x y. \<exists>e \<in> set es. region e x y) fb (foldl f fb es)"
  using assms
proof (induction es arbitrary: fb)
  case Nil
  then show ?case by (simp add: paints_none fb_sized_def)
next
  case (Cons e es)
  have a: "paints pic (region e) fb (f fb e)" using Cons.prems by simp
  then have "drawn fb (f fb e)" by (simp add: paints_def)
  from this Cons.prems(1) have "fb_sized (f fb e)" by (rule drawn_sized)
  then have "paints pic (\<lambda>x y. \<exists>e \<in> set es. region e x y) (f fb e) (foldl f (f fb e) es)"
    using Cons.prems(2) by (intro Cons.IH) simp_all
  from paints_trans[OF a this] show ?case by simp
qed

lemma paints_cong:
  "paints pic region fb fb' \<Longrightarrow> (\<And>x y. region' x y = region x y) \<Longrightarrow> (\<And>x y. region x y \<Longrightarrow> pic' x y = pic x y) \<Longrightarrow> paints pic' region' fb fb'"
  by (simp add: paints_def)

text \<open>Setting a pixel sets that pixel.\<close>

lemma page_of_row: "y < unat (h :: u32) \<Longrightarrow> unat h \<le> 64 \<Longrightarrow> y div 8 < unat ((h + 7) div 8)"
proof -
  assume a: "y < unat h" "unat h \<le> 64"
  have "unat (h + 7) = unat h + 7" using a(2) by (subst unat_add_lem[THEN iffD1]) simp_all
  then have "unat ((h + 7) div 8) = (unat h + 7) div 8" by (simp add: unat_div)
  then show ?thesis using a(1) by simp
qed

lemma byte_write_other:
  assumes ok: "fb_ok fb" and w: "writable fb page x" and q: "q < mono_fb_page_count fb" "y < unat (fb_width fb)" "(q, y) \<noteq> (page, x)"
  shows "fb_byte (write_bits fb page x v m) q y = fb_byte fb q y"
proof -
  have "page * unat (fb_width fb) + x \<noteq> q * unat (fb_width fb) + y"
  proof
    assume e: "page * unat (fb_width fb) + x = q * unat (fb_width fb) + y"
    have "x < unat (fb_width fb)" using w by (simp add: writable_def)
    then have "(page * unat (fb_width fb) + x) div unat (fb_width fb) = page" by simp
    moreover have "(q * unat (fb_width fb) + y) div unat (fb_width fb) = q" using q(2) by simp
    ultimately have "page = q" using e by simp
    then show False using e q(3) by simp
  qed
  then show ?thesis by (simp add: write_bits_eq fb_byte_def mark_fields put_byte_def)
qed

lemma set_pixel_paints:
  assumes sz: "fb_sized fb"
  shows "paints (\<lambda>_ _. v) (\<lambda>px py. px = x \<and> py = y) fb (mono_fb_set_pixel fb x y v)"
proof -
  have ok: "fb_ok fb" "rows fb \<le> 64" using sz by (simp_all add: fb_sized_def)
  note val = fb_okD(1)[OF ok(1)]
  show ?thesis
  proof (cases "0 \<le> x \<and> x < uint (fb_width fb) \<and> 0 \<le> y \<and> y < uint (fb_height fb)")
    case False
    have e: "mono_fb_set_pixel fb x y v = fb"
    proof -
      have "(x < 0 \<or> y < 0) \<or> (x \<ge> uint (fb_width fb) \<or> y \<ge> uint (fb_height fb))" using False by linarith
      then show ?thesis by (elim disjE) (simp_all only: mono_fb_set_pixel_def if_True HOL.simp_thms if_cancel)
    qed
    have "\<not> (int px = x \<and> int py = y)" if "px < columns fb" "py < rows fb" for px py
      using False that unfolding uint_nat by linarith
    then show ?thesis unfolding e by (intro paints_none[OF ok(1)])
  next
    case True
    define i where "i = nat x"
    define j where "j = nat y"
    have ij: "x = int i" "y = int j" "i < columns fb" "j < rows fb"
      using True unfolding i_def j_def uint_nat by linarith+
    define m where "m = page_bit (j mod 8)"
    define fb' where "fb' = mono_fb_set_pixel fb x y v"
    have e: "fb' = write_bits fb (j div 8) i (if v then m else 0) m"
      using set_pixel_bits[of x fb y v] True by (simp add: fb'_def i_def j_def m_def)
    have pg: "j div 8 < mono_fb_page_count fb" using page_of_row[OF ij(4) ok(2)] by (simp add: mono_fb_page_count_def)
    have w: "writable fb (j div 8) i" using val pg ij(3) fb_okD(2)[OF ok(1)] by (simp add: writable_def)
    have same: "fb_byte fb' (j div 8) i = merged fb (j div 8) i (if v then m else 0) m"
      unfolding e by (rule byte_write[OF ok(1) w])
    have "fb_pixel fb' px py = (if px = i \<and> py = j then v else fb_pixel fb px py)" if p: "px < columns fb" "py < rows fb" for px py
    proof (cases "(py div 8, px) = (j div 8, i)")
      case True
      then have "py = j \<longleftrightarrow> py mod 8 = j mod 8" by (metis div_mult_mod_eq prod.inject)
      then show ?thesis using True same
        by (auto simp: fb_pixel_def merged_def m_def bit_or_iff bit_and_iff bit_not_iff page_bit_bits)
    next
      case False
      have "py div 8 < mono_fb_page_count fb" using page_of_row[OF p(2) ok(2)] by (simp add: mono_fb_page_count_def)
      then have "fb_byte fb' (py div 8) px = fb_byte fb (py div 8) px" unfolding e using byte_write_other[OF ok(1) w _ p(1)] False by blast
      then show ?thesis using False by (auto simp: fb_pixel_def)
    qed
    moreover have "drawn fb fb'" unfolding fb'_def by (rule set_pixel_drawn[OF ok(1)])
    ultimately show ?thesis using ij(1,2) by (simp add: paints_def fb'_def)
  qed
qed

section \<open>A cell of text\<close>

definition in_cell :: "int \<Rightarrow> int \<Rightarrow> mono_font_metrics \<Rightarrow> int \<Rightarrow> int \<Rightarrow> bool" where
  "in_cell x y m px py \<longleftrightarrow> x \<le> px \<and> px < x + int (mf_advance_x m) \<and> y \<le> py \<and> py < y + int (mf_advance_y m)"

text \<open>The glyph in the upper left corner of its cell, the rest of the cell blank.\<close>

definition glyph_picture :: "int \<Rightarrow> int \<Rightarrow> bytes \<Rightarrow> mono_font_metrics \<Rightarrow> int \<Rightarrow> int \<Rightarrow> bool" where
  "glyph_picture x y glyph m px py \<longleftrightarrow> px < x + int (mf_glyph_width m) \<and> py < y + int (mf_glyph_height m)
     \<and> bit (glyph ! nat (px - x)) (nat (py - y))"

lemma and_page_bit_any: "(m AND page_bit p \<noteq> 0) \<longleftrightarrow> bit m p"
proof (cases "p < 8")
  case True
  then show ?thesis by (simp add: and_page_bit)
next
  case False
  then have "page_bit p = 0" by (simp add: page_bit_0)
  then show ?thesis using False by (auto dest: bit_u8_bound)
qed

lemma cell_pixel_paints:
  assumes "fb_sized fb"
  shows "paints (glyph_picture x y glyph m) (\<lambda>px py. text_renderer_clip_contains clip px py \<and> px = x + int column \<and> py = y + int row) fb
    (draw_cell_pixel clip x y glyph m column fb row)"
proof (cases "text_renderer_clip_contains clip (x + int column) (y + int row)")
  case False
  then show ?thesis using assms by (auto simp: draw_cell_pixel_def Let_def fb_sized_def intro!: paints_none)
next
  case True
  have "draw_cell_pixel clip x y glyph m column fb row
      = mono_fb_set_pixel fb (x + int column) (y + int row) (glyph_picture x y glyph m (x + int column) (y + int row))"
    using True by (simp add: draw_cell_pixel_def Let_def glyph_picture_def and_page_bit_any)
  then show ?thesis
    using True by (auto intro: paints_cong[OF set_pixel_paints[OF assms]])
qed

lemma generic_cell_paints:
  assumes sz: "fb_sized fb"
  shows "paints (glyph_picture x y glyph m) (\<lambda>px py. text_renderer_clip_contains clip px py \<and> in_cell x y m px py) fb
    (text_renderer_draw_cell_generic fb clip x y glyph m)"
proof -
  let ?c = "text_renderer_clip_contains clip"
  have col: "paints (glyph_picture x y glyph m) (\<lambda>px py. \<exists>row \<in> set [0..<mf_advance_y m]. ?c px py \<and> px = x + int column \<and> py = y + int row) fb
      (draw_cell_column clip x y glyph m fb column)" if "fb_sized fb" for fb column
    unfolding draw_cell_column_def by (rule paints_foldl[OF cell_pixel_paints that])
  have all: "paints (glyph_picture x y glyph m) (\<lambda>px py. \<exists>column \<in> set [0..<mf_advance_x m]. \<exists>row \<in> set [0..<mf_advance_y m].
        ?c px py \<and> px = x + int column \<and> py = y + int row) fb (text_renderer_draw_cell_generic fb clip x y glyph m)"
    unfolding text_renderer_draw_cell_generic_def by (rule paints_foldl[OF col sz])
  have cell: "in_cell x y m px py \<longleftrightarrow> (\<exists>column < mf_advance_x m. \<exists>row < mf_advance_y m. px = x + int column \<and> py = y + int row)" for px py
  proof
    assume "in_cell x y m px py"
    then show "\<exists>column < mf_advance_x m. \<exists>row < mf_advance_y m. px = x + int column \<and> py = y + int row"
      by (intro exI[of _ "nat (px - x)"] exI[of _ "nat (py - y)"] conjI) (auto simp: in_cell_def)
  next
    assume "\<exists>column < mf_advance_x m. \<exists>row < mf_advance_y m. px = x + int column \<and> py = y + int row"
    then show "in_cell x y m px py" by (auto simp: in_cell_def)
  qed
  show ?thesis by (rule paints_cong[OF all]) (auto simp: cell)
qed

lemma glyph_cell_paints:
  assumes sz: "fb_sized fb" and nz: "mf_glyph_width m \<noteq> 0" "mf_glyph_height m \<noteq> 0" "mf_advance_x m \<noteq> 0" "mf_advance_y m \<noteq> 0"
  shows "paints (glyph_picture x y glyph m) (\<lambda>px py. text_renderer_clip_contains clip px py \<and> in_cell x y m px py) fb
    (text_renderer_draw_glyph_cell fb clip x y (Some glyph) (Some m))"
proof (cases "r_width clip \<le> 0 \<or> r_height clip \<le> 0")
  case True
  then have "\<not> text_renderer_clip_contains clip px py" for px py
    by (auto simp: text_renderer_clip_contains_def text_renderer_axis_contains_def)
  moreover have "text_renderer_draw_glyph_cell fb clip x y (Some glyph) (Some m) = fb" using True by (auto simp: text_renderer_draw_glyph_cell_def)
  ultimately show ?thesis using sz by (auto simp: fb_sized_def intro!: paints_none)
next
  case False
  obtain d where "fb_data fb = Some d" using sz by (auto simp: fb_sized_def fb_ok_def mono_fb_valid_def)
  then show ?thesis using False nz generic_cell_paints[OF sz] by (simp add: text_renderer_draw_glyph_cell_def)
qed

end
