(* ===== verification/I2c_Bus.thy ===== *)
theory I2c_Bus
  imports Fw_Prelude
begin

unbundle bit_operations_syntax

text \<open>
  The polled I2C master (\<open>src/src/drivers/i2c1.c\<close>). The peripheral and the slave are a
  parameter: for each transaction, how many polls pass before a flag is seen, which flag it
  is, and how much of what was handed over the slave takes when the transaction fails.
  The register set-up of \<open>i2c1_init\<close> is not modelled.
\<close>

abbreviation (input) I2C_SPIN_LIMIT :: nat where "I2C_SPIN_LIMIT \<equiv> 100000"

datatype i2c_flag = I2C_DONE | I2C_ACK_FAILURE | I2C_BUS_ERROR

record i2c_outcome =
  io_busy :: nat
  io_start :: nat
  io_addr :: "nat \<times> i2c_flag"
  io_txe :: "nat \<Rightarrow> nat \<times> i2c_flag"
  io_btf :: "nat \<times> i2c_flag"
  io_taken :: nat

type_synonym i2c_hw = "nat \<Rightarrow> i2c_outcome"

text \<open>The transactions so far: the address and the bytes the slave took.\<close>

record i2c_bus =
  ib_count :: nat
  ib_wire :: "(u8 \<times> bytes) list"

text \<open>A polling loop with \<open>spins\<close> tries left, when the flag shows after \<open>polls\<close> more reads.\<close>

fun i2c_spin :: "nat \<Rightarrow> nat \<Rightarrow> bool" where
  "i2c_spin spins 0 = True"
| "i2c_spin 0 (Suc polls) = False"
| "i2c_spin (Suc spins) (Suc polls) = i2c_spin spins polls"

lemma i2c_spin_iff [simp]: "i2c_spin spins polls \<longleftrightarrow> polls \<le> spins"
  by (induction spins polls rule: i2c_spin.induct) simp_all

text \<open>A loop that looks at the flags: the awaited one, an error, or none in time.\<close>

definition i2c_wait :: "nat \<times> i2c_flag \<Rightarrow> i2c_flag option" where
  "i2c_wait reply = (if i2c_spin I2C_SPIN_LIMIT (fst reply) then Some (snd reply) else None)"

definition i2c1_wait_bus_free :: "i2c_outcome \<Rightarrow> bool" where
  "i2c1_wait_bus_free oc = i2c_spin I2C_SPIN_LIMIT (io_busy oc)"

text \<open>1: the slave answers, 0: it does not, -1: the bus fails.\<close>

definition i2c1_probe :: "i2c_hw \<Rightarrow> i2c_bus \<Rightarrow> u8 \<Rightarrow> int \<times> i2c_bus" where
  "i2c1_probe hw b address =
     (let oc = hw (ib_count b); b1 = b\<lparr>ib_count := ib_count b + 1\<rparr> in
      if \<not> i2c1_wait_bus_free oc then (-1, b1)
      else if \<not> i2c_spin I2C_SPIN_LIMIT (io_start oc) then (-1, b1)
      else case i2c_wait (io_addr oc) of
        Some I2C_DONE \<Rightarrow> (1, b1\<lparr>ib_wire := ib_wire b1 @ [(address, [])]\<rparr>)
      | Some I2C_ACK_FAILURE \<Rightarrow> (0, b1)
      | Some I2C_BUS_ERROR \<Rightarrow> (-1, b1)
      | None \<Rightarrow> (-1, b1))"

text \<open>The data phase from byte \<open>index\<close> on: whether all bytes went into the register.\<close>

fun i2c_send_bytes :: "i2c_outcome \<Rightarrow> nat \<Rightarrow> nat \<Rightarrow> bool" where
  "i2c_send_bytes oc index 0 = True"
| "i2c_send_bytes oc index (Suc n) =
     (if i2c_wait (io_txe oc index) = Some I2C_DONE then i2c_send_bytes oc (index + 1) n else False)"

definition i2c1_write :: "i2c_hw \<Rightarrow> i2c_bus \<Rightarrow> u8 \<Rightarrow> bytes option \<Rightarrow> bool \<times> i2c_bus" where
  "i2c1_write hw b address data =
     (case data of None \<Rightarrow> (False, b) | Some d \<Rightarrow>
        if length d = 0 then (False, b)
        else let oc = hw (ib_count b); b1 = b\<lparr>ib_count := ib_count b + 1\<rparr> in
          if \<not> i2c1_wait_bus_free oc then (False, b1)
          else if \<not> i2c_spin I2C_SPIN_LIMIT (io_start oc) then (False, b1)
          else if i2c_wait (io_addr oc) \<noteq> Some I2C_DONE then (False, b1)
          else if \<not> i2c_send_bytes oc 0 (length d) \<or> i2c_wait (io_btf oc) \<noteq> Some I2C_DONE
          then (False, b1\<lparr>ib_wire := ib_wire b1 @ [(address, take (io_taken oc) d)]\<rparr>)
          else (True, b1\<lparr>ib_wire := ib_wire b1 @ [(address, d)]\<rparr>))"

text \<open>A write puts all of its bytes on the wire, or a part of them and fails.\<close>

lemma i2c1_write_wire:
  assumes "i2c1_write hw b address (Some d) = (ok, b')"
  shows "ok \<Longrightarrow> ib_wire b' = ib_wire b @ [(address, d)]"
    "ib_wire b' = ib_wire b \<or> (\<exists>n. ib_wire b' = ib_wire b @ [(address, take n d)])"
  using assms by (auto simp: i2c1_write_def Let_def split: if_splits intro: exI[of _ "length d"])

text \<open>A slave that answers in time.\<close>

definition i2c_answers :: "i2c_hw \<Rightarrow> bool" where
  "i2c_answers hw \<longleftrightarrow> (\<forall>n. io_busy (hw n) \<le> I2C_SPIN_LIMIT \<and> io_start (hw n) \<le> I2C_SPIN_LIMIT
     \<and> i2c_wait (io_addr (hw n)) = Some I2C_DONE \<and> (\<forall>k. i2c_wait (io_txe (hw n) k) = Some I2C_DONE)
     \<and> i2c_wait (io_btf (hw n)) = Some I2C_DONE)"

lemma i2c1_write_answered:
  assumes "i2c_answers hw" "d \<noteq> []"
  shows "fst (i2c1_write hw b address (Some d))"
proof -
  have "i2c_send_bytes (hw k) i n" for k i n using assms(1) by (induction n arbitrary: i) (simp_all add: i2c_answers_def)
  then show ?thesis using assms by (simp add: i2c1_write_def i2c1_wait_bus_free_def i2c_answers_def Let_def)
qed

end
