(* ===== verification/Ssd1306.thy ===== *)
theory Ssd1306
  imports Mono_Fb I2c_Bus
begin

unbundle bit_operations_syntax

text \<open>
  The display driver (\<open>src/src/drivers/ssd1306.c\<close>): it sends the dirty spans of the
  framebuffer to the panel. What the memory of the panel holds is a function of the
  transactions it has received since it was powered up, a parameter; \<open>gddram_spec\<close> says
  what is relied on: that it follows the addressing of the data sheet.
\<close>

section \<open>The code\<close>

abbreviation (input) SSD1306_ADDRESS :: u8 where "SSD1306_ADDRESS \<equiv> 0x3C"
abbreviation (input) SSD1306_CONTROL_CMD :: u8 where "SSD1306_CONTROL_CMD \<equiv> 0x00"
abbreviation (input) SSD1306_CONTROL_DATA :: u8 where "SSD1306_CONTROL_DATA \<equiv> 0x40"
abbreviation (input) SSD1306_FLUSH_CHUNK_DATA :: nat where "SSD1306_FLUSH_CHUNK_DATA \<equiv> 16"
abbreviation (input) SSD1306_WIDTH :: nat where "SSD1306_WIDTH \<equiv> 128"
abbreviation (input) SSD1306_HEIGHT :: nat where "SSD1306_HEIGHT \<equiv> 32"
abbreviation (input) SSD1306_PAGES :: nat where "SSD1306_PAGES \<equiv> 4"
abbreviation (input) SSD1306_FRAMEBUFFER_BYTES :: nat where "SSD1306_FRAMEBUFFER_BYTES \<equiv> 512"

record ssd1306_present_stats =
  ps_window_payload_bytes :: u32
  ps_data_payload_bytes :: u32
  ps_i2c_write_count :: u32
  ps_presented_pages :: u32

record ssd1306 =
  sd_bus :: i2c_bus
  sd_last_present_stats :: ssd1306_present_stats

definition ssd1306_present_stats_reset :: "ssd1306 \<Rightarrow> ssd1306" where
  "ssd1306_present_stats_reset s = s\<lparr>sd_last_present_stats :=
     \<lparr>ps_window_payload_bytes = 0, ps_data_payload_bytes = 0, ps_i2c_write_count = 0, ps_presented_pages = 0\<rparr>\<rparr>"

definition ssd1306_write :: "i2c_hw \<Rightarrow> ssd1306 \<Rightarrow> bytes \<Rightarrow> bool \<times> ssd1306" where
  "ssd1306_write hw s packet = (case i2c1_write hw (sd_bus s) SSD1306_ADDRESS (Some packet) of (ok, b) \<Rightarrow> (ok, s\<lparr>sd_bus := b\<rparr>))"

definition ssd1306_command :: "i2c_hw \<Rightarrow> ssd1306 \<Rightarrow> u8 \<Rightarrow> bool \<times> ssd1306" where
  "ssd1306_command hw s command = ssd1306_write hw s [SSD1306_CONTROL_CMD, command]"

definition ssd1306_init_packet :: bytes where
  "ssd1306_init_packet = [SSD1306_CONTROL_CMD, 0xAE, 0xD5, 0x80, 0xA8, 0x1F, 0xD3, 0x00, 0x40, 0x8D, 0x14, 0x20, 0x00,
     0xA1, 0xC8, 0xDA, 0x02, 0x81, 0xCF, 0xD9, 0xF1, 0xDB, 0x40, 0xA4, 0xA6]"

definition ssd1306_init :: "i2c_hw \<Rightarrow> ssd1306 \<Rightarrow> bool \<times> ssd1306" where
  "ssd1306_init hw s = ssd1306_write hw s ssd1306_init_packet"

definition ssd1306_set_full_window :: "i2c_hw \<Rightarrow> ssd1306 \<Rightarrow> bool \<times> ssd1306" where
  "ssd1306_set_full_window hw s = ssd1306_write hw s [SSD1306_CONTROL_CMD, 0x21, 0x00, 0x7F, 0x22, 0x00, 0x03]"

text \<open>Packets one after the other, up to the first that fails.\<close>

fun ssd1306_write_all :: "i2c_hw \<Rightarrow> ssd1306 \<Rightarrow> bytes list \<Rightarrow> bool \<times> ssd1306" where
  "ssd1306_write_all hw s [] = (True, s)"
| "ssd1306_write_all hw s (p # ps) =
     (case ssd1306_write hw s p of (ok, s1) \<Rightarrow> if \<not> ok then (False, s1) else ssd1306_write_all hw s1 ps)"

definition ssd1306_fill_checkerboard :: "i2c_hw \<Rightarrow> ssd1306 \<Rightarrow> bool \<times> ssd1306" where
  "ssd1306_fill_checkerboard hw s =
     ssd1306_write_all hw s (replicate 32 (SSD1306_CONTROL_DATA # concat (replicate 8 [0xAA, 0x55])))"

definition ssd1306_set_page_window :: "i2c_hw \<Rightarrow> ssd1306 \<Rightarrow> nat \<Rightarrow> nat \<Rightarrow> nat \<Rightarrow> bool \<times> ssd1306" where
  "ssd1306_set_page_window hw s page x0 x1 =
     (if page \<ge> SSD1306_PAGES \<or> x0 \<ge> SSD1306_WIDTH \<or> x1 \<ge> SSD1306_WIDTH \<or> x0 > x1 then (False, s)
      else let st = sd_last_present_stats s;
               s1 = s\<lparr>sd_last_present_stats := st\<lparr>ps_i2c_write_count := ps_i2c_write_count st + 1,
                       ps_window_payload_bytes := ps_window_payload_bytes st + 7\<rparr>\<rparr>
        in ssd1306_write hw s1 [SSD1306_CONTROL_CMD, 0x21, of_nat x0, of_nat x1, 0x22, of_nat page, of_nat page])"

definition ssd1306_present_full :: "i2c_hw \<Rightarrow> ssd1306 \<Rightarrow> bytes option \<Rightarrow> bool \<times> ssd1306" where
  "ssd1306_present_full hw s framebuffer = (case framebuffer of None \<Rightarrow> (False, s) | Some d \<Rightarrow>
     (case ssd1306_set_full_window hw s of (ok, s1) \<Rightarrow>
        if \<not> ok then (False, s1)
        else ssd1306_write_all hw s1 (map (\<lambda>k. SSD1306_CONTROL_DATA # take 16 (drop (16 * k) d)) [0..<32])))"

text \<open>The bytes of a span in chunks of at most sixteen.\<close>

function send_span :: "i2c_hw \<Rightarrow> ssd1306 \<Rightarrow> bytes \<Rightarrow> bool \<times> ssd1306" where
  "send_span hw s bs =
     (if bs = [] then (True, s)
      else let chunk = min (length bs) SSD1306_FLUSH_CHUNK_DATA; st = sd_last_present_stats s;
               s1 = s\<lparr>sd_last_present_stats := st\<lparr>ps_i2c_write_count := ps_i2c_write_count st + 1,
                       ps_data_payload_bytes := ps_data_payload_bytes st + of_nat (1 + chunk)\<rparr>\<rparr>
        in case ssd1306_write hw s1 (SSD1306_CONTROL_DATA # take chunk bs) of (ok, s2) \<Rightarrow>
             if \<not> ok then (False, s2) else send_span hw s2 (drop chunk bs))"
  by pat_completeness auto
termination by (relation "measure (\<lambda>(hw, s, bs). length bs)") auto

declare send_span.simps [simp del]

definition present_page :: "i2c_hw \<Rightarrow> ssd1306 \<Rightarrow> mono_fb \<Rightarrow> nat \<Rightarrow> bool \<times> ssd1306 \<times> mono_fb" where
  "present_page hw s fb page =
     (case mono_fb_dirty_span fb page of None \<Rightarrow> (False, s, fb) | Some (x0, x1) \<Rightarrow>
        (case ssd1306_set_page_window hw s page x0 x1 of (ok, s1) \<Rightarrow>
           if \<not> ok then (False, s1, fb)
           else case send_span hw s1 (take (x1 + 1 - x0) (drop (page * SSD1306_WIDTH + x0) (the (fb_data fb)))) of (ok2, s2) \<Rightarrow>
             if \<not> ok2 then (False, s2, fb)
             else let st = sd_last_present_stats s2
               in (True, s2\<lparr>sd_last_present_stats := st\<lparr>ps_presented_pages := ps_presented_pages st + 1\<rparr>\<rparr>,
                   mono_fb_clear_dirty fb (page_bit page))))"

fun present_pages :: "i2c_hw \<Rightarrow> u8 \<Rightarrow> ssd1306 \<Rightarrow> mono_fb \<Rightarrow> nat list \<Rightarrow> bool \<times> ssd1306 \<times> mono_fb" where
  "present_pages hw dirty s fb [] = (True, s, fb)"
| "present_pages hw dirty s fb (page # ps) =
     (if dirty AND page_bit page = 0 then present_pages hw dirty s fb ps
      else case present_page hw s fb page of (ok, s1, fb1) \<Rightarrow>
        if \<not> ok then (False, s1, fb1) else present_pages hw dirty s1 fb1 ps)"

definition ssd1306_present :: "i2c_hw \<Rightarrow> ssd1306 \<Rightarrow> mono_fb \<Rightarrow> bool \<times> ssd1306 \<times> mono_fb" where
  "ssd1306_present hw s fb =
     (let s1 = ssd1306_present_stats_reset s; dirty = fb_dirty_pages fb in
      if fb_data fb = None \<or> unat (fb_width fb) \<noteq> SSD1306_WIDTH \<or> unat (fb_height fb) \<noteq> SSD1306_HEIGHT then (False, s1, fb)
      else if dirty AND NOT (page_bit SSD1306_PAGES - 1) \<noteq> 0 then (False, s1, fb)
      else if dirty = 0 then (True, s1, fb)
      else present_pages hw dirty s1 fb [0..<SSD1306_PAGES])"

definition ssd1306_display_on :: "i2c_hw \<Rightarrow> ssd1306 \<Rightarrow> bool \<times> ssd1306" where
  "ssd1306_display_on hw s = ssd1306_command hw s 0xAF"

definition ssd1306_ping :: "i2c_hw \<Rightarrow> ssd1306 \<Rightarrow> bool \<times> ssd1306" where
  "ssd1306_ping hw s = ssd1306_command hw s 0xE3"

definition ssd1306_show_checkerboard :: "i2c_hw \<Rightarrow> ssd1306 \<Rightarrow> bool \<times> ssd1306" where
  "ssd1306_show_checkerboard hw s =
     (case ssd1306_init hw s of (ok, s1) \<Rightarrow> if \<not> ok then (False, s1)
      else case ssd1306_set_full_window hw s1 of (ok2, s2) \<Rightarrow> if \<not> ok2 then (False, s2)
      else case ssd1306_fill_checkerboard hw s2 of (ok3, s3) \<Rightarrow> if \<not> ok3 then (False, s3)
      else ssd1306_display_on hw s3)"

section \<open>The panel\<close>

text \<open>
  The addressing of the SSD1306 by its data sheet: the addressing mode (0 horizontal, 1
  vertical, 2 page), the window, the pointers, whether the display is on, and the display
  memory of eight pages of 128 columns.
\<close>

record panel_state =
  pn_mode :: nat
  pn_col0 :: nat
  pn_col1 :: nat
  pn_page0 :: nat
  pn_page1 :: nat
  pn_col :: nat
  pn_page :: nat
  pn_on :: bool
  pn_ram :: "nat \<Rightarrow> nat \<Rightarrow> u8"

text \<open>After power-up: page addressing, display off, and any contents of the memory.\<close>

definition panel_reset :: "(nat \<Rightarrow> nat \<Rightarrow> u8) \<Rightarrow> panel_state" where
  "panel_reset ram = \<lparr>pn_mode = 2, pn_col0 = 0, pn_col1 = 127, pn_page0 = 0, pn_page1 = 7, pn_col = 0, pn_page = 0, pn_on = False, pn_ram = ram\<rparr>"

definition panel_advance :: "panel_state \<Rightarrow> panel_state" where
  "panel_advance st =
     (if pn_mode st = 1
      then (if pn_page st = pn_page1 st
            then st\<lparr>pn_page := pn_page0 st, pn_col := if pn_col st = pn_col1 st then pn_col0 st else pn_col st + 1\<rparr>
            else st\<lparr>pn_page := pn_page st + 1\<rparr>)
      else if pn_col st = pn_col1 st
      then st\<lparr>pn_col := pn_col0 st,
              pn_page := if pn_mode st = 2 then pn_page st else if pn_page st = pn_page1 st then pn_page0 st else pn_page st + 1\<rparr>
      else st\<lparr>pn_col := pn_col st + 1\<rparr>)"

definition panel_put :: "panel_state \<Rightarrow> u8 \<Rightarrow> panel_state" where
  "panel_put st b = panel_advance (st\<lparr>pn_ram := (pn_ram st)(pn_page st := (pn_ram st (pn_page st))(pn_col st := b))\<rparr>)"

text \<open>
  The bytes of a command transaction. None: the data sheet does not say what happens, because
  an argument is missing, a window is set in page addressing mode, an argument is out of range
  or the command is none of those of the table.
\<close>

fun panel_commands :: "bytes \<Rightarrow> panel_state \<Rightarrow> panel_state option" where
  "panel_commands [] st = Some st"
| "panel_commands (c # bs) st =
     (if c = 0xAE \<or> c = 0xAF then panel_commands bs (st\<lparr>pn_on := (c = 0xAF)\<rparr>)
      else if c \<in> {0xA0, 0xA1, 0xA4, 0xA6, 0xC0, 0xC8, 0xE3} \<or> 0x40 \<le> c \<and> c \<le> 0x7F then panel_commands bs st
      else if c \<in> {0x81, 0x8D, 0xA8, 0xD3, 0xD5, 0xD9, 0xDA, 0xDB}
      then (case bs of [] \<Rightarrow> None | v # r \<Rightarrow> panel_commands r st)
      else if c = 0x20
      then (case bs of [] \<Rightarrow> None | m # r \<Rightarrow> if m \<le> 2 then panel_commands r (st\<lparr>pn_mode := unat m\<rparr>) else None)
      else if c = 0x21
      then (case bs of x0 # x1 # r \<Rightarrow>
              if pn_mode st \<noteq> 2 \<and> x0 \<le> x1 \<and> x1 \<le> 127
              then panel_commands r (st\<lparr>pn_col0 := unat x0, pn_col1 := unat x1, pn_col := unat x0\<rparr>) else None
            | _ \<Rightarrow> None)
      else if c = 0x22
      then (case bs of p0 # p1 # r \<Rightarrow>
              if pn_mode st \<noteq> 2 \<and> p0 \<le> p1 \<and> p1 \<le> 7
              then panel_commands r (st\<lparr>pn_page0 := unat p0, pn_page1 := unat p1, pn_page := unat p0\<rparr>) else None
            | _ \<Rightarrow> None)
      else None)"

definition panel_step :: "panel_state \<Rightarrow> u8 \<times> bytes \<Rightarrow> panel_state option" where
  "panel_step st t = (case t of (address, p) \<Rightarrow>
     if address \<noteq> 0x3C then Some st
     else case p of [] \<Rightarrow> Some st
       | control # bs \<Rightarrow> if control = 0x40 then Some (foldl panel_put st bs)
           else if control = 0x00 then panel_commands bs st else None)"

definition panel_after :: "(nat \<Rightarrow> nat \<Rightarrow> u8) \<Rightarrow> (u8 \<times> bytes) list \<Rightarrow> panel_state option" where
  "panel_after ram w = foldl (\<lambda>s t. Option.bind s (\<lambda>st. panel_step st t)) (Some (panel_reset ram)) w"

text \<open>
  What is relied on: the memory of the panel, as a function of the transactions since
  power-up, is the one of the data sheet as long as the data sheet covers them, whatever it
  held at first.
\<close>

type_synonym panel = "(u8 \<times> bytes) list \<Rightarrow> nat \<Rightarrow> nat \<Rightarrow> u8"

definition gddram_spec :: "panel \<Rightarrow> bool" where
  "gddram_spec shows' \<longleftrightarrow> (\<exists>ram. \<forall>w st. panel_after ram w = Some st \<longrightarrow> shows' w = pn_ram st)"

text \<open>Transactions the data sheet covers, and those that leave the panel in horizontal addressing.\<close>

definition orderly :: "(u8 \<times> bytes) list \<Rightarrow> bool" where
  "orderly w \<longleftrightarrow> (\<forall>ram. panel_after ram w \<noteq> None)"

definition horizontal :: "(u8 \<times> bytes) list \<Rightarrow> bool" where
  "horizontal w \<longleftrightarrow> (\<forall>ram. \<exists>st. panel_after ram w = Some st \<and> pn_mode st = 0)"

lemma horizontal_orderly: "horizontal w \<Longrightarrow> orderly w"
  by (fastforce simp: horizontal_def orderly_def)

lemma panel_after_snoc: "panel_after ram (w @ [t]) = Option.bind (panel_after ram w) (\<lambda>st. panel_step st t)"
  by (simp add: panel_after_def)

text \<open>A window and data that fit it.\<close>

definition window_packet :: "nat \<Rightarrow> nat \<Rightarrow> nat \<Rightarrow> bytes" where
  "window_packet page x0 x1 = [0x00, 0x21, of_nat x0, of_nat x1, 0x22, of_nat page, of_nat page]"

definition put_bytes :: "nat \<Rightarrow> nat \<Rightarrow> bytes \<Rightarrow> (nat \<Rightarrow> nat \<Rightarrow> u8) \<Rightarrow> nat \<Rightarrow> nat \<Rightarrow> u8" where
  "put_bytes page x0 bs g = (\<lambda>q x. if q = page \<and> x0 \<le> x \<and> x < x0 + length bs then bs ! (x - x0) else g q x)"

abbreviation (input) data_packets :: "bytes list \<Rightarrow> (u8 \<times> bytes) list" where
  "data_packets ds \<equiv> map (\<lambda>d. (0x3C, 0x40 # d)) ds"

lemma panel_window:
  assumes "pn_mode st = 0" "page < 4" "x0 \<le> x1" "x1 < 128"
  shows "panel_step st (0x3C, window_packet page x0 x1)
    = Some (st\<lparr>pn_col0 := x0, pn_col1 := x1, pn_col := x0, pn_page0 := page, pn_page1 := page, pn_page := page\<rparr>)"
proof -
  have u: "unat (of_nat x0 :: u8) = x0" "unat (of_nat x1 :: u8) = x1" "unat (of_nat page :: u8) = page"
    using assms by (simp_all add: unat_of_nat)
  then have "(of_nat x0 :: u8) \<le> of_nat x1" "(of_nat x1 :: u8) \<le> 127" "(of_nat page :: u8) \<le> 7"
    using assms by (simp_all add: word_le_nat_alt)
  then show ?thesis using assms(1) u by (simp add: panel_step_def window_packet_def)
qed

lemma put_bytes_Cons: "put_bytes page x0 (b # bs) g = put_bytes page (Suc x0) bs (g(page := (g page)(x0 := b)))"
proof (intro ext)
  fix q x show "put_bytes page x0 (b # bs) g q x = put_bytes page (Suc x0) bs (g(page := (g page)(x0 := b))) q x"
    by (cases "x = x0") (auto simp: put_bytes_def Suc_le_eq nth_Cons' dest!: le_neq_implies_less)
qed

text \<open>Where the pointer is while a window of one page is filled; after the last byte it is back at the start.\<close>

lemma panel_fill:
  assumes "pn_mode st = 0" "pn_page0 st = page" "pn_page1 st = page" "pn_page st = page" "pn_col1 st = x1" "pn_col st + length bs \<le> Suc x1"
  shows "\<exists>x. foldl panel_put st bs = st\<lparr>pn_col := x, pn_ram := put_bytes page (pn_col st) bs (pn_ram st)\<rparr>
     \<and> (pn_col st + length bs \<le> x1 \<longrightarrow> x = pn_col st + length bs)"
  using assms
proof (induction bs arbitrary: st)
  case Nil
  have "put_bytes page (pn_col st) [] (pn_ram st) = pn_ram st" by (auto simp: put_bytes_def fun_eq_iff)
  then show ?case by (intro exI[of _ "pn_col st"]) simp
next
  case (Cons b bs)
  define ram where "ram = (pn_ram st)(page := (pn_ram st page)(pn_col st := b))"
  show ?case
  proof (cases "pn_col st = x1")
    case True
    then have bs: "bs = []" using Cons.prems(6) by simp
    have "put_bytes page (pn_col st) [b] (pn_ram st) = ram" by (auto simp: put_bytes_def ram_def fun_eq_iff)
    moreover have "panel_put st b = st\<lparr>pn_col := pn_col0 st, pn_ram := ram\<rparr>"
      using True Cons.prems by (cases st) (simp add: panel_put_def panel_advance_def ram_def)
    ultimately show ?thesis using True bs by (intro exI[of _ "pn_col0 st"]) simp
  next
    case False
    define s1 where "s1 = st\<lparr>pn_col := Suc (pn_col st), pn_ram := ram\<rparr>"
    have "panel_put st b = s1" using False Cons.prems by (simp add: panel_put_def panel_advance_def s1_def ram_def)
    moreover obtain x where "foldl panel_put s1 bs = s1\<lparr>pn_col := x, pn_ram := put_bytes page (pn_col s1) bs (pn_ram s1)\<rparr>"
      "pn_col s1 + length bs \<le> x1 \<longrightarrow> x = pn_col s1 + length bs"
      using Cons.IH[of s1] Cons.prems by (auto simp: s1_def)
    ultimately show ?thesis by (intro exI[of _ x]) (simp add: s1_def put_bytes_Cons ram_def)
  qed
qed

text \<open>What the transactions of the driver do to the panel, also when they are cut.\<close>

lemma panel_data: "foldl (\<lambda>s t. Option.bind s (\<lambda>st. panel_step st t)) (Some st) (data_packets ds) = Some (foldl panel_put st (concat ds))"
  by (induction ds arbitrary: st) (simp_all add: panel_step_def)

lemma panel_span:
  assumes "panel_after ram w = Some st" "pn_mode st = 0" "page < 4" "x0 \<le> x1" "x1 < 128" "length (concat ds) \<le> x1 + 1 - x0"
  shows "\<exists>st'. panel_after ram (w @ [(0x3C, window_packet page x0 x1)] @ data_packets ds) = Some st' \<and> pn_mode st' = 0
     \<and> pn_ram st' = put_bytes page x0 (concat ds) (pn_ram st)"
proof -
  define s1 where "s1 = st\<lparr>pn_col0 := x0, pn_col1 := x1, pn_col := x0, pn_page0 := page, pn_page1 := page, pn_page := page\<rparr>"
  have f: "pn_mode s1 = 0" "pn_page0 s1 = page" "pn_page1 s1 = page" "pn_page s1 = page" "pn_col1 s1 = x1" "pn_col s1 + length (concat ds) \<le> Suc x1"
    "pn_col s1 = x0" "pn_ram s1 = pn_ram st" using assms(2,4,6) by (simp_all add: s1_def)
  have "panel_after ram (w @ [(0x3C, window_packet page x0 x1)]) = Some s1"
    unfolding panel_after_snoc assms(1) using panel_window[OF assms(2-5)] by (simp add: s1_def)
  then have "panel_after ram (w @ [(0x3C, window_packet page x0 x1)] @ data_packets ds) = Some (foldl panel_put s1 (concat ds))"
    using panel_data[of s1 ds] by (simp add: panel_after_def)
  then show ?thesis using panel_fill[OF f(1-6)] f(1,7,8) by auto
qed

lemma window_span:
  assumes "gddram_spec g" "horizontal w" "page < 4" "x0 \<le> x1" "x1 < 128" "length (concat ds) \<le> x1 + 1 - x0"
  shows "horizontal (w @ [(0x3C, window_packet page x0 x1)] @ data_packets ds)"
    "g (w @ [(0x3C, window_packet page x0 x1)] @ data_packets ds) = put_bytes page x0 (concat ds) (g w)"
proof -
  let ?w = "w @ [(0x3C, window_packet page x0 x1)] @ data_packets ds"
  have step: "\<exists>st st'. panel_after ram w = Some st \<and> panel_after ram ?w = Some st' \<and> pn_mode st' = 0
      \<and> pn_ram st' = put_bytes page x0 (concat ds) (pn_ram st)" for ram
  proof -
    obtain st where "panel_after ram w = Some st" "pn_mode st = 0" using assms(2) by (auto simp: horizontal_def)
    from panel_span[OF this assms(3-6)] this show ?thesis by blast
  qed
  show "horizontal ?w" unfolding horizontal_def using step by blast
  obtain ram where r: "\<forall>w st. panel_after ram w = Some st \<longrightarrow> g w = pn_ram st" using assms(1) by (auto simp: gddram_spec_def)
  obtain st st' where "panel_after ram w = Some st" "panel_after ram ?w = Some st'" "pn_ram st' = put_bytes page x0 (concat ds) (pn_ram st)"
    using step[of ram] by blast
  then show "g ?w = put_bytes page x0 (concat ds) (g w)" using r by metis
qed

lemma orderly_prefix: "orderly (w @ v) \<Longrightarrow> orderly w"
proof -
  have n: "foldl (\<lambda>s t. Option.bind s (\<lambda>st. panel_step st t)) None v = None" by (induction v) simp_all
  have "panel_after ram w = None \<Longrightarrow> panel_after ram (w @ v) = None" for ram using n by (simp add: panel_after_def)
  then show "orderly (w @ v) \<Longrightarrow> orderly w" unfolding orderly_def by blast
qed

text \<open>A packet that, whole or cut, changes neither the memory nor the addressing mode once it is horizontal.\<close>

definition quiet_packet :: "bytes \<Rightarrow> bool" where
  "quiet_packet p \<longleftrightarrow> (\<forall>n st st'. panel_step st (0x3C, take n p) = Some st' \<longrightarrow> pn_ram st' = pn_ram st \<and> (pn_mode st = 0 \<longrightarrow> pn_mode st' = 0))"

lemma quiet_step:
  assumes "gddram_spec g" "quiet_packet p" "orderly (w @ [(0x3C, take n p)])"
  shows "g (w @ [(0x3C, take n p)]) = g w" "horizontal w \<Longrightarrow> horizontal (w @ [(0x3C, take n p)])"
proof -
  have s: "\<exists>st st'. panel_after ram w = Some st \<and> panel_after ram (w @ [(0x3C, take n p)]) = Some st' \<and> panel_step st (0x3C, take n p) = Some st'" for ram
  proof -
    obtain st' where o: "panel_after ram (w @ [(0x3C, take n p)]) = Some st'" using assms(3) unfolding orderly_def by blast
    then obtain st where "panel_after ram w = Some st" unfolding panel_after_snoc by (cases "panel_after ram w") simp_all
    then show ?thesis using o unfolding panel_after_snoc by simp
  qed
  obtain ram where r: "\<forall>w st. panel_after ram w = Some st \<longrightarrow> g w = pn_ram st" using assms(1) by (auto simp: gddram_spec_def)
  obtain st st' where st: "panel_after ram w = Some st" "panel_after ram (w @ [(0x3C, take n p)]) = Some st'" "panel_step st (0x3C, take n p) = Some st'"
    using s by blast
  have "pn_ram st' = pn_ram st" using assms(2) st(3) unfolding quiet_packet_def by blast
  then show "g (w @ [(0x3C, take n p)]) = g w" using r st(1,2) by metis
  assume h: "horizontal w"
  show "horizontal (w @ [(0x3C, take n p)])"
    unfolding horizontal_def
  proof
    fix ram
    obtain st st' where st: "panel_after ram w = Some st" "panel_after ram (w @ [(0x3C, take n p)]) = Some st'" "panel_step st (0x3C, take n p) = Some st'"
      using s by blast
    have "pn_mode st = 0" using h st(1) unfolding horizontal_def by (metis option.inject)
    then have "pn_mode st' = 0" using assms(2) st(3) unfolding quiet_packet_def by blast
    then show "\<exists>st. panel_after ram (w @ [(0x3C, take n p)]) = Some st \<and> pn_mode st = 0" using st(2) by blast
  qed
qed

lemma quiet_command:
  assumes "\<And>n st st'. panel_commands (take n bs) st = Some st' \<Longrightarrow> pn_ram st' = pn_ram st \<and> (pn_mode st = 0 \<longrightarrow> pn_mode st' = 0)"
  shows "quiet_packet (0x00 # bs)"
  unfolding quiet_packet_def
proof (intro allI impI)
  fix n st st' assume "panel_step st (0x3C, take n (0x00 # bs)) = Some st'"
  then show "pn_ram st' = pn_ram st \<and> (pn_mode st = 0 \<longrightarrow> pn_mode st' = 0)" using assms by (cases n) (auto simp: panel_step_def)
qed

lemma quiet_packets:
  "quiet_packet []" "quiet_packet ssd1306_init_packet" "quiet_packet [0x00, 0xAF]" "quiet_packet [0x00, 0xE3]"
  "quiet_packet [0x00, 0x21, a, b, 0x22, c, d]"
proof -
  show "quiet_packet []" by (simp add: quiet_packet_def panel_step_def)
  have "quiet_packet (0x00 # tl ssd1306_init_packet)"
    by (rule quiet_command) (auto simp: ssd1306_init_packet_def take_Cons split: nat.splits if_splits)
  then show "quiet_packet ssd1306_init_packet" by (simp add: ssd1306_init_packet_def)
  show "quiet_packet [0x00, 0xAF]" "quiet_packet [0x00, 0xE3]" "quiet_packet [0x00, 0x21, a, b, 0x22, c, d]"
    by (rule quiet_command; auto simp: take_Cons split: nat.splits if_splits)+
qed

lemma init_wire: "orderly w \<Longrightarrow> horizontal (w @ [(0x3C, ssd1306_init_packet)])"
proof -
  have "\<exists>st'. panel_step st (0x3C, ssd1306_init_packet) = Some st' \<and> pn_mode st' = 0" for st
    by (simp add: panel_step_def ssd1306_init_packet_def)
  then show "orderly w \<Longrightarrow> horizontal (w @ [(0x3C, ssd1306_init_packet)])"
    unfolding horizontal_def orderly_def panel_after_snoc by (metis bind.bind_lunit option.exhaust)
qed

section \<open>What a presentation leaves\<close>

abbreviation (input) wire :: "ssd1306 \<Rightarrow> (u8 \<times> bytes) list" where "wire s \<equiv> ib_wire (sd_bus s)"

lemma ssd1306_write_wire:
  assumes "ssd1306_write hw s p = (ok, s')"
  shows "ok \<Longrightarrow> wire s' = wire s @ [(0x3C, p)]" "wire s' = wire s \<or> (\<exists>n. wire s' = wire s @ [(0x3C, take n p)])"
proof -
  obtain b where b: "i2c1_write hw (sd_bus s) 0x3C (Some p) = (ok, b)" "s' = s\<lparr>sd_bus := b\<rparr>"
    using assms by (auto simp: ssd1306_write_def split: prod.splits)
  show "ok \<Longrightarrow> wire s' = wire s @ [(0x3C, p)]" "wire s' = wire s \<or> (\<exists>n. wire s' = wire s @ [(0x3C, take n p)])"
    using i2c1_write_wire[OF b(1)] b(2) by simp_all
qed

text \<open>The transactions of a span: its bytes in order, all of them or a part.\<close>

lemma send_span_wire:
  "send_span hw s bs = (ok, s') \<Longrightarrow> \<exists>ds e. wire s' = wire s @ data_packets ds @ e \<and> (e = [] \<or> e = [(0x3C, [])])
     \<and> (\<exists>rest. bs = concat ds @ rest \<and> (ok \<longrightarrow> rest = [] \<and> e = []))"
proof (induction hw s bs rule: send_span.induct)
  case (1 hw s bs)
  show ?case
  proof (cases "bs = []")
    case True
    then show ?thesis using 1(2) by (intro exI[of _ "[]"]) (simp add: send_span.simps)
  next
    case False
    define n where "n = min (length bs) 16"
    define s1 where "s1 = s\<lparr>sd_last_present_stats := sd_last_present_stats s\<lparr>ps_i2c_write_count := ps_i2c_write_count (sd_last_present_stats s) + 1,
                       ps_data_payload_bytes := ps_data_payload_bytes (sd_last_present_stats s) + of_nat (1 + n)\<rparr>\<rparr>"
    have w1: "wire s1 = wire s" by (simp add: s1_def)
    obtain ok2 s2 where w: "ssd1306_write hw s1 (0x40 # take n bs) = (ok2, s2)" by fastforce
    have eq: "(ok, s') = (if \<not> ok2 then (False, s2) else send_span hw s2 (drop n bs))"
      using 1(2) False unfolding send_span.simps[of hw s bs] Let_def n_def[symmetric] s1_def[symmetric] w prod.case by auto
    show ?thesis
    proof (cases ok2)
      case True
      have ih: "\<exists>ds e. wire s' = wire s2 @ data_packets ds @ e \<and> (e = [] \<or> e = [(0x3C, [])])
         \<and> (\<exists>rest. drop n bs = concat ds @ rest \<and> (ok \<longrightarrow> rest = [] \<and> e = []))"
        using 1(1)[OF False n_def refl s1_def] w True eq by simp
      then obtain ds e rest where i: "wire s' = wire s2 @ data_packets ds @ e" "e = [] \<or> e = [(0x3C, [])]"
        "drop n bs = concat ds @ rest" "ok \<longrightarrow> rest = [] \<and> e = []" by blast
      have "bs = concat (take n bs # ds) @ rest" using i(3) append_take_drop_id[of n bs] by simp
      moreover have "wire s' = wire s @ data_packets (take n bs # ds) @ e" using i(1) ssd1306_write_wire(1)[OF w] True w1 by simp
      ultimately show ?thesis using i(2,4) by blast
    next
      case False
      then have s': "s' = s2" "\<not> ok" using eq by simp_all
      from ssd1306_write_wire(2)[OF w] consider "wire s2 = wire s1" | k where "wire s2 = wire s1 @ [(0x3C, take k (0x40 # take n bs))]" by blast
      then show ?thesis
      proof cases
        case 1
        then show ?thesis using s' w1 by (intro exI[of _ "[]"]) simp
      next
        case (2 k)
        show ?thesis
        proof (cases k)
          case 0
          then show ?thesis using 2 s' w1 by (intro exI[of _ "[]"] exI[of _ "[(0x3C, [])]"]) simp
        next
          case (Suc j)
          have "bs = concat [take j (take n bs)] @ drop (min j n) bs" by (simp add: min_def)
          then show ?thesis using 2 s' w1 Suc
            by (intro exI[of _ "[take j (take n bs)]"] exI[of _ "[]"]) (auto intro: exI[of _ "drop (min j n) bs"])
        qed
      qed
    qed
  qed
qed

definition screen :: "mono_fb \<Rightarrow> bool" where
  "screen fb \<longleftrightarrow> fb_ok fb \<and> unat (fb_width fb) = 128 \<and> unat (fb_height fb) = 32"

text \<open>
  As long as the data sheet covers what was sent, the panel is set up, and outside the dirty
  spans its memory holds the framebuffer.
\<close>

definition set_up :: "ssd1306 \<Rightarrow> bool" where
  "set_up s \<longleftrightarrow> (orderly (wire s) \<longrightarrow> horizontal (wire s))"

definition tracked :: "panel \<Rightarrow> ssd1306 \<Rightarrow> mono_fb \<Rightarrow> bool" where
  "tracked shows' s fb \<longleftrightarrow> screen fb \<and> set_up s
     \<and> (orderly (wire s) \<longrightarrow> (\<forall>page < 4. \<forall>x < 128. covered fb page x \<or> shows' (wire s) page x = fb_byte fb page x))"

lemma screen_pages: "screen fb \<Longrightarrow> mono_fb_page_count fb = 4"
proof -
  assume "screen fb"
  then have "fb_height fb = 32" by (simp add: screen_def word_unat_eq_iff)
  then show ?thesis by (simp add: mono_fb_page_count_def)
qed

lemma tracked_drawn: "tracked g s fb \<Longrightarrow> drawn fb fb' \<Longrightarrow> tracked g s fb'"
proof -
  assume t: "tracked g s fb" and d: "drawn fb fb'"
  have sc: "screen fb" "screen fb'" using t d by (auto simp: tracked_def screen_def drawn_def)
  have "covered fb' q x \<or> g (wire s) q x = fb_byte fb' q x" if "orderly (wire s)" "q < 4" "x < 128" for q x
    using t d that screen_pages[OF sc(1)] sc(1) unfolding tracked_def drawn_def screen_def by metis
  then show ?thesis using sc(2) t by (simp add: tracked_def)
qed

text \<open>Writing a prefix of a dirty span.\<close>

lemma tracked_put:
  assumes t: "tracked g s fb" and p: "page < 4" and b: "bit (fb_dirty_pages fb) page"
    and x: "x0 = unat (fb_dirty_min_x fb ! page)" "x1 = unat (fb_dirty_max_x fb ! page)"
    and bs: "take (x1 + 1 - x0) (drop (page * 128 + x0) (the (fb_data fb))) = bs @ rest"
    and w: "orderly (wire s') \<Longrightarrow> orderly (wire s) \<and> horizontal (wire s') \<and> g (wire s') = put_bytes page x0 bs (g (wire s))"
  shows "tracked g s' fb" "rest = [] \<Longrightarrow> tracked g s' (mono_fb_clear_dirty fb (page_bit page))"
proof -
  have sc: "screen fb" "fb_ok fb" "unat (fb_width fb) = 128" using t by (auto simp: tracked_def screen_def)
  note pc = screen_pages[OF sc(1)]
  note sp = dirty_span_ok[OF sc(2), of page, unfolded pc, OF p, folded x]
  have le: "x0 \<le> x1" "x1 < 128" using sp(2)[OF b] sc(3) x by (simp_all add: word_le_nat_alt)
  have len: "length (the (fb_data fb)) = 512" using fb_okD(6)[OF sc(2)] pc sc(3) by simp
  have total: "length (bs @ rest) = x1 + 1 - x0" using len p le bs[symmetric] by simp
  have nth: "(bs @ rest) ! i = fb_byte fb page (x0 + i)" if "i < x1 + 1 - x0" for i
    using that len p le unfolding bs[symmetric] fb_byte_def sc(3) by (simp add: add.assoc)
  have su: "set_up s'" using w by (auto simp: set_up_def)
  have new: "g (wire s') q y = (if q = page \<and> x0 \<le> y \<and> y < x0 + length bs then fb_byte fb q y else g (wire s) q y)"
    if o: "orderly (wire s')" for q y
  proof (cases "q = page \<and> x0 \<le> y \<and> y < x0 + length bs")
    case True
    then have i: "y - x0 < length bs" by auto
    then have "y - x0 < x1 + 1 - x0" using total by simp
    then have "bs ! (y - x0) = fb_byte fb page y" using nth[of "y - x0"] i True by (simp add: nth_append)
    then show ?thesis using True w[OF o] by (simp add: put_bytes_def)
  next
    case False
    then show ?thesis using w[OF o] by (auto simp: put_bytes_def)
  qed
  show "tracked g s' fb" using t new w su by (auto simp: tracked_def)
  assume r: "rest = []"
  have lb: "x0 + length bs = x1 + 1" using total r le by simp
  have cl: "fb_ok (mono_fb_clear_dirty fb (page_bit page))" "fb_data (mono_fb_clear_dirty fb (page_bit page)) = fb_data fb"
    "fb_width (mono_fb_clear_dirty fb (page_bit page)) = fb_width fb" "fb_height (mono_fb_clear_dirty fb (page_bit page)) = fb_height fb"
    using clear_dirty_ok[OF sc(2), of page] p by simp_all
  have cc: "covered (mono_fb_clear_dirty fb (page_bit page)) q y \<longleftrightarrow> q \<noteq> page \<and> covered fb q y" for q y
    using clear_dirty_ok(5)[OF sc(2), of page] p by simp
  have "q \<noteq> page \<and> covered fb q y \<or> g (wire s') q y = fb_byte fb q y" if "orderly (wire s')" "q < 4" "y < 128" for q y
    using that t new[of q y] w lb sp(3)[of y] b unfolding tracked_def by (cases "q = page") auto
  then show "tracked g s' (mono_fb_clear_dirty fb (page_bit page))"
    using sc(1) cl cc su by (simp add: tracked_def screen_def fb_byte_def)
qed

lemma unat_width_eq: "screen fb \<Longrightarrow> unat (fb_width fb) = 128 \<and> unat (fb_height fb) = 32 \<and> fb_ok fb"
  by (simp add: screen_def)

text \<open>Presenting a page keeps the panel tracked, and a success cleans the page.\<close>

lemma present_page_tracked:
  assumes spec: "gddram_spec g" and t: "tracked g s fb" and p: "page < 4"
    and e: "present_page hw s fb page = (ok, s', fb')"
  shows "tracked g s' fb'" "fb_data fb' = fb_data fb"
    "bit (fb_dirty_pages fb') q \<Longrightarrow> bit (fb_dirty_pages fb) q \<and> (ok \<longrightarrow> q \<noteq> page)"
    "q \<noteq> page \<Longrightarrow> bit (fb_dirty_pages fb') q = bit (fb_dirty_pages fb) q"
proof -
  have sc: "screen fb" "fb_ok fb" using t by (auto simp: tracked_def screen_def)
  note pc = screen_pages[OF sc(1)]
  have "tracked g s' fb' \<and> fb_data fb' = fb_data fb \<and> (\<forall>q. bit (fb_dirty_pages fb') q \<longrightarrow> bit (fb_dirty_pages fb) q \<and> (ok \<longrightarrow> q \<noteq> page))
    \<and> (\<forall>q. q \<noteq> page \<longrightarrow> bit (fb_dirty_pages fb') q = bit (fb_dirty_pages fb) q)"
  proof (cases "bit (fb_dirty_pages fb) page")
    case False
    then have "mono_fb_dirty_span fb page = None" using dirty_span_ok(1)[OF sc(2), of page] p pc by simp
    then show ?thesis using e t by (auto simp: present_page_def)
  next
    case True
    define x0 where "x0 = unat (fb_dirty_min_x fb ! page)"
    define x1 where "x1 = unat (fb_dirty_max_x fb ! page)"
    have sp: "mono_fb_dirty_span fb page = Some (x0, x1)" "x0 \<le> x1" "x1 < 128"
      using dirty_span_ok(1,2)[OF sc(2), of page] p pc True sc(1) by (simp_all add: x0_def x1_def screen_def word_le_nat_alt)
    define bs where "bs = take (x1 + 1 - x0) (drop (page * 128 + x0) (the (fb_data fb)))"
    obtain ok1 s1 where w: "ssd1306_set_page_window hw s page x0 x1 = (ok1, s1)" by fastforce
    define s0 where "s0 = s\<lparr>sd_last_present_stats := sd_last_present_stats s\<lparr>ps_i2c_write_count := ps_i2c_write_count (sd_last_present_stats s) + 1,
                       ps_window_payload_bytes := ps_window_payload_bytes (sd_last_present_stats s) + 7\<rparr>\<rparr>"
    have w0: "ssd1306_write hw s0 (window_packet page x0 x1) = (ok1, s1)" "wire s0 = wire s"
      using w sp p by (simp_all add: ssd1306_set_page_window_def window_packet_def s0_def Let_def)
    note ww = ssd1306_write_wire[OF w0(1)]
    have keep: "tracked g s2 fb" if "wire s2 = wire s \<or> (\<exists>n. wire s2 = wire s @ [(0x3C, take n (window_packet page x0 x1))])" for s2
    proof -
      have "quiet_packet (window_packet page x0 x1)" by (simp add: window_packet_def quiet_packets)
      note q = quiet_step[OF spec this]
      have "orderly (wire s2) \<Longrightarrow> orderly (wire s) \<and> g (wire s2) = g (wire s) \<and> (horizontal (wire s) \<longrightarrow> horizontal (wire s2))"
        using that q orderly_prefix by fastforce
      then show ?thesis using t by (auto simp: tracked_def set_up_def)
    qed
    show ?thesis
    proof (cases ok1)
      case False
      then have "ok = False" "s' = s1" "fb' = fb" using e sp(1) w by (auto simp: present_page_def)
      then show ?thesis using keep[of s1] ww(2) w0(2) by auto
    next
      case True
      obtain ok2 s2 where d: "send_span hw s1 bs = (ok2, s2)" by fastforce
      obtain ds r rest where a: "wire s2 = wire s1 @ data_packets ds @ r" "r = [] \<or> r = [(0x3C, [])]"
        "bs = concat ds @ rest" "ok2 \<longrightarrow> rest = [] \<and> r = []"
        using send_span_wire[OF d] by blast
      have lb: "length (concat ds) \<le> x1 + 1 - x0"
      proof -
        have "length bs \<le> x1 + 1 - x0" by (simp add: bs_def)
        then show ?thesis using a(3) by simp
      qed
      let ?w = "wire s @ [(0x3C, window_packet page x0 x1)] @ data_packets ds"
      have w2: "wire s2 = ?w @ r" using a(1) ww(1)[OF True] w0(2) by simp
      have put: "orderly (wire s) \<and> horizontal (wire s2) \<and> g (wire s2) = put_bytes page x0 (concat ds) (g (wire s))" if o: "orderly (wire s2)"
      proof -
        have o1: "orderly ?w" using o orderly_prefix[of ?w r] w2 by simp
        have o0: "orderly (wire s)" by (rule orderly_prefix[OF o1])
        then have h: "horizontal (wire s)" using t by (simp add: tracked_def set_up_def)
        note sp2 = window_span[OF spec h p sp(2,3) lb]
        have "g (wire s2) = g ?w \<and> horizontal (wire s2)"
        proof (cases "r = []")
          case True
          then show ?thesis using w2 sp2(1) by simp
        next
          case False
          then have "wire s2 = ?w @ [(0x3C, take 0 [])]" using a(2) w2 by simp
          then show ?thesis using quiet_step[OF spec quiet_packets(1)] o sp2(1) by metis
        qed
        then show ?thesis using o0 sp2(2) by simp
      qed
      note tp = tracked_put[OF t p \<open>bit (fb_dirty_pages fb) page\<close> x0_def x1_def a(3)[unfolded bs_def] put]
      have eq: "(ok, s', fb') = (if \<not> ok2 then (False, s2, fb)
          else (True, s2\<lparr>sd_last_present_stats := sd_last_present_stats s2\<lparr>ps_presented_pages := ps_presented_pages (sd_last_present_stats s2) + 1\<rparr>\<rparr>,
                mono_fb_clear_dirty fb (page_bit page)))"
        using e True unfolding present_page_def sp(1) option.case prod.case w bs_def[symmetric] d
          by (cases ok2) (auto simp: Let_def)
      show ?thesis
      proof (cases ok2)
        case False
        then show ?thesis using eq tp(1) by simp
      next
        case True
        then have "tracked g s2 (mono_fb_clear_dirty fb (page_bit page))" using tp(2) a(4) by simp
        then show ?thesis using eq True clear_dirty_ok(2,6)[OF sc(2), of page] p by (simp add: tracked_def set_up_def)
      qed
    qed
  qed
  then show "tracked g s' fb'" "fb_data fb' = fb_data fb"
    "bit (fb_dirty_pages fb') q \<Longrightarrow> bit (fb_dirty_pages fb) q \<and> (ok \<longrightarrow> q \<noteq> page)"
    "q \<noteq> page \<Longrightarrow> bit (fb_dirty_pages fb') q = bit (fb_dirty_pages fb) q" by blast+
qed

lemma present_pages_tracked:
  assumes spec: "gddram_spec g"
  shows "tracked g s fb \<Longrightarrow> set ps \<subseteq> {0..<4} \<Longrightarrow> present_pages hw d s fb ps = (ok, s', fb') \<Longrightarrow>
    \<forall>q. bit (fb_dirty_pages fb) q \<longrightarrow> bit d q \<Longrightarrow>
    tracked g s' fb' \<and> fb_data fb' = fb_data fb
    \<and> (\<forall>q. bit (fb_dirty_pages fb') q \<longrightarrow> bit (fb_dirty_pages fb) q \<and> (ok \<longrightarrow> q \<notin> set ps))"
proof (induction ps arbitrary: s fb)
  case Nil
  then show ?case by simp
next
  case (Cons p ps)
  have p: "p < 4" "p < 8" using Cons.prems(2) by auto
  show ?case
  proof (cases "bit d p")
    case False
    then have e: "present_pages hw d s fb ps = (ok, s', fb')" using Cons.prems(3) p by (simp add: and_page_bit)
    have "\<not> bit (fb_dirty_pages fb) p" using Cons.prems(4) False by blast
    then show ?thesis using Cons.IH[OF Cons.prems(1) _ e Cons.prems(4)] Cons.prems(2) by auto
  next
    case True
    obtain ok1 s1 fb1 where e1: "present_page hw s fb p = (ok1, s1, fb1)" by (metis prod_cases3)
    note t1 = present_page_tracked[OF spec Cons.prems(1) p(1) e1]
    have eq: "(ok, s', fb') = (if \<not> ok1 then (False, s1, fb1) else present_pages hw d s1 fb1 ps)"
      using Cons.prems(3) True p e1 by (auto simp: and_page_bit split: if_splits)
    show ?thesis
    proof (cases ok1)
      case False
      then show ?thesis using eq t1(1,2,3) by auto
    next
      case True
      then have e: "present_pages hw d s1 fb1 ps = (ok, s', fb')" using eq by simp
      have "\<forall>q. bit (fb_dirty_pages fb1) q \<longrightarrow> bit d q" using t1(3) Cons.prems(4) by blast
      from Cons.IH[OF t1(1) _ e this] Cons.prems(2) show ?thesis using t1(2,3) True by auto
    qed
  qed
qed

lemma no_high_pages:
  assumes "screen fb"
  shows "fb_dirty_pages fb AND NOT (page_bit 4 - 1) = 0"
proof (rule bit_word_eqI)
  fix q assume "q < LENGTH(8)"
  have "fb_ok fb" using assms by (simp add: screen_def)
  then have "bit (fb_dirty_pages fb) q \<Longrightarrow> q < 4" using dirty_bits_below[of fb q] screen_pages[OF assms] by simp
  moreover have "bit (page_bit 4 - 1) q \<longleftrightarrow> q < 4" using low_bits[of 4 q] by simp
  ultimately show "bit (fb_dirty_pages fb AND NOT (page_bit 4 - 1)) q \<longleftrightarrow> bit (0 :: u8) q"
    by (auto simp: bit_and_iff bit_not_iff)
qed

lemma present_tracked:
  assumes spec: "gddram_spec g" and t: "tracked g s fb" and e: "ssd1306_present hw s fb = (ok, s', fb')"
  shows "tracked g s' fb'" "fb_data fb' = fb_data fb"
    "ok \<Longrightarrow> orderly (wire s') \<Longrightarrow> page < 4 \<Longrightarrow> x < 128 \<Longrightarrow> g (wire s') page x = fb_byte fb' page x"
proof -
  have sc: "screen fb" "fb_ok fb" "fb_data fb \<noteq> None" using t by (auto simp: tracked_def screen_def fb_ok_def mono_fb_valid_def)
  note pc = screen_pages[OF sc(1)]
  define s1 where "s1 = ssd1306_present_stats_reset s"
  have w1: "wire s1 = wire s" by (simp add: s1_def ssd1306_present_stats_reset_def)
  have t1: "tracked g s1 fb" using t w1 by (simp add: tracked_def set_up_def)
  note m = no_high_pages[OF sc(1)]
  have eq: "(ok, s', fb') = (if fb_dirty_pages fb = 0 then (True, s1, fb) else present_pages hw (fb_dirty_pages fb) s1 fb [0..<4])"
    using e sc m by (simp add: ssd1306_present_def s1_def[symmetric] screen_def Let_def)
  have r: "tracked g s' fb' \<and> fb_data fb' = fb_data fb \<and> (ok \<longrightarrow> (\<forall>q < 4. \<not> bit (fb_dirty_pages fb') q))"
  proof (cases "fb_dirty_pages fb = 0")
    case True
    then show ?thesis using eq t1 by simp
  next
    case False
    then have e2: "present_pages hw (fb_dirty_pages fb) s1 fb [0..<4] = (ok, s', fb')" using eq by simp
    from present_pages_tracked[OF spec t1 _ e2] show ?thesis by auto
  qed
  then show "tracked g s' fb'" "fb_data fb' = fb_data fb" by blast+
  assume a: ok "orderly (wire s')" "page < 4" "x < 128"
  then have "\<not> covered fb' page x" using r by (auto simp: covered_def and_page_bit)
  then show "g (wire s') page x = fb_byte fb' page x" using r a(2-4) unfolding tracked_def by blast
qed

end
