(* ===== verification/Ssd1306_Panel.thy ===== *)
theory Ssd1306_Panel
  imports Ssd1306
begin

unbundle bit_operations_syntax

text \<open>
  When the presentation of \<open>src/src/drivers/ssd1306.c\<close> succeeds, what the driver's calls
  leave of the panel's set-up, and a panel that keeps to its data sheet.
\<close>

section \<open>A panel that answers\<close>

lemma ssd1306_write_answered: "i2c_answers hw \<Longrightarrow> p \<noteq> [] \<Longrightarrow> fst (ssd1306_write hw s p)"
  using i2c1_write_answered[of hw p "sd_bus s" "0x3C"] by (auto simp: ssd1306_write_def split: prod.split)

lemma send_span_answered: "i2c_answers hw \<Longrightarrow> fst (send_span hw s bs)"
proof (induction hw s bs rule: send_span.induct)
  case (1 hw s bs)
  show ?case
  proof (cases "bs = []")
    case True
    then show ?thesis by (simp add: send_span.simps)
  next
    case False
    define n where "n = min (length bs) 16"
    define s1 where "s1 = s\<lparr>sd_last_present_stats := sd_last_present_stats s\<lparr>ps_i2c_write_count := ps_i2c_write_count (sd_last_present_stats s) + 1,
                       ps_data_payload_bytes := ps_data_payload_bytes (sd_last_present_stats s) + of_nat (1 + n)\<rparr>\<rparr>"
    obtain ok2 s2 where w: "ssd1306_write hw s1 (0x40 # take n bs) = (ok2, s2)" by fastforce
    have ok2: ok2 using ssd1306_write_answered[OF 1(2), of "0x40 # take n bs" s1] w by simp
    have "send_span hw s bs = send_span hw s2 (drop n bs)"
      using False ok2 unfolding send_span.simps[of hw s bs] Let_def n_def[symmetric] s1_def[symmetric] w prod.case by simp
    then show ?thesis using 1(1)[OF False n_def refl s1_def] w ok2 1(2) by simp
  qed
qed

text \<open>A panel that keeps to its data sheet.\<close>

definition panel_shows :: panel where
  "panel_shows w = (case panel_after (\<lambda>_ _. 0) w of None \<Rightarrow> (\<lambda>_ _. 0) | Some st \<Rightarrow> pn_ram st)"

lemma panel_shows_gddram: "gddram_spec panel_shows"
  unfolding gddram_spec_def by (intro exI[of _ "\<lambda>_ _. 0"]) (simp add: panel_shows_def)

lemma present_page_answered:
  assumes hw: "i2c_answers hw" and sc: "screen fb" and p: "page < 4" and b: "bit (fb_dirty_pages fb) page"
  shows "\<exists>s'. present_page hw s fb page = (True, s', mono_fb_clear_dirty fb (page_bit page)) \<and> (horizontal (wire s) \<longrightarrow> horizontal (wire s'))"
proof -
  have ok: "fb_ok fb" "unat (fb_width fb) = 128" using sc by (simp_all add: screen_def)
  define x0 where "x0 = unat (fb_dirty_min_x fb ! page)"
  define x1 where "x1 = unat (fb_dirty_max_x fb ! page)"
  have sp: "mono_fb_dirty_span fb page = Some (x0, x1)" "x0 \<le> x1" "x1 < 128"
    using dirty_span_ok(1,2)[OF ok(1), of page] p screen_pages[OF sc] b ok(2) by (simp_all add: x0_def x1_def word_le_nat_alt)
  define s0 where "s0 = s\<lparr>sd_last_present_stats := sd_last_present_stats s\<lparr>ps_i2c_write_count := ps_i2c_write_count (sd_last_present_stats s) + 1,
                       ps_window_payload_bytes := ps_window_payload_bytes (sd_last_present_stats s) + 7\<rparr>\<rparr>"
  obtain ok1 s1 where w: "ssd1306_write hw s0 (window_packet page x0 x1) = (ok1, s1)" by fastforce
  have sw: "ssd1306_set_page_window hw s page x0 x1 = (ok1, s1)"
    using w sp p by (simp add: ssd1306_set_page_window_def window_packet_def s0_def Let_def)
  have ok1: ok1 using ssd1306_write_answered[OF hw, of "window_packet page x0 x1" s0] w by (simp add: window_packet_def)
  define bs where "bs = take (x1 + 1 - x0) (drop (page * 128 + x0) (the (fb_data fb)))"
  obtain ok2 s2 where d: "send_span hw s1 bs = (ok2, s2)" by fastforce
  have ok2: ok2 using send_span_answered[OF hw, of s1 bs] d by simp
  have "horizontal (wire s2)" if h: "horizontal (wire s)"
  proof -
    obtain ds where ds: "wire s2 = wire s1 @ data_packets ds" "bs = concat ds" using send_span_wire[OF d] ok2 by auto
    have w1: "wire s1 = wire s @ [(0x3C, window_packet page x0 x1)]" using ssd1306_write_wire(1)[OF w] ok1 by (simp add: s0_def)
    have "length (concat ds) \<le> x1 + 1 - x0" unfolding ds(2)[symmetric] bs_def by simp
    from window_span(1)[OF panel_shows_gddram h p sp(2,3) this] show ?thesis unfolding ds(1) w1 by simp
  qed
  then show ?thesis using ok1 ok2 sw d sp(1) by (simp add: present_page_def bs_def Let_def)
qed

lemma clean_screen: "screen fb \<Longrightarrow> page < 4 \<Longrightarrow> screen (mono_fb_clear_dirty fb (page_bit page))"
  using clear_dirty_ok[of fb page] by (simp add: screen_def)

lemma present_pages_answered:
  assumes hw: "i2c_answers hw"
  shows "screen fb \<Longrightarrow> set ps \<subseteq> {0..<4} \<Longrightarrow> distinct ps \<Longrightarrow> \<forall>q \<in> set ps. bit d q \<longrightarrow> bit (fb_dirty_pages fb) q \<Longrightarrow>
    fst (present_pages hw d s fb ps) \<and> (horizontal (wire s) \<longrightarrow> horizontal (wire (fst (snd (present_pages hw d s fb ps)))))"
proof (induction ps arbitrary: s fb)
  case Nil
  then show ?case by simp
next
  case (Cons p ps)
  have p: "p < 4" using Cons.prems(2) by auto
  show ?case
  proof (cases "bit d p")
    case False
    then show ?thesis using Cons.IH[OF Cons.prems(1)] Cons.prems p by (simp add: and_page_bit)
  next
    case True
    then obtain s' where e: "present_page hw s fb p = (True, s', mono_fb_clear_dirty fb (page_bit p))"
      and h: "horizontal (wire s) \<longrightarrow> horizontal (wire s')"
      using present_page_answered[OF hw Cons.prems(1) p] Cons.prems(4) by auto
    have "fb_ok fb" using Cons.prems(1) by (simp add: screen_def)
    then have keep: "bit (fb_dirty_pages (mono_fb_clear_dirty fb (page_bit p))) q" if "bit (fb_dirty_pages fb) q" "q \<noteq> p" for q
      using clear_dirty_ok(6)[of fb p q] p that by simp
    have "\<forall>q \<in> set ps. bit d q \<longrightarrow> bit (fb_dirty_pages (mono_fb_clear_dirty fb (page_bit p))) q"
      using Cons.prems(3,4) keep by auto
    then show ?thesis
      using Cons.IH[OF clean_screen[OF Cons.prems(1) p]] Cons.prems(2,3) True p e h by (simp add: and_page_bit)
  qed
qed

lemma present_answered:
  assumes hw: "i2c_answers hw" and sc: "screen fb"
  shows "fst (ssd1306_present hw s fb)" "horizontal (wire s) \<Longrightarrow> horizontal (wire (fst (snd (ssd1306_present hw s fb))))"
proof -
  have ok: "fb_ok fb" "fb_data fb \<noteq> None" using sc by (auto simp: screen_def fb_ok_def mono_fb_valid_def)
  have w: "wire (ssd1306_present_stats_reset s) = wire s" by (simp add: ssd1306_present_stats_reset_def)
  have "fst (present_pages hw (fb_dirty_pages fb) (ssd1306_present_stats_reset s) fb [0..<4])
    \<and> (horizontal (wire (ssd1306_present_stats_reset s)) \<longrightarrow>
       horizontal (wire (fst (snd (present_pages hw (fb_dirty_pages fb) (ssd1306_present_stats_reset s) fb [0..<4])))))"
    by (rule present_pages_answered[OF hw sc]) auto
  then show "fst (ssd1306_present hw s fb)" "horizontal (wire s) \<Longrightarrow> horizontal (wire (fst (snd (ssd1306_present hw s fb))))"
    using sc ok w no_high_pages[OF sc] by (simp_all add: ssd1306_present_def screen_def Let_def)
qed

section \<open>The driver's calls\<close>

text \<open>Writing a packet whole or cut leaves a set-up panel set up, if it is one of the driver's.\<close>

definition driver_packet :: "bytes \<Rightarrow> bool" where
  "driver_packet p \<longleftrightarrow> quiet_packet p \<or> (\<exists>bs. p = 0x40 # bs)"

lemma foldl_panel_put_mode: "pn_mode (foldl panel_put st bs) = pn_mode st"
  by (induction bs arbitrary: st) (simp_all add: panel_put_def panel_advance_def)

lemma driver_step:
  assumes "driver_packet p" "panel_step st (0x3C, take n p) = Some st'" "pn_mode st = 0"
  shows "pn_mode st' = 0"
proof (cases "quiet_packet p")
  case True
  then show ?thesis using assms(2,3) unfolding quiet_packet_def by blast
next
  case False
  then obtain bs where "p = 0x40 # bs" using assms(1) by (auto simp: driver_packet_def)
  then show ?thesis using assms(2,3) by (cases n) (auto simp: panel_step_def foldl_panel_put_mode)
qed

lemma write_set_up:
  assumes "driver_packet p" "ssd1306_write hw s p = (ok, s')" "set_up s"
  shows "set_up s'"
proof (cases "wire s' = wire s")
  case True
  then show ?thesis using assms(3) by (simp add: set_up_def)
next
  case False
  then obtain n where n: "wire s' = wire s @ [(0x3C, take n p)]" using ssd1306_write_wire(2)[OF assms(2)] by blast
  have "horizontal (wire s')" if o: "orderly (wire s')"
  proof -
    have h: "horizontal (wire s)" using o orderly_prefix assms(3) n by (simp add: set_up_def)
    show ?thesis
      unfolding horizontal_def
    proof
      fix ram
      obtain st where st: "panel_after ram (wire s) = Some st" "pn_mode st = 0" using h by (auto simp: horizontal_def)
      obtain st' where "panel_after ram (wire s') = Some st'" using o unfolding orderly_def by blast
      then show "\<exists>st. panel_after ram (wire s') = Some st \<and> pn_mode st = 0"
        using driver_step[OF assms(1) _ st(2)] st(1) unfolding n panel_after_snoc by auto
    qed
  qed
  then show ?thesis by (simp add: set_up_def)
qed

lemma write_all_set_up: "(\<And>p. p \<in> set ps \<Longrightarrow> driver_packet p) \<Longrightarrow> set_up s \<Longrightarrow> set_up (snd (ssd1306_write_all hw s ps))"
proof (induction ps arbitrary: s)
  case (Cons p ps)
  obtain ok s1 where w: "ssd1306_write hw s p = (ok, s1)" by fastforce
  have "set_up s1" using write_set_up[OF _ w] Cons.prems by simp
  then show ?case using Cons w by simp
qed simp

lemma init_set_up: "ssd1306_init hw s = (ok, s') \<Longrightarrow> ok \<or> set_up s \<Longrightarrow> set_up s'"
proof -
  assume e: "ssd1306_init hw s = (ok, s')" and o: "ok \<or> set_up s"
  have w: "ssd1306_write hw s ssd1306_init_packet = (ok, s')" using e by (simp add: ssd1306_init_def)
  show "set_up s'"
  proof (cases ok)
    case True
    then show ?thesis using ssd1306_write_wire(1)[OF w] init_wire orderly_prefix by (simp add: set_up_def)
  next
    case False
    then show ?thesis using write_set_up[OF _ w] o quiet_packets(2) by (simp add: driver_packet_def)
  qed
qed

lemma display_on_set_up: "ssd1306_display_on hw s = (ok, s') \<Longrightarrow> set_up s \<Longrightarrow> set_up s'"
  using write_set_up[of "[0x00, 0xAF]" hw s ok s'] quiet_packets(3) by (simp add: ssd1306_display_on_def ssd1306_command_def driver_packet_def)

lemma ping_set_up: "ssd1306_ping hw s = (ok, s') \<Longrightarrow> set_up s \<Longrightarrow> set_up s'"
  using write_set_up[of "[0x00, 0xE3]" hw s ok s'] quiet_packets(4) by (simp add: ssd1306_ping_def ssd1306_command_def driver_packet_def)

lemma full_window_set_up: "ssd1306_set_full_window hw s = (ok, s') \<Longrightarrow> set_up s \<Longrightarrow> set_up s'"
  using write_set_up[of "[0x00, 0x21, 0x00, 0x7F, 0x22, 0x00, 0x03]" hw s ok s'] quiet_packets(5)
  by (simp add: ssd1306_set_full_window_def driver_packet_def)

lemma present_full_set_up: "ssd1306_present_full hw s d = (ok, s') \<Longrightarrow> set_up s \<Longrightarrow> set_up s'"
proof -
  assume e: "ssd1306_present_full hw s d = (ok, s')" and u: "set_up s"
  show "set_up s'"
  proof (cases d)
    case None
    then show ?thesis using e u by (simp add: ssd1306_present_full_def)
  next
    case (Some bs)
    obtain o1 s1 where w: "ssd1306_set_full_window hw s = (o1, s1)" by fastforce
    have "set_up s1" by (rule full_window_set_up[OF w u])
    then have "set_up (snd (ssd1306_write_all hw s1 (map (\<lambda>k. 0x40 # take 16 (drop (16 * k) bs)) [0..<32])))" "set_up s1"
      by (auto intro!: write_all_set_up simp: driver_packet_def)
    then show ?thesis using e Some w by (auto simp: ssd1306_present_full_def split: if_splits)
  qed
qed

lemma checkerboard_set_up: "ssd1306_show_checkerboard hw s = (ok, s') \<Longrightarrow> set_up s \<Longrightarrow> set_up s'"
proof -
  assume e: "ssd1306_show_checkerboard hw s = (ok, s')" and u: "set_up s"
  obtain o1 s1 where w1: "ssd1306_init hw s = (o1, s1)" by fastforce
  obtain o2 s2 where w2: "ssd1306_set_full_window hw s1 = (o2, s2)" by fastforce
  obtain o3 s3 where w3: "ssd1306_fill_checkerboard hw s2 = (o3, s3)" by fastforce
  obtain o4 s4 where w4: "ssd1306_display_on hw s3 = (o4, s4)" by fastforce
  have u1: "set_up s1" using init_set_up[OF w1] u by simp
  have u2: "set_up s2" by (rule full_window_set_up[OF w2 u1])
  have "set_up (snd (ssd1306_fill_checkerboard hw s2))"
    unfolding ssd1306_fill_checkerboard_def by (rule write_all_set_up) (auto simp: driver_packet_def u2)
  then have u3: "set_up s3" using w3 by simp
  have u4: "set_up s4" by (rule display_on_set_up[OF w4 u3])
  show ?thesis using e w1 w2 w3 w4 u1 u2 u3 u4 by (auto simp: ssd1306_show_checkerboard_def split: if_splits)
qed

text \<open>Any sequence of the calls of the driver, with any bus.\<close>

inductive driver_calls :: "ssd1306 \<Rightarrow> ssd1306 \<Rightarrow> bool" where
  dc_none: "driver_calls s s"
| dc_init: "driver_calls s s1 \<Longrightarrow> ssd1306_init hw s1 = (ok, s2) \<Longrightarrow> driver_calls s s2"
| dc_present: "driver_calls s s1 \<Longrightarrow> screen fb \<Longrightarrow> ssd1306_present hw s1 fb = (ok, s2, fb') \<Longrightarrow> driver_calls s s2"
| dc_present_full: "driver_calls s s1 \<Longrightarrow> ssd1306_present_full hw s1 d = (ok, s2) \<Longrightarrow> driver_calls s s2"
| dc_display_on: "driver_calls s s1 \<Longrightarrow> ssd1306_display_on hw s1 = (ok, s2) \<Longrightarrow> driver_calls s s2"
| dc_ping: "driver_calls s s1 \<Longrightarrow> ssd1306_ping hw s1 = (ok, s2) \<Longrightarrow> driver_calls s s2"
| dc_checkerboard: "driver_calls s s1 \<Longrightarrow> ssd1306_show_checkerboard hw s1 = (ok, s2) \<Longrightarrow> driver_calls s s2"

lemma span_set_up: "set_up s \<Longrightarrow> set_up (snd (send_span hw s bs))"
proof (induction hw s bs rule: send_span.induct)
  case (1 hw s bs)
  show ?case
  proof (cases "bs = []")
    case True
    then show ?thesis using 1(2) by (simp add: send_span.simps)
  next
    case False
    define n where "n = min (length bs) 16"
    define s1 where "s1 = s\<lparr>sd_last_present_stats := sd_last_present_stats s\<lparr>ps_i2c_write_count := ps_i2c_write_count (sd_last_present_stats s) + 1,
                       ps_data_payload_bytes := ps_data_payload_bytes (sd_last_present_stats s) + of_nat (1 + n)\<rparr>\<rparr>"
    obtain ok2 s2 where w: "ssd1306_write hw s1 (0x40 # take n bs) = (ok2, s2)" by fastforce
    have u2: "set_up s2" using write_set_up[OF _ w] 1(2) by (simp add: driver_packet_def set_up_def s1_def)
    have "send_span hw s bs = (if \<not> ok2 then (False, s2) else send_span hw s2 (drop n bs))"
      using False unfolding send_span.simps[of hw s bs] Let_def n_def[symmetric] s1_def[symmetric] w prod.case by auto
    then show ?thesis using 1(1)[OF False n_def refl s1_def] w u2 by (cases ok2) simp_all
  qed
qed

lemma page_set_up:
  assumes "present_page hw s fb page = (ok, s', fb')" "set_up s"
  shows "set_up s'"
proof (cases "mono_fb_dirty_span fb page")
  case None
  then show ?thesis using assms by (simp add: present_page_def)
next
  case (Some x)
  obtain x0 x1 where x: "x = (x0, x1)" by fastforce
  obtain o1 s1 where w: "ssd1306_set_page_window hw s page x0 x1 = (o1, s1)" by fastforce
  have u1: "set_up s1"
  proof (cases "page \<ge> 4 \<or> x0 \<ge> 128 \<or> x1 \<ge> 128 \<or> x0 > x1")
    case True
    then show ?thesis using w assms(2) by (simp add: ssd1306_set_page_window_def)
  next
    case False
    then show ?thesis
      using w assms(2) quiet_packets(5) write_set_up[of "[0x00, 0x21, of_nat x0, of_nat x1, 0x22, of_nat page, of_nat page]" hw _ o1 s1]
      by (simp add: ssd1306_set_page_window_def Let_def driver_packet_def set_up_def)
  qed
  define bs where "bs = take (x1 + 1 - x0) (drop (page * 128 + x0) (the (fb_data fb)))"
  obtain o2 s2 where d: "send_span hw s1 bs = (o2, s2)" by fastforce
  have u2: "set_up s2" using span_set_up[OF u1, of hw bs] d by simp
  have "(ok, s', fb') = (if \<not> o1 then (False, s1, fb) else if \<not> o2 then (False, s2, fb)
      else (True, s2\<lparr>sd_last_present_stats := sd_last_present_stats s2\<lparr>ps_presented_pages := ps_presented_pages (sd_last_present_stats s2) + 1\<rparr>\<rparr>,
            mono_fb_clear_dirty fb (page_bit page)))"
    using assms(1) unfolding present_page_def Some x option.case prod.case w bs_def[symmetric] d by (auto simp: Let_def)
  then have "s' = s1 \<or> s' = s2 \<or> wire s' = wire s2" by (auto split: if_splits)
  then show ?thesis using u1 u2 by (auto simp: set_up_def)
qed

lemma present_pages_set_up: "present_pages hw d s fb ps = (ok, s', fb') \<Longrightarrow> set_up s \<Longrightarrow> set_up s'"
proof (induction ps arbitrary: s fb)
  case (Cons p ps)
  show ?case
  proof (cases "d AND page_bit p = 0")
    case True
    then show ?thesis using Cons by simp
  next
    case False
    obtain o1 s1 fb1 where e: "present_page hw s fb p = (o1, s1, fb1)" by (metis prod_cases3)
    note u = page_set_up[OF e Cons.prems(2)]
    show ?thesis using Cons.prems(1) Cons.IH[OF _ u] False e u by (cases o1) auto
  qed
qed simp

lemma present_set_up: "ssd1306_present hw s fb = (ok, s', fb') \<Longrightarrow> set_up s \<Longrightarrow> set_up s'"
  using present_pages_set_up[of hw "fb_dirty_pages fb" "ssd1306_present_stats_reset s" fb "[0..<4]" ok s' fb']
  by (auto simp: ssd1306_present_def Let_def ssd1306_present_stats_reset_def set_up_def split: if_splits)

lemma driver_calls_set_up: "driver_calls s s' \<Longrightarrow> set_up s \<Longrightarrow> set_up s'"
  by (induction rule: driver_calls.induct)
    (blast dest: init_set_up present_set_up present_full_set_up display_on_set_up ping_set_up checkerboard_set_up)+

text \<open>What a presentation does to the surface, whatever the panel holds.\<close>

lemma page_clears:
  assumes "present_page hw s fb p = (ok, s', fb')" "screen fb" "p < 4"
  shows "screen fb' \<and> fb_data fb' = fb_data fb \<and> (\<forall>q. bit (fb_dirty_pages fb') q \<longleftrightarrow> bit (fb_dirty_pages fb) q \<and> \<not> (ok \<and> q = p))"
proof (cases ok)
  case False
  then have "fb' = fb" using assms(1) by (auto simp: present_page_def Let_def split: option.splits prod.splits if_splits)
  then show ?thesis using False assms(2) by simp
next
  case True
  then have e: "fb' = mono_fb_clear_dirty fb (page_bit p)"
    using assms(1) by (auto simp: present_page_def Let_def split: option.splits prod.splits if_splits)
  have "fb_ok fb" using assms(2) by (simp add: screen_def)
  then show ?thesis using e True clean_screen[OF assms(2,3)] clear_dirty_ok(2,6)[of fb p] assms(3) by auto
qed

lemma pages_clear:
  "present_pages hw d s fb ps = (ok, s', fb') \<Longrightarrow> screen fb \<Longrightarrow> set ps \<subseteq> {0..<4} \<Longrightarrow> \<forall>q. bit (fb_dirty_pages fb) q \<longrightarrow> bit d q \<Longrightarrow>
   screen fb' \<and> fb_data fb' = fb_data fb \<and> (\<forall>q. bit (fb_dirty_pages fb') q \<longrightarrow> bit (fb_dirty_pages fb) q \<and> (ok \<longrightarrow> q \<notin> set ps))"
proof (induction ps arbitrary: s fb)
  case (Cons p ps)
  have p: "p < 4" "p < 8" using Cons.prems(3) by auto
  show ?case
  proof (cases "bit d p")
    case False
    then have e: "present_pages hw d s fb ps = (ok, s', fb')" using Cons.prems(1) p by (simp add: and_page_bit)
    have "\<not> bit (fb_dirty_pages fb) p" using Cons.prems(4) False by blast
    then show ?thesis using Cons.IH[OF e] Cons.prems(2-4) by auto
  next
    case True
    obtain o1 s1 fb1 where e1: "present_page hw s fb p = (o1, s1, fb1)" by (metis prod_cases3)
    note c = page_clears[OF e1 Cons.prems(2) p(1)]
    have eq: "(ok, s', fb') = (if \<not> o1 then (False, s1, fb1) else present_pages hw d s1 fb1 ps)"
      using Cons.prems(1) True p e1 by (auto simp: and_page_bit split: if_splits)
    show ?thesis
    proof (cases o1)
      case False
      then show ?thesis using eq c by simp
    next
      case True
      then have e: "present_pages hw d s1 fb1 ps = (ok, s', fb')" using eq by simp
      show ?thesis using Cons.IH[OF e] c True Cons.prems(3,4) by auto
    qed
  qed
qed simp

lemma present_clears:
  assumes e: "ssd1306_present hw s fb = (ok, s', fb')" and sc: "screen fb"
  shows "screen fb'" "fb_data fb' = fb_data fb \<and> fb_width fb' = fb_width fb" "ok \<Longrightarrow> fb_dirty_pages fb' = 0"
proof -
  have ok: "fb_ok fb" "fb_data fb \<noteq> None" using sc by (auto simp: screen_def fb_ok_def mono_fb_valid_def)
  have eq: "(ok, s', fb') = (if fb_dirty_pages fb = 0 then (True, ssd1306_present_stats_reset s, fb)
      else present_pages hw (fb_dirty_pages fb) (ssd1306_present_stats_reset s) fb [0..<4])"
    using e sc ok no_high_pages[OF sc] by (simp add: ssd1306_present_def screen_def Let_def)
  have r: "screen fb' \<and> fb_data fb' = fb_data fb \<and> (ok \<longrightarrow> (\<forall>q < 4. \<not> bit (fb_dirty_pages fb') q))"
  proof (cases "fb_dirty_pages fb = 0")
    case True
    then show ?thesis using eq sc by simp
  next
    case False
    then have p: "present_pages hw (fb_dirty_pages fb) (ssd1306_present_stats_reset s) fb [0..<4] = (ok, s', fb')" using eq by simp
    show ?thesis using pages_clear[OF p sc] by auto
  qed
  then show "screen fb'" by blast
  have "fb_width fb' = fb_width fb" using r sc by (simp add: screen_def word_unat_eq_iff)
  then show "fb_data fb' = fb_data fb \<and> fb_width fb' = fb_width fb" using r by blast
  assume ok
  show "fb_dirty_pages fb' = 0"
  proof (rule bit_word_eqI)
    fix q assume "q < LENGTH(8)"
    have "bit (fb_dirty_pages fb') q \<Longrightarrow> q < 4" using dirty_bits_below[of fb' q] screen_pages[of fb'] r by (simp add: screen_def)
    then show "bit (fb_dirty_pages fb') q \<longleftrightarrow> bit (0 :: u8) q" using r \<open>ok\<close> by auto
  qed
qed

end
