(* ===== verification/Oled_Screen.thy ===== *)
theory Oled_Screen
  imports Oled_Teletype Fb_Pixels Ssd1306_Panel
begin

unbundle bit_operations_syntax

text \<open>
  From text to pixels: what \<open>oled_console_render\<close> of \<open>src/src/kernel/oled_console.c\<close> paints.
\<close>

section \<open>What a rendering paints\<close>

abbreviation (input) visible_columns :: "mono_rect \<Rightarrow> nat" where "visible_columns clip \<equiv> available_cells (r_width clip) 5 6 21"
abbreviation (input) visible_rows :: "mono_rect \<Rightarrow> nat" where "visible_rows clip \<equiv> available_cells (r_height clip) 6 7 3"

text \<open>The picture of three lines of text: each position belongs to a cell of six by seven.\<close>

definition text_picture :: "mono_rect \<Rightarrow> bytes list \<Rightarrow> int \<Rightarrow> int \<Rightarrow> bool" where
  "text_picture clip ls px py =
     (let column = (px - r_x clip) div 6; row = (py - r_y clip) div 7 in
      glyph_picture (r_x clip + 6 * column) (r_y clip + 7 * row) (font5x6_glyph (ls ! nat row ! nat column)) font5x6_metrics px py)"

definition text_row :: "mono_rect \<Rightarrow> nat \<Rightarrow> int \<Rightarrow> int \<Rightarrow> bool" where
  "text_row clip row px py \<longleftrightarrow> text_renderer_clip_contains clip px py
     \<and> px < r_x clip + 6 * int (visible_columns clip) \<and> r_y clip + 7 * int row \<le> py \<and> py < r_y clip + 7 * int row + 7"

lemma clip_from: "text_renderer_clip_contains clip px py \<Longrightarrow> r_x clip \<le> px \<and> r_y clip \<le> py"
  by (auto simp: text_renderer_clip_contains_def text_renderer_axis_contains_def split: if_splits)

lemma cell_of: "x + n * q \<le> p \<Longrightarrow> p < x + n * q + n \<Longrightarrow> 0 < n \<Longrightarrow> (p - x) div n = (q :: int)"
  by (rule int_div_pos_eq[of _ _ _ "p - x - n * q"]) linarith+

lemma render_cell_paints:
  assumes "fb_sized fb" "row < 3"
  shows "paints (text_picture clip (console_rows c))
    (\<lambda>px py. text_renderer_clip_contains clip px py \<and> in_cell (r_x clip + 6 * int column) (r_y clip + 7 * int row) font5x6_metrics px py)
    fb (render_cell c clip row fb column)"
proof -
  have g: "oc_cells c ! ((oc_first_row c + row) mod 3) = console_rows c ! row" using assms(2) by (simp add: console_rows_def)
  have e: "render_cell c clip row fb column
      = text_renderer_draw_glyph_cell fb clip (r_x clip + 6 * int column) (r_y clip + 7 * int row)
          (Some (font5x6_glyph (console_rows c ! row ! column))) (Some font5x6_metrics)"
    by (simp add: render_cell_def font5x6_metrics_def g mult.commute)
  have p: "paints (glyph_picture (r_x clip + 6 * int column) (r_y clip + 7 * int row) (font5x6_glyph (console_rows c ! row ! column)) font5x6_metrics)
      (\<lambda>px py. text_renderer_clip_contains clip px py \<and> in_cell (r_x clip + 6 * int column) (r_y clip + 7 * int row) font5x6_metrics px py)
      fb (render_cell c clip row fb column)"
    unfolding e by (rule glyph_cell_paints[OF assms(1)]) (simp_all add: font5x6_metrics_def)
  show ?thesis
  proof (rule paints_cong[OF p refl])
    fix px py
    assume "text_renderer_clip_contains clip px py \<and> in_cell (r_x clip + 6 * int column) (r_y clip + 7 * int row) font5x6_metrics px py"
    then have "(px - r_x clip) div 6 = int column" "(py - r_y clip) div 7 = int row"
      by (intro cell_of; simp add: in_cell_def font5x6_metrics_def)+
    then show "text_picture clip (console_rows c) px py
        = glyph_picture (r_x clip + 6 * int column) (r_y clip + 7 * int row) (font5x6_glyph (console_rows c ! row ! column)) font5x6_metrics px py"
      by (simp add: text_picture_def)
  qed
qed

lemma in_columns: "x \<le> px \<Longrightarrow> (\<exists>column \<in> {0..<n}. x + 6 * int column \<le> px \<and> px < x + 6 * int column + 6) \<longleftrightarrow> px < x + 6 * int n"
proof
  assume a: "x \<le> px" "px < x + 6 * int n"
  define k where "k = nat ((px - x) div 6)"
  have "int k = (px - x) div 6" using a(1) by (simp add: k_def pos_imp_zdiv_nonneg_iff)
  then have "6 * int k \<le> px - x" "px - x < 6 * int k + 6" by simp_all
  then show "\<exists>column \<in> {0..<n}. x + 6 * int column \<le> px \<and> px < x + 6 * int column + 6"
    using a(2) unfolding atLeastLessThan_iff Bex_def by (intro exI[of _ k]) linarith
qed auto

lemma render_columns_paint:
  assumes "fb_sized fb" "row < 3"
  shows "paints (text_picture clip (console_rows c)) (text_row clip row) fb (foldl (render_cell c clip row) fb [0..<visible_columns clip])"
proof -
  let ?cells = "\<lambda>px py. \<exists>column \<in> set [0..<visible_columns clip].
      text_renderer_clip_contains clip px py \<and> in_cell (r_x clip + 6 * int column) (r_y clip + 7 * int row) font5x6_metrics px py"
  have p: "paints (text_picture clip (console_rows c)) ?cells fb (foldl (render_cell c clip row) fb [0..<visible_columns clip])"
    by (rule paints_foldl[OF render_cell_paints[OF _ assms(2)] assms(1)])
  show ?thesis
  proof (rule paints_cong[OF p _ refl])
    fix px py
    show "text_row clip row px py = ?cells px py"
      using clip_from[of clip px py] in_columns[of "r_x clip" px "visible_columns clip"]
      by (auto simp: text_row_def in_cell_def font5x6_metrics_def)
  qed
qed

text \<open>The dirty rows that are painted.\<close>

definition render_mask :: "oled_console \<Rightarrow> nat \<Rightarrow> u8" where
  "render_mask c n = foldl (\<lambda>m row. if bit (oc_dirty_rows c) row then m OR page_bit row else m) 0 [0..<n]"

lemma render_rows_paint:
  assumes "fb_sized fb" "n \<le> 3"
  shows "\<exists>fb'. foldl (render_row c clip (visible_columns clip)) (fb, 0) [0..<n] = (fb', render_mask c n)
     \<and> paints (text_picture clip (console_rows c)) (\<lambda>px py. \<exists>row < n. bit (oc_dirty_rows c) row \<and> text_row clip row px py) fb fb'"
  using assms(2)
proof (induction n)
  case 0
  then show ?case using assms(1) by (auto simp: render_mask_def fb_sized_def intro: paints_none)
next
  case (Suc n)
  let ?pic = "text_picture clip (console_rows c)"
  obtain fb1 where f: "foldl (render_row c clip (visible_columns clip)) (fb, 0) [0..<n] = (fb1, render_mask c n)"
      "paints ?pic (\<lambda>px py. \<exists>row < n. bit (oc_dirty_rows c) row \<and> text_row clip row px py) fb fb1"
    using Suc by auto
  have sz: "fb_sized fb1" using f(2) assms(1) drawn_sized unfolding paints_def by blast
  have m: "render_mask c (Suc n) = (if bit (oc_dirty_rows c) n then render_mask c n OR page_bit n else render_mask c n)"
    by (simp add: render_mask_def)
  have n: "n < 3" using Suc.prems by simp
  show ?case
  proof (cases "bit (oc_dirty_rows c) n")
    case False
    then have e: "foldl (render_row c clip (visible_columns clip)) (fb, 0) [0..<Suc n] = (fb1, render_mask c (Suc n))"
      using f(1) m and_page_bit_any[of "oc_dirty_rows c" n] by (simp add: render_row_def)
    show ?thesis unfolding e using False f(2) by (auto elim!: paints_cong simp: less_Suc_eq)
  next
    case True
    define fb2 where "fb2 = foldl (render_cell c clip n) fb1 [0..<visible_columns clip]"
    have e: "foldl (render_row c clip (visible_columns clip)) (fb, 0) [0..<Suc n] = (fb2, render_mask c (Suc n))"
      using f(1) m True and_page_bit_any[of "oc_dirty_rows c" n] by (simp add: render_row_def fb2_def)
    have "paints ?pic (text_row clip n) fb1 fb2" unfolding fb2_def by (rule render_columns_paint[OF sz n])
    from paints_trans[OF f(2) this] show ?thesis unfolding e using True by (auto elim!: paints_cong simp: less_Suc_eq)
  qed
qed

lemma render_mask_bit: "n \<le> 3 \<Longrightarrow> bit (render_mask c n) k \<longleftrightarrow> k < n \<and> bit (oc_dirty_rows c) k"
  by (induction n) (auto simp: render_mask_def bit_or_iff page_bit_bits less_Suc_eq)

text \<open>A rendering paints the dirty rows that fit, and those alone become clean.\<close>

lemma render_paints:
  assumes sz: "fb_sized fb" and e: "oled_console_render c fb clip = (c', fb')"
  shows "paints (text_picture clip (console_rows c)) (\<lambda>px py. \<exists>row < visible_rows clip. bit (oc_dirty_rows c) row \<and> text_row clip row px py) fb fb'"
    "\<exists>d. c' = c\<lparr>oc_dirty_rows := d\<rparr> \<and> (\<forall>k < 3. bit d k \<longleftrightarrow> bit (oc_dirty_rows c) k \<and> \<not> (0 < visible_columns clip \<and> k < visible_rows clip))"
proof -
  let ?n = "visible_rows clip" and ?pic = "text_picture clip (console_rows c)"
  have n: "?n \<le> 3" by (simp add: available_cells_def Let_def)
  obtain d where d: "fb_data fb = Some d" using sz by (auto simp: fb_sized_def fb_ok_def mono_fb_valid_def)
  obtain fb1 where f: "foldl (render_row c clip (visible_columns clip)) (fb, 0) [0..<?n] = (fb1, render_mask c ?n)"
    "paints ?pic (\<lambda>px py. \<exists>row < ?n. bit (oc_dirty_rows c) row \<and> text_row clip row px py) fb fb1"
    using render_rows_paint[OF sz n] by blast
  have idle: "?n = 0 \<or> visible_columns clip = 0" if "r_width clip \<le> 0 \<or> r_height clip \<le> 0"
    using that by (auto simp: available_cells_def)
  have both: "paints ?pic (\<lambda>px py. \<exists>row < ?n. bit (oc_dirty_rows c) row \<and> text_row clip row px py) fb fb'
    \<and> (\<exists>d. c' = c\<lparr>oc_dirty_rows := d\<rparr> \<and> (\<forall>k < 3. bit d k \<longleftrightarrow> bit (oc_dirty_rows c) k \<and> \<not> (0 < visible_columns clip \<and> k < ?n)))"
  proof (cases "r_width clip \<le> 0 \<or> r_height clip \<le> 0 \<or> oc_dirty_rows c = 0 \<or> visible_columns clip = 0 \<or> ?n = 0")
    case True
    then have "oled_console_render c fb clip = (c, fb)"
      using d by (cases "r_width clip \<le> 0 \<or> r_height clip \<le> 0") (simp_all add: oled_console_render_def font5x6_metrics_def Let_def)
    then have eq: "c' = c" "fb' = fb" using e by simp_all
    have none: "\<not> (\<exists>row < ?n. bit (oc_dirty_rows c) row \<and> text_row clip row px py)" for px py
    proof -
      have "visible_columns clip = 0 \<Longrightarrow> \<not> text_row clip row px py" for row
        using clip_from[of clip px py] by (auto simp: text_row_def)
      then show ?thesis using True idle by auto
    qed
    have "c = c\<lparr>oc_dirty_rows := oc_dirty_rows c\<rparr>" by simp
    moreover have "bit (oc_dirty_rows c) k \<Longrightarrow> \<not> (0 < visible_columns clip \<and> k < ?n)" for k using True idle by auto
    moreover have "paints ?pic (\<lambda>px py. \<exists>row < ?n. bit (oc_dirty_rows c) row \<and> text_row clip row px py) fb fb"
      using none sz unfolding fb_sized_def by (intro paints_none) auto
    ultimately show ?thesis unfolding eq by blast
  next
    case False
    then have "(c', fb') = (c\<lparr>oc_dirty_rows := oc_dirty_rows c AND NOT (render_mask c ?n)\<rparr>, fb1)"
      using e d f(1) by (simp add: oled_console_render_def font5x6_metrics_def Let_def)
    then have eq: "c' = c\<lparr>oc_dirty_rows := oc_dirty_rows c AND NOT (render_mask c ?n)\<rparr>" "fb' = fb1" by simp_all
    have "bit (oc_dirty_rows c AND NOT (render_mask c ?n)) k \<longleftrightarrow> bit (oc_dirty_rows c) k \<and> \<not> (0 < visible_columns clip \<and> k < ?n)" for k
      using False render_mask_bit[OF n, of c k] by (auto simp: bit_and_iff bit_not_iff dest: bit_u8_bound)
    then show ?thesis using f(2) eq by blast
  qed
  then show "paints ?pic (\<lambda>px py. \<exists>row < ?n. bit (oc_dirty_rows c) row \<and> text_row clip row px py) fb fb'"
    "\<exists>d. c' = c\<lparr>oc_dirty_rows := d\<rparr> \<and> (\<forall>k < 3. bit d k \<longleftrightarrow> bit (oc_dirty_rows c) k \<and> \<not> (0 < visible_columns clip \<and> k < ?n))"
    by blast+
qed

section \<open>Clean rows\<close>

definition text_area :: "mono_rect \<Rightarrow> int \<Rightarrow> int \<Rightarrow> bool" where
  "text_area clip px py \<longleftrightarrow> (\<exists>row < visible_rows clip. text_row clip row px py)"

text \<open>A clean row of the console is on the framebuffer.\<close>

definition painted :: "mono_rect \<Rightarrow> oled_console \<Rightarrow> mono_fb \<Rightarrow> bool" where
  "painted clip c fb \<longleftrightarrow> (\<forall>row < visible_rows clip. \<forall>x < 128. \<forall>y < 32.
     \<not> bit (oc_dirty_rows c) row \<longrightarrow> text_row clip row (int x) (int y) \<longrightarrow>
     fb_pixel fb x y = text_picture clip (console_rows c) (int x) (int y))"

lemma text_row_exact: "text_row clip row px py \<Longrightarrow> text_row clip row' px py \<Longrightarrow> row = row'"
  by (auto simp: text_row_def)

lemma painted_render:
  assumes sz: "fb_sized fb" "unat (fb_width fb) = 128" "unat (fb_height fb) = 32" and p: "painted clip c fb"
    and e: "oled_console_render c fb clip = (c', fb')"
  shows "painted clip c' fb'" "drawn fb fb'" "console_rows c' = console_rows c"
    "x < 128 \<Longrightarrow> y < 32 \<Longrightarrow> text_area clip (int x) (int y) \<Longrightarrow>
       fb_pixel fb' x y = text_picture clip (console_rows c) (int x) (int y)"
proof -
  note r = render_paints[OF sz(1) e]
  show cr: "console_rows c' = console_rows c" using r(2) by (auto intro: rows_frame)
  show "drawn fb fb'" using r(1) by (simp add: paints_def)
  have px: "fb_pixel fb' x y = text_picture clip (console_rows c) (int x) (int y)"
    if a: "x < 128" "y < 32" "row < visible_rows clip" "text_row clip row (int x) (int y)" for x y row
  proof -
    have f: "fb_pixel fb' x y = (if \<exists>row < visible_rows clip. bit (oc_dirty_rows c) row \<and> text_row clip row (int x) (int y)
        then text_picture clip (console_rows c) (int x) (int y) else fb_pixel fb x y)"
      using r(1) a(1,2) sz(2,3) by (simp add: paints_def)
    show ?thesis
    proof (cases "bit (oc_dirty_rows c) row")
      case True
      then show ?thesis using f a(3,4) by auto
    next
      case False
      then have "fb_pixel fb x y = text_picture clip (console_rows c) (int x) (int y)" using p a unfolding painted_def by blast
      then show ?thesis using f by simp
    qed
  qed
  then show "painted clip c' fb'" using cr by (simp add: painted_def)
  show "x < 128 \<Longrightarrow> y < 32 \<Longrightarrow> text_area clip (int x) (int y) \<Longrightarrow>
       fb_pixel fb' x y = text_picture clip (console_rows c) (int x) (int y)"
    using px by (auto simp: text_area_def)
qed

text \<open>The picture in a row depends on the line of that row alone.\<close>

lemma text_picture_row:
  assumes "text_row clip row px py" "ls' ! row = ls ! row"
  shows "text_picture clip ls' px py = text_picture clip ls px py"
proof -
  have "(py - r_y clip) div 7 = int row" using assms(1) by (intro cell_of) (simp_all add: text_row_def)
  then show ?thesis using assms(2) by (simp add: text_picture_def Let_def)
qed

lemma painted_marked:
  assumes p: "painted clip c fb" and m: "marked c c'"
  shows "painted clip c' fb"
  unfolding painted_def
proof (intro allI impI)
  fix row x y
  assume a: "row < visible_rows clip" "x < 128" "y < 32" "\<not> bit (oc_dirty_rows c') row" "text_row clip row (int x) (int y)"
  have "visible_rows clip \<le> 3" by (simp add: available_cells_def Let_def)
  then have "row < 3" using a(1) by simp
  then have "\<not> bit (oc_dirty_rows c) row" "console_rows c' ! row = console_rows c ! row" using m a(4) unfolding marked_def by blast+
  then show "fb_pixel fb x y = text_picture clip (console_rows c') (int x) (int y)"
    using p a text_picture_row[OF a(5), of "console_rows c'" "console_rows c"] unfolding painted_def by simp
qed

lemma screen_sized: "screen fb \<Longrightarrow> fb_sized fb \<and> unat (fb_width fb) = 128 \<and> unat (fb_height fb) = 32"
  by (simp add: screen_def fb_sized_def)

lemma screen_drawn: "screen fb \<Longrightarrow> drawn fb fb' \<Longrightarrow> screen fb'"
  by (simp add: screen_def drawn_def)

text \<open>A bus that answers, and the driver at power-up.\<close>

definition answering_hw :: i2c_hw where
  "answering_hw = (\<lambda>_. \<lparr>io_busy = 0, io_start = 0, io_addr = (0, I2C_DONE), io_txe = (\<lambda>_. (0, I2C_DONE)), io_btf = (0, I2C_DONE), io_taken = 0\<rparr>)"

definition demo_driver :: ssd1306 where
  "demo_driver = \<lparr>sd_bus = \<lparr>ib_count = 0, ib_wire = []\<rparr>, sd_last_present_stats =
     \<lparr>ps_window_payload_bytes = 0, ps_data_payload_bytes = 0, ps_i2c_write_count = 0, ps_presented_pages = 0\<rparr>\<rparr>"

end
