(* ===== verification/Application_Screen.thy ===== *)
theory Application_Screen
  imports Application_Bridge Oled_Screen
begin

unbundle bit_operations_syntax

text \<open>
  The applications of the firmware: with the registry of
  \<open>src/src/kernel/application_runtime.c\<close> both applications can be started at any time, the
  view is that of the active one, and the bridge
  (\<open>src/src/kernel/application_runtime_bridge.c\<close>) reports every change of the services once.
\<close>

section \<open>The views of the built-in applications\<close>

definition application_text :: "u16 \<Rightarrow> bytes list" where
  "application_text i = (if i = 1 then [chars ''DEUS OS'', chars ''DESKTOP'', chars ''READY'']
     else [chars ''DEUS OS'', chars ''DEVICE INFO'', chars ''STM32F103''])"

definition application_storage :: "u16 \<Rightarrow> application_view" where
  "application_storage i = map (\<lambda>t. t @ replicate (22 - length t) 0) (application_text i)"

definition application_screen :: "u16 \<Rightarrow> bytes list" where
  "application_screen i = map (\<lambda>t. t @ replicate (21 - length t) 0x20) (application_text i)"

definition view_ok :: "application_view \<Rightarrow> bool" where
  "view_ok v \<longleftrightarrow> length v = 3 \<and> (\<forall>r \<in> set v. length r = 22)"

lemma home_render: "application_system_home_render v (Some sv) = (True, application_storage 1)"
  unfolding application_system_home_render_def by simp code_simp

lemma info_render: "application_device_info_render v (Some sv) = (True, application_storage 2)"
  unfolding application_device_info_render_def by simp code_simp

lemma storage_ok: "view_ok (application_storage i)"
  by (simp add: view_ok_def application_storage_def application_text_def)

lemma storage_desired: "map (\<lambda>row. desired_row (application_storage i ! row) False 21) [0..<3] = application_screen i"
proof (cases "i = 1")
  case True
  have "map (\<lambda>row. desired_row (application_storage 1 ! row) False 21) [0..<3] = application_screen 1" by code_simp
  then show ?thesis using True by simp
next
  case False
  have "map (\<lambda>row. desired_row (application_storage 2 ! row) False 21) [0..<3] = application_screen 2" by code_simp
  then show ?thesis using False by (simp add: application_storage_def application_screen_def application_text_def)
qed

lemma view_equal_iff:
  assumes "view_ok v" "view_ok w"
  shows "application_view_equal v w \<longleftrightarrow> v = w"
proof
  assume e: "application_view_equal v w"
  have r: "length (v ! k) = 22" "length (w ! k) = 22" if "k < 3" for k using assms that by (simp_all add: view_ok_def)
  have "v ! k = w ! k" if "k < 3" for k
    using e that r[OF that] by (intro nth_equalityI) (auto simp: application_view_equal_def list_all_iff)
  then show "v = w" using assms by (intro nth_equalityI) (simp_all add: view_ok_def)
qed (simp add: application_view_equal_def list_all_iff)

lemma view_copy_id: "view_ok v \<Longrightarrow> application_view_copy v = v"
proof -
  assume v: "view_ok v"
  have "map (\<lambda>column. v ! row ! column) [0..<22] = v ! row" if "row < 3" for row
    using v that map_nth[of "v ! row"] by (simp add: view_ok_def)
  then have "application_view_copy v = map (\<lambda>row. v ! row) [0..<3]" by (simp add: application_view_copy_def)
  also have "\<dots> = v" using v map_nth[of v] by (simp add: view_ok_def)
  finally show ?thesis .
qed

section \<open>The runtime with the registry of the firmware\<close>

text \<open>Nobody owns the display, or the owner runs, the other one is stopped, and the view is the owner's.\<close>

definition firmware_ok :: "application_runtime \<Rightarrow> bool" where
  "firmware_ok rt \<longleftrightarrow> view_ok (rt_view rt) \<and> \<not> rt_render_pending rt
     \<and> (rt_initialized rt \<longrightarrow>
          (rt_active_id rt, rt_states rt) \<in> {(0, [APPLICATION_STATE_STOPPED, APPLICATION_STATE_STOPPED]),
             (1, [APPLICATION_STATE_RUNNING, APPLICATION_STATE_STOPPED]), (2, [APPLICATION_STATE_STOPPED, APPLICATION_STATE_RUNNING])})
     \<and> (\<not> rt_initialized rt \<longrightarrow> rt_active_id rt = 0 \<and> rt_states rt = [APPLICATION_STATE_REGISTERED, APPLICATION_STATE_REGISTERED])
     \<and> (rt_active_id rt \<noteq> 0 \<longrightarrow> rt_view rt = application_storage (rt_active_id rt))"

abbreviation (input) apps :: registry where "apps \<equiv> application_registry"

lemma apps_index:
  "application_runtime_index_from_id apps i = (if i = 1 then Some 0 else if i = 2 then Some 1 else None)"
  by (simp add: application_runtime_index_from_id_def application_registry_def)

lemma apps_fields:
  "ad_start (apps ! 0) = Some application_builtin_start" "ad_start (apps ! Suc 0) = Some application_builtin_start"
  "ad_stop (apps ! 0) = Some application_builtin_stop" "ad_stop (apps ! Suc 0) = Some application_builtin_stop"
  "ad_event (apps ! 0) = Some application_builtin_event" "ad_event (apps ! Suc 0) = Some application_builtin_event"
  "ad_render (apps ! 0) = Some application_system_home_render" "ad_render (apps ! Suc 0) = Some application_device_info_render"
  "ad_init (apps ! 0) = Some True" "ad_init (apps ! Suc 0) = Some True" "length apps = 2"
  by (simp_all add: application_registry_def)

text \<open>Rendering the owner puts its view in place.\<close>

lemma apps_render:
  assumes "view_ok (rt_view rt)" "(rt_active_id rt, rt_states rt) \<in> {(1, [APPLICATION_STATE_RUNNING, APPLICATION_STATE_STOPPED]), (2, [APPLICATION_STATE_STOPPED, APPLICATION_STATE_RUNNING])}"
    "rt_initialized rt"
  shows "fst (application_runtime_render_active apps rt (Some sv))" "firmware_ok (snd (application_runtime_render_active apps rt (Some sv)))"
proof -
  have "fst (application_runtime_render_active apps rt (Some sv)) \<and> firmware_ok (snd (application_runtime_render_active apps rt (Some sv)))"
    using assms storage_ok view_copy_id[OF storage_ok] view_equal_iff[OF assms(1) storage_ok]
    by (auto simp: application_runtime_render_active_def apps_index apps_fields home_render info_render firmware_ok_def Let_def)
  then show "fst (application_runtime_render_active apps rt (Some sv))" "firmware_ok (snd (application_runtime_render_active apps rt (Some sv)))"
    by blast+
qed

lemma apps_start:
  assumes f: "firmware_ok rt"
  shows "firmware_ok (snd (application_runtime_start apps rt i sv))"
    "rt_initialized rt \<Longrightarrow> i \<in> {1, 2} \<Longrightarrow> sv \<noteq> None \<Longrightarrow>
      fst (application_runtime_start apps rt i sv) \<and> rt_active_id (snd (application_runtime_start apps rt i sv)) = i"
    "rt_initialized (snd (application_runtime_start apps rt i sv)) = rt_initialized rt"
proof -
  have "firmware_ok (snd (application_runtime_start apps rt i sv)) \<and> rt_initialized (snd (application_runtime_start apps rt i sv)) = rt_initialized rt
    \<and> (rt_initialized rt \<and> i \<in> {1, 2} \<and> sv \<noteq> None \<longrightarrow>
      fst (application_runtime_start apps rt i sv) \<and> rt_active_id (snd (application_runtime_start apps rt i sv)) = i)"
  proof (cases "rt_initialized rt \<and> i \<in> {1, 2} \<and> sv \<noteq> None")
    case False
    then have "snd (application_runtime_start apps rt i sv) = rt" by (auto simp: application_runtime_start_def apps_index)
    then show ?thesis using f False by auto
  next
    case True
    then obtain s where s: "sv = Some s" by auto
    have v: "view_ok (rt_view rt)" using f by (simp add: firmware_ok_def)
    have st: "(rt_active_id rt, rt_states rt) \<in> {(0, [APPLICATION_STATE_STOPPED, APPLICATION_STATE_STOPPED]),
             (1, [APPLICATION_STATE_RUNNING, APPLICATION_STATE_STOPPED]), (2, [APPLICATION_STATE_STOPPED, APPLICATION_STATE_RUNNING])}"
      using f True by (simp add: firmware_ok_def)
    have r: "firmware_ok (snd (application_runtime_render_active apps rt2 (Some s))) \<and> rt_active_id rt2 = i \<and> rt_initialized rt2"
      if "rt_view rt2 = rt_view rt" "rt_active_id rt2 = i" "rt_initialized rt2 = rt_initialized rt"
        "rt_states rt2 = (if i = 1 then [APPLICATION_STATE_RUNNING, APPLICATION_STATE_STOPPED] else [APPLICATION_STATE_STOPPED, APPLICATION_STATE_RUNNING])" for rt2
      using apps_render(2)[of rt2 s] that v True by auto
    show ?thesis
      using st True f r
      by (auto simp: application_runtime_start_def start_target_def application_runtime_stop_owner_def apps_index apps_fields s callback_ok_def
          application_builtin_start_def application_builtin_stop_def Let_def)
  qed
  then show "firmware_ok (snd (application_runtime_start apps rt i sv))"
    "rt_initialized rt \<Longrightarrow> i \<in> {1, 2} \<Longrightarrow> sv \<noteq> None \<Longrightarrow>
      fst (application_runtime_start apps rt i sv) \<and> rt_active_id (snd (application_runtime_start apps rt i sv)) = i"
    "rt_initialized (snd (application_runtime_start apps rt i sv)) = rt_initialized rt" by blast+
qed

lemma apps_event:
  assumes f: "firmware_ok rt"
  shows "firmware_ok (snd (application_runtime_dispatch_event apps rt ev sv))"
proof -
  have z: "application_builtin_event e s = 0" for e s by (simp add: application_builtin_event_def)
  have h: "ad_event (apps ! k) = Some application_builtin_event" if "application_runtime_index_from_id apps i = Some k" for i k
    using that by (auto simp: apps_index apps_fields split: if_splits)
  have "rt_view (snd (application_runtime_dispatch_event apps rt ev sv)) = rt_view rt
      \<and> rt_render_pending (snd (application_runtime_dispatch_event apps rt ev sv)) = rt_render_pending rt"
    by (auto simp: application_runtime_dispatch_event_def h z Let_def split: option.split)
  then show ?thesis using f dispatch_same_owner[of rt apps ev sv] by (simp add: firmware_ok_def same_owner_def)
qed

lemma apps_initialize: "firmware_ok rt \<Longrightarrow> firmware_ok (snd (application_runtime_initialize apps rt)) \<and> rt_initialized (snd (application_runtime_initialize apps rt))"
proof -
  assume f: "firmware_ok rt"
  have u: "[0..<2] = [0, Suc 0]" by (simp add: upt_rec)
  show ?thesis using f
    by (cases "rt_initialized rt") (auto simp: application_runtime_initialize_def initialize_application_def apps_index apps_fields u firmware_ok_def Let_def)
qed

lemma apps_other:
  "firmware_ok rt \<Longrightarrow> firmware_ok (application_runtime_view_consumed rt)"
  "firmware_ok rt \<Longrightarrow> firmware_ok (snd (application_runtime_service apps rt sv))"
  "firmware_ok rt \<Longrightarrow> firmware_ok (snd (application_runtime_stop apps rt sv))"
  "firmware_ok (application_runtime_reset apps)"
proof -
  show "firmware_ok rt \<Longrightarrow> firmware_ok (application_runtime_view_consumed rt)"
    by (simp add: firmware_ok_def application_runtime_view_consumed_def)
  show "firmware_ok rt \<Longrightarrow> firmware_ok (snd (application_runtime_service apps rt sv))"
    by (simp add: firmware_ok_def application_runtime_service_def)
  show "firmware_ok rt \<Longrightarrow> firmware_ok (snd (application_runtime_stop apps rt sv))"
    using apps_start(1)[of rt 1 sv] by (simp add: application_runtime_stop_def)
  show "firmware_ok (application_runtime_reset apps)"
    by (simp add: firmware_ok_def application_runtime_reset_def view_ok_def application_view_clear_def apps_fields numeral_2_eq_2)
qed

section \<open>The bridge\<close>

datatype bridge_call =
    Bridge_Initialize
  | Bridge_Service "application_service_snapshot option"
  | Bridge_Start u16 "application_service_snapshot option"
  | Bridge_Stop "application_service_snapshot option"
  | Bridge_View_Consumed

fun bridge_step :: "application_bridge \<Rightarrow> bridge_call \<Rightarrow> application_bridge" where
  "bridge_step b Bridge_Initialize = snd (application_runtime_bridge_initialize apps b)"
| "bridge_step b (Bridge_Service sv) = snd (application_runtime_bridge_service apps b sv)"
| "bridge_step b (Bridge_Start i sv) = snd (application_runtime_bridge_start apps b i sv)"
| "bridge_step b (Bridge_Stop sv) = snd (application_runtime_bridge_stop apps b sv)"
| "bridge_step b Bridge_View_Consumed = application_runtime_bridge_view_consumed b"

abbreviation (input) bridge_ok :: "application_bridge \<Rightarrow> bool" where "bridge_ok b \<equiv> firmware_ok (br_runtime b)"

text \<open>An event reaches the owner, is counted, and changes neither owner nor view.\<close>

lemma apps_dispatch:
  assumes f: "firmware_ok rt" and a: "rt_initialized rt" "rt_active_id rt \<noteq> 0"
  shows "application_runtime_dispatch_event apps rt (Some ev) (Some sv) = (True, rt\<lparr>rt_last_event_type := ae_type ev, rt_last_event_source := ae_source ev,
     rt_last_event_value0 := ae_value0 ev, rt_last_event_value1 := ae_value1 ev, rt_event_count := application_counter_increment (rt_event_count rt)\<rparr>)"
proof -
  have z: "application_builtin_event e s = 0" for e s by (simp add: application_builtin_event_def)
  have st: "(rt_active_id rt, rt_states rt) \<in> {(0, [APPLICATION_STATE_STOPPED, APPLICATION_STATE_STOPPED]),
             (1, [APPLICATION_STATE_RUNNING, APPLICATION_STATE_STOPPED]), (2, [APPLICATION_STATE_STOPPED, APPLICATION_STATE_RUNNING])}"
    using f a by (simp add: firmware_ok_def)
  show ?thesis using st a by (auto simp: application_runtime_dispatch_event_def apps_index apps_fields z Let_def)
qed

text \<open>A bridge with an owner, and what a number of events adds to it.\<close>

definition owned :: "application_bridge \<Rightarrow> bool" where
  "owned b \<longleftrightarrow> bridge_ok b \<and> rt_initialized (br_runtime b) \<and> rt_active_id (br_runtime b) \<noteq> 0"

definition counted :: "nat \<Rightarrow> application_bridge \<Rightarrow> application_bridge \<Rightarrow> bool" where
  "counted n b b' \<longleftrightarrow> owned b' \<and> rt_active_id (br_runtime b') = rt_active_id (br_runtime b)
     \<and> rt_event_count (br_runtime b') = (application_counter_increment ^^ n) (rt_event_count (br_runtime b))
     \<and> br_last_service_snapshot b' = br_last_service_snapshot b \<and> br_service_snapshot_valid b' = br_service_snapshot_valid b
     \<and> br_ready_event_sent b' = br_ready_event_sent b"

lemma counted_0: "owned b \<Longrightarrow> counted 0 b b"
  by (simp add: counted_def)

lemma counted_add: "counted m a b \<Longrightarrow> counted n b d \<Longrightarrow> counted (m + n) a d"
  by (simp add: counted_def funpow_add add.commute[of m n])

lemma bridge_event:
  assumes "owned b"
  shows "\<exists>b'. application_runtime_bridge_dispatch_event apps b type source v0 v1 (Some sv) = (True, b') \<and> counted 1 b b'"
  using assms apps_dispatch[of "br_runtime b" _ sv]
  by (auto simp: owned_def counted_def application_runtime_bridge_dispatch_event_def firmware_ok_def)

lemma bridge_report_counted:
  assumes "owned b"
  shows "\<exists>b'. bridge_report apps type source now before (Some sv) (True, b) = (True, b') \<and> counted (if now \<noteq> before then 1 else 0) b b'"
  using bridge_event[OF assms, of type source now before sv] counted_0[OF assms] by (auto simp: bridge_report_def)

definition changed_fields :: "application_service_snapshot \<Rightarrow> application_service_snapshot \<Rightarrow> nat" where
  "changed_fields prev now = (if sv_displayed_minute now \<noteq> sv_displayed_minute prev then 1 else 0)
     + (if sv_system_healthy now \<noteq> sv_system_healthy prev then 1 else 0)
     + (if sv_usb_configured now \<noteq> sv_usb_configured prev then 1 else 0)
     + (if sv_network_online now \<noteq> sv_network_online prev then 1 else 0)"

lemma ucast_u8_u32_eq: "(ucast (a :: u8) :: u32) = ucast b \<longleftrightarrow> a = b"
proof
  assume "(ucast a :: u32) = ucast b"
  moreover have "(ucast (ucast c :: u32) :: u8) = c" for c :: u8 by (rule bit_word_eqI) (simp add: bit_simps)
  ultimately show "a = b" by metis
qed simp

lemma bridge_report_u8:
  assumes "owned b"
  shows "\<exists>b'. bridge_report apps type source (ucast (now :: u8)) (ucast before) (Some sv) (True, b) = (True, b') \<and> counted (if now \<noteq> before then 1 else 0) b b'"
  using bridge_report_counted[OF assms, of type source "ucast now" "ucast before" sv] by (simp add: ucast_u8_u32_eq)

text \<open>The four reports one after the other.\<close>

lemma bridge_reports:
  assumes o: "owned b"
  shows "\<exists>b'. (let prev = br_last_service_snapshot b;
      s1 = bridge_report apps 2 2 (sv_displayed_minute now) (sv_displayed_minute prev) (Some now) (True, b);
      s2 = bridge_report apps 3 3 (ucast (sv_system_healthy now)) (ucast (sv_system_healthy prev)) (Some now) s1;
      s3 = bridge_report apps 4 4 (ucast (sv_usb_configured now)) (ucast (sv_usb_configured prev)) (Some now) s2
    in bridge_report apps 5 5 (ucast (sv_network_online now)) (ucast (sv_network_online prev)) (Some now) s3) = (True, b')
    \<and> counted (changed_fields (br_last_service_snapshot b) now) b b'"
proof -
  define prev where "prev = br_last_service_snapshot b"
  obtain b1 where b1: "bridge_report apps 2 2 (sv_displayed_minute now) (sv_displayed_minute prev) (Some now) (True, b) = (True, b1)"
    "counted (if sv_displayed_minute now \<noteq> sv_displayed_minute prev then 1 else 0) b b1"
    using bridge_report_counted[OF o] by blast
  then have o1: "owned b1" by (simp add: counted_def)
  obtain b2 where b2: "bridge_report apps 3 3 (ucast (sv_system_healthy now)) (ucast (sv_system_healthy prev)) (Some now) (True, b1) = (True, b2)"
    "counted (if sv_system_healthy now \<noteq> sv_system_healthy prev then 1 else 0) b1 b2"
    using bridge_report_u8[OF o1] by blast
  then have o2: "owned b2" by (simp add: counted_def)
  obtain b3 where b3: "bridge_report apps 4 4 (ucast (sv_usb_configured now)) (ucast (sv_usb_configured prev)) (Some now) (True, b2) = (True, b3)"
    "counted (if sv_usb_configured now \<noteq> sv_usb_configured prev then 1 else 0) b2 b3"
    using bridge_report_u8[OF o2] by blast
  then have o3: "owned b3" by (simp add: counted_def)
  obtain b4 where b4: "bridge_report apps 5 5 (ucast (sv_network_online now)) (ucast (sv_network_online prev)) (Some now) (True, b3) = (True, b4)"
    "counted (if sv_network_online now \<noteq> sv_network_online prev then 1 else 0) b3 b4"
    using bridge_report_u8[OF o3] by blast
  have "counted (changed_fields prev now) b b4"
    unfolding changed_fields_def by (intro counted_add[OF counted_add[OF counted_add]]) (fact b1(2) b2(2) b3(2) b4(2))+
  then show ?thesis using b1(1) b2(1) b3(1) b4(1) by (simp add: prev_def Let_def)
qed

lemma start_event_count: "rt_event_count (snd (application_runtime_start reg rt i sv)) = rt_event_count rt"
proof -
  have r: "rt_event_count (snd (application_runtime_render_active reg rt sv)) = rt_event_count rt" for rt
    by (auto simp: application_runtime_render_active_def Let_def split: option.split prod.split)
  have f: "rt_event_count (snd (application_runtime_start_home_fallback reg rt sv)) = rt_event_count rt" for rt
    by (auto simp: application_runtime_start_home_fallback_def Let_def r split: option.split)
  have t: "rt_event_count (snd (start_target reg rt i k sv)) = rt_event_count rt" for rt k
    by (simp add: start_target_def Let_def r f)
  have s: "rt_event_count (snd (application_runtime_stop_owner rt k st sv)) = rt_event_count rt" for rt k st
    by (simp add: application_runtime_stop_owner_def Let_def)
  show ?thesis
    unfolding application_runtime_start_def using s t
    by (auto split: option.split prod.split) (metis snd_conv)+
qed

text \<open>Servicing an initialized bridge.\<close>

definition pending_events :: "application_bridge \<Rightarrow> application_service_snapshot \<Rightarrow> nat" where
  "pending_events b now = (if br_ready_event_sent b then 0 else 1)
     + (if br_service_snapshot_valid b then changed_fields (br_last_service_snapshot b) now else 0)"

lemma bridge_service_counted:
  assumes f: "bridge_ok b" and i: "rt_initialized (br_runtime b)"
  shows "\<exists>b'. application_runtime_bridge_service apps b (Some now) = (True, b') \<and> owned b'
    \<and> rt_active_id (br_runtime b') = (if rt_active_id (br_runtime b) = 0 then 1 else rt_active_id (br_runtime b))
    \<and> rt_event_count (br_runtime b') = (application_counter_increment ^^ pending_events b now) (rt_event_count (br_runtime b))
    \<and> br_last_service_snapshot b' = now \<and> br_service_snapshot_valid b' \<and> br_ready_event_sent b'"
proof -
  define st where "st = (if rt_active_id (br_runtime b) = 0
      then case application_runtime_start apps (br_runtime b) 1 (Some now) of (ok, rt) \<Rightarrow> (ok, b\<lparr>br_runtime := rt\<rparr>) else (True, b))"
  obtain b1 where b1: "st = (True, b1)" "owned b1"
    "rt_active_id (br_runtime b1) = (if rt_active_id (br_runtime b) = 0 then 1 else rt_active_id (br_runtime b))"
    "rt_event_count (br_runtime b1) = rt_event_count (br_runtime b)" "br_last_service_snapshot b1 = br_last_service_snapshot b"
    "br_service_snapshot_valid b1 = br_service_snapshot_valid b" "br_ready_event_sent b1 = br_ready_event_sent b"
  proof (cases "rt_active_id (br_runtime b) = 0")
    case True
    obtain ok rt where s: "application_runtime_start apps (br_runtime b) 1 (Some now) = (ok, rt)" by fastforce
    have "ok" "firmware_ok rt" "rt_active_id rt = 1" "rt_initialized rt" "rt_event_count rt = rt_event_count (br_runtime b)"
      using apps_start[OF f, of 1 "Some now"] i s start_event_count[of apps "br_runtime b" 1 "Some now"] by simp_all
    then show ?thesis using that[of "b\<lparr>br_runtime := rt\<rparr>"] True s by (simp add: st_def owned_def)
  next
    case False
    then show ?thesis using that[of b] f i by (simp add: st_def owned_def)
  qed
  define rd where "rd = (if \<not> br_ready_event_sent b1
      then case application_runtime_bridge_dispatch_event apps b1 1 1 (ucast (rt_active_id (br_runtime b1))) 0 (Some now) of
        (ok, b2) \<Rightarrow> (ok, if ok then b2\<lparr>br_ready_event_sent := True\<rparr> else b2) else (True, b1))"
  obtain b2 where b2: "rd = (True, b2)" "owned b2" "rt_active_id (br_runtime b2) = rt_active_id (br_runtime b1)"
    "rt_event_count (br_runtime b2) = (application_counter_increment ^^ (if br_ready_event_sent b1 then 0 else 1)) (rt_event_count (br_runtime b1))"
    "br_last_service_snapshot b2 = br_last_service_snapshot b1" "br_service_snapshot_valid b2 = br_service_snapshot_valid b1" "br_ready_event_sent b2"
  proof (cases "br_ready_event_sent b1")
    case True
    then show ?thesis using that[of b1] b1(2) by (simp add: rd_def)
  next
    case False
    obtain d where d: "application_runtime_bridge_dispatch_event apps b1 1 1 (ucast (rt_active_id (br_runtime b1))) 0 (Some now) = (True, d)" "counted 1 b1 d"
      using bridge_event[OF b1(2)] by blast
    then show ?thesis using that[of "d\<lparr>br_ready_event_sent := True\<rparr>"] False b1(2) by (simp add: rd_def counted_def owned_def)
  qed
  define rp where "rp = (if br_service_snapshot_valid b2
                 then let prev = br_last_service_snapshot b2;
      s1 = bridge_report apps 2 2 (sv_displayed_minute now) (sv_displayed_minute prev) (Some now) (True, b2);
      s2 = bridge_report apps 3 3 (ucast (sv_system_healthy now)) (ucast (sv_system_healthy prev)) (Some now) s1;
      s3 = bridge_report apps 4 4 (ucast (sv_usb_configured now)) (ucast (sv_usb_configured prev)) (Some now) s2
    in bridge_report apps 5 5 (ucast (sv_network_online now)) (ucast (sv_network_online prev)) (Some now) s3 else (True, b2))"
  obtain b3 where b3: "rp = (True, b3)" "counted (if br_service_snapshot_valid b2 then changed_fields (br_last_service_snapshot b2) now else 0) b2 b3"
    using bridge_reports[OF b2(2), of now] counted_0[OF b2(2)] by (cases "br_service_snapshot_valid b2") (auto simp: rp_def)
  have o3: "owned b3" using b3(2) by (simp add: counted_def)
  have sv: "application_runtime_service apps (br_runtime b3) (Some now) = (True, br_runtime b3)"
    using o3 by (simp add: owned_def firmware_ok_def application_runtime_service_def)
  have "application_runtime_bridge_service apps b (Some now)
      = (True, b3\<lparr>br_last_service_snapshot := now, br_service_snapshot_valid := True, br_runtime := br_runtime b3\<rparr>)"
    unfolding application_runtime_bridge_service_def option.case st_def[symmetric] b1(1) prod.case rd_def[symmetric] b2(1) rp_def[symmetric] b3(1) sv
    using i by simp
  moreover have "(application_counter_increment ^^ (if br_service_snapshot_valid b2 then changed_fields (br_last_service_snapshot b2) now else 0))
      ((application_counter_increment ^^ (if br_ready_event_sent b1 then 0 else 1)) c) = (application_counter_increment ^^ pending_events b now) c" for c
    using b1 b2 by (simp add: pending_events_def funpow_add add.commute funpow_swap1)
  ultimately show ?thesis using b1 b2 b3(2) o3 by (auto simp: counted_def owned_def)
qed

lemma bridge_step_ok: "bridge_ok b \<Longrightarrow> bridge_ok (bridge_step b c)"
proof (cases c)
  case Bridge_Initialize
  assume f: "bridge_ok b"
  show ?thesis using apps_initialize[OF f] Bridge_Initialize by (auto simp: application_runtime_bridge_initialize_def split: prod.split)
next
  case (Bridge_Service sv)
  assume f: "bridge_ok b"
  show ?thesis
  proof (cases "sv = None \<or> \<not> rt_initialized (br_runtime b)")
    case True
    then have "bridge_step b c = b" by (auto simp: Bridge_Service application_runtime_bridge_service_def split: option.split)
    then show ?thesis using f by simp
  next
    case False
    then obtain now where "sv = Some now" by auto
    then show ?thesis using bridge_service_counted[OF f, of now] False by (auto simp: Bridge_Service owned_def)
  qed
next
  case (Bridge_Start i sv)
  assume "bridge_ok b"
  from apps_start(1)[OF this, of i sv] show ?thesis by (auto simp: Bridge_Start application_runtime_bridge_start_def split: prod.split)
next
  case (Bridge_Stop sv)
  assume "bridge_ok b"
  from apps_other(3)[OF this, of sv] show ?thesis by (auto simp: Bridge_Stop application_runtime_bridge_stop_def split: prod.split)
next
  case Bridge_View_Consumed
  assume "bridge_ok b"
  from apps_other(1)[OF this] show ?thesis by (simp add: Bridge_View_Consumed application_runtime_bridge_view_consumed_def)
qed

section \<open>Changes are reported\<close>

text \<open>An instance: the device page is open, and nothing has changed since.\<close>

definition demo_snapshot :: "u32 \<Rightarrow> u8 \<Rightarrow> application_service_snapshot" where
  "demo_snapshot minute usb = \<lparr>sv_uptime_ms = 0, sv_displayed_minute = minute, sv_system_healthy = 1, sv_usb_configured = usb, sv_network_online = 0\<rparr>"

definition demo_bridge :: application_bridge where
  "demo_bridge = foldl bridge_step (application_runtime_bridge_reset apps)
     [Bridge_Initialize, Bridge_Service (Some (demo_snapshot 0 0)), Bridge_Start 2 (Some (demo_snapshot 0 0))]"

text \<open>
  C12: Servicing the initialized bridge succeeds; it starts the home
  application if nobody owns the display, otherwise the owner stays; it counts one event for
  every field among displayed minute, system health, USB and network that differs from the
  snapshot it accepted last, and one for the first time, no more and no fewer (up to the saturation of the counter); and it accepts the
  new snapshot.
\<close>
theorem changes_are_reported_once:
  assumes "rt_initialized (br_runtime b)" "b = foldl bridge_step (application_runtime_bridge_reset apps) calls"
  shows "\<exists>b'. application_runtime_bridge_service apps b (Some now) = (True, b')
    \<and> rt_active_id (br_runtime b') = (if rt_active_id (br_runtime b) = 0 then 1 else rt_active_id (br_runtime b))
    \<and> rt_event_count (br_runtime b') = (application_counter_increment ^^ pending_events b now) (rt_event_count (br_runtime b))
    \<and> br_last_service_snapshot b' = now \<and> pending_events b' now = 0"
proof -
  have "bridge_ok (foldl bridge_step b0 calls)" if "bridge_ok b0" for b0 using that by (induction calls arbitrary: b0) (simp_all add: bridge_step_ok)
  then have "bridge_ok b" using apps_other(4) by (simp add: assms(2) application_runtime_bridge_reset_def)
  moreover have "pending_events b' now = 0" if "br_last_service_snapshot b' = now" "br_ready_event_sent b'" for b'
    using that by (simp add: pending_events_def changed_fields_def)
  ultimately show ?thesis using bridge_service_counted[OF _ assms(1), of now] by blast
qed

theorem changes_are_reported_once_witness:
  "let (ok, b') = application_runtime_bridge_service apps demo_bridge (Some (demo_snapshot 1 1)) in
     ok \<and> rt_active_id (br_runtime b') = 2 \<and> rt_event_count (br_runtime b') = 3 \<and> br_last_service_snapshot b' = demo_snapshot 1 1"
proof -
  have i: "rt_initialized (br_runtime demo_bridge)" by code_simp
  have d: "rt_active_id (br_runtime demo_bridge) = 2" "pending_events demo_bridge (demo_snapshot 1 1) = 2" "rt_event_count (br_runtime demo_bridge) = 1"
    by code_simp+
  obtain b' where b': "application_runtime_bridge_service apps demo_bridge (Some (demo_snapshot 1 1)) = (True, b')"
    "rt_active_id (br_runtime b') = 2" "rt_event_count (br_runtime b') = (application_counter_increment ^^ 2) 1" "br_last_service_snapshot b' = demo_snapshot 1 1"
    using changes_are_reported_once[OF i demo_bridge_def, of "demo_snapshot 1 1"] d by auto
  moreover have "(application_counter_increment ^^ 2) 1 = 3" by code_simp
  ultimately show ?thesis by simp
qed

end
