(* ===== verification/Application_Commands.thy ===== *)
theory Application_Commands
  imports Application_Screen
begin

unbundle bit_operations_syntax

text \<open>
  The commands of the application runtime (\<open>src/src/kernel/application_commands.c\<close>): the
  number of an application is parsed from text, and the answers are written to the checked
  output of the command service. The static bridge is passed as the state. The arguments are
  never null (the dispatcher has counted them); a text is its bytes before the terminating zero.
\<close>

section \<open>The number of an application\<close>

definition id_digit :: "u32 \<Rightarrow> u8 \<Rightarrow> u32 option" where
  "id_digit base c =
     (if c \<ge> 0x30 \<and> c \<le> 0x39 then Some (ucast (c - 0x30))
      else if base = 16 \<and> c \<ge> 0x61 \<and> c \<le> 0x66 then Some (10 + ucast (c - 0x61))
      else if base = 16 \<and> c \<ge> 0x41 \<and> c \<le> 0x46 then Some (10 + ucast (c - 0x41))
      else None)"

text \<open>The loop over the digits: the value and the number of digits.\<close>

fun parse_id_digits :: "u32 \<Rightarrow> bytes \<Rightarrow> u32 \<Rightarrow> nat \<Rightarrow> (u32 \<times> nat) option" where
  "parse_id_digits base [] v digits = Some (v, digits)"
| "parse_id_digits base (c # cs) v digits =
     (case id_digit base c of None \<Rightarrow> None | Some digit \<Rightarrow>
        if digit \<ge> base then None
        else let v' = v * base + digit in if v' > 0xFFFF then None else parse_id_digits base cs v' (digits + 1))"

definition application_commands_parse_id :: "bytes \<Rightarrow> u16 option" where
  "application_commands_parse_id text =
     (let hex = (2 \<le> length text \<and> text ! 0 = 0x30 \<and> (text ! 1 = 0x78 \<or> text ! 1 = 0x58));
          base = (if hex then 16 else 10); index = (if hex then 2 else 0)
      in case parse_id_digits base (drop index text) 0 0 of None \<Rightarrow> None
         | Some (v, digits) \<Rightarrow> if digits = 0 \<or> v = 0 then None else Some (ucast v))"

section \<open>The commands\<close>

abbreviation (input) COMMAND_SERVICE_FOUNDATION_VERSION :: u32 where "COMMAND_SERVICE_FOUNDATION_VERSION \<equiv> 3"
abbreviation (input) COMMAND_SERVICE_LINE_CAPACITY :: u32 where "COMMAND_SERVICE_LINE_CAPACITY \<equiv> 32"

definition application_commands_write :: "'s command_service_context \<Rightarrow> bytes \<Rightarrow> 's command_service_context" where
  "application_commands_write context text = snd (command_service_write context text)"

definition application_commands_write_line :: "'s command_service_context \<Rightarrow> bytes \<Rightarrow> 's command_service_context" where
  "application_commands_write_line context text = snd (command_service_write_line context text)"

definition application_commands_write_hex32 :: "'s command_service_context \<Rightarrow> u32 \<Rightarrow> 's command_service_context" where
  "application_commands_write_hex32 context v = snd (command_service_write_hex32 context v)"

text \<open>A name and a number, written one after the other: \<open>write\<close> and \<open>write_hex32\<close>.\<close>

definition write_field :: "string \<Rightarrow> u32 \<Rightarrow> 's command_service_context \<Rightarrow> 's command_service_context" where
  "write_field nm v context = application_commands_write_hex32 (application_commands_write context (chars nm)) v"

definition write_text :: "bytes \<Rightarrow> 's command_service_context \<Rightarrow> 's command_service_context" where
  "write_text t context = application_commands_write context t"

definition application_commands_write_runtime_status ::
    "'s command_service_context \<Rightarrow> application_runtime_bridge_status_t \<Rightarrow> 's command_service_context" where
  "application_commands_write_runtime_status context st =
     (write_text [13, 10] \<circ> write_field '' APP_LAST_EVENT_SOURCE='' (ucast (bs_last_event_source st))
      \<circ> write_field '' APP_LAST_EVENT_TYPE='' (ucast (bs_last_event_type st)) \<circ> write_field '' APP_VIEW_REVISION='' (bs_view_revision st)
      \<circ> write_field '' APP_EVENT_COUNT='' (bs_event_count st) \<circ> write_field '' APP_FAULT_COUNT='' (bs_fault_count st)
      \<circ> write_field '' APP_ACTIVE_ID='' (ucast (bs_active_id st))) context"

fun application_state_id :: "application_lifecycle_state \<Rightarrow> u32" where
  "application_state_id APPLICATION_STATE_REGISTERED = 0"
| "application_state_id APPLICATION_STATE_STOPPED = 1"
| "application_state_id APPLICATION_STATE_STARTING = 2"
| "application_state_id APPLICATION_STATE_RUNNING = 3"
| "application_state_id APPLICATION_STATE_BLOCKED = 4"
| "application_state_id APPLICATION_STATE_STOPPING = 5"
| "application_state_id APPLICATION_STATE_FAILED = 6"

text \<open>One line per application; a missing entry or state ends the list with an error.\<close>

fun applist_entries :: "registry \<Rightarrow> application_bridge \<Rightarrow> u16 \<Rightarrow> nat list \<Rightarrow> 's command_service_context \<Rightarrow>
    command_service_status \<times> 's command_service_context" where
  "applist_entries reg b active_id [] context = (COMMAND_SERVICE_STATUS_OK, context)"
| "applist_entries reg b active_id (index # rest) context =
     (case (application_runtime_registry_at reg index, application_runtime_bridge_state_at b index) of
        (Some d, Some st) \<Rightarrow>
          applist_entries reg b active_id rest
            ((write_text [13, 10] \<circ> write_field '' ACTIVE='' (if ad_id d = active_id then 1 else 0)
              \<circ> write_field '' STATE_ID='' (application_state_id st) \<circ> write_text (application_runtime_state_name st) \<circ> write_text (chars '' STATE='')
              \<circ> write_field '' FLAGS='' (ad_flags d) \<circ> write_field '' ABI='' (ucast (ad_abi_version d))
              \<circ> write_text (ad_name d) \<circ> write_text (chars '' NAME='') \<circ> write_field ''APP_ID='' (ucast (ad_id d))) context)
      | _ \<Rightarrow> (COMMAND_SERVICE_STATUS_INTERNAL_ERROR, context))"

definition application_commands_applist :: "registry \<Rightarrow> application_bridge \<Rightarrow> 's command_service_context \<Rightarrow> command_service_status \<times> 's command_service_context" where
  "application_commands_applist reg b context =
     (let st = application_runtime_bridge_status b; n = application_runtime_registry_count reg;
          c1 = (write_field '' APP_REGISTRY_COUNT='' (of_nat n) \<circ> write_field ''APP_RUNTIME_ABI='' 1) context
      in applist_entries reg b (bs_active_id st) [0..<n] (application_commands_write_runtime_status c1 st))"

definition application_commands_appstart :: "registry \<Rightarrow> application_bridge \<Rightarrow> command_service_request \<Rightarrow> 's command_service_context \<Rightarrow>
    application_service_snapshot option \<Rightarrow> command_service_status \<times> 's command_service_context \<times> application_bridge" where
  "application_commands_appstart reg b request context services =
     (case (if rq_argc request \<noteq> 1 then None else application_commands_parse_id (rq_argv request ! 0)) of
        None \<Rightarrow> (COMMAND_SERVICE_STATUS_BAD_ARGS, context, b)
      | Some i \<Rightarrow>
         if application_runtime_find reg i = None then (COMMAND_SERVICE_STATUS_BAD_ARGS, context, b)
         else if services = None
         then (COMMAND_SERVICE_STATUS_BUSY, application_commands_write_line context (chars ''APP_RUNTIME_BUSY''), b)
         else case application_runtime_bridge_start reg b i services of (ok, b1) \<Rightarrow>
           if \<not> ok then (COMMAND_SERVICE_STATUS_INTERNAL_ERROR, context, b1)
           else (COMMAND_SERVICE_STATUS_OK,
             (write_text [13, 10] \<circ> write_field '' ACTIVE_ID='' (ucast (bs_active_id (application_runtime_bridge_status b1)))
              \<circ> write_field ''APP_START_OK ID='' (ucast i)) context, b1))"

definition application_commands_appstop :: "registry \<Rightarrow> application_bridge \<Rightarrow> 's command_service_context \<Rightarrow>
    application_service_snapshot option \<Rightarrow> command_service_status \<times> 's command_service_context \<times> application_bridge" where
  "application_commands_appstop reg b context services =
     (if services = None
      then (COMMAND_SERVICE_STATUS_BUSY, application_commands_write_line context (chars ''APP_RUNTIME_BUSY''), b)
      else case application_runtime_bridge_stop reg b services of (ok, b1) \<Rightarrow>
        if \<not> ok then (COMMAND_SERVICE_STATUS_INTERNAL_ERROR, context, b1)
        else (COMMAND_SERVICE_STATUS_OK,
          (write_text [13, 10] \<circ> write_field ''APP_STOP_OK ACTIVE_ID='' (ucast (bs_active_id (application_runtime_bridge_status b1)))) context, b1))"

definition application_commands_rpcinfo :: "registry \<Rightarrow> application_bridge \<Rightarrow> 's command_service_context \<Rightarrow> command_service_status \<times> 's command_service_context" where
  "application_commands_rpcinfo reg b context =
     (let st = application_runtime_bridge_status b;
          c1 = (write_field '' APP_REGISTRY_COUNT='' (of_nat (application_runtime_registry_count reg)) \<circ> write_field '' APP_RUNTIME_ABI='' 1
                \<circ> write_field '' MAX_ARGS='' 4 \<circ> write_field '' LINE_CAPACITY='' COMMAND_SERVICE_LINE_CAPACITY
                \<circ> write_field '' REGISTRY_COUNT='' (of_nat command_service_registry_count)
                \<circ> write_field ''RPC_FOUNDATION_VERSION='' COMMAND_SERVICE_FOUNDATION_VERSION) context
      in (COMMAND_SERVICE_STATUS_OK, application_commands_write_runtime_status c1 st))"

text \<open>The descriptor of a request is not null here.\<close>

definition application_commands_execute :: "registry \<Rightarrow> application_bridge \<Rightarrow> command_service_request \<Rightarrow> 's command_service_context \<Rightarrow>
    application_service_snapshot option \<Rightarrow> command_service_status \<times> 's command_service_context \<times> application_bridge" where
  "application_commands_execute reg b request context services =
     (case cd_method_id (the (rq_descriptor request)) of
        COMMAND_SERVICE_METHOD_RPCINFO \<Rightarrow> (case application_commands_rpcinfo reg b context of (s, c) \<Rightarrow> (s, c, b))
      | COMMAND_SERVICE_METHOD_APPLIST \<Rightarrow> (case application_commands_applist reg b context of (s, c) \<Rightarrow> (s, c, b))
      | COMMAND_SERVICE_METHOD_APPSTART \<Rightarrow> application_commands_appstart reg b request context services
      | COMMAND_SERVICE_METHOD_APPSTOP \<Rightarrow> application_commands_appstop reg b context services
      | _ \<Rightarrow> (COMMAND_SERVICE_STATUS_INTERNAL_ERROR, context, b))"

section \<open>The parser reads numbers\<close>

definition digits_number :: "u32 \<Rightarrow> nat \<Rightarrow> bytes \<Rightarrow> nat" where
  "digits_number base = foldl (\<lambda>v c. v * unat base + unat (the (id_digit base c)))"

text \<open>A text that denotes the number: digits, or hexadecimal digits after \<open>0x\<close>.\<close>

definition denotes :: "bytes \<Rightarrow> nat \<Rightarrow> bool" where
  "denotes text n \<longleftrightarrow> (\<exists>base ds. (base = 10 \<and> text = ds \<or> base = 16 \<and> (\<exists>x \<in> {0x78, 0x58}. text = 0x30 # x # ds))
     \<and> ds \<noteq> [] \<and> (\<forall>c \<in> set ds. id_digit base c \<noteq> None) \<and> n = digits_number base 0 ds)"

lemma ucast_u8_unat: "unat (ucast (c :: u8) :: u32) = unat c"
proof -
  have "unat c < 2 ^ LENGTH(8)" by (rule unsigned_less)
  then have "unat c < 2 ^ 32" by simp
  then show ?thesis by (simp add: unsigned_ucast_eq take_bit_nat_eq_self)
qed

lemma digit_bound: "base \<in> {10, 16} \<Longrightarrow> id_digit base c = Some d \<Longrightarrow> unat d < unat base"
proof -
  assume b: "base \<in> {10, 16}" and d: "id_digit base c = Some d"
  have sub: "unat (c - k) \<le> n" if "k \<le> c" "c \<le> k + of_nat n" "unat k + n < 256" for k :: u8 and n
  proof -
    have "unat (k + of_nat n) = unat k + n" using that(3) by (simp add: unat_word_ariths unat_of_nat)
    then show ?thesis using that(1,2) by (simp add: word_le_nat_alt unat_sub_if')
  qed
  have add: "unat (10 + ucast x :: u32) = 10 + unat x" for x :: u8
  proof -
    have "unat x < 2 ^ LENGTH(8)" by (rule unsigned_less)
    then show ?thesis by (simp add: unat_word_ariths ucast_u8_unat)
  qed
  show ?thesis
    using d b sub[of "0x30" 9] sub[of "0x61" 5] sub[of "0x41" 5]
    by (auto simp: id_digit_def ucast_u8_unat add split: if_splits)
qed

lemma digits_number_ge: "base \<noteq> 0 \<Longrightarrow> v \<le> digits_number base v cs"
proof (induction cs arbitrary: v)
  case (Cons c cs)
  have "v \<le> v * unat base" using Cons.prems by (simp add: unat_gt_0 Suc_leI)
  then have "v \<le> v * unat base + unat (the (id_digit base c))" by linarith
  also have "\<dots> \<le> digits_number base v (c # cs)"
    using Cons.IH[OF Cons.prems, of "v * unat base + unat (the (id_digit base c))"] by (simp add: digits_number_def)
  finally show ?case .
qed (simp add: digits_number_def)

lemma parse_digits:
  assumes b: "base \<in> {10, 16}"
  shows "unat v \<le> 0xFFFF \<Longrightarrow> parse_id_digits base cs v n =
    (if (\<forall>c \<in> set cs. id_digit base c \<noteq> None) \<and> digits_number base (unat v) cs \<le> 0xFFFF
     then Some (of_nat (digits_number base (unat v) cs), n + length cs) else None)"
proof (induction cs arbitrary: v n)
  case Nil
  then show ?case by (simp add: digits_number_def)
next
  case (Cons c cs)
  show ?case
  proof (cases "id_digit base c")
    case None
    then show ?thesis by simp
  next
    case (Some d)
    have d: "unat d < unat base" by (rule digit_bound[OF b Some])
    have bu: "unat base \<le> 16" "base \<noteq> 0" using b by auto
    define w where "w = v * base + d"
    have "unat v * unat base \<le> 0xFFFF * 16" by (rule mult_le_mono[OF Cons.prems bu(1)])
    then have w: "unat w = unat v * unat base + unat d" using d bu by (simp add: w_def unat_word_ariths)
    have nb: "\<not> base \<le> d" using d by (simp add: word_le_nat_alt not_le)
    have num: "digits_number base (unat v) (c # cs) = digits_number base (unat w) cs" using Some w by (simp add: digits_number_def)
    show ?thesis
    proof (cases "w > 0xFFFF")
      case True
      then have "digits_number base (unat w) cs > 0xFFFF" using digits_number_ge[OF bu(2), of "unat w" cs] by (simp add: word_less_nat_alt)
      then show ?thesis using True Some nb num by (simp add: w_def)
    next
      case False
      then have "unat w \<le> 0xFFFF" by (simp add: word_less_nat_alt not_less)
      then show ?thesis using Cons.IH[of w "n + 1"] False Some nb num by (simp add: w_def Let_def)
    qed
  qed
qed

text \<open>
  Application numbers in text. The parser accepts exactly the texts that denote a number from
  1 to 65535, in decimal or in hexadecimal after \<open>0x\<close> with any number of leading zeros, and
  returns that number; in particular no long text wraps around to a small number.
\<close>
theorem parse_id_exact:
  "application_commands_parse_id str = Some i \<longleftrightarrow> (\<exists>n. denotes str n \<and> 1 \<le> n \<and> n \<le> 0xFFFF \<and> i = of_nat n)"
proof -
  define hex where "hex \<longleftrightarrow> 2 \<le> length str \<and> str ! 0 = 0x30 \<and> (str ! 1 = 0x78 \<or> str ! 1 = 0x58)"
  define base :: u32 where "base = (if hex then 16 else 10)"
  define ds where "ds = drop (if hex then 2 else 0) str"
  have b: "base \<in> {10, 16}" by (simp add: base_def)
  have x: "id_digit 10 0x78 = None" "id_digit 10 0x58 = None" by (simp_all add: id_digit_def)
  have den: "denotes str n \<longleftrightarrow> ds \<noteq> [] \<and> (\<forall>c \<in> set ds. id_digit base c \<noteq> None) \<and> n = digits_number base 0 ds" for n
  proof (cases hex)
    case True
    then obtain x rest where e: "str = 0x30 # x # rest" "x \<in> {0x78, 0x58}"
      by (cases "str"; cases "tl str") (auto simp: hex_def)
    then have "\<not> (\<forall>c \<in> set str. id_digit 10 c \<noteq> None)" using x by auto
    then show ?thesis using True e by (auto simp: denotes_def base_def ds_def x)
  next
    case False
    then have "\<not> (\<exists>x \<in> {0x78, 0x58}. str = 0x30 # x # rest)" for rest by (auto simp: hex_def)
    then show ?thesis using False by (auto simp: denotes_def base_def ds_def)
  qed
  have "application_commands_parse_id str = (case parse_id_digits base ds 0 0 of None \<Rightarrow> None
      | Some (v, digits) \<Rightarrow> if digits = 0 \<or> v = 0 then None else Some (ucast v))"
    unfolding application_commands_parse_id_def Let_def base_def ds_def hex_def by (rule refl)
  also have "\<dots> = (if (\<forall>c \<in> set ds. id_digit base c \<noteq> None) \<and> digits_number base 0 ds \<le> 0xFFFF \<and> ds \<noteq> [] \<and> digits_number base 0 ds \<noteq> 0
      then Some (of_nat (digits_number base 0 ds)) else None)"
  proof -
    have "unat (of_nat k :: u32) = k" "(ucast (of_nat k :: u32) :: u16) = of_nat k" if "k \<le> 0xFFFF" for k
    proof -
      show u: "unat (of_nat k :: u32) = k" using that by (simp add: unat_of_nat)
      show "(ucast (of_nat k :: u32) :: u16) = of_nat k" by (rule word_unat_eq_iff[THEN iffD2]) (use that u in \<open>simp add: unsigned_ucast_eq unat_of_nat take_bit_nat_eq_self\<close>)
    qed
    then show ?thesis using parse_digits[OF b, of 0 ds 0] by (auto simp: word_unat_eq_iff)
  qed
  finally show ?thesis using den by (auto simp: Suc_le_eq)
qed

text \<open>What \<open>applist\<close> prints for an application is a number that \<open>appstart\<close> reads.\<close>

lemma low_nibble: "unat ((v :: u32) AND 0xF) = unat v mod 16"
proof -
  have "v AND 0xF = take_bit 4 v" by (simp add: take_bit_eq_mask mask_eq_exp_minus_1)
  then have "unat (v AND 0xF) = take_bit 4 (unat v)" by (simp add: unsigned_take_bit_eq)
  then show ?thesis by (simp add: take_bit_eq_mod)
qed

lemma hex_digit_value: "id_digit 16 (hex_digit v) = Some (v AND 0xF)"
proof -
  have "v AND 0xF = of_nat (unat (v AND 0xF))" by simp
  moreover have "unat (v AND 0xF) < 16"
  proof -
    show ?thesis unfolding low_nibble by simp
  qed
  ultimately have "v AND 0xF \<in> of_nat ` {0..<16}" by (metis atLeastLessThan_iff imageI le0)
  then have "v AND 0xF \<in> {0, 1, 2, 3, 4, 5, 6, 7, 8, 9, 10, 11, 12, 13, 14, 15}"
    by (auto simp: atLeast0LessThan lessThan_nat_numeral lessThan_Suc)
  then show ?thesis by (auto simp: hex_digit_def id_digit_def)
qed

text \<open>
  The number of an application that is printed by the commands is read back: the
  hexadecimal form that \<open>applist\<close> writes denotes, for \<open>appstart\<close>, the same application.
\<close>
theorem printed_id_is_read:
  assumes "i \<noteq> 0"
  shows "application_commands_parse_id (chars ''0x'' @ hex32_digits (ucast i)) = Some i"
proof -
  define v :: u32 where "v = ucast i"
  define n where "n = unat i"
  have n: "n < 65536" "0 < n" using unsigned_less[of i, where ?'a = nat] assms by (simp_all add: n_def unat_gt_0)
  have v: "unat v = n"
    using n by (simp add: v_def n_def unsigned_ucast_eq take_bit_nat_eq_self)
  have d: "unat (drop_bit k v AND 0xF) = n div 2 ^ k mod 16" for k
  proof -
    have "unat (drop_bit k v) = drop_bit k (unat v)" by (rule unat_drop_bit_eq)
    then have "unat (drop_bit k v) = n div 2 ^ k" unfolding v drop_bit_eq_div[where ?'a = nat] .
    then show ?thesis unfolding low_nibble by (rule arg_cong)
  qed
  have z: "n div 2 ^ k = 0" if "16 \<le> k" for k
    using n(1) power_increasing[OF that, of "2 :: nat"] by (simp add: div_eq_0_iff)
  have "digits_number 16 0 (hex32_digits v) = ((n div 2 ^ 12 mod 16 * 16 + n div 2 ^ 8 mod 16) * 16 + n div 2 ^ 4 mod 16) * 16 + n mod 16"
    using z[of 28] z[of 24] z[of 20] z[of 16] d[of 0] by (simp add: digits_number_def hex32_digits_def hex_digit_value d)
  also have "\<dots> = n"
  proof -
    have a: "m div 2 ^ k mod 16 + 16 * (m div 2 ^ (k + 4)) = m div 2 ^ k" for m k :: nat
      using mod_mult_div_eq[of "m div 2 ^ k" 16] by (simp add: div_mult2_eq[symmetric] power_add)
    have "n div 2 ^ 12 mod 16 = n div 2 ^ 12" using a[of n 12] z[of 16] by simp
    then have e: "n div 4096 mod 16 = n div 4096" "n div 256 mod 16 + 16 * (n div 4096) = n div 256"
      "n div 16 mod 16 + 16 * (n div 256) = n div 16"
      using a[of n 8] a[of n 4] by simp_all
    moreover have "n mod 16 + 16 * (n div 16) = n" by simp
    moreover have "\<lbrakk>w = A; x + 16 * A = B; y + 16 * B = C; z + 16 * C = m\<rbrakk> \<Longrightarrow> ((w * 16 + x) * 16 + y) * 16 + z = m" for w x y z A B C m :: nat
      by simp
    ultimately have "((n div 4096 mod 16 * 16 + n div 256 mod 16) * 16 + n div 16 mod 16) * 16 + n mod 16 = n" by blast
    then show ?thesis using e(1) by simp
  qed
  finally have num: "digits_number 16 0 (hex32_digits v) = n" .
  have "\<forall>c \<in> set (hex32_digits v). id_digit 16 c \<noteq> None" by (simp add: hex32_digits_def hex_digit_value)
  then have "parse_id_digits 16 (hex32_digits v) 0 0 = Some (of_nat n, 8)"
    using parse_digits[of 16 0 "hex32_digits v" 0] n num by (simp add: hex32_digits_def)
  moreover have "(of_nat n :: u32) = v" using v by (metis of_nat_unat ucast_id)
  moreover have "v \<noteq> 0" using v n by auto
  moreover have "(ucast v :: u16) = i" unfolding v_def by (rule bit_word_eqI) (simp add: bit_simps)
  ultimately show ?thesis by (simp add: application_commands_parse_id_def v_def[symmetric] Let_def)
qed

theorem printed_id_is_read_witness:
  "application_commands_parse_id (chars ''0x00000002'') = Some 2"
  using printed_id_is_read[of 2] by (simp add: hex32_digits_def hex_digit_def)

end
