(* ===== verification/Oled_Status_Bar.thy ===== *)
theory Oled_Status_Bar
  imports Fb_Pixels
begin

unbundle bit_operations_syntax

text \<open>
  The status bar on top of the display (\<open>src/src/kernel/oled_status_bar.c\<close>): a frame, three
  indicators and the time, of which only the parts that changed are drawn again. A null
  status and a null framebuffer, which every function refuses at once, are not modelled.
\<close>

section \<open>The code\<close>

abbreviation (input) OLED_STATUS_INDICATOR_RING :: u32 where "OLED_STATUS_INDICATOR_RING \<equiv> 0"
abbreviation (input) OLED_STATUS_INDICATOR_FILLED :: u32 where "OLED_STATUS_INDICATOR_FILLED \<equiv> 1"
abbreviation (input) OLED_STATUS_DIRTY_FRAME :: u8 where "OLED_STATUS_DIRTY_FRAME \<equiv> 1"
abbreviation (input) OLED_STATUS_DIRTY_SYSTEM :: u8 where "OLED_STATUS_DIRTY_SYSTEM \<equiv> 2"
abbreviation (input) OLED_STATUS_DIRTY_USB :: u8 where "OLED_STATUS_DIRTY_USB \<equiv> 4"
abbreviation (input) OLED_STATUS_DIRTY_NETWORK :: u8 where "OLED_STATUS_DIRTY_NETWORK \<equiv> 8"
abbreviation (input) OLED_STATUS_DIRTY_TIME :: u8 where "OLED_STATUS_DIRTY_TIME \<equiv> 16"
abbreviation (input) OLED_STATUS_DIRTY_ALL :: u8 where "OLED_STATUS_DIRTY_ALL \<equiv> 0x1F"
abbreviation (input) OLED_STATUS_TIME_DIRTY_ALL :: u8 where "OLED_STATUS_TIME_DIRTY_ALL \<equiv> 0x1F"
abbreviation (input) OLED_STATUS_TIME_CHARS :: nat where "OLED_STATUS_TIME_CHARS \<equiv> 5"
abbreviation (input) OLED_STATUS_REFERENCE_WIDTH :: int where "OLED_STATUS_REFERENCE_WIDTH \<equiv> 128"
abbreviation (input) OLED_STATUS_REFERENCE_HEIGHT :: int where "OLED_STATUS_REFERENCE_HEIGHT \<equiv> 9"

record oled_status_bar =
  st_hours :: u8
  st_minutes :: u8
  st_system_indicator :: u8
  st_usb_indicator :: u8
  st_network_indicator :: u8
  st_dirty :: u8
  st_time_dirty :: u8

definition indicator_filled :: bytes where
  "indicator_filled = [0x0E, 0x1F, 0x1F, 0x1F, 0x0E]"

definition indicator_ring :: bytes where
  "indicator_ring = [0x0E, 0x1B, 0x11, 0x1B, 0x0E]"

text \<open>A row of a bitmap of the given width, the highest bit on the left.\<close>

definition draw_bitmap_row :: "nat \<Rightarrow> int \<Rightarrow> int \<Rightarrow> bytes \<Rightarrow> mono_fb \<Rightarrow> nat \<Rightarrow> mono_fb" where
  "draw_bitmap_row width x y bitmap fb row =
     foldl (\<lambda>fb column. mono_fb_set_pixel fb (x + int column) (y + int row) (bitmap ! row AND page_bit (width - 1 - column) \<noteq> 0))
       fb [0..<width]"

definition draw_bitmap_5x5 :: "mono_fb \<Rightarrow> int \<Rightarrow> int \<Rightarrow> bytes \<Rightarrow> mono_fb" where
  "draw_bitmap_5x5 fb x y bitmap = foldl (draw_bitmap_row 5 x y bitmap) fb [0..<5]"

definition draw_font3x5 :: "mono_fb \<Rightarrow> int \<Rightarrow> int \<Rightarrow> u8 \<Rightarrow> mono_fb" where
  "draw_font3x5 fb x y ch = (case font3x5_glyph ch of None \<Rightarrow> fb
     | Some glyph \<Rightarrow> foldl (draw_bitmap_row 3 x y glyph) fb [0..<5])"

definition clear_reference_rect :: "mono_fb \<Rightarrow> mono_rect \<Rightarrow> mono_fb" where
  "clear_reference_rect fb clip =
     foldl (\<lambda>fb j. foldl (\<lambda>fb i. mono_fb_set_pixel fb (r_x clip + int i) (r_y clip + int j) False) fb [0..<nat (r_width clip)])
       fb [0..<nat (r_height clip)]"

definition oled_status_time_text :: "u8 \<Rightarrow> u8 \<Rightarrow> bytes" where
  "oled_status_time_text hours minutes =
     [0x30 + hours div 10, 0x30 + hours mod 10, 0x3A, 0x30 + minutes div 10, 0x30 + minutes mod 10]"

definition oled_status_bar_init :: "oled_status_bar \<Rightarrow> oled_status_bar" where
  "oled_status_bar_init st = st\<lparr>st_hours := 0, st_minutes := 0,
     st_system_indicator := ucast OLED_STATUS_INDICATOR_FILLED, st_usb_indicator := ucast OLED_STATUS_INDICATOR_FILLED,
     st_network_indicator := ucast OLED_STATUS_INDICATOR_RING,
     st_dirty := OLED_STATUS_DIRTY_ALL, st_time_dirty := OLED_STATUS_TIME_DIRTY_ALL\<rparr>"

definition oled_status_bar_mark_all_dirty :: "oled_status_bar \<Rightarrow> oled_status_bar" where
  "oled_status_bar_mark_all_dirty st = st\<lparr>st_dirty := OLED_STATUS_DIRTY_ALL, st_time_dirty := OLED_STATUS_TIME_DIRTY_ALL\<rparr>"

text \<open>The loop that compares the old characters of the time with the new ones.\<close>

definition changed_chars :: "bytes \<Rightarrow> bytes \<Rightarrow> u8 \<Rightarrow> u8" where
  "changed_chars old_text new_text dirty =
     foldl (\<lambda>d i. if old_text ! i \<noteq> new_text ! i then d OR page_bit i else d) dirty [0..<OLED_STATUS_TIME_CHARS]"

definition oled_status_bar_set_time :: "oled_status_bar \<Rightarrow> u32 \<Rightarrow> u32 \<Rightarrow> oled_status_bar" where
  "oled_status_bar_set_time st hours minutes =
     (let new_hours = ucast (if hours > 99 then 99 else hours); new_minutes = ucast (if minutes > 59 then 59 else minutes)
      in if st_hours st = new_hours \<and> st_minutes st = new_minutes then st
         else let time_dirty = changed_chars (oled_status_time_text (st_hours st) (st_minutes st))
                    (oled_status_time_text new_hours new_minutes) (st_time_dirty st);
                  st1 = st\<lparr>st_time_dirty := time_dirty, st_hours := new_hours, st_minutes := new_minutes\<rparr>
           in if time_dirty \<noteq> 0 then st1\<lparr>st_dirty := st_dirty st1 OR OLED_STATUS_DIRTY_TIME\<rparr> else st1)"

definition oled_status_bar_set_indicators :: "oled_status_bar \<Rightarrow> u32 \<Rightarrow> u32 \<Rightarrow> u32 \<Rightarrow> oled_status_bar" where
  "oled_status_bar_set_indicators st system_indicator usb_indicator network_indicator =
     (let norm = (\<lambda>v. if v = OLED_STATUS_INDICATOR_FILLED then OLED_STATUS_INDICATOR_FILLED else OLED_STATUS_INDICATOR_RING);
          st1 = (if ucast (st_system_indicator st) \<noteq> norm system_indicator
            then st\<lparr>st_system_indicator := ucast (norm system_indicator), st_dirty := st_dirty st OR OLED_STATUS_DIRTY_SYSTEM\<rparr> else st);
          st2 = (if ucast (st_usb_indicator st1) \<noteq> norm usb_indicator
            then st1\<lparr>st_usb_indicator := ucast (norm usb_indicator), st_dirty := st_dirty st1 OR OLED_STATUS_DIRTY_USB\<rparr> else st1)
      in if ucast (st_network_indicator st2) \<noteq> norm network_indicator
         then st2\<lparr>st_network_indicator := ucast (norm network_indicator), st_dirty := st_dirty st2 OR OLED_STATUS_DIRTY_NETWORK\<rparr> else st2)"

definition draw_frame :: "mono_fb \<Rightarrow> mono_rect \<Rightarrow> mono_fb" where
  "draw_frame fb clip =
     (let a = clear_reference_rect fb clip;
          b = mono_fb_hline a (r_x clip) (r_y clip) (r_width clip) True;
          d = mono_fb_hline b (r_x clip) (r_y clip + 8) (r_width clip) True
      in foldl (\<lambda>fb j. mono_fb_set_pixel (mono_fb_set_pixel fb (r_x clip) (r_y clip + int j) True) (r_x clip + 127) (r_y clip + int j) True)
           d [1..<8])"

definition indicator_bitmap :: "u8 \<Rightarrow> bytes" where
  "indicator_bitmap v = (if v = ucast OLED_STATUS_INDICATOR_FILLED then indicator_filled else indicator_ring)"

definition time_x_offsets :: "int list" where
  "time_x_offsets = [0, 4, 7, 10, 14]"

definition draw_time :: "u8 \<Rightarrow> bytes \<Rightarrow> mono_fb \<Rightarrow> mono_rect \<Rightarrow> mono_fb" where
  "draw_time time_dirty time_text fb clip =
     foldl (\<lambda>fb i. if time_dirty AND page_bit i = 0 then fb
         else draw_font3x5 fb (r_x clip + 109 + time_x_offsets ! i) (r_y clip + 2) (time_text ! i))
       fb [0..<OLED_STATUS_TIME_CHARS]"

definition oled_status_bar_render :: "oled_status_bar \<Rightarrow> mono_fb \<Rightarrow> mono_rect \<Rightarrow> oled_status_bar \<times> mono_fb" where
  "oled_status_bar_render st fb clip =
     (if r_width clip \<noteq> OLED_STATUS_REFERENCE_WIDTH \<or> r_height clip \<noteq> OLED_STATUS_REFERENCE_HEIGHT then (st, fb)
      else let frame = st_dirty st AND OLED_STATUS_DIRTY_FRAME \<noteq> 0;
               dirty = (if frame then st_dirty st OR OLED_STATUS_DIRTY_ALL else st_dirty st);
               time_dirty = (if frame then st_time_dirty st OR OLED_STATUS_TIME_DIRTY_ALL else st_time_dirty st);
               fb0 = (if frame then draw_frame fb clip else fb);
               fb1 = (if dirty AND OLED_STATUS_DIRTY_SYSTEM \<noteq> 0
                 then draw_bitmap_5x5 fb0 (r_x clip + 2) (r_y clip + 2) (indicator_bitmap (st_system_indicator st)) else fb0);
               fb2 = (if dirty AND OLED_STATUS_DIRTY_USB \<noteq> 0
                 then draw_bitmap_5x5 fb1 (r_x clip + 8) (r_y clip + 2) (indicator_bitmap (st_usb_indicator st)) else fb1);
               fb3 = (if dirty AND OLED_STATUS_DIRTY_NETWORK \<noteq> 0
                 then draw_bitmap_5x5 fb2 (r_x clip + 14) (r_y clip + 2) (indicator_bitmap (st_network_indicator st)) else fb2);
               fb4 = (if dirty AND OLED_STATUS_DIRTY_TIME \<noteq> 0
                 then draw_time time_dirty (oled_status_time_text (st_hours st) (st_minutes st)) fb3 clip else fb3)
           in (st\<lparr>st_dirty := 0, st_time_dirty := 0\<rparr>, fb4))"

section \<open>What the parts paint\<close>

lemma paints_over:
  assumes "paints p1 r1 a b" "paints p2 r2 b d"
  shows "paints (\<lambda>x y. if r2 x y then p2 x y else p1 x y) (\<lambda>x y. r1 x y \<or> r2 x y) a d"
proof -
  have "drawn a d" using assms drawn_trans by (auto simp: paints_def)
  moreover have "fb_width b = fb_width a" "fb_height b = fb_height a" using assms(1) by (simp_all add: paints_def drawn_def)
  ultimately show ?thesis using assms by (simp add: paints_def)
qed

text \<open>A box of pixels, and the picture of a bitmap in it.\<close>

definition in_box :: "int \<Rightarrow> int \<Rightarrow> int \<Rightarrow> int \<Rightarrow> int \<Rightarrow> int \<Rightarrow> bool" where
  "in_box x y w h px py \<longleftrightarrow> x \<le> px \<and> px < x + w \<and> y \<le> py \<and> py < y + h"

definition bitmap_picture :: "nat \<Rightarrow> int \<Rightarrow> int \<Rightarrow> bytes \<Rightarrow> int \<Rightarrow> int \<Rightarrow> bool" where
  "bitmap_picture width x y bitmap px py = bit (bitmap ! nat (py - y)) (width - 1 - nat (px - x))"

lemma pixels_paint:
  assumes "fb_sized fb"
  shows "paints pic (\<lambda>px py. \<exists>e \<in> set es. px = f e \<and> py = g e) fb (foldl (\<lambda>fb e. mono_fb_set_pixel fb (f e) (g e) (pic (f e) (g e))) fb es)"
proof (rule paints_foldl[OF _ assms])
  fix fb e
  assume "fb_sized fb"
  then show "paints pic (\<lambda>px py. px = f e \<and> py = g e) fb (mono_fb_set_pixel fb (f e) (g e) (pic (f e) (g e)))"
    by (rule paints_cong[OF set_pixel_paints]) auto
qed

lemma int_interval: "(\<exists>i \<in> set [0..<n]. p = x + int i) \<longleftrightarrow> x \<le> p \<and> p < x + int n"
proof
  assume "x \<le> p \<and> p < x + int n"
  then show "\<exists>i \<in> set [0..<n]. p = x + int i" by (intro bexI[of _ "nat (p - x)"]) auto
qed auto

lemma row_paints:
  assumes "fb_sized fb" "\<And>i. i < n \<Longrightarrow> v i = pic (x + int i) y"
  shows "paints pic (in_box x y (int n) 1) fb (foldl (\<lambda>fb i. mono_fb_set_pixel fb (x + int i) y (v i)) fb [0..<n])"
proof -
  have e: "foldl (\<lambda>fb i. mono_fb_set_pixel fb (x + int i) y (v i)) fb [0..<n]
      = foldl (\<lambda>fb i. mono_fb_set_pixel fb (x + int i) y (pic (x + int i) y)) fb [0..<n]"
    by (rule foldl_cong) (simp_all add: assms(2))
  show ?thesis unfolding e
    by (rule paints_cong[OF pixels_paint[OF assms(1), where f = "\<lambda>i. x + int i" and g = "\<lambda>_. y"]])
      (use int_interval in \<open>auto simp: in_box_def\<close>)
qed

text \<open>Rows below each other paint a box.\<close>

lemma box_paints:
  assumes sz: "fb_sized fb" and row: "\<And>fb j. fb_sized fb \<Longrightarrow> j < n \<Longrightarrow> paints pic (in_box x (y + int j) w 1) fb (f fb j)"
  shows "paints pic (in_box x y w (int n)) fb (foldl f fb [0..<n])"
proof -
  have "paints pic (\<lambda>px py. \<exists>j \<in> set [0..<n]. in_box x (y + int j) w 1 px py) fb (foldl f fb [0..<n])"
    by (rule paints_foldl[OF _ sz]) (simp add: row)
  then show ?thesis
  proof (rule paints_cong[OF _ _ refl])
    fix px py
    have "(\<exists>j \<in> set [0..<n]. in_box x (y + int j) w 1 px py) \<longleftrightarrow> x \<le> px \<and> px < x + w \<and> (\<exists>j \<in> set [0..<n]. py = y + int j)"
      by (auto simp: in_box_def)
    then show "in_box x y w (int n) px py = (\<exists>j \<in> set [0..<n]. in_box x (y + int j) w 1 px py)"
      unfolding int_interval by (auto simp: in_box_def)
  qed
qed

lemma bitmap_paints:
  assumes "fb_sized fb"
  shows "paints (bitmap_picture w x y bitmap) (in_box x y (int w) (int n)) fb (foldl (draw_bitmap_row w x y bitmap) fb [0..<n])"
  by (rule box_paints[OF assms])
    (simp add: draw_bitmap_row_def row_paints bitmap_picture_def and_page_bit_any)

lemma clear_paints:
  assumes "fb_sized fb"
  shows "paints (\<lambda>_ _. False) (in_box (r_x clip) (r_y clip) (r_width clip) (r_height clip)) fb (clear_reference_rect fb clip)"
proof -
  have "paints (\<lambda>_ _. False) (in_box (r_x clip) (r_y clip) (int (nat (r_width clip))) (int (nat (r_height clip)))) fb (clear_reference_rect fb clip)"
    unfolding clear_reference_rect_def by (rule box_paints[OF assms]) (rule row_paints[OF _ refl])
  then show ?thesis by (rule paints_cong) (auto simp: in_box_def)
qed

lemma hline_paints:
  assumes "fb_sized fb"
  shows "paints (\<lambda>_ _. v) (in_box x y w 1) fb (mono_fb_hline fb x y w v)"
proof -
  have "mono_fb_hline fb x y w v = foldl (\<lambda>fb i. mono_fb_set_pixel fb (x + int i) y v) fb [0..<nat w]"
    by (simp add: mono_fb_hline_def)
  moreover have "paints (\<lambda>_ _. v) (in_box x y (int (nat w)) 1) fb (foldl (\<lambda>fb i. mono_fb_set_pixel fb (x + int i) y v) fb [0..<nat w])"
    by (rule row_paints[OF assms refl])
  moreover have "in_box x y w 1 px py = in_box x y (int (nat w)) 1 px py" for px py by (auto simp: in_box_def)
  ultimately show ?thesis using paints_cong by metis
qed

lemma paints_sized: "paints p r fb fb' \<Longrightarrow> fb_sized fb \<Longrightarrow> fb_sized fb'"
  unfolding paints_def by (blast intro: drawn_sized)

text \<open>The frame: a blank bar with a line around it.\<close>

definition frame_picture :: "mono_rect \<Rightarrow> int \<Rightarrow> int \<Rightarrow> bool" where
  "frame_picture clip px py \<longleftrightarrow> px = r_x clip \<or> px = r_x clip + 127 \<or> py = r_y clip \<or> py = r_y clip + 8"

definition bar_area :: "mono_rect \<Rightarrow> int \<Rightarrow> int \<Rightarrow> bool" where
  "bar_area clip = in_box (r_x clip) (r_y clip) 128 9"

lemma sides_paint:
  assumes sz: "fb_sized fb"
  shows "paints (\<lambda>_ _. True) (\<lambda>px py. (px = x \<or> px = x + 127) \<and> y < py \<and> py < y + 8) fb
    (foldl (\<lambda>fb j. mono_fb_set_pixel (mono_fb_set_pixel fb x (y + int j) True) (x + 127) (y + int j) True) fb [1..<8])"
proof -
  have one: "paints (\<lambda>_ _. True) (\<lambda>px py. (px = x \<or> px = x + 127) \<and> py = y + int j) fb
      (mono_fb_set_pixel (mono_fb_set_pixel fb x (y + int j) True) (x + 127) (y + int j) True)" if "fb_sized fb" for fb j
  proof -
    note a = set_pixel_paints[OF that, of True x "y + int j"]
    note b = set_pixel_paints[OF paints_sized[OF a that], of True "x + 127" "y + int j"]
    show ?thesis by (rule paints_cong[OF paints_trans[OF a b]]) auto
  qed
  have j: "(\<exists>j \<in> set [1..<8]. py = y + int j) \<longleftrightarrow> y < py \<and> py < y + 8" for py
  proof
    assume "y < py \<and> py < y + 8"
    then show "\<exists>j \<in> set [1..<8]. py = y + int j" by (intro bexI[of _ "nat (py - y)"]) auto
  qed auto
  show ?thesis
  proof (rule paints_cong[OF paints_foldl[OF one sz] _ refl])
    fix px py
    show "((px = x \<or> px = x + 127) \<and> y < py \<and> py < y + 8) = (\<exists>j \<in> set [1..<8]. (px = x \<or> px = x + 127) \<and> py = y + int j)"
      using j[of py] by blast
  qed
qed

lemma frame_paints:
  assumes sz: "fb_sized fb" and w: "r_width clip = 128" "r_height clip = 9"
  shows "paints (frame_picture clip) (bar_area clip) fb (draw_frame fb clip)"
proof -
  define a where "a = clear_reference_rect fb clip"
  define b where "b = mono_fb_hline a (r_x clip) (r_y clip) (r_width clip) True"
  define d where "d = mono_fb_hline b (r_x clip) (r_y clip + 8) (r_width clip) True"
  have pa: "paints (\<lambda>_ _. False) (in_box (r_x clip) (r_y clip) 128 9) fb a" using clear_paints[OF sz, of clip] w by (simp add: a_def)
  have pb: "paints (\<lambda>_ _. True) (in_box (r_x clip) (r_y clip) 128 1) a b"
    using hline_paints[OF paints_sized[OF pa sz]] w by (simp add: b_def)
  note sb = paints_sized[OF pb paints_sized[OF pa sz]]
  have pd: "paints (\<lambda>_ _. True) (in_box (r_x clip) (r_y clip + 8) 128 1) b d" using hline_paints[OF sb] w by (simp add: d_def)
  note s = sides_paint[OF paints_sized[OF pd sb], of "r_x clip" "r_y clip"]
  show ?thesis
    unfolding draw_frame_def Let_def a_def[symmetric] b_def[symmetric] d_def[symmetric]
    by (rule paints_cong[OF paints_over[OF pa paints_trans[OF paints_trans[OF pb pd] s]]])
      (auto simp: bar_area_def in_box_def frame_picture_def)
qed

section \<open>The picture of the bar\<close>

text \<open>What the bar tells: the time and three lights.\<close>

record status_view =
  sv_hours :: nat
  sv_minutes :: nat
  sv_system :: bool
  sv_usb :: bool
  sv_network :: bool

definition status_view :: "oled_status_bar \<Rightarrow> status_view" where
  "status_view st = \<lparr>sv_hours = unat (st_hours st), sv_minutes = unat (st_minutes st), sv_system = (st_system_indicator st = 1),
     sv_usb = (st_usb_indicator st = 1), sv_network = (st_network_indicator st = 1)\<rparr>"

text \<open>The eight items within the frame: where they stand, their width, and their bitmaps.\<close>

definition item_x :: "nat \<Rightarrow> int" where
  "item_x k = [2, 8, 14, 109, 113, 116, 119, 123] ! k"

definition item_width :: "nat \<Rightarrow> nat" where
  "item_width k = (if k < 3 then 5 else 3)"

definition light_bitmap :: "bool \<Rightarrow> bytes" where
  "light_bitmap on = (if on then indicator_filled else indicator_ring)"

definition digit_bitmap :: "nat \<Rightarrow> bytes" where
  "digit_bitmap d = the (font3x5_glyph (0x30 + of_nat d))"

definition item_bitmap :: "status_view \<Rightarrow> nat \<Rightarrow> bytes" where
  "item_bitmap v k = [light_bitmap (sv_system v), light_bitmap (sv_usb v), light_bitmap (sv_network v),
     digit_bitmap (sv_hours v div 10), digit_bitmap (sv_hours v mod 10), the (font3x5_glyph 0x3A),
     digit_bitmap (sv_minutes v div 10), digit_bitmap (sv_minutes v mod 10)] ! k"

definition in_item :: "mono_rect \<Rightarrow> nat \<Rightarrow> int \<Rightarrow> int \<Rightarrow> bool" where
  "in_item clip k = in_box (r_x clip + item_x k) (r_y clip + 2) (int (item_width k)) 5"

definition item_picture :: "mono_rect \<Rightarrow> status_view \<Rightarrow> nat \<Rightarrow> int \<Rightarrow> int \<Rightarrow> bool" where
  "item_picture clip v k = bitmap_picture (item_width k) (r_x clip + item_x k) (r_y clip + 2) (item_bitmap v k)"

definition bar_picture :: "mono_rect \<Rightarrow> status_view \<Rightarrow> int \<Rightarrow> int \<Rightarrow> bool" where
  "bar_picture clip v px py \<longleftrightarrow> frame_picture clip px py
     \<or> list_ex (\<lambda>k. in_item clip k px py \<and> item_picture clip v k px py) [0..<8]"

lemma below8: "k < 8 \<longleftrightarrow> k = 0 \<or> k = 1 \<or> k = 2 \<or> k = 3 \<or> k = 4 \<or> k = 5 \<or> k = 6 \<or> k = (7 :: nat)"
  by auto

lemma item_places:
  "item_x 0 = 2" "item_x 1 = 8" "item_x (Suc 0) = 8" "item_x 2 = 14" "item_x 3 = 109" "item_x 4 = 113" "item_x 5 = 116" "item_x 6 = 119" "item_x 7 = 123"
  "item_width 0 = 5" "item_width 1 = 5" "item_width (Suc 0) = 5" "item_width 2 = 5"
  "item_width 3 = 3" "item_width 4 = 3" "item_width 5 = 3" "item_width 6 = 3" "item_width 7 = 3"
  by (simp_all add: item_x_def item_width_def)

text \<open>The items stand apart, within the frame.\<close>

lemma items_apart: "k < 8 \<Longrightarrow> j < 8 \<Longrightarrow> in_item clip k px py \<Longrightarrow> in_item clip j px py \<Longrightarrow> j = k"
  unfolding below8 in_item_def in_box_def by (elim disjE) (simp_all add: item_places)

lemma item_inside: "k < 8 \<Longrightarrow> in_item clip k px py \<Longrightarrow> bar_area clip px py \<and> \<not> frame_picture clip px py"
  unfolding below8 in_item_def in_box_def bar_area_def frame_picture_def by (elim disjE) (simp_all add: item_places)

lemma bar_picture_item: "k < 8 \<Longrightarrow> in_item clip k px py \<Longrightarrow> bar_picture clip v px py = item_picture clip v k px py"
  using items_apart item_inside by (fastforce simp: bar_picture_def list_ex_iff)

lemma bar_picture_frame: "(\<And>k. k < 8 \<Longrightarrow> \<not> in_item clip k px py) \<Longrightarrow> bar_picture clip v px py = frame_picture clip px py"
  by (auto simp: bar_picture_def list_ex_iff)

section \<open>What a rendering paints\<close>

definition bar_ok :: "oled_status_bar \<Rightarrow> bool" where
  "bar_ok st \<longleftrightarrow> st_hours st \<le> 99 \<and> st_minutes st \<le> 59"

lemma digit_glyph: "w \<le> 9 \<Longrightarrow> font3x5_glyph (0x30 + w) \<noteq> None"
proof -
  assume "w \<le> 9"
  then have "unat w < 10" by (simp add: word_le_nat_alt)
  then have "w = of_nat (unat w) \<and> unat w \<in> set [0..<10]" by simp
  moreover have "\<forall>n \<in> set [0..<10]. font3x5_glyph (0x30 + of_nat n) \<noteq> None" by code_simp
  ultimately show ?thesis by metis
qed

lemma digit_font:
  assumes "unat (d :: u8) \<le> 9"
  shows "draw_font3x5 fb x y (0x30 + d) = foldl (draw_bitmap_row 3 x y (digit_bitmap (unat d))) fb [0..<5]"
proof -
  obtain g where "font3x5_glyph (0x30 + d) = Some g" using digit_glyph[of d] assms by (auto simp: word_le_nat_alt)
  then show ?thesis by (simp add: draw_font3x5_def digit_bitmap_def)
qed

lemma decimal_digits:
  assumes "(h :: u8) \<le> 99"
  shows "unat (h div 10) = unat h div 10" "unat (h mod 10) = unat h mod 10" "unat (h div 10) \<le> 9" "unat (h mod 10) \<le> 9"
proof -
  have "unat h \<le> 99" using assms by (simp add: word_le_nat_alt)
  then show "unat (h div 10) = unat h div 10" "unat (h mod 10) = unat h mod 10" "unat (h div 10) \<le> 9" "unat (h mod 10) \<le> 9"
    by (simp_all add: unat_div unat_mod)
qed

lemma char_paints:
  assumes ok: "bar_ok st" and sz: "fb_sized fb" and i: "i < 5"
  shows "paints (bar_picture clip (status_view st)) (in_item clip (3 + i)) fb
    (draw_font3x5 fb (r_x clip + 109 + time_x_offsets ! i) (r_y clip + 2) (oled_status_time_text (st_hours st) (st_minutes st) ! i))"
proof -
  have h: "st_hours st \<le> 99" and m: "st_minutes st \<le> 99"
    using ok by (auto simp: bar_ok_def intro: order_trans)
  have n: "unat (st_hours st) div 10 \<le> 9" "unat (st_minutes st) div 10 \<le> 9"
    using decimal_digits(1,3)[OF h] decimal_digits(1,3)[OF m] by simp_all
  have x: "r_x clip + 109 + time_x_offsets ! i = r_x clip + item_x (3 + i)" and w: "item_width (3 + i) = 3"
    using i by (auto simp: less_Suc_eq numeral_eq_Suc time_x_offsets_def item_x_def item_width_def)
  have e: "draw_font3x5 fb' px py (oled_status_time_text (st_hours st) (st_minutes st) ! i)
      = foldl (draw_bitmap_row 3 px py (item_bitmap (status_view st) (3 + i))) fb' [0..<5]" for fb' px py
  proof -
    have "i = 0 \<or> i = 1 \<or> i = 2 \<or> i = 3 \<or> i = 4" using i by auto
    then show ?thesis
    proof (elim disjE)
      assume "i = 2"
      then show ?thesis by (simp add: oled_status_time_text_def item_bitmap_def draw_font3x5_def font3x5_glyph_def)
    qed (simp_all add: oled_status_time_text_def item_bitmap_def status_view_def digit_font n decimal_digits[OF h] decimal_digits[OF m] del: div_le_dividend)
  qed
  have "paints (item_picture clip (status_view st) (3 + i)) (in_item clip (3 + i)) fb
    (foldl (draw_bitmap_row 3 (r_x clip + item_x (3 + i)) (r_y clip + 2) (item_bitmap (status_view st) (3 + i))) fb [0..<5])"
    using bitmap_paints[OF sz, of 3 _ _ _ 5] w by (simp add: item_picture_def in_item_def)
  then show ?thesis unfolding x e by (rule paints_cong) (use i bar_picture_item in simp_all)
qed

lemma light_paints:
  assumes sz: "fb_sized fb" and k: "k < 3" and b: "indicator_bitmap v = item_bitmap w k"
  shows "paints (bar_picture clip w) (in_item clip k) fb (draw_bitmap_5x5 fb (r_x clip + item_x k) (r_y clip + 2) (indicator_bitmap v))"
proof -
  have "paints (item_picture clip w k) (in_item clip k) fb (draw_bitmap_5x5 fb (r_x clip + item_x k) (r_y clip + 2) (indicator_bitmap v))"
    using bitmap_paints[OF sz, of 5 _ _ _ 5] k by (simp add: item_picture_def in_item_def draw_bitmap_5x5_def b item_width_def)
  then show ?thesis by (rule paints_cong) (use k bar_picture_item in simp_all)
qed

end
