(* ===== verification/Status_Bar_Shown.thy ===== *)
theory Status_Bar_Shown
  imports Oled_Status_Bar Ui_Layout
begin

unbundle bit_operations_syntax

text \<open>
  The status bar shows what it was told (\<open>src/src/kernel/oled_status_bar.c\<close>): a rendering
  that draws only the parts marked as changed leaves the whole picture of the bar, whatever
  calls came before it.
\<close>

section \<open>A rendering\<close>

text \<open>An item that the next rendering draws.\<close>

definition item_dirty :: "oled_status_bar \<Rightarrow> nat \<Rightarrow> bool" where
  "item_dirty st k \<longleftrightarrow> (if k < 3 then bit (st_dirty st) (Suc k) else bit (st_dirty st) 4 \<and> bit (st_time_dirty st) (k - 3))"

definition redrawn :: "mono_rect \<Rightarrow> oled_status_bar \<Rightarrow> int \<Rightarrow> int \<Rightarrow> bool" where
  "redrawn clip st px py \<longleftrightarrow> (bit (st_dirty st) 0 \<and> bar_area clip px py) \<or> (\<exists>k < 8. item_dirty st k \<and> in_item clip k px py)"

lemma paints_when: "fb_sized fb \<Longrightarrow> (b \<Longrightarrow> paints pic region fb fb') \<Longrightarrow> paints pic (\<lambda>x y. b \<and> region x y) fb (if b then fb' else fb)"
  by (cases b) (auto simp: fb_sized_def intro: paints_none)

lemma time_paints:
  assumes ok: "bar_ok st" and sz: "fb_sized fb"
  shows "paints (bar_picture clip (status_view st)) (\<lambda>px py. \<exists>i < 5. bit d i \<and> in_item clip (3 + i) px py) fb
    (draw_time d (oled_status_time_text (st_hours st) (st_minutes st)) fb clip)"
proof -
  have "paints (bar_picture clip (status_view st)) (\<lambda>px py. \<exists>i \<in> set [0..<5]. bit d i \<and> in_item clip (3 + i) px py) fb
    (draw_time d (oled_status_time_text (st_hours st) (st_minutes st)) fb clip)"
    unfolding draw_time_def
  proof (rule paints_foldl[OF _ sz])
    fix fb i
    assume a: "fb_sized fb" "i \<in> set [0..<5 :: nat]"
    then have "i < 5" by simp
    have e: "(d AND page_bit i = 0) \<longleftrightarrow> \<not> bit d i" using and_page_bit_any by blast
    show "paints (bar_picture clip (status_view st)) (\<lambda>px py. bit d i \<and> in_item clip (3 + i) px py) fb
      (if d AND page_bit i = 0 then fb
       else draw_font3x5 fb (r_x clip + 109 + time_x_offsets ! i) (r_y clip + 2) (oled_status_time_text (st_hours st) (st_minutes st) ! i))"
      using char_paints[OF ok a(1) \<open>i < 5\<close>] a(1) unfolding e by (cases "bit d i") (auto simp: fb_sized_def intro: paints_none)
  qed
  then show ?thesis by (rule paints_cong) auto
qed

text \<open>The lights and the characters, drawn where the given bytes say so.\<close>

definition draw_items :: "u8 \<Rightarrow> u8 \<Rightarrow> oled_status_bar \<Rightarrow> mono_fb \<Rightarrow> mono_rect \<Rightarrow> mono_fb" where
  "draw_items dirty time_dirty st fb0 clip =
     (let fb1 = (if dirty AND OLED_STATUS_DIRTY_SYSTEM \<noteq> 0
            then draw_bitmap_5x5 fb0 (r_x clip + 2) (r_y clip + 2) (indicator_bitmap (st_system_indicator st)) else fb0);
          fb2 = (if dirty AND OLED_STATUS_DIRTY_USB \<noteq> 0
            then draw_bitmap_5x5 fb1 (r_x clip + 8) (r_y clip + 2) (indicator_bitmap (st_usb_indicator st)) else fb1);
          fb3 = (if dirty AND OLED_STATUS_DIRTY_NETWORK \<noteq> 0
            then draw_bitmap_5x5 fb2 (r_x clip + 14) (r_y clip + 2) (indicator_bitmap (st_network_indicator st)) else fb2)
      in if dirty AND OLED_STATUS_DIRTY_TIME \<noteq> 0
         then draw_time time_dirty (oled_status_time_text (st_hours st) (st_minutes st)) fb3 clip else fb3)"

lemma dirty_bits: "(d AND 1 \<noteq> 0) \<longleftrightarrow> bit d 0" "(d AND 2 \<noteq> 0) \<longleftrightarrow> bit d 1" "(d AND 4 \<noteq> 0) \<longleftrightarrow> bit d 2"
  "(d AND 8 \<noteq> 0) \<longleftrightarrow> bit d 3" "(d AND 16 \<noteq> 0) \<longleftrightarrow> bit (d :: u8) 4"
proof -
  have "page_bit 0 = 1" "page_bit 1 = 2" "page_bit 2 = 4" "page_bit 3 = 8" "page_bit 4 = 16" by code_simp+
  then show "(d AND 1 \<noteq> 0) \<longleftrightarrow> bit d 0" "(d AND 2 \<noteq> 0) \<longleftrightarrow> bit d 1" "(d AND 4 \<noteq> 0) \<longleftrightarrow> bit d 2"
    "(d AND 8 \<noteq> 0) \<longleftrightarrow> bit d 3" "(d AND 16 \<noteq> 0) \<longleftrightarrow> bit d 4"
    using and_page_bit_any by metis+
qed

lemma light_bitmaps:
  "indicator_bitmap (st_system_indicator st) = item_bitmap (status_view st) 0"
  "indicator_bitmap (st_usb_indicator st) = item_bitmap (status_view st) 1"
  "indicator_bitmap (st_network_indicator st) = item_bitmap (status_view st) 2"
  by (simp_all add: indicator_bitmap_def item_bitmap_def status_view_def light_bitmap_def)

lemma items_paint:
  assumes ok: "bar_ok st" and sz: "fb_sized fb"
  shows "paints (bar_picture clip (status_view st))
    (\<lambda>px py. \<exists>k < 8. (if k < 3 then bit d (Suc k) else bit d 4 \<and> bit td (k - 3)) \<and> in_item clip k px py) fb (draw_items d td st fb clip)"
proof -
  let ?pic = "bar_picture clip (status_view st)"
  define fb1 where "fb1 = (if bit d 1 then draw_bitmap_5x5 fb (r_x clip + 2) (r_y clip + 2) (indicator_bitmap (st_system_indicator st)) else fb)"
  define fb2 where "fb2 = (if bit d 2 then draw_bitmap_5x5 fb1 (r_x clip + 8) (r_y clip + 2) (indicator_bitmap (st_usb_indicator st)) else fb1)"
  define fb3 where "fb3 = (if bit d 3 then draw_bitmap_5x5 fb2 (r_x clip + 14) (r_y clip + 2) (indicator_bitmap (st_network_indicator st)) else fb2)"
  have p1: "paints ?pic (\<lambda>px py. bit d 1 \<and> in_item clip 0 px py) fb fb1"
    unfolding fb1_def using light_paints[OF sz _ light_bitmaps(1)] by (intro paints_when sz) (simp add: item_places)
  have s1: "fb_sized fb1" by (rule paints_sized[OF p1 sz])
  have p2: "paints ?pic (\<lambda>px py. bit d 2 \<and> in_item clip 1 px py) fb1 fb2"
    unfolding fb2_def using light_paints[OF s1 _ light_bitmaps(2)] by (intro paints_when s1) (simp add: item_places)
  have s2: "fb_sized fb2" by (rule paints_sized[OF p2 s1])
  have p3: "paints ?pic (\<lambda>px py. bit d 3 \<and> in_item clip 2 px py) fb2 fb3"
    unfolding fb3_def using light_paints[OF s2 _ light_bitmaps(3)] by (intro paints_when s2) (simp add: item_places)
  have s3: "fb_sized fb3" by (rule paints_sized[OF p3 s2])
  have p4: "paints ?pic (\<lambda>px py. bit d 4 \<and> (\<exists>i < 5. bit td i \<and> in_item clip (3 + i) px py)) fb3
      (if bit d 4 then draw_time td (oled_status_time_text (st_hours st) (st_minutes st)) fb3 clip else fb3)"
    by (intro paints_when s3 time_paints ok)
  have e: "draw_items d td st fb clip = (if bit d 4 then draw_time td (oled_status_time_text (st_hours st) (st_minutes st)) fb3 clip else fb3)"
    unfolding draw_items_def Let_def dirty_bits fb3_def fb2_def fb1_def by (rule refl)
  have i5: "(\<exists>i < 5. P i) \<longleftrightarrow> P 0 \<or> P 1 \<or> P 2 \<or> P 3 \<or> P (4 :: nat)" for P
    by (auto simp: numeral_eq_Suc less_Suc_eq)
  have i8: "(\<exists>k < 8. P k) \<longleftrightarrow> P 0 \<or> P 1 \<or> P 2 \<or> P 3 \<or> P 4 \<or> P 5 \<or> P 6 \<or> P (7 :: nat)" for P
    unfolding below8 by blast
  show ?thesis unfolding e
  proof (rule paints_cong[OF paints_trans[OF paints_trans[OF paints_trans[OF p1 p2] p3] p4] _ refl])
    fix px py
    show "(\<exists>k < 8. (if k < 3 then bit d (Suc k) else bit d 4 \<and> bit td (k - 3)) \<and> in_item clip k px py)
      = (((bit d 1 \<and> in_item clip 0 px py \<or> bit d 2 \<and> in_item clip 1 px py) \<or> bit d 3 \<and> in_item clip 2 px py)
         \<or> bit d 4 \<and> (\<exists>i < 5. bit td i \<and> in_item clip (3 + i) px py))"
      unfolding i5 i8 by (simp add: numeral_3_eq_3[symmetric] numeral_2_eq_2[symmetric]) blast
  qed
qed

lemma all_bits: "bit (d OR 0x1F :: u8) n \<longleftrightarrow> bit d n \<or> n < 5"
proof -
  have "bit (0x1F :: u8) n \<longleftrightarrow> n < 5"
  proof -
    have m: "(0x1F :: u8) = mask 5" by code_simp
    show ?thesis unfolding m bit_mask_iff by auto
  qed
  then show ?thesis by (auto simp: bit_or_iff)
qed

lemma render_items:
  "r_width clip = 128 \<Longrightarrow> r_height clip = 9 \<Longrightarrow> oled_status_bar_render st fb clip =
     (st\<lparr>st_dirty := 0, st_time_dirty := 0\<rparr>,
      if bit (st_dirty st) 0 then draw_items (st_dirty st OR 0x1F) (st_time_dirty st OR 0x1F) st (draw_frame fb clip) clip
      else draw_items (st_dirty st) (st_time_dirty st) st fb clip)"
  by (cases "bit (st_dirty st) 0") (simp_all only: oled_status_bar_render_def draw_items_def Let_def dirty_bits if_True if_False HOL.simp_thms)

lemma bar_paints:
  assumes ok: "bar_ok st" and sz: "fb_sized fb" and w: "r_width clip = 128" "r_height clip = 9"
    and e: "oled_status_bar_render st fb clip = (st', fb')"
  shows "st' = st\<lparr>st_dirty := 0, st_time_dirty := 0\<rparr>" "paints (bar_picture clip (status_view st)) (redrawn clip st) fb fb'"
proof -
  let ?pic = "bar_picture clip (status_view st)"
  note r = e[unfolded render_items[OF w] prod.inject]
  show "st' = st\<lparr>st_dirty := 0, st_time_dirty := 0\<rparr>" using r by simp
  show "paints ?pic (redrawn clip st) fb fb'"
  proof (cases "bit (st_dirty st) 0")
    case False
    then have "fb' = draw_items (st_dirty st) (st_time_dirty st) st fb clip" using r by simp
    moreover have "paints ?pic (\<lambda>px py. \<exists>k < 8. item_dirty st k \<and> in_item clip k px py) fb (draw_items (st_dirty st) (st_time_dirty st) st fb clip)"
      unfolding item_dirty_def by (rule items_paint[OF ok sz])
    ultimately show ?thesis using False by (auto simp: redrawn_def elim!: paints_cong)
  next
    case True
    have f: "paints (frame_picture clip) (bar_area clip) fb (draw_frame fb clip)" by (rule frame_paints[OF sz w])
    have i: "paints ?pic (\<lambda>px py. \<exists>k < 8. in_item clip k px py) (draw_frame fb clip) fb'"
    proof -
      have "fb' = draw_items (st_dirty st OR 0x1F) (st_time_dirty st OR 0x1F) st (draw_frame fb clip) clip" using r True by simp
      moreover have "paints ?pic (\<lambda>px py. \<exists>k < 8. (if k < 3 then bit (st_dirty st OR 0x1F) (Suc k)
          else bit (st_dirty st OR 0x1F) 4 \<and> bit (st_time_dirty st OR 0x1F) (k - 3)) \<and> in_item clip k px py) (draw_frame fb clip)
          (draw_items (st_dirty st OR 0x1F) (st_time_dirty st OR 0x1F) st (draw_frame fb clip) clip)"
        by (rule items_paint[OF ok paints_sized[OF f sz]])
      ultimately show ?thesis by (auto simp: all_bits elim!: paints_cong intro!: ex_cong1)
    qed
    show ?thesis
    proof (rule paints_cong[OF paints_over[OF f i]])
      fix px py
      show "redrawn clip st px py = (bar_area clip px py \<or> (\<exists>k < 8. in_item clip k px py))"
        using True item_inside by (auto simp: redrawn_def)
      show "?pic px py = (if \<exists>k < 8. in_item clip k px py then ?pic px py else frame_picture clip px py)"
        using bar_picture_frame by auto
    qed
  qed
qed

section \<open>Telling the bar something new\<close>

lemma item_char:
  assumes ok: "bar_ok st" and i: "i < 5"
  shows "item_bitmap (status_view st) (3 + i) = the (font3x5_glyph (oled_status_time_text (st_hours st) (st_minutes st) ! i))"
proof -
  have h: "st_hours st \<le> 99" and m: "st_minutes st \<le> 99"
    using ok by (auto simp: bar_ok_def intro: order_trans)
  have d: "digit_bitmap (unat w div 10) = the (font3x5_glyph (0x30 + w div 10))" "digit_bitmap (unat w mod 10) = the (font3x5_glyph (0x30 + w mod 10))"
    if "(w :: u8) \<le> 99" for w
    using decimal_digits(1,2)[OF that, symmetric] by (simp_all add: digit_bitmap_def)
  have "i = 0 \<or> i = 1 \<or> i = 2 \<or> i = 3 \<or> i = 4" using i by auto
  then show ?thesis
    by (elim disjE) (simp_all add: oled_status_time_text_def item_bitmap_def status_view_def d[OF h] d[OF m])
qed

lemma changed_bits: "bit (changed_chars a b d) i \<longleftrightarrow> bit d i \<or> (i < 5 \<and> a ! i \<noteq> b ! i)"
proof -
  have "bit (foldl (\<lambda>d i. if a ! i \<noteq> b ! i then d OR page_bit i else d) d [0..<n]) i \<longleftrightarrow> bit d i \<or> (i < n \<and> a ! i \<noteq> b ! i)" if "n \<le> 5" for n
    using that by (induction n) (auto simp: bit_or_iff page_bit_bits less_Suc_eq)
  then show ?thesis by (simp add: changed_chars_def)
qed

text \<open>A bar that changes: what was dirty stays so, and an item that is not dirty looks the same.\<close>

definition bar_marked :: "oled_status_bar \<Rightarrow> oled_status_bar \<Rightarrow> bool" where
  "bar_marked st st' \<longleftrightarrow> (bit (st_dirty st) 0 \<longrightarrow> bit (st_dirty st') 0)
     \<and> (\<forall>k < 8. (item_dirty st k \<longrightarrow> item_dirty st' k) \<and> (\<not> item_dirty st' k \<longrightarrow> item_bitmap (status_view st') k = item_bitmap (status_view st) k))"

text \<open>What is not marked as changed is on the framebuffer.\<close>

definition bar_painted :: "mono_rect \<Rightarrow> oled_status_bar \<Rightarrow> mono_fb \<Rightarrow> bool" where
  "bar_painted clip st fb \<longleftrightarrow> (\<forall>x < columns fb. \<forall>y < rows fb. bar_area clip (int x) (int y) \<longrightarrow> \<not> redrawn clip st (int x) (int y) \<longrightarrow>
     fb_pixel fb x y = bar_picture clip (status_view st) (int x) (int y))"

lemma picture_marked:
  assumes m: "bar_marked st st'" and r: "\<not> redrawn clip st' px py"
  shows "bar_picture clip (status_view st') px py = bar_picture clip (status_view st) px py"
proof (cases "\<exists>k < 8. in_item clip k px py")
  case True
  then obtain k where k: "k < 8" "in_item clip k px py" by blast
  have "\<not> item_dirty st' k" using r k by (auto simp: redrawn_def)
  then have "item_bitmap (status_view st') k = item_bitmap (status_view st) k" using m k(1) by (simp add: bar_marked_def)
  then show ?thesis unfolding bar_picture_item[OF k] by (simp add: item_picture_def)
next
  case False
  then show ?thesis using bar_picture_frame by blast
qed

lemma bar_painted_marked:
  assumes p: "bar_painted clip st fb" and m: "bar_marked st st'"
  shows "bar_painted clip st' fb"
proof -
  have "redrawn clip st px py \<Longrightarrow> redrawn clip st' px py" for px py using m by (auto simp: redrawn_def bar_marked_def)
  then show ?thesis using p picture_marked[OF m] unfolding bar_painted_def by metis
qed

lemma clamped: "unat (ucast (if h > 99 then 99 else h :: u32) :: u8) = min 99 (unat h)" "unat (ucast (if h > 59 then 59 else h :: u32) :: u8) = min 59 (unat h)"
  by (simp_all add: word_less_nat_alt unsigned_ucast_eq take_bit_nat_eq_self min_def)

lemma time_item:
  assumes "bar_ok st" "bar_ok st'" "k < 8" "3 \<le> k"
    and "oled_status_time_text (st_hours st) (st_minutes st) ! (k - 3) = oled_status_time_text (st_hours st') (st_minutes st') ! (k - 3)"
  shows "item_bitmap (status_view st') k = item_bitmap (status_view st) k"
proof -
  obtain i where "k = 3 + i" "i < 5" using assms(3,4) by (intro that[of "k - 3"]) auto
  then show ?thesis using item_char[of st i] item_char[of st' i] assms(1,2,5) by simp
qed

text \<open>New characters, all marked.\<close>

lemma new_time_marked:
  assumes ok: "bar_ok st" "bar_ok st'"
    and e: "st' = st\<lparr>st_time_dirty := td, st_hours := h', st_minutes := m', st_dirty := if td \<noteq> 0 then st_dirty st OR page_bit 4 else st_dirty st\<rparr>"
    and td: "td = changed_chars (oled_status_time_text (st_hours st) (st_minutes st)) (oled_status_time_text h' m') (st_time_dirty st)"
  shows "bar_marked st st'"
proof -
  have f: "st_dirty st' = (if td \<noteq> 0 then st_dirty st OR page_bit 4 else st_dirty st)" "st_time_dirty st' = td"
    "st_hours st' = h'" "st_minutes st' = m'" by (simp_all add: e)
  have low: "item_bitmap (status_view st') k = item_bitmap (status_view st) k" if "k < 3" for k
  proof -
    have "k = 0 \<or> k = 1 \<or> k = 2" using that by auto
    then show ?thesis by (elim disjE) (simp_all add: item_bitmap_def status_view_def e)
  qed
  have dirty: "item_dirty st' k \<longleftrightarrow> item_dirty st k \<or> (3 \<le> k \<and> bit td (k - 3))" if "k < 8" for k
  proof (cases "k < 3")
    case True
    then show ?thesis using f(1) by (auto simp: item_dirty_def bit_or_iff page_bit_bits)
  next
    case False
    have "bit (st_time_dirty st) (k - 3) \<Longrightarrow> bit td (k - 3)" by (simp add: td changed_bits)
    moreover have "bit td (k - 3) \<Longrightarrow> td \<noteq> 0" by auto
    ultimately show ?thesis using False f(1,2) by (auto simp: item_dirty_def bit_or_iff page_bit_bits)
  qed
  have same: "item_bitmap (status_view st') k = item_bitmap (status_view st) k" if k: "k < 8" "\<not> item_dirty st' k" for k
  proof (cases "k < 3")
    case True
    then show ?thesis by (rule low)
  next
    case False
    have "\<not> bit td (k - 3)" using dirty[OF k(1)] k(2) False by simp
    moreover have "k - 3 < 5" using k(1) False by simp
    ultimately have "oled_status_time_text (st_hours st) (st_minutes st) ! (k - 3) = oled_status_time_text h' m' ! (k - 3)"
      by (simp add: td changed_bits)
    then show ?thesis using time_item[OF ok k(1)] False f(3,4) by simp
  qed
  have "bit (st_dirty st) 0 \<Longrightarrow> bit (st_dirty st') 0" using f(1) by (auto simp: bit_or_iff page_bit_bits)
  then show ?thesis using dirty same by (simp add: bar_marked_def)
qed

lemma set_time_exact:
  assumes ok: "bar_ok st"
  shows "bar_ok (oled_status_bar_set_time st h m)" "bar_marked st (oled_status_bar_set_time st h m)"
    "status_view (oled_status_bar_set_time st h m) = (status_view st)\<lparr>sv_hours := min 99 (unat h), sv_minutes := min 59 (unat m)\<rparr>"
proof -
  define h' where "h' = (ucast (if h > 99 then 99 else h) :: u8)"
  define m' where "m' = (ucast (if m > 59 then 59 else m) :: u8)"
  define td where "td = changed_chars (oled_status_time_text (st_hours st) (st_minutes st)) (oled_status_time_text h' m') (st_time_dirty st)"
  define st' where "st' = oled_status_bar_set_time st h m"
  have u: "unat h' = min 99 (unat h)" "unat m' = min 59 (unat m)" unfolding h'_def m'_def by (rule clamped)+
  have p16: "(16 :: u8) = page_bit 4" by code_simp
  have e: "st' = (if st_hours st = h' \<and> st_minutes st = m' then st
      else st\<lparr>st_time_dirty := td, st_hours := h', st_minutes := m', st_dirty := if td \<noteq> 0 then st_dirty st OR page_bit 4 else st_dirty st\<rparr>)"
    unfolding st'_def oled_status_bar_set_time_def Let_def h'_def[symmetric] m'_def[symmetric] td_def[symmetric] p16 by simp
  have hm: "st_hours st' = h'" "st_minutes st' = m'" "st_system_indicator st' = st_system_indicator st"
    "st_usb_indicator st' = st_usb_indicator st" "st_network_indicator st' = st_network_indicator st" by (auto simp: e)
  show ok': "bar_ok (oled_status_bar_set_time st h m)"
    unfolding st'_def[symmetric] using u hm(1,2) by (simp add: bar_ok_def word_le_nat_alt)
  show "status_view (oled_status_bar_set_time st h m) = (status_view st)\<lparr>sv_hours := min 99 (unat h), sv_minutes := min 59 (unat m)\<rparr>"
    unfolding st'_def[symmetric] by (simp add: status_view_def hm u)
  show "bar_marked st (oled_status_bar_set_time st h m)"
  proof (cases "st_hours st = h' \<and> st_minutes st = m'")
    case True
    then have "st' = st" using e by simp
    then show ?thesis by (simp add: bar_marked_def flip: st'_def)
  next
    case False
    have "st' = st\<lparr>st_time_dirty := td, st_hours := h', st_minutes := m', st_dirty := if td \<noteq> 0 then st_dirty st OR page_bit 4 else st_dirty st\<rparr>"
      unfolding e using False by (rule if_not_P)
    then show ?thesis using new_time_marked[OF ok ok'[folded st'_def] _ td_def] by (simp flip: st'_def)
  qed
qed

text \<open>New lights, each marked when it changes.\<close>

lemma new_lights_marked:
  assumes t: "st_hours st' = st_hours st" "st_minutes st' = st_minutes st" "st_time_dirty st' = st_time_dirty st"
    and d: "\<And>n. bit (st_dirty st') n \<longleftrightarrow> bit (st_dirty st) n \<or> (n = 1 \<and> st_system_indicator st' \<noteq> st_system_indicator st)
      \<or> (n = 2 \<and> st_usb_indicator st' \<noteq> st_usb_indicator st) \<or> (n = 3 \<and> st_network_indicator st' \<noteq> st_network_indicator st)"
  shows "bar_marked st st'"
proof -
  have same: "item_bitmap (status_view st') k = item_bitmap (status_view st) k" if "k < 8" "\<not> item_dirty st' k" for k
  proof -
    have "k = 0 \<Longrightarrow> st_system_indicator st' = st_system_indicator st" "k = 1 \<Longrightarrow> st_usb_indicator st' = st_usb_indicator st"
      "k = 2 \<Longrightarrow> st_network_indicator st' = st_network_indicator st" using that(2) by (auto simp: item_dirty_def d)
    then show ?thesis using that(1) unfolding below8 by (elim disjE) (simp_all add: item_bitmap_def status_view_def t)
  qed
  then show ?thesis by (auto simp: bar_marked_def item_dirty_def d t)
qed

definition norm_indicator :: "u32 \<Rightarrow> u8" where
  "norm_indicator v = (if v = 1 then 1 else 0)"

lemma norm_change: "(ucast (a :: u8) \<noteq> (if v = 1 then 1 else 0 :: u32)) \<longleftrightarrow> norm_indicator v \<noteq> a"
  "(ucast (if v = 1 then 1 else 0 :: u32) :: u8) = norm_indicator v"
proof -
  have "unat a < 256" using unsigned_less[of a] by simp
  then have "take_bit 32 (unat a) = unat a" by (simp add: take_bit_nat_eq_self_iff)
  then have "ucast a = (1 :: u32) \<longleftrightarrow> a = 1" "ucast a = (0 :: u32) \<longleftrightarrow> a = 0" by (simp_all add: word_unat_eq_iff unsigned_ucast_eq)
  then show "(ucast a \<noteq> (if v = 1 then 1 else 0 :: u32)) \<longleftrightarrow> norm_indicator v \<noteq> a" by (auto simp: norm_indicator_def)
  show "(ucast (if v = 1 then 1 else 0 :: u32) :: u8) = norm_indicator v" by (simp add: norm_indicator_def)
qed

lemma set_indicators_exact:
  defines "F \<equiv> oled_status_bar_set_indicators"
  shows "bar_ok st \<Longrightarrow> bar_ok (F st s u n)" "bar_marked st (F st s u n)"
    "status_view (F st s u n) = (status_view st)\<lparr>sv_system := (s = 1), sv_usb := (u = 1), sv_network := (n = 1)\<rparr>"
proof -
  define st1 where "st1 = (if norm_indicator s \<noteq> st_system_indicator st then st\<lparr>st_system_indicator := norm_indicator s, st_dirty := st_dirty st OR 2\<rparr> else st)"
  define st2 where "st2 = (if norm_indicator u \<noteq> st_usb_indicator st1 then st1\<lparr>st_usb_indicator := norm_indicator u, st_dirty := st_dirty st1 OR 4\<rparr> else st1)"
  define st3 where "st3 = (if norm_indicator n \<noteq> st_network_indicator st2 then st2\<lparr>st_network_indicator := norm_indicator n, st_dirty := st_dirty st2 OR 8\<rparr> else st2)"
  have F: "F st s u n = st3"
    unfolding F_def oled_status_bar_set_indicators_def Let_def norm_change st3_def st2_def st1_def by (rule refl)
  have p: "(2 :: u8) = page_bit 1" "(4 :: u8) = page_bit 2" "(8 :: u8) = page_bit 3" by code_simp+
  have i: "st_system_indicator st3 = norm_indicator s" "st_usb_indicator st3 = norm_indicator u" "st_network_indicator st3 = norm_indicator n"
    by (simp_all add: st3_def st2_def st1_def)
  have same: "st_hours st3 = st_hours st" "st_minutes st3 = st_minutes st" "st_time_dirty st3 = st_time_dirty st"
    by (simp_all add: st3_def st2_def st1_def)
  have old: "st_usb_indicator st1 = st_usb_indicator st" "st_network_indicator st2 = st_network_indicator st" by (simp_all add: st2_def st1_def)
  have "bit (st_dirty st3) k \<longleftrightarrow> bit (st_dirty st2) k \<or> (k = 3 \<and> norm_indicator n \<noteq> st_network_indicator st)" for k
    unfolding st3_def p(3) old by (simp add: bit_or_iff page_bit_bits)
  moreover have "bit (st_dirty st2) k \<longleftrightarrow> bit (st_dirty st1) k \<or> (k = 2 \<and> norm_indicator u \<noteq> st_usb_indicator st)" for k
    unfolding st2_def p(2) old by (simp add: bit_or_iff page_bit_bits)
  moreover have "bit (st_dirty st1) k \<longleftrightarrow> bit (st_dirty st) k \<or> (k = 1 \<and> norm_indicator s \<noteq> st_system_indicator st)" for k
    unfolding st1_def p(1) by (simp add: bit_or_iff page_bit_bits)
  ultimately show "bar_marked st (F st s u n)" unfolding F by (intro new_lights_marked same) (auto simp: i)
  show "bar_ok st \<Longrightarrow> bar_ok (F st s u n)" unfolding F by (simp add: bar_ok_def same)
  show "status_view (F st s u n) = (status_view st)\<lparr>sv_system := (s = 1), sv_usb := (u = 1), sv_network := (n = 1)\<rparr>"
    unfolding F by (simp add: status_view_def same i norm_indicator_def)
qed

section \<open>A run of the status bar\<close>

text \<open>
  The bar in use, with what it was last told. Others may draw outside its area, and what they
  do to the framebuffer otherwise (its presentation) leaves the pixels of the bar.
\<close>

definition start_view :: status_view where
  "start_view = \<lparr>sv_hours = 0, sv_minutes = 0, sv_system = True, sv_usb = True, sv_network = False\<rparr>"

inductive bar_run :: "mono_rect \<Rightarrow> status_view \<Rightarrow> oled_status_bar \<Rightarrow> mono_fb \<Rightarrow> bool" for clip where
  started: "fb_sized fb \<Longrightarrow> bar_run clip start_view (oled_status_bar_init st) fb"
| time_told: "bar_run clip v st fb \<Longrightarrow>
    bar_run clip (v\<lparr>sv_hours := min 99 (unat h), sv_minutes := min 59 (unat m)\<rparr>) (oled_status_bar_set_time st h m) fb"
| lights_told: "bar_run clip v st fb \<Longrightarrow>
    bar_run clip (v\<lparr>sv_system := (s = 1), sv_usb := (u = 1), sv_network := (n = 1)\<rparr>) (oled_status_bar_set_indicators st s u n) fb"
| marked: "bar_run clip v st fb \<Longrightarrow> fb_sized fb' \<Longrightarrow> bar_run clip v (oled_status_bar_mark_all_dirty st) fb'"
| bar_rendered: "bar_run clip v st fb \<Longrightarrow> oled_status_bar_render st fb clip = (st', fb') \<Longrightarrow> bar_run clip v st' fb'"
| elsewhere: "bar_run clip v st fb \<Longrightarrow> fb_sized fb' \<Longrightarrow> columns fb' = columns fb \<Longrightarrow> rows fb' = rows fb \<Longrightarrow>
    (\<And>x y. x < columns fb \<Longrightarrow> y < rows fb \<Longrightarrow> bar_area clip (int x) (int y) \<Longrightarrow> fb_pixel fb' x y = fb_pixel fb x y) \<Longrightarrow> bar_run clip v st fb'"

definition bar_inv :: "mono_rect \<Rightarrow> status_view \<Rightarrow> oled_status_bar \<Rightarrow> mono_fb \<Rightarrow> bool" where
  "bar_inv clip v st fb \<longleftrightarrow> bar_ok st \<and> status_view st = v \<and> fb_sized fb \<and> bar_painted clip st fb"

lemma frame_dirty_painted: "bit (st_dirty st) 0 \<Longrightarrow> bar_painted clip st fb"
  by (auto simp: bar_painted_def redrawn_def)

lemma rendered_paints:
  assumes i: "bar_inv clip v st fb" and w: "r_width clip = 128" "r_height clip = 9" and e: "oled_status_bar_render st fb clip = (st', fb')"
  shows "paints (bar_picture clip v) (bar_area clip) fb fb'"
proof -
  have sz: "fb_sized fb" and v: "status_view st = v" and ok: "bar_ok st" and p: "bar_painted clip st fb" using i by (simp_all add: bar_inv_def)
  have b: "paints (bar_picture clip v) (redrawn clip st) fb fb'" using bar_paints(2)[OF ok sz w e] v by simp
  have "redrawn clip st px py \<Longrightarrow> bar_area clip px py" for px py using item_inside by (auto simp: redrawn_def)
  then show ?thesis using b p v unfolding paints_def bar_painted_def by metis
qed

lemma bar_run_inv:
  assumes "bar_run clip v st fb" and w: "r_width clip = 128" "r_height clip = 9"
  shows "bar_inv clip v st fb"
  using assms(1)
proof induction
  case (started fb st)
  then show ?case by (simp add: bar_inv_def oled_status_bar_init_def bar_ok_def status_view_def start_view_def frame_dirty_painted)
next
  case (time_told v st fb m h)
  then show ?case using set_time_exact[of st h m] bar_painted_marked[OF _ set_time_exact(2)] by (simp add: bar_inv_def)
next
  case (lights_told v st fb n u s)
  then show ?case using set_indicators_exact[of st s u n] bar_painted_marked[OF _ set_indicators_exact(2)] by (simp add: bar_inv_def)
next
  case (marked v st fb fb')
  then show ?case by (simp add: bar_inv_def oled_status_bar_mark_all_dirty_def bar_ok_def status_view_def frame_dirty_painted)
next
  case (bar_rendered v st fb st' fb')
  then have i: "bar_ok st" "fb_sized fb" "status_view st = v" by (simp_all add: bar_inv_def)
  note p = rendered_paints[OF bar_rendered(3) w bar_rendered(2)]
  note e = bar_paints(1)[OF i(1,2) w bar_rendered(2)]
  have "bar_painted clip st' fb'"
    using p i(3) by (simp add: bar_painted_def paints_def drawn_def e status_view_def)
  then show ?case using i paints_sized[OF p i(2)] e by (simp add: bar_inv_def bar_ok_def status_view_def)
next
  case (elsewhere v st fb fb')
  then show ?case by (simp add: bar_inv_def bar_painted_def)
qed

definition demo_bar :: oled_status_bar where
  "demo_bar = \<lparr>st_hours = 0, st_minutes = 0, st_system_indicator = 0, st_usb_indicator = 0, st_network_indicator = 0, st_dirty = 0, st_time_dirty = 0\<rparr>"

text \<open>
  The status bar shows what it was told. Whatever calls came before, in any order, a
  rendering, which draws only the parts marked as changed, leaves in the area of the bar
  exactly the picture of the last time (clamped to 99:59) and the last lights, and no pixel
  outside the bar changes.
\<close>
theorem status_bar_shows:
  assumes "bar_run clip v st fb" "r_width clip = 128" "r_height clip = 9" "oled_status_bar_render st fb clip = (st', fb')"
    "x < columns fb" "y < rows fb"
  shows "fb_pixel fb' x y = (if bar_area clip (int x) (int y) then bar_picture clip v (int x) (int y) else fb_pixel fb x y)"
  using rendered_paints[OF bar_run_inv[OF assms(1-3)] assms(2-4)] assms(5,6) by (simp add: paints_def)

text \<open>Twelve minutes past thirty-four hours: the tens of the hours are a 3, in its upper left corner; beside it a blank.\<close>

theorem status_bar_shows_witness:
  "let (st', fb') = oled_status_bar_render (oled_status_bar_set_time (oled_status_bar_init demo_bar) 34 12) (blank_fb 128 32) (status_rect default_layout)
   in fb_pixel fb' 109 2 \<and> \<not> fb_pixel fb' 112 2"
proof -
  let ?clip = "status_rect default_layout" and ?st = "oled_status_bar_set_time (oled_status_bar_init demo_bar) 34 12"
  have fb: "fb_sized (blank_fb 128 32)" "columns (blank_fb 128 32) = 128" "rows (blank_fb 128 32) = 32"
    using blank_fb_ok[of 128 32] by (simp_all add: fb_sized_def blank_fb_eq)
  have run: "bar_run ?clip (start_view\<lparr>sv_hours := 34, sv_minutes := 12\<rparr>) ?st (blank_fb 128 32)"
    using bar_run.time_told[OF bar_run.started[OF fb(1), of ?clip demo_bar], of 12 34] by simp
  have w: "r_width ?clip = 128" "r_height ?clip = 9" by (simp_all add: default_layout_def)
  obtain st' fb' where r: "oled_status_bar_render ?st (blank_fb 128 32) ?clip = (st', fb')" by (cases "oled_status_bar_render ?st (blank_fb 128 32) ?clip")
  note t = status_bar_shows[OF run w r, unfolded fb]
  have area: "bar_area ?clip (int 109) (int 2)" "bar_area ?clip (int 112) (int 2)"
    and pic: "bar_picture ?clip (start_view\<lparr>sv_hours := 34, sv_minutes := 12\<rparr>) (int 109) (int 2)"
      "\<not> bar_picture ?clip (start_view\<lparr>sv_hours := 34, sv_minutes := 12\<rparr>) (int 112) (int 2)" by code_simp+
  have "fb_pixel fb' 109 2 \<and> \<not> fb_pixel fb' 112 2" using t[of 109 2] t[of 112 2] area pic by simp
  then show ?thesis by (simp add: r)
qed

section \<open>The reference picture\<close>

definition reference_rows :: "bytes list" where
  "reference_rows =
     (let line = replicate 16 0xFF;
          edge = 0x80 # replicate 14 0 @ [0x01]
      in [line, edge,
          [0x9C, 0x71, 0xC0, 0, 0, 0, 0, 0, 0, 0, 0, 0, 0, 0x07, 0x71, 0xDD],
          [0xBE, 0xFB, 0x60, 0, 0, 0, 0, 0, 0, 0, 0, 0, 0, 0x05, 0x55, 0x55],
          [0xBE, 0xFA, 0x20, 0, 0, 0, 0, 0, 0, 0, 0, 0, 0, 0x05, 0x51, 0x55],
          [0xBE, 0xFB, 0x60, 0, 0, 0, 0, 0, 0, 0, 0, 0, 0, 0x05, 0x55, 0x55],
          [0x9C, 0x71, 0xC0, 0, 0, 0, 0, 0, 0, 0, 0, 0, 0, 0x07, 0x71, 0xDD],
          edge, line])"

definition expected_reference_pixel :: "nat \<Rightarrow> nat \<Rightarrow> bool" where
  "expected_reference_pixel x y =
     (if x \<ge> 128 \<or> y \<ge> 9 then False else reference_rows ! y ! (x div 8) AND page_bit (7 - x mod 8) \<noteq> 0)"

lemma between_items: "20 \<le> x \<Longrightarrow> x < 109 \<Longrightarrow> bar_picture (status_rect default_layout) v (int x) (int y) \<longleftrightarrow> y = 0 \<or> y = 8"
proof -
  assume x: "20 \<le> x" "x < 109"
  have "\<not> in_item (status_rect default_layout) k (int x) (int y)" if "k < 8" for k
    using that x unfolding below8 in_item_def in_box_def by (elim disjE) (simp_all add: item_places default_layout_def)
  then have "bar_picture (status_rect default_layout) v (int x) (int y) = frame_picture (status_rect default_layout) (int x) (int y)"
    by (intro bar_picture_frame) blast
  then show ?thesis using x by (simp add: frame_picture_def default_layout_def)
qed

lemma reference_between:
  assumes "20 \<le> x" "x < 109" "y < 9"
  shows "expected_reference_pixel x y \<longleftrightarrow> y = 0 \<or> y = 8"
proof -
  have "list_all (\<lambda>x. list_all (\<lambda>y. expected_reference_pixel x y \<longleftrightarrow> y = 0 \<or> y = 8) [0..<9]) [20..<109]" by code_simp
  moreover have "x \<in> {20..<109}" "y \<in> {0..<9}" using assms by simp_all
  ultimately show ?thesis unfolding list_all_iff set_upt by blast
qed

text \<open>The reference picture of the code is the picture of 00:00 with the first two lights on.\<close>

lemma reference_exact:
  assumes "x < 128" "y < 9"
  shows "bar_picture (status_rect default_layout) start_view (int x) (int y) = expected_reference_pixel x y"
proof (cases "20 \<le> x \<and> x < 109")
  case True
  then show ?thesis using between_items[of x start_view y] reference_between[of x y] assms by blast
next
  case False
  then have "x \<in> {0..<20} \<union> {109..<128}" "y \<in> {0..<9}" using assms by auto
  moreover have "list_all (\<lambda>x. list_all (\<lambda>y. bar_picture (status_rect default_layout) start_view (int x) (int y) = expected_reference_pixel x y) [0..<9])
      ([0..<20] @ [109..<128])" by code_simp
  ultimately show ?thesis unfolding list_all_iff set_append set_upt by blast
qed

end
