(* ===== verification/Desktop_Ui.thy ===== *)
theory Desktop_Ui
  imports Status_Bar_Shown Application_Screen Asset_Transfer
begin

unbundle bit_operations_syntax

text \<open>
  The desktop of the firmware: the state of the system services
  (\<open>src/src/kernel/system_service_state.c\<close>) and the routine that composes the status bar, the
  text and the presentation (\<open>boot_desktop_ui_render\<close> of \<open>src/src/kernel.c\<close>). The flags of
  the code, which are 0 or 1, are truth values. What a call reads from its surroundings, the
  clock, the state of the tasks and of USB, is a record of the values it finds.
\<close>

section \<open>The services of the system\<close>

abbreviation (input) SYSTEM_SERVICE_MAX_MINUTES :: u32 where "SYSTEM_SERVICE_MAX_MINUTES \<equiv> 5999"
abbreviation (input) SYSTEM_SERVICE_SATURATE_MINUTES :: u32 where "SYSTEM_SERVICE_SATURATE_MINUTES \<equiv> 6000"

record system_service_state_snapshot =
  ss_uptime_ms :: u32
  ss_displayed_minute :: u32
  ss_system_healthy :: u8
  ss_usb_configured :: u8
  ss_network_online :: u8

record system_service =
  ss_current_state :: system_service_state_snapshot
  ss_uptime_saturated :: bool

definition displayed_minute_from_uptime :: "bool \<Rightarrow> u32 \<Rightarrow> u32 \<times> bool" where
  "displayed_minute_from_uptime saturated uptime_ms =
     (let total_minutes = uptime_ms div 60000
      in if saturated \<or> total_minutes \<ge> SYSTEM_SERVICE_SATURATE_MINUTES then (SYSTEM_SERVICE_MAX_MINUTES, True)
         else (total_minutes, saturated))"

definition system_service_state_reset :: system_service where
  "system_service_state_reset = \<lparr>ss_current_state = \<lparr>ss_uptime_ms = 0, ss_displayed_minute = 0, ss_system_healthy = 0,
     ss_usb_configured = 0, ss_network_online = 0\<rparr>, ss_uptime_saturated = False\<rparr>"

definition system_service_state_update :: "system_service \<Rightarrow> u32 \<Rightarrow> u8 \<Rightarrow> u8 \<Rightarrow> u8 \<Rightarrow> system_service" where
  "system_service_state_update s uptime_ms system_healthy usb_configured network_online =
     (case displayed_minute_from_uptime (ss_uptime_saturated s) uptime_ms of (minute, saturated) \<Rightarrow>
        \<lparr>ss_current_state = \<lparr>ss_uptime_ms = uptime_ms, ss_displayed_minute = minute,
            ss_system_healthy = (if system_healthy \<noteq> 0 then 1 else 0),
            ss_usb_configured = (if usb_configured \<noteq> 0 then 1 else 0),
            ss_network_online = (if network_online \<noteq> 0 then 1 else 0)\<rparr>,
         ss_uptime_saturated = saturated\<rparr>)"

section \<open>The desktop\<close>

abbreviation (input) BOOT_DESKTOP_UI_SPLASH_MIN_MS :: u32 where "BOOT_DESKTOP_UI_SPLASH_MIN_MS \<equiv> 1000"

datatype boot_desktop_ui_state = BOOT_DESKTOP_UI_SPLASH | BOOT_DESKTOP_UI_HOME

record boot_desktop_ui_snapshot =
  us_state :: boot_desktop_ui_state
  us_system_indicator :: u32
  us_usb_indicator :: u32
  us_network_indicator :: u32
  us_total_minutes :: u32

text \<open>The static variables, and the objects of the other parts that the routine works on.\<close>

record desktop =
  du_state :: boot_desktop_ui_state
  du_splash_started_at :: u32
  du_splash_visible :: bool
  du_initialized :: bool
  du_snapshot_valid :: bool
  du_panel_initialized :: bool
  du_layout_revision :: u32
  du_last_snapshot :: boot_desktop_ui_snapshot
  du_status :: oled_status_bar
  du_services :: system_service
  du_console :: oled_console
  du_surface :: mono_fb
  du_bridge :: application_bridge
  du_layout :: ui_layout_state
  du_panel :: ssd1306

text \<open>
  What a call finds: whether the tasks run, at its two readings, the clock at its three, and
  whether USB is configured.
\<close>

record desktop_inputs =
  di_ready_for_home :: bool
  di_now_for_home :: u32
  di_now :: u32
  di_ready :: bool
  di_usb_configured :: bool
  di_now_shown :: u32

definition boot_desktop_ui_initialize :: "desktop \<Rightarrow> desktop" where
  "boot_desktop_ui_initialize d = d\<lparr>du_state := BOOT_DESKTOP_UI_SPLASH, du_splash_started_at := 0, du_splash_visible := False,
     du_snapshot_valid := False, du_panel_initialized := False, du_layout_revision := active_layout_revision (du_layout d),
     du_services := system_service_state_reset, du_status := oled_status_bar_init (du_status d), du_initialized := True\<rparr>"

definition boot_desktop_ui_update_state :: "desktop_inputs \<Rightarrow> desktop \<Rightarrow> desktop" where
  "boot_desktop_ui_update_state i d =
     (if du_initialized d \<and> du_state d = BOOT_DESKTOP_UI_SPLASH \<and> du_splash_visible d \<and> di_ready_for_home i
         \<and> kernel_time_elapsed (di_now_for_home i) (du_splash_started_at d) BOOT_DESKTOP_UI_SPLASH_MIN_MS
      then d\<lparr>du_state := BOOT_DESKTOP_UI_HOME\<rparr> else d)"

definition system_service_state_refresh :: "desktop_inputs \<Rightarrow> desktop \<Rightarrow> desktop" where
  "system_service_state_refresh i d = d\<lparr>du_services := system_service_state_update (du_services d) (di_now i)
     (if di_ready i then 1 else 0) (if di_usb_configured i then 1 else 0) 0\<rparr>"

definition indicator :: "u8 \<Rightarrow> u32" where
  "indicator v = (if v \<noteq> 0 then OLED_STATUS_INDICATOR_FILLED else OLED_STATUS_INDICATOR_RING)"

definition boot_desktop_ui_snapshot_build :: "desktop \<Rightarrow> boot_desktop_ui_snapshot" where
  "boot_desktop_ui_snapshot_build d = (let s = ss_current_state (du_services d) in
     \<lparr>us_state = du_state d, us_system_indicator = indicator (ss_system_healthy s), us_usb_indicator = indicator (ss_usb_configured s),
      us_network_indicator = indicator (ss_network_online s), us_total_minutes = ss_displayed_minute s\<rparr>)"

definition boot_desktop_ui_snapshot_equal :: "boot_desktop_ui_snapshot \<Rightarrow> boot_desktop_ui_snapshot \<Rightarrow> bool" where
  "boot_desktop_ui_snapshot_equal l r \<longleftrightarrow> us_state l = us_state r \<and> us_system_indicator l = us_system_indicator r
     \<and> us_usb_indicator l = us_usb_indicator r \<and> us_network_indicator l = us_network_indicator r \<and> us_total_minutes l = us_total_minutes r"

definition boot_desktop_ui_application_snapshot_build :: "desktop \<Rightarrow> application_service_snapshot" where
  "boot_desktop_ui_application_snapshot_build d = (let s = ss_current_state (du_services d) in
     \<lparr>sv_uptime_ms = ss_uptime_ms s, sv_displayed_minute = ss_displayed_minute s, sv_system_healthy = ss_system_healthy s,
      sv_usb_configured = ss_usb_configured s, sv_network_online = ss_network_online s\<rparr>)"

definition boot_desktop_ui_application_service :: "boot_desktop_ui_snapshot \<Rightarrow> desktop \<Rightarrow> bool \<times> desktop" where
  "boot_desktop_ui_application_service ui d =
     (if us_state ui \<noteq> BOOT_DESKTOP_UI_HOME then (True, d)
      else case application_runtime_bridge_service apps (du_bridge d) (Some (boot_desktop_ui_application_snapshot_build d)) of
        (ok, b) \<Rightarrow> (ok, d\<lparr>du_bridge := b\<rparr>))"

definition boot_desktop_ui_application_snapshot_current :: "desktop_inputs \<Rightarrow> desktop \<Rightarrow> application_service_snapshot option \<times> desktop" where
  "boot_desktop_ui_application_snapshot_current i d =
     (if du_state d \<noteq> BOOT_DESKTOP_UI_HOME \<or> \<not> application_runtime_bridge_is_initialized (du_bridge d) then (None, d)
      else let d1 = system_service_state_refresh i d in (Some (boot_desktop_ui_application_snapshot_build d1), d1))"

text \<open>The bar, redrawn in full or where it changed.\<close>

definition desktop_render_status :: "boot_desktop_ui_snapshot \<Rightarrow> bool \<Rightarrow> desktop \<Rightarrow> desktop" where
  "desktop_render_status snapshot full_compose d =
     (let st1 = oled_status_bar_set_indicators (du_status d) (us_system_indicator snapshot) (us_usb_indicator snapshot) (us_network_indicator snapshot);
          st2 = oled_status_bar_set_time st1 (us_total_minutes snapshot div 60) (us_total_minutes snapshot mod 60);
          fb1 = (if full_compose then mono_fb_mark_all_dirty (mono_fb_clear (du_surface d)) else du_surface d);
          st3 = (if full_compose then oled_status_bar_mark_all_dirty st2 else st2)
      in case oled_status_bar_render st3 fb1 (status_rect (active_layout (du_layout d))) of (st4, fb2) \<Rightarrow>
           d\<lparr>du_status := st4, du_surface := fb2\<rparr>)"

definition splash_console :: "oled_console \<Rightarrow> oled_console" where
  "splash_console c =
     oled_console_write (oled_console_write_line (oled_console_write_line (oled_console_clear c)
       (Some (chars ''DEUS OS''))) (Some (chars ''STARTING''))) (Some (chars ''PLEASE WAIT''))"

text \<open>A rendering that leaves a row dirty has not shown the text.\<close>

definition desktop_render_console :: "desktop \<Rightarrow> bool \<times> desktop" where
  "desktop_render_console d =
     (case oled_console_render (du_console d) (du_surface d) (console_rect (active_layout (du_layout d))) of (c, fb) \<Rightarrow>
        let d1 = d\<lparr>du_console := c, du_surface := fb\<rparr> in
        if oc_dirty_rows c \<noteq> 0 then (False, d1\<lparr>du_snapshot_valid := False\<rparr>) else (True, d1))"

definition desktop_render_text :: "boot_desktop_ui_snapshot \<Rightarrow> bool \<Rightarrow> desktop \<Rightarrow> bool \<times> desktop" where
  "desktop_render_text snapshot full_compose d =
     (if us_state snapshot = BOOT_DESKTOP_UI_SPLASH \<and> full_compose
      then desktop_render_console (d\<lparr>du_console := splash_console (du_console d)\<rparr>)
      else if us_state snapshot = BOOT_DESKTOP_UI_HOME \<and> (full_compose \<or> application_runtime_bridge_view_dirty (du_bridge d))
      then (case application_runtime_bridge_apply_view (du_bridge d) (du_console d) full_compose of (ok, c) \<Rightarrow>
              let d1 = d\<lparr>du_console := c\<rparr> in
              if \<not> ok then (False, d1\<lparr>du_snapshot_valid := False\<rparr>) else desktop_render_console d1)
      else (True, d))"

text \<open>The notes of a composition that was shown.\<close>

definition desktop_shown :: "desktop_inputs \<Rightarrow> boot_desktop_ui_snapshot \<Rightarrow> desktop \<Rightarrow> desktop" where
  "desktop_shown i snapshot d =
     (let d1 = (if us_state snapshot = BOOT_DESKTOP_UI_HOME
                then d\<lparr>du_bridge := application_runtime_bridge_view_consumed (du_bridge d)\<rparr> else d);
          d2 = (if us_state snapshot = BOOT_DESKTOP_UI_SPLASH \<and> \<not> du_splash_visible d1
                then d1\<lparr>du_splash_started_at := di_now_shown i, du_splash_visible := True\<rparr> else d1)
      in d2\<lparr>du_last_snapshot := snapshot, du_layout_revision := active_layout_revision (du_layout d2), du_snapshot_valid := True\<rparr>)"

definition desktop_present :: "i2c_hw \<Rightarrow> desktop_inputs \<Rightarrow> bool \<Rightarrow> boot_desktop_ui_snapshot \<Rightarrow> desktop \<Rightarrow> bool \<times> desktop" where
  "desktop_present hw i display_enable_required snapshot d =
     (case ssd1306_present hw (du_panel d) (du_surface d) of (shown, p, fb) \<Rightarrow>
      let d1 = d\<lparr>du_panel := p, du_surface := fb\<rparr> in
      if \<not> shown then (False, d1\<lparr>du_panel_initialized := False, du_snapshot_valid := False\<rparr>)
      else if fb_dirty_pages fb \<noteq> 0 then (False, d1\<lparr>du_snapshot_valid := False\<rparr>)
      else case (if display_enable_required then ssd1306_display_on hw p else (True, p)) of (on, p2) \<Rightarrow>
      let d2 = d1\<lparr>du_panel := p2\<rparr> in
      if \<not> on then (False, d2\<lparr>du_panel_initialized := False, du_snapshot_valid := False\<rparr>)
      else (True, desktop_shown i snapshot d2))"

text \<open>The panel is set up when it has to be; the composition, and the presentation.\<close>

definition desktop_compose :: "i2c_hw \<Rightarrow> desktop_inputs \<Rightarrow> bool \<Rightarrow> boot_desktop_ui_snapshot \<Rightarrow> desktop \<Rightarrow> bool \<times> desktop" where
  "desktop_compose hw i force snapshot d =
     (if \<not> oled_ui_layout_validate (Some (active_layout (du_layout d))) then (False, d)
      else case (if \<not> du_panel_initialized d then ssd1306_init hw (du_panel d) else (True, du_panel d)) of (ready, p) \<Rightarrow>
      let display_enable_required = (\<not> du_panel_initialized d); d1 = d\<lparr>du_panel := p\<rparr> in
      if \<not> ready then (False, d1)
      else let d2 = d1\<lparr>du_panel_initialized := True\<rparr>;
               full_compose = (display_enable_required \<or> force \<or> \<not> du_snapshot_valid d2
                  \<or> us_state snapshot \<noteq> us_state (du_last_snapshot d2));
               d3 = desktop_render_status snapshot full_compose d2
           in case desktop_render_text snapshot full_compose d3 of (ok, d4) \<Rightarrow>
                if \<not> ok then (False, d4) else desktop_present hw i display_enable_required snapshot d4)"

definition boot_desktop_ui_render :: "i2c_hw \<Rightarrow> desktop_inputs \<Rightarrow> bool \<Rightarrow> desktop \<Rightarrow> bool \<times> desktop" where
  "boot_desktop_ui_render hw i force d =
     (let d1 = (if \<not> du_initialized d then boot_desktop_ui_initialize d else d);
          d2 = system_service_state_refresh i (boot_desktop_ui_update_state i d1);
          snapshot = boot_desktop_ui_snapshot_build d2
      in case boot_desktop_ui_application_service snapshot d2 of (served, d3) \<Rightarrow>
           if \<not> served then (False, d3)
           else if \<not> force \<and> du_snapshot_valid d3 \<and> \<not> application_runtime_bridge_view_dirty (du_bridge d3)
                \<and> du_layout_revision d3 = active_layout_revision (du_layout d3) \<and> boot_desktop_ui_snapshot_equal snapshot (du_last_snapshot d3)
           then (True, d3)
           else desktop_compose hw i force snapshot d3)"

definition oled_runtime_ui_show :: "i2c_hw \<Rightarrow> desktop_inputs \<Rightarrow> desktop \<Rightarrow> bool \<times> desktop" where
  "oled_runtime_ui_show hw i d = boot_desktop_ui_render hw i True d"

definition boot_desktop_ui_service :: "i2c_hw \<Rightarrow> desktop_inputs \<Rightarrow> desktop \<Rightarrow> desktop" where
  "boot_desktop_ui_service hw i d = snd (boot_desktop_ui_render hw i False d)"

section \<open>The services\<close>

text \<open>
  The minutes shown grow with the uptime up to 99:59, where they stay, also when the
  millisecond counter wraps afterwards.
\<close>

lemma displayed_minute_bound: "fst (displayed_minute_from_uptime saturated t) \<le> 5999"
  by (auto simp: displayed_minute_from_uptime_def Let_def word_le_nat_alt)

lemma snapshot_flags:
  "ss_system_healthy (ss_current_state (system_service_state_update s t h u n)) = (if h \<noteq> 0 then 1 else 0)"
  "ss_usb_configured (ss_current_state (system_service_state_update s t h u n)) = (if u \<noteq> 0 then 1 else 0)"
  "ss_network_online (ss_current_state (system_service_state_update s t h u n)) = (if n \<noteq> 0 then 1 else 0)"
  "ss_displayed_minute (ss_current_state (system_service_state_update s t h u n)) = fst (displayed_minute_from_uptime (ss_uptime_saturated s) t)"
  by (simp_all add: system_service_state_update_def split: prod.split)

end
