(* ===== verification/Desktop_Shown.thy ===== *)
theory Desktop_Shown
  imports Desktop_Ui
begin

unbundle bit_operations_syntax

text \<open>
  The desktop on the panel: after \<open>boot_desktop_ui_render\<close> of \<open>src/src/kernel.c\<close> reports
  success the panel shows the status bar of the current services and the text of the splash
  or of the active application.
\<close>

section \<open>The picture of the desktop\<close>

abbreviation (input) bar_rect :: "oled_ui_layout \<Rightarrow> mono_rect" where "bar_rect L \<equiv> status_rect L"

definition snapshot_view :: "boot_desktop_ui_snapshot \<Rightarrow> status_view" where
  "snapshot_view s = \<lparr>sv_hours = unat (us_total_minutes s) div 60, sv_minutes = unat (us_total_minutes s) mod 60,
     sv_system = (us_system_indicator s = 1), sv_usb = (us_usb_indicator s = 1), sv_network = (us_network_indicator s = 1)\<rparr>"

definition view_lines :: "application_bridge \<Rightarrow> bytes list" where
  "view_lines b = map (\<lambda>row. desired_row (rt_view (br_runtime b) ! row) False 21) [0..<3]"

definition splash_lines :: "bytes list" where
  "splash_lines = map (\<lambda>t. t @ replicate (21 - length t) 0x20) [chars ''DEUS OS'', chars ''STARTING'', chars ''PLEASE WAIT'']"

text \<open>A picture (of the framebuffer or of the panel) that shows a bar and lines of text.\<close>

definition shows_desktop :: "oled_ui_layout \<Rightarrow> status_view \<Rightarrow> bytes list \<Rightarrow> (nat \<Rightarrow> nat \<Rightarrow> bool) \<Rightarrow> bool" where
  "shows_desktop L v ls px \<longleftrightarrow> (\<forall>x < 128. \<forall>y < 32.
     (bar_area (bar_rect L) (int x) (int y) \<longrightarrow> px x y = bar_picture (bar_rect L) v (int x) (int y))
   \<and> (text_area (console_rect L) (int x) (int y) \<longrightarrow> px x y = text_picture (console_rect L) ls (int x) (int y)))"

definition shows_bar :: "oled_ui_layout \<Rightarrow> status_view \<Rightarrow> mono_fb \<Rightarrow> bool" where
  "shows_bar L v fb \<longleftrightarrow> (\<forall>x < 128. \<forall>y < 32. bar_area (bar_rect L) (int x) (int y) \<longrightarrow> fb_pixel fb x y = bar_picture (bar_rect L) v (int x) (int y))"

definition shows_text :: "oled_ui_layout \<Rightarrow> bytes list \<Rightarrow> mono_fb \<Rightarrow> bool" where
  "shows_text L ls fb \<longleftrightarrow> (\<forall>x < 128. \<forall>y < 32. text_area (console_rect L) (int x) (int y) \<longrightarrow> fb_pixel fb x y = text_picture (console_rect L) ls (int x) (int y))"

lemma shows_both: "shows_desktop L v ls (fb_pixel fb) \<longleftrightarrow> shows_bar L v fb \<and> shows_text L ls fb"
  by (auto simp: shows_desktop_def shows_bar_def shows_text_def)

lemma valid_layout:
  assumes "oled_ui_layout_validate (Some L)"
  shows "r_x (bar_rect L) = 0" "r_y (bar_rect L) = 0" "r_width (bar_rect L) = 128" "r_height (bar_rect L) = 9" "10 \<le> r_y (console_rect L)"
    "0 < visible_columns (console_rect L)"
  using assms by (auto simp: oled_ui_layout_validate_def available_cells_def Let_def)

lemma tall_rows: "20 \<le> r_height clip \<Longrightarrow> visible_rows clip = 3"
proof -
  assume h: "20 \<le> r_height clip"
  have "14 div 7 \<le> (nat (r_height clip) - 6) div 7" using h by (intro div_le_mono) linarith
  then show ?thesis using h by (simp add: available_cells_def Let_def)
qed

text \<open>The bar and the text are apart.\<close>

lemma areas_apart: "oled_ui_layout_validate (Some L) \<Longrightarrow> text_area (console_rect L) px py \<Longrightarrow> \<not> bar_area (bar_rect L) px py"
  using valid_layout[of L] clip_from[of "console_rect L" px py] by (auto simp: text_area_def text_row_def bar_area_def in_box_def)

section \<open>The steps of a composition\<close>

lemma screen_dims: "screen fb \<Longrightarrow> columns fb = 128 \<and> rows fb = 32 \<and> fb_sized fb \<and> fb_ok fb"
  by (simp add: screen_def fb_sized_def)

lemma minutes_split: "(m :: u32) \<le> 5999 \<Longrightarrow> min 99 (unat (m div 60)) = unat m div 60 \<and> min 59 (unat (m mod 60)) = unat m mod 60"
  by (simp add: word_le_nat_alt unat_div unat_mod)

text \<open>
  The bar: drawn in full, or where it changed on a surface that showed it, it shows the
  snapshot; and if it is not drawn in full the text stays.
\<close>

lemma status_step:
  fixes full :: bool
  assumes L: "oled_ui_layout_validate (Some L)" "active_layout (du_layout d) = L" and st: "bar_ok (du_status d)" and sc: "screen (du_surface d)"
    and m: "us_total_minutes s \<le> 5999"
  defines "d' \<equiv> desktop_render_status s full d"
  shows "\<exists>st' fb'. d' = d\<lparr>du_status := st', du_surface := fb'\<rparr> \<and> bar_ok st' \<and> st_dirty st' = 0 \<and> status_view st' = snapshot_view s
     \<and> (full \<or> shows_bar L (status_view (du_status d)) (du_surface d) \<longrightarrow> shows_bar L (snapshot_view s) fb') \<and> screen fb' \<and> (\<not> full \<longrightarrow> drawn (du_surface d) fb' \<and> (\<forall>ls. shows_text L ls (du_surface d) \<longrightarrow> shows_text L ls fb'))
     \<and> (full \<longrightarrow> (\<forall>g p. set_up p \<longrightarrow> tracked g p fb'))"
proof -
  define st1 where "st1 = oled_status_bar_set_indicators (du_status d) (us_system_indicator s) (us_usb_indicator s) (us_network_indicator s)"
  define st2 where "st2 = oled_status_bar_set_time st1 (us_total_minutes s div 60) (us_total_minutes s mod 60)"
  define fb1 where "fb1 = (if full then mono_fb_mark_all_dirty (mono_fb_clear (du_surface d)) else du_surface d)"
  define st3 where "st3 = (if full then oled_status_bar_mark_all_dirty st2 else st2)"
  obtain st4 fb2 where r: "oled_status_bar_render st3 fb1 (bar_rect L) = (st4, fb2)" by fastforce
  have d': "d' = d\<lparr>du_status := st4, du_surface := fb2\<rparr>"
    unfolding d'_def desktop_render_status_def Let_def st1_def[symmetric] st2_def[symmetric] fb1_def[symmetric] st3_def[symmetric] L(2) r prod.case
    by (rule refl)
  note i = set_indicators_exact[of "du_status d" "us_system_indicator s" "us_usb_indicator s" "us_network_indicator s", folded st1_def]
  note t = set_time_exact[OF i(1)[OF st], of "us_total_minutes s div 60" "us_total_minutes s mod 60", folded st2_def]
  have v2: "status_view st2 = snapshot_view s" using t(3) i(3) minutes_split[OF m] by (simp add: snapshot_view_def)
  have ok3: "bar_ok st3" "status_view st3 = snapshot_view s"
    using t(1) v2 by (simp_all add: st3_def oled_status_bar_mark_all_dirty_def bar_ok_def status_view_def)
  have clear: "drawn (du_surface d) (mono_fb_clear (du_surface d))" using clear_drawn sc by (simp add: screen_def)
  have scc: "screen (mono_fb_clear (du_surface d))" by (rule screen_drawn[OF sc clear])
  note mk = mark_all_covers[OF conjunct1[OF scc[unfolded screen_def]]]
  have sc1: "screen fb1" using sc screen_drawn[OF scc mk(1)] by (simp add: fb1_def)
  note w = valid_layout(3,4)[OF L(1)]
  note e = bar_paints[OF ok3(1) conjunct1[OF conjunct2[OF conjunct2[OF screen_dims[OF sc1]]]] w r]
  have dr: "drawn fb1 fb2" using e(2) by (simp add: paints_def)
  have sc2: "screen fb2" by (rule screen_drawn[OF sc1 dr])
  have bar: "shows_bar L (snapshot_view s) fb2" if old: "full \<or> shows_bar L (status_view (du_status d)) (du_surface d)"
  proof -
    have p3: "bar_painted (bar_rect L) st3 fb1"
    proof (cases full)
      case True
      then show ?thesis by (simp add: st3_def oled_status_bar_mark_all_dirty_def frame_dirty_painted)
    next
      case False
      have "bar_painted (bar_rect L) (du_status d) fb1"
        using old screen_dims[OF sc] False by (simp add: bar_painted_def shows_bar_def fb1_def)
      then have "bar_painted (bar_rect L) st2 fb1" using i(2) t(2) bar_painted_marked by blast
      then show ?thesis using False by (simp add: st3_def)
    qed
    have inv: "bar_inv (bar_rect L) (snapshot_view s) st3 fb1" using ok3 p3 screen_dims[OF sc1] by (simp add: bar_inv_def)
    show ?thesis using rendered_paints[OF inv w r] screen_dims[OF sc1] by (simp add: paints_def shows_bar_def)
  qed
  have only: "redrawn (bar_rect L) st3 px py \<Longrightarrow> bar_area (bar_rect L) px py" for px py using item_inside by (auto simp: redrawn_def)
  have lines: "shows_text L ls fb2" if old: "shows_text L ls fb1" for ls
    unfolding shows_text_def
  proof (intro allI impI)
    fix x y :: nat
    assume a: "x < 128" "y < 32" "text_area (console_rect L) (int x) (int y)"
    have "\<not> redrawn (bar_rect L) st3 (int x) (int y)" using only areas_apart[OF L(1) a(3)] by blast
    then have "fb_pixel fb2 x y = fb_pixel fb1 x y" using e(2) a screen_dims[OF sc1] by (simp add: paints_def)
    then show "fb_pixel fb2 x y = text_picture (console_rect L) ls (int x) (int y)" using old a by (simp add: shows_text_def)
  qed
  have trk: "tracked g q fb2" if "full" "set_up q" for g q
  proof -
    have "tracked g q fb1" using mk(3) screen_pages[OF scc] sc1 scc that by (simp add: tracked_def fb1_def screen_def)
    then show ?thesis by (rule tracked_drawn[OF _ dr])
  qed
  have part: "\<not> full \<longrightarrow> drawn (du_surface d) fb2 \<and> (\<forall>ls. shows_text L ls (du_surface d) \<longrightarrow> shows_text L ls fb2)"
    using dr lines by (auto simp: fb1_def)
  have st4: "bar_ok st4" "st_dirty st4 = 0" "status_view st4 = snapshot_view s" using e(1) ok3 by (simp_all add: bar_ok_def status_view_def)
  show ?thesis using d' st4 bar sc2 part trk by (intro exI[of _ st4] exI[of _ fb2]) blast
qed

text \<open>Marks are on rows of the console only, and a rendering adds none.\<close>

definition low_rows :: "oled_console \<Rightarrow> bool" where
  "low_rows c \<longleftrightarrow> (\<forall>k. bit (oc_dirty_rows c) k \<longrightarrow> k < 3)"

lemma render_dirty: "oled_console_render c fb clip = (c', fb') \<Longrightarrow> bit (oc_dirty_rows c') k \<Longrightarrow> bit (oc_dirty_rows c) k"
  by (auto simp: oled_console_render_def Let_def bit_and_iff split: if_splits prod.splits)

lemma apply_view_low:
  assumes "low_rows c" "application_runtime_bridge_apply_view b c force = (ok, c')"
  shows "low_rows c'"
proof (cases "rt_active_id (br_runtime b) = 0")
  case True
  then show ?thesis using assms by (simp add: application_runtime_bridge_apply_view_def application_runtime_view_get_def)
next
  case False
  have b3: "bit (page_bit 3 - 1) k \<longleftrightarrow> k < 3" for k using low_bits[of 3 k] by simp
  show ?thesis
    using assms False
    by (auto simp: application_runtime_bridge_apply_view_def application_runtime_view_get_def upt3 apply_row_def Let_def low_rows_def
        bit_or_iff b3 page_bit_bits split: if_splits)
qed

lemma splash_exact: "console_rows (splash_console c) = splash_lines" "oc_dirty_rows (splash_console c) = 7" "console_ok (splash_console c)" "low_rows (splash_console c)"
proof -
  define c0 where "c0 = oled_console_clear \<lparr>oc_cells = [], oc_first_row = 0, oc_cursor_x = 0, oc_cursor_y = 0, oc_dirty_rows = 0\<rparr>"
  have e: "oled_console_clear c = c0" by (cases c) (simp add: c0_def oled_console_clear_def)
  show "console_rows (splash_console c) = splash_lines" "oc_dirty_rows (splash_console c) = 7" "console_ok (splash_console c)"
    unfolding splash_console_def e c0_def by code_simp+
  moreover have "bit (7 :: u8) k \<longleftrightarrow> k < 3" for k
  proof -
    have m: "(7 :: u8) = mask 3" by code_simp
    show ?thesis unfolding m bit_mask_iff by auto
  qed
  ultimately show "low_rows (splash_console c)" by (simp add: low_rows_def)
qed

text \<open>The text: the console is rendered, and if its clean rows were on the surface, all of it is now.\<close>

lemma console_step:
  assumes L: "oled_ui_layout_validate (Some L)" "active_layout (du_layout d) = L" and c: "console_ok (du_console d)" and sc: "screen (du_surface d)"
    and r: "desktop_render_console d = (ok, d')"
  shows "\<exists>c' fb'. d' = (if ok then d\<lparr>du_console := c', du_surface := fb'\<rparr> else d\<lparr>du_console := c', du_surface := fb', du_snapshot_valid := False\<rparr>)
     \<and> console_ok c' \<and> screen fb' \<and> drawn (du_surface d) fb' \<and> console_rows c' = console_rows (du_console d)
     \<and> (painted (console_rect L) (du_console d) (du_surface d) \<longrightarrow> shows_text L (console_rows c') fb') \<and> (\<forall>v. shows_bar L v (du_surface d) \<longrightarrow> shows_bar L v fb') \<and> (ok \<longleftrightarrow> oc_dirty_rows c' = 0)
     \<and> (20 \<le> r_height (console_rect L) \<and> low_rows (du_console d) \<longrightarrow> ok)"
proof -
  obtain c' fb' where e: "oled_console_render (du_console d) (du_surface d) (console_rect L) = (c', fb')" by fastforce
  note dims = screen_dims[OF sc]
  note pr = painted_render[OF _ _ _ _ e]
  note rp = render_paints[OF _ e]
  have ok: "ok \<longleftrightarrow> oc_dirty_rows c' = 0"
    and d': "d' = (if ok then d\<lparr>du_console := c', du_surface := fb'\<rparr> else d\<lparr>du_console := c', du_surface := fb', du_snapshot_valid := False\<rparr>)"
    using r L(2) by (auto simp: desktop_render_console_def e Let_def split: if_splits)
  obtain dd where dd: "c' = (du_console d)\<lparr>oc_dirty_rows := dd\<rparr>"
    "\<forall>k < 3. bit dd k \<longleftrightarrow> bit (oc_dirty_rows (du_console d)) k \<and> \<not> (0 < visible_columns (console_rect L) \<and> k < visible_rows (console_rect L))"
    using rp(2) dims by blast
  have "console_ok c'" using c dd(1) by (simp add: console_ok_def)
  moreover have rw: "console_rows c' = console_rows (du_console d)" using dd(1) by (simp add: console_rows_def)
  moreover have "shows_text L (console_rows c') fb'" if "painted (console_rect L) (du_console d) (du_surface d)"
    using pr(4) that dims rw by (simp add: shows_text_def)
  moreover have "shows_bar L v fb'" if old: "shows_bar L v (du_surface d)" for v
    unfolding shows_bar_def
  proof (intro allI impI)
    fix x y :: nat
    assume a: "x < 128" "y < 32" "bar_area (bar_rect L) (int x) (int y)"
    have none: "\<not> (\<exists>row < visible_rows (console_rect L). bit (oc_dirty_rows (du_console d)) row \<and> text_row (console_rect L) row (int x) (int y))"
      using areas_apart[OF L(1), of "int x" "int y"] a(3) unfolding text_area_def by blast
    have "fb_pixel fb' x y = (if \<exists>row < visible_rows (console_rect L). bit (oc_dirty_rows (du_console d)) row \<and> text_row (console_rect L) row (int x) (int y)
        then text_picture (console_rect L) (console_rows (du_console d)) (int x) (int y) else fb_pixel (du_surface d) x y)"
      using rp(1) dims a(1,2) by (simp add: paints_def)
    then have "fb_pixel fb' x y = fb_pixel (du_surface d) x y" unfolding if_not_P[OF none] .
    then show "fb_pixel fb' x y = bar_picture (bar_rect L) v (int x) (int y)" using old a by (simp add: shows_bar_def)
  qed
  moreover have "drawn (du_surface d) fb'" using rp(1) dims by (simp add: paints_def)
  moreover have "oc_dirty_rows c' = 0" if h: "20 \<le> r_height (console_rect L)" "low_rows (du_console d)"
  proof (rule bit_word_eqI)
    fix k assume "k < LENGTH(8)"
    have "visible_rows (console_rect L) = 3" by (rule tall_rows[OF h(1)])
    then show "bit (oc_dirty_rows c') k \<longleftrightarrow> bit (0 :: u8) k"
      using dd h(2) render_dirty[OF e, of k] valid_layout(6)[OF L(1)] by (auto simp: low_rows_def)
  qed
  ultimately show ?thesis
    using d' ok screen_drawn[OF sc] by blast
qed

text \<open>What the text has to be, and when the console already holds it.\<close>

definition text_current :: "boot_desktop_ui_snapshot \<Rightarrow> application_bridge \<Rightarrow> oled_console \<Rightarrow> bool" where
  "text_current s b c \<longleftrightarrow> (us_state s = BOOT_DESKTOP_UI_SPLASH \<longrightarrow> console_rows c = splash_lines)
     \<and> (us_state s = BOOT_DESKTOP_UI_HOME \<and> \<not> application_runtime_bridge_view_dirty b \<longrightarrow> console_rows c = view_lines b)"

definition text_shown :: "boot_desktop_ui_snapshot \<Rightarrow> application_bridge \<Rightarrow> bytes list \<Rightarrow> bool" where
  "text_shown s b ls \<longleftrightarrow> (us_state s = BOOT_DESKTOP_UI_SPLASH \<longrightarrow> ls = splash_lines) \<and> (us_state s = BOOT_DESKTOP_UI_HOME \<longrightarrow> ls = view_lines b)"

lemma painted_shown: "shows_text L (console_rows c) fb \<Longrightarrow> painted (console_rect L) c fb"
  by (auto simp: painted_def shows_text_def text_area_def)

lemma painted_dirty: "(\<And>k. k < 3 \<Longrightarrow> bit (oc_dirty_rows c) k) \<Longrightarrow> painted (console_rect L) c fb"
proof -
  assume a: "\<And>k. k < 3 \<Longrightarrow> bit (oc_dirty_rows c) k"
  have "visible_rows (console_rect L) \<le> 3" by (simp add: available_cells_def Let_def)
  then show ?thesis using a by (auto simp: painted_def)
qed

definition text_kept :: "oled_ui_layout \<Rightarrow> boot_desktop_ui_snapshot \<Rightarrow> desktop \<Rightarrow> bool" where
  "text_kept L s d \<longleftrightarrow> shows_text L (console_rows (du_console d)) (du_surface d) \<and> oc_dirty_rows (du_console d) = 0
     \<and> text_current s (du_bridge d) (du_console d)"

lemma text_step:
  assumes L: "oled_ui_layout_validate (Some L)" "active_layout (du_layout d) = L"
    and c: "console_ok (du_console d)" "low_rows (du_console d)" and sc: "screen (du_surface d)"
    and home: "us_state s = BOOT_DESKTOP_UI_HOME \<Longrightarrow> rt_active_id (br_runtime (du_bridge d)) \<noteq> 0"
    and e: "desktop_render_text s full d = (ok, d')"
  shows "\<exists>c' fb'. d' = (if ok then d\<lparr>du_console := c', du_surface := fb'\<rparr> else d\<lparr>du_console := c', du_surface := fb', du_snapshot_valid := False\<rparr>)
     \<and> console_ok c' \<and> low_rows c' \<and> screen fb' \<and> drawn (du_surface d) fb' \<and> (\<forall>v. shows_bar L v (du_surface d) \<longrightarrow> shows_bar L v fb')
     \<and> (ok \<and> (full \<or> text_kept L s d) \<longrightarrow> oc_dirty_rows c' = 0 \<and> shows_text L (console_rows c') fb' \<and> text_shown s (du_bridge d) (console_rows c'))
     \<and> (20 \<le> r_height (console_rect L) \<longrightarrow> ok)"
proof -
  have fb: "drawn (du_surface d) (du_surface d)" using sc by (simp add: screen_def)
  have stay: ?thesis if "ok" "d' = d" "\<not> full" "text_kept L s d \<longrightarrow> text_shown s (du_bridge d) (console_rows (du_console d))"
  proof -
    show ?thesis using that c sc fb
      by (intro exI[of _ "du_console d"] exI[of _ "du_surface d"]) (simp add: text_kept_def)
  qed
  have via: ?thesis
    if r: "desktop_render_console (d\<lparr>du_console := c1\<rparr>) = (ok, d')" and c1: "console_ok c1" "low_rows c1"
      and p1: "full \<or> text_kept L s d \<Longrightarrow> painted (console_rect L) c1 (du_surface d)" and t: "text_shown s (du_bridge d) (console_rows c1)" for c1
  proof -
    obtain c' fb' where k: "d' = (if ok then d\<lparr>du_console := c', du_surface := fb'\<rparr> else d\<lparr>du_console := c', du_surface := fb', du_snapshot_valid := False\<rparr>)"
      "console_ok c'" "screen fb'" "drawn (du_surface d) fb'" "console_rows c' = console_rows c1" "full \<or> text_kept L s d \<longrightarrow> shows_text L (console_rows c') fb'"
      "\<forall>v. shows_bar L v (du_surface d) \<longrightarrow> shows_bar L v fb'" "ok \<longleftrightarrow> oc_dirty_rows c' = 0" "20 \<le> r_height (console_rect L) \<longrightarrow> ok"
    proof -
      define d1 where "d1 = d\<lparr>du_console := c1\<rparr>"
      have f: "active_layout (du_layout d1) = L" "console_ok (du_console d1)" "screen (du_surface d1)"
        "du_console d1 = c1" "du_surface d1 = du_surface d" "low_rows c1" using L sc c1 by (simp_all add: d1_def)
      have u: "d1\<lparr>du_console := c', du_surface := fb'\<rparr> = d\<lparr>du_console := c', du_surface := fb'\<rparr>" for c' fb' by (simp add: d1_def)
      obtain c' fb' where k: "d' = (if ok then d1\<lparr>du_console := c', du_surface := fb'\<rparr> else d1\<lparr>du_console := c', du_surface := fb', du_snapshot_valid := False\<rparr>)"
        "console_ok c'" "screen fb'" "drawn (du_surface d1) fb'" "console_rows c' = console_rows (du_console d1)"
        "painted (console_rect L) (du_console d1) (du_surface d1) \<longrightarrow> shows_text L (console_rows c') fb'"
        "\<forall>v. shows_bar L v (du_surface d1) \<longrightarrow> shows_bar L v fb'" "ok \<longleftrightarrow> oc_dirty_rows c' = 0"
        "20 \<le> r_height (console_rect L) \<and> low_rows (du_console d1) \<longrightarrow> ok"
        using console_step[OF L(1) f(1-3) r[folded d1_def]] by blast
      show ?thesis by (rule that[of fb' c']) (use k p1 f(4-6) u in simp_all)
    qed
    have "low_rows c'"
    proof -
      obtain c2 fb2 where o: "oled_console_render c1 (du_surface d) (console_rect L) = (c2, fb2)" by fastforce
      have "du_console d' = c2" using r L(2) by (auto simp: desktop_render_console_def o Let_def split: if_splits)
      then have "c' = c2" using k(1) by (auto split: if_splits)
      then show ?thesis using render_dirty[OF o] c1(2) by (auto simp: low_rows_def)
    qed
    then show ?thesis using k t by (intro exI[of _ c'] exI[of _ fb']) auto
  qed
  show ?thesis
  proof (cases "us_state s")
    case BOOT_DESKTOP_UI_SPLASH
    show ?thesis
    proof (cases full)
      case True
      have "bit (oc_dirty_rows (splash_console (du_console d))) k" if "k < 3" for k
        unfolding splash_exact(2) using all_rows[OF that] by (simp add: oled_console_all_rows_mask_def page_bit_def)
      then have p1: "painted (console_rect L) (splash_console (du_console d)) (du_surface d)" by (rule painted_dirty)
      have r: "desktop_render_console (d\<lparr>du_console := splash_console (du_console d)\<rparr>) = (ok, d')"
        using e True BOOT_DESKTOP_UI_SPLASH by (simp add: desktop_render_text_def)
      have t: "text_shown s (du_bridge d) (console_rows (splash_console (du_console d)))"
        using BOOT_DESKTOP_UI_SPLASH splash_exact(1) by (simp add: text_shown_def)
      show ?thesis by (rule via[OF r splash_exact(3,4) p1 t])
    next
      case False
      then have eq: "ok" "d' = d" "\<not> full" using e BOOT_DESKTOP_UI_SPLASH by (simp_all add: desktop_render_text_def)
      have "text_shown s (du_bridge d) (console_rows (du_console d))"
        if "text_kept L s d"
        using that False BOOT_DESKTOP_UI_SPLASH unfolding text_kept_def text_current_def text_shown_def by simp
      then show ?thesis using stay[OF eq] by blast
    qed
  next
    case BOOT_DESKTOP_UI_HOME
    show ?thesis
    proof (cases "full \<or> application_runtime_bridge_view_dirty (du_bridge d)")
      case False
      then have eq: "ok" "d' = d" "\<not> full" using e BOOT_DESKTOP_UI_HOME by (simp_all add: desktop_render_text_def)
      have "text_shown s (du_bridge d) (console_rows (du_console d))"
        if "text_kept L s d"
        using that False BOOT_DESKTOP_UI_HOME unfolding text_kept_def text_current_def text_shown_def by simp
      then show ?thesis using stay[OF eq] by blast
    next
      case True
      obtain okv c1 where v: "application_runtime_bridge_apply_view (du_bridge d) (du_console d) full = (okv, c1)" by fastforce
      note a = apply_view_rows[OF c(1) home[OF BOOT_DESKTOP_UI_HOME] v]
      have p1: "painted (console_rect L) c1 (du_surface d)" if old: "full \<or> text_kept L s d"
      proof (cases full)
        case True
        show ?thesis by (rule painted_dirty[OF a(5)[OF True]])
      next
        case False
        then show ?thesis using painted_marked[OF painted_shown a(4)] old unfolding text_kept_def by blast
      qed
      have r: "desktop_render_console (d\<lparr>du_console := c1\<rparr>) = (ok, d')"
        using e True BOOT_DESKTOP_UI_HOME v a(1) by (auto simp: desktop_render_text_def)
      have t: "text_shown s (du_bridge d) (console_rows c1)"
        using a(2) BOOT_DESKTOP_UI_HOME by (simp add: text_shown_def view_lines_def)
      show ?thesis by (rule via[OF r a(3) apply_view_low[OF c(2) v] p1 t])
    qed
  qed
qed

section \<open>The presentation\<close>

text \<open>A clean, tracked framebuffer is in the memory of the panel.\<close>

lemma panel_is_surface:
  assumes "tracked g s fb" "orderly (wire s)" "fb_dirty_pages fb = 0" "x < 128" "y < 32"
  shows "bit (g (wire s) (y div 8) x) (y mod 8) = fb_pixel fb x y"
proof -
  have "y div 8 < 4" using assms(5) by simp
  moreover have "\<not> covered fb (y div 8) x" using assms(3) by (simp add: covered_def)
  ultimately show ?thesis using assms(1,2,4) unfolding tracked_def fb_pixel_def by metis
qed

text \<open>Switching the display on changes no byte of the memory.\<close>

lemma display_on_panel:
  assumes "ssd1306_display_on hw s = (ok, s')"
  shows "gddram_spec g \<Longrightarrow> tracked g s fb \<Longrightarrow> tracked g s' fb" "set_up s \<Longrightarrow> set_up s'"
    "i2c_answers hw \<Longrightarrow> ok \<and> (horizontal (wire s) \<longrightarrow> horizontal (wire s'))"
proof -
  have w: "ssd1306_write hw s [0x00, 0xAF] = (ok, s')" using assms by (simp add: ssd1306_display_on_def ssd1306_command_def)
  show u: "set_up s \<Longrightarrow> set_up s'" by (rule display_on_set_up[OF assms])
  show "tracked g s' fb" if spec: "gddram_spec g" and t: "tracked g s fb"
  proof -
    have "orderly (wire s) \<and> g (wire s') = g (wire s)" if o: "orderly (wire s')"
    proof (cases "wire s' = wire s")
      case True
      then show ?thesis using o by simp
    next
      case False
      then obtain n where n: "wire s' = wire s @ [(0x3C, take n [0x00, 0xAF])]" using ssd1306_write_wire(2)[OF w] by blast
      then show ?thesis using quiet_step(1)[OF spec quiet_packets(3)] o orderly_prefix by metis
    qed
    then show ?thesis using t u by (simp add: tracked_def)
  qed
  show "i2c_answers hw \<Longrightarrow> ok \<and> (horizontal (wire s) \<longrightarrow> horizontal (wire s'))"
  proof -
    assume hw: "i2c_answers hw"
    have ok: ok using ssd1306_write_answered[OF hw, of "[0x00, 0xAF]" s] w by simp
    have st: "\<exists>st'. panel_step st (0x3C, [0x00, 0xAF]) = Some st' \<and> pn_mode st' = pn_mode st" for st by (simp add: panel_step_def)
    have "horizontal (wire s @ [(0x3C, [0x00, 0xAF])])" if h: "horizontal (wire s)"
      unfolding horizontal_def panel_after_snoc
    proof
      fix ram
      obtain s0 where "panel_after ram (wire s) = Some s0" "pn_mode s0 = 0" using h by (auto simp: horizontal_def)
      then show "\<exists>st. Option.bind (panel_after ram (wire s)) (\<lambda>st. panel_step st (0x3C, [0x00, 0xAF])) = Some st \<and> pn_mode st = 0"
        using st[of s0] by auto
    qed
    then show ?thesis using ok ssd1306_write_wire(1)[OF w ok] by simp
  qed
qed

definition present_frame :: "desktop \<Rightarrow> desktop \<Rightarrow> bool" where
  "present_frame d d' \<longleftrightarrow> du_console d' = du_console d \<and> du_status d' = du_status d \<and> du_layout d' = du_layout d \<and> du_state d' = du_state d
     \<and> du_services d' = du_services d \<and> du_initialized d' = du_initialized d \<and> fb_pixel (du_surface d') = fb_pixel (du_surface d)"

lemma desktop_shown_fields:
  "du_console (desktop_shown i s d) = du_console d" "du_status (desktop_shown i s d) = du_status d" "du_layout (desktop_shown i s d) = du_layout d"
  "du_state (desktop_shown i s d) = du_state d" "du_services (desktop_shown i s d) = du_services d" "du_initialized (desktop_shown i s d) = du_initialized d"
  "du_surface (desktop_shown i s d) = du_surface d" "du_panel (desktop_shown i s d) = du_panel d"
  "du_panel_initialized (desktop_shown i s d) = du_panel_initialized d" "du_snapshot_valid (desktop_shown i s d)" "du_last_snapshot (desktop_shown i s d) = s"
  "du_bridge (desktop_shown i s d) = (if us_state s = BOOT_DESKTOP_UI_HOME then application_runtime_bridge_view_consumed (du_bridge d) else du_bridge d)"
  by (simp_all add: desktop_shown_def Let_def)

lemma present_step:
  assumes sc: "screen (du_surface d)" and u: "set_up (du_panel d)"
    and e: "desktop_present hw i den s d = (ok, d')"
  shows "present_frame d d' \<and> screen (du_surface d') \<and> set_up (du_panel d')
     \<and> (gddram_spec g \<and> tracked g (du_panel d) (du_surface d) \<longrightarrow> tracked g (du_panel d') (du_surface d'))
     \<and> (i2c_answers hw \<longrightarrow> ok \<and> (horizontal (wire (du_panel d)) \<longrightarrow> horizontal (wire (du_panel d'))))
     \<and> (ok \<longrightarrow> fb_dirty_pages (du_surface d') = 0 \<and> du_snapshot_valid d' \<and> du_last_snapshot d' = s \<and> du_panel_initialized d' = du_panel_initialized d
          \<and> du_bridge d' = (if us_state s = BOOT_DESKTOP_UI_HOME then application_runtime_bridge_view_consumed (du_bridge d) else du_bridge d))
     \<and> (\<not> ok \<longrightarrow> \<not> du_snapshot_valid d' \<and> du_bridge d' = du_bridge d)"
proof -
  obtain shown p fb where pr: "ssd1306_present hw (du_panel d) (du_surface d) = (shown, p, fb)" by (metis prod_cases3)
  note c = present_clears[OF pr sc]
  have px: "fb_pixel fb = fb_pixel (du_surface d)" using c(2) by (simp add: fun_eq_iff fb_pixel_def fb_byte_def)
  have k: "gddram_spec g \<and> tracked g (du_panel d) (du_surface d) \<longrightarrow> tracked g p fb" using present_tracked(1)[OF _ _ pr] by blast
  have up: "set_up p" by (rule present_set_up[OF pr u])
  have ans: "shown \<and> (horizontal (wire (du_panel d)) \<longrightarrow> horizontal (wire p))" if "i2c_answers hw"
    using present_answered[OF that sc, of "du_panel d"] pr by simp
  show ?thesis
  proof (cases shown)
    case False
    then have "ok = False" "d' = d\<lparr>du_panel := p, du_surface := fb, du_panel_initialized := False, du_snapshot_valid := False\<rparr>"
      using e by (simp_all add: desktop_present_def pr)
    moreover have "\<not> i2c_answers hw" using ans False by blast
    ultimately show ?thesis using k px c(1) up by (simp add: present_frame_def)
  next
    case True
    have cl: "fb_dirty_pages fb = 0" by (rule c(3)[OF True])
    obtain on p2 where o: "(if den then ssd1306_display_on hw p else (True, p)) = (on, p2)" by fastforce
    have o2: "gddram_spec g \<and> tracked g p fb \<longrightarrow> tracked g p2 fb" "set_up p2"
      "i2c_answers hw \<Longrightarrow> on \<and> (horizontal (wire p) \<longrightarrow> horizontal (wire p2))"
    proof -
      have x: "(if den then ssd1306_display_on hw p = (on, p2) else on \<and> p2 = p)" using o by (cases den) simp_all
      then show "gddram_spec g \<and> tracked g p fb \<longrightarrow> tracked g p2 fb" using display_on_panel(1) by (cases den) auto
      show "set_up p2" using x display_on_panel(2) up by (cases den) auto
      show "i2c_answers hw \<Longrightarrow> on \<and> (horizontal (wire p) \<longrightarrow> horizontal (wire p2))" using x display_on_panel(3) by (cases den) auto
    qed
    have eq: "(ok, d') = (if \<not> on then (False, d\<lparr>du_panel := p, du_surface := fb\<rparr>\<lparr>du_panel := p2\<rparr>\<lparr>du_panel_initialized := False, du_snapshot_valid := False\<rparr>)
        else (True, desktop_shown i s (d\<lparr>du_panel := p, du_surface := fb\<rparr>\<lparr>du_panel := p2\<rparr>)))"
      using e unfolding desktop_present_def pr prod.case Let_def o by (simp add: True cl)
    show ?thesis
    proof (cases on)
      case False
      then have "ok = False" "d' = d\<lparr>du_panel := p2, du_surface := fb, du_panel_initialized := False, du_snapshot_valid := False\<rparr>"
        using eq by simp_all
      moreover have "\<not> i2c_answers hw" using o2(3) False by blast
      ultimately show ?thesis using k o2(1,2) px c(1) by (simp add: present_frame_def)
    next
      case on: True
      define d2 where "d2 = d\<lparr>du_panel := p, du_surface := fb\<rparr>\<lparr>du_panel := p2\<rparr>"
      have "ok" "d' = desktop_shown i s d2" using eq on unfolding d2_def[symmetric] by simp_all
      then show ?thesis using desktop_shown_fields[of i s d2] k o2 px c(1) cl ans by (simp add: present_frame_def d2_def)
    qed
  qed
qed

section \<open>The composition\<close>

text \<open>
  The last snapshot that was shown is on a clean framebuffer. That is so as long as nobody
  else has drawn and the layout is the one of the last full composition (\<open>live\<close>).
\<close>

definition desktop_current :: "oled_ui_layout \<Rightarrow> desktop \<Rightarrow> bool" where
  "desktop_current L d \<longleftrightarrow> du_initialized d \<and> du_panel_initialized d
     \<and> status_view (du_status d) = snapshot_view (du_last_snapshot d) \<and> shows_bar L (snapshot_view (du_last_snapshot d)) (du_surface d)
     \<and> oc_dirty_rows (du_console d) = 0 \<and> shows_text L (console_rows (du_console d)) (du_surface d) \<and> fb_dirty_pages (du_surface d) = 0
     \<and> text_current (du_last_snapshot d) (du_bridge d) (du_console d)
     \<and> (us_state (du_last_snapshot d) = BOOT_DESKTOP_UI_HOME \<longrightarrow> owned (du_bridge d))"

definition desktop_inv :: "panel \<Rightarrow> oled_ui_layout \<Rightarrow> bool \<Rightarrow> desktop \<Rightarrow> bool" where
  "desktop_inv g L live d \<longleftrightarrow> bridge_ok (du_bridge d) \<and> console_ok (du_console d) \<and> low_rows (du_console d) \<and> screen (du_surface d)
     \<and> bar_ok (du_status d) \<and> active_layout (du_layout d) = L \<and> (du_panel_initialized d \<longrightarrow> set_up (du_panel d))
     \<and> (du_snapshot_valid d \<longrightarrow> du_initialized d \<and> du_panel_initialized d)
     \<and> (live \<longrightarrow> (du_panel_initialized d \<longrightarrow> tracked g (du_panel d) (du_surface d)) \<and> (du_snapshot_valid d \<longrightarrow> desktop_current L d))"

lemma ssd1306_init_answered: "i2c_answers hw \<Longrightarrow> ssd1306_init hw s = (ok, s') \<Longrightarrow> ok"
  using ssd1306_write_answered[of hw ssd1306_init_packet s] by (simp add: ssd1306_init_def ssd1306_init_packet_def)

lemma consumed_lines: "view_lines (application_runtime_bridge_view_consumed b) = view_lines b"
  "\<not> application_runtime_bridge_view_dirty (application_runtime_bridge_view_consumed b)"
  "owned (application_runtime_bridge_view_consumed b) = owned b" "bridge_ok (application_runtime_bridge_view_consumed b) = bridge_ok b"
  "rt_active_id (br_runtime (application_runtime_bridge_view_consumed b)) = rt_active_id (br_runtime b)"
  by (simp_all add: view_lines_def application_runtime_bridge_view_consumed_def application_runtime_view_consumed_def
      application_runtime_bridge_view_dirty_def owned_def firmware_ok_def)

text \<open>A presented composition.\<close>

lemma presented_inv:
  assumes spec: "gddram_spec g" and i: "bridge_ok (du_bridge d)" "console_ok (du_console d)" "low_rows (du_console d)"
    "bar_ok (du_status d)" "active_layout (du_layout d) = L" "screen (du_surface d)" "set_up (du_panel d)"
    and on: "du_initialized d" "du_panel_initialized d"
    and t: "good \<Longrightarrow> tracked g (du_panel d) (du_surface d)"
    and v: "status_view (du_status d) = snapshot_view s" "good \<Longrightarrow> shows_bar L (snapshot_view s) (du_surface d)"
    and c: "good \<Longrightarrow> oc_dirty_rows (du_console d) = 0 \<and> shows_text L (console_rows (du_console d)) (du_surface d)
        \<and> text_shown s (du_bridge d) (console_rows (du_console d))"
    and h: "us_state s = BOOT_DESKTOP_UI_HOME \<Longrightarrow> owned (du_bridge d)"
    and e: "desktop_present hw inp den s d = (ok, d')"
  shows "desktop_inv g L good d' \<and> (ok \<longrightarrow> du_snapshot_valid d' \<and> du_last_snapshot d' = s \<and> (us_state s = BOOT_DESKTOP_UI_HOME \<longrightarrow> \<not> application_runtime_bridge_view_dirty (du_bridge d')))
     \<and> (i2c_answers hw \<longrightarrow> ok \<and> (horizontal (wire (du_panel d)) \<longrightarrow> horizontal (wire (du_panel d'))))"
proof -
  note p = present_step[OF i(6,7) e, of g]
  then have f: "present_frame d d'" "screen (du_surface d')" "set_up (du_panel d')" by blast+
  have t': "good \<Longrightarrow> tracked g (du_panel d') (du_surface d')" using p t spec by blast
  have base: "console_ok (du_console d') \<and> low_rows (du_console d') \<and> screen (du_surface d') \<and> bar_ok (du_status d') \<and> active_layout (du_layout d') = L"
    using f i by (simp add: present_frame_def)
  show ?thesis
  proof (cases ok)
    case False
    then show ?thesis using p base f(3) t' i(1) by (simp add: desktop_inv_def)
  next
    case True
    then have q: "fb_dirty_pages (du_surface d') = 0" "du_snapshot_valid d'" "du_last_snapshot d' = s" "du_panel_initialized d'"
      "du_bridge d' = (if us_state s = BOOT_DESKTOP_UI_HOME then application_runtime_bridge_view_consumed (du_bridge d) else du_bridge d)"
      using p on(2) by auto
    have b: "bridge_ok (du_bridge d')" "us_state s = BOOT_DESKTOP_UI_HOME \<longrightarrow> owned (du_bridge d') \<and> \<not> application_runtime_bridge_view_dirty (du_bridge d')"
      "view_lines (du_bridge d') = view_lines (du_bridge d)"
      using q(5) i(1) h consumed_lines by simp_all
    have same: "du_console d' = du_console d" "du_status d' = du_status d" "du_initialized d'" "fb_pixel (du_surface d') = fb_pixel (du_surface d)"
      using f(1) on(1) by (simp_all add: present_frame_def)
    have "desktop_current L d'" if good: good
    proof -
      have sh: "shows_bar L (snapshot_view s) (du_surface d')" "shows_text L (console_rows (du_console d')) (du_surface d')"
        using v(2)[OF good] c[OF good] same by (simp_all add: shows_bar_def shows_text_def)
      have tc: "text_current s (du_bridge d') (du_console d')"
        using c[OF good] b(3) same(1) by (simp add: text_current_def text_shown_def)
      show ?thesis using sh tc q b(2) same v(1) c[OF good] by (simp add: desktop_current_def)
    qed
    then show ?thesis using base f(3) t' b q(2-4) same(3) p by (simp add: desktop_inv_def)
  qed
qed

definition desktop_frame :: "desktop \<Rightarrow> desktop \<Rightarrow> bool" where
  "desktop_frame d d' \<longleftrightarrow> du_state d' = du_state d \<and> du_services d' = du_services d \<and> du_initialized d' = du_initialized d
     \<and> rt_active_id (br_runtime (du_bridge d')) = rt_active_id (br_runtime (du_bridge d))"

lemma present_keeps:
  assumes "present_frame d d'" "ok \<longrightarrow> du_bridge d' = (if us_state s = BOOT_DESKTOP_UI_HOME then application_runtime_bridge_view_consumed (du_bridge d) else du_bridge d)"
    "\<not> ok \<longrightarrow> du_bridge d' = du_bridge d"
  shows "desktop_frame d d'"
  using assms consumed_lines(5) by (cases ok) (simp_all add: present_frame_def desktop_frame_def)

text \<open>The composition once the panel is set up.\<close>

lemma compose_set_up:
  assumes spec: "gddram_spec g" and L: "oled_ui_layout_validate (Some L)" "active_layout (du_layout d) = L"
    and i: "bridge_ok (du_bridge d)" "console_ok (du_console d)" "low_rows (du_console d)" "screen (du_surface d)" "bar_ok (du_status d)" "set_up (du_panel d)"
    and on: "du_initialized d" "du_panel_initialized d"
    and live: "live \<Longrightarrow> full \<or> desktop_current L d" "live \<Longrightarrow> full \<or> tracked g (du_panel d) (du_surface d)"
    and st: "full \<or> us_state s = us_state (du_last_snapshot d)"
    and m: "us_total_minutes s \<le> 5999" and home: "us_state s = BOOT_DESKTOP_UI_HOME \<Longrightarrow> owned (du_bridge d)"
    and t: "desktop_render_text s full (desktop_render_status s full d) = (okt, d4)"
    and e: "(ok, d') = (if \<not> okt then (False, d4) else desktop_present hw inp den s d4)"
  shows "desktop_inv g L (live \<or> ok \<and> full) d' \<and> desktop_frame d d' \<and> (i2c_answers hw \<and> 20 \<le> r_height (console_rect L) \<longrightarrow> ok)
     \<and> (i2c_answers hw \<and> horizontal (wire (du_panel d)) \<longrightarrow> horizontal (wire (du_panel d')))
     \<and> (ok \<longrightarrow> du_snapshot_valid d' \<and> du_last_snapshot d' = s \<and> (us_state s = BOOT_DESKTOP_UI_HOME \<longrightarrow> \<not> application_runtime_bridge_view_dirty (du_bridge d')))"
proof -
  have act: "us_state s = BOOT_DESKTOP_UI_HOME \<Longrightarrow> rt_active_id (br_runtime (du_bridge d)) \<noteq> 0" using home by (simp add: owned_def)
  obtain st fb where d3: "desktop_render_status s full d = d\<lparr>du_status := st, du_surface := fb\<rparr>" "bar_ok st" "status_view st = snapshot_view s"
    "full \<or> shows_bar L (status_view (du_status d)) (du_surface d) \<longrightarrow> shows_bar L (snapshot_view s) fb" "screen fb"
    "\<not> full \<longrightarrow> drawn (du_surface d) fb \<and> (\<forall>ls. shows_text L ls (du_surface d) \<longrightarrow> shows_text L ls fb)"
    "full \<longrightarrow> (\<forall>g p. set_up p \<longrightarrow> tracked g p fb)"
    using status_step[OF L i(5,4) m, of full] by blast
  define e3 where "e3 = d\<lparr>du_status := st, du_surface := fb\<rparr>"
  have f3: "du_layout e3 = du_layout d" "du_console e3 = du_console d" "du_surface e3 = fb" "du_bridge e3 = du_bridge d" "du_status e3 = st"
    "du_panel e3 = du_panel d" "du_initialized e3" "du_panel_initialized e3" "du_state e3 = du_state d" "du_services e3 = du_services d"
    using on by (simp_all add: e3_def)
  have bar: "shows_bar L (snapshot_view s) fb" if "live \<or> full" using live(1) d3(4) that by (auto simp: desktop_current_def)
  have t3: "tracked g (du_panel d) fb" if "live \<or> full"
    using live(2) d3(6,7) i(6) tracked_drawn that by blast
  have old: "full \<or> text_kept L s e3" if "live \<or> full"
    using live(1) d3(6) st that unfolding text_kept_def f3 by (auto simp: desktop_current_def text_current_def)
  obtain c fb4 where d4: "d4 = (if okt then e3\<lparr>du_console := c, du_surface := fb4\<rparr> else e3\<lparr>du_console := c, du_surface := fb4, du_snapshot_valid := False\<rparr>)"
    "console_ok c" "low_rows c" "screen fb4" "drawn fb fb4" "\<forall>v. shows_bar L v fb \<longrightarrow> shows_bar L v fb4"
    "okt \<and> (full \<or> text_kept L s e3) \<longrightarrow> oc_dirty_rows c = 0 \<and> shows_text L (console_rows c) fb4 \<and> text_shown s (du_bridge d) (console_rows c)"
    "20 \<le> r_height (console_rect L) \<longrightarrow> okt"
    using text_step[OF L(1), of e3 s full okt d4] L(2) i(2,3) d3(1,5) act t unfolding f3 e3_def[symmetric] by blast
  have t4: "tracked g (du_panel d) fb4" if "live \<or> full" by (rule tracked_drawn[OF t3[OF that] d4(5)])
  show ?thesis
  proof (cases okt)
    case False
    then have "ok = False" "d' = e3\<lparr>du_console := c, du_surface := fb4, du_snapshot_valid := False\<rparr>" using e d4(1) by simp_all
    moreover have "\<not> 20 \<le> r_height (console_rect L)" using d4(8) False by blast
    ultimately show ?thesis using i(1,6) d4(2-4) d3(2) L(2) t4 f3 on by (simp add: desktop_inv_def desktop_frame_def)
  next
    case True
    then have eq: "desktop_present hw inp den s d4 = (ok, d')" "d4 = e3\<lparr>du_console := c, du_surface := fb4\<rparr>" using e d4(1) by simp_all
    have f4: "du_layout d4 = du_layout d" "du_console d4 = c" "du_surface d4 = fb4" "du_bridge d4 = du_bridge d" "du_status d4 = st"
      "du_panel d4 = du_panel d" "du_initialized d4" "du_panel_initialized d4" "du_state d4 = du_state d" "du_services d4 = du_services d"
      using eq(2) f3 by simp_all
    have x: "oc_dirty_rows c = 0 \<and> shows_text L (console_rows c) fb4 \<and> text_shown s (du_bridge d) (console_rows c)"
      "shows_bar L (snapshot_view s) fb4" if "live \<or> full"
      using d4(6,7) True bar[OF that] old[OF that] by blast+
    have inv: "desktop_inv g L (live \<or> full) d' \<and> (ok \<longrightarrow> du_snapshot_valid d' \<and> du_last_snapshot d' = s
        \<and> (us_state s = BOOT_DESKTOP_UI_HOME \<longrightarrow> \<not> application_runtime_bridge_view_dirty (du_bridge d')))
        \<and> (i2c_answers hw \<longrightarrow> ok \<and> (horizontal (wire (du_panel d4)) \<longrightarrow> horizontal (wire (du_panel d'))))"
      by (rule presented_inv[OF spec _ _ _ _ _ _ _ _ _ _ _ _ _ _ eq(1)]) (use i(1,6) d4(2-4) d3(2,3) L(2) t4 x home in \<open>simp_all add: f4\<close>)
    then have "desktop_inv g L (live \<or> ok \<and> full) d'" by (cases "live \<or> full") (auto simp: desktop_inv_def)
    moreover have "desktop_frame d4 d'"
      using present_step[OF _ _ eq(1)] d4(4) i(6) by (intro present_keeps[of d4 d' ok s]) (simp_all add: f4)
    then have "desktop_frame d d'" using f4 on(1) by (simp add: desktop_frame_def)
    ultimately show ?thesis using inv f4(6) by simp
  qed
qed

definition full_composition :: "bool \<Rightarrow> boot_desktop_ui_snapshot \<Rightarrow> desktop \<Rightarrow> bool" where
  "full_composition force s d \<longleftrightarrow> force \<or> \<not> du_panel_initialized d \<or> \<not> du_snapshot_valid d \<or> us_state s \<noteq> us_state (du_last_snapshot d)"

lemma compose_step:
  assumes spec: "gddram_spec g" and L: "oled_ui_layout_validate (Some L)"
    and inv: "desktop_inv g L live d" and on: "du_initialized d"
    and m: "us_total_minutes s \<le> 5999" and home: "us_state s = BOOT_DESKTOP_UI_HOME \<Longrightarrow> owned (du_bridge d)"
    and e: "desktop_compose hw inp force s d = (ok, d')"
  shows "desktop_inv g L (live \<or> ok \<and> full_composition force s d) d' \<and> desktop_frame d d' \<and> (i2c_answers hw \<and> 20 \<le> r_height (console_rect L) \<longrightarrow> ok)
     \<and> (i2c_answers hw \<and> orderly (wire (du_panel d)) \<longrightarrow> orderly (wire (du_panel d')))
     \<and> (ok \<longrightarrow> du_snapshot_valid d' \<and> du_last_snapshot d' = s \<and> (us_state s = BOOT_DESKTOP_UI_HOME \<longrightarrow> \<not> application_runtime_bridge_view_dirty (du_bridge d')))"
proof -
  have i: "bridge_ok (du_bridge d)" "console_ok (du_console d)" "low_rows (du_console d)" "screen (du_surface d)" "bar_ok (du_status d)"
    "active_layout (du_layout d) = L" "du_panel_initialized d \<Longrightarrow> set_up (du_panel d)" "du_snapshot_valid d \<Longrightarrow> du_panel_initialized d"
    "live \<Longrightarrow> du_panel_initialized d \<Longrightarrow> tracked g (du_panel d) (du_surface d)" "live \<Longrightarrow> du_snapshot_valid d \<Longrightarrow> desktop_current L d"
    using inv by (simp_all add: desktop_inv_def)
  obtain ready p where r: "(if \<not> du_panel_initialized d then ssd1306_init hw (du_panel d) else (True, du_panel d)) = (ready, p)" by fastforce
  show ?thesis
  proof (cases ready)
    case False
    then have off: "\<not> du_panel_initialized d" using r by auto
    then have nv: "\<not> du_snapshot_valid d" using i(8) by blast
    have eq: "ok = False" "d' = d\<lparr>du_panel := p\<rparr>" using e False L i(6) r by (simp_all add: desktop_compose_def Let_def)
    have "\<not> i2c_answers hw" using ssd1306_init_answered[of hw "du_panel d" ready p] r off False by auto
    then show ?thesis using eq off nv i by (simp add: desktop_inv_def desktop_frame_def)
  next
    case True
    define d2 where "d2 = d\<lparr>du_panel := p, du_panel_initialized := True\<rparr>"
    define full where "full = (\<not> du_panel_initialized d \<or> force \<or> \<not> du_snapshot_valid d2 \<or> us_state s \<noteq> us_state (du_last_snapshot d2))"
    have f2: "du_layout d2 = du_layout d" "du_console d2 = du_console d" "du_surface d2 = du_surface d" "du_bridge d2 = du_bridge d" "du_status d2 = du_status d"
      "du_panel d2 = p" "du_initialized d2" "du_panel_initialized d2" "du_state d2 = du_state d" "du_services d2 = du_services d"
      "du_snapshot_valid d2 = du_snapshot_valid d" "du_last_snapshot d2 = du_last_snapshot d"
      using on by (simp_all add: d2_def)
    have full: "full = full_composition force s d" by (auto simp: full_def full_composition_def f2)
    have part: "du_panel_initialized d" "du_snapshot_valid d" "us_state s = us_state (du_last_snapshot d)" "p = du_panel d" if "\<not> full"
      using that r by (auto simp: full_def f2)
    have cur: "full \<or> desktop_current L d2" "full \<or> tracked g (du_panel d2) (du_surface d2)" if live
    proof -
      have "desktop_current L d2 \<and> tracked g (du_panel d2) (du_surface d2)" if nf: "\<not> full"
        using i(9)[OF \<open>live\<close> part(1)[OF nf]] i(10)[OF \<open>live\<close> part(2)[OF nf]] part(4)[OF nf] by (simp add: desktop_current_def f2)
      then show "full \<or> desktop_current L d2" "full \<or> tracked g (du_panel d2) (du_surface d2)" by blast+
    qed
    have same: "full \<or> us_state s = us_state (du_last_snapshot d2)" using part(3) by (auto simp: f2)
    have up: "set_up p" "orderly (wire (du_panel d)) \<Longrightarrow> i2c_answers hw \<Longrightarrow> horizontal (wire p)"
    proof -
      show up: "set_up p"
      proof (cases "du_panel_initialized d")
        case True
        then show ?thesis using i(7) r by simp
      next
        case False
        then show ?thesis using r \<open>ready\<close> init_set_up[of hw "du_panel d" ready p] by simp
      qed
      assume o: "orderly (wire (du_panel d))" "i2c_answers hw"
      show "horizontal (wire p)"
      proof (cases "du_panel_initialized d")
        case True
        then show ?thesis using up r o(1) by (simp add: set_up_def)
      next
        case False
        then have "ssd1306_write hw (du_panel d) ssd1306_init_packet = (ready, p)" using r by (simp add: ssd1306_init_def)
        then show ?thesis using ssd1306_write_wire(1) \<open>ready\<close> init_wire[OF o(1)] by simp
      qed
    qed
    obtain okt d4 where t: "desktop_render_text s full (desktop_render_status s full d2) = (okt, d4)" by fastforce
    have v: "oled_ui_layout_validate (Some (active_layout (du_layout d)))" using L i(6) by simp
    have u: "d\<lparr>du_panel := p\<rparr>\<lparr>du_panel_initialized := True\<rparr> = d2" by (simp add: d2_def)
    have e2: "(ok, d') = (if \<not> okt then (False, d4) else desktop_present hw inp (\<not> du_panel_initialized d) s d4)"
      using e v True unfolding desktop_compose_def r prod.case Let_def u full_def[symmetric] t by simp
    have "desktop_inv g L (live \<or> ok \<and> full) d' \<and> desktop_frame d2 d' \<and> (i2c_answers hw \<and> 20 \<le> r_height (console_rect L) \<longrightarrow> ok)
     \<and> (i2c_answers hw \<and> horizontal (wire (du_panel d2)) \<longrightarrow> horizontal (wire (du_panel d')))
     \<and> (ok \<longrightarrow> du_snapshot_valid d' \<and> du_last_snapshot d' = s \<and> (us_state s = BOOT_DESKTOP_UI_HOME \<longrightarrow> \<not> application_runtime_bridge_view_dirty (du_bridge d')))"
      by (rule compose_set_up[OF spec L _ _ _ _ _ _ _ _ _ cur same m _ t e2]) (use i(1-6) up home in \<open>simp_all add: f2\<close>)
    then show ?thesis using f2 on up(2) horizontal_orderly unfolding full by (auto simp: desktop_frame_def)
  qed
qed

end
