(* ===== verification/Desktop_Run.thy ===== *)
theory Desktop_Run
  imports Desktop_Shown
begin

unbundle bit_operations_syntax

text \<open>
  Runs of the desktop (\<open>boot_desktop_ui_render\<close> of \<open>src/src/kernel.c\<close>, with the calls of
  the application commands, new layouts and the display tests in between): a rendering that
  reports success has the current state of the system on the panel if it composes in full, or
  if neither a layout nor a test has come since the last one that did. With a low console no
  rendering succeeds.
\<close>

section \<open>A changed view is marked\<close>

definition view_kept :: "application_runtime \<Rightarrow> application_runtime \<Rightarrow> bool" where
  "view_kept rt rt' \<longleftrightarrow> (\<not> rt_view_dirty rt' \<longrightarrow> \<not> rt_view_dirty rt \<and> rt_view rt' = rt_view rt)"

lemma view_kept_refl: "rt_view_dirty rt' = rt_view_dirty rt \<Longrightarrow> rt_view rt' = rt_view rt \<Longrightarrow> view_kept rt rt'"
  by (simp add: view_kept_def)

lemma view_kept_trans: "view_kept a b \<Longrightarrow> view_kept b d \<Longrightarrow> view_kept a d"
  by (auto simp: view_kept_def)

lemma render_view_kept: "view_kept rt (snd (application_runtime_render_active reg rt sv))"
  by (auto simp: application_runtime_render_active_def view_kept_def Let_def split: option.split prod.split)

lemma fallback_view_kept: "view_kept rt (snd (application_runtime_start_home_fallback reg rt sv))"
proof -
  have r: "view_kept rt (snd (application_runtime_render_active reg rt1 sv))" if "rt_view_dirty rt1 = rt_view_dirty rt" "rt_view rt1 = rt_view rt" for rt1
    by (rule view_kept_trans[OF view_kept_refl[OF that] render_view_kept])
  show ?thesis
    by (simp add: application_runtime_start_home_fallback_def Let_def r view_kept_refl split: option.split)
qed

lemma target_view_kept: "view_kept rt (snd (start_target reg rt i k sv))"
proof -
  have r: "view_kept rt (snd (application_runtime_render_active reg rt1 sv))" "view_kept rt (snd (application_runtime_start_home_fallback reg rt1 sv))"
    if "rt_view_dirty rt1 = rt_view_dirty rt" "rt_view rt1 = rt_view rt" for rt1
    using view_kept_trans[OF view_kept_refl[OF that]] render_view_kept fallback_view_kept by blast+
  show ?thesis by (simp add: start_target_def Let_def r view_kept_refl)
qed

lemma start_view_kept: "view_kept rt (snd (application_runtime_start reg rt i sv))"
proof -
  have t: "view_kept rt (snd (start_target reg rt1 i k sv))" if "rt_view_dirty rt1 = rt_view_dirty rt" "rt_view rt1 = rt_view rt" for rt1 k
    by (rule view_kept_trans[OF view_kept_refl[OF that] target_view_kept])
  show ?thesis
    by (simp add: application_runtime_start_def application_runtime_stop_owner_def Let_def t view_kept_refl split: option.split)
qed

lemma dispatch_view_kept: "view_kept rt (snd (application_runtime_dispatch_event reg rt ev sv))"
proof -
  have r: "view_kept rt (snd (application_runtime_render_active reg rt1 sv))" if "rt_view_dirty rt1 = rt_view_dirty rt" "rt_view rt1 = rt_view rt" for rt1
    by (rule view_kept_trans[OF view_kept_refl[OF that] render_view_kept])
  show ?thesis
    by (simp add: application_runtime_dispatch_event_def Let_def r view_kept_refl split: option.split)
qed

lemma stop_view_kept: "view_kept rt (snd (application_runtime_stop reg rt sv))"
  using start_view_kept by (auto simp: application_runtime_stop_def intro: view_kept_refl)

lemma initialize_view_kept: "view_kept rt (snd (application_runtime_initialize reg rt))"
proof -
  have f: "rt_view (foldl (initialize_application reg) rt ks) = rt_view rt \<and> rt_view_dirty (foldl (initialize_application reg) rt ks) = rt_view_dirty rt" for ks rt
    by (induction ks arbitrary: rt) (simp_all add: initialize_application_def Let_def)
  show ?thesis by (simp add: application_runtime_initialize_def Let_def f view_kept_refl split: option.split)
qed

lemma bridge_dispatch_kept: "application_runtime_bridge_dispatch_event reg b type source v0 v1 sv = (ok, b') \<Longrightarrow> view_kept (br_runtime b) (br_runtime b')"
  using dispatch_view_kept by (auto simp: application_runtime_bridge_dispatch_event_def intro: view_kept_refl split: if_splits prod.splits) (metis snd_conv)

lemma bridge_report_kept:
  "(case st of (ok, b1) \<Rightarrow> view_kept rt (br_runtime b1)) \<Longrightarrow> (case bridge_report reg type source now before sv st of (ok, b2) \<Rightarrow> view_kept rt (br_runtime b2))"
  using bridge_dispatch_kept view_kept_trans by (cases st) (auto simp: bridge_report_def split: prod.split)

lemma bridge_service_kept: "view_kept (br_runtime b) (br_runtime (snd (application_runtime_bridge_service reg b services)))"
proof (cases "services = None \<or> \<not> rt_initialized (br_runtime b)")
  case True
  then have "snd (application_runtime_bridge_service reg b services) = b"
    by (auto simp: application_runtime_bridge_service_def split: option.split)
  then show ?thesis by (simp add: view_kept_refl)
next
  case False
  then obtain now where now: "services = Some now" by auto
  obtain started b1 where b1: "(if rt_active_id (br_runtime b) = 0
      then case application_runtime_start reg (br_runtime b) APPLICATION_ID_SYSTEM_HOME services of (ok, rt) \<Rightarrow> (ok, b\<lparr>br_runtime := rt\<rparr>)
      else (True, b)) = (started, b1)" by fastforce
  have k1: "view_kept (br_runtime b) (br_runtime b1)"
  proof (cases "rt_active_id (br_runtime b) = 0")
    case True
    then show ?thesis using b1 start_view_kept[of "br_runtime b" reg 1 services]
      by (cases "application_runtime_start reg (br_runtime b) 1 services") auto
  next
    case False
    then show ?thesis using b1 by (auto intro: view_kept_refl)
  qed
  obtain ready b2 where b2: "(if \<not> br_ready_event_sent b1
      then case application_runtime_bridge_dispatch_event reg b1 APPLICATION_EVENT_RUNTIME_READY APPLICATION_EVENT_SOURCE_RUNTIME
             (ucast (rt_active_id (br_runtime b1))) 0 services of (ok, b2) \<Rightarrow> (ok, if ok then b2\<lparr>br_ready_event_sent := True\<rparr> else b2)
      else (True, b1)) = (ready, b2)" by fastforce
  have k2: "view_kept (br_runtime b1) (br_runtime b2)"
  proof (cases "br_ready_event_sent b1")
    case True
    then show ?thesis using b2 by (auto intro: view_kept_refl)
  next
    case False
    obtain ok d where d: "application_runtime_bridge_dispatch_event reg b1 1 1 (ucast (rt_active_id (br_runtime b1))) 0 services = (ok, d)" by fastforce
    then have "br_runtime b2 = br_runtime d" using b2 False by (auto split: if_splits)
    then show ?thesis using bridge_dispatch_kept[OF d] by simp
  qed
  obtain reported b3 where b3: "(if br_service_snapshot_valid b2
      then let last = br_last_service_snapshot b2;
               s1 = bridge_report reg APPLICATION_EVENT_UPTIME_MINUTE_CHANGED APPLICATION_EVENT_SOURCE_TIME
                      (sv_displayed_minute now) (sv_displayed_minute last) services (True, b2);
               s2 = bridge_report reg APPLICATION_EVENT_SYSTEM_HEALTH_CHANGED APPLICATION_EVENT_SOURCE_SYSTEM
                      (ucast (sv_system_healthy now)) (ucast (sv_system_healthy last)) services s1;
               s3 = bridge_report reg APPLICATION_EVENT_USB_STATE_CHANGED APPLICATION_EVENT_SOURCE_USB
                      (ucast (sv_usb_configured now)) (ucast (sv_usb_configured last)) services s2
           in bridge_report reg APPLICATION_EVENT_NETWORK_STATE_CHANGED APPLICATION_EVENT_SOURCE_NETWORK
                      (ucast (sv_network_online now)) (ucast (sv_network_online last)) services s3
      else (True, b2)) = (reported, b3)" by fastforce
  have k3: "view_kept (br_runtime b2) (br_runtime b3)"
  proof (cases "br_service_snapshot_valid b2")
    case True
    have "case (reported, b3) of (ok, b) \<Rightarrow> view_kept (br_runtime b2) (br_runtime b)"
      unfolding b3[symmetric] Let_def if_P[OF True] by (intro bridge_report_kept) (simp add: view_kept_refl)
    then show ?thesis by simp
  next
    case False
    then show ?thesis using b3 by (auto intro: view_kept_refl)
  qed
  have k4: "view_kept (br_runtime b3) (snd (application_runtime_service reg (br_runtime b3) services))"
    using render_view_kept by (simp add: application_runtime_service_def view_kept_refl)
  have e: "application_runtime_bridge_service reg b services = (if \<not> started then (False, b1) else if \<not> ready then (False, b2)
      else if \<not> reported then (False, b3)
      else case application_runtime_service reg (br_runtime b3) services of (ok, rt) \<Rightarrow>
        (ok, b3\<lparr>br_last_service_snapshot := now, br_service_snapshot_valid := True, br_runtime := rt\<rparr>))"
    using False unfolding application_runtime_bridge_service_def now option.case b1[unfolded now] prod.case b2[unfolded now] b3[unfolded now] by simp
  show ?thesis
    unfolding e using k1 view_kept_trans[OF k1 k2] view_kept_trans[OF view_kept_trans[OF k1 k2] k3]
      view_kept_trans[OF view_kept_trans[OF view_kept_trans[OF k1 k2] k3] k4]
    by (cases "application_runtime_service reg (br_runtime b3) services") simp
qed

lemma bridge_step_kept: "call \<noteq> Bridge_View_Consumed \<Longrightarrow> view_kept (br_runtime b) (br_runtime (bridge_step b call))"
proof (cases call)
  case Bridge_Initialize
  then show ?thesis using initialize_view_kept[of "br_runtime b" apps]
    by (cases "application_runtime_initialize apps (br_runtime b)") (simp add: application_runtime_bridge_initialize_def)
next
  case (Bridge_Service sv)
  then show ?thesis using bridge_service_kept by simp
next
  case (Bridge_Start i sv)
  then show ?thesis using start_view_kept[of "br_runtime b" apps i sv]
    by (cases "application_runtime_start apps (br_runtime b) i sv") (simp add: application_runtime_bridge_start_def)
next
  case (Bridge_Stop sv)
  then show ?thesis using stop_view_kept[of "br_runtime b" apps sv]
    by (cases "application_runtime_stop apps (br_runtime b) sv") (simp add: application_runtime_bridge_stop_def)
qed simp

text \<open>An owner stays an owner.\<close>

lemma apps_start_owned:
  assumes "firmware_ok rt" "rt_active_id rt \<noteq> 0"
  shows "rt_active_id (snd (application_runtime_start apps rt i sv)) \<noteq> 0"
proof (cases "rt_initialized rt \<and> i \<in> {1, 2} \<and> sv \<noteq> None")
  case True
  then show ?thesis using apps_start(2)[OF assms(1), of i sv] by auto
next
  case False
  then have "snd (application_runtime_start apps rt i sv) = rt" by (auto simp: application_runtime_start_def apps_index)
  then show ?thesis using assms(2) by simp
qed

lemma bridge_step_owned: "owned b \<Longrightarrow> owned (bridge_step b call)"
proof -
  assume o: "owned b"
  then have f: "bridge_ok b" "rt_initialized (br_runtime b)" "rt_active_id (br_runtime b) \<noteq> 0" by (simp_all add: owned_def)
  note s = apps_start(3)[OF f(1)] apps_start_owned[OF f(1,3)]
  have "rt_initialized (br_runtime (bridge_step b call)) \<and> rt_active_id (br_runtime (bridge_step b call)) \<noteq> 0"
  proof (cases call)
    case Bridge_Initialize
    then show ?thesis using f by (simp add: application_runtime_bridge_initialize_def application_runtime_initialize_def)
  next
    case (Bridge_Service sv)
    show ?thesis
    proof (cases sv)
      case None
      then show ?thesis using f Bridge_Service by (simp add: application_runtime_bridge_service_def)
    next
      case (Some now)
      then show ?thesis using bridge_service_counted[OF f(1,2), of now] Bridge_Service by (auto simp: owned_def)
    qed
  next
    case (Bridge_Start i sv)
    then show ?thesis using s[of i sv] f
      by (cases "application_runtime_start apps (br_runtime b) i sv") (simp add: application_runtime_bridge_start_def)
  next
    case (Bridge_Stop sv)
    then show ?thesis using s[of 1 sv] f
      by (cases "application_runtime_start apps (br_runtime b) 1 sv") (simp add: application_runtime_bridge_stop_def application_runtime_stop_def)
  next
    case Bridge_View_Consumed
    then show ?thesis using f by (simp add: application_runtime_bridge_view_consumed_def application_runtime_view_consumed_def)
  qed
  then show ?thesis using bridge_step_ok[OF f(1)] by (simp add: owned_def)
qed

section \<open>A rendering\<close>

lemma view_dirty_bridge: "application_runtime_bridge_view_dirty b = rt_view_dirty (br_runtime b)"
  by (simp add: application_runtime_bridge_view_dirty_def)

text \<open>The invariant does not look at the services and the state.\<close>

lemma inv_other:
  assumes "desktop_inv g L live d"
  shows "desktop_inv g L live (d\<lparr>du_services := sv\<rparr>)" "desktop_inv g L live (d\<lparr>du_state := st\<rparr>)"
  using assms by (simp_all add: desktop_inv_def desktop_current_def)

lemma inv_bridge:
  assumes inv: "desktop_inv g L live d" and k: "view_kept (br_runtime (du_bridge d)) (br_runtime b)" and ok: "bridge_ok b"
    and o: "owned (du_bridge d) \<Longrightarrow> owned b"
  shows "desktop_inv g L live (d\<lparr>du_bridge := b\<rparr>)"
proof -
  have "text_current s b c" if "text_current s (du_bridge d) c" for s c
    using that k by (auto simp: text_current_def view_kept_def view_dirty_bridge view_lines_def)
  then show ?thesis using inv ok o by (simp add: desktop_inv_def desktop_current_def)
qed

lemma inv_initialize:
  assumes "desktop_inv g L live d"
  shows "desktop_inv g L live (boot_desktop_ui_initialize d)"
proof -
  have "bar_ok (oled_status_bar_init st)" for st by (simp add: oled_status_bar_init_def bar_ok_def)
  then show ?thesis using assms by (simp add: boot_desktop_ui_initialize_def desktop_inv_def)
qed

text \<open>The state and the services a rendering starts from.\<close>

definition desktop_refreshed :: "desktop_inputs \<Rightarrow> desktop \<Rightarrow> desktop" where
  "desktop_refreshed i d = system_service_state_refresh i (boot_desktop_ui_update_state i (if \<not> du_initialized d then boot_desktop_ui_initialize d else d))"

lemma refreshed_keeps:
  assumes "desktop_inv g L live d"
  shows "desktop_inv g L live (desktop_refreshed i d)" "du_initialized (desktop_refreshed i d)"
    "us_total_minutes (boot_desktop_ui_snapshot_build (desktop_refreshed i d)) \<le> 5999" "du_bridge (desktop_refreshed i d) = du_bridge d"
proof -
  define d1 where "d1 = (if \<not> du_initialized d then boot_desktop_ui_initialize d else d)"
  have i1: "desktop_inv g L live d1" "du_initialized d1" "du_bridge d1 = du_bridge d"
    using assms inv_initialize by (simp_all add: d1_def boot_desktop_ui_initialize_def)
  define d2 where "d2 = boot_desktop_ui_update_state i d1"
  have i2: "desktop_inv g L live d2" "du_initialized d2" "du_bridge d2 = du_bridge d"
    using i1 inv_other(2) by (simp_all add: d2_def boot_desktop_ui_update_state_def)
  have e: "desktop_refreshed i d = system_service_state_refresh i d2" by (simp add: desktop_refreshed_def d2_def d1_def)
  show "desktop_inv g L live (desktop_refreshed i d)" "du_initialized (desktop_refreshed i d)" "du_bridge (desktop_refreshed i d) = du_bridge d"
    using i2 inv_other(1) by (simp_all add: e system_service_state_refresh_def)
  show "us_total_minutes (boot_desktop_ui_snapshot_build (desktop_refreshed i d)) \<le> 5999"
    using displayed_minute_bound
    by (simp add: e system_service_state_refresh_def boot_desktop_ui_snapshot_build_def Let_def snapshot_flags)
qed

text \<open>The application is serviced when the desktop is at home.\<close>

lemma served_keeps:
  assumes inv: "desktop_inv g L live d" and e: "boot_desktop_ui_application_service s d = (served, d')"
  shows "desktop_inv g L live d' \<and> (\<exists>b. d' = d\<lparr>du_bridge := b\<rparr>)
    \<and> (served \<and> us_state s = BOOT_DESKTOP_UI_HOME \<longrightarrow> owned (du_bridge d')) \<and> rt_initialized (br_runtime (du_bridge d')) = rt_initialized (br_runtime (du_bridge d))
    \<and> (us_state s = BOOT_DESKTOP_UI_SPLASH \<or> rt_initialized (br_runtime (du_bridge d')) \<longrightarrow> served)"
proof (cases "us_state s = BOOT_DESKTOP_UI_HOME")
  case False
  then have "served" "d' = d" "us_state s = BOOT_DESKTOP_UI_SPLASH" using e by (cases "us_state s"; simp add: boot_desktop_ui_application_service_def)+
  moreover have "\<exists>b. d = d\<lparr>du_bridge := b\<rparr>" by (rule exI[of _ "du_bridge d"]) simp
  ultimately show ?thesis using inv by simp
next
  case True
  define now where "now = boot_desktop_ui_application_snapshot_build d"
  obtain ok b where b: "application_runtime_bridge_service apps (du_bridge d) (Some now) = (ok, b)" by fastforce
  have d': "served = ok" "d' = d\<lparr>du_bridge := b\<rparr>" using e True b by (simp_all add: boot_desktop_ui_application_service_def now_def)
  have ok: "bridge_ok (du_bridge d)" using inv by (simp add: desktop_inv_def)
  have k: "view_kept (br_runtime (du_bridge d)) (br_runtime b)" using bridge_service_kept[of "du_bridge d" apps "Some now"] b by simp
  show ?thesis
  proof (cases "rt_initialized (br_runtime (du_bridge d))")
    case False
    then have "ok = False" "b = du_bridge d" using b by (simp_all add: application_runtime_bridge_service_def)
    moreover have "\<exists>b. d = d\<lparr>du_bridge := b\<rparr>" by (rule exI[of _ "du_bridge d"]) simp
    ultimately show ?thesis using d' inv False True by simp
  next
    case ini: True
    have "ok \<and> owned b" using bridge_service_counted[OF ok ini, of now] b by auto
    then have o: "ok" "owned b" "bridge_ok b" "rt_initialized (br_runtime b)" by (simp_all add: owned_def)
    show ?thesis using inv_bridge[OF inv k o(3)] o ini d' by auto
  qed
qed

definition rendered_now :: "desktop \<Rightarrow> bool" where
  "rendered_now d \<longleftrightarrow> du_snapshot_valid d \<and> du_last_snapshot d = boot_desktop_ui_snapshot_build d
     \<and> (du_state d = BOOT_DESKTOP_UI_HOME \<longrightarrow> \<not> application_runtime_bridge_view_dirty (du_bridge d))"

lemma snapshot_state: "us_state (boot_desktop_ui_snapshot_build d) = du_state d"
  by (simp add: boot_desktop_ui_snapshot_build_def Let_def)

text \<open>When a rendering composes in full: forced, at the start, after a failure, or in a new state.\<close>

definition composed_in_full :: "bool \<Rightarrow> desktop \<Rightarrow> desktop \<Rightarrow> bool" where
  "composed_in_full force d d' \<longleftrightarrow> force \<or> \<not> du_initialized d \<or> \<not> du_panel_initialized d \<or> \<not> du_snapshot_valid d
     \<or> du_state d' \<noteq> us_state (du_last_snapshot d)"

lemma refreshed_fields:
  "du_panel (desktop_refreshed i d) = du_panel d" "du_last_snapshot (desktop_refreshed i d) = du_last_snapshot d"
  "du_panel_initialized (desktop_refreshed i d) \<longleftrightarrow> du_initialized d \<and> du_panel_initialized d"
  "du_snapshot_valid (desktop_refreshed i d) \<longleftrightarrow> du_initialized d \<and> du_snapshot_valid d"
  by (simp_all add: desktop_refreshed_def boot_desktop_ui_update_state_def system_service_state_refresh_def boot_desktop_ui_initialize_def)

lemma render_step:
  assumes spec: "gddram_spec g" and L: "oled_ui_layout_validate (Some L)"
    and inv: "desktop_inv g L live d" and e: "boot_desktop_ui_render hw i force d = (ok, d')"
  shows "desktop_inv g L (live \<or> ok \<and> composed_in_full force d d') d' \<and> (ok \<longrightarrow> rendered_now d') \<and> du_state d' = du_state (desktop_refreshed i d)
     \<and> (i2c_answers hw \<and> 20 \<le> r_height (console_rect L) \<and> (du_state d' = BOOT_DESKTOP_UI_SPLASH \<or> rt_initialized (br_runtime (du_bridge d))) \<longrightarrow> ok)
     \<and> (i2c_answers hw \<and> orderly (wire (du_panel d)) \<longrightarrow> orderly (wire (du_panel d')))"
proof -
  define d2 where "d2 = desktop_refreshed i d"
  define s where "s = boot_desktop_ui_snapshot_build d2"
  note r = refreshed_keeps[OF inv, of i, folded d2_def, folded s_def]
  note q = refreshed_fields[of i d, folded d2_def]
  obtain served d3 where a: "boot_desktop_ui_application_service s d2 = (served, d3)" by fastforce
  note sv = served_keeps[OF r(1) a]
  obtain b where d3: "d3 = d2\<lparr>du_bridge := b\<rparr>" using sv by blast
  have st: "us_state s = du_state (desktop_refreshed i d)" by (simp add: s_def d2_def snapshot_state)
  have s3: "boot_desktop_ui_snapshot_build d3 = s" "du_state d3 = us_state s" "du_initialized d3" "du_panel d3 = du_panel d"
    using d3 r(2) q(1) by (simp_all add: s_def boot_desktop_ui_snapshot_build_def Let_def)
  have fc: "full_composition force s d3 \<longleftrightarrow> composed_in_full force d d'" if "du_state d' = us_state s"
    using that q(2-4) d3 by (auto simp: full_composition_def composed_in_full_def)
  have e3: "(ok, d') = (if \<not> served then (False, d3)
           else if \<not> force \<and> du_snapshot_valid d3 \<and> \<not> application_runtime_bridge_view_dirty (du_bridge d3)
                \<and> du_layout_revision d3 = active_layout_revision (du_layout d3) \<and> boot_desktop_ui_snapshot_equal s (du_last_snapshot d3)
           then (True, d3) else desktop_compose hw i force s d3)"
    using e unfolding boot_desktop_ui_render_def Let_def desktop_refreshed_def[symmetric] d2_def[symmetric] s_def[symmetric] a prod.case by (rule sym)
  show ?thesis
  proof (cases served)
    case False
    then have "ok = False" "d' = d3" using e3 by simp_all
    moreover have "us_state s \<noteq> BOOT_DESKTOP_UI_SPLASH \<and> \<not> rt_initialized (br_runtime (du_bridge d))" using sv False r(4) by auto
    ultimately show ?thesis using sv s3 st by simp
  next
    case True
    have home: "us_state s = BOOT_DESKTOP_UI_HOME \<Longrightarrow> owned (du_bridge d3)" using sv True by blast
    show ?thesis
    proof (cases "\<not> force \<and> du_snapshot_valid d3 \<and> \<not> application_runtime_bridge_view_dirty (du_bridge d3)
                \<and> du_layout_revision d3 = active_layout_revision (du_layout d3) \<and> boot_desktop_ui_snapshot_equal s (du_last_snapshot d3)")
      case early: True
      then have eq: "ok = True" "d' = d3" using e3 True by (simp_all only: if_True if_False not_True_eq_False not_False_eq_True prod.inject simp_thms)
      have last: "du_last_snapshot d3 = s" using early by (simp add: boot_desktop_ui_snapshot_equal_def)
      have "du_panel_initialized d3" using conjunct1[OF sv] early by (simp add: desktop_inv_def)
      then have "\<not> composed_in_full force d d'" using early last s3(2) eq(2) fc by (simp add: full_composition_def)
      then show ?thesis using eq last sv early s3 st by (simp add: rendered_now_def)
    next
      case late: False
      then have c: "desktop_compose hw i force s d3 = (ok, d')" using e3 True by (simp only: if_not_P[OF late] simp_thms if_False)
      note p = compose_step[OF spec L conjunct1[OF sv] s3(3) r(3) home c]
      have f: "du_state d' = us_state s" "boot_desktop_ui_snapshot_build d' = s"
        using p s3(1,2) by (simp_all add: desktop_frame_def boot_desktop_ui_snapshot_build_def)
      show ?thesis using p f st fc[OF f(1)] s3(4) by (auto simp: rendered_now_def)
    qed
  qed
qed

section \<open>Runs\<close>

text \<open>
  From a boot, with the static objects as the C start-up leaves them and a layout in force that
  is one of \<open>V\<close>: renderings, forced or not, with any readings and any bus; the calls the
  commands make to the runtime, and the snapshots they ask for; a stored layout that is
  activated; and the display tests, whose commands draw on the same surface, write into the
  same console and call the driver. A run is stale when a layout was activated or a test was
  made after the last rendering that succeeded with a full composition.
\<close>

inductive desktop_run :: "(oled_ui_layout \<Rightarrow> bool) \<Rightarrow> desktop \<Rightarrow> bool \<Rightarrow> bool" for V where
  desk_booted: "\<not> du_initialized d \<Longrightarrow> \<not> du_snapshot_valid d \<Longrightarrow> \<not> du_panel_initialized d \<Longrightarrow> screen (du_surface d) \<Longrightarrow> bar_ok (du_status d) \<Longrightarrow>
     du_bridge d = application_runtime_bridge_reset apps \<Longrightarrow> du_console d = oled_console_init c \<Longrightarrow> V (active_layout (du_layout d)) \<Longrightarrow> desktop_run V d False"
| desk_rendered: "desktop_run V d stale \<Longrightarrow> boot_desktop_ui_render hw i force d = (ok, d') \<Longrightarrow>
     desktop_run V d' (stale \<and> \<not> (ok \<and> composed_in_full force d d'))"
| desk_called: "desktop_run V d stale \<Longrightarrow> call \<noteq> Bridge_View_Consumed \<Longrightarrow> desktop_run V (d\<lparr>du_bridge := bridge_step (du_bridge d) call\<rparr>) stale"
| desk_asked: "desktop_run V d stale \<Longrightarrow> desktop_run V (snd (boot_desktop_ui_application_snapshot_current i d)) stale"
| desk_layout: "desktop_run V d stale \<Longrightarrow> oled_ui_layout_config_v1_validate (Some p) 8 \<Longrightarrow>
     l = oled_ui_layout_config_v1_activate_validated (du_layout d) p \<Longrightarrow> V (active_layout l) \<Longrightarrow> desktop_run V (d\<lparr>du_layout := l\<rparr>) True"
| desk_tested: "desktop_run V d stale \<Longrightarrow> screen fb \<Longrightarrow> console_ok c \<Longrightarrow> low_rows c \<Longrightarrow> driver_calls (du_panel d) p \<Longrightarrow>
     desktop_run V (d\<lparr>du_surface := fb, du_console := c, du_panel := p\<rparr>) True"

lemma render_layout:
  assumes "boot_desktop_ui_render hw i force d = (ok, d')"
  shows "du_layout d' = du_layout d"
proof -
  have l: "du_layout (system_service_state_refresh i d0) = du_layout d0" "du_layout (boot_desktop_ui_update_state i d0) = du_layout d0"
    "du_layout (boot_desktop_ui_initialize d0) = du_layout d0" for d0
    by (simp_all add: system_service_state_refresh_def boot_desktop_ui_update_state_def boot_desktop_ui_initialize_def)
  have a: "du_layout (snd (boot_desktop_ui_application_service s d0)) = du_layout d0" for s d0
    by (simp add: boot_desktop_ui_application_service_def split: prod.split)
  have st: "du_layout (desktop_render_status s full d0) = du_layout d0" for s full d0
    by (simp add: desktop_render_status_def Let_def split: prod.split)
  have c: "du_layout (snd (desktop_render_console d0)) = du_layout d0" for d0
    by (simp add: desktop_render_console_def Let_def split: prod.split)
  have t: "du_layout (snd (desktop_render_text s full d0)) = du_layout d0" for s full d0
    by (simp add: desktop_render_text_def Let_def c split: prod.split)
  have p: "du_layout (snd (desktop_present hw i den s d0)) = du_layout d0" for den s d0
    by (simp add: desktop_present_def Let_def desktop_shown_fields split: prod.split)
  have m: "du_layout (snd (desktop_compose hw i force s d0)) = du_layout d0" for s d0
  proof -
    obtain ready q where r: "(if \<not> du_panel_initialized d0 then ssd1306_init hw (du_panel d0) else (True, du_panel d0)) = (ready, q)" by fastforce
    define d2 where "d2 = d0\<lparr>du_panel := q\<rparr>\<lparr>du_panel_initialized := True\<rparr>"
    define full where "full = (\<not> du_panel_initialized d0 \<or> force \<or> \<not> du_snapshot_valid d2 \<or> us_state s \<noteq> us_state (du_last_snapshot d2))"
    obtain okt d4 where x: "desktop_render_text s full (desktop_render_status s full d2) = (okt, d4)" by fastforce
    have "du_layout d4 = du_layout d0" using t[of s full "desktop_render_status s full d2"] st[of s full d2] x by (simp add: d2_def)
    then show ?thesis
      unfolding desktop_compose_def r prod.case Let_def d2_def[symmetric] full_def[symmetric] x using p by simp
  qed
  define d1 where "d1 = (if \<not> du_initialized d then boot_desktop_ui_initialize d else d)"
  define d2 where "d2 = system_service_state_refresh i (boot_desktop_ui_update_state i d1)"
  obtain served d3 where v: "boot_desktop_ui_application_service (boot_desktop_ui_snapshot_build d2) d2 = (served, d3)" by fastforce
  have l3: "du_layout d3 = du_layout d" using a[of "boot_desktop_ui_snapshot_build d2" d2] v l by (simp add: d2_def d1_def)
  have "du_layout (snd (boot_desktop_ui_render hw i force d)) = du_layout d"
    unfolding boot_desktop_ui_render_def Let_def d1_def[symmetric] d2_def[symmetric] v prod.case using l3 m by simp
  then show ?thesis using assms by simp
qed

lemma desktop_run_inv:
  assumes spec: "gddram_spec g" and V: "\<And>L. V L \<Longrightarrow> oled_ui_layout_validate (Some L)" and r: "desktop_run V d stale"
  shows "desktop_inv g (active_layout (du_layout d)) (\<not> stale) d \<and> V (active_layout (du_layout d))"
  using r
proof (induction rule: desktop_run.induct)
  case (desk_booted d c)
  have low: "low_rows (oled_console_init c)"
  proof -
    have m: "(7 :: u8) = mask 3" by code_simp
    have "bit (7 :: u8) k \<longleftrightarrow> k < 3" for k unfolding m bit_mask_iff by auto
    moreover have "oled_console_all_rows_mask = 7" by code_simp
    ultimately show ?thesis by (simp add: low_rows_def oled_console_init_def oled_console_clear_def)
  qed
  have "console_ok (oled_console_init c)" by (simp add: oled_console_init_def oled_console_clear_def console_ok_def)
  then show ?case using desk_booted low apps_other(4) by (simp add: desktop_inv_def application_runtime_bridge_reset_def)
next
  case (desk_rendered d stale hw i force ok d')
  then have inv: "desktop_inv g (active_layout (du_layout d)) (\<not> stale) d" and v: "V (active_layout (du_layout d))" by blast+
  show ?case using render_step[OF spec V[OF v] inv desk_rendered(2)] render_layout[OF desk_rendered(2)] v by simp
next
  case (desk_called d stale call)
  then have i: "desktop_inv g (active_layout (du_layout d)) (\<not> stale) d" "V (active_layout (du_layout d))" by blast+
  then have "bridge_ok (du_bridge d)" by (simp add: desktop_inv_def)
  then have "desktop_inv g (active_layout (du_layout d)) (\<not> stale) (d\<lparr>du_bridge := bridge_step (du_bridge d) call\<rparr>)"
    using inv_bridge[OF i(1)] desk_called(2) bridge_step_kept bridge_step_ok bridge_step_owned by blast
  then show ?case using i(2) by simp
next
  case (desk_asked d stale i)
  then show ?case using inv_other(1) by (auto simp: boot_desktop_ui_application_snapshot_current_def Let_def system_service_state_refresh_def)
next
  case (desk_layout d stale p l)
  then show ?case by (simp add: desktop_inv_def)
next
  case (desk_tested d stale fb c p)
  then show ?case using driver_calls_set_up by (simp add: desktop_inv_def)
qed

text \<open>A low console: the splash is never complete, so nothing is ever presented.\<close>

definition never_shown :: "desktop \<Rightarrow> bool" where
  "never_shown d \<longleftrightarrow> \<not> du_snapshot_valid d \<and> (du_initialized d \<longrightarrow> du_state d = BOOT_DESKTOP_UI_SPLASH \<and> \<not> du_splash_visible d)"

lemma low_splash:
  assumes L: "oled_ui_layout_validate (Some L)" "active_layout (du_layout d) = L" "r_height (console_rect L) < 20" and sc: "screen (du_surface d)"
    and r: "desktop_render_console (d\<lparr>du_console := splash_console (du_console d)\<rparr>) = (ok, d')"
  shows "\<not> ok" "\<exists>c fb. d' = d\<lparr>du_console := c, du_surface := fb, du_snapshot_valid := False\<rparr>"
proof -
  obtain c' fb' where e: "oled_console_render (splash_console (du_console d)) (du_surface d) (console_rect L) = (c', fb')" by fastforce
  note dims = screen_dims[OF sc]
  have "(nat (r_height (console_rect L)) - 6) div 7 \<le> 13 div 7" using L(3) by (intro div_le_mono) linarith
  then have vis: "visible_rows (console_rect L) \<le> 2" by (simp add: available_cells_def Let_def)
  obtain dd where dd: "c' = (splash_console (du_console d))\<lparr>oc_dirty_rows := dd\<rparr>"
    "\<forall>k < 3. bit dd k \<longleftrightarrow> bit (oc_dirty_rows (splash_console (du_console d))) k \<and> \<not> (0 < visible_columns (console_rect L) \<and> k < visible_rows (console_rect L))"
    using render_paints(2)[OF _ e] dims by blast
  have m: "bit (7 :: u8) 2" by code_simp
  have "bit dd 2" using dd(2) splash_exact(2) vis m by auto
  then have "oc_dirty_rows c' \<noteq> 0" using dd(1) by auto
  then show "\<not> ok" "\<exists>c fb. d' = d\<lparr>du_console := c, du_surface := fb, du_snapshot_valid := False\<rparr>"
    using r L(2) by (auto simp: desktop_render_console_def e Let_def)
qed

lemma low_render:
  assumes L: "oled_ui_layout_validate (Some L)" "r_height (console_rect L) < 20"
    and inv: "desktop_inv g L live d" and n: "never_shown d" and e: "boot_desktop_ui_render hw i force d = (ok, d')"
  shows "\<not> ok \<and> never_shown d' \<and> du_panel d' \<in> {du_panel d, snd (ssd1306_init hw (du_panel d))}"
proof -
  define d2 where "d2 = desktop_refreshed i d"
  define s where "s = boot_desktop_ui_snapshot_build d2"
  have d2: "du_state d2 = BOOT_DESKTOP_UI_SPLASH" "du_initialized d2" "\<not> du_snapshot_valid d2" "\<not> du_splash_visible d2" "du_panel d2 = du_panel d"
    using n by (auto simp: d2_def desktop_refreshed_def never_shown_def boot_desktop_ui_update_state_def system_service_state_refresh_def boot_desktop_ui_initialize_def)
  have s: "us_state s = BOOT_DESKTOP_UI_SPLASH" using d2(1) by (simp add: s_def snapshot_state)
  note r = refreshed_keeps[OF inv, of i, folded d2_def, folded s_def]
  have i2: "screen (du_surface d2)" "bar_ok (du_status d2)" "active_layout (du_layout d2) = L" using r(1) by (simp_all add: desktop_inv_def)
  have a: "boot_desktop_ui_application_service s d2 = (True, d2)" using s by (simp add: boot_desktop_ui_application_service_def)
  have c: "desktop_compose hw i force s d2 = (ok, d')"
    using e d2(3) unfolding boot_desktop_ui_render_def Let_def desktop_refreshed_def[symmetric] d2_def[symmetric] s_def[symmetric] a prod.case by simp
  obtain ready p where q: "(if \<not> du_panel_initialized d2 then ssd1306_init hw (du_panel d2) else (True, du_panel d2)) = (ready, p)" by fastforce
  have p: "p \<in> {du_panel d, snd (ssd1306_init hw (du_panel d))}" using q d2(5) by (auto split: if_splits)
  show ?thesis
  proof (cases ready)
    case False
    then show ?thesis using c L(1) i2(3) d2 p by (auto simp: desktop_compose_def q Let_def never_shown_def)
  next
    case True
    define d3 where "d3 = d2\<lparr>du_panel := p, du_panel_initialized := True\<rparr>"
    have f3: "active_layout (du_layout d3) = L" "screen (du_surface d3)" "bar_ok (du_status d3)" "\<not> du_snapshot_valid d3" using i2 d2 by (simp_all add: d3_def)
    obtain st fb where d4: "desktop_render_status s True d3 = d3\<lparr>du_status := st, du_surface := fb\<rparr>" "screen fb"
      using status_step[OF L(1) f3(1,3,2) r(3), of True] by blast
    obtain okt d5 where t: "desktop_render_text s True (desktop_render_status s True d3) = (okt, d5)" by fastforce
    have u: "d2\<lparr>du_panel := p\<rparr>\<lparr>du_panel_initialized := True\<rparr> = d3" by (simp add: d3_def)
    have c2: "(ok, d') = (if \<not> okt then (False, d5) else desktop_present hw i (\<not> du_panel_initialized d2) s d5)"
      using c True L(1) i2(3) f3(4) t unfolding desktop_compose_def q prod.case Let_def u by simp
    note w = low_splash[of L "d3\<lparr>du_status := st, du_surface := fb\<rparr>" okt d5]
    have "\<not> okt \<and> (\<exists>c fb'. d5 = d3\<lparr>du_status := st, du_console := c, du_surface := fb', du_snapshot_valid := False\<rparr>)"
      using w L d4 f3(1) t s by (simp add: desktop_render_text_def d4(1))
    then show ?thesis using c2 d2 p by (auto simp: d3_def never_shown_def)
  qed
qed

text \<open>A layout whose console has no room for three rows.\<close>

definition low_layouts :: "oled_ui_layout \<Rightarrow> bool" where
  "low_layouts L \<longleftrightarrow> oled_ui_layout_validate (Some L) \<and> r_height (console_rect L) < 20"

lemma low_run:
  assumes r: "desktop_run low_layouts d stale"
  shows "never_shown d"
  using r
proof (induction rule: desktop_run.induct)
  case (desk_rendered d stale hw i force ok d')
  have v: "\<And>L. low_layouts L \<Longrightarrow> oled_ui_layout_validate (Some L)" by (simp add: low_layouts_def)
  have "desktop_inv panel_shows (active_layout (du_layout d)) (\<not> stale) d \<and> low_layouts (active_layout (du_layout d))"
    by (rule desktop_run_inv[OF panel_shows_gddram v desk_rendered(1)])
  then show ?case using low_render[OF _ _ _ desk_rendered(3,2)] unfolding low_layouts_def by blast
next
  case (desk_asked d stale i)
  then show ?case by (auto simp: never_shown_def boot_desktop_ui_application_snapshot_current_def Let_def system_service_state_refresh_def)
qed (simp_all add: never_shown_def)

lemma view_lines_screen: "owned b \<Longrightarrow> view_lines b = application_screen (rt_active_id (br_runtime b))"
  using storage_desired by (auto simp: owned_def firmware_ok_def view_lines_def)

section \<open>The properties of the desktop\<close>

text \<open>
  C11: The desktop is on the panel. In any run from a boot, on any bus and with any panel that
  keeps to the addressing of its data sheet, a rendering that reports success and that either
  composes in full or follows, with no new layout and no display test in between, one that did,
  has in the memory of the panel, in the layout in force, the status bar of the services as they are now
  (indicators, hours and minutes) and the text: the splash, or the screen of the application
  that owns the display. The panel has to have been sent only what its data sheet covers, which
  a command cut by a bus error can break; a rendering whose bus answers never does. And
  with a bus that answers and room for three rows a rendering does report success, once
  the runtime is initialised.
\<close>
theorem desktop_on_panel:
  assumes "gddram_spec shows'" "desktop_run (\<lambda>L. oled_ui_layout_validate (Some L)) d stale" "boot_desktop_ui_render hw i force d = (ok, d')"
  shows "(ok \<and> (\<not> stale \<or> composed_in_full force d d') \<and> orderly (wire (du_panel d')) \<longrightarrow>
       shows_desktop (active_layout (du_layout d')) (snapshot_view (boot_desktop_ui_snapshot_build d'))
       (if du_state d' = BOOT_DESKTOP_UI_SPLASH then splash_lines else application_screen (rt_active_id (br_runtime (du_bridge d'))))
       (\<lambda>x y. bit (shows' (wire (du_panel d')) (y div 8) x) (y mod 8)))
     \<and> (i2c_answers hw \<and> orderly (wire (du_panel d)) \<longrightarrow> orderly (wire (du_panel d')))
     \<and> (i2c_answers hw \<and> 20 \<le> r_height (console_rect (active_layout (du_layout d)))
          \<and> (du_state d' = BOOT_DESKTOP_UI_SPLASH \<or> rt_initialized (br_runtime (du_bridge d))) \<longrightarrow> ok)"
proof -
  define L where "L = active_layout (du_layout d)"
  have i: "desktop_inv shows' L (\<not> stale) d" "oled_ui_layout_validate (Some L)"
    using desktop_run_inv[OF assms(1) _ assms(2)] by (auto simp: L_def)
  have l': "active_layout (du_layout d') = L" using render_layout[OF assms(3)] by (simp add: L_def)
  note r = render_step[OF assms(1) i(2,1) assms(3)]
  have "shows_desktop L (snapshot_view (boot_desktop_ui_snapshot_build d'))
       (if du_state d' = BOOT_DESKTOP_UI_SPLASH then splash_lines else application_screen (rt_active_id (br_runtime (du_bridge d'))))
       (\<lambda>x y. bit (shows' (wire (du_panel d')) (y div 8) x) (y mod 8))"
    if g: ok "\<not> stale \<or> composed_in_full force d d'" "orderly (wire (du_panel d'))"
  proof -
    have c: "desktop_current L d'" "tracked shows' (du_panel d') (du_surface d')" "bridge_ok (du_bridge d')"
      using r g by (auto simp: desktop_inv_def rendered_now_def desktop_current_def)
    have l: "du_last_snapshot d' = boot_desktop_ui_snapshot_build d'" using r g by (simp add: rendered_now_def)
    have t: "console_rows (du_console d') = (if du_state d' = BOOT_DESKTOP_UI_SPLASH then splash_lines else application_screen (rt_active_id (br_runtime (du_bridge d'))))"
    proof (cases "du_state d' = BOOT_DESKTOP_UI_SPLASH")
      case True
      then show ?thesis using c(1) by (simp add: desktop_current_def text_current_def l snapshot_state)
    next
      case False
      then have h: "du_state d' = BOOT_DESKTOP_UI_HOME" by (cases "du_state d'") simp_all
      then have "console_rows (du_console d') = view_lines (du_bridge d')" "owned (du_bridge d')"
        using c(1) r g by (auto simp: desktop_current_def text_current_def l snapshot_state rendered_now_def)
      then show ?thesis using False view_lines_screen by simp
    qed
    have "shows_desktop L (snapshot_view (boot_desktop_ui_snapshot_build d')) (console_rows (du_console d')) (fb_pixel (du_surface d'))"
      using c(1) l by (simp add: desktop_current_def shows_both)
    moreover have "fb_dirty_pages (du_surface d') = 0" using c(1) by (simp add: desktop_current_def)
    ultimately show ?thesis using panel_is_surface[OF c(2) g(3)] t by (simp add: shows_desktop_def)
  qed
  then show ?thesis using r unfolding l' L_def by blast
qed

text \<open>
  C40: A low console keeps the display dark. The checks of a layout, also of one that is loaded
  from flash, admit a console of 6 to 32 pixels; as long as every layout in force has less than
  the 20 that three rows take,
  no rendering ever succeeds: the splash is never complete, and nothing but the set-up of the
  panel is ever sent.
\<close>
theorem low_console_never_shown:
  assumes "desktop_run low_layouts d stale" "boot_desktop_ui_render hw i force d = (ok, d')"
  shows "\<not> ok \<and> du_panel d' \<in> {du_panel d, snd (ssd1306_init hw (du_panel d))}"
proof -
  have v: "\<And>L. low_layouts L \<Longrightarrow> oled_ui_layout_validate (Some L)" by (simp add: low_layouts_def)
  have "desktop_inv panel_shows (active_layout (du_layout d)) (\<not> stale) d \<and> low_layouts (active_layout (du_layout d))"
    by (rule desktop_run_inv[OF panel_shows_gddram v assms(1)])
  then show ?thesis using low_render[OF _ _ _ low_run[OF assms(1)] assms(2)] unfolding low_layouts_def by blast
qed

text \<open>A boot with the default layout, and one with a console of nineteen pixels.\<close>

definition demo_desktop :: "oled_ui_layout \<Rightarrow> desktop" where
  "demo_desktop L = \<lparr>du_state = BOOT_DESKTOP_UI_SPLASH, du_splash_started_at = 0, du_splash_visible = False, du_initialized = False,
     du_snapshot_valid = False, du_panel_initialized = False, du_layout_revision = 0,
     du_last_snapshot = \<lparr>us_state = BOOT_DESKTOP_UI_SPLASH, us_system_indicator = 0, us_usb_indicator = 0, us_network_indicator = 0, us_total_minutes = 0\<rparr>,
     du_status = oled_status_bar_init \<lparr>st_hours = 0, st_minutes = 0, st_system_indicator = 0, st_usb_indicator = 0, st_network_indicator = 0,
        st_dirty = 0, st_time_dirty = 0\<rparr>,
     du_services = system_service_state_reset,
     du_console = oled_console_init \<lparr>oc_cells = [], oc_first_row = 0, oc_cursor_x = 0, oc_cursor_y = 0, oc_dirty_rows = 0\<rparr>,
     du_surface = blank_fb 128 32, du_bridge = application_runtime_bridge_reset apps,
     du_layout = \<lparr>active_layout = L, active_layout_revision = 0\<rparr>, du_panel = demo_driver\<rparr>"

definition demo_inputs :: desktop_inputs where
  "demo_inputs = \<lparr>di_ready_for_home = False, di_now_for_home = 0, di_now = 0, di_ready = False, di_usb_configured = False, di_now_shown = 0\<rparr>"

lemma demo_run: "V L \<Longrightarrow> desktop_run V (demo_desktop L) False"
proof -
  assume v: "V L"
  have "screen (blank_fb 128 32)" using blank_fb_ok[of 128 32] by (simp add: screen_def blank_fb_eq)
  then show ?thesis using v by (intro desk_booted) (simp_all add: demo_desktop_def oled_status_bar_init_def bar_ok_def)
qed

definition low_layout :: oled_ui_layout where
  "low_layout = default_layout\<lparr>console_rect := \<lparr>r_x = 1, r_y = 10, r_width = 126, r_height = 19\<rparr>\<rparr>"

theorem low_console_never_shown_witness: "\<not> fst (boot_desktop_ui_render answering_hw demo_inputs True (demo_desktop low_layout))"
proof -
  have "oled_ui_layout_validate (Some low_layout)" "r_height (console_rect low_layout) < 20" by code_simp+
  then have "desktop_run low_layouts (demo_desktop low_layout) False" by (intro demo_run) (simp add: low_layouts_def)
  from low_console_never_shown[OF this, of answering_hw demo_inputs True] show ?thesis
    by (cases "boot_desktop_ui_render answering_hw demo_inputs True (demo_desktop low_layout)") simp
qed

text \<open>The D of DEUS OS below the bar, and the upper left corner of the bar.\<close>

theorem desktop_on_panel_witness:
  "let (ok, d') = boot_desktop_ui_render answering_hw demo_inputs False (demo_desktop default_layout) in
     ok \<and> bit (panel_shows (wire (du_panel d')) 1 1) 2 \<and> bit (panel_shows (wire (du_panel d')) 0 0) 0"
proof -
  obtain ok d' where r: "boot_desktop_ui_render answering_hw demo_inputs False (demo_desktop default_layout) = (ok, d')" by fastforce
  have v: "oled_ui_layout_validate (Some default_layout)" "20 \<le> r_height (console_rect default_layout)" by code_simp+
  have hw: "i2c_answers answering_hw" by (simp add: i2c_answers_def answering_hw_def i2c_wait_def)
  have run: "desktop_run (\<lambda>L. oled_ui_layout_validate (Some L)) (demo_desktop default_layout) False" using v(1) by (intro demo_run) simp
  have lay: "active_layout (du_layout (demo_desktop default_layout)) = default_layout" "active_layout (du_layout d') = default_layout"
    using render_layout[OF r] by (simp_all add: demo_desktop_def)
  have inv: "desktop_inv panel_shows default_layout True (demo_desktop default_layout)"
    using desktop_run_inv[OF panel_shows_gddram _ run] lay(1) by auto
  have st: "du_state d' = BOOT_DESKTOP_UI_SPLASH"
    using render_step[OF panel_shows_gddram v(1) inv r]
    by (simp add: desktop_refreshed_def boot_desktop_ui_update_state_def boot_desktop_ui_initialize_def demo_desktop_def system_service_state_refresh_def)
  note t = desktop_on_panel[OF panel_shows_gddram run r, unfolded lay]
  have o: "orderly (wire (du_panel (demo_desktop default_layout)))" by (simp add: demo_desktop_def demo_driver_def orderly_def panel_after_def)
  have ok: ok and o': "orderly (wire (du_panel d'))" using t hw v(2) st o by blast+
  define view where "view = snapshot_view (boot_desktop_ui_snapshot_build d')"
  have s: "shows_desktop default_layout view splash_lines (\<lambda>x y. bit (panel_shows (wire (du_panel d')) (y div 8) x) (y mod 8))"
    using t ok o' st by (simp add: view_def)
  have "text_area (console_rect default_layout) 1 10" "text_picture (console_rect default_layout) splash_lines 1 10"
    "bar_area (bar_rect default_layout) 0 0" by code_simp+
  moreover have "bar_picture (bar_rect default_layout) view 0 0" by (simp add: bar_picture_def frame_picture_def default_layout_def)
  ultimately have "bit (panel_shows (wire (du_panel d')) 1 1) 2" "bit (panel_shows (wire (du_panel d')) 0 0) 0"
    using s[unfolded shows_desktop_def, rule_format, of 1 10] s[unfolded shows_desktop_def, rule_format, of 0 0] by simp_all
  then show ?thesis using ok by (simp add: r)
qed

end
