(* ===== verification/Usb_Registers.thy ===== *)
theory Usb_Registers
  imports Fw_Prelude
begin

unbundle bit_operations_syntax

text \<open>
  The registers and the packet memory of the USB peripheral, as \<open>src/src/drivers/usb_device.c\<close>
  uses them. What a write leaves in an endpoint register is up to the peripheral: some of its
  bits take the value written, some toggle where a one is written, some can only be cleared.
  So it is a parameter, a function of the old contents and the value, and \<open>epr_manual\<close> says
  what the reference manual documents. The endpoint functions of the driver are shown to set
  one field and leave the others, whatever the register holds.
\<close>

section \<open>Constants\<close>

abbreviation (input) USB_EP_CTR_RX :: u16 where "USB_EP_CTR_RX \<equiv> 0x8000"
abbreviation (input) USB_EP_DTOG_RX :: u16 where "USB_EP_DTOG_RX \<equiv> 0x4000"
abbreviation (input) USB_EP_STAT_RX_MASK :: u16 where "USB_EP_STAT_RX_MASK \<equiv> 0x3000"
abbreviation (input) USB_EP_SETUP :: u16 where "USB_EP_SETUP \<equiv> 0x0800"
abbreviation (input) USB_EP_TYPE_MASK :: u16 where "USB_EP_TYPE_MASK \<equiv> 0x0600"
abbreviation (input) USB_EP_TYPE_BULK :: u16 where "USB_EP_TYPE_BULK \<equiv> 0x0000"
abbreviation (input) USB_EP_TYPE_CONTROL :: u16 where "USB_EP_TYPE_CONTROL \<equiv> 0x0200"
abbreviation (input) USB_EP_KIND :: u16 where "USB_EP_KIND \<equiv> 0x0100"
abbreviation (input) USB_EP_CTR_TX :: u16 where "USB_EP_CTR_TX \<equiv> 0x0080"
abbreviation (input) USB_EP_DTOG_TX :: u16 where "USB_EP_DTOG_TX \<equiv> 0x0040"
abbreviation (input) USB_EP_STAT_TX_MASK :: u16 where "USB_EP_STAT_TX_MASK \<equiv> 0x0030"
abbreviation (input) USB_EP_EA_MASK :: u16 where "USB_EP_EA_MASK \<equiv> 0x000F"

abbreviation (input) USB_EP_STAT_TX_DISABLED :: u16 where "USB_EP_STAT_TX_DISABLED \<equiv> 0x0000"
abbreviation (input) USB_EP_STAT_TX_STALL :: u16 where "USB_EP_STAT_TX_STALL \<equiv> 0x0010"
abbreviation (input) USB_EP_STAT_TX_NAK :: u16 where "USB_EP_STAT_TX_NAK \<equiv> 0x0020"
abbreviation (input) USB_EP_STAT_TX_VALID :: u16 where "USB_EP_STAT_TX_VALID \<equiv> 0x0030"
abbreviation (input) USB_EP_STAT_RX_DISABLED :: u16 where "USB_EP_STAT_RX_DISABLED \<equiv> 0x0000"
abbreviation (input) USB_EP_STAT_RX_STALL :: u16 where "USB_EP_STAT_RX_STALL \<equiv> 0x1000"
abbreviation (input) USB_EP_STAT_RX_NAK :: u16 where "USB_EP_STAT_RX_NAK \<equiv> 0x2000"
abbreviation (input) USB_EP_STAT_RX_VALID :: u16 where "USB_EP_STAT_RX_VALID \<equiv> 0x3000"

section \<open>The endpoint register\<close>

type_synonym epr_write = "u16 \<Rightarrow> u16 \<Rightarrow> u16"

definition usb_ep_invariant :: "u16 \<Rightarrow> u16" where
  "usb_ep_invariant v = v AND (USB_EP_CTR_RX OR USB_EP_TYPE_MASK OR USB_EP_KIND OR USB_EP_CTR_TX OR USB_EP_EA_MASK)"

text \<open>The value each function leaves in the register, which holds \<open>current\<close>.\<close>

definition usb_ep_set_tx_status :: "epr_write \<Rightarrow> u16 \<Rightarrow> u16 \<Rightarrow> u16" where
  "usb_ep_set_tx_status w status current = w current (usb_ep_invariant current OR ((current XOR status) AND USB_EP_STAT_TX_MASK))"

definition usb_ep_set_rx_status :: "epr_write \<Rightarrow> u16 \<Rightarrow> u16 \<Rightarrow> u16" where
  "usb_ep_set_rx_status w status current = w current (usb_ep_invariant current OR ((current XOR status) AND USB_EP_STAT_RX_MASK))"

definition usb_ep_clear_ctr_rx :: "epr_write \<Rightarrow> u16 \<Rightarrow> u16" where
  "usb_ep_clear_ctr_rx w current = w current (usb_ep_invariant current AND NOT USB_EP_CTR_RX)"

definition usb_ep_clear_ctr_tx :: "epr_write \<Rightarrow> u16 \<Rightarrow> u16" where
  "usb_ep_clear_ctr_tx w current = w current (usb_ep_invariant current AND NOT USB_EP_CTR_TX)"

definition usb_ep_clear_dtog_rx :: "epr_write \<Rightarrow> u16 \<Rightarrow> u16" where
  "usb_ep_clear_dtog_rx w current =
     (if current AND USB_EP_DTOG_RX \<noteq> 0 then w current (usb_ep_invariant current OR USB_EP_DTOG_RX) else current)"

definition usb_ep_clear_dtog_tx :: "epr_write \<Rightarrow> u16 \<Rightarrow> u16" where
  "usb_ep_clear_dtog_tx w current =
     (if current AND USB_EP_DTOG_TX \<noteq> 0 then w current (usb_ep_invariant current OR USB_EP_DTOG_TX) else current)"

definition usb_ep_runtime_reset :: "epr_write \<Rightarrow> u16 \<Rightarrow> u16 \<Rightarrow> u16 \<Rightarrow> u16" where
  "usb_ep_runtime_reset w endpoint type current =
     w (usb_ep_clear_dtog_tx w (usb_ep_clear_dtog_rx w (usb_ep_clear_ctr_tx w (usb_ep_clear_ctr_rx w
         (usb_ep_set_rx_status w USB_EP_STAT_RX_DISABLED (usb_ep_set_tx_status w USB_EP_STAT_TX_DISABLED current))))))
       (type OR endpoint)"

section \<open>The packet memory\<close>

text \<open>
  A word at each even local byte offset. The lengths are those of the data, at most a packet.
\<close>

type_synonym packet_memory = "u16 \<Rightarrow> u16"

fun usb_pma_write :: "packet_memory \<Rightarrow> u16 \<Rightarrow> bytes \<Rightarrow> packet_memory" where
  "usb_pma_write pma offset [] = pma"
| "usb_pma_write pma offset [b] = pma(offset := ucast b)"
| "usb_pma_write pma offset (b # c # bs) = usb_pma_write (pma(offset := ucast b OR push_bit 8 (ucast c))) (offset + 2) bs"

fun usb_pma_read :: "packet_memory \<Rightarrow> u16 \<Rightarrow> nat \<Rightarrow> bytes" where
  "usb_pma_read pma offset 0 = []"
| "usb_pma_read pma offset (Suc 0) = [ucast (pma offset AND 0xFF)]"
| "usb_pma_read pma offset (Suc (Suc n)) = ucast (pma offset AND 0xFF) # ucast (drop_bit 8 (pma offset)) # usb_pma_read pma (offset + 2) n"

section \<open>What the manual says\<close>

definition epr_manual :: "epr_write \<Rightarrow> bool" where
  "epr_manual w \<longleftrightarrow> (\<forall>old v.
      w old v AND (USB_EP_CTR_RX OR USB_EP_CTR_TX) = old AND v AND (USB_EP_CTR_RX OR USB_EP_CTR_TX)
    \<and> w old v AND (USB_EP_DTOG_RX OR USB_EP_STAT_RX_MASK OR USB_EP_DTOG_TX OR USB_EP_STAT_TX_MASK)
      = (old XOR v) AND (USB_EP_DTOG_RX OR USB_EP_STAT_RX_MASK OR USB_EP_DTOG_TX OR USB_EP_STAT_TX_MASK)
    \<and> w old v AND (USB_EP_TYPE_MASK OR USB_EP_KIND OR USB_EP_EA_MASK) = v AND (USB_EP_TYPE_MASK OR USB_EP_KIND OR USB_EP_EA_MASK)
    \<and> w old v AND USB_EP_SETUP = old AND USB_EP_SETUP)"

definition epr_of_manual :: epr_write where
  "epr_of_manual old v = (old AND v AND 0x8080) OR ((old XOR v) AND 0x7070) OR (v AND 0x070F) OR (old AND 0x0800)"

lemma below16: "k < 16 \<longleftrightarrow> k = 0 \<or> k = 1 \<or> k = 2 \<or> k = 3 \<or> k = 4 \<or> k = 5 \<or> k = 6 \<or> k = 7 \<or> k = 8 \<or> k = 9 \<or> k = 10
    \<or> k = 11 \<or> k = 12 \<or> k = 13 \<or> k = 14 \<or> k = (15 :: nat)"
proof -
  have "k < 16 \<longleftrightarrow> k \<in> set [0..<16]" by simp
  also have "[0..<16] = [0, 1, 2, 3, 4, 5, 6, 7, 8, 9, 10, 11, 12, 13, 14, 15]" by (simp add: upt_rec)
  finally show ?thesis by simp
qed

lemma u16_eqI: "(\<And>k. k < 16 \<Longrightarrow> bit a k = bit b k) \<Longrightarrow> a = (b :: u16)"
  by (rule bit_word_eqI) simp

lemma epr_manual_unique:
  assumes "epr_manual w"
  shows "w old v = epr_of_manual old v"
proof (rule u16_eqI)
  fix k :: nat
  assume k: "k < 16"
  have m: "w old v AND (0x8000 OR 0x80) = old AND v AND (0x8000 OR 0x80)"
    "w old v AND (0x4000 OR 0x3000 OR 0x40 OR 0x30) = (old XOR v) AND (0x4000 OR 0x3000 OR 0x40 OR 0x30)"
    "w old v AND (0x600 OR 0x100 OR 0xF) = v AND (0x600 OR 0x100 OR 0xF)" "w old v AND 0x800 = old AND 0x800"
    using assms by (simp_all add: epr_manual_def)
  from arg_cong[OF m(1), of "\<lambda>x. bit x k"] arg_cong[OF m(2), of "\<lambda>x. bit x k"] arg_cong[OF m(3), of "\<lambda>x. bit x k"] arg_cong[OF m(4), of "\<lambda>x. bit x k"]
  show "bit (w old v) k = bit (epr_of_manual old v) k"
    using k unfolding below16 by (elim disjE) (simp_all add: epr_of_manual_def bit_and_iff bit_or_iff bit_xor_iff)
qed

lemma epr_of_manual_ok: "epr_manual epr_of_manual"
proof -
  have e: "epr_of_manual old v AND m = r AND m" if "\<And>k. k < 16 \<Longrightarrow> bit m k \<Longrightarrow> bit (epr_of_manual old v) k = bit r k" for old v m r :: u16
    by (rule u16_eqI) (auto simp: bit_and_iff that)
  note d = epr_of_manual_def bit_and_iff bit_or_iff bit_xor_iff
  have "epr_of_manual old v AND (0x8000 OR 0x80) = (old AND v) AND (0x8000 OR 0x80)" for old v
    by (rule e; unfold below16; elim disjE; simp add: d)
  moreover have "epr_of_manual old v AND (0x4000 OR 0x3000 OR 0x40 OR 0x30) = (old XOR v) AND (0x4000 OR 0x3000 OR 0x40 OR 0x30)" for old v
    by (rule e; unfold below16; elim disjE; simp add: d)
  moreover have "epr_of_manual old v AND (0x600 OR 0x100 OR 0xF) = v AND (0x600 OR 0x100 OR 0xF)" for old v
    by (rule e; unfold below16; elim disjE; simp add: d)
  moreover have "epr_of_manual old v AND 0x800 = old AND 0x800" for old v
    by (rule e; unfold below16; elim disjE; simp add: d)
  ultimately show ?thesis unfolding epr_manual_def and.assoc by blast
qed

text \<open>Each function of the driver sets its field and leaves the rest.\<close>

lemma ep_fields:
  assumes "epr_manual w"
  shows "usb_ep_set_tx_status w st r = (r AND NOT 0x30) OR (st AND 0x30)"
    "usb_ep_set_rx_status w st r = (r AND NOT 0x3000) OR (st AND 0x3000)"
    "usb_ep_clear_ctr_rx w r = r AND NOT 0x8000"
    "usb_ep_clear_ctr_tx w r = r AND NOT 0x80"
    "usb_ep_clear_dtog_rx w r = r AND NOT 0x4000"
    "usb_ep_clear_dtog_tx w r = r AND NOT 0x40"
proof -
  note d = usb_ep_set_tx_status_def usb_ep_set_rx_status_def usb_ep_clear_ctr_rx_def usb_ep_clear_ctr_tx_def epr_manual_unique[OF assms]
    epr_of_manual_def usb_ep_invariant_def bit_and_iff bit_or_iff bit_xor_iff bit_not_iff
  show "usb_ep_set_tx_status w st r = (r AND NOT 0x30) OR (st AND 0x30)"
    by (rule u16_eqI; unfold below16; elim disjE; simp add: d) (blast+)
  show "usb_ep_set_rx_status w st r = (r AND NOT 0x3000) OR (st AND 0x3000)"
    by (rule u16_eqI; unfold below16; elim disjE; simp add: d) (blast+)
  show "usb_ep_clear_ctr_rx w r = r AND NOT 0x8000" "usb_ep_clear_ctr_tx w r = r AND NOT 0x80"
    by (rule u16_eqI; unfold below16; elim disjE; simp add: d)+
  have t: "bit r 14 \<longleftrightarrow> r AND 0x4000 \<noteq> 0" "bit r 6 \<longleftrightarrow> r AND 0x40 \<noteq> 0"
    using and_exp_eq_0_iff_not_bit[of r 14] and_exp_eq_0_iff_not_bit[of r 6] by simp_all
  show "usb_ep_clear_dtog_rx w r = r AND NOT 0x4000"
    unfolding usb_ep_clear_dtog_rx_def t(1)[symmetric] by (rule u16_eqI; unfold below16; elim disjE; simp add: d)
  show "usb_ep_clear_dtog_tx w r = r AND NOT 0x40"
    unfolding usb_ep_clear_dtog_tx_def t(2)[symmetric] by (rule u16_eqI; unfold below16; elim disjE; simp add: d)
qed

lemma ep_runtime_reset:
  assumes "epr_manual w"
  shows "usb_ep_runtime_reset w 4 USB_EP_TYPE_BULK r = (r AND 0x0800) OR 4"
  unfolding usb_ep_runtime_reset_def ep_fields[OF assms] epr_manual_unique[OF assms] epr_of_manual_def
  by (rule u16_eqI; unfold below16; elim disjE; simp add: bit_and_iff bit_or_iff bit_xor_iff bit_not_iff)

end
