(* ===== verification/Usb_Device.thy ===== *)
theory Usb_Device
  imports Usb_Registers
begin

unbundle bit_operations_syntax

text \<open>
  The USB device (\<open>src/src/drivers/usb_device.c\<close>): the control endpoint 0, the management
  endpoint 4 with its two rings, the interrupt handler and the set-up. Flags that are 0 or 1
  are truth values. The data a pointer of a transfer refers to is a list. The function
  installed to be notified of received bytes is not run: the calls are counted.
\<close>

section \<open>Constants and descriptors\<close>

abbreviation (input) USB_CNTR_FRES :: u16 where "USB_CNTR_FRES \<equiv> 0x0001"
abbreviation (input) USB_CNTR_PDWN :: u16 where "USB_CNTR_PDWN \<equiv> 0x0002"
abbreviation (input) USB_ISTR_RESET :: u16 where "USB_ISTR_RESET \<equiv> 0x0400"
abbreviation (input) USB_ISTR_ERR :: u16 where "USB_ISTR_ERR \<equiv> 0x2000"
abbreviation (input) USB_ISTR_PMAOVR :: u16 where "USB_ISTR_PMAOVR \<equiv> 0x4000"
abbreviation (input) USB_ISTR_CTR :: u16 where "USB_ISTR_CTR \<equiv> 0x8000"
abbreviation (input) USB_ISTR_EP_ID_MASK :: u16 where "USB_ISTR_EP_ID_MASK \<equiv> 0x000F"
abbreviation (input) USB_DADDR_EF :: u16 where "USB_DADDR_EF \<equiv> 0x0080"
abbreviation (input) USB_DADDR_ADD_MASK :: u16 where "USB_DADDR_ADD_MASK \<equiv> 0x007F"

abbreviation (input) USB_EP0 :: u8 where "USB_EP0 \<equiv> 0"
abbreviation (input) USB_MANAGEMENT_EP :: u8 where "USB_MANAGEMENT_EP \<equiv> 4"
abbreviation (input) USB_EP0_MAX_PACKET :: u16 where "USB_EP0_MAX_PACKET \<equiv> 64"
abbreviation (input) USB_MANAGEMENT_MAX_PACKET :: u16 where "USB_MANAGEMENT_MAX_PACKET \<equiv> 64"
abbreviation (input) USB_BTABLE_LOCAL :: u16 where "USB_BTABLE_LOCAL \<equiv> 0"
abbreviation (input) USB_EP0_TX_LOCAL :: u16 where "USB_EP0_TX_LOCAL \<equiv> 0x040"
abbreviation (input) USB_EP0_RX_LOCAL :: u16 where "USB_EP0_RX_LOCAL \<equiv> 0x080"
abbreviation (input) USB_EP4_RX_LOCAL :: u16 where "USB_EP4_RX_LOCAL \<equiv> 0x180"
abbreviation (input) USB_EP4_TX_LOCAL :: u16 where "USB_EP4_TX_LOCAL \<equiv> 0x1C0"
abbreviation (input) USB_RX_COUNT_64 :: u16 where "USB_RX_COUNT_64 \<equiv> 0x8400"
abbreviation (input) USB_COUNT_MASK :: u16 where "USB_COUNT_MASK \<equiv> 0x03FF"

definition USB_BTABLE_EP_TX_ADDR :: "u8 \<Rightarrow> u16" where "USB_BTABLE_EP_TX_ADDR ep = USB_BTABLE_LOCAL + ucast ep * 8 + 0"
definition USB_BTABLE_EP_TX_COUNT :: "u8 \<Rightarrow> u16" where "USB_BTABLE_EP_TX_COUNT ep = USB_BTABLE_LOCAL + ucast ep * 8 + 2"
definition USB_BTABLE_EP_RX_ADDR :: "u8 \<Rightarrow> u16" where "USB_BTABLE_EP_RX_ADDR ep = USB_BTABLE_LOCAL + ucast ep * 8 + 4"
definition USB_BTABLE_EP_RX_COUNT :: "u8 \<Rightarrow> u16" where "USB_BTABLE_EP_RX_COUNT ep = USB_BTABLE_LOCAL + ucast ep * 8 + 6"

abbreviation (input) USB_MANAGEMENT_RX_RING_CAPACITY :: u32 where "USB_MANAGEMENT_RX_RING_CAPACITY \<equiv> 512"
abbreviation (input) USB_MANAGEMENT_RX_RING_MASK :: u32 where "USB_MANAGEMENT_RX_RING_MASK \<equiv> 511"
abbreviation (input) USB_MANAGEMENT_TX_RING_CAPACITY :: u32 where "USB_MANAGEMENT_TX_RING_CAPACITY \<equiv> 1024"
abbreviation (input) USB_MANAGEMENT_TX_RING_MASK :: u32 where "USB_MANAGEMENT_TX_RING_MASK \<equiv> 1023"

abbreviation (input) USB_REQ_DIR_IN :: u8 where "USB_REQ_DIR_IN \<equiv> 0x80"
abbreviation (input) USB_REQ_TYPE_MASK :: u8 where "USB_REQ_TYPE_MASK \<equiv> 0x60"
abbreviation (input) USB_REQ_TYPE_STANDARD :: u8 where "USB_REQ_TYPE_STANDARD \<equiv> 0x00"
abbreviation (input) USB_REQ_TYPE_VENDOR :: u8 where "USB_REQ_TYPE_VENDOR \<equiv> 0x40"
abbreviation (input) USB_REQ_RECIP_MASK :: u8 where "USB_REQ_RECIP_MASK \<equiv> 0x1F"
abbreviation (input) USB_REQ_RECIP_DEVICE :: u8 where "USB_REQ_RECIP_DEVICE \<equiv> 0"
abbreviation (input) USB_REQ_RECIP_INTERFACE :: u8 where "USB_REQ_RECIP_INTERFACE \<equiv> 1"
abbreviation (input) USB_REQ_RECIP_ENDPOINT :: u8 where "USB_REQ_RECIP_ENDPOINT \<equiv> 2"
abbreviation (input) USB_REQ_GET_STATUS :: u8 where "USB_REQ_GET_STATUS \<equiv> 0"
abbreviation (input) USB_REQ_SET_ADDRESS :: u8 where "USB_REQ_SET_ADDRESS \<equiv> 5"
abbreviation (input) USB_REQ_GET_DESCRIPTOR :: u8 where "USB_REQ_GET_DESCRIPTOR \<equiv> 6"
abbreviation (input) USB_REQ_GET_CONFIGURATION :: u8 where "USB_REQ_GET_CONFIGURATION \<equiv> 8"
abbreviation (input) USB_REQ_SET_CONFIGURATION :: u8 where "USB_REQ_SET_CONFIGURATION \<equiv> 9"
abbreviation (input) USB_REQ_GET_INTERFACE :: u8 where "USB_REQ_GET_INTERFACE \<equiv> 10"
abbreviation (input) USB_REQ_SET_INTERFACE :: u8 where "USB_REQ_SET_INTERFACE \<equiv> 11"
abbreviation (input) USB_DESC_DEVICE :: u8 where "USB_DESC_DEVICE \<equiv> 1"
abbreviation (input) USB_DESC_CONFIGURATION :: u8 where "USB_DESC_CONFIGURATION \<equiv> 2"
abbreviation (input) USB_DESC_STRING :: u8 where "USB_DESC_STRING \<equiv> 3"
abbreviation (input) USB_DESC_BOS :: u8 where "USB_DESC_BOS \<equiv> 15"
abbreviation (input) USB_MS_OS_20_VENDOR_CODE :: u8 where "USB_MS_OS_20_VENDOR_CODE \<equiv> 0x20"
abbreviation (input) USB_MS_OS_20_DESCRIPTOR_INDEX :: u16 where "USB_MS_OS_20_DESCRIPTOR_INDEX \<equiv> 7"
abbreviation (input) USB_CONFIGURATION_NONE :: u32 where "USB_CONFIGURATION_NONE \<equiv> 0"
abbreviation (input) USB_CONFIGURATION_ONE :: u32 where "USB_CONFIGURATION_ONE \<equiv> 1"

definition usb_device_descriptor :: bytes where
  "usb_device_descriptor = [18, USB_DESC_DEVICE, 0x10, 0x02, 0, 0, 0, 64, 0x09, 0x12, 0x0E, 0x00, 0x02, 0x01, 0, 1, 0, 1]"

definition usb_configuration_descriptor :: bytes where
  "usb_configuration_descriptor = [9, USB_DESC_CONFIGURATION, 32, 0, 1, 1, 0, 0x80, 50, 9, 4, 0, 0, 2, 0xFF, 0, 0, 0,
     7, 5, 0x04, 2, 64, 0, 0, 7, 5, 0x84, 2, 64, 0, 0]"

definition usb_bos_descriptor :: bytes where
  "usb_bos_descriptor = [5, USB_DESC_BOS, 33, 0, 1, 28, 16, 5, 0,
     0xDF, 0x60, 0xDD, 0xD8, 0x89, 0x45, 0xC7, 0x4C, 0x9C, 0xD2, 0x65, 0x9D, 0x9E, 0x64, 0x8A, 0x9F,
     0, 0, 0, 0x0A, 178, 0, USB_MS_OS_20_VENDOR_CODE, 0]"

text \<open>Characters of two bytes, as the literals write them.\<close>

definition wide :: "string \<Rightarrow> bytes" where
  "wide t = concat (map (\<lambda>c. [of_nat (of_char c), 0]) t)"

definition usb_ms_os_20_descriptor_set :: bytes where
  "usb_ms_os_20_descriptor_set = [0x0A, 0, 0, 0, 0, 0, 0, 0x0A, 178, 0] @ [8, 0, 1, 0, 0, 0, 168, 0] @ [8, 0, 2, 0, 0, 0, 160, 0]
     @ [0x14, 0, 3, 0] @ map (\<lambda>c. of_nat (of_char c)) ''WINUSB'' @ [0, 0, 0, 0, 0, 0, 0, 0, 0, 0]
     @ [132, 0, 4, 0, 7, 0, 0x2A, 0] @ wide ''DeviceInterfaceGUIDs'' @ [0, 0, 0x50, 0]
     @ wide ''{C8B05EDE-1683-5002-81F0-95636B89CEC6}'' @ [0, 0, 0, 0]"

definition usb_string_language :: bytes where
  "usb_string_language = [4, USB_DESC_STRING, 0x09, 0x04]"

definition usb_string_product :: bytes where
  "usb_string_product = [30, USB_DESC_STRING] @ wide ''Deus OS Device''"

section \<open>State\<close>

record usb_setup_packet =
  sp_bm_request_type :: u8
  sp_b_request :: u8
  sp_w_value :: u16
  sp_w_index :: u16
  sp_w_length :: u16

datatype usb_ep0_state = USB_EP0_IDLE | USB_EP0_DATA_IN | USB_EP0_STATUS_OUT | USB_EP0_STATUS_IN

record usb_device_diagnostics =
  dg_initialized :: u32
  dg_bus_reset_count :: u32
  dg_setup_count :: u32
  dg_transfer_count :: u32
  dg_stall_count :: u32
  dg_error_count :: u32
  dg_pma_overrun_count :: u32
  dg_address :: u32
  dg_configuration :: u32
  dg_last_bm_request_type :: u32
  dg_last_b_request :: u32
  dg_management_configured :: u32
  dg_management_rx_packet_count :: u32
  dg_management_rx_byte_count :: u32
  dg_management_rx_drop_count :: u32
  dg_management_rx_high_water :: u32
  dg_management_tx_packet_count :: u32
  dg_management_tx_byte_count :: u32
  dg_management_tx_drop_count :: u32
  dg_management_tx_high_water :: u32
  dg_management_ms_os_20_request_count :: u32

text \<open>The registers, with the last value written to the interrupt status, and the variables of the driver.\<close>

record usb_device =
  ud_epr :: "u8 \<Rightarrow> u16"
  ud_pma :: packet_memory
  ud_istr_written :: u16
  ud_btable :: u16
  ud_daddr :: u16
  ud_ep0_state :: usb_ep0_state
  ud_ep0_in_data :: bytes
  ud_ep0_in_remaining :: u16
  ud_ep0_need_zlp :: bool
  ud_pending_address :: u8
  ud_pending_address_valid :: bool
  ud_pending_configuration :: u8
  ud_pending_configuration_valid :: bool
  ud_rx_ring :: bytes
  ud_rx_head :: u32
  ud_rx_tail :: u32
  ud_tx_ring :: bytes
  ud_tx_head :: u32
  ud_tx_tail :: u32
  ud_tx_inflight :: u16
  ud_tx_active :: bool
  ud_rx_notify :: bool
  ud_notified :: nat
  ud_diag :: usb_device_diagnostics

definition on_epr :: "u8 \<Rightarrow> (u16 \<Rightarrow> u16) \<Rightarrow> usb_device \<Rightarrow> usb_device" where
  "on_epr ep f s = s\<lparr>ud_epr := (ud_epr s)(ep := f (ud_epr s ep))\<rparr>"

definition on_diag :: "(usb_device_diagnostics \<Rightarrow> usb_device_diagnostics) \<Rightarrow> usb_device \<Rightarrow> usb_device" where
  "on_diag f s = s\<lparr>ud_diag := f (ud_diag s)\<rparr>"

definition usb_pma_write16 :: "u16 \<Rightarrow> u16 \<Rightarrow> usb_device \<Rightarrow> usb_device" where
  "usb_pma_write16 offset v s = s\<lparr>ud_pma := (ud_pma s)(offset := v)\<rparr>"

definition usb_istr_clear :: "u16 \<Rightarrow> usb_device \<Rightarrow> usb_device" where
  "usb_istr_clear flags s = s\<lparr>ud_istr_written := NOT flags\<rparr>"

section \<open>The control endpoint\<close>

definition usb_ep0_set_tx_count :: "u16 \<Rightarrow> usb_device \<Rightarrow> usb_device" where
  "usb_ep0_set_tx_count count s = usb_pma_write16 (USB_BTABLE_EP_TX_COUNT USB_EP0) (count AND USB_COUNT_MASK) s"

definition usb_ep0_get_rx_count :: "usb_device \<Rightarrow> u16" where
  "usb_ep0_get_rx_count s = ud_pma s (USB_BTABLE_EP_RX_COUNT USB_EP0) AND USB_COUNT_MASK"

definition usb_ep0_reset_transfer_state :: "usb_device \<Rightarrow> usb_device" where
  "usb_ep0_reset_transfer_state s = s\<lparr>ud_ep0_state := USB_EP0_IDLE, ud_ep0_in_data := [], ud_ep0_in_remaining := 0, ud_ep0_need_zlp := False,
     ud_pending_address := 0, ud_pending_address_valid := False, ud_pending_configuration := 0, ud_pending_configuration_valid := False\<rparr>"

definition usb_ep0_stall :: "epr_write \<Rightarrow> usb_device \<Rightarrow> usb_device" where
  "usb_ep0_stall w s = on_diag (\<lambda>g. g\<lparr>dg_stall_count := dg_stall_count g + 1\<rparr>)
     (on_epr USB_EP0 (usb_ep_set_rx_status w USB_EP_STAT_RX_STALL) (on_epr USB_EP0 (usb_ep_set_tx_status w USB_EP_STAT_TX_STALL)
       (usb_ep0_reset_transfer_state s)))"

definition usb_ep0_arm_rx :: "epr_write \<Rightarrow> usb_device \<Rightarrow> usb_device" where
  "usb_ep0_arm_rx w s = on_epr USB_EP0 (usb_ep_set_rx_status w USB_EP_STAT_RX_VALID) s"

definition usb_ep0_send_packet :: "epr_write \<Rightarrow> bytes \<Rightarrow> usb_device \<Rightarrow> usb_device" where
  "usb_ep0_send_packet w data s =
     (let s1 = (if data \<noteq> [] then s\<lparr>ud_pma := usb_pma_write (ud_pma s) USB_EP0_TX_LOCAL data\<rparr> else s)
      in on_epr USB_EP0 (usb_ep_set_tx_status w USB_EP_STAT_TX_VALID) (usb_ep0_set_tx_count (of_nat (length data)) s1))"

definition usb_ep0_send_next_in_packet :: "epr_write \<Rightarrow> usb_device \<Rightarrow> usb_device" where
  "usb_ep0_send_next_in_packet w s =
     (let len = (if ud_ep0_in_remaining s > USB_EP0_MAX_PACKET then USB_EP0_MAX_PACKET else ud_ep0_in_remaining s);
          s1 = usb_ep0_send_packet w (take (unat len) (ud_ep0_in_data s)) s
      in s1\<lparr>ud_ep0_in_data := drop (unat len) (ud_ep0_in_data s1), ud_ep0_in_remaining := ud_ep0_in_remaining s1 - len\<rparr>)"

definition usb_ep0_start_in :: "epr_write \<Rightarrow> bytes \<Rightarrow> u16 \<Rightarrow> usb_device \<Rightarrow> usb_device" where
  "usb_ep0_start_in w data requested_length s =
     (let send_length = (if of_nat (length data) > requested_length then requested_length else of_nat (length data));
          s1 = s\<lparr>ud_ep0_in_data := data, ud_ep0_in_remaining := send_length,
                 ud_ep0_need_zlp := (send_length \<noteq> 0 \<and> send_length < requested_length \<and> send_length mod USB_EP0_MAX_PACKET = 0),
                 ud_ep0_state := USB_EP0_DATA_IN\<rparr>
      in if send_length = 0 then usb_ep0_send_packet w [] s1 else usb_ep0_send_next_in_packet w s1)"

definition usb_ep0_start_status_in :: "epr_write \<Rightarrow> usb_device \<Rightarrow> usb_device" where
  "usb_ep0_start_status_in w s = usb_ep0_send_packet w [] (s\<lparr>ud_ep0_state := USB_EP0_STATUS_IN\<rparr>)"

section \<open>The management endpoint\<close>

definition usb_management_reset_rings :: "usb_device \<Rightarrow> usb_device" where
  "usb_management_reset_rings s = s\<lparr>ud_rx_head := 0, ud_rx_tail := 0, ud_tx_head := 0, ud_tx_tail := 0, ud_tx_inflight := 0, ud_tx_active := False\<rparr>"

definition usb_management_endpoints_disable :: "epr_write \<Rightarrow> usb_device \<Rightarrow> usb_device" where
  "usb_management_endpoints_disable w s = on_diag (\<lambda>g. g\<lparr>dg_management_configured := 0\<rparr>)
     (usb_management_reset_rings (on_epr USB_MANAGEMENT_EP (\<lambda>r. w r 0)
       (on_epr USB_MANAGEMENT_EP (usb_ep_runtime_reset w (ucast USB_MANAGEMENT_EP) USB_EP_TYPE_BULK) s)))"

definition usb_management_endpoints_enable :: "epr_write \<Rightarrow> usb_device \<Rightarrow> usb_device" where
  "usb_management_endpoints_enable w s =
     (let s1 = usb_pma_write16 (USB_BTABLE_EP_RX_COUNT USB_MANAGEMENT_EP) USB_RX_COUNT_64
                (usb_pma_write16 (USB_BTABLE_EP_RX_ADDR USB_MANAGEMENT_EP) USB_EP4_RX_LOCAL
                (usb_pma_write16 (USB_BTABLE_EP_TX_COUNT USB_MANAGEMENT_EP) 0
                (usb_pma_write16 (USB_BTABLE_EP_TX_ADDR USB_MANAGEMENT_EP) USB_EP4_TX_LOCAL s)));
          s2 = on_epr USB_MANAGEMENT_EP (usb_ep_runtime_reset w (ucast USB_MANAGEMENT_EP) USB_EP_TYPE_BULK) s1;
          s3 = on_epr USB_MANAGEMENT_EP (usb_ep_set_tx_status w USB_EP_STAT_TX_NAK) s2;
          s4 = on_epr USB_MANAGEMENT_EP (usb_ep_set_rx_status w USB_EP_STAT_RX_VALID) s3
      in on_diag (\<lambda>g. g\<lparr>dg_management_configured := 1\<rparr>) (usb_management_reset_rings s4))"

text \<open>The loop that copies from the ring to the packet memory writes words as \<open>usb_pma_write\<close> does.\<close>

definition usb_management_tx_kick :: "epr_write \<Rightarrow> usb_device \<Rightarrow> usb_device" where
  "usb_management_tx_kick w s =
     (if dg_configuration (ud_diag s) \<noteq> USB_CONFIGURATION_ONE \<or> dg_management_configured (ud_diag s) = 0 \<or> ud_tx_active s then s
      else let available = ud_tx_head s - ud_tx_tail s in
        if available = 0 then s
        else let len = (if available > ucast USB_MANAGEMENT_MAX_PACKET then USB_MANAGEMENT_MAX_PACKET else ucast available :: u16);
                 packet = map (\<lambda>index. ud_tx_ring s ! unat ((ud_tx_tail s + of_nat index) AND USB_MANAGEMENT_TX_RING_MASK)) [0..<unat len];
                 s1 = usb_pma_write16 (USB_BTABLE_EP_TX_COUNT USB_MANAGEMENT_EP) len (s\<lparr>ud_pma := usb_pma_write (ud_pma s) USB_EP4_TX_LOCAL packet\<rparr>)
             in on_epr USB_MANAGEMENT_EP (usb_ep_set_tx_status w USB_EP_STAT_TX_VALID) (s1\<lparr>ud_tx_inflight := len, ud_tx_active := True\<rparr>))"

text \<open>One received byte: into the ring while it has room, else dropped.\<close>

definition rx_accept :: "u8 \<Rightarrow> usb_device \<times> u32 \<Rightarrow> usb_device \<times> u32" where
  "rx_accept byte st = (case st of (s, accepted) \<Rightarrow>
     let depth = ud_rx_head s - ud_rx_tail s in
     if depth < USB_MANAGEMENT_RX_RING_CAPACITY
     then let next_depth = depth + 1;
              s1 = s\<lparr>ud_rx_ring := (ud_rx_ring s)[unat (ud_rx_head s AND USB_MANAGEMENT_RX_RING_MASK) := byte], ud_rx_head := ud_rx_head s + 1\<rparr>
          in ((if next_depth > dg_management_rx_high_water (ud_diag s1)
               then on_diag (\<lambda>g. g\<lparr>dg_management_rx_high_water := next_depth\<rparr>) s1 else s1), accepted + 1)
     else (on_diag (\<lambda>g. g\<lparr>dg_management_rx_drop_count := dg_management_rx_drop_count g + 1\<rparr>) s, accepted))"

definition usb_management_handle_out :: "epr_write \<Rightarrow> usb_device \<Rightarrow> usb_device" where
  "usb_management_handle_out w s =
     (let count = ud_pma s (USB_BTABLE_EP_RX_COUNT USB_MANAGEMENT_EP) AND USB_COUNT_MASK;
          s1 = on_epr USB_MANAGEMENT_EP (usb_ep_clear_ctr_rx w) s;
          s2 = on_diag (\<lambda>g. g\<lparr>dg_management_rx_packet_count := dg_management_rx_packet_count g + 1,
                               dg_management_rx_byte_count := dg_management_rx_byte_count g + ucast count\<rparr>) s1
      in case fold rx_accept (usb_pma_read (ud_pma s2) USB_EP4_RX_LOCAL (unat count)) (s2, 0) of (s3, accepted) \<Rightarrow>
        let s4 = on_epr USB_MANAGEMENT_EP (usb_ep_set_rx_status w USB_EP_STAT_RX_VALID)
                   (usb_pma_write16 (USB_BTABLE_EP_RX_COUNT USB_MANAGEMENT_EP) USB_RX_COUNT_64 s3)
        in if accepted \<noteq> 0 \<and> ud_rx_notify s4 then s4\<lparr>ud_notified := ud_notified s4 + 1\<rparr> else s4)"

definition usb_management_handle_in :: "epr_write \<Rightarrow> usb_device \<Rightarrow> usb_device" where
  "usb_management_handle_in w s =
     (let s1 = on_epr USB_MANAGEMENT_EP (usb_ep_clear_ctr_tx w) s;
          s2 = (if ud_tx_active s1 then
                  (on_diag (\<lambda>g. g\<lparr>dg_management_tx_packet_count := dg_management_tx_packet_count g + 1,
                                  dg_management_tx_byte_count := dg_management_tx_byte_count g + ucast (ud_tx_inflight s1)\<rparr>)
                    (s1\<lparr>ud_tx_tail := ud_tx_tail s1 + ucast (ud_tx_inflight s1)\<rparr>))\<lparr>ud_tx_inflight := 0, ud_tx_active := False\<rparr>
                else s1)
      in usb_management_tx_kick w (on_epr USB_MANAGEMENT_EP (usb_ep_set_tx_status w USB_EP_STAT_TX_NAK) s2))"

definition usb_management_handle_ctr :: "epr_write \<Rightarrow> usb_device \<Rightarrow> usb_device" where
  "usb_management_handle_ctr w s =
     (let s1 = (if ud_epr s USB_MANAGEMENT_EP AND USB_EP_CTR_RX \<noteq> 0 then usb_management_handle_out w s else s)
      in if ud_epr s1 USB_MANAGEMENT_EP AND USB_EP_CTR_TX \<noteq> 0 then usb_management_handle_in w s1 else s1)"

end
