(* ===== verification/Usb_Requests.thy ===== *)
theory Usb_Requests
  imports Usb_Device
begin

unbundle bit_operations_syntax

text \<open>
  The requests of the control endpoint, the interrupt handler, the calls of the layers above and
  the set-up of \<open>src/src/drivers/usb_device.c\<close>.
\<close>

section \<open>Requests\<close>

definition usb_get_descriptor :: "usb_setup_packet \<Rightarrow> bytes option" where
  "usb_get_descriptor setup =
     (let descriptor_type = ucast (drop_bit 8 (sp_w_value setup)) :: u8; descriptor_index = ucast (sp_w_value setup AND 0xFF) :: u8
      in if sp_bm_request_type setup \<noteq> 0x80 then None
         else if descriptor_type = USB_DESC_DEVICE \<and> descriptor_index = 0 then Some usb_device_descriptor
         else if descriptor_type = USB_DESC_CONFIGURATION \<and> descriptor_index = 0 then Some usb_configuration_descriptor
         else if descriptor_type = USB_DESC_BOS \<and> descriptor_index = 0 then Some usb_bos_descriptor
         else if descriptor_type = USB_DESC_STRING then
           (if descriptor_index = 0 then Some usb_string_language
            else if descriptor_index = 1 \<and> (sp_w_index setup = 0x0409 \<or> sp_w_index setup = 0) then Some usb_string_product
            else None)
         else None)"

definition usb_ep0_standard_in :: "epr_write \<Rightarrow> usb_setup_packet \<Rightarrow> usb_device \<Rightarrow> bool \<times> usb_device" where
  "usb_ep0_standard_in w setup s =
     (let recipient = sp_bm_request_type setup AND USB_REQ_RECIP_MASK; start_in = (\<lambda>data. (True, usb_ep0_start_in w data (sp_w_length setup) s));
          configuration = dg_configuration (ud_diag s)
      in if sp_bm_request_type setup AND USB_REQ_TYPE_MASK \<noteq> USB_REQ_TYPE_STANDARD then (False, s)
         else if sp_b_request setup = USB_REQ_GET_DESCRIPTOR then
           (case usb_get_descriptor setup of None \<Rightarrow> (False, s) | Some descriptor \<Rightarrow> start_in descriptor)
         else if sp_b_request setup = USB_REQ_GET_STATUS \<and> sp_w_value setup = 0 \<and> sp_w_length setup = 2 then
           (if recipient = USB_REQ_RECIP_DEVICE \<and> sp_w_index setup = 0 then start_in [0, 0]
            else if recipient = USB_REQ_RECIP_INTERFACE \<and> configuration = USB_CONFIGURATION_ONE \<and> sp_w_index setup = 0 then start_in [0, 0]
            else if recipient = USB_REQ_RECIP_ENDPOINT \<and> (sp_w_index setup = 0x0000 \<or> sp_w_index setup = 0x0080
                 \<or> configuration = USB_CONFIGURATION_ONE \<and> (sp_w_index setup = 0x0004 \<or> sp_w_index setup = 0x0084)) then start_in [0, 0]
            else (False, s))
         else if sp_b_request setup = USB_REQ_GET_CONFIGURATION \<and> sp_bm_request_type setup = 0x80 \<and> sp_w_value setup = 0
              \<and> sp_w_index setup = 0 \<and> sp_w_length setup = 1 then start_in [ucast configuration]
         else if sp_b_request setup = USB_REQ_GET_INTERFACE \<and> sp_bm_request_type setup = 0x81 \<and> sp_w_value setup = 0
              \<and> sp_w_index setup = 0 \<and> sp_w_length setup = 1 \<and> configuration = USB_CONFIGURATION_ONE then start_in [0]
         else (False, s))"

definition usb_ep0_standard_out :: "epr_write \<Rightarrow> usb_setup_packet \<Rightarrow> usb_device \<Rightarrow> bool \<times> usb_device" where
  "usb_ep0_standard_out w setup s =
     (if sp_bm_request_type setup AND USB_REQ_TYPE_MASK \<noteq> USB_REQ_TYPE_STANDARD then (False, s)
      else if sp_b_request setup = USB_REQ_SET_ADDRESS \<and> sp_bm_request_type setup = 0 \<and> sp_w_value setup AND 0xFF80 = 0
           \<and> sp_w_index setup = 0 \<and> sp_w_length setup = 0 then
        (True, usb_ep0_start_status_in w
           (s\<lparr>ud_pending_address := ucast (sp_w_value setup AND USB_DADDR_ADD_MASK), ud_pending_address_valid := True\<rparr>))
      else if sp_b_request setup = USB_REQ_SET_CONFIGURATION \<and> sp_bm_request_type setup = 0
           \<and> (sp_w_value setup = 0 \<or> sp_w_value setup = 1) \<and> sp_w_index setup = 0 \<and> sp_w_length setup = 0 then
        (True, usb_ep0_start_status_in w
           (s\<lparr>ud_pending_configuration := ucast (sp_w_value setup), ud_pending_configuration_valid := True\<rparr>))
      else if sp_b_request setup = USB_REQ_SET_INTERFACE \<and> sp_bm_request_type setup = 0x01 \<and> sp_w_value setup = 0
           \<and> sp_w_index setup = 0 \<and> sp_w_length setup = 0 \<and> dg_configuration (ud_diag s) = USB_CONFIGURATION_ONE then
        (True, usb_ep0_start_status_in w s)
      else (False, s))"

definition usb_ep0_vendor_in :: "epr_write \<Rightarrow> usb_setup_packet \<Rightarrow> usb_device \<Rightarrow> bool \<times> usb_device" where
  "usb_ep0_vendor_in w setup s =
     (if sp_bm_request_type setup \<noteq> 0xC0 \<or> sp_b_request setup \<noteq> USB_MS_OS_20_VENDOR_CODE \<or> sp_w_value setup \<noteq> 0
         \<or> sp_w_index setup \<noteq> USB_MS_OS_20_DESCRIPTOR_INDEX then (False, s)
      else (True, usb_ep0_start_in w usb_ms_os_20_descriptor_set (sp_w_length setup)
             (on_diag (\<lambda>g. g\<lparr>dg_management_ms_os_20_request_count := dg_management_ms_os_20_request_count g + 1\<rparr>) s)))"

definition setup_from_bytes :: "bytes \<Rightarrow> usb_setup_packet" where
  "setup_from_bytes raw = \<lparr>sp_bm_request_type = raw ! 0, sp_b_request = raw ! 1, sp_w_value = rd16 raw 2, sp_w_index = rd16 raw 4, sp_w_length = rd16 raw 6\<rparr>"

definition usb_ep0_handle_setup :: "epr_write \<Rightarrow> usb_device \<Rightarrow> usb_device" where
  "usb_ep0_handle_setup w s =
     (let setup = setup_from_bytes (usb_pma_read (ud_pma s) USB_EP0_RX_LOCAL 8);
          s1 = on_diag (\<lambda>g. g\<lparr>dg_setup_count := dg_setup_count g + 1, dg_last_bm_request_type := ucast (sp_bm_request_type setup),
                              dg_last_b_request := ucast (sp_b_request setup)\<rparr>) s;
          s2 = usb_ep0_arm_rx w (on_epr USB_EP0 (usb_ep_set_tx_status w USB_EP_STAT_TX_NAK) (usb_ep0_reset_transfer_state s1));
          request_type = sp_bm_request_type setup AND USB_REQ_TYPE_MASK
      in case (if sp_bm_request_type setup AND USB_REQ_DIR_IN \<noteq> 0
               then (if request_type = USB_REQ_TYPE_STANDARD then usb_ep0_standard_in w setup s2
                     else if request_type = USB_REQ_TYPE_VENDOR then usb_ep0_vendor_in w setup s2 else (False, s2))
               else (if request_type = USB_REQ_TYPE_STANDARD then usb_ep0_standard_out w setup s2 else (False, s2)))
         of (handled, s3) \<Rightarrow> if \<not> handled then usb_ep0_stall w s3 else s3)"

section \<open>Completions on endpoint 0\<close>

definition usb_ep0_handle_rx :: "epr_write \<Rightarrow> u16 \<Rightarrow> usb_device \<Rightarrow> usb_device" where
  "usb_ep0_handle_rx w endpoint_value s =
     (let count = usb_ep0_get_rx_count s;
          s1 = on_diag (\<lambda>g. g\<lparr>dg_transfer_count := dg_transfer_count g + 1\<rparr>) (on_epr USB_EP0 (usb_ep_clear_ctr_rx w) s)
      in if endpoint_value AND USB_EP_SETUP \<noteq> 0 then (if count = 8 then usb_ep0_handle_setup w s1 else usb_ep0_stall w s1)
         else if ud_ep0_state s1 = USB_EP0_STATUS_OUT \<and> count = 0
         then usb_ep0_arm_rx w (on_epr USB_EP0 (usb_ep_set_tx_status w USB_EP_STAT_TX_NAK) (s1\<lparr>ud_ep0_state := USB_EP0_IDLE\<rparr>))
         else usb_ep0_stall w s1)"

definition usb_ep0_apply_pending_status_action :: "epr_write \<Rightarrow> usb_device \<Rightarrow> usb_device" where
  "usb_ep0_apply_pending_status_action w s =
     (let s1 = (if ud_pending_address_valid s then
            let a = (on_diag (\<lambda>g. g\<lparr>dg_address := ucast (ud_pending_address s)\<rparr>) (s\<lparr>ud_daddr := USB_DADDR_EF OR ucast (ud_pending_address s)\<rparr>))
                      \<lparr>ud_pending_address_valid := False\<rparr>
            in if ud_pending_address s = 0
               then on_diag (\<lambda>g. g\<lparr>dg_configuration := USB_CONFIGURATION_NONE\<rparr>) (usb_management_endpoints_disable w a) else a
          else s)
      in if ud_pending_configuration_valid s1 then
           (if ucast (ud_pending_configuration s1) = USB_CONFIGURATION_ONE
            then usb_management_endpoints_enable w (on_diag (\<lambda>g. g\<lparr>dg_configuration := USB_CONFIGURATION_ONE\<rparr>) s1)
            else on_diag (\<lambda>g. g\<lparr>dg_configuration := USB_CONFIGURATION_NONE\<rparr>) (usb_management_endpoints_disable w s1))
             \<lparr>ud_pending_configuration_valid := False\<rparr>
         else s1)"

definition usb_ep0_handle_tx :: "epr_write \<Rightarrow> usb_device \<Rightarrow> usb_device" where
  "usb_ep0_handle_tx w s =
     (let s1 = on_diag (\<lambda>g. g\<lparr>dg_transfer_count := dg_transfer_count g + 1\<rparr>) (on_epr USB_EP0 (usb_ep_clear_ctr_tx w) s);
          nak = on_epr USB_EP0 (usb_ep_set_tx_status w USB_EP_STAT_TX_NAK)
      in if ud_ep0_state s1 = USB_EP0_DATA_IN then
           (if ud_ep0_in_remaining s1 \<noteq> 0 then usb_ep0_send_next_in_packet w s1
            else if ud_ep0_need_zlp s1 then usb_ep0_send_packet w [] (s1\<lparr>ud_ep0_need_zlp := False\<rparr>)
            else usb_ep0_arm_rx w (nak (s1\<lparr>ud_ep0_state := USB_EP0_STATUS_OUT\<rparr>)))
         else if ud_ep0_state s1 = USB_EP0_STATUS_IN then
           usb_ep0_arm_rx w (nak ((usb_ep0_apply_pending_status_action w s1)\<lparr>ud_ep0_state := USB_EP0_IDLE\<rparr>))
         else nak s1)"

definition usb_ep0_handle_ctr :: "epr_write \<Rightarrow> usb_device \<Rightarrow> usb_device" where
  "usb_ep0_handle_ctr w s =
     (let endpoint_value = ud_epr s USB_EP0;
          s1 = (if endpoint_value AND USB_EP_CTR_RX \<noteq> 0 then usb_ep0_handle_rx w endpoint_value s else s)
      in if ud_epr s1 USB_EP0 AND USB_EP_CTR_TX \<noteq> 0 then usb_ep0_handle_tx w s1 else s1)"

section \<open>The bus and the interrupt\<close>

definition usb_bus_reset :: "epr_write \<Rightarrow> usb_device \<Rightarrow> usb_device" where
  "usb_bus_reset w s =
     (let s1 = (on_epr USB_EP0 (\<lambda>r. w r 0) s)\<lparr>ud_btable := USB_BTABLE_LOCAL\<rparr>;
          s2 = usb_pma_write16 (USB_BTABLE_EP_RX_COUNT USB_EP0) USB_RX_COUNT_64
                (usb_pma_write16 (USB_BTABLE_EP_RX_ADDR USB_EP0) USB_EP0_RX_LOCAL
                (usb_pma_write16 (USB_BTABLE_EP_TX_COUNT USB_EP0) 0
                (usb_pma_write16 (USB_BTABLE_EP_TX_ADDR USB_EP0) USB_EP0_TX_LOCAL s1)));
          s3 = on_epr USB_EP0 (\<lambda>r. w r (USB_EP_TYPE_CONTROL OR ucast USB_EP0)) s2;
          s4 = usb_management_endpoints_disable w (usb_ep0_reset_transfer_state s3);
          s5 = (on_diag (\<lambda>g. g\<lparr>dg_address := 0, dg_configuration := USB_CONFIGURATION_NONE\<rparr>) s4)\<lparr>ud_daddr := USB_DADDR_EF\<rparr>
      in on_diag (\<lambda>g. g\<lparr>dg_bus_reset_count := dg_bus_reset_count g + 1\<rparr>)
           (usb_ep0_arm_rx w (on_epr USB_EP0 (usb_ep_set_tx_status w USB_EP_STAT_TX_NAK) s5)))"

text \<open>
  The handler reads the interrupt status several times, and the peripheral works on meanwhile.
  What it reads is an argument: the first and the last status, and for every round of the loop
  what the peripheral did before it and the status of the round. The loop ends with the rounds.
\<close>

record usb_interrupt =
  ui_status :: u16
  ui_rounds :: "((usb_device \<Rightarrow> usb_device) \<times> u16) list"
  ui_after :: u16

definition irq_round :: "epr_write \<Rightarrow> u16 \<Rightarrow> usb_device \<Rightarrow> usb_device" where
  "irq_round w current s =
     (let endpoint = ucast (current AND USB_ISTR_EP_ID_MASK) :: u8
      in if endpoint = USB_EP0 then usb_ep0_handle_ctr w s
         else if dg_management_configured (ud_diag s) \<noteq> 0 \<and> endpoint = USB_MANAGEMENT_EP then usb_management_handle_ctr w s
         else on_diag (\<lambda>g. g\<lparr>dg_error_count := dg_error_count g + 1\<rparr>) (on_epr endpoint (\<lambda>r. w r 0) s))"

definition USB_LP_CAN1_RX0_IRQHandler :: "epr_write \<Rightarrow> usb_interrupt \<Rightarrow> usb_device \<Rightarrow> usb_device" where
  "USB_LP_CAN1_RX0_IRQHandler w i s =
     (let s1 = (if ui_status i AND USB_ISTR_RESET \<noteq> 0 then usb_bus_reset w (usb_istr_clear USB_ISTR_RESET s) else s);
          s2 = fold (\<lambda>(peripheral, current) s. irq_round w current (peripheral s)) (ui_rounds i) s1;
          s3 = (if ui_after i AND USB_ISTR_PMAOVR \<noteq> 0
                then on_diag (\<lambda>g. g\<lparr>dg_pma_overrun_count := dg_pma_overrun_count g + 1\<rparr>) (usb_istr_clear USB_ISTR_PMAOVR s2) else s2)
      in if ui_after i AND USB_ISTR_ERR \<noteq> 0
         then on_diag (\<lambda>g. g\<lparr>dg_error_count := dg_error_count g + 1\<rparr>) (usb_istr_clear USB_ISTR_ERR s3) else s3)"

section \<open>The calls of the layers above\<close>

definition usb_management_set_rx_notify :: "bool \<Rightarrow> usb_device \<Rightarrow> usb_device" where
  "usb_management_set_rx_notify notify s = s\<lparr>ud_rx_notify := notify\<rparr>"

definition usb_management_is_configured :: "usb_device \<Rightarrow> bool" where
  "usb_management_is_configured s \<longleftrightarrow> dg_configuration (ud_diag s) = USB_CONFIGURATION_ONE \<and> dg_management_configured (ud_diag s) \<noteq> 0"

definition usb_management_try_getc :: "usb_device \<Rightarrow> u8 option \<times> usb_device" where
  "usb_management_try_getc s =
     (let tail = ud_rx_tail s in
      if tail = ud_rx_head s then (None, s)
      else (Some (ud_rx_ring s ! unat (tail AND USB_MANAGEMENT_RX_RING_MASK)), s\<lparr>ud_rx_tail := tail + 1\<rparr>))"

definition usb_management_write_span_atomic :: "epr_write \<Rightarrow> bytes option \<Rightarrow> u32 \<Rightarrow> usb_device \<Rightarrow> bool \<times> usb_device" where
  "usb_management_write_span_atomic w data len s =
     (let head = ud_tx_head s; depth = head - ud_tx_tail s;
          drop_span = (False, on_diag (\<lambda>g. g\<lparr>dg_management_tx_drop_count := dg_management_tx_drop_count g + len\<rparr>) s)
      in if len = 0 then (True, s)
         else case data of None \<Rightarrow> drop_span | Some d \<Rightarrow>
           if \<not> usb_management_is_configured s \<or> len > USB_MANAGEMENT_TX_RING_CAPACITY \<or> depth > USB_MANAGEMENT_TX_RING_CAPACITY
              \<or> len > USB_MANAGEMENT_TX_RING_CAPACITY - depth then drop_span
           else let ring = fold (\<lambda>index ring. ring[unat ((head + of_nat index) AND USB_MANAGEMENT_TX_RING_MASK) := d ! index])
                             [0..<unat len] (ud_tx_ring s);
                    s1 = s\<lparr>ud_tx_ring := ring, ud_tx_head := head + len\<rparr>; next_depth = depth + len;
                    s2 = (if next_depth > dg_management_tx_high_water (ud_diag s1)
                          then on_diag (\<lambda>g. g\<lparr>dg_management_tx_high_water := next_depth\<rparr>) s1 else s1)
                in (True, usb_management_tx_kick w s2))"

section \<open>Set-up\<close>

text \<open>The registers outside the peripheral, with a record of the writes and of the waiting loops.\<close>

datatype reg_event = Reg_Write u32 u32 | Reg_Write16 u32 u16 | Reg_Write8 u32 u8 | Spin u32

type_synonym reg_state = "(u32 \<Rightarrow> u32) \<times> reg_event list"

definition reg_modify :: "u32 \<Rightarrow> (u32 \<Rightarrow> u32) \<Rightarrow> reg_state \<Rightarrow> reg_state" where
  "reg_modify a f r = ((fst r)(a := f (fst r a)), snd r @ [Reg_Write a (f (fst r a))])"

definition usb_force_host_disconnect :: "u32 \<Rightarrow> reg_state \<Rightarrow> reg_state" where
  "usb_force_host_disconnect core_clock_hz r =
     (let r1 = reg_modify 0x40021018 (\<lambda>v. v OR 4) (reg_modify 0x4002101C (\<lambda>v. v AND NOT 0x00800000) r);
          saved_pa12_config = fst r1 0x40010804 AND 0x000F0000;
          r2 = reg_modify 0x40010804 (\<lambda>v. (v AND NOT 0x000F0000) OR 0x00060000) (fst r1, snd r1 @ [Reg_Write 0x40010814 0x1000]);
          r3 = (fst r2, snd r2 @ [Spin (core_clock_hz div 50)])
      in reg_modify 0x40010804 (\<lambda>v. (v AND NOT 0x000F0000) OR saved_pa12_config) r3)"

definition usb_transceiver_startup_delay :: "u32 \<Rightarrow> reg_state \<Rightarrow> reg_state" where
  "usb_transceiver_startup_delay core_clock_hz r = (fst r, snd r @ [Spin ((core_clock_hz div 1000000) * 4)])"

definition usb_diagnostics_zero :: usb_device_diagnostics where
  "usb_diagnostics_zero = \<lparr>dg_initialized = 0, dg_bus_reset_count = 0, dg_setup_count = 0, dg_transfer_count = 0, dg_stall_count = 0,
     dg_error_count = 0, dg_pma_overrun_count = 0, dg_address = 0, dg_configuration = USB_CONFIGURATION_NONE, dg_last_bm_request_type = 0,
     dg_last_b_request = 0, dg_management_configured = 0, dg_management_rx_packet_count = 0, dg_management_rx_byte_count = 0,
     dg_management_rx_drop_count = 0, dg_management_rx_high_water = 0, dg_management_tx_packet_count = 0, dg_management_tx_byte_count = 0,
     dg_management_tx_drop_count = 0, dg_management_tx_high_water = 0, dg_management_ms_os_20_request_count = 0\<rparr>"

definition usb_device_init :: "u32 \<Rightarrow> reg_state \<Rightarrow> usb_device \<Rightarrow> bool \<times> reg_state \<times> usb_device" where
  "usb_device_init core_clock_hz r s =
     (if core_clock_hz \<noteq> 72000000 \<or> fst r 0x40021004 AND 0xC \<noteq> 0x8 \<or> fst r 0x40021004 AND 0x00400000 \<noteq> 0 then (False, r, s)
      else let s1 = usb_ep0_reset_transfer_state (usb_management_reset_rings (s\<lparr>ud_diag := usb_diagnostics_zero, ud_rx_notify := False\<rparr>));
               r1 = usb_force_host_disconnect core_clock_hz r;
               r2 = reg_modify 0x40021010 (\<lambda>v. v AND NOT 0x00800000) (reg_modify 0x40021010 (\<lambda>v. v OR 0x00800000)
                     (reg_modify 0x4002101C (\<lambda>v. v OR 0x00800000) r1));
               r3 = usb_transceiver_startup_delay core_clock_hz
                     (fst r2, snd r2 @ [Reg_Write16 0x40005C40 (USB_CNTR_FRES OR USB_CNTR_PDWN), Reg_Write16 0x40005C40 USB_CNTR_FRES]);
               r4 = (fst r3, snd r3 @ [Reg_Write16 0x40005C40 0, Reg_Write16 0x40005C44 0, Reg_Write16 0x40005C50 USB_BTABLE_LOCAL,
                     Reg_Write16 0x40005C4C 0, Reg_Write 0xE000E280 0x00100000, Reg_Write8 0xE000E414 0x80,
                     Reg_Write16 0x40005C40 0xE400, Reg_Write 0xE000E100 0x00100000])
           in (True, r4, on_diag (\<lambda>g. g\<lparr>dg_initialized := 1\<rparr>) (s1\<lparr>ud_istr_written := 0, ud_btable := USB_BTABLE_LOCAL, ud_daddr := 0\<rparr>)))"

text \<open>The lengths the descriptors announce are theirs.\<close>

lemma descriptor_lengths:
  "length usb_device_descriptor = 18" "length usb_configuration_descriptor = 32" "length usb_bos_descriptor = 33"
  "length usb_ms_os_20_descriptor_set = 178" "length usb_string_language = 4" "length usb_string_product = 30"
  by code_simp+

end
