(* ===== verification/Usb_Rings.thy ===== *)
theory Usb_Rings
  imports Usb_Requests
begin

unbundle bit_operations_syntax

text \<open>
  The two rings of the management endpoint as queues, and the packet memory as buffers: what
  the copying loops of \<open>src/src/drivers/usb_device.c\<close> put and take, across the wrap of the
  ring and of its counters.
\<close>

section \<open>A ring as a queue\<close>

definition ring_span :: "bytes \<Rightarrow> nat \<Rightarrow> nat \<Rightarrow> bytes" where
  "ring_span ring t n = map (\<lambda>i. ring ! ((t + i) mod length ring)) [0..<n]"

lemma ring_span_length [simp]: "length (ring_span ring t n) = n"
  by (simp add: ring_span_def)

lemma ring_span_0 [simp]: "ring_span ring t 0 = []"
  by (simp add: ring_span_def)

lemma ring_span_Suc: "ring_span ring t (Suc n) = ring_span ring t n @ [ring ! ((t + n) mod length ring)]"
  by (simp add: ring_span_def)

lemma ring_span_mod: "ring_span ring (t mod length ring) n = ring_span ring t n"
  by (simp add: ring_span_def mod_simps)

lemma ring_span_take: "k \<le> n \<Longrightarrow> take k (ring_span ring t n) = ring_span ring t k"
  by (simp add: ring_span_def take_map)

lemma ring_span_drop: "k \<le> n \<Longrightarrow> drop k (ring_span ring t n) = ring_span ring (t + k) (n - k)"
  by (auto simp: ring_span_def less_diff_conv ac_simps intro!: nth_equalityI)

lemma slots_apart:
  assumes "i < n" "n < m"
  shows "(t + i) mod m \<noteq> (t + n) mod (m :: nat)"
proof
  assume e: "(t + i) mod m = (t + n) mod m"
  have "m dvd (t + n) - (t + i)" using mod_eq_dvd_iff_nat[of "t + i" "t + n" m] e assms by simp
  then have "m \<le> n - i" using assms by (intro dvd_imp_le) simp_all
  then show False using assms by simp
qed

lemma ring_push:
  assumes "n < length ring"
  shows "ring_span (ring[(t + n) mod length ring := b]) t (Suc n) = ring_span ring t n @ [b]"
proof -
  have "0 < length ring" using assms by linarith
  then have "(t + n) mod length ring < length ring" by simp
  moreover have "ring[(t + n) mod length ring := b] ! ((t + i) mod length ring) = ring ! ((t + i) mod length ring)" if "i < n" for i
    using slots_apart[OF that assms, of t] by simp
  ultimately show ?thesis by (simp add: ring_span_def)
qed

text \<open>The masks of the code take the remainder.\<close>

lemma ring_index:
  "unat ((t + of_nat i) AND 511 :: u32) = (unat t + i) mod 512" "unat ((t + of_nat i) AND 1023 :: u32) = (unat t + i) mod 1024"
proof -
  have m: "(511 :: u32) = mask 9" "(1023 :: u32) = mask 10" by (simp_all add: mask_eq_decr_exp)
  have u: "unat (t + of_nat i) mod 2 ^ k = (unat t + i) mod 2 ^ k" if "k \<le> 32" for k
  proof -
    have d: "(2 :: nat) ^ k dvd 2 ^ 32" using that by (rule le_imp_power_dvd)
    have "unat (t + of_nat i) = (unat t + i) mod 2 ^ 32" by (simp add: unat_word_ariths unsigned_of_nat take_bit_eq_mod mod_simps)
    then show ?thesis using d by (simp add: mod_mod_cancel)
  qed
  show "unat ((t + of_nat i) AND 511) = (unat t + i) mod 512" "unat ((t + of_nat i) AND 1023) = (unat t + i) mod 1024"
    unfolding m using u[of 9] u[of 10] by (simp_all add: take_bit_eq_mask[symmetric] unsigned_take_bit_eq take_bit_eq_mod unat_mod)
qed

text \<open>The loop that stores a span.\<close>

lemma ring_push_all:
  assumes "n + length ds \<le> length ring" "length ring = 1024" "k \<le> length ds" "ds = take (length ds) d" "(unat h) mod 1024 = (t + n) mod 1024"
  shows "ring_span (fold (\<lambda>index ring. ring[unat ((h + of_nat index :: u32) AND 1023) := d ! index]) [0..<k] ring) t n = ring_span ring t n
      \<and> length (fold (\<lambda>index ring. ring[unat ((h + of_nat index :: u32) AND 1023) := d ! index]) [0..<k] ring) = 1024
      \<and> ring_span (fold (\<lambda>index ring. ring[unat ((h + of_nat index :: u32) AND 1023) := d ! index]) [0..<k] ring) t (n + k) = ring_span ring t n @ take k ds"
  using assms(3)
proof (induction k)
  case 0
  then show ?case using assms by simp
next
  case (Suc k)
  define r where "r = fold (\<lambda>index ring. ring[unat ((h + of_nat index :: u32) AND 1023) := d ! index]) [0..<k] ring"
  have i: "ring_span r t n = ring_span ring t n" "length r = 1024" "ring_span r t (n + k) = ring_span ring t n @ take k ds"
    using Suc by (simp_all add: r_def)
  have slot: "unat ((h + of_nat k) AND 1023) = (t + (n + k)) mod length r"
    using assms(5) i(2) ring_index(2)[of h k] by (metis add.assoc mod_add_left_eq)
  have room: "n + k < length r" using Suc.prems assms i(2) by simp
  have dk: "d ! k = ds ! k" using assms(4) Suc.prems by (metis Suc_le_lessD nth_take)
  define r' where "r' = r[(t + (n + k)) mod length r := ds ! k]"
  have f: "fold (\<lambda>index ring. ring[unat ((h + of_nat index :: u32) AND 1023) := d ! index]) [0..<Suc k] ring = r'"
    by (simp add: r_def[symmetric] slot dk r'_def)
  have p: "ring_span r' t (Suc (n + k)) = ring_span r t (n + k) @ [ds ! k]" unfolding r'_def by (rule ring_push[OF room])
  have "take (n + k) (ring_span r' t (Suc (n + k))) = ring_span r' t (n + k)" by (rule ring_span_take) simp
  then have q: "ring_span r' t (n + k) = ring_span r t (n + k)" using p by simp
  have "ring_span r' t n = ring_span r t n"
    using arg_cong[OF q, of "take n"] by (simp add: ring_span_take)
  then show ?case unfolding f using i p Suc.prems by (simp add: r'_def take_Suc_conv_app_nth)
qed

section \<open>A buffer of the packet memory\<close>

lemma pma_write_other: "(\<And>k. 2 * k < length bs \<Longrightarrow> a \<noteq> offset + of_nat (2 * k)) \<Longrightarrow> usb_pma_write pma offset bs a = pma a"
proof (induction pma offset bs rule: usb_pma_write.induct)
  case (2 pma offset b)
  from "2.prems"[of 0] show ?case by simp
next
  case (3 pma offset b c bs)
  have "a \<noteq> offset" using "3.prems"[of 0] by simp
  moreover have "a \<noteq> (offset + 2) + of_nat (2 * k)" if "2 * k < length bs" for k
    using "3.prems"[of "Suc k"] that by (simp add: algebra_simps)
  ultimately have "usb_pma_write (pma(offset := ucast b OR push_bit 8 (ucast c))) (offset + 2) bs a = (pma(offset := ucast b OR push_bit 8 (ucast c))) a"
    by (intro "3.IH")
  then show ?case using \<open>a \<noteq> offset\<close> by simp
qed simp

lemma word_pair: "ucast ((ucast b OR push_bit 8 (ucast c) :: u16) AND 0xFF) = (b :: u8)" "ucast (drop_bit 8 (ucast b OR push_bit 8 (ucast c) :: u16)) = (c :: u8)"
  "ucast ((ucast b :: u16) AND 0xFF) = b"
proof -
  have m: "(0xFF :: u16) = mask 8" by (simp add: mask_eq_decr_exp)
  show "ucast ((ucast b OR push_bit 8 (ucast c) :: u16) AND 0xFF) = b" "ucast (drop_bit 8 (ucast b OR push_bit 8 (ucast c) :: u16)) = c"
    "ucast ((ucast b :: u16) AND 0xFF) = b"
    unfolding m by (rule bit_word_eqI; auto simp: bit_simps)+
qed

lemma pma_read_cong: "(\<And>k. 2 * k < n \<Longrightarrow> pma' (offset + of_nat (2 * k)) = pma (offset + of_nat (2 * k))) \<Longrightarrow> usb_pma_read pma' offset n = usb_pma_read pma offset n"
proof (induction pma offset n rule: usb_pma_read.induct)
  case (2 pma offset)
  from "2.prems"[of 0] show ?case by simp
next
  case (3 pma offset n)
  have "pma' offset = pma offset" using "3.prems"[of 0] by simp
  moreover have "pma' ((offset + 2) + of_nat (2 * k)) = pma ((offset + 2) + of_nat (2 * k))" if "2 * k < n" for k
    using "3.prems"[of "Suc k"] that by (simp add: algebra_simps)
  ultimately show ?case using "3.IH" by simp
qed simp

lemma pma_read_write:
  "length bs \<le> 64 \<Longrightarrow> usb_pma_read (usb_pma_write pma offset bs) offset (length bs) = bs"
proof (induction pma offset bs rule: usb_pma_write.induct)
  case (2 pma offset b)
  then show ?case by (simp add: word_pair)
next
  case (3 pma offset b c bs)
  let ?p = "pma(offset := ucast b OR push_bit 8 (ucast c))"
  have ne: "offset \<noteq> (offset + 2) + of_nat (2 * k)" if "2 * k < length bs" for k
  proof
    assume e: "offset = (offset + 2) + of_nat (2 * k)"
    have "(offset + 2) + of_nat (2 * k) = offset + (of_nat (2 + 2 * k) :: u16)" by simp
    then have z: "(of_nat (2 + 2 * k) :: u16) = 0" using e by (metis add_cancel_right_right)
    have "unat (of_nat (2 + 2 * k) :: u16) = 2 + 2 * k" using that "3.prems" by (simp only: unsigned_of_nat take_bit_eq_mod) simp
    then show False using z by simp
  qed
  have "usb_pma_write ?p (offset + 2) bs offset = ?p offset" by (rule pma_write_other) (rule ne)
  moreover have "usb_pma_read (usb_pma_write ?p (offset + 2) bs) (offset + 2) (length bs) = bs" using "3.prems" by (intro "3.IH") simp
  ultimately show ?case by (simp only: usb_pma_write.simps usb_pma_read.simps list.size add_Suc_right add_0_right fun_upd_same word_pair)
qed simp

lemma pma_read_length [simp]: "length (usb_pma_read pma offset n) = n"
  by (induction pma offset n rule: usb_pma_read.induct) simp_all

end
