(* ===== verification/Usb_Stream.thy ===== *)
theory Usb_Stream
  imports Usb_Rings "HOL-Library.Sublist"
begin

unbundle bit_operations_syntax

text \<open>
  The management endpoint as two byte streams. A run of \<open>src/src/drivers/usb_device.c\<close> is a
  sequence of steps: what the peripheral does for the host, rounds of the interrupt handler, bus
  resets, and the calls of the layers above. What the host sent and took and what the layers
  above wrote and read is noted beside it, since the last step that set the endpoint up anew.
\<close>

section \<open>Runs\<close>

record traffic =
  tr_offered :: bytes
  tr_read :: bytes
  tr_written :: bytes
  tr_taken :: bytes
  tr_lost :: bool

definition no_traffic :: traffic where
  "no_traffic = \<lparr>tr_offered = [], tr_read = [], tr_written = [], tr_taken = [], tr_lost = False\<rparr>"

definition ep4_transmit :: "u16 \<Rightarrow> bool" where
  "ep4_transmit a \<longleftrightarrow> a = 34 \<or> 0x1C0 \<le> a \<and> a < 0x200"

definition ep4_memory :: "u16 \<Rightarrow> bool" where
  "ep4_memory a \<longleftrightarrow> a = 38 \<or> 0x180 \<le> a \<and> a < 0x1C0 \<or> ep4_transmit a"

text \<open>
  The peripheral: a packet from the host is in the buffer of an endpoint that was ready for it,
  which then is not; a packet for the host was taken from one that was ready; anything may
  happen on the other endpoints.
\<close>

definition out_packet :: "bytes \<Rightarrow> usb_device \<Rightarrow> usb_device \<Rightarrow> bool" where
  "out_packet bs s s' \<longleftrightarrow> ud_epr s 4 AND USB_EP_STAT_RX_MASK = USB_EP_STAT_RX_VALID \<and> length bs \<le> 64
     \<and> (\<exists>epr pma. s' = s\<lparr>ud_epr := epr, ud_pma := pma\<rparr>
       \<and> usb_pma_read pma USB_EP4_RX_LOCAL (length bs) = bs \<and> pma 38 AND USB_COUNT_MASK = of_nat (length bs)
       \<and> (\<forall>a. ep4_transmit a \<longrightarrow> pma a = ud_pma s a)
       \<and> epr 4 AND USB_EP_CTR_RX = USB_EP_CTR_RX \<and> epr 4 AND USB_EP_STAT_RX_MASK = USB_EP_STAT_RX_NAK
       \<and> epr 4 AND (USB_EP_CTR_TX OR USB_EP_STAT_TX_MASK) = ud_epr s 4 AND (USB_EP_CTR_TX OR USB_EP_STAT_TX_MASK))"

definition in_packet :: "usb_device \<Rightarrow> usb_device \<Rightarrow> bool" where
  "in_packet s s' \<longleftrightarrow> ud_epr s 4 AND USB_EP_STAT_TX_MASK = USB_EP_STAT_TX_VALID
     \<and> (\<exists>epr. s' = s\<lparr>ud_epr := epr\<rparr> \<and> epr 4 AND USB_EP_CTR_TX = USB_EP_CTR_TX \<and> epr 4 AND USB_EP_STAT_TX_MASK = USB_EP_STAT_TX_NAK
       \<and> epr 4 AND (USB_EP_CTR_RX OR USB_EP_STAT_RX_MASK) = ud_epr s 4 AND (USB_EP_CTR_RX OR USB_EP_STAT_RX_MASK))"

definition packet_for_host :: "usb_device \<Rightarrow> bytes" where
  "packet_for_host s = usb_pma_read (ud_pma s) USB_EP4_TX_LOCAL (unat (ud_pma s 34 AND USB_COUNT_MASK))"

definition elsewhere :: "usb_device \<Rightarrow> usb_device \<Rightarrow> bool" where
  "elsewhere s s' \<longleftrightarrow> (\<exists>epr pma. s' = s\<lparr>ud_epr := epr, ud_pma := pma\<rparr> \<and> epr 4 = ud_epr s 4 \<and> (\<forall>a. ep4_memory a \<longrightarrow> pma a = ud_pma s a))"

text \<open>A round that leaves the endpoint as it is.\<close>

definition same_management :: "usb_device \<Rightarrow> usb_device \<Rightarrow> bool" where
  "same_management s s' \<longleftrightarrow> ud_epr s' 4 = ud_epr s 4 \<and> ud_rx_ring s' = ud_rx_ring s \<and> ud_rx_head s' = ud_rx_head s \<and> ud_rx_tail s' = ud_rx_tail s
     \<and> ud_tx_ring s' = ud_tx_ring s \<and> ud_tx_head s' = ud_tx_head s \<and> ud_tx_tail s' = ud_tx_tail s \<and> ud_tx_inflight s' = ud_tx_inflight s
     \<and> ud_tx_active s' = ud_tx_active s \<and> dg_configuration (ud_diag s') = dg_configuration (ud_diag s)
     \<and> dg_management_configured (ud_diag s') = dg_management_configured (ud_diag s)
     \<and> dg_management_rx_drop_count (ud_diag s') = dg_management_rx_drop_count (ud_diag s)
     \<and> (\<forall>a. ep4_memory a \<longrightarrow> ud_pma s' a = ud_pma s a)"

definition management_round :: "u16 \<Rightarrow> usb_device \<Rightarrow> bool" where
  "management_round current s \<longleftrightarrow> current AND USB_ISTR_EP_ID_MASK = 4 \<and> dg_management_configured (ud_diag s) \<noteq> 0"

text \<open>
  Runs. Each call of the layers above and each round of the handler is one step, so the
  peripheral takes and offers packets between them only, never between the read and the write of
  an endpoint register.
\<close>

inductive usb_run :: "epr_write \<Rightarrow> usb_device \<Rightarrow> traffic \<Rightarrow> bool" for w where
  usb_started: "length (ud_rx_ring s) = 512 \<Longrightarrow> length (ud_tx_ring s) = 1024 \<Longrightarrow> usb_run w (usb_bus_reset w s) no_traffic"
| usb_reset: "usb_run w s t \<Longrightarrow> usb_run w (usb_bus_reset w s) no_traffic"
| usb_offered: "usb_run w s t \<Longrightarrow> out_packet bs s s' \<Longrightarrow> usb_run w s' (t\<lparr>tr_offered := tr_offered t @ bs\<rparr>)"
| usb_taken: "usb_run w s t \<Longrightarrow> in_packet s s' \<Longrightarrow> usb_run w s' (t\<lparr>tr_taken := tr_taken t @ packet_for_host s\<rparr>)"
| usb_elsewhere: "usb_run w s t \<Longrightarrow> elsewhere s s' \<Longrightarrow> usb_run w s' t"
| usb_served: "usb_run w s t \<Longrightarrow> management_round current s \<Longrightarrow> s' = irq_round w current s \<Longrightarrow>
    usb_run w s' (t\<lparr>tr_lost := (tr_lost t \<or> dg_management_rx_drop_count (ud_diag s') \<noteq> dg_management_rx_drop_count (ud_diag s))\<rparr>)"
| usb_control: "usb_run w s t \<Longrightarrow> \<not> management_round current s \<Longrightarrow> s' = irq_round w current s \<Longrightarrow>
    usb_run w s' (if same_management s s' then t else no_traffic)"
| usb_read: "usb_run w s t \<Longrightarrow> usb_management_try_getc s = (Some b, s') \<Longrightarrow> usb_run w s' (t\<lparr>tr_read := tr_read t @ [b]\<rparr>)"
| usb_written: "usb_run w s t \<Longrightarrow> usb_management_write_span_atomic w (Some d) len s = (ok, s') \<Longrightarrow> unat len \<le> length d \<Longrightarrow>
    usb_run w s' (t\<lparr>tr_written := tr_written t @ (if ok then take (unat len) d else [])\<rparr>)"
| usb_notify: "usb_run w s t \<Longrightarrow> usb_run w (usb_management_set_rx_notify notify s) t"
| usb_status: "usb_run w s t \<Longrightarrow> usb_run w (usb_istr_clear flags s) t"

section \<open>The invariant\<close>

definition rx_queue :: "usb_device \<Rightarrow> bytes" where
  "rx_queue s = ring_span (ud_rx_ring s) (unat (ud_rx_tail s)) (unat (ud_rx_head s - ud_rx_tail s))"

definition tx_queue :: "usb_device \<Rightarrow> bytes" where
  "tx_queue s = ring_span (ud_tx_ring s) (unat (ud_tx_tail s)) (unat (ud_tx_head s - ud_tx_tail s))"

definition pending_packet :: "usb_device \<Rightarrow> bytes" where
  "pending_packet s = (if bit (ud_epr s 4) 15 then usb_pma_read (ud_pma s) 0x180 (unat (ud_pma s 38 AND 0x3FF)) else [])"

definition fresh_management :: "usb_device \<Rightarrow> bool" where
  "fresh_management s \<longleftrightarrow> ud_rx_head s = 0 \<and> ud_rx_tail s = 0 \<and> ud_tx_head s = 0 \<and> ud_tx_tail s = 0 \<and> \<not> ud_tx_active s
     \<and> \<not> bit (ud_epr s 4) 15 \<and> \<not> bit (ud_epr s 4) 7 \<and> \<not> (bit (ud_epr s 4) 5 \<and> bit (ud_epr s 4) 4)
     \<and> (dg_management_configured (ud_diag s) = 0 \<longrightarrow> \<not> (bit (ud_epr s 4) 13 \<and> bit (ud_epr s 4) 12))
     \<and> (dg_management_configured (ud_diag s) \<noteq> 0 \<longrightarrow> dg_configuration (ud_diag s) = 1)"

definition receiving :: "usb_device \<Rightarrow> traffic \<Rightarrow> bool" where
  "receiving s t \<longleftrightarrow> length (rx_queue s) \<le> 512
     \<and> (bit (ud_epr s 4) 15 \<longrightarrow> \<not> (bit (ud_epr s 4) 13 \<and> bit (ud_epr s 4) 12)) \<and> length (pending_packet s) \<le> 64
     \<and> subseq (tr_read t @ rx_queue s @ pending_packet s) (tr_offered t)
     \<and> (\<not> tr_lost t \<longrightarrow> tr_offered t = tr_read t @ rx_queue s @ pending_packet s)"

definition sending :: "usb_device \<Rightarrow> traffic \<Rightarrow> bool" where
  "sending s t \<longleftrightarrow> length (tx_queue s) \<le> 1024
     \<and> tr_written t = tr_taken t @ (if bit (ud_epr s 4) 7 then drop (unat (ud_tx_inflight s)) (tx_queue s) else tx_queue s)
     \<and> (if ud_tx_active s
        then dg_management_configured (ud_diag s) \<noteq> 0 \<and> 0 < unat (ud_tx_inflight s) \<and> unat (ud_tx_inflight s) \<le> 64
           \<and> unat (ud_tx_inflight s) \<le> length (tx_queue s) \<and> ud_pma s 34 = ud_tx_inflight s
           \<and> usb_pma_read (ud_pma s) 0x1C0 (unat (ud_tx_inflight s)) = take (unat (ud_tx_inflight s)) (tx_queue s)
           \<and> (bit (ud_epr s 4) 7 \<longleftrightarrow> \<not> (bit (ud_epr s 4) 5 \<and> bit (ud_epr s 4) 4))
        else \<not> bit (ud_epr s 4) 7 \<and> \<not> (bit (ud_epr s 4) 5 \<and> bit (ud_epr s 4) 4) \<and> tx_queue s = [])"

definition stream_inv :: "usb_device \<Rightarrow> traffic \<Rightarrow> bool" where
  "stream_inv s t \<longleftrightarrow> length (ud_rx_ring s) = 512 \<and> length (ud_tx_ring s) = 1024
     \<and> (dg_management_configured (ud_diag s) \<noteq> 0 \<longrightarrow> dg_configuration (ud_diag s) = 1)
     \<and> (dg_management_configured (ud_diag s) = 0 \<longrightarrow> fresh_management s) \<and> receiving s t \<and> sending s t"

lemma bit_fields:
  "r AND 0x8000 = 0x8000 \<longleftrightarrow> bit (r :: u16) 15" "r AND 0x8000 \<noteq> 0 \<longleftrightarrow> bit r 15" "r AND 0x80 = 0x80 \<longleftrightarrow> bit r 7" "r AND 0x80 \<noteq> 0 \<longleftrightarrow> bit r 7"
  "r AND 0x3000 = 0x3000 \<longleftrightarrow> bit r 13 \<and> bit r 12" "r AND 0x30 = 0x30 \<longleftrightarrow> bit r 5 \<and> bit r 4"
  "r AND 0x3000 = 0x2000 \<longleftrightarrow> bit r 13 \<and> \<not> bit r 12" "r AND 0x30 = 0x20 \<longleftrightarrow> bit r 5 \<and> \<not> bit r 4"
proof -
  have e: "r AND m = v \<longleftrightarrow> (\<forall>k < 16. (bit r k \<and> bit m k) = bit v k)" for m v :: u16
    using u16_eqI[of "r AND m" v] by (auto simp: bit_and_iff)
  have f: "(\<forall>k < 16. P k) \<longleftrightarrow> P 0 \<and> P 1 \<and> P 2 \<and> P 3 \<and> P 4 \<and> P 5 \<and> P 6 \<and> P 7 \<and> P 8 \<and> P 9 \<and> P 10 \<and> P 11 \<and> P 12 \<and> P 13 \<and> P 14 \<and> P (15 :: nat)" for P
    unfolding below16 by blast
  show "r AND 0x8000 = 0x8000 \<longleftrightarrow> bit r 15" "r AND 0x8000 \<noteq> 0 \<longleftrightarrow> bit r 15" "r AND 0x80 = 0x80 \<longleftrightarrow> bit r 7" "r AND 0x80 \<noteq> 0 \<longleftrightarrow> bit r 7"
    "r AND 0x3000 = 0x3000 \<longleftrightarrow> bit r 13 \<and> bit r 12" "r AND 0x30 = 0x30 \<longleftrightarrow> bit r 5 \<and> bit r 4"
    "r AND 0x3000 = 0x2000 \<longleftrightarrow> bit r 13 \<and> \<not> bit r 12" "r AND 0x30 = 0x20 \<longleftrightarrow> bit r 5 \<and> \<not> bit r 4"
    unfolding e f by auto
qed

lemma field_eq:
  "a AND (0x80 OR 0x30) = b AND (0x80 OR 0x30) \<Longrightarrow> bit (a :: u16) 7 = bit b 7 \<and> bit a 5 = bit b 5 \<and> bit a 4 = bit b 4"
  "a AND (0x8000 OR 0x3000) = b AND (0x8000 OR 0x3000) \<Longrightarrow> bit a 15 = bit b 15 \<and> bit a 13 = bit b 13 \<and> bit a 12 = bit b 12"
proof -
  assume e: "a AND (0x80 OR 0x30) = b AND (0x80 OR 0x30)"
  have "bit a k = bit b k" if "bit (0x80 OR 0x30 :: u16) k" for k
    using arg_cong[OF e, of "\<lambda>x. bit x k"] that by (simp add: bit_and_iff)
  from this[of 7] this[of 5] this[of 4] show "bit a 7 = bit b 7 \<and> bit a 5 = bit b 5 \<and> bit a 4 = bit b 4" by simp
next
  assume e: "a AND (0x8000 OR 0x3000) = b AND (0x8000 OR 0x3000)"
  have "bit a k = bit b k" if "bit (0x8000 OR 0x3000 :: u16) k" for k
    using arg_cong[OF e, of "\<lambda>x. bit x k"] that by (simp add: bit_and_iff)
  from this[of 15] this[of 13] this[of 12] show "bit a 15 = bit b 15 \<and> bit a 13 = bit b 13 \<and> bit a 12 = bit b 12" by simp
qed

section \<open>What keeps the invariant\<close>

lemma fresh_inv:
  assumes "fresh_management s" "length (ud_rx_ring s) = 512" "length (ud_tx_ring s) = 1024"
  shows "stream_inv s no_traffic"
  using assms by (simp add: stream_inv_def fresh_management_def receiving_def sending_def rx_queue_def tx_queue_def pending_packet_def no_traffic_def)

lemma same_refl: "same_management s s"
  by (simp add: same_management_def)

lemma same_trans: "same_management a b \<Longrightarrow> same_management b d \<Longrightarrow> same_management a d"
  by (simp add: same_management_def)

lemma word_window: "(a :: u16) = 0x180 + of_nat (2 * k) \<Longrightarrow> 2 * k < 64 \<Longrightarrow> 0x180 \<le> a \<and> a < 0x1C0"
  "(a :: u16) = 0x1C0 + of_nat (2 * k) \<Longrightarrow> 2 * k < 64 \<Longrightarrow> 0x1C0 \<le> a \<and> a < 0x200"
  "(a :: u16) = 0x40 + of_nat (2 * k) \<Longrightarrow> 2 * k < 64 \<Longrightarrow> 0x40 \<le> a \<and> a < 0x80"
proof -
  have u: "unat (of_nat m + of_nat (2 * k) :: u16) = m + 2 * k" if "2 * k < 64" "m < 1000" for m k :: nat
    using that u16_of_nat[of "m + 2 * k"] by simp
  show "a = 0x180 + of_nat (2 * k) \<Longrightarrow> 2 * k < 64 \<Longrightarrow> 0x180 \<le> a \<and> a < 0x1C0" using u[of k "0x180"] by (simp add: word_le_nat_alt word_less_nat_alt)
  show "a = 0x1C0 + of_nat (2 * k) \<Longrightarrow> 2 * k < 64 \<Longrightarrow> 0x1C0 \<le> a \<and> a < 0x200" using u[of k "0x1C0"] by (simp add: word_le_nat_alt word_less_nat_alt)
  show "a = 0x40 + of_nat (2 * k) \<Longrightarrow> 2 * k < 64 \<Longrightarrow> 0x40 \<le> a \<and> a < 0x80" using u[of k "0x40"] by (simp add: word_le_nat_alt word_less_nat_alt)
qed

lemma same_inv:
  assumes i: "stream_inv s t" and e: "same_management s s'"
  shows "stream_inv s' t"
proof -
  have f: "ud_epr s' 4 = ud_epr s 4" "ud_rx_ring s' = ud_rx_ring s" "ud_rx_head s' = ud_rx_head s" "ud_rx_tail s' = ud_rx_tail s"
    "ud_tx_ring s' = ud_tx_ring s" "ud_tx_head s' = ud_tx_head s" "ud_tx_tail s' = ud_tx_tail s" "ud_tx_inflight s' = ud_tx_inflight s"
    "ud_tx_active s' = ud_tx_active s" "dg_configuration (ud_diag s') = dg_configuration (ud_diag s)"
    "dg_management_configured (ud_diag s') = dg_management_configured (ud_diag s)" "\<And>a. ep4_memory a \<Longrightarrow> ud_pma s' a = ud_pma s a"
    using e by (simp_all add: same_management_def)
  have m: "ud_pma s' 38 = ud_pma s 38" "ud_pma s' 34 = ud_pma s 34" using f(12) by (simp_all add: ep4_memory_def ep4_transmit_def)
  have rx: "usb_pma_read (ud_pma s') 0x180 n = usb_pma_read (ud_pma s) 0x180 n" if "n \<le> 64" for n
  proof (rule pma_read_cong)
    fix k assume "2 * k < n"
    then show "ud_pma s' (0x180 + of_nat (2 * k)) = ud_pma s (0x180 + of_nat (2 * k))" using word_window(1)[OF refl, of k] that f(12) by (simp add: ep4_memory_def)
  qed
  have tx: "usb_pma_read (ud_pma s') 0x1C0 n = usb_pma_read (ud_pma s) 0x1C0 n" if "n \<le> 64" for n
  proof (rule pma_read_cong)
    fix k assume "2 * k < n"
    then show "ud_pma s' (0x1C0 + of_nat (2 * k)) = ud_pma s (0x1C0 + of_nat (2 * k))" using word_window(2)[OF refl, of k] that f(12) by (simp add: ep4_memory_def ep4_transmit_def)
  qed
  have q: "rx_queue s' = rx_queue s" "tx_queue s' = tx_queue s" using f by (simp_all add: rx_queue_def tx_queue_def)
  have p: "pending_packet s' = pending_packet s"
  proof (cases "bit (ud_epr s 4) 15")
    case True
    have "length (pending_packet s) \<le> 64" using i by (simp add: stream_inv_def receiving_def)
    then have "unat (ud_pma s 38 AND 0x3FF) \<le> 64" using True by (simp add: pending_packet_def)
    then show ?thesis using True rx f(1) m by (simp add: pending_packet_def)
  qed (simp add: pending_packet_def f(1))
  have fr: "fresh_management s \<Longrightarrow> fresh_management s'" using f by (simp add: fresh_management_def)
  show ?thesis
    using i fr tx unfolding stream_inv_def receiving_def sending_def q p f m by (auto split: if_splits)
qed

text \<open>What the peripheral does.\<close>

lemma offered_inv:
  assumes i: "stream_inv s t" and o: "out_packet bs s s'"
  shows "stream_inv s' (t\<lparr>tr_offered := tr_offered t @ bs\<rparr>)"
proof -
  obtain epr pma where s': "s' = s\<lparr>ud_epr := epr, ud_pma := pma\<rparr>" and r: "usb_pma_read pma 0x180 (length bs) = bs" "pma 38 AND 0x3FF = of_nat (length bs)"
    "\<forall>a. ep4_transmit a \<longrightarrow> pma a = ud_pma s a" "bit (epr 4) 15" "bit (epr 4) 13 \<and> \<not> bit (epr 4) 12"
    "epr 4 AND (0x80 OR 0x30) = ud_epr s 4 AND (0x80 OR 0x30)" and v: "bit (ud_epr s 4) 13" "bit (ud_epr s 4) 12" and l: "length bs \<le> 64"
    using o unfolding out_packet_def bit_fields by blast
  note t = field_eq(1)[OF r(6)]
  have mc: "dg_management_configured (ud_diag s) \<noteq> 0" using i v by (auto simp: stream_inv_def fresh_management_def)
  have c15: "\<not> bit (ud_epr s 4) 15" using i v by (auto simp: stream_inv_def receiving_def)
  have "unat (of_nat (length bs) :: u16) = length bs" using l by (intro u16_of_nat) simp
  then have p: "pending_packet s' = bs" "pending_packet s = []" using r c15 by (simp_all add: pending_packet_def s')
  have q: "rx_queue s' = rx_queue s" "tx_queue s' = tx_queue s" by (simp_all add: rx_queue_def tx_queue_def s')
  have tx: "usb_pma_read pma 0x1C0 n = usb_pma_read (ud_pma s) 0x1C0 n" if "n \<le> 64" for n
  proof (rule pma_read_cong)
    fix k assume "2 * k < n"
    then show "pma (0x1C0 + of_nat (2 * k)) = ud_pma s (0x1C0 + of_nat (2 * k))" using word_window(2)[OF refl, of k] that r(3) by (simp add: ep4_transmit_def)
  qed
  have "receiving s' (t\<lparr>tr_offered := tr_offered t @ bs\<rparr>)"
    using i p(2) r(5) l unfolding stream_inv_def receiving_def p(1) q by (auto simp: s' append_assoc[symmetric] simp del: append_assoc)
  moreover have "sending s' (t\<lparr>tr_offered := tr_offered t @ bs\<rparr>)"
    using i t r(3) tx unfolding stream_inv_def sending_def q by (auto simp: s' ep4_transmit_def)
  ultimately show ?thesis using i mc by (simp add: stream_inv_def s')
qed

lemma count_mask: "unat (x :: u16) \<le> 64 \<Longrightarrow> x AND 0x3FF = x"
proof -
  assume "unat x \<le> 64"
  then have "unat (take_bit 10 x) = unat x" by (simp add: unsigned_take_bit_eq take_bit_nat_eq_self)
  then have t: "take_bit 10 x = x" by (simp only: word_unat_eq_iff)
  have m: "(0x3FF :: u16) = mask 10" by (simp add: mask_eq_decr_exp)
  show "x AND 0x3FF = x" unfolding m using t by (simp add: take_bit_eq_mask)
qed

lemma taken_inv:
  assumes i: "stream_inv s t" and o: "in_packet s s'"
  shows "stream_inv s' (t\<lparr>tr_taken := tr_taken t @ packet_for_host s\<rparr>)"
proof -
  obtain epr where s': "s' = s\<lparr>ud_epr := epr\<rparr>" and r: "bit (epr 4) 7" "bit (epr 4) 5 \<and> \<not> bit (epr 4) 4"
    "epr 4 AND (0x8000 OR 0x3000) = ud_epr s 4 AND (0x8000 OR 0x3000)" and v: "bit (ud_epr s 4) 5" "bit (ud_epr s 4) 4"
    using o unfolding in_packet_def bit_fields by blast
  note x = field_eq(2)[OF r(3)]
  have q: "rx_queue s' = rx_queue s" "tx_queue s' = tx_queue s" by (simp_all add: rx_queue_def tx_queue_def s')
  have p: "pending_packet s' = pending_packet s" using x by (simp add: pending_packet_def s')
  have a: "ud_tx_active s" using i v by (auto simp: stream_inv_def sending_def split: if_splits)
  then have b: "dg_management_configured (ud_diag s) \<noteq> 0" "ud_pma s 34 = ud_tx_inflight s" "\<not> bit (ud_epr s 4) 7" "unat (ud_tx_inflight s) \<le> 64"
    "usb_pma_read (ud_pma s) 0x1C0 (unat (ud_tx_inflight s)) = take (unat (ud_tx_inflight s)) (tx_queue s)"
    using i v by (auto simp: stream_inv_def sending_def)
  have "ud_tx_inflight s AND 0x3FF = ud_tx_inflight s" by (rule count_mask[OF b(4)])
  then have h: "packet_for_host s = take (unat (ud_tx_inflight s)) (tx_queue s)" using b by (simp add: packet_for_host_def)
  have "receiving s' (t\<lparr>tr_taken := tr_taken t @ packet_for_host s\<rparr>)"
    using i x unfolding stream_inv_def receiving_def p q by (simp add: s')
  moreover have "sending s' (t\<lparr>tr_taken := tr_taken t @ packet_for_host s\<rparr>)"
    using i a b(3) r(1,2) unfolding stream_inv_def sending_def q h by (simp add: s')
  ultimately show ?thesis using i b(1) by (simp add: stream_inv_def s')
qed

section \<open>Reading and writing\<close>

lemma span_shift:
  "length ring = 512 \<Longrightarrow> ring_span ring (unat (t + of_nat k :: u32)) n = ring_span ring (unat t + k) n"
  "length ring = 1024 \<Longrightarrow> ring_span ring (unat (t + of_nat k :: u32)) n = ring_span ring (unat t + k) n"
proof -
  have u: "unat (t + of_nat k) mod 512 = (unat t + k) mod 512" "unat (t + of_nat k) mod 1024 = (unat t + k) mod 1024"
  proof -
    have d: "unat (t + of_nat k) = (unat t + k) mod 2 ^ 32" by (simp add: unat_word_ariths unsigned_of_nat take_bit_eq_mod mod_simps)
    show "unat (t + of_nat k) mod 512 = (unat t + k) mod 512" "unat (t + of_nat k) mod 1024 = (unat t + k) mod 1024"
      unfolding d by (simp_all add: mod_mod_cancel)
  qed
  show "length ring = 512 \<Longrightarrow> ring_span ring (unat (t + of_nat k)) n = ring_span ring (unat t + k) n"
    using ring_span_mod[of ring "unat (t + of_nat k)" n] ring_span_mod[of ring "unat t + k" n] u by simp
  show "length ring = 1024 \<Longrightarrow> ring_span ring (unat (t + of_nat k)) n = ring_span ring (unat t + k) n"
    using ring_span_mod[of ring "unat (t + of_nat k)" n] ring_span_mod[of ring "unat t + k" n] u by simp
qed

lemma unat_pred: "(a :: u32) \<noteq> b \<Longrightarrow> unat (a - (b + 1)) = unat (a - b) - 1 \<and> 0 < unat (a - b)"
proof -
  assume "a \<noteq> b"
  then have "a - b \<noteq> 0" by simp
  moreover have "a - (b + 1) = (a - b) - 1" by simp
  ultimately show ?thesis by (metis unat_minus_one unat_gt_0)
qed

lemma read_inv:
  assumes i: "stream_inv s t" and g: "usb_management_try_getc s = (Some b, s')"
  shows "stream_inv s' (t\<lparr>tr_read := tr_read t @ [b]\<rparr>)"
proof -
  have ne: "ud_rx_head s \<noteq> ud_rx_tail s" and b: "b = ud_rx_ring s ! unat (ud_rx_tail s AND 511)" and s': "s' = s\<lparr>ud_rx_tail := ud_rx_tail s + 1\<rparr>"
    using g by (auto simp: usb_management_try_getc_def Let_def split: if_splits)
  have l: "length (ud_rx_ring s) = 512" using i by (simp add: stream_inv_def)
  have mc: "dg_management_configured (ud_diag s) \<noteq> 0" using i ne by (auto simp: stream_inv_def fresh_management_def)
  define n where "n = unat (ud_rx_head s - (ud_rx_tail s + 1))"
  have n: "unat (ud_rx_head s - ud_rx_tail s) = Suc n" using unat_pred[OF ne] by (simp add: n_def)
  have q: "rx_queue s = b # rx_queue s'"
  proof -
    have h: "take 1 (rx_queue s) = [b]" using ring_index(1)[of "ud_rx_tail s" 0] l by (simp add: rx_queue_def n ring_span_take ring_span_Suc[of _ _ 0, simplified] b)
    have "drop 1 (rx_queue s) = ring_span (ud_rx_ring s) (unat (ud_rx_tail s) + 1) n" by (simp add: rx_queue_def n ring_span_drop)
    also have "\<dots> = rx_queue s'" using span_shift(1)[OF l, of "ud_rx_tail s" 1 n] by (simp add: rx_queue_def s' n_def)
    finally show ?thesis using h by (metis append_Cons append_Nil append_take_drop_id)
  qed
  have p: "pending_packet s' = pending_packet s" "tx_queue s' = tx_queue s" by (simp_all add: pending_packet_def tx_queue_def s')
  have "receiving s' (t\<lparr>tr_read := tr_read t @ [b]\<rparr>)" using i q unfolding stream_inv_def receiving_def p by (simp add: s')
  moreover have "sending s' (t\<lparr>tr_read := tr_read t @ [b]\<rparr>)" using i unfolding stream_inv_def sending_def p by (simp add: s')
  ultimately show ?thesis using i mc by (simp add: stream_inv_def s')
qed

section \<open>Transmitting\<close>

text \<open>Nothing in flight: the next packet, if any, is put up for the host.\<close>

definition between_packets :: "usb_device \<Rightarrow> bool" where
  "between_packets s \<longleftrightarrow> length (ud_tx_ring s) = 1024 \<and> length (tx_queue s) \<le> 1024 \<and> \<not> ud_tx_active s \<and> usb_management_is_configured s
     \<and> \<not> bit (ud_epr s 4) 7 \<and> \<not> (bit (ud_epr s 4) 5 \<and> bit (ud_epr s 4) 4)"

lemma kick_sends:
  assumes w: "epr_manual w" and i: "between_packets s" and t: "tr_written t = tr_taken t @ tx_queue s"
  defines "s' \<equiv> usb_management_tx_kick w s"
  shows "sending s' t" "ud_rx_ring s' = ud_rx_ring s \<and> ud_rx_head s' = ud_rx_head s \<and> ud_rx_tail s' = ud_rx_tail s \<and> length (ud_tx_ring s') = 1024
     \<and> ud_diag s' = ud_diag s \<and> bit (ud_epr s' 4) 15 = bit (ud_epr s 4) 15 \<and> bit (ud_epr s' 4) 13 = bit (ud_epr s 4) 13
     \<and> bit (ud_epr s' 4) 12 = bit (ud_epr s 4) 12 \<and> (\<forall>a. \<not> ep4_transmit a \<longrightarrow> ud_pma s' a = ud_pma s a)"
proof -
  have c: "dg_configuration (ud_diag s) = 1" "dg_management_configured (ud_diag s) \<noteq> 0" "\<not> ud_tx_active s" "length (ud_tx_ring s) = 1024"
    using i by (simp_all add: between_packets_def usb_management_is_configured_def)
  have both: "sending s' t \<and> ud_rx_ring s' = ud_rx_ring s \<and> ud_rx_head s' = ud_rx_head s \<and> ud_rx_tail s' = ud_rx_tail s \<and> length (ud_tx_ring s') = 1024
     \<and> ud_diag s' = ud_diag s \<and> bit (ud_epr s' 4) 15 = bit (ud_epr s 4) 15 \<and> bit (ud_epr s' 4) 13 = bit (ud_epr s 4) 13
     \<and> bit (ud_epr s' 4) 12 = bit (ud_epr s 4) 12 \<and> (\<forall>a. \<not> ep4_transmit a \<longrightarrow> ud_pma s' a = ud_pma s a)"
  proof (cases "ud_tx_head s - ud_tx_tail s = 0")
    case True
    then have "s' = s" using c by (simp add: s'_def usb_management_tx_kick_def)
    moreover have "tx_queue s = []" using True by (simp add: tx_queue_def)
    ultimately show ?thesis using i t c by (simp add: sending_def between_packets_def)
  next
    case False
    define n where "n = unat (ud_tx_head s - ud_tx_tail s)"
    define len where "len = (if ud_tx_head s - ud_tx_tail s > ucast (64 :: u16) then 64 else ucast (ud_tx_head s - ud_tx_tail s) :: u16)"
    define packet where "packet = map (\<lambda>index. ud_tx_ring s ! unat ((ud_tx_tail s + of_nat index) AND 1023)) [0..<unat len]"
    have n: "0 < n" "n \<le> 1024" "length (tx_queue s) = n" using False i by (simp_all add: n_def between_packets_def tx_queue_def unat_gt_0)
    have len: "unat len = min 64 n"
    proof (cases "ud_tx_head s - ud_tx_tail s > ucast (64 :: u16)")
      case True
      then have "64 < n" by (simp add: n_def word_less_nat_alt)
      then show ?thesis using True by (simp add: len_def)
    next
      case False
      then have "n \<le> 64" by (simp add: n_def word_less_nat_alt)
      moreover have "unat (ucast (ud_tx_head s - ud_tx_tail s) :: u16) = n" using \<open>n \<le> 64\<close>
        by (simp add: n_def[symmetric] unsigned_ucast_eq take_bit_nat_eq_self)
      ultimately show ?thesis using False by (simp add: len_def)
    qed
    have packet: "packet = take (unat len) (tx_queue s)"
      using len n by (simp add: packet_def tx_queue_def ring_span_take n_def[symmetric] ring_index(2)) (simp add: ring_span_def c(4))
    define s1 where "s1 = usb_pma_write16 (USB_BTABLE_EP_TX_COUNT 4) len (s\<lparr>ud_pma := usb_pma_write (ud_pma s) 0x1C0 packet\<rparr>)"
    have e: "s' = on_epr 4 (usb_ep_set_tx_status w 0x30) (s1\<lparr>ud_tx_inflight := len, ud_tx_active := True\<rparr>)"
      unfolding s'_def usb_management_tx_kick_def Let_def if_not_P[OF False] len_def[symmetric] packet_def[symmetric] s1_def[symmetric] using c by simp
    have b34: "USB_BTABLE_EP_TX_COUNT 4 = 34" by (simp add: USB_BTABLE_EP_TX_COUNT_def)
    have pl: "length packet = unat len" "length packet \<le> 64" using packet len n by simp_all
    have other: "usb_pma_write (ud_pma s) 0x1C0 packet a = ud_pma s a" if "\<not> (0x1C0 \<le> a \<and> a < 0x200)" for a
      by (rule pma_write_other) (use word_window(2) that pl(2) in \<open>metis le_trans less_le_trans order_less_le_trans\<close>)
    have s1: "ud_pma s1 34 = len" "\<And>a. a \<noteq> 34 \<Longrightarrow> ud_pma s1 a = usb_pma_write (ud_pma s) 0x1C0 packet a"
      by (simp_all add: s1_def usb_pma_write16_def b34)
    have rd: "usb_pma_read (ud_pma s1) 0x1C0 (unat len) = packet"
    proof -
      have "usb_pma_read (ud_pma s1) 0x1C0 (unat len) = usb_pma_read (usb_pma_write (ud_pma s) 0x1C0 packet) 0x1C0 (unat len)"
      proof (rule pma_read_cong, rule s1(2))
        fix k assume "2 * k < unat len"
        then have h: "0x1C0 \<le> (0x1C0 + of_nat (2 * k) :: u16)" using word_window(2)[OF refl, of k] pl by simp
        show "(0x1C0 + of_nat (2 * k) :: u16) \<noteq> 34"
        proof
          assume e: "(0x1C0 + of_nat (2 * k) :: u16) = 34"
          show False using h unfolding e by (simp add: word_le_nat_alt)
        qed
      qed
      then show ?thesis using pma_read_write[OF pl(2), of "ud_pma s" "0x1C0"] pl(1) by simp
    qed
    have q: "tx_queue s' = tx_queue s" by (simp add: tx_queue_def e on_epr_def s1_def usb_pma_write16_def)
    have f: "ud_pma s' = ud_pma s1" "ud_tx_active s'" "ud_tx_inflight s' = len" "ud_diag s' = ud_diag s" "ud_tx_ring s' = ud_tx_ring s"
      "ud_rx_ring s' = ud_rx_ring s" "ud_rx_head s' = ud_rx_head s" "ud_rx_tail s' = ud_rx_tail s"
      "ud_epr s' 4 = (ud_epr s 4 AND NOT 0x30) OR (0x30 AND 0x30)"
      by (simp_all add: e on_epr_def s1_def usb_pma_write16_def ep_fields[OF w])
    have b: "\<not> bit (ud_epr s' 4) 7" "bit (ud_epr s' 4) 5" "bit (ud_epr s' 4) 4" "bit (ud_epr s' 4) 15 = bit (ud_epr s 4) 15"
      "bit (ud_epr s' 4) 13 = bit (ud_epr s 4) 13" "bit (ud_epr s' 4) 12 = bit (ud_epr s 4) 12"
      using i by (simp_all add: f(9) between_packets_def bit_and_iff bit_or_iff bit_not_iff)
    have "sending s' t" unfolding sending_def q f(1,3,4) s1 rd packet using t b c n len f(2) by simp
    moreover have "ud_pma s' a = ud_pma s a" if "\<not> ep4_transmit a" for a
      using that s1(2)[of a] other[of a] f(1) by (simp add: ep4_transmit_def)
    ultimately show ?thesis using f b c(4) by simp
  qed
  show "sending s' t" using both by blast
  show "ud_rx_ring s' = ud_rx_ring s \<and> ud_rx_head s' = ud_rx_head s \<and> ud_rx_tail s' = ud_rx_tail s \<and> length (ud_tx_ring s') = 1024
     \<and> ud_diag s' = ud_diag s \<and> bit (ud_epr s' 4) 15 = bit (ud_epr s 4) 15 \<and> bit (ud_epr s' 4) 13 = bit (ud_epr s 4) 13
     \<and> bit (ud_epr s' 4) 12 = bit (ud_epr s 4) 12 \<and> (\<forall>a. \<not> ep4_transmit a \<longrightarrow> ud_pma s' a = ud_pma s a)" using both by blast
qed

text \<open>The receiving half does not look at the transmitting one.\<close>

definition same_receiving :: "usb_device \<Rightarrow> usb_device \<Rightarrow> bool" where
  "same_receiving s s' \<longleftrightarrow> ud_rx_ring s' = ud_rx_ring s \<and> ud_rx_head s' = ud_rx_head s \<and> ud_rx_tail s' = ud_rx_tail s
     \<and> bit (ud_epr s' 4) 15 = bit (ud_epr s 4) 15 \<and> bit (ud_epr s' 4) 13 = bit (ud_epr s 4) 13
     \<and> bit (ud_epr s' 4) 12 = bit (ud_epr s 4) 12 \<and> (\<forall>a. \<not> ep4_transmit a \<longrightarrow> ud_pma s' a = ud_pma s a)"

lemma receive_window: "0x180 \<le> a \<Longrightarrow> a < 0x1C0 \<Longrightarrow> \<not> ep4_transmit a"
  by (auto simp: ep4_transmit_def word_le_nat_alt word_less_nat_alt)

lemma same_receiving_queue:
  assumes e: "same_receiving s s'" and l: "length (pending_packet s) \<le> 64"
  shows "rx_queue s' = rx_queue s" "pending_packet s' = pending_packet s"
proof -
  show "rx_queue s' = rx_queue s" using e by (simp add: rx_queue_def same_receiving_def)
  have m: "ud_pma s' 38 = ud_pma s 38" using e by (simp add: same_receiving_def ep4_transmit_def)
  show "pending_packet s' = pending_packet s"
  proof (cases "bit (ud_epr s 4) 15")
    case True
    have "usb_pma_read (ud_pma s') 0x180 (unat (ud_pma s 38 AND 0x3FF)) = usb_pma_read (ud_pma s) 0x180 (unat (ud_pma s 38 AND 0x3FF))"
    proof (rule pma_read_cong)
      fix k assume "2 * k < unat (ud_pma s 38 AND 0x3FF)"
      then have "2 * k < 64" using l True by (simp add: pending_packet_def)
      then show "ud_pma s' (0x180 + of_nat (2 * k)) = ud_pma s (0x180 + of_nat (2 * k))"
        using e word_window(1)[OF refl, of k] receive_window unfolding same_receiving_def by blast
    qed
    then show ?thesis using True e m by (simp add: pending_packet_def same_receiving_def)
  next
    case False
    then show ?thesis using e by (simp add: pending_packet_def same_receiving_def)
  qed
qed

lemma same_receiving_inv: "same_receiving s s' \<Longrightarrow> receiving s t \<Longrightarrow> receiving s' t"
  using same_receiving_queue[of s s'] unfolding receiving_def by (simp add: same_receiving_def)

lemma kick_inv:
  assumes w: "epr_manual w" and i: "between_packets s" and t: "tr_written t = tr_taken t @ tx_queue s" and r: "receiving s t" "length (ud_rx_ring s) = 512"
  shows "stream_inv (usb_management_tx_kick w s) t"
proof -
  note k = kick_sends[OF w i t]
  have "same_receiving s (usb_management_tx_kick w s)" using k(2) by (simp add: same_receiving_def)
  then show ?thesis using k same_receiving_inv[OF _ r(1)] i r(2) by (simp add: stream_inv_def between_packets_def usb_management_is_configured_def)
qed

lemma handle_in_inv:
  assumes w: "epr_manual w" and i: "stream_inv s t" and c: "dg_management_configured (ud_diag s) \<noteq> 0" "bit (ud_epr s 4) 7"
  shows "stream_inv (usb_management_handle_in w s) t"
proof -
  have a: "ud_tx_active s" "unat (ud_tx_inflight s) \<le> length (tx_queue s)" "length (tx_queue s) \<le> 1024" "length (ud_tx_ring s) = 1024"
    "tr_written t = tr_taken t @ drop (unat (ud_tx_inflight s)) (tx_queue s)" "receiving s t" "dg_configuration (ud_diag s) = 1" "length (ud_rx_ring s) = 512"
    using i c by (auto simp: stream_inv_def sending_def split: if_splits)
  define s1 where "s1 = on_epr 4 (usb_ep_clear_ctr_tx w) s"
  define s2 where "s2 = (on_diag (\<lambda>g. g\<lparr>dg_management_tx_packet_count := dg_management_tx_packet_count g + 1,
                                  dg_management_tx_byte_count := dg_management_tx_byte_count g + ucast (ud_tx_inflight s1)\<rparr>)
                    (s1\<lparr>ud_tx_tail := ud_tx_tail s1 + ucast (ud_tx_inflight s1)\<rparr>))\<lparr>ud_tx_inflight := 0, ud_tx_active := False\<rparr>"
  define s3 where "s3 = on_epr 4 (usb_ep_set_tx_status w 0x20) s2"
  have e: "usb_management_handle_in w s = usb_management_tx_kick w s3"
    using a(1) by (simp add: usb_management_handle_in_def Let_def s3_def s2_def s1_def on_epr_def)
  have f: "ud_tx_ring s3 = ud_tx_ring s" "ud_tx_head s3 = ud_tx_head s" "ud_tx_tail s3 = ud_tx_tail s + ucast (ud_tx_inflight s)" "\<not> ud_tx_active s3"
    "ud_rx_ring s3 = ud_rx_ring s" "ud_rx_head s3 = ud_rx_head s" "ud_rx_tail s3 = ud_rx_tail s" "ud_pma s3 = ud_pma s"
    "dg_configuration (ud_diag s3) = 1" "dg_management_configured (ud_diag s3) \<noteq> 0"
    "ud_epr s3 4 = ((ud_epr s 4 AND NOT 0x80) AND NOT 0x30) OR (0x20 AND 0x30)"
    using a(7) c(1) by (simp_all add: s3_def s2_def s1_def on_epr_def on_diag_def ep_fields[OF w])
  have b: "\<not> bit (ud_epr s3 4) 7" "bit (ud_epr s3 4) 5" "\<not> bit (ud_epr s3 4) 4" "bit (ud_epr s3 4) 15 = bit (ud_epr s 4) 15"
      "bit (ud_epr s3 4) 13 = bit (ud_epr s 4) 13" "bit (ud_epr s3 4) 12 = bit (ud_epr s 4) 12"
    by (simp_all add: f(11) bit_and_iff bit_or_iff bit_not_iff)
  define k where "k = unat (ud_tx_inflight s)"
  have u: "ucast (ud_tx_inflight s) = (of_nat k :: u32)" by (simp add: k_def)
  have kl: "k \<le> unat (ud_tx_head s - ud_tx_tail s)" using a(2) by (simp add: k_def tx_queue_def)
  have d: "unat (ud_tx_head s3 - ud_tx_tail s3) = unat (ud_tx_head s - ud_tx_tail s) - k"
  proof -
    have "k < 4294967296" using a(2,3) by (simp add: k_def)
    then have uk: "unat (of_nat k :: u32) = k" by (rule u32_of_nat)
    then have le: "(of_nat k :: u32) \<le> ud_tx_head s - ud_tx_tail s" using kl by (simp add: word_le_nat_alt)
    have "ud_tx_head s3 - ud_tx_tail s3 = (ud_tx_head s - ud_tx_tail s) - of_nat k" using u by (simp add: f)
    then show ?thesis using unat_sub[OF le] uk by simp
  qed
  have q: "tx_queue s3 = drop k (tx_queue s)"
    using kl d span_shift(2)[OF a(4), of "ud_tx_tail s" k] u by (simp add: tx_queue_def f ring_span_drop)
  have bp: "between_packets s3" using f b q a(3,4) by (simp add: between_packets_def usb_management_is_configured_def)
  have r: "receiving s3 t" using f b by (intro same_receiving_inv[OF _ a(6)]) (simp add: same_receiving_def)
  show ?thesis unfolding e using kick_inv[OF w bp _ r] a(5,8) q f(5) by (simp add: k_def)
qed

end
