(* ===== verification/Usb_Traffic.thy ===== *)
theory Usb_Traffic
  imports Usb_Stream
begin

unbundle bit_operations_syntax

text \<open>
  The rest of the streams' invariant: what the layers above write, what is received, and the
  control endpoint, which leaves the management endpoint alone or sets it up anew. With it the
  property of the endpoint as a whole.
\<close>

section \<open>Writing\<close>

lemma counters_same:
  "same_management s (on_diag f s)" if "dg_configuration (f (ud_diag s)) = dg_configuration (ud_diag s)"
    "dg_management_configured (f (ud_diag s)) = dg_management_configured (ud_diag s)"
    "dg_management_rx_drop_count (f (ud_diag s)) = dg_management_rx_drop_count (ud_diag s)"
  using that by (simp add: same_management_def on_diag_def)

lemma write_inv:
  assumes w: "epr_manual w" and i: "stream_inv s t" and e: "usb_management_write_span_atomic w (Some d) len s = (ok, s')" and l: "unat len \<le> length d"
  shows "stream_inv s' (t\<lparr>tr_written := tr_written t @ (if ok then take (unat len) d else [])\<rparr>)"
proof -
  have keep: "stream_inv s' (t\<lparr>tr_written := tr_written t\<rparr>)" if "same_management s s'" using same_inv[OF i that] by simp
  consider (none) "len = 0" "ok" "s' = s"
    | (full) "\<not> ok" "s' = on_diag (\<lambda>g. g\<lparr>dg_management_tx_drop_count := dg_management_tx_drop_count g + len\<rparr>) s"
    | (stored) "ok" "len \<noteq> 0" "usb_management_is_configured s" "len \<le> 1024 - (ud_tx_head s - ud_tx_tail s)" "ud_tx_head s - ud_tx_tail s \<le> 1024"
    using e by (auto simp: usb_management_write_span_atomic_def Let_def not_less split: if_splits)
  then show ?thesis
  proof cases
    case none
    then have "same_management s s'" using same_refl by simp
    then show ?thesis using keep none by simp
  next
    case full
    then have "same_management s s'" using counters_same by simp
    then show ?thesis using keep full(1) by simp
  next
    case stored
    define n where "n = unat (ud_tx_head s - ud_tx_tail s)"
    define k where "k = unat len"
    define ds where "ds = take k d"
    define ring where "ring = fold (\<lambda>index ring. ring[unat ((ud_tx_head s + of_nat index) AND 1023) := d ! index]) [0..<k] (ud_tx_ring s)"
    define s1 where "s1 = s\<lparr>ud_tx_ring := ring, ud_tx_head := ud_tx_head s + len\<rparr>"
    define s2 where "s2 = (if ud_tx_head s - ud_tx_tail s + len > dg_management_tx_high_water (ud_diag s1)
                          then on_diag (\<lambda>g. g\<lparr>dg_management_tx_high_water := ud_tx_head s - ud_tx_tail s + len\<rparr>) s1 else s1)"
    have s': "s' = usb_management_tx_kick w s2"
      using e stored by (auto simp: usb_management_write_span_atomic_def Let_def not_less s2_def s1_def ring_def k_def split: if_splits)
    have lr: "length (ud_tx_ring s) = 1024" "length (ud_rx_ring s) = 512" using i by (simp_all add: stream_inv_def)
    have room: "n + k \<le> 1024"
    proof -
      have "unat (1024 - (ud_tx_head s - ud_tx_tail s)) = 1024 - n" using unat_sub[OF stored(5)] by (simp add: n_def)
      then have "k \<le> 1024 - n" using stored(4) by (simp add: k_def word_le_nat_alt)
      moreover have "n \<le> 1024" using stored(5) by (simp add: n_def word_le_nat_alt)
      ultimately show ?thesis by simp
    qed
    have dsl: "length ds = k" "ds = take (length ds) d" using l by (simp_all add: ds_def k_def)
    have slot: "unat (ud_tx_head s) mod 1024 = (unat (ud_tx_tail s) + n) mod 1024"
      using ring_index(2)[of "ud_tx_tail s" n] ring_index(2)[of "ud_tx_head s" 0] by (simp add: n_def)
    note p = ring_push_all[of n ds "ud_tx_ring s" k d "ud_tx_head s" "unat (ud_tx_tail s)", folded ring_def]
    have pr: "length ring = 1024" "ring_span ring (unat (ud_tx_tail s)) (n + k) = ring_span (ud_tx_ring s) (unat (ud_tx_tail s)) n @ ds"
      using p room lr dsl slot by simp_all
    have nk: "unat (ud_tx_head s + len - ud_tx_tail s) = n + k"
    proof -
      have "unat ((ud_tx_head s - ud_tx_tail s) + len) = n + k" unfolding n_def k_def by (rule unat_add_lem[THEN iffD1]) (use room in \<open>simp add: n_def k_def\<close>)
      then show ?thesis by (simp add: algebra_simps)
    qed
    have f: "ud_tx_ring s2 = ring" "ud_tx_head s2 = ud_tx_head s + len" "ud_tx_tail s2 = ud_tx_tail s" "ud_tx_active s2 = ud_tx_active s"
      "ud_tx_inflight s2 = ud_tx_inflight s" "ud_pma s2 = ud_pma s" "ud_epr s2 = ud_epr s" "ud_rx_ring s2 = ud_rx_ring s"
      "ud_rx_head s2 = ud_rx_head s" "ud_rx_tail s2 = ud_rx_tail s" "dg_configuration (ud_diag s2) = dg_configuration (ud_diag s)"
      "dg_management_configured (ud_diag s2) = dg_management_configured (ud_diag s)"
      by (simp_all add: s2_def s1_def on_diag_def)
    have q: "tx_queue s2 = tx_queue s @ ds" using pr nk by (simp add: tx_queue_def f n_def)
    define t' where "t' = t\<lparr>tr_written := tr_written t @ ds\<rparr>"
    have c: "dg_management_configured (ud_diag s) \<noteq> 0" "dg_configuration (ud_diag s) = 1" using stored(3) by (simp_all add: usb_management_is_configured_def)
    have r: "receiving s t'" using i by (simp add: stream_inv_def receiving_def t'_def)
    have r2: "receiving s2 t'" by (rule same_receiving_inv[OF _ r]) (simp add: same_receiving_def f)
    have lq: "length (tx_queue s2) \<le> 1024" using room nk by (simp add: tx_queue_def f)
    have "stream_inv s' t'"
    proof (cases "ud_tx_active s")
      case True
      then have same: "s' = s2" unfolding s' usb_management_tx_kick_def by (simp add: f)
      have "unat (ud_tx_inflight s) \<le> length (tx_queue s)" using i True by (simp add: stream_inv_def sending_def)
      then have "sending s2 t'"
        using i True lq unfolding stream_inv_def sending_def q f by (auto simp: t'_def)
      then show ?thesis unfolding same using r2 f c pr(1) lr by (simp add: stream_inv_def)
    next
      case False
      then have "between_packets s2" "tr_written t' = tr_taken t' @ tx_queue s2"
        using i c lq pr(1) by (auto simp: between_packets_def f usb_management_is_configured_def stream_inv_def sending_def q t'_def)
      then show ?thesis unfolding s' using kick_inv[OF w _ _ r2] f(8) lr(2) by simp
    qed
    then show ?thesis using stored(1) by (simp add: t'_def ds_def k_def)
  qed
qed

section \<open>Receiving\<close>

text \<open>One byte, and the bytes of a packet: as many as there is room for, the others counted.\<close>

definition receive_frame :: "usb_device \<Rightarrow> usb_device \<Rightarrow> bool" where
  "receive_frame s s' \<longleftrightarrow> ud_epr s' = ud_epr s \<and> ud_pma s' = ud_pma s \<and> ud_rx_tail s' = ud_rx_tail s \<and> length (ud_rx_ring s') = 512
     \<and> ud_tx_ring s' = ud_tx_ring s \<and> ud_tx_head s' = ud_tx_head s \<and> ud_tx_tail s' = ud_tx_tail s \<and> ud_tx_inflight s' = ud_tx_inflight s
     \<and> ud_tx_active s' = ud_tx_active s \<and> dg_configuration (ud_diag s') = dg_configuration (ud_diag s)
     \<and> dg_management_configured (ud_diag s') = dg_management_configured (ud_diag s)"

lemma receive_frame_trans: "receive_frame a b \<Longrightarrow> receive_frame b d \<Longrightarrow> receive_frame a d"
  by (simp add: receive_frame_def)

lemma rx_accept_byte:
  assumes l: "length (ud_rx_ring s) = 512" "length (rx_queue s) \<le> 512" and e: "rx_accept b (s, k) = (s', k')"
  shows "receive_frame s s' \<and> length (rx_queue s') \<le> 512 \<and> (if length (rx_queue s) < 512
     then rx_queue s' = rx_queue s @ [b] \<and> dg_management_rx_drop_count (ud_diag s') = dg_management_rx_drop_count (ud_diag s)
     else rx_queue s' = rx_queue s \<and> dg_management_rx_drop_count (ud_diag s') = dg_management_rx_drop_count (ud_diag s) + 1)"
proof -
  define n where "n = unat (ud_rx_head s - ud_rx_tail s)"
  have n: "length (rx_queue s) = n" "ud_rx_head s - ud_rx_tail s < 512 \<longleftrightarrow> n < 512" by (simp_all add: rx_queue_def n_def word_less_nat_alt)
  show ?thesis
  proof (cases "n < 512")
    case False
    then have "s' = on_diag (\<lambda>g. g\<lparr>dg_management_rx_drop_count := dg_management_rx_drop_count g + 1\<rparr>) s" using e n by (simp add: rx_accept_def)
    moreover have "rx_queue (on_diag f s) = rx_queue s" for f by (simp add: rx_queue_def on_diag_def)
    moreover have "receive_frame s (on_diag (\<lambda>g. g\<lparr>dg_management_rx_drop_count := dg_management_rx_drop_count g + 1\<rparr>) s)"
      using l(1) by (simp add: receive_frame_def on_diag_def)
    ultimately show ?thesis using False n l by (simp add: on_diag_def)
  next
    case True
    define ring where "ring = (ud_rx_ring s)[unat (ud_rx_head s AND 511) := b]"
    define s1 where "s1 = s\<lparr>ud_rx_ring := ring, ud_rx_head := ud_rx_head s + 1\<rparr>"
    have s': "s' = (if ud_rx_head s - ud_rx_tail s + 1 > dg_management_rx_high_water (ud_diag s1)
               then on_diag (\<lambda>g. g\<lparr>dg_management_rx_high_water := ud_rx_head s - ud_rx_tail s + 1\<rparr>) s1 else s1)"
      using e n True by (auto simp: rx_accept_def Let_def s1_def ring_def)
    have slot: "unat (ud_rx_head s AND 511) = (unat (ud_rx_tail s) + n) mod length (ud_rx_ring s)"
      using ring_index(1)[of "ud_rx_tail s" n] l by (simp add: n_def)
    have nn: "unat (ud_rx_head s + 1 - ud_rx_tail s) = Suc n"
    proof -
      have "unat ((ud_rx_head s - ud_rx_tail s) + 1) = (n + 1) mod 2 ^ 32" by (simp add: unat_word_ariths n_def)
      then have "unat ((ud_rx_head s - ud_rx_tail s) + 1) = n + 1" using True by simp
      then show ?thesis by (simp add: algebra_simps)
    qed
    have f: "ud_rx_ring s' = ring" "ud_rx_head s' = ud_rx_head s + 1" "ud_rx_tail s' = ud_rx_tail s" "length ring = 512"
      "dg_management_rx_drop_count (ud_diag s') = dg_management_rx_drop_count (ud_diag s)"
      using l by (simp_all add: s' s1_def on_diag_def ring_def)
    have q: "rx_queue s' = rx_queue s @ [b]"
      using ring_push[of n "ud_rx_ring s" "unat (ud_rx_tail s)" b] True l(1) slot by (simp add: rx_queue_def f nn n_def[symmetric] ring_def)
    have "receive_frame s s'" using f(4) by (simp add: receive_frame_def s' s1_def on_diag_def)
    then show ?thesis using f q n True by simp
  qed
qed

lemma rx_accept_all:
  assumes "length (ud_rx_ring s) = 512" "length (rx_queue s) \<le> 512" "fold rx_accept bs (s, k) = (s', k')" "length bs < 4294967296"
  shows "receive_frame s s' \<and> length (rx_queue s') \<le> 512 \<and> (\<exists>ys m. rx_queue s' = rx_queue s @ ys \<and> subseq ys bs \<and> m \<le> length bs
     \<and> dg_management_rx_drop_count (ud_diag s') = dg_management_rx_drop_count (ud_diag s) + of_nat m \<and> (m = 0 \<longrightarrow> ys = bs))"
  using assms
proof (induction bs arbitrary: s k)
  case Nil
  have "receive_frame s s" using Nil(1) by (simp add: receive_frame_def)
  then show ?case using Nil by simp
next
  case (Cons b bs)
  obtain s1 k1 where e: "rx_accept b (s, k) = (s1, k1)" by fastforce
  note a = rx_accept_byte[OF Cons.prems(1,2) e]
  have l1: "length (ud_rx_ring s1) = 512" using a by (auto simp: receive_frame_def)
  have "fold rx_accept bs (s1, k1) = (s', k')" using Cons.prems(3) e by simp
  from Cons.IH[OF l1 _ this] obtain ys m where ih: "receive_frame s1 s'" "length (rx_queue s') \<le> 512" "rx_queue s' = rx_queue s1 @ ys" "subseq ys bs" "m \<le> length bs"
    "dg_management_rx_drop_count (ud_diag s') = dg_management_rx_drop_count (ud_diag s1) + of_nat m" "m = 0 \<longrightarrow> ys = bs"
    using a Cons.prems(4) by auto
  have fr: "receive_frame s s'" using receive_frame_trans a ih(1) by blast
  show ?case
  proof (cases "length (rx_queue s) < 512")
    case True
    then have "rx_queue s' = rx_queue s @ (b # ys)" "dg_management_rx_drop_count (ud_diag s') = dg_management_rx_drop_count (ud_diag s) + of_nat m" using a ih by simp_all
    then show ?thesis using fr ih by (intro conjI exI[of _ "b # ys"] exI[of _ m]) simp_all
  next
    case False
    then have "rx_queue s' = rx_queue s @ ys" "dg_management_rx_drop_count (ud_diag s') = dg_management_rx_drop_count (ud_diag s) + of_nat (Suc m)" using a ih by simp_all
    then show ?thesis using fr ih by (intro conjI exI[of _ ys] exI[of _ "Suc m"]) (simp_all add: list_emb_Cons)
  qed
qed

lemma drop_mark: "m \<le> 64 \<Longrightarrow> (x :: u32) + of_nat m = x \<longleftrightarrow> m = 0"
  using u32_of_nat[of m] by auto

lemma handle_out_inv:
  assumes w: "epr_manual w" and i: "stream_inv s t" and c: "dg_management_configured (ud_diag s) \<noteq> 0" "bit (ud_epr s 4) 15"
  defines "s' \<equiv> usb_management_handle_out w s"
  shows "stream_inv s' (t\<lparr>tr_lost := (tr_lost t \<or> dg_management_rx_drop_count (ud_diag s') \<noteq> dg_management_rx_drop_count (ud_diag s))\<rparr>)
     \<and> dg_management_configured (ud_diag s') \<noteq> 0"
proof -
  define count where "count = ud_pma s 38 AND 0x3FF"
  define s1 where "s1 = on_epr 4 (usb_ep_clear_ctr_rx w) s"
  define s2 where "s2 = on_diag (\<lambda>g. g\<lparr>dg_management_rx_packet_count := dg_management_rx_packet_count g + 1,
                               dg_management_rx_byte_count := dg_management_rx_byte_count g + ucast count\<rparr>) s1"
  define bs where "bs = usb_pma_read (ud_pma s2) 0x180 (unat count)"
  obtain s3 accepted where f3: "fold rx_accept bs (s2, 0) = (s3, accepted)" by fastforce
  define s4 where "s4 = on_epr 4 (usb_ep_set_rx_status w 0x3000) (usb_pma_write16 38 0x8400 s3)"
  have b38: "USB_BTABLE_EP_RX_COUNT 4 = 38" by (simp add: USB_BTABLE_EP_RX_COUNT_def)
  have s': "s' = (if accepted \<noteq> 0 \<and> ud_rx_notify s4 then s4\<lparr>ud_notified := ud_notified s4 + 1\<rparr> else s4)"
    unfolding s'_def usb_management_handle_out_def Let_def b38 count_def[symmetric] s1_def[symmetric] s2_def[symmetric] bs_def[symmetric] f3 prod.case s4_def[symmetric] ..
  have e2: "ud_epr s2 4 = ud_epr s 4 AND NOT 0x8000" "ud_pma s2 = ud_pma s" "rx_queue s2 = rx_queue s" "tx_queue s2 = tx_queue s"
    "ud_rx_ring s2 = ud_rx_ring s" "ud_tx_ring s2 = ud_tx_ring s" "ud_tx_inflight s2 = ud_tx_inflight s" "ud_tx_active s2 = ud_tx_active s"
    "dg_configuration (ud_diag s2) = dg_configuration (ud_diag s)" "dg_management_configured (ud_diag s2) = dg_management_configured (ud_diag s)"
    "dg_management_rx_drop_count (ud_diag s2) = dg_management_rx_drop_count (ud_diag s)"
    by (simp_all add: s2_def s1_def on_epr_def on_diag_def ep_fields[OF w] rx_queue_def tx_queue_def)
  have i2: "length (ud_rx_ring s) = 512" "length (ud_tx_ring s) = 1024" "dg_configuration (ud_diag s) = 1" "receiving s t" "sending s t"
    using i c by (simp_all add: stream_inv_def)
  have pend: "pending_packet s = bs" "length bs \<le> 64" using i2(4) c(2) by (simp_all add: pending_packet_def bs_def count_def e2 receiving_def)
  have q2: "length (ud_rx_ring s2) = 512" "length (rx_queue s2) \<le> 512" "length bs < 4294967296" using i2 pend(2) e2 by (simp_all add: receiving_def)
  from rx_accept_all[OF q2(1,2) f3 q2(3)] obtain ys m where z: "receive_frame s2 s3" "length (rx_queue s3) \<le> 512" "rx_queue s3 = rx_queue s2 @ ys" "subseq ys bs"
    "m \<le> length bs" "dg_management_rx_drop_count (ud_diag s3) = dg_management_rx_drop_count (ud_diag s2) + of_nat m" "m = 0 \<longrightarrow> ys = bs"
    by blast
  have a: "receive_frame s2 s3" "length (rx_queue s3) \<le> 512" "rx_queue s3 = rx_queue s @ ys" "subseq ys bs" "m \<le> 64"
    "dg_management_rx_drop_count (ud_diag s3) = dg_management_rx_drop_count (ud_diag s) + of_nat m" "m = 0 \<longrightarrow> ys = bs"
    using z pend(2) e2 by simp_all
  have f: "ud_rx_ring s' = ud_rx_ring s3" "ud_tx_ring s' = ud_tx_ring s" "ud_diag s' = ud_diag s3" "ud_tx_inflight s' = ud_tx_inflight s" "ud_tx_active s' = ud_tx_active s"
    "rx_queue s' = rx_queue s3" "tx_queue s' = tx_queue s" "ud_epr s' 4 = ((ud_epr s 4 AND NOT 0x8000) AND NOT 0x3000) OR (0x3000 AND 0x3000)"
    "\<And>x. x \<noteq> 38 \<Longrightarrow> ud_pma s' x = ud_pma s x"
    using a(1) e2 by (simp_all add: s' s4_def on_epr_def usb_pma_write16_def ep_fields[OF w] rx_queue_def tx_queue_def receive_frame_def)
  have b: "\<not> bit (ud_epr s' 4) 15" "bit (ud_epr s' 4) 7 = bit (ud_epr s 4) 7" "bit (ud_epr s' 4) 5 = bit (ud_epr s 4) 5" "bit (ud_epr s' 4) 4 = bit (ud_epr s 4) 4"
    by (simp_all add: f(8) bit_and_iff bit_or_iff bit_not_iff)
  have g: "dg_configuration (ud_diag s') = 1" "dg_management_configured (ud_diag s') \<noteq> 0" "length (ud_rx_ring s') = 512"
    using a(1) e2 i2 c(1) f(1,3) by (simp_all add: receive_frame_def)
  define t' where "t' = t\<lparr>tr_lost := (tr_lost t \<or> dg_management_rx_drop_count (ud_diag s') \<noteq> dg_management_rx_drop_count (ud_diag s))\<rparr>"
  have tx: "usb_pma_read (ud_pma s') 0x1C0 n = usb_pma_read (ud_pma s) 0x1C0 n" if "n \<le> 64" for n
  proof (rule pma_read_cong, rule f(9))
    fix k assume "2 * k < n"
    then have "0x1C0 \<le> (0x1C0 + of_nat (2 * k) :: u16)" using word_window(2)[OF refl, of k] that by simp
    moreover have "\<not> 0x1C0 \<le> (38 :: u16)" by (simp add: word_le_nat_alt)
    ultimately show "(0x1C0 + of_nat (2 * k) :: u16) \<noteq> 38" by metis
  qed
  have "sending s' t'" using i2(5) f(9)[of 34] tx unfolding sending_def f(4,5,7) b by (cases "ud_tx_active s") (simp_all add: t'_def g(2) c(1))
  moreover have "receiving s' t'"
  proof -
    have "subseq (tr_read t @ rx_queue s @ ys) (tr_read t @ rx_queue s @ bs)" using a(4) by (simp add: list_emb_append_mono)
    then have "subseq (tr_read t @ rx_queue s @ ys) (tr_offered t)"
      using i2(4) pend(1) unfolding receiving_def by (metis subseq_order.order_trans)
    moreover have "ys = bs" if "\<not> tr_lost t'" using that a(5-7) drop_mark f(3) by (simp add: t'_def)
    moreover have "tr_offered t = tr_read t @ rx_queue s @ bs" if "\<not> tr_lost t" using i2(4) pend(1) that by (simp add: receiving_def)
    moreover have "tr_lost t \<Longrightarrow> tr_lost t'" "tr_read t' = tr_read t" "tr_offered t' = tr_offered t" by (simp_all add: t'_def)
    ultimately show ?thesis unfolding receiving_def f(6) a(3) pending_packet_def using a(2,3) b(1) by auto
  qed
  ultimately have "stream_inv s' t'" using g i2(2) f(2) by (simp add: stream_inv_def)
  then show ?thesis using g(2) by (simp add: t'_def)
qed

lemma kick_diag: "ud_diag (usb_management_tx_kick w s) = ud_diag s"
  by (simp add: usb_management_tx_kick_def Let_def usb_pma_write16_def on_epr_def)

lemma handle_in_drops: "dg_management_rx_drop_count (ud_diag (usb_management_handle_in w s)) = dg_management_rx_drop_count (ud_diag s)"
  by (simp add: usb_management_handle_in_def Let_def kick_diag on_epr_def on_diag_def)

lemma served_inv:
  assumes w: "epr_manual w" and i: "stream_inv s t" and c: "management_round current s"
  defines "s' \<equiv> irq_round w current s"
  shows "stream_inv s' (t\<lparr>tr_lost := (tr_lost t \<or> dg_management_rx_drop_count (ud_diag s') \<noteq> dg_management_rx_drop_count (ud_diag s))\<rparr>)"
proof -
  have s': "s' = usb_management_handle_ctr w s" and mc: "dg_management_configured (ud_diag s) \<noteq> 0"
    using c by (simp_all add: s'_def irq_round_def management_round_def)
  define s1 where "s1 = (if bit (ud_epr s 4) 15 then usb_management_handle_out w s else s)"
  have e: "s' = (if bit (ud_epr s1 4) 7 then usb_management_handle_in w s1 else s1)"
    unfolding s' usb_management_handle_ctr_def Let_def bit_fields s1_def[symmetric] ..
  define t1 where "t1 = t\<lparr>tr_lost := (tr_lost t \<or> dg_management_rx_drop_count (ud_diag s1) \<noteq> dg_management_rx_drop_count (ud_diag s))\<rparr>"
  have i1: "stream_inv s1 t1" "dg_management_configured (ud_diag s1) \<noteq> 0"
    using handle_out_inv[OF w i mc] i mc by (simp_all add: s1_def t1_def)
  have "dg_management_rx_drop_count (ud_diag s') = dg_management_rx_drop_count (ud_diag s1)" using handle_in_drops by (simp add: e)
  then have "t\<lparr>tr_lost := (tr_lost t \<or> dg_management_rx_drop_count (ud_diag s') \<noteq> dg_management_rx_drop_count (ud_diag s))\<rparr> = t1" by (simp add: t1_def)
  then show ?thesis using handle_in_inv[OF w i1] i1 by (simp add: e)
qed

section \<open>The control endpoint\<close>

lemma same_pma: "\<not> ep4_memory a \<Longrightarrow> same_management s (usb_pma_write16 a v s)"
  by (auto simp: same_management_def usb_pma_write16_def)

lemma same_send: "length data \<le> 64 \<Longrightarrow> same_management s (usb_ep0_send_packet w data s)"
proof -
  assume l: "length data \<le> 64"
  have o: "\<not> ep4_memory 2" "\<And>a. 0x40 \<le> a \<and> a < 0x80 \<Longrightarrow> \<not> ep4_memory a" by (auto simp: ep4_memory_def ep4_transmit_def word_le_nat_alt word_less_nat_alt)
  have "usb_pma_write (ud_pma s) 0x40 data a = ud_pma s a" if "ep4_memory a" for a
    by (rule pma_write_other) (use that o(2) word_window(3) l in \<open>metis le_trans less_le_trans order_less_le_trans\<close>)
  then have "same_management s (s\<lparr>ud_pma := usb_pma_write (ud_pma s) 0x40 data\<rparr>)" by (simp add: same_management_def)
  then have "same_management s (if data \<noteq> [] then s\<lparr>ud_pma := usb_pma_write (ud_pma s) 0x40 data\<rparr> else s)" using same_refl by simp
  moreover have "same_management x (usb_ep0_set_tx_count n x)" for x n using same_pma[OF o(1)] by (simp add: usb_ep0_set_tx_count_def USB_BTABLE_EP_TX_COUNT_def)
  moreover have "same_management x (on_epr 0 f x)" for x f by (simp add: same_management_def on_epr_def)
  ultimately show ?thesis unfolding usb_ep0_send_packet_def Let_def using same_trans by blast
qed

lemma same_simple:
  "same_management s (on_epr 0 f s)" "same_management s (usb_ep0_stall w s)" "same_management s (usb_ep0_arm_rx w s)" "same_management s (usb_ep0_reset_transfer_state s)"
  "same_management s (usb_ep0_start_status_in w s)" "same_management s (s\<lparr>ud_ep0_state := st\<rparr>)"
  by (simp_all add: same_management_def on_epr_def usb_ep0_stall_def on_diag_def usb_ep0_reset_transfer_state_def usb_ep0_arm_rx_def)
    (use same_send[of "[]" "s\<lparr>ud_ep0_state := USB_EP0_STATUS_IN\<rparr>" w] in \<open>simp add: same_management_def usb_ep0_start_status_in_def\<close>)

lemma same_next: "same_management s (usb_ep0_send_next_in_packet w s)"
proof -
  define len where "len = (if ud_ep0_in_remaining s > 64 then 64 else ud_ep0_in_remaining s)"
  have "unat len \<le> 64" by (simp add: len_def word_less_nat_alt not_less)
  then have "same_management s (usb_ep0_send_packet w (take (unat len) (ud_ep0_in_data s)) s)" by (intro same_send) simp
  then show ?thesis unfolding usb_ep0_send_next_in_packet_def Let_def len_def[symmetric] by (simp add: same_management_def)
qed

lemma same_start_in: "same_management s (usb_ep0_start_in w data n s)"
proof -
  have k: "same_management s (s\<lparr>ud_ep0_in_data := a, ud_ep0_in_remaining := b, ud_ep0_need_zlp := c, ud_ep0_state := e\<rparr>)" for a b c e by (simp add: same_management_def)
  show ?thesis
    unfolding usb_ep0_start_in_def Let_def using same_trans[OF k same_next] same_trans[OF k same_send[of "[]"]] by (simp split: if_splits)
qed

lemma same_requests:
  "same_management s (snd (usb_ep0_standard_in w pkt s))" "same_management s (snd (usb_ep0_standard_out w pkt s))" "same_management s (snd (usb_ep0_vendor_in w pkt s))"
proof -
  show "same_management s (snd (usb_ep0_standard_in w pkt s))"
    by (simp add: usb_ep0_standard_in_def Let_def same_start_in same_refl split: option.split)
  have a: "same_management s (s\<lparr>ud_pending_address := a, ud_pending_address_valid := v\<rparr>)" "same_management s (s\<lparr>ud_pending_configuration := a, ud_pending_configuration_valid := v\<rparr>)"
    for a v by (simp_all add: same_management_def)
  show "same_management s (snd (usb_ep0_standard_out w pkt s))"
    using same_trans[OF a(1) same_simple(5)] same_trans[OF a(2) same_simple(5)] by (simp add: usb_ep0_standard_out_def same_simple(5) same_refl)
  have d: "same_management s (on_diag (\<lambda>g. g\<lparr>dg_management_ms_os_20_request_count := dg_management_ms_os_20_request_count g + 1\<rparr>) s)"
    by (rule counters_same) simp_all
  show "same_management s (snd (usb_ep0_vendor_in w pkt s))"
    using same_trans[OF d same_start_in] by (simp add: usb_ep0_vendor_in_def same_refl)
qed

lemma same_setup: "same_management s (usb_ep0_handle_setup w s)"
proof -
  define pkt where "pkt = setup_from_bytes (usb_pma_read (ud_pma s) 0x80 8)"
  define s1 where "s1 = on_diag (\<lambda>g. g\<lparr>dg_setup_count := dg_setup_count g + 1, dg_last_bm_request_type := ucast (sp_bm_request_type pkt),
                              dg_last_b_request := ucast (sp_b_request pkt)\<rparr>) s"
  define s2 where "s2 = usb_ep0_arm_rx w (on_epr 0 (usb_ep_set_tx_status w 0x20) (usb_ep0_reset_transfer_state s1))"
  have "same_management s s1" unfolding s1_def by (rule counters_same) simp_all
  then have 2: "same_management s s2" unfolding s2_def by (rule same_trans[OF same_trans[OF same_trans[OF _ same_simple(4)] same_simple(1)] same_simple(3)])
  define r where "r = (if sp_bm_request_type pkt AND 0x80 \<noteq> 0
               then (if sp_bm_request_type pkt AND 0x60 = 0 then usb_ep0_standard_in w pkt s2
                     else if sp_bm_request_type pkt AND 0x60 = 0x40 then usb_ep0_vendor_in w pkt s2 else (False, s2))
               else (if sp_bm_request_type pkt AND 0x60 = 0 then usb_ep0_standard_out w pkt s2 else (False, s2)))"
  have "same_management s2 (snd r)" by (simp add: r_def same_requests same_refl)
  then have 3: "same_management s (snd r)" by (rule same_trans[OF 2])
  have "usb_ep0_handle_setup w s = (case r of (handled, s3) \<Rightarrow> if \<not> handled then usb_ep0_stall w s3 else s3)"
    unfolding usb_ep0_handle_setup_def Let_def pkt_def[symmetric] s1_def[symmetric] s2_def[symmetric] r_def[symmetric] ..
  then show ?thesis using 3 same_trans[OF 3 same_simple(2)] by (cases r) simp
qed

lemma same_rx: "same_management s (usb_ep0_handle_rx w v s)"
proof -
  define s1 where "s1 = on_diag (\<lambda>g. g\<lparr>dg_transfer_count := dg_transfer_count g + 1\<rparr>) (on_epr 0 (usb_ep_clear_ctr_rx w) s)"
  have 1: "same_management s s1" unfolding s1_def by (rule same_trans[OF same_simple(1)]) (rule counters_same, simp_all)
  have "same_management s1 (usb_ep0_arm_rx w (on_epr 0 (usb_ep_set_tx_status w 0x20) (s1\<lparr>ud_ep0_state := USB_EP0_IDLE\<rparr>)))"
    by (rule same_trans[OF same_trans[OF same_simple(6) same_simple(1)] same_simple(3)])
  then show ?thesis
    unfolding usb_ep0_handle_rx_def Let_def s1_def[symmetric] using same_trans[OF 1] same_setup same_simple(2) by simp
qed

text \<open>What sets the endpoint up anew.\<close>

definition set_up_anew :: "usb_device \<Rightarrow> usb_device \<Rightarrow> bool" where
  "set_up_anew s s' \<longleftrightarrow> fresh_management s' \<and> length (ud_rx_ring s') = length (ud_rx_ring s) \<and> length (ud_tx_ring s') = length (ud_tx_ring s)"

lemma disabled_fresh:
  assumes w: "epr_manual w"
  shows "set_up_anew s (usb_management_endpoints_disable w s)" "dg_management_configured (ud_diag (usb_management_endpoints_disable w s)) = 0"
proof -
  have e: "ud_epr (usb_management_endpoints_disable w s) 4 = epr_of_manual ((ud_epr s 4 AND 0x0800) OR 4) 0"
    by (simp add: usb_management_endpoints_disable_def on_diag_def usb_management_reset_rings_def on_epr_def ep_runtime_reset[OF w] epr_manual_unique[OF w])
  show "dg_management_configured (ud_diag (usb_management_endpoints_disable w s)) = 0"
    by (simp add: usb_management_endpoints_disable_def on_diag_def usb_management_reset_rings_def)
  then show "set_up_anew s (usb_management_endpoints_disable w s)"
    unfolding set_up_anew_def fresh_management_def e
    by (simp add: epr_of_manual_def bit_and_iff bit_or_iff bit_xor_iff)
      (simp add: usb_management_endpoints_disable_def on_diag_def usb_management_reset_rings_def on_epr_def)
qed

lemma enabled_fresh:
  assumes w: "epr_manual w" and c: "dg_configuration (ud_diag s) = 1"
  shows "set_up_anew s (usb_management_endpoints_enable w s)"
proof -
  have e: "ud_epr (usb_management_endpoints_enable w s) 4 = (((((ud_epr s 4 AND 0x0800) OR 4) AND NOT 0x30) OR (0x20 AND 0x30)) AND NOT 0x3000) OR (0x3000 AND 0x3000)"
    by (simp add: usb_management_endpoints_enable_def on_diag_def usb_management_reset_rings_def on_epr_def usb_pma_write16_def Let_def
        ep_runtime_reset[OF w] ep_fields[OF w])
  show ?thesis
    unfolding set_up_anew_def fresh_management_def e
    by (simp add: bit_and_iff bit_or_iff bit_not_iff)
      (simp add: usb_management_endpoints_enable_def on_diag_def usb_management_reset_rings_def on_epr_def usb_pma_write16_def Let_def c)
qed

lemma status_action_fresh:
  assumes w: "epr_manual w"
  shows "same_management s (usb_ep0_apply_pending_status_action w s) \<or> set_up_anew s (usb_ep0_apply_pending_status_action w s)"
proof -
  define a where "a = (on_diag (\<lambda>g. g\<lparr>dg_address := ucast (ud_pending_address s)\<rparr>) (s\<lparr>ud_daddr := 0x80 OR ucast (ud_pending_address s)\<rparr>))
                      \<lparr>ud_pending_address_valid := False\<rparr>"
  define s1 where "s1 = (if ud_pending_address_valid s then (if ud_pending_address s = 0
               then on_diag (\<lambda>g. g\<lparr>dg_configuration := 0\<rparr>) (usb_management_endpoints_disable w a) else a) else s)"
  have e: "usb_ep0_apply_pending_status_action w s = (if ud_pending_configuration_valid s1 then
           (if ucast (ud_pending_configuration s1) = (1 :: u32)
            then usb_management_endpoints_enable w (on_diag (\<lambda>g. g\<lparr>dg_configuration := 1\<rparr>) s1)
            else on_diag (\<lambda>g. g\<lparr>dg_configuration := 0\<rparr>) (usb_management_endpoints_disable w s1))
             \<lparr>ud_pending_configuration_valid := False\<rparr> else s1)"
    unfolding usb_ep0_apply_pending_status_action_def Let_def a_def[symmetric] s1_def[symmetric] ..
  have la: "same_management s a" by (simp add: a_def same_management_def on_diag_def)
  have frame: "set_up_anew x z" if "set_up_anew y z" "length (ud_rx_ring y) = length (ud_rx_ring x)" "length (ud_tx_ring y) = length (ud_tx_ring x)" for x y z
    using that by (simp add: set_up_anew_def)
  have off: "set_up_anew x (on_diag (\<lambda>g. g\<lparr>dg_configuration := 0\<rparr>) (usb_management_endpoints_disable w x))" for x
    using disabled_fresh[OF w, of x] by (simp add: set_up_anew_def fresh_management_def on_diag_def)
  have on: "set_up_anew x (usb_management_endpoints_enable w (on_diag (\<lambda>g. g\<lparr>dg_configuration := 1\<rparr>) x))" for x
    using enabled_fresh[OF w, of "on_diag (\<lambda>g. g\<lparr>dg_configuration := 1\<rparr>) x"] by (simp add: set_up_anew_def on_diag_def)
  have flag: "set_up_anew x (y\<lparr>ud_pending_configuration_valid := v\<rparr>) = set_up_anew x y" for x y v by (simp add: set_up_anew_def fresh_management_def)
  have 1: "same_management s s1 \<or> set_up_anew s s1" "length (ud_rx_ring s1) = length (ud_rx_ring s)" "length (ud_tx_ring s1) = length (ud_tx_ring s)"
  proof -
    have al: "length (ud_rx_ring a) = length (ud_rx_ring s)" "length (ud_tx_ring a) = length (ud_tx_ring s)" using la by (simp_all add: same_management_def)
    show "same_management s s1 \<or> set_up_anew s s1" using la same_refl frame[OF off al] by (simp add: s1_def)
    then show "length (ud_rx_ring s1) = length (ud_rx_ring s)" "length (ud_tx_ring s1) = length (ud_tx_ring s)"
      by (auto simp: same_management_def set_up_anew_def)
  qed
  show ?thesis using 1(1) frame[OF off[of s1] 1(2,3)] frame[OF on[of s1] 1(2,3)] by (simp add: e flag)
qed

lemma anew_then_same: "set_up_anew a b \<Longrightarrow> same_management b d \<Longrightarrow> set_up_anew a d"
  by (simp add: set_up_anew_def fresh_management_def same_management_def)

lemma same_then_anew: "same_management a b \<Longrightarrow> set_up_anew b d \<Longrightarrow> set_up_anew a d"
  by (simp add: set_up_anew_def same_management_def)

lemma ep0_tx_fresh:
  assumes w: "epr_manual w"
  shows "same_management s (usb_ep0_handle_tx w s) \<or> set_up_anew s (usb_ep0_handle_tx w s)"
proof -
  define s1 where "s1 = on_diag (\<lambda>g. g\<lparr>dg_transfer_count := dg_transfer_count g + 1\<rparr>) (on_epr 0 (usb_ep_clear_ctr_tx w) s)"
  have 1: "same_management s s1" unfolding s1_def by (rule same_trans[OF same_simple(1)]) (rule counters_same, simp_all)
  have z: "same_management s1 (usb_ep0_send_packet w [] (s1\<lparr>ud_ep0_need_zlp := False\<rparr>))"
    by (rule same_trans[OF _ same_send]) (simp_all add: same_management_def)
  have a: "same_management x (usb_ep0_arm_rx w (on_epr 0 (usb_ep_set_tx_status w 0x20) (x\<lparr>ud_ep0_state := st\<rparr>)))" for x st
    by (rule same_trans[OF same_trans[OF same_simple(6) same_simple(1)] same_simple(3)])
  note p = status_action_fresh[OF w, of s1]
  have b: "same_management s1 (usb_ep0_arm_rx w (on_epr 0 (usb_ep_set_tx_status w 0x20) ((usb_ep0_apply_pending_status_action w s1)\<lparr>ud_ep0_state := USB_EP0_IDLE\<rparr>)))
     \<or> set_up_anew s1 (usb_ep0_arm_rx w (on_epr 0 (usb_ep_set_tx_status w 0x20) ((usb_ep0_apply_pending_status_action w s1)\<lparr>ud_ep0_state := USB_EP0_IDLE\<rparr>)))"
    using p same_trans[OF _ a] anew_then_same[OF _ a] by blast
  have "same_management s1 (usb_ep0_handle_tx w s) \<or> set_up_anew s1 (usb_ep0_handle_tx w s)"
    unfolding usb_ep0_handle_tx_def Let_def s1_def[symmetric] using b a z same_next same_simple(1) by simp
  then show ?thesis using same_trans[OF 1] same_then_anew[OF 1] by blast
qed

lemma control_inv:
  assumes w: "epr_manual w" and i: "stream_inv s t" and c: "\<not> management_round current s"
  shows "stream_inv (irq_round w current s) (if same_management s (irq_round w current s) then t else no_traffic)"
proof -
  let ?ep = "ucast (current AND 0xF) :: u8"
  have "same_management s (irq_round w current s) \<or> set_up_anew s (irq_round w current s)"
  proof (cases "?ep = 0")
    case True
    define s1 where "s1 = (if bit (ud_epr s 0) 15 then usb_ep0_handle_rx w (ud_epr s 0) s else s)"
    have 1: "same_management s s1" using same_rx same_refl by (simp add: s1_def)
    have "irq_round w current s = (if bit (ud_epr s1 0) 7 then usb_ep0_handle_tx w s1 else s1)"
      using True by (simp add: irq_round_def usb_ep0_handle_ctr_def Let_def bit_fields s1_def)
    then show ?thesis using ep0_tx_fresh[OF w, of s1] same_trans[OF 1] same_then_anew[OF 1] same_refl 1 by auto
  next
    case False
    have "current AND 0xF = 4" if "?ep = 4"
    proof -
      have m: "(0xF :: u16) = mask 4" by (simp add: mask_eq_decr_exp)
      have "unat (current AND 0xF) < 16" unfolding m by (simp add: take_bit_eq_mask[symmetric] unsigned_take_bit_eq take_bit_eq_mod unat_mod)
      then have "unat ?ep = unat (current AND 0xF)" by (simp add: unsigned_ucast_eq take_bit_nat_eq_self)
      then show ?thesis using that by (simp add: word_unat_eq_iff)
    qed
    then have mc: "?ep = 4 \<Longrightarrow> dg_management_configured (ud_diag s) = 0" using c by (auto simp: management_round_def)
    have e: "irq_round w current s = on_diag (\<lambda>g. g\<lparr>dg_error_count := dg_error_count g + 1\<rparr>) (on_epr ?ep (\<lambda>r. w r 0) s)"
      using False mc by (auto simp: irq_round_def Let_def)
    show ?thesis
    proof (cases "?ep = 4")
      case True
      have f: "fresh_management s" using mc[OF True] i by (simp add: stream_inv_def)
      have "ud_epr (irq_round w current s) 4 = epr_of_manual (ud_epr s 4) 0"
        unfolding e True by (simp add: on_diag_def on_epr_def epr_manual_unique[OF w])
      then show ?thesis
        using f by (simp add: set_up_anew_def fresh_management_def e True on_diag_def on_epr_def epr_manual_unique[OF w] epr_of_manual_def bit_and_iff bit_or_iff bit_xor_iff)
    next
      case False
      then show ?thesis unfolding e by (simp add: same_management_def on_diag_def on_epr_def)
    qed
  qed
  then show ?thesis using same_inv[OF i] fresh_inv i by (auto simp: set_up_anew_def stream_inv_def)
qed

lemma bus_reset_fresh:
  assumes w: "epr_manual w" and l: "length (ud_rx_ring s) = 512" "length (ud_tx_ring s) = 1024"
  shows "stream_inv (usb_bus_reset w s) no_traffic"
proof -
  have "\<exists>f h k x. usb_bus_reset w s = on_diag f (usb_ep0_arm_rx w (on_epr 0 h ((on_diag k (usb_management_endpoints_disable w x))\<lparr>ud_daddr := 0x80\<rparr>)))
      \<and> (\<forall>g. dg_management_configured (f g) = dg_management_configured g) \<and> (\<forall>g. dg_management_configured (k g) = dg_management_configured g)
      \<and> ud_rx_ring x = ud_rx_ring s \<and> ud_tx_ring x = ud_tx_ring s"
    unfolding usb_bus_reset_def Let_def by (intro exI conjI, rule refl) (simp_all add: usb_ep0_reset_transfer_state_def on_epr_def usb_pma_write16_def)
  then obtain f h k x where x: "usb_bus_reset w s = on_diag f (usb_ep0_arm_rx w (on_epr 0 h ((on_diag k (usb_management_endpoints_disable w x))\<lparr>ud_daddr := 0x80\<rparr>)))"
    "\<forall>g. dg_management_configured (f g) = dg_management_configured g" "\<forall>g. dg_management_configured (k g) = dg_management_configured g"
    "ud_rx_ring x = ud_rx_ring s" "ud_tx_ring x = ud_tx_ring s"
    by blast
  have "set_up_anew s (usb_bus_reset w s)"
    unfolding x(1) using disabled_fresh[OF w, of x] x(2-5)
    by (simp add: set_up_anew_def fresh_management_def on_diag_def on_epr_def usb_ep0_arm_rx_def)
  then show ?thesis using l fresh_inv by (simp add: set_up_anew_def)
qed

lemma run_inv: "epr_manual w \<Longrightarrow> usb_run w s t \<Longrightarrow> stream_inv s t"
proof -
  assume w: "epr_manual w"
  assume "usb_run w s t"
  then show "stream_inv s t"
  proof (induction rule: usb_run.induct)
    case (usb_started s)
    then show ?case by (rule bus_reset_fresh[OF w])
  next
    case (usb_reset s t)
    then show ?case by (intro bus_reset_fresh[OF w]) (simp_all add: stream_inv_def)
  next
    case (usb_elsewhere s t s')
    have "same_management s s'" using usb_elsewhere.hyps(2) by (auto simp: elsewhere_def same_management_def)
    then show ?case using same_inv usb_elsewhere.IH by blast
  next
    case (usb_notify s t notify)
    show ?case by (rule same_inv[OF usb_notify.IH]) (simp add: same_management_def usb_management_set_rx_notify_def)
  next
    case (usb_status s t flags)
    show ?case by (rule same_inv[OF usb_status.IH]) (simp add: same_management_def usb_istr_clear_def)
  next
    case (usb_offered s t bs s')
    show ?case by (rule offered_inv[OF usb_offered.IH usb_offered.hyps(2)])
  next
    case (usb_taken s t s')
    show ?case by (rule taken_inv[OF usb_taken.IH usb_taken.hyps(2)])
  next
    case (usb_served s t current s')
    show ?case unfolding usb_served.hyps(3) by (rule served_inv[OF w usb_served.IH usb_served.hyps(2)])
  next
    case (usb_control s t current s')
    show ?case unfolding usb_control.hyps(3) by (rule control_inv[OF w usb_control.IH usb_control.hyps(2)])
  next
    case (usb_read s t b s')
    show ?case by (rule read_inv[OF usb_read.IH usb_read.hyps(2)])
  next
    case (usb_written s t d len ok s')
    show ?case by (rule write_inv[OF w usb_written.IH usb_written.hyps(2,3)])
  qed
qed

section \<open>The property of the management endpoint\<close>

text \<open>
  C14: The management endpoint is two byte streams, as long as the peripheral does not change
  the endpoint's register between a read and a write of it by the driver: in the runs of
  \<open>usb_run\<close> a call of the driver and a round of its handler are one step each, and packets
  come and go between them (\<open>Usb_Race\<close> is about the other case, in
  which this does not hold). Then, with a peripheral that keeps to its manual:
  what the host took is what was written, in order, with at most a ring of it still
  to come, and while some is to come a packet is up for the host or its completion is; what was read is what the
  host sent, in order, and complete up to a ring and a packet unless bytes were counted as
  dropped. A refused write leaves no byte. Only setting the endpoint up anew starts the streams
  again.
\<close>
theorem management_streams:
  assumes "epr_manual w" "usb_run w s t"
  shows "(\<exists>rest. tr_written t = tr_taken t @ rest \<and> length rest \<le> 1024
       \<and> (rest \<noteq> [] \<longrightarrow> ud_epr s 4 AND USB_EP_STAT_TX_MASK = USB_EP_STAT_TX_VALID \<or> ud_epr s 4 AND USB_EP_CTR_TX \<noteq> 0))
     \<and> subseq (tr_read t) (tr_offered t)
     \<and> (\<not> tr_lost t \<longrightarrow> (\<exists>rest. tr_offered t = tr_read t @ rest \<and> length rest \<le> 576))"
proof (intro conjI)
  have i: "stream_inv s t" by (rule run_inv[OF assms])
  define rest where "rest = (if bit (ud_epr s 4) 7 then drop (unat (ud_tx_inflight s)) (tx_queue s) else tx_queue s)"
  have s: "tr_written t = tr_taken t @ rest" "length rest \<le> 1024" "rest \<noteq> [] \<longrightarrow> bit (ud_epr s 4) 5 \<and> bit (ud_epr s 4) 4 \<or> bit (ud_epr s 4) 7"
    using i by (auto simp: stream_inv_def sending_def rest_def split: if_splits)
  then show "\<exists>rest. tr_written t = tr_taken t @ rest \<and> length rest \<le> 1024
       \<and> (rest \<noteq> [] \<longrightarrow> ud_epr s 4 AND USB_EP_STAT_TX_MASK = USB_EP_STAT_TX_VALID \<or> ud_epr s 4 AND USB_EP_CTR_TX \<noteq> 0)"
    unfolding bit_fields by blast
  have r: "subseq (tr_read t @ rx_queue s @ pending_packet s) (tr_offered t)" "\<not> tr_lost t \<longrightarrow> tr_offered t = tr_read t @ rx_queue s @ pending_packet s"
    "length (rx_queue s @ pending_packet s) \<le> 576"
    using i by (simp_all add: stream_inv_def receiving_def)
  show "subseq (tr_read t) (tr_offered t)" using r(1) by (rule subseq_order.order_trans[OF prefix_imp_subseq[OF prefixI[OF refl]]])
  show "\<not> tr_lost t \<longrightarrow> (\<exists>rest. tr_offered t = tr_read t @ rest \<and> length rest \<le> 576)" using r(2,3) by blast
qed

text \<open>
  A host that configures the device: the SETUP packet is in the buffer, and then the status
  packet was taken. After it two bytes are written.
\<close>

definition usb_demo0 :: "bytes \<Rightarrow> bytes \<Rightarrow> usb_device" where
  "usb_demo0 rx tx = \<lparr>ud_epr = (\<lambda>_. 0), ud_pma = (\<lambda>_. 0), ud_istr_written = 0, ud_btable = 0, ud_daddr = 0, ud_ep0_state = USB_EP0_IDLE,
     ud_ep0_in_data = [], ud_ep0_in_remaining = 0, ud_ep0_need_zlp = False, ud_pending_address = 0, ud_pending_address_valid = False,
     ud_pending_configuration = 0, ud_pending_configuration_valid = False, ud_rx_ring = rx, ud_rx_head = 0, ud_rx_tail = 0,
     ud_tx_ring = tx, ud_tx_head = 0, ud_tx_tail = 0, ud_tx_inflight = 0, ud_tx_active = False, ud_rx_notify = False,
     ud_notified = 0, ud_diag = usb_diagnostics_zero\<rparr>"

definition usb_demo1 :: "bytes \<Rightarrow> bytes \<Rightarrow> usb_device" where "usb_demo1 rx tx = usb_bus_reset epr_of_manual (usb_demo0 rx tx)"
definition usb_demo2 :: "bytes \<Rightarrow> bytes \<Rightarrow> usb_device" where
  "usb_demo2 rx tx = (usb_demo1 rx tx)\<lparr>ud_epr := (ud_epr (usb_demo1 rx tx))(0 := 0x8A20),
     ud_pma := (usb_pma_write (ud_pma (usb_demo1 rx tx)) 0x80 [0, 9, 1, 0, 0, 0, 0, 0])(6 := 0x8408)\<rparr>"
definition usb_demo3 :: "bytes \<Rightarrow> bytes \<Rightarrow> usb_device" where "usb_demo3 rx tx = irq_round epr_of_manual 0 (usb_demo2 rx tx)"
definition usb_demo4 :: "bytes \<Rightarrow> bytes \<Rightarrow> usb_device" where
  "usb_demo4 rx tx = (usb_demo3 rx tx)\<lparr>ud_epr := (ud_epr (usb_demo3 rx tx))(0 := 0x32A0)\<rparr>"
definition usb_demo5 :: "bytes \<Rightarrow> bytes \<Rightarrow> usb_device" where "usb_demo5 rx tx = irq_round epr_of_manual 0 (usb_demo4 rx tx)"

lemma demo_setup_read: "usb_pma_read (ud_pma (usb_demo2 rx tx)) 0x80 8 = [0, 9, 1, 0, 0, 0, 0, 0]"
proof -
  define p where "p = usb_pma_write (ud_pma (usb_demo1 rx tx)) 0x80 [0, 9, 1, 0, 0, 0, 0, 0]"
  have "usb_pma_read (p(6 := 0x8408)) 0x80 8 = usb_pma_read p 0x80 8"
  proof (rule pma_read_cong)
    fix k :: nat assume "2 * k < 8"
    then have "k = 0 \<or> k = 1 \<or> k = 2 \<or> k = 3" by auto
    then show "(p(6 := 0x8408)) (0x80 + of_nat (2 * k)) = p (0x80 + of_nat (2 * k))" by auto
  qed
  also have "\<dots> = [0, 9, 1, 0, 0, 0, 0, 0]"
  proof -
    have l: "length [0, 9, 1, 0, 0, 0, 0, 0 :: u8] = 8" by simp
    show ?thesis unfolding p_def by (rule pma_read_write[of "[0, 9, 1, 0, 0, 0, 0, 0]" "ud_pma (usb_demo1 rx tx)" "0x80", unfolded l]) simp
  qed
  finally show ?thesis by (simp add: usb_demo2_def p_def)
qed

lemma usb_demo2_facts:
  "ud_epr (usb_demo2 rx tx) 0 = 0x8A20" "usb_ep0_get_rx_count (usb_demo2 rx tx) = 8" 
  by (simp_all add: usb_demo2_def usb_ep0_get_rx_count_def USB_BTABLE_EP_RX_COUNT_def)

lemma usb_demo3_facts:
  "ud_ep0_state (usb_demo3 rx tx) = USB_EP0_STATUS_IN \<and> ud_pending_configuration (usb_demo3 rx tx) = 1 \<and> ud_pending_configuration_valid (usb_demo3 rx tx)
   \<and> \<not> ud_pending_address_valid (usb_demo3 rx tx)"
proof -
  define s1 where "s1 = on_diag (\<lambda>g. g\<lparr>dg_transfer_count := dg_transfer_count g + 1\<rparr>) (on_epr 0 (usb_ep_clear_ctr_rx epr_of_manual) (usb_demo2 rx tx))"
  have p: "setup_from_bytes (usb_pma_read (ud_pma (usb_demo2 rx tx)) 0x80 8)
      = \<lparr>sp_bm_request_type = 0, sp_b_request = 9, sp_w_value = 1, sp_w_index = 0, sp_w_length = 0\<rparr>"
    by (simp add: setup_from_bytes_def rd16_def demo_setup_read)
  have h: "usb_ep0_handle_rx epr_of_manual 0x8A20 (usb_demo2 rx tx) = usb_ep0_handle_setup epr_of_manual s1"
    using usb_demo2_facts(2) by (simp add: usb_ep0_handle_rx_def Let_def s1_def)
  define s2 where "s2 = usb_ep0_handle_setup epr_of_manual s1"
  have e: "ud_ep0_state s2 = USB_EP0_STATUS_IN" "ud_pending_configuration s2 = 1" "ud_pending_configuration_valid s2" "\<not> ud_pending_address_valid s2"
    "ud_epr s2 0 = 0x3A30"
    by (simp_all add: s2_def usb_ep0_handle_setup_def p Let_def usb_ep0_standard_out_def usb_ep0_start_status_in_def usb_ep0_send_packet_def
       usb_ep0_set_tx_count_def usb_pma_write16_def on_epr_def on_diag_def usb_ep0_arm_rx_def usb_ep0_reset_transfer_state_def ep_fields[OF epr_of_manual_ok] s1_def usb_demo2_facts)
  have "usb_demo3 rx tx = s2" using usb_demo2_facts(1) h e(5) by (simp add: usb_demo3_def irq_round_def usb_ep0_handle_ctr_def s2_def)
  then show ?thesis using e by simp
qed

lemma usb_demo5_facts:
  "usb_management_is_configured (usb_demo5 rx tx) \<and> ud_tx_head (usb_demo5 rx tx) = 0 \<and> ud_tx_tail (usb_demo5 rx tx) = 0"
proof -
  have s: "ud_ep0_state (usb_demo4 rx tx) = USB_EP0_STATUS_IN" "ud_pending_configuration (usb_demo4 rx tx) = 1" "ud_pending_configuration_valid (usb_demo4 rx tx)"
    "\<not> ud_pending_address_valid (usb_demo4 rx tx)" "ud_epr (usb_demo4 rx tx) 0 = 0x32A0"
    using usb_demo3_facts[of rx tx] by (simp_all add: usb_demo4_def)
  have "usb_demo5 rx tx = usb_ep0_handle_tx epr_of_manual (usb_demo4 rx tx)" by (simp add: usb_demo5_def irq_round_def usb_ep0_handle_ctr_def s)
  then show ?thesis
    by (simp add: usb_ep0_handle_tx_def Let_def on_diag_def on_epr_def s usb_ep0_arm_rx_def usb_ep0_apply_pending_status_action_def usb_management_endpoints_enable_def
        usb_management_reset_rings_def usb_management_is_configured_def usb_pma_write16_def)
qed

text \<open>The two bytes that were written are up for the host.\<close>

definition usb_demo6 :: "bytes \<Rightarrow> bytes \<Rightarrow> usb_device" where
  "usb_demo6 rx tx = snd (usb_management_write_span_atomic epr_of_manual (Some [1, 2]) 2 (usb_demo5 rx tx))"

lemma usb_demo_configured:
  assumes "length rx = 512" "length tx = 1024"
  shows "usb_run epr_of_manual (usb_demo5 rx tx) no_traffic"
proof -
  have r1: "usb_run epr_of_manual (usb_demo1 rx tx) no_traffic" unfolding usb_demo1_def by (rule usb_started) (simp_all add: usb_demo0_def assms)
  have "elsewhere (usb_demo1 rx tx) (usb_demo2 rx tx)"
    unfolding elsewhere_def usb_demo2_def by (intro exI conjI, rule refl) (auto simp: ep4_memory_def ep4_transmit_def word_le_nat_alt word_less_nat_alt)
  then have r2: "usb_run epr_of_manual (usb_demo2 rx tx) no_traffic" by (rule usb_elsewhere[OF r1])
  have m: "\<not> management_round 0 s" for s by (simp add: management_round_def)
  have r3: "usb_run epr_of_manual (usb_demo3 rx tx) no_traffic" using usb_control[OF r2 m usb_demo3_def] by simp
  have "elsewhere (usb_demo3 rx tx) (usb_demo4 rx tx)" unfolding elsewhere_def usb_demo4_def
    by (rule exI[of _ "(ud_epr (usb_demo3 rx tx))(0 := 0x32A0)"], rule exI[of _ "ud_pma (usb_demo3 rx tx)"]) simp
  then have r4: "usb_run epr_of_manual (usb_demo4 rx tx) no_traffic" by (rule usb_elsewhere[OF r3])
  show ?thesis using usb_control[OF r4 m usb_demo5_def] by simp
qed

lemma usb_demo_run:
  assumes "length rx = 512" "length tx = 1024"
  shows "usb_run epr_of_manual (usb_demo6 rx tx) (no_traffic\<lparr>tr_written := [1, 2]\<rparr>)"
proof -
  have "usb_management_write_span_atomic epr_of_manual (Some [1, 2]) 2 (usb_demo5 rx tx) = (True, usb_demo6 rx tx)"
    using usb_demo5_facts[of rx tx] by (simp add: usb_demo6_def usb_management_write_span_atomic_def Let_def)
  from usb_written[OF usb_demo_configured[OF assms] this] show ?thesis by (simp add: no_traffic_def)
qed

theorem management_streams_witness:
  "\<not> (ud_epr (usb_demo6 (replicate 512 0) (replicate 1024 0)) 4 AND USB_EP_STAT_TX_MASK \<noteq> USB_EP_STAT_TX_VALID
     \<and> ud_epr (usb_demo6 (replicate 512 0) (replicate 1024 0)) 4 AND USB_EP_CTR_TX = 0)"
  using management_streams[OF epr_of_manual_ok usb_demo_run[of "replicate 512 0" "replicate 1024 0"]] by (auto simp: no_traffic_def)

end
