(* ===== verification/Usb_Control.thy ===== *)
theory Usb_Control
  imports Usb_Traffic
begin

unbundle bit_operations_syntax

text \<open>
  The control endpoint of \<open>src/src/drivers/usb_device.c\<close>: a host that reads a descriptor gets
  it whole, packet by packet, and a SETUP packet that comes before the end of the request
  before it is handled makes the device lose that request.
\<close>

section \<open>A host that reads\<close>

text \<open>The packet on endpoint 0, and the peripheral when the host took it.\<close>

definition ep0_packet :: "usb_device \<Rightarrow> bytes" where
  "ep0_packet s = usb_pma_read (ud_pma s) USB_EP0_TX_LOCAL (unat (ud_pma s 2 AND USB_COUNT_MASK))"

definition ep0_taken :: "usb_device \<Rightarrow> usb_device" where
  "ep0_taken s = s\<lparr>ud_epr := (ud_epr s)(0 := (ud_epr s 0 AND NOT USB_EP_STAT_TX_MASK) OR (USB_EP_CTR_TX OR USB_EP_STAT_TX_NAK))\<rparr>"

text \<open>A host that wants \<open>want\<close> bytes reads up to a short packet, or until it has them.\<close>

fun host_reads :: "epr_write \<Rightarrow> nat \<Rightarrow> nat \<Rightarrow> usb_device \<Rightarrow> bytes list \<times> usb_device" where
  "host_reads w 0 want s = ([], s)"
| "host_reads w (Suc n) want s =
     (if ud_epr s 0 AND USB_EP_STAT_TX_MASK \<noteq> USB_EP_STAT_TX_VALID then ([], s)
      else let p = ep0_packet s; s1 = irq_round w 0 (ep0_taken s)
        in if length p < 64 \<or> length p \<ge> want then ([p], s1)
           else case host_reads w n (want - length p) s1 of (ps, s2) \<Rightarrow> (p # ps, s2))"

text \<open>
  The packets of a transfer of at most \<open>want\<close> bytes: full ones, and a last one that is shorter,
  if need be empty, or completes the count.
\<close>

definition usb_transfer :: "nat \<Rightarrow> bytes list \<Rightarrow> bool" where
  "usb_transfer want ps \<longleftrightarrow> ps \<noteq> [] \<and> (\<forall>p \<in> set (butlast ps). length p = 64) \<and> length (last ps) \<le> 64
     \<and> (length (last ps) < 64 \<or> length (concat ps) = want)"

definition ep0_sending :: "usb_device \<Rightarrow> bytes \<Rightarrow> nat \<Rightarrow> bool" where
  "ep0_sending s rest want \<longleftrightarrow> ud_ep0_state s = USB_EP0_DATA_IN \<and> \<not> bit (ud_epr s 0) 15 \<and> \<not> bit (ud_epr s 0) 7 \<and> bit (ud_epr s 0) 5 \<and> bit (ud_epr s 0) 4
     \<and> ep0_packet s = take 64 rest \<and> take (unat (ud_ep0_in_remaining s)) (ud_ep0_in_data s) = drop 64 rest
     \<and> unat (ud_ep0_in_remaining s) = length rest - 64 \<and> length rest \<le> want
     \<and> ud_ep0_need_zlp s = (rest \<noteq> [] \<and> length rest < want \<and> length rest mod 64 = 0)"

lemma send_packet_up:
  assumes w: "epr_manual w" and l: "length p \<le> 64" and r: "\<not> bit (ud_epr s 0) 15" "\<not> bit (ud_epr s 0) 7"
  defines "s' \<equiv> usb_ep0_send_packet w p s"
  shows "ep0_packet s' = p \<and> \<not> bit (ud_epr s' 0) 15 \<and> \<not> bit (ud_epr s' 0) 7 \<and> bit (ud_epr s' 0) 5 \<and> bit (ud_epr s' 0) 4
     \<and> (\<exists>epr pma. s' = s\<lparr>ud_epr := epr, ud_pma := pma\<rparr>)"
proof -
  define pma where "pma = usb_pma_write (ud_pma s) 0x40 p"
  have e: "s' = s\<lparr>ud_epr := (ud_epr s)(0 := (ud_epr s 0 AND NOT 0x30) OR (0x30 AND 0x30)), ud_pma := pma(2 := of_nat (length p) AND 0x3FF)\<rparr>"
    by (cases "p = []") (simp_all add: s'_def usb_ep0_send_packet_def Let_def usb_ep0_set_tx_count_def usb_pma_write16_def on_epr_def ep_fields[OF w]
        USB_BTABLE_EP_TX_COUNT_def pma_def)
  have u: "unat (of_nat (length p) :: u16) = length p" using l by (intro u16_of_nat) simp
  then have c: "(of_nat (length p) :: u16) AND 0x3FF = of_nat (length p)" using l by (intro count_mask) simp
  have "usb_pma_read (pma(2 := of_nat (length p))) 0x40 (length p) = usb_pma_read pma 0x40 (length p)"
  proof (rule pma_read_cong)
    fix k assume "2 * k < length p"
    then have "0x40 \<le> (0x40 + of_nat (2 * k) :: u16)" using word_window(3)[OF refl, of k] l by simp
    moreover have "\<not> 0x40 \<le> (2 :: u16)" by (simp add: word_le_nat_alt)
    ultimately have "(0x40 + of_nat (2 * k) :: u16) \<noteq> 2" by metis
    then show "(pma(2 := of_nat (length p))) (0x40 + of_nat (2 * k)) = pma (0x40 + of_nat (2 * k))" by simp
  qed
  also have "\<dots> = p" using pma_read_write[OF l] by (simp add: pma_def)
  finally have "ep0_packet s' = p" using c u by (simp add: ep0_packet_def e)
  then show ?thesis using r e by (auto simp: bit_and_iff bit_or_iff bit_not_iff)
qed

text \<open>What the handler does with a completion.\<close>

lemma taken_round:
  assumes w: "epr_manual w" and r: "\<not> bit (ud_epr s 0) 15" and st: "ud_ep0_state s = USB_EP0_DATA_IN"
  shows "\<exists>s1. irq_round w 0 (ep0_taken s) = (if ud_ep0_in_remaining s \<noteq> 0 then usb_ep0_send_next_in_packet w s1
       else if ud_ep0_need_zlp s then usb_ep0_send_packet w [] (s1\<lparr>ud_ep0_need_zlp := False\<rparr>)
       else usb_ep0_arm_rx w (on_epr 0 (usb_ep_set_tx_status w 0x20) (s1\<lparr>ud_ep0_state := USB_EP0_STATUS_OUT\<rparr>)))
     \<and> (\<exists>epr g. s1 = s\<lparr>ud_epr := epr, ud_diag := g\<rparr> \<and> \<not> bit (epr 0) 15 \<and> \<not> bit (epr 0) 7)"
proof -
  have b: "\<not> bit (ud_epr (ep0_taken s) 0) 15" "bit (ud_epr (ep0_taken s) 0) 7" "ud_ep0_state (ep0_taken s) = USB_EP0_DATA_IN"
    using r st by (simp_all add: ep0_taken_def bit_and_iff bit_or_iff bit_not_iff)
  have e: "irq_round w 0 (ep0_taken s) = usb_ep0_handle_tx w (ep0_taken s)"
    using b unfolding irq_round_def usb_ep0_handle_ctr_def Let_def bit_fields by simp
  define s1 where "s1 = on_diag (\<lambda>g. g\<lparr>dg_transfer_count := dg_transfer_count g + 1\<rparr>) (on_epr 0 (usb_ep_clear_ctr_tx w) (ep0_taken s))"
  have f: "s1 = s\<lparr>ud_epr := (ud_epr s)(0 := ((ud_epr s 0 AND NOT 0x30) OR (0x80 OR 0x20)) AND NOT 0x80), ud_diag := ud_diag s1\<rparr>"
    by (simp add: s1_def on_diag_def on_epr_def ep0_taken_def ep_fields[OF w])
  then have g: "ud_ep0_state s1 = USB_EP0_DATA_IN" "ud_ep0_in_remaining s1 = ud_ep0_in_remaining s" "ud_ep0_need_zlp s1 = ud_ep0_need_zlp s"
    by (simp_all add: s1_def on_diag_def on_epr_def ep0_taken_def st)
  have "irq_round w 0 (ep0_taken s) = (if ud_ep0_in_remaining s \<noteq> 0 then usb_ep0_send_next_in_packet w s1
       else if ud_ep0_need_zlp s then usb_ep0_send_packet w [] (s1\<lparr>ud_ep0_need_zlp := False\<rparr>)
       else usb_ep0_arm_rx w (on_epr 0 (usb_ep_set_tx_status w 0x20) (s1\<lparr>ud_ep0_state := USB_EP0_STATUS_OUT\<rparr>)))"
    unfolding e usb_ep0_handle_tx_def Let_def s1_def[symmetric] g by simp
  moreover have "\<exists>epr g. s1 = s\<lparr>ud_epr := epr, ud_diag := g\<rparr> \<and> \<not> bit (epr 0) 15 \<and> \<not> bit (epr 0) 7"
    by (rule exI[of _ "(ud_epr s)(0 := ((ud_epr s 0 AND NOT 0x30) OR (0x80 OR 0x20)) AND NOT 0x80)"], rule exI[of _ "ud_diag s1"])
      (use f r in \<open>simp add: bit_and_iff bit_or_iff bit_not_iff\<close>)
  ultimately show ?thesis by blast
qed

lemma next_sending:
  assumes w: "epr_manual w" and r: "\<not> bit (ud_epr s 0) 15" "\<not> bit (ud_epr s 0) 7" and st: "ud_ep0_state s = USB_EP0_DATA_IN"
    and d: "take (unat (ud_ep0_in_remaining s)) (ud_ep0_in_data s) = rest" "unat (ud_ep0_in_remaining s) = length rest" "rest \<noteq> []" "length rest \<le> want"
    and z: "ud_ep0_need_zlp s = (length rest < want \<and> length rest mod 64 = 0)"
  shows "ep0_sending (usb_ep0_send_next_in_packet w s) rest want"
proof -
  define len where "len = (if ud_ep0_in_remaining s > 64 then 64 else ud_ep0_in_remaining s)"
  have len: "unat len = min 64 (length rest)" using d(2) by (auto simp: len_def word_less_nat_alt not_less min_def)
  have p: "take (unat len) (ud_ep0_in_data s) = take 64 rest"
  proof -
    have "take 64 (take (unat (ud_ep0_in_remaining s)) (ud_ep0_in_data s)) = take (min 64 (unat (ud_ep0_in_remaining s))) (ud_ep0_in_data s)" by (rule take_take)
    then show ?thesis unfolding d(1) by (simp only: d(2) len)
  qed
  note u = send_packet_up[OF w _ r, of "take 64 rest", simplified]
  define s1 where "s1 = usb_ep0_send_packet w (take 64 rest) s"
  have e: "usb_ep0_send_next_in_packet w s = s1\<lparr>ud_ep0_in_data := drop (unat len) (ud_ep0_in_data s1), ud_ep0_in_remaining := ud_ep0_in_remaining s1 - len\<rparr>"
    unfolding usb_ep0_send_next_in_packet_def Let_def len_def[symmetric] p s1_def[symmetric] ..
  have f: "ud_ep0_in_data s1 = ud_ep0_in_data s" "ud_ep0_in_remaining s1 = ud_ep0_in_remaining s" "ud_ep0_state s1 = USB_EP0_DATA_IN" "ud_ep0_need_zlp s1 = ud_ep0_need_zlp s"
  proof -
    obtain epr pma where "s1 = s\<lparr>ud_epr := epr, ud_pma := pma\<rparr>" using u unfolding s1_def by blast
    then show "ud_ep0_in_data s1 = ud_ep0_in_data s" "ud_ep0_in_remaining s1 = ud_ep0_in_remaining s" "ud_ep0_state s1 = USB_EP0_DATA_IN" "ud_ep0_need_zlp s1 = ud_ep0_need_zlp s"
      using st by simp_all
  qed
  have le: "len \<le> ud_ep0_in_remaining s" by (simp add: len_def less_imp_le)
  have rem: "unat (ud_ep0_in_remaining s - len) = length rest - 64" using unat_sub[OF le] len d(2) by simp
  have "take (length rest - 64) (drop (unat len) (ud_ep0_in_data s)) = drop 64 rest"
  proof -
    have "take (length rest - 64) (drop (unat len) (ud_ep0_in_data s)) = drop (unat len) (take (length rest - 64 + unat len) (ud_ep0_in_data s))" by (simp add: drop_take)
    also have "\<dots> = drop 64 rest"
    proof (cases "64 \<le> length rest")
      case True
      then show ?thesis using len d(1,2) by simp
    next
      case False
      then show ?thesis using len d(1,2) by simp
    qed
    finally show ?thesis .
  qed
  moreover have "ep0_packet (s1\<lparr>ud_ep0_in_data := a, ud_ep0_in_remaining := b\<rparr>) = ep0_packet s1" for a b by (simp add: ep0_packet_def)
  ultimately show ?thesis using u rem z d(3,4) f by (simp add: ep0_sending_def e s1_def[symmetric])
qed

text \<open>The end of the data: the device waits for the status packet.\<close>

definition awaits_status :: "usb_device \<Rightarrow> bool" where
  "awaits_status s \<longleftrightarrow> ud_ep0_state s = USB_EP0_STATUS_OUT \<and> ud_epr s 0 AND USB_EP_STAT_RX_MASK = USB_EP_STAT_RX_VALID"

lemma taken_sending:
  assumes w: "epr_manual w" and i: "ep0_sending s rest want"
  defines "s1 \<equiv> irq_round w 0 (ep0_taken s)"
  shows "if 64 < length rest then ep0_sending s1 (drop 64 rest) (want - 64)
     else if length rest = 64 \<and> 64 < want then ep0_sending s1 [] (want - 64) else awaits_status s1"
proof -
  have f: "\<not> bit (ud_epr s 0) 15" "ud_ep0_state s = USB_EP0_DATA_IN" "take (unat (ud_ep0_in_remaining s)) (ud_ep0_in_data s) = drop 64 rest"
    "unat (ud_ep0_in_remaining s) = length rest - 64" "length rest \<le> want"
    using i unfolding ep0_sending_def by blast+
  have fz: "ud_ep0_need_zlp s = (rest \<noteq> [] \<and> length rest < want \<and> length rest mod 64 = 0)"
    using i unfolding ep0_sending_def by (elim conjE)
  obtain x epr g where x: "s1 = (if ud_ep0_in_remaining s \<noteq> 0 then usb_ep0_send_next_in_packet w x
       else if ud_ep0_need_zlp s then usb_ep0_send_packet w [] (x\<lparr>ud_ep0_need_zlp := False\<rparr>)
       else usb_ep0_arm_rx w (on_epr 0 (usb_ep_set_tx_status w 0x20) (x\<lparr>ud_ep0_state := USB_EP0_STATUS_OUT\<rparr>)))"
     "x = s\<lparr>ud_epr := epr, ud_diag := g\<rparr>" "\<not> bit (epr 0) 15" "\<not> bit (epr 0) 7"
    using taken_round[OF w f(1,2)] unfolding s1_def by blast
  have z: "ud_ep0_in_remaining s \<noteq> 0 \<longleftrightarrow> 64 < length rest" using f(4) by (auto simp: unat_eq_0[symmetric])
  consider (more) "64 < length rest" | (zlp) "length rest = 64" "64 < want" | (over) "\<not> 64 < length rest" "\<not> (length rest = 64 \<and> 64 < want)" by blast
  then show ?thesis
  proof cases
    case more
    then have "length rest mod 64 = (length rest - 64) mod 64" "rest \<noteq> []" by (auto simp: le_mod_geq)
    then have "ep0_sending (usb_ep0_send_next_in_packet w x) (drop 64 rest) (want - 64)"
      using more f fz by (intro next_sending[OF w]) (auto simp: x(2-4))
    then show ?thesis using more z x(1) by simp
  next
    case zlp
    then have rz: "rest \<noteq> []" by auto
    define y where "y = x\<lparr>ud_ep0_need_zlp := False\<rparr>"
    have e: "s1 = usb_ep0_send_packet w [] y" using x(1) zlp z fz rz by (simp add: y_def)
    have y: "ud_ep0_state y = USB_EP0_DATA_IN" "ud_ep0_in_remaining y = ud_ep0_in_remaining s" "ud_ep0_in_data y = ud_ep0_in_data s" "\<not> ud_ep0_need_zlp y"
      "ud_epr y = epr" using f(2) by (simp_all add: y_def x(2))
    obtain epr' pma' where u: "s1 = y\<lparr>ud_epr := epr', ud_pma := pma'\<rparr>" "ep0_packet s1 = []" "\<not> bit (ud_epr s1 0) 15" "\<not> bit (ud_epr s1 0) 7" "bit (ud_epr s1 0) 5" "bit (ud_epr s1 0) 4"
      using send_packet_up[OF w, of "[]" y] x(3,4) y(5) unfolding e by auto
    have "ep0_sending s1 [] (want - 64)" using u(2-6) y(1-4) z zlp(1) unfolding ep0_sending_def by (simp add: u(1))
    then show ?thesis using zlp by simp
  next
    case over
    then have nz: "\<not> ud_ep0_need_zlp s"
    proof -
      consider "length rest = 64" | "length rest < 64" using over by linarith
      then show ?thesis
      proof cases
        case 1
        then show ?thesis using over f(5) fz by auto
      next
        case 2
        then have "length rest mod 64 = length rest" by simp
        then show ?thesis using fz by simp
      qed
    qed
    have e: "s1 = usb_ep0_arm_rx w (on_epr 0 (usb_ep_set_tx_status w 0x20) (x\<lparr>ud_ep0_state := USB_EP0_STATUS_OUT\<rparr>))" using x(1) z over nz by simp
    have "awaits_status s1" unfolding awaits_status_def bit_fields by (simp add: e usb_ep0_arm_rx_def on_epr_def ep_fields[OF w] bit_and_iff bit_or_iff bit_not_iff)
    then show ?thesis using over by auto
  qed
qed

lemma transfer_Cons:
  assumes "length p = 64" "usb_transfer (want - 64) ps" "64 < want"
  shows "usb_transfer want (p # ps)"
  using assms by (auto simp: usb_transfer_def)

lemma host_reads_all:
  assumes w: "epr_manual w"
  shows "ep0_sending s rest want \<Longrightarrow> length rest div 64 + 2 \<le> n \<Longrightarrow>
    \<exists>ps s'. host_reads w n want s = (ps, s') \<and> concat ps = rest \<and> usb_transfer want ps \<and> awaits_status s'"
proof (induction n arbitrary: s rest want)
  case (Suc n)
  note t = taken_sending[OF w Suc.prems(1)]
  have p: "ud_epr s 0 AND 0x30 = 0x30" "ep0_packet s = take 64 rest" "length rest \<le> want" using Suc.prems(1) unfolding bit_fields by (simp_all add: ep0_sending_def)
  have e: "host_reads w (Suc n) want s = (if length (take 64 rest) < 64 \<or> length (take 64 rest) \<ge> want then ([take 64 rest], irq_round w 0 (ep0_taken s))
      else case host_reads w n (want - length (take 64 rest)) (irq_round w 0 (ep0_taken s)) of (ps, s2) \<Rightarrow> (take 64 rest # ps, s2))"
    using p(1,2) by (simp add: Let_def)
  consider (more) "64 < length rest" | (zlp) "length rest = 64" "64 < want" | (last) "\<not> 64 < length rest" "\<not> (length rest = 64 \<and> 64 < want)" by blast
  then show ?case
  proof cases
    case more
    have dv: "length rest div 64 = (length rest - 64) div 64 + 1" using more by (simp add: le_div_geq)
    have i: "ep0_sending (irq_round w 0 (ep0_taken s)) (drop 64 rest) (want - 64)" using t more by simp
    have "length (drop 64 rest) div 64 + 2 \<le> n" using Suc.prems(2) dv by simp
    from Suc.IH[OF i this] obtain ps s' where h: "host_reads w n (want - 64) (irq_round w 0 (ep0_taken s)) = (ps, s')" "concat ps = drop 64 rest"
      "usb_transfer (want - 64) ps" "awaits_status s'" by blast
    have "host_reads w (Suc n) want s = (take 64 rest # ps, s')" unfolding e using more p(3) h(1) by simp
    moreover have "usb_transfer want (take 64 rest # ps)" by (rule transfer_Cons[OF _ h(3)]) (use more p(3) in simp_all)
    ultimately show ?thesis using h by simp
  next
    case zlp
    have i: "ep0_sending (irq_round w 0 (ep0_taken s)) [] (want - 64)" using t zlp by simp
    have "length ([] :: bytes) div 64 + 2 \<le> n" using Suc.prems(2) zlp by simp
    from Suc.IH[OF i this] obtain ps s' where h: "host_reads w n (want - 64) (irq_round w 0 (ep0_taken s)) = (ps, s')" "concat ps = []"
      "usb_transfer (want - 64) ps" "awaits_status s'" by auto
    have "host_reads w (Suc n) want s = (take 64 rest # ps, s')" unfolding e using zlp h(1) by simp
    moreover have "usb_transfer want (take 64 rest # ps)" by (rule transfer_Cons[OF _ h(3)]) (use zlp in simp_all)
    ultimately show ?thesis using h zlp by simp
  next
    case last
    have "awaits_status (irq_round w 0 (ep0_taken s))" using t last by simp
    moreover have l: "length rest = 64 \<and> want = 64 \<or> length rest < 64" using last p(3) by linarith
    then have "usb_transfer want [take 64 rest]" by (auto simp: usb_transfer_def)
    moreover have "length (take 64 rest) < 64 \<or> want \<le> length (take 64 rest)" using l by auto
    ultimately show ?thesis unfolding e using last by auto
  qed
qed simp

section \<open>From the SETUP packet on\<close>

definition setup_pending :: "usb_device \<Rightarrow> usb_setup_packet \<Rightarrow> bool" where
  "setup_pending s pk \<longleftrightarrow> ud_epr s 0 AND USB_EP_CTR_RX \<noteq> 0 \<and> ud_epr s 0 AND USB_EP_SETUP \<noteq> 0 \<and> usb_ep0_get_rx_count s = 8
     \<and> setup_from_bytes (usb_pma_read (ud_pma s) USB_EP0_RX_LOCAL 8) = pk"

lemma start_sending:
  assumes w: "epr_manual w" and r: "\<not> bit (ud_epr s 0) 15" "\<not> bit (ud_epr s 0) 7" and d: "data \<noteq> []" "length data < 65536" and n: "req \<noteq> 0"
  shows "ep0_sending (usb_ep0_start_in w data req s) (take (unat req) data) (unat req)"
proof -
  define len where "len = (if of_nat (length data) > req then req else of_nat (length data))"
  have u: "unat (of_nat (length data) :: u16) = length data" by (rule u16_of_nat[OF d(2)])
  have len: "unat len = min (length data) (unat req)" using u by (auto simp: len_def word_less_nat_alt not_less min_def)
  have rq: "0 < unat req" using n by (simp add: unat_gt_0)
  have nz: "len \<noteq> 0" using len d(1) rq by (metis length_greater_0_conv min_less_iff_conj unat_gt_0)
  define s1 where "s1 = s\<lparr>ud_ep0_in_data := data, ud_ep0_in_remaining := len,
                 ud_ep0_need_zlp := (len \<noteq> 0 \<and> len < req \<and> len mod 64 = 0), ud_ep0_state := USB_EP0_DATA_IN\<rparr>"
  have e: "usb_ep0_start_in w data req s = usb_ep0_send_next_in_packet w s1"
    unfolding usb_ep0_start_in_def Let_def len_def[symmetric] s1_def[symmetric] using nz by simp
  have m: "len mod 64 = 0 \<longleftrightarrow> unat len mod 64 = 0" by (simp add: word_unat_eq_iff unat_mod)
  show ?thesis unfolding e
    by (rule next_sending[OF w]) (use r len d(1) rq m nz in \<open>auto simp: s1_def word_less_nat_alt min_def\<close>)
qed

lemma setup_state:
  assumes w: "epr_manual w" and p: "setup_pending s pk"
  obtains epr g where "usb_ep0_handle_rx w (ud_epr s 0) s = (case (if sp_bm_request_type pk AND USB_REQ_DIR_IN \<noteq> 0
               then (if sp_bm_request_type pk AND USB_REQ_TYPE_MASK = USB_REQ_TYPE_STANDARD then usb_ep0_standard_in w pk ((usb_ep0_reset_transfer_state s)\<lparr>ud_epr := epr, ud_diag := g\<rparr>)
                     else if sp_bm_request_type pk AND USB_REQ_TYPE_MASK = USB_REQ_TYPE_VENDOR then usb_ep0_vendor_in w pk ((usb_ep0_reset_transfer_state s)\<lparr>ud_epr := epr, ud_diag := g\<rparr>)
                     else (False, (usb_ep0_reset_transfer_state s)\<lparr>ud_epr := epr, ud_diag := g\<rparr>))
               else (if sp_bm_request_type pk AND USB_REQ_TYPE_MASK = USB_REQ_TYPE_STANDARD then usb_ep0_standard_out w pk ((usb_ep0_reset_transfer_state s)\<lparr>ud_epr := epr, ud_diag := g\<rparr>)
                     else (False, (usb_ep0_reset_transfer_state s)\<lparr>ud_epr := epr, ud_diag := g\<rparr>)))
         of (handled, s3) \<Rightarrow> if \<not> handled then usb_ep0_stall w s3 else s3)"
    "\<not> bit (epr 0) 15" "bit (epr 0) 7 = bit (ud_epr s 0) 7" "dg_configuration g = dg_configuration (ud_diag s)"
proof -
  define s1 where "s1 = on_diag (\<lambda>g. g\<lparr>dg_transfer_count := dg_transfer_count g + 1\<rparr>) (on_epr 0 (usb_ep_clear_ctr_rx w) s)"
  define s2 where "s2 = usb_ep0_arm_rx w (on_epr 0 (usb_ep_set_tx_status w 0x20) (usb_ep0_reset_transfer_state
     (on_diag (\<lambda>g. g\<lparr>dg_setup_count := dg_setup_count g + 1, dg_last_bm_request_type := ucast (sp_bm_request_type pk),
                              dg_last_b_request := ucast (sp_b_request pk)\<rparr>) s1)))"
  have pm: "ud_pma s1 = ud_pma s" by (simp add: s1_def on_diag_def on_epr_def)
  have q: "setup_from_bytes (usb_pma_read (ud_pma s1) 0x80 8) = pk" using p pm by (simp add: setup_pending_def)
  have h: "usb_ep0_handle_rx w (ud_epr s 0) s = usb_ep0_handle_setup w s1"
    using p unfolding usb_ep0_handle_rx_def Let_def s1_def[symmetric] by (simp add: setup_pending_def)
  have e2: "s2 = (usb_ep0_reset_transfer_state s)\<lparr>ud_epr := ud_epr s2, ud_diag := ud_diag s2\<rparr>"
    by (simp add: s2_def s1_def on_diag_def on_epr_def usb_ep0_arm_rx_def usb_ep0_reset_transfer_state_def)
  have b: "\<not> bit (ud_epr s2 0) 15" "bit (ud_epr s2 0) 7 = bit (ud_epr s 0) 7" "dg_configuration (ud_diag s2) = dg_configuration (ud_diag s)"
    by (simp_all add: s2_def s1_def on_diag_def on_epr_def usb_ep0_arm_rx_def usb_ep0_reset_transfer_state_def ep_fields[OF w] bit_and_iff bit_or_iff bit_not_iff)
  show ?thesis
  proof (rule that[of "ud_diag s2" "ud_epr s2", OF _ b])
    show "usb_ep0_handle_rx w (ud_epr s 0) s = (case (if sp_bm_request_type pk AND USB_REQ_DIR_IN \<noteq> 0
               then (if sp_bm_request_type pk AND USB_REQ_TYPE_MASK = USB_REQ_TYPE_STANDARD then usb_ep0_standard_in w pk ((usb_ep0_reset_transfer_state s)\<lparr>ud_epr := ud_epr s2, ud_diag := ud_diag s2\<rparr>)
                     else if sp_bm_request_type pk AND USB_REQ_TYPE_MASK = USB_REQ_TYPE_VENDOR then usb_ep0_vendor_in w pk ((usb_ep0_reset_transfer_state s)\<lparr>ud_epr := ud_epr s2, ud_diag := ud_diag s2\<rparr>)
                     else (False, (usb_ep0_reset_transfer_state s)\<lparr>ud_epr := ud_epr s2, ud_diag := ud_diag s2\<rparr>))
               else (if sp_bm_request_type pk AND USB_REQ_TYPE_MASK = USB_REQ_TYPE_STANDARD then usb_ep0_standard_out w pk ((usb_ep0_reset_transfer_state s)\<lparr>ud_epr := ud_epr s2, ud_diag := ud_diag s2\<rparr>)
                     else (False, (usb_ep0_reset_transfer_state s)\<lparr>ud_epr := ud_epr s2, ud_diag := ud_diag s2\<rparr>)))
         of (handled, s3) \<Rightarrow> if \<not> handled then usb_ep0_stall w s3 else s3)"
      unfolding h usb_ep0_handle_setup_def Let_def q s2_def[symmetric] e2[symmetric] by (rule refl)
  qed
qed

lemma descriptor_fits: "usb_get_descriptor pk = Some d \<Longrightarrow> d \<noteq> [] \<and> length d < 65536"
  by (auto simp: usb_get_descriptor_def Let_def usb_device_descriptor_def usb_configuration_descriptor_def usb_bos_descriptor_def
      usb_string_language_def usb_string_product_def wide_def split: if_splits)

text \<open>A host that asks for the device descriptor: the packet is in the buffer.\<close>

definition asks_device :: "u8 \<Rightarrow> u16 \<Rightarrow> usb_device \<Rightarrow> usb_device" where
  "asks_device n v s = s\<lparr>ud_epr := (ud_epr s)(0 := v), ud_pma := (usb_pma_write (ud_pma s) 0x80 [0x80, 6, 0, 1, 0, 0, n, 0])(6 := 0x8408)\<rparr>"

lemma asks_device_pending:
  assumes "v AND USB_EP_CTR_RX \<noteq> 0" "v AND USB_EP_SETUP \<noteq> 0"
  shows "setup_pending (asks_device n v s) \<lparr>sp_bm_request_type = 0x80, sp_b_request = 6, sp_w_value = 0x100, sp_w_index = 0, sp_w_length = ucast n\<rparr>"
proof -
  define p where "p = usb_pma_write (ud_pma s) 0x80 [0x80, 6, 0, 1, 0, 0, n, 0]"
  have "usb_pma_read (p(6 := 0x8408)) 0x80 8 = usb_pma_read p 0x80 8"
  proof (rule pma_read_cong)
    fix k :: nat assume "2 * k < 8"
    then have "k = 0 \<or> k = 1 \<or> k = 2 \<or> k = 3" by auto
    then show "(p(6 := 0x8408)) (0x80 + of_nat (2 * k)) = p (0x80 + of_nat (2 * k))" by auto
  qed
  also have "\<dots> = [0x80, 6, 0, 1, 0, 0, n, 0]"
  proof -
    have l: "length [0x80, 6, 0, 1, 0, 0, n, 0] = 8" by simp
    show ?thesis unfolding p_def by (rule pma_read_write[of "[0x80, 6, 0, 1, 0, 0, n, 0]" "ud_pma s" "0x80", unfolded l]) simp
  qed
  finally have r: "usb_pma_read (ud_pma (asks_device n v s)) 0x80 8 = [0x80, 6, 0, 1, 0, 0, n, 0]" by (simp add: asks_device_def p_def)
  have c: "usb_ep0_get_rx_count (asks_device n v s) = 8" "ud_epr (asks_device n v s) 0 = v"
    by (simp_all add: asks_device_def usb_ep0_get_rx_count_def USB_BTABLE_EP_RX_COUNT_def)
  show ?thesis using assms unfolding setup_pending_def r by (simp add: c setup_from_bytes_def rd16_def)
qed

text \<open>The data of a request the device answers: a descriptor, or the Microsoft descriptor set.\<close>

definition requested_data :: "usb_setup_packet \<Rightarrow> bytes option" where
  "requested_data pk =
     (if sp_bm_request_type pk = 0x80 \<and> sp_b_request pk = USB_REQ_GET_DESCRIPTOR then usb_get_descriptor pk
      else if sp_bm_request_type pk = 0xC0 \<and> sp_b_request pk = USB_MS_OS_20_VENDOR_CODE \<and> sp_w_value pk = 0 \<and> sp_w_index pk = USB_MS_OS_20_DESCRIPTOR_INDEX
      then Some usb_ms_os_20_descriptor_set else None)"

lemma requested_fits: "requested_data pk = Some d \<Longrightarrow> d \<noteq> [] \<and> length d < 65536"
  using descriptor_fits descriptor_lengths by (auto simp: requested_data_def split: if_splits)

lemma request_started:
  assumes w: "epr_manual w" and p: "setup_pending s pk" and c: "ud_epr s 0 AND USB_EP_CTR_TX = 0"
    and k: "sp_w_length pk \<noteq> 0" "requested_data pk = Some d"
  shows "\<exists>x. irq_round w 0 s = usb_ep0_start_in w d (sp_w_length pk) x \<and> \<not> bit (ud_epr x 0) 15 \<and> \<not> bit (ud_epr x 0) 7"
proof -
  obtain g epr where h: "usb_ep0_handle_rx w (ud_epr s 0) s = (case (if sp_bm_request_type pk AND USB_REQ_DIR_IN \<noteq> 0
               then (if sp_bm_request_type pk AND USB_REQ_TYPE_MASK = USB_REQ_TYPE_STANDARD then usb_ep0_standard_in w pk ((usb_ep0_reset_transfer_state s)\<lparr>ud_epr := epr, ud_diag := g\<rparr>)
                     else if sp_bm_request_type pk AND USB_REQ_TYPE_MASK = USB_REQ_TYPE_VENDOR then usb_ep0_vendor_in w pk ((usb_ep0_reset_transfer_state s)\<lparr>ud_epr := epr, ud_diag := g\<rparr>)
                     else (False, (usb_ep0_reset_transfer_state s)\<lparr>ud_epr := epr, ud_diag := g\<rparr>))
               else (if sp_bm_request_type pk AND USB_REQ_TYPE_MASK = USB_REQ_TYPE_STANDARD then usb_ep0_standard_out w pk ((usb_ep0_reset_transfer_state s)\<lparr>ud_epr := epr, ud_diag := g\<rparr>)
                     else (False, (usb_ep0_reset_transfer_state s)\<lparr>ud_epr := epr, ud_diag := g\<rparr>)))
         of (handled, s3) \<Rightarrow> if \<not> handled then usb_ep0_stall w s3 else s3)"
    and b: "\<not> bit (epr 0) 15" "bit (epr 0) 7 = bit (ud_epr s 0) 7" using setup_state[OF w p] by blast
  define x where "x = (usb_ep0_reset_transfer_state s)\<lparr>ud_epr := epr, ud_diag := g\<rparr>"
  have "\<not> bit (ud_epr s 0) 7" using c bit_fields(4)[of "ud_epr s 0"] by blast
  then have r: "\<not> bit (ud_epr x 0) 15" "\<not> bit (ud_epr x 0) 7" using b by (simp_all add: x_def)
  define y where "y = (if sp_bm_request_type pk = 0x80 then x
    else on_diag (\<lambda>g. g\<lparr>dg_management_ms_os_20_request_count := dg_management_ms_os_20_request_count g + 1\<rparr>) x)"
  have yr: "\<not> bit (ud_epr y 0) 15" "\<not> bit (ud_epr y 0) 7" using r by (simp_all add: y_def on_diag_def)
  have e: "usb_ep0_handle_rx w (ud_epr s 0) s = usb_ep0_start_in w d (sp_w_length pk) y"
  proof (cases "sp_bm_request_type pk = 0x80")
    case True
    then show ?thesis using k(2) unfolding h x_def[symmetric] usb_ep0_standard_in_def Let_def
      by (simp add: requested_data_def y_def split: if_splits)
  next
    case False
    then show ?thesis using k(2) unfolding h x_def[symmetric] usb_ep0_vendor_in_def
      by (simp add: requested_data_def y_def split: if_splits)
  qed
  have "ep0_sending (usb_ep0_start_in w d (sp_w_length pk) y) (take (unat (sp_w_length pk)) d) (unat (sp_w_length pk))"
    by (rule start_sending[OF w yr _ _ k(1)]) (use requested_fits[OF k(2)] in auto)
  then have n: "\<not> bit (ud_epr (usb_ep0_start_in w d (sp_w_length pk) y) 0) 7" by (simp add: ep0_sending_def)
  have q: "ud_epr s 0 AND USB_EP_CTR_RX \<noteq> 0" using p by (simp add: setup_pending_def)
  have "irq_round w 0 s = usb_ep0_handle_ctr w s" by (simp add: irq_round_def)
  also have "\<dots> = usb_ep0_start_in w d (sp_w_length pk) y"
    using q n unfolding usb_ep0_handle_ctr_def Let_def e bit_fields by simp
  finally show ?thesis using yr by blast
qed

lemma start_in_delivers:
  assumes w: "epr_manual w" and r: "\<not> bit (ud_epr x 0) 15" "\<not> bit (ud_epr x 0) 7" and d: "data \<noteq> []" "length data < 65536" and n: "req \<noteq> 0"
  shows "\<exists>ps s'. host_reads w (unat req div 64 + 2) (unat req) (usb_ep0_start_in w data req x) = (ps, s')
     \<and> concat ps = take (unat req) data \<and> usb_transfer (unat req) ps \<and> awaits_status s'"
proof -
  have "length (take (unat req) data) div 64 + 2 \<le> unat req div 64 + 2" by (intro add_mono div_le_mono) simp_all
  from host_reads_all[OF w start_sending[OF w r d n] this] show ?thesis .
qed

text \<open>
  C18: A host that asks for a descriptor the device has, or for its Microsoft descriptor set,
  gets the first bytes of it, as many as it asked for or all there are. They come in full packets
  of 64 bytes, of which the descriptor set takes three, and a last packet that is shorter or
  completes the count, and after it the device waits for the status packet; one read for each 64
  bytes asked for and one more are enough. The transfer does so for any data, whatever its
  length: where that is a multiple of 64 and below the count, an empty packet ends it.
\<close>
theorem control_read_delivers:
  assumes w: "epr_manual w" and p: "setup_pending s pk" and c: "ud_epr s 0 AND USB_EP_CTR_TX = 0"
    and k: "sp_w_length pk \<noteq> 0" "requested_data pk = Some d"
    and x: "ud_epr x 0 AND USB_EP_CTR_RX = 0" "ud_epr x 0 AND USB_EP_CTR_TX = 0" "data \<noteq> []" "length data < 65536"
  shows "(\<exists>ps s'. host_reads w (unat (sp_w_length pk) div 64 + 2) (unat (sp_w_length pk)) (irq_round w 0 s) = (ps, s')
       \<and> concat ps = take (unat (sp_w_length pk)) d \<and> usb_transfer (unat (sp_w_length pk)) ps \<and> awaits_status s')
     \<and> (\<exists>ps s'. host_reads w (unat (sp_w_length pk) div 64 + 2) (unat (sp_w_length pk)) (usb_ep0_start_in w data (sp_w_length pk) x) = (ps, s')
       \<and> concat ps = take (unat (sp_w_length pk)) data \<and> usb_transfer (unat (sp_w_length pk)) ps \<and> awaits_status s')"
proof -
  obtain y where y: "irq_round w 0 s = usb_ep0_start_in w d (sp_w_length pk) y" "\<not> bit (ud_epr y 0) 15" "\<not> bit (ud_epr y 0) 7"
    using request_started[OF w p c k] by blast
  have r: "\<not> bit (ud_epr x 0) 15" "\<not> bit (ud_epr x 0) 7" using x(1,2) bit_fields(2,4)[of "ud_epr x 0"] by simp_all
  show ?thesis
    using start_in_delivers[OF w y(2,3) _ _ k(1), of d] requested_fits[OF k(2)] start_in_delivers[OF w r x(3,4) k(1)] unfolding y(1) by blast
qed

text \<open>The device descriptor, and 128 bytes where 255 were asked for: an empty packet is the third.\<close>

theorem control_read_delivers_witness:
  "(\<exists>ps s'. host_reads epr_of_manual 2 18 (irq_round epr_of_manual 0 (asks_device 18 0x8A20 (usb_demo1 [] []))) = (ps, s') \<and> concat ps = usb_device_descriptor)
   \<and> (\<exists>ps s'. host_reads epr_of_manual 5 255 (usb_ep0_start_in epr_of_manual (replicate 128 7) 255 (usb_demo0 [] [])) = (ps, s')
        \<and> concat ps = replicate 128 7 \<and> length (last ps) < 64)"
proof -
  define pk where "pk n = \<lparr>sp_bm_request_type = 0x80, sp_b_request = 6, sp_w_value = 0x100, sp_w_index = 0, sp_w_length = n\<rparr>" for n
  have c: "ud_epr (asks_device n 0x8A20 (usb_demo1 [] [])) 0 AND USB_EP_CTR_TX = 0" for n by (simp add: asks_device_def)
  have d: "requested_data (pk n) = Some usb_device_descriptor" for n by (simp add: requested_data_def usb_get_descriptor_def pk_def)
  have p: "setup_pending (asks_device n 0x8A20 (usb_demo1 [] [])) (pk (ucast n))" for n
    unfolding pk_def by (rule asks_device_pending) simp_all
  have x: "ud_epr (usb_demo0 [] []) 0 AND USB_EP_CTR_RX = 0" "ud_epr (usb_demo0 [] []) 0 AND USB_EP_CTR_TX = 0"
    by (simp_all add: usb_demo0_def)
  have l: "sp_w_length (pk (ucast (18 :: u8))) = 18" "sp_w_length (pk (ucast (255 :: u8))) = 255" by (simp_all add: pk_def)
  have nz: "(18 :: u16) \<noteq> 0" "(255 :: u16) \<noteq> 0" "[7 :: u8, 7] \<noteq> []" "length (replicate 128 (7 :: u8)) < 65536" "replicate 128 (7 :: u8) \<noteq> []"
    by simp_all
  have u: "unat (18 :: u16) = 18" "unat (255 :: u16) = 255" "18 div 64 + 2 = (2 :: nat)" "255 div 64 + 2 = (5 :: nat)" by simp_all
  note t1 = control_read_delivers[OF epr_of_manual_ok p[of 18] c[of 18] _ d[of "ucast (18 :: u8)"] x nz(5,4), unfolded l u, OF nz(1)]
  note t2 = control_read_delivers[OF epr_of_manual_ok p[of 255] c[of 255] _ d[of "ucast (255 :: u8)"] x nz(5,4), unfolded l u, OF nz(2)]
  obtain ps s' where a: "host_reads epr_of_manual 2 18 (irq_round epr_of_manual 0 (asks_device 18 0x8A20 (usb_demo1 [] []))) = (ps, s')"
    "concat ps = take 18 usb_device_descriptor"
    using t1 by blast
  obtain qs u where b: "host_reads epr_of_manual 5 255 (usb_ep0_start_in epr_of_manual (replicate 128 7) 255 (usb_demo0 [] [])) = (qs, u)"
    "concat qs = take 255 (replicate 128 7)" "usb_transfer 255 qs"
    using t2 by blast
  have "length (last qs) < 64" using b(2,3) by (auto simp: usb_transfer_def)
  then show ?thesis using a b(1,2) descriptor_lengths(1) by auto
qed

section \<open>A completion and a SETUP packet together\<close>

lemma descriptor_short: "usb_get_descriptor pk = Some d \<Longrightarrow> length d < 64"
  by (auto simp: usb_get_descriptor_def Let_def usb_device_descriptor_def usb_configuration_descriptor_def usb_bos_descriptor_def
      usb_string_language_def usb_string_product_def wide_def split: if_splits)

lemma start_in_short:
  fixes x :: usb_device
  assumes w: "epr_manual w" and d: "d \<noteq> []" "length d < 64" and n: "req \<noteq> 0"
  defines "y \<equiv> usb_ep0_start_in w d req x"
  shows "ud_ep0_state y = USB_EP0_DATA_IN \<and> ud_ep0_in_remaining y = 0 \<and> \<not> ud_ep0_need_zlp y \<and> bit (ud_epr y 0) 7 = bit (ud_epr x 0) 7
     \<and> ud_pending_configuration_valid y = ud_pending_configuration_valid x \<and> ud_diag y = ud_diag x"
proof -
  define len where "len = (if of_nat (length d) > req then req else of_nat (length d))"
  have u: "unat (of_nat (length d) :: u16) = length d" using d(2) by (intro u16_of_nat) simp
  have len: "unat len = min (length d) (unat req)" using u by (auto simp: len_def word_less_nat_alt not_less min_def)
  have rq: "0 < unat req" using n by (simp add: unat_gt_0)
  have nz: "len \<noteq> 0" using len d(1) rq by (metis length_greater_0_conv min_less_iff_conj unat_gt_0)
  have small: "\<not> len > 64" using len d(2) by (simp add: word_less_nat_alt)
  have "unat (len mod 64) = unat len" using len d(2) by (simp add: unat_mod)
  then have z: "len mod 64 \<noteq> 0" using nz by (metis unat_eq_0)
  define s1 where "s1 = x\<lparr>ud_ep0_in_data := d, ud_ep0_in_remaining := len, ud_ep0_need_zlp := False, ud_ep0_state := USB_EP0_DATA_IN\<rparr>"
  have e: "y = usb_ep0_send_next_in_packet w s1"
    unfolding y_def usb_ep0_start_in_def Let_def len_def[symmetric] s1_def using nz z by simp
  have l: "(if ud_ep0_in_remaining s1 > 64 then 64 else ud_ep0_in_remaining s1) = len" using small by (simp add: s1_def)
  show ?thesis unfolding e usb_ep0_send_next_in_packet_def l Let_def
    by (simp add: usb_ep0_send_packet_def Let_def usb_ep0_set_tx_count_def usb_pma_write16_def on_epr_def ep_fields[OF w] s1_def
        bit_and_iff bit_or_iff bit_not_iff)
qed

text \<open>
  C20: A completion on endpoint 0 that the handler finds together with a SETUP packet is handled
  after it, in the state the new request has set up. So when the host has taken the status
  packet of a request that sets a configuration and at once sends a request for a descriptor,
  the handler forgets the configuration, which stays what it was, then takes the old completion
  for that of the new packet: the device goes on to the status stage, its endpoint answers not
  ready, and the host reads nothing.
\<close>
theorem setup_overtakes_completion:
  assumes w: "epr_manual w" and p: "setup_pending s pk" and c: "ud_epr s 0 AND USB_EP_CTR_TX \<noteq> 0"
    and k: "sp_b_request pk = USB_REQ_GET_DESCRIPTOR" "sp_w_length pk \<noteq> 0" "usb_get_descriptor pk = Some d"
  shows "dg_configuration (ud_diag (irq_round w 0 s)) = dg_configuration (ud_diag s) \<and> \<not> ud_pending_configuration_valid (irq_round w 0 s)
     \<and> ud_ep0_state (irq_round w 0 s) = USB_EP0_STATUS_OUT \<and> ud_epr (irq_round w 0 s) 0 AND USB_EP_STAT_TX_MASK = USB_EP_STAT_TX_NAK
     \<and> host_reads w n want (irq_round w 0 s) = ([], irq_round w 0 s)"
proof -
  have t: "sp_bm_request_type pk = 0x80" using k(3) by (simp add: usb_get_descriptor_def Let_def split: if_splits)
  obtain g epr where h: "usb_ep0_handle_rx w (ud_epr s 0) s = (case (if sp_bm_request_type pk AND USB_REQ_DIR_IN \<noteq> 0
               then (if sp_bm_request_type pk AND USB_REQ_TYPE_MASK = USB_REQ_TYPE_STANDARD then usb_ep0_standard_in w pk ((usb_ep0_reset_transfer_state s)\<lparr>ud_epr := epr, ud_diag := g\<rparr>)
                     else if sp_bm_request_type pk AND USB_REQ_TYPE_MASK = USB_REQ_TYPE_VENDOR then usb_ep0_vendor_in w pk ((usb_ep0_reset_transfer_state s)\<lparr>ud_epr := epr, ud_diag := g\<rparr>)
                     else (False, (usb_ep0_reset_transfer_state s)\<lparr>ud_epr := epr, ud_diag := g\<rparr>))
               else (if sp_bm_request_type pk AND USB_REQ_TYPE_MASK = USB_REQ_TYPE_STANDARD then usb_ep0_standard_out w pk ((usb_ep0_reset_transfer_state s)\<lparr>ud_epr := epr, ud_diag := g\<rparr>)
                     else (False, (usb_ep0_reset_transfer_state s)\<lparr>ud_epr := epr, ud_diag := g\<rparr>)))
         of (handled, s3) \<Rightarrow> if \<not> handled then usb_ep0_stall w s3 else s3)"
    and b: "\<not> bit (epr 0) 15" "bit (epr 0) 7 = bit (ud_epr s 0) 7" "dg_configuration g = dg_configuration (ud_diag s)" using setup_state[OF w p] by blast
  define x where "x = (usb_ep0_reset_transfer_state s)\<lparr>ud_epr := epr, ud_diag := g\<rparr>"
  define y where "y = usb_ep0_start_in w d (sp_w_length pk) x"
  have x: "bit (ud_epr x 0) 7" "\<not> ud_pending_configuration_valid x" "dg_configuration (ud_diag x) = dg_configuration (ud_diag s)"
    using b c by (simp_all add: x_def usb_ep0_reset_transfer_state_def bit_fields(4))
  have e: "usb_ep0_handle_rx w (ud_epr s 0) s = y"
    unfolding h x_def[symmetric] usb_ep0_standard_in_def Let_def k(1,3) t y_def by simp
  have "d \<noteq> []" using descriptor_fits[OF k(3)] by blast
  from start_in_short[OF w this descriptor_short[OF k(3)] k(2), of x]
  have y: "ud_ep0_state y = USB_EP0_DATA_IN" "ud_ep0_in_remaining y = 0" "\<not> ud_ep0_need_zlp y" "bit (ud_epr y 0) 7"
    "\<not> ud_pending_configuration_valid y" "dg_configuration (ud_diag y) = dg_configuration (ud_diag s)"
    unfolding y_def[symmetric] using x by simp_all
  have q: "ud_epr s 0 AND USB_EP_CTR_RX \<noteq> 0" using p by (simp add: setup_pending_def)
  have "irq_round w 0 s = usb_ep0_handle_ctr w s" by (simp add: irq_round_def)
  also have "\<dots> = usb_ep0_handle_tx w y" using q y(4) unfolding usb_ep0_handle_ctr_def Let_def e bit_fields by simp
  finally have f: "irq_round w 0 s = usb_ep0_handle_tx w y" .
  have r: "dg_configuration (ud_diag (irq_round w 0 s)) = dg_configuration (ud_diag s)" "\<not> ud_pending_configuration_valid (irq_round w 0 s)"
    "ud_ep0_state (irq_round w 0 s) = USB_EP0_STATUS_OUT" "ud_epr (irq_round w 0 s) 0 AND 0x30 = 0x20"
    unfolding f bit_fields
    by (simp_all add: usb_ep0_handle_tx_def Let_def on_diag_def on_epr_def usb_ep0_arm_rx_def y ep_fields[OF w] bit_and_iff bit_or_iff bit_not_iff)
  moreover have "host_reads w n want (irq_round w 0 s) = ([], irq_round w 0 s)" using r(4) by (cases n) simp_all
  ultimately show ?thesis by simp
qed

theorem setup_overtakes_completion_witness:
  "ud_pending_configuration_valid (asks_device 18 0x8AA0 (usb_demo3 [] [])) \<and> ud_ep0_state (asks_device 18 0x8AA0 (usb_demo3 [] [])) = USB_EP0_STATUS_IN
   \<and> \<not> ud_pending_configuration_valid (irq_round epr_of_manual 0 (asks_device 18 0x8AA0 (usb_demo3 [] [])))
   \<and> host_reads epr_of_manual 5 18 (irq_round epr_of_manual 0 (asks_device 18 0x8AA0 (usb_demo3 [] [])))
     = ([], irq_round epr_of_manual 0 (asks_device 18 0x8AA0 (usb_demo3 [] [])))"
proof -
  have c: "ud_epr (asks_device 18 0x8AA0 (usb_demo3 [] [])) 0 AND USB_EP_CTR_TX \<noteq> 0" by (simp add: asks_device_def)
  have d: "usb_get_descriptor \<lparr>sp_bm_request_type = 0x80, sp_b_request = 6, sp_w_value = 0x100, sp_w_index = 0, sp_w_length = 18\<rparr> = Some usb_device_descriptor"
    by (simp add: usb_get_descriptor_def)
  have p: "setup_pending (asks_device 18 0x8AA0 (usb_demo3 [] [])) \<lparr>sp_bm_request_type = 0x80, sp_b_request = 6, sp_w_value = 0x100, sp_w_index = 0, sp_w_length = 18\<rparr>"
    using asks_device_pending[of "0x8AA0" 18 "usb_demo3 [] []"] by simp
  have "ud_pending_configuration_valid (asks_device 18 0x8AA0 (usb_demo3 [] []))" "ud_ep0_state (asks_device 18 0x8AA0 (usb_demo3 [] [])) = USB_EP0_STATUS_IN"
    using usb_demo3_facts[of "[]" "[]"] by (simp_all add: asks_device_def)
  moreover have "\<not> ud_pending_configuration_valid (irq_round epr_of_manual 0 (asks_device 18 0x8AA0 (usb_demo3 [] [])))
   \<and> host_reads epr_of_manual 5 18 (irq_round epr_of_manual 0 (asks_device 18 0x8AA0 (usb_demo3 [] [])))
     = ([], irq_round epr_of_manual 0 (asks_device 18 0x8AA0 (usb_demo3 [] [])))"
    using setup_overtakes_completion[OF epr_of_manual_ok p c _ _ d, of 5 18] by simp
  ultimately show ?thesis by blast
qed

end
