(* ===== verification/Usb_Management.thy ===== *)
theory Usb_Management
  imports Binary_Frame_Link Binary_Rpc Asset_Transfer Usb_Requests
begin

unbundle bit_operations_syntax

text \<open>
  The management service (\<open>src/src/kernel/usb_management.c\<close>): bytes of the USB management
  endpoint go through the frame parser, and whole frames to the remote procedure calls, to the
  asset transfer or to the entry into the bootloader.

  The USB device is the first part of the world the transport works on. An interrupt may change
  it between any two bytes. \<open>kernel_time_now\<close> is read once for a byte. A function that does not
  return, because the processor is reset or because the loop still runs, gives \<open>None\<close>.
\<close>

section \<open>Constants and state\<close>

abbreviation (input) FIRMWARE_UPDATE_FLAG_ALLOW_DESTRUCTIVE :: u8 where "FIRMWARE_UPDATE_FLAG_ALLOW_DESTRUCTIVE \<equiv> 1"
abbreviation (input) FIRMWARE_UPDATE_OPCODE_ENTER_BOOTLOADER :: u8 where "FIRMWARE_UPDATE_OPCODE_ENTER_BOOTLOADER \<equiv> 1"
abbreviation (input) FIRMWARE_UPDATE_STATE_RESETTING :: u8 where "FIRMWARE_UPDATE_STATE_RESETTING \<equiv> 0x80"
abbreviation (input) FIRMWARE_UPDATE_RESPONSE_PAYLOAD_BYTES :: u16 where "FIRMWARE_UPDATE_RESPONSE_PAYLOAD_BYTES \<equiv> 16"
abbreviation (input) FIRMWARE_UPDATE_RESPONSE_WIRE_BYTES :: nat where "FIRMWARE_UPDATE_RESPONSE_WIRE_BYTES \<equiv> 28"
abbreviation (input) FIRMWARE_UPDATE_RESET_FALLBACK_MS :: u32 where "FIRMWARE_UPDATE_RESET_FALLBACK_MS \<equiv> 250"
abbreviation (input) FIRMWARE_UPDATE_TOKEN1 :: u16 where "FIRMWARE_UPDATE_TOKEN1 \<equiv> 0xD35A"
abbreviation (input) FIRMWARE_UPDATE_TOKEN2 :: u16 where "FIRMWARE_UPDATE_TOKEN2 \<equiv> 0x2CA5"
abbreviation (input) BINARY_FRAME_TYPE_FIRMWARE_UPDATE_REQUEST :: u8 where "BINARY_FRAME_TYPE_FIRMWARE_UPDATE_REQUEST \<equiv> 0x04"
abbreviation (input) BINARY_FRAME_TYPE_FIRMWARE_UPDATE_RESPONSE :: u8 where "BINARY_FRAME_TYPE_FIRMWARE_UPDATE_RESPONSE \<equiv> 0x86"
abbreviation (input) BINARY_FRAME_TYPE_RPC_REQUEST :: u8 where "BINARY_FRAME_TYPE_RPC_REQUEST \<equiv> 0x02"

datatype firmware_update_status =
    FIRMWARE_UPDATE_STATUS_OK | FIRMWARE_UPDATE_STATUS_INVALID_STATE | FIRMWARE_UPDATE_STATUS_BAD_LENGTH
  | FIRMWARE_UPDATE_STATUS_BAD_FLAGS | FIRMWARE_UPDATE_STATUS_BAD_HEADER

fun firmware_update_code :: "firmware_update_status \<Rightarrow> u8" where
  "firmware_update_code FIRMWARE_UPDATE_STATUS_OK = 0"
| "firmware_update_code FIRMWARE_UPDATE_STATUS_INVALID_STATE = 1"
| "firmware_update_code FIRMWARE_UPDATE_STATUS_BAD_LENGTH = 2"
| "firmware_update_code FIRMWARE_UPDATE_STATUS_BAD_FLAGS = 3"
| "firmware_update_code FIRMWARE_UPDATE_STATUS_BAD_HEADER = 4"

text \<open>
  The world of the transport is the USB device and what else the commands reach. \<open>um_workspace\<close>:
  the pointer to the workspace is set. \<open>um_regs\<close>: the registers of reset and backup domain with
  the writes to them. \<open>um_system_reset\<close>: the reset has been requested; nothing runs any more.
\<close>

type_synonym 'x world = "usb_device \<times> 'x"

record 'x usb_management =
  um_parser :: binary_frame_parser
  um_rpc :: "'x world binary_rpc_state"
  um_workspace :: bool
  um_asset :: asset_transfer
  um_response_wire :: bytes
  um_last_bus_reset_count :: u32
  um_reset_baseline :: u32
  um_reset_deadline :: u32
  um_reset_pending :: bool
  um_regs :: reg_state
  um_system_reset :: bool

definition um_usb :: "'x usb_management \<Rightarrow> usb_device" where
  "um_usb s = fst (rs_dev (um_rpc s))"

definition on_world :: "('x world \<Rightarrow> 'x world) \<Rightarrow> 'x usb_management \<Rightarrow> 'x usb_management" where
  "on_world f s = s\<lparr>um_rpc := (um_rpc s)\<lparr>rs_dev := f (rs_dev (um_rpc s))\<rparr>\<rparr>"

definition on_usb :: "(usb_device \<Rightarrow> usb_device) \<Rightarrow> 'x usb_management \<Rightarrow> 'x usb_management" where
  "on_usb f s = on_world (map_prod f id) s"

type_synonym 'x binding = "'x world binary_rpc_binding"
type_synonym 'x handler = "'x world binary_rpc_state command_service_handler"

section \<open>The binding of the kernel\<close>

definition binary_rpc_management_send_wire :: "epr_write \<Rightarrow> 'x world \<Rightarrow> bytes \<Rightarrow> bool \<times> 'x world" where
  "binary_rpc_management_send_wire w world data =
     (case usb_management_write_span_atomic w (Some data) (of_nat (length data)) (fst world) of (sent, usb) \<Rightarrow> (sent, (usb, snd world)))"

definition usb_management_binary_rpc_binding :: "epr_write \<Rightarrow> 'x binding" where
  "usb_management_binary_rpc_binding w = \<lparr>rb_send_wire = Some (binary_rpc_management_send_wire w), rb_source_rx_event_mask = 4, rb_capability_flags = 0x7F\<rparr>"

section \<open>The entry into the bootloader\<close>

definition kernel_time_reached :: "u32 \<Rightarrow> u32 \<Rightarrow> bool" where
  "kernel_time_reached now deadline \<longleftrightarrow> sint (now - deadline) \<ge> 0"

definition firmware_update_system_reset :: "'x usb_management \<Rightarrow> 'x usb_management" where
  "firmware_update_system_reset s =
     s\<lparr>um_regs := reg_modify 0xE000ED0C (\<lambda>v. (v AND 0x700) OR 0x05FA0000 OR 0x4) (um_regs s), um_system_reset := True\<rparr>"

definition firmware_update_write_entry_token :: "reg_state \<Rightarrow> reg_state" where
  "firmware_update_write_entry_token r =
     (let r1 = reg_modify 0x40007000 (\<lambda>v. v OR 0x100) (reg_modify 0x4002101C (\<lambda>v. v OR (0x10000000 OR 0x08000000)) r);
          r2 = (fst r1, snd r1 @ [Reg_Write16 0x40006C04 FIRMWARE_UPDATE_TOKEN1, Reg_Write16 0x40006C08 FIRMWARE_UPDATE_TOKEN2])
      in reg_modify 0x40007000 (\<lambda>v. v AND NOT 0x100) r2)"

definition firmware_update_reset_service :: "u32 \<Rightarrow> 'x usb_management \<Rightarrow> 'x usb_management" where
  "firmware_update_reset_service now s =
     (if \<not> um_reset_pending s then s
      else if dg_management_tx_packet_count (ud_diag (um_usb s)) \<noteq> um_reset_baseline s then firmware_update_system_reset s
      else if kernel_time_reached now (um_reset_deadline s) then firmware_update_system_reset s
      else s)"

definition firmware_update_send_response ::
    "binary_frame_view \<Rightarrow> 'x binding \<Rightarrow> firmware_update_status \<Rightarrow> u8 \<Rightarrow> 'x usb_management \<Rightarrow> bool \<times> 'x usb_management" where
  "firmware_update_send_response frame b status state s =
     (case rb_send_wire b of
        None \<Rightarrow> (False, s)
      | Some send \<Rightarrow>
          let wire = store_at (um_response_wire s) 10
                ([FIRMWARE_UPDATE_OPCODE_ENTER_BOOTLOADER, firmware_update_code status] @ [state, 0]);
              wire1 = snd (binary_frame_finalize_in_place BINARY_FRAME_TYPE_FIRMWARE_UPDATE_RESPONSE 0 (fv_request_id frame)
                        FIRMWARE_UPDATE_RESPONSE_PAYLOAD_BYTES wire)
          in case send (rs_dev (um_rpc s)) (take FIRMWARE_UPDATE_RESPONSE_WIRE_BYTES wire1) of
               (sent, world) \<Rightarrow> (sent, on_world (\<lambda>_. world) (s\<lparr>um_response_wire := wire1\<rparr>)))"

definition firmware_update_status_of :: "binary_frame_view \<Rightarrow> firmware_update_status" where
  "firmware_update_status_of frame =
     (if fv_version frame \<noteq> BINARY_FRAME_PROTOCOL_VERSION \<or> fv_request_id frame = 0 then FIRMWARE_UPDATE_STATUS_BAD_HEADER
      else if fv_flags frame \<noteq> FIRMWARE_UPDATE_FLAG_ALLOW_DESTRUCTIVE \<or> fv_reserved frame \<noteq> 0 then FIRMWARE_UPDATE_STATUS_BAD_FLAGS
      else if fv_payload_length frame \<noteq> 1 then FIRMWARE_UPDATE_STATUS_BAD_LENGTH
      else if fv_payload frame ! 0 \<noteq> FIRMWARE_UPDATE_OPCODE_ENTER_BOOTLOADER then FIRMWARE_UPDATE_STATUS_INVALID_STATE
      else FIRMWARE_UPDATE_STATUS_OK)"

definition firmware_update_handle_runtime_frame ::
    "u32 \<Rightarrow> binary_frame_view \<Rightarrow> 'x binding \<Rightarrow> 'x usb_management \<Rightarrow> 'x usb_management" where
  "firmware_update_handle_runtime_frame now frame b s =
     (let status = firmware_update_status_of frame in
      if status \<noteq> FIRMWARE_UPDATE_STATUS_OK then snd (firmware_update_send_response frame b status 0 s)
      else if um_reset_pending s
      then snd (firmware_update_send_response frame b FIRMWARE_UPDATE_STATUS_INVALID_STATE FIRMWARE_UPDATE_STATE_RESETTING s)
      else let s1 = s\<lparr>um_reset_baseline := dg_management_tx_packet_count (ud_diag (um_usb s))\<rparr> in
        case firmware_update_send_response frame b FIRMWARE_UPDATE_STATUS_OK FIRMWARE_UPDATE_STATE_RESETTING s1 of (sent, s2) \<Rightarrow>
          if \<not> sent then s2
          else s2\<lparr>um_regs := firmware_update_write_entry_token (um_regs s2),
                  um_reset_deadline := now + FIRMWARE_UPDATE_RESET_FALLBACK_MS, um_reset_pending := True\<rparr>)"

section \<open>The service\<close>

definition usb_management_protocol_reset :: "'x usb_management \<Rightarrow> 'x usb_management" where
  "usb_management_protocol_reset s =
     (let s1 = s\<lparr>um_parser := binary_frame_parser_init (um_parser s), um_asset := asset_transfer_reset_session (um_asset s)\<rparr>
      in if um_workspace s1 then s1\<lparr>um_rpc := binary_rpc_init (um_rpc s1)\<rparr> else s1)"

definition usb_management_runtime_init :: "bool \<Rightarrow> 'x usb_management \<Rightarrow> bool \<times> 'x usb_management" where
  "usb_management_runtime_init workspace s =
     (if \<not> workspace then (False, s)
      else (True, s\<lparr>um_parser := binary_frame_parser_init (um_parser s), um_rpc := binary_rpc_init (um_rpc s), um_workspace := True,
              um_asset := asset_transfer_init (um_asset s), um_reset_baseline := 0, um_reset_deadline := 0, um_reset_pending := False,
              um_last_bus_reset_count := dg_bus_reset_count (ud_diag (um_usb s))\<rparr>))"

text \<open>A whole frame: what it counts for \<open>rpc_requests\<close>, and the state.\<close>

definition usb_management_frame ::
    "flash_hw \<Rightarrow> 'x binding \<Rightarrow> 'x handler option \<Rightarrow> u32 \<Rightarrow> binary_frame_view \<Rightarrow> 'x usb_management \<Rightarrow> u32 \<times> 'x usb_management" where
  "usb_management_frame hw b h now frame s =
     (if fv_frame_type frame = BINARY_FRAME_TYPE_FIRMWARE_UPDATE_REQUEST then
        (let s1 = firmware_update_handle_runtime_frame now frame b s
         in (0, if um_reset_pending s1 then firmware_update_reset_service now s1 else s1))
      else if fv_frame_type frame = BINARY_FRAME_TYPE_ASSET_TRANSFER_REQUEST then
        (case rb_send_wire b of
           None \<Rightarrow> (0, s)
         | Some send \<Rightarrow> (case asset_transfer_respond hw now (um_asset s) frame of
             (wire, asset) \<Rightarrow> (0, on_world (\<lambda>world. snd (send world wire)) (s\<lparr>um_asset := asset\<rparr>))))
      else (if fv_frame_type frame = BINARY_FRAME_TYPE_RPC_REQUEST then 1 else 0,
            s\<lparr>um_rpc := snd (binary_rpc_handle_frame (um_rpc s) (Some frame) (Some b) h)\<rparr>))"

definition usb_management_byte ::
    "flash_hw \<Rightarrow> 'x binding \<Rightarrow> 'x handler option \<Rightarrow> u32 \<Rightarrow> u8 \<Rightarrow> 'x usb_management \<Rightarrow> u32 \<times> 'x usb_management" where
  "usb_management_byte hw b h now byte s =
     (case binary_frame_parser_feed (um_parser s) byte of (parser, result, frame) \<Rightarrow>
        let s1 = s\<lparr>um_parser := parser\<rparr>
        in if result = BINARY_FRAME_FEED_FRAME_READY then
             (case frame of None \<Rightarrow> (0, s1) | Some f \<Rightarrow> usb_management_frame hw b h now f s1)
           else (0, s1))"

text \<open>
  The loop. Each element of the list is a round: what the interrupts before it did to the USB
  device, and its time.
\<close>

fun usb_management_loop ::
    "flash_hw \<Rightarrow> 'x binding \<Rightarrow> 'x handler option \<Rightarrow> ((usb_device \<Rightarrow> usb_device) \<times> u32) list \<Rightarrow> u32 \<Rightarrow> 'x usb_management
       \<Rightarrow> u32 option \<times> 'x usb_management" where
  "usb_management_loop hw b h [] rpc_requests s = (None, s)"
| "usb_management_loop hw b h ((interrupts, now) # rounds) rpc_requests s =
     (let s0 = on_usb interrupts s in
      case usb_management_try_getc (um_usb s0) of
        (None, usb) \<Rightarrow> (Some rpc_requests, s0)
      | (Some byte, usb) \<Rightarrow> (case usb_management_byte hw b h now byte (on_usb (\<lambda>_. usb) s0) of (requests, s1) \<Rightarrow>
          if um_system_reset s1 then (None, s1) else usb_management_loop hw b h rounds (rpc_requests + requests) s1))"

definition usb_management_begin :: "u32 \<Rightarrow> (usb_device \<Rightarrow> usb_device) \<Rightarrow> 'x usb_management \<Rightarrow> 'x usb_management" where
  "usb_management_begin now interrupts s =
     (let bus_reset_count = dg_bus_reset_count (ud_diag (um_usb s));
          s1 = (if um_reset_pending s then firmware_update_reset_service now s else s)
      in if um_system_reset s1 then s1
         else let s2 = on_usb interrupts (s1\<lparr>um_asset := asset_transfer_poll now (um_asset s1)\<rparr>);
                  s3 = (if bus_reset_count \<noteq> um_last_bus_reset_count s2
                        then (usb_management_protocol_reset s2)\<lparr>um_last_bus_reset_count := bus_reset_count\<rparr> else s2)
              in if \<not> usb_management_is_configured (um_usb s3) then usb_management_protocol_reset s3 else s3)"

definition usb_management_runtime_service ::
    "flash_hw \<Rightarrow> 'x binding option \<Rightarrow> 'x handler option \<Rightarrow> u32 \<Rightarrow> (usb_device \<Rightarrow> usb_device)
       \<Rightarrow> ((usb_device \<Rightarrow> usb_device) \<times> u32) list \<Rightarrow> 'x usb_management \<Rightarrow> u32 option \<times> 'x usb_management" where
  "usb_management_runtime_service hw binding h now interrupts rounds s =
     (case binding of
        None \<Rightarrow> (Some 0, s)
      | Some b \<Rightarrow>
          if \<not> um_workspace s then (Some 0, s)
          else let s1 = usb_management_begin now interrupts s in
            if um_system_reset s1 then (None, s1)
            else if \<not> usb_management_is_configured (um_usb s1) then (Some 0, s1)
            else usb_management_loop hw b h rounds 0 s1)"

end
