(* ===== verification/Usb_Bootloader_Entry.thy ===== *)
theory Usb_Bootloader_Entry
  imports Usb_Management Usb_Traffic Asset_Session
begin

unbundle bit_operations_syntax

text \<open>
  The management service of \<open>src/src/kernel/usb_management.c\<close> over its whole run: when it enters
  the bootloader, that a request it has accepted is honoured, and when a call returns.
\<close>

section \<open>Runs\<close>

text \<open>
  The steps between two states: the beginning of a call, one byte, and what interrupts and other
  code do to the USB device and the rest of the world. With the state goes the list of the
  sessions, the newest first: the bytes read since the parser and the transfers were last
  reset, which a call does when the bus was reset or the device is not configured.
\<close>

definition session_over :: "(usb_device \<Rightarrow> usb_device) \<Rightarrow> 'x usb_management \<Rightarrow> bool" where
  "session_over interrupts s \<longleftrightarrow> dg_bus_reset_count (ud_diag (um_usb s)) \<noteq> um_last_bus_reset_count s
     \<or> \<not> usb_management_is_configured (interrupts (um_usb s))"

inductive management_reaches ::
    "flash_hw \<Rightarrow> 'x binding \<Rightarrow> 'x handler option \<Rightarrow> 'x usb_management \<Rightarrow> bytes list \<Rightarrow> 'x usb_management \<Rightarrow> bytes list \<Rightarrow> bool"
  for hw b h s0 ss0
  where
    mr_start: "management_reaches hw b h s0 ss0 s0 ss0"
  | mr_begin: "management_reaches hw b h s0 ss0 s ss \<Longrightarrow> \<not> um_system_reset s \<Longrightarrow> um_workspace s
      \<Longrightarrow> management_reaches hw b h s0 ss0 (usb_management_begin now interrupts s) (if session_over interrupts s then [] # ss else ss)"
  | mr_byte: "management_reaches hw b h s0 ss0 s (bs # ss) \<Longrightarrow> \<not> um_system_reset s
      \<Longrightarrow> usb_management_try_getc (um_usb s) = (Some byte, usb)
      \<Longrightarrow> usb_management_byte hw b h now byte (on_usb (\<lambda>_. usb) s) = (n, s')
      \<Longrightarrow> management_reaches hw b h s0 ss0 s' ((bs @ [byte]) # ss)"
  | mr_world: "management_reaches hw b h s0 ss0 s ss \<Longrightarrow> management_reaches hw b h s0 ss0 (on_world f s) ss"

definition management_run :: "flash_hw \<Rightarrow> 'x binding \<Rightarrow> 'x handler option \<Rightarrow> 'x usb_management \<Rightarrow> bytes list \<Rightarrow> bool" where
  "management_run hw b h s ss \<longleftrightarrow> (\<exists>s0 s1. length (bp_header (um_parser s0)) = 8 \<and> length (bp_payload (um_parser s0)) = 132
     \<and> length (um_response_wire s0) = 28 \<and> snd (um_regs s0) = [] \<and> \<not> um_system_reset s0
     \<and> usb_management_runtime_init True s0 = (True, s1) \<and> management_reaches hw b h s1 [[]] s ss)"

lemma um_usb_simps [simp]:
  "um_usb (on_usb f s) = f (um_usb s)" "um_usb (s\<lparr>um_asset := a\<rparr>) = um_usb s" "um_usb (s\<lparr>um_parser := p\<rparr>) = um_usb s"
  "um_usb (s\<lparr>um_reset_baseline := c\<rparr>) = um_usb s" "um_usb (s\<lparr>um_last_bus_reset_count := c\<rparr>) = um_usb s"
  by (simp_all add: um_usb_def on_usb_def on_world_def)

lemma on_world_simps [simp]:
  "um_parser (on_world f s) = um_parser s" "um_workspace (on_world f s) = um_workspace s" "um_asset (on_world f s) = um_asset s"
  "um_last_bus_reset_count (on_world f s) = um_last_bus_reset_count s" "um_reset_baseline (on_world f s) = um_reset_baseline s"
  "um_reset_deadline (on_world f s) = um_reset_deadline s" "um_reset_pending (on_world f s) = um_reset_pending s"
  "um_regs (on_world f s) = um_regs s" "um_system_reset (on_world f s) = um_system_reset s"
  by (simp_all add: on_world_def)

lemma on_usb_simps [simp]:
  "um_parser (on_usb f s) = um_parser s" "um_workspace (on_usb f s) = um_workspace s" "um_asset (on_usb f s) = um_asset s"
  "um_last_bus_reset_count (on_usb f s) = um_last_bus_reset_count s" "um_reset_baseline (on_usb f s) = um_reset_baseline s"
  "um_reset_deadline (on_usb f s) = um_reset_deadline s" "um_reset_pending (on_usb f s) = um_reset_pending s"
  "um_regs (on_usb f s) = um_regs s" "um_system_reset (on_usb f s) = um_system_reset s"
  by (simp_all add: on_usb_def)

text \<open>A call of the service is a run of steps.\<close>

lemma reaches_usb: "management_reaches hw b h s0 ss0 s ss \<Longrightarrow> management_reaches hw b h s0 ss0 (on_usb f s) ss"
  unfolding on_usb_def by (rule mr_world)

lemma reaches_loop:
  "management_reaches hw b h s0 ss0 s ss \<Longrightarrow> ss \<noteq> [] \<Longrightarrow> \<not> um_system_reset s \<Longrightarrow> usb_management_loop hw b h rounds n s = (r, s')
     \<Longrightarrow> \<exists>ss'. ss' \<noteq> [] \<and> management_reaches hw b h s0 ss0 s' ss'"
proof (induction rounds arbitrary: s ss n)
  case (Cons round rounds)
  obtain interrupts now where round: "round = (interrupts, now)" by fastforce
  obtain bs tl where ss: "ss = bs # tl" using Cons.prems(2) by (cases ss) auto
  define s1 where "s1 = on_usb interrupts s"
  have r1: "management_reaches hw b h s0 ss0 s1 ss" unfolding s1_def by (rule reaches_usb[OF Cons.prems(1)])
  have nr: "\<not> um_system_reset s1" using Cons.prems(3) by (simp add: s1_def)
  obtain g usb where g: "usb_management_try_getc (um_usb s1) = (g, usb)" by fastforce
  show ?case
  proof (cases g)
    case None
    then have "s' = s1" using Cons.prems(4) g by (simp add: round s1_def[symmetric] Let_def)
    then show ?thesis using r1 Cons.prems(2) by blast
  next
    case (Some byte)
    obtain k s2 where k: "usb_management_byte hw b h now byte (on_usb (\<lambda>_. usb) s1) = (k, s2)" by fastforce
    have r2: "management_reaches hw b h s0 ss0 s2 ((bs @ [byte]) # tl)"
      using mr_byte[OF r1[unfolded ss] nr g[unfolded Some] k] .
    have e: "(if um_system_reset s2 then (None, s2) else usb_management_loop hw b h rounds (n + k) s2) = (r, s')"
      using Cons.prems(4) g k Some by (simp add: round s1_def[symmetric] Let_def)
    show ?thesis
    proof (cases "um_system_reset s2")
      case True
      then show ?thesis using e r2 by auto
    next
      case False
      then show ?thesis using Cons.IH[OF r2 _ False, of "n + k"] e by simp
    qed
  qed
qed auto

lemma service_reaches:
  assumes "management_reaches hw b h s0 ss0 s ss" "ss \<noteq> []" "\<not> um_system_reset s"
    and "usb_management_runtime_service hw (Some b) h now interrupts rounds s = (r, s')"
  shows "\<exists>ss'. ss' \<noteq> [] \<and> management_reaches hw b h s0 ss0 s' ss'"
proof (cases "um_workspace s")
  case False
  then show ?thesis using assms by (auto simp: usb_management_runtime_service_def)
next
  case True
  define s1 where "s1 = usb_management_begin now interrupts s"
  define ss1 where "ss1 = (if session_over interrupts s then [] # ss else ss)"
  have r1: "management_reaches hw b h s0 ss0 s1 ss1" unfolding s1_def ss1_def by (rule mr_begin[OF assms(1,3) True])
  have ne: "ss1 \<noteq> []" using assms(2) by (simp add: ss1_def)
  have e: "(if um_system_reset s1 then (None, s1) else if \<not> usb_management_is_configured (um_usb s1) then (Some 0, s1)
      else usb_management_loop hw b h rounds 0 s1) = (r, s')"
    unfolding assms(4)[symmetric] by (simp add: usb_management_runtime_service_def s1_def Let_def True)
  show ?thesis
  proof (cases "um_system_reset s1 \<or> \<not> usb_management_is_configured (um_usb s1)")
    case True
    then show ?thesis using e r1 ne by (auto split: if_splits)
  next
    case False
    then have "usb_management_loop hw b h rounds 0 s1 = (r, s')" using e by simp
    then show ?thesis using reaches_loop[OF r1 ne] False by blast
  qed
qed

section \<open>The invariant\<close>

text \<open>The request that asks for the bootloader, as the host sends it.\<close>

definition enter_bootloader_request :: "u16 \<Rightarrow> binary_frame_view" where
  "enter_bootloader_request rid = \<lparr>fv_version = 1, fv_frame_type = BINARY_FRAME_TYPE_FIRMWARE_UPDATE_REQUEST, fv_flags = 1, fv_reserved = 0,
     fv_request_id = rid, fv_payload_length = 1, fv_payload = [1]\<rparr>"

definition was_requested :: "bytes list \<Rightarrow> bool" where
  "was_requested ss \<longleftrightarrow> (\<exists>bs \<in> set ss. \<exists>before rid after. rid \<noteq> 0 \<and> bs = before @ bf_wire (enter_bootloader_request rid) @ after)"

definition entry_token :: "reg_event list \<Rightarrow> bool" where
  "entry_token log \<longleftrightarrow> (\<exists>a p q. log = [Reg_Write 0x4002101C a, Reg_Write 0x40007000 p, Reg_Write16 0x40006C04 FIRMWARE_UPDATE_TOKEN1,
     Reg_Write16 0x40006C08 FIRMWARE_UPDATE_TOKEN2, Reg_Write 0x40007000 q])"

definition reset_request :: "reg_event \<Rightarrow> bool" where
  "reset_request e \<longleftrightarrow> (\<exists>v. e = Reg_Write 0xE000ED0C ((v AND 0x700) OR 0x05FA0000 OR 0x4))"

definition entry_state :: "'x usb_management \<Rightarrow> bytes list \<Rightarrow> bool" where
  "entry_state s ss \<longleftrightarrow> (if um_reset_pending s
     then was_requested ss \<and> (if um_system_reset s then \<exists>log e. snd (um_regs s) = log @ [e] \<and> entry_token log \<and> reset_request e
                              else entry_token (snd (um_regs s)))
     else snd (um_regs s) = [] \<and> \<not> um_system_reset s)"

definition entry_inv :: "'x usb_management \<Rightarrow> bytes list \<Rightarrow> bool" where
  "entry_inv s ss \<longleftrightarrow> entry_state s ss \<and> (\<not> um_system_reset s \<longrightarrow> (\<exists>bs tl. ss = bs # tl \<and> bf_hist (um_parser s) bs))"

lemma was_requested_grows: "was_requested (bs # ss) \<Longrightarrow> was_requested ((bs @ cs) # ss)" "was_requested ss \<Longrightarrow> was_requested (cs # ss)"
  unfolding was_requested_def by (metis append.assoc list.set_intros(1) list.set_intros(2) set_ConsD) (metis list.set_intros(2))

lemma entry_same:
  assumes "entry_state s ss" "um_reset_pending s' = um_reset_pending s" "um_regs s' = um_regs s" "um_system_reset s' = um_system_reset s"
    "was_requested ss \<Longrightarrow> was_requested ss'"
  shows "entry_state s' ss'"
  using assms by (simp add: entry_state_def split: if_splits)

lemma token_is_written: "snd (um_regs s) = [] \<Longrightarrow> entry_token (snd (firmware_update_write_entry_token (um_regs s)))"
  by (simp add: entry_token_def firmware_update_write_entry_token_def reg_modify_def Let_def)

lemma reset_service_entry:
  assumes "entry_state s ss" "\<not> um_system_reset s"
  shows "entry_state (firmware_update_reset_service now s) ss"
proof (cases "um_reset_pending s")
  case True
  have "\<exists>log e. snd (um_regs (firmware_update_system_reset s)) = log @ [e] \<and> entry_token log \<and> reset_request e"
    using assms True by (auto simp: entry_state_def firmware_update_system_reset_def reg_modify_def reset_request_def)
  then have "entry_state (firmware_update_system_reset s) ss" using assms True by (simp add: entry_state_def firmware_update_system_reset_def)
  then show ?thesis using assms by (simp add: firmware_update_reset_service_def)
next
  case False
  then show ?thesis using assms by (simp add: firmware_update_reset_service_def)
qed

lemma send_response_frame:
  assumes "firmware_update_send_response f b st x s = (sent, s')"
  shows "um_reset_pending s' = um_reset_pending s" "um_regs s' = um_regs s" "um_system_reset s' = um_system_reset s" "um_parser s' = um_parser s"
  using assms by (auto simp: firmware_update_send_response_def Let_def split: option.splits prod.splits)

lemma accepted_frame:
  assumes "firmware_update_status_of v = FIRMWARE_UPDATE_STATUS_OK" "fv_frame_type v = 4" "bf_view_ok v"
  shows "fv_request_id v \<noteq> 0 \<and> bf_wire v = bf_wire (enter_bootloader_request (fv_request_id v))"
proof -
  have f: "fv_version v = 1" "fv_request_id v \<noteq> 0" "fv_flags v = 1" "fv_reserved v = 0" "fv_payload_length v = 1" "fv_payload v ! 0 = 1"
    using assms(1) by (auto simp: firmware_update_status_of_def split: if_splits)
  have "fv_payload v \<noteq> []" using assms(3) f(5) by (auto simp: bf_view_ok_def)
  then have "take 1 (fv_payload v) = [1]" using f(6) by (cases "fv_payload v") simp_all
  then show ?thesis using f assms(2) by (simp add: bf_wire_def bf_body_def enter_bootloader_request_def)
qed

lemma handle_frame_entry:
  fixes s :: "'x usb_management" and b :: "'x binding" and now :: u32
  assumes i: "entry_state s ss" and n: "\<not> um_system_reset s"
    and r: "firmware_update_status_of v = FIRMWARE_UPDATE_STATUS_OK \<Longrightarrow> was_requested ss"
  defines "s' \<equiv> firmware_update_handle_runtime_frame now v b s"
  shows "entry_state s' ss \<and> \<not> um_system_reset s' \<and> um_parser s' = um_parser s"
proof -
  obtain a1 b1 where 1: "firmware_update_send_response v b (firmware_update_status_of v) 0 s = (a1, b1)" by fastforce
  obtain a2 b2 where 2: "firmware_update_send_response v b FIRMWARE_UPDATE_STATUS_INVALID_STATE 0x80 s = (a2, b2)" by fastforce
  define s1 where "s1 = s\<lparr>um_reset_baseline := dg_management_tx_packet_count (ud_diag (um_usb s))\<rparr>"
  obtain a3 s2 where 3: "firmware_update_send_response v b FIRMWARE_UPDATE_STATUS_OK 0x80 s1 = (a3, s2)" by fastforce
  note f1 = send_response_frame[OF 1] and f2 = send_response_frame[OF 2]
  note f3 = send_response_frame[OF 3, unfolded s1_def, simplified]
  define s3 where "s3 = s2\<lparr>um_regs := firmware_update_write_entry_token (um_regs s2), um_reset_deadline := now + 250, um_reset_pending := True\<rparr>"
  have e: "s' = (if firmware_update_status_of v \<noteq> FIRMWARE_UPDATE_STATUS_OK then b1 else if um_reset_pending s then b2 else if \<not> a3 then s2 else s3)"
    by (simp add: s'_def firmware_update_handle_runtime_frame_def Let_def 1 2 s1_def[symmetric] 3 s3_def)
  have "entry_state b1 ss" "entry_state b2 ss" "entry_state s2 ss"
    using entry_same[OF i f1(1-3)] entry_same[OF i f2(1-3)] entry_same[OF i f3(1-3)] by blast+
  moreover have "entry_state s3 ss" if "firmware_update_status_of v = FIRMWARE_UPDATE_STATUS_OK" "\<not> um_reset_pending s"
  proof -
    have "snd (um_regs s2) = []" using i that(2) f3(2) by (simp add: entry_state_def)
    then show ?thesis using token_is_written[of s2] r[OF that(1)] n f3(3) by (simp add: entry_state_def s3_def)
  qed
  moreover have "\<not> um_system_reset s'" "um_parser s' = um_parser s" using n f1(3,4) f2(3,4) f3(3,4) by (auto simp: e s3_def)
  ultimately show ?thesis by (auto simp: e)
qed

lemma frame_entry:
  assumes i: "entry_state s ss" and n: "\<not> um_system_reset s"
    and r: "firmware_update_status_of v = FIRMWARE_UPDATE_STATUS_OK \<Longrightarrow> fv_frame_type v = 4 \<Longrightarrow> was_requested ss"
    and f: "usb_management_frame hw b h now v s = (k, s')"
  shows "entry_state s' ss \<and> um_parser s' = um_parser s"
proof (cases "fv_frame_type v = 4")
  case True
  define s1 where "s1 = firmware_update_handle_runtime_frame now v b s"
  have s1: "entry_state s1 ss" "\<not> um_system_reset s1" "um_parser s1 = um_parser s"
    using handle_frame_entry[OF i n r[OF _ True], where now = now and b = b] unfolding s1_def by blast+
  have "s' = (if um_reset_pending s1 then firmware_update_reset_service now s1 else s1)"
    using f True by (auto simp: usb_management_frame_def Let_def s1_def)
  moreover have "um_parser (firmware_update_reset_service now s1) = um_parser s1"
    by (simp add: firmware_update_reset_service_def firmware_update_system_reset_def)
  ultimately show ?thesis using s1 reset_service_entry[OF s1(1,2), of now] by simp
next
  case False
  then have "um_reset_pending s' = um_reset_pending s \<and> um_regs s' = um_regs s \<and> um_system_reset s' = um_system_reset s \<and> um_parser s' = um_parser s"
    using f by (auto simp: usb_management_frame_def split: if_splits option.splits prod.splits)
  then show ?thesis using entry_same[OF i] by blast
qed

lemma byte_entry:
  assumes i: "entry_inv s (bs # ss)" and n: "\<not> um_system_reset s" and f: "usb_management_byte hw b h now byte s = (k, s')"
  shows "entry_inv s' ((bs @ [byte]) # ss)"
proof -
  obtain p r v where v: "binary_frame_parser_feed (um_parser s) byte = (p, r, v)" by (metis prod_cases3)
  have e: "entry_state s (bs # ss)" "bf_hist (um_parser s) bs" using i n by (simp_all add: entry_inv_def)
  note st = bf_hist_step[OF e(2) v]
  define s1 where "s1 = s\<lparr>um_parser := p\<rparr>"
  have e1: "entry_state s1 ((bs @ [byte]) # ss)" by (rule entry_same[OF e(1)]) (simp_all add: s1_def was_requested_grows(1))
  have n1: "\<not> um_system_reset s1" "um_parser s1 = p" using n by (simp_all add: s1_def)
  consider "s' = s1" | w where "v = Some w" "r = BINARY_FRAME_FEED_FRAME_READY" "usb_management_frame hw b h now w s1 = (k, s')"
    using f st by (auto simp: usb_management_byte_def v s1_def Let_def split: if_splits option.splits)
  then show ?thesis
  proof cases
    case 1
    then show ?thesis using e1 st n1 by (simp add: entry_inv_def)
  next
    case 2
    obtain pre where w: "bf_view_ok w" "bs @ [byte] = pre @ bf_wire w" using st 2(1) by blast
    have "was_requested ((bs @ [byte]) # ss)" if "firmware_update_status_of w = FIRMWARE_UPDATE_STATUS_OK" "fv_frame_type w = 4"
    proof -
      have "fv_request_id w \<noteq> 0" "bs @ [byte] = pre @ bf_wire (enter_bootloader_request (fv_request_id w)) @ []"
        using accepted_frame[OF that w(1)] w(2) by simp_all
      then show ?thesis unfolding was_requested_def by (meson list.set_intros(1))
    qed
    from frame_entry[OF e1 n1(1) this 2(3)] have "entry_state s' ((bs @ [byte]) # ss)" "um_parser s' = p" using n1(2) by auto
    then show ?thesis using st by (simp add: entry_inv_def)
  qed
qed

lemma protocol_reset_frame:
  "um_reset_pending (usb_management_protocol_reset s) = um_reset_pending s" "um_regs (usb_management_protocol_reset s) = um_regs s"
  "um_system_reset (usb_management_protocol_reset s) = um_system_reset s"
  "um_parser (usb_management_protocol_reset s) = binary_frame_parser_init (um_parser s)"
  "um_usb (usb_management_protocol_reset s) = um_usb s"
  "um_workspace (usb_management_protocol_reset s) = um_workspace s"
  "um_reset_deadline (usb_management_protocol_reset s) = um_reset_deadline s"
  "um_reset_baseline (usb_management_protocol_reset s) = um_reset_baseline s"
  "um_last_bus_reset_count (usb_management_protocol_reset s) = um_last_bus_reset_count s"
  by (simp_all add: usb_management_protocol_reset_def Let_def um_usb_def binary_rpc_init_def)

lemma hist_restarts: "bf_hist p bs \<Longrightarrow> bf_hist (binary_frame_parser_init p) []"
  by (rule bf_hist_init) (simp_all add: bf_hist_def bf_arrays_def)

lemma begin_entry:
  assumes i: "entry_inv s ss" and n: "\<not> um_system_reset s"
  shows "entry_inv (usb_management_begin now interrupts s) (if session_over interrupts s then [] # ss else ss)"
proof -
  define s1 where "s1 = (if um_reset_pending s then firmware_update_reset_service now s else s)"
  have i1: "entry_state s1 ss" using i n reset_service_entry[of s ss now] by (simp add: s1_def entry_inv_def)
  have f1: "um_parser s1 = um_parser s" "um_usb s1 = um_usb s" "um_last_bus_reset_count s1 = um_last_bus_reset_count s"
    by (simp_all add: s1_def firmware_update_reset_service_def firmware_update_system_reset_def um_usb_def)
  obtain bs tl where ss: "ss = bs # tl" "bf_hist (um_parser s) bs" using i n by (auto simp: entry_inv_def)
  define s2 where "s2 = on_usb interrupts (s1\<lparr>um_asset := asset_transfer_poll now (um_asset s1)\<rparr>)"
  define c where "c = dg_bus_reset_count (ud_diag (um_usb s))"
  define s3 where "s3 = (if c \<noteq> um_last_bus_reset_count s2 then (usb_management_protocol_reset s2)\<lparr>um_last_bus_reset_count := c\<rparr> else s2)"
  have e: "usb_management_begin now interrupts s = (if um_system_reset s1 then s1
      else if \<not> usb_management_is_configured (um_usb s3) then usb_management_protocol_reset s3 else s3)"
    unfolding usb_management_begin_def Let_def s1_def[symmetric] c_def[symmetric] s2_def[symmetric] s3_def[symmetric] by simp
  have g: "entry_state s' (if session_over interrupts s then [] # ss else ss)"
    if "um_reset_pending s' = um_reset_pending s1" "um_regs s' = um_regs s1" "um_system_reset s' = um_system_reset s1" for s' :: "'a usb_management"
    by (rule entry_same[OF i1 that]) (simp add: was_requested_grows(2))
  show ?thesis
  proof (cases "um_system_reset s1")
    case True
    have "entry_state s1 (if session_over interrupts s then [] # ss else ss)" by (rule g) simp_all
    then show ?thesis using True e by (simp add: entry_inv_def)
  next
    case False
    have f3: "um_reset_pending s3 = um_reset_pending s1" "um_regs s3 = um_regs s1" "um_system_reset s3 = um_system_reset s1"
      "um_usb s3 = interrupts (um_usb s)" "um_parser s3 = (if c \<noteq> um_last_bus_reset_count s then binary_frame_parser_init (um_parser s) else um_parser s)"
      by (simp_all add: s3_def s2_def protocol_reset_frame f1)
    define s4 where "s4 = (if \<not> usb_management_is_configured (um_usb s3) then usb_management_protocol_reset s3 else s3)"
    have f4: "um_reset_pending s4 = um_reset_pending s1" "um_regs s4 = um_regs s1" "um_system_reset s4 = um_system_reset s1"
      by (simp_all add: s4_def protocol_reset_frame f3)
    have h: "bf_hist (um_parser s4) (if session_over interrupts s then [] else bs)"
      using ss(2) hist_restarts[OF ss(2)] hist_restarts[OF hist_restarts[OF ss(2)]]
      by (auto simp: s4_def protocol_reset_frame f3 session_over_def c_def)
    have "usb_management_begin now interrupts s = s4" using False e by (simp add: s4_def)
    then show ?thesis using g[OF f4] h ss(1) by (auto simp: entry_inv_def)
  qed
qed

lemma reaches_entry:
  "management_reaches hw b h s0 ss0 s ss \<Longrightarrow> entry_inv s0 ss0 \<Longrightarrow> entry_inv s ss"
proof (induction rule: management_reaches.induct)
  case (mr_begin s ss now interrupts)
  then show ?case by (blast intro: begin_entry)
next
  case (mr_byte s bs ss byte usb now n s')
  have "entry_inv s (bs # ss)" using mr_byte by blast
  then have "entry_inv (on_usb (\<lambda>_. usb) s) (bs # ss)" by (auto simp: entry_inv_def entry_state_def)
  then show ?case using mr_byte by (intro byte_entry) auto
next
  case (mr_world s ss f)
  then show ?case by (auto simp: entry_inv_def entry_state_def)
qed

lemma run_entry: "management_run hw b h s ss \<Longrightarrow> entry_inv s ss"
proof -
  assume "management_run hw b h s ss"
  then obtain s0 s1 where s: "length (bp_header (um_parser s0)) = 8" "length (bp_payload (um_parser s0)) = 132"
     "snd (um_regs s0) = []" "\<not> um_system_reset s0" "usb_management_runtime_init True s0 = (True, s1)" "management_reaches hw b h s1 [[]] s ss"
    by (auto simp: management_run_def)
  have "entry_inv s1 [[]]" using s(3-5) bf_hist_init[OF s(1,2)] by (auto simp: entry_inv_def entry_state_def usb_management_runtime_init_def)
  then show ?thesis by (rule reaches_entry[OF s(6)])
qed

section \<open>Entering the bootloader\<close>

text \<open>
  C6: The firmware enters the bootloader only when the host has asked for it. In any run, with
  any transport, commands and interrupts: while no request is accepted the registers of reset
  and backup domain are not written. Once one is, the bytes read in one session between two
  resets of the bus hold a whole request with its flag, request number and checksum, the token
  is written once and in order, and a reset is requested only after it.
\<close>
theorem bootloader_entry_needs_request:
  assumes "management_run hw b h s ss"
  shows "if um_reset_pending s
    then (\<exists>bs \<in> set ss. \<exists>before rid after. rid \<noteq> 0 \<and> bs = before @ bf_wire (enter_bootloader_request rid) @ after)
       \<and> (if um_system_reset s then \<exists>log e. snd (um_regs s) = log @ [e] \<and> entry_token log \<and> reset_request e else entry_token (snd (um_regs s)))
    else snd (um_regs s) = [] \<and> \<not> um_system_reset s"
  using run_entry[OF assms] unfolding entry_inv_def entry_state_def was_requested_def by (rule conjunct1)

text \<open>Once a request is accepted, its deadline stands.\<close>

definition deadline_stands :: "'x usb_management \<Rightarrow> 'x usb_management \<Rightarrow> bool" where
  "deadline_stands s s' \<longleftrightarrow> (um_reset_pending s \<longrightarrow> um_reset_pending s' \<and> um_reset_deadline s' = um_reset_deadline s \<and> um_reset_baseline s' = um_reset_baseline s)
     \<and> (um_workspace s \<longrightarrow> um_workspace s')"

lemma stands_trans: "deadline_stands a b \<Longrightarrow> deadline_stands b c \<Longrightarrow> deadline_stands a c"
  by (simp add: deadline_stands_def)

lemma reset_service_stands: "deadline_stands s (firmware_update_reset_service now s)"
  by (simp add: deadline_stands_def firmware_update_reset_service_def firmware_update_system_reset_def)

lemma send_response_stands:
  "deadline_stands s (snd (firmware_update_send_response f b st x s)) \<and> (um_workspace (snd (firmware_update_send_response f b st x s)) = um_workspace s)
     \<and> um_reset_baseline (snd (firmware_update_send_response f b st x s)) = um_reset_baseline s"
  by (simp add: deadline_stands_def firmware_update_send_response_def Let_def split: option.split prod.split)

lemma frame_stands:
  assumes "usb_management_frame hw b h now v s = (k, s')"
  shows "deadline_stands s s'"
proof (cases "fv_frame_type v = 4")
  case True
  define s1 where "s1 = firmware_update_handle_runtime_frame now v b s"
  have "deadline_stands s s1"
  proof (cases "um_reset_pending s")
    case True
    then show ?thesis using send_response_stands[of s v b] by (simp add: s1_def firmware_update_handle_runtime_frame_def Let_def)
  next
    case False
    define t where "t = s\<lparr>um_reset_baseline := dg_management_tx_packet_count (ud_diag (um_usb s))\<rparr>"
    have t: "um_workspace t = um_workspace s" by (simp add: t_def)
    then have "um_workspace s \<longrightarrow> um_workspace s1" using send_response_stands[of s v b] send_response_stands[of t v b] False
      by (auto simp: s1_def firmware_update_handle_runtime_frame_def Let_def t_def[symmetric] split: prod.split)
        (metis snd_conv t)+
    then show ?thesis using False by (simp add: deadline_stands_def)
  qed
  moreover have "deadline_stands s1 s'"
    using assms True reset_service_stands[of s1 now] by (auto simp: usb_management_frame_def Let_def s1_def deadline_stands_def split: if_splits)
  ultimately show ?thesis by (rule stands_trans)
next
  case False
  then show ?thesis using assms by (auto simp: deadline_stands_def usb_management_frame_def split: if_splits option.splits prod.splits)
qed

lemma byte_stands: "usb_management_byte hw b h now byte s = (k, s') \<Longrightarrow> deadline_stands s s'"
proof -
  assume a: "usb_management_byte hw b h now byte s = (k, s')"
  obtain p r v where v: "binary_frame_parser_feed (um_parser s) byte = (p, r, v)" by (metis prod_cases3)
  have "deadline_stands s (s\<lparr>um_parser := p\<rparr>)" by (simp add: deadline_stands_def)
  moreover have "deadline_stands (s\<lparr>um_parser := p\<rparr>) s'"
    using a frame_stands[of hw b h now _ "s\<lparr>um_parser := p\<rparr>" k s'] by (auto simp: usb_management_byte_def v Let_def deadline_stands_def split: if_splits option.splits)
  ultimately show ?thesis by (rule stands_trans)
qed

lemma begin_stands: "deadline_stands s (usb_management_begin now interrupts s)"
proof -
  define s1 where "s1 = (if um_reset_pending s then firmware_update_reset_service now s else s)"
  have "deadline_stands s s1" using reset_service_stands[of s now] by (simp add: s1_def deadline_stands_def)
  moreover have "deadline_stands s1 (usb_management_begin now interrupts s)"
    unfolding usb_management_begin_def Let_def s1_def[symmetric] by (simp add: deadline_stands_def protocol_reset_frame)
  ultimately show ?thesis by (rule stands_trans)
qed

lemma reaches_stands: "management_reaches hw b h s0 ss0 s ss \<Longrightarrow> deadline_stands s0 s"
proof (induction rule: management_reaches.induct)
  case mr_start
  show ?case by (simp add: deadline_stands_def)
next
  case (mr_begin s ss now interrupts)
  show ?case by (rule stands_trans[OF mr_begin.IH begin_stands])
next
  case (mr_byte s bs ss byte usb now n s')
  have "deadline_stands s (on_usb (\<lambda>_. usb) s)" by (simp add: deadline_stands_def)
  from stands_trans[OF stands_trans[OF mr_byte.IH this] byte_stands[OF mr_byte.hyps(4)]] show ?case .
next
  case (mr_world s ss f)
  have "deadline_stands s (on_world f s)" by (simp add: deadline_stands_def)
  from stands_trans[OF mr_world.IH this] show ?case .
qed

lemma run_reaches:
  assumes "management_run hw b h s ss" "management_reaches hw b h s ss s' ss'"
  shows "management_run hw b h s' ss'"
proof -
  have "management_reaches hw b h s1 ss1 s' ss'" if "management_reaches hw b h s1 ss1 s ss" for s1 ss1
    using assms(2) that
  proof (induction rule: management_reaches.induct)
    case (mr_begin t ts now interrupts)
    show ?case by (rule management_reaches.mr_begin[OF mr_begin.IH[OF mr_begin.prems] mr_begin.hyps(2,3)])
  next
    case (mr_byte t bs ts byte usb now n t')
    show ?case by (rule management_reaches.mr_byte[OF mr_byte.IH[OF mr_byte.prems] mr_byte.hyps(2-4)])
  next
    case (mr_world t ts f)
    show ?case by (rule management_reaches.mr_world[OF mr_world.IH[OF mr_world.prems]])
  qed
  then show ?thesis using assms(1) unfolding management_run_def by blast
qed

lemma run_workspace: "management_run hw b h s ss \<Longrightarrow> um_workspace s"
  unfolding management_run_def using reaches_stands by (fastforce simp: usb_management_runtime_init_def deadline_stands_def)

lemma time_has_passed:
  assumes "250 \<le> unat (t - now)" "unat (t - now) < 2 ^ 31"
  shows "kernel_time_reached t (now + 250 :: u32)"
proof -
  have e: "t - (now + 250) = (t - now) - 250" by simp
  have "unat ((t - now) - 250) = unat (t - now) - 250" using assms(1) by (subst unat_sub) (simp_all add: word_le_nat_alt)
  then have "unat (t - (now + 250)) < 2 ^ 31" unfolding e using assms(2) by simp
  then have "uint (t - (now + 250)) < 2 ^ 31" by (metis nat_less_numeral_power_cancel_iff uint_ge_0 unat_eq_nat_uint zless_nat_eq_int_zless int_nat_eq of_nat_less_numeral_power_cancel_iff)
  then have "uint (t - (now + 250)) div 2 ^ 31 = 0" by simp
  then have "\<not> bit (uint (t - (now + 250))) 31" by (simp add: bit_iff_odd)
  then show ?thesis by (simp add: kernel_time_reached_def sint_uint)
qed

lemma request_status: "rid \<noteq> 0 \<Longrightarrow> firmware_update_status_of (enter_bootloader_request rid) = FIRMWARE_UPDATE_STATUS_OK"
  by (simp add: firmware_update_status_of_def enter_bootloader_request_def)

lemma handled_request:
  fixes now :: u32
  assumes st: "firmware_update_status_of v = FIRMWARE_UPDATE_STATUS_OK" and a: "\<not> um_reset_pending s" "rb_send_wire b = Some send" "\<And>wire. fst (send (rs_dev (um_rpc s)) wire)"
  defines "s' \<equiv> firmware_update_handle_runtime_frame now v b s"
  shows "um_reset_pending s' \<and> um_reset_deadline s' = now + 250 \<and> um_reset_baseline s' = dg_management_tx_packet_count (ud_diag (um_usb s))"
proof -
  define t where "t = s\<lparr>um_reset_baseline := dg_management_tx_packet_count (ud_diag (um_usb s))\<rparr>"
  obtain sent t' where r: "firmware_update_send_response v b FIRMWARE_UPDATE_STATUS_OK 0x80 t = (sent, t')" by fastforce
  obtain wire where "sent = fst (send (rs_dev (um_rpc s)) wire)"
    using r by (auto simp: firmware_update_send_response_def a(2) Let_def t_def split: prod.splits) (metis fst_conv)
  then have "sent" using a(3) by simp
  moreover have "um_reset_baseline t' = um_reset_baseline t" using send_response_stands[where s = t and f = v and b = b and st = FIRMWARE_UPDATE_STATUS_OK and x = "0x80"] r by simp
  ultimately show ?thesis using st a(1) r by (simp add: s'_def firmware_update_handle_runtime_frame_def Let_def t_def)
qed

text \<open>
  C7: A request for the bootloader is honoured. When it has been handled and the transport has
  taken the response, then in whatever run follows, with any transport, commands and interrupts,
  a call that begins after the host has taken a packet, or 250 ms or more after the request,
  requests the reset and does not return, unless it has been requested before.
\<close>
theorem bootloader_request_is_honoured:
  assumes "management_run hw b h s ss" "\<not> um_system_reset s" "\<not> um_reset_pending s" "rid \<noteq> 0"
    and send: "rb_send_wire b = Some send" "\<And>wire. fst (send (rs_dev (um_rpc s)) wire)"
    and f: "usb_management_frame hw b h now (enter_bootloader_request rid) s = (k, s1)"
    and r: "management_reaches hw b h s1 ss1 s2 ss2"
    and t: "dg_management_tx_packet_count (ud_diag (um_usb s2)) \<noteq> dg_management_tx_packet_count (ud_diag (um_usb s))
       \<or> 250 \<le> unat (t - now) \<and> unat (t - now) < 2 ^ 31"
  shows "um_system_reset s2
     \<or> (\<exists>s3. usb_management_runtime_service hw (Some b) h t interrupts rounds s2 = (None, s3) \<and> um_system_reset s3)"
proof (cases "um_system_reset s2")
  case False
  define s' where "s' = firmware_update_handle_runtime_frame now (enter_bootloader_request rid) b s"
  have h: "um_reset_pending s'" "um_reset_deadline s' = now + 250" "um_reset_baseline s' = dg_management_tx_packet_count (ud_diag (um_usb s))"
    using handled_request[where now = now, OF request_status[OF assms(4)] assms(3) send] unfolding s'_def by blast+
  have "s1 = firmware_update_reset_service now s'" using f h(1) by (simp add: usb_management_frame_def enter_bootloader_request_def[symmetric] s'_def Let_def)
    (simp add: enter_bootloader_request_def)
  then have "deadline_stands s' s1" using reset_service_stands by blast
  from stands_trans[OF this reaches_stands[OF r]] have d: "deadline_stands s' s2" .
  then have p: "um_reset_pending s2" "um_reset_deadline s2 = now + 250" "um_reset_baseline s2 = dg_management_tx_packet_count (ud_diag (um_usb s))"
    using h by (simp_all add: deadline_stands_def)
  have "um_workspace s1" using frame_stands[OF f] run_workspace[OF assms(1)] by (simp add: deadline_stands_def)
  then have ws: "um_workspace s2" using reaches_stands[OF r] by (simp add: deadline_stands_def)
  have e: "firmware_update_reset_service t s2 = firmware_update_system_reset s2"
    using p t time_has_passed[of t now] by (auto simp: firmware_update_reset_service_def)
  define s3 where "s3 = firmware_update_system_reset s2"
  have "um_system_reset s3" by (simp add: s3_def firmware_update_system_reset_def)
  moreover have "usb_management_begin t interrupts s2 = s3" using p(1) calculation unfolding usb_management_begin_def Let_def e s3_def[symmetric] by simp
  ultimately have "usb_management_runtime_service hw (Some b) h t interrupts rounds s2 = (None, s3)"
    using ws by (simp add: usb_management_runtime_service_def)
  then show ?thesis using \<open>um_system_reset s3\<close> by blast
qed simp

section \<open>A host that asks for the bootloader\<close>

lemma on_usb_twice: "on_usb (\<lambda>_. u) (on_usb f s) = on_usb (\<lambda>_. u) s" "um_parser (on_usb f s) = um_parser s"
  "(on_usb f s)\<lparr>um_parser := p\<rparr> = on_usb f (s\<lparr>um_parser := p\<rparr>)"
  by (simp_all add: on_usb_def on_world_def map_prod_def split: prod.split)

lemma host_byte:
  assumes r: "management_reaches hw b h s0 ss0 s (bs # ss)" "\<not> um_system_reset s"
  shows "\<exists>u. \<forall>n s'. usb_management_byte hw b h now x (on_usb (\<lambda>_. u) s) = (n, s') \<longrightarrow> management_reaches hw b h s0 ss0 s' ((bs @ [x]) # ss)"
proof -
  define u1 where "u1 = (um_usb s)\<lparr>ud_rx_ring := [x], ud_rx_head := 1, ud_rx_tail := 0\<rparr>"
  define u2 where "u2 = u1\<lparr>ud_rx_tail := 1\<rparr>"
  have g: "usb_management_try_getc (um_usb (on_usb (\<lambda>_. u1) s)) = (Some x, u2)" by (simp add: usb_management_try_getc_def u1_def u2_def)
  have "\<not> um_system_reset (on_usb (\<lambda>_. u1) s)" using r(2) by simp
  from mr_byte[OF reaches_usb[OF r(1)] this g] show ?thesis unfolding on_usb_twice by blast
qed

lemma host_sends:
  "management_reaches hw b h s0 ss0 s (bs # ss) \<Longrightarrow> \<not> um_system_reset s
     \<Longrightarrow> binary_frame_feed_all (um_parser s) xs = (p, replicate n (BINARY_FRAME_FEED_CONSUMED, None))
     \<Longrightarrow> \<exists>u. management_reaches hw b h s0 ss0 (on_usb (\<lambda>_. u) (s\<lparr>um_parser := p\<rparr>)) ((bs @ xs) # ss)"
proof (induction xs arbitrary: s bs n)
  case Nil
  then have "on_usb (\<lambda>_. um_usb s) (s\<lparr>um_parser := p\<rparr>) = s" by (cases s) (simp add: on_usb_def on_world_def um_usb_def map_prod_def split: prod.split)
  then show ?case using Nil(1) by (metis append_Nil2)
next
  case (Cons x xs)
  obtain p1 r v where v: "binary_frame_parser_feed (um_parser s) x = (p1, r, v)" by (metis prod_cases3)
  obtain q rs where q: "binary_frame_feed_all p1 xs = (q, rs)" by fastforce
  have c: "(r, v) # rs = replicate n (BINARY_FRAME_FEED_CONSUMED, None)" "q = p" using Cons.prems(3) by (simp_all add: v q)
  then obtain m where m: "n = Suc m" by (cases n) auto
  obtain u where u: "\<And>k s'. usb_management_byte hw b h 0 x (on_usb (\<lambda>_. u) s) = (k, s') \<Longrightarrow> management_reaches hw b h s0 ss0 s' ((bs @ [x]) # ss)"
    using host_byte[OF Cons.prems(1,2), of 0 x] by blast
  define s1 where "s1 = on_usb (\<lambda>_. u) (s\<lparr>um_parser := p1\<rparr>)"
  have "usb_management_byte hw b h 0 x (on_usb (\<lambda>_. u) s) = (0, s1)"
    using c m by (simp add: usb_management_byte_def v Let_def s1_def on_usb_twice)
  from u[OF this] have "management_reaches hw b h s0 ss0 s1 ((bs @ [x]) # ss)" .
  moreover have "\<not> um_system_reset s1" "binary_frame_feed_all (um_parser s1) xs = (p, replicate m (BINARY_FRAME_FEED_CONSUMED, None))"
    using Cons.prems(2) q c m by (simp_all add: s1_def)
  ultimately obtain u' where "management_reaches hw b h s0 ss0 (on_usb (\<lambda>_. u') (s1\<lparr>um_parser := p\<rparr>)) (((bs @ [x]) @ xs) # ss)"
    using Cons.IH by blast
  moreover have "on_usb (\<lambda>_. u') (s1\<lparr>um_parser := p\<rparr>) = on_usb (\<lambda>_. u') (s\<lparr>um_parser := p\<rparr>)"
    unfolding s1_def on_usb_twice(3) by (simp add: on_usb_twice(1))
  ultimately show ?case by auto
qed

text \<open>The device before it starts, and a transport that takes everything.\<close>

definition entry_demo :: "unit usb_management" where
  "entry_demo = \<lparr>um_parser = idle_parser, um_rpc = \<lparr>rs_hello_requests = 0, rs_rpc_requests = 0, rs_protocol_errors = 0,
     rs_response_data_frames = 0, rs_response_end_frames = 0, rs_tx_failures = 0,
     rs_argument_storage = replicate 4 (replicate 32 0), rs_wire = replicate 64 0, rs_active_binding = False,
     rs_total_output_bytes = 0, rs_active_rpc_id = 0, rs_active_request_id = 0, rs_sequence = 0,
     rs_data_chunk_length = 0, rs_tx_failed = False, rs_dev = (usb_demo0 (replicate 512 0) (replicate 1024 0), ())\<rparr>,
     um_workspace = False, um_asset = fresh_transfer, um_response_wire = replicate 28 0, um_last_bus_reset_count = 0,
     um_reset_baseline = 0, um_reset_deadline = 0, um_reset_pending = False, um_regs = (\<lambda>_. 0, []), um_system_reset = False\<rparr>"

definition entry_started :: "unit usb_management" where
  "entry_started = snd (usb_management_runtime_init True entry_demo)"

definition entry_transport :: "unit binding" where
  "entry_transport = \<lparr>rb_send_wire = Some (\<lambda>world wire. (True, world)), rb_source_rx_event_mask = 4, rb_capability_flags = 0x7F\<rparr>"

lemma entry_started:
  "management_run hw b h entry_started [[]]" "\<not> um_system_reset entry_started" "\<not> um_reset_pending entry_started"
  "bf_arrays (um_parser entry_started)" "bp_state (um_parser entry_started) = BINARY_FRAME_PARSER_IDLE" "um_workspace entry_started"
proof -
  have e: "usb_management_runtime_init True entry_demo = (True, entry_started)" by (simp add: entry_started_def usb_management_runtime_init_def)
  have l: "length (bp_header (um_parser entry_demo)) = 8" "length (bp_payload (um_parser entry_demo)) = 132"
    using idle_parser_ok(1) by (simp_all add: entry_demo_def bf_arrays_def)
  show "management_run hw b h entry_started [[]]" unfolding management_run_def
    by (rule exI[of _ entry_demo], rule exI[of _ entry_started], intro conjI l e mr_start) (simp_all add: entry_demo_def)
  show "\<not> um_system_reset entry_started" "\<not> um_reset_pending entry_started" "bf_arrays (um_parser entry_started)"
    "bp_state (um_parser entry_started) = BINARY_FRAME_PARSER_IDLE" "um_workspace entry_started"
    using idle_parser_ok by (simp_all add: entry_started_def usb_management_runtime_init_def entry_demo_def idle_parser_init)
qed

lemma entry_sent: "rb_send_wire entry_transport = Some (\<lambda>world wire. (True, world))"
  by (simp add: entry_transport_def)

lemma same_body_accepted:
  assumes "bf_body w = bf_body (enter_bootloader_request rid)" "rid \<noteq> 0"
  shows "firmware_update_status_of w = FIRMWARE_UPDATE_STATUS_OK \<and> fv_frame_type w = 4"
proof -
  have n: "length (wr16 (fv_request_id w) @ wr16 (fv_payload_length w)) = 4" by simp
  have e: "fv_version w = 1" "fv_frame_type w = 4" "fv_flags w = 1" "fv_reserved w = 0"
    "wr16 (fv_request_id w) @ wr16 (fv_payload_length w) @ take (unat (fv_payload_length w)) (fv_payload w) = wr16 rid @ wr16 1 @ [1]"
    using assms(1) by (simp_all add: bf_body_def enter_bootloader_request_def)
  have "wr16 (fv_request_id w) = wr16 rid" "wr16 (fv_payload_length w) = wr16 1" "take (unat (fv_payload_length w)) (fv_payload w) = [1]"
    using e(5) by (simp_all add: append_eq_append_conv)
  then have f: "fv_request_id w = rid" "fv_payload_length w = 1" by (metis rd16_wr16)+
  then have "take 1 (fv_payload w) = [1]" using \<open>take (unat (fv_payload_length w)) (fv_payload w) = [1]\<close> by simp
  then have "fv_payload w ! 0 = 1" by (cases "fv_payload w") simp_all
  then show ?thesis using e f assms(2) by (simp add: firmware_update_status_of_def)
qed

lemma entry_reached:
  "\<exists>s ss. management_run hw entry_transport h s ss \<and> um_reset_pending s"
proof -
  define v where "v = enter_bootloader_request 7"
  have vok: "bf_view_ok v" by (simp add: v_def enter_bootloader_request_def bf_view_ok_def)
  obtain p w where f: "binary_frame_feed_all (um_parser entry_started) (bf_wire v)
      = (p, replicate (11 + unat (fv_payload_length v)) (BINARY_FRAME_FEED_CONSUMED, None) @ [(BINARY_FRAME_FEED_FRAME_READY, Some w)])" "bf_body w = bf_body v"
    using parser_receives_wire[OF disjI1[OF entry_started(5)] entry_started(4) vok] by blast
  define xs where "xs = butlast (bf_wire v)"
  define x where "x = last (bf_wire v)"
  have "bf_wire v \<noteq> []" by (simp add: bf_wire_def)
  then have wire: "bf_wire v = xs @ [x]" by (simp add: xs_def x_def)
  obtain q rs where q: "binary_frame_feed_all (um_parser entry_started) xs = (q, rs)" by fastforce
  obtain p1 r1 v1 where l: "binary_frame_parser_feed q x = (p1, r1, v1)" by (metis prod_cases3)
  have "(p, replicate 12 (BINARY_FRAME_FEED_CONSUMED, None) @ [(BINARY_FRAME_FEED_FRAME_READY, Some w)]) = (p1, rs @ [(r1, v1)])"
    using f(1) unfolding wire bf_feed_all_append q prod.case by (simp add: l v_def enter_bootloader_request_def)
  then have k: "rs = replicate 12 (BINARY_FRAME_FEED_CONSUMED, None)" "r1 = BINARY_FRAME_FEED_FRAME_READY" "v1 = Some w" by auto
  have r0: "management_reaches hw entry_transport h entry_started [[]] entry_started [[]]" by (rule mr_start)
  obtain u where u: "management_reaches hw entry_transport h entry_started [[]] (on_usb (\<lambda>_. u) (entry_started\<lparr>um_parser := q\<rparr>)) [[] @ xs]"
    using host_sends[OF r0 entry_started(2) q[unfolded k(1)]] by blast
  define s1 where "s1 = on_usb (\<lambda>_. u) (entry_started\<lparr>um_parser := q\<rparr>)"
  have s1: "\<not> um_system_reset s1" "um_parser s1 = q" "\<not> um_reset_pending s1" using entry_started(2,3) by (simp_all add: s1_def)
  obtain u2 where u2: "\<And>n s'. usb_management_byte hw entry_transport h 0 x (on_usb (\<lambda>_. u2) s1) = (n, s')
      \<Longrightarrow> management_reaches hw entry_transport h entry_started [[]] s' [xs @ [x]]"
    using host_byte[OF u[folded s1_def] s1(1), of 0 x] by auto
  define s2 where "s2 = (on_usb (\<lambda>_. u2) s1)\<lparr>um_parser := p1\<rparr>"
  define s3 where "s3 = firmware_update_handle_runtime_frame 0 w entry_transport s2"
  have ok: "firmware_update_status_of w = FIRMWARE_UPDATE_STATUS_OK" "fv_frame_type w = 4"
    using same_body_accepted[of w 7] f(2) by (simp_all add: v_def)
  have np: "\<not> um_reset_pending s2" using s1(3) by (simp add: s2_def)
  have p3: "um_reset_pending s3" unfolding s3_def using handled_request[OF ok(1) np entry_sent] by simp
  define s4 where "s4 = firmware_update_reset_service 0 s3"
  have "usb_management_byte hw entry_transport h 0 x (on_usb (\<lambda>_. u2) s1) = (0, s4)"
    using l k(2,3) ok(2) p3 by (simp add: usb_management_byte_def s1(2) s2_def[symmetric] usb_management_frame_def s3_def[symmetric] s4_def Let_def)
  from u2[OF this] have "management_reaches hw entry_transport h entry_started [[]] s4 [xs @ [x]]" .
  then have "management_run hw entry_transport h s4 [xs @ [x]]" by (rule run_reaches[OF entry_started(1)])
  moreover have "um_reset_pending s4" using p3 by (simp add: s4_def firmware_update_reset_service_def firmware_update_system_reset_def)
  ultimately show ?thesis by blast
qed

theorem bootloader_entry_needs_request_witness:
  "\<exists>s :: unit usb_management. \<exists>ss. um_reset_pending s \<and> snd (um_regs s) \<noteq> []
     \<and> (\<exists>bs \<in> set ss. \<exists>before rid after. rid \<noteq> 0 \<and> bs = before @ bf_wire (enter_bootloader_request rid) @ after)"
proof -
  obtain s ss where r: "management_run working_hw entry_transport None s ss" "um_reset_pending s" using entry_reached by blast
  then show ?thesis using bootloader_entry_needs_request[OF r(1)] by (intro exI[of _ s] exI[of _ ss]) (auto simp: entry_token_def split: if_splits)
qed

theorem bootloader_request_is_honoured_witness:
  "\<exists>s1 s3. snd (usb_management_frame working_hw entry_transport None 0 (enter_bootloader_request 7) entry_started) = s1
     \<and> (um_system_reset s1 \<or> usb_management_runtime_service working_hw (Some entry_transport) None 250 id [] s1 = (None, s3) \<and> um_system_reset s3)"
proof -
  obtain k s1 where f: "usb_management_frame working_hw entry_transport None 0 (enter_bootloader_request 7) entry_started = (k, s1)" by fastforce
  have t: "dg_management_tx_packet_count (ud_diag (um_usb s1)) \<noteq> dg_management_tx_packet_count (ud_diag (um_usb entry_started))
       \<or> 250 \<le> unat (250 - 0 :: u32) \<and> unat (250 - 0 :: u32) < 2 ^ 31" by simp
  from bootloader_request_is_honoured[OF entry_started(1-3) _ entry_sent _ f mr_start t, of id "[]"] f show ?thesis by auto
qed

end
