(* ===== verification/Usb_Service_Returns.thy ===== *)
theory Usb_Service_Returns
  imports Usb_Bootloader_Entry
begin

unbundle bit_operations_syntax

text \<open>
  When a call of the management service returns: as soon as the host stops sending. The loop
  reads until the ring is empty, and interrupts fill it meanwhile, so the claim is about calls
  during which the interrupts bring a bounded number of bytes.
\<close>

section \<open>What a request does to the world\<close>

definition send_keeps :: "('d \<Rightarrow> bool) \<Rightarrow> 'd binary_rpc_binding \<Rightarrow> bool" where
  "send_keeps P b \<longleftrightarrow> (\<forall>send world wire. rb_send_wire b = Some send \<longrightarrow> P world \<longrightarrow> P (snd (send world wire)))"

definition handler_keeps :: "('d \<Rightarrow> bool) \<Rightarrow> 'd binary_rpc_state command_service_handler \<Rightarrow> bool" where
  "handler_keeps P h \<longleftrightarrow> (\<forall>req c. P (rs_dev (cc_write_context c)) \<longrightarrow> P (rs_dev (cc_write_context (snd (h req c)))))"

lemma send_keepsD: "send_keeps P b \<Longrightarrow> rb_send_wire b = Some send \<Longrightarrow> P world \<Longrightarrow> P (snd (send world wire))"
  by (simp add: send_keeps_def)

lemma workspace_frame_keeps:
  "send_keeps P b \<Longrightarrow> P (rs_dev s) \<Longrightarrow> P (rs_dev (snd (binary_rpc_send_workspace_frame b s t r l)))"
  by (auto simp: send_keeps_def binary_rpc_send_workspace_frame_def Let_def split: option.splits prod.splits) (metis snd_conv)+

lemma rpc_dev_simps [simp]: "rs_dev (put_payload s i bs) = rs_dev s" "rs_dev (binary_rpc_init s) = rs_dev s"
  by (simp_all add: put_payload_def binary_rpc_init_def)

lemma protocol_error_keeps:
  "send_keeps P b \<Longrightarrow> P (rs_dev s) \<Longrightarrow> P (rs_dev (snd (binary_rpc_send_protocol_error b s r c ob)))"
  unfolding binary_rpc_send_protocol_error_def Let_def by (rule workspace_frame_keeps) simp_all

lemma flush_keeps: "send_keeps P b \<Longrightarrow> P (rs_dev s) \<Longrightarrow> P (rs_dev (snd (binary_rpc_flush_data b s)))"
  using workspace_frame_keeps[of P b "put_payload s 0 (wr16 (rs_active_rpc_id s) @ wr16 (rs_sequence s))"]
  by (auto simp: binary_rpc_flush_data_def Let_def split: prod.splits) (metis rpc_dev_simps(1) snd_conv)+

lemma end_keeps: "send_keeps P b \<Longrightarrow> P (rs_dev s) \<Longrightarrow> P (rs_dev (snd (binary_rpc_send_end b s i r n t d c)))"
proof -
  assume a: "send_keeps P b" "P (rs_dev s)"
  define s2 where "s2 = (if d = 1 then (put_payload s 0 (wr16 i @ wr16 n @ wr32 t @ [d, c]))\<lparr>rs_protocol_errors := rs_protocol_errors (put_payload s 0 (wr16 i @ wr16 n @ wr32 t @ [d, c])) + 1\<rparr>
     else put_payload s 0 (wr16 i @ wr16 n @ wr32 t @ [d, c]))"
  have "P (rs_dev s2)" using a(2) by (simp add: s2_def)
  from workspace_frame_keeps[OF a(1) this, of "0x83" r 10]
  show ?thesis unfolding binary_rpc_send_end_def Let_def s2_def[symmetric] by (auto split: prod.splits)
qed

lemma hello_keeps: "send_keeps P b \<Longrightarrow> P (rs_dev s) \<Longrightarrow> P (rs_dev (snd (binary_rpc_send_hello b s r)))"
  unfolding binary_rpc_send_hello_def Let_def by (rule workspace_frame_keeps) simp_all

lemma decode_keeps: "rs_dev (snd (snd (snd (snd (binary_rpc_decode_request s f))))) = rs_dev s"
  by (auto simp: binary_rpc_decode_request_def Let_def split: prod.splits)

lemma run_command_keeps:
  assumes "send_keeps P b" "handler_keeps P h" "P (rs_dev s)"
  shows "P (rs_dev (snd (binary_rpc_run_command b h s i r req)))"
proof -
  define s1 where "s1 = s\<lparr>rs_active_rpc_id := i, rs_active_request_id := r, rs_sequence := 0, rs_total_output_bytes := 0, rs_data_chunk_length := 0, rs_tx_failed := False\<rparr>"
  define c where "c = \<lparr>cc_write_byte = Some (binary_rpc_output_write_byte b), cc_write_context = s1, cc_source_rx_event_mask = rb_source_rx_event_mask b, cc_write_failed = 0\<rparr>"
  have pc: "P (rs_dev (cc_write_context c))" using assms(3) by (simp add: c_def s1_def)
  obtain st c' where e: "command_service_execute (Some req) c (Some h) = (st, c')" by fastforce
  have "P (rs_dev (cc_write_context (c\<lparr>cc_write_failed := 0\<rparr>)))" using pc by simp
  then have "P (rs_dev (cc_write_context (snd (h req (c\<lparr>cc_write_failed := 0\<rparr>)))))" using assms(2) unfolding handler_keeps_def by blast
  then have p2: "P (rs_dev (cc_write_context c'))" using e pc by (auto simp: command_service_execute_def split: if_splits prod.splits)
  define s2 where "s2 = cc_write_context c'"
  obtain fl s3 where f: "(if \<not> rs_tx_failed s2 then binary_rpc_flush_data b s2 else (True, s2)) = (fl, s3)" by fastforce
  have "P (rs_dev s3)" using f flush_keeps[OF assms(1), of s2] p2 by (auto simp: s2_def split: if_splits)
  from end_keeps[OF assms(1) this] show ?thesis
    unfolding binary_rpc_run_command_def Let_def s1_def[symmetric] c_def[symmetric] e prod.case s2_def[symmetric] f by blast
qed

lemma rpc_request_keeps:
  assumes "send_keeps P b" "handler_keeps P h" "P (rs_dev s)"
  shows "P (rs_dev (snd (binary_rpc_handle_rpc_request s f b h)))"
proof -
  define s1 where "s1 = s\<lparr>rs_rpc_requests := rs_rpc_requests s + 1\<rparr>"
  have p1: "P (rs_dev s1)" using assms(3) by (simp add: s1_def)
  obtain d i n av s2 where d: "binary_rpc_decode_request s1 f = (d, i, n, av, s2)" by (metis prod_cases5)
  have p2: "P (rs_dev s2)" using decode_keeps[of s1 f] p1 d by simp
  show ?thesis
    unfolding binary_rpc_handle_rpc_request_def Let_def s1_def[symmetric] d prod.case binary_rpc_send_simple_end_def
    using end_keeps[OF assms(1) p1] end_keeps[OF assms(1) p2] protocol_error_keeps[OF assms(1) p1] protocol_error_keeps[OF assms(1) p2]
      run_command_keeps[OF assms(1,2) p2] by (simp split: option.split)
qed

lemma dispatch_keeps:
  assumes "send_keeps P b" "handler_keeps P h" "P (rs_dev s)"
  shows "P (rs_dev (snd (binary_rpc_dispatch s f b h)))"
proof -
  have "P (rs_dev (s\<lparr>rs_hello_requests := rs_hello_requests s + 1\<rparr>))" using assms(3) by simp
  then show ?thesis unfolding binary_rpc_dispatch_def Let_def
    using protocol_error_keeps[OF assms(1,3)] protocol_error_keeps[OF assms(1), of "s\<lparr>rs_hello_requests := rs_hello_requests s + 1\<rparr>"]
      hello_keeps[OF assms(1), of "s\<lparr>rs_hello_requests := rs_hello_requests s + 1\<rparr>"] rpc_request_keeps[OF assms] by simp
qed

lemma handle_frame_keeps:
  assumes "send_keeps P b" "\<And>handler. h = Some handler \<Longrightarrow> handler_keeps P handler" "P (rs_dev s)"
  shows "P (rs_dev (snd (binary_rpc_handle_frame s (Some f) (Some b) h)))"
proof (cases h)
  case None
  then show ?thesis using assms(3) by (simp add: binary_rpc_handle_frame_def)
next
  case (Some g)
  have "P (rs_dev (s\<lparr>rs_active_binding := True, rs_tx_failed := False\<rparr>))" using assms(3) by simp
  from dispatch_keeps[OF assms(1) assms(2)[OF Some] this, of f] show ?thesis
    using assms(3) Some by (cases "binary_rpc_dispatch (s\<lparr>rs_active_binding := True, rs_tx_failed := False\<rparr>) f b g") (simp add: binary_rpc_handle_frame_def)
qed

section \<open>The loop\<close>

definition rx_depth :: "usb_device \<Rightarrow> nat" where
  "rx_depth u = unat (ud_rx_head u - ud_rx_tail u)"

lemma getc_depth:
  "usb_management_try_getc u = (Some byte, u') \<Longrightarrow> rx_depth u = Suc (rx_depth u')"
  "usb_management_try_getc u = (None, u') \<Longrightarrow> rx_depth u = 0 \<and> u' = u"
proof -
  assume "usb_management_try_getc u = (Some byte, u')"
  then have e: "u' = u\<lparr>ud_rx_tail := ud_rx_tail u + 1\<rparr>" "ud_rx_head u \<noteq> ud_rx_tail u" by (auto simp: usb_management_try_getc_def Let_def split: if_splits)
  define d where "d = ud_rx_head u - ud_rx_tail u"
  have "d \<noteq> 0" using e(2) by (simp add: d_def)
  then have pos: "0 < unat d" "1 \<le> d" by (simp_all add: unat_gt_0 word_le_nat_alt Suc_leI)
  have m: "ud_rx_head u - (ud_rx_tail u + 1) = d - 1" by (simp add: d_def)
  have "rx_depth u = unat d" "rx_depth u' = unat (d - 1)" by (simp_all add: rx_depth_def e(1) m d_def[symmetric])
  then show "rx_depth u = Suc (rx_depth u')" using unat_sub[of 1 d] pos by simp
qed (auto simp: usb_management_try_getc_def rx_depth_def Let_def split: if_splits)

definition quiet :: "nat \<Rightarrow> 'x world \<Rightarrow> bool" where
  "quiet n world \<longleftrightarrow> rx_depth (fst world) \<le> n"

lemma quiet_usb: "quiet n (rs_dev (um_rpc s)) \<longleftrightarrow> rx_depth (um_usb s) \<le> n"
  by (simp add: quiet_def um_usb_def)

lemma response_quiet:
  assumes "send_keeps P b" "P (rs_dev (um_rpc s))"
  shows "P (rs_dev (um_rpc (snd (firmware_update_send_response f b st x s))))"
proof (cases "rb_send_wire b")
  case (Some send)
  define wire where "wire = snd (binary_frame_finalize_in_place 0x86 0 (fv_request_id f) 16 (store_at (um_response_wire s) 10 ([1, firmware_update_code st] @ [x, 0])))"
  have "P (snd (send (rs_dev (um_rpc s)) (take 28 wire)))" by (rule send_keepsD[OF assms(1) Some assms(2)])
  then show ?thesis unfolding firmware_update_send_response_def Some option.case Let_def wire_def[symmetric]
    by (cases "send (rs_dev (um_rpc s)) (take 28 wire)") (simp add: on_world_def)
qed (simp add: firmware_update_send_response_def assms(2))

lemma frame_quiet:
  assumes b: "send_keeps P b" and h: "\<And>handler. h = Some handler \<Longrightarrow> handler_keeps P handler" and p: "P (rs_dev (um_rpc s))"
    and f: "usb_management_frame hw b h now v s = (k, s')"
  shows "P (rs_dev (um_rpc s'))"
proof -
  consider (update) "fv_frame_type v = 4" | (asset) "fv_frame_type v = 3" | (rpc) "fv_frame_type v \<noteq> 4" "fv_frame_type v \<noteq> 3" by blast
  then show ?thesis
  proof cases
    case update
    define s1 where "s1 = firmware_update_handle_runtime_frame now v b s"
    define t where "t = s\<lparr>um_reset_baseline := dg_management_tx_packet_count (ud_diag (um_usb s))\<rparr>"
    have pt: "P (rs_dev (um_rpc t))" using p by (simp add: t_def)
    have "P (rs_dev (um_rpc s1))"
    proof -
      obtain sent t' where r: "firmware_update_send_response v b FIRMWARE_UPDATE_STATUS_OK 0x80 t = (sent, t')" by fastforce
      have "P (rs_dev (um_rpc t'))" using response_quiet[where P = P, OF b pt, of v FIRMWARE_UPDATE_STATUS_OK "0x80"] r by simp
      then show ?thesis using response_quiet[where P = P, OF b p]
        by (simp add: s1_def firmware_update_handle_runtime_frame_def Let_def t_def[symmetric] r)
    qed
    moreover have "s' = (if um_reset_pending s1 then firmware_update_reset_service now s1 else s1)"
      using f update by (auto simp: usb_management_frame_def Let_def s1_def)
    ultimately show ?thesis by (simp add: firmware_update_reset_service_def firmware_update_system_reset_def)
  next
    case asset
    show ?thesis
    proof (cases "rb_send_wire b")
      case None
      then show ?thesis using f p asset by (simp add: usb_management_frame_def)
    next
      case (Some send)
      obtain wire a where "asset_transfer_respond hw now (um_asset s) v = (wire, a)" by fastforce
      then have "s' = on_world (\<lambda>world. snd (send world wire)) (s\<lparr>um_asset := a\<rparr>)" using f asset Some by (simp add: usb_management_frame_def)
      then show ?thesis using send_keepsD[OF b Some p, of wire] by (simp add: on_world_def)
    qed
  next
    case rpc
    then have "s' = s\<lparr>um_rpc := snd (binary_rpc_handle_frame (um_rpc s) (Some v) (Some b) h)\<rparr>" using f by (simp add: usb_management_frame_def)
    moreover have "P (rs_dev (snd (binary_rpc_handle_frame (um_rpc s) (Some v) (Some b) h)))" using handle_frame_keeps[OF b h p] by blast
    ultimately show ?thesis by simp
  qed
qed

lemma byte_quiet:
  assumes "send_keeps P b" "\<And>handler. h = Some handler \<Longrightarrow> handler_keeps P handler" "P (rs_dev (um_rpc s))"
    and "usb_management_byte hw b h now byte s = (k, s')"
  shows "P (rs_dev (um_rpc s'))"
proof -
  obtain p r v where v: "binary_frame_parser_feed (um_parser s) byte = (p, r, v)" by (metis prod_cases3)
  have "P (rs_dev (um_rpc (s\<lparr>um_parser := p\<rparr>)))" using assms(3) by simp
  from frame_quiet[where P = P, OF assms(1,2) this] assms(3,4) show ?thesis
    by (auto simp: usb_management_byte_def v Let_def split: if_splits option.splits)
qed

text \<open>What interrupts may bring: in round \<open>i\<close> at most \<open>ks ! i\<close> bytes.\<close>

definition brings :: "((usb_device \<Rightarrow> usb_device) \<times> u32) list \<Rightarrow> nat list \<Rightarrow> bool" where
  "brings rounds ks \<longleftrightarrow> list_all2 (\<lambda>r k. \<forall>u. rx_depth (fst r u) \<le> rx_depth u + k) rounds ks"

lemma loop_returns:
  assumes b: "\<And>n. send_keeps (quiet n) b" and h: "\<And>n handler. h = Some handler \<Longrightarrow> handler_keeps (quiet n) handler"
  shows "brings rounds ks \<Longrightarrow> rx_depth (um_usb s) + sum_list ks < length rounds \<Longrightarrow>
    \<exists>r s'. usb_management_loop hw b h rounds n s = (r, s') \<and> (um_system_reset s' \<or> r \<noteq> None \<and> rx_depth (um_usb s') = 0)"
proof (induction rounds arbitrary: ks s n)
  case (Cons round rounds)
  obtain interrupts now where round: "round = (interrupts, now)" by fastforce
  obtain k ks' where ks: "ks = k # ks'" "\<And>u. rx_depth (interrupts u) \<le> rx_depth u + k" "brings rounds ks'"
    using Cons.prems(1) by (auto simp: brings_def round list_all2_Cons1)
  define s1 where "s1 = on_usb interrupts s"
  have d1: "rx_depth (um_usb s1) \<le> rx_depth (um_usb s) + k" using ks(2) by (simp add: s1_def)
  obtain g usb where g: "usb_management_try_getc (um_usb s1) = (g, usb)" by fastforce
  show ?case
  proof (cases g)
    case None
    then have "usb_management_loop hw b h (round # rounds) n s = (Some n, s1)" using g by (simp add: round s1_def[symmetric] Let_def)
    moreover have "rx_depth (um_usb s1) = 0" using getc_depth(2) g None by blast
    ultimately show ?thesis by simp
  next
    case (Some byte)
    define s2 where "s2 = on_usb (\<lambda>_. usb) s1"
    obtain m s3 where m: "usb_management_byte hw b h now byte s2 = (m, s3)" by fastforce
    have d2: "rx_depth (um_usb s1) = Suc (rx_depth (um_usb s2))" using getc_depth(1)[OF g[unfolded Some]] by (simp add: s2_def)
    have "quiet (rx_depth (um_usb s2)) (rs_dev (um_rpc s3))" by (rule byte_quiet[where P = "quiet (rx_depth (um_usb s2))", OF b h _ m]) (simp_all add: quiet_usb)
    then have d3: "rx_depth (um_usb s3) \<le> rx_depth (um_usb s2)" by (simp add: quiet_usb)
    have e: "usb_management_loop hw b h (round # rounds) n s
        = (if um_system_reset s3 then (None, s3) else usb_management_loop hw b h rounds (n + m) s3)"
      using g m Some by (simp add: round s1_def[symmetric] s2_def[symmetric] Let_def)
    show ?thesis
    proof (cases "um_system_reset s3")
      case True
      then show ?thesis using e by simp
    next
      case False
      have "rx_depth (um_usb s3) + sum_list ks' < length rounds" using Cons.prems(2) d1 d2 d3 ks(1) by simp
      from Cons.IH[OF ks(3) this, of "n + m"] show ?thesis using e False by simp
    qed
  qed
qed simp

lemma kernel_binding_quiet: "send_keeps (quiet n) (usb_management_binary_rpc_binding w)"
proof -
  have "rx_depth (snd (usb_management_write_span_atomic w d len u)) = rx_depth u" for d len u
    by (simp add: usb_management_write_span_atomic_def usb_management_tx_kick_def usb_pma_write16_def on_epr_def on_diag_def rx_depth_def Let_def split: option.split)
  then have "rx_depth (fst (snd (binary_rpc_management_send_wire w world wire))) = rx_depth (fst world)" for world :: "'a world" and wire
    by (cases "usb_management_write_span_atomic w (Some wire) (of_nat (length wire)) (fst world)")
      (metis (no_types, lifting) binary_rpc_management_send_wire_def fst_conv prod.case snd_conv)
  then show ?thesis by (simp add: send_keeps_def quiet_def usb_management_binary_rpc_binding_def)
qed

lemma begin_usb: "um_usb (usb_management_begin now interrupts s) = um_usb s \<or> um_usb (usb_management_begin now interrupts s) = interrupts (um_usb s)"
proof -
  define s1 where "s1 = (if um_reset_pending s then firmware_update_reset_service now s else s)"
  have "um_usb s1 = um_usb s" by (simp add: s1_def firmware_update_reset_service_def firmware_update_system_reset_def um_usb_def)
  then show ?thesis unfolding usb_management_begin_def Let_def s1_def[symmetric] by (simp add: protocol_reset_frame)
qed

text \<open>
  C17: A call of the management service comes to an end as soon as the host stops sending. With
  the kernel's transport and with commands that leave the receive ring alone, the loop takes at
  most as many rounds as there are bytes in the ring and bytes the interrupts bring meanwhile,
  and one more, whatever the frames ask for. The call returns, with the ring empty if the device
  is configured, unless it ends with the reset that was asked for.
\<close>
theorem service_returns:
  assumes h: "\<And>n handler. h = Some handler \<Longrightarrow> handler_keeps (quiet n) handler"
    and i: "\<And>u. rx_depth (interrupts u) \<le> rx_depth u + k" "brings rounds ks" "rx_depth (um_usb s) + k + sum_list ks < length rounds"
  shows "\<exists>r s'. usb_management_runtime_service hw (Some (usb_management_binary_rpc_binding w)) h now interrupts rounds s = (r, s')
     \<and> (um_system_reset s'
       \<or> (\<exists>n. r = Some n) \<and> (um_workspace s \<and> usb_management_is_configured (um_usb (usb_management_begin now interrupts s)) \<longrightarrow> rx_depth (um_usb s') = 0))"
proof (cases "um_workspace s")
  case True
  define s1 where "s1 = usb_management_begin now interrupts s"
  define b where "b = (usb_management_binary_rpc_binding w :: 'a binding)"
  have e: "usb_management_runtime_service hw (Some b) h now interrupts rounds s = (if um_system_reset s1 then (None, s1)
      else if \<not> usb_management_is_configured (um_usb s1) then (Some 0, s1) else usb_management_loop hw b h rounds 0 s1)"
    using True by (simp add: usb_management_runtime_service_def s1_def Let_def)
  have "rx_depth (um_usb s1) \<le> rx_depth (um_usb s) + k" using begin_usb[of now interrupts s] i(1)[of "um_usb s"] by (auto simp: s1_def)
  then have "rx_depth (um_usb s1) + sum_list ks < length rounds" using i(3) by simp
  from loop_returns[where n = 0 and hw = hw, OF kernel_binding_quiet[where w = w] h i(2) this]
  obtain r s' where l: "usb_management_loop hw b h rounds 0 s1 = (r, s')" "um_system_reset s' \<or> r \<noteq> None \<and> rx_depth (um_usb s') = 0"
    unfolding b_def by blast
  show ?thesis unfolding b_def[symmetric] s1_def[symmetric] e
  proof (cases "um_system_reset s1 \<or> \<not> usb_management_is_configured (um_usb s1)")
    case False
    then show "\<exists>r s'. (if um_system_reset s1 then (None, s1)
      else if \<not> usb_management_is_configured (um_usb s1) then (Some 0, s1) else usb_management_loop hw b h rounds 0 s1) = (r, s')
     \<and> (um_system_reset s' \<or> (\<exists>n. r = Some n) \<and> (um_workspace s \<and> usb_management_is_configured (um_usb s1) \<longrightarrow> rx_depth (um_usb s') = 0))"
      using l by auto
  qed auto
qed (simp add: usb_management_runtime_service_def)

text \<open>A configured device with three bytes in the ring.\<close>

definition returns_demo :: "unit usb_management" where
  "returns_demo = on_usb (\<lambda>u. u\<lparr>ud_rx_head := 3, ud_diag := (ud_diag u)\<lparr>dg_configuration := 1, dg_management_configured := 1\<rparr>\<rparr>) entry_started"

theorem service_returns_witness:
  "\<exists>r s'. usb_management_runtime_service working_hw (Some (usb_management_binary_rpc_binding epr_of_manual))
       (Some (\<lambda>req c. (COMMAND_SERVICE_STATUS_OK, c))) 0 id (replicate 4 (id, 0)) returns_demo = (r, s')
     \<and> (um_system_reset s' \<or> (\<exists>n. r = Some n) \<and> rx_depth (um_usb s') = 0)"
proof -
  have d: "rx_depth (um_usb returns_demo) = 3"
    by (simp add: returns_demo_def rx_depth_def entry_started_def usb_management_runtime_init_def entry_demo_def um_usb_def on_usb_def on_world_def
        usb_demo0_def binary_rpc_init_def)
  have c: "usb_management_is_configured (um_usb returns_demo)" "um_workspace returns_demo"
    using entry_started(6) by (simp_all add: returns_demo_def usb_management_is_configured_def)
  have "usb_management_is_configured (um_usb (usb_management_begin 0 id returns_demo))" using begin_usb[of 0 id returns_demo] c(1) by auto
  moreover have "brings (replicate 4 (id, 0)) (replicate 4 0)" by (simp add: brings_def list_all2_conv_all_nth)
  moreover have "handler_keeps (quiet n) (\<lambda>req c. (COMMAND_SERVICE_STATUS_OK, c))" for n by (simp add: handler_keeps_def)
  ultimately show ?thesis
    using service_returns[where h = "Some (\<lambda>req c. (COMMAND_SERVICE_STATUS_OK, c))" and interrupts = id and k = 0 and rounds = "replicate 4 (id, 0)" and ks = "replicate 4 0"
        and s = returns_demo and hw = working_hw and w = epr_of_manual and now = 0] d c(2) by (auto simp: sum_list_replicate)
qed

end
