(* ===== verification/Usb_Race.thy ===== *)
theory Usb_Race
  imports Usb_Traffic
begin

unbundle bit_operations_syntax

text \<open>
  What the steps of \<open>Usb_Traffic\<close> leave out: the peripheral works on between the read and the
  write of an endpoint register. \<open>usb_ep_invariant\<close> of \<open>src/src/drivers/usb_device.c\<close> writes the
  completion flags back as it has read them, and a flag that was set meanwhile is cleared.
\<close>

section \<open>The peripheral between read and write\<close>

text \<open>The register is read, the peripheral changes it, and the value worked out from the old one is written.\<close>

definition meanwhile :: "(u16 \<Rightarrow> u16) \<Rightarrow> epr_write \<Rightarrow> epr_write" where
  "meanwhile peripheral w old v = w (peripheral old) v"

text \<open>A packet of the host: the completion is flagged and no further packet is taken.\<close>

definition out_arrives :: "u16 \<Rightarrow> u16" where
  "out_arrives r = (r AND NOT USB_EP_STAT_RX_MASK) OR (USB_EP_CTR_RX OR USB_EP_STAT_RX_NAK)"

definition deaf :: "usb_device \<Rightarrow> bool" where
  "deaf s \<longleftrightarrow> \<not> bit (ud_epr s 4) 15 \<and> bit (ud_epr s 4) 13 \<and> \<not> bit (ud_epr s 4) 12"

lemma status_write_forgets:
  fixes st :: u16
  assumes "epr_manual w" "\<not> bit c 15"
  defines "r \<equiv> usb_ep_set_tx_status (meanwhile out_arrives w) st c"
  shows "\<not> bit r 15 \<and> bit r 13 \<and> \<not> bit r 12"
proof -
  have "r = epr_of_manual (out_arrives c) (usb_ep_invariant c OR ((c XOR st) AND 0x30))"
    by (simp add: r_def usb_ep_set_tx_status_def meanwhile_def epr_manual_unique[OF assms(1)])
  then show ?thesis using assms(2)
    by (simp add: epr_of_manual_def out_arrives_def usb_ep_invariant_def bit_and_iff bit_or_iff bit_xor_iff bit_not_iff)
qed

section \<open>What follows\<close>

text \<open>Whatever the driver does then, short of setting the endpoint up anew.\<close>

inductive management_use :: "epr_write \<Rightarrow> usb_device \<Rightarrow> usb_device \<Rightarrow> bool" for w s0 where
  mu_start: "management_use w s0 s0"
| mu_read: "management_use w s0 s \<Longrightarrow> usb_management_try_getc s = (b, s') \<Longrightarrow> management_use w s0 s'"
| mu_write: "management_use w s0 s \<Longrightarrow> usb_management_write_span_atomic w d len s = (ok, s') \<Longrightarrow> management_use w s0 s'"
| mu_taken: "management_use w s0 s \<Longrightarrow> in_packet s s' \<Longrightarrow> management_use w s0 s'"
| mu_elsewhere: "management_use w s0 s \<Longrightarrow> elsewhere s s' \<Longrightarrow> management_use w s0 s'"
| mu_round: "management_use w s0 s \<Longrightarrow> management_round current s \<Longrightarrow> management_use w s0 (irq_round w current s)"
| mu_control: "management_use w s0 s \<Longrightarrow> \<not> management_round current s \<Longrightarrow> same_management s (irq_round w current s) \<Longrightarrow> management_use w s0 (irq_round w current s)"

lemma kick_deaf:
  assumes "epr_manual w" "deaf s"
  shows "deaf (usb_management_tx_kick w s) \<and> ud_rx_head (usb_management_tx_kick w s) = ud_rx_head s"
  using assms(2) by (simp add: usb_management_tx_kick_def Let_def deaf_def on_epr_def usb_pma_write16_def ep_fields[OF assms(1)] bit_and_iff bit_or_iff bit_not_iff)

lemma write_deaf:
  assumes "epr_manual w" "deaf s" "usb_management_write_span_atomic w d len s = (ok, s')"
  shows "deaf s' \<and> ud_rx_head s' = ud_rx_head s"
proof -
  define P where "P x \<longleftrightarrow> deaf x \<and> ud_rx_head x = ud_rx_head s" for x
  have k: "P (usb_management_tx_kick w t)" if "ud_epr t = ud_epr s" "ud_rx_head t = ud_rx_head s" for t
    using kick_deaf[OF assms(1), of t] assms(2) that by (simp add: P_def deaf_def)
  have n: "P s" "P (on_diag f s)" for f using assms(2) by (simp_all add: P_def deaf_def on_diag_def)
  have h: "ud_epr (on_diag f t) = ud_epr t" "ud_rx_head (on_diag f t) = ud_rx_head t" for f t by (simp_all add: on_diag_def)
  have "P (snd (usb_management_write_span_atomic w d len s))" by (simp add: usb_management_write_span_atomic_def Let_def n k h split: option.split)
  then have "P s'" using assms(3) by simp
  then show ?thesis by (simp add: P_def)
qed

lemma round_deaf:
  assumes w: "epr_manual w" and d: "deaf s" and m: "management_round current s"
  shows "deaf (irq_round w current s) \<and> ud_rx_head (irq_round w current s) = ud_rx_head s"
proof -
  have e: "ucast (current AND 0xF) = (4 :: u8)" using m by (simp add: management_round_def)
  have n: "ud_epr s 4 AND 0x8000 = 0" using d bit_fields(2)[of "ud_epr s 4"] by (auto simp: deaf_def)
  have r: "irq_round w current s = (if ud_epr s 4 AND 0x80 \<noteq> 0 then usb_management_handle_in w s else s)"
    using m n by (simp add: irq_round_def e management_round_def usb_management_handle_ctr_def Let_def)
  define s2 where "s2 = on_epr 4 (usb_ep_set_tx_status w 0x20)
     (let s1 = on_epr 4 (usb_ep_clear_ctr_tx w) s
      in if ud_tx_active s1 then
                  (on_diag (\<lambda>g. g\<lparr>dg_management_tx_packet_count := dg_management_tx_packet_count g + 1,
                                  dg_management_tx_byte_count := dg_management_tx_byte_count g + ucast (ud_tx_inflight s1)\<rparr>)
                    (s1\<lparr>ud_tx_tail := ud_tx_tail s1 + ucast (ud_tx_inflight s1)\<rparr>))\<lparr>ud_tx_inflight := 0, ud_tx_active := False\<rparr>
                else s1)"
  have h: "usb_management_handle_in w s = usb_management_tx_kick w s2" by (simp add: usb_management_handle_in_def s2_def Let_def)
  have "deaf s2" "ud_rx_head s2 = ud_rx_head s"
    using d by (simp_all add: s2_def deaf_def Let_def on_epr_def on_diag_def ep_fields[OF w] bit_and_iff bit_or_iff bit_not_iff)
  then show ?thesis using kick_deaf[OF w, of s2] d by (simp add: r h)
qed

lemma use_deaf: "management_use w s0 s \<Longrightarrow> epr_manual w \<Longrightarrow> deaf s0 \<Longrightarrow> deaf s \<and> ud_rx_head s = ud_rx_head s0"
proof (induction rule: management_use.induct)
  case (mu_read s b s')
  then show ?case by (auto simp: usb_management_try_getc_def Let_def deaf_def split: if_splits)
next
  case (mu_write s d len ok s')
  then show ?case using write_deaf by metis
next
  case (mu_taken s s')
  obtain epr where e: "s' = s\<lparr>ud_epr := epr\<rparr>" "epr 4 AND (0x8000 OR 0x3000) = ud_epr s 4 AND (0x8000 OR 0x3000)"
    using mu_taken.hyps(2) by (auto simp: in_packet_def)
  have b: "bit (epr 4) k = bit (ud_epr s 4) k" if "k \<in> {15, 13, 12}" for k
    using arg_cong[OF e(2), of "\<lambda>x. bit x k"] that by (auto simp: bit_and_iff bit_or_iff)
  show ?case using mu_taken.IH mu_taken.prems b by (simp add: e(1) deaf_def)
next
  case (mu_elsewhere s s')
  then show ?case by (auto simp: elsewhere_def deaf_def)
next
  case (mu_round s current)
  then show ?case using round_deaf by metis
next
  case (mu_control s current)
  then show ?case by (simp add: same_management_def deaf_def)
qed simp

text \<open>
  C19: A packet of the host that arrives while the driver sets the transmit status is lost, and
  the endpoint with it. When a write of the firmware starts a packet and a packet of the host is
  taken between the read and the write of the endpoint register, its completion flag is cleared
  unseen. From then on, whatever is read, written, sent and handled, no byte reaches the ring
  and the endpoint takes no further packet, until the host sets the device up anew.
\<close>
theorem arriving_packet_blocks_endpoint:
  assumes w: "epr_manual w" and r: "ud_epr s 4 AND USB_EP_CTR_RX = 0" and t: "\<not> ud_tx_active s"
    and wr: "usb_management_write_span_atomic (meanwhile out_arrives w) (Some d) len s = (True, s1)" "len \<noteq> 0"
    and u: "management_use w s1 s'"
  shows "ud_rx_head s' = ud_rx_head s \<and> ud_epr s' 4 AND USB_EP_CTR_RX = 0 \<and> ud_epr s' 4 AND USB_EP_STAT_RX_MASK = USB_EP_STAT_RX_NAK
     \<and> \<not> out_packet bs s' s''"
proof -
  define ring where "ring = fold (\<lambda>index ring. ring[unat ((ud_tx_head s + of_nat index) AND 1023) := d ! index]) [0..<unat len] (ud_tx_ring s)"
  define x where "x = s\<lparr>ud_tx_ring := ring, ud_tx_head := ud_tx_head s + len\<rparr>"
  define y where "y = (if ud_tx_head s - ud_tx_tail s + len > dg_management_tx_high_water (ud_diag x)
       then on_diag (\<lambda>g. g\<lparr>dg_management_tx_high_water := ud_tx_head s - ud_tx_tail s + len\<rparr>) x else x)"
  have c: "usb_management_is_configured s" "ud_tx_head s - ud_tx_tail s \<le> 1024" "len \<le> 1024 - (ud_tx_head s - ud_tx_tail s)"
    and e: "s1 = usb_management_tx_kick (meanwhile out_arrives w) y"
    using wr by (auto simp: usb_management_write_span_atomic_def Let_def ring_def x_def y_def not_less split: if_splits)
  define a where "a = ud_tx_head s - ud_tx_tail s"
  have "unat len \<le> 1024 - unat a" using c(2,3) unat_sub[OF c(2)] by (simp add: a_def word_le_nat_alt)
  then have "unat (a + len) = unat a + unat len" using c(2) by (simp add: a_def word_le_nat_alt unat_add_lem[THEN iffD1])
  then have nz: "a + len \<noteq> 0" using wr(2) by (metis add_is_0 unat_eq_0)
  have y: "ud_tx_head y - ud_tx_tail y = a + len" "ud_epr y = ud_epr s" "ud_rx_head y = ud_rx_head s" "\<not> ud_tx_active y"
    "dg_configuration (ud_diag y) = 1" "dg_management_configured (ud_diag y) \<noteq> 0"
    using t c(1) by (simp_all add: y_def x_def on_diag_def a_def usb_management_is_configured_def)
  have b: "\<not> bit (ud_epr s 4) 15" using r bit_fields(2)[of "ud_epr s 4"] by blast
  have "deaf s1 \<and> ud_rx_head s1 = ud_rx_head s"
    using y(3-6) nz status_write_forgets[OF w b, of "0x30"]
    by (simp add: e usb_management_tx_kick_def y(1,2) Let_def deaf_def on_epr_def usb_pma_write16_def)
  then have f: "deaf s'" "ud_rx_head s' = ud_rx_head s" using use_deaf[OF u w] by auto
  have g: "ud_epr s' 4 AND 0x3000 = 0x2000" "ud_epr s' 4 AND 0x8000 = 0" using f(1) bit_fields(2)[of "ud_epr s' 4"] unfolding bit_fields(7) deaf_def by blast+
  then have "\<not> out_packet bs s' s''" by (simp add: out_packet_def)
  then show ?thesis using f g by simp
qed

text \<open>The configured device: the endpoint takes packets, and two bytes are written.\<close>

lemma configured_endpoint:
  "ud_epr (usb_demo5 rx tx) 4 AND USB_EP_STAT_RX_MASK = USB_EP_STAT_RX_VALID \<and> ud_epr (usb_demo5 rx tx) 4 AND USB_EP_CTR_RX = 0 \<and> \<not> ud_tx_active (usb_demo5 rx tx)"
proof -
  have s: "ud_ep0_state (usb_demo4 rx tx) = USB_EP0_STATUS_IN" "ud_pending_configuration (usb_demo4 rx tx) = 1" "ud_pending_configuration_valid (usb_demo4 rx tx)"
    "\<not> ud_pending_address_valid (usb_demo4 rx tx)" "ud_epr (usb_demo4 rx tx) 0 = 0x32A0"
    using usb_demo3_facts[of rx tx] by (simp_all add: usb_demo4_def)
  have e: "usb_demo5 rx tx = usb_ep0_handle_tx epr_of_manual (usb_demo4 rx tx)" by (simp add: usb_demo5_def irq_round_def usb_ep0_handle_ctr_def s)
  obtain r where r: "ud_epr (usb_demo5 rx tx) 4 = (((r AND 0x800) OR 4) AND NOT 0x30 OR 0x20) AND NOT 0x3000 OR 0x3000" "\<not> ud_tx_active (usb_demo5 rx tx)"
    unfolding e
    by (simp add: usb_ep0_handle_tx_def Let_def on_diag_def on_epr_def s usb_ep0_arm_rx_def usb_ep0_apply_pending_status_action_def usb_management_endpoints_enable_def
        usb_management_reset_rings_def usb_pma_write16_def ep_fields(1,2)[OF epr_of_manual_ok] ep_runtime_reset[OF epr_of_manual_ok])
  have "ud_epr (usb_demo5 rx tx) 4 AND 0x8000 = 0"
    unfolding r(1) by (rule u16_eqI; unfold below16; elim disjE; simp add: bit_and_iff bit_or_iff bit_not_iff)
  then show ?thesis using r(2) unfolding r(1) bit_fields by (simp add: bit_and_iff bit_or_iff bit_not_iff)
qed

theorem arriving_packet_blocks_endpoint_witness:
  "\<exists>s. usb_run epr_of_manual s no_traffic \<and> ud_epr s 4 AND USB_EP_STAT_RX_MASK = USB_EP_STAT_RX_VALID
     \<and> (\<exists>s1. usb_management_write_span_atomic (meanwhile out_arrives epr_of_manual) (Some [1, 2]) 2 s = (True, s1)
       \<and> ud_epr s1 4 AND USB_EP_CTR_RX = 0 \<and> ud_epr s1 4 AND USB_EP_STAT_RX_MASK = USB_EP_STAT_RX_NAK)"
proof -
  define s where "s = usb_demo5 (replicate 512 0) (replicate 1024 0)"
  have c: "ud_epr s 4 AND USB_EP_STAT_RX_MASK = USB_EP_STAT_RX_VALID" "ud_epr s 4 AND USB_EP_CTR_RX = 0" "\<not> ud_tx_active s"
    using configured_endpoint unfolding s_def by blast+
  have f: "usb_management_is_configured s" "ud_tx_head s = 0" "ud_tx_tail s = 0" using usb_demo5_facts unfolding s_def by blast+
  define s1 where "s1 = snd (usb_management_write_span_atomic (meanwhile out_arrives epr_of_manual) (Some [1, 2]) 2 s)"
  have w: "usb_management_write_span_atomic (meanwhile out_arrives epr_of_manual) (Some [1, 2]) 2 s = (True, s1)"
    using f by (simp add: s1_def usb_management_write_span_atomic_def Let_def)
  have two: "(2 :: u32) \<noteq> 0" by simp
  have "ud_epr s1 4 AND USB_EP_CTR_RX = 0 \<and> ud_epr s1 4 AND USB_EP_STAT_RX_MASK = USB_EP_STAT_RX_NAK"
    using arriving_packet_blocks_endpoint[OF epr_of_manual_ok c(2,3) w two mu_start, of "[]" s] by blast
  moreover have "usb_run epr_of_manual s no_traffic" unfolding s_def by (rule usb_demo_configured) simp_all
  ultimately show ?thesis using c(1) w by blast
qed

end
