(* ===== verification/Boot_Usb.thy ===== *)
theory Boot_Usb
  imports Boot_Update Usb_Requests
begin

unbundle bit_operations_syntax

text \<open>
  The hardware side of the bootloader (\<open>src/bootloader/bootloader.c\<close>): the update token in the
  backup registers, the clock, and the USB device with its control endpoint 0 and the bulk
  endpoint 1, which the update logic of \<open>Boot_Update\<close> sees as packets. The endpoint registers
  and the packet memory are those of \<open>Usb_Registers\<close>, whose \<open>usb_pma_write\<close> and
  \<open>usb_pma_read\<close> the bootloader repeats.
\<close>

section \<open>Endpoint registers\<close>

definition boot_ep_invariant :: "u16 \<Rightarrow> u16" where
  "boot_ep_invariant v = (v AND (USB_EP_TYPE_MASK OR USB_EP_KIND OR USB_EP_EA_MASK)) OR USB_EP_CTR_RX OR USB_EP_CTR_TX"

definition boot_ep_set_tx :: "epr_write \<Rightarrow> u16 \<Rightarrow> u16 \<Rightarrow> u16" where
  "boot_ep_set_tx w st c = w c (boot_ep_invariant c OR ((c XOR st) AND USB_EP_STAT_TX_MASK))"

definition boot_ep_set_rx :: "epr_write \<Rightarrow> u16 \<Rightarrow> u16 \<Rightarrow> u16" where
  "boot_ep_set_rx w st c = w c (boot_ep_invariant c OR ((c XOR st) AND USB_EP_STAT_RX_MASK))"

definition boot_ep_clear_ctr_rx :: "epr_write \<Rightarrow> u16 \<Rightarrow> u16" where
  "boot_ep_clear_ctr_rx w c = w c (boot_ep_invariant c AND NOT USB_EP_CTR_RX)"

definition boot_ep_clear_ctr_tx :: "epr_write \<Rightarrow> u16 \<Rightarrow> u16" where
  "boot_ep_clear_ctr_tx w c = w c (boot_ep_invariant c AND NOT USB_EP_CTR_TX)"

definition boot_ep_clear_dtog_rx :: "epr_write \<Rightarrow> u16 \<Rightarrow> u16" where
  "boot_ep_clear_dtog_rx w c = (if c AND USB_EP_DTOG_RX \<noteq> 0 then w c (boot_ep_invariant c OR USB_EP_DTOG_RX) else c)"

definition boot_ep_clear_dtog_tx :: "epr_write \<Rightarrow> u16 \<Rightarrow> u16" where
  "boot_ep_clear_dtog_tx w c = (if c AND USB_EP_DTOG_TX \<noteq> 0 then w c (boot_ep_invariant c OR USB_EP_DTOG_TX) else c)"

definition boot_ep_reset :: "epr_write \<Rightarrow> u16 \<Rightarrow> u16 \<Rightarrow> u16 \<Rightarrow> u16" where
  "boot_ep_reset w ep type c =
     w (boot_ep_clear_dtog_tx w (boot_ep_clear_dtog_rx w (boot_ep_clear_ctr_tx w (boot_ep_clear_ctr_rx w
         (boot_ep_set_rx w USB_EP_STAT_RX_DISABLED (boot_ep_set_tx w USB_EP_STAT_TX_DISABLED c))))))
       (type OR ep)"

text \<open>Each function sets its field and leaves the rest, as those of the firmware's driver do.\<close>

lemma boot_ep_fields:
  assumes "epr_manual w"
  shows "boot_ep_set_tx w st r = (r AND NOT 0x30) OR (st AND 0x30)"
    "boot_ep_set_rx w st r = (r AND NOT 0x3000) OR (st AND 0x3000)"
    "boot_ep_clear_ctr_rx w r = r AND NOT 0x8000"
    "boot_ep_clear_ctr_tx w r = r AND NOT 0x80"
    "boot_ep_clear_dtog_rx w r = r AND NOT 0x4000"
    "boot_ep_clear_dtog_tx w r = r AND NOT 0x40"
proof -
  note d = boot_ep_set_tx_def boot_ep_set_rx_def boot_ep_clear_ctr_rx_def boot_ep_clear_ctr_tx_def epr_manual_unique[OF assms]
    epr_of_manual_def boot_ep_invariant_def bit_and_iff bit_or_iff bit_xor_iff bit_not_iff
  show "boot_ep_set_tx w st r = (r AND NOT 0x30) OR (st AND 0x30)"
    by (rule u16_eqI; unfold below16; elim disjE; simp add: d) (blast+)
  show "boot_ep_set_rx w st r = (r AND NOT 0x3000) OR (st AND 0x3000)"
    by (rule u16_eqI; unfold below16; elim disjE; simp add: d) (blast+)
  show "boot_ep_clear_ctr_rx w r = r AND NOT 0x8000" "boot_ep_clear_ctr_tx w r = r AND NOT 0x80"
    by (rule u16_eqI; unfold below16; elim disjE; simp add: d)+
  have t: "bit r 14 \<longleftrightarrow> r AND 0x4000 \<noteq> 0" "bit r 6 \<longleftrightarrow> r AND 0x40 \<noteq> 0"
    using and_exp_eq_0_iff_not_bit[of r 14] and_exp_eq_0_iff_not_bit[of r 6] by simp_all
  show "boot_ep_clear_dtog_rx w r = r AND NOT 0x4000"
    unfolding boot_ep_clear_dtog_rx_def t(1)[symmetric] by (rule u16_eqI; unfold below16; elim disjE; simp add: d)
  show "boot_ep_clear_dtog_tx w r = r AND NOT 0x40"
    unfolding boot_ep_clear_dtog_tx_def t(2)[symmetric] by (rule u16_eqI; unfold below16; elim disjE; simp add: d)
qed

section \<open>Descriptors\<close>

definition boot_device_descriptor :: bytes where
  "boot_device_descriptor = [18, USB_DESC_DEVICE, 0x10, 0x02, 0, 0, 0, 64, 0x09, 0x12, 0x0D, 0x00, 0x00, 0x01, 0, 1, 0, 1]"

definition boot_configuration_descriptor :: bytes where
  "boot_configuration_descriptor = [9, USB_DESC_CONFIGURATION, 32, 0, 1, 1, 0, 0x80, 50, 9, 4, 0, 0, 2, 0xFF, 0, 0, 0,
     7, 5, 0x01, 2, 64, 0, 0, 7, 5, 0x81, 2, 64, 0, 0]"

definition boot_bos_descriptor :: bytes where
  "boot_bos_descriptor = [5, USB_DESC_BOS, 33, 0, 1, 28, 16, 5, 0,
     0xDF, 0x60, 0xDD, 0xD8, 0x89, 0x45, 0xC7, 0x4C, 0x9C, 0xD2, 0x65, 0x9D, 0x9E, 0x64, 0x8A, 0x9F,
     0, 0, 0, 0x0A, 178, 0, USB_MS_OS_20_VENDOR_CODE, 0]"

definition boot_ms_os_20_descriptor_set :: bytes where
  "boot_ms_os_20_descriptor_set = [0x0A, 0, 0, 0, 0, 0, 0, 0x0A, 178, 0] @ [8, 0, 1, 0, 0, 0, 168, 0] @ [8, 0, 2, 0, 0, 0, 160, 0]
     @ [0x14, 0, 3, 0] @ map (\<lambda>c. of_nat (of_char c)) ''WINUSB'' @ [0, 0, 0, 0, 0, 0, 0, 0, 0, 0]
     @ [132, 0, 4, 0, 7, 0, 0x2A, 0] @ wide ''DeviceInterfaceGUIDs'' @ [0, 0, 0x50, 0]
     @ wide ''{F08907B7-BEC4-5FCF-BC4C-B446ED345D87}'' @ [0, 0, 0, 0]"

definition boot_string_language :: bytes where
  "boot_string_language = [4, USB_DESC_STRING, 0x09, 0x04]"

definition boot_string_product :: bytes where
  "boot_string_product = [38, USB_DESC_STRING] @ wide ''Deus OS Bootloader''"

lemma boot_descriptor_lengths:
  "length boot_device_descriptor = 18" "length boot_configuration_descriptor = 32" "length boot_bos_descriptor = 33"
  "length boot_ms_os_20_descriptor_set = 178" "length boot_string_language = 4" "length boot_string_product = 38"
  by code_simp+

section \<open>State\<close>

text \<open>
  The registers of the peripheral and the variables of endpoint 0, with the update logic, which
  holds the variables the two share (\<open>b_usb_configuration\<close>, \<open>b_usb_tx_active\<close>).
\<close>

record boot_usb =
  bu_epr :: "u8 \<Rightarrow> u16"
  bu_pma :: packet_memory
  bu_istr_written :: u16
  bu_btable :: u16
  bu_daddr :: u16
  bu_ep0_ptr :: bytes
  bu_ep0_remaining :: u16
  bu_ep0_state :: usb_ep0_state
  bu_ep0_pending_address :: u8
  bu_ep0_address_valid :: bool
  bu_ep0_pending_configuration :: u8
  bu_ep0_configuration_valid :: bool
  bu_rx_packet :: bytes
  bu_boot :: boot

definition on_boot_epr :: "u8 \<Rightarrow> (u16 \<Rightarrow> u16) \<Rightarrow> boot_usb \<Rightarrow> boot_usb" where
  "on_boot_epr ep f s = s\<lparr>bu_epr := (bu_epr s)(ep := f (bu_epr s ep))\<rparr>"

definition boot_pma_write16 :: "u16 \<Rightarrow> u16 \<Rightarrow> boot_usb \<Rightarrow> boot_usb" where
  "boot_pma_write16 off v s = s\<lparr>bu_pma := (bu_pma s)(off := v)\<rparr>"

definition boot_istr_clear :: "u16 \<Rightarrow> boot_usb \<Rightarrow> boot_usb" where
  "boot_istr_clear f s = s\<lparr>bu_istr_written := NOT f\<rparr>"

definition boot_ep_rx_count :: "u8 \<Rightarrow> boot_usb \<Rightarrow> u16" where
  "boot_ep_rx_count ep s = bu_pma s (USB_BTABLE_EP_RX_COUNT ep) AND USB_COUNT_MASK"

section \<open>The control endpoint\<close>

definition boot_ep0_arm_rx :: "epr_write \<Rightarrow> boot_usb \<Rightarrow> boot_usb" where
  "boot_ep0_arm_rx w s = on_boot_epr 0 (boot_ep_set_rx w USB_EP_STAT_RX_VALID) s"

definition boot_ep0_send_packet :: "epr_write \<Rightarrow> bytes \<Rightarrow> boot_usb \<Rightarrow> boot_usb" where
  "boot_ep0_send_packet w d s =
     (let s1 = (if d \<noteq> [] then s\<lparr>bu_pma := usb_pma_write (bu_pma s) USB_EP0_TX_LOCAL d\<rparr> else s)
      in on_boot_epr 0 (boot_ep_set_tx w USB_EP_STAT_TX_VALID) (boot_pma_write16 (USB_BTABLE_EP_TX_COUNT 0) (of_nat (length d)) s1))"

definition boot_ep0_send_next :: "epr_write \<Rightarrow> boot_usb \<Rightarrow> boot_usb" where
  "boot_ep0_send_next w s =
     (let n = (if bu_ep0_remaining s > 64 then 64 else bu_ep0_remaining s);
          s1 = boot_ep0_send_packet w (take (unat n) (bu_ep0_ptr s)) s
      in s1\<lparr>bu_ep0_ptr := drop (unat n) (bu_ep0_ptr s1), bu_ep0_remaining := bu_ep0_remaining s1 - n\<rparr>)"

definition boot_ep0_start_in :: "epr_write \<Rightarrow> bytes \<Rightarrow> u16 \<Rightarrow> boot_usb \<Rightarrow> boot_usb" where
  "boot_ep0_start_in w d requested s =
     (let n = (if of_nat (length d) > requested then requested else of_nat (length d))
      in boot_ep0_send_next w (s\<lparr>bu_ep0_ptr := d, bu_ep0_remaining := n, bu_ep0_state := USB_EP0_DATA_IN\<rparr>))"

definition boot_ep0_status_in :: "epr_write \<Rightarrow> boot_usb \<Rightarrow> boot_usb" where
  "boot_ep0_status_in w s = boot_ep0_send_packet w [] (s\<lparr>bu_ep0_state := USB_EP0_STATUS_IN\<rparr>)"

definition boot_ep0_stall :: "epr_write \<Rightarrow> boot_usb \<Rightarrow> boot_usb" where
  "boot_ep0_stall w s = on_boot_epr 0 (boot_ep_set_rx w USB_EP_STAT_RX_STALL)
     (on_boot_epr 0 (boot_ep_set_tx w USB_EP_STAT_TX_STALL) (s\<lparr>bu_ep0_state := USB_EP0_IDLE\<rparr>))"

definition boot_bulk_disable :: "epr_write \<Rightarrow> boot_usb \<Rightarrow> boot_usb" where
  "boot_bulk_disable w s = (on_boot_epr 1 (boot_ep_reset w 1 USB_EP_TYPE_BULK) s)\<lparr>bu_boot := (bu_boot s)\<lparr>b_usb_tx_active := False\<rparr>\<rparr>"

definition boot_bulk_enable :: "epr_write \<Rightarrow> boot_usb \<Rightarrow> boot_usb" where
  "boot_bulk_enable w s =
     (let s1 = boot_pma_write16 (USB_BTABLE_EP_RX_COUNT 1) USB_RX_COUNT_64
                (boot_pma_write16 (USB_BTABLE_EP_RX_ADDR 1) 0x0C0
                (boot_pma_write16 (USB_BTABLE_EP_TX_COUNT 1) 0
                (boot_pma_write16 (USB_BTABLE_EP_TX_ADDR 1) 0x100 (on_boot_epr 1 (boot_ep_reset w 1 USB_EP_TYPE_BULK) s))))
      in on_boot_epr 1 (boot_ep_set_rx w USB_EP_STAT_RX_VALID) (on_boot_epr 1 (boot_ep_set_tx w USB_EP_STAT_TX_NAK) s1))"

definition apply_configuration :: "epr_write \<Rightarrow> u8 \<Rightarrow> boot_usb \<Rightarrow> boot_usb" where
  "apply_configuration w c s =
     (let s1 = s\<lparr>bu_boot := (bu_boot s)\<lparr>b_usb_configuration := c\<rparr>\<rparr>
      in if c = 1 then boot_bulk_enable w s1 else boot_bulk_disable w s1)"

definition boot_get_descriptor :: "u16 \<Rightarrow> bytes option" where
  "boot_get_descriptor wv =
     (let desc_type = ucast (drop_bit 8 wv) :: u8; desc_index = ucast wv :: u8
      in if desc_type = USB_DESC_DEVICE then Some boot_device_descriptor
         else if desc_type = USB_DESC_CONFIGURATION then Some boot_configuration_descriptor
         else if desc_type = USB_DESC_BOS then Some boot_bos_descriptor
         else if desc_type = USB_DESC_STRING \<and> desc_index = 0 then Some boot_string_language
         else if desc_type = USB_DESC_STRING \<and> desc_index = 1 then Some boot_string_product
         else None)"

definition boot_handle_setup :: "epr_write \<Rightarrow> boot_usb \<Rightarrow> boot_usb" where
  "boot_handle_setup w s0 =
     (let p = setup_from_bytes (usb_pma_read (bu_pma s0) USB_EP0_RX_LOCAL 8);
          bm = sp_bm_request_type p; breq = sp_b_request p; wv = sp_w_value p; wi = sp_w_index p; wl = sp_w_length p;
          s = s0\<lparr>bu_ep0_address_valid := False, bu_ep0_configuration_valid := False\<rparr>
      in if bm = 0x80 \<and> breq = 6 then
           (case boot_get_descriptor wv of None \<Rightarrow> boot_ep0_stall w s | Some d \<Rightarrow> boot_ep0_start_in w d wl s)
         else if bm = 0xC0 \<and> breq = USB_MS_OS_20_VENDOR_CODE \<and> wi = USB_MS_OS_20_DESCRIPTOR_INDEX \<and> wv = 0
         then boot_ep0_start_in w boot_ms_os_20_descriptor_set wl s
         else if bm = 0x00 \<and> breq = 5 \<and> wi = 0 \<and> wl = 0 \<and> wv \<le> 127
         then boot_ep0_status_in w (s\<lparr>bu_ep0_pending_address := ucast wv, bu_ep0_address_valid := True\<rparr>)
         else if bm = 0x00 \<and> breq = 9 \<and> wi = 0 \<and> wl = 0 \<and> (wv = 0 \<or> wv = 1)
         then boot_ep0_status_in w (s\<lparr>bu_ep0_pending_configuration := ucast wv, bu_ep0_configuration_valid := True\<rparr>)
         else if bm = 0x80 \<and> breq = 8 \<and> wv = 0 \<and> wi = 0 \<and> wl \<ge> 1
         then boot_ep0_start_in w [b_usb_configuration (bu_boot s)] wl s
         else if (bm = 0x80 \<or> bm = 0x81 \<or> bm = 0x82) \<and> breq = 0 \<and> wv = 0 \<and> wl \<ge> 2 then boot_ep0_start_in w [0, 0] wl s
         else if bm = 0x81 \<and> breq = 10 \<and> wv = 0 \<and> wi = 0 \<and> wl \<ge> 1 then boot_ep0_start_in w [0] wl s
         else if bm = 0x01 \<and> breq = 11 \<and> wv = 0 \<and> wi = 0 \<and> wl = 0 then boot_ep0_status_in w s
         else boot_ep0_stall w s)"

definition boot_handle_ep0_rx :: "epr_write \<Rightarrow> u16 \<Rightarrow> boot_usb \<Rightarrow> boot_usb" where
  "boot_handle_ep0_rx w reg s =
     (let n = boot_ep_rx_count 0 s; s1 = on_boot_epr 0 (boot_ep_clear_ctr_rx w) s
      in if reg AND USB_EP_SETUP \<noteq> 0 then (if n = 8 then boot_handle_setup w s1 else boot_ep0_stall w s1)
         else if bu_ep0_state s1 = USB_EP0_STATUS_OUT \<and> n = 0 then boot_ep0_arm_rx w (s1\<lparr>bu_ep0_state := USB_EP0_IDLE\<rparr>)
         else boot_ep0_stall w s1)"

definition boot_handle_ep0_tx :: "epr_write \<Rightarrow> boot_usb \<Rightarrow> boot_usb" where
  "boot_handle_ep0_tx w s =
     (let s1 = on_boot_epr 0 (boot_ep_clear_ctr_tx w) s
      in if bu_ep0_state s1 = USB_EP0_DATA_IN then
           (if bu_ep0_remaining s1 \<noteq> 0 then boot_ep0_send_next w s1 else boot_ep0_arm_rx w (s1\<lparr>bu_ep0_state := USB_EP0_STATUS_OUT\<rparr>))
         else if bu_ep0_state s1 = USB_EP0_STATUS_IN then
           (let s2 = (if bu_ep0_address_valid s1
                      then s1\<lparr>bu_daddr := USB_DADDR_EF OR (ucast (bu_ep0_pending_address s1) AND USB_DADDR_ADD_MASK), bu_ep0_address_valid := False\<rparr>
                      else s1);
                s3 = (if bu_ep0_configuration_valid s2
                      then (apply_configuration w (bu_ep0_pending_configuration s2) s2)\<lparr>bu_ep0_configuration_valid := False\<rparr> else s2)
            in boot_ep0_arm_rx w (s3\<lparr>bu_ep0_state := USB_EP0_IDLE\<rparr>))
         else boot_ep0_arm_rx w s1)"

section \<open>The bulk endpoint\<close>

text \<open>
  What the update logic has done to its endpoint goes to the hardware: a packet it has sent (the
  effect of \<open>bulk_send\<close>), and whether it takes another (\<open>ep_set_rx\<close> with \<open>VALID\<close>).
\<close>

definition boot_bulk_output :: "epr_write \<Rightarrow> boot \<Rightarrow> boot_usb \<Rightarrow> boot_usb" where
  "boot_bulk_output w before s =
     (let b = bu_boot s;
          s1 = (if b_usb_tx_active b \<and> \<not> b_usb_tx_active before
                then on_boot_epr 1 (boot_ep_set_tx w USB_EP_STAT_TX_VALID)
                       (boot_pma_write16 (USB_BTABLE_EP_TX_COUNT 1) (of_nat (length (b_ep1_tx b)))
                         (s\<lparr>bu_pma := usb_pma_write (bu_pma s) 0x100 (b_ep1_tx b)\<rparr>))
                else s)
      in if b_ep1_rx_valid b then on_boot_epr 1 (boot_ep_set_rx w USB_EP_STAT_RX_VALID) s1 else s1)"

definition boot_usb_ep1_rx :: "boot_env \<Rightarrow> epr_write \<Rightarrow> boot_usb \<Rightarrow> boot_usb" where
  "boot_usb_ep1_rx env w s =
     (let n = boot_ep_rx_count 1 s;
          s1 = on_boot_epr 1 (boot_ep_set_rx w USB_EP_STAT_RX_NAK) (on_boot_epr 1 (boot_ep_clear_ctr_rx w) s);
          s2 = (if n \<le> 64 then s1\<lparr>bu_rx_packet := store_at (bu_rx_packet s1) 0 (usb_pma_read (bu_pma s1) 0x0C0 (unat n))\<rparr> else s1)
      in boot_bulk_output w (bu_boot s2) (s2\<lparr>bu_boot := boot_handle_ep1_rx env (bu_boot s2) (bu_rx_packet s2) n\<rparr>))"

text \<open>\<open>None\<close>: the system is reset.\<close>

definition boot_usb_ep1_tx :: "epr_write \<Rightarrow> boot_usb \<Rightarrow> boot_usb option" where
  "boot_usb_ep1_tx w s =
     (let s1 = on_boot_epr 1 (boot_ep_clear_ctr_tx w) s
      in case boot_handle_ep1_tx (bu_boot s1) of
           None \<Rightarrow> None
         | Some b \<Rightarrow> Some (on_boot_epr 1 (boot_ep_set_rx w USB_EP_STAT_RX_VALID) (on_boot_epr 1 (boot_ep_set_tx w USB_EP_STAT_TX_NAK) (s1\<lparr>bu_boot := b\<rparr>))))"

section \<open>The bus and the loop\<close>

definition boot_usb_bus_reset :: "epr_write \<Rightarrow> boot_usb \<Rightarrow> boot_usb" where
  "boot_usb_bus_reset w s =
     (let s1 = boot_pma_write16 (USB_BTABLE_EP_RX_COUNT 0) USB_RX_COUNT_64
                (boot_pma_write16 (USB_BTABLE_EP_RX_ADDR 0) USB_EP0_RX_LOCAL
                (boot_pma_write16 (USB_BTABLE_EP_TX_COUNT 0) 0
                (boot_pma_write16 (USB_BTABLE_EP_TX_ADDR 0) USB_EP0_TX_LOCAL (s\<lparr>bu_btable := USB_BTABLE_LOCAL\<rparr>))));
          s2 = boot_bulk_disable w (on_boot_epr 0 (boot_ep_reset w 0 USB_EP_TYPE_CONTROL) s1);
          s3 = s2\<lparr>bu_boot := (bu_boot s2)\<lparr>b_usb_configuration := 0\<rparr>, bu_ep0_state := USB_EP0_IDLE, bu_daddr := USB_DADDR_EF\<rparr>
      in boot_ep0_arm_rx w (on_boot_epr 0 (boot_ep_set_tx w USB_EP_STAT_TX_NAK) s3))"

definition boot_usb_round :: "boot_env \<Rightarrow> epr_write \<Rightarrow> u16 \<Rightarrow> boot_usb \<Rightarrow> boot_usb option" where
  "boot_usb_round env w current s =
     (let ep = ucast (current AND USB_ISTR_EP_ID_MASK) :: u8; reg = bu_epr s ep;
          s1 = (if reg AND USB_EP_CTR_RX \<noteq> 0 then
                  (if ep = 0 then boot_handle_ep0_rx w reg s
                   else if ep = 1 then boot_usb_ep1_rx env w s else on_boot_epr ep (boot_ep_clear_ctr_rx w) s)
                else s)
      in if bu_epr s1 ep AND USB_EP_CTR_TX \<noteq> 0 then
           (if ep = 0 then Some (boot_handle_ep0_tx w s1)
            else if ep = 1 then boot_usb_ep1_tx w s1 else Some (on_boot_epr ep (boot_ep_clear_ctr_tx w) s1))
         else Some s1)"

text \<open>The status read first, and for each round what the peripheral did before it and the status.\<close>

fun boot_usb_rounds :: "boot_env \<Rightarrow> epr_write \<Rightarrow> ((boot_usb \<Rightarrow> boot_usb) \<times> u16) list \<Rightarrow> boot_usb \<Rightarrow> boot_usb option" where
  "boot_usb_rounds env w [] s = Some s"
| "boot_usb_rounds env w ((peripheral, current) # rounds) s =
     (case boot_usb_round env w current (peripheral s) of None \<Rightarrow> None | Some s' \<Rightarrow> boot_usb_rounds env w rounds s')"

definition boot_usb_poll :: "boot_env \<Rightarrow> epr_write \<Rightarrow> u16 \<Rightarrow> ((boot_usb \<Rightarrow> boot_usb) \<times> u16) list \<Rightarrow> boot_usb \<Rightarrow> boot_usb option" where
  "boot_usb_poll env w istr rounds s =
     (let s1 = (if istr AND USB_ISTR_RESET \<noteq> 0 then boot_usb_bus_reset w (boot_istr_clear USB_ISTR_RESET s) else s);
          s2 = (if istr AND USB_ISTR_ERR \<noteq> 0 then boot_istr_clear USB_ISTR_ERR s1 else s1);
          s3 = (if istr AND USB_ISTR_PMAOVR \<noteq> 0 then boot_istr_clear USB_ISTR_PMAOVR s2 else s2)
      in boot_usb_rounds env w rounds s3)"

section \<open>Start-up\<close>

definition consume_update_token :: "reg_state \<Rightarrow> bool \<times> reg_state" where
  "consume_update_token r =
     (let r1 = reg_modify 0x40007000 (\<lambda>v. v OR 0x100) (reg_modify 0x4002101C (\<lambda>v. v OR (0x10000000 OR 0x08000000)) r);
          a = ucast (fst r1 0x40006C04) :: u16; b = ucast (fst r1 0x40006C08) :: u16;
          r2 = ((fst r1)(0x40006C04 := 0, 0x40006C08 := 0), snd r1 @ [Reg_Write16 0x40006C04 0, Reg_Write16 0x40006C08 0])
      in (a = 0xD35A \<and> b = 0x2CA5, reg_modify 0x40007000 (\<lambda>v. v AND NOT 0x100) r2))"

text \<open>
  The clock. \<open>ready k\<close>: what the \<open>k\<close>-th read of a flag says. The loop gives up when it has
  read it once more than the limit.
\<close>

fun clock_wait :: "(nat \<Rightarrow> bool) \<Rightarrow> nat \<Rightarrow> nat \<Rightarrow> bool" where
  "clock_wait ready k 0 = ready k"
| "clock_wait ready k (Suc spins) = (ready k \<or> clock_wait ready (k + 1) spins)"

abbreviation (input) CLOCK_READY_SPIN_LIMIT :: nat where "CLOCK_READY_SPIN_LIMIT \<equiv> 1000000"

definition clock_init :: "(nat \<Rightarrow> bool) \<Rightarrow> (nat \<Rightarrow> bool) \<Rightarrow> (nat \<Rightarrow> bool) \<Rightarrow> reg_state \<Rightarrow> u32 \<times> reg_state" where
  "clock_init hse pll switched r =
     (let put = (\<lambda>a v r. ((fst r)(a := v), snd r @ [Reg_Write a v]));
          r1 = reg_modify 0x40021000 (\<lambda>v. v OR 0x10000) (put 0x40022000 (0x10 OR 0x2) r)
      in if \<not> clock_wait hse 0 CLOCK_READY_SPIN_LIMIT then (0, r1)
         else let r2 = reg_modify 0x40021000 (\<lambda>v. v OR 0x01000000) (put 0x40021004 (0x400 OR 0x8000 OR 0x10000 OR 0x001C0000) r1)
         in if \<not> clock_wait pll 0 CLOCK_READY_SPIN_LIMIT then (0, r2)
         else let r3 = reg_modify 0x40021004 (\<lambda>v. (v AND NOT 0x3) OR 0x2) r2
         in if \<not> clock_wait switched 0 CLOCK_READY_SPIN_LIMIT then (0, r3)
         else (72000000, reg_modify 0x40021004 (\<lambda>v. v AND NOT 0x00400000) r3))"

definition boot_force_disconnect :: "u32 \<Rightarrow> reg_state \<Rightarrow> reg_state" where
  "boot_force_disconnect hz r =
     (let r1 = reg_modify 0x40021018 (\<lambda>v. v OR 4) (reg_modify 0x4002101C (\<lambda>v. v AND NOT 0x00800000) r);
          saved = fst r1 0x40010804 AND 0x000F0000;
          r2 = reg_modify 0x40010804 (\<lambda>v. (v AND NOT 0x000F0000) OR 0x00060000) (fst r1, snd r1 @ [Reg_Write 0x40010814 0x1000]);
          r3 = (fst r2, snd r2 @ [Spin (hz div 50)])
      in reg_modify 0x40010804 (\<lambda>v. (v AND NOT 0x000F0000) OR saved) r3)"

definition boot_usb_init :: "epr_write \<Rightarrow> u32 \<Rightarrow> reg_state \<Rightarrow> boot_usb \<Rightarrow> reg_state \<times> boot_usb" where
  "boot_usb_init w hz r s =
     (let r1 = boot_force_disconnect hz r;
          r2 = reg_modify 0x40021010 (\<lambda>v. v AND NOT 0x00800000) (reg_modify 0x40021010 (\<lambda>v. v OR 0x00800000)
                (reg_modify 0x4002101C (\<lambda>v. v OR 0x00800000) r1));
          r3 = (fst r2, snd r2 @ [Reg_Write16 0x40005C40 (USB_CNTR_FRES OR USB_CNTR_PDWN), Reg_Write16 0x40005C40 USB_CNTR_FRES,
                 Spin ((hz div 1000000) * 4), Reg_Write16 0x40005C40 0])
      in (r3, boot_usb_bus_reset w (s\<lparr>bu_istr_written := 0, bu_btable := USB_BTABLE_LOCAL, bu_daddr := 0\<rparr>)))"

text \<open>
  The whole of \<open>boot_main\<close>: the jump with its stack pointer and reset vector and the write of
  the vector table, the service with its first state, or the wait for ever without a clock.
\<close>

datatype boot_outcome = Jump u32 u32 reg_state | Serve reg_state boot_usb | Wait_forever

definition boot_start :: "boot_env \<Rightarrow> epr_write \<Rightarrow> (nat \<Rightarrow> bool) \<Rightarrow> (nat \<Rightarrow> bool) \<Rightarrow> (nat \<Rightarrow> bool) \<Rightarrow> reg_state \<Rightarrow> boot_usb \<Rightarrow> boot_outcome" where
  "boot_start env w hse pll switched r s =
     (case consume_update_token r of (explicit_update, r1) \<Rightarrow>
      case clock_init hse pll switched r1 of (clock_hz, r2) \<Rightarrow>
      case boot_main env (bu_boot s) explicit_update (clock_hz \<noteq> 0) of
        Handoff msp reset \<Rightarrow> Jump msp reset (fst r1, snd r1 @ [Reg_Write 0xE000ED08 0x08002000])
      | Recovery b \<Rightarrow> (case boot_usb_init w clock_hz r2 (s\<lparr>bu_boot := b\<rparr>) of (r3, s') \<Rightarrow> Serve r3 s')
      | Halt \<Rightarrow> Wait_forever)"

end
