(* ===== verification/Boot_Wire.thy ===== *)
theory Boot_Wire
  imports Boot_Usb Boot_Install Usb_Race Usb_Bootloader_Entry
begin

unbundle bit_operations_syntax

text \<open>
  The bootloader on the wire: what its update logic sees as packets and answers are the packets
  of the USB endpoint, nothing a host does on the bus can lower the version floor, and a request
  the firmware has accepted is found by the bootloader after the reset.
\<close>

section \<open>The update logic behind the endpoints\<close>

text \<open>What the control endpoint changes of the variables they share.\<close>

definition same_update :: "boot \<Rightarrow> boot \<Rightarrow> bool" where
  "same_update b b' \<longleftrightarrow> b'\<lparr>b_usb_configuration := 0, b_usb_tx_active := False\<rparr> = b\<lparr>b_usb_configuration := 0, b_usb_tx_active := False\<rparr>"

lemma same_update_refl: "same_update b b"
  by (simp add: same_update_def)

lemma same_update_fields:
  assumes "same_update b b'"
  shows "b_mem b' = b_mem b" "b_staged_header b' = b_staged_header b" "b_staged_tag b' = b_staged_tag b"
    "b_target_metadata_slot b' = b_target_metadata_slot b" "b_update_state b' = b_update_state b"
proof -
  note e = assms[unfolded same_update_def]
  show "b_mem b' = b_mem b" using arg_cong[OF e, of b_mem] by simp
  show "b_staged_header b' = b_staged_header b" using arg_cong[OF e, of b_staged_header] by simp
  show "b_staged_tag b' = b_staged_tag b" using arg_cong[OF e, of b_staged_tag] by simp
  show "b_target_metadata_slot b' = b_target_metadata_slot b" using arg_cong[OF e, of b_target_metadata_slot] by simp
  show "b_update_state b' = b_update_state b" using arg_cong[OF e, of b_update_state] by simp
qed

lemma same_update_safe: "boot_inv env b \<Longrightarrow> same_update b b' \<Longrightarrow> safe_step env b b'"
  by (rule safe_same) (simp_all add: same_update_fields)

lemma ep0_keeps:
  "bu_boot (on_boot_epr ep f s) = bu_boot s" "bu_rx_packet (on_boot_epr ep f s) = bu_rx_packet s"
  "bu_boot (boot_pma_write16 a v s) = bu_boot s" "bu_rx_packet (boot_pma_write16 a v s) = bu_rx_packet s"
  "bu_boot (boot_istr_clear fl s) = bu_boot s" "bu_rx_packet (boot_istr_clear fl s) = bu_rx_packet s"
  "bu_boot (boot_ep0_arm_rx w s) = bu_boot s" "bu_rx_packet (boot_ep0_arm_rx w s) = bu_rx_packet s"
  "bu_boot (boot_ep0_stall w s) = bu_boot s" "bu_rx_packet (boot_ep0_stall w s) = bu_rx_packet s"
  by (simp_all add: on_boot_epr_def boot_pma_write16_def boot_istr_clear_def boot_ep0_arm_rx_def boot_ep0_stall_def)

lemma ep0_send_keeps:
  "bu_boot (boot_ep0_send_packet w d s) = bu_boot s" "bu_rx_packet (boot_ep0_send_packet w d s) = bu_rx_packet s"
  "bu_boot (boot_ep0_send_next w s) = bu_boot s" "bu_rx_packet (boot_ep0_send_next w s) = bu_rx_packet s"
  "bu_boot (boot_ep0_start_in w d n s) = bu_boot s" "bu_rx_packet (boot_ep0_start_in w d n s) = bu_rx_packet s"
  "bu_boot (boot_ep0_status_in w s) = bu_boot s" "bu_rx_packet (boot_ep0_status_in w s) = bu_rx_packet s"
  by (simp_all add: boot_ep0_send_packet_def boot_ep0_send_next_def boot_ep0_start_in_def boot_ep0_status_in_def Let_def ep0_keeps)

lemma handle_setup_keeps: "bu_boot (boot_handle_setup w s) = bu_boot s \<and> bu_rx_packet (boot_handle_setup w s) = bu_rx_packet s"
  unfolding boot_handle_setup_def Let_def by (simp add: ep0_keeps ep0_send_keeps split: option.split)

lemma ep0_rx_keeps: "bu_boot (boot_handle_ep0_rx w reg s) = bu_boot s \<and> bu_rx_packet (boot_handle_ep0_rx w reg s) = bu_rx_packet s"
  unfolding boot_handle_ep0_rx_def Let_def by (simp add: ep0_keeps handle_setup_keeps)

lemma configuration_keeps:
  "same_update (bu_boot s) (bu_boot (apply_configuration w c s)) \<and> bu_rx_packet (apply_configuration w c s) = bu_rx_packet s"
proof -
  have u: "same_update b (b\<lparr>b_usb_configuration := k\<rparr>)" "same_update b (b\<lparr>b_usb_configuration := k, b_usb_tx_active := False\<rparr>)" for b k
    by (simp_all add: same_update_def)
  show ?thesis
    by (simp add: apply_configuration_def boot_bulk_enable_def boot_bulk_disable_def Let_def on_boot_epr_def boot_pma_write16_def u)
qed

lemma ep0_tx_keeps: "same_update (bu_boot s) (bu_boot (boot_handle_ep0_tx w s)) \<and> bu_rx_packet (boot_handle_ep0_tx w s) = bu_rx_packet s"
proof -
  define s1 where "s1 = on_boot_epr 0 (boot_ep_clear_ctr_tx w) s"
  define s2 where "s2 = (if bu_ep0_address_valid s1
     then s1\<lparr>bu_daddr := USB_DADDR_EF OR (ucast (bu_ep0_pending_address s1) AND USB_DADDR_ADD_MASK), bu_ep0_address_valid := False\<rparr> else s1)"
  have k: "bu_boot s1 = bu_boot s" "bu_rx_packet s1 = bu_rx_packet s" "bu_boot s2 = bu_boot s" "bu_rx_packet s2 = bu_rx_packet s"
    by (simp_all add: s1_def s2_def ep0_keeps)
  show ?thesis unfolding boot_handle_ep0_tx_def Let_def s1_def[symmetric] s2_def[symmetric]
    using configuration_keeps[of s2 w "bu_ep0_pending_configuration s2"] by (simp add: ep0_keeps ep0_send_keeps k same_update_refl)
qed

lemma bus_reset_keeps: "same_update (bu_boot s) (bu_boot (boot_usb_bus_reset w s)) \<and> bu_rx_packet (boot_usb_bus_reset w s) = bu_rx_packet s"
proof -
  have "same_update b (b\<lparr>b_usb_tx_active := False, b_usb_configuration := 0\<rparr>)" for b
    by (simp add: same_update_def)
  then show ?thesis by (simp add: boot_usb_bus_reset_def boot_bulk_disable_def Let_def ep0_keeps)
qed

lemma output_keeps: "bu_boot (boot_bulk_output w b s) = bu_boot s \<and> bu_rx_packet (boot_bulk_output w b s) = bu_rx_packet s"
  by (simp add: boot_bulk_output_def Let_def ep0_keeps)

lemma ep1_rx_update:
  assumes "length (bu_rx_packet s) = 64"
  shows "\<exists>rx n. bu_boot (boot_usb_ep1_rx env w s) = boot_handle_ep1_rx env (bu_boot s) rx n \<and> length rx = 64
     \<and> length (bu_rx_packet (boot_usb_ep1_rx env w s)) = 64"
proof -
  define n where "n = boot_ep_rx_count 1 s"
  define s1 where "s1 = on_boot_epr 1 (boot_ep_set_rx w USB_EP_STAT_RX_NAK) (on_boot_epr 1 (boot_ep_clear_ctr_rx w) s)"
  define s2 where "s2 = (if n \<le> 64 then s1\<lparr>bu_rx_packet := store_at (bu_rx_packet s1) 0 (usb_pma_read (bu_pma s1) 0x0C0 (unat n))\<rparr> else s1)"
  have pl: "length (usb_pma_read p a k) = k" for p a k by (induction p a k rule: usb_pma_read.induct) simp_all
  have k: "bu_boot s2 = bu_boot s" "length (bu_rx_packet s2) = 64"
    using assms pl by (simp_all add: s2_def s1_def ep0_keeps word_le_nat_alt)
  have "boot_usb_ep1_rx env w s = boot_bulk_output w (bu_boot s2) (s2\<lparr>bu_boot := boot_handle_ep1_rx env (bu_boot s2) (bu_rx_packet s2) n\<rparr>)"
    by (simp add: boot_usb_ep1_rx_def Let_def n_def s1_def s2_def)
  then show ?thesis using output_keeps k by (intro exI[of _ "bu_rx_packet s2"] exI[of _ n]) simp
qed

lemma ep1_tx_update:
  assumes "boot_usb_ep1_tx w s = Some s'"
  shows "boot_handle_ep1_tx (bu_boot s) = Some (bu_boot s') \<and> bu_rx_packet s' = bu_rx_packet s"
  using assms by (auto simp: boot_usb_ep1_tx_def Let_def ep0_keeps split: option.splits)

lemma round_safe:
  assumes i: "boot_inv env (bu_boot s)" and l: "length (bu_rx_packet s) = 64" and r: "boot_usb_round env w current s = Some s'"
  shows "safe_step env (bu_boot s) (bu_boot s') \<and> length (bu_rx_packet s') = 64"
proof -
  define ep where "ep = (ucast (current AND USB_ISTR_EP_ID_MASK) :: u8)"
  define s1 where "s1 = (if bu_epr s ep AND USB_EP_CTR_RX \<noteq> 0 then
                  (if ep = 0 then boot_handle_ep0_rx w (bu_epr s ep) s
                   else if ep = 1 then boot_usb_ep1_rx env w s else on_boot_epr ep (boot_ep_clear_ctr_rx w) s)
                else s)"
  have e: "(if bu_epr s1 ep AND USB_EP_CTR_TX \<noteq> 0 then
           (if ep = 0 then Some (boot_handle_ep0_tx w s1)
            else if ep = 1 then boot_usb_ep1_tx w s1 else Some (on_boot_epr ep (boot_ep_clear_ctr_tx w) s1))
         else Some s1) = Some s'" using r unfolding boot_usb_round_def Let_def ep_def[symmetric] s1_def[symmetric] .
  have same: "safe_step env (bu_boot s) (bu_boot s)" using i by (simp add: safe_step_def)
  obtain rx n where u: "bu_boot (boot_usb_ep1_rx env w s) = boot_handle_ep1_rx env (bu_boot s) rx n" "length rx = 64"
    "length (bu_rx_packet (boot_usb_ep1_rx env w s)) = 64" using ep1_rx_update[OF l] by blast
  have "safe_step env (bu_boot s) (bu_boot (boot_usb_ep1_rx env w s))"
    using event_safe[OF i, of "Ev_packet rx n"] u by (simp add: packets_ok_def)
  then have 1: "safe_step env (bu_boot s) (bu_boot s1)" "length (bu_rx_packet s1) = 64"
    using same u(3) l by (simp_all add: s1_def ep0_rx_keeps ep0_keeps)
  then have i1: "boot_inv env (bu_boot s1)" by (simp add: safe_step_def)
  have same1: "safe_step env (bu_boot s1) (bu_boot s1)" using i1 by (simp add: safe_step_def)
  consider "s' = s1" | "s' = boot_handle_ep0_tx w s1" | "boot_usb_ep1_tx w s1 = Some s'" | "s' = on_boot_epr ep (boot_ep_clear_ctr_tx w) s1"
    using e by (metis (full_types) option.inject)
  then have "safe_step env (bu_boot s1) (bu_boot s') \<and> length (bu_rx_packet s') = 64"
  proof cases
    case 1
    then show ?thesis using same1 \<open>length (bu_rx_packet s1) = 64\<close> by simp
  next
    case 2
    then show ?thesis using ep0_tx_keeps[of s1 w] same_update_safe[OF i1] 1(2) \<open>length (bu_rx_packet s1) = 64\<close> by simp
  next
    case 3
    then show ?thesis using ep1_tx_update[OF 3] event_safe[OF i1, of Ev_sent] \<open>length (bu_rx_packet s1) = 64\<close> by (simp add: packets_ok_def)
  next
    case 4
    then show ?thesis using same1 \<open>length (bu_rx_packet s1) = 64\<close> by (simp add: ep0_keeps)
  qed
  then show ?thesis using safe_trans[OF 1(1)] by blast
qed

section \<open>The wire\<close>

text \<open>
  Runs of the bootloader in its update mode. The peripheral and the host behind it may do what
  they want with registers and packet memory. Power may be lost, and the bootloader starts anew
  with the flash it finds.
\<close>

inductive boot_wire :: "boot_env \<Rightarrow> epr_write \<Rightarrow> boot_usb \<Rightarrow> boot_usb \<Rightarrow> bool" for env w s0 where
  bw_start: "boot_wire env w s0 s0"
| bw_peripheral: "boot_wire env w s0 s \<Longrightarrow> bu_boot s' = bu_boot s \<Longrightarrow> bu_rx_packet s' = bu_rx_packet s \<Longrightarrow> boot_wire env w s0 s'"
| bw_bus_reset: "boot_wire env w s0 s \<Longrightarrow> boot_wire env w s0 (boot_usb_bus_reset w s)"
| bw_round: "boot_wire env w s0 s \<Longrightarrow> boot_usb_round env w current s = Some s' \<Longrightarrow> boot_wire env w s0 s'"
| bw_power: "boot_wire env w s0 s \<Longrightarrow> b_mem (bu_boot ram) = b_mem (bu_boot s) \<Longrightarrow> length (bu_rx_packet ram) = 64
    \<Longrightarrow> boot_start env w hse pll switched r ram = Serve r' s' \<Longrightarrow> boot_wire env w s0 s'"

lemma started:
  assumes "boot_start env w hse pll switched r s = Serve r' s'"
  shows "\<exists>u c b. boot_main env (bu_boot s) u c = Recovery b \<and> same_update b (bu_boot s') \<and> bu_rx_packet s' = bu_rx_packet s"
proof -
  obtain u r1 where 1: "consume_update_token r = (u, r1)" by (metis prod.collapse)
  obtain hz r2 where 2: "clock_init hse pll switched r1 = (hz, r2)" by (metis prod.collapse)
  obtain b where b: "boot_main env (bu_boot s) u (hz \<noteq> 0) = Recovery b"
    using assms by (auto simp: boot_start_def 1 2 split: boot_decision.splits)
  have "s' = snd (boot_usb_init w hz r2 (s\<lparr>bu_boot := b\<rparr>))" using assms by (auto simp: boot_start_def 1 2 b split: prod.splits)
  then have "s' = boot_usb_bus_reset w (s\<lparr>bu_boot := b, bu_istr_written := 0, bu_btable := 0, bu_daddr := 0\<rparr>)"
    by (simp add: boot_usb_init_def Let_def)
  then show ?thesis using b bus_reset_keeps[of "s\<lparr>bu_boot := b, bu_istr_written := 0, bu_btable := 0, bu_daddr := 0\<rparr>" w]
    by (intro exI[of _ u] exI[of _ "hz \<noteq> 0"] exI[of _ b]) simp
qed

lemma started_safe:
  assumes "boot_start env w hse pll switched r s = Serve r' s'"
  shows "boot_inv env (bu_boot s') \<and> b_mem (bu_boot s') = b_mem (bu_boot s) \<and> bu_rx_packet s' = bu_rx_packet s"
proof -
  obtain u c b where b: "boot_main env (bu_boot s) u c = Recovery b" "same_update b (bu_boot s')" "bu_rx_packet s' = bu_rx_packet s"
    using started[OF assms] by blast
  then have "boot_inv env b" "b_mem b = b_mem (bu_boot s)" using recovery_inv by blast+
  moreover have "safe_step env b (bu_boot s')" by (rule same_update_safe[OF calculation(1) b(2)])
  moreover have "b_mem (bu_boot s') = b_mem b" by (rule same_update_fields(1)[OF b(2)])
  ultimately show ?thesis using b(3) by (simp add: safe_step_def)
qed

lemma wire_safe:
  "boot_wire env w s0 s \<Longrightarrow> boot_inv env (bu_boot s0) \<Longrightarrow> length (bu_rx_packet s0) = 64
     \<Longrightarrow> safe_step env (bu_boot s0) (bu_boot s) \<and> length (bu_rx_packet s) = 64"
proof (induction rule: boot_wire.induct)
  case bw_start
  then show ?case by (simp add: safe_step_def)
next
  case (bw_peripheral s s')
  then show ?case by simp
next
  case (bw_bus_reset s)
  then have s: "safe_step env (bu_boot s0) (bu_boot s)" "length (bu_rx_packet s) = 64" by blast+
  then have "safe_step env (bu_boot s) (bu_boot (boot_usb_bus_reset w s))"
    using bus_reset_keeps[of s w] by (intro same_update_safe) (simp_all add: safe_step_def)
  then show ?case using safe_trans[OF s(1)] s(2) bus_reset_keeps[of s w] by simp
next
  case (bw_round s current s')
  then have s: "safe_step env (bu_boot s0) (bu_boot s)" "length (bu_rx_packet s) = 64" by blast+
  then have "boot_inv env (bu_boot s)" by (simp add: safe_step_def)
  from round_safe[OF this s(2) bw_round.hyps(2)] show ?case using safe_trans[OF s(1)] by blast
next
  case (bw_power s ram hse pll switched r r' s')
  then have s: "safe_step env (bu_boot s0) (bu_boot s)" by blast
  note f = started_safe[OF bw_power.hyps(4)]
  have "safe_step env (bu_boot s) (bu_boot s')" using f bw_power.hyps(2) by (simp add: safe_step_def)
  then show ?case using safe_trans[OF s] f bw_power.hyps(3) by simp
qed

text \<open>
  C2: The version floor never decreases, and nothing else is overwritten, whatever happens on
  the bus. From a start in the update mode on, whatever the host sends to either endpoint and
  when, whatever the peripheral and the flash controller do and however often the bus is reset
  or power is lost, the next scan finds a version floor at least as high as the first start
  found, and no byte outside the application and metadata pages has changed.
\<close>
theorem floor_never_decreases_on_the_wire:
  assumes "boot_start env w hse pll switched r s0 = Serve r1 s1" "length (bu_rx_packet s0) = 64" "boot_wire env w' s1 s"
  shows "b_version_floor (scan_metadata env (bu_boot s0)) \<le> b_version_floor (scan_metadata env (bu_boot s))
    \<and> (\<forall>a. a < APP_BASE \<or> META_B + META_PAGE_BYTES \<le> a \<longrightarrow> b_mem (bu_boot s) a = b_mem (bu_boot s0) a)"
proof -
  note f = started_safe[OF assms(1)]
  have "safe_step env (bu_boot s1) (bu_boot s)" using wire_safe[OF assms(3)] f assms(2) by simp
  moreover have "\<forall>a. a < APP_BASE \<or> META_B + META_PAGE_BYTES \<le> a \<longrightarrow> a \<notin> owned_flash" by (auto simp: owned_flash_def)
  ultimately show ?thesis using f by (simp add: scan_floor(1) safe_step_def)
qed

lemma clock_wait_iff: "clock_wait ready k n \<longleftrightarrow> (\<exists>i \<le> n. ready (k + i))"
proof (induction n arbitrary: k)
  case (Suc n)
  have "(\<exists>i \<le> Suc n. ready (k + i)) \<longleftrightarrow> ready k \<or> (\<exists>i \<le> n. ready (Suc k + i))"
    by (metis Suc_le_mono add.right_neutral add_Suc_shift not0_implies_Suc zero_le)
  then show ?case using Suc.IH[of "k + 1"] by simp
qed simp

lemma clock_runs:
  assumes "\<exists>i \<le> 1000000. hse i" "\<exists>i \<le> 1000000. pll i" "\<exists>i \<le> 1000000. switched i"
  shows "\<exists>r'. clock_init hse pll switched r = (72000000, r') \<and> (\<forall>a. a \<in> {0x40006C04, 0x40006C08} \<longrightarrow> fst r' a = fst r a)"
  using assms by (simp add: clock_init_def clock_wait_iff Let_def reg_modify_def)

text \<open>A device without an application, with the clock running.\<close>

definition boot_usb_demo :: boot_usb where
  "boot_usb_demo = \<lparr>bu_epr = (\<lambda>_. 0), bu_pma = (\<lambda>_. 0), bu_istr_written = 0, bu_btable = 0, bu_daddr = 0, bu_ep0_ptr = [], bu_ep0_remaining = 0,
     bu_ep0_state = USB_EP0_IDLE, bu_ep0_pending_address = 0, bu_ep0_address_valid = False, bu_ep0_pending_configuration = 0,
     bu_ep0_configuration_valid = False, bu_rx_packet = replicate 64 0, bu_boot = demo_boot\<rparr>"

lemma boot_usb_demo_starts:
  "\<exists>r1 s1. boot_start demo_env epr_of_manual (\<lambda>_. True) (\<lambda>_. True) (\<lambda>_. True) (\<lambda>_. 0, []) boot_usb_demo = Serve r1 s1"
proof -
  obtain r1 where 1: "consume_update_token (\<lambda>_. 0, []) = (False, r1)" by (simp add: consume_update_token_def reg_modify_def Let_def)
  obtain r2 where 2: "clock_init (\<lambda>_. True) (\<lambda>_. True) (\<lambda>_. True) r1 = (72000000, r2)" using clock_runs[of "\<lambda>_. True" "\<lambda>_. True" "\<lambda>_. True" r1] by auto
  have "boot_main demo_env (bu_boot boot_usb_demo) False ((72000000 :: u32) \<noteq> 0) = Recovery demo_boot" using demo_recovery by (simp add: boot_usb_demo_def)
  then show ?thesis by (cases "boot_usb_init epr_of_manual 72000000 r2 (boot_usb_demo\<lparr>bu_boot := demo_boot\<rparr>)") (simp add: boot_start_def 1 2)
qed

theorem floor_never_decreases_on_the_wire_witness:
  "\<exists>s1. boot_wire demo_env epr_of_manual s1 (boot_usb_bus_reset epr_of_manual s1)
     \<and> b_version_floor (scan_metadata demo_env demo_boot) \<le> b_version_floor (scan_metadata demo_env (bu_boot (boot_usb_bus_reset epr_of_manual s1)))
     \<and> b_mem (bu_boot (boot_usb_bus_reset epr_of_manual s1)) 0 = 0xFF"
proof -
  obtain r1 s1 where s: "boot_start demo_env epr_of_manual (\<lambda>_. True) (\<lambda>_. True) (\<lambda>_. True) (\<lambda>_. 0, []) boot_usb_demo = Serve r1 s1"
    using boot_usb_demo_starts by blast
  have l: "length (bu_rx_packet boot_usb_demo) = 64" by (simp add: boot_usb_demo_def)
  have r: "boot_wire demo_env epr_of_manual s1 (boot_usb_bus_reset epr_of_manual s1)" by (rule bw_bus_reset[OF bw_start])
  have d: "bu_boot boot_usb_demo = demo_boot" "b_mem demo_boot 0 = 0xFF" by (simp_all add: boot_usb_demo_def demo_boot_def)
  show ?thesis using floor_never_decreases_on_the_wire[OF s l r] r unfolding d(1)
    by (intro exI[of _ s1] conjI) (use d(2) in \<open>simp_all add: word_less_nat_alt\<close>)
qed

section \<open>From the firmware into the bootloader\<close>

text \<open>What the writes of a log leave in the registers.\<close>

fun reg_after :: "reg_event \<Rightarrow> (u32 \<Rightarrow> u32) \<Rightarrow> u32 \<Rightarrow> u32" where
  "reg_after (Reg_Write a v) m = m(a := v)"
| "reg_after (Reg_Write16 a v) m = m(a := ucast v)"
| "reg_after (Reg_Write8 a v) m = m(a := ucast v)"
| "reg_after (Spin n) m = m"

lemma token_found:
  assumes "fst r 0x40006C04 = 0xD35A" "fst r 0x40006C08 = 0x2CA5"
  shows "\<exists>r'. consume_update_token r = (True, r') \<and> fst r' 0x40006C04 = 0 \<and> fst r' 0x40006C08 = 0"
  using assms by (simp add: consume_update_token_def Let_def reg_modify_def)

lemma token_left:
  assumes "entry_token log" "reset_request e"
  shows "fold reg_after (log @ [e]) m 0x40006C04 = 0xD35A" "fold reg_after (log @ [e]) m 0x40006C08 = 0x2CA5"
  using assms by (auto simp: entry_token_def reset_request_def)

text \<open>
  C3: A host that asks the firmware for the bootloader gets it. In any run of the management
  service that ends in a reset, with the backup registers keeping over the reset what the
  firmware wrote and the clock of the board running, the bootloader does not start the
  application but serves updates, whatever image is installed. It has consumed the token: the
  next start is an ordinary one.
\<close>
theorem requested_update_is_served:
  assumes run: "management_run hw b h s ss" "um_system_reset s"
    and keep: "\<forall>a \<in> {0x40006C04, 0x40006C08}. fst r a = fold reg_after (snd (um_regs s)) m a"
    and clock: "\<exists>i \<le> 1000000. hse i" "\<exists>i \<le> 1000000. pll i" "\<exists>i \<le> 1000000. switched i"
  shows "\<exists>r' u'. boot_start env w hse pll switched r u = Serve r' u' \<and> b_update_state (bu_boot u') = STATE_RECOVERY_IDLE
     \<and> \<not> fst (consume_update_token r')"
proof -
  have "um_reset_pending s" "\<exists>log e. snd (um_regs s) = log @ [e] \<and> entry_token log \<and> reset_request e"
    using run_entry[OF run(1)] run(2) by (auto simp: entry_inv_def entry_state_def split: if_splits)
  then have t: "fst r 0x40006C04 = 0xD35A" "fst r 0x40006C08 = 0x2CA5" using keep token_left[of _ _ m] by auto
  obtain r1 where 1: "consume_update_token r = (True, r1)" "fst r1 0x40006C04 = 0" using token_found[OF t] by blast
  obtain r2 where 2: "clock_init hse pll switched r1 = (72000000, r2)" "fst r2 0x40006C04 = 0" using clock_runs[OF clock, of r1] 1(2) by auto
  obtain b' where 3: "boot_main env (bu_boot u) True ((72000000 :: u32) \<noteq> 0) = Recovery b'" "b_update_state b' = STATE_RECOVERY_IDLE"
    by (simp add: boot_main_def Let_def)
  obtain r3 u' where 4: "boot_usb_init w 72000000 r2 (u\<lparr>bu_boot := b'\<rparr>) = (r3, u')" by (metis prod.collapse)
  have s: "boot_start env w hse pll switched r u = Serve r3 u'" using 1 2 3 4 by (simp add: boot_start_def)
  have "u' = boot_usb_bus_reset w (u\<lparr>bu_boot := b', bu_istr_written := 0, bu_btable := 0, bu_daddr := 0\<rparr>)"
    using 4 by (simp add: boot_usb_init_def Let_def)
  then have "b_update_state (bu_boot u') = STATE_RECOVERY_IDLE"
    using same_update_fields(5)[OF conjunct1[OF bus_reset_keeps[of "u\<lparr>bu_boot := b', bu_istr_written := 0, bu_btable := 0, bu_daddr := 0\<rparr>" w]]] 3(2) by simp
  moreover have "fst r3 0x40006C04 = 0" using 4 2(2) by (auto simp: boot_usb_init_def boot_force_disconnect_def Let_def reg_modify_def)
  then have "\<not> fst (consume_update_token r3)" by (simp add: consume_update_token_def Let_def reg_modify_def)
  ultimately show ?thesis using s by blast
qed

theorem requested_update_is_served_witness:
  "\<exists>(s :: unit usb_management) ss r' u'. management_run working_hw entry_transport None s ss \<and> um_system_reset s
     \<and> boot_start demo_env epr_of_manual (\<lambda>_. True) (\<lambda>_. True) (\<lambda>_. True) (fold reg_after (snd (um_regs s)) (\<lambda>_. 0), []) boot_usb_demo = Serve r' u'
     \<and> b_update_state (bu_boot u') = STATE_RECOVERY_IDLE"
proof -
  obtain s ss where r: "management_run working_hw entry_transport None s ss" "um_reset_pending (s :: unit usb_management)" using entry_reached by blast
  obtain s' ss' where s': "management_run working_hw entry_transport None s' ss'" "um_system_reset (s' :: unit usb_management)"
  proof (cases "um_system_reset s")
    case True
    then show ?thesis using that r(1) by blast
  next
    case False
    define s1 where "s1 = usb_management_begin (um_reset_deadline s) id s"
    have "kernel_time_reached (um_reset_deadline s) (um_reset_deadline s)" by (simp add: kernel_time_reached_def)
    then have "firmware_update_reset_service (um_reset_deadline s) s = firmware_update_system_reset s"
      using r(2) by (simp add: firmware_update_reset_service_def)
    then have "um_system_reset s1" using r(2) by (simp add: s1_def usb_management_begin_def firmware_update_system_reset_def Let_def)
    then show ?thesis using that run_reaches[OF r(1) mr_begin[OF mr_start False run_workspace[OF r(1)]]] unfolding s1_def by blast
  qed
  have k: "\<forall>a \<in> {0x40006C04, 0x40006C08}. fst (fold reg_after (snd (um_regs s')) (\<lambda>_. 0), [] :: reg_event list) a = fold reg_after (snd (um_regs s')) (\<lambda>_. 0) a" by simp
  have c: "\<exists>i \<le> 1000000. (\<lambda>_ :: nat. True) i" by blast
  show ?thesis using requested_update_is_served[OF s' k c c c, of demo_env epr_of_manual boot_usb_demo] s' by blast
qed

section \<open>The endpoint registers, once more\<close>

text \<open>
  C38: The bootloader's status changes lose no completion. Whatever the peripheral does between
  the read and the write of an endpoint register, the completion flags it has set are there
  after the write; clearing one flag leaves the other. The firmware's driver does not have this
  property.
\<close>
theorem boot_status_writes_keep_completions:
  assumes "epr_manual w"
  shows "boot_ep_set_tx (meanwhile f w) st c AND (USB_EP_CTR_RX OR USB_EP_CTR_TX) = f c AND (USB_EP_CTR_RX OR USB_EP_CTR_TX)
     \<and> boot_ep_set_rx (meanwhile f w) st c AND (USB_EP_CTR_RX OR USB_EP_CTR_TX) = f c AND (USB_EP_CTR_RX OR USB_EP_CTR_TX)
     \<and> boot_ep_clear_ctr_rx (meanwhile f w) c AND USB_EP_CTR_TX = f c AND USB_EP_CTR_TX
     \<and> boot_ep_clear_ctr_tx (meanwhile f w) c AND USB_EP_CTR_RX = f c AND USB_EP_CTR_RX"
  by (intro conjI; rule u16_eqI; unfold below16; elim disjE; simp add: boot_ep_set_tx_def boot_ep_set_rx_def boot_ep_clear_ctr_rx_def boot_ep_clear_ctr_tx_def
      meanwhile_def epr_manual_unique[OF assms] epr_of_manual_def boot_ep_invariant_def bit_and_iff bit_or_iff bit_xor_iff bit_not_iff)

theorem boot_status_writes_keep_completions_witness:
  "boot_ep_set_tx (meanwhile out_arrives epr_of_manual) USB_EP_STAT_TX_VALID 0x3021 AND (USB_EP_CTR_RX OR USB_EP_CTR_TX) = USB_EP_CTR_RX"
  using boot_status_writes_keep_completions[OF epr_of_manual_ok, of out_arrives "USB_EP_STAT_TX_VALID" "0x3021"] by (simp add: out_arrives_def)

end
