(* ===== verification/Spec2Isabelle.thy ===== *)
theory Spec2Isabelle
  imports Node_Link_Receive Node_Link_Protocol Binary_Rpc_Service
    Scheduler_Context Scheduler_Selftest Asset_Answers Asset_Progress
    Boot_Install Display_Selftest Application_Commands Desktop_Run Usb_Control Usb_Service_Returns Usb_Race Boot_Wire
begin

text \<open>
  Verification development of Deus OS for the STM32F103: the firmware under \<open>src/src\<close>, its
  update bootloader under \<open>src/bootloader\<close> and the node link it shares with the ESP8266 node
  under \<open>src/shared/node_link\<close>. (Paths name the repository's root \<open>src\<close>.)

  The program. A bootloader authenticates an application image and hands over to it, or takes
  a new image over USB. The application boots, selects its stored configuration, starts a
  two-task scheduler and runs a production loop: it serves a management connection (frames,
  remote procedure calls into a command registry, and transfers of the configuration object
  into two flash pages), services the runtime of its applications, and composes status bar and
  text on a small display. The node link is a second protocol, a request and reply exchange
  with a worker on another processor.

  Vocabulary. \<open>Fw_Prelude\<close> holds the words of the firmware, little-endian reads and
  writes, and the lemmas all parts share; \<open>Crc_Codes\<close> the four checksum routines of the
  sources, their equality and, in the locales \<open>byte_crc\<close> and those that extend it, that
  a checksum detects a replaced byte.

  Node link (\<open>src/shared/node_link/src/deus_node_link.c\<close>). \<open>Node_Link_Codec\<close>: encoder and
  decoder. \<open>Node_Link_Stream\<close>: \<open>dnl_stream_feed\<close> with its 40 bytes. \<open>Node_Link_Fsm\<close>:
  worker and controller. \<open>Node_Link_Receive\<close>, \<open>Node_Link_Protocol\<close> and
  \<open>Node_Link_Session\<close> hold what it promises: round trips, damage is rejected, a frame is
  received after noise, replays are idempotent, a request is executed once and its retry
  recovers a lost reply.

  Management connection. \<open>Binary_Frame\<close> and \<open>Binary_Frame_Link\<close>: parser and encoder of
  \<open>binary_frame.c\<close> and their properties. \<open>Command_Service\<close>, \<open>Command_Line\<close>: the registry,
  the line parser and the checked output of \<open>command_service.c\<close>. \<open>Binary_Rpc\<close>,
  \<open>Binary_Rpc_Output\<close>, \<open>Binary_Rpc_Service\<close>: \<open>binary_rpc.c\<close>; the handler and the
  transport are arguments.

  USB (\<open>src/src/drivers/usb_device.c\<close>). \<open>Usb_Registers\<close>: endpoint registers, whose bits
  toggle or clear as the hypothesis \<open>epr_manual\<close> says, and the packet memory.
  \<open>Usb_Device\<close>, \<open>Usb_Requests\<close>: both endpoints, the requests, the interrupt handler, the
  calls of the layers above. \<open>Usb_Rings\<close>, \<open>Usb_Stream\<close>, \<open>Usb_Traffic\<close>: driver and
  peripheral as a transition system, with a call and a round of the handler as one step each, and
  the two byte streams it carries. \<open>Usb_Control\<close>: transfers on the control endpoint.
  \<open>Usb_Race\<close>: what these steps leave out, the peripheral between read and write of a register.
  \<open>Usb_Management\<close>: the service of \<open>usb_management.c\<close>, over the models of its parts.
  \<open>Usb_Bootloader_Entry\<close>, \<open>Usb_Service_Returns\<close>: its runs, the entry into the bootloader,
  and that a call returns.

  Scheduler (\<open>src/src/kernel/scheduler.c\<close>). \<open>Scheduler\<close>: tasks, stacks, selection,
  validation. \<open>Scheduler_Dispatch\<close>: SVC, PendSV, SysTick, the calls of a task; a section with
  interrupts masked is one step. \<open>Scheduler_Run\<close>: the transition system and its invariant.
  \<open>Scheduler_Wake\<close>, \<open>Scheduler_Service\<close>, \<open>Scheduler_Context\<close>: events and time-outs,
  selection and termination of a run, and that a task that is switched out keeps its context.
  \<open>Scheduler_Selftest\<close>: the start-up tests. Time-outs are compared as the code does, by the
  sign of a wrapped difference, so they are bounded by half the range of the clock.

  Configuration object. \<open>Ui_Layout\<close>: the layout and its encoding (\<open>oled_ui_layout*.c\<close>).
  \<open>Flash_Persistence\<close>: erase and program with their guards. \<open>Asset_Persistence\<close>,
  \<open>Asset_Record\<close>, \<open>Asset_Atomic\<close>, \<open>Asset_Progress\<close>, \<open>Asset_Service\<close>:
  the two-slot store of \<open>asset_persistence.c\<close>, atomic over loss of power at any halfword.
  \<open>Asset_Transfer\<close>, \<open>Asset_Session\<close>, \<open>Asset_Answers\<close>: the protocol of
  \<open>asset_transfer.c\<close>, and its refinement of an object that is replaced as a whole.

  Bootloader (\<open>src/bootloader/bootloader.c\<close>). \<open>Boot_Sha256\<close>: its SHA-256.
  \<open>Boot_Update\<close>: records, handlers, packets, the boot decision. \<open>Boot_Transfer\<close>,
  \<open>Boot_Rollback\<close>, \<open>Boot_Safety\<close>, \<open>Boot_Service\<close>, \<open>Boot_Install\<close>: pages it may
  write, the version floor, and that only an authentic image is started. \<open>Boot_Usb\<close>: token,
  clock, and the USB device with both endpoints; \<open>Boot_Wire\<close>: the floor over all that the
  bus can bring, and the way from the firmware's request into the bootloader.

  Display. \<open>Mono_Fb\<close>, \<open>Fb_Pixels\<close>: the framebuffer and its dirty spans, and the picture it
  is. \<open>Text_Renderer\<close>: both drawing paths and the fonts. \<open>I2c_Bus\<close>, \<open>Ssd1306\<close>,
  \<open>Ssd1306_Panel\<close>: the bus, the driver, the addressing of the panel's memory as its data
  sheet has it, and when the panel has the picture.
  \<open>Oled_Console\<close>, \<open>Oled_Teletype\<close>, \<open>Oled_Screen\<close>: the console, its contract, its
  pixels. \<open>Oled_Status_Bar\<close>, \<open>Status_Bar_Shown\<close>: the bar and its picture.
  \<open>Display_Selftest\<close>: the start-up tests.

  Applications. \<open>Application_Runtime\<close>, \<open>Application_Lifecycle\<close>: \<open>application_runtime.c\<close>
  and its invariant under any calls. \<open>Application_Bridge\<close>, \<open>Application_Screen\<close>:
  \<open>application_runtime_bridge.c\<close>, the text that the built-in applications and the bridge keep
  for the screen, and that a change of the services is reported once.
  \<open>Application_Commands\<close>: the text commands.

  Desktop. \<open>Desktop_Ui\<close>: the state of the system services (\<open>system_service_state.c\<close>)
  and the composition of status bar, text and view by \<open>boot_desktop_ui\<close> of
  \<open>src/src/kernel.c\<close>. \<open>Desktop_Shown\<close> and \<open>Desktop_Run\<close> compose everything below it: as
  long as the panel was sent only what its data sheet covers, a rendering that reports success
  has the present state of the system in the panel's memory, if it composes in full or nothing
  has changed the layout or the panel behind it since one that did; the runs include the
  activation of layouts and the display tests.

  Conventions. A pointer that the code tests against null is an option; one that never is null
  (an object's own address) is left out. Arrays are lists with the code's bounds checks written
  out, counters and hardware words are machine words, status codes are datatypes with the
  source's names, and every operation returns its result with the updated state. Loops over an
  index are folds over \<open>[0..<n]\<close>; loops that wait for a device count down the limit the code
  gives them, so no function needs fuel that the code does not have.

  Hypotheses. What is not in the sources is an argument: the flash controller (a function from
  an operation to its effect, with \<open>flash_works\<close> for one that does what it is told), the I2C
  peripheral (\<open>i2c_answers\<close>), the USB peripheral (\<open>epr_manual\<close>), the panel, the handlers of
  commands, the callbacks of applications, the transports, and the key of the image
  authentication. Properties that promise success assume a working device, and their witnesses
  use a concrete one. Beyond that, four places restrict a device or its timing. The panel keeps
  to \<open>gddram_spec\<close>: its memory follows the addressing of the data sheet from reset on, as long
  as it is sent whole, documented commands (\<open>orderly\<close>); after anything else nothing is known of it.
  The USB peripheral keeps to \<open>epr_manual\<close>, and in \<open>usb_run\<close> does not act within a call of
  the driver. The flash controller is unrestricted, interrupted erases and programming included,
  but a page half erased could by chance be a whole record: the atomicity of an update states
  that case in its conclusion (\<open>chance_record\<close>), the refinement of the transfer protocol excludes it
  (\<open>no_chance_record\<close>). Tasks keep their stack pointers aligned and inside their stacks with room
  for a frame (\<open>psp_room\<close>).

  Not modelled. Start-up assembly; register set-up sequences
  without a decision; the parts of \<open>src/src/kernel.c\<close> other than the desktop (boot order,
  printing commands, demonstrations, fault capture); \<open>scheduler_diagnostics.c\<close>, which prints;
  the debugger's fault injection points of \<open>asset_persistence.c\<close>; tests, scripts and the C#
  host, which are not part of the firmware.
\<close>

end
